(* ===== verification/Prelude.thy ===== *)
theory Prelude imports "HOL-Library.Word" "HOL-Library.Monad_Syntax" begin

text \<open>
  Shared vocabulary of the development: the C integer types of \<^verbatim>\<open>arch.h\<close> as
  words, C strings as byte lists without their terminator, byte-addressed loads and
  stores, and the generic lemmas on words, lists and maps the components use.

  A partial operation returns an option: \<open>None\<close> stands for a run that stops, because
  an \<^verbatim>\<open>LWIP_ASSERT\<close> or \<^verbatim>\<open>LWIP_ERROR\<close> fails (both end in
  \<^verbatim>\<open>abort()\<close> in this build, which does not define \<^verbatim>\<open>LWIP_NOASSERT\<close>), or
  because the code would touch memory that no live object owns. An error the code
  reports to its caller is a value inside \<open>Some\<close>.
\<close>

unbundle bit_operations_syntax

type_synonym u8 = "8 word"
type_synonym u16 = "16 word"
type_synonym u32 = "32 word"

text \<open>The error codes of \<^verbatim>\<open>lwip/err.h\<close>.\<close>

datatype err_t =
  ERR_OK | ERR_MEM | ERR_BUF | ERR_TIMEOUT | ERR_RTE | ERR_INPROGRESS | ERR_VAL | ERR_WOULDBLOCK
| ERR_USE | ERR_ALREADY | ERR_ISCONN | ERR_CONN | ERR_IF | ERR_ABRT | ERR_RST | ERR_CLSD | ERR_ARG

text \<open>\<^verbatim>\<open>LWIP_ASSERT\<close>: the run goes on only if the condition holds.\<close>

definition LWIP_ASSERT :: "bool \<Rightarrow> unit option" where
  "LWIP_ASSERT b = (if b then Some () else None)"

lemma LWIP_ASSERT_simps [simp]: "LWIP_ASSERT True = Some ()" "LWIP_ASSERT False = None"
  by (simp_all add: LWIP_ASSERT_def)

lemma LWIP_ASSERT_eq_Some [simp]: "LWIP_ASSERT b = Some u \<longleftrightarrow> b"
  by (simp add: LWIP_ASSERT_def)

text \<open>Facts that move word arithmetic to \<open>nat\<close>, and facts on byte memory.\<close>

named_theorems word_nat
named_theorems mem_simps

lemma unat_add_small [word_nat]:
  "unat (a :: 'a::len word) + unat b < 2 ^ LENGTH('a) \<Longrightarrow> unat (a + b) = unat a + unat b"
  by (simp add: unat_word_ariths)

lemma unat_sub_le [word_nat]:
  "unat (b :: 'a::len word) \<le> unat a \<Longrightarrow> unat (a - b) = unat a - unat b"
  by (simp add: unat_sub_if')

lemma unat_u8_less [simp]: "unat (x :: u8) < 256"
  using unsigned_less [where ?'a = nat, of x] by simp

lemma unat_u16_less [simp]: "unat (x :: u16) < 65536"
  using unsigned_less [where ?'a = nat, of x] by simp

lemma unat_u32_less [simp]: "unat (x :: u32) < 4294967296"
  using unsigned_less [where ?'a = nat, of x] by simp

lemma unat_u8_le [simp]: "unat (x :: u8) \<le> 255"
  using unat_u8_less [of x] by linarith

lemma unat_u16_le [simp]: "unat (x :: u16) \<le> 65535"
  using unat_u16_less [of x] by linarith

lemma unat_u32_le [simp]: "unat (x :: u32) \<le> 4294967295"
  using unat_u32_less [of x] by linarith

lemma unat_shiftr [word_nat]: "unat (drop_bit n (w :: 'a::len word)) = unat w div 2 ^ n"
  by (subst unat_drop_bit_eq) (simp only: drop_bit_eq_div)

lemma unat_and_mask [word_nat]: "unat (w AND mask n :: 'a::len word) = unat w mod 2 ^ n"
  by (simp only: flip: take_bit_eq_mask) (subst unsigned_take_bit_eq, simp only: take_bit_eq_mod)

lemma u32_and_ffff [word_nat]: "unat (w AND 0xFFFF :: u32) = unat w mod 65536"
  using unat_and_mask [of w 16] by (simp add: mask_numeral)

lemma u32_and_ff [word_nat]: "unat (w AND 0xFF :: u32) = unat w mod 256"
  using unat_and_mask [of w 8] by (simp add: mask_numeral)


lemma unat_ucast_up [word_nat]:
  "LENGTH('a) \<le> LENGTH('b) \<Longrightarrow> unat (ucast (w :: 'a::len word) :: 'b::len word) = unat w"
  by (simp add: unsigned_ucast_eq take_bit_nat_eq_self less_le_trans [OF unsigned_less])

lemma unat_ucast_mod: "unat (ucast (w :: 'a::len word) :: 'b::len word) = unat w mod 2 ^ LENGTH('b)"
  by (simp add: unsigned_ucast_eq take_bit_eq_mod)

lemma unat_push_small [word_nat]:
  "unat (w :: 'a::len word) * 2 ^ n < 2 ^ LENGTH('a) \<Longrightarrow> unat (push_bit n w) = unat w * 2 ^ n"
  by (subst unsigned_push_bit_eq) (simp add: push_bit_nat_def take_bit_nat_eq_self)

lemma unat_or_disjoint:
  assumes "x AND y = (0 :: 'a::len word)"
  shows "unat (x OR y) = unat x + unat y"
proof -
  have "unat x AND unat y = 0"
    using assms by (simp flip: unsigned_and_eq)
  then show ?thesis
    by (simp add: unsigned_or_eq disjunctive_add_eq_or)
qed

lemma unat_NOT: "unat (NOT x :: 'a::len word) = 2 ^ LENGTH('a) - 1 - unat x"
proof -
  have "NOT x = -1 - x" by (simp add: not_eq_complement)
  moreover have "unat (-1 :: 'a word) = 2 ^ LENGTH('a) - 1" by (simp add: unsigned_minus_1_eq_mask mask_eq_exp_minus_1)
  moreover have "unat x \<le> unat (-1 :: 'a word)" by (simp add: word_le_nat_alt[symmetric])
  ultimately show ?thesis by (simp add: unat_sub)
qed

lemma unat_of_nat_u16 [word_nat]: "n < 65536 \<Longrightarrow> unat (of_nat n :: u16) = n"
  by (simp add: unat_of_nat take_bit_nat_eq_self)

lemma unat_of_nat_u32 [word_nat]: "n < 4294967296 \<Longrightarrow> unat (of_nat n :: u32) = n"
  by (simp add: unat_of_nat take_bit_nat_eq_self)

lemma bit_u8: "bit (x :: u8) n \<Longrightarrow> n < 8"
  using bit_imp_le_length by fastforce

lemma bit_u16: "bit (x :: u16) n \<Longrightarrow> n < 16"
  using bit_imp_le_length by fastforce

lemma bit_u32: "bit (x :: u32) n \<Longrightarrow> n < 32"
  using bit_imp_le_length by fastforce

lemma unat_ucast_u8_u16 [simp]: "unat (ucast (a :: u8) :: u16) = unat a"
  by (simp add: unat_ucast_up)

lemma unat_ucast_u8_u32 [simp]: "unat (ucast (a :: u8) :: u32) = unat a"
  by (simp add: unat_ucast_up)

lemma unat_ucast_u16_u32 [simp]: "unat (ucast (a :: u16) :: u32) = unat a"
  by (simp add: unat_ucast_up)


lemma bit_le_unat: "bit (w :: 'a::len word) n \<Longrightarrow> 2 ^ n \<le> unat w"
proof -
  assume "bit w n"
  then have "bit (unat w) n" by (simp add: bit_unsigned_iff)
  then have "odd (unat w div 2 ^ n)" by (simp add: bit_iff_odd)
  then have "unat w div 2 ^ n \<noteq> 0" by (metis even_zero)
  then show ?thesis by (simp add: div_eq_0_iff not_less)
qed

text \<open>A high part shifted over a low part that fits below it.\<close>

lemma unat_push_or:
  fixes A B :: "'a::len word"
  assumes B: "unat B < 2 ^ k" and AB: "unat A * 2 ^ k + unat B < 2 ^ LENGTH('a)"
  shows "unat (push_bit k A OR B) = unat A * 2 ^ k + unat B"
proof -
  have "push_bit k A AND B = 0"
  proof (rule bit_word_eqI)
    fix n
    show "bit (push_bit k A AND B) n = bit 0 n"
      using bit_le_unat [of B n] B
      by (auto simp: bit_simps) (meson not_less order.strict_trans1 power_increasing one_le_numeral order_trans)
  qed
  then show ?thesis using AB by (simp add: unat_or_disjoint unat_push_small)
qed

end
