(* ===== verification/Chksum_alg.thy ===== *)
theory Chksum_alg imports Prelude begin

text \<open>
  The three versions of \<^verbatim>\<open>lwip_standard_chksum\<close> in
  \<^verbatim>\<open>core/inet_chksum.c\<close> (the build compiles version 2, the default of
  \<^verbatim>\<open>LWIP_CHKSUM_ALGORITHM\<close>), the byte-order functions of \<^verbatim>\<open>core/def.c\<close> they
  use, and the proof that all three compute the same ones-complement sum.

  The data is a list of bytes together with the address of its first byte, because
  versions 2 and 3 treat an odd or unaligned start specially. The host is
  little-endian, the case \<^verbatim>\<open>BYTE_ORDER == LITTLE_ENDIAN\<close> of \<^verbatim>\<open>def.h\<close>.
\<close>

section \<open>Byte order and folding\<close>

definition lwip_htons :: "u16 \<Rightarrow> u16" where
  "lwip_htons x = push_bit 8 (x AND 0x00FF) OR drop_bit 8 (x AND 0xFF00)"

definition lwip_htonl :: "u32 \<Rightarrow> u32" where
  "lwip_htonl x =
     push_bit 24 (x AND 0x000000FF) OR push_bit 8 (x AND 0x0000FF00) OR
     drop_bit 8 (x AND 0x00FF0000) OR drop_bit 24 (x AND 0xFF000000)"

definition FOLD_U32T :: "u32 \<Rightarrow> u32" where
  "FOLD_U32T u = drop_bit 16 u + (u AND 0x0000FFFF)"

definition SWAP_BYTES_IN_WORD :: "u32 \<Rightarrow> u32" where
  "SWAP_BYTES_IN_WORD w = push_bit 8 (w AND 0xFF) OR drop_bit 8 (w AND 0xFF00)"

text \<open>Little-endian loads of 16 and 32 bits, and stores to the two bytes of a \<^verbatim>\<open>u16_t\<close>.\<close>

definition ld16 :: "u8 \<Rightarrow> u8 \<Rightarrow> u16" where
  "ld16 a b = ucast a OR push_bit 8 (ucast b)"

definition ld32 :: "u8 \<Rightarrow> u8 \<Rightarrow> u8 \<Rightarrow> u8 \<Rightarrow> u32" where
  "ld32 a b c d = ucast a OR push_bit 8 (ucast b) OR push_bit 16 (ucast c) OR push_bit 24 (ucast d)"

definition set_byte0 :: "u16 \<Rightarrow> u8 \<Rightarrow> u16" where
  "set_byte0 t x = (t AND 0xFF00) OR ucast x"

definition set_byte1 :: "u16 \<Rightarrow> u8 \<Rightarrow> u16" where
  "set_byte1 t x = (t AND 0x00FF) OR push_bit 8 (ucast x)"

section \<open>Version 1: two bytes at a time in network order\<close>

fun chksum1_loop :: "u8 list \<Rightarrow> u32 \<Rightarrow> u32" where
  "chksum1_loop (a # b # r) acc =
     chksum1_loop r (acc + ucast (push_bit 8 (ucast a) OR ucast b :: u16))"
| "chksum1_loop [a] acc = acc + ucast (push_bit 8 (ucast a) :: u16)"
| "chksum1_loop [] acc = acc"

definition lwip_standard_chksum_1 :: "nat \<Rightarrow> u8 list \<Rightarrow> u16" where
  "lwip_standard_chksum_1 dataptr bs =
     (let acc = chksum1_loop bs 0;
          acc = drop_bit 16 acc + (acc AND 0x0000FFFF);
          acc = (if acc AND 0xFFFF0000 \<noteq> 0 then drop_bit 16 acc + (acc AND 0x0000FFFF) else acc)
      in lwip_htons (ucast acc))"

section \<open>Version 2: aligned 16-bit loads\<close>

fun chksum_bulk16 :: "u8 list \<Rightarrow> u32 \<Rightarrow> u32 \<times> u8 list" where
  "chksum_bulk16 (a # b # r) acc = chksum_bulk16 r (acc + ucast (ld16 a b))"
| "chksum_bulk16 r acc = (acc, r)"

definition chksum_odd_start :: "nat \<Rightarrow> u8 list \<Rightarrow> u16 \<times> u8 list" where
  "chksum_odd_start dataptr bs =
     (if odd dataptr \<and> bs \<noteq> [] then (set_byte1 0 (hd bs), tl bs) else (0, bs))"

definition chksum_tail :: "u32 \<Rightarrow> u16 \<Rightarrow> u8 list \<Rightarrow> u32" where
  "chksum_tail acc t r =
     (let t = (if r \<noteq> [] then set_byte0 t (hd r) else t) in FOLD_U32T (FOLD_U32T (acc + ucast t)))"

definition lwip_standard_chksum_2 :: "nat \<Rightarrow> u8 list \<Rightarrow> u16" where
  "lwip_standard_chksum_2 dataptr bs =
     (let (t, pb) = chksum_odd_start dataptr bs;
          (acc, r) = chksum_bulk16 pb 0;
          acc = chksum_tail acc t r;
          acc = (if odd dataptr then SWAP_BYTES_IN_WORD acc else acc)
      in ucast acc)"

section \<open>Version 3: unrolled 32-bit loads with the carry added back\<close>

definition add_back_carry :: "u32 \<Rightarrow> u32 \<Rightarrow> u32" where
  "add_back_carry acc x = (let tmp = acc + x in if tmp < acc then tmp + 1 else tmp)"

fun chksum_bulk64 :: "u8 list \<Rightarrow> u32 \<Rightarrow> u32 \<times> u8 list" where
  "chksum_bulk64 (a # b # c # d # e # f # g # h # r) acc =
     chksum_bulk64 r (add_back_carry (add_back_carry acc (ld32 a b c d)) (ld32 e f g h))"
| "chksum_bulk64 r acc = (acc, r)"

definition chksum_align4 :: "nat \<Rightarrow> u8 list \<Rightarrow> u32 \<times> u8 list" where
  "chksum_align4 ps bs =
     (if ps mod 4 \<noteq> 0 \<and> length bs > 1 then (ucast (ld16 (hd bs) (hd (tl bs))), tl (tl bs))
      else (0, bs))"

definition lwip_standard_chksum_3 :: "nat \<Rightarrow> u8 list \<Rightarrow> u16" where
  "lwip_standard_chksum_3 dataptr bs =
     (let (t, pb) = chksum_odd_start dataptr bs;
          ps = dataptr + (length bs - length pb);
          (acc, pl) = chksum_align4 ps pb;
          (acc, r) = chksum_bulk64 pl acc;
          acc = FOLD_U32T acc;
          (acc, r) = chksum_bulk16 r acc;
          acc = chksum_tail acc t r;
          acc = (if odd dataptr then SWAP_BYTES_IN_WORD acc else acc)
      in ucast acc)"


section \<open>The sum the three versions compute\<close>

text \<open>
  \<open>be_sum\<close> and \<open>le_sum\<close> are the unbounded sums of the 16-bit words of the data in
  network order and in host order, a last odd byte padded with zero. \<open>oc\<close> reduces a
  sum as folding the carries does: to the representative of its residue modulo 65535
  in 1..65535, zero only for zero.
\<close>

fun be_sum :: "u8 list \<Rightarrow> nat" where
  "be_sum (a # b # r) = 256 * unat a + unat b + be_sum r"
| "be_sum [a] = 256 * unat a"
| "be_sum [] = 0"

fun le_sum :: "u8 list \<Rightarrow> nat" where
  "le_sum (a # b # r) = unat a + 256 * unat b + le_sum r"
| "le_sum [a] = unat a"
| "le_sum [] = 0"

definition oc :: "nat \<Rightarrow> nat" where
  "oc n = (if n = 0 then 0 else (n - 1) mod 65535 + 1)"

lemma oc_0 [simp]: "oc 0 = 0"
  by (simp add: oc_def)

lemma oc_le: "oc n \<le> 65535"
  by (simp add: oc_def) (metis less_Suc_eq_le mod_less_divisor zero_less_numeral eval_nat_numeral(3) Suc_le_eq)

lemma oc_small: "n \<le> 65535 \<Longrightarrow> oc n = n"
  by (auto simp: oc_def)

lemma oc_eq_0 [simp]: "oc n = 0 \<longleftrightarrow> n = 0"
  by (simp add: oc_def)

lemma oc_mod: "oc n mod 65535 = n mod 65535"
proof (cases n)
  case (Suc m)
  then show ?thesis
    by (simp add: oc_def mod_Suc_eq)
qed simp

lemma oc_cong:
  assumes "m mod 65535 = n mod 65535" and "m = 0 \<longleftrightarrow> n = 0"
  shows "oc m = oc n"
proof (cases "m = 0")
  case False
  then obtain m' n' where "m = Suc m'" "n = Suc n'"
    using assms(2) by (metis not0_implies_Suc)
  moreover from this assms(1) have "m' mod 65535 = n' mod 65535"
    by (simp add: mod_Suc split: if_splits)
  ultimately show ?thesis by (simp add: oc_def)
qed (use assms in auto)


lemma le_sum_0: "le_sum bs = 0 \<longleftrightarrow> be_sum bs = 0"
  by (induction bs rule: be_sum.induct) auto

lemma mod_65536: "(65536 * a + b) mod 65535 = (a + b) mod (65535 :: nat)"
proof -
  have "65536 * a + b = (a + b) + 65535 * a" by simp
  then show ?thesis by (metis mod_mult_self2)
qed

lemma le_sum_be_sum: "le_sum bs mod 65535 = 256 * be_sum bs mod 65535"
proof (induction bs rule: be_sum.induct)
  case (1 a b r)
  have "256 * be_sum (a # b # r) = 65536 * unat a + (256 * unat b + 256 * be_sum r)"
    by (simp add: algebra_simps)
  then have "256 * be_sum (a # b # r) mod 65535 = (unat a + 256 * unat b + 256 * be_sum r) mod 65535"
    by (simp only: mod_65536 add.assoc)
  also have "\<dots> = (unat a + 256 * unat b + le_sum r) mod 65535"
    using 1 by (metis mod_add_right_eq)
  finally show ?case by simp
next
  case (2 a)
  show ?case using mod_65536 [of "unat a" 0] by simp
qed simp

lemma be_sum_le_sum: "be_sum bs mod 65535 = 256 * le_sum bs mod 65535"
proof -
  have "256 * le_sum bs mod 65535 = 256 * (256 * be_sum bs) mod 65535"
    using le_sum_be_sum [of bs] by (metis mod_mult_right_eq)
  also have "\<dots> = be_sum bs mod 65535" using mod_65536 [of "be_sum bs" 0] by simp
  finally show ?thesis by simp
qed

lemma le_sum_bound: "le_sum bs \<le> 65535 * ((length bs + 1) div 2)"
proof (induction bs rule: le_sum.induct)
  case (1 a b r)
  have "unat a + 256 * unat b \<le> 65535"
    using unat_u8_le [of a] unat_u8_le [of b] by linarith
  with 1 show ?case by simp
next
  case (2 a)
  show ?case using unat_u8_le [of a] by (simp del: unat_u8_le) 
qed simp

lemma be_sum_bound: "be_sum bs \<le> 65535 * ((length bs + 1) div 2)"
proof (induction bs rule: be_sum.induct)
  case (1 a b r)
  have "256 * unat a + unat b \<le> 65535"
    using unat_u8_le [of a] unat_u8_le [of b] by linarith
  with 1 show ?case by simp
next
  case (2 a)
  show ?case using unat_u8_le [of a] by (simp del: unat_u8_le)
qed simp

section \<open>Words of the code as numbers\<close>

lemma unat_ld16: "unat (ld16 a b) = unat a + 256 * unat b"
proof -
  have "(ucast a :: u16) AND push_bit 8 (ucast b) = 0"
    by (rule bit_word_eqI) (auto simp: bit_simps dest: bit_u8)
  moreover have "unat b * 256 < 65536" using unat_u8_less [of b] by linarith
  ultimately show ?thesis
    by (simp add: ld16_def unat_or_disjoint unat_push_small)
qed

lemma unat_ld32: "unat (ld32 a b c d) = unat a + 256 * unat b + 65536 * unat c + 16777216 * unat d"
proof -
  have "(ucast a OR push_bit 8 (ucast b) OR push_bit 16 (ucast c) :: u32) AND push_bit 24 (ucast d) = 0"
    "(ucast a OR push_bit 8 (ucast b) :: u32) AND push_bit 16 (ucast c) = 0"
    "(ucast a :: u32) AND push_bit 8 (ucast b) = 0"
    by (rule bit_word_eqI; auto simp: bit_simps dest: bit_u8)+
  moreover have "unat b * 256 < 4294967296" "unat c * 65536 < 4294967296" "unat d * 16777216 < 4294967296"
    using unat_u8_less [of b] unat_u8_less [of c] unat_u8_less [of d] by linarith+
  ultimately show ?thesis
    by (simp add: ld32_def unat_or_disjoint unat_push_small flip: or.assoc)
qed

lemma unat_be16: "unat (push_bit 8 (ucast (a :: u8)) OR ucast (b :: u8) :: u16) = 256 * unat a + unat b"
proof -
  have "push_bit 8 (ucast a) OR ucast b = ld16 b a"
    by (simp add: ld16_def or.commute)
  then show ?thesis by (simp add: unat_ld16)
qed

lemma unat_FOLD: "unat (FOLD_U32T u) = unat u div 65536 + unat u mod 65536"
proof -
  have "unat u div 65536 \<le> 65535" using unat_u32_less [of u] by linarith
  then have "unat u div 65536 + unat u mod 65536 < 2 ^ 32"
    using mod_less_divisor [of 65536 "unat u"] by simp
  then show ?thesis
    by (simp add: FOLD_U32T_def unat_add_small unat_shiftr u32_and_ffff)
qed

lemma fold_nat_mod: "(n div 65536 + n mod 65536) mod 65535 = n mod (65535::nat)"
  using mod_65536 [of "n div 65536" "n mod 65536"] by simp

lemma fold_nat_le:
  fixes a b :: nat
  assumes "a \<le> 65535" and "b \<le> 65535"
  shows "(a + b) div 65536 + (a + b) mod 65536 \<le> 65535"
proof (cases "a + b < 65536")
  case False
  define c where "c = a + b - 65536"
  have "a + b = 65536 + c" and "c \<le> 65534"
    using False assms by (auto simp: c_def)
  then show ?thesis by simp
qed simp

lemma fold_nat_0: "n div 65536 + n mod 65536 = 0 \<longleftrightarrow> n = (0::nat)"
  using div_mult_mod_eq [of n 65536] by (metis add_is_0 div_0 mod_0 mult_0)

lemma unat_FOLD_FOLD: "unat (FOLD_U32T (FOLD_U32T u)) = oc (unat u)"
proof -
  let ?n = "unat u"
  let ?f = "\<lambda>n::nat. n div 65536 + n mod 65536"
  have "?n div 65536 \<le> 65535" using unat_u32_less [of u] by linarith
  moreover have "?n mod 65536 \<le> 65535" using mod_less_divisor [of 65536 ?n] by simp
  ultimately have le2: "?f (?f ?n) \<le> 65535" by (simp add: fold_nat_le)
  have "oc (?f (?f ?n)) = oc ?n"
    by (rule oc_cong) (simp_all only: fold_nat_mod fold_nat_0)
  with le2 show ?thesis by (simp add: unat_FOLD oc_small)
qed


definition swap_nat :: "nat \<Rightarrow> nat" where
  "swap_nat m = m mod 256 * 256 + m div 256"

lemma unat_SWAP:
  assumes "unat w \<le> 65535"
  shows "unat (SWAP_BYTES_IN_WORD w) = swap_nat (unat w)"
proof -
  have d: "drop_bit 8 (w AND 0xFF00) = drop_bit 8 w AND 0xFF" by simp
  define A B where "A = w AND 0xFF" and "B = drop_bit 8 w AND 0xFF"
  have "unat A = unat w mod 256" and "unat B = unat w div 256"
    using assms by (simp_all add: A_def B_def u32_and_ff unat_shiftr)
  moreover have "unat w mod 256 < 256" "unat w div 256 < 256"
    using assms mod_less_divisor [of 256 "unat w"] by linarith+
  ultimately show ?thesis
    unfolding SWAP_BYTES_IN_WORD_def d A_def [symmetric] B_def [symmetric]
    by (subst unat_push_or) (simp_all add: swap_nat_def)
qed

lemma unat_htons: "unat (lwip_htons x) = swap_nat (unat x)"
proof -
  have d: "drop_bit 8 (x AND 0xFF00) = drop_bit 8 x AND 0xFF" by simp
  define A B where "A = x AND 0xFF" and "B = drop_bit 8 x AND 0xFF"
  have r: "unat x mod 256 < 256" "unat x div 256 < 256"
    using unat_u16_less [of x] mod_less_divisor [of 256 "unat x"] by linarith+
  moreover have "unat A = unat x mod 256" and "unat B = unat x div 256"
    using r unat_and_mask [of x 8] unat_and_mask [of "drop_bit 8 x" 8]
    by (simp_all add: A_def B_def unat_shiftr mask_numeral)
  ultimately show ?thesis
    unfolding lwip_htons_def d A_def [symmetric] B_def [symmetric]
    by (subst unat_push_or) (simp_all add: swap_nat_def)
qed

lemma swap_nat_le: "m \<le> 65535 \<Longrightarrow> swap_nat m \<le> 65535"
proof -
  assume "m \<le> 65535"
  then have "m div 256 \<le> 255" by linarith
  moreover have "m mod 256 \<le> 255" using mod_less_divisor [of 256 m] by linarith
  ultimately show ?thesis by (simp add: swap_nat_def)
qed

lemma swap_nat_swap: "m \<le> 65535 \<Longrightarrow> swap_nat (swap_nat m) = m"
proof -
  assume "m \<le> 65535"
  then have "m div 256 < 256" by linarith
  then show ?thesis by (simp add: swap_nat_def)
qed

lemma swap_nat_oc:
  assumes "m \<le> 65535"
  shows "swap_nat m = oc (256 * m)"
proof -
  have "256 * m = 65536 * (m div 256) + 256 * (m mod 256)"
    using mult_div_mod_eq [of 256 m] by linarith
  then have "256 * m mod 65535 = swap_nat m mod 65535"
    using mod_65536 [of "m div 256" "256 * (m mod 256)"] by (simp add: swap_nat_def add.commute mult.commute)
  moreover have "256 * m = 0 \<longleftrightarrow> swap_nat m = 0"
    using div_mult_mod_eq [of m 256] by (auto simp: swap_nat_def)
  ultimately have "oc (256 * m) = oc (swap_nat m)" by (rule oc_cong)
  then show ?thesis using swap_nat_le [OF assms] by (simp add: oc_small)
qed

lemma swap_oc: "swap_nat (oc n) = oc (256 * n)"
proof -
  have "256 * oc n mod 65535 = 256 * n mod 65535"
    using oc_mod [of n] by (metis mod_mult_right_eq)
  then have "oc (256 * oc n) = oc (256 * n)" by (rule oc_cong) simp
  then show ?thesis using swap_nat_oc [OF oc_le] by simp
qed

lemma oc_le_be: "oc (le_sum bs) = oc (256 * be_sum bs)"
  by (rule oc_cong) (simp_all add: le_sum_be_sum le_sum_0)

lemma oc_be_le: "oc (be_sum bs) = oc (256 * le_sum bs)"
  by (rule oc_cong) (simp_all add: be_sum_le_sum le_sum_0)

section \<open>The three versions agree\<close>

text \<open>The common value: the folded sum of the host-order words.\<close>

definition chksum_spec :: "u8 list \<Rightarrow> u16" where
  "chksum_spec bs = of_nat (oc (le_sum bs))"

lemma unat_chksum_spec: "unat (chksum_spec bs) = oc (le_sum bs)"
  using oc_le [of "le_sum bs"] by (simp add: chksum_spec_def unat_of_nat take_bit_nat_eq_self)

lemma chksum1_loop_sum:
  "unat acc + be_sum bs < 2 ^ 32 \<Longrightarrow> unat (chksum1_loop bs acc) = unat acc + be_sum bs"
proof (induction bs acc rule: chksum1_loop.induct)
  case (1 a b r acc)
  let ?w = "ucast (push_bit 8 (ucast a) OR ucast b :: u16) :: u32"
  have w: "unat ?w = 256 * unat a + unat b" by (simp add: unat_be16)
  have "unat (acc + ?w) = unat acc + (256 * unat a + unat b)"
    using 1(2) by (subst unat_add_small) (simp_all only: w be_sum.simps, simp)
  with 1 show ?case by simp
next
  case (2 a acc)
  have "unat (push_bit 8 (ucast a) :: u16) = 256 * unat a"
    using unat_u8_less [of a] by (subst unat_push_small) simp_all
  with 2 show ?case by (simp add: unat_add_small)
qed simp

lemma be_sum_small: "length bs \<le> 0x20000 \<Longrightarrow> be_sum bs < 2 ^ 32"
proof -
  assume "length bs \<le> 0x20000"
  then have "(length bs + 1) div 2 \<le> 65536" by linarith
  then have "65535 * ((length bs + 1) div 2) \<le> 65535 * 65536" by (rule mult_le_mono2)
  with be_sum_bound [of bs] show ?thesis by simp
qed

lemma FOLD_skip:
  assumes "u AND 0xFFFF0000 = 0"
  shows "FOLD_U32T u = u"
proof -
  have "drop_bit 16 u AND 0xFFFF = drop_bit 16 (u AND 0xFFFF0000)" by simp
  then have "unat (drop_bit 16 u AND 0xFFFF) = 0" using assms by (simp only: drop_bit_of_0 unsigned_0)
  then have "unat u div 65536 mod 65536 = 0"
    by (simp only: u32_and_ffff unat_shiftr) simp
  moreover have "unat u div 65536 < 65536" using unat_u32_less [of u] by linarith
  ultimately have "unat u div 65536 = 0" by simp
  then have "unat (FOLD_U32T u) = unat u"
    using div_mult_mod_eq [of "unat u" 65536] by (simp add: unat_FOLD)
  then show ?thesis by (simp add: word_unat_eq_iff)
qed

lemma lwip_standard_chksum_1_value:
  assumes "length bs \<le> 0x20000"
  shows "lwip_standard_chksum_1 p bs = chksum_spec bs"
proof -
  let ?acc = "chksum1_loop bs 0"
  let ?f = "FOLD_U32T ?acc"
  have acc: "unat ?acc = be_sum bs"
    using chksum1_loop_sum [of 0 bs] be_sum_small [OF assms] by simp
  have skip: "FOLD_U32T ?f = ?f" if "?f AND 0xFFFF0000 = 0"
    using that by (rule FOLD_skip)
  have "lwip_standard_chksum_1 p bs = lwip_htons (ucast (FOLD_U32T ?f))"
    using skip by (simp add: lwip_standard_chksum_1_def Let_def FOLD_U32T_def)
  moreover have "unat (ucast (FOLD_U32T ?f) :: u16) = oc (be_sum bs)"
    using oc_le [of "be_sum bs"] by (simp add: unat_ucast_mod unat_FOLD_FOLD acc)
  ultimately have "unat (lwip_standard_chksum_1 p bs) = unat (chksum_spec bs)"
    by (simp add: unat_htons swap_oc unat_chksum_spec oc_le_be)
  then show ?thesis by (simp add: word_unat_eq_iff)
qed


text \<open>Version 2: what each part of the routine contributes.\<close>

lemma chksum_bulk16_sum:
  "chksum_bulk16 bs acc = (acc', r) \<Longrightarrow> unat acc + le_sum bs < 2 ^ 32 \<Longrightarrow>
   unat acc' + le_sum r = unat acc + le_sum bs \<and> length r \<le> 1"
proof (induction bs acc rule: chksum_bulk16.induct)
  case (1 a b r' acc)
  have "unat (acc + ucast (ld16 a b)) = unat acc + (unat a + 256 * unat b)"
    using 1(3) by (subst unat_add_small) (simp_all add: unat_ld16)
  with 1 show ?case by simp
qed auto

lemma be_sum_Cons: "be_sum (x # xs) = 256 * unat x + le_sum xs"
  and le_sum_Cons: "le_sum (x # xs) = unat x + be_sum xs"
proof -
  have "be_sum (x # xs) = 256 * unat x + le_sum xs \<and> le_sum (x # xs) = unat x + be_sum xs"
  proof (induction xs arbitrary: x)
    case (Cons y ys)
    then show ?case by (cases ys) auto
  qed simp
  then show "be_sum (x # xs) = 256 * unat x + le_sum xs"
    and "le_sum (x # xs) = unat x + be_sum xs" by auto
qed

lemma oc_add_cong:
  assumes "oc a = oc c"
  shows "oc (b + a) = oc (b + c)"
proof (rule oc_cong)
  have "a mod 65535 = c mod 65535" using assms oc_mod by metis
  then show "(b + a) mod 65535 = (b + c) mod 65535" by (metis mod_add_right_eq)
  show "b + a = 0 \<longleftrightarrow> b + c = 0" using assms oc_eq_0 by (metis add_is_0)
qed

lemma unat_set_byte1: "unat (set_byte1 0 x) = 256 * unat x"
  using unat_u8_less [of x] by (simp add: set_byte1_def unat_push_small)

lemma unat_set_byte0: "unat (set_byte0 0 x) = unat x"
  by (simp add: set_byte0_def)

lemma unat_set_byte01: "unat (set_byte0 (set_byte1 0 y) x) = 256 * unat y + unat x"
proof -
  have e: "(0xFF00 :: u16) = push_bit 8 (mask 8)" by (simp add: mask_numeral)
  have "set_byte0 (set_byte1 0 y) x = push_bit 8 (ucast y) OR ucast x"
    unfolding set_byte0_def set_byte1_def e
    by (rule bit_word_eqI) (auto simp: bit_simps dest: bit_u8)
  then show ?thesis by (simp add: unat_be16)
qed

lemma chksum_tail_value:
  assumes "unat acc + 65535 < 2 ^ 32" and "length r \<le> 1"
    and "t = (case x of None \<Rightarrow> 0 | Some y \<Rightarrow> set_byte1 0 y)"
  shows "unat (chksum_tail acc t r) =
    oc ((case x of None \<Rightarrow> 0 | Some y \<Rightarrow> 256 * unat y) + (unat acc + le_sum r))"
proof -
  let ?t = "if r \<noteq> [] then set_byte0 t (hd r) else t"
  have t: "unat ?t = (case x of None \<Rightarrow> 0 | Some y \<Rightarrow> 256 * unat y) + le_sum r"
    using assms(2,3)
    by (cases r; cases x) (auto simp: unat_set_byte0 unat_set_byte1 unat_set_byte01)
  have "unat acc + unat ?t < 2 ^ 32"
    using assms(1) unat_u16_le [of ?t] by linarith
  then have "unat (acc + ucast ?t) = unat acc + unat ?t"
    by (subst unat_add_small) simp_all
  then show ?thesis
    unfolding chksum_tail_def Let_def by (simp only: unat_FOLD_FOLD t) (simp add: algebra_simps)
qed

text \<open>The end of versions 2 and 3: the last bytes, two folds, and the swap for an odd start.\<close>

lemma chksum_finish:
  assumes start: "chksum_odd_start p bs = (t, pb)" and r: "length r \<le> 1"
    and acc: "unat acc + 65535 < 2 ^ 32" and eq: "oc (unat acc + le_sum r) = oc (le_sum pb)"
  shows "ucast (if odd p then SWAP_BYTES_IN_WORD (chksum_tail acc t r) else chksum_tail acc t r)
    = chksum_spec bs"
proof -
  let ?s = "chksum_tail acc t r"
  have "unat (if odd p then SWAP_BYTES_IN_WORD ?s else ?s) = oc (le_sum bs)"
  proof (cases "odd p \<and> bs \<noteq> []")
    case True
    then obtain x where bs: "bs = x # pb" and t: "t = set_byte1 0 x"
      using start by (cases bs) (auto simp: chksum_odd_start_def)
    have "unat ?s = oc (256 * unat x + (unat acc + le_sum r))"
      using chksum_tail_value [OF acc r, of t "Some x"] t by simp
    also have "\<dots> = oc (be_sum bs)"
      using oc_add_cong [OF eq] by (simp add: bs be_sum_Cons)
    finally have s: "unat ?s = oc (be_sum bs)" .
    then have "unat (SWAP_BYTES_IN_WORD ?s) = oc (le_sum bs)"
      using oc_le by (simp add: unat_SWAP swap_oc oc_le_be)
    with True show ?thesis by simp
  next
    case False
    then have t: "t = 0" and pb: "pb = bs"
      using start by (auto simp: chksum_odd_start_def)
    have s: "unat ?s = oc (le_sum bs)"
      using chksum_tail_value [OF acc r, of t None] t eq pb by simp
    show ?thesis
    proof (cases "odd p")
      case True
      with False have "bs = []" by simp
      with s have "unat ?s = 0" by simp
      then have "unat (SWAP_BYTES_IN_WORD ?s) = 0"
        by (subst unat_SWAP) (simp_all add: swap_nat_def)
      with True \<open>bs = []\<close> show ?thesis by simp
    qed (simp add: s)
  qed
  then have "unat (ucast (if odd p then SWAP_BYTES_IN_WORD ?s else ?s) :: u16) = unat (chksum_spec bs)"
    using oc_le [of "le_sum bs"] by (simp only: unat_ucast_mod unat_chksum_spec) simp
  then show ?thesis by (simp add: word_unat_eq_iff)
qed

lemma length_odd_start: "chksum_odd_start p bs = (t, pb) \<Longrightarrow> length pb \<le> length bs"
  by (auto simp: chksum_odd_start_def split: if_splits)

lemma lwip_standard_chksum_2_value:
  assumes len: "length bs \<le> 0x20000"
  shows "lwip_standard_chksum_2 p bs = chksum_spec bs"
proof -
  obtain t pb where start: "chksum_odd_start p bs = (t, pb)" by fastforce
  obtain acc r where bulk: "chksum_bulk16 pb 0 = (acc, r)" by fastforce
  have "(length pb + 1) div 2 \<le> 65536" using length_odd_start [OF start] len by linarith
  then have "65535 * ((length pb + 1) div 2) \<le> 65535 * 65536" by (rule mult_le_mono2)
  then have small: "le_sum pb + 65535 < 2 ^ 32" using le_sum_bound [of pb] by simp
  with chksum_bulk16_sum [OF bulk]
  have "unat acc + le_sum r = le_sum pb" and r: "length r \<le> 1" by simp_all
  with small chksum_finish [OF start r, of acc] show ?thesis
    by (simp add: lwip_standard_chksum_2_def start bulk)
qed


text \<open>Version 3: adding a carry back keeps the residue and keeps zero apart from the rest.\<close>

lemma add_back_carry_oc: "oc (unat (add_back_carry s x)) = oc (unat s + unat x)"
proof (cases "unat s + unat x < 2 ^ 32")
  case True
  then have "unat (s + x) = unat s + unat x" by (simp add: unat_add_small)
  then have "\<not> s + x < s" by (simp add: word_less_nat_alt)
  with \<open>unat (s + x) = _\<close> show ?thesis by (simp add: add_back_carry_def)
next
  case False
  define d where "d = unat s + unat x - 2 ^ 32"
  have "unat x < 2 ^ 32" "unat s < 2 ^ 32" by simp_all
  with False have d: "d < 2 ^ 32 - 1" and lt: "d < unat s" unfolding d_def by linarith+
  have sum: "unat s + unat x = d + 2 ^ 32" using False by (simp add: d_def)
  then have "unat (s + x) = d"
    using d by (simp only: unat_word_ariths sum) (simp add: mod_add_right_eq)
  then have "s + x < s" and "unat (s + x + 1) = d + 1"
    using d lt by (simp add: word_less_nat_alt, subst unat_add_small) simp_all
  then have "unat (add_back_carry s x) = d + 1" by (simp add: add_back_carry_def)
  moreover have "oc (d + 1) = oc (unat s + unat x)"
  proof (rule oc_cong)
    have "d + 2 ^ 32 = d + 1 + 65535 * 65537" by simp
    then show "(d + 1) mod 65535 = (unat s + unat x) mod 65535"
      unfolding sum by (metis mod_mult_self2 mult.commute)
    show "d + 1 = 0 \<longleftrightarrow> unat s + unat x = 0" unfolding sum by simp
  qed
  ultimately show ?thesis by simp
qed

lemma oc_ld32: "oc (n + unat (ld32 a b c d)) = oc (n + le_sum [a, b, c, d])"
proof (rule oc_add_cong, rule oc_cong)
  have "unat (ld32 a b c d) = le_sum [a, b, c, d] + 65535 * (unat c + 256 * unat d)"
    by (simp add: unat_ld32)
  then show "unat (ld32 a b c d) mod 65535 = le_sum [a, b, c, d] mod 65535"
    by (metis mod_mult_self2)
  show "unat (ld32 a b c d) = 0 \<longleftrightarrow> le_sum [a, b, c, d] = 0"
    by (simp add: unat_ld32)
qed

lemma chksum_bulk64_sum:
  "chksum_bulk64 bs acc = (acc', r) \<Longrightarrow>
   oc (unat acc' + le_sum r) = oc (unat acc + le_sum bs) \<and> length r \<le> 7"
proof (induction bs acc rule: chksum_bulk64.induct)
  case (1 a b c d e f g h r' acc)
  let ?w = "unat (ld32 a b c d)" and ?w' = "unat (ld32 e f g h)"
  let ?s = "add_back_carry acc (ld32 a b c d)"
  have "oc (unat (add_back_carry ?s (ld32 e f g h))) = oc (unat acc + ?w + ?w')"
    using oc_add_cong [OF add_back_carry_oc [of acc "ld32 a b c d"], of ?w']
    by (simp add: add_back_carry_oc add.commute)
  also have "\<dots> = oc (unat acc + ?w + le_sum [e, f, g, h])" by (rule oc_ld32)
  also have "\<dots> = oc (unat acc + le_sum [e, f, g, h] + ?w)" by (simp add: ac_simps)
  also have "\<dots> = oc (unat acc + le_sum [e, f, g, h] + le_sum [a, b, c, d])" by (rule oc_ld32)
  finally have "oc (le_sum r' + unat (add_back_carry ?s (ld32 e f g h)))
      = oc (le_sum r' + (unat acc + le_sum [e, f, g, h] + le_sum [a, b, c, d]))"
    by (rule oc_add_cong)
  with 1 show ?case by (simp add: ac_simps)
qed auto

lemma le_sum_tiny: "length r \<le> 7 \<Longrightarrow> le_sum r \<le> 65535 * 4"
proof -
  assume "length r \<le> 7"
  then have "(length r + 1) div 2 \<le> 4" by linarith
  then have "65535 * ((length r + 1) div 2) \<le> 65535 * 4" by (rule mult_le_mono2)
  with le_sum_bound [of r] show ?thesis by linarith
qed

lemma chksum_align4_sum:
  "chksum_align4 ps bs = (acc, pl) \<Longrightarrow> unat acc + le_sum pl = le_sum bs"
  by (cases bs rule: le_sum.cases) (auto simp: chksum_align4_def unat_ld16 split: if_splits)

lemma lwip_standard_chksum_3_value: "lwip_standard_chksum_3 p bs = chksum_spec bs"
proof -
  obtain t pb where start: "chksum_odd_start p bs = (t, pb)" by fastforce
  obtain a1 pl where al: "chksum_align4 (p + (length bs - length pb)) pb = (a1, pl)" by fastforce
  obtain a2 r2 where b64: "chksum_bulk64 pl a1 = (a2, r2)" by fastforce
  let ?a3 = "FOLD_U32T a2"
  obtain a4 r4 where b16: "chksum_bulk16 r2 ?a3 = (a4, r4)" by fastforce
  have "unat a2 div 65536 \<le> 65535" using unat_u32_less [of a2] by linarith
  then have a3: "unat ?a3 \<le> 131070" using mod_less_divisor [of 65536 "unat a2"] by (simp add: unat_FOLD)
  have oc3: "oc (unat ?a3) = oc (unat a2)"
    by (rule oc_cong) (simp_all only: unat_FOLD fold_nat_mod fold_nat_0)
  have b: "oc (unat a2 + le_sum r2) = oc (le_sum pb)" "length r2 \<le> 7"
    using chksum_bulk64_sum [OF b64] chksum_align4_sum [OF al] by simp_all
  have s: "unat ?a3 + le_sum r2 \<le> 131070 + 65535 * 4" using a3 le_sum_tiny [OF b(2)] by linarith
  then have a4: "unat a4 + le_sum r4 = unat ?a3 + le_sum r2" "length r4 \<le> 1"
    using chksum_bulk16_sum [OF b16] by simp_all
  have "oc (unat a4 + le_sum r4) = oc (le_sum pb)"
    unfolding a4(1) using oc_add_cong [OF oc3, of "le_sum r2"] b(1) by (simp add: add.commute)
  moreover have "unat a4 + 65535 < 2 ^ 32" using a4(1) s by simp
  ultimately show ?thesis
    using chksum_finish [OF start a4(2)]
    by (simp add: lwip_standard_chksum_3_def start al b64 b16)
qed

end
