(* ===== verification/Ip_addr.thy ===== *)
theory Ip_addr imports Chksum_alg begin

text \<open>
  Addresses: the union \<^verbatim>\<open>ip_addr_t\<close> of \<^verbatim>\<open>ip_addr.h\<close>, the address macros
  the core uses, the functions of \<^verbatim>\<open>core/ipv4/ip4_addr.c\<close>, and the fields of
  \<^verbatim>\<open>struct netif\<close> they read. IPv6 scopes are off (\<^verbatim>\<open>LWIP_SINGLE_NETIF\<close>),
  so an IPv6 address is its four words.
\<close>

section \<open>Address types\<close>

type_synonym ip4_addr_t = u32

record ip6_addr_t =
  addr0 :: u32
  addr1 :: u32
  addr2 :: u32
  addr3 :: u32

definition ip6_words :: "ip6_addr_t \<Rightarrow> u32 list" where
  "ip6_words a = [addr0 a, addr1 a, addr2 a, addr3 a]"

text \<open>\<^verbatim>\<open>u_addr\<close> is a union: the IPv4 address is its first word.\<close>

record ip_addr_t =
  u_addr :: ip6_addr_t
  ip_type :: u8

definition IPADDR_TYPE_V4 :: u8 where "IPADDR_TYPE_V4 = 0"
definition IPADDR_TYPE_V6 :: u8 where "IPADDR_TYPE_V6 = 6"
definition IPADDR_TYPE_ANY :: u8 where "IPADDR_TYPE_ANY = 46"

definition ip_2_ip4 :: "ip_addr_t \<Rightarrow> ip4_addr_t" where
  "ip_2_ip4 a = addr0 (u_addr a)"

definition ip_2_ip6 :: "ip_addr_t \<Rightarrow> ip6_addr_t" where
  "ip_2_ip6 a = u_addr a"

definition IP_IS_V6_VAL :: "ip_addr_t \<Rightarrow> bool" where
  "IP_IS_V6_VAL a \<longleftrightarrow> ip_type a = IPADDR_TYPE_V6"

definition IP_IS_V4_VAL :: "ip_addr_t \<Rightarrow> bool" where
  "IP_IS_V4_VAL a \<longleftrightarrow> ip_type a = IPADDR_TYPE_V4"

definition IP_IS_ANY_TYPE_VAL :: "ip_addr_t \<Rightarrow> bool" where
  "IP_IS_ANY_TYPE_VAL a \<longleftrightarrow> ip_type a = IPADDR_TYPE_ANY"

definition ip6_of_ip4 :: "ip4_addr_t \<Rightarrow> ip6_addr_t" where
  "ip6_of_ip4 a = \<lparr>addr0 = a, addr1 = 0, addr2 = 0, addr3 = 0\<rparr>"

definition ip_addr_copy_from_ip4 :: "ip4_addr_t \<Rightarrow> ip_addr_t" where
  "ip_addr_copy_from_ip4 a = \<lparr>u_addr = ip6_of_ip4 a, ip_type = IPADDR_TYPE_V4\<rparr>"

definition ip_addr_copy_from_ip6 :: "ip6_addr_t \<Rightarrow> ip_addr_t" where
  "ip_addr_copy_from_ip6 a = \<lparr>u_addr = a, ip_type = IPADDR_TYPE_V6\<rparr>"

definition ip_addr_copy :: "ip_addr_t \<Rightarrow> ip_addr_t" where
  "ip_addr_copy src =
     (if IP_IS_V6_VAL src then src else src\<lparr>u_addr := ip6_of_ip4 (ip_2_ip4 src)\<rparr>)"

definition ip_addr_any :: ip_addr_t where
  "ip_addr_any = ip_addr_copy_from_ip4 0"

definition ip_addr_any_type :: ip_addr_t where
  "ip_addr_any_type = \<lparr>u_addr = ip6_of_ip4 0, ip_type = IPADDR_TYPE_ANY\<rparr>"

definition ip6_addr_cmp :: "ip6_addr_t \<Rightarrow> ip6_addr_t \<Rightarrow> bool" where
  "ip6_addr_cmp a b \<longleftrightarrow> addr0 a = addr0 b \<and> addr1 a = addr1 b \<and> addr2 a = addr2 b \<and> addr3 a = addr3 b"

definition ip6_addr_isany :: "ip6_addr_t \<Rightarrow> bool" where
  "ip6_addr_isany a \<longleftrightarrow> addr0 a = 0 \<and> addr1 a = 0 \<and> addr2 a = 0 \<and> addr3 a = 0"

definition ip_addr_cmp :: "ip_addr_t \<Rightarrow> ip_addr_t \<Rightarrow> bool" where
  "ip_addr_cmp a b \<longleftrightarrow>
     (if ip_type a \<noteq> ip_type b then False
      else if IP_IS_V6_VAL a then ip6_addr_cmp (ip_2_ip6 a) (ip_2_ip6 b)
      else ip_2_ip4 a = ip_2_ip4 b)"

definition ip_addr_isany :: "ip_addr_t \<Rightarrow> bool" where
  "ip_addr_isany a \<longleftrightarrow> (if IP_IS_V6_VAL a then ip6_addr_isany (ip_2_ip6 a) else ip_2_ip4 a = 0)"

definition ip4_addr_netcmp :: "ip4_addr_t \<Rightarrow> ip4_addr_t \<Rightarrow> ip4_addr_t \<Rightarrow> bool" where
  "ip4_addr_netcmp a b m \<longleftrightarrow> a AND m = b AND m"

definition ip4_addr_ismulticast :: "ip4_addr_t \<Rightarrow> bool" where
  "ip4_addr_ismulticast a \<longleftrightarrow> a AND lwip_htonl 0xf0000000 = lwip_htonl 0xe0000000"

definition ip4_addr_isloopback :: "ip4_addr_t \<Rightarrow> bool" where
  "ip4_addr_isloopback a \<longleftrightarrow> a AND lwip_htonl 0xff000000 = lwip_htonl (push_bit 24 127)"

definition ip4_addr_islinklocal :: "ip4_addr_t \<Rightarrow> bool" where
  "ip4_addr_islinklocal a \<longleftrightarrow> a AND lwip_htonl 0xffff0000 = lwip_htonl 0xa9fe0000"

definition ip6_addr_ismulticast :: "ip6_addr_t \<Rightarrow> bool" where
  "ip6_addr_ismulticast a \<longleftrightarrow> addr0 a AND lwip_htonl 0xff000000 = lwip_htonl 0xff000000"

definition ip_addr_ismulticast :: "ip_addr_t \<Rightarrow> bool" where
  "ip_addr_ismulticast a \<longleftrightarrow>
     (if IP_IS_V6_VAL a then ip6_addr_ismulticast (ip_2_ip6 a) else ip4_addr_ismulticast (ip_2_ip4 a))"

lemma ip_addr_cmp_refl [simp]: "ip_addr_cmp a a"
  by (simp add: ip_addr_cmp_def ip6_addr_cmp_def)

lemma ip_addr_cmp_sym: "ip_addr_cmp a b \<longleftrightarrow> ip_addr_cmp b a"
  by (auto simp: ip_addr_cmp_def ip6_addr_cmp_def IP_IS_V6_VAL_def)

section \<open>Network interfaces\<close>

record netif =
  netif_ip_addr :: ip_addr_t
  netif_netmask :: ip_addr_t
  netif_gw :: ip_addr_t
  netif_ip6_addr :: "ip_addr_t list"
  netif_ip6_addr_state :: "u8 list"
  netif_mtu :: u16
  netif_mtu6 :: u16
  netif_flags :: u8
  netif_num :: u8

definition NETIF_FLAG_UP :: u8 where "NETIF_FLAG_UP = 0x01"
definition NETIF_FLAG_BROADCAST :: u8 where "NETIF_FLAG_BROADCAST = 0x02"
definition NETIF_FLAG_LINK_UP :: u8 where "NETIF_FLAG_LINK_UP = 0x04"

definition netif_ip4_addr :: "netif \<Rightarrow> ip4_addr_t" where
  "netif_ip4_addr n = ip_2_ip4 (netif_ip_addr n)"

definition netif_ip4_netmask :: "netif \<Rightarrow> ip4_addr_t" where
  "netif_ip4_netmask n = ip_2_ip4 (netif_netmask n)"

definition netif_is_up :: "netif \<Rightarrow> bool" where
  "netif_is_up n \<longleftrightarrow> netif_flags n AND NETIF_FLAG_UP \<noteq> 0"

definition netif_is_link_up :: "netif \<Rightarrow> bool" where
  "netif_is_link_up n \<longleftrightarrow> netif_flags n AND NETIF_FLAG_LINK_UP \<noteq> 0"

section \<open>\<^verbatim>\<open>ip4_addr.c\<close>\<close>

definition ip4_addr_isbroadcast_u32 :: "u32 \<Rightarrow> netif \<Rightarrow> bool" where
  "ip4_addr_isbroadcast_u32 a n \<longleftrightarrow>
     (if NOT a = 0 \<or> a = 0 then True
      else if netif_flags n AND NETIF_FLAG_BROADCAST = 0 then False
      else if a = netif_ip4_addr n then False
      else if ip4_addr_netcmp a (netif_ip4_addr n) (netif_ip4_netmask n) \<and>
              a AND NOT (netif_ip4_netmask n) = 0xffffffff AND NOT (netif_ip4_netmask n) then True
      else False)"

definition ip_addr_isbroadcast :: "ip_addr_t \<Rightarrow> netif \<Rightarrow> bool" where
  "ip_addr_isbroadcast a n \<longleftrightarrow>
     (if IP_IS_V6_VAL a then False else ip4_addr_isbroadcast_u32 (ip_2_ip4 a) n)"

lemma drop_bit_1_less: "mk \<noteq> (0 :: u32) \<Longrightarrow> unat (drop_bit 1 mk) < unat mk"
  by (simp add: unat_shiftr unat_gt_0)

text \<open>The two loops of \<^verbatim>\<open>ip4_addr_netmask_valid\<close> over a single-bit mk.\<close>

function nm_skip_ones :: "u32 \<Rightarrow> u32 \<Rightarrow> u32" where
  "nm_skip_ones nm mk =
     (if mk = 0 then 0 else if nm AND mk = 0 then mk else nm_skip_ones nm (drop_bit 1 mk))"
  by pat_completeness auto
termination by (relation "measure (\<lambda>(nm, mk). unat mk)") (simp_all only: in_measure case_prod_conv drop_bit_1_less wf_measure not_False_eq_True)

function nm_all_zeros :: "u32 \<Rightarrow> u32 \<Rightarrow> bool" where
  "nm_all_zeros nm mk =
     (if mk = 0 then True else if nm AND mk \<noteq> 0 then False else nm_all_zeros nm (drop_bit 1 mk))"
  by pat_completeness auto
termination by (relation "measure (\<lambda>(nm, mk). unat mk)") (simp_all only: in_measure case_prod_conv drop_bit_1_less wf_measure not_False_eq_True)

definition ip4_addr_netmask_valid :: "u32 \<Rightarrow> bool" where
  "ip4_addr_netmask_valid netmask \<longleftrightarrow>
     (let nm_hostorder = lwip_htonl netmask;
          mk = nm_skip_ones nm_hostorder (push_bit 31 1)
      in nm_all_zeros nm_hostorder mk)"

declare nm_skip_ones.simps [simp del] nm_all_zeros.simps [simp del]

lemma and_push_bit: "nm AND push_bit j 1 = (0 :: u32) \<longleftrightarrow> \<not> bit nm j \<or> 32 \<le> j"
proof -
  have "nm AND push_bit j 1 = 0 \<longleftrightarrow> (\<forall>n. \<not> (bit nm n \<and> n = j \<and> n < 32))"
    by (subst bit_eq_iff) (auto simp: bit_simps)
  then show ?thesis by auto
qed

lemma push_bit_nz: "j < 32 \<Longrightarrow> push_bit j (1 :: u32) \<noteq> 0"
  by (auto simp: bit_eq_iff bit_simps)

lemma drop_push_Suc: "Suc j < 32 \<Longrightarrow> drop_bit 1 (push_bit (Suc j) 1) = push_bit j (1 :: u32)"
  by (rule bit_word_eqI) (auto simp: bit_simps)

lemma drop_push_0: "drop_bit 1 (push_bit 0 1) = (0 :: u32)"
  by simp

lemma nm_all_zeros_bits: "j < 32 \<Longrightarrow> nm_all_zeros nm (push_bit j 1) \<longleftrightarrow> (\<forall>i \<le> j. \<not> bit nm i)"
proof (induction j)
  case 0
  then show ?case by (subst nm_all_zeros.simps, subst drop_push_0, subst nm_all_zeros.simps)
      (simp only: push_bit_nz and_push_bit, simp)
next
  case (Suc j)
  then show ?case by (subst nm_all_zeros.simps, subst drop_push_Suc)
      (simp_all only: push_bit_nz and_push_bit, auto simp: le_Suc_eq)
qed

lemma nm_skip_ones_bits:
  "j < 32 \<Longrightarrow> (nm_skip_ones nm (push_bit j 1) = 0 \<and> (\<forall>i \<le> j. bit nm i)) \<or>
     (\<exists>i \<le> j. nm_skip_ones nm (push_bit j 1) = push_bit i 1 \<and> \<not> bit nm i \<and> (\<forall>k. i < k \<longrightarrow> k \<le> j \<longrightarrow> bit nm k))"
proof (induction j)
  case 0
  then show ?case
    by (subst (1 2) nm_skip_ones.simps, subst (1 2) drop_push_0, subst (1 2) nm_skip_ones.simps)
       (simp only: push_bit_nz and_push_bit, auto)
next
  case (Suc j)
  show ?case
  proof (cases "bit nm (Suc j)")
    case False
    then have "nm_skip_ones nm (push_bit (Suc j) 1) = push_bit (Suc j) 1"
      by (subst nm_skip_ones.simps) (simp only: and_push_bit, simp)
    with False show ?thesis by (intro disjI2 exI [of _ "Suc j"]) auto
  next
    case True
    then have "nm_skip_ones nm (push_bit (Suc j) 1) = nm_skip_ones nm (push_bit j 1)"
      using Suc.prems by (subst nm_skip_ones.simps, subst drop_push_Suc)
        (simp_all only: push_bit_nz and_push_bit, auto)
    with True Suc show ?thesis by (auto simp: le_Suc_eq)
  qed
qed

lemma ip4_addr_netmask_valid_iff:
  "ip4_addr_netmask_valid netmask \<longleftrightarrow> (\<exists>k \<le> 32. \<forall>i < 32. bit (lwip_htonl netmask) i \<longleftrightarrow> 32 - k \<le> i)"
proof -
  define nm where "nm = lwip_htonl netmask"
  have "31 < (32 :: nat)" by simp
  from nm_skip_ones_bits [OF this, of nm] show ?thesis
    unfolding ip4_addr_netmask_valid_def Let_def nm_def [symmetric]
  proof (elim disjE exE conjE)
    assume "nm_skip_ones nm (push_bit 31 1) = 0" "\<forall>i \<le> 31. bit nm i"
    then show "nm_all_zeros nm (nm_skip_ones nm (push_bit 31 1)) \<longleftrightarrow> (\<exists>k \<le> 32. \<forall>i < 32. bit nm i \<longleftrightarrow> 32 - k \<le> i)"
      by (subst nm_all_zeros.simps) (auto intro!: exI [of _ 32])
  next
    fix i assume i: "i \<le> 31" and s: "nm_skip_ones nm (push_bit 31 1) = push_bit i 1" and n: "\<not> bit nm i"
      and k: "\<forall>k. i < k \<longrightarrow> k \<le> 31 \<longrightarrow> bit nm k"
    have "nm_all_zeros nm (push_bit i 1) \<longleftrightarrow> (\<forall>j \<le> i. \<not> bit nm j)" using i by (intro nm_all_zeros_bits) simp
    also have "\<dots> \<longleftrightarrow> (\<exists>k \<le> 32. \<forall>i < 32. bit nm i \<longleftrightarrow> 32 - k \<le> i)"
    proof
      assume z: "\<forall>j \<le> i. \<not> bit nm j"
      have "bit nm j \<longleftrightarrow> 32 - (31 - i) \<le> j" if "j < 32" for j
        using z k i that by (cases "j \<le> i") auto
      then show "\<exists>k \<le> 32. \<forall>i < 32. bit nm i \<longleftrightarrow> 32 - k \<le> i" by (intro exI [of _ "31 - i"]) simp
    next
      assume "\<exists>k \<le> 32. \<forall>i < 32. bit nm i \<longleftrightarrow> 32 - k \<le> i"
      then obtain l where l: "\<forall>i < 32. bit nm i \<longleftrightarrow> 32 - l \<le> i" by blast
      then have "\<not> 32 - l \<le> i" using n i by auto
      then show "\<forall>j \<le> i. \<not> bit nm j" using l i by auto
    qed
    finally show "nm_all_zeros nm (nm_skip_ones nm (push_bit 31 1)) \<longleftrightarrow> (\<exists>k \<le> 32. \<forall>i < 32. bit nm i \<longleftrightarrow> 32 - k \<le> i)"
      by (simp only: s)
  qed
qed

section \<open>Text\<close>

text \<open>The character classes of \<^verbatim>\<open>arch.h\<close>; a string ends where the list ends.\<close>

definition lwip_in_range :: "u8 \<Rightarrow> u8 \<Rightarrow> u8 \<Rightarrow> bool" where
  "lwip_in_range c lo up \<longleftrightarrow> lo \<le> c \<and> c \<le> up"

definition lwip_isdigit :: "u8 \<Rightarrow> bool" where
  "lwip_isdigit c \<longleftrightarrow> lwip_in_range c 48 57"

definition lwip_isxdigit :: "u8 \<Rightarrow> bool" where
  "lwip_isxdigit c \<longleftrightarrow> lwip_isdigit c \<or> lwip_in_range c 97 102 \<or> lwip_in_range c 65 70"

definition lwip_islower :: "u8 \<Rightarrow> bool" where
  "lwip_islower c \<longleftrightarrow> lwip_in_range c 97 122"

definition lwip_isupper :: "u8 \<Rightarrow> bool" where
  "lwip_isupper c \<longleftrightarrow> lwip_in_range c 65 90"

definition lwip_isspace :: "u8 \<Rightarrow> bool" where
  "lwip_isspace c \<longleftrightarrow> c = 32 \<or> c = 12 \<or> c = 10 \<or> c = 13 \<or> c = 9 \<or> c = 11"

definition lwip_tolower :: "u8 \<Rightarrow> u8" where
  "lwip_tolower c = (if lwip_isupper c then c - 65 + 97 else c)"

text \<open>\<^verbatim>\<open>*cp\<close> at the start of the rest of a string.\<close>

definition cur :: "u8 list \<Rightarrow> u8" where
  "cur cp = (case cp of [] \<Rightarrow> 0 | c # _ \<Rightarrow> c)"

fun aton_number :: "u32 \<Rightarrow> u32 \<Rightarrow> u8 list \<Rightarrow> u32 \<times> u8 list" where
  "aton_number base val [] = (val, [])"
| "aton_number base val (c # cp) =
     (if lwip_isdigit c then aton_number base (val * base + (ucast c - 48)) cp
      else if base = 16 \<and> lwip_isxdigit c
      then aton_number base (push_bit 4 val OR (ucast c + 10 - (if lwip_islower c then 97 else 65))) cp
      else (val, c # cp))"

lemma length_aton_number: "length (snd (aton_number base val cp)) \<le> length cp"
  by (induction base val cp rule: aton_number.induct) (auto intro: le_SucI)

definition aton_base :: "u8 list \<Rightarrow> u32 \<times> u8 list" where
  "aton_base cp =
     (if cur cp = 48
      then let cp = tl cp in if cur cp = 120 \<or> cur cp = 88 then (16, tl cp) else (8, cp)
      else (10, cp))"

lemma length_aton_base: "length (snd (aton_base cp)) \<le> length cp"
  by (cases cp) (auto simp: aton_base_def cur_def Let_def split: list.splits)

definition aton_concoct :: "u32 list \<Rightarrow> u32 \<Rightarrow> u32 option" where
  "aton_concoct parts val =
     (case parts of
        [] \<Rightarrow> Some val
      | [p0] \<Rightarrow> if val > 0xffffff then None else if p0 > 0xff then None else Some (val OR push_bit 24 p0)
      | [p0, p1] \<Rightarrow>
          if val > 0xffff then None else if p0 > 0xff \<or> p1 > 0xff then None
          else Some (val OR (push_bit 24 p0 OR push_bit 16 p1))
      | [p0, p1, p2] \<Rightarrow>
          if val > 0xff then None else if p0 > 0xff \<or> p1 > 0xff \<or> p2 > 0xff then None
          else Some (val OR (push_bit 24 p0 OR push_bit 16 p1 OR push_bit 8 p2))
      | _ \<Rightarrow> None)"

function aton_loop :: "u32 list \<Rightarrow> u8 list \<Rightarrow> u32 option" where
  "aton_loop parts cp =
     (if \<not> lwip_isdigit (cur cp) then None
      else let (base, cp1) = aton_base cp;
               (val, cp2) = aton_number base 0 cp1
           in if cur cp2 = 46
              then if length parts \<ge> 3 then None else aton_loop (parts @ [val]) (tl cp2)
              else if cur cp2 \<noteq> 0 \<and> \<not> lwip_isspace (cur cp2) then None
              else aton_concoct parts val)"
  by pat_completeness auto
termination
  by (relation "measure (\<lambda>(parts, cp). 3 - length parts)") auto

text \<open>\<open>None\<close> is the return value 0; otherwise the address in network order.\<close>

definition ip4addr_aton :: "u8 list \<Rightarrow> ip4_addr_t option" where
  "ip4addr_aton cp = map_option lwip_htonl (aton_loop [] cp)"

definition ipaddr_addr :: "u8 list \<Rightarrow> u32" where
  "ipaddr_addr cp = (case ip4addr_aton cp of Some val \<Rightarrow> val | None \<Rightarrow> 0xffffffff)"

text \<open>
  \<^verbatim>\<open>ntoa_digits\<close> fills \<^verbatim>\<open>inv\<close>; the output is written while \<^verbatim>\<open>len < buflen\<close>
  and the last dot becomes the terminator.
\<close>

function ntoa_digits :: "u8 \<Rightarrow> u8 list" where
  "ntoa_digits b = (48 + b mod 10) # (if b div 10 \<noteq> 0 then ntoa_digits (b div 10) else [])"
  by pat_completeness auto
termination
proof (relation "measure unat")
  fix b :: u8
  assume "b div 10 \<noteq> 0"
  then have "unat (b div 10) \<noteq> 0" by (simp add: unat_eq_0)
  then have "0 < unat b" "unat (b div 10) = unat b div 10" by (simp_all add: unat_div)
  then show "(b div 10, b) \<in> measure unat" by simp
qed simp

declare ntoa_digits.simps [simp del] aton_loop.simps [simp del]

fun ntoa_put :: "int \<Rightarrow> u8 list \<Rightarrow> u8 list \<Rightarrow> u8 list option" where
  "ntoa_put buflen out [] = Some out"
| "ntoa_put buflen out (c # cs) =
     (if int (length out) \<ge> buflen then None else ntoa_put buflen (out @ [c]) cs)"

fun ntoa_bytes :: "int \<Rightarrow> u8 list \<Rightarrow> u8 list \<Rightarrow> u8 list option" where
  "ntoa_bytes buflen out [] = Some out"
| "ntoa_bytes buflen out (ap # aps) =
     do { out \<leftarrow> ntoa_put buflen out (rev (ntoa_digits ap) @ [46]); ntoa_bytes buflen out aps }"

definition ip4_addr_get_byte :: "ip4_addr_t \<Rightarrow> nat \<Rightarrow> u8" where
  "ip4_addr_get_byte a i = ucast (drop_bit (8 * i) a)"

definition ip4addr_ntoa_r :: "ip4_addr_t \<Rightarrow> int \<Rightarrow> u8 list option" where
  "ip4addr_ntoa_r a buflen =
     map_option butlast (ntoa_bytes buflen [] (map (ip4_addr_get_byte a) [0, 1, 2, 3]))"

definition IP4ADDR_STRLEN_MAX :: int where "IP4ADDR_STRLEN_MAX = 16"

definition ip4addr_ntoa :: "ip4_addr_t \<Rightarrow> u8 list option" where
  "ip4addr_ntoa a = ip4addr_ntoa_r a IP4ADDR_STRLEN_MAX"

subsection \<open>Printing, then parsing\<close>

lemma ntoa_put_fits: "int (length out + length cs) \<le> buflen \<Longrightarrow> ntoa_put buflen out cs = Some (out @ cs)"
  by (induction cs arbitrary: out) auto

lemma ntoa_put_short: "buflen < int (length out + length cs) \<Longrightarrow> int (length out) \<le> buflen \<Longrightarrow> ntoa_put buflen out cs = None"
  by (induction cs arbitrary: out) auto

definition dec :: "u8 \<Rightarrow> u8 list" where
  "dec b = rev (ntoa_digits b)"

lemma u8_div_mod10: "(ucast (b div 10 :: u8) :: u32) * 10 + ucast (b mod 10) = ucast b"
proof -
  define q r where "q = unat b div 10" and "r = unat b mod 10"
  have qr: "q * 10 + r = unat b" unfolding q_def r_def by (rule div_mult_mod_eq)
  then have "q * 10 + r < 256" "q < 26" using unat_u8_less [of b] by linarith+
  moreover have "unat (ucast (b div 10) :: u32) = q" "unat (ucast (b mod 10) :: u32) = r"
    by (simp_all only: unat_ucast_u8_u32) (simp_all add: unat_div unat_mod q_def r_def)
  moreover have "unat b mod 4294967296 = unat b"
    by (rule mod_less) (use unat_u8_less [of b] in linarith)
  ultimately have "unat ((ucast (b div 10 :: u8) :: u32) * 10 + ucast (b mod 10)) = unat b"
    using qr by (simp only: unat_word_ariths) simp
  then show ?thesis by (simp add: word_unat_eq_iff)
qed

lemma digit_char:
  "lwip_isdigit (48 + b mod 10 :: u8)" "(ucast (48 + b mod 10 :: u8) :: u32) - 48 = ucast (b mod 10)"
proof -
  have n: "unat (b mod 10) < 10" by (simp add: unat_mod)
  then have u: "unat (48 + b mod 10) = 48 + unat (b mod 10)" by (simp add: unat_add_small)
  then show "lwip_isdigit (48 + b mod 10 :: u8)"
    using n by (simp add: lwip_isdigit_def lwip_in_range_def word_le_nat_alt)
  have "unat ((ucast (48 + b mod 10 :: u8) :: u32) - 48) = unat (b mod 10)"
    using u by (simp add: unat_sub_if')
  then show "(ucast (48 + b mod 10 :: u8) :: u32) - 48 = ucast (b mod 10)" by (simp add: word_unat_eq_iff)
qed

lemma dec_unfold: "dec b = (if b div 10 \<noteq> 0 then dec (b div 10) else []) @ [48 + b mod 10]"
  unfolding dec_def by (subst ntoa_digits.simps) simp

lemma dec_digits: "c \<in> set (dec b) \<Longrightarrow> lwip_isdigit c"
proof (induction b rule: ntoa_digits.induct)
  case (1 b)
  then show ?case using digit_char(1) by (subst (asm) (2) dec_unfold) (auto split: if_splits)
qed

lemma dec_nonempty [simp]: "dec b \<noteq> []"
  by (subst dec_unfold) simp

lemma aton_number_dec:
  "aton_number 10 0 (dec b @ cp) = aton_number 10 (ucast b) cp"
proof (induction b arbitrary: cp rule: ntoa_digits.induct)
  case (1 b)
  show ?case
  proof (cases "b div 10 = 0")
    case True
    then have "(ucast b :: u32) = ucast (b mod 10)" using u8_div_mod10 [of b] by simp
    then show ?thesis using True digit_char [of b] by (subst dec_unfold) simp
  next
    case False
    then have "aton_number 10 0 (dec b @ cp) = aton_number 10 (ucast (b div 10)) ((48 + b mod 10) # cp)"
      using 1 by (subst dec_unfold) simp
    then show ?thesis using digit_char [of b] u8_div_mod10 [of b] by simp
  qed
qed

lemma dec_hd: "hd (dec b) = 48 \<longleftrightarrow> b = 0"
proof (induction b rule: ntoa_digits.induct)
  case (1 b)
  show ?case
  proof (cases "b div 10 = 0")
    case True
    then have "b mod 10 = b" by (metis add_0 mult_zero_left div_mult_mod_eq)
    then show ?thesis using True by (subst dec_unfold) simp
  next
    case False
    then have "hd (dec b) = hd (dec (b div 10))" by (subst dec_unfold) simp
    moreover have "b \<noteq> 0" using False by auto
    ultimately show ?thesis using 1 False by simp
  qed
qed

lemma dec_0: "dec 0 = [48]"
  by (subst dec_unfold) simp

lemma aton_dec:
  assumes "\<not> lwip_isdigit (cur cp)" "cur cp \<noteq> 120" "cur cp \<noteq> 88"
  shows "lwip_isdigit (cur (dec b @ cp)) \<and>
    (case aton_base (dec b @ cp) of (base, cp1) \<Rightarrow> aton_number base 0 cp1) = (ucast b, cp)"
proof -
  have stop: "aton_number base v cp = (v, cp)" if "base \<noteq> 16" for base v
    using assms(1) that by (cases cp) (simp_all add: cur_def)
  have c: "cur (dec b @ cp) = hd (dec b)" by (cases "dec b") (simp_all add: cur_def)
  have "lwip_isdigit (cur (dec b @ cp))" using c dec_digits [of "hd (dec b)" b] by simp
  moreover have "(case aton_base (dec b @ cp) of (base, cp1) \<Rightarrow> aton_number base 0 cp1) = (ucast b, cp)"
  proof (cases "b = 0")
    case True
    then show ?thesis using assms(2,3) stop by (simp add: dec_0 aton_base_def cur_def [of "48 # cp"])
  next
    case False
    then show ?thesis using c dec_hd [of b] aton_number_dec [of b cp] stop by (simp add: aton_base_def)
  qed
  ultimately show ?thesis ..
qed

lemma dot_stops: "\<not> lwip_isdigit (cur (46 # cp))" "cur (46 # cp) \<noteq> 120" "cur (46 # cp) \<noteq> 88" "cur (46 # cp) = 46"
  by (simp_all add: cur_def lwip_isdigit_def lwip_in_range_def)

lemma end_stops: "\<not> lwip_isdigit (cur [])" "cur [] \<noteq> 120" "cur [] \<noteq> 88" "cur [] = 0"
  by (simp_all add: cur_def lwip_isdigit_def lwip_in_range_def)

lemma aton_loop_dot:
  "length parts < 3 \<Longrightarrow> aton_loop parts (dec b @ 46 # cp) = aton_loop (parts @ [ucast b]) cp"
  using aton_dec [OF dot_stops(1-3), of b cp] dot_stops(4)
  by (subst aton_loop.simps) (simp add: case_prod_beta)

lemma aton_loop_end: "aton_loop parts (dec b) = aton_concoct parts (ucast b)"
  using aton_dec [OF end_stops(1-3), of b] end_stops(4)
  by (subst aton_loop.simps) (simp add: case_prod_beta)

lemma u8_u32_le: "(ucast (b :: u8) :: u32) \<le> 0xff"
  by (simp add: word_le_nat_alt)

lemma aton_concoct_bytes:
  "aton_concoct [ucast b0, ucast b1, ucast b2] (ucast (b3 :: u8)) =
     Some (ucast b3 OR (push_bit 24 (ucast (b0 :: u8)) OR push_bit 16 (ucast (b1 :: u8)) OR push_bit 8 (ucast (b2 :: u8))))"
  using u8_u32_le [of b0] u8_u32_le [of b1] u8_u32_le [of b2] u8_u32_le [of b3]
  by (simp add: aton_concoct_def not_less [symmetric])

lemma htonl_bytes:
  "lwip_htonl x = push_bit 24 (ucast (ip4_addr_get_byte x 0)) OR push_bit 16 (ucast (ip4_addr_get_byte x 1)) OR
     push_bit 8 (ucast (ip4_addr_get_byte x 2)) OR ucast (ip4_addr_get_byte x 3)"
proof -
  have m: "(0x000000FF :: u32) = mask 8" "(0x0000FF00 :: u32) = push_bit 8 (mask 8)"
    "(0x00FF0000 :: u32) = push_bit 16 (mask 8)" "(0xFF000000 :: u32) = push_bit 24 (mask 8)"
    by (simp_all add: mask_eq_exp_minus_1)
  have 0: "x AND mask 8 = ucast (ip4_addr_get_byte x 0)"
    by (rule bit_word_eqI) (auto simp: bit_simps ip4_addr_get_byte_def)
  have 1: "push_bit 8 (x AND push_bit 8 (mask 8)) = push_bit 16 (ucast (ip4_addr_get_byte x 1))"
    by (rule bit_word_eqI) (auto simp: bit_simps ip4_addr_get_byte_def)
  have 2: "drop_bit 8 (x AND push_bit 16 (mask 8)) = push_bit 8 (ucast (ip4_addr_get_byte x 2))"
    by (rule bit_word_eqI) (auto simp: bit_simps ip4_addr_get_byte_def)
  have 3: "drop_bit 24 (x AND push_bit 24 (mask 8)) = ucast (ip4_addr_get_byte x 3)"
    by (rule bit_word_eqI) (auto simp: bit_simps ip4_addr_get_byte_def)
  show ?thesis unfolding lwip_htonl_def m 0 1 2 3 ..
qed

lemma bytes_compose:
  "ip4_addr_get_byte (push_bit 24 (ucast b0) OR push_bit 16 (ucast b1) OR push_bit 8 (ucast b2) OR ucast b3) 0 = b3"
  "ip4_addr_get_byte (push_bit 24 (ucast b0) OR push_bit 16 (ucast b1) OR push_bit 8 (ucast b2) OR ucast b3) 1 = b2"
  "ip4_addr_get_byte (push_bit 24 (ucast b0) OR push_bit 16 (ucast b1) OR push_bit 8 (ucast b2) OR ucast b3) 2 = b1"
  "ip4_addr_get_byte (push_bit 24 (ucast b0) OR push_bit 16 (ucast b1) OR push_bit 8 (ucast b2) OR ucast b3) 3 = b0"
  by (rule bit_word_eqI, auto simp: bit_simps ip4_addr_get_byte_def dest: bit_u8)+

lemma word_of_bytes:
  "push_bit 24 (ucast (ip4_addr_get_byte x 3)) OR push_bit 16 (ucast (ip4_addr_get_byte x 2)) OR
     push_bit 8 (ucast (ip4_addr_get_byte x 1)) OR ucast (ip4_addr_get_byte x 0) = (x :: u32)"
proof (rule bit_word_eqI)
  fix n assume "n < LENGTH(32)"
  then have "n < 8 \<or> 8 \<le> n \<and> n < 16 \<or> 16 \<le> n \<and> n < 24 \<or> 24 \<le> n \<and> n < 32" by auto
  then show "bit (push_bit 24 (ucast (ip4_addr_get_byte x 3)) OR push_bit 16 (ucast (ip4_addr_get_byte x 2)) OR
     push_bit 8 (ucast (ip4_addr_get_byte x 1)) OR ucast (ip4_addr_get_byte x 0) :: u32) n = bit x n"
    by (elim disjE) (auto simp: bit_simps ip4_addr_get_byte_def)
qed

lemma htonl_htonl: "lwip_htonl (lwip_htonl x) = x"
  by (subst htonl_bytes, subst (1 2 3 4) htonl_bytes, simp only: bytes_compose word_of_bytes)
lemma ntoa_bytes_fits:
  "int (length out + length (concat (map (\<lambda>b. dec b @ [46]) bs))) \<le> buflen \<Longrightarrow>
   ntoa_bytes buflen out bs = Some (out @ concat (map (\<lambda>b. dec b @ [46]) bs))"
proof (induction bs arbitrary: out)
  case (Cons b bs)
  have "ntoa_put buflen out (dec b @ [46]) = Some (out @ dec b @ [46])"
    by (rule ntoa_put_fits) (use Cons.prems in simp)
  then show ?case using Cons by (simp add: dec_def)
qed simp

lemma length_ntoa_digits: "length (ntoa_digits b) \<le> 3"
proof -
  have z: "b div 10 div 10 div 10 = 0"
  proof -
    have "unat (b div 10 div 10 div 10) = 0" using unat_u8_less [of b] by (simp add: unat_div flip: div_mult2_eq del: unat_u8_less)
    then show ?thesis by (simp add: unat_eq_0)
  qed
  then show ?thesis
    by (subst ntoa_digits.simps, subst ntoa_digits.simps, subst ntoa_digits.simps) simp
qed

lemma ip4addr_ntoa_r_text:
  assumes "16 \<le> buflen"
  shows "ip4addr_ntoa_r a buflen =
    Some (dec (ip4_addr_get_byte a 0) @ 46 # dec (ip4_addr_get_byte a 1) @ 46 #
          dec (ip4_addr_get_byte a 2) @ 46 # dec (ip4_addr_get_byte a 3))"
proof -
  have l: "length (dec b) \<le> 3" for b using length_ntoa_digits [of b] by (simp add: dec_def)
  have "ntoa_bytes buflen [] (map (ip4_addr_get_byte a) [0, 1, 2, 3]) =
      Some ([] @ concat (map (\<lambda>b. dec b @ [46]) (map (ip4_addr_get_byte a) [0, 1, 2, 3])))"
  proof (rule ntoa_bytes_fits)
    show "int (length ([] :: u8 list) + length (concat (map (\<lambda>b. dec b @ [46]) (map (ip4_addr_get_byte a) [0, 1, 2, 3])))) \<le> buflen"
      using l [of "ip4_addr_get_byte a 0"] l [of "ip4_addr_get_byte a 1"] l [of "ip4_addr_get_byte a 2"]
        l [of "ip4_addr_get_byte a 3"] assms by simp
  qed
  then show ?thesis by (simp add: ip4addr_ntoa_r_def butlast_append)
qed

lemma ip4addr_aton_ntoa:
  assumes "16 \<le> buflen"
  shows "\<exists>str. ip4addr_ntoa_r a buflen = Some str \<and> length str < 16 \<and> ip4addr_aton str = Some a"
proof -
  define b where "b = ip4_addr_get_byte a"
  have l: "length (dec c) \<le> 3" for c using length_ntoa_digits [of c] by (simp add: dec_def)
  have "aton_loop [] (dec (b 0) @ 46 # dec (b 1) @ 46 # dec (b 2) @ 46 # dec (b 3)) =
      aton_concoct [ucast (b 0), ucast (b 1), ucast (b 2)] (ucast (b 3))"
    by (simp add: aton_loop_dot aton_loop_end)
  also have "\<dots> = Some (ucast (b 3) OR (push_bit 24 (ucast (b 0)) OR push_bit 16 (ucast (b 1)) OR push_bit 8 (ucast (b 2))))"
    by (rule aton_concoct_bytes)
  also have "\<dots> = Some (lwip_htonl a)" by (subst htonl_bytes) (simp add: b_def or.commute or.left_commute)
  finally have "ip4addr_aton (dec (b 0) @ 46 # dec (b 1) @ 46 # dec (b 2) @ 46 # dec (b 3)) = Some a"
    by (simp add: ip4addr_aton_def htonl_htonl)
  then show ?thesis
    using ip4addr_ntoa_r_text [OF assms, of a] l [of "b 0"] l [of "b 1"] l [of "b 2"] l [of "b 3"]
    by (auto simp: b_def)
qed

end
