(* ===== verification/Mem.thy ===== *)
theory Mem imports Prelude begin

text \<open>
  The memory the stack works on: byte memory, the blocks the C library has handed out,
  and the packet buffer structs that live in them. \<^verbatim>\<open>mem.c\<close> and \<^verbatim>\<open>memp.c\<close>
  are modelled as this build compiles them (\<^verbatim>\<open>MEM_LIBC_MALLOC = 1\<close>,
  \<^verbatim>\<open>MEMP_MEM_MALLOC = 1\<close>): both end in \<^verbatim>\<open>malloc\<close> and \<^verbatim>\<open>free\<close>, and
  \<^verbatim>\<open>mem_trim\<close> is the identity.

  \<^verbatim>\<open>malloc\<close> is outside the program, so it is an argument: from the current state
  and a size it gives no block, or an address and the indeterminate bytes found there.
  What the code relies on is the hypothesis \<open>malloc_ok\<close>.

  The fields of a \<^verbatim>\<open>struct pbuf\<close> are kept in a typed map from its address; the
  struct's own bytes are not part of the byte memory, so a store through a payload
  pointer that would hit a struct has no value.
\<close>

section \<open>Byte memory\<close>

type_synonym mem = "nat \<Rightarrow> u8 option"

definition load :: "mem \<Rightarrow> nat \<Rightarrow> nat \<Rightarrow> u8 list option" where
  "load m a n = those (map m [a..<a + n])"

definition put_bytes :: "mem \<Rightarrow> nat \<Rightarrow> u8 list \<Rightarrow> mem" where
  "put_bytes m a bs = (\<lambda>x. if a \<le> x \<and> x < a + length bs then Some (bs ! (x - a)) else m x)"

definition store :: "mem \<Rightarrow> nat \<Rightarrow> u8 list \<Rightarrow> mem option" where
  "store m a bs =
     (if list_all (\<lambda>x. m x \<noteq> None) [a..<a + length bs] then Some (put_bytes m a bs) else None)"

definition drop_bytes :: "mem \<Rightarrow> nat \<Rightarrow> nat \<Rightarrow> mem" where
  "drop_bytes m a n = (\<lambda>x. if a \<le> x \<and> x < a + n then None else m x)"

definition MEMCPY :: "mem \<Rightarrow> nat \<Rightarrow> nat \<Rightarrow> nat \<Rightarrow> mem option" where
  "MEMCPY m dst src n = Option.bind (load m src n) (store m dst)"

section \<open>Packet buffers and the heap\<close>

text \<open>
  The only \<^verbatim>\<open>custom_free_function\<close> the core installs is
  \<^verbatim>\<open>ipfrag_free_pbuf_custom\<close>, on the \<^verbatim>\<open>struct pbuf_custom_ref\<close> of a
  fragment, whose further field is the pbuf it mirrors.
\<close>

datatype custom_fn = ipfrag_free_pbuf_custom (original: "nat option")

record pbuf =
  pb_next :: "nat option"
  pb_payload :: nat
  pb_tot_len :: u16
  pb_len :: u16
  pb_type_internal :: u8
  pb_flags :: u8
  pb_ref :: u8
  pb_if_idx :: u8
  pb_custom_free_function :: "custom_fn option"

record hp =
  bytes :: mem
  blocks :: "nat \<Rightarrow> nat option"
  pbufs :: "nat \<Rightarrow> pbuf option"
  pbuf_free_ooseq_pending :: bool

type_synonym allocator = "hp \<Rightarrow> nat \<Rightarrow> (nat \<times> u8 list) option"

definition LWIP_MEM_ALIGN :: "nat \<Rightarrow> nat" where
  "LWIP_MEM_ALIGN n = (n + 3) div 4 * 4"

text \<open>What \<^verbatim>\<open>malloc\<close> promises: aligned, non-null, and disjoint from all that is in use.\<close>

definition malloc_ok :: "allocator \<Rightarrow> bool" where
  "malloc_ok al \<longleftrightarrow> (\<forall>h n a junk. al h n = Some (a, junk) \<longrightarrow>
     0 < a \<and> a mod 4 = 0 \<and> length junk = n \<and>
     (\<forall>x. a \<le> x \<and> x < a + n \<longrightarrow> bytes h x = None) \<and>
     (\<forall>b m. blocks h b = Some m \<longrightarrow> b + m \<le> a \<or> a + n \<le> b) \<and>
     blocks h a = None)"

section \<open>\<^verbatim>\<open>mem.c\<close> and \<^verbatim>\<open>memp.c\<close>\<close>

definition mem_malloc :: "allocator \<Rightarrow> hp \<Rightarrow> nat \<Rightarrow> (hp \<times> nat option) option" where
  "mem_malloc al h n =
     (case al h n of
        None \<Rightarrow> Some (h, None)
      | Some (a, junk) \<Rightarrow>
          if LWIP_MEM_ALIGN a = a
          then Some (h\<lparr>bytes := put_bytes (bytes h) a junk, blocks := (blocks h)(a \<mapsto> n)\<rparr>, Some a)
          else None)"

definition mem_free :: "hp \<Rightarrow> nat option \<Rightarrow> hp option" where
  "mem_free h rmem =
     (case rmem of
        None \<Rightarrow> None
      | Some a \<Rightarrow>
          if LWIP_MEM_ALIGN a = a
          then (case blocks h a of
                  None \<Rightarrow> None
                | Some n \<Rightarrow> Some (h\<lparr>bytes := drop_bytes (bytes h) a n, blocks := (blocks h)(a := None),
                                  pbufs := (pbufs h)(a := None)\<rparr>))
          else None)"

definition mem_trim :: "nat \<Rightarrow> nat \<Rightarrow> nat" where
  "mem_trim rmem n = rmem"

text \<open>The element sizes of the pools the packet buffer code allocates from.\<close>

datatype memp_t = MEMP_PBUF | MEMP_PBUF_POOL | MEMP_FRAG_PBUF

definition SIZEOF_STRUCT_PBUF :: nat where
  "SIZEOF_STRUCT_PBUF = 24"

definition SIZEOF_STRUCT_PBUF_CUSTOM_REF :: nat where
  "SIZEOF_STRUCT_PBUF_CUSTOM_REF = 40"

definition PBUF_POOL_BUFSIZE_ALIGNED :: nat where
  "PBUF_POOL_BUFSIZE_ALIGNED = LWIP_MEM_ALIGN (1460 + 40 + 0 + 14)"

fun memp_desc_size :: "memp_t \<Rightarrow> nat" where
  "memp_desc_size MEMP_PBUF = SIZEOF_STRUCT_PBUF"
| "memp_desc_size MEMP_PBUF_POOL = SIZEOF_STRUCT_PBUF + PBUF_POOL_BUFSIZE_ALIGNED"
| "memp_desc_size MEMP_FRAG_PBUF = SIZEOF_STRUCT_PBUF_CUSTOM_REF"

definition memp_malloc :: "allocator \<Rightarrow> hp \<Rightarrow> memp_t \<Rightarrow> (hp \<times> nat option) option" where
  "memp_malloc al h type =
     do { (h', m) \<leftarrow> mem_malloc al h (LWIP_MEM_ALIGN (memp_desc_size type));
          (case m of
             None \<Rightarrow> Some (h', None)
           | Some a \<Rightarrow> if a mod 4 = 0 then Some (h', Some a) else None) }"

definition memp_free :: "hp \<Rightarrow> memp_t \<Rightarrow> nat option \<Rightarrow> hp option" where
  "memp_free h type m =
     (case m of
        None \<Rightarrow> Some h
      | Some a \<Rightarrow> if a mod 4 = 0 then mem_free h (Some a) else None)"


section \<open>Loads and stores\<close>

lemma those_eq_Some: "those xs = Some ys \<longleftrightarrow> xs = map Some ys"
  by (induction xs arbitrary: ys) (auto split: option.splits)

lemma load_eq_Some:
  "load m a n = Some bs \<longleftrightarrow> length bs = n \<and> (\<forall>i<n. m (a + i) = Some (bs ! i))"
  by (auto simp: load_def those_eq_Some list_eq_iff_nth_eq)

lemma load_length [mem_simps]: "load m a n = Some bs \<Longrightarrow> length bs = n"
  by (simp add: load_eq_Some)

lemma load_0 [simp]: "load m a 0 = Some []"
  by (simp add: load_def)

lemma load_slice:
  assumes "load m a n = Some bs" and "i + k \<le> n"
  shows "load m (a + i) k = Some (take k (drop i bs))"
  using assms by (auto simp: load_eq_Some add.assoc)

lemma load_nth: "load m a n = Some bs \<Longrightarrow> i < n \<Longrightarrow> m (a + i) = Some (bs ! i)"
  by (simp add: load_eq_Some)

lemma load_append:
  assumes "load m a n = Some bs" and "load m (a + n) k = Some cs"
  shows "load m a (n + k) = Some (bs @ cs)"
proof -
  have "m (a + i) = Some ((bs @ cs) ! i)" if "i < n + k" for i
  proof (cases "i < n")
    case True
    with assms(1) show ?thesis by (simp add: load_eq_Some nth_append)
  next
    case False
    then obtain j where "i = n + j" by (metis le_Suc_ex not_less)
    with assms that show ?thesis by (auto simp: load_eq_Some nth_append add.assoc)
  qed
  with assms show ?thesis by (simp add: load_eq_Some)
qed

definition apart :: "nat \<Rightarrow> nat \<Rightarrow> nat \<Rightarrow> nat \<Rightarrow> bool" where
  "apart a n b k \<longleftrightarrow> n = 0 \<or> k = 0 \<or> a + n \<le> b \<or> b + k \<le> a"

lemma load_cong: "(\<And>x. a \<le> x \<Longrightarrow> x < a + n \<Longrightarrow> m x = m' x) \<Longrightarrow> load m a n = load m' a n"
  by (simp add: load_def) (metis (mono_tags, lifting) atLeastLessThan_iff atLeastLessThan_upt map_eq_conv)

lemma load_put_apart:
  "apart b (length cs) a n \<Longrightarrow> load (put_bytes m b cs) a n = load m a n"
  by (rule load_cong) (auto simp: put_bytes_def apart_def)

lemma load_put_same: "load (put_bytes m a cs) a (length cs) = Some cs"
  by (simp add: load_eq_Some put_bytes_def)

lemma load_drop_apart: "apart b k a n \<Longrightarrow> load (drop_bytes m b k) a n = load m a n"
  by (rule load_cong) (auto simp: drop_bytes_def apart_def)

lemma load_put_within:
  assumes "load m a n = Some bs" and "i + length cs \<le> n"
  shows "load (put_bytes m (a + i) cs) a n = Some (take i bs @ cs @ drop (i + length cs) bs)"
proof -
  have "put_bytes m (a + i) cs (a + j) = Some ((take i bs @ cs @ drop (i + length cs) bs) ! j)"
    if "j < n" for j
    using assms that by (auto simp: load_eq_Some put_bytes_def nth_append)
  then show ?thesis using assms by (simp add: load_eq_Some)
qed

lemma store_within:
  assumes "load m a n = Some bs" and "i + length cs \<le> n"
  shows "store m (a + i) cs = Some (put_bytes m (a + i) cs)"
proof -
  have "\<forall>x \<in> set [a + i..<a + i + length cs]. m x \<noteq> None"
  proof
    fix x assume "x \<in> set [a + i..<a + i + length cs]"
    then have "x = a + (x - a)" "x - a < n" using assms(2) by auto
    then show "m x \<noteq> None" using load_nth [OF assms(1), of "x - a"] by (metis option.distinct(1))
  qed
  then show ?thesis by (simp add: store_def list_all_iff)
qed

end
