(* ===== verification/Pbuf.thy ===== *)
theory Pbuf imports Mem begin

text \<open>
  The packet buffers of \<^verbatim>\<open>core/pbuf.c\<close>: allocation of single buffers and chains,
  header space, reference counts, concatenation, and the copying and comparing routines.
  Every loop over \<^verbatim>\<open>p->next\<close> is a \<open>partial_function\<close> in the option
  monad, so a cyclic chain has no result; that a chain which ends makes each of them
  return is part of the lemmas of \<^verbatim>\<open>Pbuf_props\<close>.
\<close>

section \<open>Layers, types and flags\<close>

datatype pbuf_layer = PBUF_TRANSPORT | PBUF_IP | PBUF_LINK | PBUF_RAW_TX | PBUF_RAW

fun pbuf_layer_offset :: "pbuf_layer \<Rightarrow> nat" where
  "pbuf_layer_offset PBUF_TRANSPORT = 0 + 14 + 40 + 20"
| "pbuf_layer_offset PBUF_IP = 0 + 14 + 40"
| "pbuf_layer_offset PBUF_LINK = 0 + 14"
| "pbuf_layer_offset PBUF_RAW_TX = 0"
| "pbuf_layer_offset PBUF_RAW = 0"

datatype pbuf_type = PBUF_RAM | PBUF_ROM | PBUF_REF | PBUF_POOL

fun pbuf_type_val :: "pbuf_type \<Rightarrow> u16" where
  "pbuf_type_val PBUF_RAM = 0x0200 OR 0x80 OR 0x00"
| "pbuf_type_val PBUF_ROM = 0x01"
| "pbuf_type_val PBUF_REF = 0x40 OR 0x01"
| "pbuf_type_val PBUF_POOL = 0x0100 OR 0x80 OR 0x02"

definition PBUF_TYPE_FLAG_STRUCT_DATA_CONTIGUOUS :: u8 where
  "PBUF_TYPE_FLAG_STRUCT_DATA_CONTIGUOUS = 0x80"

definition PBUF_FLAG_IS_CUSTOM :: u8 where
  "PBUF_FLAG_IS_CUSTOM = 0x02"

definition PBUF_FLAG_TCP_FIN :: u8 where
  "PBUF_FLAG_TCP_FIN = 0x20"

definition pbuf_get_allocsrc :: "pbuf \<Rightarrow> u8" where
  "pbuf_get_allocsrc p = pb_type_internal p AND 0x0F"

definition upd_pbuf :: "hp \<Rightarrow> nat \<Rightarrow> (pbuf \<Rightarrow> pbuf) \<Rightarrow> hp" where
  "upd_pbuf h a f = h\<lparr>pbufs := (pbufs h)(a := map_option f (pbufs h a))\<rparr>"

section \<open>Reference counts and freeing\<close>

partial_function (option) pbuf_free_loop :: "hp \<Rightarrow> nat option \<Rightarrow> u8 \<Rightarrow> (hp \<times> u8) option" where
  "pbuf_free_loop h p count =
     (case p of
        None \<Rightarrow> Some (h, count)
      | Some a \<Rightarrow> do {
          q \<leftarrow> pbufs h a;
          LWIP_ASSERT (pb_ref q > 0);
          let ref = pb_ref q - 1;
          let h = upd_pbuf h a (\<lambda>q. q\<lparr>pb_ref := ref\<rparr>);
          (if ref = 0 then do {
             h \<leftarrow> (if pb_flags q AND PBUF_FLAG_IS_CUSTOM \<noteq> 0 then
                    (case pb_custom_free_function q of
                       None \<Rightarrow> None
                     | Some (ipfrag_free_pbuf_custom orig) \<Rightarrow> do {
                         h \<leftarrow> (case orig of
                                None \<Rightarrow> Some h
                              | Some pc \<Rightarrow> do { (h, n) \<leftarrow> pbuf_free_loop h (Some pc) 0; Some h });
                         memp_free h MEMP_FRAG_PBUF (Some a) })
                  else if pbuf_get_allocsrc q = 0x02 then memp_free h MEMP_PBUF_POOL (Some a)
                  else if pbuf_get_allocsrc q = 0x01 then memp_free h MEMP_PBUF (Some a)
                  else if pbuf_get_allocsrc q = 0x00 then mem_free h (Some a)
                  else None);
             pbuf_free_loop h (pb_next q) (count + 1) }
           else Some (h, count)) })"

definition pbuf_free :: "hp \<Rightarrow> nat option \<Rightarrow> (hp \<times> u8) option" where
  "pbuf_free h p = do { LWIP_ASSERT (p \<noteq> None); pbuf_free_loop h p 0 }"

partial_function (option) pbuf_clen_loop :: "hp \<Rightarrow> nat option \<Rightarrow> u16 \<Rightarrow> u16 option" where
  "pbuf_clen_loop h p len =
     (case p of
        None \<Rightarrow> Some len
      | Some a \<Rightarrow> do { q \<leftarrow> pbufs h a; pbuf_clen_loop h (pb_next q) (len + 1) })"

definition pbuf_clen :: "hp \<Rightarrow> nat option \<Rightarrow> u16 option" where
  "pbuf_clen h p = pbuf_clen_loop h p 0"

definition pbuf_ref :: "hp \<Rightarrow> nat option \<Rightarrow> hp option" where
  "pbuf_ref h p =
     (case p of
        None \<Rightarrow> Some h
      | Some a \<Rightarrow> do {
          q \<leftarrow> pbufs h a;
          LWIP_ASSERT (pb_ref q + 1 > 0);
          Some (upd_pbuf h a (\<lambda>q. q\<lparr>pb_ref := pb_ref q + 1\<rparr>)) })"

section \<open>Allocation\<close>

definition pbuf_init_alloced_pbuf ::
    "hp \<Rightarrow> nat \<Rightarrow> nat \<Rightarrow> u16 \<Rightarrow> u16 \<Rightarrow> pbuf_type \<Rightarrow> u8 \<Rightarrow> hp" where
  "pbuf_init_alloced_pbuf h p payload tot_len len type flags =
     h\<lparr>bytes := drop_bytes (bytes h) p SIZEOF_STRUCT_PBUF,
       pbufs := (pbufs h)(p \<mapsto>
         \<lparr>pb_next = None, pb_payload = payload, pb_tot_len = tot_len, pb_len = len,
          pb_type_internal = ucast (pbuf_type_val type), pb_flags = flags, pb_ref = 1,
          pb_if_idx = 0, pb_custom_free_function = None\<rparr>)\<rparr>"

definition pbuf_alloc_reference ::
    "allocator \<Rightarrow> hp \<Rightarrow> nat \<Rightarrow> u16 \<Rightarrow> pbuf_type \<Rightarrow> (hp \<times> nat option) option" where
  "pbuf_alloc_reference al h payload len type = do {
     LWIP_ASSERT (type = PBUF_REF \<or> type = PBUF_ROM);
     (h, p) \<leftarrow> memp_malloc al h MEMP_PBUF;
     (case p of
        None \<Rightarrow> Some (h, None)
      | Some a \<Rightarrow> Some (pbuf_init_alloced_pbuf h a payload len len type 0, Some a)) }"

definition pool_chunk :: "nat \<Rightarrow> nat" where
  "pool_chunk offset = PBUF_POOL_BUFSIZE_ALIGNED - LWIP_MEM_ALIGN offset"

partial_function (option) pbuf_alloc_pool ::
    "allocator \<Rightarrow> hp \<Rightarrow> nat \<Rightarrow> u16 \<Rightarrow> nat option \<Rightarrow> nat option \<Rightarrow> (hp \<times> nat option) option" where
  "pbuf_alloc_pool al h offset rem_len p prev = do {
     (h, m) \<leftarrow> memp_malloc al h MEMP_PBUF_POOL;
     (case m of
        None \<Rightarrow> do {
          let h = h\<lparr>pbuf_free_ooseq_pending := True\<rparr>;
          h \<leftarrow> (case p of None \<Rightarrow> Some h | Some a \<Rightarrow> do { (h, n) \<leftarrow> pbuf_free h p; Some h });
          Some (h, None) }
      | Some q \<Rightarrow> do {
          let qlen = min rem_len (of_nat (pool_chunk offset));
          let payload = LWIP_MEM_ALIGN (q + SIZEOF_STRUCT_PBUF + offset);
          let h = pbuf_init_alloced_pbuf h q payload rem_len qlen PBUF_POOL 0;
          LWIP_ASSERT (payload mod 4 = 0);
          LWIP_ASSERT (pool_chunk offset > 0);
          let h = (case prev of None \<Rightarrow> h | Some l \<Rightarrow> upd_pbuf h l (\<lambda>b. b\<lparr>pb_next := Some q\<rparr>));
          let p = (case p of None \<Rightarrow> Some q | Some _ \<Rightarrow> p);
          let rem_len = rem_len - qlen;
          (if rem_len > 0 then pbuf_alloc_pool al h 0 rem_len p (Some q) else Some (h, p)) }) }"

definition pbuf_alloc_ram ::
    "allocator \<Rightarrow> hp \<Rightarrow> nat \<Rightarrow> u16 \<Rightarrow> (hp \<times> nat option) option" where
  "pbuf_alloc_ram al h offset len =
     (let payload_len = (LWIP_MEM_ALIGN offset + LWIP_MEM_ALIGN (unat len)) mod 2 ^ 16;
          alloc_len = LWIP_MEM_ALIGN SIZEOF_STRUCT_PBUF + payload_len
      in if payload_len < LWIP_MEM_ALIGN (unat len) \<or> alloc_len < LWIP_MEM_ALIGN (unat len)
         then Some (h, None)
         else do {
           (h, m) \<leftarrow> mem_malloc al h alloc_len;
           (case m of
              None \<Rightarrow> Some (h, None)
            | Some p \<Rightarrow> do {
                let payload = LWIP_MEM_ALIGN (p + SIZEOF_STRUCT_PBUF + offset);
                let h = pbuf_init_alloced_pbuf h p payload len len PBUF_RAM 0;
                LWIP_ASSERT (payload mod 4 = 0);
                Some (h, Some p) }) })"

definition pbuf_alloc ::
    "allocator \<Rightarrow> hp \<Rightarrow> pbuf_layer \<Rightarrow> u16 \<Rightarrow> pbuf_type \<Rightarrow> (hp \<times> nat option) option" where
  "pbuf_alloc al h layer len type =
     (case type of
        PBUF_REF \<Rightarrow> pbuf_alloc_reference al h 0 len type
      | PBUF_ROM \<Rightarrow> pbuf_alloc_reference al h 0 len type
      | PBUF_POOL \<Rightarrow> pbuf_alloc_pool al h (pbuf_layer_offset layer) len None None
      | PBUF_RAM \<Rightarrow> pbuf_alloc_ram al h (pbuf_layer_offset layer) len)"

definition pbuf_alloced_custom ::
    "hp \<Rightarrow> pbuf_layer \<Rightarrow> u16 \<Rightarrow> pbuf_type \<Rightarrow> nat \<Rightarrow> nat \<Rightarrow> u16 \<Rightarrow> (hp \<times> nat option)" where
  "pbuf_alloced_custom h l len type p payload_mem payload_mem_len =
     (let offset = pbuf_layer_offset l
      in if LWIP_MEM_ALIGN offset + unat len > unat payload_mem_len then (h, None)
         else let payload = (if payload_mem \<noteq> 0 then payload_mem + LWIP_MEM_ALIGN offset else 0)
              in (pbuf_init_alloced_pbuf h p payload len len type PBUF_FLAG_IS_CUSTOM, Some p))"

section \<open>Shrinking a chain\<close>

partial_function (option) pbuf_realloc_loop ::
    "hp \<Rightarrow> nat option \<Rightarrow> u16 \<Rightarrow> u16 \<Rightarrow> (hp \<times> nat \<times> u16) option" where
  "pbuf_realloc_loop h q rem_len shrink =
     (case q of
        None \<Rightarrow> None
      | Some a \<Rightarrow> do {
          b \<leftarrow> pbufs h a;
          (if rem_len > pb_len b then do {
             let h = upd_pbuf h a (\<lambda>b. b\<lparr>pb_tot_len := pb_tot_len b - shrink\<rparr>);
             LWIP_ASSERT (pb_next b \<noteq> None);
             pbuf_realloc_loop h (pb_next b) (rem_len - pb_len b) shrink }
           else Some (h, a, rem_len)) })"

definition pbuf_realloc :: "hp \<Rightarrow> nat option \<Rightarrow> u16 \<Rightarrow> hp option" where
  "pbuf_realloc h p new_len = do {
     LWIP_ASSERT (p \<noteq> None);
     b \<leftarrow> Option.bind p (pbufs h);
     (if new_len \<ge> pb_tot_len b then Some h
      else do {
        let shrink = pb_tot_len b - new_len;
        (h, q, rem_len) \<leftarrow> pbuf_realloc_loop h p new_len shrink;
        b \<leftarrow> pbufs h q;
        let q = (if pbuf_get_allocsrc b = 0 AND 0x0F \<and> rem_len \<noteq> pb_len b \<and>
                    pb_flags b AND PBUF_FLAG_IS_CUSTOM = 0
                 then mem_trim q (pb_payload b - q + unat rem_len) else q);
        let h = upd_pbuf h q (\<lambda>b. b\<lparr>pb_len := rem_len, pb_tot_len := rem_len\<rparr>);
        h \<leftarrow> (case pb_next b of
               None \<Rightarrow> Some h
             | Some n \<Rightarrow> do { (h, c) \<leftarrow> pbuf_free h (Some n); Some h });
        Some (upd_pbuf h q (\<lambda>b. b\<lparr>pb_next := None\<rparr>)) }) }"


section \<open>Header space\<close>

text \<open>The result is the C return value: 0 for success, 1 for failure.\<close>

definition pbuf_add_header_impl :: "hp \<Rightarrow> nat option \<Rightarrow> nat \<Rightarrow> bool \<Rightarrow> (hp \<times> u8) option" where
  "pbuf_add_header_impl h p header_size_increment force = do {
     LWIP_ASSERT (p \<noteq> None);
     a \<leftarrow> p;
     q \<leftarrow> pbufs h a;
     (if header_size_increment > 0xFFFF then Some (h, 1)
      else if header_size_increment = 0 then Some (h, 0)
      else
        let increment_magnitude = (of_nat header_size_increment :: u16)
        in if increment_magnitude + pb_tot_len q < increment_magnitude then Some (h, 1)
           else if pb_type_internal q AND PBUF_TYPE_FLAG_STRUCT_DATA_CONTIGUOUS \<noteq> 0 \<and>
                   int (pb_payload q) - int header_size_increment < int (a + SIZEOF_STRUCT_PBUF)
                then Some (h, 1)
           else if pb_type_internal q AND PBUF_TYPE_FLAG_STRUCT_DATA_CONTIGUOUS = 0 \<and> \<not> force
                then Some (h, 1)
           else if pb_payload q < header_size_increment then None
           else Some (upd_pbuf h a (\<lambda>q. q\<lparr>pb_payload := pb_payload q - header_size_increment,
                         pb_len := pb_len q + increment_magnitude,
                         pb_tot_len := pb_tot_len q + increment_magnitude\<rparr>), 0)) }"

definition pbuf_add_header :: "hp \<Rightarrow> nat option \<Rightarrow> nat \<Rightarrow> (hp \<times> u8) option" where
  "pbuf_add_header h p header_size_increment = pbuf_add_header_impl h p header_size_increment False"

definition pbuf_add_header_force :: "hp \<Rightarrow> nat option \<Rightarrow> nat \<Rightarrow> (hp \<times> u8) option" where
  "pbuf_add_header_force h p header_size_increment = pbuf_add_header_impl h p header_size_increment True"

definition pbuf_remove_header :: "hp \<Rightarrow> nat option \<Rightarrow> nat \<Rightarrow> (hp \<times> u8) option" where
  "pbuf_remove_header h p header_size_decrement = do {
     LWIP_ASSERT (p \<noteq> None);
     a \<leftarrow> p;
     q \<leftarrow> pbufs h a;
     (if header_size_decrement > 0xFFFF then Some (h, 1)
      else if header_size_decrement = 0 then Some (h, 0)
      else do {
        let increment_magnitude = (of_nat header_size_decrement :: u16);
        LWIP_ASSERT (increment_magnitude \<le> pb_len q);
        Some (upd_pbuf h a (\<lambda>q. q\<lparr>pb_payload := pb_payload q + header_size_decrement,
                pb_len := pb_len q - increment_magnitude,
                pb_tot_len := pb_tot_len q - increment_magnitude\<rparr>), 0) }) }"

definition pbuf_header_impl :: "hp \<Rightarrow> nat option \<Rightarrow> int \<Rightarrow> bool \<Rightarrow> (hp \<times> u8) option" where
  "pbuf_header_impl h p header_size_increment force =
     (if header_size_increment < 0 then pbuf_remove_header h p (nat (- header_size_increment))
      else pbuf_add_header_impl h p (nat header_size_increment) force)"

definition pbuf_header :: "hp \<Rightarrow> nat option \<Rightarrow> int \<Rightarrow> (hp \<times> u8) option" where
  "pbuf_header h p header_size_increment = pbuf_header_impl h p header_size_increment False"

definition pbuf_header_force :: "hp \<Rightarrow> nat option \<Rightarrow> int \<Rightarrow> (hp \<times> u8) option" where
  "pbuf_header_force h p header_size_increment = pbuf_header_impl h p header_size_increment True"

partial_function (option) pbuf_free_header :: "hp \<Rightarrow> nat option \<Rightarrow> u16 \<Rightarrow> (hp \<times> nat option) option" where
  "pbuf_free_header h p free_left =
     (case p of
        None \<Rightarrow> Some (h, None)
      | Some a \<Rightarrow>
          if free_left = 0 then Some (h, p)
          else do {
            q \<leftarrow> pbufs h a;
            (if free_left \<ge> pb_len q then do {
               let h = upd_pbuf h a (\<lambda>q. q\<lparr>pb_next := None\<rparr>);
               (h, n) \<leftarrow> pbuf_free h (Some a);
               pbuf_free_header h (pb_next q) (free_left - pb_len q) }
             else do {
               (h, e) \<leftarrow> pbuf_remove_header h p (unat free_left);
               pbuf_free_header h p 0 }) })"

section \<open>Joining and splitting chains\<close>

partial_function (option) pbuf_cat_loop :: "hp \<Rightarrow> nat \<Rightarrow> u16 \<Rightarrow> (hp \<times> nat) option" where
  "pbuf_cat_loop h p t_tot_len = do {
     b \<leftarrow> pbufs h p;
     (case pb_next b of
        None \<Rightarrow> Some (h, p)
      | Some n \<Rightarrow> pbuf_cat_loop (upd_pbuf h p (\<lambda>b. b\<lparr>pb_tot_len := pb_tot_len b + t_tot_len\<rparr>)) n t_tot_len) }"

definition pbuf_cat :: "hp \<Rightarrow> nat option \<Rightarrow> nat option \<Rightarrow> hp option" where
  "pbuf_cat h p t = do {
     LWIP_ASSERT (p \<noteq> None \<and> t \<noteq> None);
     hd \<leftarrow> p;
     tl \<leftarrow> t;
     tb \<leftarrow> pbufs h tl;
     (h, l) \<leftarrow> pbuf_cat_loop h hd (pb_tot_len tb);
     b \<leftarrow> pbufs h l;
     LWIP_ASSERT (pb_tot_len b = pb_len b);
     LWIP_ASSERT (pb_next b = None);
     tb \<leftarrow> pbufs h tl;
     Some (upd_pbuf h l (\<lambda>b. b\<lparr>pb_tot_len := pb_tot_len b + pb_tot_len tb, pb_next := Some tl\<rparr>)) }"

definition pbuf_chain :: "hp \<Rightarrow> nat option \<Rightarrow> nat option \<Rightarrow> hp option" where
  "pbuf_chain h p t = do { h \<leftarrow> pbuf_cat h p t; pbuf_ref h t }"

definition pbuf_dechain :: "hp \<Rightarrow> nat \<Rightarrow> (hp \<times> nat option) option" where
  "pbuf_dechain h p = do {
     b \<leftarrow> pbufs h p;
     (h, tail_gone) \<leftarrow>
       (case pb_next b of
          None \<Rightarrow> Some (h, 1)
        | Some q \<Rightarrow> do {
            qb \<leftarrow> pbufs h q;
            LWIP_ASSERT (int (unat (pb_tot_len qb)) = int (unat (pb_tot_len b)) - int (unat (pb_len b)));
            let h = upd_pbuf h q (\<lambda>qb. qb\<lparr>pb_tot_len := pb_tot_len b - pb_len b\<rparr>);
            let h = upd_pbuf h p (\<lambda>b. b\<lparr>pb_next := None, pb_tot_len := pb_len b\<rparr>);
            pbuf_free h (Some q) });
     b' \<leftarrow> pbufs h p;
     LWIP_ASSERT (pb_tot_len b' = pb_len b');
     Some (h, if tail_gone > 0 then None else pb_next b) }"

partial_function (option) pbuf_split_find ::
    "hp \<Rightarrow> nat \<Rightarrow> nat option \<Rightarrow> u16 \<Rightarrow> (nat \<times> nat option) option" where
  "pbuf_split_find h i r tot_len_front =
     (case r of
        None \<Rightarrow> Some (i, None)
      | Some a \<Rightarrow> do {
          b \<leftarrow> pbufs h a;
          (if tot_len_front + pb_len b \<ge> tot_len_front
           then pbuf_split_find h a (pb_next b) (tot_len_front + pb_len b)
           else Some (i, r)) })"

partial_function (option) pbuf_split_tot_len :: "hp \<Rightarrow> nat option \<Rightarrow> u16 \<Rightarrow> hp option" where
  "pbuf_split_tot_len h i r_tot_len =
     (case i of
        None \<Rightarrow> Some h
      | Some a \<Rightarrow> do {
          let h = upd_pbuf h a (\<lambda>b. b\<lparr>pb_tot_len := pb_tot_len b - r_tot_len\<rparr>);
          b \<leftarrow> pbufs h a;
          LWIP_ASSERT (pb_next b \<noteq> None \<or> pb_tot_len b = pb_len b);
          pbuf_split_tot_len h (pb_next b) r_tot_len })"

definition pbuf_split_64k :: "hp \<Rightarrow> nat option \<Rightarrow> (hp \<times> nat option) option" where
  "pbuf_split_64k h p =
     (case p of
        None \<Rightarrow> Some (h, None)
      | Some a \<Rightarrow> do {
          b \<leftarrow> pbufs h a;
          (if pb_next b = None then Some (h, None)
           else do {
             (i, r) \<leftarrow> pbuf_split_find h a (pb_next b) (pb_len b);
             let h = upd_pbuf h i (\<lambda>b. b\<lparr>pb_next := None\<rparr>);
             (case r of
                None \<Rightarrow> Some (h, None)
              | Some ra \<Rightarrow> do {
                  rb \<leftarrow> pbufs h ra;
                  h \<leftarrow> pbuf_split_tot_len h p (pb_tot_len rb);
                  let h = (if pb_flags b AND PBUF_FLAG_TCP_FIN \<noteq> 0
                           then upd_pbuf h ra (\<lambda>rb. rb\<lparr>pb_flags := pb_flags rb OR PBUF_FLAG_TCP_FIN\<rparr>)
                           else h);
                  Some (h, r) }) }) })"


section \<open>Reading, writing and comparing\<close>

text \<open>
  \<^verbatim>\<open>pbuf_skip_const\<close> and \<^verbatim>\<open>pbuf_skip\<close> give the pbuf that holds an offset (or none)
  and the offset left inside it.
\<close>

partial_function (option) pbuf_skip_const :: "hp \<Rightarrow> nat option \<Rightarrow> u16 \<Rightarrow> (nat option \<times> u16) option" where
  "pbuf_skip_const h q offset_left =
     (case q of
        None \<Rightarrow> Some (None, offset_left)
      | Some a \<Rightarrow> do {
          b \<leftarrow> pbufs h a;
          (if pb_len b \<le> offset_left then pbuf_skip_const h (pb_next b) (offset_left - pb_len b)
           else Some (q, offset_left)) })"

definition pbuf_skip :: "hp \<Rightarrow> nat option \<Rightarrow> u16 \<Rightarrow> (nat option \<times> u16) option" where
  "pbuf_skip h p in_offset = pbuf_skip_const h p in_offset"

partial_function (option) pbuf_copy_loop ::
    "hp \<Rightarrow> nat \<Rightarrow> nat \<Rightarrow> nat \<Rightarrow> nat \<Rightarrow> (hp \<times> err_t) option" where
  "pbuf_copy_loop h p_to p_from offset_to offset_from = do {
     t \<leftarrow> pbufs h p_to;
     f \<leftarrow> pbufs h p_from;
     let len = (if unat (pb_len t) - offset_to \<ge> unat (pb_len f) - offset_from
                then unat (pb_len f) - offset_from else unat (pb_len t) - offset_to);
     m \<leftarrow> MEMCPY (bytes h) (pb_payload t + offset_to) (pb_payload f + offset_from) len;
     let h = h\<lparr>bytes := m\<rparr>;
     let offset_to = offset_to + len;
     let offset_from = offset_from + len;
     LWIP_ASSERT (offset_to \<le> unat (pb_len t));
     LWIP_ASSERT (offset_from \<le> unat (pb_len f));
     let (offset_from, next_from) =
       (if offset_from \<ge> unat (pb_len f) then (0, pb_next f) else (offset_from, Some p_from));
     let (offset_to, next_to) =
       (if offset_to = unat (pb_len t) then (0, pb_next t) else (offset_to, Some p_to));
     LWIP_ASSERT (next_to \<noteq> None \<or> next_from = None);
     (case next_from of
        None \<Rightarrow> Some ()
      | Some nf \<Rightarrow> do {
          b \<leftarrow> pbufs h nf;
          LWIP_ASSERT (pb_len b \<noteq> pb_tot_len b \<or> pb_next b = None) });
     (case next_to of
        None \<Rightarrow> Some ()
      | Some nt \<Rightarrow> do {
          b \<leftarrow> pbufs h nt;
          LWIP_ASSERT (pb_len b \<noteq> pb_tot_len b \<or> pb_next b = None) });
     (case next_from of
        None \<Rightarrow> Some (h, ERR_OK)
      | Some nf \<Rightarrow> do { nt \<leftarrow> next_to; pbuf_copy_loop h nt nf offset_to offset_from }) }"

definition pbuf_copy :: "hp \<Rightarrow> nat option \<Rightarrow> nat option \<Rightarrow> (hp \<times> err_t) option" where
  "pbuf_copy h p_to p_from = do {
     t \<leftarrow> p_to;
     f \<leftarrow> p_from;
     tb \<leftarrow> pbufs h t;
     fb \<leftarrow> pbufs h f;
     LWIP_ASSERT (pb_tot_len tb \<ge> pb_tot_len fb);
     pbuf_copy_loop h t f 0 0 }"

text \<open>The bytes copied out so far are the accumulator, \<^verbatim>\<open>copied_total\<close> its length.\<close>

partial_function (option) pbuf_copy_partial_loop ::
    "hp \<Rightarrow> nat option \<Rightarrow> u16 \<Rightarrow> u16 \<Rightarrow> u8 list \<Rightarrow> u16 \<Rightarrow> (u16 \<times> u8 list) option" where
  "pbuf_copy_partial_loop h p len offset out copied_total =
     (case p of
        None \<Rightarrow> Some (copied_total, out)
      | Some a \<Rightarrow>
          if len = 0 then Some (copied_total, out)
          else do {
            b \<leftarrow> pbufs h a;
            (if offset \<noteq> 0 \<and> offset \<ge> pb_len b
             then pbuf_copy_partial_loop h (pb_next b) len (offset - pb_len b) out copied_total
             else do {
               let buf_copy_len = min (pb_len b - offset) len;
               bs \<leftarrow> load (bytes h) (pb_payload b + unat offset) (unat buf_copy_len);
               pbuf_copy_partial_loop h (pb_next b) (len - buf_copy_len) 0 (out @ bs)
                 (copied_total + buf_copy_len) }) })"

definition pbuf_copy_partial :: "hp \<Rightarrow> nat option \<Rightarrow> u16 \<Rightarrow> u16 \<Rightarrow> (u16 \<times> u8 list) option" where
  "pbuf_copy_partial h buf len offset = do {
     LWIP_ASSERT (buf \<noteq> None);
     pbuf_copy_partial_loop h buf len offset [] 0 }"

text \<open>A contiguous view: a pointer into the payload, the caller's buffer, or \<^verbatim>\<open>NULL\<close>.\<close>

datatype contiguous = In_payload nat | In_buffer "u8 list" | Not_contiguous

definition pbuf_get_contiguous :: "hp \<Rightarrow> nat option \<Rightarrow> nat \<Rightarrow> u16 \<Rightarrow> u16 \<Rightarrow> contiguous option" where
  "pbuf_get_contiguous h p bufsize len offset = do {
     LWIP_ASSERT (p \<noteq> None);
     LWIP_ASSERT (bufsize \<ge> unat len);
     (q, out_offset) \<leftarrow> pbuf_skip_const h p offset;
     (case q of
        None \<Rightarrow> Some Not_contiguous
      | Some a \<Rightarrow> do {
          b \<leftarrow> pbufs h a;
          (if unat (pb_len b) \<ge> unat out_offset + unat len
           then Some (In_payload (pb_payload b + unat out_offset))
           else do {
             (n, bs) \<leftarrow> pbuf_copy_partial h q len out_offset;
             Some (if n \<noteq> len then Not_contiguous else In_buffer bs) }) }) }"

text \<open>The data written is a list; its length is the \<^verbatim>\<open>len\<close> argument.\<close>

partial_function (option) pbuf_take_loop :: "hp \<Rightarrow> nat option \<Rightarrow> u8 list \<Rightarrow> hp option" where
  "pbuf_take_loop h p data =
     (if data = [] then Some h
      else do {
        a \<leftarrow> p;
        b \<leftarrow> pbufs h a;
        let buf_copy_len = min (length data) (unat (pb_len b));
        m \<leftarrow> store (bytes h) (pb_payload b) (take buf_copy_len data);
        pbuf_take_loop (h\<lparr>bytes := m\<rparr>) (pb_next b) (drop buf_copy_len data) })"

definition pbuf_take :: "hp \<Rightarrow> nat option \<Rightarrow> u8 list \<Rightarrow> (hp \<times> err_t) option" where
  "pbuf_take h buf data = do {
     a \<leftarrow> buf;
     b \<leftarrow> pbufs h a;
     LWIP_ASSERT (unat (pb_tot_len b) \<ge> length data);
     h \<leftarrow> pbuf_take_loop h buf data;
     Some (h, ERR_OK) }"

definition pbuf_take_at :: "hp \<Rightarrow> nat option \<Rightarrow> u8 list \<Rightarrow> u16 \<Rightarrow> (hp \<times> err_t) option" where
  "pbuf_take_at h buf data offset = do {
     (q, target_offset) \<leftarrow> pbuf_skip h buf offset;
     (case q of
        None \<Rightarrow> Some (h, ERR_MEM)
      | Some a \<Rightarrow> do {
          b \<leftarrow> pbufs h a;
          (if unat (pb_tot_len b) \<ge> unat target_offset + length data then do {
             LWIP_ASSERT (target_offset < pb_len b);
             let first_copy_len = min (unat (pb_len b) - unat target_offset) (length data);
             m \<leftarrow> store (bytes h) (pb_payload b + unat target_offset) (take first_copy_len data);
             let h = h\<lparr>bytes := m\<rparr>;
             (if length data - first_copy_len > 0
              then pbuf_take h (pb_next b) (drop first_copy_len data)
              else Some (h, ERR_OK)) }
           else Some (h, ERR_MEM)) }) }"

definition pbuf_clone ::
    "allocator \<Rightarrow> hp \<Rightarrow> pbuf_layer \<Rightarrow> pbuf_type \<Rightarrow> nat \<Rightarrow> (hp \<times> nat option) option" where
  "pbuf_clone al h layer type p = do {
     b \<leftarrow> pbufs h p;
     (h, q) \<leftarrow> pbuf_alloc al h layer (pb_tot_len b) type;
     (case q of
        None \<Rightarrow> Some (h, None)
      | Some a \<Rightarrow> do {
          (h, err) \<leftarrow> pbuf_copy h q (Some p);
          LWIP_ASSERT (err = ERR_OK);
          Some (h, q) }) }"

definition pbuf_coalesce :: "allocator \<Rightarrow> hp \<Rightarrow> nat \<Rightarrow> pbuf_layer \<Rightarrow> (hp \<times> nat) option" where
  "pbuf_coalesce al h p layer = do {
     b \<leftarrow> pbufs h p;
     (if pb_next b = None then Some (h, p)
      else do {
        (h, q) \<leftarrow> pbuf_clone al h layer PBUF_RAM p;
        (case q of
           None \<Rightarrow> Some (h, p)
         | Some a \<Rightarrow> do { (h, n) \<leftarrow> pbuf_free h (Some p); Some (h, a) }) }) }"

definition pbuf_try_get_at :: "hp \<Rightarrow> nat option \<Rightarrow> u16 \<Rightarrow> int option" where
  "pbuf_try_get_at h p offset = do {
     (q, q_idx) \<leftarrow> pbuf_skip_const h p offset;
     (case q of
        None \<Rightarrow> Some (-1)
      | Some a \<Rightarrow> do {
          b \<leftarrow> pbufs h a;
          (if pb_len b > q_idx then do { x \<leftarrow> bytes h (pb_payload b + unat q_idx); Some (uint x) }
           else Some (-1)) }) }"

definition pbuf_get_at :: "hp \<Rightarrow> nat option \<Rightarrow> u16 \<Rightarrow> u8 option" where
  "pbuf_get_at h p offset = do {
     ret \<leftarrow> pbuf_try_get_at h p offset;
     Some (if ret \<ge> 0 then word_of_int ret else 0) }"

definition pbuf_put_at :: "hp \<Rightarrow> nat option \<Rightarrow> u16 \<Rightarrow> u8 \<Rightarrow> hp option" where
  "pbuf_put_at h p offset data = do {
     (q, q_idx) \<leftarrow> pbuf_skip h p offset;
     (case q of
        None \<Rightarrow> Some h
      | Some a \<Rightarrow> do {
          b \<leftarrow> pbufs h a;
          (if pb_len b > q_idx
           then do { m \<leftarrow> store (bytes h) (pb_payload b + unat q_idx) [data]; Some (h\<lparr>bytes := m\<rparr>) }
           else Some h) }) }"

partial_function (option) pbuf_memcmp_skip :: "hp \<Rightarrow> nat option \<Rightarrow> u16 \<Rightarrow> (nat option \<times> u16) option" where
  "pbuf_memcmp_skip h q start =
     (case q of
        None \<Rightarrow> Some (None, start)
      | Some a \<Rightarrow> do {
          b \<leftarrow> pbufs h a;
          (if pb_len b \<le> start then pbuf_memcmp_skip h (pb_next b) (start - pb_len b)
           else Some (q, start)) })"

fun pbuf_memcmp_loop :: "hp \<Rightarrow> nat option \<Rightarrow> u16 \<Rightarrow> u16 \<Rightarrow> u8 list \<Rightarrow> u16 option" where
  "pbuf_memcmp_loop h q start i [] = Some 0"
| "pbuf_memcmp_loop h q start i (b # s2) = do {
     a \<leftarrow> pbuf_get_at h q (start + i);
     (if a \<noteq> b then Some (of_nat (min (unat i + 1) 0xFFFF))
      else pbuf_memcmp_loop h q start (i + 1) s2) }"

definition pbuf_memcmp :: "hp \<Rightarrow> nat \<Rightarrow> u16 \<Rightarrow> u8 list \<Rightarrow> u16 option" where
  "pbuf_memcmp h p offset s2 = do {
     b \<leftarrow> pbufs h p;
     (if unat (pb_tot_len b) < unat offset + length s2 then Some 0xFFFF
      else do {
        (q, start) \<leftarrow> pbuf_memcmp_skip h (Some p) offset;
        pbuf_memcmp_loop h q start 0 s2 }) }"

partial_function (option) pbuf_memfind_loop ::
    "hp \<Rightarrow> nat \<Rightarrow> u8 list \<Rightarrow> u16 \<Rightarrow> u16 \<Rightarrow> u16 option" where
  "pbuf_memfind_loop h p mem i max_cmp_start =
     (if i \<le> max_cmp_start then do {
        plus \<leftarrow> pbuf_memcmp h p i mem;
        (if plus = 0 then Some i else pbuf_memfind_loop h p mem (i + 1) max_cmp_start) }
      else Some 0xFFFF)"

definition pbuf_memfind :: "hp \<Rightarrow> nat \<Rightarrow> u8 list \<Rightarrow> u16 \<Rightarrow> u16 option" where
  "pbuf_memfind h p mem start_offset = do {
     b \<leftarrow> pbufs h p;
     (if unat (pb_tot_len b) \<ge> length mem + unat start_offset
      then pbuf_memfind_loop h p mem start_offset (pb_tot_len b - of_nat (length mem))
      else Some 0xFFFF) }"

text \<open>The substring is a C string: its bytes without the terminator.\<close>

definition pbuf_strstr :: "hp \<Rightarrow> nat \<Rightarrow> u8 list \<Rightarrow> u16 option" where
  "pbuf_strstr h p substr = do {
     b \<leftarrow> pbufs h p;
     (if substr = [] \<or> pb_tot_len b = 0xFFFF then Some 0xFFFF
      else if length substr \<ge> 0xFFFF then Some 0xFFFF
      else pbuf_memfind h p substr 0) }"

end
