(* ===== verification/Pbuf_props.thy ===== *)
theory Pbuf_props imports Pbuf begin

text \<open>
  What the packet buffer routines compute, stated over the bytes of a chain.
  \<open>packet h p as\<close> says that \<open>p\<close> starts the \<^verbatim>\<open>NULL\<close>-terminated chain of the
  addresses \<open>as\<close>, that every payload is readable, and that the \<^verbatim>\<open>tot_len\<close>
  invariant of \<^verbatim>\<open>pbuf.h\<close> holds; \<open>content h as\<close> is the sequence of the chain's bytes.
\<close>

section \<open>Chains and their content\<close>

definition pb_bytes :: "hp \<Rightarrow> nat \<Rightarrow> u8 list" where
  "pb_bytes h a =
     (case pbufs h a of
        None \<Rightarrow> []
      | Some q \<Rightarrow> (case load (bytes h) (pb_payload q) (unat (pb_len q)) of None \<Rightarrow> [] | Some bs \<Rightarrow> bs))"

fun content :: "hp \<Rightarrow> nat list \<Rightarrow> u8 list" where
  "content h [] = []"
| "content h (a # as) = pb_bytes h a @ content h as"

fun packet :: "hp \<Rightarrow> nat option \<Rightarrow> nat list \<Rightarrow> bool" where
  "packet h p [] \<longleftrightarrow> p = None"
| "packet h p (a # as) \<longleftrightarrow> p = Some a \<and>
     (case pbufs h a of
        None \<Rightarrow> False
      | Some q \<Rightarrow> load (bytes h) (pb_payload q) (unat (pb_len q)) \<noteq> None \<and>
          unat (pb_tot_len q) = unat (pb_len q) + length (content h as) \<and> packet h (pb_next q) as)"

lemma packet_Cons_D:
  assumes "packet h p (a # as)"
  obtains q where "p = Some a" "pbufs h a = Some q"
    "load (bytes h) (pb_payload q) (unat (pb_len q)) = Some (pb_bytes h a)"
    "length (pb_bytes h a) = unat (pb_len q)"
    "unat (pb_tot_len q) = unat (pb_len q) + length (content h as)"
    "packet h (pb_next q) as"
  using assms
  by (auto simp: pb_bytes_def load_length split: option.splits)

lemma packet_ConsI:
  "pbufs h a = Some q \<Longrightarrow> load (bytes h) (pb_payload q) (unat (pb_len q)) = Some bs \<Longrightarrow>
   unat (pb_tot_len q) = unat (pb_len q) + length (content h as) \<Longrightarrow> packet h (pb_next q) as \<Longrightarrow>
   packet h (Some a) (a # as)"
  by simp

declare packet.simps(2) [simp del]

lemma packet_NoneD [simp]: "packet h None as \<longleftrightarrow> as = []"
  by (cases as) (auto simp: packet.simps(2))

lemma packet_SomeD: "packet h (Some a) as \<Longrightarrow> \<exists>as'. as = a # as'"
  by (cases as) (auto simp: packet.simps(2))

lemma packet_pbuf:
  "packet h p (a # as) \<Longrightarrow> pbufs h a = Some q \<Longrightarrow> length (pb_bytes h a) = unat (pb_len q)"
  by (auto elim: packet_Cons_D)

lemma packet_next: "packet h p (a # as) \<Longrightarrow> pbufs h a = Some q \<Longrightarrow> packet h (pb_next q) as"
  by (auto elim: packet_Cons_D)

lemma content_append [simp]: "content h (as @ bs) = content h as @ content h bs"
  by (induction as) auto

text \<open>The links alone.\<close>

fun chain :: "hp \<Rightarrow> nat option \<Rightarrow> nat list \<Rightarrow> bool" where
  "chain h p [] \<longleftrightarrow> p = None"
| "chain h p (a # as) \<longleftrightarrow> p = Some a \<and> (\<exists>q. pbufs h a = Some q \<and> chain h (pb_next q) as)"

lemma packet_chain: "packet h p as \<Longrightarrow> chain h p as"
  by (induction as arbitrary: p) (auto elim!: packet_Cons_D)

lemma chain_unique: "chain h p as \<Longrightarrow> chain h p bs \<Longrightarrow> as = bs"
proof (induction as arbitrary: p bs)
  case Nil
  then show ?case by (cases bs) auto
next
  case (Cons a as)
  then show ?case by (cases bs) auto
qed

lemma chain_suffix: "chain h p (as @ bs) \<Longrightarrow> \<exists>p'. chain h p' bs"
  by (induction as arbitrary: p) auto

lemma chain_distinct: "chain h p as \<Longrightarrow> distinct as"
proof (induction as arbitrary: p)
  case (Cons a as)
  from Cons.prems obtain q where q: "pbufs h a = Some q" "chain h (pb_next q) as" by auto
  have "a \<notin> set as"
  proof
    assume "a \<in> set as"
    then obtain xs ys where as: "as = xs @ a # ys" by (meson split_list)
    with q(2) obtain p' where "chain h p' (a # ys)" using chain_suffix by blast
    then have "chain h (pb_next q) ys" using q(1) by simp
    with q(2) have "as = ys" by (rule chain_unique)
    with as show False by simp
  qed
  with Cons.IH q(2) show ?case by simp
qed simp

lemma chain_frame: "chain h p as \<Longrightarrow> (\<And>a. a \<in> set as \<Longrightarrow> pbufs h' a = pbufs h a) \<Longrightarrow> chain h' p as"
  by (induction as arbitrary: p) auto

text \<open>Where \<open>pbuf_split_64k\<close> cuts a chain: behind the longest front part whose buffers have at
  most 65535 bytes together. The sum of 16-bit lengths overflows exactly when it passes that.\<close>

fun bytes_of :: "hp \<Rightarrow> nat list \<Rightarrow> nat" where
  "bytes_of h [] = 0"
| "bytes_of h (a # as) = (case pbufs h a of None \<Rightarrow> 0 | Some q \<Rightarrow> unat (pb_len q)) + bytes_of h as"

lemma u16_add_overflow: "(t :: u16) \<le> t + l \<longleftrightarrow> unat t + unat l < 65536"
  by (simp add: word_le_nat_alt unat_plus_if_size word_size) (use unat_u16_less [of l] in linarith)

lemma pbuf_split_find_cut:
  assumes "chain h r as"
  shows "\<exists>front rest p. as = front @ rest \<and> pbuf_split_find h i r t = Some (List.last (i # front), p) \<and> chain h p rest \<and>
    unat t + bytes_of h front < 65536 \<and> (rest \<noteq> [] \<longrightarrow> 65536 \<le> unat t + bytes_of h (front @ [hd rest]))"
  using assms
proof (induction as arbitrary: i r t)
  case Nil
  then show ?case using unat_u16_less [of t] by (intro exI [of _ "[]"]) (simp add: pbuf_split_find.simps)
next
  case (Cons a as)
  then obtain q where q: "r = Some a" "pbufs h a = Some q" "chain h (pb_next q) as" by auto
  show ?case
  proof (cases "unat t + unat (pb_len q) < 65536")
    case True
    then have u: "unat (t + pb_len q) = unat t + unat (pb_len q)" by (simp add: unat_plus_if_size word_size)
    obtain front rest p where c: "as = front @ rest" "pbuf_split_find h a (pb_next q) (t + pb_len q) = Some (List.last (a # front), p)"
      "chain h p rest" "unat (t + pb_len q) + bytes_of h front < 65536"
      "rest \<noteq> [] \<longrightarrow> 65536 \<le> unat (t + pb_len q) + bytes_of h (front @ [hd rest])"
      using Cons.IH [OF q(3)] by blast
    show ?thesis
      by (rule exI [of _ "a # front"], rule exI [of _ rest], rule exI [of _ p])
         (use c q True u in \<open>simp add: pbuf_split_find.simps [of h i] u16_add_overflow add.assoc\<close>)
  next
    case False
    have "pbuf_split_find h i r t = Some (i, Some a)"
      using False q by (simp add: pbuf_split_find.simps [of h i] u16_add_overflow)
    then show ?thesis using False q(2) Cons.prems q(1)
      by (intro exI [of _ "[]"] exI [of _ "a # as"] exI [of _ "Some a"]) (simp add: not_less)
  qed
qed

text \<open>So what stays in front is not empty and has less than 64 KB, when the first buffer has a byte.\<close>

lemma pbuf_split_find_bounds:
  assumes "chain h (Some a) (a # as)" and "pbufs h a = Some q" and "0 < pb_len q"
  shows "\<exists>front rest p. as = front @ rest \<and> pbuf_split_find h a (pb_next q) (pb_len q) = Some (List.last (a # front), p) \<and>
    chain h p rest \<and> 0 < bytes_of h (a # front) \<and> bytes_of h (a # front) < 65536"
  using pbuf_split_find_cut [of h "pb_next q" as a "pb_len q"] assms by (auto simp: word_less_nat_alt)

lemma packet_unique: "packet h p as \<Longrightarrow> packet h p bs \<Longrightarrow> as = bs"
  by (blast intro: chain_unique packet_chain)

lemma packet_suffix: "packet h p (as @ bs) \<Longrightarrow> \<exists>p'. packet h p' bs"
  by (induction as arbitrary: p) (auto elim: packet_Cons_D)

lemma packet_distinct: "packet h p as \<Longrightarrow> distinct as"
  by (blast intro: chain_distinct packet_chain)

lemma packet_tot_len:
  "packet h (Some a) as \<Longrightarrow> pbufs h a = Some q \<Longrightarrow> unat (pb_tot_len q) = length (content h as)"
  by (cases as) (auto elim!: packet_Cons_D)

lemma content_small: "packet h p as \<Longrightarrow> length (content h as) < 65536"
proof (cases as)
  case (Cons a as')
  assume "packet h p as"
  with Cons obtain q where "p = Some a" "pbufs h a = Some q" by (auto elim: packet_Cons_D)
  with \<open>packet h p as\<close> have "unat (pb_tot_len q) = length (content h as)"
    by (auto intro: packet_tot_len)
  then show ?thesis by (metis unat_u16_less)
qed simp

section \<open>Walking a chain\<close>

lemma pbuf_clen_loop_packet:
  "packet h p as \<Longrightarrow> pbuf_clen_loop h p n = Some (n + of_nat (length as))"
proof (induction as arbitrary: p n)
  case Nil
  then show ?case by (subst pbuf_clen_loop.simps) simp
next
  case (Cons a as)
  from Cons.prems obtain q where "p = Some a" "pbufs h a = Some q" "packet h (pb_next q) as"
    by (rule packet_Cons_D)
  with Cons.IH show ?case by (subst pbuf_clen_loop.simps) (simp add: add.assoc)
qed

lemma pbuf_clen_packet: "packet h p as \<Longrightarrow> pbuf_clen h p = Some (of_nat (length as))"
  by (simp add: pbuf_clen_def pbuf_clen_loop_packet)

text \<open>Where an offset falls in a chain.\<close>

fun locate :: "hp \<Rightarrow> nat list \<Rightarrow> nat \<Rightarrow> nat list \<times> nat" where
  "locate h [] n = ([], n)"
| "locate h (a # as) n =
     (if length (pb_bytes h a) \<le> n then locate h as (n - length (pb_bytes h a)) else (a # as, n))"

lemma locate_content:
  "locate h as n = (bs, k) \<Longrightarrow> n < length (content h as) \<Longrightarrow>
   bs \<noteq> [] \<and> drop n (content h as) = drop k (content h bs) \<and> k < length (pb_bytes h (hd bs))"
  by (induction h as n rule: locate.induct) (auto split: if_splits)

lemma locate_beyond:
  "length (content h as) \<le> n \<Longrightarrow> locate h as n = ([], n - length (content h as))"
  by (induction h as n rule: locate.induct) auto

lemma locate_le: "locate h as n = (bs, k) \<Longrightarrow> k \<le> n"
  by (induction h as n rule: locate.induct) (fastforce split: if_splits)+

lemma locate_packet:
  "packet h p as \<Longrightarrow> locate h as n = (bs, k) \<Longrightarrow> \<exists>p'. packet h p' bs"
proof (induction h as n arbitrary: p rule: locate.induct)
  case (2 h a as n)
  show ?case
  proof (cases "length (pb_bytes h a) \<le> n")
    case True
    from 2(2) obtain q where "pbufs h a = Some q" "packet h (pb_next q) as" by (rule packet_Cons_D)
    with 2 True show ?thesis by simp
  next
    case False
    with 2 show ?thesis by auto
  qed
qed auto

lemma pbuf_skip_const_packet:
  "packet h p as \<Longrightarrow> locate h as (unat off) = (bs, k) \<Longrightarrow>
   pbuf_skip_const h p off = Some (if bs = [] then None else Some (hd bs), of_nat k)"
proof (induction as arbitrary: p off)
  case Nil
  then show ?case by (subst pbuf_skip_const.simps) auto
next
  case (Cons a as)
  from Cons.prems(1) obtain q where q: "p = Some a" "pbufs h a = Some q"
    "length (pb_bytes h a) = unat (pb_len q)" "packet h (pb_next q) as"
    by (rule packet_Cons_D)
  show ?case
  proof (cases "pb_len q \<le> off")
    case True
    then have "unat (off - pb_len q) = unat off - unat (pb_len q)"
      by (simp add: unat_sub_le word_le_nat_alt)
    with True Cons.prems(2) q(3) have "locate h as (unat (off - pb_len q)) = (bs, k)"
      by (simp add: word_le_nat_alt)
    with Cons.IH q(4) True q(1,2) show ?thesis by (subst pbuf_skip_const.simps) simp
  next
    case False
    then have "bs = a # as \<and> k = unat off" using Cons.prems(2) q(3) by (simp add: word_le_nat_alt)
    with False q show ?thesis by (subst pbuf_skip_const.simps) simp
  qed
qed

lemma pbuf_skip_const_in:
  assumes "packet h p as" and "unat off < length (content h as)"
  obtains a bs k q p' where "pbuf_skip_const h p off = Some (Some a, of_nat k)"
    "packet h p' (a # bs)" "pbufs h a = Some q" "k < unat (pb_len q)"
    "drop (unat off) (content h as) = drop k (content h (a # bs))"
    "k \<le> unat off"
proof -
  obtain cs k where loc: "locate h as (unat off) = (cs, k)" by fastforce
  from locate_content [OF this assms(2)] obtain a bs where
    cs: "cs = a # bs" "drop (unat off) (content h as) = drop k (content h cs)" "k < length (pb_bytes h a)"
    by (cases cs) auto
  from locate_packet [OF assms(1) loc] cs obtain p' where p': "packet h p' (a # bs)" by auto
  then obtain q where "pbufs h a = Some q" "length (pb_bytes h a) = unat (pb_len q)"
    by (rule packet_Cons_D)
  moreover have "k \<le> unat off" using loc by (rule locate_le)
  ultimately show ?thesis
    using that [of a k p' bs q] pbuf_skip_const_packet [OF assms(1) loc] cs p' by simp
qed


lemma pbuf_skip_const_out:
  assumes "packet h p as" and "length (content h as) \<le> unat off"
  shows "pbuf_skip_const h p off = Some (None, of_nat (unat off - length (content h as)))"
  using pbuf_skip_const_packet [OF assms(1) locate_beyond [OF assms(2)]] by simp

lemma pb_bytes_load:
  "pbufs h a = Some q \<Longrightarrow> packet h p (a # as) \<Longrightarrow>
   load (bytes h) (pb_payload q) (unat (pb_len q)) = Some (pb_bytes h a)"
  by (auto elim: packet_Cons_D)

lemma drop_hd_nth: "drop i xs = drop k ys \<Longrightarrow> i < length xs \<Longrightarrow> xs ! i = ys ! k"
  by (metis Cons_nth_drop_Suc list.inject drop_eq_Nil linorder_not_less)

lemma pbuf_try_get_at_packet:
  assumes "packet h p as"
  shows "pbuf_try_get_at h p off =
    Some (if unat off < length (content h as) then uint (content h as ! unat off) else -1)"
proof (cases "unat off < length (content h as)")
  case True
  with assms obtain a bs k q p' where skip: "pbuf_skip_const h p off = Some (Some a, of_nat k)"
    and pk: "packet h p' (a # bs)" and q: "pbufs h a = Some q" and k: "k < unat (pb_len q)"
    and d: "drop (unat off) (content h as) = drop k (content h (a # bs))" and "k \<le> unat off"
    by (rule pbuf_skip_const_in)
  then have k16: "unat (of_nat k :: u16) = k"
    using unat_u16_less [of "pb_len q"] by (simp add: unat_of_nat_u16 del: unat_u16_less)
  have "bytes h (pb_payload q + k) = Some (pb_bytes h a ! k)"
    using pb_bytes_load [OF q pk] k by (rule load_nth)
  also have "pb_bytes h a ! k = content h as ! unat off"
    using drop_hd_nth [OF d True] k packet_pbuf [OF pk q] by (simp add: nth_append)
  finally show ?thesis
    using True k k16 by (simp add: pbuf_try_get_at_def skip q word_less_nat_alt)
next
  case False
  then show ?thesis
    using pbuf_skip_const_out [OF assms] by (simp add: pbuf_try_get_at_def)
qed

lemma pbuf_get_at_packet:
  assumes "packet h p as"
  shows "pbuf_get_at h p off =
    Some (if unat off < length (content h as) then content h as ! unat off else 0)"
  by (simp add: pbuf_get_at_def pbuf_try_get_at_packet [OF assms])

section \<open>Copying out\<close>

lemma pbuf_copy_partial_loop_packet:
  "packet h p as \<Longrightarrow>
   pbuf_copy_partial_loop h p len off out n =
     (let bs = take (unat len) (drop (unat off) (content h as))
      in Some (n + of_nat (length bs), out @ bs))"
proof (induction as arbitrary: p len off out n)
  case Nil
  then show ?case by (subst pbuf_copy_partial_loop.simps) simp
next
  case (Cons a as)
  from Cons.prems obtain q where q: "p = Some a" "pbufs h a = Some q"
    and ld: "load (bytes h) (pb_payload q) (unat (pb_len q)) = Some (pb_bytes h a)"
    and len: "length (pb_bytes h a) = unat (pb_len q)" and pk: "packet h (pb_next q) as"
    by (rule packet_Cons_D)
  consider "len = 0" | "len \<noteq> 0" "off \<noteq> 0 \<and> off \<ge> pb_len q" | "len \<noteq> 0" "off = 0 \<or> off < pb_len q"
    by (meson not_less)
  then show ?case
  proof cases
    case 1
    then show ?thesis by (subst pbuf_copy_partial_loop.simps) (simp add: q)
  next
    case 2
    then have "unat (off - pb_len q) = unat off - unat (pb_len q)"
      by (simp add: unat_sub_le word_le_nat_alt)
    with 2 Cons.IH [OF pk] show ?thesis
      by (subst pbuf_copy_partial_loop.simps)
         (simp add: q len word_le_nat_alt Let_def)
  next
    case 3
    then have le: "unat off \<le> unat (pb_len q)" by (auto simp: word_less_nat_alt)
    define c where "c = min (pb_len q - off) len"
    have cn: "unat c = min (unat (pb_len q) - unat off) (unat len)"
      using le by (simp add: c_def min_def word_le_nat_alt unat_sub_le)
    have l: "load (bytes h) (pb_payload q + unat off) (unat c) = Some (take (unat c) (drop (unat off) (pb_bytes h a)))"
      using ld by (rule load_slice) (use le cn in linarith)
    have lenc: "unat (len - c) = unat len - unat c" using cn by (simp add: unat_sub_le)
    have n: "\<not> (off \<noteq> 0 \<and> pb_len q \<le> off)" using 3 by auto
    have step: "pbuf_copy_partial_loop h p len off out n =
      pbuf_copy_partial_loop h (pb_next q) (len - c) 0
        (out @ take (unat c) (drop (unat off) (pb_bytes h a))) (n + c)"
      using 3(1) l unfolding c_def
      by (subst pbuf_copy_partial_loop.simps) (simp only: q option.simps if_not_P [OF n] if_False Let_def bind.bind_lunit)
    have "take (unat c) (drop (unat off) (pb_bytes h a)) @ take (unat (len - c)) (content h as)
      = take (unat len) (drop (unat off) (content h (a # as)))"
      using le len cn lenc by (auto simp: min_def split: if_splits)
    moreover have "of_nat (length (take (unat c) (drop (unat off) (pb_bytes h a)))) = c"
    proof -
      have "length (take (unat c) (drop (unat off) (pb_bytes h a))) = unat c"
        using le len cn by simp
      then show ?thesis by (simp only:) simp
    qed
    ultimately show ?thesis
      unfolding step Cons.IH [OF pk] Let_def
      by (metis (no_types, lifting) add.assoc append.assoc drop0 length_append of_nat_add unsigned_0)
  qed
qed

lemma pbuf_copy_partial_packet:
  "packet h (Some a) as \<Longrightarrow>
   pbuf_copy_partial h (Some a) len off =
     (let bs = take (unat len) (drop (unat off) (content h as)) in Some (of_nat (length bs), bs))"
  by (simp add: pbuf_copy_partial_def pbuf_copy_partial_loop_packet Let_def)

lemma pbuf_get_contiguous_in:
  assumes pk: "packet h (Some p) as" and len: "unat len \<le> bufsize"
    and r: "pbuf_get_contiguous h (Some p) bufsize len off = Some c"
  shows "case c of
      In_payload x \<Rightarrow> load (bytes h) x (unat len) = Some (take (unat len) (drop (unat off) (content h as)))
    | In_buffer bs \<Rightarrow> bs = take (unat len) (drop (unat off) (content h as)) \<and> length bs = unat len
    | Not_contiguous \<Rightarrow> length (content h as) \<le> unat off \<or> length (content h as) < unat off + unat len"
proof (cases "unat off < length (content h as)")
  case False
  with r len pk show ?thesis
    by (auto simp: pbuf_get_contiguous_def pbuf_skip_const_out)
next
  case True
  with pk obtain a bs k q p' where skip: "pbuf_skip_const h (Some p) off = Some (Some a, of_nat k)"
    and pk': "packet h p' (a # bs)" and q: "pbufs h a = Some q" and k: "k < unat (pb_len q)"
    and d: "drop (unat off) (content h as) = drop k (content h (a # bs))" and "k \<le> unat off"
    by (rule pbuf_skip_const_in)
  then have k16: "unat (of_nat k :: u16) = k"
    using unat_u16_less [of "pb_len q"] by (simp add: unat_of_nat_u16 del: unat_u16_less)
  have a: "p' = Some a" using pk' by (auto elim: packet_Cons_D)
  note pl = packet_pbuf [OF pk' q] and ld = pb_bytes_load [OF q pk']
  show ?thesis
  proof (cases "k + unat len \<le> unat (pb_len q)")
    case True
    then have "c = In_payload (pb_payload q + k)"
      using r len k16 by (simp add: pbuf_get_contiguous_def skip q)
    moreover have "load (bytes h) (pb_payload q + k) (unat len) = Some (take (unat len) (drop k (pb_bytes h a)))"
      using ld True by (rule load_slice)
    ultimately show ?thesis using d pl True by simp
  next
    case False
    define xs where "xs = take (unat len) (drop (unat off) (content h as))"
    have xs: "xs = take (unat len) (drop k (content h (a # bs)))" by (simp only: xs_def d)
    have xl: "length xs \<le> unat len" by (simp add: xs)
    have "pbuf_copy_partial h (Some a) len (of_nat k) = Some (of_nat (length xs), xs)"
      using pbuf_copy_partial_packet [OF pk' [unfolded a]] k16 xs by (simp add: Let_def)
    with False r len k16 have c: "c = (if (of_nat (length xs) :: u16) \<noteq> len then Not_contiguous else In_buffer xs)"
      by (simp add: pbuf_get_contiguous_def skip q)
    have "(of_nat (length xs) :: u16) = len \<longleftrightarrow> length xs = unat len"
      using xl unat_u16_less [of len] by (metis le_less_trans unat_of_nat_u16 word_unat_eq_iff)
    then show ?thesis using c xl by (auto simp: xs_def)
  qed
qed


section \<open>Comparing and searching\<close>

lemma pbuf_memcmp_skip_eq: "packet h q as \<Longrightarrow> pbuf_memcmp_skip h q off = pbuf_skip_const h q off"
proof (induction as arbitrary: q off)
  case Nil
  then show ?case by (subst pbuf_memcmp_skip.simps, subst pbuf_skip_const.simps) simp
next
  case (Cons a as)
  from Cons.prems obtain b where "q = Some a" "pbufs h a = Some b" "packet h (pb_next b) as"
    by (rule packet_Cons_D)
  with Cons.IH show ?case by (subst pbuf_memcmp_skip.simps, subst pbuf_skip_const.simps) simp
qed

lemma unat_word_Suc: "unat (i :: u16) + 1 < 65536 \<Longrightarrow> unat (i + 1) = unat i + 1"
  by (simp add: unat_add_small)

lemma pbuf_memcmp_loop_packet:
  assumes "packet h q as"
  shows "unat start + unat i + length s2 \<le> length (content h as) \<Longrightarrow>
    \<exists>r. pbuf_memcmp_loop h q start i s2 = Some r \<and>
      (r = 0 \<longleftrightarrow> take (length s2) (drop (unat start + unat i) (content h as)) = s2)"
proof (induction s2 arbitrary: i)
  case (Cons b s2)
  note small = content_small [OF assms]
  have si: "unat (start + i) = unat start + unat i"
    using Cons.prems small by (simp add: unat_add_small)
  have lt: "unat start + unat i < length (content h as)" using Cons.prems by simp
  have hd: "take (length (b # s2)) (drop (unat start + unat i) (content h as)) =
      content h as ! (unat start + unat i) # take (length s2) (drop (unat start + unat i + 1) (content h as))"
    using lt by (simp flip: Cons_nth_drop_Suc)
  have get: "pbuf_get_at h q (start + i) = Some (content h as ! (unat start + unat i))"
    using pbuf_get_at_packet [OF assms] si lt by simp
  have i1: "unat (i + 1) = unat i + 1"
    using Cons.prems small by (intro unat_word_Suc) simp
  have nz: "(of_nat (min (unat i + 1) 0xFFFF) :: u16) \<noteq> 0"
  proof -
    have "unat (of_nat (min (unat i + 1) 0xFFFF) :: u16) = min (unat i + 1) 0xFFFF"
      by (rule unat_of_nat_u16) simp
    also have "\<dots> \<noteq> 0" by simp
    finally show ?thesis by (metis unat_0)
  qed
  show ?case
  proof (cases "content h as ! (unat start + unat i) = b")
    case True
    have "unat start + unat (i + 1) + length s2 \<le> length (content h as)" using Cons.prems i1 by simp
    from Cons.IH [OF this] True get hd i1 show ?thesis by simp
  next
    case False
    then show ?thesis using get hd nz by simp
  qed
qed simp

text \<open>\<open>matches_at\<close>: the bytes \<open>s2\<close> stand in \<open>bs\<close> at position \<open>i\<close>.\<close>

definition matches_at :: "u8 list \<Rightarrow> nat \<Rightarrow> u8 list \<Rightarrow> bool" where
  "matches_at bs i s2 \<longleftrightarrow> i + length s2 \<le> length bs \<and> take (length s2) (drop i bs) = s2"

text \<open>What a search from \<open>start\<close> has to return.\<close>

definition first_match :: "u8 list \<Rightarrow> nat \<Rightarrow> u8 list \<Rightarrow> u16 \<Rightarrow> bool" where
  "first_match bs start s2 r \<longleftrightarrow>
     (r = 0xFFFF \<and> (\<forall>j \<le> length bs. start \<le> j \<longrightarrow> \<not> matches_at bs j s2)) \<or>
     (start \<le> unat r \<and> matches_at bs (unat r) s2 \<and> (\<forall>j < unat r. start \<le> j \<longrightarrow> \<not> matches_at bs j s2))"

lemma pbuf_memcmp_packet:
  assumes pk: "packet h (Some p) as"
  shows "\<exists>r. pbuf_memcmp h p off s2 = Some r \<and> (r = 0 \<longleftrightarrow> matches_at (content h as) (unat off) s2)"
proof -
  obtain q where q: "pbufs h p = Some q" using pk packet_SomeD [OF pk] by (auto elim: packet_Cons_D)
  have tl: "unat (pb_tot_len q) = length (content h as)" using pk q by (rule packet_tot_len)
  show ?thesis
  proof (cases "length (content h as) < unat off + length s2")
    case True
    then show ?thesis by (simp add: pbuf_memcmp_def q tl matches_at_def)
  next
    case False
    show ?thesis
    proof (cases "unat off < length (content h as)")
      case True
      with pk obtain a bs k b p' where skip: "pbuf_skip_const h (Some p) off = Some (Some a, of_nat k)"
        and pk': "packet h p' (a # bs)" and b: "pbufs h a = Some b" and k: "k < unat (pb_len b)"
        and d: "drop (unat off) (content h as) = drop k (content h (a # bs))" and "k \<le> unat off"
        by (rule pbuf_skip_const_in)
      then have k16: "unat (of_nat k :: u16) = k"
        using unat_u16_less [of "pb_len b"] by (simp add: unat_of_nat_u16 del: unat_u16_less)
      have a: "p' = Some a" using pk' by (auto elim: packet_Cons_D)
      have "length (content h (a # bs)) - k = length (content h as) - unat off"
        using d by (metis length_drop)
      with False True have le: "unat (of_nat k :: u16) + unat (0 :: u16) + length s2 \<le> length (content h (a # bs))"
        using k16 by simp
      from pbuf_memcmp_loop_packet [OF pk' le] obtain r where
        "pbuf_memcmp_loop h (Some a) (of_nat k) 0 s2 = Some r"
        "r = 0 \<longleftrightarrow> take (length s2) (drop k (content h (a # bs))) = s2"
        using a k16 by auto
      then show ?thesis using False d
        by (simp add: pbuf_memcmp_def q tl matches_at_def pbuf_memcmp_skip_eq [OF pk] skip)
    next
      case outside: False
      with False have "length s2 = 0" "unat off = length (content h as)" by linarith+
      then have "s2 = []" by simp
      then show ?thesis
        using pbuf_skip_const_out [OF pk, of off] \<open>unat off = length (content h as)\<close>
        by (simp add: pbuf_memcmp_def q tl matches_at_def pbuf_memcmp_skip_eq [OF pk])
    qed
  qed
qed

lemma pbuf_memfind_loop_packet:
  assumes pk: "packet h (Some p) as" and s: "s2 \<noteq> []"
    and m: "unat mx + length s2 = length (content h as)"
  shows "\<forall>j < unat i. start \<le> j \<longrightarrow> \<not> matches_at (content h as) j s2 \<Longrightarrow> start \<le> unat i \<Longrightarrow>
    \<exists>r. pbuf_memfind_loop h p s2 i mx = Some r \<and> first_match (content h as) start s2 r"
proof (induction "65536 - unat i" arbitrary: i rule: less_induct)
  case less
  have beyond: "\<not> matches_at (content h as) j s2" if "unat mx < j" for j
    using that m by (simp add: matches_at_def)
  show ?case
  proof (cases "i \<le> mx")
    case False
    have "\<not> matches_at (content h as) j s2" if "start \<le> j" for j
    proof (cases "j < unat i")
      case True
      then show ?thesis using less.prems(1) that by blast
    next
      case f: False
      then have "unat mx < j" using False by (simp add: word_le_nat_alt)
      then show ?thesis by (rule beyond)
    qed
    then show ?thesis using False by (subst pbuf_memfind_loop.simps) (simp add: first_match_def)
  next
    case True
    obtain r where r: "pbuf_memcmp h p i s2 = Some r" "r = 0 \<longleftrightarrow> matches_at (content h as) (unat i) s2"
      using pbuf_memcmp_packet [OF pk] by blast
    show ?thesis
    proof (cases "r = 0")
      case r0: True
      then have "first_match (content h as) start s2 i"
        using less.prems r(2) by (simp add: first_match_def)
      then show ?thesis using True r(1) r0 by (subst pbuf_memfind_loop.simps) simp
    next
      case r1: False
      have "length s2 \<noteq> 0" "unat i \<le> unat mx" using s True by (simp_all add: word_le_nat_alt)
      then have "unat i + 1 < 65536" using m content_small [OF pk] by linarith
      then have i1: "unat (i + 1) = unat i + 1" by (rule unat_word_Suc)
      have 1: "\<forall>j < unat (i + 1). start \<le> j \<longrightarrow> \<not> matches_at (content h as) j s2"
        using less.prems(1) r(2) r1 i1 by (auto simp: less_Suc_eq)
      have 2: "65536 - unat (i + 1) < 65536 - unat i" using i1 unat_u16_less [of i] by linarith
      have 3: "start \<le> unat (i + 1)" using i1 less.prems(2) by linarith
      from less.hyps [OF 2 1 3] True r(1) r1 show ?thesis
        by (subst pbuf_memfind_loop.simps) simp
    qed
  qed
qed

lemma pbuf_memfind_packet:
  assumes pk: "packet h (Some p) as" and s: "s2 \<noteq> []"
  shows "\<exists>r. pbuf_memfind h p s2 start = Some r \<and> first_match (content h as) (unat start) s2 r"
proof -
  obtain q where q: "pbufs h p = Some q" using pk packet_SomeD [OF pk] by (auto elim: packet_Cons_D)
  have tl: "unat (pb_tot_len q) = length (content h as)" using pk q by (rule packet_tot_len)
  show ?thesis
  proof (cases "length s2 + unat start \<le> length (content h as)")
    case True
    have "unat (of_nat (length s2) :: u16) = length s2"
      using True content_small [OF pk] by (intro unat_of_nat_u16) linarith
    then have "unat (pb_tot_len q - of_nat (length s2)) + length s2 = length (content h as)"
      using True tl by (simp add: unat_sub_le)
    from pbuf_memfind_loop_packet [OF pk s this, of start "unat start"] True show ?thesis
      by (simp add: pbuf_memfind_def q tl)
  next
    case False
    then have "first_match (content h as) (unat start) s2 0xFFFF"
      by (simp add: matches_at_def first_match_def)
    with False show ?thesis by (simp add: pbuf_memfind_def q tl)
  qed
qed

end
