(* ===== verification/Pbuf_update.thy ===== *)
theory Pbuf_update imports Pbuf_props begin

text \<open>
  What the packet buffer routines that change a chain do to its bytes: concatenation,
  shrinking, header space, freeing, and writing. \<open>hp_ok\<close> is the invariant of the
  heap: blocks do not overlap, every pbuf struct has a block and a positive reference
  count, and the payload of a buffer whose data follow its struct lies in that block.
\<close>

section \<open>The heap invariant\<close>

definition resident :: "pbuf \<Rightarrow> bool" where
  "resident q \<longleftrightarrow> pb_type_internal q AND PBUF_TYPE_FLAG_STRUCT_DATA_CONTIGUOUS \<noteq> 0"

definition plain :: "pbuf \<Rightarrow> bool" where
  "plain q \<longleftrightarrow> pb_flags q AND PBUF_FLAG_IS_CUSTOM = 0 \<and> pbuf_get_allocsrc q \<in> {0, 1, 2}"

definition blocks_ok :: "hp \<Rightarrow> bool" where
  "blocks_ok h \<longleftrightarrow> (\<forall>a n b m. blocks h a = Some n \<longrightarrow> blocks h b = Some m \<longrightarrow> a \<noteq> b \<longrightarrow>
     a + n \<le> b \<or> b + m \<le> a)"

definition pbuf_ok :: "hp \<Rightarrow> nat \<Rightarrow> pbuf \<Rightarrow> bool" where
  "pbuf_ok h a q \<longleftrightarrow> a mod 4 = 0 \<and> pb_ref q \<noteq> 0 \<and>
     (\<exists>n. blocks h a = Some n \<and> SIZEOF_STRUCT_PBUF \<le> n \<and>
       (resident q \<longrightarrow> a + SIZEOF_STRUCT_PBUF \<le> pb_payload q \<and> pb_payload q + unat (pb_len q) \<le> a + n \<and>
          (\<forall>x. a + SIZEOF_STRUCT_PBUF \<le> x \<and> x < a + n \<longrightarrow> bytes h x \<noteq> None)))"

definition hp_ok :: "hp \<Rightarrow> bool" where
  "hp_ok h \<longleftrightarrow> blocks_ok h \<and> (\<forall>a q. pbufs h a = Some q \<longrightarrow> pbuf_ok h a q)"

text \<open>The buffers of a chain hold their own data and are freed by the pools.\<close>

definition own_chain :: "hp \<Rightarrow> nat list \<Rightarrow> bool" where
  "own_chain h as \<longleftrightarrow> (\<forall>a \<in> set as. \<forall>q. pbufs h a = Some q \<longrightarrow> resident q \<and> plain q)"

lemma own_chain_simps [simp]:
  "own_chain h []"
  "own_chain h (a # as) \<longleftrightarrow> (\<forall>q. pbufs h a = Some q \<longrightarrow> resident q \<and> plain q) \<and> own_chain h as"
  "own_chain h (as @ bs) \<longleftrightarrow> own_chain h as \<and> own_chain h bs"
  by (auto simp: own_chain_def)

section \<open>Updates of fields\<close>

lemma upd_pbuf_simps [simp]:
  "bytes (upd_pbuf h a f) = bytes h"
  "blocks (upd_pbuf h a f) = blocks h"
  "pbufs (upd_pbuf h a f) b = (if b = a then map_option f (pbufs h a) else pbufs h b)"
  by (simp_all add: upd_pbuf_def)

definition bump :: "hp \<Rightarrow> nat set \<Rightarrow> u16 \<Rightarrow> hp" where
  "bump h S t = h\<lparr>pbufs := \<lambda>b. if b \<in> S then map_option (\<lambda>q. q\<lparr>pb_tot_len := pb_tot_len q + t\<rparr>) (pbufs h b)
                              else pbufs h b\<rparr>"

lemma bump_simps [simp]:
  "bytes (bump h S t) = bytes h"
  "blocks (bump h S t) = blocks h"
  "pbufs (bump h S t) b = (if b \<in> S then map_option (\<lambda>q. q\<lparr>pb_tot_len := pb_tot_len q + t\<rparr>) (pbufs h b)
                           else pbufs h b)"
  by (simp_all add: bump_def)

lemma bump_empty: "bump h {} t = h"
  by (simp add: bump_def)

lemma bump_insert:
  "a \<notin> S \<Longrightarrow> bump (upd_pbuf h a (\<lambda>q. q\<lparr>pb_tot_len := pb_tot_len q + t\<rparr>)) S t = bump h (insert a S) t"
  by (auto simp: bump_def upd_pbuf_def fun_eq_iff)

lemma content_cong: "(\<And>a. a \<in> set as \<Longrightarrow> pb_bytes h' a = pb_bytes h a) \<Longrightarrow> content h' as = content h as"
  by (induction as) auto

lemma pb_bytes_cong:
  "pbufs h a = Some q \<Longrightarrow> pbufs h' a = Some q' \<Longrightarrow> pb_payload q' = pb_payload q \<Longrightarrow> pb_len q' = pb_len q \<Longrightarrow>
   bytes h' = bytes h \<Longrightarrow> pb_bytes h' a = pb_bytes h a"
  by (simp add: pb_bytes_def)

lemma packet_dom: "packet h p as \<Longrightarrow> a \<in> set as \<Longrightarrow> \<exists>q. pbufs h a = Some q"
  by (induction as arbitrary: p) (auto elim!: packet_Cons_D)

text \<open>A chain the update does not touch is as it was.\<close>

lemma packet_frame:
  "packet h p as \<Longrightarrow> (\<And>a. a \<in> set as \<Longrightarrow> pbufs h' a = pbufs h a) \<Longrightarrow>
   (\<And>a q. a \<in> set as \<Longrightarrow> pbufs h a = Some q \<Longrightarrow>
      load (bytes h') (pb_payload q) (unat (pb_len q)) = load (bytes h) (pb_payload q) (unat (pb_len q))) \<Longrightarrow>
   packet h' p as \<and> content h' as = content h as"
proof (induction as arbitrary: p)
  case (Cons a as)
  from Cons.prems(1) obtain q where q: "p = Some a" "pbufs h a = Some q"
    "load (bytes h) (pb_payload q) (unat (pb_len q)) = Some (pb_bytes h a)"
    "unat (pb_tot_len q) = unat (pb_len q) + length (content h as)" "packet h (pb_next q) as"
    by (rule packet_Cons_D)
  have IH: "packet h' (pb_next q) as \<and> content h' as = content h as"
    by (rule Cons.IH [OF q(5)]; rule Cons.prems(2, 3)) auto
  have "pbufs h' a = Some q" "load (bytes h') (pb_payload q) (unat (pb_len q)) = Some (pb_bytes h a)"
    using Cons.prems(2) [of a] Cons.prems(3) [of a q] q(2,3) by auto
  with q IH show ?case by (auto simp: packet.simps(2) pb_bytes_def)
qed simp

lemma packet_same:
  "packet h p as \<Longrightarrow> (\<And>a. a \<in> set as \<Longrightarrow> pbufs h' a = pbufs h a) \<Longrightarrow> bytes h' = bytes h \<Longrightarrow>
   packet h' p as \<and> content h' as = content h as"
  by (rule packet_frame) simp_all

text \<open>
  The chain \<open>pre\<close> keeps its data, gets \<open>T\<close> added to its \<^verbatim>\<open>tot_len\<close> fields and
  a new rest.
\<close>

lemma packet_graft:
  assumes "packet h p (pre @ post)" and "packet h tl_old post"
    and "packet h' tl_new post'"
    and "\<And>a q. a \<in> set pre \<Longrightarrow> pbufs h a = Some q \<Longrightarrow>
      load (bytes h') (pb_payload q) (unat (pb_len q)) = load (bytes h) (pb_payload q) (unat (pb_len q))"
    and "\<And>a q. a \<in> set pre \<Longrightarrow> pbufs h a = Some q \<Longrightarrow>
      pbufs h' a = Some (q\<lparr>pb_tot_len := pb_tot_len q + T,
                          pb_next := if pb_next q = tl_old then tl_new else pb_next q\<rparr>)"
    and "length (content h' post') = (length (content h post) + unat T) mod 65536"
    and "length (content h pre) + length (content h' post') < 65536"
  shows "packet h' (if pre = [] then tl_new else p) (pre @ post') \<and>
         content h' (pre @ post') = content h pre @ content h' post'"
  using assms(1,4,5,7)
proof (induction pre arbitrary: p)
  case Nil
  then show ?case using assms(3) by simp
next
  case (Cons a pre)
  from Cons.prems(1) have "packet h p (a # (pre @ post))" by simp
  then obtain q where q: "p = Some a" "pbufs h a = Some q"
    and ld: "load (bytes h) (pb_payload q) (unat (pb_len q)) = Some (pb_bytes h a)"
    and ln: "length (pb_bytes h a) = unat (pb_len q)"
    and tl: "unat (pb_tot_len q) = unat (pb_len q) + length (content h (pre @ post))"
    and nx: "packet h (pb_next q) (pre @ post)"
    by (rule packet_Cons_D)
  define q' where "q' = q\<lparr>pb_tot_len := pb_tot_len q + T,
                          pb_next := if pb_next q = tl_old then tl_new else pb_next q\<rparr>"
  have q': "pbufs h' a = Some q'" unfolding q'_def using Cons.prems(3) q(2) by simp
  have ld': "load (bytes h') (pb_payload q') (unat (pb_len q')) = Some (pb_bytes h a)"
    using ld Cons.prems(2) [of a q] q(2) by (simp add: q'_def)
  then have pb: "pb_bytes h' a = pb_bytes h a" by (simp add: pb_bytes_def [of h'] q')
  have IH: "packet h' (if pre = [] then tl_new else pb_next q) (pre @ post') \<and>
      content h' (pre @ post') = content h pre @ content h' post'"
    by (rule Cons.IH [OF nx]) (use Cons.prems in auto)
  have eq: "(if pre = [] then tl_new else pb_next q) = pb_next q'"
  proof (cases "pb_next q = tl_old")
    case True
    then have "pre @ post = post" using packet_unique [OF nx] assms(2) by simp
    then show ?thesis using True by (simp add: q'_def)
  next
    case False
    have "pre \<noteq> []"
    proof
      assume "pre = []"
      then have "pb_next q = tl_old" using nx assms(2) by (cases post) (auto elim!: packet_Cons_D)
      with False show False ..
    qed
    with False show ?thesis by (simp add: q'_def)
  qed
  have "unat (pb_tot_len q') = (unat (pb_tot_len q) + unat T) mod 65536"
    by (simp add: q'_def unat_word_ariths)
  also have "\<dots> = (length (content h (a # pre)) + (length (content h post) + unat T)) mod 65536"
    using tl ln by (simp add: algebra_simps)
  also have "\<dots> = (length (content h (a # pre)) + length (content h' post')) mod 65536"
    using assms(6) by (metis mod_add_right_eq)
  also have "\<dots> = length (content h (a # pre)) + length (content h' post')"
    using Cons.prems(4) by simp
  finally have "unat (pb_tot_len q') = unat (pb_len q') + length (content h' (pre @ post'))"
    using IH ln by (simp add: q'_def)
  with IH eq ld' q(1) q' pb show ?case by (simp add: packet.simps(2))
qed

section \<open>Concatenation\<close>

lemma pbuf_cat_loop_packet:
  "packet h (Some a) (a # as) \<Longrightarrow>
   pbuf_cat_loop h a t = Some (bump h (set (butlast (a # as))) t, last (a # as))"
proof (induction as arbitrary: h a)
  case Nil
  then obtain q where "pbufs h a = Some q" "packet h (pb_next q) []" by (rule packet_Cons_D)
  then show ?case by (subst pbuf_cat_loop.simps) (simp add: bump_empty)
next
  case (Cons b as)
  from Cons.prems obtain q where q: "pbufs h a = Some q" "packet h (pb_next q) (b # as)"
    by (rule packet_Cons_D)
  then have n: "pb_next q = Some b" by (auto elim!: packet_Cons_D)
  have a: "a \<notin> set (b # as)" using packet_distinct [OF Cons.prems] by simp
  define h1 where "h1 = upd_pbuf h a (\<lambda>q. q\<lparr>pb_tot_len := pb_tot_len q + t\<rparr>)"
  have "packet h1 (Some b) (b # as) \<and> content h1 (b # as) = content h (b # as)"
    by (rule packet_same) (use q n a in \<open>auto simp: h1_def\<close>)
  then have "pbuf_cat_loop h1 b t = Some (bump h1 (set (butlast (b # as))) t, last (b # as))"
    using Cons.IH by blast
  moreover have "bump h1 (set (butlast (b # as))) t = bump h (insert a (set (butlast (b # as)))) t"
    unfolding h1_def by (rule bump_insert) (use a in_set_butlastD [of a "b # as"] in blast)
  ultimately show ?case using q n
    by (subst pbuf_cat_loop.simps) (simp add: h1_def)
qed

lemma packet_last_next:
  "packet h p as \<Longrightarrow> a \<in> set as \<Longrightarrow> pbufs h a = Some q \<Longrightarrow> pb_next q = None \<longleftrightarrow> a = last as"
proof (induction as arbitrary: p)
  case (Cons b as)
  from Cons.prems(1) obtain qb where qb: "pbufs h b = Some qb" "packet h (pb_next qb) as"
    by (rule packet_Cons_D)
  show ?case
  proof (cases as)
    case Nil
    then show ?thesis using qb Cons.prems by simp
  next
    case (Cons c cs)
    have "b \<notin> set as" using packet_distinct [OF Cons.prems(1)] by simp
    moreover have "pb_next qb \<noteq> None" using qb Cons by (metis list.distinct(1) packet_NoneD)
    ultimately show ?thesis using Cons Cons.IH [OF qb(2)] Cons.prems qb by (auto split: if_splits)
  qed
qed simp

lemma pbuf_cat_packet:
  assumes p: "packet h (Some p) as" and t: "packet h (Some t) bs" and d: "set as \<inter> set bs = {}"
    and small: "length (content h as) + length (content h bs) < 65536"
  shows "\<exists>h'. pbuf_cat h (Some p) (Some t) = Some h' \<and> packet h' (Some p) (as @ bs) \<and>
    content h' (as @ bs) = content h as @ content h bs \<and> bytes h' = bytes h \<and> blocks h' = blocks h"
proof -
  obtain as' where as: "as = p # as'" using packet_SomeD [OF p] by auto
  obtain bs' where bs: "bs = t # bs'" using packet_SomeD [OF t] by auto
  obtain tb where tb: "pbufs h t = Some tb" using packet_dom [OF t] bs by auto
  define T l where "T = pb_tot_len tb" and "l = last as"
  have T: "unat T = length (content h bs)" unfolding T_def using t tb by (rule packet_tot_len)
  have las: "l \<in> set as" using as by (simp add: l_def)
  then have tl: "t \<notin> set as" "t \<noteq> l" using d bs by auto
  obtain lb where lb: "pbufs h l = Some lb" using packet_dom [OF p las] by blast
  have split: "as = butlast as @ [l]" using as by (simp add: l_def)
  have dist: "distinct as" using p by (rule packet_distinct)
  then have lbut: "l \<notin> set (butlast as)" by (subst (asm) split) simp
  define h1 where "h1 = bump h (set (butlast as)) T"
  have loop: "pbuf_cat_loop h p T = Some (h1, l)"
    using pbuf_cat_loop_packet [of h p as' T] p as by (simp add: h1_def l_def)
  obtain pl where "packet h pl [l]" using packet_suffix [of h "Some p" "butlast as" "[l]"] p split by auto
  then have ll: "pb_tot_len lb = pb_len lb" "pb_next lb = None"
    using lb by (auto elim!: packet_Cons_D simp: word_unat_eq_iff)
  define h' where "h' = upd_pbuf h1 l (\<lambda>b. b\<lparr>pb_tot_len := pb_tot_len b + T, pb_next := Some t\<rparr>)"
  have cat: "pbuf_cat h (Some p) (Some t) = Some h'"
    using tb loop lb ll lbut tl in_set_butlastD [of t as]
    by (auto simp: pbuf_cat_def T_def h'_def h1_def)
  have fr: "packet h' (Some t) bs \<and> content h' bs = content h bs"
    by (rule packet_same [OF t]) (use d las in_set_butlastD [of _ as] in \<open>auto simp: h'_def h1_def\<close>)
  have bt: "bytes h' = bytes h" "blocks h' = blocks h" by (simp_all add: h'_def h1_def)
  have g: "packet h' (if as = [] then Some t else Some p) (as @ bs) \<and>
         content h' (as @ bs) = content h as @ content h' bs"
  proof (rule packet_graft [where post = "[]" and tl_old = None and T = T and h = h])
    show "packet h' (Some t) bs" using fr ..
    show "length (content h' bs) = (length (content h []) + unat T) mod 65536"
      using fr T small by simp
    fix a q assume a: "a \<in> set as" and q: "pbufs h a = Some q"
    show "pbufs h' a = Some (q\<lparr>pb_tot_len := pb_tot_len q + T,
        pb_next := if pb_next q = None then Some t else pb_next q\<rparr>)"
    proof (cases "a = l")
      case True
      then show ?thesis using q lb ll lbut by (simp add: h'_def h1_def)
    next
      case False
      then have "a \<in> set (butlast as)" using a by (subst (asm) split) simp
      moreover have "pb_next q \<noteq> None" using packet_last_next [OF p a q] False by (simp add: l_def)
      ultimately show ?thesis using q False by (cases q) (auto simp: h'_def h1_def)
    qed
  qed (use p bt fr small T in auto)
  with cat fr bt as show ?thesis by auto
qed

section \<open>Freeing\<close>

text \<open>
  Freeing takes away the leading buffers whose reference count is one and drops one
  reference of the next. \<open>free_set\<close> is the heap without the blocks at \<open>S\<close>.
\<close>

definition free_set :: "hp \<Rightarrow> nat set \<Rightarrow> hp" where
  "free_set h S = h\<lparr>bytes := \<lambda>x. if \<exists>b \<in> S. \<exists>n. blocks h b = Some n \<and> b \<le> x \<and> x < b + n then None else bytes h x,
     blocks := \<lambda>b. if b \<in> S then None else blocks h b,
     pbufs := \<lambda>b. if b \<in> S then None else pbufs h b\<rparr>"

definition unref :: "hp \<Rightarrow> nat list \<Rightarrow> hp" where
  "unref h as = (case as of [] \<Rightarrow> h | a # _ \<Rightarrow> upd_pbuf h a (\<lambda>q. q\<lparr>pb_ref := pb_ref q - 1\<rparr>))"

fun sole :: "hp \<Rightarrow> nat list \<Rightarrow> nat list" where
  "sole h [] = []"
| "sole h (a # as) = (case pbufs h a of Some q \<Rightarrow> if pb_ref q = 1 then a # sole h as else [] | None \<Rightarrow> [])"

fun kept :: "hp \<Rightarrow> nat list \<Rightarrow> nat list" where
  "kept h [] = []"
| "kept h (a # as) = (case pbufs h a of Some q \<Rightarrow> if pb_ref q = 1 then kept h as else a # as | None \<Rightarrow> a # as)"

lemma sole_kept: "sole h as @ kept h as = as"
  by (induction as) (auto split: option.splits)

lemma set_sole_kept: "set (sole h as) \<subseteq> set as" "set (kept h as) \<subseteq> set as"
  by (induction as) (auto split: option.splits)

lemma sole_cong: "(\<And>a. a \<in> set as \<Longrightarrow> pbufs h' a = pbufs h a) \<Longrightarrow> sole h' as = sole h as \<and> kept h' as = kept h as"
  by (induction as) (auto split: option.splits)

lemma free_set_simps [simp]:
  "blocks (free_set h S) b = (if b \<in> S then None else blocks h b)"
  "pbufs (free_set h S) b = (if b \<in> S then None else pbufs h b)"
  "pbuf_free_ooseq_pending (free_set h S) = pbuf_free_ooseq_pending h"
  by (simp_all add: free_set_def)

lemma free_set_bytes:
  "bytes (free_set h S) x =
     (if \<exists>b \<in> S. \<exists>n. blocks h b = Some n \<and> b \<le> x \<and> x < b + n then None else bytes h x)"
  by (simp add: free_set_def)

lemma free_set_empty: "free_set h {} = h"
  by (simp add: free_set_def)

lemma free_set_insert:
  assumes "a \<notin> S"
  shows "free_set (free_set h {a}) S = free_set h (insert a S)"
proof (rule hp.equality)
  show "bytes (free_set (free_set h {a}) S) = bytes (free_set h (insert a S))"
    using assms by (auto simp: fun_eq_iff free_set_bytes)
qed (use assms in \<open>auto simp: fun_eq_iff free_set_def\<close>)

lemma align_iff: "LWIP_MEM_ALIGN a = a \<longleftrightarrow> a mod 4 = 0"
  unfolding LWIP_MEM_ALIGN_def by presburger

lemma mem_free_set:
  assumes "a mod 4 = 0" and "blocks h a = Some n"
  shows "mem_free h (Some a) = Some (free_set h {a})"
  using assms by (auto simp: mem_free_def align_iff fun_eq_iff drop_bytes_def free_set_bytes intro!: hp.equality)

lemma free_set_upd: "a \<in> S \<Longrightarrow> free_set (upd_pbuf h a f) S = free_set h S"
  by (rule hp.equality) (auto simp: fun_eq_iff free_set_def upd_pbuf_def)

lemma hp_okD:
  assumes "hp_ok h" and "pbufs h a = Some q"
  obtains n where "a mod 4 = 0" "pb_ref q \<noteq> 0" "blocks h a = Some n" "SIZEOF_STRUCT_PBUF \<le> n"
    "resident q \<longrightarrow> a + SIZEOF_STRUCT_PBUF \<le> pb_payload q \<and> pb_payload q + unat (pb_len q) \<le> a + n"
  using assms by (fastforce simp: hp_ok_def pbuf_ok_def)

lemma blocks_apart:
  assumes "hp_ok h" and "blocks h a = Some n" and "blocks h b = Some m" and "a \<le> x" "x < a + n" "b \<le> x" "x < b + m"
  shows "a = b"
  using assms by (fastforce simp: hp_ok_def blocks_ok_def)

lemma free_frame:
  assumes ok: "hp_ok h" and q: "pbufs h b = Some q" and "resident q" and "b \<notin> S"
  shows "load (bytes (free_set h S)) (pb_payload q) (unat (pb_len q)) = load (bytes h) (pb_payload q) (unat (pb_len q))"
proof (rule load_cong)
  fix x assume x: "pb_payload q \<le> x" "x < pb_payload q + unat (pb_len q)"
  obtain n where n: "blocks h b = Some n" "b \<le> x" "x < b + n"
    using hp_okD [OF ok q] x assms(3) by (metis add_leD1 order.trans order.strict_trans2)
  have "\<not> (\<exists>c \<in> S. \<exists>m. blocks h c = Some m \<and> c \<le> x \<and> x < c + m)"
    using blocks_apart [OF ok n(1) _ n(2,3)] assms(4) by blast
  then show "bytes (free_set h S) x = bytes h x" by (subst free_set_bytes) (simp only: if_False)
qed

lemma hp_ok_free_set:
  assumes ok: "hp_ok h"
  shows "hp_ok (free_set h S)"
proof -
  have "blocks_ok (free_set h S)" using ok by (auto simp: hp_ok_def blocks_ok_def split: if_splits)
  moreover have "pbuf_ok (free_set h S) b q" if p: "pbufs (free_set h S) b = Some q" for b q
  proof -
    have q: "pbufs h b = Some q" "b \<notin> S" using p by (auto split: if_splits)
    obtain n where n: "b mod 4 = 0" "pb_ref q \<noteq> 0" "blocks h b = Some n" "SIZEOF_STRUCT_PBUF \<le> n"
      and r: "resident q \<longrightarrow> b + SIZEOF_STRUCT_PBUF \<le> pb_payload q \<and> pb_payload q + unat (pb_len q) \<le> b + n"
      by (rule hp_okD [OF ok q(1)])
    have "bytes (free_set h S) x \<noteq> None"
      if "resident q" "b + SIZEOF_STRUCT_PBUF \<le> x" "x < b + n" for x
    proof -
      have "\<not> (\<exists>c \<in> S. \<exists>m. blocks h c = Some m \<and> c \<le> x \<and> x < c + m)"
        using blocks_apart [OF ok n(3), of _ _ x] that q(2) by auto
      moreover have "bytes h x \<noteq> None" using ok q(1) that n(3) by (fastforce simp: hp_ok_def pbuf_ok_def)
      ultimately show ?thesis by (simp add: free_set_bytes)
    qed
    then show ?thesis using n r q(2) by (simp add: pbuf_ok_def)
  qed
  ultimately show ?thesis by (simp add: hp_ok_def)
qed

lemma hp_ok_upd:
  "hp_ok h \<Longrightarrow> (\<And>q. pbufs h a = Some q \<Longrightarrow> pbuf_ok h a (f q)) \<Longrightarrow> hp_ok (upd_pbuf h a f)"
  by (auto simp: hp_ok_def blocks_ok_def pbuf_ok_def)

lemma free_packet:
  assumes ok: "hp_ok h" and pk: "packet h p as" and own: "own_chain h as" and d: "set as \<inter> S = {}"
  shows "packet (free_set h S) p as \<and> content (free_set h S) as = content h as"
proof (rule packet_frame [OF pk])
  fix a q assume a: "a \<in> set as" "pbufs h a = Some q"
  show "load (bytes (free_set h S)) (pb_payload q) (unat (pb_len q)) = load (bytes h) (pb_payload q) (unat (pb_len q))"
    by (rule free_frame [OF ok a(2)]) (use a own d in \<open>auto simp: own_chain_def\<close>)
qed (use d in auto)

lemma pbuf_free_loop_chain:
  "hp_ok h \<Longrightarrow> chain h p as \<Longrightarrow> own_chain h as \<Longrightarrow>
   pbuf_free_loop h p c =
     Some (unref (free_set h (set (sole h as))) (kept h as), c + of_nat (length (sole h as)))"
proof (induction as arbitrary: h p c)
  case Nil
  then show ?case by (subst pbuf_free_loop.simps) (simp add: unref_def free_set_empty)
next
  case (Cons a as)
  from Cons.prems(2) obtain q where q: "p = Some a" "pbufs h a = Some q" and nx: "chain h (pb_next q) as"
    by auto
  obtain n where n: "a mod 4 = 0" "pb_ref q \<noteq> 0" "blocks h a = Some n"
    by (rule hp_okD [OF Cons.prems(1) q(2)])
  then have pos: "pb_ref q > 0" by (simp add: word_gt_0)
  have a: "a \<notin> set as" using chain_distinct [OF Cons.prems(2)] by simp
  show ?case
  proof (cases "pb_ref q = 1")
    case False
    then have "pb_ref q - 1 \<noteq> 0" by simp
    with False show ?thesis using q pos
      by (subst pbuf_free_loop.simps) (simp add: unref_def free_set_empty upd_pbuf_def)
  next
    case True
    define h2 where "h2 = free_set h {a}"
    define h1 where "h1 = upd_pbuf h a (\<lambda>q. q\<lparr>pb_ref := 0\<rparr>)"
    have pl: "plain q" using Cons.prems(3) q(2) by simp
    have mf: "mem_free h1 (Some a) = Some h2" using n mem_free_set [of a h1 n]
      by (simp add: h1_def h2_def free_set_upd)
    then have mp: "memp_free h1 t (Some a) = Some h2" for t using n by (simp add: memp_free_def)
    have ok2: "hp_ok h2" unfolding h2_def using Cons.prems(1) by (rule hp_ok_free_set)
    have own: "own_chain h as" using Cons.prems(3) by simp
    have pk2: "chain h2 (pb_next q) as"
      by (rule chain_frame [OF nx]) (use a in \<open>auto simp: h2_def\<close>)
    have own2: "own_chain h2 as" using own a by (auto simp: own_chain_def h2_def split: if_splits)
    have sk: "sole h2 as = sole h as \<and> kept h2 as = kept h as"
      by (rule sole_cong) (use a in \<open>auto simp: h2_def\<close>)
    have fs: "free_set h2 (set (sole h as)) = free_set h (insert a (set (sole h as)))"
      unfolding h2_def by (rule free_set_insert) (use a set_sole_kept in blast)
    have step: "pbuf_free_loop h p c = pbuf_free_loop h2 (pb_next q) (c + 1)"
      using pl mf mp True q
      by (subst pbuf_free_loop.simps) (auto simp: plain_def h1_def)
    show ?thesis unfolding step Cons.IH [OF ok2 pk2 own2] using sk fs True q by (simp add: add.assoc)
  qed
qed

lemma pbuf_free_chain:
  "hp_ok h \<Longrightarrow> chain h (Some p) as \<Longrightarrow> own_chain h as \<Longrightarrow>
   pbuf_free h (Some p) =
     Some (unref (free_set h (set (sole h as))) (kept h as), of_nat (length (sole h as)))"
  by (simp add: pbuf_free_def pbuf_free_loop_chain)

lemma hp_ok_unref:
  assumes ok: "hp_ok h" and k: "kept h' as = a # bs" and e: "pbufs h a = pbufs h' a" and q: "pbufs h a = Some q"
  shows "pb_ref q \<noteq> 1"
proof -
  have "kept h' as = a # bs \<Longrightarrow> pbufs h' a = Some q \<Longrightarrow> pb_ref q \<noteq> 1"
    by (induction as) (auto split: option.splits if_splits)
  with assms show ?thesis by simp
qed

lemma hp_ok_free:
  assumes ok: "hp_ok h" and d: "distinct as"
  shows "hp_ok (unref (free_set h (set (sole h as))) (kept h as))"
proof (cases "kept h as")
  case Nil
  then show ?thesis using hp_ok_free_set [OF ok] by (simp add: unref_def)
next
  case (Cons a bs)
  define h2 where "h2 = free_set h (set (sole h as))"
  have ok2: "hp_ok h2" unfolding h2_def using ok by (rule hp_ok_free_set)
  have "a \<notin> set (sole h as)" using d Cons sole_kept [of h as] by (metis disjoint_iff distinct_append list.set_intros(1))
  then have e: "pbufs h2 a = pbufs h a" by (simp add: h2_def)
  have "hp_ok (upd_pbuf h2 a (\<lambda>q. q\<lparr>pb_ref := pb_ref q - 1\<rparr>))"
  proof (rule hp_ok_upd [OF ok2])
    fix q assume q: "pbufs h2 a = Some q"
    have "pb_ref q \<noteq> 1" using hp_ok_unref [OF ok2 Cons e q] .
    moreover have "pbuf_ok h2 a q" using ok2 q by (simp add: hp_ok_def)
    ultimately show "pbuf_ok h2 a (q\<lparr>pb_ref := pb_ref q - 1\<rparr>)" by (simp add: pbuf_ok_def resident_def)
  qed
  then show ?thesis by (simp add: unref_def Cons h2_def)
qed

section \<open>Shrinking\<close>

lemma pbuf_realloc_loop_packet:
  "packet h (Some a) (a # as) \<Longrightarrow> unat rem \<le> length (content h (a # as)) \<Longrightarrow>
   \<exists>pre b post r. a # as = pre @ b # post \<and>
     pbuf_realloc_loop h (Some a) rem s = Some (bump h (set pre) (- s), b, r) \<and>
     unat r \<le> length (pb_bytes h b) \<and> unat rem = length (content h pre) + unat r"
proof (induction as arbitrary: h a rem)
  case Nil
  from Nil(1) obtain q where q: "pbufs h a = Some q" "length (pb_bytes h a) = unat (pb_len q)"
    by (rule packet_Cons_D)
  with Nil have "\<not> pb_len q < rem" by (simp add: word_less_nat_alt)
  then have "pbuf_realloc_loop h (Some a) rem s = Some (bump h (set []) (- s), a, rem)"
    using q by (subst pbuf_realloc_loop.simps) (simp add: bump_empty)
  then show ?case using Nil q by (intro exI [of _ "[]"]) auto
next
  case (Cons b as)
  from Cons.prems(1) obtain q where q: "pbufs h a = Some q" "length (pb_bytes h a) = unat (pb_len q)"
    and nx: "packet h (pb_next q) (b # as)" by (rule packet_Cons_D)
  then have n: "pb_next q = Some b" by (auto elim!: packet_Cons_D)
  show ?case
  proof (cases "pb_len q < rem")
    case False
    then have "pbuf_realloc_loop h (Some a) rem s = Some (bump h (set []) (- s), a, rem)"
      using q by (subst pbuf_realloc_loop.simps) (simp add: bump_empty)
    then show ?thesis using False q
      by (intro exI [of _ "[]"] exI [of _ a] exI [of _ "b # as"] exI [of _ rem]) (simp add: word_less_nat_alt)
  next
    case True
    define h1 where "h1 = upd_pbuf h a (\<lambda>q. q\<lparr>pb_tot_len := pb_tot_len q - s\<rparr>)"
    have a: "a \<notin> set (b # as)" using packet_distinct [OF Cons.prems(1)] by simp
    have same: "packet h1 (Some b) (b # as) \<and> content h1 (b # as) = content h (b # as)"
      by (rule packet_same) (use nx n a in \<open>auto simp: h1_def\<close>)
    have pb: "pb_bytes h1 c = pb_bytes h c" for c
      using q by (cases "c = a") (auto simp: pb_bytes_def h1_def split: option.splits)
    then have ct: "content h1 cs = content h cs" for cs by (rule content_cong)
    have rem1: "unat (rem - pb_len q) = unat rem - unat (pb_len q)"
      using True by (simp add: unat_sub_le word_less_nat_alt)
    have "unat (rem - pb_len q) \<le> length (content h1 (b # as))"
      using Cons.prems(2) rem1 same q by simp
    with Cons.IH same obtain pre c post r where IH: "b # as = pre @ c # post"
      "pbuf_realloc_loop h1 (Some b) (rem - pb_len q) s = Some (bump h1 (set pre) (- s), c, r)"
      "unat r \<le> length (pb_bytes h1 c)" "unat (rem - pb_len q) = length (content h1 pre) + unat r"
      by blast
    have "a \<notin> set pre" using a IH(1) by auto
    then have "bump h1 (set pre) (- s) = bump h (set (a # pre)) (- s)"
      unfolding h1_def using bump_insert [of a "set pre" h "- s"] by simp
    then have "pbuf_realloc_loop h (Some a) rem s = Some (bump h (set (a # pre)) (- s), c, r)"
      using IH(2) True q n by (subst pbuf_realloc_loop.simps) (simp add: h1_def)
    moreover have "unat rem = length (content h (a # pre)) + unat r"
      using IH(4) rem1 ct q True by (simp add: word_less_nat_alt)
    ultimately show ?thesis using IH(1,3) pb
      by (intro exI [of _ "a # pre"] exI [of _ c] exI [of _ post] exI [of _ r]) simp
  qed
qed

lemma hp_ok_bump: "hp_ok h \<Longrightarrow> hp_ok (bump h S t)"
  by (auto simp: hp_ok_def blocks_ok_def pbuf_ok_def resident_def split: if_splits)

lemma unref_other:
  "a \<notin> set as \<Longrightarrow> pbufs (unref h as) a = pbufs h a"
  "bytes (unref h as) = bytes h" "blocks (unref h as) = blocks h"
  by (auto simp: unref_def split: list.splits)

lemma packet_middle:
  "packet h p (pre @ b # post) \<Longrightarrow> pbufs h b = Some q \<Longrightarrow> packet h (Some b) (b # post) \<and> packet h (pb_next q) post"
proof (induction pre arbitrary: p)
  case Nil
  then show ?case by (auto elim!: packet_Cons_D simp: packet.simps(2))
next
  case (Cons a pre)
  then show ?case by (auto elim!: packet_Cons_D)
qed

lemma pbuf_realloc_packet:
  assumes ok: "hp_ok h" and pk: "packet h (Some p) as" and own: "own_chain h as"
    and le: "unat new_len \<le> length (content h as)"
  shows "\<exists>h' as' rest. pbuf_realloc h (Some p) new_len = Some h' \<and> as = as' @ rest \<and>
    packet h' (Some p) as' \<and> content h' as' = take (unat new_len) (content h as) \<and> hp_ok h'"
proof -
  obtain as0 where as: "as = p # as0" using packet_SomeD [OF pk] by auto
  obtain q0 where q0: "pbufs h p = Some q0" using packet_dom [OF pk] as by auto
  have tl: "unat (pb_tot_len q0) = length (content h as)" using pk q0 by (rule packet_tot_len)
  show ?thesis
  proof (cases "pb_tot_len q0 \<le> new_len")
    case True
    then have "unat new_len = length (content h as)" using le tl by (simp add: word_le_nat_alt)
    then show ?thesis using True ok pk
      by (intro exI [of _ h] exI [of _ as] exI [of _ "[]"]) (simp add: pbuf_realloc_def q0)
  next
    case False
    define s where "s = pb_tot_len q0 - new_len"
    obtain pre b post r where sp: "as = pre @ b # post"
      and loop: "pbuf_realloc_loop h (Some p) new_len s = Some (bump h (set pre) (- s), b, r)"
      and r: "unat r \<le> length (pb_bytes h b)" "unat new_len = length (content h pre) + unat r"
      using pbuf_realloc_loop_packet [of h p as0 new_len s] pk as le by auto
    obtain qb where qb: "pbufs h b = Some qb" using packet_dom [OF pk] sp by auto
    note mid = packet_middle [OF pk [unfolded sp] qb]
    have dist: "distinct (pre @ b # post)" using packet_distinct [OF pk] sp by simp
    have ownb: "resident qb" "own_chain h pre" "own_chain h post" using own sp qb by auto
    have ln: "length (pb_bytes h b) = unat (pb_len qb)" using packet_pbuf mid qb by blast
    define h2 where "h2 = upd_pbuf (bump h (set pre) (- s)) b (\<lambda>q. q\<lparr>pb_len := r, pb_tot_len := r\<rparr>)"
    have ok2: "hp_ok h2" unfolding h2_def
    proof (rule hp_ok_upd [OF hp_ok_bump [OF ok]])
      fix q assume "pbufs (bump h (set pre) (- s)) b = Some q"
      then have "q = qb" using dist qb by simp
      moreover have "pbuf_ok h b qb" using ok qb by (simp add: hp_ok_def)
      ultimately show "pbuf_ok (bump h (set pre) (- s)) b (q\<lparr>pb_len := r, pb_tot_len := r\<rparr>)"
        using r(1) ln by (fastforce simp: pbuf_ok_def resident_def)
    qed
    have pp: "pbufs h2 a = pbufs h a" if "a \<in> set post" for a using that dist by (auto simp: h2_def)
    have post: "packet h2 (pb_next qb) post \<and> content h2 post = content h post"
      by (rule packet_same) (use mid pp in \<open>auto simp: h2_def\<close>)
    have own2: "own_chain h2 post" using ownb(3) pp by (simp add: own_chain_def)
    define h3 where "h3 = unref (free_set h2 (set (sole h2 post))) (kept h2 post)"
    have ok3: "hp_ok h3" unfolding h3_def by (rule hp_ok_free [OF ok2]) (use dist in simp)
    have free: "(case pb_next qb of None \<Rightarrow> Some h2
               | Some n \<Rightarrow> do { (h, c) \<leftarrow> pbuf_free h2 (Some n); Some h }) = Some h3"
    proof (cases "pb_next qb")
      case None
      then show ?thesis using post by (simp add: h3_def unref_def free_set_empty)
    next
      case (Some n)
      then show ?thesis using pbuf_free_chain [of h2 n post] ok2 post own2 packet_chain by (simp add: h3_def)
    qed
    define h4 where "h4 = upd_pbuf h3 b (\<lambda>b. b\<lparr>pb_next := None\<rparr>)"
    have re: "pbuf_realloc h (Some p) new_len = Some h4"
      using False loop qb dist free unfolding pbuf_realloc_def mem_trim_def if_cancel h2_def
      by (simp add: q0 h4_def Let_def flip: s_def)
    have out3: "pbufs h3 a = pbufs h2 a" if "a \<notin> set post" for a
    proof -
      have "a \<notin> set (kept h2 post)" "a \<notin> set (sole h2 post)" using that set_sole_kept [of h2 post] by auto
      then show ?thesis by (simp add: h3_def unref_other(1))
    qed
    have bt: "bytes h4 = bytes (free_set h2 (set (sole h2 post)))" by (simp add: h4_def h3_def unref_other)
    define qb' where "qb' = qb\<lparr>pb_len := r, pb_tot_len := r, pb_next := None\<rparr>"
    have b2: "pbufs h2 b = Some (qb\<lparr>pb_len := r, pb_tot_len := r\<rparr>)" using qb dist by (simp add: h2_def)
    have b4: "pbufs h4 b = Some qb'" using out3 [of b] b2 dist by (simp add: h4_def qb'_def)
    have "load (bytes h4) (pb_payload qb) (unat r) = load (bytes h2) (pb_payload qb) (unat r)"
      using free_frame [OF ok2 b2, of "set (sole h2 post)"] ownb(1) dist set_sole_kept [of h2 post]
      by (auto simp: bt resident_def)
    also have "\<dots> = Some (take (unat r) (pb_bytes h b))"
      using load_slice [OF pb_bytes_load [OF qb mid [THEN conjunct1]], of 0 "unat r"] r(1) ln
      by (simp add: h2_def)
    finally have ldb: "load (bytes h4) (pb_payload qb') (unat (pb_len qb')) = Some (take (unat r) (pb_bytes h b))"
      by (simp add: qb'_def)
    then have pk4: "packet h4 (Some b) [b]" "content h4 [b] = take (unat r) (pb_bytes h b)"
      using b4 by (simp_all add: packet.simps(2) pb_bytes_def qb'_def)
    have g: "packet h4 (if pre = [] then Some b else Some p) (pre @ [b]) \<and>
         content h4 (pre @ [b]) = content h pre @ content h4 [b]"
    proof (rule packet_graft [where post = "b # post" and tl_old = "Some b" and T = "- s" and h = h])
      show "packet h (Some p) (pre @ b # post)" using pk sp by simp
      show "packet h (Some b) (b # post)" using mid ..
      show "packet h4 (Some b) [b]" by (rule pk4)
      fix a q assume a: "a \<in> set pre" and q: "pbufs h a = Some q"
      have na: "a \<noteq> b" "a \<notin> set post" using dist a by auto
      have a2: "pbufs h2 a = Some (q\<lparr>pb_tot_len := pb_tot_len q - s\<rparr>)" using q a na by (simp add: h2_def)
      show "pbufs h4 a = Some (q\<lparr>pb_tot_len := pb_tot_len q + - s,
          pb_next := if pb_next q = Some b then Some b else pb_next q\<rparr>)"
        using a2 na out3 by (cases q) (auto simp: h4_def)
      have "load (bytes h4) (pb_payload q) (unat (pb_len q)) = load (bytes h2) (pb_payload q) (unat (pb_len q))"
        using free_frame [OF ok2 a2, of "set (sole h2 post)"] ownb(2) a q na set_sole_kept [of h2 post]
        by (auto simp: bt resident_def own_chain_def)
      then show "load (bytes h4) (pb_payload q) (unat (pb_len q)) = load (bytes h) (pb_payload q) (unat (pb_len q))"
        by (simp add: h2_def)
    next
      have n: "unat s = length (content h as) - unat new_len"
        using False tl by (simp add: s_def unat_sub_le word_le_nat_alt)
      have "unat (of_nat (length (content h (b # post))) + - s :: u16) =
          (length (content h (b # post)) + unat (- s)) mod 65536"
      proof -
        have "length (content h (b # post)) < 65536" using mid by (blast intro: content_small)
        then have "unat (of_nat (length (content h (b # post))) :: u16) = length (content h (b # post))"
          by (rule unat_of_nat_u16)
        then show ?thesis by (simp only: unat_word_ariths(1) len_of_numeral_defs) simp
      qed
      moreover have "of_nat (length (content h (b # post))) + - s = r"
      proof -
        have "length (content h (b # post)) = unat s + unat r" using n r sp le by simp
        then show ?thesis by (simp add: of_nat_add)
      qed
      ultimately show "length (content h4 [b]) = (length (content h (b # post)) + unat (- s)) mod 65536"
        using pk4(2) r(1) by simp
      show "length (content h pre) + length (content h4 [b]) < 65536" using pk4(2) r unat_u16_less [of new_len] by simp
    qed
    have hd: "(if pre = [] then Some b else Some p) = Some p" using sp as by (cases pre) auto
    have "content h pre @ take (unat r) (pb_bytes h b) = take (unat new_len) (content h as)"
      using sp r by simp
    moreover have "hp_ok h4" unfolding h4_def
      by (rule hp_ok_upd [OF ok3]) (use ok3 in \<open>simp add: hp_ok_def pbuf_ok_def resident_def\<close>)
    ultimately show ?thesis using re g hd sp pk4(2)
      by (intro exI [of _ h4] exI [of _ "pre @ [b]"] exI [of _ post]) simp
  qed
qed

section \<open>Header space\<close>

lemma pbuf_remove_header_packet:
  assumes pk: "packet h (Some p) (p # as)" and n: "n \<le> length (pb_bytes h p)"
  shows "\<exists>h'. pbuf_remove_header h (Some p) n = Some (h', 0) \<and> packet h' (Some p) (p # as) \<and>
    content h' (p # as) = drop n (content h (p # as)) \<and> bytes h' = bytes h \<and> blocks h' = blocks h"
proof -
  from pk obtain q where q: "pbufs h p = Some q"
    and ld: "load (bytes h) (pb_payload q) (unat (pb_len q)) = Some (pb_bytes h p)"
    and ln: "length (pb_bytes h p) = unat (pb_len q)"
    and tl: "unat (pb_tot_len q) = unat (pb_len q) + length (content h as)" and nx: "packet h (pb_next q) as"
    by (rule packet_Cons_D)
  have d: "p \<notin> set as" using packet_distinct [OF pk] by simp
  have n16: "n \<le> 65535" using n ln unat_u16_le [of "pb_len q"] by linarith
  then have un: "unat (of_nat n :: u16) = n" by (simp add: unat_of_nat_u16)
  show ?thesis
  proof (cases "n = 0")
    case True
    then show ?thesis using pk q by (simp add: pbuf_remove_header_def)
  next
    case False
    define h' where "h' = upd_pbuf h p (\<lambda>q. q\<lparr>pb_payload := pb_payload q + n, pb_len := pb_len q - of_nat n,
      pb_tot_len := pb_tot_len q - of_nat n\<rparr>)"
    have rm: "pbuf_remove_header h (Some p) n = Some (h', 0)"
      using q n16 False n ln un by (simp add: pbuf_remove_header_def h'_def word_le_nat_alt Let_def)
    have fr: "packet h' (pb_next q) as \<and> content h' as = content h as"
      by (rule packet_same [OF nx]) (use d in \<open>auto simp: h'_def\<close>)
    have l1: "unat (pb_len q - of_nat n) = unat (pb_len q) - n" using n ln un by (simp add: unat_sub_le)
    have l2: "unat (pb_tot_len q - of_nat n) = unat (pb_tot_len q) - n" using n ln tl un by (simp add: unat_sub_le)
    have ld': "load (bytes h') (pb_payload q + n) (unat (pb_len q - of_nat n)) = Some (drop n (pb_bytes h p))"
      using load_slice [OF ld, of n "unat (pb_len q) - n"] n ln l1 by (simp add: h'_def)
    moreover have "pbufs h' p = Some (q\<lparr>pb_payload := pb_payload q + n, pb_len := pb_len q - of_nat n,
      pb_tot_len := pb_tot_len q - of_nat n\<rparr>)" using q by (simp add: h'_def)
    ultimately have pb: "pb_bytes h' p = drop n (pb_bytes h p)" by (simp add: pb_bytes_def [of h'])
    have "packet h' (Some p) (p # as)"
      using q ld' fr l1 l2 tl n ln by (simp add: packet.simps(2) h'_def)
    then show ?thesis using rm fr pb n by (simp add: h'_def)
  qed
qed

lemma word_sub_add: "(x :: 'a::len word) + y - y = x"
  by simp

lemma not_wrapped:
  fixes m t :: u16
  assumes "\<not> m + t < m" and "unat m = n"
  shows "n + unat t < 65536"
proof (rule ccontr)
  assume c: "\<not> n + unat t < 65536"
  then have "unat (m + t) = n + unat t - 65536"
    using assms(2) by (simp add: unat_plus_if_size word_size)
  then have "unat (m + t) < unat m" using c assms(2) unat_u16_less [of t] by linarith
  with assms(1) show False by (simp add: word_less_nat_alt)
qed

lemma pbuf_remove_add_header:
  assumes pk: "packet h (Some p) (p # as)" and add: "pbuf_add_header h (Some p) n = Some (h', 0)"
  shows "pbuf_remove_header h' (Some p) n = Some (h, 0)"
proof -
  from pk obtain q where q: "pbufs h p = Some q"
    and tl: "unat (pb_tot_len q) = unat (pb_len q) + length (content h as)" by (rule packet_Cons_D)
  show ?thesis
  proof (cases "n = 0")
    case True
    then show ?thesis using add q by (auto simp: pbuf_add_header_def pbuf_add_header_impl_def pbuf_remove_header_def)
  next
    case False
    have n16: "n \<le> 65535" and nov: "\<not> of_nat n + pb_tot_len q < (of_nat n :: u16)" and pl: "\<not> pb_payload q < n"
      and h': "h' = upd_pbuf h p (\<lambda>q. q\<lparr>pb_payload := pb_payload q - n, pb_len := pb_len q + of_nat n,
                         pb_tot_len := pb_tot_len q + of_nat n\<rparr>)"
      using add q False
      by (auto simp: pbuf_add_header_def pbuf_add_header_impl_def Let_def split: if_splits)
    have un: "unat (of_nat n :: u16) = n" using n16 by (simp add: unat_of_nat_u16)
    have "n + unat (pb_tot_len q) < 65536" using nov un by (rule not_wrapped)
    then have "unat (pb_len q + of_nat n) = unat (pb_len q) + n" using tl un by (simp add: unat_add_small)
    then have "of_nat n \<le> pb_len q + of_nat n" using un by (simp add: word_le_nat_alt)
    then have "pbuf_remove_header h' (Some p) n =
        Some (upd_pbuf h' p (\<lambda>q. q\<lparr>pb_payload := pb_payload q + n, pb_len := pb_len q - of_nat n,
                pb_tot_len := pb_tot_len q - of_nat n\<rparr>), 0)"
      using n16 False q by (simp add: pbuf_remove_header_def h' Let_def)
    also have "upd_pbuf h' p (\<lambda>q. q\<lparr>pb_payload := pb_payload q + n, pb_len := pb_len q - of_nat n,
                pb_tot_len := pb_tot_len q - of_nat n\<rparr>) = h"
      using q pl by (cases q) (simp add: h' upd_pbuf_def fun_upd_idem)
    finally show ?thesis .
  qed
qed

section \<open>Writing\<close>

lemma packet_readable:
  "packet h p as \<Longrightarrow> (\<And>a. a \<in> set as \<Longrightarrow> pbufs h' a = pbufs h a) \<Longrightarrow>
   (\<And>a q. a \<in> set as \<Longrightarrow> pbufs h a = Some q \<Longrightarrow> load (bytes h') (pb_payload q) (unat (pb_len q)) \<noteq> None) \<Longrightarrow>
   packet h' p as \<and> length (content h' as) = length (content h as)"
proof (induction as arbitrary: p)
  case (Cons a as)
  from Cons.prems(1) obtain q where q: "p = Some a" "pbufs h a = Some q"
    "length (pb_bytes h a) = unat (pb_len q)"
    "unat (pb_tot_len q) = unat (pb_len q) + length (content h as)" "packet h (pb_next q) as"
    by (rule packet_Cons_D)
  have IH: "packet h' (pb_next q) as \<and> length (content h' as) = length (content h as)"
    by (rule Cons.IH [OF q(5)]; rule Cons.prems(2, 3)) auto
  obtain bs where "pbufs h' a = Some q" "load (bytes h') (pb_payload q) (unat (pb_len q)) = Some bs"
    using Cons.prems(2) [of a] Cons.prems(3) [of a q] q(2) by auto
  with q IH show ?case by (auto simp: packet.simps(2) pb_bytes_def [of h'] load_length)
qed simp

lemma resident_apart:
  assumes ok: "hp_ok h" and "pbufs h a = Some q" "resident q" "pbufs h b = Some r" "resident r" "a \<noteq> b"
    and "pb_payload q \<le> x" "x < pb_payload q + unat (pb_len q)"
    and "pb_payload r \<le> x" "x < pb_payload r + unat (pb_len r)"
  shows False
proof -
  obtain n where n: "blocks h a = Some n" "a \<le> x" "x < a + n"
    using hp_okD [OF ok assms(2)] assms by (metis add_leD1 order.trans order.strict_trans2)
  obtain m where m: "blocks h b = Some m" "b \<le> x" "x < b + m"
    using hp_okD [OF ok assms(4)] assms by (metis add_leD1 order.trans order.strict_trans2)
  from blocks_apart [OF ok n(1) m(1) n(2,3) m(2,3)] assms(6) show False by simp
qed

lemma put_bytes_dom: "m x \<noteq> None \<Longrightarrow> put_bytes m a cs x \<noteq> None"
  by (simp add: put_bytes_def)

lemma pbuf_ok_put: "pbuf_ok h b q \<Longrightarrow> pbuf_ok (h\<lparr>bytes := put_bytes (bytes h) a cs\<rparr>) b q"
  by (auto simp: pbuf_ok_def put_bytes_def)

lemma hp_ok_put: "hp_ok h \<Longrightarrow> hp_ok (h\<lparr>bytes := put_bytes (bytes h) a cs\<rparr>)"
  by (simp add: hp_ok_def blocks_ok_def pbuf_ok_put)

definition set_bytes :: "hp \<Rightarrow> nat \<Rightarrow> u8 list \<Rightarrow> hp" where
  "set_bytes h a cs = h\<lparr>bytes := put_bytes (bytes h) a cs\<rparr>"

lemma set_bytes_simps [simp]:
  "pbufs (set_bytes h a cs) = pbufs h" "blocks (set_bytes h a cs) = blocks h"
  "bytes (set_bytes h a cs) = put_bytes (bytes h) a cs"
  "own_chain (set_bytes h a cs) as = own_chain h as"
  by (simp_all add: set_bytes_def own_chain_def)

lemma hp_ok_set_bytes: "hp_ok h \<Longrightarrow> hp_ok (set_bytes h a cs)"
  unfolding set_bytes_def by (rule hp_ok_put)

text \<open>Writing inside one buffer of a chain: only its own bytes change.\<close>

lemma write_one:
  assumes ok: "hp_ok h" and pk: "packet h p (pre @ b # post)" and own: "own_chain h (pre @ b # post)"
    and qb: "pbufs h b = Some qb" and k: "k + length cs \<le> length (pb_bytes h b)"
  shows "store (bytes h) (pb_payload qb + k) cs = Some (bytes (set_bytes h (pb_payload qb + k) cs)) \<and>
    packet (set_bytes h (pb_payload qb + k) cs) p (pre @ b # post) \<and>
    content (set_bytes h (pb_payload qb + k) cs) pre = content h pre \<and>
    pb_bytes (set_bytes h (pb_payload qb + k) cs) b = take k (pb_bytes h b) @ cs @ drop (k + length cs) (pb_bytes h b) \<and>
    content (set_bytes h (pb_payload qb + k) cs) post = content h post"
proof -
  define h' where "h' = set_bytes h (pb_payload qb + k) cs"
  note mid = packet_middle [OF pk qb]
  have ld: "load (bytes h) (pb_payload qb) (unat (pb_len qb)) = Some (pb_bytes h b)"
    and ln: "length (pb_bytes h b) = unat (pb_len qb)"
    using pb_bytes_load [OF qb] packet_pbuf [OF _ qb] mid by blast+
  have st: "store (bytes h) (pb_payload qb + k) cs = Some (bytes h')"
    using store_within [OF ld] k ln by (simp add: h'_def)
  have ldb: "load (bytes h') (pb_payload qb) (unat (pb_len qb)) =
      Some (take k (pb_bytes h b) @ cs @ drop (k + length cs) (pb_bytes h b))"
    using load_put_within [OF ld] k ln by (simp add: h'_def)
  have pbb: "pb_bytes h' b = take k (pb_bytes h b) @ cs @ drop (k + length cs) (pb_bytes h b)"
  proof -
    have "pbufs h' b = Some qb" using qb by (simp add: h'_def)
    with ldb show ?thesis by (simp add: pb_bytes_def)
  qed
  have other: "load (bytes h') (pb_payload q) (unat (pb_len q)) = load (bytes h) (pb_payload q) (unat (pb_len q))"
    if "a \<in> set (pre @ b # post)" "a \<noteq> b" "pbufs h a = Some q" for a q
  proof (rule load_cong)
    fix x assume x: "pb_payload q \<le> x" "x < pb_payload q + unat (pb_len q)"
    have "resident q" "resident qb" using own that qb by (auto simp: own_chain_def)
    then have "\<not> (pb_payload qb \<le> x \<and> x < pb_payload qb + unat (pb_len qb))"
      using resident_apart [OF ok that(3) _ qb _ that(2) x] by blast
    then show "bytes h' x = bytes h x" using k ln by (auto simp: h'_def put_bytes_def)
  qed
  have "load (bytes h') (pb_payload q) (unat (pb_len q)) \<noteq> None" if "a \<in> set (pre @ b # post)" "pbufs h a = Some q" for a q
  proof (cases "a = b")
    case True
    then show ?thesis using ldb qb that by simp
  next
    case False
    note ain = that
    obtain us vs where "pre @ b # post = us @ a # vs" using split_list [OF ain(1)] by blast
    with packet_middle [of h p us a vs q] pk ain(2)
    have "load (bytes h) (pb_payload q) (unat (pb_len q)) = Some (pb_bytes h a)"
      using pb_bytes_load by metis
    with other [OF ain(1) False ain(2)] show ?thesis by simp
  qed
  then have "packet h' p (pre @ b # post)"
    using packet_readable [OF pk, of h'] by (simp add: h'_def)
  moreover have "pb_bytes h' a = pb_bytes h a" if "a \<in> set (pre @ b # post)" "a \<noteq> b" for a
  proof -
    note ain = that
    obtain q where "pbufs h a = Some q" using packet_dom [OF pk ain(1)] by blast
    with other [OF ain this] show ?thesis by (simp add: pb_bytes_def h'_def)
  qed
  ultimately show ?thesis
    using st pbb packet_distinct [OF pk] unfolding h'_def
    by (intro conjI content_cong) auto
qed

lemma set_bytes_other:
  assumes ok: "hp_ok h" and q: "pbufs h a = Some q" "resident q" and k: "k + length cs \<le> unat (pb_len q)"
    and r: "pbufs h b = Some r" "resident r" and ab: "b \<noteq> a"
  shows "pb_bytes (set_bytes h (pb_payload q + k) cs) b = pb_bytes h b"
proof -
  have "load (put_bytes (bytes h) (pb_payload q + k) cs) (pb_payload r) (unat (pb_len r)) =
      load (bytes h) (pb_payload r) (unat (pb_len r))"
  proof (rule load_cong)
    fix x assume x: "pb_payload r \<le> x" "x < pb_payload r + unat (pb_len r)"
    have "\<not> (pb_payload q \<le> x \<and> x < pb_payload q + unat (pb_len q))"
      using resident_apart [OF ok r q ab x] by blast
    then show "put_bytes (bytes h) (pb_payload q + k) cs x = bytes h x" using k by (auto simp: put_bytes_def)
  qed
  then show ?thesis using r by (simp add: pb_bytes_def)
qed

lemma pbuf_take_loop_packet:
  "hp_ok h \<Longrightarrow> packet h p as \<Longrightarrow> own_chain h as \<Longrightarrow> length data \<le> length (content h as) \<Longrightarrow>
   \<exists>m. pbuf_take_loop h p data = Some (h\<lparr>bytes := m\<rparr>) \<and> hp_ok (h\<lparr>bytes := m\<rparr>) \<and>
     packet (h\<lparr>bytes := m\<rparr>) p as \<and>
     content (h\<lparr>bytes := m\<rparr>) as = data @ drop (length data) (content h as) \<and>
     (\<forall>a q. a \<notin> set as \<longrightarrow> pbufs h a = Some q \<longrightarrow> resident q \<longrightarrow> pb_bytes (h\<lparr>bytes := m\<rparr>) a = pb_bytes h a)"
proof (induction as arbitrary: h p data)
  case Nil
  then show ?case by (subst pbuf_take_loop.simps) (auto intro!: exI [of _ "bytes h"])
next
  case (Cons a as)
  show ?case
  proof (cases "data = []")
    case True
    then show ?thesis using Cons.prems by (subst pbuf_take_loop.simps) (auto intro!: exI [of _ "bytes h"])
  next
    case False
    from Cons.prems(2) obtain q where q: "p = Some a" "pbufs h a = Some q"
      and ln: "length (pb_bytes h a) = unat (pb_len q)" and nx: "packet h (pb_next q) as" by (rule packet_Cons_D)
    define n where "n = min (length data) (unat (pb_len q))"
    define h1 where "h1 = set_bytes h (pb_payload q) (take n data)"
    have nl: "length (take n data) = n" by (simp add: n_def)
    have w: "store (bytes h) (pb_payload q) (take n data) = Some (bytes h1)" "packet h1 p (a # as)"
      "pb_bytes h1 a = take n data @ drop n (pb_bytes h a)" "content h1 as = content h as"
      using write_one [of h p "[]" a as q 0 "take n data"] Cons.prems q ln nl by (auto simp: h1_def n_def)
    have ok1: "hp_ok h1" unfolding h1_def using Cons.prems(1) by (rule hp_ok_set_bytes)
    have p1: "packet h1 (pb_next q) as" using packet_next [OF w(2)] q by (simp add: h1_def)
    have own1: "own_chain h1 as" using Cons.prems(3) by (simp add: h1_def)
    have le: "length (drop n data) \<le> length (content h1 as)"
      using Cons.prems(4) w(4) ln by (auto simp: n_def)
    from Cons.IH [OF ok1 p1 own1 le] obtain m where
      IH: "pbuf_take_loop h1 (pb_next q) (drop n data) = Some (h1\<lparr>bytes := m\<rparr>)" "hp_ok (h1\<lparr>bytes := m\<rparr>)"
      "packet (h1\<lparr>bytes := m\<rparr>) (pb_next q) as"
      "content (h1\<lparr>bytes := m\<rparr>) as = drop n data @ drop (length (drop n data)) (content h1 as)"
      "\<forall>b r. b \<notin> set as \<longrightarrow> pbufs h1 b = Some r \<longrightarrow> resident r \<longrightarrow> pb_bytes (h1\<lparr>bytes := m\<rparr>) b = pb_bytes h1 b"
      by blast
    have e: "h1\<lparr>bytes := m\<rparr> = h\<lparr>bytes := m\<rparr>" by (simp add: h1_def set_bytes_def)
    have h1m: "h1 = h\<lparr>bytes := bytes h1\<rparr>" by (simp add: h1_def set_bytes_def)
    have a: "a \<notin> set as" using packet_distinct [OF Cons.prems(2)] by simp
    have ra: "resident q" using Cons.prems(3) q by simp
    have pa: "pb_bytes (h\<lparr>bytes := m\<rparr>) a = take n data @ drop n (pb_bytes h a)"
      using IH(5) a ra q w(3) e by (simp add: h1_def)
    then have "length (pb_bytes (h\<lparr>bytes := m\<rparr>) a) = unat (pb_len q)" using nl ln by (simp add: n_def)
    then have lda: "load m (pb_payload q) (unat (pb_len q)) \<noteq> None"
      using q by (cases "unat (pb_len q) = 0") (auto simp: pb_bytes_def split: option.splits)
    have ca: "content (h\<lparr>bytes := m\<rparr>) as = drop n data @ drop (length (drop n data)) (content h as)"
      using IH(4) e w(4) by simp
    have "length (content (h\<lparr>bytes := m\<rparr>) as) = length (content h as)"
      using ca le w(4) by simp
    then have "packet (h\<lparr>bytes := m\<rparr>) p (a # as)"
      using Cons.prems(2) IH(3) e q lda by (simp add: packet.simps(2))
    moreover have "content (h\<lparr>bytes := m\<rparr>) (a # as) = data @ drop (length data) (content h (a # as))"
    proof (cases "length data \<le> unat (pb_len q)")
      case True
      then have "n = length data" by (simp add: n_def)
      then show ?thesis using pa ca ln True by simp
    next
      case False
      then have "n = unat (pb_len q)" by (simp add: n_def)
      then have "drop n (pb_bytes h a) = []" "take n data @ drop n data = data" "n = length (pb_bytes h a)"
        using ln by simp_all
      then show ?thesis using pa ca ln False by simp
    qed
    moreover have "pbuf_take_loop h p data = Some (h\<lparr>bytes := m\<rparr>)"
      using IH(1) e w(1) q False by (subst pbuf_take_loop.simps) (simp add: n_def Let_def flip: h1m)
    moreover have "pb_bytes (h\<lparr>bytes := m\<rparr>) b = pb_bytes h b"
      if "b \<notin> set (a # as)" "pbufs h b = Some r" "resident r" for b r
    proof -
      have "pb_bytes h1 b = pb_bytes h b" unfolding h1_def
        using set_bytes_other [OF Cons.prems(1) q(2) ra, of 0 "take n data" b r] that nl by (simp add: n_def)
      then show ?thesis using IH(5) that e by (simp add: h1_def)
    qed
    ultimately show ?thesis using IH(2) e by (intro exI [of _ m]) auto
  qed
qed

lemma pbuf_take_packet:
  assumes "hp_ok h" "packet h (Some p) as" "own_chain h as" "length data \<le> length (content h as)"
  shows "\<exists>h'. pbuf_take h (Some p) data = Some (h', ERR_OK) \<and> hp_ok h' \<and> packet h' (Some p) as \<and>
    content h' as = data @ drop (length data) (content h as) \<and> pbufs h' = pbufs h \<and>
    (\<forall>a q. a \<notin> set as \<longrightarrow> pbufs h a = Some q \<longrightarrow> resident q \<longrightarrow> pb_bytes h' a = pb_bytes h a)"
proof -
  obtain q where q: "pbufs h p = Some q" using packet_dom [OF assms(2), of p] packet_SomeD [OF assms(2)] by auto
  have "unat (pb_tot_len q) = length (content h as)" using assms(2) q by (rule packet_tot_len)
  with pbuf_take_loop_packet [OF assms] assms(4) q show ?thesis
    by (auto simp: pbuf_take_def)
qed

lemma locate_split:
  "locate h as n = (bs, k) \<Longrightarrow> n < length (content h as) \<Longrightarrow> \<exists>pre. as = pre @ bs \<and> n = length (content h pre) + k"
proof (induction h as n rule: locate.induct)
  case (2 h a as n)
  show ?case
  proof (cases "length (pb_bytes h a) \<le> n")
    case True
    with 2(3) have "n - length (pb_bytes h a) < length (content h as)" by auto
    with 2 True obtain pre where "as = pre @ bs" "n - length (pb_bytes h a) = length (content h pre) + k" by auto
    with True show ?thesis by (intro exI [of _ "a # pre"]) simp
  next
    case False
    with 2 show ?thesis by (intro exI [of _ "[]"]) simp
  qed
qed simp

lemma skip_split:
  assumes pk: "packet h p as" and lt: "unat off < length (content h as)"
  obtains pre b post k q where "as = pre @ b # post" "unat off = length (content h pre) + k"
    "pbuf_skip_const h p off = Some (Some b, of_nat k)" "pbufs h b = Some q" "k < unat (pb_len q)"
    "length (pb_bytes h b) = unat (pb_len q)" "unat (of_nat k :: u16) = k"
proof -
  obtain cs k where loc: "locate h as (unat off) = (cs, k)" by fastforce
  from locate_split [OF loc lt] obtain pre where pre: "as = pre @ cs" "unat off = length (content h pre) + k" by blast
  from locate_content [OF loc lt] obtain b post where cs: "cs = b # post" "k < length (pb_bytes h b)"
    by (cases cs) auto
  obtain q where q: "pbufs h b = Some q" using packet_dom [OF pk, of b] pre cs by auto
  have "length (pb_bytes h b) = unat (pb_len q)"
    using packet_middle [of h p pre b post q] pk pre cs q packet_pbuf by blast
  moreover have "unat (of_nat k :: u16) = k"
    using pre(2) unat_u16_less [of off] by (intro unat_of_nat_u16) linarith
  ultimately show ?thesis
    using that [of pre b post k q] pre cs q pbuf_skip_const_packet [OF pk loc] by simp
qed

lemma pbuf_put_at_packet:
  assumes ok: "hp_ok h" and pk: "packet h p as" and own: "own_chain h as"
  shows "\<exists>h'. pbuf_put_at h p off x = Some h' \<and> hp_ok h' \<and> packet h' p as \<and>
    content h' as = (content h as)[unat off := x]"
proof (cases "unat off < length (content h as)")
  case True
  with pk obtain pre b post k q where s: "as = pre @ b # post" "unat off = length (content h pre) + k"
    "pbuf_skip_const h p off = Some (Some b, of_nat k)" "pbufs h b = Some q" "k < unat (pb_len q)"
    "length (pb_bytes h b) = unat (pb_len q)" "unat (of_nat k :: u16) = k" by (rule skip_split)
  define h' where "h' = set_bytes h (pb_payload q + k) [x]"
  have w: "store (bytes h) (pb_payload q + k) [x] = Some (bytes h')" "packet h' p as"
    "content h' as = content h pre @ (take k (pb_bytes h b) @ x # drop (k + 1) (pb_bytes h b)) @ content h post"
    using write_one [of h p pre b post q k "[x]"] ok pk own s by (simp_all add: h'_def)
  have "pbuf_put_at h p off x = Some h'"
    using s(3,4,5,7) w(1) by (simp add: pbuf_put_at_def pbuf_skip_def word_less_nat_alt h'_def set_bytes_def)
  moreover have "take k (pb_bytes h b) @ x # drop (k + 1) (pb_bytes h b) = (pb_bytes h b)[k := x]"
    using s(5,6) by (simp add: upd_conv_take_nth_drop)
  ultimately show ?thesis using w hp_ok_set_bytes [OF ok] s(1,2,5,6)
    by (intro exI [of _ h']) (simp add: h'_def list_update_append)
next
  case False
  then show ?thesis using pbuf_skip_const_out [OF pk, of off] assms
    by (simp add: pbuf_put_at_def pbuf_skip_def list_update_beyond)
qed

lemma packet_from_bytes:
  "packet h p as \<Longrightarrow> pbufs h' = pbufs h \<Longrightarrow>
   (\<And>a. a \<in> set as \<Longrightarrow> length (pb_bytes h' a) = length (pb_bytes h a)) \<Longrightarrow> packet h' p as"
proof (induction as arbitrary: p)
  case (Cons a as)
  from Cons.prems(1) obtain q where q: "p = Some a" "pbufs h a = Some q"
    "length (pb_bytes h a) = unat (pb_len q)"
    "unat (pb_tot_len q) = unat (pb_len q) + length (content h as)" "packet h (pb_next q) as"
    by (rule packet_Cons_D)
  have IH: "packet h' (pb_next q) as" using Cons.IH [OF q(5)] Cons.prems by simp
  have "length (pb_bytes h' a) = unat (pb_len q)" using Cons.prems(3) [of a] q(3) by simp
  then have "load (bytes h') (pb_payload q) (unat (pb_len q)) \<noteq> None"
    using q(2) Cons.prems(2) by (cases "unat (pb_len q) = 0") (auto simp: pb_bytes_def split: option.splits)
  moreover have "length (content h' as) = length (content h as)"
    using Cons.prems(3) by (induction as) auto
  ultimately show ?case using q IH Cons.prems(2) by (simp add: packet.simps(2))
qed simp

lemma pbuf_take_at_packet:
  assumes ok: "hp_ok h" and pk: "packet h (Some p) as" and own: "own_chain h as"
  shows "if unat off < length (content h as) \<and> unat off + length data \<le> length (content h as)
    then \<exists>h'. pbuf_take_at h (Some p) data off = Some (h', ERR_OK) \<and> hp_ok h' \<and> packet h' (Some p) as \<and>
           content h' as = take (unat off) (content h as) @ data @ drop (unat off + length data) (content h as)
    else pbuf_take_at h (Some p) data off = Some (h, ERR_MEM)"
proof (cases "unat off < length (content h as)")
  case False
  then show ?thesis using pbuf_skip_const_out [OF pk, of off]
    by (simp add: pbuf_take_at_def pbuf_skip_def)
next
  case True
  with pk obtain pre b post k q where s: "as = pre @ b # post" "unat off = length (content h pre) + k"
    "pbuf_skip_const h (Some p) off = Some (Some b, of_nat k)" "pbufs h b = Some q" "k < unat (pb_len q)"
    "length (pb_bytes h b) = unat (pb_len q)" "unat (of_nat k :: u16) = k" by (rule skip_split)
  note mid = packet_middle [OF pk [unfolded s(1)] s(4)]
  have tl: "unat (pb_tot_len q) = length (content h (b # post))"
    using packet_tot_len mid s(4) by blast
  show ?thesis
  proof (cases "unat off + length data \<le> length (content h as)")
    case False
    then have "\<not> k + length data \<le> unat (pb_tot_len q)" using tl s by simp
    with False True s show ?thesis by (simp add: pbuf_take_at_def pbuf_skip_def)
  next
    case le: True
    define n where "n = min (unat (pb_len q) - k) (length data)"
    define h1 where "h1 = set_bytes h (pb_payload q + k) (take n data)"
    have nl: "length (take n data) = n" by (simp add: n_def)
    have kn: "k + length (take n data) \<le> length (pb_bytes h b)" using s(5,6) by (simp add: n_def)
    have w: "store (bytes h) (pb_payload q + k) (take n data) = Some (bytes h1)" "packet h1 (Some p) as"
      "content h1 pre = content h pre"
      "pb_bytes h1 b = take k (pb_bytes h b) @ take n data @ drop (k + n) (pb_bytes h b)"
      "content h1 post = content h post"
      using write_one [of h "Some p" pre b post q k "take n data"] ok pk own s kn nl by (simp_all add: h1_def)
    have ok1: "hp_ok h1" unfolding h1_def using ok by (rule hp_ok_set_bytes)
    have kt: "k + length data \<le> unat (pb_tot_len q)" using tl s le by simp
    have start: "pbuf_take_at h (Some p) data off =
      (if length data - n > 0 then pbuf_take h1 (pb_next q) (drop n data) else Some (h1, ERR_OK))"
      using s(3,4,5,7) w(1) kt
      by (simp add: pbuf_take_at_def pbuf_skip_def word_less_nat_alt n_def h1_def set_bytes_def Let_def)
    show ?thesis
    proof (cases "length data - n > 0")
      case False
      then have "n = length data" by (simp add: n_def)
      then show ?thesis using start True le w ok1 s kn by auto
    next
      case more: True
      then have n: "n = unat (pb_len q) - k" by (simp add: n_def)
      have p1: "packet h1 (pb_next q) post"
        using packet_middle [OF w(2) [unfolded s(1)], of q] s(4) by (simp add: h1_def)
      have len: "length (drop n data) \<le> length (content h1 post)"
        using le s(1,2,5,6) n more w(5) by simp
      then have "post \<noteq> []" using more by auto
      then obtain c where c: "pb_next q = Some c" using p1 by (cases "pb_next q") auto
      have own1: "own_chain h1 post" using own s(1) by (simp add: h1_def)
      obtain h' where t: "pbuf_take h1 (pb_next q) (drop n data) = Some (h', ERR_OK)" "hp_ok h'"
        "packet h' (pb_next q) post" "pbufs h' = pbufs h1"
        "content h' post = drop n data @ drop (length (drop n data)) (content h1 post)"
        "\<forall>a r. a \<notin> set post \<longrightarrow> pbufs h1 a = Some r \<longrightarrow> resident r \<longrightarrow> pb_bytes h' a = pb_bytes h1 a"
        using pbuf_take_packet [OF ok1 p1 [unfolded c] own1 len] c by auto
      have dist: "distinct (pre @ b # post)" using packet_distinct [OF pk] s(1) by simp
      have keep: "pb_bytes h' a = pb_bytes h1 a" if "a \<in> set (pre @ [b])" for a
      proof -
        have "a \<in> set as" using that s(1) by auto
        then obtain r where "pbufs h1 a = Some r" using packet_dom [OF w(2)] by blast
        moreover from this have "resident r" using own s(1) that by (auto simp: h1_def own_chain_def)
        ultimately show ?thesis using t(6) dist that by auto
      qed
      have "packet h' (Some p) as"
      proof (rule packet_from_bytes [OF w(2) t(4)])
        fix a assume a: "a \<in> set as"
        obtain r where r: "pbufs h1 a = Some r" using packet_dom [OF w(2) a] by blast
        show "length (pb_bytes h' a) = length (pb_bytes h1 a)"
        proof (cases "a \<in> set post")
          case True
          then obtain us vs where uv: "post = us @ a # vs" by (meson split_list)
          have "length (pb_bytes h' a) = unat (pb_len r)"
            using packet_middle [OF t(3) [unfolded uv], of r] r t(4) packet_pbuf by (metis (no_types))
          moreover have "length (pb_bytes h1 a) = unat (pb_len r)"
            using packet_middle [OF p1 [unfolded uv] r] r packet_pbuf by (metis (no_types))
          ultimately show ?thesis by simp
        next
          case False
          then show ?thesis using keep [of a] a s(1) by auto
        qed
      qed
      moreover have "content h' pre = content h pre" using keep w(3) content_cong [of pre h' h1] by simp
      moreover have "pb_bytes h' b = take k (pb_bytes h b) @ take n data" using keep [of b] w(4) n s(5,6) by simp
      ultimately show ?thesis using start more t s w(5) True le n
        by (auto simp: algebra_simps)
    qed
  qed
qed

end
