(* ===== verification/Pbuf_alloc.thy ===== *)
theory Pbuf_alloc imports Pbuf_update begin

text \<open>
  Allocation of packet buffers: with an allocator that keeps its promise, the result is
  either no buffer and no leak, or a chain of the requested length whose buffers have
  one reference each, and nothing that was in use before changes.
\<close>

section \<open>One block\<close>

definition sole_owner :: "hp \<Rightarrow> nat list \<Rightarrow> bool" where
  "sole_owner h as \<longleftrightarrow> (\<forall>a \<in> set as. \<forall>q. pbufs h a = Some q \<longrightarrow> pb_ref q = 1)"

text \<open>What was there before, apart from the buffers \<open>as\<close>, is untouched.\<close>

definition keeps :: "hp \<Rightarrow> nat list \<Rightarrow> hp \<Rightarrow> bool" where
  "keeps h as h' \<longleftrightarrow> (\<forall>b q. b \<notin> set as \<longrightarrow> pbufs h b = Some q \<longrightarrow>
     pbufs h' b = Some q \<and> (resident q \<longrightarrow>
       load (bytes h') (pb_payload q) (unat (pb_len q)) = load (bytes h) (pb_payload q) (unat (pb_len q))))"

lemma heap_keeps_refl [simp]: "keeps h as h"
  by (simp add: keeps_def)

lemma fresh_bytes:
  assumes "hp_ok h" and "pbufs h b = Some q" and "resident q"
    and "\<forall>c m. blocks h c = Some m \<longrightarrow> c + m \<le> a \<or> a + n \<le> c"
    and "pb_payload q \<le> x" "x < pb_payload q + unat (pb_len q)"
  shows "\<not> (a \<le> x \<and> x < a + n)"
proof -
  obtain m where m: "blocks h b = Some m" "b \<le> x" "x < b + m"
    using hp_okD [OF assms(1,2)] assms(3,5,6) by (metis add_leD1 order.trans order.strict_trans2)
  then have "b + m \<le> a \<or> a + n \<le> b" using assms(4) by blast
  then show ?thesis using m by linarith
qed

definition fresh_pbuf :: "hp \<Rightarrow> nat \<Rightarrow> hp \<Rightarrow> pbuf \<Rightarrow> bool" where
  "fresh_pbuf h a h' q \<longleftrightarrow> pbufs h a = None \<and> hp_ok h' \<and> keeps h [] h' \<and>
     pbufs h' = (pbufs h)(a \<mapsto> q) \<and> load (bytes h') (pb_payload q) (unat (pb_len q)) \<noteq> None"

definition got_block :: "hp \<Rightarrow> nat \<Rightarrow> nat \<Rightarrow> hp \<Rightarrow> bool" where
  "got_block h a n h1 \<longleftrightarrow> (\<exists>junk. h1 = h\<lparr>bytes := put_bytes (bytes h) a junk, blocks := (blocks h)(a \<mapsto> n)\<rparr> \<and>
     length junk = n) \<and> a mod 4 = 0 \<and> blocks h a = None \<and> (\<forall>b m. blocks h b = Some m \<longrightarrow> b + m \<le> a \<or> a + n \<le> b)"

definition init_pbuf :: "nat \<Rightarrow> u16 \<Rightarrow> u16 \<Rightarrow> pbuf_type \<Rightarrow> pbuf" where
  "init_pbuf payload tot len type =
     \<lparr>pb_next = None, pb_payload = payload, pb_tot_len = tot, pb_len = len,
      pb_type_internal = ucast (pbuf_type_val type), pb_flags = 0, pb_ref = 1,
      pb_if_idx = 0, pb_custom_free_function = None\<rparr>"

lemma init_pbuf_simps [simp]:
  "pb_next (init_pbuf payload tot len type) = None" "pb_payload (init_pbuf payload tot len type) = payload"
  "pb_tot_len (init_pbuf payload tot len type) = tot" "pb_len (init_pbuf payload tot len type) = len"
  "pb_ref (init_pbuf payload tot len type) = 1"
  by (simp_all add: init_pbuf_def)

lemma init_pbuf_own:
  "type = PBUF_RAM \<or> type = PBUF_POOL \<Longrightarrow> resident (init_pbuf payload tot len type) \<and> plain (init_pbuf payload tot len type)"
  by (auto simp: init_pbuf_def resident_def plain_def pbuf_get_allocsrc_def PBUF_TYPE_FLAG_STRUCT_DATA_CONTIGUOUS_def)

lemma mem_malloc_cases:
  assumes al: "malloc_ok al"
  obtains "mem_malloc al h n = Some (h, None)"
  | h1 a where "mem_malloc al h n = Some (h1, Some a)" "got_block h a n h1"
proof (cases "al h n")
  case None
  then show ?thesis using that(1) by (simp add: mem_malloc_def)
next
  case (Some r)
  obtain a junk where r: "r = (a, junk)" by fastforce
  with al Some have m: "a mod 4 = 0" "length junk = n" "blocks h a = None"
    "\<forall>b m. blocks h b = Some m \<longrightarrow> b + m \<le> a \<or> a + n \<le> b"
    unfolding malloc_ok_def by blast+
  then have "mem_malloc al h n =
      Some (h\<lparr>bytes := put_bytes (bytes h) a junk, blocks := (blocks h)(a \<mapsto> n)\<rparr>, Some a)"
    using Some r by (simp add: mem_malloc_def align_iff)
  moreover have "got_block h a n (h\<lparr>bytes := put_bytes (bytes h) a junk, blocks := (blocks h)(a \<mapsto> n)\<rparr>)"
    unfolding got_block_def using m by blast
  ultimately show ?thesis by (rule that(2))
qed

lemma fresh_init:
  assumes ok: "hp_ok h" and g: "got_block h a n h1" and n: "SIZEOF_STRUCT_PBUF \<le> n"
    and p: "a + SIZEOF_STRUCT_PBUF \<le> payload" "payload + unat len \<le> a + n"
  shows "fresh_pbuf h a (pbuf_init_alloced_pbuf h1 a payload tot len type 0) (init_pbuf payload tot len type)"
proof -
  from g obtain junk where h1: "h1 = h\<lparr>bytes := put_bytes (bytes h) a junk, blocks := (blocks h)(a \<mapsto> n)\<rparr>"
    and m: "length junk = n" "a mod 4 = 0" "blocks h a = None"
    and apart: "\<forall>b m. blocks h b = Some m \<longrightarrow> b + m \<le> a \<or> a + n \<le> b"
    by (auto simp: got_block_def)
  define q where "q = init_pbuf payload tot len type"
  have na: "pbufs h a = None"
  proof (rule ccontr)
    assume "pbufs h a \<noteq> None"
    then obtain q where "pbufs h a = Some q" by blast
    from hp_okD [OF ok this] show False using m(3) by (metis option.distinct(1))
  qed
  define h2 where "h2 = pbuf_init_alloced_pbuf h1 a payload tot len type 0"
  have b2: "bytes h2 x = (if a \<le> x \<and> x < a + SIZEOF_STRUCT_PBUF then None
      else if a \<le> x \<and> x < a + n then Some (junk ! (x - a)) else bytes h x)" for x
    using n m(1) by (auto simp: h2_def h1 pbuf_init_alloced_pbuf_def drop_bytes_def put_bytes_def)
  have p2: "pbufs h2 = (pbufs h)(a \<mapsto> q)" "blocks h2 = (blocks h)(a \<mapsto> n)"
    by (simp_all add: h2_def h1 pbuf_init_alloced_pbuf_def q_def init_pbuf_def)
  have "load (bytes h2) payload (unat len) = Some (map (\<lambda>i. junk ! (payload + i - a)) [0..<unat len])"
    using p by (auto simp: load_eq_Some b2)
  then have rd: "load (bytes h2) (pb_payload q) (unat (pb_len q)) \<noteq> None" by (simp add: q_def)
  have same: "bytes h2 x = bytes h x" if "\<not> (a \<le> x \<and> x < a + n)" for x
    using that n by (auto simp: b2)
  have k: "keeps h [] h2"
    unfolding keeps_def
  proof (intro allI impI conjI)
    fix b r assume b: "pbufs h b = Some r"
    show "pbufs h2 b = Some r" using b na p2 by auto
    assume "resident r"
    show "load (bytes h2) (pb_payload r) (unat (pb_len r)) = load (bytes h) (pb_payload r) (unat (pb_len r))"
      by (rule load_cong) (use same fresh_bytes [OF ok b \<open>resident r\<close> apart] in blast)
  qed
  have ap: "blocks h b = Some m \<Longrightarrow> b + m \<le> a \<or> a + n \<le> b" for b m using apart by blast
  have "blocks_ok h2"
    unfolding blocks_ok_def
  proof (intro allI impI)
    fix c i b j assume b: "blocks h2 c = Some i" "blocks h2 b = Some j" "c \<noteq> b"
    show "c + i \<le> b \<or> b + j \<le> c"
    proof (cases "c = a \<or> b = a")
      case True
      then show ?thesis using b ap p2 by (auto split: if_splits)
    next
      case False
      then have "blocks h c = Some i" "blocks h b = Some j" using b p2 by simp_all
      then show ?thesis using ok b(3) by (simp add: hp_ok_def blocks_ok_def)
    qed
  qed
  moreover have "pbuf_ok h2 b r" if b: "pbufs h2 b = Some r" for b r
  proof (cases "b = a")
    case True
    then have "r = q" using b p2 by simp
    then show ?thesis using True m(2) n p p2 by (auto simp: pbuf_ok_def q_def b2)
  next
    case False
    then have r: "pbufs h b = Some r" using b p2 by simp
    then have pk: "pbuf_ok h b r" using ok by (simp add: hp_ok_def)
    then obtain k where k: "blocks h b = Some k" by (auto simp: pbuf_ok_def)
    have "b + k \<le> a \<or> a + n \<le> b" using ap k by blast
    then have "bytes h2 x = bytes h x" if "b \<le> x" "x < b + k" for x using same that by auto
    then show ?thesis using pk k False p2 by (auto simp: pbuf_ok_def)
  qed
  ultimately have "hp_ok h2" by (simp add: hp_ok_def)
  then show ?thesis using na k p2 rd by (simp add: fresh_pbuf_def h2_def q_def)
qed

section \<open>A single buffer in RAM\<close>

lemma ALIGN_le: "n \<le> LWIP_MEM_ALIGN n" "LWIP_MEM_ALIGN n \<le> n + 3" "LWIP_MEM_ALIGN n mod 4 = 0"
  by (simp_all add: LWIP_MEM_ALIGN_def)

lemma ALIGN_add: "a mod 4 = 0 \<Longrightarrow> LWIP_MEM_ALIGN (a + n) = a + LWIP_MEM_ALIGN n"
  unfolding LWIP_MEM_ALIGN_def by presburger

lemma layer_offset: "pbuf_layer_offset layer \<le> 74"
  by (cases layer) simp_all

definition new_packet :: "hp \<Rightarrow> hp \<Rightarrow> nat \<Rightarrow> nat \<Rightarrow> bool" where
  "new_packet h h' p len \<longleftrightarrow> (\<exists>as. packet h' (Some p) as \<and> length (content h' as) = len \<and> own_chain h' as \<and>
     sole_owner h' as \<and> (\<forall>a \<in> set as. pbufs h a = None))"

lemma pbuf_alloc_ram_spec:
  assumes al: "malloc_ok al" and ok: "hp_ok h" and off: "off \<le> 74"
  shows "pbuf_alloc_ram al h off len = Some (h, None) \<or>
    (\<exists>h' p. pbuf_alloc_ram al h off len = Some (h', Some p) \<and> hp_ok h' \<and> keeps h [] h' \<and>
      new_packet h h' p (unat len))"
proof -
  define L where "L = (LWIP_MEM_ALIGN off + LWIP_MEM_ALIGN (unat len)) mod 2 ^ 16"
  define n where "n = LWIP_MEM_ALIGN SIZEOF_STRUCT_PBUF + L"
  have n24: "LWIP_MEM_ALIGN SIZEOF_STRUCT_PBUF = SIZEOF_STRUCT_PBUF" by (simp add: LWIP_MEM_ALIGN_def SIZEOF_STRUCT_PBUF_def)
  show ?thesis
  proof (cases "L < LWIP_MEM_ALIGN (unat len) \<or> n < LWIP_MEM_ALIGN (unat len)")
    case True
    then show ?thesis by (simp add: pbuf_alloc_ram_def L_def n_def)
  next
    case False
    have small: "LWIP_MEM_ALIGN off \<le> 77" "LWIP_MEM_ALIGN (unat len) \<le> 65538"
      using ALIGN_le(2) [of off] off ALIGN_le(2) [of "unat len"] unat_u16_le [of len] by linarith+
    have L: "L = LWIP_MEM_ALIGN off + LWIP_MEM_ALIGN (unat len)"
    proof (rule ccontr)
      assume "L \<noteq> LWIP_MEM_ALIGN off + LWIP_MEM_ALIGN (unat len)"
      then have ge: "65536 \<le> LWIP_MEM_ALIGN off + LWIP_MEM_ALIGN (unat len)"
        by (cases "LWIP_MEM_ALIGN off + LWIP_MEM_ALIGN (unat len) < 65536") (simp_all add: L_def)
      then have "L = LWIP_MEM_ALIGN off + LWIP_MEM_ALIGN (unat len) - 65536"
        using small by (simp add: L_def mod_if)
      with False small ge show False by linarith
    qed
    from al show ?thesis
    proof (cases rule: mem_malloc_cases [of _ h n])
      case 1
      then show ?thesis using False by (simp add: pbuf_alloc_ram_def Let_def L_def n_def)
    next
      case (2 h1 a)
      define payload where "payload = LWIP_MEM_ALIGN (a + SIZEOF_STRUCT_PBUF + off)"
      have a4: "(a + SIZEOF_STRUCT_PBUF) mod 4 = 0" using 2(2) by (auto simp: SIZEOF_STRUCT_PBUF_def got_block_def)
      then have pl: "payload = a + SIZEOF_STRUCT_PBUF + LWIP_MEM_ALIGN off"
        unfolding payload_def by (rule ALIGN_add)
      define h' where "h' = pbuf_init_alloced_pbuf h1 a payload len len PBUF_RAM 0"
      define q where "q = init_pbuf payload len len PBUF_RAM"
      have f: "fresh_pbuf h a h' q"
        unfolding h'_def q_def using pl L n24 ALIGN_le(1) [of "unat len"]
        by (intro fresh_init [OF ok 2(2)]) (simp_all add: n_def)
      have p4: "payload mod 4 = 0" using ALIGN_le(3) by (simp add: payload_def)
      have r: "pbuf_alloc_ram al h off len = Some (h', Some a)"
        using False 2(1) p4 by (simp add: pbuf_alloc_ram_def Let_def L_def n_def payload_def h'_def)
      have q: "pbufs h' a = Some q" using f by (simp add: fresh_pbuf_def)
      have pk: "packet h' (Some a) [a]" using f q by (auto simp: packet.simps(2) fresh_pbuf_def q_def)
      then have "length (content h' [a]) = unat len" using packet_pbuf [OF pk q] by (simp add: q_def)
      moreover have "own_chain h' [a]" "sole_owner h' [a]"
        using q init_pbuf_own by (simp_all add: sole_owner_def q_def)
      ultimately have "new_packet h h' a (unat len)"
        unfolding new_packet_def using pk f by (intro exI [of _ "[a]"]) (simp add: fresh_pbuf_def)
      then show ?thesis using r f by (auto simp: fresh_pbuf_def)
    qed
  qed
qed

section \<open>A chain of pool buffers\<close>

text \<open>A chain under construction: \<open>rem\<close> bytes are still to come.\<close>

fun open_chain :: "hp \<Rightarrow> nat option \<Rightarrow> nat list \<Rightarrow> nat \<Rightarrow> bool" where
  "open_chain h p [] rem \<longleftrightarrow> p = None"
| "open_chain h p (a # as) rem \<longleftrightarrow> p = Some a \<and> (\<exists>q. pbufs h a = Some q \<and>
     load (bytes h) (pb_payload q) (unat (pb_len q)) \<noteq> None \<and>
     unat (pb_tot_len q) = unat (pb_len q) + length (content h as) + rem \<and> open_chain h (pb_next q) as rem)"

lemma open_chain_0: "open_chain h p as 0 = packet h p as"
  by (induction as arbitrary: p) (auto simp: packet.simps(2) split: option.splits)

lemma open_chain_links: "open_chain h p as rem \<Longrightarrow> chain h p as"
  by (induction as arbitrary: p) auto

lemma length_pb_bytes:
  "pbufs h a = Some q \<Longrightarrow> load (bytes h) (pb_payload q) (unat (pb_len q)) \<noteq> None \<Longrightarrow> length (pb_bytes h a) = unat (pb_len q)"
  by (auto simp: pb_bytes_def load_length)

text \<open>Hooking a new last buffer to the chain.\<close>

lemma open_chain_extend:
  assumes "open_chain h p as rem" and "as \<noteq> []"
    and "\<And>a q. a \<in> set as \<Longrightarrow> pbufs h a = Some q \<Longrightarrow>
      pbufs h' a = Some (if a = last as then q\<lparr>pb_next := Some b\<rparr> else q)"
    and "\<And>a q. a \<in> set as \<Longrightarrow> pbufs h a = Some q \<Longrightarrow>
      load (bytes h') (pb_payload q) (unat (pb_len q)) = load (bytes h) (pb_payload q) (unat (pb_len q))"
    and "pbufs h' b = Some qb" "pb_next qb = None" "unat (pb_tot_len qb) = rem"
    and "load (bytes h') (pb_payload qb) (unat (pb_len qb)) \<noteq> None" "rem = unat (pb_len qb) + rem'"
  shows "open_chain h' p (as @ [b]) rem' \<and> content h' as = content h as"
  using assms(1-4)
proof (induction as arbitrary: p)
  case (Cons a as)
  from Cons.prems(1) obtain q where q: "p = Some a" "pbufs h a = Some q"
    "load (bytes h) (pb_payload q) (unat (pb_len q)) \<noteq> None"
    "unat (pb_tot_len q) = unat (pb_len q) + length (content h as) + rem" "open_chain h (pb_next q) as rem"
    by auto
  have ld: "load (bytes h') (pb_payload q) (unat (pb_len q)) = load (bytes h) (pb_payload q) (unat (pb_len q))"
    using Cons.prems(4) [of a q] q(2) by simp
  have lb: "length (pb_bytes h' b) = unat (pb_len qb)" using assms(5,8) by (rule length_pb_bytes)
  show ?case
  proof (cases "as = []")
    case True
    then have a: "pbufs h' a = Some (q\<lparr>pb_next := Some b\<rparr>)" using Cons.prems(3) [of a q] q(2) by simp
    then have "pb_bytes h' a = pb_bytes h a" using q(2) ld by (simp add: pb_bytes_def)
    then show ?thesis using True a q ld assms(5-9) lb by simp
  next
    case False
    have "a \<notin> set as" using chain_distinct [OF open_chain_links [OF Cons.prems(1)]] by simp
    then have al: "a \<noteq> last as" using False last_in_set by metis
    have IH: "open_chain h' (pb_next q) (as @ [b]) rem' \<and> content h' as = content h as"
    proof (rule Cons.IH [OF q(5) False])
      fix c r assume c: "c \<in> set as" "pbufs h c = Some r"
      show "pbufs h' c = Some (if c = last as then r\<lparr>pb_next := Some b\<rparr> else r)"
        using Cons.prems(3) [of c r] c False by simp
      show "load (bytes h') (pb_payload r) (unat (pb_len r)) = load (bytes h) (pb_payload r) (unat (pb_len r))"
        using Cons.prems(4) [of c r] c by simp
    qed
    have a: "pbufs h' a = Some q" using Cons.prems(3) [of a q] q(2) al False by simp
    then have "pb_bytes h' a = pb_bytes h a" using q(2) ld by (simp add: pb_bytes_def)
    then show ?thesis using IH a q ld lb assms(9) by simp
  qed
qed simp

lemma sole_sole: "sole_owner h as \<Longrightarrow> (\<And>a. a \<in> set as \<Longrightarrow> pbufs h a \<noteq> None) \<Longrightarrow> sole h as = as \<and> kept h as = []"
  by (induction as) (fastforce simp: sole_owner_def split: option.splits)+

lemma chain_dom: "chain h p as \<Longrightarrow> a \<in> set as \<Longrightarrow> pbufs h a \<noteq> None"
  by (induction as arbitrary: p) auto

lemma pool_chunk_bounds:
  "off \<le> 74 \<Longrightarrow> 0 < pool_chunk off \<and> pool_chunk off < 65536 \<and> LWIP_MEM_ALIGN off + pool_chunk off = PBUF_POOL_BUFSIZE_ALIGNED"
proof -
  assume "off \<le> 74"
  then have "LWIP_MEM_ALIGN off \<le> 77" using ALIGN_le(2) [of off] by linarith
  moreover have "PBUF_POOL_BUFSIZE_ALIGNED = 1516" by (simp add: PBUF_POOL_BUFSIZE_ALIGNED_def LWIP_MEM_ALIGN_def)
  ultimately show ?thesis by (simp add: pool_chunk_def)
qed

definition pool_result :: "hp \<Rightarrow> nat list \<Rightarrow> nat \<Rightarrow> hp \<Rightarrow> nat option \<Rightarrow> bool" where
  "pool_result h as len h' r \<longleftrightarrow> hp_ok h' \<and> keeps h as h' \<and>
     (case r of
        None \<Rightarrow> \<forall>b. b \<in> set as \<or> pbufs h b = None \<longrightarrow> pbufs h' b = None
      | Some a \<Rightarrow> \<exists>as'. packet h' (Some a) (as @ as') \<and> length (content h' (as @ as')) = len \<and>
          own_chain h' (as @ as') \<and> sole_owner h' (as @ as') \<and> (\<forall>b \<in> set as'. pbufs h b = None))"

lemma pool_fail:
  assumes ok: "hp_ok h" and ch: "chain h p as" and own: "own_chain h as" and so: "sole_owner h as"
  shows "\<exists>h'. (case p of None \<Rightarrow> Some h | Some a \<Rightarrow> do { (h, n) \<leftarrow> pbuf_free h p; Some h }) = Some h' \<and>
    pool_result h as len h' None"
proof (cases p)
  case None
  then have "as = []" using ch by (cases as) auto
  then show ?thesis using None ok by (simp add: pool_result_def)
next
  case (Some a)
  have s: "sole h as = as \<and> kept h as = []" using sole_sole [OF so] chain_dom [OF ch] by blast
  have f: "pbuf_free h p = Some (free_set h (set as), of_nat (length as))"
    using pbuf_free_chain [of h a as] ok ch own Some s by (simp add: unref_def)
  have "keeps h as (free_set h (set as))"
    unfolding keeps_def using free_frame [OF ok] by (auto split: if_splits)
  then have "pool_result h as len (free_set h (set as)) None"
    using hp_ok_free_set [OF ok] by (simp add: pool_result_def)
  then show ?thesis using f Some by simp
qed

lemma pending_simps [simp]:
  "hp_ok (h\<lparr>pbuf_free_ooseq_pending := x\<rparr>) = hp_ok h" "chain (h\<lparr>pbuf_free_ooseq_pending := x\<rparr>) p as = chain h p as"
  "own_chain (h\<lparr>pbuf_free_ooseq_pending := x\<rparr>) as = own_chain h as"
  "sole_owner (h\<lparr>pbuf_free_ooseq_pending := x\<rparr>) as = sole_owner h as"
  "pool_result (h\<lparr>pbuf_free_ooseq_pending := x\<rparr>) as len h' r = pool_result h as len h' r"
proof -
  show "chain (h\<lparr>pbuf_free_ooseq_pending := x\<rparr>) p as = chain h p as" by (induction as arbitrary: p) auto
qed (simp_all add: hp_ok_def blocks_ok_def pbuf_ok_def own_chain_def sole_owner_def pool_result_def keeps_def split: option.splits)

lemma heap_keeps_trans:
  assumes "keeps h as h1" and "keeps h1 (as @ [b]) h'" and "pbufs h b = None"
  shows "keeps h as h'"
  using assms unfolding keeps_def by (metis Un_iff empty_iff empty_set insert_iff list.simps(15) option.distinct(1) set_append)

lemma pool_result_step:
  assumes "keeps h as h3" and "pbufs h b = None" and "pbufs h3 = (\<lambda>c. if c = b then Some q else if c \<in> set as then g c else pbufs h c)"
    and "pool_result h3 (as @ [b]) len h' r"
  shows "pool_result h as len h' r"
proof (cases r)
  case None
  have "pbufs h' c = None" if "c \<in> set as \<or> pbufs h c = None" for c
  proof -
    have "c \<in> set (as @ [b]) \<or> pbufs h3 c = None" using that assms(3) by auto
    then show ?thesis using assms(4) None by (auto simp: pool_result_def)
  qed
  then show ?thesis using None assms(4) heap_keeps_trans [OF assms(1) _ assms(2)]
    by (auto simp: pool_result_def)
next
  case (Some a)
  with assms(4) obtain as' where "packet h' (Some a) ((as @ [b]) @ as')" "length (content h' ((as @ [b]) @ as')) = len"
    "own_chain h' ((as @ [b]) @ as')" "sole_owner h' ((as @ [b]) @ as')" "\<forall>c \<in> set as'. pbufs h3 c = None"
    by (auto simp: pool_result_def)
  moreover from this have "c \<in> set as' \<Longrightarrow> pbufs h c = None" for c
    using packet_distinct [of h' "Some a"] assms(3) by (fastforce split: if_splits)
  ultimately show ?thesis using Some assms(2,4) heap_keeps_trans [OF assms(1) _ assms(2)]
    by (simp add: pool_result_def) (intro exI [of _ "b # as'"], auto)
qed

text \<open>One buffer of the pool, hooked to the chain so far.\<close>

definition pool_step :: "hp \<Rightarrow> nat \<Rightarrow> u16 \<Rightarrow> nat option \<Rightarrow> nat list \<Rightarrow> nat \<Rightarrow> hp \<Rightarrow> u16 \<Rightarrow> bool" where
  "pool_step h off rem p as b h3 rem' \<longleftrightarrow>
     pbufs h b = None \<and> hp_ok h3 \<and> keeps h as h3 \<and> own_chain h3 (as @ [b]) \<and> sole_owner h3 (as @ [b]) \<and>
     open_chain h3 (if as = [] then Some b else p) (as @ [b]) (unat rem') \<and>
     length (content h3 (as @ [b])) + unat rem' = length (content h as) + unat rem \<and>
     (\<exists>q g. pbufs h3 = (\<lambda>c. if c = b then Some q else if c \<in> set as then g c else pbufs h c))"

lemma pool_step_holds:
  assumes ok: "hp_ok h" and g: "got_block h b (LWIP_MEM_ALIGN (memp_desc_size MEMP_PBUF_POOL)) h1"
    and off: "off \<le> 74" and oc: "open_chain h p as (unat rem)" and own: "own_chain h as" and so: "sole_owner h as"
    and h2: "h2 = pbuf_init_alloced_pbuf h1 b (LWIP_MEM_ALIGN (b + SIZEOF_STRUCT_PBUF + off)) rem
               (min rem (of_nat (pool_chunk off))) PBUF_POOL 0"
    and h3: "h3 = (if as = [] then h2 else upd_pbuf h2 (last as) (\<lambda>q. q\<lparr>pb_next := Some b\<rparr>))"
  shows "pool_step h off rem p as b h3 (rem - min rem (of_nat (pool_chunk off)))"
proof -
  define len where "len = min rem (of_nat (pool_chunk off))"
  define payload where "payload = LWIP_MEM_ALIGN (b + SIZEOF_STRUCT_PBUF + off)"
  define q where "q = init_pbuf payload rem len PBUF_POOL"
  note pc = pool_chunk_bounds [OF off]
  have len: "unat len = min (unat rem) (pool_chunk off)"
    using pc by (simp add: len_def min_def word_le_nat_alt unat_of_nat_u16)
  have rem': "unat (rem - len) = unat rem - unat len" using len by (simp add: unat_sub_le)
  have n: "LWIP_MEM_ALIGN (memp_desc_size MEMP_PBUF_POOL) = SIZEOF_STRUCT_PBUF + PBUF_POOL_BUFSIZE_ALIGNED"
    by (simp add: LWIP_MEM_ALIGN_def SIZEOF_STRUCT_PBUF_def PBUF_POOL_BUFSIZE_ALIGNED_def)
  have "(b + SIZEOF_STRUCT_PBUF) mod 4 = 0" using g by (auto simp: SIZEOF_STRUCT_PBUF_def got_block_def)
  then have pl: "payload = b + SIZEOF_STRUCT_PBUF + LWIP_MEM_ALIGN off"
    unfolding payload_def by (rule ALIGN_add)
  have f: "fresh_pbuf h b h2 q"
    unfolding h2 q_def len_def [symmetric] payload_def [symmetric]
    by (rule fresh_init [OF ok g]) (use pl pc len n in auto)
  then have f': "pbufs h b = None" "hp_ok h2" "keeps h [] h2" "pbufs h2 = (pbufs h)(b \<mapsto> q)"
    "load (bytes h2) (pb_payload q) (unat (pb_len q)) \<noteq> None" by (simp_all add: fresh_pbuf_def)
  have dom: "a \<in> set as \<Longrightarrow> pbufs h a \<noteq> None" for a using chain_dom [OF open_chain_links [OF oc]] .
  then have b: "b \<notin> set as" using f'(1) by blast
  have p3: "pbufs h3 c = (if c = b then Some q else if as \<noteq> [] \<and> c = last as
      then map_option (\<lambda>q. q\<lparr>pb_next := Some b\<rparr>) (pbufs h c) else pbufs h c)" for c
    using b f'(4) last_in_set [of as] by (auto simp: h3)
  have by3: "bytes h3 = bytes h2" by (simp add: h3)
  have "hp_ok (upd_pbuf h2 (last as) (\<lambda>q. q\<lparr>pb_next := Some b\<rparr>))"
    by (rule hp_ok_upd [OF f'(2)]) (use f'(2) in \<open>simp add: hp_ok_def pbuf_ok_def resident_def\<close>)
  then have ok3: "hp_ok h3" unfolding h3 using f'(2) by simp
  have "\<forall>c q. c \<notin> set as \<longrightarrow> pbufs h c = Some q \<longrightarrow> pbufs h3 c = Some q"
    using p3 f'(1) last_in_set [of as] by auto
  then have k3: "keeps h as h3" using f'(3) by (simp add: keeps_def by3)
  have own3: "own_chain h3 (as @ [b])"
    using own p3 init_pbuf_own [of PBUF_POOL] b
    by (fastforce simp: own_chain_def q_def resident_def plain_def pbuf_get_allocsrc_def split: if_splits)
  have so3: "sole_owner h3 (as @ [b])" using so p3 b by (auto simp: sole_owner_def q_def split: if_splits)
  have lb: "length (pb_bytes h3 b) = unat len"
    using length_pb_bytes [of h3 b q] p3 f'(5) by3 by (simp add: q_def)
  have oc3: "open_chain h3 (if as = [] then Some b else p) (as @ [b]) (unat (rem - len)) \<and> content h3 as = content h as"
  proof (cases "as = []")
    case True
    then show ?thesis using p3 f'(5) by3 rem' len by (simp add: q_def)
  next
    case False
    have "open_chain h3 p (as @ [b]) (unat (rem - len)) \<and> content h3 as = content h as"
    proof (rule open_chain_extend [OF oc False])
      fix a r assume a: "a \<in> set as" "pbufs h a = Some r"
      show "pbufs h3 a = Some (if a = last as then r\<lparr>pb_next := Some b\<rparr> else r)" using p3 [of a] a b False by auto
      show "load (bytes h3) (pb_payload r) (unat (pb_len r)) = load (bytes h) (pb_payload r) (unat (pb_len r))"
        using f'(3) a own by (auto simp: keeps_def by3 own_chain_def)
    qed (use p3 f'(5) by3 rem' len in \<open>auto simp: q_def\<close>)
    then show ?thesis using False by simp
  qed
  have "pbufs h3 = (\<lambda>c. if c = b then Some q else if c \<in> set as then pbufs h3 c else pbufs h c)"
    using p3 by (auto simp: fun_eq_iff)
  then show ?thesis
    unfolding pool_step_def len_def [symmetric]
    using f'(1) ok3 k3 own3 so3 oc3 lb rem' len by auto
qed

lemma pbuf_alloc_pool_spec:
  assumes al: "malloc_ok al"
  shows "hp_ok h \<Longrightarrow> open_chain h p as (unat rem) \<Longrightarrow> own_chain h as \<Longrightarrow> sole_owner h as \<Longrightarrow>
    prev = (if as = [] then None else Some (last as)) \<Longrightarrow> off \<le> 74 \<Longrightarrow> rem \<noteq> 0 \<or> as = [] \<Longrightarrow>
    \<exists>h' r. pbuf_alloc_pool al h off rem p prev = Some (h', r) \<and>
      pool_result h as (length (content h as) + unat rem) h' r"
proof (induction "unat rem" arbitrary: h p as rem prev off rule: less_induct)
  case less
  note links = open_chain_links [OF less.prems(2)]
  define len where "len = min rem (of_nat (pool_chunk off))"
  define n where "n = LWIP_MEM_ALIGN (memp_desc_size MEMP_PBUF_POOL)"
  from al show ?case
  proof (cases rule: mem_malloc_cases [of _ h n])
    case 1
    define h1 where "h1 = h\<lparr>pbuf_free_ooseq_pending := True\<rparr>"
    from 1 have mm: "memp_malloc al h MEMP_PBUF_POOL = Some (h, None)" by (simp add: memp_malloc_def n_def)
    obtain h' where h': "(case p of None \<Rightarrow> Some h1 | Some a \<Rightarrow> do { (h, n) \<leftarrow> pbuf_free h1 p; Some h }) = Some h'"
      "pool_result h1 as (length (content h as) + unat rem) h' None"
      using pool_fail [of h1 p as] links less.prems(1,3,4) by (auto simp: h1_def)
    have "pbuf_alloc_pool al h off rem p prev = Some (h', None)"
      using h'(1) unfolding h1_def
      by (subst pbuf_alloc_pool.simps) (cases p; auto simp: mm Let_def split: Option.bind_splits)
    then show ?thesis using h'(2) by (auto simp: h1_def)
  next
    case (2 h1 b)
    have mm: "memp_malloc al h MEMP_PBUF_POOL = Some (h1, Some b)"
      using 2 by (simp add: memp_malloc_def n_def got_block_def)
    define h2 where "h2 = pbuf_init_alloced_pbuf h1 b (LWIP_MEM_ALIGN (b + SIZEOF_STRUCT_PBUF + off)) rem len PBUF_POOL 0"
    define h3 where "h3 = (if as = [] then h2 else upd_pbuf h2 (last as) (\<lambda>q. q\<lparr>pb_next := Some b\<rparr>))"
    have st: "pool_step h off rem p as b h3 (rem - len)" unfolding len_def
      by (rule pool_step_holds [OF less.prems(1) 2(2) [unfolded n_def] less.prems(6,2,3,4) h2_def [unfolded len_def] h3_def])
    then obtain q g where st': "pbufs h b = None" "hp_ok h3" "keeps h as h3" "own_chain h3 (as @ [b])"
      "sole_owner h3 (as @ [b])" "open_chain h3 (if as = [] then Some b else p) (as @ [b]) (unat (rem - len))"
      "length (content h3 (as @ [b])) + unat (rem - len) = length (content h as) + unat rem"
      "pbufs h3 = (\<lambda>c. if c = b then Some q else if c \<in> set as then g c else pbufs h c)"
      by (auto simp: pool_step_def)
    have p: "(case p of None \<Rightarrow> Some b | Some _ \<Rightarrow> p) = (if as = [] then Some b else p)"
      using links by (cases as) auto
    have al4: "LWIP_MEM_ALIGN (b + SIZEOF_STRUCT_PBUF + off) mod 4 = 0" using ALIGN_le(3) by blast
    have pcp: "pool_chunk off > 0" using pool_chunk_bounds [OF less.prems(6)] by simp
    have h3e: "(case prev of None \<Rightarrow> h2 | Some l \<Rightarrow> upd_pbuf h2 l (\<lambda>b'. b'\<lparr>pb_next := Some b\<rparr>)) = h3"
      using less.prems(5) by (simp add: h3_def)
    have step: "pbuf_alloc_pool al h off rem p prev =
      (if rem - len > 0 then pbuf_alloc_pool al h3 0 (rem - len) (if as = [] then Some b else p) (Some b)
       else Some (h3, if as = [] then Some b else p))"
      using mm al4 pcp h3e [unfolded h2_def] p
      by (subst pbuf_alloc_pool.simps) (simp add: Let_def flip: len_def)
    show ?thesis
    proof (cases "rem - len > 0")
      case True
      have "rem \<noteq> 0"
      proof
        assume "rem = 0"
        then have "len = 0" by (simp add: len_def)
        with True \<open>rem = 0\<close> show False by simp
      qed
      have "unat len = min (unat rem) (pool_chunk off)"
        using pool_chunk_bounds [OF less.prems(6)] by (simp add: len_def min_def word_le_nat_alt unat_of_nat_u16)
      moreover have "unat rem > 0" using \<open>rem \<noteq> 0\<close> by (simp add: unat_gt_0)
      ultimately have lt: "unat (rem - len) < unat rem" using pcp by (simp add: unat_sub_le)
      have "rem \<noteq> len" using True by auto
      with less.hyps [OF lt st'(2,6,4,5), of "Some b" 0]      obtain h' r where IH: "pbuf_alloc_pool al h3 0 (rem - len) (if as = [] then Some b else p) (Some b) = Some (h', r)"
        "pool_result h3 (as @ [b]) (length (content h3 (as @ [b])) + unat (rem - len)) h' r" by auto
      have "pool_result h as (length (content h as) + unat rem) h' r"
        using pool_result_step [OF st'(3,1,8)] IH(2) st'(7) by simp
      then show ?thesis using step IH(1) True by auto
    next
      case False
      then have r0: "rem - len = 0" by (simp add: word_gt_0)
      define r where "r = (if as = [] then Some b else p)"
      obtain a where ra: "r = Some a" using links by (cases as) (auto simp: r_def)
      have "pool_result h3 (as @ [b]) (length (content h as) + unat rem) h3 r"
        using st' r0 ra by (auto simp: pool_result_def open_chain_0 r_def intro!: exI [of _ "[]"])
      then have "pool_result h as (length (content h as) + unat rem) h3 r"
        using pool_result_step [OF st'(3,1,8)] by blast
      then show ?thesis using step False by (auto simp: r_def)
    qed
  qed
qed

theorem pbuf_alloc_spec:
  assumes al: "malloc_ok al" and ok: "hp_ok h" and type: "type = PBUF_RAM \<or> type = PBUF_POOL"
  shows "\<exists>h' r. pbuf_alloc al h layer len type = Some (h', r) \<and> hp_ok h' \<and> keeps h [] h' \<and>
    (case r of None \<Rightarrow> \<forall>b. pbufs h b = None \<longrightarrow> pbufs h' b = None
     | Some p \<Rightarrow> new_packet h h' p (unat len))"
proof (cases "type = PBUF_RAM")
  case True
  then show ?thesis
    using pbuf_alloc_ram_spec [OF al ok layer_offset [of layer], of len] ok
    by (auto simp: pbuf_alloc_def)
next
  case False
  with type have t: "type = PBUF_POOL" by simp
  obtain h' r where a: "pbuf_alloc_pool al h (pbuf_layer_offset layer) len None None = Some (h', r)"
    and r: "pool_result h [] (unat len) h' r"
    using pbuf_alloc_pool_spec [OF al ok, of None "[]" len None "pbuf_layer_offset layer"] layer_offset [of layer]
    by (auto simp: sole_owner_def)
  have "pbuf_alloc al h layer len type = Some (h', r)" using a t by (simp add: pbuf_alloc_def)
  moreover have "case r of None \<Rightarrow> \<forall>b. pbufs h b = None \<longrightarrow> pbufs h' b = None
     | Some p \<Rightarrow> new_packet h h' p (unat len)"
    using r by (auto simp: pool_result_def new_packet_def split: option.splits)
  ultimately show ?thesis using r by (auto simp: pool_result_def)
qed

end
