(* ===== verification/Inet_chksum.thy ===== *)
theory Inet_chksum imports Ip_addr Pbuf_alloc begin

text \<open>
  The checksum functions of \<^verbatim>\<open>core/inet_chksum.c\<close> over packet chains and memory.
  \<^verbatim>\<open>LWIP_CHKSUM\<close> is a macro a port may redefine, so it is the first argument;
  the locale \<open>chksum_routine\<close> states what they need of it, and each of the three
  routines of the file is an interpretation.
\<close>

section \<open>The functions\<close>

type_synonym chksum_fn = "nat \<Rightarrow> u8 list \<Rightarrow> u16"

text \<open>The bytes of one buffer.\<close>

definition LWIP_CHKSUM_at :: "chksum_fn \<Rightarrow> hp \<Rightarrow> nat \<Rightarrow> nat \<Rightarrow> u16 option" where
  "LWIP_CHKSUM_at chk h dataptr len = map_option (chk dataptr) (load (bytes h) dataptr len)"

partial_function (option) chksum_chain_loop ::
    "chksum_fn \<Rightarrow> hp \<Rightarrow> nat option \<Rightarrow> u32 \<Rightarrow> bool \<Rightarrow> (u32 \<times> bool) option" where
  "chksum_chain_loop chk h q acc swapped =
     (case q of
        None \<Rightarrow> Some (acc, swapped)
      | Some a \<Rightarrow> do {
          b \<leftarrow> pbufs h a;
          c \<leftarrow> LWIP_CHKSUM_at chk h (pb_payload b) (unat (pb_len b));
          let acc = FOLD_U32T (acc + ucast c);
          (if pb_len b mod 2 \<noteq> 0
           then chksum_chain_loop chk h (pb_next b) (SWAP_BYTES_IN_WORD acc) (\<not> swapped)
           else chksum_chain_loop chk h (pb_next b) acc swapped) })"

definition pseudo_finish :: "u8 \<Rightarrow> u16 \<Rightarrow> u32 \<Rightarrow> bool \<Rightarrow> u16" where
  "pseudo_finish proto proto_len acc swapped =
     (let acc = (if swapped then SWAP_BYTES_IN_WORD acc else acc);
          acc = acc + ucast (lwip_htons (ucast proto));
          acc = acc + ucast (lwip_htons proto_len);
          acc = FOLD_U32T acc;
          acc = FOLD_U32T acc
      in ucast (NOT (acc AND 0xffff)))"

definition inet_cksum_pseudo_base :: "chksum_fn \<Rightarrow> hp \<Rightarrow> nat option \<Rightarrow> u8 \<Rightarrow> u16 \<Rightarrow> u32 \<Rightarrow> u16 option" where
  "inet_cksum_pseudo_base chk h p proto proto_len acc = do {
     (acc, swapped) \<leftarrow> chksum_chain_loop chk h p acc False;
     Some (pseudo_finish proto proto_len acc swapped) }"

fun add_words :: "u32 \<Rightarrow> u32 list \<Rightarrow> u32" where
  "add_words acc [] = acc"
| "add_words acc (w # ws) = add_words (acc + (w AND 0xffff) + (drop_bit 16 w AND 0xffff)) ws"

definition inet_chksum_pseudo ::
    "chksum_fn \<Rightarrow> hp \<Rightarrow> nat option \<Rightarrow> u8 \<Rightarrow> u16 \<Rightarrow> ip4_addr_t \<Rightarrow> ip4_addr_t \<Rightarrow> u16 option" where
  "inet_chksum_pseudo chk h p proto proto_len src dest =
     inet_cksum_pseudo_base chk h p proto proto_len (FOLD_U32T (FOLD_U32T (add_words 0 [src, dest])))"

definition ip6_interleave :: "ip6_addr_t \<Rightarrow> ip6_addr_t \<Rightarrow> u32 list" where
  "ip6_interleave src dest = concat (map2 (\<lambda>s d. [s, d]) (ip6_words src) (ip6_words dest))"

definition ip6_chksum_pseudo ::
    "chksum_fn \<Rightarrow> hp \<Rightarrow> nat option \<Rightarrow> u8 \<Rightarrow> u16 \<Rightarrow> ip6_addr_t \<Rightarrow> ip6_addr_t \<Rightarrow> u16 option" where
  "ip6_chksum_pseudo chk h p proto proto_len src dest =
     inet_cksum_pseudo_base chk h p proto proto_len
       (FOLD_U32T (FOLD_U32T (add_words 0 (ip6_interleave src dest))))"

definition ip_chksum_pseudo ::
    "chksum_fn \<Rightarrow> hp \<Rightarrow> nat option \<Rightarrow> u8 \<Rightarrow> u16 \<Rightarrow> ip_addr_t \<Rightarrow> ip_addr_t \<Rightarrow> u16 option" where
  "ip_chksum_pseudo chk h p proto proto_len src dest =
     (if IP_IS_V6_VAL dest
      then ip6_chksum_pseudo chk h p proto proto_len (ip_2_ip6 src) (ip_2_ip6 dest)
      else inet_chksum_pseudo chk h p proto proto_len (ip_2_ip4 src) (ip_2_ip4 dest))"

text \<open>The partial variants stop after \<^verbatim>\<open>chksum_len\<close> bytes and assert that few remain.\<close>

partial_function (option) chksum_partial_loop ::
    "chksum_fn \<Rightarrow> hp \<Rightarrow> nat option \<Rightarrow> u16 \<Rightarrow> u32 \<Rightarrow> bool \<Rightarrow> (u32 \<times> bool) option" where
  "chksum_partial_loop chk h q chksum_len acc swapped =
     (case q of
        None \<Rightarrow> Some (acc, swapped)
      | Some a \<Rightarrow>
          if chksum_len = 0 then Some (acc, swapped)
          else do {
            b \<leftarrow> pbufs h a;
            let chklen = (if pb_len b > chksum_len then chksum_len else pb_len b);
            c \<leftarrow> LWIP_CHKSUM_at chk h (pb_payload b) (unat chklen);
            let acc = acc + ucast c;
            let chksum_len = chksum_len - chklen;
            LWIP_ASSERT (chksum_len < 0x7fff);
            let acc = FOLD_U32T acc;
            (if pb_len b mod 2 \<noteq> 0
             then chksum_partial_loop chk h (pb_next b) chksum_len (SWAP_BYTES_IN_WORD acc) (\<not> swapped)
             else chksum_partial_loop chk h (pb_next b) chksum_len acc swapped) })"

definition inet_cksum_pseudo_partial_base ::
    "chksum_fn \<Rightarrow> hp \<Rightarrow> nat option \<Rightarrow> u8 \<Rightarrow> u16 \<Rightarrow> u16 \<Rightarrow> u32 \<Rightarrow> u16 option" where
  "inet_cksum_pseudo_partial_base chk h p proto proto_len chksum_len acc = do {
     (acc, swapped) \<leftarrow> chksum_partial_loop chk h p chksum_len acc False;
     Some (pseudo_finish proto proto_len acc swapped) }"

definition inet_chksum_pseudo_partial ::
    "chksum_fn \<Rightarrow> hp \<Rightarrow> nat option \<Rightarrow> u8 \<Rightarrow> u16 \<Rightarrow> u16 \<Rightarrow> ip4_addr_t \<Rightarrow> ip4_addr_t \<Rightarrow> u16 option" where
  "inet_chksum_pseudo_partial chk h p proto proto_len chksum_len src dest =
     inet_cksum_pseudo_partial_base chk h p proto proto_len chksum_len
       (FOLD_U32T (FOLD_U32T (add_words 0 [src, dest])))"

definition ip6_chksum_pseudo_partial ::
    "chksum_fn \<Rightarrow> hp \<Rightarrow> nat option \<Rightarrow> u8 \<Rightarrow> u16 \<Rightarrow> u16 \<Rightarrow> ip6_addr_t \<Rightarrow> ip6_addr_t \<Rightarrow> u16 option" where
  "ip6_chksum_pseudo_partial chk h p proto proto_len chksum_len src dest =
     inet_cksum_pseudo_partial_base chk h p proto proto_len chksum_len
       (FOLD_U32T (FOLD_U32T (add_words 0 (ip6_interleave src dest))))"

definition ip_chksum_pseudo_partial ::
    "chksum_fn \<Rightarrow> hp \<Rightarrow> nat option \<Rightarrow> u8 \<Rightarrow> u16 \<Rightarrow> u16 \<Rightarrow> ip_addr_t \<Rightarrow> ip_addr_t \<Rightarrow> u16 option" where
  "ip_chksum_pseudo_partial chk h p proto proto_len chksum_len src dest =
     (if IP_IS_V6_VAL dest
      then ip6_chksum_pseudo_partial chk h p proto proto_len chksum_len (ip_2_ip6 src) (ip_2_ip6 dest)
      else inet_chksum_pseudo_partial chk h p proto proto_len chksum_len (ip_2_ip4 src) (ip_2_ip4 dest))"

definition inet_chksum :: "chksum_fn \<Rightarrow> nat \<Rightarrow> u8 list \<Rightarrow> u16" where
  "inet_chksum chk dataptr bs = NOT (chk dataptr bs)"

definition inet_chksum_pbuf :: "chksum_fn \<Rightarrow> hp \<Rightarrow> nat option \<Rightarrow> u16 option" where
  "inet_chksum_pbuf chk h p = do {
     (acc, swapped) \<leftarrow> chksum_chain_loop chk h p 0 False;
     let acc = (if swapped then SWAP_BYTES_IN_WORD acc else acc);
     Some (ucast (NOT (acc AND 0xffff))) }"

section \<open>Sums over concatenated data\<close>

lemma le_sum_append_even: "even (length xs) \<Longrightarrow> le_sum (xs @ ys) = le_sum xs + le_sum ys"
  by (induction xs rule: le_sum.induct) auto

lemma le_sum_append_odd: "odd (length xs) \<Longrightarrow> le_sum (xs @ ys) = le_sum xs + be_sum ys"
  by (induction xs rule: le_sum.induct) (auto simp: le_sum_Cons be_sum_Cons simp del: be_sum.simps(1,2) le_sum.simps(2))

lemma oc_eq_iff: "oc m = oc n \<longleftrightarrow> m mod 65535 = n mod 65535 \<and> (m = 0 \<longleftrightarrow> n = 0)"
  using oc_cong oc_mod oc_eq_0 by metis

lemma oc_oc [simp]: "oc (oc n) = oc n"
  by (simp add: oc_le oc_small)

text \<open>One fold is enough for the sum of two 16-bit values.\<close>

lemma unat_FOLD_once:
  assumes "unat u \<le> 131070"
  shows "unat (FOLD_U32T u) = oc (unat u)"
proof -
  define n where "n = unat u"
  have "n div 65536 + n mod 65536 \<le> 65535"
  proof (cases "n < 65536")
    case False
    then have "n div 65536 = 1" "n mod 65536 = n - 65536" using assms by (auto simp: n_def div_if mod_if)
    then show ?thesis using assms by (simp add: n_def)
  qed simp
  then have "n div 65536 + n mod 65536 = oc (n div 65536 + n mod 65536)" by (simp add: oc_small)
  also have "\<dots> = oc n" using fold_nat_mod fold_nat_0 oc_eq_iff by simp
  finally show ?thesis by (simp add: unat_FOLD n_def)
qed

lemma oc_lin: "0 < k \<Longrightarrow> oc (k * (oc m + y)) = oc (k * (m + y))"
proof -
  assume "0 < k"
  have "(oc m + y) mod 65535 = (m + y) mod 65535" by (metis mod_add_left_eq oc_mod)
  then have "k * (oc m + y) mod 65535 = k * (m + y) mod 65535" by (metis mod_mult_right_eq)
  with \<open>0 < k\<close> show ?thesis by (simp add: oc_eq_iff)
qed

lemma oc_odd:
  "oc ((if b then 256 else 1) * (256 * m + le_sum ys)) = oc ((if b then 1 else 256) * (m + be_sum ys))"
proof (cases b)
  case True
  have "oc (256 * (256 * m + le_sum ys)) = oc (65536 * m + 256 * le_sum ys)" by (simp add: algebra_simps)
  also have "\<dots> = oc (m + 256 * le_sum ys)" by (simp add: oc_eq_iff mod_65536)
  also have "\<dots> = oc (m + be_sum ys)" by (rule oc_add_cong) (simp add: oc_be_le)
  finally show ?thesis using True by simp
next
  case False
  have "oc (256 * m + le_sum ys) = oc (256 * m + 256 * be_sum ys)" by (rule oc_add_cong) (rule oc_le_be)
  with False show ?thesis by (simp add: algebra_simps)
qed

text \<open>The bytes of addresses and of the pseudo headers of RFC 793 and RFC 8200.\<close>

definition ip4_bytes :: "ip4_addr_t \<Rightarrow> u8 list" where
  "ip4_bytes a = map (ip4_addr_get_byte a) [0, 1, 2, 3]"

definition ip6_bytes :: "ip6_addr_t \<Rightarrow> u8 list" where
  "ip6_bytes a = concat (map ip4_bytes (ip6_words a))"

definition be16_bytes :: "u16 \<Rightarrow> u8 list" where
  "be16_bytes n = [ucast (drop_bit 8 n), ucast n]"

definition ip4_pseudo_header :: "ip4_addr_t \<Rightarrow> ip4_addr_t \<Rightarrow> u8 \<Rightarrow> u16 \<Rightarrow> u8 list" where
  "ip4_pseudo_header src dest proto n = ip4_bytes src @ ip4_bytes dest @ [0, proto] @ be16_bytes n"

definition ip6_pseudo_header :: "ip6_addr_t \<Rightarrow> ip6_addr_t \<Rightarrow> u8 \<Rightarrow> u16 \<Rightarrow> u8 list" where
  "ip6_pseudo_header src dest proto n =
     ip6_bytes src @ ip6_bytes dest @ [0, 0] @ be16_bytes n @ [0, 0] @ [0, proto]"

lemma length_ip4_bytes [simp]: "length (ip4_bytes a) = 4"
  by (simp add: ip4_bytes_def)

lemma length_ip6_bytes [simp]: "length (ip6_bytes a) = 16"
  by (simp add: ip6_bytes_def ip6_words_def)

lemma length_be16_bytes [simp]: "length (be16_bytes a) = 2"
  by (simp add: be16_bytes_def)

lemma unat_low_byte: "unat (ucast (w :: 'a::len word) :: u8) = unat w mod 256"
  by (simp add: unat_ucast_mod)

lemma unat_low_half: "unat ((w :: u32) AND 0xffff) + unat (drop_bit 16 w AND 0xffff :: u32) =
    unat w mod 65536 + unat w div 65536"
proof -
  have "unat w div 65536 < 65536" using unat_u32_less [of w] by linarith
  then show ?thesis by (simp add: u32_and_ffff unat_shiftr)
qed

lemma le_sum_ip4_bytes: "le_sum (ip4_bytes w) = unat w mod 65536 + unat w div 65536"
proof -
  have b: "unat (ip4_addr_get_byte w i) = unat w div 2 ^ (8 * i) mod 256" for i
    by (simp add: ip4_addr_get_byte_def unat_low_byte unat_shiftr)
  have "unat w mod 256 + 256 * (unat w div 256 mod 256) = unat w mod 65536"
    using mod_mult2_eq [of "unat w" 256 256] by simp
  moreover have "unat w div 65536 mod 256 + 256 * (unat w div 16777216 mod 256) = unat w div 65536"
  proof -
    have "unat w div 65536 < 65536" using unat_u32_less [of w] by linarith
    then have "unat w div 65536 mod 65536 = unat w div 65536" by simp
    then show ?thesis using mod_mult2_eq [of "unat w div 65536" 256 256] by (simp add: div_mult2_eq [symmetric])
  qed
  ultimately show ?thesis by (simp add: ip4_bytes_def b)
qed

lemma le_sum_be16_bytes: "le_sum (be16_bytes n) = swap_nat (unat n)"
proof -
  have "unat n div 256 < 256" using unat_u16_less [of n] by linarith
  then show ?thesis by (simp add: be16_bytes_def unat_low_byte unat_shiftr swap_nat_def)
qed

lemma le_sum_proto: "le_sum [0, proto] = swap_nat (unat proto)"
  using unat_u8_less [of proto] by (simp add: swap_nat_def div_less mod_less del: unat_u8_less)

lemma add_words_sum:
  "unat acc + 131070 * length ws < 4294967296 \<Longrightarrow>
   unat (add_words acc ws) = unat acc + le_sum (concat (map ip4_bytes ws))"
proof (induction ws arbitrary: acc)
  case (Cons w ws)
  define acc' where "acc' = acc + (w AND 0xffff) + (drop_bit 16 w AND 0xffff)"
  have l: "unat (w AND 0xffff) + unat (drop_bit 16 w AND 0xffff) = le_sum (ip4_bytes w)"
    by (simp add: unat_low_half le_sum_ip4_bytes)
  have "unat w div 65536 \<le> 65535" using unat_u32_less [of w] by linarith
  then have le: "le_sum (ip4_bytes w) \<le> 131070" by (simp add: le_sum_ip4_bytes)
  have "unat acc' = unat acc + le_sum (ip4_bytes w)"
    using Cons.prems l le by (simp add: acc'_def unat_add_small)
  moreover from this have "unat acc' + 131070 * length ws < 4294967296" using Cons.prems le by simp
  ultimately show ?case using Cons.IH [of acc'] by (simp add: acc'_def le_sum_append_even)
qed simp

lemma fold_words:
  "length ws \<le> 32768 \<Longrightarrow>
   unat (FOLD_U32T (FOLD_U32T (add_words 0 ws))) = oc (le_sum (concat (map ip4_bytes ws)))"
  by (simp add: unat_FOLD_FOLD add_words_sum)

lemma unswap:
  assumes "unat acc' = oc ((if b then 256 else 1) * n)"
    and "r = (if b then SWAP_BYTES_IN_WORD acc' else acc')"
  shows "unat r = oc n"
proof (cases b)
  case True
  then have "unat r = swap_nat (oc (256 * n))" using assms oc_le by (simp add: unat_SWAP)
  also have "\<dots> = oc (256 * (256 * n))" by (rule swap_oc)
  also have "\<dots> = oc n" using mod_65536 [of n 0] by (simp add: oc_eq_iff)
  finally show ?thesis .
qed (use assms in simp)

lemma not_low_half: "ucast (NOT ((w :: u32) AND 0xffff)) = (NOT (of_nat (unat w mod 65536)) :: u16)"
proof -
  have "unat (of_nat (unat w mod 65536) :: u16) = unat (ucast w :: u16)"
    by (subst unat_of_nat_u16) (simp_all add: unat_ucast_mod)
  then have "(of_nat (unat w mod 65536) :: u16) = ucast w" by (simp add: word_unat_eq_iff)
  moreover have "ucast (NOT (w AND 0xffff)) = (NOT (ucast w) :: u16)"
  proof (rule bit_word_eqI)
    have m: "(0xffff :: u32) = mask 16" by (simp add: mask_eq_exp_minus_1)
    fix n assume "n < LENGTH(16)"
    then show "bit (ucast (NOT (w AND 0xffff)) :: u16) n = bit (NOT (ucast w) :: u16) n"
      unfolding m by (auto simp: bit_simps)
  qed
  ultimately show ?thesis by simp
qed

lemma pseudo_finish_sum:
  assumes "unat (if swapped then SWAP_BYTES_IN_WORD acc else acc) = oc n"
  shows "pseudo_finish proto proto_len acc swapped =
    NOT (of_nat (oc (n + swap_nat (unat proto) + swap_nat (unat proto_len))))"
proof -
  define r where "r = (if swapped then SWAP_BYTES_IN_WORD acc else acc)"
  define s where "s = r + ucast (lwip_htons (ucast proto)) + ucast (lwip_htons proto_len)"
  have le: "swap_nat (unat proto) \<le> 65535" "swap_nat (unat proto_len) \<le> 65535"
    by (rule swap_nat_le, use unat_u8_le [of proto] in linarith)
       (rule swap_nat_le, use unat_u16_le [of proto_len] in linarith)
  have "unat r = oc n" using assms by (simp add: r_def)
  then have s: "unat s = oc n + swap_nat (unat proto) + swap_nat (unat proto_len)"
    using le oc_le [of n] by (simp add: s_def unat_add_small unat_htons)
  have "unat (FOLD_U32T (FOLD_U32T s)) = oc (oc n + (swap_nat (unat proto) + swap_nat (unat proto_len)))"
    by (simp add: unat_FOLD_FOLD s add.assoc)
  also have "\<dots> = oc (n + swap_nat (unat proto) + swap_nat (unat proto_len))"
    using oc_lin [of 1 n] by (simp add: add.assoc)
  finally have u: "unat (FOLD_U32T (FOLD_U32T s)) = oc (n + swap_nat (unat proto) + swap_nat (unat proto_len))" .
  have "pseudo_finish proto proto_len acc swapped = ucast (NOT (FOLD_U32T (FOLD_U32T s) AND 0xffff))"
    by (simp only: pseudo_finish_def Let_def r_def s_def)
  also have "\<dots> = NOT (of_nat (unat (FOLD_U32T (FOLD_U32T s)) mod 65536))" by (rule not_low_half)
  also have "unat (FOLD_U32T (FOLD_U32T s)) mod 65536 = oc (n + swap_nat (unat proto) + swap_nat (unat proto_len))"
    unfolding u by (rule mod_less, rule le_less_trans, rule oc_le) simp
  finally show ?thesis .
qed

lemma chksum_spec_zero_field:
  assumes "even (length pre)" and c: "c = NOT (chksum_spec (pre @ [0, 0] @ post))"
  shows "chksum_spec (pre @ [ucast c, ucast (drop_bit 8 c)] @ post) = -1"
    and "c = 0 \<Longrightarrow> chksum_spec (pre @ [0xff, 0xff] @ post) = -1"
proof -
  define n where "n = le_sum (pre @ [0, 0] @ post)"
  have n: "n = le_sum pre + le_sum post" using assms(1) by (simp add: n_def le_sum_append_even)
  have c: "c = NOT (of_nat (oc n))" by (simp add: c chksum_spec_def n_def)
  have ocn: "unat (of_nat (oc n) :: u16) = oc n" using oc_le [of n] by (intro unat_of_nat_u16) simp
  have uc: "unat c = 65535 - oc n"
    unfolding c by (simp add: unat_NOT ocn)
  have "unat c div 256 < 256" using unat_u16_less [of c] by linarith
  then have "unat (ucast c :: u8) + 256 * unat (ucast (drop_bit 8 c) :: u8) = unat c"
    by (simp add: unat_low_byte unat_shiftr)
  then have "le_sum (ucast c # ucast (drop_bit 8 c) # post) = (65535 - oc n) + le_sum post"
    using uc by simp
  then have s: "le_sum (pre @ [ucast c, ucast (drop_bit 8 c)] @ post) = n + (65535 - oc n)"
    using assms(1) n by (simp add: le_sum_append_even)
  have "oc (n + (65535 - oc n)) = oc (65535 - oc n + oc n)"
    using oc_lin [of 1 n "65535 - oc n"] by (simp add: add.commute)
  then have "oc (n + (65535 - oc n)) = 65535" using oc_le [of n] by (simp add: oc_small)
  then show "chksum_spec (pre @ [ucast c, ucast (drop_bit 8 c)] @ post) = -1"
    using s by (simp add: chksum_spec_def)
  assume "c = 0"
  then have o: "oc n = 65535" using uc oc_le [of n] by simp
  have "le_sum (pre @ [0xff, 0xff] @ post) = n + 65535"
    using assms(1) n by (simp add: le_sum_append_even)
  moreover have "oc (n + 65535) = oc (65535 + oc n)" using oc_lin [of 1 n 65535] by (simp add: add.commute)
  moreover have "oc (65535 + oc n) = 65535" using o by (simp add: oc_def)
  ultimately show "chksum_spec (pre @ [0xff, 0xff] @ post) = -1" by (simp add: chksum_spec_def)
qed

definition ip_pseudo_header :: "ip_addr_t \<Rightarrow> ip_addr_t \<Rightarrow> u8 \<Rightarrow> u16 \<Rightarrow> u8 list" where
  "ip_pseudo_header src dest proto n =
     (if IP_IS_V6_VAL dest then ip6_pseudo_header (ip_2_ip6 src) (ip_2_ip6 dest) proto n
      else ip4_pseudo_header (ip_2_ip4 src) (ip_2_ip4 dest) proto n)"

lemma even_pseudo_header: "even (length (ip_pseudo_header src dest proto n))"
  by (simp add: ip_pseudo_header_def ip4_pseudo_header_def ip6_pseudo_header_def ip4_bytes_def ip6_bytes_def
      ip6_words_def be16_bytes_def)

section \<open>What the chain functions need of \<^verbatim>\<open>LWIP_CHKSUM\<close>\<close>

locale chksum_routine =
  fixes chk :: chksum_fn
  assumes chk_spec: "length bs \<le> 65535 \<Longrightarrow> chk dataptr bs = chksum_spec bs"
begin

lemma chk_at:
  assumes "load (bytes h) a (unat (n :: u16)) = Some bs"
  shows "LWIP_CHKSUM_at chk h a (unat n) = Some (chksum_spec bs)"
  using assms load_length [OF assms] unat_u16_le [of n] by (simp add: LWIP_CHKSUM_at_def chk_spec)

text \<open>
  A chain that is summed buffer by buffer, swapping at every odd length, gives the sum
  of the bytes as one sequence.
\<close>

lemma chain_loop_sum:
  "packet h q as \<Longrightarrow> unat acc \<le> 65535 \<Longrightarrow>
   \<exists>acc'. chksum_chain_loop chk h q acc sw = Some (acc', sw \<noteq> odd (length (content h as))) \<and>
     unat acc' = oc ((if odd (length (content h as)) then 256 else 1) * (unat acc + le_sum (content h as)))"
proof (induction as arbitrary: q acc sw)
  case Nil
  then show ?case by (subst chksum_chain_loop.simps) (simp add: oc_small)
next
  case (Cons a as)
  from Cons.prems(1) obtain b where b: "q = Some a" "pbufs h a = Some b"
    and ld: "load (bytes h) (pb_payload b) (unat (pb_len b)) = Some (pb_bytes h a)"
    and ln: "length (pb_bytes h a) = unat (pb_len b)" and nx: "packet h (pb_next b) as" by (rule packet_Cons_D)
  define xs ys where "xs = pb_bytes h a" and "ys = content h as"
  define acc1 where "acc1 = FOLD_U32T (acc + ucast (chksum_spec xs))"
  have s: "unat (acc + ucast (chksum_spec xs)) = unat acc + oc (le_sum xs)"
    using Cons.prems(2) oc_le [of "le_sum xs"] by (simp add: unat_add_small unat_chksum_spec)
  have "unat acc1 = oc (unat acc + oc (le_sum xs))"
    unfolding acc1_def s [symmetric] by (rule unat_FOLD_once) (use s Cons.prems(2) oc_le [of "le_sum xs"] in simp)
  also have "\<dots> = oc (unat acc + le_sum xs)" by (rule oc_add_cong) simp
  finally have a1: "unat acc1 = oc (unat acc + le_sum xs)" .
  have odd_len: "pb_len b mod 2 \<noteq> 0 \<longleftrightarrow> odd (length xs)"
    using ln by (simp add: xs_def word_unat_eq_iff unat_mod odd_iff_mod_2_eq_one)
  show ?case
  proof (cases "odd (length xs)")
    case False
    have le1: "unat acc1 \<le> 65535" using a1 oc_le by simp
    from Cons.IH [OF nx le1, of sw] obtain acc' where IH:
      "chksum_chain_loop chk h (pb_next b) acc1 sw = Some (acc', sw \<noteq> odd (length ys))"
      "unat acc' = oc ((if odd (length ys) then 256 else 1) * (unat acc1 + le_sum ys))" by (auto simp: ys_def)
    have "oc ((if odd (length ys) then 256 else 1) * (unat acc1 + le_sum ys)) =
        oc ((if odd (length ys) then 256 else 1) * (unat acc + le_sum (xs @ ys)))"
      unfolding a1 using False by (subst oc_lin) (simp_all add: le_sum_append_even add.assoc)
    then show ?thesis using IH b chk_at [OF ld] False odd_len
      by (subst chksum_chain_loop.simps) (simp add: Let_def acc1_def flip: xs_def ys_def)
  next
    case True
    define acc2 where "acc2 = SWAP_BYTES_IN_WORD acc1"
    have a2: "unat acc2 = oc (256 * (unat acc + le_sum xs))"
      using a1 oc_le by (simp add: acc2_def unat_SWAP swap_oc)
    then have le2: "unat acc2 \<le> 65535" using oc_le by simp
    from Cons.IH [OF nx le2, of "\<not> sw"] obtain acc' where IH:
      "chksum_chain_loop chk h (pb_next b) acc2 (\<not> sw) = Some (acc', (\<not> sw) \<noteq> odd (length ys))"
      "unat acc' = oc ((if odd (length ys) then 256 else 1) * (unat acc2 + le_sum ys))" by (auto simp: ys_def)
    have "oc ((if odd (length ys) then 256 else 1) * (unat acc2 + le_sum ys)) =
        oc ((if odd (length (xs @ ys)) then 256 else 1) * (unat acc + le_sum (xs @ ys)))"
      unfolding a2 using oc_odd [of "odd (length ys)" "unat acc + le_sum xs" ys] True
      by (subst oc_lin) (simp_all add: le_sum_append_odd add.assoc)
    then show ?thesis using IH b chk_at [OF ld] True odd_len
      by (subst chksum_chain_loop.simps) (auto simp add: Let_def acc1_def acc2_def simp flip: xs_def ys_def)
  qed
qed

lemma inet_chksum_pbuf_sum:
  assumes "packet h p as"
  shows "inet_chksum_pbuf chk h p = Some (NOT (chksum_spec (content h as)))"
proof -
  obtain acc' where l: "chksum_chain_loop chk h p 0 False = Some (acc', odd (length (content h as)))"
    "unat acc' = oc ((if odd (length (content h as)) then 256 else 1) * le_sum (content h as))"
    using chain_loop_sum [OF assms, of 0 False] by auto
  define r where "r = (if odd (length (content h as)) then SWAP_BYTES_IN_WORD acc' else acc')"
  have "unat r = oc (le_sum (content h as))" using l(2) by (rule unswap) (simp add: r_def)
  moreover have "oc (le_sum (content h as)) < 65536" using oc_le [of "le_sum (content h as)"] by simp
  ultimately have "ucast (NOT (r AND 0xffff)) = (NOT (chksum_spec (content h as)) :: u16)"
    unfolding not_low_half by (simp add: chksum_spec_def)
  then show ?thesis using l(1) unfolding inet_chksum_pbuf_def by (simp add: Let_def r_def)
qed

lemma pseudo_base_sum:
  assumes "packet h p as" and "unat acc \<le> 65535"
  shows "inet_cksum_pseudo_base chk h p proto proto_len acc =
    Some (NOT (of_nat (oc (unat acc + le_sum (content h as) + swap_nat (unat proto) + swap_nat (unat proto_len)))))"
proof -
  obtain acc' where l: "chksum_chain_loop chk h p acc False = Some (acc', odd (length (content h as)))"
    "unat acc' = oc ((if odd (length (content h as)) then 256 else 1) * (unat acc + le_sum (content h as)))"
    using chain_loop_sum [OF assms, of False] by auto
  define r where "r = (if odd (length (content h as)) then SWAP_BYTES_IN_WORD acc' else acc')"
  have "unat r = oc (unat acc + le_sum (content h as))" using l(2) by (rule unswap) (simp add: r_def)
  then have "pseudo_finish proto proto_len acc' (odd (length (content h as))) =
      NOT (of_nat (oc (unat acc + le_sum (content h as) + swap_nat (unat proto) + swap_nat (unat proto_len))))"
    unfolding r_def by (rule pseudo_finish_sum)
  then show ?thesis using l(1) by (simp add: inet_cksum_pseudo_base_def)
qed

text \<open>The IPv4 pseudo header as RFC 793 draws it, in front of the data.\<close>

lemma inet_chksum_pseudo_bytes:
  assumes "packet h p as"
  shows "inet_chksum_pseudo chk h p proto proto_len src dest =
    Some (NOT (chksum_spec (ip4_pseudo_header src dest proto proto_len @ content h as)))"
proof -
  have a: "unat (FOLD_U32T (FOLD_U32T (add_words 0 [src, dest]))) = oc (le_sum (ip4_bytes src @ ip4_bytes dest))"
    using fold_words [of "[src, dest]"] by simp
  have b: "unat (FOLD_U32T (FOLD_U32T (add_words 0 [src, dest]))) \<le> 65535" unfolding a by (rule oc_le)
  define n where "n = le_sum (ip4_bytes src @ ip4_bytes dest)"
  have "oc (oc n + le_sum (content h as) + swap_nat (unat proto) + swap_nat (unat proto_len)) =
      oc (n + (le_sum (content h as) + swap_nat (unat proto) + swap_nat (unat proto_len)))"
    using oc_lin [of 1 n] by (simp add: add.assoc)
  also have "n + (le_sum (content h as) + swap_nat (unat proto) + swap_nat (unat proto_len)) =
      le_sum (ip4_pseudo_header src dest proto proto_len @ content h as)"
    unfolding ip4_pseudo_header_def append_assoc n_def
    by (simp only: le_sum_append_even length_ip4_bytes length_be16_bytes le_sum_be16_bytes list.size
        even_numeral flip: le_sum_proto) (simp add: le_sum_append_even le_sum_be16_bytes)
  finally show ?thesis unfolding inet_chksum_pseudo_def pseudo_base_sum [OF assms b] unfolding a
    by (simp add: chksum_spec_def n_def)
qed

lemma ip6_chksum_pseudo_bytes:
  assumes "packet h p as"
  shows "ip6_chksum_pseudo chk h p proto proto_len src dest =
    Some (NOT (chksum_spec (ip6_pseudo_header src dest proto proto_len @ content h as)))"
proof -
  define ws where "ws = ip6_interleave src dest"
  define n where "n = le_sum (ip6_bytes src) + le_sum (ip6_bytes dest)"
  have "le_sum (concat (map ip4_bytes ws)) = n"
    by (simp add: ws_def ip6_interleave_def ip6_words_def n_def ip6_bytes_def le_sum_append_even)
  then have a: "unat (FOLD_U32T (FOLD_U32T (add_words 0 ws))) = oc n"
    using fold_words [of ws] by (simp add: ws_def ip6_interleave_def ip6_words_def)
  have b: "unat (FOLD_U32T (FOLD_U32T (add_words 0 ws))) \<le> 65535" unfolding a by (rule oc_le)
  have "oc (oc n + le_sum (content h as) + swap_nat (unat proto) + swap_nat (unat proto_len)) =
      oc (n + (le_sum (content h as) + swap_nat (unat proto) + swap_nat (unat proto_len)))"
    using oc_lin [of 1 n] by (simp add: add.assoc)
  also have "n + (le_sum (content h as) + swap_nat (unat proto) + swap_nat (unat proto_len)) =
      le_sum (ip6_pseudo_header src dest proto proto_len @ content h as)"
    unfolding ip6_pseudo_header_def append_assoc n_def
    by (simp add: le_sum_append_even le_sum_be16_bytes flip: le_sum_proto)
  finally show ?thesis unfolding ip6_chksum_pseudo_def pseudo_base_sum [OF assms b [unfolded ws_def]]
    unfolding a [unfolded ws_def] by (simp add: chksum_spec_def)
qed

text \<open>The partial sum stops where \<^verbatim>\<open>chksum_len\<close> ends, if few bytes remain at each step.\<close>

lemma partial_loop_sum:
  "packet h q as \<Longrightarrow> unat acc \<le> 65535 \<Longrightarrow> unat n < 0x7fff \<Longrightarrow>
   \<exists>acc' sw'. chksum_partial_loop chk h q n acc sw = Some (acc', sw') \<and>
     unat acc' = oc ((if sw' \<noteq> sw then 256 else 1) * (unat acc + le_sum (take (unat n) (content h as))))"
proof (induction as arbitrary: q acc sw n)
  case Nil
  then show ?case by (subst chksum_partial_loop.simps) (auto simp: oc_small)
next
  case (Cons a as)
  from Cons.prems(1) obtain b where b: "q = Some a" "pbufs h a = Some b"
    and ld: "load (bytes h) (pb_payload b) (unat (pb_len b)) = Some (pb_bytes h a)"
    and ln: "length (pb_bytes h a) = unat (pb_len b)" and nx: "packet h (pb_next b) as" by (rule packet_Cons_D)
  show ?case
  proof (cases "n = 0")
    case True
    then show ?thesis using Cons.prems(2) b by (subst chksum_partial_loop.simps) (auto simp: oc_small)
  next
    case False
    define k where "k = (if pb_len b > n then n else pb_len b)"
    define xs where "xs = take (unat k) (pb_bytes h a)"
    define ys where "ys = take (unat (n - k)) (content h as)"
    have k: "unat k = min (unat (pb_len b)) (unat n)" by (simp add: k_def word_less_nat_alt min_def)
    then have nk: "unat (n - k) = unat n - unat k" by (simp add: unat_sub_le)
    have tk: "take (unat n) (content h (a # as)) = xs @ ys"
      using k nk ln by (simp add: xs_def ys_def min_def)
    have "load (bytes h) (pb_payload b) (unat k) = Some xs"
      using load_slice [OF ld, of 0 "unat k"] k by (simp add: xs_def)
    note ck = chk_at [OF this]
    define acc1 where "acc1 = FOLD_U32T (acc + ucast (chksum_spec xs))"
    have s: "unat (acc + ucast (chksum_spec xs)) = unat acc + oc (le_sum xs)"
      using Cons.prems(2) oc_le [of "le_sum xs"] by (simp add: unat_add_small unat_chksum_spec)
    have "unat acc1 = oc (unat acc + oc (le_sum xs))"
      unfolding acc1_def s [symmetric] by (rule unat_FOLD_once) (use s Cons.prems(2) oc_le [of "le_sum xs"] in simp)
    also have "\<dots> = oc (unat acc + le_sum xs)" by (rule oc_add_cong) simp
    finally have a1: "unat acc1 = oc (unat acc + le_sum xs)" .
    have as: "n - k < 0x7fff" using nk Cons.prems(3) by (simp add: word_less_nat_alt)
    have small: "unat (n - k) < 0x7fff" using nk Cons.prems(3) by simp
    have cut: "ys = []" if "unat k < unat (pb_len b)" using that k nk by (auto simp: ys_def min_def split: if_splits)
    have par: "pb_len b mod 2 \<noteq> 0 \<longleftrightarrow> odd (unat (pb_len b))"
      by (simp add: word_unat_eq_iff unat_mod odd_iff_mod_2_eq_one)
    have lx: "length xs = unat k" using k ln by (simp add: xs_def)
    have sum: "le_sum (xs @ ys) = le_sum xs + (if odd (unat (pb_len b)) then be_sum ys else le_sum ys)"
    proof (cases "unat k < unat (pb_len b)")
      case True
      then show ?thesis using cut by simp
    next
      case False
      then have "unat k = unat (pb_len b)" using k by simp
      then show ?thesis using lx by (simp add: le_sum_append_even le_sum_append_odd)
    qed
    have step: "chksum_partial_loop chk h q n acc sw =
       (if pb_len b mod 2 \<noteq> 0
        then chksum_partial_loop chk h (pb_next b) (n - k) (SWAP_BYTES_IN_WORD acc1) (\<not> sw)
        else chksum_partial_loop chk h (pb_next b) (n - k) acc1 sw)"
      using False b ck as by (subst chksum_partial_loop.simps) (simp add: Let_def acc1_def flip: k_def)
    show ?thesis
    proof (cases "odd (unat (pb_len b))")
      case False
      have "unat acc1 \<le> 65535" using a1 oc_le by simp
      from Cons.IH [OF nx this small, of sw] obtain acc' sw' where IH:
        "chksum_partial_loop chk h (pb_next b) (n - k) acc1 sw = Some (acc', sw')"
        "unat acc' = oc ((if sw' \<noteq> sw then 256 else 1) * (unat acc1 + le_sum ys))" by (auto simp: ys_def)
      have "unat acc' = oc ((if sw' \<noteq> sw then 256 else 1) * (unat acc + le_sum (xs @ ys)))"
        unfolding IH(2) a1 sum using False by (subst oc_lin) (simp_all add: add.assoc)
      then show ?thesis using step IH(1) par False tk by auto
    next
      case True
      define acc2 where "acc2 = SWAP_BYTES_IN_WORD acc1"
      have a2: "unat acc2 = oc (256 * (unat acc + le_sum xs))"
        using a1 oc_le by (simp add: acc2_def unat_SWAP swap_oc)
      then have "unat acc2 \<le> 65535" using oc_le by simp
      from Cons.IH [OF nx this small, of "\<not> sw"] obtain acc' sw' where IH:
        "chksum_partial_loop chk h (pb_next b) (n - k) acc2 (\<not> sw) = Some (acc', sw')"
        "unat acc' = oc ((if sw' \<noteq> (\<not> sw) then 256 else 1) * (unat acc2 + le_sum ys))" by (auto simp: ys_def)
      have "unat acc' = oc ((if sw' \<noteq> sw then 256 else 1) * (unat acc + le_sum (xs @ ys)))"
        unfolding IH(2) a2 sum using True oc_odd [of "sw' \<noteq> (\<not> sw)" "unat acc + le_sum xs" ys]
        by (subst oc_lin) (auto simp add: add.assoc)
      then show ?thesis using step IH(1) par True tk by (auto simp: acc2_def)
    qed
  qed
qed

lemma pseudo_partial_base_sum:
  assumes "packet h p as" and "unat acc \<le> 65535" and "unat n < 0x7fff"
  shows "inet_cksum_pseudo_partial_base chk h p proto proto_len n acc =
    Some (NOT (of_nat (oc (unat acc + le_sum (take (unat n) (content h as)) + swap_nat (unat proto) + swap_nat (unat proto_len)))))"
proof -
  obtain acc' sw' where l: "chksum_partial_loop chk h p n acc False = Some (acc', sw')"
    "unat acc' = oc ((if sw' then 256 else 1) * (unat acc + le_sum (take (unat n) (content h as))))"
    using partial_loop_sum [OF assms, of False] by auto
  define r where "r = (if sw' then SWAP_BYTES_IN_WORD acc' else acc')"
  have "unat r = oc (unat acc + le_sum (take (unat n) (content h as)))" using l(2) by (rule unswap) (simp add: r_def)
  then have "pseudo_finish proto proto_len acc' sw' =
      NOT (of_nat (oc (unat acc + le_sum (take (unat n) (content h as)) + swap_nat (unat proto) + swap_nat (unat proto_len))))"
    unfolding r_def by (rule pseudo_finish_sum)
  then show ?thesis using l(1) by (simp add: inet_cksum_pseudo_partial_base_def)
qed

lemma inet_chksum_zero_field:
  assumes "even (length pre)" and "length pre + 2 + length post \<le> 65535"
    and c: "c = inet_chksum chk a (pre @ [0, 0] @ post)"
  shows "inet_chksum chk a (pre @ [ucast c, ucast (drop_bit 8 c)] @ post) = 0"
  using assms chksum_spec_zero_field [of pre c post] by (simp add: inet_chksum_def chk_spec)

lemma ip_chksum_pseudo_bytes:
  "packet h p as \<Longrightarrow> ip_chksum_pseudo chk h p proto proto_len src dest =
    Some (NOT (chksum_spec (ip_pseudo_header src dest proto proto_len @ content h as)))"
  by (simp add: ip_chksum_pseudo_def ip_pseudo_header_def inet_chksum_pseudo_bytes ip6_chksum_pseudo_bytes)

end

interpretation v1: chksum_routine lwip_standard_chksum_1
  by unfold_locales (simp add: lwip_standard_chksum_1_value)

interpretation v2: chksum_routine lwip_standard_chksum_2
  by unfold_locales (simp add: lwip_standard_chksum_2_value)

interpretation v3: chksum_routine lwip_standard_chksum_3
  by unfold_locales (simp add: lwip_standard_chksum_3_value)

end
