(* ===== verification/Wire.thy ===== *)
theory Wire imports Inet_chksum begin

text \<open>
  Fields of protocol headers in byte memory. A field of two or four bytes is read and
  written in host order (little endian); \<^verbatim>\<open>lwip_ntohs\<close> and \<^verbatim>\<open>lwip_ntohl\<close>
  bring it from and to network order.
\<close>

definition ld_u8 :: "hp \<Rightarrow> nat \<Rightarrow> u8 option" where
  "ld_u8 h a = bytes h a"

definition ld_u16 :: "hp \<Rightarrow> nat \<Rightarrow> u16 option" where
  "ld_u16 h a = do { b0 \<leftarrow> bytes h a; b1 \<leftarrow> bytes h (a + 1); Some (ld16 b0 b1) }"

definition ld_u32 :: "hp \<Rightarrow> nat \<Rightarrow> u32 option" where
  "ld_u32 h a = do { b0 \<leftarrow> bytes h a; b1 \<leftarrow> bytes h (a + 1); b2 \<leftarrow> bytes h (a + 2); b3 \<leftarrow> bytes h (a + 3);
     Some (ld32 b0 b1 b2 b3) }"

definition st_bytes :: "hp \<Rightarrow> nat \<Rightarrow> u8 list \<Rightarrow> hp option" where
  "st_bytes h a bs = do { m \<leftarrow> store (bytes h) a bs; Some (h\<lparr>bytes := m\<rparr>) }"

definition u16_bytes :: "u16 \<Rightarrow> u8 list" where
  "u16_bytes x = [ucast x, ucast (drop_bit 8 x)]"

definition u32_bytes :: "u32 \<Rightarrow> u8 list" where
  "u32_bytes x = [ucast x, ucast (drop_bit 8 x), ucast (drop_bit 16 x), ucast (drop_bit 24 x)]"

definition st_u16 :: "hp \<Rightarrow> nat \<Rightarrow> u16 \<Rightarrow> hp option" where
  "st_u16 h a x = st_bytes h a (u16_bytes x)"

definition st_u32 :: "hp \<Rightarrow> nat \<Rightarrow> u32 \<Rightarrow> hp option" where
  "st_u32 h a x = st_bytes h a (u32_bytes x)"

definition lwip_ntohs :: "u16 \<Rightarrow> u16" where
  "lwip_ntohs x = lwip_htons x"

definition lwip_ntohl :: "u32 \<Rightarrow> u32" where
  "lwip_ntohl x = lwip_htonl x"

text \<open>A field of network order, as the two bytes of the wire.\<close>

definition be16 :: "u8 \<Rightarrow> u8 \<Rightarrow> u16" where
  "be16 a b = ucast b OR push_bit 8 (ucast a)"

lemma htons_bits: "lwip_htons x = push_bit 8 x OR drop_bit 8 x"
proof -
  have m: "(0x00FF :: u16) = mask 8" "(0xFF00 :: u16) = push_bit 8 (mask 8)"
    by (simp_all add: mask_eq_exp_minus_1)
  show ?thesis
    by (rule bit_word_eqI) (auto simp: lwip_htons_def m bit_simps dest: bit_u16)
qed

lemma ntohs_ld16 [simp]: "lwip_ntohs (ld16 a b) = be16 a b"
  by (rule bit_word_eqI)
     (auto simp: lwip_ntohs_def htons_bits ld16_def be16_def bit_simps dest: bit_u8)

lemma htons_htons [simp]: "lwip_htons (lwip_htons x) = x"
  by (rule bit_word_eqI) (auto simp: htons_bits bit_simps dest: bit_u16)

lemma u16_bytes_htons: "u16_bytes (lwip_htons x) = be16_bytes x"
proof -
  have "ucast (lwip_htons x) = (ucast (drop_bit 8 x) :: u8)" "ucast (drop_bit 8 (lwip_htons x)) = (ucast x :: u8)"
    by (rule bit_word_eqI, auto simp: htons_bits bit_simps dest: bit_u16)+
  then show ?thesis by (simp add: u16_bytes_def be16_bytes_def)
qed

lemma ld16_u16_bytes: "ld16 (ucast x) (ucast (drop_bit 8 x)) = x"
  by (rule bit_word_eqI) (auto simp: ld16_def bit_simps dest: bit_u16)

lemma ld_u16_eq_Some: "ld_u16 h a = Some x \<longleftrightarrow> (\<exists>b0 b1. bytes h a = Some b0 \<and> bytes h (a + 1) = Some b1 \<and> x = ld16 b0 b1)"
  by (auto simp: ld_u16_def bind_eq_Some_conv)

lemma ld_u16_load:
  "load (bytes h) a n = Some bs \<Longrightarrow> i + 1 < n \<Longrightarrow> ld_u16 h (a + i) = Some (ld16 (bs ! i) (bs ! (i + 1)))"
  using load_nth [of "bytes h" a n bs i] load_nth [of "bytes h" a n bs "i + 1"] by (simp add: ld_u16_def)

lemma ld_u16_load0:
  "load (bytes h) a n = Some bs \<Longrightarrow> 1 < n \<Longrightarrow> ld_u16 h a = Some (ld16 (bs ! 0) (bs ! 1))"
  using ld_u16_load [of h a n bs 0] by simp

lemma st_bytes_within:
  "load (bytes h) a n = Some bs \<Longrightarrow> i + length cs \<le> n \<Longrightarrow>
   st_bytes h (a + i) cs = Some (h\<lparr>bytes := put_bytes (bytes h) (a + i) cs\<rparr>)"
  by (simp add: st_bytes_def store_within)

lemma NOT_eq_0 [simp]: "NOT (x :: 'a::len word) = 0 \<longleftrightarrow> x = -1"
proof
  assume "NOT x = 0"
  then have "NOT (NOT x) = NOT 0" by (rule arg_cong)
  then show "x = -1" by simp
qed simp

text \<open>A field written inside the first buffer of a packet.\<close>

lemma length_u16_bytes [simp]: "length (u16_bytes x) = 2"
  by (simp add: u16_bytes_def)

lemma length_u32_bytes [simp]: "length (u32_bytes x) = 4"
  by (simp add: u32_bytes_def)

lemma st_bytes_packet:
  assumes ok: "hp_ok h" and pk: "packet h (Some q) (q # as)" and own: "own_chain h (q # as)"
    and q: "pbufs h q = Some qb" and k: "k + length cs \<le> length (pb_bytes h q)"
  shows "\<exists>h'. st_bytes h (pb_payload qb + k) cs = Some h' \<and> hp_ok h' \<and> packet h' (Some q) (q # as) \<and>
    own_chain h' (q # as) \<and> pbufs h' = pbufs h \<and> blocks h' = blocks h \<and>
    length (pb_bytes h' q) = length (pb_bytes h q) \<and>
    content h' (q # as) = take k (content h (q # as)) @ cs @ drop (k + length cs) (content h (q # as))"
proof -
  let ?h = "set_bytes h (pb_payload qb + k) cs"
  note w = write_one [of h "Some q" "[]" q as qb k cs, simplified append_Nil, OF ok pk own q k]
  have "st_bytes h (pb_payload qb + k) cs = Some ?h" using w by (simp add: st_bytes_def set_bytes_def)
  moreover have "content ?h (q # as) = take k (content h (q # as)) @ cs @ drop (k + length cs) (content h (q # as))"
    using w k by simp
  moreover have "length (pb_bytes ?h q) = length (pb_bytes h q)" using w k by simp
  ultimately show ?thesis using w hp_ok_set_bytes [OF ok] own by (intro exI [of _ ?h]) (simp del: content.simps)
qed

lemma packet_upd_flags:
  assumes pk: "packet h (Some q) (q # as)"
  shows "packet (upd_pbuf h q (\<lambda>b. b\<lparr>pb_flags := f b\<rparr>)) (Some q) (q # as) \<and>
    content (upd_pbuf h q (\<lambda>b. b\<lparr>pb_flags := f b\<rparr>)) (q # as) = content h (q # as) \<and>
    pb_bytes (upd_pbuf h q (\<lambda>b. b\<lparr>pb_flags := f b\<rparr>)) q = pb_bytes h q"
proof -
  let ?h = "upd_pbuf h q (\<lambda>b. b\<lparr>pb_flags := f b\<rparr>)"
  obtain qb where qb: "pbufs h q = Some qb" "packet h (pb_next qb) as" using pk by (auto elim: packet_Cons_D)
  have fr: "packet ?h (pb_next qb) as \<and> content ?h as = content h as"
    by (rule packet_same [OF qb(2)]) (use packet_distinct [OF pk] in auto)
  have "pb_bytes ?h q = pb_bytes h q" using qb by (simp add: pb_bytes_def)
  then show ?thesis using fr pk qb by (simp add: packet.simps(2))
qed

end
