(* ===== verification/Ports.thy ===== *)
theory Ports imports Prelude begin

text \<open>
  The search for a free local port, \<^verbatim>\<open>udp_new_port\<close> of \<^verbatim>\<open>udp.c\<close> and
  \<^verbatim>\<open>tcp_new_port\<close> of \<^verbatim>\<open>tcp.c\<close>. The control blocks enter with the
  ports they are bound to. Both searches share the locale \<open>port_search\<close>, whose laws
  are the loop they run and the cycle of ports they step through.
\<close>

section \<open>The searches\<close>

text \<open>The loop gives the port (0 when there is none) and the new value of the
  counter \<^verbatim>\<open>udp_port\<close>.\<close>

definition udp_next_port :: "u16 \<Rightarrow> u16" where
  "udp_next_port udp_port = (if udp_port = 0xffff then 0xc000 else udp_port + 1)"

function udp_new_port_loop :: "u16 list \<Rightarrow> u16 \<Rightarrow> u16 \<Rightarrow> u16 \<times> u16" where
  "udp_new_port_loop ports udp_port n =
     (let udp_port = udp_next_port udp_port
      in if udp_port \<in> set ports
         then (if n + 1 > 0xffff - 0xc000 then (0, udp_port) else udp_new_port_loop ports udp_port (n + 1))
         else (udp_port, udp_port))"
  by pat_completeness auto
termination
  by (relation "measure (\<lambda>(ports, udp_port, n). 0x10000 - unat (n + 1))")
     (auto simp: word_less_nat_alt word_le_nat_alt not_less unat_word_ariths)

definition udp_new_port_from :: "u16 list \<Rightarrow> u16 \<Rightarrow> u16 \<times> u16" where
  "udp_new_port_from ports udp_port = udp_new_port_loop ports udp_port 0"

definition tcp_next_port :: "u16 \<Rightarrow> u16" where
  "tcp_next_port tcp_port = (if tcp_port + 1 = 0xffff then 0xc000 else tcp_port + 1)"

function tcp_new_port_loop :: "u16 list \<Rightarrow> u16 \<Rightarrow> u16 \<Rightarrow> u16 \<times> u16" where
  "tcp_new_port_loop ports tcp_port n =
     (let tcp_port = tcp_next_port tcp_port
      in if tcp_port \<in> set ports
         then (if n + 1 > 0xffff - 0xc000 then (0, tcp_port) else tcp_new_port_loop ports tcp_port (n + 1))
         else (tcp_port, tcp_port))"
  by pat_completeness auto
termination
  by (relation "measure (\<lambda>(ports, tcp_port, n). 0x10000 - unat (n + 1))")
     (auto simp: word_less_nat_alt word_le_nat_alt not_less unat_word_ariths)

definition tcp_new_port_from :: "u16 list \<Rightarrow> u16 \<Rightarrow> u16 \<times> u16" where
  "tcp_new_port_from ports tcp_port = tcp_new_port_loop ports tcp_port 0"

text \<open>\<^verbatim>\<open>LWIP_RAND\<close> sets the counters to start from.\<close>

definition ENSURE_LOCAL_PORT_RANGE :: "u16 \<Rightarrow> u16" where
  "ENSURE_LOCAL_PORT_RANGE port = (port AND NOT 0xc000) + 0xc000"

declare udp_new_port_loop.simps [simp del] tcp_new_port_loop.simps [simp del]

section \<open>What a search finds\<close>

text \<open>\<open>idx\<close> numbers the \<open>N\<close> ports of the cycle; the loop gives up after \<open>0x4000\<close>
  ports in use.\<close>

locale port_search =
  fixes step :: "u16 \<Rightarrow> u16" and loop :: "u16 list \<Rightarrow> u16 \<Rightarrow> u16 \<Rightarrow> u16 \<times> u16"
    and range :: "u16 set" and idx :: "u16 \<Rightarrow> nat" and N :: nat
  assumes loop_rec: "loop ports p n =
      (if step p \<in> set ports
       then (if n + 1 > 0x3fff then (0, step p) else loop ports (step p) (n + 1))
       else (step p, step p))"
    and step_range: "p \<in> range \<Longrightarrow> step p \<in> range"
    and zero_out: "0 \<notin> range"
    and idx_step: "p \<in> range \<Longrightarrow> idx (step p) = Suc (idx p) mod N"
    and idx_inj: "inj_on idx range"
    and idx_less: "p \<in> range \<Longrightarrow> idx p < N"
    and N_le: "N \<le> 0x4000"
begin

lemma loop_free:
  assumes "p \<in> range" and "n \<le> 0x3fff"
  shows "loop ports p n = (r, p') \<Longrightarrow> p' \<in> range \<and> (r \<noteq> 0 \<longrightarrow> r = p' \<and> r \<in> range \<and> r \<notin> set ports)"
  using assms
proof (induction "0x4000 - unat n" arbitrary: p n rule: less_induct)
  case less
  have s: "step p \<in> range" using step_range less.prems(2) .
  show ?case
  proof (cases "step p \<in> set ports \<and> \<not> n + 1 > 0x3fff")
    case True
    then have le: "n + 1 \<le> 0x3fff" by (simp only: not_less)
    have n: "unat (n + 1) = unat n + 1" "unat n \<le> 0x3fff"
      using less.prems(3) by (simp_all add: unat_add_small word_le_nat_alt)
    have "loop ports (step p) (n + 1) = (r, p')" using less.prems(1) True by (subst (asm) loop_rec) simp
    then show ?thesis using less.hyps [OF _ _ s le] n by simp
  next
    case False
    then show ?thesis using less.prems(1) s zero_out by (subst (asm) loop_rec) (auto split: if_splits)
  qed
qed

lemma idx_iter: "p \<in> range \<Longrightarrow> (step ^^ k) p \<in> range \<and> idx ((step ^^ k) p) = (idx p + k) mod N"
proof (induction k)
  case 0
  then show ?case using idx_less [of p] by simp
next
  case (Suc k)
  then have r: "(step ^^ k) p \<in> range" and i: "idx ((step ^^ k) p) = (idx p + k) mod N" by simp_all
  have "idx (step ((step ^^ k) p)) = Suc (idx p + k) mod N" using idx_step [OF r] i by (simp add: mod_Suc_eq)
  then show ?case using step_range [OF r] by simp
qed

text \<open>Steps reach every port of the cycle.\<close>

lemma reach:
  assumes "p \<in> range" and "q \<in> range"
  shows "\<exists>k. 0 < k \<and> k \<le> N \<and> (step ^^ k) p = q"
proof -
  define k where "k = (if idx p < idx q then idx q - idx p else N + idx q - idx p)"
  have l: "idx p < N" "idx q < N" using idx_less assms by auto
  have k: "0 < k" "k \<le> N" "(idx p + k) mod N = idx q" using l by (auto simp: k_def)
  then have "idx ((step ^^ k) p) = idx q" using idx_iter [OF assms(1)] by simp
  then have "(step ^^ k) p = q" using idx_inj idx_iter [OF assms(1)] assms(2) by (auto simp: inj_on_def)
  with k show ?thesis by blast
qed

lemma loop_zero_used:
  assumes "p \<in> range" and "n \<le> 0x3fff"
  shows "loop ports p n = (0, p') \<Longrightarrow> 0 < k \<Longrightarrow> unat n + k \<le> 0x4000 \<Longrightarrow> (step ^^ k) p \<in> set ports"
  using assms
proof (induction "0x4000 - unat n" arbitrary: p n k rule: less_induct)
  case less
  have s: "step p \<in> range" using step_range less.prems(4) .
  then have used: "step p \<in> set ports" using less.prems(1) zero_out
    by (subst (asm) loop_rec) (auto split: if_splits)
  have n: "unat (n + 1) = unat n + 1" "unat n \<le> 0x3fff"
    using less.prems(5) by (simp_all add: unat_add_small word_le_nat_alt)
  show ?case
  proof (cases "k = 1")
    case True
    then show ?thesis using used by simp
  next
    case False
    then obtain j where j: "k = Suc j" "0 < j" using less.prems(2) by (cases k) auto
    have le: "n + 1 \<le> 0x3fff" using less.prems(3) j n by (simp add: word_le_nat_alt)
    then have "loop ports (step p) (n + 1) = (0, p')" using less.prems(1) used leD [OF le]
      by (subst (asm) loop_rec) simp
    then have "(step ^^ j) (step p) \<in> set ports"
      using less.hyps [OF _ _ j(2) _ s le] less.prems(3) n j by simp
    then show ?thesis using j by (simp add: funpow_swap1)
  qed
qed

text \<open>The search fails exactly when every port of the range is in use.\<close>

lemma search_fails_iff:
  assumes "p \<in> range" and "loop ports p 0 = (r, p')"
  shows "r = 0 \<longleftrightarrow> range \<subseteq> set ports"
proof
  assume r: "r = 0"
  show "range \<subseteq> set ports"
  proof
    fix q assume "q \<in> range"
    then obtain k where k: "0 < k" "k \<le> N" "(step ^^ k) p = q" using reach [OF assms(1)] by blast
    then show "q \<in> set ports"
      using loop_zero_used [OF assms(1), of 0 ports p' k] assms(2) r N_le by simp
  qed
next
  assume "range \<subseteq> set ports"
  then show "r = 0" using loop_free [OF assms(1) _ assms(2)] by auto
qed

end

text \<open>UDP goes round 0xc000 to 0xffff, TCP round 0xc000 to 0xfffe.\<close>

lemma udp_idx_step: "0xc000 \<le> p \<Longrightarrow> unat (udp_next_port p) - 0xc000 = Suc (unat p - 0xc000) mod 0x4000 \<and> 0xc000 \<le> udp_next_port p"
proof (cases "p = 0xffff")
  case False
  assume le: "0xc000 \<le> p"
  have "unat p \<noteq> 0xffff" using False by (simp add: word_unat_eq_iff)
  then have "unat p < 0xffff" using unat_u16_less [of p] by linarith
  then have "unat (p + 1) = unat p + 1" by (simp add: unat_add_small)
  then show ?thesis using False le \<open>unat p < 0xffff\<close> by (simp add: udp_next_port_def word_le_nat_alt)
qed (simp add: udp_next_port_def)

interpretation udp_ports: port_search udp_next_port udp_new_port_loop "{0xc000..0xffff}" "\<lambda>p. unat p - 0xc000" "0x4000"
proof
  fix ports and p n :: u16
  show "udp_new_port_loop ports p n =
      (if udp_next_port p \<in> set ports
       then (if n + 1 > 0x3fff then (0, udp_next_port p) else udp_new_port_loop ports (udp_next_port p) (n + 1))
       else (udp_next_port p, udp_next_port p))"
    by (subst udp_new_port_loop.simps) (simp add: Let_def)
next
  show "inj_on (\<lambda>p. unat p - 0xc000) {0xc000..0xffff :: u16}"
    by (rule inj_onI) (simp add: word_le_nat_alt word_unat_eq_iff)
next
  fix p :: u16 assume p: "p \<in> {0xc000..0xffff}"
  then show "udp_next_port p \<in> {0xc000..0xffff}" using udp_idx_step [of p] by (simp add: word_le_nat_alt)
  show "unat (udp_next_port p) - 0xc000 = Suc (unat p - 0xc000) mod 0x4000" using p udp_idx_step [of p] by simp
  show "unat p - 0xc000 < 0x4000" using unat_u16_less [of p] by linarith
qed simp_all

lemma tcp_idx_step:
  assumes "p \<in> {0xc000..0xfffe}"
  shows "unat (tcp_next_port p) - 0xc000 = Suc (unat p - 0xc000) mod 0x3fff \<and> tcp_next_port p \<in> {0xc000..0xfffe}"
proof -
  have p: "0xc000 \<le> unat p" "unat p \<le> 0xfffe" using assms by (simp_all add: word_le_nat_alt)
  have u: "unat (p + 1) = unat p + 1" using p by (simp add: unat_add_small)
  show ?thesis
  proof (cases "p + 1 = 0xffff")
    case True
    then have "unat p + 1 = 0xffff" using u by (simp add: word_unat_eq_iff)
    then have "unat p = 0xfffe" by simp
    then show ?thesis using True by (simp add: tcp_next_port_def)
  next
    case False
    then have "unat p + 1 \<noteq> 0xffff" using u by (simp add: word_unat_eq_iff)
    then show ?thesis using False p u by (simp add: tcp_next_port_def word_le_nat_alt)
  qed
qed

interpretation tcp_ports: port_search tcp_next_port tcp_new_port_loop "{0xc000..0xfffe}" "\<lambda>p. unat p - 0xc000" "0x3fff"
proof
  fix ports and p n :: u16
  show "tcp_new_port_loop ports p n =
      (if tcp_next_port p \<in> set ports
       then (if n + 1 > 0x3fff then (0, tcp_next_port p) else tcp_new_port_loop ports (tcp_next_port p) (n + 1))
       else (tcp_next_port p, tcp_next_port p))"
    by (subst tcp_new_port_loop.simps) (simp add: Let_def)
next
  show "inj_on (\<lambda>p. unat p - 0xc000) {0xc000..0xfffe :: u16}"
    by (rule inj_onI) (simp add: word_le_nat_alt word_unat_eq_iff, linarith)
next
  fix p :: u16 assume p: "p \<in> {0xc000..0xfffe}"
  then show "tcp_next_port p \<in> {0xc000..0xfffe}" using tcp_idx_step by blast
  show "unat (tcp_next_port p) - 0xc000 = Suc (unat p - 0xc000) mod 0x3fff" using p tcp_idx_step by blast
  show "unat p - 0xc000 < 0x3fff" using p by (simp add: word_le_nat_alt) linarith
qed simp_all

end
