(* ===== verification/Udp.thy ===== *)
theory Udp imports Wire Ports begin

text \<open>
  UDP: \<^verbatim>\<open>core/udp.c\<close>. The list \<^verbatim>\<open>udp_pcbs\<close> is the list of the addresses of
  the control blocks that are linked; a map gives the block at an address. The layers
  around UDP (routing, IP output, ICMP, the application's receive callback) are the
  fields of an environment; \<open>'w\<close> is the state they act on.
\<close>

section \<open>State\<close>

record udp_pcb =
  up_local_ip :: ip_addr_t
  up_remote_ip :: ip_addr_t
  up_netif_idx :: u8
  up_so_options :: u8
  up_tos :: u8
  up_ttl :: u8
  up_flags :: u8
  up_local_port :: u16
  up_remote_port :: u16
  up_mcast_ip4 :: ip4_addr_t
  up_mcast_ifindex :: u8
  up_mcast_ttl :: u8
  up_recv :: "nat option"
  up_recv_arg :: nat

text \<open>The globals of \<^verbatim>\<open>ip.c\<close> the transport layer reads. \<^verbatim>\<open>ip_current_is_v6()\<close>
  tells whether the IPv6 header pointer is set.\<close>

record ip_globals =
  current_netif :: netif
  current_input_netif :: netif
  ip_current_is_v6 :: bool
  current_ip_header_tot_len :: u16
  current_iphdr_src :: ip_addr_t
  current_iphdr_dest :: ip_addr_t

record 'w udp_st =
  u_hp :: hp
  udp_pcbs :: "nat list"
  udp_pcb_at :: "nat \<Rightarrow> udp_pcb option"
  udp_port :: u16
  u_world :: 'w

record 'w udp_env =
  ue_alloc :: allocator
  ue_chksum :: chksum_fn
  ue_pcb_alloc :: "'w udp_st \<Rightarrow> nat option"
  ue_ip_route :: "'w \<Rightarrow> ip_addr_t \<Rightarrow> ip_addr_t \<Rightarrow> netif option"
  ue_ip4_route_src :: "'w \<Rightarrow> ip4_addr_t \<Rightarrow> ip4_addr_t \<Rightarrow> netif option"
  ue_netif_get_by_index :: "'w \<Rightarrow> u8 \<Rightarrow> netif option"
  ue_ip6_select_source_address :: "'w \<Rightarrow> netif \<Rightarrow> ip6_addr_t \<Rightarrow> ip_addr_t option"
  ue_ip_output_if_src :: "nat \<Rightarrow> ip_addr_t \<Rightarrow> ip_addr_t \<Rightarrow> u8 \<Rightarrow> u8 \<Rightarrow> u8 \<Rightarrow> netif \<Rightarrow> 'w udp_st \<Rightarrow> ('w udp_st \<times> err_t) option"
  ue_icmp_port_unreach :: "bool \<Rightarrow> nat \<Rightarrow> 'w udp_st \<Rightarrow> 'w udp_st option"
  ue_recv :: "nat \<Rightarrow> nat \<Rightarrow> nat \<Rightarrow> nat \<Rightarrow> ip_addr_t \<Rightarrow> u16 \<Rightarrow> 'w udp_st \<Rightarrow> 'w udp_st option"

definition UDP_HLEN :: nat where "UDP_HLEN = 8"
definition UDP_TTL :: u8 where "UDP_TTL = 255"
definition UDP_FLAGS_NOCHKSUM :: u8 where "UDP_FLAGS_NOCHKSUM = 0x01"
definition UDP_FLAGS_CONNECTED :: u8 where "UDP_FLAGS_CONNECTED = 0x04"
definition UDP_FLAGS_MULTICAST_LOOP :: u8 where "UDP_FLAGS_MULTICAST_LOOP = 0x08"
definition SOF_REUSEADDR :: u8 where "SOF_REUSEADDR = 0x04"
definition PBUF_FLAG_MCASTLOOP :: u8 where "PBUF_FLAG_MCASTLOOP = 0x04"
definition IP_PROTO_UDP :: u8 where "IP_PROTO_UDP = 17"

definition netif_get_index :: "netif \<Rightarrow> u8" where
  "netif_get_index n = netif_num n + 1"

definition NETIF_NO_INDEX :: u8 where "NETIF_NO_INDEX = 0"

definition upd_udp :: "nat \<Rightarrow> (udp_pcb \<Rightarrow> udp_pcb) \<Rightarrow> 'w udp_st \<Rightarrow> 'w udp_st" where
  "upd_udp a f s = s\<lparr>udp_pcb_at := (udp_pcb_at s)(a := map_option f (udp_pcb_at s a))\<rparr>"

definition pcb_version_match_exact :: "ip_addr_t \<Rightarrow> ip_addr_t \<Rightarrow> bool" where
  "pcb_version_match_exact local_ip a \<longleftrightarrow> ip_type local_ip = ip_type a"

definition pcb_version_match :: "ip_addr_t \<Rightarrow> ip_addr_t \<Rightarrow> bool" where
  "pcb_version_match local_ip a \<longleftrightarrow> IP_IS_ANY_TYPE_VAL local_ip \<or> pcb_version_match_exact local_ip a"

text \<open>\<^verbatim>\<open>netif_get_ip6_addr_match\<close>: the index of a valid address, or -1.\<close>

fun ip6_addr_match_from :: "int \<Rightarrow> (u8 \<times> ip_addr_t) list \<Rightarrow> ip6_addr_t \<Rightarrow> int" where
  "ip6_addr_match_from i [] a = -1"
| "ip6_addr_match_from i ((st, n) # ns) a =
     (if st \<noteq> 0 \<and> ip6_addr_cmp (ip_2_ip6 n) a then i else ip6_addr_match_from (i + 1) ns a)"

definition netif_get_ip6_addr_match :: "netif \<Rightarrow> ip6_addr_t \<Rightarrow> int" where
  "netif_get_ip6_addr_match n a = ip6_addr_match_from 0 (zip (netif_ip6_addr_state n) (netif_ip6_addr n)) a"

section \<open>Ports and control blocks\<close>

definition udp_ports_used :: "'w udp_st \<Rightarrow> u16 list" where
  "udp_ports_used s = List.map_filter (\<lambda>a. map_option up_local_port (udp_pcb_at s a)) (udp_pcbs s)"

definition udp_new_port :: "'w udp_st \<Rightarrow> 'w udp_st \<times> u16" where
  "udp_new_port s =
     (let (port, p) = udp_new_port_from (udp_ports_used s) (udp_port s) in (s\<lparr>udp_port := p\<rparr>, port))"

definition udp_init :: "u16 \<Rightarrow> 'w udp_st \<Rightarrow> 'w udp_st" where
  "udp_init rand s = s\<lparr>udp_port := ENSURE_LOCAL_PORT_RANGE rand\<rparr>"

definition udp_new :: "'w udp_env \<Rightarrow> 'w udp_st \<Rightarrow> 'w udp_st \<times> nat option" where
  "udp_new e s =
     (case ue_pcb_alloc e s of
        None \<Rightarrow> (s, None)
      | Some a \<Rightarrow>
          (s\<lparr>udp_pcb_at := (udp_pcb_at s)(a \<mapsto>
             \<lparr>up_local_ip = ip_addr_any, up_remote_ip = ip_addr_any, up_netif_idx = 0, up_so_options = 0,
              up_tos = 0, up_ttl = UDP_TTL, up_flags = 0, up_local_port = 0, up_remote_port = 0,
              up_mcast_ip4 = 0, up_mcast_ifindex = 0, up_mcast_ttl = UDP_TTL, up_recv = None, up_recv_arg = 0\<rparr>)\<rparr>,
           Some a))"

definition udp_new_ip_type :: "'w udp_env \<Rightarrow> u8 \<Rightarrow> 'w udp_st \<Rightarrow> 'w udp_st \<times> nat option" where
  "udp_new_ip_type e type s =
     (case udp_new e s of
        (s, None) \<Rightarrow> (s, None)
      | (s, Some a) \<Rightarrow>
          (upd_udp a (\<lambda>p. p\<lparr>up_local_ip := (up_local_ip p)\<lparr>ip_type := type\<rparr>,
                            up_remote_ip := (up_remote_ip p)\<lparr>ip_type := type\<rparr>\<rparr>) s, Some a))"

text \<open>The block loop of \<^verbatim>\<open>udp_bind\<close>: does another block hold the address and port?\<close>

definition udp_bind_in_use :: "'w udp_st \<Rightarrow> nat \<Rightarrow> udp_pcb \<Rightarrow> ip_addr_t \<Rightarrow> u16 \<Rightarrow> bool" where
  "udp_bind_in_use s pcb b ipaddr port \<longleftrightarrow>
     list_ex (\<lambda>i. pcb \<noteq> i \<and>
       (case udp_pcb_at s i of
          None \<Rightarrow> False
        | Some ib \<Rightarrow>
            (up_so_options b AND SOF_REUSEADDR = 0 \<or> up_so_options ib AND SOF_REUSEADDR = 0) \<and>
            up_local_port ib = port \<and>
            (ip_addr_cmp (up_local_ip ib) ipaddr \<or> ip_addr_isany ipaddr \<or> ip_addr_isany (up_local_ip ib))))
       (udp_pcbs s)"

definition udp_bind :: "'w udp_st \<Rightarrow> nat \<Rightarrow> ip_addr_t option \<Rightarrow> u16 \<Rightarrow> ('w udp_st \<times> err_t) option" where
  "udp_bind s pcb ipaddr port = do {
     b \<leftarrow> udp_pcb_at s pcb;
     let ipaddr = (case ipaddr of None \<Rightarrow> ip_addr_any | Some a \<Rightarrow> a);
     let rebind = (pcb \<in> set (udp_pcbs s));
     let (s, port') = (if port = 0 then udp_new_port s else (s, port));
     (if port = 0 \<and> port' = 0 then Some (s, ERR_USE)
      else if port \<noteq> 0 \<and> udp_bind_in_use s pcb b ipaddr port then Some (s, ERR_USE)
      else let s = upd_udp pcb (\<lambda>p. p\<lparr>up_local_ip := ip_addr_copy ipaddr, up_local_port := port'\<rparr>) s
           in Some (if rebind then s else s\<lparr>udp_pcbs := pcb # udp_pcbs s\<rparr>, ERR_OK)) }"

definition udp_bind_netif :: "'w udp_st \<Rightarrow> nat \<Rightarrow> netif option \<Rightarrow> 'w udp_st" where
  "udp_bind_netif s pcb n =
     upd_udp pcb (\<lambda>p. p\<lparr>up_netif_idx := (case n of Some n \<Rightarrow> netif_get_index n | None \<Rightarrow> NETIF_NO_INDEX)\<rparr>) s"

definition udp_connect :: "'w udp_st \<Rightarrow> nat \<Rightarrow> ip_addr_t \<Rightarrow> u16 \<Rightarrow> ('w udp_st \<times> err_t) option" where
  "udp_connect s pcb ipaddr port = do {
     b \<leftarrow> udp_pcb_at s pcb;
     (s, err) \<leftarrow> (if up_local_port b = 0 then udp_bind s pcb (Some (up_local_ip b)) (up_local_port b)
                  else Some (s, ERR_OK));
     (if err \<noteq> ERR_OK then Some (s, err)
      else let s = upd_udp pcb (\<lambda>p. p\<lparr>up_remote_ip := ip_addr_copy ipaddr, up_remote_port := port,
                                      up_flags := up_flags p OR UDP_FLAGS_CONNECTED\<rparr>) s
           in Some (if pcb \<in> set (udp_pcbs s) then s else s\<lparr>udp_pcbs := pcb # udp_pcbs s\<rparr>, ERR_OK)) }"

definition udp_disconnect :: "'w udp_st \<Rightarrow> nat \<Rightarrow> 'w udp_st" where
  "udp_disconnect s pcb =
     upd_udp pcb (\<lambda>p. p\<lparr>up_remote_ip :=
         (if IP_IS_ANY_TYPE_VAL (up_local_ip p) then ip_addr_any_type
          else if IP_IS_V6_VAL (up_remote_ip p) then ip_addr_copy_from_ip6 (ip6_of_ip4 0) else ip_addr_any),
       up_remote_port := 0, up_netif_idx := NETIF_NO_INDEX,
       up_flags := up_flags p AND NOT UDP_FLAGS_CONNECTED\<rparr>) s"

definition udp_recv :: "'w udp_st \<Rightarrow> nat \<Rightarrow> nat option \<Rightarrow> nat \<Rightarrow> 'w udp_st" where
  "udp_recv s pcb recv recv_arg = upd_udp pcb (\<lambda>p. p\<lparr>up_recv := recv, up_recv_arg := recv_arg\<rparr>) s"

text \<open>Unlinking: the first occurrence of the block goes.\<close>

definition udp_remove :: "'w udp_st \<Rightarrow> nat \<Rightarrow> 'w udp_st option" where
  "udp_remove s pcb = do {
     udp_pcb_at s pcb;
     Some (s\<lparr>udp_pcbs := remove1 pcb (udp_pcbs s), udp_pcb_at := (udp_pcb_at s)(pcb := None)\<rparr>) }"

definition udp_netif_ip_addr_changed :: "'w udp_st \<Rightarrow> ip_addr_t option \<Rightarrow> ip_addr_t option \<Rightarrow> 'w udp_st" where
  "udp_netif_ip_addr_changed s old_addr new_addr =
     (case (old_addr, new_addr) of
        (Some old_a, Some new_a) \<Rightarrow>
          if \<not> ip_addr_isany old_a \<and> \<not> ip_addr_isany new_a
          then fold (\<lambda>a. upd_udp a (\<lambda>p. if ip_addr_cmp (up_local_ip p) old_a
                                         then p\<lparr>up_local_ip := ip_addr_copy new_a\<rparr> else p)) (udp_pcbs s) s
          else s
      | _ \<Rightarrow> s)"

section \<open>Input\<close>

definition udp_input_local_match :: "ip_globals \<Rightarrow> udp_pcb \<Rightarrow> netif \<Rightarrow> bool \<Rightarrow> bool" where
  "udp_input_local_match g b inp broadcast \<longleftrightarrow>
     (if up_netif_idx b \<noteq> NETIF_NO_INDEX \<and> up_netif_idx b \<noteq> netif_get_index (current_input_netif g) then False
      else if IP_IS_ANY_TYPE_VAL (up_local_ip b) then True
      else if pcb_version_match_exact (up_local_ip b) (current_iphdr_dest g)
      then if broadcast
           then ip_2_ip4 (up_local_ip b) = 0 \<or> ip_2_ip4 (current_iphdr_dest g) = 0xffffffff \<or>
                ip4_addr_netcmp (ip_2_ip4 (up_local_ip b)) (ip_2_ip4 (current_iphdr_dest g)) (netif_ip4_netmask inp)
           else ip_addr_isany (up_local_ip b) \<or> ip_addr_cmp (up_local_ip b) (current_iphdr_dest g)
      else False)"

text \<open>The choice of \<^verbatim>\<open>uncon_pcb\<close> when the block \<open>pcb\<close> matches locally.\<close>

definition udp_input_uncon ::
    "'w udp_st \<Rightarrow> ip_globals \<Rightarrow> netif \<Rightarrow> bool \<Rightarrow> nat \<Rightarrow> udp_pcb \<Rightarrow> nat option \<Rightarrow> nat option option" where
  "udp_input_uncon s g inp broadcast pcb b uncon =
     (case uncon of
        None \<Rightarrow> Some (Some pcb)
      | Some u \<Rightarrow> do {
          ub \<leftarrow> udp_pcb_at s u;
          Some (if broadcast \<and> ip_2_ip4 (current_iphdr_dest g) = 0xffffffff
                then (if (\<not> IP_IS_V4_VAL (up_local_ip ub) \<or> ip_2_ip4 (up_local_ip ub) \<noteq> netif_ip4_addr inp) \<and>
                         IP_IS_V4_VAL (up_local_ip b) \<and> ip_2_ip4 (up_local_ip b) = netif_ip4_addr inp
                      then Some pcb else uncon)
                else if \<not> ip_addr_isany (up_local_ip b) then Some pcb else uncon) })"

text \<open>One round of the search. Both its ends leave the loop: a full match, and the
  \<^verbatim>\<open>break\<close> at the bottom, before which the block takes the destination port.\<close>

definition udp_input_round ::
    "'w udp_st \<Rightarrow> ip_globals \<Rightarrow> netif \<Rightarrow> bool \<Rightarrow> u16 \<Rightarrow> u16 \<Rightarrow> nat \<Rightarrow> nat option \<Rightarrow> nat option \<Rightarrow>
     ('w udp_st \<times> nat option) option" where
  "udp_input_round s g inp broadcast src dest pcb prev uncon = do {
     b \<leftarrow> udp_pcb_at s pcb;
     let local = (up_local_port b = dest \<and> udp_input_local_match g b inp broadcast);
     uncon \<leftarrow> (if local \<and> up_flags b AND UDP_FLAGS_CONNECTED = 0
               then udp_input_uncon s g inp broadcast pcb b uncon else Some uncon);
     (if local \<and> up_remote_port b = src \<and>
         (ip_addr_isany (up_remote_ip b) \<or> ip_addr_cmp (up_remote_ip b) (current_iphdr_src g))
      then Some (case prev of
                   None \<Rightarrow> s
                 | Some _ \<Rightarrow> s\<lparr>udp_pcbs := pcb # remove1 pcb (udp_pcbs s)\<rparr>, uncon)
      else Some (upd_udp pcb (\<lambda>p. p\<lparr>up_local_port := dest\<rparr>) s, uncon)) }"

text \<open>The \<^verbatim>\<open>for\<close> loop, and the choice behind it.\<close>

definition udp_input_find ::
    "'w udp_st \<Rightarrow> ip_globals \<Rightarrow> netif \<Rightarrow> bool \<Rightarrow> u16 \<Rightarrow> u16 \<Rightarrow> ('w udp_st \<times> nat option) option" where
  "udp_input_find s g inp broadcast src dest =
     (case udp_pcbs s of
        [] \<Rightarrow> Some (s, None)
      | pcb # _ \<Rightarrow> do {
          (s, uncon) \<leftarrow> udp_input_round s g inp broadcast src dest pcb None None;
          Some (s, Some pcb) })"

definition udp_free_pbuf :: "nat \<Rightarrow> 'w udp_st \<Rightarrow> 'w udp_st option" where
  "udp_free_pbuf p s = do { (h, n) \<leftarrow> pbuf_free (u_hp s) (Some p); Some (s\<lparr>u_hp := h\<rparr>) }"

text \<open>The part behind the checksum: the header goes, and the datagram is passed on.\<close>

definition udp_input_deliver ::
    "'w udp_env \<Rightarrow> 'w udp_st \<Rightarrow> ip_globals \<Rightarrow> bool \<Rightarrow> u16 \<Rightarrow> nat \<Rightarrow> nat option \<Rightarrow> 'w udp_st option" where
  "udp_input_deliver e s g broadcast src p pcb = do {
     (h, r) \<leftarrow> pbuf_remove_header (u_hp s) (Some p) UDP_HLEN;
     LWIP_ASSERT (r = 0);
     let s = s\<lparr>u_hp := h\<rparr>;
     (case pcb of
        Some pcb \<Rightarrow> do {
          b \<leftarrow> udp_pcb_at s pcb;
          (case up_recv b of
             Some f \<Rightarrow> ue_recv e f (up_recv_arg b) pcb p (current_iphdr_src g) src s
           | None \<Rightarrow> udp_free_pbuf p s) }
      | None \<Rightarrow> do {
          s \<leftarrow> (if \<not> broadcast \<and> \<not> ip_addr_ismulticast (current_iphdr_dest g)
               then do {
                 (h, r) \<leftarrow> pbuf_header_force (u_hp s) (Some p) (sint (current_ip_header_tot_len g + of_nat UDP_HLEN));
                 ue_icmp_port_unreach e (ip_current_is_v6 g) p (s\<lparr>u_hp := h\<rparr>) }
               else Some s);
          udp_free_pbuf p s }) }"

definition udp_input :: "'w udp_env \<Rightarrow> 'w udp_st \<Rightarrow> ip_globals \<Rightarrow> nat \<Rightarrow> netif \<Rightarrow> 'w udp_st option" where
  "udp_input e s g p inp = do {
     b \<leftarrow> pbufs (u_hp s) p;
     (if unat (pb_len b) < UDP_HLEN then udp_free_pbuf p s
      else do {
        let udphdr = pb_payload b;
        let broadcast = ip_addr_isbroadcast (current_iphdr_dest g) (current_netif g);
        sport \<leftarrow> ld_u16 (u_hp s) udphdr;
        dport \<leftarrow> ld_u16 (u_hp s) (udphdr + 2);
        let src = lwip_ntohs sport;
        let dest = lwip_ntohs dport;
        (s, pcb) \<leftarrow> udp_input_find s g inp broadcast src dest;
        let for_us = (pcb \<noteq> None \<or>
          (if ip_current_is_v6 g then netif_get_ip6_addr_match inp (ip_2_ip6 (current_iphdr_dest g)) \<ge> 0
           else netif_ip4_addr inp = ip_2_ip4 (current_iphdr_dest g)));
        (if \<not> for_us then udp_free_pbuf p s
         else do {
           chksum \<leftarrow> ld_u16 (u_hp s) (udphdr + 6);
           c \<leftarrow> (if chksum \<noteq> 0
                then ip_chksum_pseudo (ue_chksum e) (u_hp s) (Some p) IP_PROTO_UDP (pb_tot_len b)
                       (current_iphdr_src g) (current_iphdr_dest g)
                else Some 0);
           (if c \<noteq> 0 then udp_free_pbuf p s else udp_input_deliver e s g broadcast src p pcb) }) }) }"

section \<open>Output\<close>

text \<open>A buffer with room for the header: the packet itself, or a new one in front of it.
  An inner \<open>None\<close> is \<^verbatim>\<open>ERR_MEM\<close>.\<close>

definition udp_add_header :: "'w udp_env \<Rightarrow> hp \<Rightarrow> nat \<Rightarrow> (hp \<times> nat option) option" where
  "udp_add_header e h p = do {
     b \<leftarrow> pbufs h p;
     (if pb_tot_len b + of_nat UDP_HLEN < pb_tot_len b then Some (h, None)
      else do {
        (h, r) \<leftarrow> pbuf_add_header h (Some p) UDP_HLEN;
        (if r \<noteq> 0
         then do {
           (h, q) \<leftarrow> pbuf_alloc (ue_alloc e) h PBUF_IP (of_nat UDP_HLEN) PBUF_RAM;
           (case q of
              None \<Rightarrow> Some (h, None)
            | Some q \<Rightarrow> do {
                b \<leftarrow> pbufs h p;
                h \<leftarrow> (if pb_tot_len b \<noteq> 0 then pbuf_chain h (Some q) (Some p) else Some h);
                Some (h, Some q) }) }
         else Some (h, Some p)) }) }"

text \<open>The header of the datagram that starts at \<open>q\<close>.\<close>

definition udp_fill_header ::
    "'w udp_env \<Rightarrow> hp \<Rightarrow> udp_pcb \<Rightarrow> nat \<Rightarrow> ip_addr_t \<Rightarrow> ip_addr_t \<Rightarrow> u16 \<Rightarrow> hp option" where
  "udp_fill_header e h pcb q src_ip dst_ip dst_port = do {
     qb \<leftarrow> pbufs h q;
     LWIP_ASSERT (unat (pb_len qb) \<ge> UDP_HLEN);
     let udphdr = pb_payload qb;
     h \<leftarrow> st_u16 h udphdr (lwip_htons (up_local_port pcb));
     h \<leftarrow> st_u16 h (udphdr + 2) (lwip_htons dst_port);
     h \<leftarrow> st_u16 h (udphdr + 6) 0;
     let h = (if up_flags pcb AND UDP_FLAGS_MULTICAST_LOOP \<noteq> 0 \<and> ip_addr_ismulticast dst_ip
              then upd_pbuf h q (\<lambda>b. b\<lparr>pb_flags := pb_flags b OR PBUF_FLAG_MCASTLOOP\<rparr>) else h);
     h \<leftarrow> st_u16 h (udphdr + 4) (lwip_htons (pb_tot_len qb));
     (if IP_IS_V6_VAL dst_ip \<or> up_flags pcb AND UDP_FLAGS_NOCHKSUM = 0
      then do {
        udpchksum \<leftarrow> ip_chksum_pseudo (ue_chksum e) h (Some q) IP_PROTO_UDP (pb_tot_len qb) src_ip dst_ip;
        st_u16 h (udphdr + 6) (if udpchksum = 0 then 0xffff else udpchksum) }
      else Some h) }"

definition udp_sendto_if_src ::
    "'w udp_env \<Rightarrow> 'w udp_st \<Rightarrow> nat \<Rightarrow> nat \<Rightarrow> ip_addr_t \<Rightarrow> u16 \<Rightarrow> netif \<Rightarrow> ip_addr_t \<Rightarrow>
     ('w udp_st \<times> err_t) option" where
  "udp_sendto_if_src e s pcb p dst_ip dst_port n src_ip = do {
     b \<leftarrow> udp_pcb_at s pcb;
     (if \<not> pcb_version_match (up_local_ip b) src_ip \<or> \<not> pcb_version_match (up_local_ip b) dst_ip
      then Some (s, ERR_VAL)
      else do {
        (s, err) \<leftarrow> (if up_local_port b = 0 then udp_bind s pcb (Some (up_local_ip b)) (up_local_port b)
                     else Some (s, ERR_OK));
        (if err \<noteq> ERR_OK then Some (s, err)
         else do {
           b \<leftarrow> udp_pcb_at s pcb;
           (h, q) \<leftarrow> udp_add_header e (u_hp s) p;
           (case q of
              None \<Rightarrow> Some (s\<lparr>u_hp := h\<rparr>, ERR_MEM)
            | Some q \<Rightarrow> do {
                h \<leftarrow> udp_fill_header e h b q src_ip dst_ip dst_port;
                let ttl = (if ip_addr_ismulticast dst_ip then up_mcast_ttl b else up_ttl b);
                (s, err) \<leftarrow> ue_ip_output_if_src e q src_ip dst_ip ttl (up_tos b) IP_PROTO_UDP n (s\<lparr>u_hp := h\<rparr>);
                s \<leftarrow> (if q \<noteq> p then udp_free_pbuf q s else Some s);
                Some (s, err) }) }) }) }"

text \<open>The source address: the block's own if it is still the interface's, else one of
  the interface. The inner \<open>None\<close> is \<^verbatim>\<open>ERR_RTE\<close>.\<close>

definition udp_source_ip :: "'w udp_env \<Rightarrow> 'w udp_st \<Rightarrow> udp_pcb \<Rightarrow> ip_addr_t \<Rightarrow> netif \<Rightarrow> ip_addr_t option" where
  "udp_source_ip e s b dst_ip n =
     (if IP_IS_V6_VAL dst_ip
      then if ip6_addr_isany (ip_2_ip6 (up_local_ip b)) \<or> ip6_addr_ismulticast (ip_2_ip6 (up_local_ip b))
           then ue_ip6_select_source_address e (u_world s) n (ip_2_ip6 dst_ip)
           else if netif_get_ip6_addr_match n (ip_2_ip6 (up_local_ip b)) < 0 then None
           else Some (up_local_ip b)
      else if ip_2_ip4 (up_local_ip b) = 0 \<or> ip4_addr_ismulticast (ip_2_ip4 (up_local_ip b))
           then Some (netif_ip_addr n)
           else if ip_2_ip4 (up_local_ip b) \<noteq> netif_ip4_addr n then None
           else Some (up_local_ip b))"

definition udp_sendto_if ::
    "'w udp_env \<Rightarrow> 'w udp_st \<Rightarrow> nat \<Rightarrow> nat \<Rightarrow> ip_addr_t \<Rightarrow> u16 \<Rightarrow> netif \<Rightarrow> ('w udp_st \<times> err_t) option" where
  "udp_sendto_if e s pcb p dst_ip dst_port n = do {
     b \<leftarrow> udp_pcb_at s pcb;
     (if \<not> pcb_version_match (up_local_ip b) dst_ip then Some (s, ERR_VAL)
      else (case udp_source_ip e s b dst_ip n of
              None \<Rightarrow> Some (s, ERR_RTE)
            | Some src_ip \<Rightarrow> udp_sendto_if_src e s pcb p dst_ip dst_port n src_ip)) }"

definition udp_sendto_netif :: "'w udp_env \<Rightarrow> 'w udp_st \<Rightarrow> udp_pcb \<Rightarrow> ip_addr_t \<Rightarrow> netif option" where
  "udp_sendto_netif e s b dst_ip =
     (if up_netif_idx b \<noteq> NETIF_NO_INDEX then ue_netif_get_by_index e (u_world s) (up_netif_idx b)
      else let n = (if \<not> ip_addr_ismulticast dst_ip then None
                    else if up_mcast_ifindex b \<noteq> NETIF_NO_INDEX
                    then ue_netif_get_by_index e (u_world s) (up_mcast_ifindex b)
                    else if IP_IS_V4_VAL dst_ip \<and> up_mcast_ip4 b \<noteq> 0 \<and> up_mcast_ip4 b \<noteq> 0xffffffff
                    then ue_ip4_route_src e (u_world s) (ip_2_ip4 (up_local_ip b)) (up_mcast_ip4 b)
                    else None)
           in (case n of Some n \<Rightarrow> Some n | None \<Rightarrow> ue_ip_route e (u_world s) (up_local_ip b) dst_ip))"

definition udp_sendto ::
    "'w udp_env \<Rightarrow> 'w udp_st \<Rightarrow> nat \<Rightarrow> nat \<Rightarrow> ip_addr_t \<Rightarrow> u16 \<Rightarrow> ('w udp_st \<times> err_t) option" where
  "udp_sendto e s pcb p dst_ip dst_port = do {
     b \<leftarrow> udp_pcb_at s pcb;
     (if \<not> pcb_version_match (up_local_ip b) dst_ip then Some (s, ERR_VAL)
      else (case udp_sendto_netif e s b dst_ip of
              None \<Rightarrow> Some (s, ERR_RTE)
            | Some n \<Rightarrow> udp_sendto_if e s pcb p dst_ip dst_port n)) }"

definition udp_send :: "'w udp_env \<Rightarrow> 'w udp_st \<Rightarrow> nat \<Rightarrow> nat \<Rightarrow> ('w udp_st \<times> err_t) option" where
  "udp_send e s pcb p = do {
     b \<leftarrow> udp_pcb_at s pcb;
     (if IP_IS_ANY_TYPE_VAL (up_remote_ip b) then Some (s, ERR_VAL)
      else udp_sendto e s pcb p (up_remote_ip b) (up_remote_port b)) }"

end
