(* ===== verification/Pbuf_spec.thy ===== *)
theory Pbuf_spec imports Inet_chksum begin

text \<open>
  The properties of the packet buffers and of the checksums, each with a witness on a
  small heap: two RAM buffers at 16 and 64, linked, with three and two bytes of data.
\<close>

section \<open>A small heap\<close>

definition small_pbuf :: "nat option \<Rightarrow> nat \<Rightarrow> u16 \<Rightarrow> u16 \<Rightarrow> pbuf" where
  "small_pbuf n payload tot len =
     \<lparr>pb_next = n, pb_payload = payload, pb_tot_len = tot, pb_len = len, pb_type_internal = 0x80,
      pb_flags = 0, pb_ref = 1, pb_if_idx = 0, pb_custom_free_function = None\<rparr>"

definition small_hp :: hp where
  "small_hp =
     \<lparr>bytes = (\<lambda>x. if 40 \<le> x \<and> x < 56 \<or> 88 \<le> x \<and> x < 104 \<or> 136 \<le> x \<and> x < 152 then Some (of_nat x) else None),
      blocks = [16 \<mapsto> 40, 64 \<mapsto> 40, 112 \<mapsto> 40],
      pbufs = [16 \<mapsto> small_pbuf (Some 64) 44 5 3, 64 \<mapsto> small_pbuf None 92 2 2, 112 \<mapsto> small_pbuf None 136 1 1],
      pbuf_free_ooseq_pending = False\<rparr>"

definition empty_hp :: hp where
  "empty_hp = \<lparr>bytes = (\<lambda>x. None), blocks = (\<lambda>x. None), pbufs = (\<lambda>x. None), pbuf_free_ooseq_pending = False\<rparr>"

text \<open>An allocator that has one arena to give.\<close>

definition arena_alloc :: allocator where
  "arena_alloc h n =
     (if (\<forall>x. bytes h x = None) \<and> (\<forall>b. blocks h b = None) then Some (16, replicate n 0) else None)"

lemma arena_alloc_ok: "malloc_ok arena_alloc"
  by (auto simp: malloc_ok_def arena_alloc_def split: if_splits)

lemma empty_hp_ok: "hp_ok empty_hp"
  by (simp add: hp_ok_def blocks_ok_def empty_hp_def)

lemma small_pbuf_simps [simp]:
  "pb_next (small_pbuf n payload tot len) = n" "pb_payload (small_pbuf n payload tot len) = payload"
  "pb_tot_len (small_pbuf n payload tot len) = tot" "pb_len (small_pbuf n payload tot len) = len"
  "pb_ref (small_pbuf n payload tot len) = 1" "pb_flags (small_pbuf n payload tot len) = 0"
  "resident (small_pbuf n payload tot len)" "plain (small_pbuf n payload tot len)"
  by (simp_all add: small_pbuf_def resident_def plain_def pbuf_get_allocsrc_def PBUF_TYPE_FLAG_STRUCT_DATA_CONTIGUOUS_def)

lemma small_hp_ok: "hp_ok small_hp"
  by (auto simp: hp_ok_def blocks_ok_def pbuf_ok_def small_hp_def SIZEOF_STRUCT_PBUF_def split: if_splits)

lemma small_pb_bytes: "pb_bytes small_hp 16 = [44, 45, 46]" "pb_bytes small_hp 64 = [92, 93]" "pb_bytes small_hp 112 = [136]"
  by (simp_all add: pb_bytes_def small_hp_def load_def upt_rec)

lemma small_content: "content small_hp [16, 64] = [44, 45, 46, 92, 93]" "content small_hp [112] = [136]"
  by (simp_all add: small_pb_bytes)

lemma small_pbufs: "pbufs small_hp 16 = Some (small_pbuf (Some 64) 44 5 3)"
  "pbufs small_hp 64 = Some (small_pbuf None 92 2 2)" "pbufs small_hp 112 = Some (small_pbuf None 136 1 1)"
  by (simp_all add: small_hp_def)

lemma small_loads: "load (bytes small_hp) 44 3 = Some [44, 45, 46]" "load (bytes small_hp) 92 2 = Some [92, 93]"
  "load (bytes small_hp) 136 1 = Some [136]"
  by (simp_all add: small_hp_def load_def upt_rec)

lemma small_packet: "packet small_hp (Some 16) [16, 64]" "packet small_hp (Some 112) [112]"
  by (simp_all add: packet.simps(2) small_pb_bytes small_pbufs small_loads small_loads(3) [unfolded One_nat_def])

lemma small_own: "own_chain small_hp [16, 64]" "own_chain small_hp [112]"
  by (simp_all add: small_hp_def)

section \<open>Packet buffers\<close>

text \<open>C23: \<^verbatim>\<open>pbuf_alloc\<close> of a RAM or POOL buffer never stops the program. It gives
  either nothing, and then no new buffer is left behind, or a fresh chain whose bytes
  number exactly the requested length, each buffer with its own data and one reference;
  every buffer that was there keeps its fields and its bytes, and the heap invariant holds.\<close>

theorem pbuf_alloc_correct:
  assumes "malloc_ok al" and "hp_ok h" and "type = PBUF_RAM \<or> type = PBUF_POOL"
  shows "\<exists>h' r. pbuf_alloc al h layer len type = Some (h', r) \<and> hp_ok h' \<and> keeps h [] h' \<and>
    (case r of None \<Rightarrow> \<forall>b. pbufs h b = None \<longrightarrow> pbufs h' b = None
     | Some p \<Rightarrow> new_packet h h' p (unat len))"
  using assms by (rule pbuf_alloc_spec)

theorem pbuf_alloc_correct_witness:
  "\<exists>h' r. pbuf_alloc arena_alloc empty_hp PBUF_TRANSPORT 10 PBUF_RAM = Some (h', r) \<and> hp_ok h' \<and> keeps empty_hp [] h' \<and>
    (case r of None \<Rightarrow> \<forall>b. pbufs empty_hp b = None \<longrightarrow> pbufs h' b = None
     | Some p \<Rightarrow> new_packet empty_hp h' p (unat (10 :: u16)))"
  using pbuf_alloc_correct [OF arena_alloc_ok empty_hp_ok, of PBUF_RAM PBUF_TRANSPORT 10] by simp

text \<open>C24: \<^verbatim>\<open>pbuf_free\<close> gives back exactly the leading buffers with a single reference,
  takes one reference from the next buffer if there is one, and returns how many it
  freed; the heap invariant still holds.\<close>

theorem pbuf_free_correct:
  assumes "hp_ok h" and "chain h (Some p) as" and "own_chain h as"
  shows "pbuf_free h (Some p) =
      Some (unref (free_set h (set (sole h as))) (kept h as), of_nat (length (sole h as))) \<and>
    hp_ok (unref (free_set h (set (sole h as))) (kept h as))"
  using pbuf_free_chain [OF assms] hp_ok_free [OF assms(1) chain_distinct [OF assms(2)]] by blast

theorem pbuf_free_correct_witness:
  "sole small_hp [16, 64] = [16, 64] \<and>
   pbuf_free small_hp (Some 16) = Some (free_set small_hp {16, 64}, 2) \<and> hp_ok (free_set small_hp {16, 64})"
proof -
  have "sole small_hp [16, 64] = [16, 64]" "kept small_hp [16, 64] = []" by (simp_all add: small_hp_def)
  then show ?thesis
    using pbuf_free_correct [OF small_hp_ok packet_chain [OF small_packet(1)] small_own(1)] by (simp add: unref_def)
qed

text \<open>\<^verbatim>\<open>pbuf_cat\<close> makes the second chain the tail of the first: the bytes are the
  two byte sequences one after the other, and the \<^verbatim>\<open>tot_len\<close> invariant holds for the
  whole chain; no byte of memory and no block changes.\<close>

theorem pbuf_cat_correct:
  assumes "packet h (Some p) as" and "packet h (Some t) bs" and "set as \<inter> set bs = {}"
    and "length (content h as) + length (content h bs) < 65536"
  shows "\<exists>h'. pbuf_cat h (Some p) (Some t) = Some h' \<and> packet h' (Some p) (as @ bs) \<and>
    content h' (as @ bs) = content h as @ content h bs \<and> bytes h' = bytes h \<and> blocks h' = blocks h"
  using assms by (rule pbuf_cat_packet)

theorem pbuf_cat_correct_witness:
  "\<exists>h'. pbuf_cat small_hp (Some 16) (Some 112) = Some h' \<and> packet h' (Some 16) [16, 64, 112] \<and>
    content h' [16, 64, 112] = [44, 45, 46, 92, 93, 136]"
  using pbuf_cat_correct [OF small_packet] by (auto simp: small_content simp del: content.simps)

text \<open>C25: \<^verbatim>\<open>pbuf_realloc\<close> to a length the chain has leaves a prefix of the chain whose
  bytes are the first \<^verbatim>\<open>new_len\<close> bytes, and the heap invariant holds.\<close>

theorem pbuf_realloc_correct:
  assumes "hp_ok h" and "packet h (Some p) as" and "own_chain h as"
    and "unat new_len \<le> length (content h as)"
  shows "\<exists>h' as' rest. pbuf_realloc h (Some p) new_len = Some h' \<and> as = as' @ rest \<and>
    packet h' (Some p) as' \<and> content h' as' = take (unat new_len) (content h as) \<and> hp_ok h'"
  using assms by (rule pbuf_realloc_packet)

theorem pbuf_realloc_correct_witness:
  "\<exists>h' as' rest. pbuf_realloc small_hp (Some 16) 2 = Some h' \<and> [16, 64] = as' @ rest \<and>
    packet h' (Some 16) as' \<and> content h' as' = [44, 45] \<and> hp_ok h'"
  using pbuf_realloc_correct [OF small_hp_ok small_packet(1) small_own(1), of 2]
  by (simp add: small_content del: content.simps)

text \<open>\<^verbatim>\<open>pbuf_copy_partial\<close> returns the bytes of the chain from the offset on, cut at
  the requested length, and their number; it returns for every chain that ends.\<close>

theorem pbuf_copy_partial_correct:
  assumes "packet h (Some a) as"
  shows "pbuf_copy_partial h (Some a) len off =
     (let bs = take (unat len) (drop (unat off) (content h as)) in Some (of_nat (length bs), bs))"
  using assms by (rule pbuf_copy_partial_packet)

theorem pbuf_copy_partial_correct_witness:
  "pbuf_copy_partial small_hp (Some 16) 3 1 = Some (3, [45, 46, 92])"
  using pbuf_copy_partial_correct [OF small_packet(1), of 3 1] by (simp add: small_content del: content.simps)

text \<open>C26: \<^verbatim>\<open>pbuf_take_at\<close> overwrites the bytes from the offset on with the data, over
  buffer borders, and nothing else in the chain; when the offset is not inside the chain
  or the data do not fit it returns \<^verbatim>\<open>ERR_MEM\<close> and changes nothing.\<close>

theorem pbuf_take_at_correct:
  assumes "hp_ok h" and "packet h (Some p) as" and "own_chain h as"
  shows "if unat off < length (content h as) \<and> unat off + length data \<le> length (content h as)
    then \<exists>h'. pbuf_take_at h (Some p) data off = Some (h', ERR_OK) \<and> hp_ok h' \<and> packet h' (Some p) as \<and>
           content h' as = take (unat off) (content h as) @ data @ drop (unat off + length data) (content h as)
    else pbuf_take_at h (Some p) data off = Some (h, ERR_MEM)"
  using assms by (rule pbuf_take_at_packet)

theorem pbuf_take_at_correct_witness:
  "(\<exists>h'. pbuf_take_at small_hp (Some 16) [1, 2] 2 = Some (h', ERR_OK) \<and> content h' [16, 64] = [44, 45, 1, 2, 93]) \<and>
   pbuf_take_at small_hp (Some 16) [1, 2] 4 = Some (small_hp, ERR_MEM)"
  using pbuf_take_at_correct [OF small_hp_ok small_packet(1) small_own(1), of 2 "[1, 2]"]
    pbuf_take_at_correct [OF small_hp_ok small_packet(1) small_own(1), of 4 "[1, 2]"]
  by (auto simp: small_content simp del: content.simps)

text \<open>C27: removing a header right after adding one of the same size restores the heap
  exactly: payload pointer, \<^verbatim>\<open>len\<close> and \<^verbatim>\<open>tot_len\<close> come back, without wrap-around.\<close>

theorem pbuf_header_round_trip:
  assumes "packet h (Some p) (p # as)" and "pbuf_add_header h (Some p) n = Some (h', 0)"
  shows "pbuf_remove_header h' (Some p) n = Some (h, 0)"
  using assms by (rule pbuf_remove_add_header)

theorem pbuf_header_round_trip_witness:
  "\<exists>h'. pbuf_add_header small_hp (Some 16) 4 = Some (h', 0) \<and> pbuf_remove_header h' (Some 16) 4 = Some (small_hp, 0)"
proof -
  have "\<exists>h'. pbuf_add_header small_hp (Some 16) 4 = Some (h', 0)"
    by (simp add: pbuf_add_header_def pbuf_add_header_impl_def small_hp_def small_pbuf_def
        PBUF_TYPE_FLAG_STRUCT_DATA_CONTIGUOUS_def SIZEOF_STRUCT_PBUF_def)
  then show ?thesis using pbuf_header_round_trip [OF small_packet(1)] by blast
qed

text \<open>\<^verbatim>\<open>pbuf_memfind\<close> returns the first position, not before the start, where the
  searched bytes stand in the chain, also across buffer borders, and 0xFFFF if there is none.\<close>

theorem pbuf_memfind_correct:
  assumes "packet h (Some p) as" and "s2 \<noteq> []"
  shows "\<exists>r. pbuf_memfind h p s2 start = Some r \<and> first_match (content h as) (unat start) s2 r"
  using assms by (rule pbuf_memfind_packet)

theorem pbuf_memfind_correct_witness:
  "\<exists>r. pbuf_memfind small_hp 16 [46, 92] 1 = Some r \<and> first_match [44, 45, 46, 92, 93] 1 [46, 92] r"
  using pbuf_memfind_correct [OF small_packet(1), of "[46, 92]" 1] by (simp add: small_content del: content.simps)

section \<open>Checksums\<close>

text \<open>C28: the three versions of \<^verbatim>\<open>lwip_standard_chksum\<close> compute the same value for data
  of up to 0x20000 bytes at any address: the ones-complement sum of its 16-bit words.\<close>

theorem chksum_versions_agree:
  assumes "length bs \<le> 0x20000"
  shows "lwip_standard_chksum_1 a bs = chksum_spec bs \<and> lwip_standard_chksum_2 a bs = chksum_spec bs \<and>
    lwip_standard_chksum_3 a bs = chksum_spec bs"
  using assms by (simp add: lwip_standard_chksum_1_value lwip_standard_chksum_2_value lwip_standard_chksum_3_value)

theorem chksum_versions_agree_witness:
  "lwip_standard_chksum_1 7 [1, 2, 3] = lwip_standard_chksum_3 7 [1, 2, 3]"
  using chksum_versions_agree [of "[1, 2, 3]" 7] by simp

text \<open>C29: the checksum of a packet chain with the IPv4 pseudo header is the checksum of
  the bytes of the pseudo header of RFC 793 followed by the bytes of the whole chain,
  however the chain is cut into buffers and whatever the parity of their lengths.\<close>

theorem inet_chksum_pseudo_correct:
  assumes "packet h p as"
  shows "inet_chksum_pseudo lwip_standard_chksum_2 h p proto proto_len src dest =
    Some (NOT (chksum_spec (ip4_pseudo_header src dest proto proto_len @ content h as)))"
  using assms by (rule v2.inet_chksum_pseudo_bytes)

theorem inet_chksum_pseudo_correct_witness:
  "inet_chksum_pseudo lwip_standard_chksum_2 small_hp (Some 16) 17 5 1 2 =
    Some (NOT (chksum_spec (ip4_pseudo_header 1 2 17 5 @ [44, 45, 46, 92, 93])))"
  using inet_chksum_pseudo_correct [OF small_packet(1), of 17 5 1 2] by (simp add: small_content del: content.simps)

text \<open>The checksum of a packet chain with the IPv6 pseudo header is the checksum of
  the pseudo header of RFC 8200 followed by the bytes of the chain.\<close>

theorem ip6_chksum_pseudo_correct:
  assumes "packet h p as"
  shows "ip6_chksum_pseudo lwip_standard_chksum_2 h p proto proto_len src dest =
    Some (NOT (chksum_spec (ip6_pseudo_header src dest proto proto_len @ content h as)))"
  using assms by (rule v2.ip6_chksum_pseudo_bytes)

theorem ip6_chksum_pseudo_correct_witness:
  "ip6_chksum_pseudo lwip_standard_chksum_2 small_hp (Some 16) 58 5 (ip6_of_ip4 1) (ip6_of_ip4 2) =
    Some (NOT (chksum_spec (ip6_pseudo_header (ip6_of_ip4 1) (ip6_of_ip4 2) 58 5 @ [44, 45, 46, 92, 93])))"
  using ip6_chksum_pseudo_correct [OF small_packet(1), of 58 5] by (simp add: small_content del: content.simps)

text \<open>C30: when the checksum computed over a header with a zero checksum field is stored
  in that field, at an even position, the checksum of the result is zero, the test every
  receiver makes.\<close>

theorem inet_chksum_verifies:
  assumes "even (length pre)" and "length pre + 2 + length post \<le> 65535"
    and "c = inet_chksum lwip_standard_chksum_2 a (pre @ [0, 0] @ post)"
  shows "inet_chksum lwip_standard_chksum_2 a (pre @ [ucast c, ucast (drop_bit 8 c)] @ post) = 0"
  using assms by (rule v2.inet_chksum_zero_field)

theorem inet_chksum_verifies_witness:
  "inet_chksum lwip_standard_chksum_2 1 ([69, 0] @ [0, 0] @ [1, 2, 3]) = 0xfdb6 \<and>
   inet_chksum lwip_standard_chksum_2 1 ([69, 0] @ [0xb6, 0xfd] @ [1, 2, 3]) = 0"
proof -
  have c: "inet_chksum lwip_standard_chksum_2 1 ([69, 0] @ [0, 0] @ [1, 2, 3]) = 0xfdb6"
    by (simp add: inet_chksum_def lwip_standard_chksum_2_value chksum_spec_def oc_def)
  have b: "(64950 :: u8) = 182" by (simp add: word_unat_eq_iff)
  show ?thesis
    using c inet_chksum_verifies [of "[69, 0]" "[1, 2, 3]" "0xfdb6" 1] by (simp add: b)
qed

section \<open>Addresses\<close>

text \<open>C31: an IPv4 address printed into a buffer of at least 16 bytes fits it, and parsing
  the text gives the address back.\<close>

theorem ip4_print_parse:
  assumes "16 \<le> buflen"
  shows "\<exists>str. ip4addr_ntoa_r a buflen = Some str \<and> length str < 16 \<and> ip4addr_aton str = Some a"
  using assms by (rule ip4addr_aton_ntoa)

theorem ip4_print_parse_witness:
  "\<exists>str. ip4addr_ntoa_r 0x0100007f 16 = Some str \<and> length str < 16 \<and> ip4addr_aton str = Some 0x0100007f"
  by (rule ip4_print_parse) simp

text \<open>\<^verbatim>\<open>ip4_addr_netmask_valid\<close> accepts exactly the masks that, in host order, are
  \<open>k\<close> ones followed by zeros.\<close>

theorem netmask_valid_correct:
  "ip4_addr_netmask_valid netmask \<longleftrightarrow> (\<exists>k \<le> 32. \<forall>i < 32. bit (lwip_htonl netmask) i \<longleftrightarrow> 32 - k \<le> i)"
  by (rule ip4_addr_netmask_valid_iff)

theorem netmask_valid_correct_witness:
  "ip4_addr_netmask_valid (lwip_htonl (push_bit 8 (mask 24))) \<and> \<not> ip4_addr_netmask_valid (lwip_htonl 5)"
proof -
  have "\<forall>i < 32. bit (lwip_htonl (lwip_htonl (push_bit 8 (mask 24)))) i \<longleftrightarrow> 32 - 24 \<le> i"
    by (auto simp: htonl_htonl bit_simps)
  then have "\<exists>k \<le> 32. \<forall>i < 32. bit (lwip_htonl (lwip_htonl (push_bit 8 (mask 24)))) i \<longleftrightarrow> 32 - k \<le> i"
    by (intro exI [of _ 24]) simp
  moreover have "\<not> (\<exists>k \<le> 32. \<forall>i < 32. bit (5 :: u32) i \<longleftrightarrow> 32 - k \<le> i)"
  proof
    assume "\<exists>k \<le> 32. \<forall>i < 32. bit (5 :: u32) i \<longleftrightarrow> 32 - k \<le> i"
    then obtain k where k: "\<forall>i < 32. bit (5 :: u32) i \<longleftrightarrow> 32 - k \<le> i" by blast
    have b: "bit (5 :: u32) 0" "\<not> bit (5 :: u32) 1" by (simp_all add: bit_iff_odd)
    have "32 - k \<le> 0" using spec [OF k, of 0] b(1) by simp
    moreover have "\<not> 32 - k \<le> 1" using spec [OF k, of 1] b(2) by simp
    ultimately show False by simp
  qed
  ultimately show ?thesis
    using netmask_valid_correct [of "lwip_htonl (push_bit 8 (mask 24))"] netmask_valid_correct [of "lwip_htonl 5"]
    unfolding htonl_htonl [of 5] by blast
qed

end
