(* ===== verification/Udp_spec.thy ===== *)
theory Udp_spec imports Udp Pbuf_spec begin

text \<open>
  The properties of UDP: the list of control blocks and exclusive binding, what happens
  to an arriving datagram, and the header of a datagram that is sent.
\<close>

section \<open>The list of control blocks\<close>

definition udp_list_ok :: "'w udp_st \<Rightarrow> bool" where
  "udp_list_ok s \<longleftrightarrow> distinct (udp_pcbs s) \<and> (\<forall>a \<in> set (udp_pcbs s). udp_pcb_at s a \<noteq> None)"

text \<open>Two blocks that must not be bound at the same time.\<close>

definition udp_conflict :: "udp_pcb \<Rightarrow> udp_pcb \<Rightarrow> bool" where
  "udp_conflict b c \<longleftrightarrow>
     up_local_port b = up_local_port c \<and>
     (up_so_options b AND SOF_REUSEADDR = 0 \<or> up_so_options c AND SOF_REUSEADDR = 0) \<and>
     (ip_addr_cmp (up_local_ip b) (up_local_ip c) \<or> ip_addr_isany (up_local_ip b) \<or> ip_addr_isany (up_local_ip c))"

definition udp_exclusive :: "'w udp_st \<Rightarrow> bool" where
  "udp_exclusive s \<longleftrightarrow>
     (\<forall>i \<in> set (udp_pcbs s). \<forall>j \<in> set (udp_pcbs s). i \<noteq> j \<longrightarrow>
        (\<forall>b c. udp_pcb_at s i = Some b \<longrightarrow> udp_pcb_at s j = Some c \<longrightarrow> \<not> udp_conflict b c))"

lemma udp_conflict_sym: "udp_conflict b c \<longleftrightarrow> udp_conflict c b"
  by (auto simp: udp_conflict_def ip_addr_cmp_sym)

lemma ip_addr_copy_same [simp]:
  "ip_addr_cmp (ip_addr_copy a) c \<longleftrightarrow> ip_addr_cmp a c"
  "ip_addr_cmp c (ip_addr_copy a) \<longleftrightarrow> ip_addr_cmp c a"
  "ip_addr_isany (ip_addr_copy a) \<longleftrightarrow> ip_addr_isany a"
  by (auto simp: ip_addr_copy_def ip_addr_cmp_def ip_addr_isany_def IP_IS_V6_VAL_def ip_2_ip4_def ip6_of_ip4_def)

lemma upd_udp_simps [simp]:
  "udp_pcbs (upd_udp a f s) = udp_pcbs s" "u_hp (upd_udp a f s) = u_hp s" "udp_port (upd_udp a f s) = udp_port s"
  "u_world (upd_udp a f s) = u_world s"
  "udp_pcb_at (upd_udp a f s) = (udp_pcb_at s)(a := map_option f (udp_pcb_at s a))"
  by (simp_all add: upd_udp_def)

lemma udp_ports_used_iff:
  "p \<in> set (udp_ports_used s) \<longleftrightarrow> (\<exists>a b. a \<in> set (udp_pcbs s) \<and> udp_pcb_at s a = Some b \<and> up_local_port b = p)"
  by (force simp: udp_ports_used_def List.map_filter_def)

lemma udp_new_port_spec:
  assumes "udp_port s \<in> {0xc000..0xffff}" and "udp_new_port s = (s', port)"
  shows "\<exists>p. s' = s\<lparr>udp_port := p\<rparr> \<and> p \<in> {0xc000..0xffff} \<and>
    (port \<noteq> 0 \<longrightarrow> port \<in> {0xc000..0xffff} \<and> port \<notin> set (udp_ports_used s)) \<and>
    (port = 0 \<longleftrightarrow> {0xc000..0xffff} \<subseteq> set (udp_ports_used s))"
proof -
  obtain p where l: "udp_new_port_loop (udp_ports_used s) (udp_port s) 0 = (port, p)" and s': "s' = s\<lparr>udp_port := p\<rparr>"
    using assms(2) by (auto simp: udp_new_port_def udp_new_port_from_def split: prod.splits)
  show ?thesis
    using udp_ports.loop_free [OF assms(1) _ l] udp_ports.search_fails_iff [OF assms(1) l] s' by auto
qed

text \<open>Linking a block that conflicts with no other keeps the bindings exclusive.\<close>

lemma udp_link_exclusive:
  assumes "udp_list_ok s" and "udp_exclusive s" and b: "udp_pcb_at s pcb = Some b"
    and n: "\<And>i c. i \<in> set (udp_pcbs s) \<Longrightarrow> i \<noteq> pcb \<Longrightarrow> udp_pcb_at s i = Some c \<Longrightarrow> \<not> udp_conflict (f b) c"
    and l: "l = (if pcb \<in> set (udp_pcbs s) then udp_pcbs s else pcb # udp_pcbs s)"
  shows "udp_list_ok ((upd_udp pcb f s)\<lparr>udp_pcbs := l\<rparr>) \<and> udp_exclusive ((upd_udp pcb f s)\<lparr>udp_pcbs := l\<rparr>)"
proof
  show "udp_list_ok ((upd_udp pcb f s)\<lparr>udp_pcbs := l\<rparr>)" using assms(1) b l by (auto simp: udp_list_ok_def)
  have set_l: "set l = insert pcb (set (udp_pcbs s))" using l by auto
  have "\<not> udp_conflict x y"
    if i: "i \<in> set l" and j: "j \<in> set l" and ij: "i \<noteq> j"
      and x: "udp_pcb_at (upd_udp pcb f s) i = Some x" and y: "udp_pcb_at (upd_udp pcb f s) j = Some y" for i j x y
  proof -
    consider "i = pcb" | "j = pcb" | "i \<noteq> pcb" "j \<noteq> pcb" by blast
    then show ?thesis
    proof cases
      case 1
      then show ?thesis using n [of j y] b j ij x y set_l by auto
    next
      case 2
      then show ?thesis using n [of i x] b i ij x y set_l by (auto simp: udp_conflict_sym)
    next
      case 3
      then show ?thesis using assms(2) i j ij x y set_l by (auto simp: udp_exclusive_def)
    qed
  qed
  then show "udp_exclusive ((upd_udp pcb f s)\<lparr>udp_pcbs := l\<rparr>)" by (simp add: udp_exclusive_def)
qed

lemma udp_bind_in_use_iff:
  "udp_bind_in_use s pcb b ipaddr port \<longleftrightarrow>
    (\<exists>i c. i \<in> set (udp_pcbs s) \<and> i \<noteq> pcb \<and> udp_pcb_at s i = Some c \<and>
       udp_conflict (b\<lparr>up_local_ip := ip_addr_copy ipaddr, up_local_port := port\<rparr>) c)"
  by (fastforce simp: udp_bind_in_use_def list_ex_iff udp_conflict_def ip_addr_cmp_sym split: option.splits)

text \<open>C39: \<^verbatim>\<open>udp_bind\<close> returns. On success the block is linked (once) and bound to the
  address and port asked for, or to a port of the dynamic range no block used if none was
  given; otherwise it answers \<^verbatim>\<open>ERR_USE\<close> and binds nothing. Either way no two linked
  blocks end up bound in conflict: same port, overlapping addresses, not both reusable.\<close>

theorem udp_bind_exclusive:
  assumes ok: "udp_list_ok s" and ex: "udp_exclusive s" and b: "udp_pcb_at s pcb = Some b"
    and p: "udp_port s \<in> {0xc000..0xffff}"
  shows "\<exists>s' err. udp_bind s pcb (Some a) port = Some (s', err) \<and> udp_list_ok s' \<and> udp_exclusive s' \<and>
    udp_port s' \<in> {0xc000..0xffff} \<and>
    (if err = ERR_OK
     then pcb \<in> set (udp_pcbs s') \<and> (\<exists>port'. udp_pcb_at s' = (udp_pcb_at s)(pcb \<mapsto> b\<lparr>up_local_ip := ip_addr_copy a, up_local_port := port'\<rparr>) \<and>
       (if port = 0 then port' \<in> {0xc000..0xffff} \<and> port' \<notin> set (udp_ports_used s) else port' = port))
     else err = ERR_USE \<and> udp_pcbs s' = udp_pcbs s \<and> udp_pcb_at s' = udp_pcb_at s)"
proof -
  let ?l = "if pcb \<in> set (udp_pcbs s) then udp_pcbs s else pcb # udp_pcbs s"
  let ?f = "\<lambda>port'. \<lambda>p. p\<lparr>up_local_ip := ip_addr_copy a, up_local_port := port'\<rparr>"
  show ?thesis
  proof (cases "port = 0")
    case True
    obtain s1 port' where np: "udp_new_port s = (s1, port')" by (cases "udp_new_port s")
    obtain q where s1: "s1 = s\<lparr>udp_port := q\<rparr>" "q \<in> {0xc000..0xffff}"
      and free: "port' \<noteq> 0 \<longrightarrow> port' \<in> {0xc000..0xffff} \<and> port' \<notin> set (udp_ports_used s)"
      using udp_new_port_spec [OF p np] by blast
    have ok1: "udp_list_ok s1" "udp_exclusive s1" using ok ex s1 by (simp_all add: udp_list_ok_def udp_exclusive_def)
    show ?thesis
    proof (cases "port' = 0")
      case z: True
      then show ?thesis using True b np s1 ok1 by (simp add: udp_bind_def)
    next
      case False
      have nc: "\<not> udp_conflict (?f port' b) c" if "i \<in> set (udp_pcbs s1)" "i \<noteq> pcb" "udp_pcb_at s1 i = Some c" for i c
        using that False free s1 by (auto simp: udp_conflict_def udp_ports_used_iff)
      have "udp_list_ok ((upd_udp pcb (?f port') s1)\<lparr>udp_pcbs := ?l\<rparr>) \<and> udp_exclusive ((upd_udp pcb (?f port') s1)\<lparr>udp_pcbs := ?l\<rparr>)"
        by (rule udp_link_exclusive [OF ok1, of pcb b]) (use b s1 nc in auto)
      then show ?thesis using True False b np s1 free
        by (intro exI [of _ "(upd_udp pcb (?f port') s1)\<lparr>udp_pcbs := ?l\<rparr>"] exI [of _ ERR_OK])
           (auto simp: udp_bind_def Let_def)
    qed
  next
    case False
    show ?thesis
    proof (cases "udp_bind_in_use s pcb b a port")
      case True
      then show ?thesis using False b ok ex p by (simp add: udp_bind_def)
    next
      case nu: False
      have "udp_list_ok ((upd_udp pcb (?f port) s)\<lparr>udp_pcbs := ?l\<rparr>) \<and> udp_exclusive ((upd_udp pcb (?f port) s)\<lparr>udp_pcbs := ?l\<rparr>)"
        by (rule udp_link_exclusive [OF ok ex b]) (use nu in \<open>auto simp: udp_bind_in_use_iff\<close>)
      then show ?thesis using False nu b p
        by (intro exI [of _ "(upd_udp pcb (?f port) s)\<lparr>udp_pcbs := ?l\<rparr>"] exI [of _ ERR_OK])
           (auto simp: udp_bind_def Let_def)
    qed
  qed
qed

section \<open>Input\<close>

text \<open>The search ends at the first linked block, which has the destination port afterwards.\<close>

lemma udp_input_find_head:
  assumes "udp_pcbs s = a # r" and "udp_pcb_at s a = Some b"
  shows "udp_input_find s g inp broadcast src dest =
    Some (s\<lparr>udp_pcb_at := (udp_pcb_at s)(a \<mapsto> b\<lparr>up_local_port := dest\<rparr>)\<rparr>, Some a)"
proof -
  have same: "up_local_port b = dest \<Longrightarrow> s\<lparr>udp_pcb_at := (udp_pcb_at s)(a \<mapsto> b\<lparr>up_local_port := dest\<rparr>)\<rparr> = s"
    using assms(2) by (simp add: fun_upd_idem)
  show ?thesis
    using assms same
    by (auto simp: udp_input_find_def udp_input_round_def udp_input_uncon_def upd_udp_def Let_def)
qed

lemma udp_fields:
  assumes "packet h (Some p) (p # as)" and "i + 1 < length (pb_bytes h p)" and "pbufs h p = Some q"
  shows "ld_u16 h (pb_payload q + i) = Some (ld16 (content h (p # as) ! i) (content h (p # as) ! (i + 1)))"
  using ld_u16_load [OF pb_bytes_load [OF assms(3,1)], of i] assms packet_pbuf [OF assms(1,3)]
  by (simp add: nth_append)

text \<open>The receiver's test of the datagram \<open>bs\<close>.\<close>

definition udp_chksum_good :: "ip_globals \<Rightarrow> u8 list \<Rightarrow> bool" where
  "udp_chksum_good g bs \<longleftrightarrow> ld16 (bs ! 6) (bs ! 7) = 0 \<or>
     chksum_spec (ip_pseudo_header (current_iphdr_src g) (current_iphdr_dest g) IP_PROTO_UDP (of_nat (length bs)) @ bs) = -1"

text \<open>Up to the checksum, with the first block linked.\<close>

lemma udp_input_checked:
  assumes pk: "packet (u_hp s) (Some p) (p # as)" and len: "8 \<le> length (pb_bytes (u_hp s) p)"
    and head: "udp_pcbs s = a # r" "udp_pcb_at s a = Some b"
    and chk: "ue_chksum e = lwip_standard_chksum_2" and bs: "bs = content (u_hp s) (p # as)"
    and s': "s' = s\<lparr>udp_pcb_at := (udp_pcb_at s)(a \<mapsto> b\<lparr>up_local_port := be16 (bs ! 2) (bs ! 3)\<rparr>)\<rparr>"
  shows "udp_input e s g p inp =
    (if udp_chksum_good g bs
     then udp_input_deliver e s' g (ip_addr_isbroadcast (current_iphdr_dest g) (current_netif g)) (be16 (bs ! 0) (bs ! 1)) p (Some a)
     else udp_free_pbuf p s')"
proof -
  obtain q where q: "pbufs (u_hp s) p = Some q" using pk by (auto elim: packet_Cons_D)
  have ql: "\<not> unat (pb_len q) < UDP_HLEN" using packet_pbuf [OF pk q] len by (simp add: UDP_HLEN_def)
  have tl: "pb_tot_len q = of_nat (length bs)"
    using arg_cong [OF packet_tot_len [OF pk q], of "of_nat :: nat \<Rightarrow> u16"] by (simp add: bs)
  have f0: "ld_u16 (u_hp s) (pb_payload q) = Some (ld16 (bs ! 0) (bs ! 1))"
    and f2: "ld_u16 (u_hp s) (pb_payload q + 2) = Some (ld16 (bs ! 2) (bs ! 3))"
    and f6: "ld_u16 (u_hp s) (pb_payload q + 6) = Some (ld16 (bs ! 6) (bs ! 7))"
    using udp_fields [OF pk _ q, of 0] udp_fields [OF pk _ q, of 2] udp_fields [OF pk _ q, of 6] len
    by (simp_all add: bs del: content.simps)
  have c: "ip_chksum_pseudo lwip_standard_chksum_2 (u_hp s) (Some p) IP_PROTO_UDP (pb_tot_len q)
      (current_iphdr_src g) (current_iphdr_dest g) =
    Some (NOT (chksum_spec (ip_pseudo_header (current_iphdr_src g) (current_iphdr_dest g) IP_PROTO_UDP (of_nat (length bs)) @ bs)))"
    using v2.ip_chksum_pseudo_bytes [OF pk] by (simp only: tl bs)
  show ?thesis
    using q ql f0 f2 f6 c chk s' udp_input_find_head [OF head]
    by (simp add: udp_input_def Let_def udp_chksum_good_def)
qed

text \<open>C36: \<^verbatim>\<open>udp_input\<close> hands every datagram with a good (or no) checksum to the first
  linked block, whatever ports and addresses that block is bound or connected to: the
  receive callback gets the source port and address and the bytes behind the UDP header,
  and the block's local port has become the datagram's destination port.\<close>

theorem udp_input_transparent:
  assumes "packet (u_hp s) (Some p) (p # as)" and "8 \<le> length (pb_bytes (u_hp s) p)"
    and "udp_pcbs s = a # r" and "udp_pcb_at s a = Some b" and "up_recv b = Some f"
    and "ue_chksum e = lwip_standard_chksum_2" and "bs = content (u_hp s) (p # as)" and "udp_chksum_good g bs"
  shows "\<exists>h'. udp_input e s g p inp =
      ue_recv e f (up_recv_arg b) a p (current_iphdr_src g) (be16 (bs ! 0) (bs ! 1))
        (s\<lparr>udp_pcb_at := (udp_pcb_at s)(a \<mapsto> b\<lparr>up_local_port := be16 (bs ! 2) (bs ! 3)\<rparr>), u_hp := h'\<rparr>) \<and>
    packet h' (Some p) (p # as) \<and> content h' (p # as) = drop 8 bs \<and> bytes h' = bytes (u_hp s)"
proof -
  obtain h' where h': "pbuf_remove_header (u_hp s) (Some p) 8 = Some (h', 0)" "packet h' (Some p) (p # as)"
    "content h' (p # as) = drop 8 bs" "bytes h' = bytes (u_hp s)"
    using pbuf_remove_header_packet [OF assms(1,2)] assms(7) by blast
  then show ?thesis
    using udp_input_checked [OF assms(1-4,6,7) refl] assms(5,8)
    by (intro exI [of _ h']) (simp add: udp_input_deliver_def UDP_HLEN_def)
qed

text \<open>C37: a datagram with a wrong checksum is dropped: its buffers are released, no
  callback is called, and only the first block's local port has changed.\<close>

theorem udp_input_bad_chksum:
  assumes "hp_ok (u_hp s)" and "own_chain (u_hp s) (p # as)"
    and "packet (u_hp s) (Some p) (p # as)" and "8 \<le> length (pb_bytes (u_hp s) p)"
    and "udp_pcbs s = a # r" and "udp_pcb_at s a = Some b"
    and "ue_chksum e = lwip_standard_chksum_2" and "bs = content (u_hp s) (p # as)" and "\<not> udp_chksum_good g bs"
  shows "\<exists>h'. udp_input e s g p inp =
      Some (s\<lparr>udp_pcb_at := (udp_pcb_at s)(a \<mapsto> b\<lparr>up_local_port := be16 (bs ! 2) (bs ! 3)\<rparr>), u_hp := h'\<rparr>) \<and>
    h' = unref (free_set (u_hp s) (set (sole (u_hp s) (p # as)))) (kept (u_hp s) (p # as)) \<and> hp_ok h'"
  using udp_input_checked [OF assms(3-8) refl] assms(9)
    pbuf_free_chain [OF assms(1) packet_chain [OF assms(3)] assms(2)]
    hp_ok_free [OF assms(1) chain_distinct [OF packet_chain [OF assms(3)]]]
  by (simp add: udp_free_pbuf_def)

section \<open>Output\<close>

text \<open>The header a datagram of \<open>n\<close> bytes gets.\<close>

definition udp_header :: "u16 \<Rightarrow> u16 \<Rightarrow> u16 \<Rightarrow> u8 list \<Rightarrow> u8 list" where
  "udp_header src dest n chksum = be16_bytes src @ be16_bytes dest @ be16_bytes n @ chksum"

lemma length_8_cases:
  assumes "8 \<le> length bs"
  obtains b0 b1 b2 b3 b4 b5 b6 b7 r where "bs = [b0, b1, b2, b3, b4, b5, b6, b7] @ r"
  using assms by (auto simp: Suc_le_length_iff numeral_eq_Suc)

lemma be16_bytes_htons: "u16_bytes (lwip_htons x) = be16_bytes x"
  by (rule u16_bytes_htons)

lemma u16_bytes_ffff: "u16_bytes 0xffff = [0xff, 0xff]"
  by (simp add: u16_bytes_def word_unat_eq_iff)

text \<open>Everything \<^verbatim>\<open>udp_sendto_if_src\<close> writes before the checksum.\<close>

lemma udp_header_writes:
  assumes ok: "hp_ok h" and pk: "packet h (Some q) (q # as)" and own: "own_chain h (q # as)"
    and q: "pbufs h q = Some qb" and len: "8 \<le> length (pb_bytes h q)"
  shows "\<exists>h1 h2 h3 h5. st_u16 h (pb_payload qb) (lwip_htons sp) = Some h1 \<and>
    st_u16 h1 (pb_payload qb + 2) (lwip_htons dp) = Some h2 \<and> st_u16 h2 (pb_payload qb + 6) 0 = Some h3 \<and>
    st_u16 (if mc then upd_pbuf h3 q (\<lambda>b. b\<lparr>pb_flags := pb_flags b OR PBUF_FLAG_MCASTLOOP\<rparr>) else h3)
      (pb_payload qb + 4) (lwip_htons n) = Some h5 \<and>
    hp_ok h5 \<and> packet h5 (Some q) (q # as) \<and> own_chain h5 (q # as) \<and> 8 \<le> length (pb_bytes h5 q) \<and>
    (\<exists>qb'. pbufs h5 q = Some qb' \<and> pb_payload qb' = pb_payload qb) \<and>
    content h5 (q # as) = udp_header sp dp n [0, 0] @ drop 8 (content h (q # as))"
proof -
  let ?bs = "content h (q # as)"
  have "8 \<le> length ?bs" using len by simp
  then obtain b0 b1 b2 b3 b4 b5 b6 b7 r where bs: "?bs = [b0, b1, b2, b3, b4, b5, b6, b7] @ r" by (rule length_8_cases)
  obtain h1 where h1: "st_u16 h (pb_payload qb) (lwip_htons sp) = Some h1" "hp_ok h1" "packet h1 (Some q) (q # as)"
    "own_chain h1 (q # as)" "pbufs h1 = pbufs h" "length (pb_bytes h1 q) = length (pb_bytes h q)"
    "content h1 (q # as) = be16_bytes sp @ [b2, b3, b4, b5, b6, b7] @ r"
    using st_bytes_packet [OF ok pk own q, of 0 "be16_bytes sp"] len bs
    by (auto simp: st_u16_def be16_bytes_htons simp del: content.simps)
  obtain h2 where h2: "st_u16 h1 (pb_payload qb + 2) (lwip_htons dp) = Some h2" "hp_ok h2" "packet h2 (Some q) (q # as)"
    "own_chain h2 (q # as)" "pbufs h2 = pbufs h" "length (pb_bytes h2 q) = length (pb_bytes h q)"
    "content h2 (q # as) = be16_bytes sp @ be16_bytes dp @ [b4, b5, b6, b7] @ r"
    using st_bytes_packet [OF h1(2-4), of qb 2 "be16_bytes dp"] len q h1
    by (auto simp: st_u16_def be16_bytes_htons simp del: content.simps)
  obtain h3 where h3: "st_u16 h2 (pb_payload qb + 6) 0 = Some h3" "hp_ok h3" "packet h3 (Some q) (q # as)"
    "own_chain h3 (q # as)" "pbufs h3 = pbufs h" "length (pb_bytes h3 q) = length (pb_bytes h q)"
    "content h3 (q # as) = be16_bytes sp @ be16_bytes dp @ [b4, b5, 0, 0] @ r"
    using st_bytes_packet [OF h2(2-4), of qb 6 "[0, 0]"] len q h2
    by (auto simp: st_u16_def u16_bytes_def simp del: content.simps)
  define h4 where "h4 = (if mc then upd_pbuf h3 q (\<lambda>b. b\<lparr>pb_flags := pb_flags b OR PBUF_FLAG_MCASTLOOP\<rparr>) else h3)"
  obtain qb4 where qb4: "pbufs h4 q = Some qb4" "pb_payload qb4 = pb_payload qb"
    using q h3(5) by (cases mc) (auto simp: h4_def)
  have h4: "hp_ok h4" "packet h4 (Some q) (q # as)" "own_chain h4 (q # as)" "pb_bytes h4 q = pb_bytes h3 q"
    "content h4 (q # as) = content h3 (q # as)"
  proof -
    show "hp_ok h4"
    proof (cases mc)
      case True
      have "hp_ok (upd_pbuf h3 q (\<lambda>b. b\<lparr>pb_flags := pb_flags b OR PBUF_FLAG_MCASTLOOP\<rparr>))"
        by (rule hp_ok_upd [OF h3(2)]) (use h3(2) in \<open>simp add: hp_ok_def pbuf_ok_def resident_def\<close>)
      then show ?thesis using True by (simp add: h4_def)
    qed (use h3(2) in \<open>simp add: h4_def\<close>)
    show "own_chain h4 (q # as)"
    proof -
      have m: "(x OR PBUF_FLAG_MCASTLOOP) AND PBUF_FLAG_IS_CUSTOM = x AND PBUF_FLAG_IS_CUSTOM" for x
      proof -
        have "PBUF_FLAG_MCASTLOOP AND PBUF_FLAG_IS_CUSTOM = 0"
          by (simp add: PBUF_FLAG_MCASTLOOP_def PBUF_FLAG_IS_CUSTOM_def)
        then show ?thesis by (simp add: bit.conj_disj_distrib2)
      qed
      show ?thesis using h3(4) unfolding h4_def own_chain_def
        by (auto simp: resident_def plain_def pbuf_get_allocsrc_def m split: if_splits)
    qed
  qed (use packet_upd_flags [OF h3(3), of "\<lambda>b. pb_flags b OR PBUF_FLAG_MCASTLOOP"] h3 in
        \<open>auto simp: h4_def simp del: content.simps\<close>)
  obtain h5 where h5: "st_u16 h4 (pb_payload qb + 4) (lwip_htons n) = Some h5" "hp_ok h5" "packet h5 (Some q) (q # as)"
    "own_chain h5 (q # as)" "pbufs h5 = pbufs h4" "length (pb_bytes h5 q) = length (pb_bytes h4 q)"
    "content h5 (q # as) = be16_bytes sp @ be16_bytes dp @ be16_bytes n @ [0, 0] @ r"
    using st_bytes_packet [OF h4(1-3) qb4(1), of 4 "be16_bytes n"] len h4 h3 qb4
    by (auto simp: st_u16_def be16_bytes_htons simp del: content.simps)
  show ?thesis
    using h1(1) h2(1) h3(1) h5 h4(4) h3(6) len qb4 bs
    by (intro exI [of _ h1] exI [of _ h2] exI [of _ h3] exI [of _ h5])
       (simp add: udp_header_def flip: h4_def del: content.simps)
qed

text \<open>C38: the header \<^verbatim>\<open>udp_sendto_if_src\<close> puts in front of the data has the ports, the
  length of the datagram and, unless checksums are off for this IPv4 block, a non-zero
  checksum with which the datagram passes the receiver's test; the data are unchanged.\<close>

theorem udp_fill_header_verifies:
  assumes "hp_ok h" and "packet h (Some q) (q # as)" and "own_chain h (q # as)"
    and len: "8 \<le> length (pb_bytes h q)" and "ue_chksum e = lwip_standard_chksum_2"
  shows "\<exists>h' c. udp_fill_header e h b q src dst dport = Some h' \<and> hp_ok h' \<and> packet h' (Some q) (q # as) \<and>
    content h' (q # as) = udp_header (up_local_port b) dport (of_nat (length (content h (q # as)))) c @ drop 8 (content h (q # as)) \<and>
    (if IP_IS_V6_VAL dst \<or> up_flags b AND UDP_FLAGS_NOCHKSUM = 0
     then c \<noteq> [0, 0] \<and> chksum_spec (ip_pseudo_header src dst IP_PROTO_UDP (of_nat (length (content h (q # as)))) @
       content h' (q # as)) = -1
     else c = [0, 0])"
proof -
  define n :: u16 where "n = of_nat (length (content h (q # as)))"
  define mc where "mc \<longleftrightarrow> up_flags b AND UDP_FLAGS_MULTICAST_LOOP \<noteq> 0 \<and> ip_addr_ismulticast dst"
  obtain qb where q: "pbufs h q = Some qb" using assms(2) by (auto elim: packet_Cons_D)
  have tl: "pb_tot_len qb = n"
    using arg_cong [OF packet_tot_len [OF assms(2) q], of "of_nat :: nat \<Rightarrow> u16"] by (simp add: n_def)
  have ql: "UDP_HLEN \<le> unat (pb_len qb)" using packet_pbuf [OF assms(2) q] len by (simp add: UDP_HLEN_def)
  obtain h1 h2 h3 h5 qb' where w: "st_u16 h (pb_payload qb) (lwip_htons (up_local_port b)) = Some h1"
    "st_u16 h1 (pb_payload qb + 2) (lwip_htons dport) = Some h2" "st_u16 h2 (pb_payload qb + 6) 0 = Some h3"
    "st_u16 (if mc then upd_pbuf h3 q (\<lambda>b. b\<lparr>pb_flags := pb_flags b OR PBUF_FLAG_MCASTLOOP\<rparr>) else h3)
      (pb_payload qb + 4) (lwip_htons n) = Some h5"
    and h5: "hp_ok h5" "packet h5 (Some q) (q # as)" "own_chain h5 (q # as)" "8 \<le> length (pb_bytes h5 q)"
    and qb': "pbufs h5 q = Some qb'" "pb_payload qb' = pb_payload qb"
    and c5: "content h5 (q # as) = udp_header (up_local_port b) dport n [0, 0] @ drop 8 (content h (q # as))"
    using udp_header_writes [OF assms(1-3) q len] by blast
  let ?ps = "ip_pseudo_header src dst IP_PROTO_UDP n"
  let ?pre = "be16_bytes (up_local_port b) @ be16_bytes dport @ be16_bytes n"
  let ?post = "drop 8 (content h (q # as))"
  define c where "c = NOT (chksum_spec ((?ps @ ?pre) @ [0, 0] @ ?post))"
  define c' where "c' = (if c = 0 then 0xffff else c)"
  have ck: "ip_chksum_pseudo lwip_standard_chksum_2 h5 (Some q) IP_PROTO_UDP n src dst = Some c"
    using v2.ip_chksum_pseudo_bytes [OF h5(2)] c5 by (simp add: c_def udp_header_def del: content.simps)
  obtain h6 where h6: "st_u16 h5 (pb_payload qb + 6) c' = Some h6" "hp_ok h6" "packet h6 (Some q) (q # as)"
    "content h6 (q # as) = udp_header (up_local_port b) dport n (u16_bytes c') @ ?post"
    using st_bytes_packet [OF h5(1-3) qb'(1), of 6 "u16_bytes c'"] h5(4) qb'(2) c5
    by (auto simp: st_u16_def udp_header_def be16_bytes_def simp del: content.simps)
  have ev: "even (length (?ps @ ?pre))" using even_pseudo_header by simp
  have good: "chksum_spec (?ps @ content h6 (q # as)) = -1"
    using chksum_spec_zero_field [OF ev c_def] h6(4)
    by (cases "c = 0") (simp_all add: udp_header_def u16_bytes_ffff c'_def, simp add: u16_bytes_def)
  have nz: "u16_bytes c' \<noteq> [0, 0]"
  proof
    assume "u16_bytes c' = [0, 0]"
    then have "ld16 0 0 = c'" using ld16_u16_bytes [of c'] by (simp add: u16_bytes_def)
    then show False by (simp add: c'_def ld16_def split: if_splits)
  qed
  show ?thesis
  proof (cases "IP_IS_V6_VAL dst \<or> up_flags b AND UDP_FLAGS_NOCHKSUM = 0")
    case True
    then have "udp_fill_header e h b q src dst dport = Some h6"
      using q ql w tl ck h6(1) assms(5) by (simp add: udp_fill_header_def Let_def mc_def c'_def)
    then show ?thesis using True h6(2-4) good nz
      by (intro exI [of _ h6] exI [of _ "u16_bytes c'"]) (simp add: n_def del: content.simps)
  next
    case False
    then have "udp_fill_header e h b q src dst dport = Some h5"
      using q ql w tl by (simp add: udp_fill_header_def Let_def mc_def)
    then show ?thesis using False h5 c5
      by (intro exI [of _ h5] exI [of _ "[0, 0]"]) (simp add: n_def del: content.simps)
  qed
qed

section \<open>A small stack\<close>

definition sample_netif :: netif where
  "sample_netif = \<lparr>netif_ip_addr = ip_addr_copy_from_ip4 0x0100000a, netif_netmask = ip_addr_copy_from_ip4 0x00ffffff,
     netif_gw = ip_addr_copy_from_ip4 0x0100000a, netif_ip6_addr = [], netif_ip6_addr_state = [],
     netif_mtu = 1500, netif_mtu6 = 1500, netif_flags = 5, netif_num = 0\<rparr>"

definition sample_globals :: ip_globals where
  "sample_globals = \<lparr>current_netif = sample_netif, current_input_netif = sample_netif, ip_current_is_v6 = False,
     current_ip_header_tot_len = 20, current_iphdr_src = ip_addr_copy_from_ip4 0x0200000a,
     current_iphdr_dest = ip_addr_copy_from_ip4 0x08080808\<rparr>"

text \<open>A datagram from port 53 to port 1000 with two bytes of data; \<open>c\<close> stands in
  the checksum field.\<close>

definition dgram :: "u8 \<Rightarrow> u8 list" where
  "dgram c = [0, 53, 3, 232, 0, 10, 0, c, 7, 9]"

definition dgram_hp :: "u8 \<Rightarrow> hp" where
  "dgram_hp c = \<lparr>bytes = put_bytes (\<lambda>x. None) 40 (dgram c), blocks = [16 \<mapsto> 34],
     pbufs = [16 \<mapsto> small_pbuf None 40 10 10], pbuf_free_ooseq_pending = False\<rparr>"

definition any_pcb :: udp_pcb where
  "any_pcb = \<lparr>up_local_ip = ip_addr_any, up_remote_ip = ip_addr_any, up_netif_idx = 0, up_so_options = 0,
     up_tos = 0, up_ttl = UDP_TTL, up_flags = 0, up_local_port = 80, up_remote_port = 0, up_mcast_ip4 = 0,
     up_mcast_ifindex = 0, up_mcast_ttl = UDP_TTL, up_recv = Some 1, up_recv_arg = 2\<rparr>"

text \<open>The world counts the datagrams that were received.\<close>

definition sample_udp :: "u8 \<Rightarrow> nat udp_st" where
  "sample_udp c = \<lparr>u_hp = dgram_hp c, udp_pcbs = [200, 300],
     udp_pcb_at = [200 \<mapsto> any_pcb, 300 \<mapsto> any_pcb\<lparr>up_local_port := 81\<rparr>, 400 \<mapsto> any_pcb\<lparr>up_local_port := 0\<rparr>],
     udp_port = 0xc000, u_world = 0\<rparr>"

definition sample_udp_env :: "nat udp_env" where
  "sample_udp_env = \<lparr>ue_alloc = arena_alloc, ue_chksum = lwip_standard_chksum_2, ue_pcb_alloc = (\<lambda>s. None),
     ue_ip_route = (\<lambda>w src dest. Some sample_netif), ue_ip4_route_src = (\<lambda>w src dest. Some sample_netif),
     ue_netif_get_by_index = (\<lambda>w i. Some sample_netif), ue_ip6_select_source_address = (\<lambda>w n a. None),
     ue_ip_output_if_src = (\<lambda>p src dest ttl tos proto n s. Some (s, ERR_OK)),
     ue_icmp_port_unreach = (\<lambda>v6 p s. Some s),
     ue_recv = (\<lambda>f arg pcb p a port s. Some (s\<lparr>u_world := u_world s + unat port\<rparr>))\<rparr>"

lemma length_dgram [simp]: "length (dgram c) = 10"
  by (simp add: dgram_def)

lemma dgram_load: "load (put_bytes (\<lambda>x. None) 40 (dgram c)) 40 10 = Some (dgram c)"
  using load_put_same [of "\<lambda>x. None" 40 "dgram c"] by simp

lemma dgram_packet: "packet (dgram_hp c) (Some 16) [16]" "pb_bytes (dgram_hp c) 16 = dgram c" "own_chain (dgram_hp c) [16]"
  by (simp_all add: packet.simps(2) dgram_hp_def pb_bytes_def dgram_load)

lemma dgram_hp_ok: "hp_ok (dgram_hp c)"
  by (auto simp: hp_ok_def blocks_ok_def pbuf_ok_def dgram_hp_def SIZEOF_STRUCT_PBUF_def put_bytes_def split: if_splits)

lemma sample_udp_simps [simp]:
  "u_hp (sample_udp c) = dgram_hp c" "udp_pcbs (sample_udp c) = [200, 300]" "udp_port (sample_udp c) = 0xc000" "u_world (sample_udp c) = 0"
  "udp_pcb_at (sample_udp c) 200 = Some any_pcb" "udp_pcb_at (sample_udp c) 300 = Some (any_pcb\<lparr>up_local_port := 81\<rparr>)"
  "udp_pcb_at (sample_udp c) 400 = Some (any_pcb\<lparr>up_local_port := 0\<rparr>)"
  by (simp_all add: sample_udp_def)

lemma any_pcb_simps [simp]: "up_recv any_pcb = Some 1" "up_recv_arg any_pcb = 2" "up_local_port any_pcb = 80" "up_flags any_pcb = 0"
  by (simp_all add: any_pcb_def)

lemma sample_env_simps [simp]:
  "ue_chksum sample_udp_env = lwip_standard_chksum_2"
  "ue_recv sample_udp_env f arg pcb p a port s = Some (s\<lparr>u_world := u_world s + unat port\<rparr>)"
  by (simp_all add: sample_udp_env_def)

section \<open>Ports\<close>

text \<open>C40: \<^verbatim>\<open>udp_new_port\<close> returns a port of the dynamic range that no linked block
  is bound to, and answers 0 exactly when every port of the range is taken; the counter
  stays in the range.\<close>

theorem udp_new_port_correct:
  assumes "udp_port s \<in> {0xc000..0xffff}" and "udp_new_port s = (s', port)"
  shows "\<exists>p. s' = s\<lparr>udp_port := p\<rparr> \<and> p \<in> {0xc000..0xffff} \<and>
    (port \<noteq> 0 \<longrightarrow> port \<in> {0xc000..0xffff} \<and> port \<notin> set (udp_ports_used s)) \<and>
    (port = 0 \<longleftrightarrow> {0xc000..0xffff} \<subseteq> set (udp_ports_used s))"
  using assms by (rule udp_new_port_spec)

text \<open>TCP's search leaves the dynamic range when its counter starts at the last
  port, a value \<^verbatim>\<open>tcp_init\<close> can give it: it answers 0 although every port is
  free, and goes on with port 1.\<close>

theorem tcp_port_leaves_range:
  "ENSURE_LOCAL_PORT_RANGE 0x3fff = 0xffff \<and> tcp_new_port_from [] 0xffff = (0, 0) \<and> tcp_new_port_from [] 0 = (1, 1)"
  by (simp add: ENSURE_LOCAL_PORT_RANGE_def tcp_new_port_from_def tcp_new_port_loop.simps tcp_next_port_def)

section \<open>Witnesses\<close>

theorem udp_new_port_correct_witness:
  "\<exists>s' port. udp_new_port (sample_udp 0) = (s', port) \<and>
     (port = 0 \<longleftrightarrow> {0xc000..0xffff} \<subseteq> set (udp_ports_used (sample_udp 0)))"
proof -
  obtain s' port where "udp_new_port (sample_udp 0) = (s', port)" by (cases "udp_new_port (sample_udp 0)")
  then show ?thesis using udp_new_port_correct [of "sample_udp 0" s' port] by auto
qed

theorem udp_bind_exclusive_witness:
  "\<exists>s' err. udp_bind (sample_udp 0) 400 (Some ip_addr_any) 82 = Some (s', err) \<and> udp_exclusive s' \<and> err = ERR_OK"
proof -
  have ex: "udp_list_ok (sample_udp 0)" "udp_exclusive (sample_udp 0)"
    by (simp_all add: udp_list_ok_def udp_exclusive_def udp_conflict_def)
  have n: "\<not> udp_bind_in_use (sample_udp 0) 400 (any_pcb\<lparr>up_local_port := 0\<rparr>) ip_addr_any 82"
    by (simp add: udp_bind_in_use_def)
  have "\<exists>s'. udp_bind (sample_udp 0) 400 (Some ip_addr_any) 82 = Some (s', ERR_OK)"
    using n by (simp add: udp_bind_def)
  then show ?thesis
    using udp_bind_exclusive [OF ex, of 400 "any_pcb\<lparr>up_local_port := 0\<rparr>" ip_addr_any 82] by auto
qed

theorem udp_input_transparent_witness:
  "\<exists>h'. udp_input sample_udp_env (sample_udp 0) sample_globals 16 sample_netif =
     Some (sample_udp 0\<lparr>udp_pcb_at := (udp_pcb_at (sample_udp 0))(200 \<mapsto> any_pcb\<lparr>up_local_port := 1000\<rparr>), u_hp := h', u_world := 53\<rparr>) \<and>
   content h' [16] = [7, 9]"
  using udp_input_transparent [of "sample_udp 0" 16 "[]" 200 "[300]" any_pcb 1 sample_udp_env "dgram 0" sample_globals sample_netif]
  by (auto simp: dgram_packet dgram_def udp_chksum_good_def be16_def ld16_def)

theorem udp_input_bad_chksum_witness:
  "\<exists>h'. udp_input sample_udp_env (sample_udp 1) sample_globals 16 sample_netif =
     Some (sample_udp 1\<lparr>udp_pcb_at := (udp_pcb_at (sample_udp 1))(200 \<mapsto> any_pcb\<lparr>up_local_port := 1000\<rparr>), u_hp := h'\<rparr>) \<and> hp_ok h'"
proof -
  have "\<not> udp_chksum_good sample_globals (dgram 1)"
    by (simp add: udp_chksum_good_def sample_globals_def dgram_def ld16_def ip_pseudo_header_def IP_IS_V6_VAL_def
        ip_addr_copy_from_ip4_def IPADDR_TYPE_V4_def IPADDR_TYPE_V6_def ip4_pseudo_header_def ip4_bytes_def
        ip4_addr_get_byte_def ip_2_ip4_def ip6_of_ip4_def be16_bytes_def IP_PROTO_UDP_def chksum_spec_def oc_def)
  then show ?thesis
    using udp_input_bad_chksum [of "sample_udp 1" 16 "[]" 200 "[300]" any_pcb sample_udp_env "dgram 1" sample_globals sample_netif]
      dgram_packet [of 1] dgram_hp_ok [of 1]
    by (auto simp: dgram_def be16_def simp del: own_chain_simps)
qed

theorem udp_fill_header_verifies_witness:
  "\<exists>h' c. udp_fill_header sample_udp_env (dgram_hp 0) any_pcb 16 ip_addr_any ip_addr_any 7 = Some h' \<and>
     content h' [16] = [0, 80, 0, 7, 0, 10] @ c @ [7, 9] \<and> c \<noteq> [0, 0]"
  using udp_fill_header_verifies [OF dgram_hp_ok [of 0] dgram_packet(1,3) [of 0], where e = sample_udp_env and b = any_pcb
      and src = ip_addr_any and dst = ip_addr_any and dport = 7]
  by (auto simp: dgram_packet udp_header_def be16_bytes_def dgram_def)

end
