(* ===== verification/Timeouts.thy ===== *)
theory Timeouts imports Prelude begin

text \<open>
  The timers of \<^verbatim>\<open>core/timeouts.c\<close>: a list of one-shot timeouts ordered by due time
  under 32-bit wrap-around, the cyclic timers, the on-demand TCP timer, and the main
  loop's \<^verbatim>\<open>sys_check_timeouts\<close>.

  The linked list \<^verbatim>\<open>next_timeout\<close> is a list. What the timers act on is the
  \<open>world\<close>; the clock, the memory pool of the timeouts, the question whether TCP has
  control blocks, the check for out-of-sequence data to be freed and the handlers
  themselves are the fields of an environment.
\<close>

section \<open>State\<close>

datatype sys_timeout_handler = tcpip_tcp_timer_h | lwip_cyclic_timer_h | other_h nat

record sys_timeo =
  tm_time :: u32
  tm_h :: "sys_timeout_handler option"
  tm_arg :: nat

record 'w timers =
  next_timeout :: "sys_timeo list"
  current_timeout_due_time :: u32
  tcpip_tcp_timer_active :: bool
  world :: 'w

record 'w tenv =
  sys_now :: "'w \<Rightarrow> u32"
  memp_ok :: "'w \<Rightarrow> bool"
  tcp_pcbs :: "'w \<Rightarrow> bool"
  check_free_ooseq :: "'w \<Rightarrow> 'w"
  cyclic_handler :: "nat \<Rightarrow> 'w timers \<Rightarrow> 'w timers option"
  other_handler :: "nat \<Rightarrow> nat \<Rightarrow> 'w timers \<Rightarrow> 'w timers option"

text \<open>The intervals of \<^verbatim>\<open>lwip_cyclic_timers\<close>: TCP, IPv4 reassembly, ND6, IPv6
  reassembly, MLD6.\<close>

definition lwip_cyclic_timers :: "u32 list" where
  "lwip_cyclic_timers = [250, 1000, 1000, 1000, 100]"

definition LWIP_MAX_TIMEOUT :: u32 where "LWIP_MAX_TIMEOUT = 0x7fffffff"

definition TIME_LESS_THAN :: "u32 \<Rightarrow> u32 \<Rightarrow> bool" where
  "TIME_LESS_THAN t compare_to \<longleftrightarrow> t - compare_to > LWIP_MAX_TIMEOUT"

definition SYS_TIMEOUTS_SLEEPTIME_INFINITE :: u32 where
  "SYS_TIMEOUTS_SLEEPTIME_INFINITE = 0xffffffff"

section \<open>Operations\<close>

text \<open>The loop that looks for the place behind a node.\<close>

fun insert_after :: "sys_timeo \<Rightarrow> sys_timeo list \<Rightarrow> sys_timeo list" where
  "insert_after timeout [] = []"
| "insert_after timeout [t] = [t, timeout]"
| "insert_after timeout (t # n # ts) =
     (if TIME_LESS_THAN (tm_time timeout) (tm_time n) then t # timeout # n # ts
      else t # insert_after timeout (n # ts))"

definition insert_timeout :: "sys_timeo \<Rightarrow> sys_timeo list \<Rightarrow> sys_timeo list" where
  "insert_timeout timeout ts =
     (case ts of
        [] \<Rightarrow> [timeout]
      | n # _ \<Rightarrow>
          if TIME_LESS_THAN (tm_time timeout) (tm_time n) then timeout # ts
          else insert_after timeout ts)"

definition sys_timeout_abs ::
    "'w tenv \<Rightarrow> u32 \<Rightarrow> sys_timeout_handler option \<Rightarrow> nat \<Rightarrow> 'w timers \<Rightarrow> 'w timers option" where
  "sys_timeout_abs e abs_time handler arg s = do {
     LWIP_ASSERT (memp_ok e (world s));
     Some (s\<lparr>next_timeout :=
       insert_timeout \<lparr>tm_time = abs_time, tm_h = handler, tm_arg = arg\<rparr> (next_timeout s)\<rparr>) }"

definition sys_timeout ::
    "'w tenv \<Rightarrow> u32 \<Rightarrow> sys_timeout_handler option \<Rightarrow> nat \<Rightarrow> 'w timers \<Rightarrow> 'w timers option" where
  "sys_timeout e msecs handler arg s = do {
     LWIP_ASSERT (msecs \<le> 0xffffffff div 4);
     sys_timeout_abs e (sys_now e (world s) + msecs) handler arg s }"

definition tcpip_tcp_timer :: "'w tenv \<Rightarrow> 'w timers \<Rightarrow> 'w timers option" where
  "tcpip_tcp_timer e s = do {
     s \<leftarrow> cyclic_handler e 0 s;
     (if tcp_pcbs e (world s)
      then sys_timeout e 250 (Some tcpip_tcp_timer_h) 0 s
      else Some (s\<lparr>tcpip_tcp_timer_active := False\<rparr>)) }"

definition tcp_timer_needed :: "'w tenv \<Rightarrow> 'w timers \<Rightarrow> 'w timers option" where
  "tcp_timer_needed e s =
     (if \<not> tcpip_tcp_timer_active s \<and> tcp_pcbs e (world s)
      then sys_timeout e 250 (Some tcpip_tcp_timer_h) 0 (s\<lparr>tcpip_tcp_timer_active := True\<rparr>)
      else Some s)"

definition lwip_cyclic_timer :: "'w tenv \<Rightarrow> nat \<Rightarrow> 'w timers \<Rightarrow> 'w timers option" where
  "lwip_cyclic_timer e arg s = do {
     let interval_ms = lwip_cyclic_timers ! arg;
     s \<leftarrow> cyclic_handler e arg s;
     let now = sys_now e (world s);
     let next_timeout_time = current_timeout_due_time s + interval_ms;
     (if TIME_LESS_THAN next_timeout_time now
      then sys_timeout_abs e (now + interval_ms) (Some lwip_cyclic_timer_h) arg s
      else sys_timeout_abs e next_timeout_time (Some lwip_cyclic_timer_h) arg s) }"

fun init_from :: "'w tenv \<Rightarrow> nat list \<Rightarrow> 'w timers \<Rightarrow> 'w timers option" where
  "init_from e [] s = Some s"
| "init_from e (i # is) s = do {
     s \<leftarrow> sys_timeout e (lwip_cyclic_timers ! i) (Some lwip_cyclic_timer_h) i s;
     init_from e is s }"

definition sys_timeouts_init :: "'w tenv \<Rightarrow> 'w timers \<Rightarrow> 'w timers option" where
  "sys_timeouts_init e s = init_from e [1..<length lwip_cyclic_timers] s"

fun remove_timeout :: "sys_timeout_handler option \<Rightarrow> nat \<Rightarrow> sys_timeo list \<Rightarrow> sys_timeo list" where
  "remove_timeout handler arg [] = []"
| "remove_timeout handler arg (t # ts) =
     (if tm_h t = handler \<and> tm_arg t = arg then ts else t # remove_timeout handler arg ts)"

definition sys_untimeout :: "sys_timeout_handler option \<Rightarrow> nat \<Rightarrow> 'w timers \<Rightarrow> 'w timers" where
  "sys_untimeout handler arg s = s\<lparr>next_timeout := remove_timeout handler arg (next_timeout s)\<rparr>"

definition call_handler :: "'w tenv \<Rightarrow> sys_timeout_handler option \<Rightarrow> nat \<Rightarrow> 'w timers \<Rightarrow> 'w timers option" where
  "call_handler e h arg s =
     (case h of
        None \<Rightarrow> Some s
      | Some tcpip_tcp_timer_h \<Rightarrow> tcpip_tcp_timer e s
      | Some lwip_cyclic_timer_h \<Rightarrow> lwip_cyclic_timer e arg s
      | Some (other_h n) \<Rightarrow> other_handler e n arg s)"

text \<open>The head is unlinked, its due time recorded, and its handler called.\<close>

definition fire :: "'w tenv \<Rightarrow> sys_timeo \<Rightarrow> 'w timers \<Rightarrow> 'w timers option" where
  "fire e t s = call_handler e (tm_h t) (tm_arg t)
     (s\<lparr>next_timeout := tl (next_timeout s), current_timeout_due_time := tm_time t\<rparr>)"

definition PBUF_CHECK_FREE_OOSEQ :: "'w tenv \<Rightarrow> 'w timers \<Rightarrow> 'w timers" where
  "PBUF_CHECK_FREE_OOSEQ e s = s\<lparr>world := check_free_ooseq e (world s)\<rparr>"

partial_function (option) check_timeouts_loop :: "'w tenv \<Rightarrow> u32 \<Rightarrow> 'w timers \<Rightarrow> 'w timers option" where
  "check_timeouts_loop e now s =
     (let s = PBUF_CHECK_FREE_OOSEQ e s in
      case next_timeout s of
        [] \<Rightarrow> Some s
      | t # _ \<Rightarrow>
          if TIME_LESS_THAN now (tm_time t) then Some s
          else do { s \<leftarrow> fire e t s; check_timeouts_loop e now s })"

definition sys_check_timeouts :: "'w tenv \<Rightarrow> 'w timers \<Rightarrow> 'w timers option" where
  "sys_check_timeouts e s = check_timeouts_loop e (sys_now e (world s)) s"

definition sys_restart_timeouts :: "'w tenv \<Rightarrow> 'w timers \<Rightarrow> 'w timers" where
  "sys_restart_timeouts e s =
     (case next_timeout s of
        [] \<Rightarrow> s
      | t # _ \<Rightarrow>
          let now = sys_now e (world s); base = tm_time t
          in s\<lparr>next_timeout := map (\<lambda>t. t\<lparr>tm_time := (tm_time t - base) + now\<rparr>) (next_timeout s)\<rparr>)"

definition sys_timeouts_sleeptime :: "'w tenv \<Rightarrow> 'w timers \<Rightarrow> u32 option" where
  "sys_timeouts_sleeptime e s =
     (case next_timeout s of
        [] \<Rightarrow> Some SYS_TIMEOUTS_SLEEPTIME_INFINITE
      | t # _ \<Rightarrow>
          let now = sys_now e (world s)
          in if TIME_LESS_THAN (tm_time t) now then Some 0
             else do {
               let ret = tm_time t - now;
               LWIP_ASSERT (ret \<le> LWIP_MAX_TIMEOUT);
               Some ret })"

section \<open>Times that lie within half the clock's range\<close>

text \<open>\<open>after b t\<close> is how long after \<open>b\<close> the time \<open>t\<close> is; a list is in order when
  this distance grows and stays below half the range.\<close>

definition after :: "u32 \<Rightarrow> u32 \<Rightarrow> nat" where
  "after b t = unat (t - b)"

definition near :: "u32 \<Rightarrow> u32 \<Rightarrow> bool" where
  "near b t \<longleftrightarrow> after b t < 0x80000000"

definition in_order :: "u32 \<Rightarrow> sys_timeo list \<Rightarrow> bool" where
  "in_order b ts \<longleftrightarrow> (\<forall>t \<in> set ts. near b (tm_time t)) \<and> sorted (map (\<lambda>t. after b (tm_time t)) ts)"

lemma in_order_simps [simp]:
  "in_order b []"
  "in_order b (t # ts) \<longleftrightarrow> near b (tm_time t) \<and> (\<forall>x \<in> set ts. after b (tm_time t) \<le> after b (tm_time x)) \<and> in_order b ts"
  by (auto simp: in_order_def)

lemma half_range_less:
  fixes u v :: u32
  assumes "unat u < 0x80000000" and "unat v < 0x80000000"
  shows "0x7fffffff < u - v \<longleftrightarrow> unat u < unat v"
proof (cases "unat u < unat v")
  case True
  then have "unat (u - v) = 2 ^ 32 + unat u - unat v"
    by (simp add: unat_sub_if_size word_size)
  then show ?thesis using True assms by (simp add: word_less_nat_alt)
next
  case False
  then have "unat (u - v) = unat u - unat v" by (simp add: unat_sub_le)
  then show ?thesis using False assms by (simp add: word_less_nat_alt)
qed

lemma TIME_LESS_THAN_near:
  assumes "near b t" and "near b c"
  shows "TIME_LESS_THAN t c \<longleftrightarrow> after b t < after b c"
proof -
  have "t - c = (t - b) - (c - b)" by simp
  then show ?thesis using half_range_less [of "t - b" "c - b"] assms
    by (simp add: TIME_LESS_THAN_def LWIP_MAX_TIMEOUT_def near_def after_def)
qed

text \<open>The place of a new timeout: behind everything that is not later.\<close>

lemma insert_after_place:
  "in_order b ts \<Longrightarrow> near b (tm_time x) \<Longrightarrow> ts \<noteq> [] \<Longrightarrow> after b (tm_time (hd ts)) \<le> after b (tm_time x) \<Longrightarrow>
   insert_after x ts = takeWhile (\<lambda>t. after b (tm_time t) \<le> after b (tm_time x)) ts @ x #
     dropWhile (\<lambda>t. after b (tm_time t) \<le> after b (tm_time x)) ts"
proof (induction x ts rule: insert_after.induct)
  case (3 x t n ts)
  then show ?case by (auto simp: TIME_LESS_THAN_near [of b] not_less)
qed auto

lemma insert_timeout_place:
  assumes "in_order b ts" and "near b (tm_time x)"
  shows "insert_timeout x ts = takeWhile (\<lambda>t. after b (tm_time t) \<le> after b (tm_time x)) ts @ x #
     dropWhile (\<lambda>t. after b (tm_time t) \<le> after b (tm_time x)) ts"
proof (cases ts)
  case (Cons n ns)
  then show ?thesis using assms insert_after_place [OF assms]
    by (auto simp: insert_timeout_def TIME_LESS_THAN_near [of b] not_less)
qed (simp add: insert_timeout_def)

lemma insert_timeout_in_order:
  assumes "in_order b ts" and "near b (tm_time x)"
  shows "in_order b (insert_timeout x ts)"
proof -
  have "in_order b (takeWhile (\<lambda>t. after b (tm_time t) \<le> after b (tm_time x)) ts @ x #
     dropWhile (\<lambda>t. after b (tm_time t) \<le> after b (tm_time x)) ts)"
    using assms
  proof (induction ts)
    case (Cons t ts)
    then show ?case by (auto dest: set_takeWhileD set_dropWhileD)
  qed simp
  then show ?thesis using insert_timeout_place [OF assms] by simp
qed

lemma later_dropWhile:
  "in_order b ts \<Longrightarrow> y \<in> set (dropWhile (\<lambda>t. after b (tm_time t) \<le> d) ts) \<Longrightarrow> d < after b (tm_time y)"
proof (induction ts)
  case (Cons t ts)
  show ?case
  proof (cases "after b (tm_time t) \<le> d")
    case False
    then show ?thesis using Cons.prems by (auto intro: less_le_trans [of d "after b (tm_time t)"])
  qed (use Cons in auto)
qed simp

lemma filter_insert_timeout:
  "\<not> P x \<Longrightarrow> filter P (insert_timeout x ts) = filter P ts"
proof -
  assume n: "\<not> P x"
  then have "ts \<noteq> [] \<Longrightarrow> filter P (insert_after x ts) = filter P ts" for ts
    by (induction x ts rule: insert_after.induct) auto
  then show ?thesis using n by (cases ts) (simp_all add: insert_timeout_def)
qed

lemma set_insert_timeout: "set (insert_timeout x ts) = insert x (set ts)"
proof -
  have "ts \<noteq> [] \<Longrightarrow> set (insert_after x ts) = insert x (set ts)" for ts
    by (induction x ts rule: insert_after.induct) auto
  then show ?thesis by (cases ts) (auto simp: insert_timeout_def)
qed

lemma remove_timeout_in_order: "in_order b ts \<Longrightarrow> in_order b (remove_timeout h a ts)"
proof (induction ts)
  case (Cons t ts)
  have "set (remove_timeout h a ts) \<subseteq> set ts" by (induction ts) auto
  with Cons show ?case by auto
qed simp

section \<open>Checking the timeouts\<close>

definition due :: "u32 \<Rightarrow> sys_timeo \<Rightarrow> bool" where
  "due now t \<longleftrightarrow> \<not> TIME_LESS_THAN now (tm_time t)"

text \<open>What the handlers of the due timeouts \<open>ts\<close> may do, under an invariant \<open>I\<close> of
  the world: they return, keep \<open>I\<close> and the order of the list, and leave the other due
  timeouts alone; they may add and remove timeouts that are not due.\<close>

definition well_behaved :: "'w tenv \<Rightarrow> ('w \<Rightarrow> bool) \<Rightarrow> u32 \<Rightarrow> u32 \<Rightarrow> sys_timeo list \<Rightarrow> bool" where
  "well_behaved e I b now ts \<longleftrightarrow> (\<forall>w. I w \<longrightarrow> I (check_free_ooseq e w)) \<and> (\<forall>t \<in> set ts. \<forall>s.
     in_order b (next_timeout s) \<and> I (world s) \<and> current_timeout_due_time s = tm_time t \<longrightarrow>
     (\<exists>s'. call_handler e (tm_h t) (tm_arg t) s = Some s' \<and> in_order b (next_timeout s') \<and> I (world s') \<and>
       filter (due now) (next_timeout s') = filter (due now) (next_timeout s)))"

text \<open>Firing a list of timeouts one after the other.\<close>

fun fire_all :: "'w tenv \<Rightarrow> sys_timeo list \<Rightarrow> 'w timers \<Rightarrow> 'w timers option" where
  "fire_all e [] s = Some (PBUF_CHECK_FREE_OOSEQ e s)"
| "fire_all e (t # ts) s = do { s \<leftarrow> fire e t (PBUF_CHECK_FREE_OOSEQ e s); fire_all e ts s }"

lemma due_near:
  "near b now \<Longrightarrow> near b (tm_time t) \<Longrightarrow> due now t \<longleftrightarrow> after b (tm_time t) \<le> after b now"
  by (simp add: due_def TIME_LESS_THAN_near [of b] not_less)

lemma due_head:
  assumes "in_order b (t # ts)" and "near b now" and "filter (due now) (t # ts) \<noteq> []"
  shows "due now t"
proof (rule ccontr)
  assume nd: "\<not> due now t"
  have "\<not> due now x" if "x \<in> set (t # ts)" for x
  proof -
    have "near b (tm_time x)" "after b (tm_time t) \<le> after b (tm_time x)" "near b (tm_time t)"
      using assms(1) that by (auto simp: in_order_def)
    then show ?thesis using nd due_near [OF assms(2)] by auto
  qed
  then show False using assms(3) by (auto simp: filter_empty_conv)
qed

lemma check_timeouts_loop_fires:
  assumes now: "near b now"
  shows "well_behaved e I b now (filter (due now) (next_timeout s)) \<Longrightarrow> in_order b (next_timeout s) \<Longrightarrow> I (world s) \<Longrightarrow>
    \<exists>s'. check_timeouts_loop e now s = Some s' \<and> fire_all e (filter (due now) (next_timeout s)) s = Some s' \<and>
      in_order b (next_timeout s') \<and> (\<forall>t \<in> set (next_timeout s'). \<not> due now t)"
proof (induction "length (filter (due now) (next_timeout s))" arbitrary: s)
  case 0
  then have none: "\<forall>t \<in> set (next_timeout s). \<not> due now t" by (simp add: filter_empty_conv)
  have "check_timeouts_loop e now s = Some (PBUF_CHECK_FREE_OOSEQ e s)"
    using none by (subst check_timeouts_loop.simps) (auto simp: due_def Let_def PBUF_CHECK_FREE_OOSEQ_def split: list.splits)
  then show ?case using 0 none by (simp add: filter_empty_conv [THEN iffD2] PBUF_CHECK_FREE_OOSEQ_def)
next
  case (Suc n)
  obtain t ts where s: "next_timeout s = t # ts" using Suc.hyps(2) by (cases "next_timeout s") auto
  have d: "due now t"
    by (rule due_head [OF Suc.prems(2) [unfolded s] now]) (use Suc.hyps(2) s in auto)
  define s1 where "s1 = (PBUF_CHECK_FREE_OOSEQ e s)\<lparr>next_timeout := ts, current_timeout_due_time := tm_time t\<rparr>"
  have s1: "in_order b (next_timeout s1)" "I (world s1)" "current_timeout_due_time s1 = tm_time t" "next_timeout s1 = ts"
    using Suc.prems s by (simp_all add: s1_def PBUF_CHECK_FREE_OOSEQ_def well_behaved_def)
  have t: "t \<in> set (filter (due now) (next_timeout s))" using s d by simp
  obtain s2 where s2: "call_handler e (tm_h t) (tm_arg t) s1 = Some s2" "in_order b (next_timeout s2)" "I (world s2)"
    "filter (due now) (next_timeout s2) = filter (due now) ts"
    using Suc.prems(1) t s1 unfolding well_behaved_def by (metis (no_types, lifting))
  have f: "fire e t (PBUF_CHECK_FREE_OOSEQ e s) = Some s2" using s2(1) s by (simp add: fire_def s1_def PBUF_CHECK_FREE_OOSEQ_def)
  have n: "n = length (filter (due now) (next_timeout s2))" using Suc.hyps(2) s d s2(4) by simp
  have "well_behaved e I b now (filter (due now) (next_timeout s2))"
    using Suc.prems(1) s d s2(4) by (auto simp: well_behaved_def)
  from Suc.hyps(1) [OF n this s2(2,3)] obtain s' where IH: "check_timeouts_loop e now s2 = Some s'"
    "fire_all e (filter (due now) (next_timeout s2)) s2 = Some s'" "in_order b (next_timeout s')"
    "\<forall>t \<in> set (next_timeout s'). \<not> due now t" by blast
  have "check_timeouts_loop e now s = Some s'"
    using s d f IH(1) by (subst check_timeouts_loop.simps) (simp add: due_def Let_def PBUF_CHECK_FREE_OOSEQ_def)
  moreover have "fire_all e (filter (due now) (next_timeout s)) s = Some s'"
    using s d f IH(2) s2(4) by simp
  ultimately show ?case using IH(3,4) by blast
qed

lemma sys_timeout_abs_eq:
  "memp_ok e (world s) \<Longrightarrow> sys_timeout_abs e t h a s =
     Some (s\<lparr>next_timeout := insert_timeout \<lparr>tm_time = t, tm_h = h, tm_arg = a\<rparr> (next_timeout s)\<rparr>)"
  by (simp add: sys_timeout_abs_def)

section \<open>Cyclic timers and the TCP timer\<close>

lemma not_in_the_past:
  assumes "i \<le> 0x7fffffff"
  shows "\<not> TIME_LESS_THAN (now + i) now"
  using assms by (simp add: TIME_LESS_THAN_def LWIP_MAX_TIMEOUT_def)

lemma interval_small: "arg < length lwip_cyclic_timers \<Longrightarrow> lwip_cyclic_timers ! arg \<le> 1000"
proof -
  assume "arg < length lwip_cyclic_timers"
  then have "lwip_cyclic_timers ! arg \<in> set lwip_cyclic_timers" by simp
  then show ?thesis by (auto simp: lwip_cyclic_timers_def)
qed

text \<open>How many TCP timeouts are pending. While the handler of one that was due runs, none is
  and the flag is still set: \<open>tcp_timers 1\<close>; at all other times \<open>tcp_timers 0\<close> holds.\<close>

definition tcp_timeouts :: "sys_timeo list \<Rightarrow> nat" where
  "tcp_timeouts ts = length (filter (\<lambda>t. tm_h t = Some tcpip_tcp_timer_h) ts)"

definition tcp_timers :: "nat \<Rightarrow> 'w timers \<Rightarrow> bool" where
  "tcp_timers k s \<longleftrightarrow> tcp_timeouts (next_timeout s) + k = (if tcpip_tcp_timer_active s then 1 else 0)"

abbreviation tcp_timer_ok :: "'w timers \<Rightarrow> bool" where
  "tcp_timer_ok \<equiv> tcp_timers 0"

lemma tcp_timeouts_simps [simp]:
  "tcp_timeouts [] = 0"
  "tcp_timeouts (t # ts) = of_bool (tm_h t = Some tcpip_tcp_timer_h) + tcp_timeouts ts"
  by (simp_all add: tcp_timeouts_def)

lemma tcp_timeouts_insert [simp]:
  "tcp_timeouts (insert_timeout x ts) = tcp_timeouts (x # ts)"
proof -
  have "ts \<noteq> [] \<Longrightarrow> tcp_timeouts (insert_after x ts) = tcp_timeouts (x # ts)" for ts
    by (induction x ts rule: insert_after.induct) auto
  then show ?thesis by (cases ts) (auto simp: insert_timeout_def)
qed

lemma tcp_timeouts_remove [simp]:
  "h \<noteq> Some tcpip_tcp_timer_h \<Longrightarrow> tcp_timeouts (remove_timeout h arg ts) = tcp_timeouts ts"
  by (induction ts) auto

lemma tcp_timeouts_restart [simp]: "tcp_timeouts (next_timeout (sys_restart_timeouts e s)) = tcp_timeouts (next_timeout s)"
proof -
  have "tcp_timeouts (map (\<lambda>t. t\<lparr>tm_time := f t\<rparr>) ts) = tcp_timeouts ts" for f ts
    by (induction ts) auto
  then show ?thesis by (auto simp: sys_restart_timeouts_def Let_def split: list.splits)
qed

lemma sys_timeout_abs_Some:
  "sys_timeout_abs e t h a s = Some s' \<longleftrightarrow> memp_ok e (world s) \<and>
     s' = s\<lparr>next_timeout := insert_timeout \<lparr>tm_time = t, tm_h = h, tm_arg = a\<rparr> (next_timeout s)\<rparr>"
  by (auto simp: sys_timeout_abs_def bind_eq_Some_conv)

lemma sys_timeout_Some:
  "sys_timeout e ms h a s = Some s' \<longleftrightarrow> ms \<le> 0xffffffff div 4 \<and> sys_timeout_abs e (sys_now e (world s) + ms) h a s = Some s'"
  by (auto simp: sys_timeout_def bind_eq_Some_conv)

lemma sys_timeout_tcp_timers:
  "sys_timeout e ms h a s = Some s' \<Longrightarrow> h \<noteq> Some tcpip_tcp_timer_h \<Longrightarrow> tcp_timers k s' = tcp_timers k s"
  by (auto simp: sys_timeout_Some sys_timeout_abs_Some tcp_timers_def)

lemma tcp_timer_needed_timers:
  "tcp_timer_needed e s = Some s' \<Longrightarrow> tcp_timers k s \<Longrightarrow>
     tcp_timers k s' \<and> (tcp_pcbs e (world s) \<longrightarrow> tcpip_tcp_timer_active s')"
  by (auto simp: tcp_timer_needed_def sys_timeout_Some sys_timeout_abs_Some tcp_timers_def split: if_splits)

lemma tcp_timer_needed_ok:
  assumes "tcp_timer_ok s" and "memp_ok e (world s)"
  shows "\<exists>s'. tcp_timer_needed e s = Some s' \<and> tcp_timer_ok s' \<and> (tcp_pcbs e (world s) \<longrightarrow> tcpip_tcp_timer_active s')"
proof -
  have "\<exists>s'. tcp_timer_needed e s = Some s'"
    using assms(2) by (simp add: tcp_timer_needed_def sys_timeout_def sys_timeout_abs_eq)
  then obtain s' where "tcp_timer_needed e s = Some s'" ..
  then show ?thesis using tcp_timer_needed_timers assms(1) by blast
qed

text \<open>What the rest of the stack and the program can do to the timers: call \<open>tcp_timer_needed\<close>
  (\<^verbatim>\<open>TCP_REG\<close> does), set and remove timeouts of their own, and change the world. The handler of the
  TCP timer is static in \<^verbatim>\<open>timeouts.c\<close>, so that no one else can name it.\<close>

inductive timer_call :: "'w tenv \<Rightarrow> 'w timers \<Rightarrow> 'w timers \<Rightarrow> bool" for e where
  needed: "tcp_timer_needed e s = Some s' \<Longrightarrow> timer_call e s s'"
| set_one: "sys_timeout e ms h arg s = Some s' \<Longrightarrow> h \<noteq> Some tcpip_tcp_timer_h \<Longrightarrow> timer_call e s s'"
| unset: "h \<noteq> Some tcpip_tcp_timer_h \<Longrightarrow> timer_call e s (sys_untimeout h arg s)"
| elsewhere: "timer_call e s (s\<lparr>world := w\<rparr>)"

definition handlers_call :: "'w tenv \<Rightarrow> bool" where
  "handlers_call e \<longleftrightarrow>
     (\<forall>n s s'. cyclic_handler e n s = Some s' \<longrightarrow> (timer_call e)\<^sup>*\<^sup>* s s') \<and>
     (\<forall>n a s s'. other_handler e n a s = Some s' \<longrightarrow> (timer_call e)\<^sup>*\<^sup>* s s')"

inductive timer_reach :: "'w tenv \<Rightarrow> 'w timers \<Rightarrow> bool" for e where
  boot: "next_timeout s = [] \<Longrightarrow> \<not> tcpip_tcp_timer_active s \<Longrightarrow> timer_reach e s"
| init: "timer_reach e s \<Longrightarrow> sys_timeouts_init e s = Some s' \<Longrightarrow> timer_reach e s'"
| call: "timer_reach e s \<Longrightarrow> timer_call e s s' \<Longrightarrow> timer_reach e s'"
| check: "timer_reach e s \<Longrightarrow> sys_check_timeouts e s = Some s' \<Longrightarrow> timer_reach e s'"
| restart: "timer_reach e s \<Longrightarrow> timer_reach e (sys_restart_timeouts e s)"

lemma timer_call_timers: "timer_call e s s' \<Longrightarrow> tcp_timers k s \<Longrightarrow> tcp_timers k s'"
  by (induction rule: timer_call.induct)
     (auto simp: sys_timeout_tcp_timers tcp_timer_needed_timers, simp_all add: tcp_timers_def sys_untimeout_def)

lemma timer_calls_timers: "(timer_call e)\<^sup>*\<^sup>* s s' \<Longrightarrow> tcp_timers k s \<Longrightarrow> tcp_timers k s'"
  by (induction rule: rtranclp_induct) (auto intro: timer_call_timers)

lemma handler_timers:
  assumes "handlers_call e" and "tcp_timers k s"
  shows "cyclic_handler e n s = Some s' \<Longrightarrow> tcp_timers k s'" "other_handler e n a s = Some s' \<Longrightarrow> tcp_timers k s'"
  using assms timer_calls_timers unfolding handlers_call_def by blast+

lemma init_from_timers: "init_from e is s = Some s' \<Longrightarrow> tcp_timers k s \<Longrightarrow> tcp_timers k s'"
proof (induction "is" arbitrary: s)
  case (Cons i "is")
  then obtain s1 where s1: "sys_timeout e (lwip_cyclic_timers ! i) (Some lwip_cyclic_timer_h) i s = Some s1"
    "init_from e is s1 = Some s'" by (auto simp: bind_eq_Some_conv)
  then show ?case using Cons.IH [OF s1(2)] sys_timeout_tcp_timers [OF s1(1), of k] Cons.prems by simp
qed simp

lemma tcpip_tcp_timer_timers:
  assumes "handlers_call e" and "tcpip_tcp_timer e s = Some s'" and "tcp_timers 1 s"
  shows "tcp_timers 0 s' \<and> tcpip_tcp_timer_active s' = tcp_pcbs e (world s')"
proof -
  obtain s1 where s1: "cyclic_handler e 0 s = Some s1"
    "(if tcp_pcbs e (world s1) then sys_timeout e 250 (Some tcpip_tcp_timer_h) 0 s1
      else Some (s1\<lparr>tcpip_tcp_timer_active := False\<rparr>)) = Some s'"
    using assms(2) by (auto simp: tcpip_tcp_timer_def bind_eq_Some_conv)
  have "tcp_timers 1 s1" using handler_timers(1) [OF assms(1,3) s1(1)] .
  then show ?thesis using s1(2)
    by (auto simp: tcp_timers_def sys_timeout_Some sys_timeout_abs_Some split: if_splits)
qed

lemma lwip_cyclic_timer_timers:
  assumes "handlers_call e" and "lwip_cyclic_timer e arg s = Some s'" and "tcp_timers 0 s"
  shows "tcp_timers 0 s'"
proof -
  obtain s1 t where s1: "cyclic_handler e arg s = Some s1" "sys_timeout_abs e t (Some lwip_cyclic_timer_h) arg s1 = Some s'"
    using assms(2) by (auto simp: lwip_cyclic_timer_def Let_def bind_eq_Some_conv split: if_splits)
  have "tcp_timers 0 s1" using handler_timers(1) [OF assms(1,3) s1(1)] .
  then show ?thesis using s1(2) by (auto simp: tcp_timers_def sys_timeout_abs_Some)
qed

lemma fire_timers:
  assumes h: "handlers_call e" and f: "fire e t s = Some s'" and ok: "tcp_timers 0 s" and s: "next_timeout s = t # ts"
  shows "tcp_timers 0 s' \<and> (tm_h t = Some tcpip_tcp_timer_h \<longrightarrow> tcpip_tcp_timer_active s' = tcp_pcbs e (world s'))"
proof -
  let ?s1 = "s\<lparr>next_timeout := ts, current_timeout_due_time := tm_time t\<rparr>"
  have c: "call_handler e (tm_h t) (tm_arg t) ?s1 = Some s'" using f s by (simp add: fire_def)
  show ?thesis
  proof (cases "tm_h t = Some tcpip_tcp_timer_h")
    case True
    then have "tcp_timers 1 ?s1" using ok s by (auto simp: tcp_timers_def split: if_splits)
    then show ?thesis using tcpip_tcp_timer_timers [OF h] c True by (simp add: call_handler_def)
  next
    case False
    then have k: "tcp_timers 0 ?s1" using ok s by (auto simp: tcp_timers_def split: if_splits)
    have "tcp_timers 0 s'"
    proof (cases "tm_h t")
      case None
      then show ?thesis using c k by (simp add: call_handler_def)
    next
      case (Some x)
      then show ?thesis using c False lwip_cyclic_timer_timers [OF h _ k] handler_timers(2) [OF h k]
        by (cases x) (auto simp: call_handler_def)
    qed
    then show ?thesis using False by simp
  qed
qed

lemma check_timeouts_timers:
  assumes "handlers_call e"
  shows "check_timeouts_loop e now s = Some s' \<Longrightarrow> tcp_timers 0 s \<Longrightarrow> tcp_timers 0 s'"
proof (erule check_timeouts_loop.raw_induct
    [where P = "\<lambda>e' now s s'. e' = e \<longrightarrow> tcp_timers 0 s \<longrightarrow> tcp_timers 0 s'", rule_format, OF _ _ refl, rotated], assumption)
  fix loop :: "'a tenv \<Rightarrow> u32 \<Rightarrow> 'a timers \<Rightarrow> 'a timers option" and e' now s s'
  assume IH: "\<And>e' now s s'. loop e' now s = Some s' \<Longrightarrow> e' = e \<Longrightarrow> tcp_timers 0 s \<Longrightarrow> tcp_timers 0 s'"
    and r: "(let s = PBUF_CHECK_FREE_OOSEQ e' s in
      case next_timeout s of [] \<Rightarrow> Some s
      | t # _ \<Rightarrow> if TIME_LESS_THAN now (tm_time t) then Some s
          else Option.bind (fire e' t s) (\<lambda>s. loop e' now s)) = Some s'"
    and e: "e' = e" and ok: "tcp_timers 0 s"
  have k: "tcp_timers 0 (PBUF_CHECK_FREE_OOSEQ e s)" using ok by (simp add: tcp_timers_def PBUF_CHECK_FREE_OOSEQ_def)
  then show "tcp_timers 0 s'"
    using r e IH fire_timers [OF assms] by (auto simp: Let_def bind_eq_Some_conv split: list.splits if_splits)
qed

lemma timer_reach_timers:
  assumes "handlers_call e"
  shows "timer_reach e s \<Longrightarrow> tcp_timers 0 s"
proof (induction rule: timer_reach.induct)
  case (boot s)
  then show ?case by (simp add: tcp_timers_def)
next
  case (init s s')
  then show ?case by (auto simp: sys_timeouts_init_def intro: init_from_timers)
next
  case (call s s')
  then show ?case by (blast intro: timer_call_timers)
next
  case (check s s')
  then show ?case using check_timeouts_timers [OF assms] by (auto simp: sys_check_timeouts_def)
next
  case (restart s)
  then show ?case by (simp add: tcp_timers_def) (simp add: sys_restart_timeouts_def Let_def split: list.splits)
qed

section \<open>Rebasing and sleeping\<close>

lemma restart_gaps:
  assumes "next_timeout s \<noteq> []"
  shows "next_timeout (sys_restart_timeouts e s) = map (\<lambda>t. t\<lparr>tm_time :=
      sys_now e (world s) + (tm_time t - tm_time (hd (next_timeout s)))\<rparr>) (next_timeout s)"
  using assms by (auto simp: sys_restart_timeouts_def Let_def add.commute split: list.splits)

lemma restart_in_order:
  assumes "in_order (tm_time (hd (next_timeout s))) (next_timeout s)"
  shows "in_order (sys_now e (world s)) (next_timeout (sys_restart_timeouts e s))"
  using assms
  by (cases "next_timeout s")
     (auto simp: sys_restart_timeouts_def Let_def in_order_def near_def after_def comp_def)

section \<open>Properties\<close>

text \<open>A small environment: the world is the clock, and handlers do nothing.\<close>

definition clock_env :: "u32 tenv" where
  "clock_env = \<lparr>sys_now = (\<lambda>w. w), memp_ok = (\<lambda>w. True), tcp_pcbs = (\<lambda>w. w < 5000), check_free_ooseq = (\<lambda>w. w),
     cyclic_handler = (\<lambda>i s. Some s), other_handler = (\<lambda>n a s. Some s)\<rparr>"

definition cyclic_at :: "u32 \<Rightarrow> nat \<Rightarrow> sys_timeo" where
  "cyclic_at t i = \<lparr>tm_time = t, tm_h = Some lwip_cyclic_timer_h, tm_arg = i\<rparr>"

definition other_at :: "u32 \<Rightarrow> nat \<Rightarrow> sys_timeo" where
  "other_at t i = \<lparr>tm_time = t, tm_h = Some (other_h i), tm_arg = 0\<rparr>"

definition clock_state :: "u32 timers" where
  "clock_state = \<lparr>next_timeout = [cyclic_at 1000 1, other_at 1400 7, other_at 1600 8],
     current_timeout_due_time = 0, tcpip_tcp_timer_active = False, world = 1500\<rparr>"

lemma world_clock: "world clock_state = 1500"
  by (simp add: clock_state_def)

text \<open>C32: a new timeout is placed behind every pending timeout that is due no later and
  before all others, so the list stays in order of due time, first come first served,
  also when the 32-bit clock wraps around, as long as all times lie within half its range.\<close>

theorem sys_timeout_abs_sorted:
  assumes "in_order b (next_timeout s)" and "near b t" and "memp_ok e (world s)"
  shows "\<exists>s' xs ys. sys_timeout_abs e t h a s = Some s' \<and> next_timeout s = xs @ ys \<and>
    next_timeout s' = xs @ \<lparr>tm_time = t, tm_h = h, tm_arg = a\<rparr> # ys \<and>
    (\<forall>x \<in> set xs. after b (tm_time x) \<le> after b t) \<and> (\<forall>y \<in> set ys. after b t < after b (tm_time y)) \<and>
    in_order b (next_timeout s')"
proof -
  let ?x = "\<lparr>tm_time = t, tm_h = h, tm_arg = a\<rparr>"
  let ?P = "\<lambda>x. after b (tm_time x) \<le> after b t"
  let ?ts = "next_timeout s"
  have n: "near b (tm_time ?x)" using assms(2) by simp
  have eq: "insert_timeout ?x ?ts = takeWhile ?P ?ts @ ?x # dropWhile ?P ?ts"
    using insert_timeout_place [OF assms(1) n] by simp
  have "\<forall>y \<in> set (dropWhile ?P ?ts). \<not> ?P y"
    using later_dropWhile [OF assms(1)] by (auto simp: not_le)
  moreover have "in_order b (insert_timeout ?x ?ts)" using insert_timeout_in_order [OF assms(1) n] .
  ultimately show ?thesis using assms(3) eq
    by (intro exI [of _ "s\<lparr>next_timeout := insert_timeout ?x ?ts\<rparr>"] exI [of _ "takeWhile ?P ?ts"] exI [of _ "dropWhile ?P ?ts"])
       (auto simp: sys_timeout_abs_eq not_le dest: set_takeWhileD)
qed

theorem sys_timeout_abs_sorted_witness:
  "\<exists>s' xs ys. sys_timeout_abs clock_env 1400 None 3 clock_state = Some s' \<and> next_timeout clock_state = xs @ ys \<and>
    next_timeout s' = xs @ \<lparr>tm_time = 1400, tm_h = None, tm_arg = 3\<rparr> # ys \<and>
    (\<forall>x \<in> set xs. after 500 (tm_time x) \<le> after 500 1400) \<and> (\<forall>y \<in> set ys. after 500 1400 < after 500 (tm_time y)) \<and>
    in_order 500 (next_timeout s')"
  by (rule sys_timeout_abs_sorted)
     (simp_all add: clock_state_def clock_env_def cyclic_at_def other_at_def near_def after_def)

text \<open>C33: \<^verbatim>\<open>sys_check_timeouts\<close> returns, having fired exactly the timeouts that were due
  when it started, in the order of the list and each with its due time recorded, and no
  due timeout is left, provided the handlers themselves return and do not add or remove
  timeouts that are already due.\<close>

theorem sys_check_timeouts_fires_due:
  assumes "in_order b (next_timeout s)" and "near b (sys_now e (world s))" and "I (world s)"
    and "well_behaved e I b (sys_now e (world s)) (filter (due (sys_now e (world s))) (next_timeout s))"
  shows "\<exists>s'. sys_check_timeouts e s = Some s' \<and>
    fire_all e (filter (due (sys_now e (world s))) (next_timeout s)) s = Some s' \<and>
    in_order b (next_timeout s') \<and> (\<forall>t \<in> set (next_timeout s'). \<not> due (sys_now e (world s)) t)"
  unfolding sys_check_timeouts_def using assms(2,4,1,3) by (rule check_timeouts_loop_fires)

theorem sys_check_timeouts_fires_due_witness:
  "\<exists>s'. sys_check_timeouts clock_env clock_state = Some s' \<and>
    fire_all clock_env [cyclic_at 1000 1, other_at 1400 7] clock_state = Some s' \<and>
    in_order 0 (next_timeout s') \<and> (\<forall>t \<in> set (next_timeout s'). \<not> due 1500 t)"
proof -
  have d: "filter (due 1500) (next_timeout clock_state) = [cyclic_at 1000 1, other_at 1400 7]"
    by (simp add: clock_state_def cyclic_at_def other_at_def due_def TIME_LESS_THAN_def LWIP_MAX_TIMEOUT_def)
  have n: "sys_now clock_env (world clock_state) = 1500" by (simp add: clock_env_def clock_state_def)
  have i: "in_order 0 (next_timeout clock_state)"
    by (simp add: clock_state_def cyclic_at_def other_at_def near_def after_def)
  have w: "well_behaved clock_env (\<lambda>w. w = 1500) 0 1500 [cyclic_at 1000 1, other_at 1400 7]"
    unfolding well_behaved_def
  proof (intro conjI ballI allI impI)
    show "check_free_ooseq clock_env w = 1500" if "w = 1500" for w using that by (simp add: clock_env_def)
  next
    fix t :: sys_timeo and s :: "u32 timers"
    assume t: "t \<in> set [cyclic_at 1000 1, other_at 1400 7]"
      and s: "in_order 0 (next_timeout s) \<and> world s = 1500 \<and> current_timeout_due_time s = tm_time t"
    let ?n = "\<lparr>tm_time = 2000, tm_h = Some lwip_cyclic_timer_h, tm_arg = 1\<rparr>"
    have nd: "\<not> due 1500 ?n" and near: "near 0 (tm_time ?n)"
      by (simp_all add: due_def TIME_LESS_THAN_def LWIP_MAX_TIMEOUT_def near_def after_def)
    have "call_handler clock_env (tm_h t) (tm_arg t) s =
      Some (if t = cyclic_at 1000 1 then s\<lparr>next_timeout := insert_timeout ?n (next_timeout s)\<rparr> else s)"
      using t s by (auto simp: cyclic_at_def other_at_def call_handler_def clock_env_def lwip_cyclic_timer_def
        sys_timeout_abs_def lwip_cyclic_timers_def TIME_LESS_THAN_def LWIP_MAX_TIMEOUT_def Let_def)
    then show "\<exists>s'. call_handler clock_env (tm_h t) (tm_arg t) s = Some s' \<and> in_order 0 (next_timeout s') \<and>
        world s' = 1500 \<and> filter (due 1500) (next_timeout s') = filter (due 1500) (next_timeout s)"
      using s filter_insert_timeout [where P = "due 1500", OF nd] insert_timeout_in_order [OF _ near] by auto
  qed
  show ?thesis
    using sys_check_timeouts_fires_due [of 0 clock_state clock_env "\<lambda>w. w = 1500"] d n i w
    by (simp add: near_def after_def world_clock)
qed

text \<open>C34: a cyclic timer runs its handler and hooks itself in again, one interval
  after the time it was due (so the handler's own delay does not accumulate) or, when
  that time has already passed, one interval from now; never in the past.\<close>

theorem lwip_cyclic_timer_next:
  assumes "arg < length lwip_cyclic_timers" and c: "cyclic_handler e arg s = Some s1" and "memp_ok e (world s1)"
  shows "\<exists>t. lwip_cyclic_timer e arg s =
      Some (s1\<lparr>next_timeout := insert_timeout \<lparr>tm_time = t, tm_h = Some lwip_cyclic_timer_h, tm_arg = arg\<rparr> (next_timeout s1)\<rparr>) \<and>
    \<not> TIME_LESS_THAN t (sys_now e (world s1)) \<and>
    (t = current_timeout_due_time s1 + lwip_cyclic_timers ! arg \<or>
     TIME_LESS_THAN (current_timeout_due_time s1 + lwip_cyclic_timers ! arg) (sys_now e (world s1)) \<and>
     t = sys_now e (world s1) + lwip_cyclic_timers ! arg)"
proof (cases "TIME_LESS_THAN (current_timeout_due_time s1 + lwip_cyclic_timers ! arg) (sys_now e (world s1))")
  case True
  have "lwip_cyclic_timers ! arg \<le> 0x7fffffff" using interval_small [OF assms(1)] by (rule order_trans) simp
  then show ?thesis using True assms not_in_the_past
    by (auto simp: lwip_cyclic_timer_def sys_timeout_abs_eq Let_def)
next
  case False
  then show ?thesis using assms by (simp add: lwip_cyclic_timer_def sys_timeout_abs_eq Let_def)
qed

theorem lwip_cyclic_timer_next_witness:
  "\<exists>t. lwip_cyclic_timer clock_env 1 clock_state =
      Some (clock_state\<lparr>next_timeout := insert_timeout \<lparr>tm_time = t, tm_h = Some lwip_cyclic_timer_h, tm_arg = 1\<rparr> (next_timeout clock_state)\<rparr>) \<and>
    \<not> TIME_LESS_THAN t (sys_now clock_env (world clock_state)) \<and>
    (t = current_timeout_due_time clock_state + lwip_cyclic_timers ! 1 \<or>
     TIME_LESS_THAN (current_timeout_due_time clock_state + lwip_cyclic_timers ! 1) (sys_now clock_env (world clock_state)) \<and>
     t = sys_now clock_env (world clock_state) + lwip_cyclic_timers ! 1)"
  by (rule lwip_cyclic_timer_next) (simp_all add: lwip_cyclic_timers_def clock_env_def)

text \<open>C35: in every state the timers can reach, by any calls of the stack and the program from the
  start on and with handlers that make such calls themselves, at most one TCP timeout is pending, exactly
  when \<^verbatim>\<open>tcpip_tcp_timer_active\<close> says so. \<^verbatim>\<open>tcp_timer_needed\<close> then keeps it one, or makes it
  one when TCP has active or TIME-WAIT control blocks, and a TCP timeout that has fired is pending
  again exactly when TCP still has such blocks.\<close>

theorem tcp_timer_once:
  assumes "handlers_call e" and "timer_reach e s"
  shows "tcp_timeouts (next_timeout s) = (if tcpip_tcp_timer_active s then 1 else 0) \<and>
    (memp_ok e (world s) \<longrightarrow> (\<exists>s'. tcp_timer_needed e s = Some s' \<and>
       tcp_timeouts (next_timeout s') = (if tcpip_tcp_timer_active s \<or> tcp_pcbs e (world s) then 1 else 0))) \<and>
    (\<forall>t ts s'. next_timeout s = t # ts \<and> tm_h t = Some tcpip_tcp_timer_h \<and> fire e t s = Some s' \<longrightarrow>
       tcp_timeouts (next_timeout s') = (if tcp_pcbs e (world s') then 1 else 0))"
proof -
  have ok: "tcp_timers 0 s" using timer_reach_timers [OF assms] .
  have "\<exists>s'. tcp_timer_needed e s = Some s' \<and>
      tcp_timeouts (next_timeout s') = (if tcpip_tcp_timer_active s \<or> tcp_pcbs e (world s) then 1 else 0)"
    if "memp_ok e (world s)"
    using that ok by (auto simp: tcp_timer_needed_def sys_timeout_def sys_timeout_abs_eq tcp_timers_def)
  moreover have "tcp_timeouts (next_timeout s') = (if tcp_pcbs e (world s') then 1 else 0)"
    if "next_timeout s = t # ts" "tm_h t = Some tcpip_tcp_timer_h" "fire e t s = Some s'" for t ts s'
    using fire_timers [OF assms(1) that(3) ok that(1)] that(2) by (simp add: tcp_timers_def)
  ultimately show ?thesis using ok unfolding tcp_timers_def by auto
qed

text \<open>A handler of the TCP timer that registers a control block, as a callback that connects does.\<close>

definition busy_env :: "u32 tenv" where
  "busy_env = clock_env\<lparr>cyclic_handler := (\<lambda>i s. tcp_timer_needed clock_env s)\<rparr>"

lemma busy_needed: "tcp_timer_needed busy_env s = tcp_timer_needed clock_env s"
  by (simp add: tcp_timer_needed_def sys_timeout_def sys_timeout_abs_def busy_env_def clock_env_def)

lemma busy_handlers: "handlers_call busy_env"
  unfolding handlers_call_def
proof (intro conjI allI impI)
  show "(timer_call busy_env)\<^sup>*\<^sup>* s s'" if "cyclic_handler busy_env n s = Some s'" for n s s'
    using that by (intro r_into_rtranclp timer_call.needed) (simp add: busy_needed, simp add: busy_env_def)
  show "(timer_call busy_env)\<^sup>*\<^sup>* s s'" if "other_handler busy_env n a s = Some s'" for n a s s'
    using that by (simp add: busy_env_def clock_env_def)
qed

definition boot_state :: "u32 timers" where
  "boot_state = \<lparr>next_timeout = [], current_timeout_due_time = 0, tcpip_tcp_timer_active = False, world = 1500\<rparr>"

theorem tcp_timer_once_witness:
  "\<exists>s s1. tcp_timer_needed busy_env boot_state = Some s \<and> tcp_timeouts (next_timeout s) = 1 \<and>
     sys_check_timeouts busy_env (s\<lparr>world := 1750\<rparr>) = Some s1 \<and> tcp_timeouts (next_timeout s1) = 1"
proof -
  let ?t = "\<lambda>x. \<lparr>tm_time = x, tm_h = Some tcpip_tcp_timer_h, tm_arg = 0\<rparr>"
  let ?s = "boot_state\<lparr>tcpip_tcp_timer_active := True, next_timeout := [?t 1750]\<rparr>"
  let ?s1 = "?s\<lparr>world := 1750, current_timeout_due_time := 1750, next_timeout := [?t 2000]\<rparr>"
  have n: "tcp_timer_needed busy_env boot_state = Some ?s"
    by (simp add: tcp_timer_needed_def boot_state_def busy_env_def clock_env_def sys_timeout_def sys_timeout_abs_def insert_timeout_def)
  have c: "sys_check_timeouts busy_env (?s\<lparr>world := 1750\<rparr>) = Some ?s1"
    by (simp add: sys_check_timeouts_def check_timeouts_loop.simps [of _ _ "_ :: u32 timers"] PBUF_CHECK_FREE_OOSEQ_def
        boot_state_def busy_env_def clock_env_def fire_def call_handler_def tcpip_tcp_timer_def tcp_timer_needed_def
        sys_timeout_def sys_timeout_abs_def insert_timeout_def TIME_LESS_THAN_def LWIP_MAX_TIMEOUT_def)
  have b: "timer_reach busy_env boot_state" by (rule timer_reach.boot) (simp_all add: boot_state_def)
  have r: "timer_reach busy_env ?s" using timer_reach.call [OF b timer_call.needed [OF n]] .
  have r1: "timer_reach busy_env ?s1"
    using timer_reach.check [OF timer_reach.call [OF r timer_call.elsewhere] c] .
  show ?thesis
    using n c tcp_timer_once [OF busy_handlers r] tcp_timer_once [OF busy_handlers r1] by (auto simp: boot_state_def)
qed

text \<open>\<^verbatim>\<open>sys_timeouts_sleeptime\<close> never aborts and returns the time until the
  first timeout is due: 0 when it is due already, 0xffffffff when none is pending.\<close>

theorem sleeptime_spec:
  assumes "in_order b (next_timeout s)" and "near b (sys_now e (world s))"
  shows "sys_timeouts_sleeptime e s = Some
    (case next_timeout s of
       [] \<Rightarrow> 0xffffffff
     | t # _ \<Rightarrow> of_nat (after b (tm_time t) - after b (sys_now e (world s))))"
proof (cases "next_timeout s")
  case Nil
  then show ?thesis by (simp add: sys_timeouts_sleeptime_def SYS_TIMEOUTS_SLEEPTIME_INFINITE_def)
next
  case (Cons t ts)
  define now where "now = sys_now e (world s)"
  have nt: "near b (tm_time t)" "near b now" using assms Cons by (simp_all add: now_def)
  show ?thesis
  proof (cases "TIME_LESS_THAN (tm_time t) now")
    case True
    then have "after b (tm_time t) < after b now" using TIME_LESS_THAN_near [OF nt] by simp
    then show ?thesis using True Cons by (simp add: sys_timeouts_sleeptime_def flip: now_def)
  next
    case False
    then have le: "after b now \<le> after b (tm_time t)" using TIME_LESS_THAN_near [OF nt] by simp
    have "unat ((tm_time t - b) - (now - b)) = after b (tm_time t) - after b now"
      using le by (subst unat_sub_le) (simp_all add: after_def)
    then have "unat (tm_time t - now) = after b (tm_time t) - after b now" by simp
    then have "(of_nat (unat (tm_time t - now)) :: u32) = of_nat (after b (tm_time t) - after b now)" by (rule arg_cong)
    moreover have "(of_nat (unat (tm_time t - now)) :: u32) = tm_time t - now" by simp
    ultimately have "tm_time t - now = of_nat (after b (tm_time t) - after b now)" by (rule trans [OF sym, rotated])
    then show ?thesis using False Cons by (simp add: sys_timeouts_sleeptime_def TIME_LESS_THAN_def Let_def not_less flip: now_def)
  qed
qed

theorem sleeptime_spec_witness:
  "sys_timeouts_sleeptime clock_env (clock_state\<lparr>world := 400\<rparr>) = Some 600"
  using sleeptime_spec [of 400 "clock_state\<lparr>world := 400\<rparr>" clock_env]
  by (simp add: clock_state_def clock_env_def cyclic_at_def other_at_def near_def after_def)

end
