(* ===== verification/Tcp_base.thy ===== *)
theory Tcp_base imports Udp begin

text \<open>
  TCP's vocabulary: the types of \<^verbatim>\<open>tcp.h\<close>, \<^verbatim>\<open>tcpbase.h\<close> and
  \<^verbatim>\<open>priv/tcp_priv.h\<close>, the constants of this build, and sequence number arithmetic.

  A segment's buffer chain is represented by its data bytes (\<open>sg_data\<close>) and, for a segment
  to be sent, by the sizes of its buffers (\<open>sg_bufs\<close>): what TCP does with chains is to cut
  them (\<^verbatim>\<open>pbuf_realloc\<close>, \<^verbatim>\<open>pbuf_remove_header\<close>), to append them (\<^verbatim>\<open>pbuf_cat\<close>), to
  count their buffers and to free them, whose effect on the bytes the packet buffer
  theories prove. The header fields of a queued segment are kept in host
  order (\<open>sg_hlen\<close> is the header length in words of 32 bits). A 16-bit
  signed field is an integer, brought back into range by \<open>to_s16\<close> where the code casts.
\<close>

section \<open>Constants\<close>

datatype tcp_state =
  CLOSED | LISTEN | SYN_SENT | SYN_RCVD | ESTABLISHED | FIN_WAIT_1 | FIN_WAIT_2
| CLOSE_WAIT | CLOSING | LAST_ACK | TIME_WAIT

text \<open>The numbers of the enumeration; the code compares states with \<^verbatim>\<open><\<close>.\<close>

fun state_num :: "tcp_state \<Rightarrow> nat" where
  "state_num CLOSED = 0"
| "state_num LISTEN = 1"
| "state_num SYN_SENT = 2"
| "state_num SYN_RCVD = 3"
| "state_num ESTABLISHED = 4"
| "state_num FIN_WAIT_1 = 5"
| "state_num FIN_WAIT_2 = 6"
| "state_num CLOSE_WAIT = 7"
| "state_num CLOSING = 8"
| "state_num LAST_ACK = 9"
| "state_num TIME_WAIT = 10"

lemma state_num_inj [simp]: "state_num s = state_num t \<longleftrightarrow> s = t"
  by (cases s; cases t) simp_all

instantiation tcp_state :: linorder
begin

definition less_eq_tcp_state :: "tcp_state \<Rightarrow> tcp_state \<Rightarrow> bool" where
  "less_eq_tcp_state s t \<longleftrightarrow> state_num s \<le> state_num t"

definition less_tcp_state :: "tcp_state \<Rightarrow> tcp_state \<Rightarrow> bool" where
  "less_tcp_state s t \<longleftrightarrow> state_num s < state_num t"

instance
  by standard (auto simp: less_eq_tcp_state_def less_tcp_state_def)

end

lemmas tcp_state_order = less_eq_tcp_state_def less_tcp_state_def

definition TCP_FIN :: u8 where "TCP_FIN = 0x01"
definition TCP_SYN :: u8 where "TCP_SYN = 0x02"
definition TCP_RST :: u8 where "TCP_RST = 0x04"
definition TCP_PSH :: u8 where "TCP_PSH = 0x08"
definition TCP_ACK :: u8 where "TCP_ACK = 0x10"

definition TF_ACK_DELAY :: u16 where "TF_ACK_DELAY = 0x01"
definition TF_ACK_NOW :: u16 where "TF_ACK_NOW = 0x02"
definition TF_INFR :: u16 where "TF_INFR = 0x04"
definition TF_CLOSEPEND :: u16 where "TF_CLOSEPEND = 0x08"
definition TF_RXCLOSED :: u16 where "TF_RXCLOSED = 0x10"
definition TF_FIN :: u16 where "TF_FIN = 0x20"
definition TF_NODELAY :: u16 where "TF_NODELAY = 0x40"
definition TF_NAGLEMEMERR :: u16 where "TF_NAGLEMEMERR = 0x80"
definition TF_WND_SCALE :: u16 where "TF_WND_SCALE = 0x0100"
definition TF_RTO :: u16 where "TF_RTO = 0x0800"
definition TF_SACK :: u16 where "TF_SACK = 0x1000"

text \<open>Flags of input processing.\<close>

definition TF_RESET :: u8 where "TF_RESET = 0x08"
definition TF_CLOSED :: u8 where "TF_CLOSED = 0x10"
definition TF_GOT_FIN :: u8 where "TF_GOT_FIN = 0x20"

definition TCP_MSS :: u16 where "TCP_MSS = 1460"
definition TCP_WND :: u32 where "TCP_WND = 4 * 1460"
definition TCP_SND_BUF :: u32 where "TCP_SND_BUF = 8 * 1460"
definition INITIAL_MSS :: u16 where "INITIAL_MSS = 536"
definition TCP_MAXRTX :: u8 where "TCP_MAXRTX = 12"
definition TCP_SYNMAXRTX :: u8 where "TCP_SYNMAXRTX = 6"
definition TCP_RCV_SCALE :: u8 where "TCP_RCV_SCALE = 2"
definition LWIP_TCP_MAX_SACK_NUM :: nat where "LWIP_TCP_MAX_SACK_NUM = 4"
definition TCP_HLEN :: nat where "TCP_HLEN = 20"

section \<open>Segments and control blocks\<close>

text \<open>One buffer of a segment to be sent: how many of the segment's data bytes it holds, and for
  a reference to read-only memory its \<^verbatim>\<open>payload\<close> address.\<close>

type_synonym seg_buf = "nat \<times> nat option"

record tcp_seg =
  sg_src :: u16
  sg_dest :: u16
  sg_seqno :: u32
  sg_hlen :: u16
  sg_hflags :: u8
  sg_len :: u16
  sg_data :: "u8 list"
  sg_bufs :: "seg_buf list"
  sg_flags :: u8

type_synonym tcp_sack_range = "u32 \<times> u32"

text \<open>\<^verbatim>\<open>refused_data\<close> carries the \<^verbatim>\<open>PBUF_FLAG_TCP_FIN\<close> flag of its first buffer.\<close>

record tcp_pcb =
  local_ip :: ip_addr_t
  remote_ip :: ip_addr_t
  netif_idx :: u8
  so_options :: u8
  tos :: u8
  ttl :: u8
  callback_arg :: nat
  state :: tcp_state
  prio :: u8
  local_port :: u16
  remote_port :: u16
  flags :: u16
  polltmr :: u8
  pollinterval :: u8
  last_timer :: u8
  tmr :: u32
  rcv_nxt :: u32
  rcv_wnd :: u32
  rcv_ann_wnd :: u32
  rcv_ann_right_edge :: u32
  rcv_sacks :: "tcp_sack_range list"
  rtime :: int
  mss :: u16
  rttest :: u32
  rtseq :: u32
  sa :: int
  sv :: int
  rto :: int
  nrtx :: u8
  dupacks :: u8
  lastack :: u32
  cwnd :: u32
  ssthresh :: u32
  rto_end :: u32
  snd_nxt :: u32
  snd_wl1 :: u32
  snd_wl2 :: u32
  snd_lbb :: u32
  snd_wnd :: u32
  snd_wnd_max :: u32
  snd_buf :: u32
  snd_queuelen :: u16
  unsent_oversize :: u16
  bytes_acked :: u32
  unsent :: "tcp_seg list"
  unacked :: "tcp_seg list"
  ooseq :: "tcp_seg list"
  refused_data :: "(u8 list \<times> bool) option"
  listener :: "nat option"
  cb_sent :: "nat option"
  cb_recv :: "nat option"
  cb_connected :: "nat option"
  cb_poll :: "nat option"
  cb_errf :: "nat option"
  keep_idle :: u32
  persist_cnt :: u8
  persist_backoff :: u8
  persist_probe :: u8
  keep_cnt_sent :: u8
  snd_scale :: u8
  rcv_scale :: u8

text \<open>The header's options as \<^verbatim>\<open>tcp_input\<close> leaves them: the memory behind the fixed header,
  the number of option bytes there, and the memory of the second buffer if they go on there.
  A read outside this memory is a fault.\<close>

record tcp_opts =
  op_len :: u16
  op_len1 :: u16
  op_mem1 :: "u8 list"
  op_mem2 :: "u8 list option"

text \<open>The static variables of \<^verbatim>\<open>tcp_in.c\<close>; \<open>in_data\<close> is \<^verbatim>\<open>inseg.p\<close>, \<open>None\<close> once it has been
  handed over.\<close>

record tcp_in =
  g_src :: u16
  g_dest :: u16
  g_seqno :: u32
  g_ackno :: u32
  g_wnd :: u16
  g_flags :: u8
  g_tcplen :: u16
  g_opts :: tcp_opts
  in_seqno :: u32
  in_hflags :: u8
  in_len :: u16
  in_data :: "u8 list option"
  recv_acked :: u32
  recv_flags :: u8
  recv_data :: "u8 list option"

definition has :: "'a::len word \<Rightarrow> 'a word \<Rightarrow> bool" where
  "has fs f \<longleftrightarrow> fs AND f \<noteq> 0"

definition tcp_set_flags :: "tcp_pcb \<Rightarrow> u16 \<Rightarrow> tcp_pcb" where
  "tcp_set_flags pcb f = pcb\<lparr>flags := flags pcb OR f\<rparr>"

definition tcp_clear_flags :: "tcp_pcb \<Rightarrow> u16 \<Rightarrow> tcp_pcb" where
  "tcp_clear_flags pcb f = pcb\<lparr>flags := flags pcb AND NOT f\<rparr>"

definition tcp_ack_now :: "tcp_pcb \<Rightarrow> tcp_pcb" where
  "tcp_ack_now pcb = tcp_set_flags pcb TF_ACK_NOW"

definition tcp_ack :: "tcp_pcb \<Rightarrow> tcp_pcb" where
  "tcp_ack pcb =
     (if has (flags pcb) TF_ACK_DELAY then tcp_ack_now (tcp_clear_flags pcb TF_ACK_DELAY)
      else tcp_set_flags pcb TF_ACK_DELAY)"

definition TCP_TCPLEN :: "u16 \<Rightarrow> u8 \<Rightarrow> u32" where
  "TCP_TCPLEN len hflags = ucast len + (if has hflags (TCP_FIN OR TCP_SYN) then 1 else 0)"

definition to_s16 :: "int \<Rightarrow> int" where
  "to_s16 x = (x + 0x8000) mod 0x10000 - 0x8000"

definition TCP_WND_INC :: "u32 \<Rightarrow> u32 \<Rightarrow> u32" where
  "TCP_WND_INC wnd inc = (if wnd + inc \<ge> wnd then wnd + inc else -1)"

definition TCP_WND_MAX :: "tcp_pcb \<Rightarrow> u32" where
  "TCP_WND_MAX pcb = (if has (flags pcb) TF_WND_SCALE then TCP_WND else min TCP_WND 0xffff)"

definition SND_WND_SCALE :: "tcp_pcb \<Rightarrow> u16 \<Rightarrow> u32" where
  "SND_WND_SCALE pcb wnd = push_bit (unat (snd_scale pcb)) (ucast wnd)"

section \<open>Sequence numbers\<close>

definition TCP_SEQ_LT :: "u32 \<Rightarrow> u32 \<Rightarrow> bool" where
  "TCP_SEQ_LT a b \<longleftrightarrow> sint (a - b) < 0"

definition TCP_SEQ_LEQ :: "u32 \<Rightarrow> u32 \<Rightarrow> bool" where
  "TCP_SEQ_LEQ a b \<longleftrightarrow> sint (a - b) \<le> 0"

definition TCP_SEQ_GT :: "u32 \<Rightarrow> u32 \<Rightarrow> bool" where
  "TCP_SEQ_GT a b \<longleftrightarrow> sint (a - b) > 0"

definition TCP_SEQ_GEQ :: "u32 \<Rightarrow> u32 \<Rightarrow> bool" where
  "TCP_SEQ_GEQ a b \<longleftrightarrow> sint (a - b) \<ge> 0"

definition TCP_SEQ_BETWEEN :: "u32 \<Rightarrow> u32 \<Rightarrow> u32 \<Rightarrow> bool" where
  "TCP_SEQ_BETWEEN a b c \<longleftrightarrow> TCP_SEQ_GEQ a b \<and> TCP_SEQ_LEQ a c"

text \<open>Numbers that stand for positions of one stream are compared like the positions, as long
  as these are less than half the circle apart.\<close>

lemma sint_position_diff:
  assumes "\<bar>int p - int q\<bar> < 0x80000000"
  shows "sint ((i + of_nat p) - (i + of_nat q) :: u32) = int p - int q"
proof -
  have e: "(i + of_nat p) - (i + of_nat q) = (word_of_int (int p - int q) :: u32)" by simp
  have "sint (word_of_int k :: u32) = signed_take_bit 31 k" for k
    by (simp add: sint_sbintrunc')
  then have "sint (word_of_int (int p - int q) :: u32) = signed_take_bit 31 (int p - int q)" .
  also have "\<dots> = int p - int q"
    using assms by (intro signed_take_bit_int_eq_self) simp_all
  finally show ?thesis by (simp only: e)
qed

definition sq :: "u32 \<Rightarrow> nat \<Rightarrow> u32" where
  "sq i p = i + of_nat p"

lemma sq_cmp [simp]:
  assumes "p < q + 0x80000000" and "q < p + 0x80000000"
  shows "TCP_SEQ_LT (sq i p) (sq i q) \<longleftrightarrow> p < q"
    "TCP_SEQ_LEQ (sq i p) (sq i q) \<longleftrightarrow> p \<le> q"
    "TCP_SEQ_GT (sq i p) (sq i q) \<longleftrightarrow> q < p"
    "TCP_SEQ_GEQ (sq i p) (sq i q) \<longleftrightarrow> q \<le> p"
    "sq i p = sq i q \<longleftrightarrow> p = q"
proof -
  have d: "sint (sq i p - sq i q) = int p - int q"
    unfolding sq_def using assms by (intro sint_position_diff) linarith
  show "TCP_SEQ_LT (sq i p) (sq i q) \<longleftrightarrow> p < q"
    "TCP_SEQ_LEQ (sq i p) (sq i q) \<longleftrightarrow> p \<le> q"
    "TCP_SEQ_GT (sq i p) (sq i q) \<longleftrightarrow> q < p"
    "TCP_SEQ_GEQ (sq i p) (sq i q) \<longleftrightarrow> q \<le> p"
    unfolding TCP_SEQ_LT_def TCP_SEQ_LEQ_def TCP_SEQ_GT_def TCP_SEQ_GEQ_def d by simp_all
  show "sq i p = sq i q \<longleftrightarrow> p = q"
    using d by auto
qed

lemma sq_add: "sq i p + w = sq i (p + unat w)"
  by (simp add: sq_def add.assoc)

lemma sq_add16: "sq i p + ucast (w :: u16) = sq i (p + unat w)"
  by (simp add: sq_def add.assoc)

lemma sq_Suc: "sq i p + 1 = sq i (Suc p)"
  by (simp add: sq_def)

lemma sq_pred: "0 < p \<Longrightarrow> sq i p - 1 = sq i (p - 1)"
  by (simp add: sq_def of_nat_diff)

lemma sq_diff:
  assumes "q \<le> p" and "p - q < 0x100000000"
  shows "sq i p - sq i q = of_nat (p - q)" "unat (sq i p - sq i q) = p - q"
proof -
  show "sq i p - sq i q = of_nat (p - q)" using assms(1) by (simp add: sq_def of_nat_diff)
  then show "unat (sq i p - sq i q) = p - q" using assms(2) by (simp add: unat_of_nat)
qed

text \<open>How far a sequence number lies behind a base; all comparisons follow this order
  for numbers less than half the circle behind the base.\<close>

definition off :: "u32 \<Rightarrow> u32 \<Rightarrow> nat" where
  "off b x = unat (x - b)"

lemma off_self [simp]: "off b b = 0"
  by (simp add: off_def)

lemma off_add:
  assumes "off b x + unat n < 0x100000000"
  shows "off b (x + n) = off b x + unat n"
proof -
  have "x + n - b = (x - b) + n" by simp
  then have "off b (x + n) = unat ((x - b) + n)" by (simp only: off_def)
  also have "\<dots> = unat (x - b) + unat n"
    using assms by (intro unat_add_small) (simp add: off_def)
  finally show ?thesis by (simp only: off_def)
qed

lemma off_sub:
  assumes "unat n \<le> off b x"
  shows "off b (x - n) = off b x - unat n"
proof -
  have "x - n - b = (x - b) - n" by simp
  then have "off b (x - n) = unat ((x - b) - n)" by (simp only: off_def)
  also have "\<dots> = unat (x - b) - unat n"
    using assms by (intro unat_sub_le) (simp add: off_def)
  finally show ?thesis by (simp only: off_def)
qed

lemma off_inj [simp]: "off b x = off b y \<longleftrightarrow> x = y"
proof -
  have "unat (x - b) = unat (y - b) \<longleftrightarrow> x - b = y - b" by (rule word_unat_eq_iff [symmetric])
  then show ?thesis by (simp add: off_def)
qed

lemma signed_diff_31:
  "m < 0x80000000 \<Longrightarrow> n < 0x80000000 \<Longrightarrow>
   signed_take_bit 31 (int m - int n) = int m - int n"
  by (rule signed_take_bit_int_eq_self) simp_all

lemma sint_diff:
  fixes u v :: u32
  assumes "unat u < 0x80000000" and "unat v < 0x80000000"
  shows "sint (u - v) = int (unat u) - int (unat v)"
proof -
  have e: "u - v = word_of_int (int (unat u) - int (unat v))" by simp
  have "sint (word_of_int k :: u32) = signed_take_bit 31 k" for k
    by (simp add: sint_sbintrunc')
  then have "sint (word_of_int (int (unat u) - int (unat v)) :: u32) =
      signed_take_bit 31 (int (unat u) - int (unat v))" .
  also have "\<dots> = int (unat u) - int (unat v)"
    using assms by (rule signed_diff_31)
  finally show ?thesis by (simp only: e)
qed

lemma seq_iffs:
  assumes "off b x < 0x80000000" and "off b y < 0x80000000"
  shows "TCP_SEQ_LT x y \<longleftrightarrow> off b x < off b y" "TCP_SEQ_LEQ x y \<longleftrightarrow> off b x \<le> off b y"
    "TCP_SEQ_GT x y \<longleftrightarrow> off b y < off b x" "TCP_SEQ_GEQ x y \<longleftrightarrow> off b y \<le> off b x"
proof -
  have "x - y = (x - b) - (y - b)" by simp
  then have "sint (x - y) = int (off b x) - int (off b y)"
    using sint_diff [of "x - b" "y - b"] assms by (simp add: off_def)
  then show "TCP_SEQ_LT x y \<longleftrightarrow> off b x < off b y" "TCP_SEQ_LEQ x y \<longleftrightarrow> off b x \<le> off b y"
    "TCP_SEQ_GT x y \<longleftrightarrow> off b y < off b x" "TCP_SEQ_GEQ x y \<longleftrightarrow> off b y \<le> off b x"
    by (simp_all add: TCP_SEQ_LT_def TCP_SEQ_LEQ_def TCP_SEQ_GT_def TCP_SEQ_GEQ_def)
qed

end
