(* ===== verification/Tcp_send.thy ===== *)
theory Tcp_send imports Tcp_base begin

text \<open>
  Queueing of data for sending, the first half of \<^verbatim>\<open>tcp_out.c\<close>: creation of segments,
  \<^verbatim>\<open>tcp_write\<close> with its three phases, splitting of the first unsent segment, and queueing
  of SYN and FIN.

  What TCP uses of the rest of the system is an environment: \<open>te_pbuf_alloc\<close> and \<open>te_seg_alloc\<close>
  decide on every allocation (\<open>'w\<close> is the state they and the layers below TCP act on), so that
  a statement about all environments covers every pattern of failing allocations. A buffer
  allocated for layer \<^verbatim>\<open>PBUF_TRANSPORT\<close> has room for the TCP header, so that
  \<^verbatim>\<open>pbuf_add_header\<close> in \<^verbatim>\<open>tcp_create_segment\<close> does not fail.
\<close>

section \<open>Environment\<close>

record 'w tcp_env =
  te_pbuf_alloc :: "pbuf_layer \<Rightarrow> u16 \<Rightarrow> pbuf_type \<Rightarrow> 'w \<Rightarrow> 'w \<times> u8 list option"
  te_seg_alloc :: "'w \<Rightarrow> 'w \<times> bool"
  te_netif_get_by_index :: "'w \<Rightarrow> u8 \<Rightarrow> netif option"
  te_ip_route :: "'w \<Rightarrow> ip_addr_t \<Rightarrow> ip_addr_t \<Rightarrow> netif option"
  te_ip6_select_source_address :: "'w \<Rightarrow> netif \<Rightarrow> ip6_addr_t \<Rightarrow> ip_addr_t option"
  te_nd6_get_destination_mtu :: "'w \<Rightarrow> ip6_addr_t \<Rightarrow> netif option \<Rightarrow> u16"
  te_nd6_reachability_hint :: "'w \<Rightarrow> 'w"
  te_segment_busy :: "'w \<Rightarrow> tcp_seg \<Rightarrow> bool"
  te_ip_output_if :: "u8 list \<Rightarrow> ip_addr_t \<Rightarrow> ip_addr_t \<Rightarrow> u8 \<Rightarrow> u8 \<Rightarrow> u8 \<Rightarrow> netif \<Rightarrow> 'w \<Rightarrow> 'w \<times> err_t"

definition TF_SEG_OPTS_MSS :: u8 where "TF_SEG_OPTS_MSS = 0x01"
definition TF_SEG_OPTS_WND_SCALE :: u8 where "TF_SEG_OPTS_WND_SCALE = 0x08"
definition TF_SEG_OPTS_SACK_PERM :: u8 where "TF_SEG_OPTS_SACK_PERM = 0x10"

definition TCP_WRITE_FLAG_COPY :: u8 where "TCP_WRITE_FLAG_COPY = 0x01"
definition TCP_WRITE_FLAG_MORE :: u8 where "TCP_WRITE_FLAG_MORE = 0x02"

definition TCP_OVERSIZE :: nat where "TCP_OVERSIZE = 1460"
definition TCP_SND_QUEUELEN :: nat where "TCP_SND_QUEUELEN = (4 * (8 * 1460) + (1460 - 1)) div 1460"
definition TCP_SNDQUEUELEN_OVERFLOW :: nat where "TCP_SNDQUEUELEN_OVERFLOW = 0xffff - 3"

definition LWIP_TCP_OPT_LENGTH :: "u8 \<Rightarrow> u16" where
  "LWIP_TCP_OPT_LENGTH fs =
     (if has fs TF_SEG_OPTS_MSS then 4 else 0) +
     (if has fs TF_SEG_OPTS_WND_SCALE then 4 else 0) +
     (if has fs TF_SEG_OPTS_SACK_PERM then 4 else 0)"

definition TCPWND_MIN16 :: "u32 \<Rightarrow> u16" where
  "TCPWND_MIN16 x = ucast (min x 0xffff)"

definition LWIP_MEM_ALIGN_SIZE :: "nat \<Rightarrow> nat" where
  "LWIP_MEM_ALIGN_SIZE n = (n + 3) div 4 * 4"

definition sg_clen :: "tcp_seg \<Rightarrow> u16" where
  "sg_clen s = of_nat (length (sg_bufs s))"

definition seg_set_flags :: "u8 \<Rightarrow> tcp_seg \<Rightarrow> tcp_seg" where
  "seg_set_flags f s = s\<lparr>sg_hflags := sg_hflags s OR f\<rparr>"

section \<open>New segments\<close>

text \<open>The buffers \<open>bufs\<close> hold \<open>data\<close> behind the room for the options; \<^verbatim>\<open>p->tot_len\<close> is the sum
  of both.\<close>

definition tcp_create_segment ::
    "'w tcp_env \<Rightarrow> tcp_pcb \<Rightarrow> u8 list \<Rightarrow> seg_buf list \<Rightarrow> u8 \<Rightarrow> u32 \<Rightarrow> u8 \<Rightarrow> 'w \<Rightarrow> 'w \<times> tcp_seg option" where
  "tcp_create_segment e pcb data bufs hdrflags seqno optflags w =
     (let optlen = LWIP_TCP_OPT_LENGTH optflags in
      case te_seg_alloc e w of
        (w, False) \<Rightarrow> (w, None)
      | (w, True) \<Rightarrow>
          (w, Some \<lparr>sg_src = local_port pcb, sg_dest = remote_port pcb, sg_seqno = seqno,
             sg_hlen = 5 + optlen div 4, sg_hflags = hdrflags, sg_len = of_nat (length data),
             sg_data = data, sg_bufs = bufs, sg_flags = optflags\<rparr>))"

text \<open>A buffer of \<open>len\<close> bytes, perhaps with spare bytes behind them, whose number is returned.\<close>

definition tcp_pbuf_prealloc ::
    "'w tcp_env \<Rightarrow> pbuf_layer \<Rightarrow> u16 \<Rightarrow> u16 \<Rightarrow> tcp_pcb \<Rightarrow> u8 \<Rightarrow> bool \<Rightarrow> 'w \<Rightarrow> 'w \<times> u16 option" where
  "tcp_pbuf_prealloc e layer len max_len pcb apiflags first_seg w =
     (let alloc =
            (if len < max_len \<and>
                (has apiflags TCP_WRITE_FLAG_MORE \<or>
                 \<not> has (flags pcb) TF_NODELAY \<and>
                 (\<not> first_seg \<or> unsent pcb \<noteq> [] \<or> unacked pcb \<noteq> []))
             then of_nat (min (unat max_len) (LWIP_MEM_ALIGN_SIZE (unat len + TCP_OVERSIZE)))
             else len)
      in case te_pbuf_alloc e layer alloc PBUF_RAM w of
           (w, None) \<Rightarrow> (w, None)
         | (w, Some _) \<Rightarrow> (w, Some (alloc - len)))"

section \<open>\<^verbatim>\<open>tcp_write\<close>\<close>

definition tcp_write_checks :: "tcp_pcb \<Rightarrow> u16 \<Rightarrow> (tcp_pcb \<times> err_t) option" where
  "tcp_write_checks pcb len =
     (if state pcb \<noteq> ESTABLISHED \<and> state pcb \<noteq> CLOSE_WAIT \<and> state pcb \<noteq> SYN_SENT \<and> state pcb \<noteq> SYN_RCVD
      then Some (pcb, ERR_CONN)
      else if len = 0 then Some (pcb, ERR_OK)
      else if ucast len > snd_buf pcb then Some (tcp_set_flags pcb TF_NAGLEMEMERR, ERR_MEM)
      else if unat (snd_queuelen pcb) \<ge> min TCP_SND_QUEUELEN (TCP_SNDQUEUELEN_OVERFLOW + 1)
      then Some (tcp_set_flags pcb TF_NAGLEMEMERR, ERR_MEM)
      else do {
        LWIP_ASSERT (if snd_queuelen pcb \<noteq> 0 then unacked pcb \<noteq> [] \<or> unsent pcb \<noteq> []
                     else unacked pcb = [] \<and> unsent pcb = []);
        Some (pcb, ERR_OK) })"

definition write_mss :: "tcp_pcb \<Rightarrow> u16" where
  "write_mss pcb =
     (let m = min (mss pcb) (TCPWND_MIN16 (snd_wnd_max pcb div 2)) in if m \<noteq> 0 then m else mss pcb)"

text \<open>The local variables of the first two phases: bytes for the spare room, the room left, the
  position in the data, the length of the queue, the buffer to append or the extension of the last
  one, and whether \<^verbatim>\<open>seg\<close> is \<^verbatim>\<open>last_unsent\<close>.\<close>

record write_plan =
  wp_used :: u16
  wp_oversize :: u16
  wp_pos :: u16
  wp_queuelen :: u16
  wp_concat :: "seg_buf option"
  wp_extend :: u16
  wp_last :: bool

definition write_phase1 :: "tcp_pcb \<Rightarrow> tcp_seg \<Rightarrow> u16 \<Rightarrow> (write_plan \<times> u16) option" where
  "write_phase1 pcb last_unsent len = do {
     let unsent_optlen = LWIP_TCP_OPT_LENGTH (sg_flags last_unsent);
     LWIP_ASSERT (unat (write_mss pcb) \<ge> unat (sg_len last_unsent) + unat unsent_optlen);
     let space = write_mss pcb - (sg_len last_unsent + unsent_optlen);
     let oversize = unsent_oversize pcb;
     LWIP_ASSERT (oversize > 0 \<longrightarrow> oversize \<le> space);
     let used = (if oversize > 0 then min space (min oversize len) else 0);
     LWIP_ASSERT (oversize - used = 0 \<or> used = len);
     Some (\<lparr>wp_used = used, wp_oversize = oversize - used, wp_pos = used, wp_queuelen = snd_queuelen pcb,
            wp_concat = None, wp_extend = 0, wp_last = (oversize > 0)\<rparr>, space - used) }"

text \<open>An inner \<open>None\<close> is the jump to \<^verbatim>\<open>memerr\<close>.\<close>

definition write_phase2 ::
    "'w tcp_env \<Rightarrow> tcp_pcb \<Rightarrow> tcp_seg \<Rightarrow> nat \<Rightarrow> u16 \<Rightarrow> u8 \<Rightarrow> write_plan \<Rightarrow> u16 \<Rightarrow> 'w \<Rightarrow>
     ('w \<times> write_plan option) option" where
  "write_phase2 e pcb last_unsent arg len apiflags wp space w =
     (if wp_pos wp < len \<and> space > 0 \<and> sg_len last_unsent > 0
      then let seglen = min space (len - wp_pos wp);
               wp' = wp\<lparr>wp_pos := wp_pos wp + seglen, wp_last := True\<rparr> in
        if has apiflags TCP_WRITE_FLAG_COPY
        then (case tcp_pbuf_prealloc e PBUF_RAW seglen space pcb apiflags True w of
                (w, None) \<Rightarrow> Some (w, None)
              | (w, Some oversize) \<Rightarrow>
                  Some (w, Some (wp'\<lparr>wp_oversize := oversize, wp_concat := Some (unat seglen, None),
                                     wp_queuelen := wp_queuelen wp + 1\<rparr>)))
        else (case List.last (sg_bufs last_unsent) of
                (n, a) \<Rightarrow>
                  if map_option (\<lambda>a. a + n) a = Some arg
                  then do { LWIP_ASSERT (wp_pos wp = 0);
                            Some (w, Some (wp'\<lparr>wp_extend := seglen\<rparr>)) }
                  else (case te_pbuf_alloc e PBUF_RAW seglen PBUF_ROM w of
                          (w, None) \<Rightarrow> Some (w, None)
                        | (w, Some _) \<Rightarrow>
                            Some (w, Some (wp'\<lparr>wp_concat := Some (unat seglen, Some (arg + unat (wp_pos wp))),
                                               wp_queuelen := wp_queuelen wp + 1\<rparr>))))
      else Some (w, Some wp))"

text \<open>The end of an iteration of phase 3, when the buffers are there.\<close>

definition write_enqueue ::
    "'w tcp_env \<Rightarrow> tcp_pcb \<Rightarrow> u8 list \<Rightarrow> seg_buf list \<Rightarrow> u16 \<Rightarrow> u16 \<Rightarrow> 'w \<Rightarrow> 'w \<times> (tcp_seg \<times> u16) option" where
  "write_enqueue e pcb data bufs pos queuelen w =
     (let queuelen = queuelen + of_nat (length bufs) in
      if unat queuelen > min TCP_SND_QUEUELEN TCP_SNDQUEUELEN_OVERFLOW then (w, None)
      else case tcp_create_segment e pcb data bufs 0 (snd_lbb pcb + ucast pos) 0 w of
             (w, None) \<Rightarrow> (w, None)
           | (w, Some seg) \<Rightarrow> (w, Some (seg, queuelen)))"

text \<open>Phase 3, the loop: \<open>queue\<close> are the new segments, the result is the queue with its length
  and the spare room of its last segment. The loop takes data of length 0 if the segment
  size is 0; that it ends is proved.\<close>

partial_function (option) write_phase3 ::
    "'w tcp_env \<Rightarrow> tcp_pcb \<Rightarrow> nat \<Rightarrow> u8 list \<Rightarrow> u8 \<Rightarrow> u16 \<Rightarrow> u16 \<Rightarrow> u16 \<Rightarrow> tcp_seg list \<Rightarrow> 'w \<Rightarrow>
     ('w \<times> (tcp_seg list \<times> u16 \<times> u16) option) option" where
  "write_phase3 e pcb arg data apiflags pos queuelen oversize queue w =
     (if \<not> pos < of_nat (length data) then Some (w, Some (queue, queuelen, oversize))
      else
        let optlen = LWIP_TCP_OPT_LENGTH 0;
            left = of_nat (length data) - pos;
            seglen = min left (write_mss pcb - optlen);
            part = take (unat seglen) (drop (unat pos) data) in
        if has apiflags TCP_WRITE_FLAG_COPY
        then (case tcp_pbuf_prealloc e PBUF_TRANSPORT (seglen + optlen) (write_mss pcb) pcb apiflags (queue = []) w of
                (w, None) \<Rightarrow> Some (w, None)
              | (w, Some oversize) \<Rightarrow>
                  (case write_enqueue e pcb part [(unat seglen, None)] pos queuelen w of
                     (w, None) \<Rightarrow> Some (w, None)
                   | (w, Some (seg, queuelen)) \<Rightarrow>
                       write_phase3 e pcb arg data apiflags (pos + seglen) queuelen oversize (queue @ [seg]) w))
        else Option.bind (LWIP_ASSERT (oversize = 0)) (\<lambda>_.
          case te_pbuf_alloc e PBUF_TRANSPORT seglen PBUF_ROM w of
            (w, None) \<Rightarrow> Some (w, None)
          | (w, Some _) \<Rightarrow>
              (case te_pbuf_alloc e PBUF_TRANSPORT optlen PBUF_RAM w of
                 (w, None) \<Rightarrow> Some (w, None)
               | (w, Some _) \<Rightarrow>
                   (case write_enqueue e pcb part [(0, None), (unat seglen, Some (arg + unat pos))] pos queuelen w of
                      (w, None) \<Rightarrow> Some (w, None)
                    | (w, Some (seg, queuelen)) \<Rightarrow>
                        write_phase3 e pcb arg data apiflags (pos + seglen) queuelen oversize (queue @ [seg]) w))))"

text \<open>The commitment of phases 1 and 2 to the last unsent segment.\<close>

definition grow_last_buf :: "nat \<Rightarrow> seg_buf list \<Rightarrow> seg_buf list" where
  "grow_last_buf k bs = butlast bs @ [(fst (List.last bs) + k, snd (List.last bs))]"

definition write_commit_last :: "write_plan \<Rightarrow> u8 list \<Rightarrow> tcp_seg \<Rightarrow> tcp_seg" where
  "write_commit_last wp data s =
     (let s = (if wp_used wp > 0
               then s\<lparr>sg_data := sg_data s @ take (unat (wp_used wp)) data,
                      sg_bufs := grow_last_buf (unat (wp_used wp)) (sg_bufs s),
                      sg_len := sg_len s + wp_used wp\<rparr>
               else s)
      in case wp_concat wp of
           Some b \<Rightarrow>
             s\<lparr>sg_data := sg_data s @ take (fst b) (drop (unat (wp_used wp)) data),
               sg_bufs := sg_bufs s @ [b], sg_len := sg_len s + of_nat (fst b)\<rparr>
         | None \<Rightarrow>
             (if wp_extend wp > 0
              then s\<lparr>sg_data := sg_data s @ take (unat (wp_extend wp)) data,
                     sg_bufs := grow_last_buf (unat (wp_extend wp)) (sg_bufs s),
                     sg_len := sg_len s + wp_extend wp\<rparr>
              else s))"

definition upd_last :: "('a \<Rightarrow> 'a) \<Rightarrow> 'a list \<Rightarrow> 'a list" where
  "upd_last f xs = (if xs = [] then [] else butlast xs @ [f (List.last xs)])"

definition write_commit ::
    "tcp_pcb \<Rightarrow> u8 list \<Rightarrow> u8 \<Rightarrow> write_plan \<Rightarrow> tcp_seg list \<Rightarrow> u16 \<Rightarrow> u16 \<Rightarrow> tcp_pcb option" where
  "write_commit pcb data apiflags wp queue queuelen oversize = do {
     let us = upd_last (write_commit_last wp data) (unsent pcb) @ queue;
     let us = (if (queue \<noteq> [] \<or> wp_last wp) \<and> \<not> has apiflags TCP_WRITE_FLAG_MORE
               then upd_last (seg_set_flags TCP_PSH) us else us);
     LWIP_ASSERT (queuelen \<noteq> 0 \<longrightarrow> unacked pcb \<noteq> [] \<or> us \<noteq> []);
     Some (pcb\<lparr>unsent := us, unsent_oversize := oversize, snd_lbb := snd_lbb pcb + of_nat (length data),
               snd_buf := snd_buf pcb - of_nat (length data), snd_queuelen := queuelen\<rparr>) }"

definition write_memerr :: "tcp_pcb \<Rightarrow> (tcp_pcb \<times> err_t) option" where
  "write_memerr pcb = do {
     LWIP_ASSERT (snd_queuelen pcb \<noteq> 0 \<longrightarrow> unacked pcb \<noteq> [] \<or> unsent pcb \<noteq> []);
     Some (tcp_set_flags pcb TF_NAGLEMEMERR, ERR_MEM) }"

text \<open>\<open>data\<close> are the bytes at the address \<open>arg\<close>.\<close>

definition tcp_write ::
    "'w tcp_env \<Rightarrow> tcp_pcb \<Rightarrow> nat \<Rightarrow> u8 list \<Rightarrow> u8 \<Rightarrow> 'w \<Rightarrow> ('w \<times> tcp_pcb \<times> err_t) option" where
  "tcp_write e pcb arg data apiflags w = do {
     let len = of_nat (length data);
     (pcb, err) \<leftarrow> tcp_write_checks pcb len;
     (if err \<noteq> ERR_OK then Some (w, pcb, err)
      else do {
        (w, wp) \<leftarrow> (case unsent pcb of
            [] \<Rightarrow> do {
              LWIP_ASSERT (unsent_oversize pcb = 0);
              Some (w, Some \<lparr>wp_used = 0, wp_oversize = 0, wp_pos = 0, wp_queuelen = snd_queuelen pcb,
                             wp_concat = None, wp_extend = 0, wp_last = False\<rparr>) }
          | _ \<Rightarrow> do {
              (wp, space) \<leftarrow> write_phase1 pcb (List.last (unsent pcb)) len;
              write_phase2 e pcb (List.last (unsent pcb)) arg len apiflags wp space w });
        (case wp of
           None \<Rightarrow> do { (pcb, err) \<leftarrow> write_memerr pcb; Some (w, pcb, err) }
         | Some wp \<Rightarrow> do {
             (w, r) \<leftarrow> write_phase3 e pcb arg data apiflags (wp_pos wp) (wp_queuelen wp) (wp_oversize wp) [] w;
             (case r of
                None \<Rightarrow> do { (pcb, err) \<leftarrow> write_memerr pcb; Some (w, pcb, err) }
              | Some (queue, queuelen, oversize) \<Rightarrow> do {
                  pcb \<leftarrow> write_commit pcb data apiflags wp queue queuelen oversize;
                  Some (w, pcb, ERR_OK) }) }) }) }"

section \<open>Splitting the first unsent segment\<close>

text \<open>What \<^verbatim>\<open>pbuf_realloc\<close> leaves of the buffers when \<open>n\<close> data bytes stay.\<close>

fun trim_bufs :: "nat \<Rightarrow> seg_buf list \<Rightarrow> seg_buf list" where
  "trim_bufs n [] = []"
| "trim_bufs n ((l, a) # bs) = (if n > l then (l, a) # trim_bufs (n - l) bs else [(n, a)])"

text \<open>The flags of the two halves: \<^verbatim>\<open>split_flags\<close> and \<^verbatim>\<open>remainder_flags\<close>.\<close>

definition split_flags :: "u8 \<Rightarrow> u8 \<times> u8" where
  "split_flags fl =
     (let (sf, rf) = (if has fl TCP_PSH then (fl AND NOT TCP_PSH, 0 OR TCP_PSH) else (fl, 0))
      in if has sf TCP_FIN then (sf AND NOT TCP_FIN, rf OR TCP_FIN) else (sf, rf))"

text \<open>When \<^verbatim>\<open>tcp_create_segment\<close> gets no memory it has freed \<open>p\<close>, and the code behind
  \<^verbatim>\<open>memerr\<close> frees it a second time: a fault.\<close>

definition tcp_split_unsent_seg ::
    "'w tcp_env \<Rightarrow> tcp_pcb \<Rightarrow> u16 \<Rightarrow> 'w \<Rightarrow> ('w \<times> tcp_pcb \<times> err_t) option" where
  "tcp_split_unsent_seg e pcb split w =
     (case unsent pcb of
        [] \<Rightarrow> Some (w, pcb, ERR_MEM)
      | useg # us \<Rightarrow>
          if split = 0 then None
          else if sg_len useg \<le> split then Some (w, pcb, ERR_OK)
          else do {
            LWIP_ASSERT (split \<le> mss pcb);
            LWIP_ASSERT (sg_len useg > 0);
            let optlen = LWIP_TCP_OPT_LENGTH (sg_flags useg);
            let remainder = sg_len useg - split;
            (case te_pbuf_alloc e PBUF_TRANSPORT (remainder + optlen) PBUF_RAM w of
               (w, None) \<Rightarrow> Some (w, pcb, ERR_MEM)
             | (w, Some _) \<Rightarrow>
                 if length (drop (unat split) (sg_data useg)) < unat remainder then Some (w, pcb, ERR_MEM)
                 else
                   let (sflags, rflags) = split_flags (sg_hflags useg);
                       rest = take (unat remainder) (drop (unat split) (sg_data useg))
                   in case tcp_create_segment e pcb rest [(unat remainder, None)] rflags
                          (sg_seqno useg + ucast split) (sg_flags useg) w of
                        (w, None) \<Rightarrow> None
                      | (w, Some seg) \<Rightarrow>
                          let useg' = seg_set_flags sflags (useg\<lparr>sg_len := sg_len useg - remainder,
                                sg_data := take (unat split) (sg_data useg),
                                sg_bufs := trim_bufs (unat split) (sg_bufs useg)\<rparr>)
                          in Some (w, pcb\<lparr>unsent := useg' # seg # us,
                               snd_queuelen := snd_queuelen pcb - sg_clen useg + sg_clen useg' + sg_clen seg,
                               unsent_oversize := (if us = [] then 0 else unsent_oversize pcb)\<rparr>, ERR_OK)) })"

section \<open>SYN and FIN\<close>

definition syn_optflags :: "tcp_pcb \<Rightarrow> u8" where
  "syn_optflags pcb =
     TF_SEG_OPTS_MSS OR
     (if state pcb \<noteq> SYN_RCVD \<or> has (flags pcb) TF_WND_SCALE then TF_SEG_OPTS_WND_SCALE else 0) OR
     (if state pcb \<noteq> SYN_RCVD \<or> has (flags pcb) TF_SACK then TF_SEG_OPTS_SACK_PERM else 0)"

definition tcp_enqueue_flags ::
    "'w tcp_env \<Rightarrow> tcp_pcb \<Rightarrow> u8 \<Rightarrow> 'w \<Rightarrow> ('w \<times> tcp_pcb \<times> err_t) option" where
  "tcp_enqueue_flags e pcb fl w = do {
     LWIP_ASSERT (has fl (TCP_SYN OR TCP_FIN));
     let optflags = (if has fl TCP_SYN then syn_optflags pcb else 0);
     (case te_pbuf_alloc e PBUF_TRANSPORT (LWIP_TCP_OPT_LENGTH optflags) PBUF_RAM w of
        (w, None) \<Rightarrow> Some (w, tcp_set_flags pcb TF_NAGLEMEMERR, ERR_MEM)
      | (w, Some _) \<Rightarrow>
          (case tcp_create_segment e pcb [] [(0, None)] fl (snd_lbb pcb) optflags w of
             (w, None) \<Rightarrow> Some (w, tcp_set_flags pcb TF_NAGLEMEMERR, ERR_MEM)
           | (w, Some seg) \<Rightarrow>
               let pcb = pcb\<lparr>unsent := unsent pcb @ [seg], unsent_oversize := 0, snd_lbb := snd_lbb pcb + 1\<rparr>;
                   pcb = (if has fl TCP_FIN then tcp_set_flags pcb TF_FIN else pcb)
               in Some (w, pcb\<lparr>snd_queuelen := snd_queuelen pcb + sg_clen seg\<rparr>, ERR_OK))) }"

definition tcp_send_fin :: "'w tcp_env \<Rightarrow> tcp_pcb \<Rightarrow> 'w \<Rightarrow> ('w \<times> tcp_pcb \<times> err_t) option" where
  "tcp_send_fin e pcb w =
     (if unsent pcb \<noteq> [] \<and> \<not> has (sg_hflags (List.last (unsent pcb))) (TCP_SYN OR TCP_FIN OR TCP_RST)
      then Some (w, tcp_set_flags (pcb\<lparr>unsent := upd_last (seg_set_flags TCP_FIN) (unsent pcb)\<rparr>) TF_FIN, ERR_OK)
      else tcp_enqueue_flags e pcb TCP_FIN w)"

end
