(* ===== verification/Tcp_opt.thy ===== *)
theory Tcp_opt imports Tcp_base begin

text \<open>
  TCP options and selective acknowledgements of \<^verbatim>\<open>tcp_in.c\<close>: \<open>tcp_parseopt\<close>, which reads
  the options of a header byte by byte, possibly from two buffers, and the list of SACK
  ranges of a connection. The parser agrees with a reference parser of the option bytes and
  looks at no byte more than one behind them, and at that one only when the options are cut
  short; the loops on the array of ranges agree with a
  description on lists.
\<close>

section \<open>Reading option bytes\<close>

definition nth_byte :: "u8 list \<Rightarrow> nat \<Rightarrow> u8 option" where
  "nth_byte m i = (if i < length m then Some (m ! i) else None)"

definition tcp_get_next_optbyte :: "tcp_opts \<Rightarrow> u16 \<Rightarrow> (u8 \<times> u16) option" where
  "tcp_get_next_optbyte os idx =
     (case op_mem2 os of
        None \<Rightarrow> map_option (\<lambda>b. (b, idx + 1)) (nth_byte (op_mem1 os) (unat idx))
      | Some m2 \<Rightarrow>
          (if idx < op_len1 os
           then map_option (\<lambda>b. (b, idx + 1)) (nth_byte (op_mem1 os) (unat idx))
           else map_option (\<lambda>b. (b, idx + 1))
                  (nth_byte m2 (unat (ucast (idx - op_len1 os) :: u8)))))"

definition parse_mss :: "tcp_pcb \<Rightarrow> u16 \<Rightarrow> tcp_pcb" where
  "parse_mss pcb m = pcb\<lparr>mss := (if m > TCP_MSS \<or> m = 0 then TCP_MSS else m)\<rparr>"

definition parse_ws :: "u8 \<Rightarrow> tcp_pcb \<Rightarrow> u8 \<Rightarrow> tcp_pcb option" where
  "parse_ws fl pcb d =
     (if has fl TCP_SYN \<and> \<not> has (flags pcb) TF_WND_SCALE then do {
        LWIP_ASSERT (rcv_wnd pcb = min TCP_WND 0xffff);
        LWIP_ASSERT (rcv_ann_wnd pcb = min TCP_WND 0xffff);
        Some ((tcp_set_flags pcb TF_WND_SCALE)
          \<lparr>rcv_wnd := TCP_WND, rcv_ann_wnd := TCP_WND,
           snd_scale := (if d > 14 then 14 else d), rcv_scale := TCP_RCV_SCALE\<rparr>)
      } else Some pcb)"

definition parse_sack_perm :: "u8 \<Rightarrow> tcp_pcb \<Rightarrow> tcp_pcb" where
  "parse_sack_perm fl pcb = (if has fl TCP_SYN then tcp_set_flags pcb TF_SACK else pcb)"

text \<open>The loop from an index on. The comparison with the option length is done in
  \<^verbatim>\<open>int\<close>; a loop that does not end would be \<open>None\<close>.\<close>

partial_function (option) parseopt_loop ::
    "tcp_opts \<Rightarrow> u8 \<Rightarrow> tcp_pcb \<Rightarrow> u16 \<Rightarrow> tcp_pcb option" where
  "parseopt_loop os fl pcb idx =
     (if \<not> idx < op_len os then Some pcb
      else Option.bind (tcp_get_next_optbyte os idx) (\<lambda>(opt, idx).
        if opt = 0 then Some pcb
        else if opt = 1 then parseopt_loop os fl pcb idx
        else Option.bind (tcp_get_next_optbyte os idx) (\<lambda>(data, idx).
          if opt = 2 then
            (if data \<noteq> 4 \<or> unat idx - 2 + 4 > unat (op_len os) then Some pcb
             else Option.bind (tcp_get_next_optbyte os idx) (\<lambda>(a, idx).
               Option.bind (tcp_get_next_optbyte os idx) (\<lambda>(b, idx).
                 parseopt_loop os fl (parse_mss pcb (push_bit 8 (ucast a) OR ucast b)) idx)))
          else if opt = 3 then
            (if data \<noteq> 3 \<or> unat idx - 2 + 3 > unat (op_len os) then Some pcb
             else Option.bind (tcp_get_next_optbyte os idx) (\<lambda>(d, idx).
               Option.bind (parse_ws fl pcb d) (\<lambda>pcb. parseopt_loop os fl pcb idx)))
          else if opt = 4 then
            (if data \<noteq> 2 \<or> unat idx - 2 + 2 > unat (op_len os) then Some pcb
             else parseopt_loop os fl (parse_sack_perm fl pcb) idx)
          else if data < 2 then Some pcb
          else parseopt_loop os fl pcb (idx + (ucast data - 2)))))"

definition tcp_parseopt :: "tcp_opts \<Rightarrow> u8 \<Rightarrow> tcp_pcb \<Rightarrow> tcp_pcb option" where
  "tcp_parseopt os fl pcb = (if op_len os \<noteq> 0 then parseopt_loop os fl pcb 0 else Some pcb)"

section \<open>The reference parser\<close>

datatype tcp_option = MSS u16 | WS u8 | SACK_PERM

fun opts_of :: "u8 list \<Rightarrow> tcp_option list" where
  "opts_of [] = []"
| "opts_of (k # r) =
     (if k = 0 then []
      else if k = 1 then opts_of r
      else if k = 2 then
        (case r of l # a # b # r' \<Rightarrow>
           (if l = 4 then MSS (push_bit 8 (ucast a) OR ucast b) # opts_of r' else [])
         | _ \<Rightarrow> [])
      else if k = 3 then
        (case r of l # d # r' \<Rightarrow> (if l = 3 then WS d # opts_of r' else []) | _ \<Rightarrow> [])
      else if k = 4 then
        (case r of l # r' \<Rightarrow> (if l = 2 then SACK_PERM # opts_of r' else []) | _ \<Rightarrow> [])
      else (case r of l # r' \<Rightarrow> (if l < 2 then [] else opts_of (drop (unat l - 2) r')) | _ \<Rightarrow> []))"

fun apply_option :: "u8 \<Rightarrow> tcp_option \<Rightarrow> tcp_pcb \<Rightarrow> tcp_pcb option" where
  "apply_option fl (MSS m) pcb = Some (parse_mss pcb m)"
| "apply_option fl (WS d) pcb = parse_ws fl pcb d"
| "apply_option fl SACK_PERM pcb = Some (parse_sack_perm fl pcb)"

fun apply_options :: "u8 \<Rightarrow> tcp_option list \<Rightarrow> tcp_pcb \<Rightarrow> tcp_pcb option" where
  "apply_options fl [] pcb = Some pcb"
| "apply_options fl (x # xs) pcb = Option.bind (apply_option fl x pcb) (apply_options fl xs)"

text \<open>The option bytes and what follows them, as one list.\<close>

definition opt_mem :: "tcp_opts \<Rightarrow> u8 list" where
  "opt_mem os =
     (case op_mem2 os of None \<Rightarrow> op_mem1 os | Some m2 \<Rightarrow> take (unat (op_len1 os)) (op_mem1 os) @ m2)"

text \<open>All options are there and one more byte is behind them.\<close>

definition opts_ok :: "tcp_opts \<Rightarrow> bool" where
  "opts_ok os \<longleftrightarrow> op_len os \<le> 40 \<and> unat (op_len os) < length (opt_mem os) \<and>
     (op_mem2 os \<noteq> None \<longrightarrow> unat (op_len1 os) \<le> length (op_mem1 os))"

text \<open>What every accepted segment has: at most 40 bytes of options, all of them in the two
  buffers. A SYN without data has no byte behind them, so \<open>opts_ok\<close>, which asks for one more, is
  not met by it. Only options that end in the middle of an option, its kind being the last byte,
  need that byte.\<close>

definition opts_fit :: "tcp_opts \<Rightarrow> bool" where
  "opts_fit os \<longleftrightarrow> op_len os \<le> 40 \<and> unat (op_len os) \<le> length (opt_mem os) \<and>
     (op_mem2 os \<noteq> None \<longrightarrow> unat (op_len1 os) \<le> length (op_mem1 os))"

lemma opts_ok_fit: "opts_ok os \<Longrightarrow> opts_fit os"
  by (simp add: opts_ok_def opts_fit_def)

fun cut_short :: "u8 list \<Rightarrow> bool" where
  "cut_short [] = False"
| "cut_short (k # r) =
     (if k = 0 then False
      else if k = 1 then cut_short r
      else case r of
        [] \<Rightarrow> True
      | l # r' \<Rightarrow>
          if k = 2 then l = 4 \<and> 2 \<le> length r' \<and> cut_short (drop 2 r')
          else if k = 3 then l = 3 \<and> 1 \<le> length r' \<and> cut_short (drop 1 r')
          else if k = 4 then l = 2 \<and> cut_short r'
          else 2 \<le> l \<and> cut_short (drop (unat l - 2) r'))"

text \<open>The parser stays within the options and one byte behind them.\<close>

definition parse_or_fault :: "u8 \<Rightarrow> bool \<Rightarrow> u8 list \<Rightarrow> tcp_pcb \<Rightarrow> tcp_pcb option" where
  "parse_or_fault fl ends bs pcb =
     (if ends \<and> cut_short bs then None else apply_options fl (opts_of bs) pcb)"

lemma parse_or_fault_stop: "opts_of bs = [] \<Longrightarrow> \<not> cut_short bs \<Longrightarrow> parse_or_fault fl ends bs pcb = Some pcb"
  by (simp add: parse_or_fault_def)

lemma bind_None_if: "Option.bind x (\<lambda>p. if c then None else f p) = (if c then None else Option.bind x f)"
  by (cases x) simp_all

lemma get_next_optbyte:
  assumes "opts_fit os" and "unat idx < 44"
  shows "tcp_get_next_optbyte os idx =
    (if unat idx < length (opt_mem os) then Some (opt_mem os ! unat idx, idx + 1) else None)"
proof (cases "op_mem2 os")
  case None
  then show ?thesis using assms by (simp add: tcp_get_next_optbyte_def opt_mem_def nth_byte_def)
next
  case (Some m2)
  show ?thesis
  proof (cases "idx < op_len1 os")
    case True
    then have "unat idx < unat (op_len1 os)" by (simp add: word_less_nat_alt)
    with True Some assms show ?thesis
      by (simp add: tcp_get_next_optbyte_def opt_mem_def nth_byte_def opts_fit_def nth_append)
  next
    case False
    then have le: "unat (op_len1 os) \<le> unat idx" by (simp add: word_less_nat_alt)
    then have d: "unat (idx - op_len1 os) = unat idx - unat (op_len1 os)"
      by (simp add: word_nat)
    then have "unat (ucast (idx - op_len1 os) :: u8) = unat idx - unat (op_len1 os)"
      using assms(2) by (simp add: unat_ucast_mod)
    with False Some assms le show ?thesis
      by (simp add: tcp_get_next_optbyte_def opt_mem_def nth_byte_def opts_fit_def nth_append
          min_absorb1) arith
  qed
qed

lemma drop_Cons: "i < length xs \<Longrightarrow> drop i xs = xs ! i # drop (Suc i) xs"
  by (simp add: Cons_nth_drop_Suc)

lemma parse_or_fault_simps:
  "parse_or_fault fl e (0 # r) q = Some q"
  "parse_or_fault fl e (1 # r) q = parse_or_fault fl e r q"
  "parse_or_fault fl e (2 # 4 # a # b # r) q = parse_or_fault fl e r (parse_mss q (push_bit 8 (ucast a) OR ucast b))"
  "parse_or_fault fl e (3 # 3 # d # r) q = Option.bind (parse_ws fl q d) (parse_or_fault fl e r)"
  "parse_or_fault fl e (4 # 2 # r) q = parse_or_fault fl e r (parse_sack_perm fl q)"
  by (simp_all add: parse_or_fault_def bind_None_if fun_eq_iff split: if_splits)
     (cases "parse_ws fl q d"; simp add: parse_or_fault_def)+

lemma parse_or_fault_other:
  "k \<notin> {0, 1, 2, 3, 4} \<Longrightarrow> 2 \<le> (l :: u8) \<Longrightarrow>
    parse_or_fault fl e (k # l # r) q = parse_or_fault fl e (drop (unat l - 2) r) q"
  by (simp add: parse_or_fault_def leD)

lemma parse_or_fault_cut: "k \<notin> {0, 1} \<Longrightarrow> parse_or_fault fl True [k] q = None"
  by (simp add: parse_or_fault_def)

text \<open>The loop from any index on does what the reference parser says of the bytes from there
  on, and faults exactly when it has to look behind the last byte of the memory.\<close>

lemma parseopt_loop_exact:
  assumes ok: "opts_fit os" and "unat idx \<le> 1000"
  shows "parseopt_loop os fl pcb idx =
    parse_or_fault fl (unat (op_len os) = length (opt_mem os))
      (drop (unat idx) (take (unat (op_len os)) (opt_mem os))) pcb"
  using assms(2)
proof (induction "unat (op_len os) - unat idx" arbitrary: idx pcb rule: less_induct)
  case less
  define n where "n = unat (op_len os)"
  define i where "i = unat idx"
  define m where "m = opt_mem os"
  define ends where "ends = (n = length m)"
  have n: "n \<le> 40" "n \<le> length m"
    using ok by (simp_all add: opts_fit_def n_def m_def word_le_nat_alt)
  note IH = less.hyps [folded n_def m_def, folded ends_def]
  have lt: "idx < op_len os \<longleftrightarrow> i < n" by (simp add: word_less_nat_alt i_def n_def)
  have un: "unat (idx + of_nat j) = i + j" if "j < 60000" for j
    using that less.prems by (simp add: i_def unat_add_small unat_of_nat)
  have get: "tcp_get_next_optbyte os (idx + of_nat j) =
      (if i + j < length m then Some (m ! (i + j), idx + of_nat (Suc j)) else None)" if "i + j < 44" for j
    using get_next_optbyte [OF ok, of "idx + of_nat j"] un [of j] that by (simp add: m_def add.assoc add.commute)
  define rest where "rest = drop (i + 1) (take n m)"
  have "parseopt_loop os fl pcb idx = parse_or_fault fl ends (drop i (take n m)) pcb"
  proof (cases "i < n")
    case False
    then show ?thesis
      by (simp add: parseopt_loop.simps [of os fl pcb idx] lt parse_or_fault_def)
  next
    case True
    have d0: "drop i (take n m) = m ! i # rest"
      using True n drop_Cons [of i "take n m"] by (simp add: rest_def)
    have g0: "tcp_get_next_optbyte os idx = Some (m ! i, idx + 1)"
      using get [of 0] True n by simp
    have IHj: "parseopt_loop os fl q (idx + of_nat j) = parse_or_fault fl ends (drop (i + j) (take n m)) q"
      if "0 < j" "j < 600" for j q
      using IH [of "idx + of_nat j"] un [of j] that True n by (simp add: i_def [symmetric])
    note unfold = parseopt_loop.simps [of os fl pcb idx] lt True g0 d0
    note stop = parse_or_fault_def
    show ?thesis
    proof (cases "i + 1 < length m")
      case False
      then have e: "ends" "rest = []" using True n by (auto simp: ends_def rest_def)
      have "tcp_get_next_optbyte os (idx + 1) = None" using get [of 1] False True n by simp
      moreover have "parseopt_loop os fl pcb (idx + 1) = Some pcb"
        using IHj [of 1 pcb] e(2) by (simp add: rest_def parse_or_fault_def)
      ultimately show ?thesis using e by (auto simp: unfold parse_or_fault_def)
    next
      case more: True
      have g1: "tcp_get_next_optbyte os (idx + 1) = Some (m ! (i + 1), idx + 2)"
        using get [of 1] True n more by simp
      have u2: "unat (idx + 2) = i + 2" using un [of 2] by simp
      have dr: "drop (i + j) (take n m) = m ! (i + j) # drop (i + Suc j) (take n m)" if "i + j < n" for j
        using drop_Cons [of "i + j" "take n m"] that n by simp
      have rest: "rest = (if i + 1 < n then m ! (i + 1) # drop (i + 2) (take n m) else [])"
        using dr [of 1] by (simp add: rest_def)
      have rest': "drop (i + 2) (take n m) = (if i + 2 < n then m ! (i + 2) # drop (i + 3) (take n m) else [])"
        "drop (i + 3) (take n m) = (if i + 3 < n then m ! (i + 3) # drop (i + 4) (take n m) else [])"
        using dr [of 2] dr [of 3] by (simp_all add: eval_nat_numeral)
      have short: "ends \<Longrightarrow> i + 1 < n" using more by (simp add: ends_def)
      note unfold = unfold g1
      note fin = parse_or_fault_stop parse_or_fault_simps u2
      consider "m ! i = 0" | "m ! i = 1" | "m ! i = 2" | "m ! i = 3" | "m ! i = 4"
        | "m ! i \<notin> {0, 1, 2, 3, 4}" by auto
      then show ?thesis
      proof cases
        case 1
        then show ?thesis by (simp add: unfold parse_or_fault_simps)
      next
        case 2
        then show ?thesis using IHj [of 1] by (simp add: unfold parse_or_fault_simps rest_def)
      next
        case 3
        show ?thesis
        proof (cases "m ! (i + 1) = 4 \<and> i + 4 \<le> n")
          case True
          have "tcp_get_next_optbyte os (idx + 2) = Some (m ! (i + 2), idx + 3)"
            "tcp_get_next_optbyte os (idx + 3) = Some (m ! (i + 3), idx + 4)"
            using get [of 2] get [of 3] True n by (simp_all del: add_2_eq_Suc')
          then show ?thesis
            using 3 True IHj [of 4]
            by (simp add: unfold rest rest' u2 parse_or_fault_simps del: add_2_eq_Suc' flip: n_def)
        next
          case False
          have "ends \<longrightarrow> \<not> cut_short (m ! i # rest)" "opts_of (m ! i # rest) = []"
            using 3 False short by (auto simp: rest rest' simp del: add_2_eq_Suc')
          then have "parse_or_fault fl ends (m ! i # rest) pcb = Some pcb" by (simp add: parse_or_fault_def)
          with False 3 show ?thesis
            by (auto simp: unfold u2 simp del: add_2_eq_Suc' simp flip: n_def)
        qed
      next
        case 4
        show ?thesis
        proof (cases "m ! (i + 1) = 3 \<and> i + 3 \<le> n")
          case True
          have "tcp_get_next_optbyte os (idx + 2) = Some (m ! (i + 2), idx + 3)"
            using get [of 2] True n by (simp del: add_2_eq_Suc')
          then show ?thesis
            using 4 True IHj [of 3]
            by (simp add: unfold rest rest'(1) u2 parse_or_fault_simps del: add_2_eq_Suc' flip: n_def
                cong: option.case_cong)
        next
          case False
          have "ends \<longrightarrow> \<not> cut_short (m ! i # rest)" "opts_of (m ! i # rest) = []"
            using 4 False short by (auto simp: rest rest' simp del: add_2_eq_Suc')
          then have "parse_or_fault fl ends (m ! i # rest) pcb = Some pcb" by (simp add: parse_or_fault_def)
          with False 4 show ?thesis
            by (auto simp: unfold u2 simp del: add_2_eq_Suc' simp flip: n_def)
        qed
      next
        case 5
        show ?thesis
        proof (cases "m ! (i + 1) = 2 \<and> i + 2 \<le> n")
          case True
          then show ?thesis
            using 5 IHj [of 2]
            by (simp add: unfold rest u2 parse_or_fault_simps del: add_2_eq_Suc' flip: n_def)
        next
          case False
          have "ends \<longrightarrow> \<not> cut_short (m ! i # rest)" "opts_of (m ! i # rest) = []"
            using 5 False short by (auto simp: rest simp del: add_2_eq_Suc')
          then have "parse_or_fault fl ends (m ! i # rest) pcb = Some pcb" by (simp add: parse_or_fault_def)
          with False 5 show ?thesis
            by (auto simp: unfold u2 simp del: add_2_eq_Suc' simp flip: n_def)
        qed
      next
        case 6
        define l where "l = m ! (i + 1)"
        show ?thesis
        proof (cases "l < 2")
          case True
          have "ends \<longrightarrow> \<not> cut_short (m ! i # rest)" "opts_of (m ! i # rest) = []"
            using 6 True short by (auto simp: rest l_def simp del: add_2_eq_Suc')
          then have "parse_or_fault fl ends (m ! i # rest) pcb = Some pcb" by (simp add: parse_or_fault_def)
          with True 6 show ?thesis
            by (auto simp: unfold u2 l_def simp del: add_2_eq_Suc' simp flip: n_def)
        next
          case False
          then have l2: "2 \<le> unat l" by (simp add: word_less_nat_alt)
          have "idx + 2 + (ucast l - 2) = idx + of_nat (unat l)" by simp
          moreover have e: "i + unat l = (unat l - 2) + (i + 2)" using l2 by simp
          have "drop (i + unat l) (take n m) = drop (unat l - 2) (drop (i + 2) (take n m))"
            unfolding drop_drop e ..
          moreover have "unat l < 600" using unat_u8_less [of l] by linarith
          moreover have "parse_or_fault fl ends (m ! i # rest) pcb =
              parse_or_fault fl ends (drop (unat l - 2) (drop (i + 2) (take n m))) pcb"
          proof (cases "i + 1 < n")
            case True
            then have "rest = l # drop (i + 2) (take n m)" by (simp add: rest l_def)
            then show ?thesis using parse_or_fault_other [OF 6, of l] False by (simp add: not_less)
          next
            case f: False
            then have "\<not> ends" "rest = []" using short rest by auto
            then show ?thesis using f n 6 by (simp add: parse_or_fault_def)
          qed
          ultimately show ?thesis
            using 6 False IHj [of "unat l" pcb] l2
            by (simp add: unfold l_def [symmetric, simplified])
        qed
      qed
    qed
  qed
  then show ?case by (simp only: ends_def n_def m_def i_def)
qed

lemma parseopt_loop_eq:
  assumes "opts_ok os" and "unat idx \<le> 1000"
  shows "parseopt_loop os fl pcb idx =
    apply_options fl (opts_of (drop (unat idx) (take (unat (op_len os)) (opt_mem os)))) pcb"
  using parseopt_loop_exact [OF opts_ok_fit [OF assms(1)] assms(2)] assms(1) by (simp add: parse_or_fault_def opts_ok_def)

section \<open>The array of SACK ranges\<close>

text \<open>\<^verbatim>\<open>rcv_sacks\<close> is an array of \<open>LWIP_TCP_MAX_SACK_NUM\<close> entries; the first empty one ends
  the list.\<close>

definition LWIP_TCP_SACK_VALID :: "tcp_sack_range list \<Rightarrow> nat \<Rightarrow> bool" where
  "LWIP_TCP_SACK_VALID sacks i \<longleftrightarrow> fst (sacks ! i) \<noteq> snd (sacks ! i)"

fun sack_keep_loop ::
    "(tcp_sack_range \<Rightarrow> bool) \<Rightarrow> (tcp_sack_range \<Rightarrow> tcp_sack_range) \<Rightarrow> nat \<Rightarrow> nat
      \<Rightarrow> tcp_sack_range list \<Rightarrow> nat \<times> tcp_sack_range list" where
  "sack_keep_loop keep adj 0 u sacks = (u, sacks)"
| "sack_keep_loop keep adj (Suc n) u sacks =
     (let i = LWIP_TCP_MAX_SACK_NUM - Suc n in
      if LWIP_TCP_SACK_VALID sacks i then
        (if keep (sacks ! i) then sack_keep_loop keep adj n (u + 1) (sacks[u := adj (sacks ! i)])
         else sack_keep_loop keep adj n u sacks)
      else (u, sacks))"

fun sack_shift_loop :: "nat \<Rightarrow> nat \<Rightarrow> tcp_sack_range list \<Rightarrow> tcp_sack_range list" where
  "sack_shift_loop u 0 sacks = sacks"
| "sack_shift_loop u (Suc i) sacks =
     sack_shift_loop u i (sacks[Suc i := (if i \<ge> u then (0, 0) else sacks ! i)])"

definition sack_apart :: "u32 \<Rightarrow> u32 \<Rightarrow> tcp_sack_range \<Rightarrow> bool" where
  "sack_apart left right s \<longleftrightarrow> TCP_SEQ_LEQ (snd s) left \<or> TCP_SEQ_LEQ right (fst s)"

definition tcp_add_sack :: "tcp_pcb \<Rightarrow> u32 \<Rightarrow> u32 \<Rightarrow> tcp_pcb" where
  "tcp_add_sack pcb left right =
     (if \<not> has (flags pcb) TF_SACK \<or> \<not> TCP_SEQ_LT left right then pcb
      else
        let (u, sacks) =
              sack_keep_loop (sack_apart left right) (\<lambda>s. s) LWIP_TCP_MAX_SACK_NUM 0 (rcv_sacks pcb);
            sacks = sack_shift_loop u (LWIP_TCP_MAX_SACK_NUM - 1) sacks
        in pcb\<lparr>rcv_sacks := sacks[0 := (left, right)]\<rparr>)"

fun sack_clear_loop :: "nat \<Rightarrow> nat \<Rightarrow> tcp_sack_range list \<Rightarrow> tcp_sack_range list" where
  "sack_clear_loop 0 i sacks = sacks"
| "sack_clear_loop (Suc n) i sacks = sack_clear_loop n (i + 1) (sacks[i := (0, 0)])"

definition tcp_remove_sacks_lt :: "tcp_pcb \<Rightarrow> u32 \<Rightarrow> tcp_pcb" where
  "tcp_remove_sacks_lt pcb seq =
     (let (u, sacks) =
            sack_keep_loop (\<lambda>s. TCP_SEQ_GT (snd s) seq)
              (\<lambda>s. if TCP_SEQ_LT (fst s) seq then (seq, snd s) else s)
              LWIP_TCP_MAX_SACK_NUM 0 (rcv_sacks pcb)
      in pcb\<lparr>rcv_sacks := sack_clear_loop (LWIP_TCP_MAX_SACK_NUM - u) u sacks\<rparr>)"

text \<open>The array read as a list, and a list stored as an array.\<close>

definition sack_list :: "tcp_sack_range list \<Rightarrow> tcp_sack_range list" where
  "sack_list sacks = takeWhile (\<lambda>s. fst s \<noteq> snd s) sacks"

definition sack_array :: "tcp_sack_range list \<Rightarrow> tcp_sack_range list" where
  "sack_array xs = take 4 (xs @ replicate 4 (0, 0))"

lemma length_4E:
  assumes "length xs = 4"
  obtains a b c d where "xs = [a, b, c, d]"
  using assms by (auto simp: numeral_eq_Suc length_Suc_conv)

text \<open>The compacting loop leaves the kept ranges of the list in front.\<close>

lemma sack_keep_loop_take:
  assumes "n \<le> 4" and "length s = 4" and "u \<le> 4 - n"
    and "sack_keep_loop keep adj n u s = (u', s')"
  shows "length s' = 4 \<and> u' \<le> 4 \<and>
    take u' s' = take u s @ map adj (filter keep (sack_list (drop (4 - n) s)))"
  using assms
proof (induction n arbitrary: u s)
  case 0
  then show ?case by (simp add: sack_list_def)
next
  case (Suc n)
  define i where "i = 4 - Suc n"
  have i: "4 - n = Suc i" "3 - n = i" "i < length s" "u \<le> i"
    using Suc.prems by (simp_all add: i_def)
  have d: "drop i s = s ! i # drop (Suc i) s" using i(3) by (simp add: Cons_nth_drop_Suc)
  have l: "sack_list (drop i s) = (if LWIP_TCP_SACK_VALID s i then s ! i # sack_list (drop (Suc i) s) else [])"
    by (subst d) (simp add: sack_list_def LWIP_TCP_SACK_VALID_def)
  show ?case
  proof (cases "LWIP_TCP_SACK_VALID s i \<and> keep (s ! i)")
    case True
    then have "sack_keep_loop keep adj n (u + 1) (s[u := adj (s ! i)]) = (u', s')"
      using Suc.prems(4) by (simp add: LWIP_TCP_MAX_SACK_NUM_def i_def Let_def)
    from Suc.IH [OF _ _ _ this] Suc.prems(1,2) i True show ?thesis
      by (simp add: l take_Suc_conv_app_nth flip: i_def)
  next
    case False
    show ?thesis
    proof (cases "LWIP_TCP_SACK_VALID s i")
      case v: True
      with False have "sack_keep_loop keep adj n u s = (u', s')"
        using Suc.prems(4) by (simp add: LWIP_TCP_MAX_SACK_NUM_def i_def Let_def)
      from Suc.IH [OF _ _ _ this] Suc.prems(1,2) i False v show ?thesis
        by (simp add: l flip: i_def)
    next
      case v: False
      with Suc.prems(4) have "u' = u" "s' = s"
        by (simp_all add: LWIP_TCP_MAX_SACK_NUM_def i_def Let_def)
      with v i Suc.prems(2) show ?thesis by (simp add: l flip: i_def)
    qed
  qed
qed

lemma le_4_cases: "u \<le> (4 :: nat) \<Longrightarrow> u = 0 \<or> u = 1 \<or> u = 2 \<or> u = 3 \<or> u = 4"
  by auto

lemma sack_shift_array:
  assumes "length s = 4" and "u \<le> 4"
  shows "(sack_shift_loop u 3 s)[0 := x] = sack_array (x # take u s)"
proof -
  obtain a b c d where "s = [a, b, c, d]" using assms(1) by (rule length_4E)
  with le_4_cases [OF assms(2)] show ?thesis
    by (elim disjE) (simp_all add: sack_array_def numeral_eq_Suc)
qed

lemma sack_clear_array:
  assumes "length s = 4" and "u \<le> 4"
  shows "sack_clear_loop (4 - u) u s = sack_array (take u s)"
proof -
  obtain a b c d where "s = [a, b, c, d]" using assms(1) by (rule length_4E)
  with le_4_cases [OF assms(2)] show ?thesis
    by (elim disjE) (simp_all add: sack_array_def numeral_eq_Suc)
qed

lemma seq_lt_neq: "TCP_SEQ_LT a b \<Longrightarrow> a \<noteq> b"
  by (auto simp: TCP_SEQ_LT_def)

text \<open>A new range goes to the front, ranges that overlap it go away, the oldest falls out.\<close>

lemma tcp_add_sack_list:
  assumes "length (rcv_sacks pcb) = 4" and "has (flags pcb) TF_SACK" and "TCP_SEQ_LT left right"
  shows "tcp_add_sack pcb left right =
    pcb\<lparr>rcv_sacks := sack_array ((left, right) # filter (sack_apart left right)
      (sack_list (rcv_sacks pcb)))\<rparr>"
proof -
  obtain u s where k: "sack_keep_loop (sack_apart left right) (\<lambda>s. s) 4 0 (rcv_sacks pcb) = (u, s)"
    by fastforce
  from sack_keep_loop_take [OF _ assms(1) _ this]
  have "length s = 4" "u \<le> 4"
    "take u s = filter (sack_apart left right) (sack_list (rcv_sacks pcb))" by simp_all
  with assms(2,3) k show ?thesis
    by (simp add: tcp_add_sack_def LWIP_TCP_MAX_SACK_NUM_def sack_shift_array)
qed

lemma tcp_remove_sacks_lt_list:
  assumes "length (rcv_sacks pcb) = 4"
  shows "tcp_remove_sacks_lt pcb seq =
    pcb\<lparr>rcv_sacks := sack_array
      (map (\<lambda>s. if TCP_SEQ_LT (fst s) seq then (seq, snd s) else s)
        (filter (\<lambda>s. TCP_SEQ_GT (snd s) seq) (sack_list (rcv_sacks pcb))))\<rparr>"
proof -
  obtain u s where k: "sack_keep_loop (\<lambda>s. TCP_SEQ_GT (snd s) seq)
      (\<lambda>s. if TCP_SEQ_LT (fst s) seq then (seq, snd s) else s) 4 0 (rcv_sacks pcb) = (u, s)"
    by fastforce
  from sack_keep_loop_take [OF _ assms(1) _ this]
  have "length s = 4" "u \<le> 4"
    "take u s = map (\<lambda>s. if TCP_SEQ_LT (fst s) seq then (seq, snd s) else s)
      (filter (\<lambda>s. TCP_SEQ_GT (snd s) seq) (sack_list (rcv_sacks pcb)))" by simp_all
  with k show ?thesis
    by (simp add: tcp_remove_sacks_lt_def LWIP_TCP_MAX_SACK_NUM_def sack_clear_array)
qed

end
