(* ===== verification/Tcp_out.thy ===== *)
theory Tcp_out imports Tcp_send Tcp_opt begin

text \<open>
  Transmission, the second half of \<^verbatim>\<open>tcp_out.c\<close>: headers and their options,
  \<^verbatim>\<open>tcp_output\<close> with the window, the Nagle algorithm and the queue of unacknowledged
  segments, retransmission, and the segments sent directly (acknowledgements, resets, keepalive
  and window probes).

  A segment is handed to IP as its bytes. The checksum is computed from the bytes by
  \<open>chksum_spec\<close>, which the theorems on \<^verbatim>\<open>inet_chksum.c\<close> prove to be the value
  of \<^verbatim>\<open>ip_chksum_pseudo\<close> on a chain with these bytes.
\<close>

section \<open>Routes and segment sizes\<close>

definition IP_PROTO_TCP :: u8 where "IP_PROTO_TCP = 6"
definition TCP_TTL :: u8 where "TCP_TTL = 255"
definition TCP_MAX_OPTION_BYTES :: nat where "TCP_MAX_OPTION_BYTES = 40"

definition tcp_route :: "'w tcp_env \<Rightarrow> tcp_pcb option \<Rightarrow> ip_addr_t \<Rightarrow> ip_addr_t \<Rightarrow> 'w \<Rightarrow> netif option" where
  "tcp_route e pcb src dst w =
     (case pcb of
        Some p \<Rightarrow> (if netif_idx p \<noteq> NETIF_NO_INDEX then te_netif_get_by_index e w (netif_idx p)
                   else te_ip_route e w src dst)
      | None \<Rightarrow> te_ip_route e w src dst)"

definition ip_netif_get_local_ip :: "'w tcp_env \<Rightarrow> 'w \<Rightarrow> netif \<Rightarrow> ip_addr_t \<Rightarrow> ip_addr_t option" where
  "ip_netif_get_local_ip e w n dest =
     (if IP_IS_V6_VAL dest then te_ip6_select_source_address e w n (ip_2_ip6 dest)
      else Some (netif_ip_addr n))"

definition tcp_eff_send_mss_netif ::
    "'w tcp_env \<Rightarrow> 'w \<Rightarrow> u16 \<Rightarrow> netif option \<Rightarrow> ip_addr_t \<Rightarrow> u16" where
  "tcp_eff_send_mss_netif e w sendmss outif dest =
     (if \<not> IP_IS_V6_VAL dest \<and> outif = None then sendmss
      else
        let mtu = (if IP_IS_V6_VAL dest then te_nd6_get_destination_mtu e w (ip_2_ip6 dest) outif
                   else netif_mtu (the outif));
            offset = (if IP_IS_V6_VAL dest then 40 + 20 else 20 + 20 :: u16)
        in if mtu \<noteq> 0 then min sendmss (if mtu > offset then mtu - offset else 0) else sendmss)"

section \<open>Headers and options\<close>

text \<open>The header as the code stores it: \<open>seqno_be\<close> is in network order already.\<close>

definition tcp_hdr_bytes :: "u16 \<Rightarrow> u16 \<Rightarrow> u32 \<Rightarrow> u32 \<Rightarrow> u16 \<Rightarrow> u8 \<Rightarrow> u16 \<Rightarrow> u8 list" where
  "tcp_hdr_bytes src dst seqno_be ackno hlen fl wnd =
     u16_bytes (lwip_htons src) @ u16_bytes (lwip_htons dst) @ u32_bytes seqno_be @
     u32_bytes (lwip_htonl ackno) @ u16_bytes (lwip_htons (push_bit 12 hlen OR ucast fl)) @
     u16_bytes (lwip_htons wnd) @ u16_bytes 0 @ u16_bytes 0"

definition tcp_set_chksum :: "ip_addr_t \<Rightarrow> ip_addr_t \<Rightarrow> u8 list \<Rightarrow> u8 list" where
  "tcp_set_chksum src dst bs =
     take 16 bs @
     u16_bytes (NOT (chksum_spec (ip_pseudo_header src dst IP_PROTO_TCP (of_nat (length bs)) @ bs))) @
     drop 18 bs"

definition TCP_BUILD_MSS_OPTION :: "u16 \<Rightarrow> u32" where
  "TCP_BUILD_MSS_OPTION m = lwip_htonl (0x02040000 OR (ucast m AND 0xFFFF))"

definition tcp_build_wnd_scale_option :: "u32 list" where
  "tcp_build_wnd_scale_option = [lwip_htonl (0x01030300 OR ucast TCP_RCV_SCALE)]"

definition tcp_build_sack_perm_option :: "u32 list" where
  "tcp_build_sack_perm_option = [lwip_htonl 0x01010402]"

text \<open>The 32-bit words of the options of a queued segment.\<close>

definition seg_options :: "u16 \<Rightarrow> u8 \<Rightarrow> u32 list" where
  "seg_options m fs =
     (if has fs TF_SEG_OPTS_MSS then [TCP_BUILD_MSS_OPTION m] else []) @
     (if has fs TF_SEG_OPTS_WND_SCALE then tcp_build_wnd_scale_option else []) @
     (if has fs TF_SEG_OPTS_SACK_PERM then tcp_build_sack_perm_option else [])"

definition words_bytes :: "u32 list \<Rightarrow> u8 list" where
  "words_bytes ws = concat (map u32_bytes ws)"

fun num_sacks_loop :: "tcp_sack_range list \<Rightarrow> nat \<Rightarrow> nat \<Rightarrow> nat \<Rightarrow> nat" where
  "num_sacks_loop sacks i optlen 0 = 0"
| "num_sacks_loop sacks i optlen (Suc k) =
     (if i < LWIP_TCP_MAX_SACK_NUM \<and> optlen \<le> TCP_MAX_OPTION_BYTES \<and> LWIP_TCP_SACK_VALID sacks i
      then 1 + num_sacks_loop sacks (i + 1) (optlen + 8) k else 0)"

definition tcp_get_num_sacks :: "tcp_pcb \<Rightarrow> nat \<Rightarrow> nat" where
  "tcp_get_num_sacks pcb optlen =
     (if has (flags pcb) TF_SACK
      then num_sacks_loop (rcv_sacks pcb) 0 (optlen + 12) (Suc LWIP_TCP_MAX_SACK_NUM) else 0)"

definition tcp_build_sack_option :: "tcp_pcb \<Rightarrow> nat \<Rightarrow> u32 list" where
  "tcp_build_sack_option pcb n =
     lwip_htonl (0x01010500 + 2 + of_nat n * 8) #
     concat (map (\<lambda>i. [lwip_htonl (fst (rcv_sacks pcb ! i)), lwip_htonl (snd (rcv_sacks pcb ! i))]) [0..<n])"

definition RCV_WND_SCALE :: "tcp_pcb \<Rightarrow> u32 \<Rightarrow> u32" where
  "RCV_WND_SCALE pcb wnd = drop_bit (unat (rcv_scale pcb)) wnd"

section \<open>Control segments\<close>

definition tcp_output_alloc_header_common ::
    "'w tcp_env \<Rightarrow> u32 \<Rightarrow> u16 \<Rightarrow> u16 \<Rightarrow> u32 \<Rightarrow> u16 \<Rightarrow> u16 \<Rightarrow> u8 \<Rightarrow> u16 \<Rightarrow> 'w \<Rightarrow> 'w \<times> u8 list option" where
  "tcp_output_alloc_header_common e ackno optlen datalen seqno_be src_port dst_port fl wnd w =
     (case te_pbuf_alloc e PBUF_IP (of_nat TCP_HLEN + optlen + datalen) PBUF_RAM w of
        (w, None) \<Rightarrow> (w, None)
      | (w, Some junk) \<Rightarrow>
          (w, Some (tcp_hdr_bytes src_port dst_port seqno_be ackno (5 + optlen div 4) fl wnd @ drop TCP_HLEN junk)))"

definition tcp_output_alloc_header ::
    "'w tcp_env \<Rightarrow> tcp_pcb \<Rightarrow> u16 \<Rightarrow> u16 \<Rightarrow> u32 \<Rightarrow> 'w \<Rightarrow> 'w \<times> tcp_pcb \<times> u8 list option" where
  "tcp_output_alloc_header e pcb optlen datalen seqno_be w =
     (case tcp_output_alloc_header_common e (rcv_nxt pcb) optlen datalen seqno_be (local_port pcb)
             (remote_port pcb) TCP_ACK (TCPWND_MIN16 (RCV_WND_SCALE pcb (rcv_ann_wnd pcb))) w of
        (w, None) \<Rightarrow> (w, pcb, None)
      | (w, Some p) \<Rightarrow> (w, pcb\<lparr>rcv_ann_right_edge := rcv_nxt pcb + rcv_ann_wnd pcb\<rparr>, Some p))"

text \<open>SACK ranges are the only options of control segments in this configuration.\<close>

definition tcp_output_fill_options :: "tcp_pcb option \<Rightarrow> u8 list \<Rightarrow> nat \<Rightarrow> u8 list" where
  "tcp_output_fill_options pcb p num_sacks =
     (case pcb of
        Some b \<Rightarrow>
          (if num_sacks > 0
           then let os = words_bytes (tcp_build_sack_option b num_sacks)
                in take TCP_HLEN p @ os @ drop (TCP_HLEN + length os) p
           else p)
      | None \<Rightarrow> p)"

definition tcp_output_control_segment ::
    "'w tcp_env \<Rightarrow> tcp_pcb option \<Rightarrow> u8 list \<Rightarrow> ip_addr_t \<Rightarrow> ip_addr_t \<Rightarrow> 'w \<Rightarrow> 'w \<times> err_t" where
  "tcp_output_control_segment e pcb p src dst w =
     (case tcp_route e pcb src dst w of
        None \<Rightarrow> (w, ERR_RTE)
      | Some n \<Rightarrow>
          te_ip_output_if e (tcp_set_chksum src dst p) src dst
            (case pcb of Some b \<Rightarrow> ttl b | None \<Rightarrow> TCP_TTL) (case pcb of Some b \<Rightarrow> tos b | None \<Rightarrow> 0)
            IP_PROTO_TCP n w)"

text \<open>\<^verbatim>\<open>wnd\<close> is in network order before the header routine converts it.\<close>

definition tcp_rst ::
    "'w tcp_env \<Rightarrow> tcp_pcb option \<Rightarrow> u32 \<Rightarrow> u32 \<Rightarrow> ip_addr_t \<Rightarrow> ip_addr_t \<Rightarrow> u16 \<Rightarrow> u16 \<Rightarrow> 'w \<Rightarrow> 'w" where
  "tcp_rst e pcb seqno ackno src dst src_port dst_port w =
     (let optlen = LWIP_TCP_OPT_LENGTH 0;
          wnd = lwip_htons (ucast (drop_bit (unat TCP_RCV_SCALE) TCP_WND AND 0xFFFF))
      in case tcp_output_alloc_header_common e ackno optlen 0 (lwip_htonl seqno) src_port dst_port
              (TCP_RST OR TCP_ACK) wnd w of
           (w, None) \<Rightarrow> w
         | (w, Some p) \<Rightarrow>
             fst (tcp_output_control_segment e pcb (tcp_output_fill_options pcb p (unat optlen)) src dst w))"

definition tcp_send_empty_ack :: "'w tcp_env \<Rightarrow> tcp_pcb \<Rightarrow> 'w \<Rightarrow> 'w \<times> tcp_pcb \<times> err_t" where
  "tcp_send_empty_ack e pcb w =
     (let optlen = LWIP_TCP_OPT_LENGTH 0;
          num_sacks = tcp_get_num_sacks pcb (unat optlen);
          optlen = (if num_sacks > 0 then optlen + (4 + of_nat num_sacks * 8) else optlen)
      in case tcp_output_alloc_header e pcb optlen 0 (lwip_htonl (snd_nxt pcb)) w of
           (w, pcb, None) \<Rightarrow> (w, tcp_set_flags pcb (TF_ACK_DELAY OR TF_ACK_NOW), ERR_BUF)
         | (w, pcb, Some p) \<Rightarrow>
             (case tcp_output_control_segment e (Some pcb) (tcp_output_fill_options (Some pcb) p num_sacks)
                     (local_ip pcb) (remote_ip pcb) w of
                (w, err) \<Rightarrow>
                  (w, (if err \<noteq> ERR_OK then tcp_set_flags pcb (TF_ACK_DELAY OR TF_ACK_NOW)
                       else tcp_clear_flags pcb (TF_ACK_DELAY OR TF_ACK_NOW)), err)))"

definition tcp_keepalive :: "'w tcp_env \<Rightarrow> tcp_pcb \<Rightarrow> 'w \<Rightarrow> 'w \<times> tcp_pcb \<times> err_t" where
  "tcp_keepalive e pcb w =
     (let optlen = LWIP_TCP_OPT_LENGTH 0
      in case tcp_output_alloc_header e pcb optlen 0 (lwip_htonl (snd_nxt pcb - 1)) w of
           (w, pcb, None) \<Rightarrow> (w, pcb, ERR_MEM)
         | (w, pcb, Some p) \<Rightarrow>
             (case tcp_output_control_segment e (Some pcb) (tcp_output_fill_options (Some pcb) p (unat optlen))
                     (local_ip pcb) (remote_ip pcb) w of
                (w, err) \<Rightarrow> (w, pcb, err)))"

text \<open>\<^verbatim>\<open>TCPH_FLAGS_SET\<close> on the header at the front of a packet.\<close>

definition TCPH_FLAGS_SET :: "u8 list \<Rightarrow> u8 \<Rightarrow> u8 list" where
  "TCPH_FLAGS_SET p fl = p[13 := (p ! 13) AND 0xC0 OR fl]"

definition tcp_zero_window_probe :: "'w tcp_env \<Rightarrow> tcp_pcb \<Rightarrow> 'w \<Rightarrow> 'w \<times> tcp_pcb \<times> err_t" where
  "tcp_zero_window_probe e pcb w =
     (case unsent pcb of
        [] \<Rightarrow> (w, pcb, ERR_OK)
      | seg # us \<Rightarrow>
          let pcb = (if persist_probe pcb < 0xFF then pcb\<lparr>persist_probe := persist_probe pcb + 1\<rparr> else pcb);
              is_fin = (has (sg_hflags seg) TCP_FIN \<and> sg_len seg = 0);
              len = (if is_fin then 0 else 1);
              optlen = LWIP_TCP_OPT_LENGTH 0
          in case tcp_output_alloc_header e pcb optlen len (lwip_htonl (sg_seqno seg)) w of
               (w, pcb, None) \<Rightarrow> (w, pcb, ERR_MEM)
             | (w, pcb, Some p) \<Rightarrow>
                 let p = (if is_fin then TCPH_FLAGS_SET p (TCP_ACK OR TCP_FIN)
                          else if sg_data seg = [] then p else p[TCP_HLEN := hd (sg_data seg)]);
                     snd_nxt' = sg_seqno seg + 1;
                     pcb = (if TCP_SEQ_LT (snd_nxt pcb) snd_nxt' then pcb\<lparr>snd_nxt := snd_nxt'\<rparr> else pcb)
                 in case tcp_output_control_segment e (Some pcb) (tcp_output_fill_options (Some pcb) p (unat optlen))
                           (local_ip pcb) (remote_ip pcb) w of
                      (w, err) \<Rightarrow> (w, pcb, err))"

section \<open>Queued segments\<close>

definition tcp_do_output_nagle :: "tcp_pcb \<Rightarrow> bool" where
  "tcp_do_output_nagle pcb \<longleftrightarrow>
     unacked pcb = [] \<or> has (flags pcb) (TF_NODELAY OR TF_INFR) \<or>
     (case unsent pcb of [] \<Rightarrow> False | s # us \<Rightarrow> us \<noteq> [] \<or> sg_len s \<ge> mss pcb) \<or>
     snd_buf pcb = 0 \<or> unat (snd_queuelen pcb) \<ge> TCP_SND_QUEUELEN"

text \<open>The bytes of a segment, with the acknowledgement and window of the moment and fresh options.\<close>

definition seg_wnd :: "tcp_pcb \<Rightarrow> tcp_seg \<Rightarrow> u16" where
  "seg_wnd pcb seg =
     (if has (sg_flags seg) TF_SEG_OPTS_WND_SCALE then TCPWND_MIN16 (rcv_ann_wnd pcb)
      else TCPWND_MIN16 (RCV_WND_SCALE pcb (rcv_ann_wnd pcb)))"

definition seg_bytes :: "u16 \<Rightarrow> tcp_pcb \<Rightarrow> tcp_seg \<Rightarrow> u8 list" where
  "seg_bytes m pcb seg =
     tcp_hdr_bytes (sg_src seg) (sg_dest seg) (lwip_htonl (sg_seqno seg)) (rcv_nxt pcb) (sg_hlen seg)
       (sg_hflags seg) (seg_wnd pcb seg) @
     words_bytes (seg_options m (sg_flags seg)) @ sg_data seg"

definition tcp_output_segment ::
    "'w tcp_env \<Rightarrow> u32 \<Rightarrow> tcp_seg \<Rightarrow> tcp_pcb \<Rightarrow> netif \<Rightarrow> 'w \<Rightarrow> ('w \<times> tcp_pcb \<times> err_t) option" where
  "tcp_output_segment e tcp_ticks seg pcb n w =
     (if te_segment_busy e w seg then Some (w, pcb, ERR_OK)
      else do {
        let pcb = pcb\<lparr>rcv_ann_right_edge := rcv_nxt pcb + rcv_ann_wnd pcb\<rparr>;
        let m = tcp_eff_send_mss_netif e w TCP_MSS (Some n) (remote_ip pcb);
        let pcb = (if rtime pcb < 0 then pcb\<lparr>rtime := 0\<rparr> else pcb);
        let pcb = (if rttest pcb = 0 then pcb\<lparr>rttest := tcp_ticks, rtseq := sg_seqno seg\<rparr> else pcb);
        LWIP_ASSERT (4 * length (seg_options m (sg_flags seg)) = unat (LWIP_TCP_OPT_LENGTH (sg_flags seg)));
        let (w, err) = te_ip_output_if e (tcp_set_chksum (local_ip pcb) (remote_ip pcb) (seg_bytes m pcb seg))
              (local_ip pcb) (remote_ip pcb) (ttl pcb) (tos pcb) IP_PROTO_TCP n w;
        Some (w, pcb, err) })"

text \<open>\<^verbatim>\<open>lwip_ntohl(seg->tcphdr->seqno) - pcb->lastack + seg->len\<close>\<close>

definition seg_fits :: "tcp_pcb \<Rightarrow> u32 \<Rightarrow> tcp_seg \<Rightarrow> bool" where
  "seg_fits pcb wnd s \<longleftrightarrow> sg_seqno s - lastack pcb + ucast (sg_len s) \<le> wnd"

fun insert_seg :: "tcp_seg \<Rightarrow> tcp_seg list \<Rightarrow> tcp_seg list" where
  "insert_seg seg [] = [seg]"
| "insert_seg seg (s # ss) =
     (if TCP_SEQ_LT (sg_seqno s) (sg_seqno seg) then s # insert_seg seg ss else seg # s # ss)"

text \<open>A segment that was sent moves to the unacknowledged ones; \<^verbatim>\<open>useg\<close> is their last.\<close>

definition seg_sent :: "tcp_seg \<Rightarrow> tcp_pcb \<Rightarrow> tcp_pcb" where
  "seg_sent seg pcb =
     (let pcb = pcb\<lparr>unsent := tl (unsent pcb)\<rparr>;
          pcb = (if state pcb \<noteq> SYN_SENT then tcp_clear_flags pcb (TF_ACK_DELAY OR TF_ACK_NOW) else pcb);
          tcplen = TCP_TCPLEN (sg_len seg) (sg_hflags seg);
          nxt = sg_seqno seg + tcplen;
          pcb = (if TCP_SEQ_LT (snd_nxt pcb) nxt then pcb\<lparr>snd_nxt := nxt\<rparr> else pcb)
      in if tcplen > 0
         then pcb\<lparr>unacked :=
                (if unacked pcb = [] then [seg]
                 else if TCP_SEQ_LT (sg_seqno seg) (sg_seqno (List.last (unacked pcb)))
                 then insert_seg seg (unacked pcb) else unacked pcb @ [seg])\<rparr>
         else pcb)"

text \<open>The loop over the unsent segments. The result's last component tells whether the function
  returns with an error.\<close>

fun output_loop ::
    "'w tcp_env \<Rightarrow> u32 \<Rightarrow> netif \<Rightarrow> u32 \<Rightarrow> tcp_seg list \<Rightarrow> tcp_pcb \<Rightarrow> 'w \<Rightarrow>
     ('w \<times> tcp_pcb \<times> err_t) option" where
  "output_loop e tcp_ticks n wnd [] pcb w = Some (w, pcb, ERR_OK)"
| "output_loop e tcp_ticks n wnd (seg # us) pcb w =
     (if \<not> seg_fits pcb wnd seg then Some (w, pcb, ERR_OK)
      else do {
        LWIP_ASSERT (\<not> has (sg_hflags seg) TCP_RST);
        (if \<not> tcp_do_output_nagle pcb \<and> \<not> has (flags pcb) (TF_NAGLEMEMERR OR TF_FIN) then Some (w, pcb, ERR_OK)
         else do {
           let seg = (if state pcb \<noteq> SYN_SENT then seg_set_flags TCP_ACK seg else seg);
           (w, pcb, err) \<leftarrow> tcp_output_segment e tcp_ticks seg (pcb\<lparr>unsent := seg # us\<rparr>) n w;
           (if err \<noteq> ERR_OK then Some (w, tcp_set_flags pcb TF_NAGLEMEMERR, err)
            else output_loop e tcp_ticks n wnd us (seg_sent seg pcb) w) }) })"

text \<open>\<open>in_input\<close> tells whether the block is \<^verbatim>\<open>tcp_input_pcb\<close>.\<close>

definition output_done :: "tcp_pcb \<Rightarrow> tcp_pcb" where
  "output_done pcb = tcp_clear_flags pcb TF_NAGLEMEMERR"

definition tcp_output ::
    "'w tcp_env \<Rightarrow> u32 \<Rightarrow> bool \<Rightarrow> tcp_pcb \<Rightarrow> 'w \<Rightarrow> ('w \<times> tcp_pcb \<times> err_t) option" where
  "tcp_output e tcp_ticks in_input pcb w = do {
     LWIP_ASSERT (state pcb \<noteq> LISTEN);
     (if in_input then Some (w, pcb, ERR_OK)
      else
        let wnd = min (snd_wnd pcb) (cwnd pcb) in
        case unsent pcb of
          [] \<Rightarrow> Some (if has (flags pcb) TF_ACK_NOW then tcp_send_empty_ack e pcb w
                     else (w, output_done pcb, ERR_OK))
        | seg # us \<Rightarrow>
            (case tcp_route e (Some pcb) (local_ip pcb) (remote_ip pcb) w of
               None \<Rightarrow> Some (w, pcb, ERR_RTE)
             | Some n \<Rightarrow>
                 (case (if ip_addr_isany (local_ip pcb)
                        then map_option (\<lambda>a. pcb\<lparr>local_ip := ip_addr_copy a\<rparr>)
                               (ip_netif_get_local_ip e w n (remote_ip pcb))
                        else Some pcb) of
                    None \<Rightarrow> Some (w, pcb, ERR_RTE)
                  | Some pcb \<Rightarrow>
                      if \<not> seg_fits pcb wnd seg
                      then let pcb = (if wnd = snd_wnd pcb \<and> unacked pcb = [] \<and> persist_backoff pcb = 0
                                      then pcb\<lparr>persist_cnt := 0, persist_backoff := 1, persist_probe := 0\<rparr>
                                      else pcb)
                           in Some (if has (flags pcb) TF_ACK_NOW then tcp_send_empty_ack e pcb w
                                    else (w, output_done pcb, ERR_OK))
                      else do {
                        (w, pcb, err) \<leftarrow> output_loop e tcp_ticks n wnd (seg # us) (pcb\<lparr>persist_backoff := 0\<rparr>) w;
                        (if err \<noteq> ERR_OK then Some (w, pcb, err)
                         else Some (w, output_done (if unsent pcb = [] then pcb\<lparr>unsent_oversize := 0\<rparr> else pcb),
                                    ERR_OK)) }))) }"

section \<open>Retransmission\<close>

definition tcp_rexmit_rto_prepare :: "'w tcp_env \<Rightarrow> tcp_pcb \<Rightarrow> 'w \<Rightarrow> tcp_pcb \<times> err_t" where
  "tcp_rexmit_rto_prepare e pcb w =
     (if unacked pcb = [] then (pcb, ERR_VAL)
      else if list_ex (te_segment_busy e w) (unacked pcb) then (pcb, ERR_VAL)
      else let seg = List.last (unacked pcb);
               pcb = tcp_set_flags (pcb\<lparr>unsent := unacked pcb @ unsent pcb, unacked := []\<rparr>) TF_RTO
           in (pcb\<lparr>rto_end := sg_seqno seg + TCP_TCPLEN (sg_len seg) (sg_hflags seg), rttest := 0\<rparr>, ERR_OK))"

definition count_rtx :: "tcp_pcb \<Rightarrow> tcp_pcb" where
  "count_rtx pcb = (if nrtx pcb < 0xFF then pcb\<lparr>nrtx := nrtx pcb + 1\<rparr> else pcb)"

definition tcp_rexmit_rto_commit ::
    "'w tcp_env \<Rightarrow> u32 \<Rightarrow> bool \<Rightarrow> tcp_pcb \<Rightarrow> 'w \<Rightarrow> ('w \<times> tcp_pcb) option" where
  "tcp_rexmit_rto_commit e tcp_ticks in_input pcb w = do {
     (w, pcb, err) \<leftarrow> tcp_output e tcp_ticks in_input (count_rtx pcb) w;
     Some (w, pcb) }"

definition tcp_rexmit_rto ::
    "'w tcp_env \<Rightarrow> u32 \<Rightarrow> bool \<Rightarrow> tcp_pcb \<Rightarrow> 'w \<Rightarrow> ('w \<times> tcp_pcb) option" where
  "tcp_rexmit_rto e tcp_ticks in_input pcb w =
     (case tcp_rexmit_rto_prepare e pcb w of
        (pcb, err) \<Rightarrow>
          if err = ERR_OK then tcp_rexmit_rto_commit e tcp_ticks in_input pcb w else Some (w, pcb))"

definition tcp_rexmit :: "'w tcp_env \<Rightarrow> tcp_pcb \<Rightarrow> 'w \<Rightarrow> tcp_pcb \<times> err_t" where
  "tcp_rexmit e pcb w =
     (case unacked pcb of
        [] \<Rightarrow> (pcb, ERR_VAL)
      | seg # ua \<Rightarrow>
          if te_segment_busy e w seg then (pcb, ERR_VAL)
          else let us = insert_seg seg (unsent pcb);
                   pcb = pcb\<lparr>unacked := ua, unsent := us,
                       unsent_oversize := (if dropWhile (\<lambda>s. TCP_SEQ_LT (sg_seqno s) (sg_seqno seg)) (unsent pcb) = []
                          then 0 else unsent_oversize pcb)\<rparr>
               in ((count_rtx pcb)\<lparr>rttest := 0\<rparr>, ERR_OK))"

definition tcp_rexmit_fast :: "'w tcp_env \<Rightarrow> tcp_pcb \<Rightarrow> 'w \<Rightarrow> tcp_pcb" where
  "tcp_rexmit_fast e pcb w =
     (if unacked pcb \<noteq> [] \<and> \<not> has (flags pcb) TF_INFR
      then (case tcp_rexmit e pcb w of
              (pcb, err) \<Rightarrow>
                if err = ERR_OK
                then let st = min (cwnd pcb) (snd_wnd pcb) div 2;
                         st = (if st < 2 * ucast (mss pcb) then 2 * ucast (mss pcb) else st)
                     in (tcp_set_flags (pcb\<lparr>ssthresh := st, cwnd := st + 3 * ucast (mss pcb)\<rparr>) TF_INFR)
                          \<lparr>rtime := 0\<rparr>
                else pcb)
      else pcb)"

end
