(* ===== verification/Tcp_recv.thy ===== *)
theory Tcp_recv imports Tcp_opt begin

text \<open>
  The part of \<^verbatim>\<open>tcp_receive\<close> (\<^verbatim>\<open>tcp_in.c\<close>) that takes the text of a segment: trimming
  what was received before, delivery in order together with the queued segments that
  follow, and the queue of segments received out of order (\<^verbatim>\<open>ooseq\<close>) with its SACK ranges.

  The routine ends by sending an acknowledgement or by telling ND6 of forward progress;
  these last calls are returned as \<open>rx_action\<close>s in their order. \<^verbatim>\<open>tcp_seg_copy\<close> is called at most
  once, so whether it gets memory is a boolean.
\<close>

section \<open>The receive window\<close>

text \<open>\<^verbatim>\<open>tcp_update_rcv_ann_wnd\<close> of \<^verbatim>\<open>tcp.c\<close>, with the growth of the window it returns.\<close>

definition tcp_update_rcv_ann_wnd :: "tcp_pcb \<Rightarrow> tcp_pcb \<times> u32" where
  "tcp_update_rcv_ann_wnd pcb =
     (let new_right_edge = rcv_nxt pcb + rcv_wnd pcb in
      if TCP_SEQ_GEQ new_right_edge (rcv_ann_right_edge pcb + min (TCP_WND div 2) (ucast (mss pcb)))
      then (pcb\<lparr>rcv_ann_wnd := rcv_wnd pcb\<rparr>, new_right_edge - rcv_ann_right_edge pcb)
      else if TCP_SEQ_GT (rcv_nxt pcb) (rcv_ann_right_edge pcb)
      then (pcb\<lparr>rcv_ann_wnd := 0\<rparr>, 0)
      else (pcb\<lparr>rcv_ann_wnd := rcv_ann_right_edge pcb - rcv_nxt pcb\<rparr>, 0))"

text \<open>What \<^verbatim>\<open>tcp_recved\<close> does to the window when the application has taken \<open>len\<close> bytes, with the
  growth of the announced window.\<close>

definition tcp_recved_window :: "tcp_pcb \<Rightarrow> u16 \<Rightarrow> tcp_pcb \<times> u32" where
  "tcp_recved_window pcb len =
     (let wnd = rcv_wnd pcb + ucast len;
          pcb = pcb\<lparr>rcv_wnd := (if wnd > TCP_WND_MAX pcb \<or> wnd < rcv_wnd pcb then TCP_WND_MAX pcb
                              else wnd)\<rparr>
      in tcp_update_rcv_ann_wnd pcb)"

section \<open>The front of the segment\<close>

definition rcv_trim_front :: "tcp_pcb \<Rightarrow> tcp_in \<Rightarrow> (tcp_pcb \<times> tcp_in) option" where
  "rcv_trim_front pcb tin =
     (if TCP_SEQ_BETWEEN (rcv_nxt pcb) (g_seqno tin + 1) (g_seqno tin + ucast (g_tcplen tin) - 1)
      then do {
        data \<leftarrow> in_data tin;
        let off32 = rcv_nxt pcb - g_seqno tin;
        LWIP_ASSERT (off32 < 0xffff);
        let n = (ucast off32 :: u16);
        LWIP_ASSERT (unat n \<le> length data);
        Some (pcb, tin\<lparr>g_seqno := rcv_nxt pcb, in_seqno := rcv_nxt pcb, in_len := in_len tin - n,
                       in_data := Some (drop (unat n) data)\<rparr>)
      }
      else Some (if TCP_SEQ_LT (g_seqno tin) (rcv_nxt pcb) then tcp_ack_now pcb else pcb, tin))"

section \<open>Delivery in order\<close>

text \<open>The end of a segment that overruns the window is cut.\<close>

definition rcv_trim_wnd :: "tcp_pcb \<Rightarrow> tcp_in \<Rightarrow> tcp_in option" where
  "rcv_trim_wnd pcb tin =
     (let tcplen = (ucast (TCP_TCPLEN (in_len tin) (in_hflags tin)) :: u16);
          tin = tin\<lparr>g_tcplen := tcplen\<rparr> in
      if ucast tcplen > rcv_wnd pcb then do {
        data \<leftarrow> in_data tin;
        let hf = (if has (in_hflags tin) TCP_FIN then in_hflags tin AND NOT TCP_FIN
                  else in_hflags tin);
        LWIP_ASSERT (rcv_wnd pcb \<le> 0xffff);
        let len = ucast (rcv_wnd pcb) - (if has hf TCP_SYN then 1 else 0);
        let tcplen = ucast (TCP_TCPLEN len hf);
        LWIP_ASSERT (g_seqno tin + ucast tcplen = rcv_nxt pcb + rcv_wnd pcb);
        Some (tin\<lparr>g_tcplen := tcplen, in_hflags := hf, in_len := len,
                  in_data := Some (take (unat len) data)\<rparr>)
      }
      else Some tin)"

text \<open>Queued segments the new one covers go away, but their FIN is kept.\<close>

fun rcv_drop_covered :: "u32 \<Rightarrow> u16 \<Rightarrow> u8 \<Rightarrow> u16 \<Rightarrow> tcp_seg list \<Rightarrow> u8 \<times> u16 \<times> tcp_seg list" where
  "rcv_drop_covered seqno len hf tcplen [] = (hf, tcplen, [])"
| "rcv_drop_covered seqno len hf tcplen (s # q) =
     (if TCP_SEQ_GEQ (seqno + ucast tcplen) (sg_seqno s + ucast (sg_len s)) then
        (if has (sg_hflags s) TCP_FIN \<and> \<not> has hf TCP_SYN
         then rcv_drop_covered seqno len (hf OR TCP_FIN)
           (ucast (TCP_TCPLEN len (hf OR TCP_FIN))) q
         else rcv_drop_covered seqno len hf tcplen q)
      else (hf, tcplen, s # q))"

definition rcv_fit_ooseq :: "tcp_pcb \<Rightarrow> tcp_in \<Rightarrow> (tcp_pcb \<times> tcp_in) option" where
  "rcv_fit_ooseq pcb tin =
     (if ooseq pcb = [] then Some (pcb, tin)
      else if has (in_hflags tin) TCP_FIN then Some (pcb\<lparr>ooseq := []\<rparr>, tin)
      else
        let (hf, tcplen, q) =
              rcv_drop_covered (g_seqno tin) (in_len tin) (in_hflags tin) (g_tcplen tin) (ooseq pcb);
            pcb = pcb\<lparr>ooseq := q\<rparr>;
            tin = tin\<lparr>g_tcplen := tcplen, in_hflags := hf\<rparr>
        in case q of
             [] \<Rightarrow> Some (pcb, tin)
           | s # _ \<Rightarrow>
               (if TCP_SEQ_GT (g_seqno tin + ucast tcplen) (sg_seqno s) then do {
                  data \<leftarrow> in_data tin;
                  let len = ucast (sg_seqno s - g_seqno tin) - (if has hf TCP_SYN then 1 else 0);
                  let tcplen = ucast (TCP_TCPLEN len hf);
                  LWIP_ASSERT (g_seqno tin + ucast tcplen = sg_seqno s);
                  Some (pcb, tin\<lparr>g_tcplen := tcplen, in_len := len,
                                 in_data := Some (take (unat len) data)\<rparr>)
                }
                else Some (pcb, tin)))"

text \<open>\<^verbatim>\<open>rcv_nxt\<close> and the window move over a segment.\<close>

definition rcv_advance :: "u32 \<Rightarrow> u32 \<Rightarrow> tcp_pcb \<Rightarrow> tcp_pcb option" where
  "rcv_advance next tcplen pcb = do {
     LWIP_ASSERT (rcv_wnd pcb \<ge> tcplen);
     Some (fst (tcp_update_rcv_ann_wnd
       (pcb\<lparr>rcv_nxt := next, rcv_wnd := rcv_wnd pcb - tcplen\<rparr>)))
   }"

definition rcv_pass_up :: "tcp_pcb \<Rightarrow> tcp_in \<Rightarrow> (tcp_pcb \<times> tcp_in) option" where
  "rcv_pass_up pcb tin = do {
     pcb \<leftarrow> rcv_advance (g_seqno tin + ucast (g_tcplen tin)) (ucast (g_tcplen tin)) pcb;
     data \<leftarrow> in_data tin;
     let tin = (if data \<noteq> [] then tin\<lparr>in_data := None, recv_data := Some data\<rparr> else tin);
     let tin = (if has (in_hflags tin) TCP_FIN
                then tin\<lparr>recv_flags := recv_flags tin OR TF_GOT_FIN\<rparr> else tin);
     Some (pcb, tin)
   }"

definition append_data :: "u8 list option \<Rightarrow> u8 list \<Rightarrow> u8 list option" where
  "append_data d xs = (if xs = [] then d else case d of None \<Rightarrow> Some xs | Some ys \<Rightarrow> Some (ys @ xs))"

text \<open>Queued segments that are now in sequence follow.\<close>

fun rcv_dequeue :: "tcp_pcb \<Rightarrow> tcp_in \<Rightarrow> tcp_seg list \<Rightarrow> (tcp_pcb \<times> tcp_in) option" where
  "rcv_dequeue pcb tin [] = Some (pcb\<lparr>ooseq := []\<rparr>, tin)"
| "rcv_dequeue pcb tin (s # q) =
     (if sg_seqno s = rcv_nxt pcb then do {
        let tcplen = TCP_TCPLEN (sg_len s) (sg_hflags s);
        pcb \<leftarrow> rcv_advance (rcv_nxt pcb + tcplen) tcplen pcb;
        let tin = tin\<lparr>g_seqno := sg_seqno s, recv_data := append_data (recv_data tin) (sg_data s)\<rparr>;
        let (pcb, tin) =
          (if has (sg_hflags s) TCP_FIN
           then ((if state pcb = ESTABLISHED then pcb\<lparr>state := CLOSE_WAIT\<rparr> else pcb),
                 tin\<lparr>recv_flags := recv_flags tin OR TF_GOT_FIN\<rparr>)
           else (pcb, tin));
        rcv_dequeue pcb tin q
      }
      else Some (pcb\<lparr>ooseq := s # q\<rparr>, tin))"

definition rcv_tidy_sacks :: "tcp_pcb \<Rightarrow> tcp_pcb" where
  "rcv_tidy_sacks pcb =
     (if has (flags pcb) TF_SACK then
        (case ooseq pcb of
           s # _ \<Rightarrow> tcp_remove_sacks_lt pcb (sg_seqno s)
         | [] \<Rightarrow> (if LWIP_TCP_SACK_VALID (rcv_sacks pcb) 0
                  then pcb\<lparr>rcv_sacks := replicate LWIP_TCP_MAX_SACK_NUM (0, 0)\<rparr> else pcb))
      else pcb)"

datatype rx_action = Send_empty_ack | Nd6_reachability_hint

definition rcv_in_order :: "bool \<Rightarrow> tcp_pcb \<Rightarrow> tcp_in \<Rightarrow> (tcp_pcb \<times> tcp_in \<times> rx_action list) option" where
  "rcv_in_order v6 pcb tin = do {
     tin \<leftarrow> rcv_trim_wnd pcb tin;
     (pcb, tin) \<leftarrow> rcv_fit_ooseq pcb tin;
     (pcb, tin) \<leftarrow> rcv_pass_up pcb tin;
     (pcb, tin) \<leftarrow> rcv_dequeue pcb tin (ooseq pcb);
     let pcb = tcp_ack (rcv_tidy_sacks pcb);
     Some (pcb, tin,
       (if LWIP_TCP_SACK_VALID (rcv_sacks pcb) 0 then [Send_empty_ack] else []) @
       (if v6 then [Nd6_reachability_hint] else []))
   }"

section \<open>The queue of segments out of order\<close>

definition seg_cut :: "tcp_seg \<Rightarrow> u16 \<Rightarrow> tcp_seg" where
  "seg_cut s len = s\<lparr>sg_len := len, sg_data := take (unat len) (sg_data s)\<rparr>"

text \<open>\<^verbatim>\<open>tcp_seg_copy\<close> of the incoming segment.\<close>

definition tcp_seg_copy :: "bool \<Rightarrow> tcp_in \<Rightarrow> u8 list \<Rightarrow> tcp_seg option" where
  "tcp_seg_copy mem tin data =
     (if mem then Some \<lparr>sg_src = g_src tin, sg_dest = g_dest tin, sg_seqno = in_seqno tin,
        sg_hlen = 5 + op_len (g_opts tin) div 4, sg_hflags = in_hflags tin, sg_len = in_len tin,
        sg_data = data, sg_bufs = [], sg_flags = 0\<rparr> else None)"

fun oos_drop_covered :: "u32 \<Rightarrow> tcp_seg \<Rightarrow> tcp_seg list \<Rightarrow> tcp_seg \<times> tcp_seg list" where
  "oos_drop_covered seqno cseg [] = (cseg, [])"
| "oos_drop_covered seqno cseg (s # q) =
     (if TCP_SEQ_GEQ (seqno + ucast (sg_len cseg)) (sg_seqno s + ucast (sg_len s)) then
        oos_drop_covered seqno
          (if has (sg_hflags s) TCP_FIN then cseg\<lparr>sg_hflags := sg_hflags cseg OR TCP_FIN\<rparr>
           else cseg) q
      else (cseg, s # q))"

definition tcp_oos_insert_segment :: "u32 \<Rightarrow> tcp_seg \<Rightarrow> tcp_seg list \<Rightarrow> tcp_seg list" where
  "tcp_oos_insert_segment seqno cseg q =
     (if has (sg_hflags cseg) TCP_FIN then [cseg]
      else case oos_drop_covered seqno cseg q of
             (cseg, []) \<Rightarrow> [cseg]
           | (cseg, s # q) \<Rightarrow>
               (if TCP_SEQ_GT (seqno + ucast (sg_len cseg)) (sg_seqno s)
                then seg_cut cseg (ucast (sg_seqno s - seqno)) # s # q
                else cseg # s # q))"

text \<open>The walk through the queue. \<open>front\<close> are the segments up to \<^verbatim>\<open>prev\<close>; the result is the
  queue in two parts, the first ending with \<^verbatim>\<open>prev\<close>, the left edge of the lowest possible
  SACK range and \<^verbatim>\<open>tcplen\<close>.\<close>

definition seg_cut_end :: "u32 \<Rightarrow> tcp_seg \<Rightarrow> tcp_seg" where
  "seg_cut_end seqno s =
     (if TCP_SEQ_GT (sg_seqno s + ucast (sg_len s)) seqno
      then seg_cut s (ucast (seqno - sg_seqno s)) else s)"

text \<open>A segment appended to the queue is cut at the window's right edge.\<close>

definition oos_append :: "tcp_pcb \<Rightarrow> tcp_in \<Rightarrow> tcp_seg \<Rightarrow> (tcp_seg \<times> u16) option" where
  "oos_append pcb tin cseg =
     (if TCP_SEQ_GT (ucast (g_tcplen tin) + g_seqno tin) (rcv_nxt pcb + rcv_wnd pcb) then do {
        let cseg = (if has (sg_hflags cseg) TCP_FIN
                    then cseg\<lparr>sg_hflags := sg_hflags cseg AND NOT TCP_FIN\<rparr> else cseg);
        let cseg = seg_cut cseg (ucast (rcv_nxt pcb + rcv_wnd pcb - g_seqno tin));
        let tcplen = ucast (TCP_TCPLEN (sg_len cseg) (sg_hflags cseg));
        LWIP_ASSERT (g_seqno tin + ucast tcplen = rcv_nxt pcb + rcv_wnd pcb);
        Some (cseg, tcplen)
      }
      else Some (cseg, g_tcplen tin))"

fun oos_walk :: "tcp_pcb \<Rightarrow> tcp_in \<Rightarrow> tcp_seg option \<Rightarrow> tcp_seg list \<Rightarrow> tcp_seg list \<Rightarrow> u32
    \<Rightarrow> (tcp_seg list \<times> tcp_seg list \<times> u32 \<times> u16) option" where
  "oos_walk pcb tin copy front [] sackbeg = Some (front, [], sackbeg, g_tcplen tin)"
| "oos_walk pcb tin copy front (s # q) sackbeg =
     (let seqno = g_seqno tin in
      if seqno = sg_seqno s then
        (if in_len tin > sg_len s then
           (case copy of
              Some cseg \<Rightarrow>
                Some (front, tcp_oos_insert_segment seqno cseg (s # q), sackbeg, g_tcplen tin)
            | None \<Rightarrow> Some (front, s # q, sackbeg, g_tcplen tin))
         else Some (front, s # q, sackbeg, g_tcplen tin))
      else if front = [] \<and> TCP_SEQ_LT seqno (sg_seqno s) then
        (case copy of
           Some cseg \<Rightarrow> Some ([], tcp_oos_insert_segment seqno cseg (s # q), sackbeg, g_tcplen tin)
         | None \<Rightarrow> Some ([], s # q, sackbeg, g_tcplen tin))
      else if front \<noteq> [] \<and>
          TCP_SEQ_BETWEEN seqno (sg_seqno (List.last front) + 1) (sg_seqno s - 1) then
        (case copy of
           Some cseg \<Rightarrow>
             Some (butlast front @ [seg_cut_end seqno (List.last front)],
                   tcp_oos_insert_segment seqno cseg (s # q), sackbeg, g_tcplen tin)
         | None \<Rightarrow> Some (front, s # q, sackbeg, g_tcplen tin))
      else
        let sackbeg =
              (if front \<noteq> [] \<and>
                  sg_seqno (List.last front) + ucast (sg_len (List.last front)) \<noteq> sg_seqno s
               then sg_seqno s else sackbeg)
        in if q = [] \<and> TCP_SEQ_GT seqno (sg_seqno s) then
             (if has (sg_hflags s) TCP_FIN then Some (front @ [s], [], sackbeg, g_tcplen tin)
              else case copy of
                     None \<Rightarrow> Some (front @ [s], [], sackbeg, g_tcplen tin)
                   | Some cseg \<Rightarrow> do {
                       (cseg, tcplen) \<leftarrow> oos_append pcb tin cseg;
                       Some (front @ [seg_cut_end seqno s], [cseg], sackbeg, tcplen)
                     })
           else oos_walk pcb tin copy (front @ [s]) q sackbeg)"

fun sack_end :: "u32 \<Rightarrow> tcp_seg list \<Rightarrow> u32" where
  "sack_end e [] = e"
| "sack_end e (s # q) = (if e = sg_seqno s then sack_end (e + ucast (sg_len s)) q else e)"

definition oos_add_sack :: "tcp_pcb \<Rightarrow> tcp_seg list \<Rightarrow> tcp_seg list \<Rightarrow> u32 \<Rightarrow> tcp_pcb" where
  "oos_add_sack pcb front rest sackbeg =
     (if has (flags pcb) TF_SACK then
        (case rest of
           [] \<Rightarrow> pcb
         | s # _ \<Rightarrow>
             let sackbeg =
                   (if front \<noteq> [] \<and>
                       sg_seqno (List.last front) + ucast (sg_len (List.last front)) \<noteq> sg_seqno s
                    then sg_seqno s else sackbeg)
             in tcp_add_sack pcb sackbeg (sack_end (sg_seqno s) rest))
      else pcb)"

definition rcv_out_of_order :: "bool \<Rightarrow> tcp_pcb \<Rightarrow> tcp_in \<Rightarrow> (tcp_pcb \<times> tcp_in \<times> rx_action list) option" where
  "rcv_out_of_order mem pcb tin = do {
     data \<leftarrow> in_data tin;
     let copy = tcp_seg_copy mem tin data;
     case ooseq pcb of
       [] \<Rightarrow>
         (let pcb = pcb\<lparr>ooseq := (case copy of Some cseg \<Rightarrow> [cseg] | None \<Rightarrow> [])\<rparr>;
              pcb = (if has (flags pcb) TF_SACK
                     then pcb\<lparr>rcv_sacks := (rcv_sacks pcb)
                            [0 := (g_seqno tin, g_seqno tin + ucast (in_len tin))]\<rparr>
                     else pcb)
          in Some (pcb, tin, [Send_empty_ack]))
     | s # _ \<Rightarrow> do {
         let sackbeg = (if TCP_SEQ_LT (g_seqno tin) (sg_seqno s) then g_seqno tin else sg_seqno s);
         (front, rest, sackbeg, tcplen) \<leftarrow> oos_walk pcb tin copy [] (ooseq pcb) sackbeg;
         Some (oos_add_sack (pcb\<lparr>ooseq := front @ rest\<rparr>) front rest sackbeg,
               tin\<lparr>g_tcplen := tcplen\<rparr>, [Send_empty_ack])
       }
   }"

section \<open>The text of a segment\<close>

definition tcp_receive_text ::
    "bool \<Rightarrow> bool \<Rightarrow> tcp_pcb \<Rightarrow> tcp_in \<Rightarrow> (tcp_pcb \<times> tcp_in \<times> rx_action list) option" where
  "tcp_receive_text v6 mem pcb tin =
     (if g_tcplen tin > 0 \<and> state pcb < CLOSE_WAIT then do {
        (pcb, tin) \<leftarrow> rcv_trim_front pcb tin;
        if TCP_SEQ_BETWEEN (g_seqno tin) (rcv_nxt pcb) (rcv_nxt pcb + rcv_wnd pcb - 1) then
          (if rcv_nxt pcb = g_seqno tin then rcv_in_order v6 pcb tin
           else rcv_out_of_order mem pcb tin)
        else Some (pcb, tin, [Send_empty_ack])
      }
      else
        Some (if \<not> TCP_SEQ_BETWEEN (g_seqno tin) (rcv_nxt pcb) (rcv_nxt pcb + rcv_wnd pcb - 1)
              then tcp_ack_now pcb else pcb, tin, []))"

end
