(* ===== verification/Tcp_ack.thy ===== *)
theory Tcp_ack imports Tcp_out Tcp_recv begin

text \<open>
  \<^verbatim>\<open>tcp_receive\<close> of \<^verbatim>\<open>tcp_in.c\<close>: the acknowledgement part (window update,
  duplicate acknowledgements, congestion control, release of acknowledged segments, round-trip
  time) and its composition with the text part of \<open>Tcp_recv\<close>.
\<close>

section \<open>Acknowledged segments\<close>

fun tcp_free_acked_segments ::
    "u32 \<Rightarrow> tcp_seg list \<Rightarrow> tcp_seg list \<Rightarrow> u16 \<Rightarrow> u32 \<Rightarrow> (tcp_seg list \<times> u16 \<times> u32) option" where
  "tcp_free_acked_segments ackno other [] qlen acked = Some ([], qlen, acked)"
| "tcp_free_acked_segments ackno other (s # ss) qlen acked =
     (if TCP_SEQ_LEQ (sg_seqno s + TCP_TCPLEN (sg_len s) (sg_hflags s)) ackno then do {
        LWIP_ASSERT (qlen \<ge> sg_clen s);
        let qlen = qlen - sg_clen s;
        LWIP_ASSERT (qlen \<noteq> 0 \<longrightarrow> ss \<noteq> [] \<or> other \<noteq> []);
        tcp_free_acked_segments ackno other ss qlen (acked + ucast (sg_len s)) }
      else Some (s # ss, qlen, acked))"

section \<open>The acknowledgement number\<close>

definition ack_update_window :: "tcp_pcb \<Rightarrow> tcp_in \<Rightarrow> tcp_pcb" where
  "ack_update_window pcb tin =
     (if TCP_SEQ_LT (snd_wl1 pcb) (g_seqno tin) \<or>
         snd_wl1 pcb = g_seqno tin \<and> TCP_SEQ_LT (snd_wl2 pcb) (g_ackno tin) \<or>
         snd_wl2 pcb = g_ackno tin \<and> SND_WND_SCALE pcb (g_wnd tin) > snd_wnd pcb
      then let w = SND_WND_SCALE pcb (g_wnd tin)
           in pcb\<lparr>snd_wnd := w, snd_wnd_max := (if snd_wnd_max pcb < w then w else snd_wnd_max pcb),
                  snd_wl1 := g_seqno tin, snd_wl2 := g_ackno tin\<rparr>
      else pcb)"

definition ack_duplicate :: "'w tcp_env \<Rightarrow> tcp_pcb \<Rightarrow> tcp_in \<Rightarrow> u32 \<Rightarrow> 'w \<Rightarrow> tcp_pcb" where
  "ack_duplicate e pcb tin right_wnd_edge w =
     (if g_tcplen tin = 0 \<and> snd_wl2 pcb + snd_wnd pcb = right_wnd_edge \<and> rtime pcb \<ge> 0 \<and>
         lastack pcb = g_ackno tin
      then let pcb = (if dupacks pcb + 1 > dupacks pcb then pcb\<lparr>dupacks := dupacks pcb + 1\<rparr> else pcb);
               pcb = (if dupacks pcb > 3 then pcb\<lparr>cwnd := TCP_WND_INC (cwnd pcb) (ucast (mss pcb))\<rparr> else pcb)
           in if dupacks pcb \<ge> 3 then tcp_rexmit_fast e pcb w else pcb
      else pcb\<lparr>dupacks := 0\<rparr>)"

definition ack_congestion :: "tcp_pcb \<Rightarrow> u32 \<Rightarrow> tcp_pcb" where
  "ack_congestion pcb acked =
     (if state pcb \<ge> ESTABLISHED then
        (if cwnd pcb < ssthresh pcb
         then let num_seg = (if has (flags pcb) TF_RTO then 1 else 2);
                  increase = min acked (num_seg * ucast (mss pcb))
              in pcb\<lparr>cwnd := TCP_WND_INC (cwnd pcb) increase\<rparr>
         else let pcb = pcb\<lparr>bytes_acked := TCP_WND_INC (bytes_acked pcb) acked\<rparr>
              in if bytes_acked pcb \<ge> cwnd pcb
                 then pcb\<lparr>bytes_acked := bytes_acked pcb - cwnd pcb,
                          cwnd := TCP_WND_INC (cwnd pcb) (ucast (mss pcb))\<rparr>
                 else pcb)
      else pcb)"

definition ack_end_rto :: "tcp_pcb \<Rightarrow> tcp_pcb" where
  "ack_end_rto pcb =
     (if has (flags pcb) TF_RTO then
        (case unacked pcb of
           [] \<Rightarrow> (case unsent pcb of
                    [] \<Rightarrow> tcp_clear_flags pcb TF_RTO
                  | s # _ \<Rightarrow> if TCP_SEQ_LEQ (rto_end pcb) (sg_seqno s) then tcp_clear_flags pcb TF_RTO else pcb)
         | s # _ \<Rightarrow> if TCP_SEQ_LEQ (rto_end pcb) (sg_seqno s) then tcp_clear_flags pcb TF_RTO else pcb)
      else pcb)"

definition ack_new_data ::
    "'w tcp_env \<Rightarrow> bool \<Rightarrow> tcp_pcb \<Rightarrow> tcp_in \<Rightarrow> 'w \<Rightarrow> ('w \<times> tcp_pcb \<times> tcp_in) option" where
  "ack_new_data e v6 pcb tin w = do {
     let pcb = (if has (flags pcb) TF_INFR
                then (tcp_clear_flags pcb TF_INFR)\<lparr>cwnd := ssthresh pcb, bytes_acked := 0\<rparr> else pcb);
     let acked = g_ackno tin - lastack pcb;
     let pcb = pcb\<lparr>nrtx := 0, rto := to_s16 (sa pcb div 8 + sv pcb), dupacks := 0, lastack := g_ackno tin\<rparr>;
     let pcb = ack_congestion pcb acked;
     (ua, qlen, racked) \<leftarrow> tcp_free_acked_segments (g_ackno tin) (unsent pcb) (unacked pcb)
                             (snd_queuelen pcb) (recv_acked tin);
     (us, qlen, racked) \<leftarrow> tcp_free_acked_segments (g_ackno tin) ua (unsent pcb) qlen racked;
     let pcb = pcb\<lparr>unacked := ua, unsent := us, snd_queuelen := qlen,
                   rtime := (if ua = [] then -1 else 0), polltmr := 0,
                   unsent_oversize := (if us = [] then 0 else unsent_oversize pcb),
                   snd_buf := snd_buf pcb + racked\<rparr>;
     Some (if v6 then te_nd6_reachability_hint e w else w, ack_end_rto pcb, tin\<lparr>recv_acked := racked\<rparr>) }"

definition ack_rtt :: "u32 \<Rightarrow> tcp_pcb \<Rightarrow> tcp_in \<Rightarrow> tcp_pcb" where
  "ack_rtt tcp_ticks pcb tin =
     (if rttest pcb \<noteq> 0 \<and> TCP_SEQ_LT (rtseq pcb) (g_ackno tin)
      then let m = to_s16 (uint (tcp_ticks - rttest pcb));
               m = to_s16 (m - sa pcb div 8);
               sa' = to_s16 (sa pcb + m);
               m = (if m < 0 then to_s16 (- m) else m);
               m = to_s16 (m - sv pcb div 4);
               sv' = to_s16 (sv pcb + m)
           in pcb\<lparr>sa := sa', sv := sv', rto := to_s16 (sa' div 8 + sv'), rttest := 0\<rparr>
      else pcb)"

definition tcp_receive_ack ::
    "'w tcp_env \<Rightarrow> u32 \<Rightarrow> bool \<Rightarrow> tcp_pcb \<Rightarrow> tcp_in \<Rightarrow> 'w \<Rightarrow> ('w \<times> tcp_pcb \<times> tcp_in) option" where
  "tcp_receive_ack e tcp_ticks v6 pcb tin w =
     (if has (g_flags tin) TCP_ACK then do {
        let right_wnd_edge = snd_wnd pcb + snd_wl2 pcb;
        let pcb = ack_update_window pcb tin;
        (w, pcb, tin) \<leftarrow>
          (if TCP_SEQ_LEQ (g_ackno tin) (lastack pcb)
           then Some (w, ack_duplicate e pcb tin right_wnd_edge w, tin)
           else if TCP_SEQ_BETWEEN (g_ackno tin) (lastack pcb + 1) (snd_nxt pcb)
           then ack_new_data e v6 pcb tin w
           else (case tcp_send_empty_ack e pcb w of (w, pcb, err) \<Rightarrow> Some (w, pcb, tin)));
        Some (w, ack_rtt tcp_ticks pcb tin, tin) }
      else Some (w, pcb, tin))"

section \<open>\<^verbatim>\<open>tcp_receive\<close>\<close>

text \<open>The memory for a copy of the segment is asked for exactly where its outcome matters.\<close>

definition receive_copy ::
    "'w tcp_env \<Rightarrow> bool \<Rightarrow> tcp_pcb \<Rightarrow> tcp_in \<Rightarrow> 'w \<Rightarrow> 'w \<times> (tcp_pcb \<times> tcp_in \<times> rx_action list) option" where
  "receive_copy e v6 pcb tin w =
     (if tcp_receive_text v6 True pcb tin = tcp_receive_text v6 False pcb tin
      then (w, tcp_receive_text v6 True pcb tin)
      else case te_seg_alloc e w of (w, mem) \<Rightarrow> (w, tcp_receive_text v6 mem pcb tin))"

fun run_rx_actions :: "'w tcp_env \<Rightarrow> rx_action list \<Rightarrow> 'w \<times> tcp_pcb \<Rightarrow> 'w \<times> tcp_pcb" where
  "run_rx_actions e [] (w, pcb) = (w, pcb)"
| "run_rx_actions e (Send_empty_ack # as) (w, pcb) =
     run_rx_actions e as (case tcp_send_empty_ack e pcb w of (w, pcb, err) \<Rightarrow> (w, pcb))"
| "run_rx_actions e (Nd6_reachability_hint # as) (w, pcb) =
     run_rx_actions e as (te_nd6_reachability_hint e w, pcb)"

definition tcp_receive ::
    "'w tcp_env \<Rightarrow> u32 \<Rightarrow> bool \<Rightarrow> tcp_pcb \<Rightarrow> tcp_in \<Rightarrow> 'w \<Rightarrow> ('w \<times> tcp_pcb \<times> tcp_in) option" where
  "tcp_receive e tcp_ticks v6 pcb tin w = do {
     LWIP_ASSERT (state pcb \<ge> ESTABLISHED);
     (w, pcb, tin) \<leftarrow> tcp_receive_ack e tcp_ticks v6 pcb tin w;
     let (w, r) = receive_copy e v6 pcb tin w;
     (pcb, tin, acts) \<leftarrow> r;
     let (w, pcb) = run_rx_actions e acts (w, pcb);
     Some (w, pcb, tin) }"

end
