(* ===== verification/Tcp_conn.thy ===== *)
theory Tcp_conn imports Tcp_ack begin

text \<open>
  Connection management, \<^verbatim>\<open>tcp.c\<close>: the control blocks and the four lists they are on, the
  operations of the application (open, bind, listen, connect, close, shut down, abort), and the
  replacement of old connections when memory is short.

  A control block lives at an address, and the lists are lists of addresses in the order of
  the \<^verbatim>\<open>next\<close> pointers. An access to a block that has been freed, or a failed assertion, is
  \<open>None\<close>. The application's callbacks are numbered functions of the environment that
  may change the whole state, so a statement for all environments covers applications that close,
  abort or open connections inside a callback. Callback \<open>0\<close> is the default one:
  \<^verbatim>\<open>tcp_recv_null\<close> and \<^verbatim>\<open>tcp_accept_null\<close>.
\<close>

section \<open>State\<close>

record tcp_lpcb =
  l_local_ip :: ip_addr_t
  l_remote_ip :: ip_addr_t
  l_netif_idx :: u8
  l_so_options :: u8
  l_tos :: u8
  l_ttl :: u8
  l_callback_arg :: nat
  l_state :: tcp_state
  l_prio :: u8
  l_local_port :: u16
  l_accept :: "nat option"

datatype cblock = Conn tcp_pcb | Lst tcp_lpcb

record 'w tcp_st =
  cbs :: "nat \<Rightarrow> cblock option"
  tcp_bound_pcbs :: "nat list"
  tcp_listen_pcbs :: "nat list"
  tcp_active_pcbs :: "nat list"
  tcp_tw_pcbs :: "nat list"
  tcp_active_pcbs_changed :: bool
  tcp_ticks :: u32
  tcp_timer :: u8
  tcp_timer_ctr :: u8
  tcpip_tcp_timer_active :: bool
  tcp_port :: u16
  tcp_iss :: u32
  tcp_input_pcb :: "nat option"
  st_in :: tcp_in
  st_w :: 'w

text \<open>\<open>ap_pcb_alloc\<close> and \<open>ap_lpcb_alloc\<close> are \<^verbatim>\<open>memp_malloc\<close> of the two pools, \<open>ap_sys_timeout\<close> is
  the call that starts the TCP timer, \<open>ap_split_64k\<close> tells how many bytes \<^verbatim>\<open>pbuf_split_64k\<close> leaves in
  the first part of a chain: the data is a list of bytes here, without the buffers it is in. The routine
  itself is \<open>pbuf_split_64k\<close> of \<open>Pbuf\<close>; \<open>pbuf_split_find_bounds\<close> says that this part is not empty, if the first
  buffer is not, and has less than 64 KB.\<close>

record 'w tcp_app =
  ap_env :: "'w tcp_env"
  ap_pcb_alloc :: "'w tcp_st \<Rightarrow> 'w \<times> nat option"
  ap_lpcb_alloc :: "'w tcp_st \<Rightarrow> 'w \<times> nat option"
  ap_sys_timeout :: "'w \<Rightarrow> 'w"
  ap_split_64k :: "u8 list \<Rightarrow> nat"
  ap_recv :: "nat \<Rightarrow> nat \<Rightarrow> nat \<Rightarrow> u8 list option \<Rightarrow> err_t \<Rightarrow> 'w tcp_st \<Rightarrow> ('w tcp_st \<times> err_t) option"
  ap_sent :: "nat \<Rightarrow> nat \<Rightarrow> nat \<Rightarrow> u16 \<Rightarrow> 'w tcp_st \<Rightarrow> ('w tcp_st \<times> err_t) option"
  ap_accept :: "nat \<Rightarrow> nat \<Rightarrow> nat option \<Rightarrow> err_t \<Rightarrow> 'w tcp_st \<Rightarrow> ('w tcp_st \<times> err_t) option"
  ap_connected :: "nat \<Rightarrow> nat \<Rightarrow> nat \<Rightarrow> err_t \<Rightarrow> 'w tcp_st \<Rightarrow> ('w tcp_st \<times> err_t) option"
  ap_poll :: "nat \<Rightarrow> nat \<Rightarrow> nat \<Rightarrow> 'w tcp_st \<Rightarrow> ('w tcp_st \<times> err_t) option"
  ap_err :: "nat \<Rightarrow> nat \<Rightarrow> err_t \<Rightarrow> 'w tcp_st \<Rightarrow> 'w tcp_st option"

definition SOF_KEEPALIVE :: u8 where "SOF_KEEPALIVE = 0x08"
definition SOF_INHERITED :: u8 where "SOF_INHERITED = SOF_REUSEADDR OR SOF_KEEPALIVE"
definition TCP_PRIO_NORMAL :: u8 where "TCP_PRIO_NORMAL = 64"
definition TCP_PRIO_MAX :: u8 where "TCP_PRIO_MAX = 127"
definition TCP_SLOW_INTERVAL :: nat where "TCP_SLOW_INTERVAL = 500"
definition TCP_WND_UPDATE_THRESHOLD :: u32 where "TCP_WND_UPDATE_THRESHOLD = min (TCP_WND div 4) (ucast TCP_MSS * 4)"
definition TCP_KEEPIDLE_DEFAULT :: u32 where "TCP_KEEPIDLE_DEFAULT = 7200000"

section \<open>Control blocks\<close>

definition get_pcb :: "'w tcp_st \<Rightarrow> nat \<Rightarrow> tcp_pcb option" where
  "get_pcb s p = (case cbs s p of Some (Conn b) \<Rightarrow> Some b | _ \<Rightarrow> None)"

definition get_lpcb :: "'w tcp_st \<Rightarrow> nat \<Rightarrow> tcp_lpcb option" where
  "get_lpcb s p = (case cbs s p of Some (Lst l) \<Rightarrow> Some l | _ \<Rightarrow> None)"

definition put_pcb :: "nat \<Rightarrow> tcp_pcb \<Rightarrow> 'w tcp_st \<Rightarrow> 'w tcp_st" where
  "put_pcb p b s = s\<lparr>cbs := (cbs s)(p \<mapsto> Conn b)\<rparr>"

definition put_lpcb :: "nat \<Rightarrow> tcp_lpcb \<Rightarrow> 'w tcp_st \<Rightarrow> 'w tcp_st" where
  "put_lpcb p l s = s\<lparr>cbs := (cbs s)(p \<mapsto> Lst l)\<rparr>"

definition upd_pcb :: "(tcp_pcb \<Rightarrow> tcp_pcb) \<Rightarrow> nat \<Rightarrow> 'w tcp_st \<Rightarrow> 'w tcp_st option" where
  "upd_pcb f p s = do { b \<leftarrow> get_pcb s p; Some (put_pcb p (f b) s) }"

text \<open>The fields both kinds of block have at the same place.\<close>

fun cb_local_ip :: "cblock \<Rightarrow> ip_addr_t" where
  "cb_local_ip (Conn b) = local_ip b" | "cb_local_ip (Lst l) = l_local_ip l"

fun cb_so_options :: "cblock \<Rightarrow> u8" where
  "cb_so_options (Conn b) = so_options b" | "cb_so_options (Lst l) = l_so_options l"

fun cb_local_port :: "cblock \<Rightarrow> u16" where
  "cb_local_port (Conn b) = local_port b" | "cb_local_port (Lst l) = l_local_port l"

fun cb_state :: "cblock \<Rightarrow> tcp_state" where
  "cb_state (Conn b) = state b" | "cb_state (Lst l) = l_state l"

definition tcp_free :: "nat \<Rightarrow> 'w tcp_st \<Rightarrow> 'w tcp_st option" where
  "tcp_free p s = do {
     b \<leftarrow> get_pcb s p;
     LWIP_ASSERT (state b \<noteq> LISTEN);
     Some (s\<lparr>cbs := (cbs s)(p := None)\<rparr>) }"

definition tcp_free_listen :: "nat \<Rightarrow> 'w tcp_st \<Rightarrow> 'w tcp_st option" where
  "tcp_free_listen p s = do {
     l \<leftarrow> get_lpcb s p;
     LWIP_ASSERT (l_state l \<noteq> LISTEN);
     Some (s\<lparr>cbs := (cbs s)(p := None)\<rparr>) }"

section \<open>Lists\<close>

datatype pcb_list = Bound | Listening | Active | Tw

fun the_list :: "pcb_list \<Rightarrow> 'w tcp_st \<Rightarrow> nat list" where
  "the_list Bound s = tcp_bound_pcbs s"
| "the_list Listening s = tcp_listen_pcbs s"
| "the_list Active s = tcp_active_pcbs s"
| "the_list Tw s = tcp_tw_pcbs s"

fun upd_list :: "pcb_list \<Rightarrow> (nat list \<Rightarrow> nat list) \<Rightarrow> 'w tcp_st \<Rightarrow> 'w tcp_st" where
  "upd_list Bound f s = s\<lparr>tcp_bound_pcbs := f (tcp_bound_pcbs s)\<rparr>"
| "upd_list Listening f s = s\<lparr>tcp_listen_pcbs := f (tcp_listen_pcbs s)\<rparr>"
| "upd_list Active f s = s\<lparr>tcp_active_pcbs := f (tcp_active_pcbs s)\<rparr>"
| "upd_list Tw f s = s\<lparr>tcp_tw_pcbs := f (tcp_tw_pcbs s)\<rparr>"

text \<open>\<^verbatim>\<open>tcp_pcb_lists\<close>.\<close>

definition tcp_pcb_lists :: "pcb_list list" where
  "tcp_pcb_lists = [Listening, Bound, Active, Tw]"

definition tcp_timer_needed :: "'w tcp_app \<Rightarrow> 'w tcp_st \<Rightarrow> 'w tcp_st" where
  "tcp_timer_needed app s =
     (if \<not> tcpip_tcp_timer_active s \<and> (tcp_active_pcbs s \<noteq> [] \<or> tcp_tw_pcbs s \<noteq> [])
      then s\<lparr>tcpip_tcp_timer_active := True, st_w := ap_sys_timeout app (st_w s)\<rparr> else s)"

text \<open>The macros. Registering a block that is on the list already would make the list a cycle, which
  no walk leaves any more: this is \<open>None\<close>.\<close>

definition TCP_REG :: "'w tcp_app \<Rightarrow> pcb_list \<Rightarrow> nat \<Rightarrow> 'w tcp_st \<Rightarrow> 'w tcp_st option" where
  "TCP_REG app which p s =
     (if p \<in> set (the_list which s) then None else Some (tcp_timer_needed app (upd_list which ((#) p) s)))"

definition TCP_RMV :: "pcb_list \<Rightarrow> nat \<Rightarrow> 'w tcp_st \<Rightarrow> 'w tcp_st" where
  "TCP_RMV which p s = upd_list which (remove1 p) s"

definition TCP_REG_ACTIVE :: "'w tcp_app \<Rightarrow> nat \<Rightarrow> 'w tcp_st \<Rightarrow> 'w tcp_st option" where
  "TCP_REG_ACTIVE app p s = do { s \<leftarrow> TCP_REG app Active p s; Some (s\<lparr>tcp_active_pcbs_changed := True\<rparr>) }"

definition TCP_RMV_ACTIVE :: "nat \<Rightarrow> 'w tcp_st \<Rightarrow> 'w tcp_st" where
  "TCP_RMV_ACTIVE p s = (TCP_RMV Active p s)\<lparr>tcp_active_pcbs_changed := True\<rparr>"

section \<open>Segments of a block\<close>

definition st_output :: "'w tcp_app \<Rightarrow> nat \<Rightarrow> 'w tcp_st \<Rightarrow> ('w tcp_st \<times> err_t) option" where
  "st_output app p s = do {
     b \<leftarrow> get_pcb s p;
     (w, b, err) \<leftarrow> tcp_output (ap_env app) (tcp_ticks s) (tcp_input_pcb s = Some p) b (st_w s);
     Some (put_pcb p b (s\<lparr>st_w := w\<rparr>), err) }"

definition st_rst :: "'w tcp_app \<Rightarrow> tcp_pcb \<Rightarrow> u16 \<Rightarrow> 'w tcp_st \<Rightarrow> 'w tcp_st" where
  "st_rst app b lport s =
     s\<lparr>st_w := tcp_rst (ap_env app) (Some b) (snd_nxt b) (rcv_nxt b) (local_ip b) (remote_ip b) lport
                (remote_port b) (st_w s)\<rparr>"

definition tcp_free_ooseq :: "tcp_pcb \<Rightarrow> tcp_pcb" where
  "tcp_free_ooseq b = (if ooseq b \<noteq> [] then b\<lparr>ooseq := [], rcv_sacks := replicate 4 (0, 0)\<rparr> else b)"

definition tcp_pcb_purge :: "tcp_pcb \<Rightarrow> tcp_pcb" where
  "tcp_pcb_purge b =
     (if state b \<noteq> CLOSED \<and> state b \<noteq> TIME_WAIT \<and> state b \<noteq> LISTEN
      then (tcp_free_ooseq (b\<lparr>refused_data := None\<rparr>))
             \<lparr>rtime := -1, unacked := [], unsent := [], unsent_oversize := 0\<rparr>
      else b)"

text \<open>A listening block has none of the fields that are looked at in other states.\<close>

definition tcp_pcb_remove :: "'w tcp_app \<Rightarrow> pcb_list \<Rightarrow> nat \<Rightarrow> 'w tcp_st \<Rightarrow> 'w tcp_st option" where
  "tcp_pcb_remove app which p s = do {
     let s = TCP_RMV which p s;
     c \<leftarrow> cbs s p;
     (case c of
        Lst l \<Rightarrow> (if l_state l = LISTEN then Some (put_lpcb p (l\<lparr>l_state := CLOSED, l_local_port := 0\<rparr>) s)
                  else None)
      | Conn b \<Rightarrow> do {
          let b = tcp_pcb_purge b;
          s \<leftarrow> (if state b \<noteq> TIME_WAIT \<and> state b \<noteq> LISTEN \<and> has (flags b) TF_ACK_DELAY
                then do { (s, err) \<leftarrow> st_output app p (put_pcb p (tcp_ack_now b) s); Some s }
                else Some (put_pcb p b s));
          b \<leftarrow> get_pcb s p;
          LWIP_ASSERT (state b \<noteq> LISTEN \<longrightarrow> unsent b = []);
          LWIP_ASSERT (state b \<noteq> LISTEN \<longrightarrow> unacked b = []);
          LWIP_ASSERT (state b \<noteq> LISTEN \<longrightarrow> ooseq b = []);
          Some (put_pcb p (b\<lparr>state := CLOSED, local_port := 0\<rparr>) s) }) }"

definition TCP_PCB_REMOVE_ACTIVE :: "'w tcp_app \<Rightarrow> nat \<Rightarrow> 'w tcp_st \<Rightarrow> 'w tcp_st option" where
  "TCP_PCB_REMOVE_ACTIVE app p s = do {
     s \<leftarrow> tcp_pcb_remove app Active p s;
     Some (s\<lparr>tcp_active_pcbs_changed := True\<rparr>) }"

section \<open>Closing\<close>

fun tcp_remove_listener :: "nat list \<Rightarrow> nat \<Rightarrow> 'w tcp_st \<Rightarrow> 'w tcp_st option" where
  "tcp_remove_listener [] lp s = Some s"
| "tcp_remove_listener (p # ps) lp s = do {
     s \<leftarrow> upd_pcb (\<lambda>b. if listener b = Some lp then b\<lparr>listener := None\<rparr> else b) p s;
     tcp_remove_listener ps lp s }"

definition tcp_listen_closed :: "nat \<Rightarrow> 'w tcp_st \<Rightarrow> 'w tcp_st option" where
  "tcp_listen_closed lp s = do {
     c \<leftarrow> cbs s lp;
     LWIP_ASSERT (cb_state c = LISTEN);
     s \<leftarrow> tcp_remove_listener (tcp_bound_pcbs s) lp s;
     s \<leftarrow> tcp_remove_listener (tcp_active_pcbs s) lp s;
     tcp_remove_listener (tcp_tw_pcbs s) lp s }"

definition st_send_fin :: "'w tcp_app \<Rightarrow> nat \<Rightarrow> 'w tcp_st \<Rightarrow> ('w tcp_st \<times> err_t) option" where
  "st_send_fin app p s = do {
     b \<leftarrow> get_pcb s p;
     (w, b, err) \<leftarrow> tcp_send_fin (ap_env app) b (st_w s);
     Some (put_pcb p b (s\<lparr>st_w := w\<rparr>), err) }"

fun fin_state :: "tcp_state \<Rightarrow> tcp_state option" where
  "fin_state SYN_RCVD = Some FIN_WAIT_1"
| "fin_state ESTABLISHED = Some FIN_WAIT_1"
| "fin_state CLOSE_WAIT = Some LAST_ACK"
| "fin_state _ = None"

definition tcp_close_shutdown_fin :: "'w tcp_app \<Rightarrow> nat \<Rightarrow> 'w tcp_st \<Rightarrow> ('w tcp_st \<times> err_t) option" where
  "tcp_close_shutdown_fin app p s = do {
     b \<leftarrow> get_pcb s p;
     (case fin_state (state b) of
        None \<Rightarrow> Some (s, ERR_OK)
      | Some st \<Rightarrow> do {
          (s, err) \<leftarrow> st_send_fin app p s;
          (if err = ERR_OK then do {
             s \<leftarrow> upd_pcb (\<lambda>b. b\<lparr>state := st\<rparr>) p s;
             (s, e) \<leftarrow> st_output app p s;
             Some (s, ERR_OK) }
           else if err = ERR_MEM then do {
             s \<leftarrow> upd_pcb (\<lambda>b. tcp_set_flags b TF_CLOSEPEND) p s;
             Some (s, ERR_OK) }
           else Some (s, err)) }) }"

definition tcp_trigger_input_pcb_close :: "'w tcp_st \<Rightarrow> 'w tcp_st" where
  "tcp_trigger_input_pcb_close s = s\<lparr>st_in := (st_in s)\<lparr>recv_flags := recv_flags (st_in s) OR TF_CLOSED\<rparr>\<rparr>"

definition tcp_close_shutdown :: "'w tcp_app \<Rightarrow> nat \<Rightarrow> bool \<Rightarrow> 'w tcp_st \<Rightarrow> ('w tcp_st \<times> err_t) option" where
  "tcp_close_shutdown app p rst_on_unacked_data s = do {
     c \<leftarrow> cbs s p;
     (case c of
        Lst l \<Rightarrow> do {
          s \<leftarrow> tcp_listen_closed p s;
          s \<leftarrow> tcp_pcb_remove app Listening p s;
          s \<leftarrow> tcp_free_listen p s;
          Some (s, ERR_OK) }
      | Conn b \<Rightarrow>
          (if rst_on_unacked_data \<and> (state b = ESTABLISHED \<or> state b = CLOSE_WAIT) \<and>
              (refused_data b \<noteq> None \<or> rcv_wnd b \<noteq> TCP_WND_MAX b)
           then do {
             LWIP_ASSERT (has (flags b) TF_RXCLOSED);
             let s = st_rst app b (local_port b) s;
             s \<leftarrow> upd_pcb tcp_pcb_purge p s;
             let s = TCP_RMV_ACTIVE p s;
             (if tcp_input_pcb s = Some p then Some (tcp_trigger_input_pcb_close s, ERR_OK)
              else do { s \<leftarrow> tcp_free p s; Some (s, ERR_OK) }) }
           else if state b = CLOSED then do {
             s \<leftarrow> tcp_free p (if local_port b \<noteq> 0 then TCP_RMV Bound p s else s);
             Some (s, ERR_OK) }
           else if state b = SYN_SENT then do {
             s \<leftarrow> TCP_PCB_REMOVE_ACTIVE app p s;
             s \<leftarrow> tcp_free p s;
             Some (s, ERR_OK) }
           else tcp_close_shutdown_fin app p s)) }"

definition tcp_close :: "'w tcp_app \<Rightarrow> nat \<Rightarrow> 'w tcp_st \<Rightarrow> ('w tcp_st \<times> err_t) option" where
  "tcp_close app p s = do {
     c \<leftarrow> cbs s p;
     s \<leftarrow> (if cb_state c \<noteq> LISTEN then upd_pcb (\<lambda>b. tcp_set_flags b TF_RXCLOSED) p s else Some s);
     tcp_close_shutdown app p True s }"

definition tcp_shutdown :: "'w tcp_app \<Rightarrow> nat \<Rightarrow> bool \<Rightarrow> bool \<Rightarrow> 'w tcp_st \<Rightarrow> ('w tcp_st \<times> err_t) option" where
  "tcp_shutdown app p shut_rx shut_tx s = do {
     c \<leftarrow> cbs s p;
     (if cb_state c = LISTEN then Some (s, ERR_CONN)
      else do {
        s \<leftarrow> (if shut_rx then upd_pcb (\<lambda>b. tcp_set_flags b TF_RXCLOSED) p s else Some s);
        (if shut_rx \<and> shut_tx then tcp_close_shutdown app p True s
         else do {
           s \<leftarrow> (if shut_rx then upd_pcb (\<lambda>b. b\<lparr>refused_data := None\<rparr>) p s else Some s);
           (if shut_tx
            then (if cb_state c \<in> {SYN_RCVD, ESTABLISHED, CLOSE_WAIT} then tcp_close_shutdown app p shut_rx s
                  else Some (s, ERR_CONN))
            else Some (s, ERR_OK)) }) }) }"

section \<open>Aborting\<close>

definition TCP_EVENT_ERR :: "'w tcp_app \<Rightarrow> nat option \<Rightarrow> nat \<Rightarrow> err_t \<Rightarrow> 'w tcp_st \<Rightarrow> 'w tcp_st option" where
  "TCP_EVENT_ERR app errf arg err s = (case errf of Some f \<Rightarrow> ap_err app f arg err s | None \<Rightarrow> Some s)"

definition tcp_abandon :: "'w tcp_app \<Rightarrow> nat \<Rightarrow> bool \<Rightarrow> 'w tcp_st \<Rightarrow> 'w tcp_st option" where
  "tcp_abandon app p reset s = do {
     b \<leftarrow> get_pcb s p;
     LWIP_ASSERT (state b \<noteq> LISTEN);
     (if state b = TIME_WAIT then do {
        s \<leftarrow> tcp_pcb_remove app Tw p s;
        tcp_free p s }
      else do {
        s \<leftarrow> (if state b = CLOSED then Some (if local_port b \<noteq> 0 then TCP_RMV Bound p s else s)
              else TCP_PCB_REMOVE_ACTIVE app p s);
        s \<leftarrow> upd_pcb (\<lambda>b. b\<lparr>unacked := [], unsent := [], ooseq := []\<rparr>) p s;
        b' \<leftarrow> get_pcb s p;
        let s = (if reset \<and> state b \<noteq> CLOSED
                 then s\<lparr>st_w := tcp_rst (ap_env app) (Some b') (snd_nxt b) (rcv_nxt b) (local_ip b') (remote_ip b')
                          (local_port b) (remote_port b') (st_w s)\<rparr>
                 else s);
        s \<leftarrow> tcp_free p s;
        TCP_EVENT_ERR app (cb_errf b) (callback_arg b) ERR_ABRT s }) }"

definition tcp_abort :: "'w tcp_app \<Rightarrow> nat \<Rightarrow> 'w tcp_st \<Rightarrow> 'w tcp_st option" where
  "tcp_abort app p s = tcp_abandon app p True s"

definition tcp_accept_null :: "'w tcp_app \<Rightarrow> nat option \<Rightarrow> 'w tcp_st \<Rightarrow> ('w tcp_st \<times> err_t) option" where
  "tcp_accept_null app p s = do {
     p \<leftarrow> p;
     s \<leftarrow> tcp_abort app p s;
     Some (s, ERR_ABRT) }"

section \<open>Opening\<close>

text \<open>The search of \<^verbatim>\<open>tcp_bind\<close> through one list.\<close>

definition bind_clash :: "cblock \<Rightarrow> u8 \<Rightarrow> ip_addr_t \<Rightarrow> u16 \<Rightarrow> bool" where
  "bind_clash c opts ipaddr port \<longleftrightarrow>
     cb_local_port c = port \<and>
     (\<not> has opts SOF_REUSEADDR \<or> \<not> has (cb_so_options c) SOF_REUSEADDR) \<and>
     IP_IS_V6_VAL ipaddr = IP_IS_V6_VAL (cb_local_ip c) \<and>
     (ip_addr_isany (cb_local_ip c) \<or> ip_addr_isany ipaddr \<or> ip_addr_cmp (cb_local_ip c) ipaddr)"

fun any_block :: "(cblock \<Rightarrow> bool) \<Rightarrow> nat list \<Rightarrow> 'w tcp_st \<Rightarrow> bool option" where
  "any_block f [] s = Some False"
| "any_block f (p # ps) s = do { c \<leftarrow> cbs s p; if f c then Some True else any_block f ps s }"

definition tcp_new_port :: "'w tcp_st \<Rightarrow> ('w tcp_st \<times> u16) option" where
  "tcp_new_port s = do {
     let ps = concat (map (\<lambda>l. the_list l s) tcp_pcb_lists);
     bs \<leftarrow> those (map (cbs s) ps);
     let (port, next) = tcp_new_port_from (map cb_local_port bs) (tcp_port s);
     Some (s\<lparr>tcp_port := next\<rparr>, port) }"

text \<open>The port for a binding: a free one for \<open>0\<close>, else the given one unless it is in use.\<close>

definition bind_port :: "tcp_pcb \<Rightarrow> ip_addr_t \<Rightarrow> u16 \<Rightarrow> 'w tcp_st \<Rightarrow> ('w tcp_st \<times> (err_t + u16)) option" where
  "bind_port b ipaddr port s =
     (if port = 0
      then do { (s, port) \<leftarrow> tcp_new_port s; Some (s, if port = 0 then Inl ERR_BUF else Inr port) }
      else do {
        let lists = take (if has (so_options b) SOF_REUSEADDR then 3 else 4) tcp_pcb_lists;
        clash \<leftarrow> any_block (\<lambda>c. bind_clash c (so_options b) ipaddr port) (concat (map (\<lambda>l. the_list l s) lists)) s;
        Some (s, if clash then Inl ERR_USE else Inr port) })"

definition bind_pcb :: "ip_addr_t \<Rightarrow> u16 \<Rightarrow> tcp_pcb \<Rightarrow> tcp_pcb" where
  "bind_pcb ipaddr port b =
     (if \<not> ip_addr_isany ipaddr \<or> ip_type ipaddr \<noteq> ip_type (local_ip b)
      then b\<lparr>local_ip := ip_addr_copy ipaddr\<rparr> else b)\<lparr>local_port := port\<rparr>"

definition tcp_bind :: "'w tcp_app \<Rightarrow> nat \<Rightarrow> ip_addr_t option \<Rightarrow> u16 \<Rightarrow> 'w tcp_st \<Rightarrow> ('w tcp_st \<times> err_t) option" where
  "tcp_bind app p ipaddr port s = do {
     let ipaddr = (case ipaddr of None \<Rightarrow> ip_addr_any | Some a \<Rightarrow> a);
     b \<leftarrow> get_pcb s p;
     LWIP_ASSERT (state b = CLOSED);
     (s, r) \<leftarrow> bind_port b ipaddr port s;
     (case r of
        Inl err \<Rightarrow> Some (s, err)
      | Inr port \<Rightarrow> do {
          s \<leftarrow> TCP_REG app Bound p (put_pcb p (bind_pcb ipaddr port b) s);
          Some (s, ERR_OK) }) }"

definition tcp_bind_netif :: "nat \<Rightarrow> netif option \<Rightarrow> 'w tcp_st \<Rightarrow> 'w tcp_st option" where
  "tcp_bind_netif p n s = do {
     let idx = (case n of Some n \<Rightarrow> netif_get_index n | None \<Rightarrow> NETIF_NO_INDEX);
     c \<leftarrow> cbs s p;
     Some (case c of Conn b \<Rightarrow> put_pcb p (b\<lparr>netif_idx := idx\<rparr>) s | Lst l \<Rightarrow> put_lpcb p (l\<lparr>l_netif_idx := idx\<rparr>) s) }"

text \<open>\<^verbatim>\<open>LWIP_ERROR\<close> aborts in this configuration, also for a block that listens already. The
  old block is freed, the listening one takes over its options.\<close>

definition listen_pcb :: "tcp_pcb \<Rightarrow> tcp_lpcb" where
  "listen_pcb b =
     \<lparr>l_local_ip = ip_addr_copy (local_ip b), l_remote_ip = ip_addr_any\<lparr>ip_type := ip_type (local_ip b)\<rparr>,
      l_netif_idx = NETIF_NO_INDEX, l_so_options = so_options b, l_tos = tos b, l_ttl = ttl b,
      l_callback_arg = callback_arg b, l_state = LISTEN, l_prio = prio b,
      l_local_port = local_port b, l_accept = Some 0\<rparr>"

definition tcp_listen_with_backlog_and_err ::
    "'w tcp_app \<Rightarrow> nat \<Rightarrow> 'w tcp_st \<Rightarrow> ('w tcp_st \<times> nat option \<times> err_t) option" where
  "tcp_listen_with_backlog_and_err app p s = do {
     c \<leftarrow> cbs s p;
     LWIP_ASSERT (cb_state c = CLOSED);
     b \<leftarrow> get_pcb s p;
     used \<leftarrow> (if has (so_options b) SOF_REUSEADDR
              then any_block (\<lambda>c. cb_local_port c = local_port b \<and> ip_addr_cmp (cb_local_ip c) (local_ip b))
                     (tcp_listen_pcbs s) s
              else Some False);
     (if used then Some (s, None, ERR_USE)
      else case ap_lpcb_alloc app s of
        (w, None) \<Rightarrow> Some (s\<lparr>st_w := w\<rparr>, None, ERR_MEM)
      | (w, Some lp) \<Rightarrow> do {
          let s = s\<lparr>st_w := w\<rparr>;
          s \<leftarrow> tcp_free p (if local_port b \<noteq> 0 then TCP_RMV Bound p s else s);
          s \<leftarrow> TCP_REG app Listening lp (put_lpcb lp (listen_pcb b) s);
          Some (s, Some lp, ERR_OK) }) }"

definition tcp_next_iss :: "'w tcp_st \<Rightarrow> 'w tcp_st \<times> u32" where
  "tcp_next_iss s = (s\<lparr>tcp_iss := tcp_iss s + tcp_ticks s\<rparr>, tcp_iss s + tcp_ticks s)"

text \<open>The fields \<^verbatim>\<open>tcp_connect\<close> sets before it queues the SYN.\<close>

definition connect_init :: "u32 \<Rightarrow> u16 \<Rightarrow> nat option \<Rightarrow> tcp_pcb \<Rightarrow> tcp_pcb" where
  "connect_init iss m connected b =
     b\<lparr>rcv_nxt := 0, snd_nxt := iss, lastack := iss - 1, snd_wl2 := iss - 1, snd_lbb := iss - 1,
       rcv_wnd := ucast (TCPWND_MIN16 TCP_WND), rcv_ann_wnd := ucast (TCPWND_MIN16 TCP_WND), rcv_ann_right_edge := 0,
       snd_wnd := TCP_WND, mss := m, cwnd := 1, cb_connected := connected\<rparr>"

definition conn_same :: "tcp_pcb \<Rightarrow> ip_addr_t \<Rightarrow> u16 \<Rightarrow> cblock \<Rightarrow> bool" where
  "conn_same b ipaddr port c \<longleftrightarrow>
     (case c of
        Conn d \<Rightarrow> local_port d = local_port b \<and> remote_port d = port \<and>
                  ip_addr_cmp (local_ip d) (local_ip b) \<and> ip_addr_cmp (remote_ip d) ipaddr
      | Lst l \<Rightarrow> False)"

text \<open>The local port: a new one, or the bound one unless the connection exists already.\<close>

definition connect_port ::
    "nat \<Rightarrow> tcp_pcb \<Rightarrow> ip_addr_t \<Rightarrow> u16 \<Rightarrow> 'w tcp_st \<Rightarrow> ('w tcp_st \<times> err_t) option" where
  "connect_port p b ipaddr port s =
     (if local_port b = 0
      then do { (s, lp) \<leftarrow> tcp_new_port s;
                Some (put_pcb p (b\<lparr>local_port := lp\<rparr>) s, if lp = 0 then ERR_BUF else ERR_OK) }
      else do {
        used \<leftarrow> (if has (so_options b) SOF_REUSEADDR
                 then any_block (conn_same b ipaddr port) (tcp_active_pcbs s @ tcp_tw_pcbs s) s
                 else Some False);
        Some (s, if used then ERR_USE else ERR_OK) })"

text \<open>The SYN is queued and sent.\<close>

definition connect_syn ::
    "'w tcp_app \<Rightarrow> nat \<Rightarrow> netif \<Rightarrow> u16 \<Rightarrow> nat option \<Rightarrow> 'w tcp_st \<Rightarrow> ('w tcp_st \<times> err_t) option" where
  "connect_syn app p n old_local_port connected s = do {
     let (s, iss) = tcp_next_iss s;
     b \<leftarrow> get_pcb s p;
     let m = tcp_eff_send_mss_netif (ap_env app) (st_w s) INITIAL_MSS (Some n) (remote_ip b);
     (w, b, ret) \<leftarrow> tcp_enqueue_flags (ap_env app) (connect_init iss m connected b) TCP_SYN (st_w s);
     let s = s\<lparr>st_w := w\<rparr>;
     (if ret = ERR_OK then do {
        let s = put_pcb p (b\<lparr>state := SYN_SENT\<rparr>) s;
        let s = (if old_local_port \<noteq> 0 then TCP_RMV Bound p s else s);
        s \<leftarrow> TCP_REG_ACTIVE app p s;
        (s, err) \<leftarrow> st_output app p s;
        Some (s, ERR_OK) }
      else Some (put_pcb p b s, ret)) }"

definition tcp_connect ::
    "'w tcp_app \<Rightarrow> nat \<Rightarrow> ip_addr_t \<Rightarrow> u16 \<Rightarrow> nat option \<Rightarrow> 'w tcp_st \<Rightarrow> ('w tcp_st \<times> err_t) option" where
  "tcp_connect app p ipaddr port connected s = do {
     let e = ap_env app;
     b \<leftarrow> get_pcb s p;
     LWIP_ASSERT (state b = CLOSED);
     let b = b\<lparr>remote_ip := ip_addr_copy ipaddr, remote_port := port\<rparr>;
     (case tcp_route e (Some b) (local_ip b) (remote_ip b) (st_w s) of
        None \<Rightarrow> Some (put_pcb p b s, ERR_RTE)
      | Some n \<Rightarrow>
          (case (if ip_addr_isany (local_ip b) then ip_netif_get_local_ip e (st_w s) n ipaddr else Some (local_ip b)) of
             None \<Rightarrow> Some (put_pcb p b s, ERR_RTE)
           | Some a \<Rightarrow> do {
               let b = (if ip_addr_isany (local_ip b) then b\<lparr>local_ip := ip_addr_copy a\<rparr> else b);
               (s, err) \<leftarrow> connect_port p b ipaddr port (put_pcb p b s);
               (if err = ERR_OK then connect_syn app p n (local_port b) connected s else Some (s, err)) })) }"

section \<open>The application takes data\<close>

definition tcp_recved :: "'w tcp_app \<Rightarrow> nat \<Rightarrow> u16 \<Rightarrow> 'w tcp_st \<Rightarrow> 'w tcp_st option" where
  "tcp_recved app p len s = do {
     b \<leftarrow> get_pcb s p;
     LWIP_ASSERT (state b \<noteq> LISTEN);
     let (b, wnd_inflation) = tcp_recved_window b len;
     (if wnd_inflation \<ge> TCP_WND_UPDATE_THRESHOLD
      then do { (s, err) \<leftarrow> st_output app p (put_pcb p (tcp_ack_now b) s); Some s }
      else Some (put_pcb p b s)) }"

definition tcp_recv_null ::
    "'w tcp_app \<Rightarrow> nat \<Rightarrow> u8 list option \<Rightarrow> err_t \<Rightarrow> 'w tcp_st \<Rightarrow> ('w tcp_st \<times> err_t) option" where
  "tcp_recv_null app p data err s =
     (case data of
        Some d \<Rightarrow> do { s \<leftarrow> tcp_recved app p (of_nat (length d)) s; Some (s, ERR_OK) }
      | None \<Rightarrow> (if err = ERR_OK then tcp_close app p s else Some (s, ERR_OK)))"

definition call_recv ::
    "'w tcp_app \<Rightarrow> nat \<Rightarrow> nat \<Rightarrow> nat \<Rightarrow> u8 list option \<Rightarrow> err_t \<Rightarrow> 'w tcp_st \<Rightarrow> ('w tcp_st \<times> err_t) option" where
  "call_recv app f arg p data err s =
     (if f = 0 then tcp_recv_null app p data err s else ap_recv app f arg p data err s)"

definition TCP_EVENT_RECV ::
    "'w tcp_app \<Rightarrow> nat \<Rightarrow> u8 list option \<Rightarrow> err_t \<Rightarrow> 'w tcp_st \<Rightarrow> ('w tcp_st \<times> err_t) option" where
  "TCP_EVENT_RECV app p data err s = do {
     b \<leftarrow> get_pcb s p;
     (case cb_recv b of Some f \<Rightarrow> call_recv app f (callback_arg b) p data err s
      | None \<Rightarrow> tcp_recv_null app p data err s) }"

definition TCP_EVENT_CLOSED :: "'w tcp_app \<Rightarrow> nat \<Rightarrow> 'w tcp_st \<Rightarrow> ('w tcp_st \<times> err_t) option" where
  "TCP_EVENT_CLOSED app p s = do {
     b \<leftarrow> get_pcb s p;
     (case cb_recv b of Some f \<Rightarrow> call_recv app f (callback_arg b) p None ERR_OK s | None \<Rightarrow> Some (s, ERR_OK)) }"

definition TCP_EVENT_SENT :: "'w tcp_app \<Rightarrow> nat \<Rightarrow> u16 \<Rightarrow> 'w tcp_st \<Rightarrow> ('w tcp_st \<times> err_t) option" where
  "TCP_EVENT_SENT app p space s = do {
     b \<leftarrow> get_pcb s p;
     (case cb_sent b of Some f \<Rightarrow> ap_sent app f (callback_arg b) p space s | None \<Rightarrow> Some (s, ERR_OK)) }"

definition TCP_EVENT_CONNECTED :: "'w tcp_app \<Rightarrow> nat \<Rightarrow> err_t \<Rightarrow> 'w tcp_st \<Rightarrow> ('w tcp_st \<times> err_t) option" where
  "TCP_EVENT_CONNECTED app p err s = do {
     b \<leftarrow> get_pcb s p;
     (case cb_connected b of Some f \<Rightarrow> ap_connected app f (callback_arg b) p err s | None \<Rightarrow> Some (s, ERR_OK)) }"

definition TCP_EVENT_POLL :: "'w tcp_app \<Rightarrow> nat \<Rightarrow> 'w tcp_st \<Rightarrow> ('w tcp_st \<times> err_t) option" where
  "TCP_EVENT_POLL app p s = do {
     b \<leftarrow> get_pcb s p;
     (case cb_poll b of Some f \<Rightarrow> ap_poll app f (callback_arg b) p s | None \<Rightarrow> Some (s, ERR_OK)) }"

definition TCP_EVENT_ACCEPT ::
    "'w tcp_app \<Rightarrow> nat \<Rightarrow> nat option \<Rightarrow> nat \<Rightarrow> err_t \<Rightarrow> 'w tcp_st \<Rightarrow> ('w tcp_st \<times> err_t) option" where
  "TCP_EVENT_ACCEPT app lp p arg err s = do {
     l \<leftarrow> get_lpcb s lp;
     (case l_accept l of
        Some f \<Rightarrow> (if f = 0 then tcp_accept_null app p s else ap_accept app f arg p err s)
      | None \<Rightarrow> Some (s, ERR_ARG)) }"

section \<open>Allocation\<close>

text \<open>The searches for a connection to give up: the current minimum of the inactivity, of the
  priority, and the candidate.\<close>

fun kill_prio_loop :: "nat list \<Rightarrow> u8 \<Rightarrow> u32 \<Rightarrow> nat option \<Rightarrow> 'w tcp_st \<Rightarrow> nat option option" where
  "kill_prio_loop [] mprio inactivity inactive s = Some inactive"
| "kill_prio_loop (p # ps) mprio inactivity inactive s = do {
     b \<leftarrow> get_pcb s p;
     (if prio b < mprio \<or> prio b = mprio \<and> tcp_ticks s - tmr b \<ge> inactivity
      then kill_prio_loop ps (prio b) (tcp_ticks s - tmr b) (Some p) s
      else kill_prio_loop ps mprio inactivity inactive s) }"

definition tcp_kill_prio :: "'w tcp_app \<Rightarrow> u8 \<Rightarrow> 'w tcp_st \<Rightarrow> 'w tcp_st option" where
  "tcp_kill_prio app pr s =
     (let mprio = min TCP_PRIO_MAX pr in
      if mprio = 0 then Some s
      else do {
        victim \<leftarrow> kill_prio_loop (tcp_active_pcbs s) (mprio - 1) 0 None s;
        (case victim of Some p \<Rightarrow> tcp_abort app p s | None \<Rightarrow> Some s) })"

fun kill_state_loop :: "nat list \<Rightarrow> (tcp_pcb \<Rightarrow> bool) \<Rightarrow> u32 \<Rightarrow> nat option \<Rightarrow> 'w tcp_st \<Rightarrow> nat option option" where
  "kill_state_loop [] f inactivity inactive s = Some inactive"
| "kill_state_loop (p # ps) f inactivity inactive s = do {
     b \<leftarrow> get_pcb s p;
     (if f b \<and> tcp_ticks s - tmr b \<ge> inactivity
      then kill_state_loop ps f (tcp_ticks s - tmr b) (Some p) s
      else kill_state_loop ps f inactivity inactive s) }"

definition tcp_kill_state :: "'w tcp_app \<Rightarrow> tcp_state \<Rightarrow> 'w tcp_st \<Rightarrow> 'w tcp_st option" where
  "tcp_kill_state app st s = do {
     LWIP_ASSERT (st = CLOSING \<or> st = LAST_ACK);
     victim \<leftarrow> kill_state_loop (tcp_active_pcbs s) (\<lambda>b. state b = st) 0 None s;
     (case victim of Some p \<Rightarrow> tcp_abandon app p False s | None \<Rightarrow> Some s) }"

definition tcp_kill_timewait :: "'w tcp_app \<Rightarrow> 'w tcp_st \<Rightarrow> 'w tcp_st option" where
  "tcp_kill_timewait app s = do {
     victim \<leftarrow> kill_state_loop (tcp_tw_pcbs s) (\<lambda>b. True) 0 None s;
     (case victim of Some p \<Rightarrow> tcp_abort app p s | None \<Rightarrow> Some s) }"

text \<open>\<^verbatim>\<open>tcp_close_shutdown_fin\<close> changes no list, so the loop runs over the list it starts with.\<close>

fun closepend_loop :: "'w tcp_app \<Rightarrow> nat list \<Rightarrow> 'w tcp_st \<Rightarrow> 'w tcp_st option" where
  "closepend_loop app [] s = Some s"
| "closepend_loop app (p # ps) s = do {
     b \<leftarrow> get_pcb s p;
     s \<leftarrow> (if has (flags b) TF_CLOSEPEND
           then do { (s, err) \<leftarrow> tcp_close_shutdown_fin app p (put_pcb p (tcp_clear_flags b TF_CLOSEPEND) s); Some s }
           else Some s);
     closepend_loop app ps s }"

definition tcp_handle_closepend :: "'w tcp_app \<Rightarrow> 'w tcp_st \<Rightarrow> 'w tcp_st option" where
  "tcp_handle_closepend app s = closepend_loop app (tcp_active_pcbs s) s"

definition new_pcb :: "u8 \<Rightarrow> u32 \<Rightarrow> u8 \<Rightarrow> tcp_pcb" where
  "new_pcb pr ticks ctr =
     \<lparr>local_ip = ip_addr_any, remote_ip = ip_addr_any, netif_idx = 0, so_options = 0, tos = 0, ttl = TCP_TTL,
      callback_arg = 0, state = CLOSED, prio = pr, local_port = 0, remote_port = 0, flags = 0, polltmr = 0,
      pollinterval = 0, last_timer = ctr, tmr = ticks, rcv_nxt = 0, rcv_wnd = ucast (TCPWND_MIN16 TCP_WND),
      rcv_ann_wnd = ucast (TCPWND_MIN16 TCP_WND), rcv_ann_right_edge = 0, rcv_sacks = replicate 4 (0, 0),
      rtime = -1, mss = INITIAL_MSS, rttest = 0, rtseq = 0, sa = 0, sv = 6, rto = 6, nrtx = 0, dupacks = 0,
      lastack = 0, cwnd = 1, ssthresh = TCP_SND_BUF, rto_end = 0, snd_nxt = 0, snd_wl1 = 0, snd_wl2 = 0,
      snd_lbb = 0, snd_wnd = 0, snd_wnd_max = 0, snd_buf = TCP_SND_BUF, snd_queuelen = 0, unsent_oversize = 0,
      bytes_acked = 0, unsent = [], unacked = [], ooseq = [], refused_data = None, listener = None,
      cb_sent = None, cb_recv = Some 0, cb_connected = None, cb_poll = None, cb_errf = None,
      keep_idle = TCP_KEEPIDLE_DEFAULT, persist_cnt = 0, persist_backoff = 0, persist_probe = 0,
      keep_cnt_sent = 0, snd_scale = 0, rcv_scale = 0\<rparr>"

definition pcb_malloc :: "'w tcp_app \<Rightarrow> 'w tcp_st \<Rightarrow> 'w tcp_st \<times> nat option" where
  "pcb_malloc app s = (case ap_pcb_alloc app s of (w, r) \<Rightarrow> (s\<lparr>st_w := w\<rparr>, r))"

text \<open>What is given up for a new connection, one step after the other until there is memory.\<close>

fun alloc_tries :: "'w tcp_app \<Rightarrow> ('w tcp_st \<Rightarrow> 'w tcp_st option) list \<Rightarrow> 'w tcp_st \<Rightarrow> ('w tcp_st \<times> nat option) option" where
  "alloc_tries app [] s = Some (pcb_malloc app s)"
| "alloc_tries app (f # fs) s =
     (case pcb_malloc app s of
        (s, Some p) \<Rightarrow> Some (s, Some p)
      | (s, None) \<Rightarrow> do { s \<leftarrow> f s; alloc_tries app fs s })"

definition tcp_alloc :: "'w tcp_app \<Rightarrow> u8 \<Rightarrow> 'w tcp_st \<Rightarrow> ('w tcp_st \<times> nat option) option" where
  "tcp_alloc app pr s = do {
     (s, r) \<leftarrow> alloc_tries app
        [\<lambda>s. do { s \<leftarrow> tcp_handle_closepend app s; tcp_kill_timewait app s },
         tcp_kill_state app LAST_ACK, tcp_kill_state app CLOSING, tcp_kill_prio app pr] s;
     Some (case r of Some p \<Rightarrow> put_pcb p (new_pcb pr (tcp_ticks s) (tcp_timer_ctr s)) s | None \<Rightarrow> s, r) }"

definition tcp_new :: "'w tcp_app \<Rightarrow> 'w tcp_st \<Rightarrow> ('w tcp_st \<times> nat option) option" where
  "tcp_new app s = tcp_alloc app TCP_PRIO_NORMAL s"

definition tcp_new_ip_type :: "'w tcp_app \<Rightarrow> u8 \<Rightarrow> 'w tcp_st \<Rightarrow> ('w tcp_st \<times> nat option) option" where
  "tcp_new_ip_type app ty s = do {
     (s, r) \<leftarrow> tcp_alloc app TCP_PRIO_NORMAL s;
     (case r of
        Some p \<Rightarrow> do {
          s \<leftarrow> upd_pcb (\<lambda>b. b\<lparr>local_ip := (local_ip b)\<lparr>ip_type := ty\<rparr>,
                            remote_ip := (remote_ip b)\<lparr>ip_type := ty\<rparr>\<rparr>) p s;
          Some (s, r) }
      | None \<Rightarrow> Some (s, r)) }"

section \<open>Settings\<close>

definition upd_nonlisten :: "(tcp_pcb \<Rightarrow> tcp_pcb) \<Rightarrow> nat option \<Rightarrow> 'w tcp_st \<Rightarrow> 'w tcp_st option" where
  "upd_nonlisten f p s =
     (case p of
        None \<Rightarrow> Some s
      | Some p \<Rightarrow> do { c \<leftarrow> cbs s p; LWIP_ASSERT (cb_state c \<noteq> LISTEN); upd_pcb f p s })"

definition tcp_arg :: "nat option \<Rightarrow> nat \<Rightarrow> 'w tcp_st \<Rightarrow> 'w tcp_st option" where
  "tcp_arg p arg s =
     (case p of
        None \<Rightarrow> Some s
      | Some p \<Rightarrow> do {
          c \<leftarrow> cbs s p;
          Some (case c of Conn b \<Rightarrow> put_pcb p (b\<lparr>callback_arg := arg\<rparr>) s
                | Lst l \<Rightarrow> put_lpcb p (l\<lparr>l_callback_arg := arg\<rparr>) s) })"

definition tcp_recv :: "nat option \<Rightarrow> nat option \<Rightarrow> 'w tcp_st \<Rightarrow> 'w tcp_st option" where
  "tcp_recv p f s = upd_nonlisten (\<lambda>b. b\<lparr>cb_recv := f\<rparr>) p s"

definition tcp_sent :: "nat option \<Rightarrow> nat option \<Rightarrow> 'w tcp_st \<Rightarrow> 'w tcp_st option" where
  "tcp_sent p f s = upd_nonlisten (\<lambda>b. b\<lparr>cb_sent := f\<rparr>) p s"

definition tcp_err :: "nat option \<Rightarrow> nat option \<Rightarrow> 'w tcp_st \<Rightarrow> 'w tcp_st option" where
  "tcp_err p f s = upd_nonlisten (\<lambda>b. b\<lparr>cb_errf := f\<rparr>) p s"

definition tcp_poll :: "nat \<Rightarrow> nat option \<Rightarrow> u8 \<Rightarrow> 'w tcp_st \<Rightarrow> 'w tcp_st option" where
  "tcp_poll p f interval s = upd_nonlisten (\<lambda>b. b\<lparr>cb_poll := f, pollinterval := interval\<rparr>) (Some p) s"

definition tcp_accept :: "nat option \<Rightarrow> nat option \<Rightarrow> 'w tcp_st \<Rightarrow> 'w tcp_st option" where
  "tcp_accept p f s =
     (case p of
        None \<Rightarrow> Some s
      | Some p \<Rightarrow> do {
          c \<leftarrow> cbs s p;
          Some (case c of Lst l \<Rightarrow> put_lpcb p (l\<lparr>l_accept := f\<rparr>) s | Conn b \<Rightarrow> s) })"

definition tcp_setprio :: "nat \<Rightarrow> u8 \<Rightarrow> 'w tcp_st \<Rightarrow> 'w tcp_st option" where
  "tcp_setprio p pr s = do {
     c \<leftarrow> cbs s p;
     Some (case c of Conn b \<Rightarrow> put_pcb p (b\<lparr>prio := pr\<rparr>) s | Lst l \<Rightarrow> put_lpcb p (l\<lparr>l_prio := pr\<rparr>) s) }"

definition tcp_tcp_get_tcp_addrinfo :: "nat option \<Rightarrow> bool \<Rightarrow> 'w tcp_st \<Rightarrow> ((ip_addr_t \<times> u16) option \<times> err_t) option" where
  "tcp_tcp_get_tcp_addrinfo p local s =
     (case p of
        None \<Rightarrow> Some (None, ERR_VAL)
      | Some p \<Rightarrow> do {
          b \<leftarrow> get_pcb s p;
          Some (Some (if local then (local_ip b, local_port b) else (remote_ip b, remote_port b)), ERR_OK) })"

section \<open>Change of an interface's address\<close>

text \<open>The \<^verbatim>\<open>next\<close> pointer of a block: its successor on the list it is on.\<close>

definition succ_in :: "nat list \<Rightarrow> nat \<Rightarrow> nat option" where
  "succ_in ps p = (case dropWhile (\<lambda>q. q \<noteq> p) ps of _ # q # _ \<Rightarrow> Some q | _ \<Rightarrow> None)"

definition pcb_next :: "'w tcp_st \<Rightarrow> nat \<Rightarrow> nat option" where
  "pcb_next s p =
     (case find (\<lambda>l. p \<in> set (the_list l s)) tcp_pcb_lists of Some l \<Rightarrow> succ_in (the_list l s) p | None \<Rightarrow> None)"

text \<open>The successor is read before the abort, whose callback may free it: then the next access
  fails.\<close>

partial_function (option) addr_changed_loop ::
    "'w tcp_app \<Rightarrow> ip_addr_t \<Rightarrow> nat option \<Rightarrow> 'w tcp_st \<Rightarrow> 'w tcp_st option" where
  "addr_changed_loop app old pos s =
     (case pos of
        None \<Rightarrow> Some s
      | Some p \<Rightarrow> Option.bind (get_pcb s p) (\<lambda>b.
          let nxt = pcb_next s p in
          if ip_addr_cmp (local_ip b) old
          then Option.bind (tcp_abort app p s) (addr_changed_loop app old nxt)
          else addr_changed_loop app old nxt s))"

definition tcp_netif_ip_addr_changed_pcblist ::
    "'w tcp_app \<Rightarrow> ip_addr_t \<Rightarrow> pcb_list \<Rightarrow> 'w tcp_st \<Rightarrow> 'w tcp_st option" where
  "tcp_netif_ip_addr_changed_pcblist app old which s =
     addr_changed_loop app old (case the_list which s of [] \<Rightarrow> None | p # _ \<Rightarrow> Some p) s"

fun listen_addr_loop :: "ip_addr_t \<Rightarrow> ip_addr_t \<Rightarrow> nat list \<Rightarrow> 'w tcp_st \<Rightarrow> 'w tcp_st option" where
  "listen_addr_loop old new [] s = Some s"
| "listen_addr_loop old new (p # ps) s = do {
     l \<leftarrow> get_lpcb s p;
     listen_addr_loop old new ps
       (if ip_addr_cmp (l_local_ip l) old then put_lpcb p (l\<lparr>l_local_ip := ip_addr_copy new\<rparr>) s else s) }"

definition tcp_netif_ip_addr_changed ::
    "'w tcp_app \<Rightarrow> ip_addr_t \<Rightarrow> ip_addr_t option \<Rightarrow> 'w tcp_st \<Rightarrow> 'w tcp_st option" where
  "tcp_netif_ip_addr_changed app old new s =
     (if ip_addr_isany old then Some s
      else do {
        s \<leftarrow> tcp_netif_ip_addr_changed_pcblist app old Active s;
        s \<leftarrow> tcp_netif_ip_addr_changed_pcblist app old Bound s;
        (case new of
           None \<Rightarrow> Some s
         | Some a \<Rightarrow> (if ip_addr_isany a then Some s else listen_addr_loop old a (tcp_listen_pcbs s) s)) })"

end
