(* ===== verification/Tcp_tmr.thy ===== *)
theory Tcp_tmr imports Tcp_conn begin

text \<open>
  TCP's timers, \<^verbatim>\<open>tcp.c\<close>: the slow timer (retransmission, persist, keep alive, expiry of
  half-open and closing connections, polling), the fast timer (delayed acknowledgements, pending
  FIN, refused data) and the timer of \<^verbatim>\<open>timeouts.c\<close> that drives both.

  The loops over the active list follow the code's pointers: the position, the predecessor, and the
  restart from the head when a callback has changed the list. They are partial functions, \<open>None\<close>
  also stands for a loop that never ends.
\<close>

section \<open>Timers of one connection\<close>

definition tcp_backoff :: "nat list" where
  "tcp_backoff = [1, 2, 3, 4, 5, 6, 7, 7, 7, 7, 7, 7, 7]"

definition tcp_persist_backoff :: "u8 list" where
  "tcp_persist_backoff = [3, 6, 12, 24, 48, 96, 120]"

definition TCP_FIN_WAIT_TIMEOUT :: nat where "TCP_FIN_WAIT_TIMEOUT = 20000"
definition TCP_SYN_RCVD_TIMEOUT :: nat where "TCP_SYN_RCVD_TIMEOUT = 20000"
definition TCP_MSL :: nat where "TCP_MSL = 60000"
definition TCP_OOSEQ_TIMEOUT :: u32 where "TCP_OOSEQ_TIMEOUT = 6"
definition TCP_KEEP_DUR :: nat where "TCP_KEEP_DUR = 9 * 75000"
definition TCP_KEEP_INTVL :: nat where "TCP_KEEP_INTVL = 75000"

text \<open>The probe or the split segment of one persist period: whether the next slot is taken.\<close>

definition persist_send ::
    "'w tcp_env \<Rightarrow> u32 \<Rightarrow> bool \<Rightarrow> tcp_pcb \<Rightarrow> 'w \<Rightarrow> ('w \<times> tcp_pcb \<times> bool) option" where
  "persist_send e ticks in_input b w =
     (if snd_wnd b = 0
      then (case tcp_zero_window_probe e b w of (w, b, err) \<Rightarrow> Some (w, b, err = ERR_OK))
      else do {
        (w, b, err) \<leftarrow> tcp_split_unsent_seg e b (ucast (snd_wnd b)) w;
        (if err = ERR_OK then do {
           (w, b, err) \<leftarrow> tcp_output e ticks in_input b w;
           Some (w, b, err \<noteq> ERR_OK) }
         else Some (w, b, True)) })"

definition persist_next_slot :: "tcp_pcb \<Rightarrow> tcp_pcb" where
  "persist_next_slot b =
     b\<lparr>persist_cnt := 0,
       persist_backoff := (if unat (persist_backoff b) < length tcp_persist_backoff
                           then persist_backoff b + 1 else persist_backoff b)\<rparr>"

definition slow_persist ::
    "'w tcp_env \<Rightarrow> u32 \<Rightarrow> bool \<Rightarrow> tcp_pcb \<Rightarrow> 'w \<Rightarrow> ('w \<times> tcp_pcb \<times> bool) option" where
  "slow_persist e ticks in_input b w = do {
     LWIP_ASSERT (unacked b = []);
     LWIP_ASSERT (unsent b \<noteq> []);
     (if persist_probe b \<ge> TCP_MAXRTX then Some (w, b, True)
      else do {
        backoff_cnt \<leftarrow> nth_byte tcp_persist_backoff (unat (persist_backoff b) - 1);
        let b = (if persist_cnt b < backoff_cnt then b\<lparr>persist_cnt := persist_cnt b + 1\<rparr> else b);
        (if persist_cnt b \<ge> backoff_cnt then do {
           (w, b, next_slot) \<leftarrow> persist_send e ticks in_input b w;
           Some (w, if next_slot then persist_next_slot b else b, False) }
         else Some (w, b, False)) }) }"

definition rto_backoff :: "tcp_pcb \<Rightarrow> tcp_pcb" where
  "rto_backoff b =
     (if state b \<noteq> SYN_SENT
      then let i = min (unat (nrtx b)) (length tcp_backoff - 1);
               calc_rto = (sa b div 8 + sv b) * 2 ^ (tcp_backoff ! i)
           in b\<lparr>rto := to_s16 (min calc_rto 0x7FFF)\<rparr>
      else b)"

definition rto_congestion :: "tcp_pcb \<Rightarrow> tcp_pcb" where
  "rto_congestion b =
     (let eff_wnd = min (cwnd b) (snd_wnd b);
          thresh = drop_bit 1 eff_wnd;
          mss2 = push_bit 1 (ucast (mss b) :: u32)
      in b\<lparr>rtime := 0, ssthresh := (if thresh < mss2 then mss2 else thresh), cwnd := ucast (mss b),
           bytes_acked := 0\<rparr>)"

definition slow_rexmit ::
    "'w tcp_env \<Rightarrow> u32 \<Rightarrow> bool \<Rightarrow> tcp_pcb \<Rightarrow> 'w \<Rightarrow> ('w \<times> tcp_pcb) option" where
  "slow_rexmit e ticks in_input b w =
     (let b = (if 0 \<le> rtime b \<and> rtime b < 0x7FFF then b\<lparr>rtime := rtime b + 1\<rparr> else b) in
      if rtime b \<ge> rto b
      then (case tcp_rexmit_rto_prepare e b w of (b, err) \<Rightarrow>
              if err = ERR_OK \<or> unacked b = [] \<and> unsent b \<noteq> []
              then tcp_rexmit_rto_commit e ticks in_input (rto_congestion (rto_backoff b)) w
              else Some (w, b))
      else Some (w, b))"

definition slow_send ::
    "'w tcp_env \<Rightarrow> u32 \<Rightarrow> bool \<Rightarrow> tcp_pcb \<Rightarrow> 'w \<Rightarrow> ('w \<times> tcp_pcb \<times> bool) option" where
  "slow_send e ticks in_input b w =
     (if state b = SYN_SENT \<and> nrtx b \<ge> TCP_SYNMAXRTX \<or> nrtx b \<ge> TCP_MAXRTX then Some (w, b, True)
      else if persist_backoff b > 0 then slow_persist e ticks in_input b w
      else do { (w, b) \<leftarrow> slow_rexmit e ticks in_input b w; Some (w, b, False) })"

text \<open>How long the connection has been inactive, in ticks.\<close>

definition idle :: "u32 \<Rightarrow> tcp_pcb \<Rightarrow> nat" where
  "idle ticks b = unat (ticks - tmr b)"

definition slow_keepalive ::
    "'w tcp_env \<Rightarrow> u32 \<Rightarrow> tcp_pcb \<Rightarrow> 'w \<Rightarrow> 'w \<times> tcp_pcb \<times> bool" where
  "slow_keepalive e ticks b w =
     (if has (so_options b) SOF_KEEPALIVE \<and> (state b = ESTABLISHED \<or> state b = CLOSE_WAIT)
      then if idle ticks b > (unat (keep_idle b) + TCP_KEEP_DUR) div TCP_SLOW_INTERVAL then (w, b, True)
      else if idle ticks b > (unat (keep_idle b) + unat (keep_cnt_sent b) * TCP_KEEP_INTVL) div TCP_SLOW_INTERVAL
      then (case tcp_keepalive e b w of (w, b, err) \<Rightarrow>
              (w, if err = ERR_OK then b\<lparr>keep_cnt_sent := keep_cnt_sent b + 1\<rparr> else b, False))
      else (w, b, False)
      else (w, b, False))"

definition slow_ooseq :: "u32 \<Rightarrow> tcp_pcb \<Rightarrow> tcp_pcb" where
  "slow_ooseq ticks b =
     (if ooseq b \<noteq> [] \<and> ticks - tmr b \<ge> word_of_int (rto b) * TCP_OOSEQ_TIMEOUT then tcp_free_ooseq b else b)"

definition slow_expired :: "u32 \<Rightarrow> tcp_pcb \<Rightarrow> bool" where
  "slow_expired ticks b \<longleftrightarrow>
     state b = FIN_WAIT_2 \<and> has (flags b) TF_RXCLOSED \<and> idle ticks b > TCP_FIN_WAIT_TIMEOUT div TCP_SLOW_INTERVAL \<or>
     state b = SYN_RCVD \<and> idle ticks b > TCP_SYN_RCVD_TIMEOUT div TCP_SLOW_INTERVAL \<or>
     state b = LAST_ACK \<and> idle ticks b > 2 * TCP_MSL div TCP_SLOW_INTERVAL"

text \<open>The whole of it: whether the block is to be removed, and whether with a RST.\<close>

definition slow_pcb ::
    "'w tcp_env \<Rightarrow> u32 \<Rightarrow> bool \<Rightarrow> tcp_pcb \<Rightarrow> 'w \<Rightarrow> ('w \<times> tcp_pcb \<times> bool \<times> bool) option" where
  "slow_pcb e ticks in_input b w = do {
     (w, b, rm1) \<leftarrow> slow_send e ticks in_input b w;
     let (w, b, rst) = slow_keepalive e ticks b w;
     let b = slow_ooseq ticks b;
     Some (w, b, rm1 \<or> rst \<or> slow_expired ticks b, rst) }"

section \<open>The slow timer\<close>

text \<open>\<^verbatim>\<open>prev->next = pcb->next\<close>, or the new head.\<close>

definition unlink_after :: "pcb_list \<Rightarrow> nat option \<Rightarrow> nat \<Rightarrow> 'w tcp_st \<Rightarrow> 'w tcp_st option" where
  "unlink_after which prev p s = do {
     LWIP_ASSERT (case prev of
         Some q \<Rightarrow> succ_in (the_list which s) q = Some p
       | None \<Rightarrow> the_list which s \<noteq> [] \<and> hd (the_list which s) = p);
     Some (upd_list which (remove1 p) s) }"

definition slow_remove ::
    "'w tcp_app \<Rightarrow> nat option \<Rightarrow> nat \<Rightarrow> bool \<Rightarrow> 'w tcp_st \<Rightarrow> 'w tcp_st option" where
  "slow_remove app prev p reset s = do {
     s \<leftarrow> upd_pcb tcp_pcb_purge p s;
     s \<leftarrow> unlink_after Active prev p s;
     b \<leftarrow> get_pcb s p;
     let s = (if reset then st_rst app b (local_port b) s else s);
     s \<leftarrow> tcp_free p s;
     TCP_EVENT_ERR app (cb_errf b) (callback_arg b) ERR_ABRT (s\<lparr>tcp_active_pcbs_changed := False\<rparr>) }"

text \<open>Polling: \<open>None\<close> in the second component when the block was not due.\<close>

definition slow_poll :: "'w tcp_app \<Rightarrow> nat \<Rightarrow> 'w tcp_st \<Rightarrow> ('w tcp_st \<times> err_t option) option" where
  "slow_poll app p s = do {
     b \<leftarrow> get_pcb s p;
     let b = b\<lparr>polltmr := polltmr b + 1\<rparr>;
     (if polltmr b \<ge> pollinterval b then do {
        let s = (put_pcb p (b\<lparr>polltmr := 0\<rparr>) s)\<lparr>tcp_active_pcbs_changed := False\<rparr>;
        (s, err) \<leftarrow> TCP_EVENT_POLL app p s;
        Some (s, Some err) }
      else Some (put_pcb p b s, None)) }"

definition list_head :: "nat list \<Rightarrow> nat option" where
  "list_head ps = (case ps of [] \<Rightarrow> None | p # _ \<Rightarrow> Some p)"

text \<open>What is done with one block: the new state and whether the loop starts again. The
  flag is looked at only after a callback.\<close>

definition slow_step ::
    "'w tcp_app \<Rightarrow> nat option \<Rightarrow> nat \<Rightarrow> 'w tcp_st \<Rightarrow> ('w tcp_st \<times> nat option \<times> nat option \<times> bool) option" where
  "slow_step app prev p s = do {
     b \<leftarrow> get_pcb s p;
     LWIP_ASSERT (state b \<noteq> CLOSED \<and> state b \<noteq> LISTEN \<and> state b \<noteq> TIME_WAIT);
     (if last_timer b = tcp_timer_ctr s then Some (s, Some p, pcb_next s p, False)
      else do {
        (w, b, rm, rst) \<leftarrow> slow_pcb (ap_env app) (tcp_ticks s) (tcp_input_pcb s = Some p)
                             (b\<lparr>last_timer := tcp_timer_ctr s\<rparr>) (st_w s);
        let s = put_pcb p b (s\<lparr>st_w := w\<rparr>);
        let nxt = pcb_next s p;
        (if rm then do {
           s \<leftarrow> slow_remove app prev p rst s;
           Some (s, prev, nxt, tcp_active_pcbs_changed s) }
         else do {
           (s, polled) \<leftarrow> slow_poll app p s;
           (case polled of
              None \<Rightarrow> Some (s, Some p, nxt, False)
            | Some err \<Rightarrow>
                (if tcp_active_pcbs_changed s then Some (s, Some p, nxt, True)
                 else if err = ERR_OK then do { (s, err) \<leftarrow> st_output app p s; Some (s, Some p, nxt, False) }
                 else Some (s, Some p, nxt, False))) }) }) }"

partial_function (option) slow_active_loop ::
    "'w tcp_app \<Rightarrow> nat option \<Rightarrow> nat option \<Rightarrow> 'w tcp_st \<Rightarrow> 'w tcp_st option" where
  "slow_active_loop app prev pos s =
     (case pos of
        None \<Rightarrow> Some s
      | Some p \<Rightarrow> Option.bind (slow_step app prev p s) (\<lambda>(s, prev, nxt, again).
          if again then slow_active_loop app None (list_head (tcp_active_pcbs s)) s
          else slow_active_loop app prev nxt s))"

text \<open>The blocks in TIME-WAIT; there are no callbacks.\<close>

fun slow_tw_loop :: "nat option \<Rightarrow> nat list \<Rightarrow> 'w tcp_st \<Rightarrow> 'w tcp_st option" where
  "slow_tw_loop prev [] s = Some s"
| "slow_tw_loop prev (p # ps) s = do {
     b \<leftarrow> get_pcb s p;
     LWIP_ASSERT (state b = TIME_WAIT);
     (if idle (tcp_ticks s) b > 2 * TCP_MSL div TCP_SLOW_INTERVAL then do {
        s \<leftarrow> upd_pcb tcp_pcb_purge p s;
        s \<leftarrow> unlink_after Tw prev p s;
        s \<leftarrow> tcp_free p s;
        slow_tw_loop prev ps s }
      else slow_tw_loop (Some p) ps s) }"

definition tcp_slowtmr :: "'w tcp_app \<Rightarrow> 'w tcp_st \<Rightarrow> 'w tcp_st option" where
  "tcp_slowtmr app s = do {
     let s = s\<lparr>tcp_ticks := tcp_ticks s + 1, tcp_timer_ctr := tcp_timer_ctr s + 1\<rparr>;
     s \<leftarrow> slow_active_loop app None (list_head (tcp_active_pcbs s)) s;
     slow_tw_loop None (tcp_tw_pcbs s) s }"

section \<open>The fast timer\<close>

text \<open>Data the application has refused is offered again, in pieces of at most 64 K. The FIN goes
  with the last piece.\<close>

partial_function (option) tcp_process_refused_data ::
    "'w tcp_app \<Rightarrow> nat \<Rightarrow> 'w tcp_st \<Rightarrow> ('w tcp_st \<times> err_t) option" where
  "tcp_process_refused_data app p s =
     Option.bind (get_pcb s p) (\<lambda>b.
       case refused_data b of
         None \<Rightarrow> Some (s, ERR_OK)
       | Some (d, fin) \<Rightarrow>
           (let n = ap_split_64k app d;
                rest = (if drop n d = [] then None else Some (drop n d, fin))
            in Option.bind (TCP_EVENT_RECV app p (Some (take n d)) ERR_OK (put_pcb p (b\<lparr>refused_data := rest\<rparr>) s))
                 (\<lambda>(s, err).
                    if err = ERR_OK then
                      (if fin \<and> rest = None
                       then Option.bind (upd_pcb (\<lambda>b. if rcv_wnd b \<noteq> TCP_WND_MAX b then b\<lparr>rcv_wnd := rcv_wnd b + 1\<rparr> else b) p s)
                              (\<lambda>s. Option.bind (TCP_EVENT_CLOSED app p s) (\<lambda>(s, err).
                                 if err = ERR_ABRT then Some (s, ERR_ABRT) else tcp_process_refused_data app p s))
                       else tcp_process_refused_data app p s)
                    else if err = ERR_ABRT then Some (s, ERR_ABRT)
                    else Option.bind (upd_pcb (\<lambda>b. b\<lparr>refused_data := Some (d, fin)\<rparr>) p s)
                           (\<lambda>s. Some (s, ERR_INPROGRESS)))))"

text \<open>One block of the fast timer: the new state, the next position, and whether the loop
  starts again.\<close>

definition fast_ack :: "'w tcp_app \<Rightarrow> nat \<Rightarrow> 'w tcp_st \<Rightarrow> 'w tcp_st option" where
  "fast_ack app p s = do {
     b \<leftarrow> get_pcb s p;
     (if has (flags b) TF_ACK_DELAY then do {
        (s, err) \<leftarrow> st_output app p (put_pcb p (tcp_ack_now b) s);
        upd_pcb (\<lambda>b. tcp_clear_flags b (TF_ACK_DELAY OR TF_ACK_NOW)) p s }
      else Some s) }"

definition fast_fin :: "'w tcp_app \<Rightarrow> nat \<Rightarrow> 'w tcp_st \<Rightarrow> 'w tcp_st option" where
  "fast_fin app p s = do {
     b \<leftarrow> get_pcb s p;
     (if has (flags b) TF_CLOSEPEND then do {
        (s, err) \<leftarrow> tcp_close_shutdown_fin app p (put_pcb p (tcp_clear_flags b TF_CLOSEPEND) s);
        Some s }
      else Some s) }"

definition fast_step :: "'w tcp_app \<Rightarrow> nat \<Rightarrow> 'w tcp_st \<Rightarrow> ('w tcp_st \<times> nat option \<times> bool) option" where
  "fast_step app p s = do {
     b \<leftarrow> get_pcb s p;
     (if last_timer b = tcp_timer_ctr s then Some (s, pcb_next s p, False)
      else do {
        s \<leftarrow> upd_pcb (\<lambda>b. b\<lparr>last_timer := tcp_timer_ctr s\<rparr>) p s;
        s \<leftarrow> fast_ack app p s;
        s \<leftarrow> fast_fin app p s;
        let nxt = pcb_next s p;
        b \<leftarrow> get_pcb s p;
        (if refused_data b \<noteq> None then do {
           (s, err) \<leftarrow> tcp_process_refused_data app p (s\<lparr>tcp_active_pcbs_changed := False\<rparr>);
           Some (s, nxt, tcp_active_pcbs_changed s) }
         else Some (s, nxt, False)) }) }"

partial_function (option) fast_loop :: "'w tcp_app \<Rightarrow> nat option \<Rightarrow> 'w tcp_st \<Rightarrow> 'w tcp_st option" where
  "fast_loop app pos s =
     (case pos of
        None \<Rightarrow> Some s
      | Some p \<Rightarrow> Option.bind (fast_step app p s) (\<lambda>(s, nxt, again).
          fast_loop app (if again then list_head (tcp_active_pcbs s) else nxt) s))"

definition tcp_fasttmr :: "'w tcp_app \<Rightarrow> 'w tcp_st \<Rightarrow> 'w tcp_st option" where
  "tcp_fasttmr app s =
     (let s = s\<lparr>tcp_timer_ctr := tcp_timer_ctr s + 1\<rparr> in fast_loop app (list_head (tcp_active_pcbs s)) s)"

section \<open>The TCP timer\<close>

definition tcp_tmr :: "'w tcp_app \<Rightarrow> 'w tcp_st \<Rightarrow> 'w tcp_st option" where
  "tcp_tmr app s = do {
     s \<leftarrow> tcp_fasttmr app s;
     let s = s\<lparr>tcp_timer := tcp_timer s + 1\<rparr>;
     (if tcp_timer s AND 1 \<noteq> 0 then tcp_slowtmr app s else Some s) }"

definition tcpip_tcp_timer :: "'w tcp_app \<Rightarrow> 'w tcp_st \<Rightarrow> 'w tcp_st option" where
  "tcpip_tcp_timer app s = do {
     s \<leftarrow> tcp_tmr app s;
     Some (if tcp_active_pcbs s \<noteq> [] \<or> tcp_tw_pcbs s \<noteq> [] then s\<lparr>st_w := ap_sys_timeout app (st_w s)\<rparr>
           else s\<lparr>tcpip_tcp_timer_active := False\<rparr>) }"

fun tcp_txnow_loop :: "'w tcp_app \<Rightarrow> nat list \<Rightarrow> 'w tcp_st \<Rightarrow> 'w tcp_st option" where
  "tcp_txnow_loop app [] s = Some s"
| "tcp_txnow_loop app (p # ps) s = do {
     b \<leftarrow> get_pcb s p;
     s \<leftarrow> (if has (flags b) TF_NAGLEMEMERR then do { (s, err) \<leftarrow> st_output app p s; Some s } else Some s);
     tcp_txnow_loop app ps s }"

definition tcp_txnow :: "'w tcp_app \<Rightarrow> 'w tcp_st \<Rightarrow> 'w tcp_st option" where
  "tcp_txnow app s = tcp_txnow_loop app (tcp_active_pcbs s) s"

end
