(* ===== verification/Tcp_input.thy ===== *)
theory Tcp_input imports Tcp_tmr begin

text \<open>
  Input processing, \<^verbatim>\<open>tcp_in.c\<close>: \<^verbatim>\<open>tcp_input\<close> checks and parses a packet, finds the block
  it belongs to, runs the state machine \<^verbatim>\<open>tcp_process\<close> and tells the application what
  has happened.

  A packet is the list of its buffers' payloads, what the IP layer knows of it are the variables
  \<^verbatim>\<open>ip_data\<close>. The label \<^verbatim>\<open>aborted\<close> is a value: each part of \<^verbatim>\<open>tcp_input\<close> tells
  whether it jumped there.
\<close>

section \<open>Setting up\<close>

definition LWIP_TCP_CALC_INITIAL_CWND :: "u16 \<Rightarrow> u32" where
  "LWIP_TCP_CALC_INITIAL_CWND m = min (4 * ucast m) (max (2 * ucast m) 4380)"

definition tcp_eff_send_mss :: "'w tcp_env \<Rightarrow> 'w \<Rightarrow> u16 \<Rightarrow> ip_addr_t \<Rightarrow> ip_addr_t \<Rightarrow> u16" where
  "tcp_eff_send_mss e w sendmss src dest = tcp_eff_send_mss_netif e w sendmss (te_ip_route e w src dest) dest"

definition TCP_FLAGS :: u16 where "TCP_FLAGS = 0x3f"

definition hdr_field16 :: "u8 list \<Rightarrow> nat \<Rightarrow> u16" where
  "hdr_field16 bs i = lwip_ntohs (ld16 (bs ! i) (bs ! (i + 1)))"

definition hdr_field32 :: "u8 list \<Rightarrow> nat \<Rightarrow> u32" where
  "hdr_field32 bs i = lwip_ntohl (ld32 (bs ! i) (bs ! (i + 1)) (bs ! (i + 2)) (bs ! (i + 3)))"

definition TCPH_HDRLEN_BYTES :: "u8 list \<Rightarrow> u8" where
  "TCPH_HDRLEN_BYTES bs = ucast (push_bit 2 (drop_bit 12 (hdr_field16 bs 12)))"

definition TCPH_FLAGS :: "u8 list \<Rightarrow> u8" where
  "TCPH_FLAGS bs = ucast (hdr_field16 bs 12 AND TCP_FLAGS)"

definition tot_len_of :: "u8 list list \<Rightarrow> u16" where
  "tot_len_of bufs = of_nat (length (concat bufs))"

text \<open>The options and the data behind the header: the options may go on in the second buffer.\<close>

definition input_options :: "u8 list \<Rightarrow> u8 list list \<Rightarrow> u8 \<Rightarrow> (tcp_opts \<times> u8 list) option" where
  "input_options b bs hdrlen =
     (let optlen = ucast hdrlen - of_nat TCP_HLEN in
      if length b \<ge> unat hdrlen
      then Some (\<lparr>op_len = optlen, op_len1 = optlen, op_mem1 = drop TCP_HLEN b, op_mem2 = None\<rparr>,
                 drop (unat hdrlen) b @ concat bs)
      else (case bs of
              [] \<Rightarrow> None
            | c # cs \<Rightarrow>
                let opt1len = length b - TCP_HLEN; opt2len = unat optlen - opt1len in
                if opt2len > length c then None
                else Some (\<lparr>op_len = optlen, op_len1 = of_nat opt1len, op_mem1 = drop TCP_HLEN b, op_mem2 = Some c\<rparr>,
                           drop opt2len c @ concat cs)))"

text \<open>Whatever header a segment has, its options are all in the two buffers.\<close>

lemma input_options_fit:
  assumes "input_options b bs hdrlen = Some (os, d)" and "20 \<le> hdrlen" and "hdrlen \<le> 60" and "20 \<le> length b"
  shows "opts_fit os"
proof -
  have u: "20 \<le> unat hdrlen" "unat hdrlen \<le> 60" using assms(2,3) by (simp_all add: word_le_nat_alt)
  define optlen where "optlen = (ucast hdrlen - of_nat TCP_HLEN :: u16)"
  have l: "unat optlen = unat hdrlen - 20"
    using u by (simp add: optlen_def TCP_HLEN_def unat_sub_le unat_ucast_mod)
  then have le: "optlen \<le> 40" using u by (simp add: word_le_nat_alt)
  note eq = assms(1) [unfolded input_options_def Let_def, folded optlen_def]
  show ?thesis
  proof (cases "length b \<ge> unat hdrlen")
    case True
    then show ?thesis using eq l le u by (auto simp: opts_fit_def opt_mem_def TCP_HLEN_def)
  next
    case False
    then have "unat (of_nat (length b - 20) :: u16) = length b - 20" using u by (simp add: unat_of_nat)
    then show ?thesis using False eq assms(4) l le u
      by (auto simp: opts_fit_def opt_mem_def TCP_HLEN_def split: list.splits if_splits)
  qed
qed

text \<open>\<open>None\<close> is the label \<^verbatim>\<open>dropped\<close>.\<close>

definition tcp_input_parse :: "ip_globals \<Rightarrow> u8 list list \<Rightarrow> tcp_in \<Rightarrow> tcp_in option" where
  "tcp_input_parse g bufs tin =
     (case bufs of
        [] \<Rightarrow> None
      | b # bs \<Rightarrow>
         if length b < TCP_HLEN then None
         else if ip_addr_isbroadcast (current_iphdr_dest g) (current_netif g) \<or>
                 ip_addr_ismulticast (current_iphdr_dest g) then None
         else if NOT (chksum_spec (ip_pseudo_header (current_iphdr_src g) (current_iphdr_dest g) IP_PROTO_TCP
                        (tot_len_of bufs) @ concat bufs)) \<noteq> 0 then None
         else let hdrlen = TCPH_HDRLEN_BYTES b in
         if unat hdrlen < TCP_HLEN \<or> ucast hdrlen > tot_len_of bufs then None
         else (case input_options b bs hdrlen of
              None \<Rightarrow> None
            | Some (os, data) \<Rightarrow>
                let fl = TCPH_FLAGS b;
                    len = of_nat (length data);
                    tcplen = (if has fl (TCP_FIN OR TCP_SYN) then len + 1 else len)
                in if tcplen < len then None
                   else Some (tin\<lparr>g_src := hdr_field16 b 0, g_dest := hdr_field16 b 2, g_seqno := hdr_field32 b 4,
                                  g_ackno := hdr_field32 b 8, g_wnd := hdr_field16 b 14, g_flags := fl,
                                  g_tcplen := tcplen, g_opts := os, in_seqno := hdr_field32 b 4, in_hflags := fl,
                                  in_len := len, in_data := Some data\<rparr>)))"

section \<open>Demultiplexing\<close>

definition netif_mismatch :: "u8 \<Rightarrow> ip_globals \<Rightarrow> bool" where
  "netif_mismatch idx g \<longleftrightarrow> idx \<noteq> NETIF_NO_INDEX \<and> idx \<noteq> netif_get_index (current_input_netif g)"

definition conn_match :: "ip_globals \<Rightarrow> tcp_in \<Rightarrow> tcp_pcb \<Rightarrow> bool" where
  "conn_match g tin b \<longleftrightarrow>
     \<not> netif_mismatch (netif_idx b) g \<and> remote_port b = g_src tin \<and> local_port b = g_dest tin \<and>
     ip_addr_cmp (remote_ip b) (current_iphdr_src g) \<and> ip_addr_cmp (local_ip b) (current_iphdr_dest g)"

fun demux_conn ::
    "(tcp_state \<Rightarrow> bool) \<Rightarrow> ip_globals \<Rightarrow> nat list \<Rightarrow> 'w tcp_st \<Rightarrow> nat option option" where
  "demux_conn ok g [] s = Some None"
| "demux_conn ok g (p # ps) s = do {
     b \<leftarrow> get_pcb s p;
     LWIP_ASSERT (ok (state b));
     if conn_match g (st_in s) b then Some (Some p) else demux_conn ok g ps s }"

text \<open>The comparison of the port is commented out in the code.\<close>

fun demux_listen :: "ip_globals \<Rightarrow> nat list \<Rightarrow> nat option \<Rightarrow> 'w tcp_st \<Rightarrow> nat option option" where
  "demux_listen g [] any s = Some any"
| "demux_listen g (p # ps) any s = do {
     l \<leftarrow> get_lpcb s p;
     (if netif_mismatch (l_netif_idx l) g then demux_listen g ps any s
      else if IP_IS_ANY_TYPE_VAL (l_local_ip l) then demux_listen g ps (Some p) s
      else if pcb_version_match_exact (l_local_ip l) (current_iphdr_dest g)
      then if ip_addr_cmp (l_local_ip l) (current_iphdr_dest g) then Some (Some p)
           else if ip_addr_isany (l_local_ip l) then demux_listen g ps (Some p) s
           else demux_listen g ps any s
      else demux_listen g ps any s) }"

definition to_front :: "nat \<Rightarrow> nat list \<Rightarrow> nat list" where
  "to_front p ps = p # remove1 p ps"

section \<open>A listening block\<close>

text \<open>The reset that answers the current segment.\<close>

definition reply_rst :: "'w tcp_app \<Rightarrow> ip_globals \<Rightarrow> tcp_pcb option \<Rightarrow> 'w tcp_st \<Rightarrow> 'w tcp_st" where
  "reply_rst app g b s =
     (let tin = st_in s in
      s\<lparr>st_w := tcp_rst (ap_env app) b (g_ackno tin) (g_seqno tin + ucast (g_tcplen tin)) (current_iphdr_dest g)
                 (current_iphdr_src g) (g_dest tin) (g_src tin) (st_w s)\<rparr>)"

text \<open>The fields of a listening block that are read through a pointer to a connection's block.\<close>

definition listen_as_pcb :: "tcp_lpcb \<Rightarrow> tcp_pcb" where
  "listen_as_pcb l =
     (new_pcb (l_prio l) 0 0)\<lparr>local_ip := l_local_ip l, remote_ip := l_remote_ip l, netif_idx := l_netif_idx l,
        so_options := l_so_options l, tos := l_tos l, ttl := l_ttl l, state := l_state l, local_port := l_local_port l\<rparr>"

definition passive_open :: "ip_globals \<Rightarrow> tcp_in \<Rightarrow> nat \<Rightarrow> tcp_lpcb \<Rightarrow> u32 \<Rightarrow> tcp_pcb \<Rightarrow> tcp_pcb" where
  "passive_open g tin lp l iss b =
     b\<lparr>local_ip := ip_addr_copy (current_iphdr_dest g), remote_ip := ip_addr_copy (current_iphdr_src g),
       local_port := g_dest tin, remote_port := g_src tin, state := SYN_RCVD, rcv_nxt := g_seqno tin + 1,
       rcv_ann_right_edge := g_seqno tin + 1, snd_wl2 := iss, snd_nxt := iss, lastack := iss, snd_lbb := iss,
       snd_wl1 := g_seqno tin - 1, callback_arg := l_callback_arg l, listener := Some lp,
       so_options := l_so_options l AND SOF_INHERITED, netif_idx := l_netif_idx l\<rparr>"

definition passive_syn :: "'w tcp_app \<Rightarrow> nat \<Rightarrow> 'w tcp_st \<Rightarrow> 'w tcp_st option" where
  "passive_syn app p s = do {
     let e = ap_env app;
     let tin = st_in s;
     b \<leftarrow> get_pcb s p;
     b \<leftarrow> tcp_parseopt (g_opts tin) (g_flags tin) b;
     let b = b\<lparr>snd_wnd := ucast (g_wnd tin), snd_wnd_max := ucast (g_wnd tin),
               mss := tcp_eff_send_mss e (st_w s) (mss b) (local_ip b) (remote_ip b)\<rparr>;
     (w, b, rc) \<leftarrow> tcp_enqueue_flags e b (TCP_SYN OR TCP_ACK) (st_w s);
     let s = put_pcb p b (s\<lparr>st_w := w\<rparr>);
     (if rc \<noteq> ERR_OK then tcp_abandon app p False s
      else do { (s, err) \<leftarrow> st_output app p s; Some s }) }"

definition tcp_listen_input :: "'w tcp_app \<Rightarrow> ip_globals \<Rightarrow> nat \<Rightarrow> 'w tcp_st \<Rightarrow> 'w tcp_st option" where
  "tcp_listen_input app g lp s = do {
     l \<leftarrow> get_lpcb s lp;
     let fl = g_flags (st_in s);
     (if has fl TCP_RST then Some s
      else if has fl TCP_ACK then Some (reply_rst app g (Some (listen_as_pcb l)) s)
      else if has fl TCP_SYN then do {
        (s, np) \<leftarrow> tcp_alloc app (l_prio l) s;
        l \<leftarrow> get_lpcb s lp;
        (case np of
           None \<Rightarrow> do { (s, err) \<leftarrow> TCP_EVENT_ACCEPT app lp None (l_callback_arg l) ERR_MEM s; Some s }
         | Some p \<Rightarrow> do {
             let (s, iss) = tcp_next_iss s;
             s \<leftarrow> upd_pcb (passive_open g (st_in s) lp l iss) p s;
             s \<leftarrow> TCP_REG_ACTIVE app p s;
             passive_syn app p s }) }
      else Some s) }"

section \<open>A block in TIME-WAIT\<close>

definition tcp_timewait_input :: "'w tcp_app \<Rightarrow> ip_globals \<Rightarrow> nat \<Rightarrow> 'w tcp_st \<Rightarrow> 'w tcp_st option" where
  "tcp_timewait_input app g p s = do {
     b \<leftarrow> get_pcb s p;
     let tin = st_in s;
     (if has (g_flags tin) TCP_RST then Some s
      else if has (g_flags tin) TCP_SYN \<and> TCP_SEQ_BETWEEN (g_seqno tin) (rcv_nxt b) (rcv_nxt b + rcv_wnd b)
      then Some (reply_rst app g (Some b) s)
      else do {
        let b = (if \<not> has (g_flags tin) TCP_SYN \<and> has (g_flags tin) TCP_FIN then b\<lparr>tmr := tcp_ticks s\<rparr> else b);
        (if g_tcplen tin > 0
         then do { (s, err) \<leftarrow> st_output app p (put_pcb p (tcp_ack_now b) s); Some s }
         else Some (put_pcb p b s)) }) }"

section \<open>The state machine\<close>

definition set_recv_flags :: "u8 \<Rightarrow> 'w tcp_st \<Rightarrow> 'w tcp_st" where
  "set_recv_flags f s = s\<lparr>st_in := (st_in s)\<lparr>recv_flags := recv_flags (st_in s) OR f\<rparr>\<rparr>"

definition process_rst :: "nat \<Rightarrow> 'w tcp_st \<Rightarrow> ('w tcp_st \<times> err_t) option" where
  "process_rst p s = do {
     b \<leftarrow> get_pcb s p;
     let tin = st_in s;
     let acceptable = (if state b = SYN_SENT then g_ackno tin = snd_nxt b else g_seqno tin = rcv_nxt b);
     (if acceptable then do {
        LWIP_ASSERT (state b \<noteq> CLOSED);
        Some (put_pcb p (tcp_clear_flags b TF_ACK_DELAY) (set_recv_flags TF_RESET s), ERR_RST) }
      else if state b \<noteq> SYN_SENT \<and> TCP_SEQ_BETWEEN (g_seqno tin) (rcv_nxt b) (rcv_nxt b + rcv_wnd b)
      then Some (put_pcb p (tcp_ack_now b) s, ERR_OK)
      else Some (s, ERR_OK)) }"

text \<open>The SYN has been acknowledged: its segment is taken from \<^verbatim>\<open>unacked\<close>, or from \<^verbatim>\<open>unsent\<close>
  after a failed retransmission.\<close>

definition syn_acked :: "tcp_pcb \<Rightarrow> tcp_pcb option" where
  "syn_acked b = do {
     LWIP_ASSERT (snd_queuelen b > 0);
     LWIP_ASSERT (unacked b \<noteq> [] \<or> unsent b \<noteq> []);
     let b = b\<lparr>snd_queuelen := snd_queuelen b - 1\<rparr>;
     let b = (if unacked b = [] then b\<lparr>unsent := tl (unsent b)\<rparr> else b\<lparr>unacked := tl (unacked b)\<rparr>);
     Some (if unacked b = [] then b\<lparr>rtime := -1\<rparr> else b\<lparr>rtime := 0, nrtx := 0\<rparr>) }"

definition process_syn_sent ::
    "'w tcp_app \<Rightarrow> ip_globals \<Rightarrow> nat \<Rightarrow> tcp_pcb \<Rightarrow> 'w tcp_st \<Rightarrow> ('w tcp_st \<times> err_t) option" where
  "process_syn_sent app g p b s =
     (let tin = st_in s; e = ap_env app in
      if has (g_flags tin) TCP_ACK \<and> has (g_flags tin) TCP_SYN \<and> g_ackno tin = lastack b + 1
      then do {
        let m = tcp_eff_send_mss e (st_w s) (mss b) (local_ip b) (remote_ip b);
        b \<leftarrow> syn_acked
           (b\<lparr>rcv_nxt := g_seqno tin + 1, rcv_ann_right_edge := g_seqno tin + 1, lastack := g_ackno tin,
              snd_wnd := ucast (g_wnd tin), snd_wnd_max := ucast (g_wnd tin), snd_wl1 := g_seqno tin - 1,
              state := ESTABLISHED, mss := m, cwnd := LWIP_TCP_CALC_INITIAL_CWND m\<rparr>);
        (s, err) \<leftarrow> TCP_EVENT_CONNECTED app p ERR_OK (put_pcb p b s);
        (if err = ERR_ABRT then Some (s, ERR_ABRT)
         else do { s \<leftarrow> upd_pcb tcp_ack_now p s; Some (s, ERR_OK) }) }
      else if has (g_flags tin) TCP_ACK
      then do {
        let s = reply_rst app g (Some b) s;
        (if nrtx b < TCP_SYNMAXRTX then do {
           (w, b) \<leftarrow> tcp_rexmit_rto e (tcp_ticks s) (tcp_input_pcb s = Some p) (b\<lparr>rtime := 0\<rparr>) (st_w s);
           Some (put_pcb p b (s\<lparr>st_w := w\<rparr>), ERR_OK) }
         else Some (s, ERR_OK)) }
      else Some (s, ERR_OK))"

definition st_receive :: "'w tcp_app \<Rightarrow> ip_globals \<Rightarrow> nat \<Rightarrow> 'w tcp_st \<Rightarrow> 'w tcp_st option" where
  "st_receive app g p s = do {
     b \<leftarrow> get_pcb s p;
     (w, b, tin) \<leftarrow> tcp_receive (ap_env app) (tcp_ticks s) (ip_current_is_v6 g) b (st_in s) (st_w s);
     Some (put_pcb p b (s\<lparr>st_w := w, st_in := tin\<rparr>)) }"

definition process_syn_rcvd ::
    "'w tcp_app \<Rightarrow> ip_globals \<Rightarrow> nat \<Rightarrow> tcp_pcb \<Rightarrow> 'w tcp_st \<Rightarrow> ('w tcp_st \<times> err_t) option" where
  "process_syn_rcvd app g p b s =
     (let tin = st_in s in
      if has (g_flags tin) TCP_ACK
      then if TCP_SEQ_BETWEEN (g_ackno tin) (lastack b + 1) (snd_nxt b)
        then do {
          let s = put_pcb p (b\<lparr>state := ESTABLISHED\<rparr>) s;
          (s, err) \<leftarrow> (case listener b of
              None \<Rightarrow> Some (s, ERR_VAL)
            | Some lp \<Rightarrow> do {
                l \<leftarrow> get_lpcb s lp;
                LWIP_ASSERT (l_accept l \<noteq> None);
                TCP_EVENT_ACCEPT app lp (Some p) (callback_arg b) ERR_OK s });
          (if err \<noteq> ERR_OK then do {
             s \<leftarrow> (if err \<noteq> ERR_ABRT then tcp_abort app p s else Some s);
             Some (s, ERR_ABRT) }
           else do {
             s \<leftarrow> st_receive app g p s;
             let s = s\<lparr>st_in := (st_in s)\<lparr>recv_acked := (if recv_acked (st_in s) \<noteq> 0 then recv_acked (st_in s) - 1 else 0)\<rparr>\<rparr>;
             s \<leftarrow> upd_pcb (\<lambda>b. b\<lparr>cwnd := LWIP_TCP_CALC_INITIAL_CWND (mss b)\<rparr>) p s;
             s \<leftarrow> (if has (recv_flags (st_in s)) TF_GOT_FIN
                   then upd_pcb (\<lambda>b. (tcp_ack_now b)\<lparr>state := CLOSE_WAIT\<rparr>) p s else Some s);
             Some (s, ERR_OK) }) }
        else Some (reply_rst app g (Some b) s, ERR_OK)
      else if has (g_flags tin) TCP_SYN \<and> g_seqno tin = rcv_nxt b - 1
      then (case tcp_rexmit (ap_env app) b (st_w s) of (b, err) \<Rightarrow> Some (put_pcb p b s, ERR_OK))
      else Some (s, ERR_OK))"

definition enter_time_wait :: "'w tcp_app \<Rightarrow> nat \<Rightarrow> 'w tcp_st \<Rightarrow> 'w tcp_st option" where
  "enter_time_wait app p s = do {
     s \<leftarrow> upd_pcb tcp_pcb_purge p s;
     s \<leftarrow> upd_pcb (\<lambda>b. b\<lparr>state := TIME_WAIT\<rparr>) p (TCP_RMV_ACTIVE p s);
     TCP_REG app Tw p s }"

text \<open>Our FIN, the last of what has been queued, is acknowledged.\<close>

definition fin_acked :: "tcp_in \<Rightarrow> tcp_pcb \<Rightarrow> bool" where
  "fin_acked tin b \<longleftrightarrow> has (g_flags tin) TCP_ACK \<and> g_ackno tin = snd_nxt b \<and> unsent b = []"

definition after_receive :: "'w tcp_app \<Rightarrow> tcp_state \<Rightarrow> nat \<Rightarrow> 'w tcp_st \<Rightarrow> 'w tcp_st option" where
  "after_receive app st p s = do {
     b \<leftarrow> get_pcb s p;
     let got_fin = has (recv_flags (st_in s)) TF_GOT_FIN;
     let acked = fin_acked (st_in s) b;
     (case st of
        ESTABLISHED \<Rightarrow> Some (if got_fin then put_pcb p ((tcp_ack_now b)\<lparr>state := CLOSE_WAIT\<rparr>) s else s)
      | CLOSE_WAIT \<Rightarrow> Some (if got_fin then put_pcb p ((tcp_ack_now b)\<lparr>state := CLOSE_WAIT\<rparr>) s else s)
      | FIN_WAIT_1 \<Rightarrow>
          (if got_fin
           then if acked then enter_time_wait app p (put_pcb p (tcp_ack_now b) s)
                else Some (put_pcb p ((tcp_ack_now b)\<lparr>state := CLOSING\<rparr>) s)
           else Some (if acked then put_pcb p (b\<lparr>state := FIN_WAIT_2\<rparr>) s else s))
      | FIN_WAIT_2 \<Rightarrow> (if got_fin then enter_time_wait app p (put_pcb p (tcp_ack_now b) s) else Some s)
      | CLOSING \<Rightarrow> (if acked then enter_time_wait app p s else Some s)
      | LAST_ACK \<Rightarrow> Some (if acked then set_recv_flags TF_CLOSED s else s)
      | _ \<Rightarrow> Some s) }"

definition tcp_process :: "'w tcp_app \<Rightarrow> ip_globals \<Rightarrow> nat \<Rightarrow> 'w tcp_st \<Rightarrow> ('w tcp_st \<times> err_t) option" where
  "tcp_process app g p s = do {
     b \<leftarrow> get_pcb s p;
     let tin = st_in s;
     (if has (g_flags tin) TCP_RST then process_rst p s
      else if has (g_flags tin) TCP_SYN \<and> state b \<noteq> SYN_SENT \<and> state b \<noteq> SYN_RCVD
      then Some (put_pcb p (tcp_ack_now b) s, ERR_OK)
      else do {
        let b = (if \<not> has (flags b) TF_RXCLOSED then b\<lparr>tmr := tcp_ticks s\<rparr> else b);
        let b = b\<lparr>keep_cnt_sent := 0, persist_probe := 0\<rparr>;
        b \<leftarrow> tcp_parseopt (g_opts tin) (g_flags tin) b;
        let s = put_pcb p b s;
        (if state b = SYN_SENT then process_syn_sent app g p b s
         else if state b = SYN_RCVD then process_syn_rcvd app g p b s
         else if state b \<in> {ESTABLISHED, CLOSE_WAIT, FIN_WAIT_1, FIN_WAIT_2, CLOSING, LAST_ACK} then do {
           s \<leftarrow> st_receive app g p s;
           s \<leftarrow> after_receive app (state b) p s;
           Some (s, ERR_OK) }
         else Some (s, ERR_OK)) }) }"

section \<open>What the application is told\<close>

definition event_err :: "'w tcp_app \<Rightarrow> nat \<Rightarrow> err_t \<Rightarrow> 'w tcp_st \<Rightarrow> 'w tcp_st option" where
  "event_err app p err s = do { b \<leftarrow> get_pcb s p; TCP_EVENT_ERR app (cb_errf b) (callback_arg b) err s }"

definition tcp_input_delayed_close :: "'w tcp_app \<Rightarrow> nat \<Rightarrow> 'w tcp_st \<Rightarrow> ('w tcp_st \<times> bool) option" where
  "tcp_input_delayed_close app p s =
     (if has (recv_flags (st_in s)) TF_CLOSED then do {
        b \<leftarrow> get_pcb s p;
        s \<leftarrow> (if \<not> has (flags b) TF_RXCLOSED then event_err app p ERR_CLSD s else Some s);
        s \<leftarrow> tcp_pcb_remove app Active p s;
        s \<leftarrow> tcp_free p s;
        Some (s, True) }
      else Some (s, False))"

function input_sent_loop :: "'w tcp_app \<Rightarrow> nat \<Rightarrow> u32 \<Rightarrow> 'w tcp_st \<Rightarrow> ('w tcp_st \<times> bool) option" where
  "input_sent_loop app p acked s =
     (if acked > 0 then do {
        let acked16 = min acked 0xffff;
        (s, err) \<leftarrow> TCP_EVENT_SENT app p (ucast acked16) s;
        (if err = ERR_ABRT then Some (s, True) else input_sent_loop app p (acked - acked16) s) }
      else Some (s, False))"
  by auto
termination
proof (relation "measure (\<lambda>(app, p, acked, s). unat acked)", simp, clarsimp)
  fix acked :: u32
  assume pos: "0 < acked"
  have "unat (acked - min acked 0xffff) = unat acked - unat (min acked 0xffff)"
    by (rule unat_sub) simp
  also have "\<dots> < unat acked"
    using pos by (simp add: min_def word_less_nat_alt unat_gt_0)
  finally show "unat (acked - min acked 0xffff) < unat acked" .
qed

declare input_sent_loop.simps [simp del]

text \<open>Each round gives the application at most 64 K of what has arrived.\<close>

partial_function (option) input_recv_loop :: "'w tcp_app \<Rightarrow> nat \<Rightarrow> 'w tcp_st \<Rightarrow> ('w tcp_st \<times> bool) option" where
  "input_recv_loop app p s =
     (case recv_data (st_in s) of
        None \<Rightarrow> Some (s, False)
      | Some d \<Rightarrow> Option.bind (get_pcb s p) (\<lambda>b.
          let n = ap_split_64k app d;
              rest = (if drop n d = [] then None else Some (drop n d))
          in if refused_data b \<noteq> None then None
             else if has (flags b) TF_RXCLOSED then Option.bind (tcp_abort app p s) (\<lambda>s. Some (s, True))
             else Option.bind (TCP_EVENT_RECV app p (Some (take n d)) ERR_OK s) (\<lambda>(s, err).
               if err = ERR_ABRT then Some (s, True)
               else if err \<noteq> ERR_OK
               then Option.bind (upd_pcb (\<lambda>b. b\<lparr>refused_data := Some (d, False)\<rparr>) p s) (\<lambda>s. Some (s, False))
               else input_recv_loop app p (s\<lparr>st_in := (st_in s)\<lparr>recv_data := rest\<rparr>\<rparr>))))"

definition input_fin :: "'w tcp_app \<Rightarrow> nat \<Rightarrow> 'w tcp_st \<Rightarrow> ('w tcp_st \<times> bool) option" where
  "input_fin app p s =
     (if has (recv_flags (st_in s)) TF_GOT_FIN then do {
        b \<leftarrow> get_pcb s p;
        (case refused_data b of
           Some (d, fin) \<Rightarrow> Some (put_pcb p (b\<lparr>refused_data := Some (d, True)\<rparr>) s, False)
         | None \<Rightarrow> do {
             let b = (if rcv_wnd b \<noteq> TCP_WND_MAX b then b\<lparr>rcv_wnd := rcv_wnd b + 1\<rparr> else b);
             (s, err) \<leftarrow> TCP_EVENT_CLOSED app p (put_pcb p b s);
             Some (s, err = ERR_ABRT) }) }
      else Some (s, False))"

text \<open>A part runs only if the one before did not jump to \<^verbatim>\<open>aborted\<close>.\<close>

definition unless_aborted ::
    "('w tcp_st \<times> bool) option \<Rightarrow> ('w tcp_st \<Rightarrow> ('w tcp_st \<times> bool) option) \<Rightarrow> ('w tcp_st \<times> bool) option" where
  "unless_aborted r f = do { (s, aborted) \<leftarrow> r; if aborted then Some (s, True) else f s }"

definition input_deliver :: "'w tcp_app \<Rightarrow> nat \<Rightarrow> 'w tcp_st \<Rightarrow> ('w tcp_st \<times> bool) option" where
  "input_deliver app p s =
     unless_aborted
       (do { (s, aborted) \<leftarrow> input_sent_loop app p (recv_acked (st_in s)) s;
             Some (if aborted then s else s\<lparr>st_in := (st_in s)\<lparr>recv_acked := 0\<rparr>\<rparr>, aborted) })
     (\<lambda>s. unless_aborted (tcp_input_delayed_close app p s)
     (\<lambda>s. unless_aborted (input_recv_loop app p s)
     (\<lambda>s. unless_aborted (input_fin app p s)
     (\<lambda>s. unless_aborted (tcp_input_delayed_close app p (s\<lparr>tcp_input_pcb := None\<rparr>))
     (\<lambda>s. do { (s, err) \<leftarrow> st_output app p s; Some (s, False) })))))"

section \<open>\<^verbatim>\<open>tcp_input\<close>\<close>

text \<open>Data refused earlier goes first; \<open>True\<close> when the new segment is not looked at.\<close>

definition input_refused :: "'w tcp_app \<Rightarrow> nat \<Rightarrow> 'w tcp_st \<Rightarrow> ('w tcp_st \<times> bool) option" where
  "input_refused app p s = do {
     b \<leftarrow> get_pcb s p;
     (if refused_data b = None then Some (s, False)
      else do {
        (s, err) \<leftarrow> tcp_process_refused_data app p s;
        drop \<leftarrow> (if err = ERR_ABRT then Some True
                 else do { b \<leftarrow> get_pcb s p; Some (refused_data b \<noteq> None \<and> g_tcplen (st_in s) > 0) });
        (if drop then do {
           b \<leftarrow> get_pcb s p;
           (if rcv_ann_wnd b = 0
            then (case tcp_send_empty_ack (ap_env app) b (st_w s) of
                    (w, b, err) \<Rightarrow> Some (put_pcb p b (s\<lparr>st_w := w\<rparr>), True))
            else Some (s, True)) }
         else Some (s, False)) }) }"

definition input_conn :: "'w tcp_app \<Rightarrow> ip_globals \<Rightarrow> nat \<Rightarrow> 'w tcp_st \<Rightarrow> 'w tcp_st option" where
  "input_conn app g p s = do {
     let s = s\<lparr>st_in := (st_in s)\<lparr>recv_data := None, recv_flags := 0, recv_acked := 0\<rparr>\<rparr>;
     (s, aborted) \<leftarrow> unless_aborted (input_refused app p s) (\<lambda>s. do {
        (s, err) \<leftarrow> tcp_process app g p (s\<lparr>tcp_input_pcb := Some p\<rparr>);
        (if err = ERR_ABRT then Some (s, True)
         else if has (recv_flags (st_in s)) TF_RESET then do {
           s \<leftarrow> event_err app p ERR_RST s;
           s \<leftarrow> tcp_pcb_remove app Active p s;
           s \<leftarrow> tcp_free p s;
           Some (s, True) }
         else input_deliver app p s) });
     Some (s\<lparr>tcp_input_pcb := None, st_in := (st_in s)\<lparr>recv_data := None, in_data := None\<rparr>\<rparr>) }"

definition input_no_conn :: "'w tcp_app \<Rightarrow> ip_globals \<Rightarrow> 'w tcp_st \<Rightarrow> 'w tcp_st option" where
  "input_no_conn app g s = do {
     tw \<leftarrow> demux_conn (\<lambda>st. st = TIME_WAIT) g (tcp_tw_pcbs s) s;
     (case tw of
        Some p \<Rightarrow> tcp_timewait_input app g p s
      | None \<Rightarrow> do {
          lp \<leftarrow> demux_listen g (tcp_listen_pcbs s) None s;
          (case lp of
             Some lp \<Rightarrow> tcp_listen_input app g lp (upd_list Listening (to_front lp) s)
           | None \<Rightarrow> Some (if has (g_flags (st_in s)) TCP_RST then s else reply_rst app g None s)) }) }"

definition tcp_input :: "'w tcp_app \<Rightarrow> ip_globals \<Rightarrow> u8 list list \<Rightarrow> 'w tcp_st \<Rightarrow> 'w tcp_st option" where
  "tcp_input app g bufs s =
     (case tcp_input_parse g bufs (st_in s) of
        None \<Rightarrow> Some s
      | Some tin \<Rightarrow> do {
          let s = s\<lparr>st_in := tin\<rparr>;
          conn \<leftarrow> demux_conn (\<lambda>st. st \<notin> {CLOSED, TIME_WAIT, LISTEN}) g (tcp_active_pcbs s) s;
          (case conn of
             Some p \<Rightarrow> input_conn app g p (upd_list Active (to_front p) s)
           | None \<Rightarrow> input_no_conn app g s) })"

end
