(* ===== verification/N2t.thy ===== *)
theory N2t imports Tcp_input begin

text \<open>
  The library around the stack, \<^verbatim>\<open>src/src/n2t\<close>: \<^verbatim>\<open>Socket\<close> (the callbacks it registers with
  TCP, its asynchronous operations), the TCP part of \<^verbatim>\<open>N2T\<close> (the listening block and its
  accept callback), \<^verbatim>\<open>TCPSession\<close> (a connection forwarded to a SOCKS5 proxy) and the accept loop
  of \<^verbatim>\<open>N2S\<close>.

  A session owns its socket, both have the same number, which is also the argument of the
  callbacks. A \<^verbatim>\<open>std::function\<close> is a flag: each of them only ever holds the one lambda of its
  session. What \<^verbatim>\<open>boost::asio\<close> has been asked to do is a list of pending operations, completed by the
  event functions at the end. A block that is freed is gone from the store: touching it is \<open>None\<close>.
\<close>

section \<open>State\<close>

datatype asio_op = Out_connect | Out_read | Out_write "u8 list"

datatype session_status = HANDSHAKE | REQUEST | FORWARD | DESTROY

record n2_socket =
  sk_pcb :: "nat option"
  sk_recv :: bool
  sk_sent :: bool
  sk_err :: bool
  pending_len :: u32
  recv_buf :: "u8 list"
  err_que :: "err_t list"
  pcb_freed :: bool

record n2_session =
  status :: session_status
  in_sock :: n2_socket
  out_open :: bool

record 'u n2t =
  n2_sess :: "nat \<Rightarrow> n2_session option"
  n2_next :: nat
  n2_pending :: "(nat \<times> asio_op) list"
  n2_conn_que :: "nat list"
  n2_new_connection :: bool
  n2_pending_socket :: nat
  n2_stopped :: bool
  n2_user :: 'u

type_synonym 'u n2t_st = "'u n2t tcp_st"

text \<open>What is not in the repository: the environment of the stack, its allocators and timer, and
  the bytes of an address, \<^verbatim>\<open>address::from_string(...)\<close> of \<^verbatim>\<open>ipaddr_ntoa\<close>.\<close>

record 'u n2t_env =
  ne_tcp :: "'u n2t tcp_env"
  ne_pcb_alloc :: "'u n2t_st \<Rightarrow> 'u n2t \<times> nat option"
  ne_lpcb_alloc :: "'u n2t_st \<Rightarrow> 'u n2t \<times> nat option"
  ne_sys_timeout :: "'u n2t \<Rightarrow> 'u n2t"
  ne_split_64k :: "u8 list \<Rightarrow> nat"
  ne_v4 :: "ip_addr_t \<Rightarrow> bool"
  ne_bytes :: "ip_addr_t \<Rightarrow> u8 list"

definition get_sess :: "'u n2t_st \<Rightarrow> nat \<Rightarrow> n2_session option" where
  "get_sess s i = n2_sess (st_w s) i"

definition upd_w :: "('u n2t \<Rightarrow> 'u n2t) \<Rightarrow> 'u n2t_st \<Rightarrow> 'u n2t_st" where
  "upd_w f s = s\<lparr>st_w := f (st_w s)\<rparr>"

definition upd_sess :: "nat \<Rightarrow> (n2_session \<Rightarrow> n2_session) \<Rightarrow> 'u n2t_st \<Rightarrow> 'u n2t_st option" where
  "upd_sess i f s = do {
     x \<leftarrow> get_sess s i;
     Some (upd_w (\<lambda>w. w\<lparr>n2_sess := (n2_sess w)(i \<mapsto> f x)\<rparr>) s) }"

definition upd_sock :: "nat \<Rightarrow> (n2_socket \<Rightarrow> n2_socket) \<Rightarrow> 'u n2t_st \<Rightarrow> 'u n2t_st option" where
  "upd_sock i f = upd_sess i (\<lambda>x. x\<lparr>in_sock := f (in_sock x)\<rparr>)"

definition asio_post :: "nat \<Rightarrow> asio_op \<Rightarrow> 'u n2t_st \<Rightarrow> 'u n2t_st" where
  "asio_post i op = upd_w (\<lambda>w. w\<lparr>n2_pending := n2_pending w @ [(i, op)]\<rparr>)"

section \<open>The end of a session\<close>

definition socket_cancel :: "nat \<Rightarrow> 'u n2t_st \<Rightarrow> 'u n2t_st option" where
  "socket_cancel i s = do {
     x \<leftarrow> get_sess s i;
     s \<leftarrow> (case sk_pcb (in_sock x) of
            None \<Rightarrow> Some s
          | Some p \<Rightarrow> do {
              s \<leftarrow> tcp_recv (Some p) None s;
              s \<leftarrow> tcp_sent (Some p) None s;
              tcp_err (Some p) None s });
     upd_sock i (\<lambda>k. k\<lparr>sk_recv := False, sk_sent := False, sk_err := False\<rparr>) s }"

definition session_destroy :: "nat \<Rightarrow> 'u n2t_st \<Rightarrow> 'u n2t_st option" where
  "session_destroy i s = do {
     x \<leftarrow> get_sess s i;
     (if status x = DESTROY then Some s
      else do {
        s \<leftarrow> upd_sess i (\<lambda>x. x\<lparr>status := DESTROY\<rparr>) s;
        s \<leftarrow> socket_cancel i s;
        upd_sess i (\<lambda>x. x\<lparr>out_open := False\<rparr>) s }) }"

section \<open>The session's handlers\<close>

text \<open>The lambdas of \<^verbatim>\<open>in_async_read\<close>, \<^verbatim>\<open>in_async_write\<close> and \<^verbatim>\<open>start\<close>.\<close>

definition recv_handler :: "nat \<Rightarrow> bool \<Rightarrow> u8 list \<Rightarrow> 'u n2t_st \<Rightarrow> 'u n2t_st option" where
  "recv_handler i freed pkt s = do {
     x \<leftarrow> get_sess s i;
     (if freed then session_destroy i s
      else Some (if status x = FORWARD then asio_post i (Out_write pkt) s else s)) }"

definition sent_handler :: "nat \<Rightarrow> bool \<Rightarrow> 'u n2t_st \<Rightarrow> 'u n2t_st option" where
  "sent_handler i freed s = do {
     x \<leftarrow> get_sess s i;
     (if freed then session_destroy i s
      else Some (if status x = FORWARD then asio_post i Out_read s else s)) }"

definition err_handler :: "nat \<Rightarrow> 'u n2t_st \<Rightarrow> 'u n2t_st option" where
  "err_handler i s = session_destroy i s"

section \<open>The callbacks of a socket\<close>

definition socket_err :: "nat \<Rightarrow> err_t \<Rightarrow> 'u n2t_st \<Rightarrow> 'u n2t_st option" where
  "socket_err i err s = do {
     s \<leftarrow> upd_sock i (\<lambda>k. k\<lparr>pcb_freed := True\<rparr>) s;
     x \<leftarrow> get_sess s i;
     (if sk_err (in_sock x) then do {
        s \<leftarrow> upd_sock i (\<lambda>k. k\<lparr>sk_err := False\<rparr>) s;
        err_handler i s }
      else upd_sock i (\<lambda>k. k\<lparr>err_que := err_que k @ [err]\<rparr>) s) }"

text \<open>The stack as the callbacks call it: of the application only the error callback can be
  reached from there. Callback number 1 is the library's.\<close>

definition n2t_base :: "'u n2t_env \<Rightarrow> 'u n2t tcp_app" where
  "n2t_base e =
     \<lparr>ap_env = ne_tcp e, ap_pcb_alloc = ne_pcb_alloc e, ap_lpcb_alloc = ne_lpcb_alloc e,
      ap_sys_timeout = ne_sys_timeout e, ap_split_64k = ne_split_64k e,
      ap_recv = (\<lambda>_ _ _ _ _ _. None), ap_sent = (\<lambda>_ _ _ _ _. None), ap_accept = (\<lambda>_ _ _ _ _. None),
      ap_connected = (\<lambda>_ _ _ _ _. None), ap_poll = (\<lambda>_ _ _ _. None),
      ap_err = (\<lambda>f i err s. if f = 1 then socket_err i err s else None)\<rparr>"

definition socket_deliver :: "nat \<Rightarrow> u8 list \<Rightarrow> 'u n2t_st \<Rightarrow> 'u n2t_st option" where
  "socket_deliver i pkt s = do {
     x \<leftarrow> get_sess s i;
     (if sk_recv (in_sock x) then do {
        s \<leftarrow> upd_sock i (\<lambda>k. k\<lparr>sk_recv := False\<rparr>) s;
        recv_handler i (pcb_freed (in_sock x)) pkt s }
      else upd_sock i (\<lambda>k. k\<lparr>recv_buf := recv_buf k @ pkt\<rparr>) s) }"

definition socket_recv ::
    "'u n2t_env \<Rightarrow> nat \<Rightarrow> nat \<Rightarrow> u8 list option \<Rightarrow> err_t \<Rightarrow> 'u n2t_st \<Rightarrow> ('u n2t_st \<times> err_t) option" where
  "socket_recv e i p data err s = do {
     (s, ret) \<leftarrow> (if err \<noteq> ERR_OK \<or> data = None
        then do {
          s \<leftarrow> upd_sock i (\<lambda>k. k\<lparr>pcb_freed := True\<rparr>) s;
          (s, r) \<leftarrow> tcp_close (n2t_base e) p s;
          (if r \<noteq> ERR_OK then do { s \<leftarrow> tcp_abort (n2t_base e) p s; Some (s, ERR_ABRT) }
           else Some (s, ERR_OK)) }
        else Some (s, ERR_OK));
     (case data of
        None \<Rightarrow> Some (s, ret)
      | Some pkt \<Rightarrow> do {
          x \<leftarrow> get_sess s i;
          q \<leftarrow> sk_pcb (in_sock x);
          s \<leftarrow> tcp_recved (n2t_base e) q (of_nat (length pkt)) s;
          s \<leftarrow> socket_deliver i pkt s;
          Some (s, ret) }) }"

definition socket_sent :: "nat \<Rightarrow> u16 \<Rightarrow> 'u n2t_st \<Rightarrow> ('u n2t_st \<times> err_t) option" where
  "socket_sent i len s = do {
     s \<leftarrow> upd_sock i (\<lambda>k. k\<lparr>pending_len := pending_len k - ucast len\<rparr>) s;
     x \<leftarrow> get_sess s i;
     (if pending_len (in_sock x) = 0 then do {
        LWIP_ASSERT (sk_sent (in_sock x));
        s \<leftarrow> upd_sock i (\<lambda>k. k\<lparr>sk_sent := False\<rparr>) s;
        s \<leftarrow> sent_handler i (pcb_freed (in_sock x)) s;
        Some (s, ERR_OK) }
      else Some (s, ERR_OK)) }"

definition socket_set_pcb :: "nat \<Rightarrow> nat \<Rightarrow> 'u n2t_st \<Rightarrow> 'u n2t_st option" where
  "socket_set_pcb i p s = do {
     s \<leftarrow> upd_sock i (\<lambda>k. k\<lparr>sk_pcb := Some p\<rparr>) s;
     s \<leftarrow> upd_pcb (\<lambda>b. tcp_set_flags b TF_NODELAY) p s;
     s \<leftarrow> tcp_arg (Some p) i s;
     s \<leftarrow> tcp_recv (Some p) (Some 1) s;
     s \<leftarrow> tcp_sent (Some p) (Some 1) s;
     tcp_err (Some p) (Some 1) s }"

section \<open>Asynchronous operations of a socket\<close>

definition socket_async_recv :: "nat \<Rightarrow> 'u n2t_st \<Rightarrow> 'u n2t_st option" where
  "socket_async_recv i s = do {
     x \<leftarrow> get_sess s i;
     (if pcb_freed (in_sock x) then recv_handler i True [] s
      else if recv_buf (in_sock x) = [] then upd_sock i (\<lambda>k. k\<lparr>sk_recv := True\<rparr>) s
      else do {
        s \<leftarrow> upd_sock i (\<lambda>k. k\<lparr>recv_buf := []\<rparr>) s;
        recv_handler i False (recv_buf (in_sock x)) s }) }"

definition st_write :: "'w tcp_app \<Rightarrow> nat \<Rightarrow> u8 list \<Rightarrow> u8 \<Rightarrow> 'w tcp_st \<Rightarrow> ('w tcp_st \<times> err_t) option" where
  "st_write app p data apiflags s = do {
     b \<leftarrow> get_pcb s p;
     (w, b, err) \<leftarrow> tcp_write (ap_env app) b 0 data apiflags (st_w s);
     Some (put_pcb p b (s\<lparr>st_w := w\<rparr>), err) }"

text \<open>The results of \<^verbatim>\<open>tcp_write\<close> and \<^verbatim>\<open>tcp_output\<close> are not looked at; the length is cut to 16
  bits.\<close>

definition socket_async_send :: "'u n2t_env \<Rightarrow> nat \<Rightarrow> u8 list \<Rightarrow> 'u n2t_st \<Rightarrow> 'u n2t_st option" where
  "socket_async_send e i pkt s = do {
     x \<leftarrow> get_sess s i;
     (if pcb_freed (in_sock x) then sent_handler i True s
      else do {
        s \<leftarrow> upd_sock i (\<lambda>k. k\<lparr>pending_len := pending_len k + of_nat (length pkt), sk_sent := True\<rparr>) s;
        p \<leftarrow> sk_pcb (in_sock x);
        (s, r1) \<leftarrow> st_write (n2t_base e) p (take (length pkt mod 65536) pkt) TCP_WRITE_FLAG_COPY s;
        (s, r2) \<leftarrow> st_output (n2t_base e) p s;
        Some s }) }"

definition socket_async_err :: "nat \<Rightarrow> 'u n2t_st \<Rightarrow> 'u n2t_st option" where
  "socket_async_err i s = do {
     x \<leftarrow> get_sess s i;
     (case err_que (in_sock x) of
        [] \<Rightarrow> upd_sock i (\<lambda>k. k\<lparr>sk_err := True\<rparr>) s
      | err # q \<Rightarrow> do { s \<leftarrow> upd_sock i (\<lambda>k. k\<lparr>err_que := q\<rparr>) s; err_handler i s }) }"

text \<open>The destructor of the session destroys it and closes the socket's block unless it is gone.\<close>

definition session_delete :: "'u n2t_env \<Rightarrow> nat \<Rightarrow> 'u n2t_st \<Rightarrow> 'u n2t_st option" where
  "session_delete e i s = do {
     s \<leftarrow> session_destroy i s;
     x \<leftarrow> get_sess s i;
     s \<leftarrow> (case sk_pcb (in_sock x) of
        None \<Rightarrow> Some s
      | Some p \<Rightarrow>
          if pcb_freed (in_sock x) then Some s
          else do {
            s \<leftarrow> tcp_recv (Some p) None s;
            s \<leftarrow> tcp_sent (Some p) None s;
            s \<leftarrow> tcp_err (Some p) None s;
            (s, r) \<leftarrow> tcp_close (n2t_base e) p s;
            (if r \<noteq> ERR_OK then tcp_abort (n2t_base e) p s else Some s) });
     Some (upd_w (\<lambda>w. w\<lparr>n2_sess := (n2_sess w)(i := None)\<rparr>) s) }"

section \<open>Accepting connections\<close>

definition session_start :: "nat \<Rightarrow> 'u n2t_st \<Rightarrow> 'u n2t_st option" where
  "session_start i s = do {
     s \<leftarrow> socket_async_err i s;
     s \<leftarrow> upd_sess i (\<lambda>x. x\<lparr>out_open := True\<rparr>) s;
     Some (asio_post i Out_connect s) }"

definition new_session :: n2_session where
  "new_session =
     \<lparr>status = HANDSHAKE,
      in_sock = \<lparr>sk_pcb = None, sk_recv = False, sk_sent = False, sk_err = False, pending_len = 0,
                 recv_buf = [], err_que = [], pcb_freed = False\<rparr>,
      out_open = False\<rparr>"

definition make_session :: "'u n2t_st \<Rightarrow> 'u n2t_st \<times> nat" where
  "make_session s =
     (upd_w (\<lambda>w. w\<lparr>n2_sess := (n2_sess w)(n2_next w \<mapsto> new_session), n2_next := n2_next w + 1\<rparr>) s,
      n2_next (st_w s))"

text \<open>\<^verbatim>\<open>N2S::async_accept\<close> and \<^verbatim>\<open>N2T::async_accept\<close>: connections in the queue are served at once,
  the last session made waits for the next one.\<close>

fun async_accept :: "nat list \<Rightarrow> 'u n2t_st \<Rightarrow> 'u n2t_st option" where
  "async_accept que s =
     (if n2_stopped (st_w s) then Some (upd_w (\<lambda>w. w\<lparr>n2_conn_que := que\<rparr>) s)
      else case make_session s of (s, i) \<Rightarrow>
        (case que of
           [] \<Rightarrow> Some (upd_w (\<lambda>w. w\<lparr>n2_conn_que := [], n2_new_connection := True, n2_pending_socket := i\<rparr>) s)
         | p # que \<Rightarrow> do {
             s \<leftarrow> socket_set_pcb i p s;
             s \<leftarrow> session_start i s;
             async_accept que s }))"

definition n2t_accept :: "nat \<Rightarrow> nat option \<Rightarrow> err_t \<Rightarrow> 'u n2t_st \<Rightarrow> ('u n2t_st \<times> err_t) option" where
  "n2t_accept arg newpcb err s =
     (if err = ERR_OK then do {
        p \<leftarrow> newpcb;
        s \<leftarrow> (if n2_new_connection (st_w s) then do {
            let i = n2_pending_socket (st_w s);
            s \<leftarrow> socket_set_pcb i p s;
            let s = upd_w (\<lambda>w. w\<lparr>n2_new_connection := False\<rparr>) s;
            s \<leftarrow> session_start i s;
            async_accept (n2_conn_que (st_w s)) s }
          else Some (upd_w (\<lambda>w. w\<lparr>n2_conn_que := n2_conn_que w @ [p]\<rparr>) s));
        Some (s, ERR_OK) }
      else Some (s, ERR_OK))"

text \<open>The application of the stack.\<close>

definition n2t_app :: "'u n2t_env \<Rightarrow> 'u n2t tcp_app" where
  "n2t_app e = (n2t_base e)
     \<lparr>ap_recv := (\<lambda>f i p d err s. if f = 1 then socket_recv e i p d err s else None),
      ap_sent := (\<lambda>f i p n s. if f = 1 then socket_sent i n s else None),
      ap_accept := (\<lambda>f arg p err s. if f = 1 then n2t_accept arg p err s else None)\<rparr>"

text \<open>The TCP part of the constructor of \<^verbatim>\<open>N2T\<close>.\<close>

definition n2t_listen :: "'u n2t_env \<Rightarrow> netif \<Rightarrow> 'u n2t_st \<Rightarrow> 'u n2t_st option" where
  "n2t_listen e ni s = do {
     (s, p) \<leftarrow> tcp_new_ip_type (n2t_app e) IPADDR_TYPE_ANY s;
     p \<leftarrow> p;
     s \<leftarrow> tcp_bind_netif p (Some ni) s;
     (s, r) \<leftarrow> tcp_bind (n2t_app e) p (Some ip_addr_any_type) 14514 s;
     (s, lp, r) \<leftarrow> tcp_listen_with_backlog_and_err (n2t_app e) p s;
     s \<leftarrow> tcp_arg lp 0 s;
     tcp_accept lp (Some 1) s }"

section \<open>Completions\<close>

definition in_async_write :: "'u n2t_env \<Rightarrow> nat \<Rightarrow> u8 list \<Rightarrow> 'u n2t_st \<Rightarrow> 'u n2t_st option" where
  "in_async_write e i data s = socket_async_send e i data s"

definition addrport_to_socks5 :: "'u n2t_env \<Rightarrow> ip_addr_t \<Rightarrow> u16 \<Rightarrow> u8 list" where
  "addrport_to_socks5 e a port =
     (if ne_v4 e a then 1 # take 4 (ne_bytes e a) else 4 # take 16 (ne_bytes e a)) @
     [ucast (drop_bit 8 port), ucast (port AND 0xff)]"

definition out_connected :: "nat \<Rightarrow> bool \<Rightarrow> 'u n2t_st \<Rightarrow> 'u n2t_st option" where
  "out_connected i failed s =
     (if failed then session_destroy i s else Some (asio_post i (Out_write [5, 1, 0]) s))"

definition out_recv :: "'u n2t_env \<Rightarrow> nat \<Rightarrow> u8 list \<Rightarrow> 'u n2t_st \<Rightarrow> 'u n2t_st option" where
  "out_recv e i data s = do {
     x \<leftarrow> get_sess s i;
     (case status x of
        HANDSHAKE \<Rightarrow>
          (if data \<noteq> [5, 0] then session_destroy i s
           else do {
             s \<leftarrow> upd_sess i (\<lambda>x. x\<lparr>status := REQUEST\<rparr>) s;
             p \<leftarrow> sk_pcb (in_sock x);
             b \<leftarrow> get_pcb s p;
             Some (asio_post i (Out_write ([5, 1, 0] @ addrport_to_socks5 e (local_ip b) (local_port b))) s) })
      | REQUEST \<Rightarrow>
          (if length data \<le> 3 \<or> take 3 data \<noteq> [5, 0, 0] then session_destroy i s
           else do {
             s \<leftarrow> upd_sess i (\<lambda>x. x\<lparr>status := FORWARD\<rparr>) s;
             s \<leftarrow> socket_async_recv i s;
             Some (asio_post i Out_read s) })
      | FORWARD \<Rightarrow> in_async_write e i data s
      | DESTROY \<Rightarrow> Some s) }"

definition out_read_done :: "'u n2t_env \<Rightarrow> nat \<Rightarrow> u8 list option \<Rightarrow> 'u n2t_st \<Rightarrow> 'u n2t_st option" where
  "out_read_done e i data s =
     (case data of None \<Rightarrow> session_destroy i s | Some d \<Rightarrow> out_recv e i d s)"

definition out_sent :: "nat \<Rightarrow> bool \<Rightarrow> 'u n2t_st \<Rightarrow> 'u n2t_st option" where
  "out_sent i failed s =
     (if failed then session_destroy i s
      else do {
        x \<leftarrow> get_sess s i;
        (case status x of
           HANDSHAKE \<Rightarrow> Some (asio_post i Out_read s)
         | REQUEST \<Rightarrow> Some (asio_post i Out_read s)
         | FORWARD \<Rightarrow> socket_async_recv i s
         | DESTROY \<Rightarrow> Some s) })"

text \<open>The operation that completes leaves the list; the error flag or the data are the outcome.\<close>

definition asio_done ::
    "'u n2t_env \<Rightarrow> nat \<Rightarrow> asio_op \<Rightarrow> bool \<Rightarrow> u8 list \<Rightarrow> 'u n2t_st \<Rightarrow> 'u n2t_st option" where
  "asio_done e i op failed data s =
     (let s = upd_w (\<lambda>w. w\<lparr>n2_pending := remove1 (i, op) (n2_pending w)\<rparr>) s in
      case op of
        Out_connect \<Rightarrow> out_connected i failed s
      | Out_read \<Rightarrow> out_read_done e i (if failed then None else Some data) s
      | Out_write d \<Rightarrow> out_sent i failed s)"

end
