(* ===== verification/Tcp_stream.thy ===== *)
theory Tcp_stream imports Tcp_recv begin

text \<open>
  The receive path against the byte stream of the peer. \<open>S\<close> are all bytes the peer ever
  sends and \<open>i\<close> the sequence number of the first; position \<open>p\<close> of the stream has the number
  \<open>sq i p\<close>, the peer's FIN the position behind the last byte. A segment is honest if it
  carries the stream's bytes at its position. Then the bytes handed to the application are
  always the stream from its beginning, whatever the order in which segments arrive, how
  they overlap and how often they are repeated.
\<close>

section \<open>Segments of the stream\<close>

definition stream_part :: "u32 \<Rightarrow> u8 list \<Rightarrow> nat \<Rightarrow> u32 \<Rightarrow> u16 \<Rightarrow> u8 \<Rightarrow> u8 list \<Rightarrow> bool" where
  "stream_part i S p seqno len hf data \<longleftrightarrow>
     seqno = sq i p \<and> p + unat len \<le> length S \<and> data = take (unat len) (drop p S) \<and>
     \<not> has hf TCP_SYN \<and> (has hf TCP_FIN \<longrightarrow> p + unat len = length S)"

abbreviation seg_at :: "u32 \<Rightarrow> u8 list \<Rightarrow> nat \<Rightarrow> tcp_seg \<Rightarrow> bool" where
  "seg_at i S p s \<equiv> stream_part i S p (sg_seqno s) (sg_len s) (sg_hflags s) (sg_data s)"

definition fin_len :: "u8 \<Rightarrow> nat" where
  "fin_len hf = (if has hf TCP_FIN then 1 else 0)"

definition seg_tl :: "tcp_seg \<Rightarrow> nat" where
  "seg_tl s = unat (sg_len s) + fin_len (sg_hflags s)"

text \<open>A queue of segments in stream order, from position \<open>lo\<close> on, that ends at \<open>hi\<close> or
  before; a FIN takes the place of a byte, so nothing comes behind it.\<close>

fun oos_run :: "u32 \<Rightarrow> u8 list \<Rightarrow> nat \<Rightarrow> tcp_seg list \<Rightarrow> nat \<Rightarrow> bool" where
  "oos_run i S lo [] hi \<longleftrightarrow> lo \<le> hi"
| "oos_run i S lo (s # q) hi \<longleftrightarrow>
     (\<exists>p\<ge>lo. seg_at i S p s \<and> 0 < seg_tl s \<and> oos_run i S (p + seg_tl s) q hi)"

lemma oos_run_le: "oos_run i S lo q hi \<Longrightarrow> lo \<le> hi"
  by (induction q arbitrary: lo) fastforce+

lemma oos_run_weaken: "oos_run i S lo q hi \<Longrightarrow> lo' \<le> lo \<Longrightarrow> oos_run i S lo' q hi"
  by (cases q) (auto intro: order_trans)

lemma oos_run_append: "oos_run i S lo (xs @ ys) hi \<longleftrightarrow> (\<exists>m. oos_run i S lo xs m \<and> oos_run i S m ys hi)"
proof (induction xs arbitrary: lo)
  case Nil
  then show ?case by (auto intro: oos_run_weaken)
next
  case (Cons s xs)
  then show ?case by auto
qed

lemma oos_run_ConsE:
  assumes "oos_run i S lo (s # q) hi"
  obtains p where "lo \<le> p" "seg_at i S p s" "0 < seg_tl s" "oos_run i S (p + seg_tl s) q hi"
    "p + seg_tl s \<le> hi"
  using assms oos_run_le by fastforce

lemma oos_run_ConsI:
  "lo \<le> p \<Longrightarrow> seg_at i S p s \<Longrightarrow> 0 < seg_tl s \<Longrightarrow> oos_run i S (p + seg_tl s) q hi \<Longrightarrow>
   oos_run i S lo (s # q) hi"
  by auto

lemma has_or [simp]: "has (a OR b) f \<longleftrightarrow> has a f \<or> has b f"
  by (simp add: has_def bit.conj_disj_distrib2 or_eq_0_iff)

lemma has_TCP_flags [simp]:
  "has TCP_FIN TCP_FIN" "\<not> has TCP_FIN TCP_SYN" "\<not> has (hf AND NOT TCP_FIN) TCP_FIN"
  "has (hf AND NOT TCP_FIN) TCP_SYN \<longleftrightarrow> has hf TCP_SYN"
  by (simp_all add: has_def TCP_FIN_def TCP_SYN_def and.assoc)

lemma has_zero [simp]: "\<not> has 0 f"
  by (simp add: has_def)

lemma has_fin_or_syn [simp]: "has hf (TCP_FIN OR TCP_SYN) \<longleftrightarrow> has hf TCP_FIN \<or> has hf TCP_SYN"
  by (simp add: has_def bit.conj_disj_distrib or_eq_0_iff)

lemma TCP_TCPLEN_nat:
  "\<not> has hf TCP_SYN \<Longrightarrow> unat (TCP_TCPLEN len hf) = unat len + fin_len hf"
  by (auto simp: TCP_TCPLEN_def fin_len_def unat_ucast_up unat_word_ariths
      intro!: mod_less less_trans [OF unat_u16_less])

lemma fin_len_or [simp]: "fin_len (hf OR TCP_FIN) = 1"
  by (simp add: fin_len_def)

lemma fin_len_le: "fin_len hf \<le> 1"
  by (simp add: fin_len_def)

lemma sq_diff16:
  assumes "q \<le> p" and "p - q < 65536"
  shows "unat (ucast (sq i p - sq i q) :: u16) = p - q"
proof -
  have "unat (sq i p - sq i q) = p - q" using assms by (intro sq_diff(2)) simp_all
  then show ?thesis using assms(2) by (simp only: unat_ucast_mod) simp
qed

text \<open>A part of a part, and adjacent parts.\<close>

lemma stream_part_cut:
  assumes "stream_part i S p seqno len hf data" and "unat len' \<le> unat len" and "\<not> has hf' TCP_FIN"
    and "\<not> has hf' TCP_SYN"
  shows "stream_part i S p seqno len' hf' (take (unat len') data)"
  using assms by (auto simp: stream_part_def min_absorb1)

lemma stream_part_len: "stream_part i S p seqno len hf data \<Longrightarrow> length data = unat len"
  by (auto simp: stream_part_def)

lemma seg_at_cut:
  "seg_at i S p s \<Longrightarrow> unat len \<le> unat (sg_len s) \<Longrightarrow> \<not> has (sg_hflags s) TCP_FIN \<Longrightarrow>
   seg_at i S p (seg_cut s len)"
  by (auto simp: stream_part_def seg_cut_def min_absorb1)

lemma seg_cut_simps [simp]:
  "sg_seqno (seg_cut s len) = sg_seqno s" "sg_len (seg_cut s len) = len"
  "sg_hflags (seg_cut s len) = sg_hflags s"
  by (simp_all add: seg_cut_def)

section \<open>Insertion into the queue\<close>

lemma run_behind_fin:
  assumes "oos_run i S lo q hi" and "length S < lo"
  shows "q = []"
proof (cases q)
  case (Cons s q')
  with assms(1) obtain h where "lo \<le> h" "seg_at i S h s" by (auto elim: oos_run_ConsE)
  then show ?thesis using assms(2) by (simp add: stream_part_def)
qed simp

text \<open>The first segment of a queue against a new one that ends at \<open>e\<close>.\<close>

lemma run_head:
  assumes "oos_run i S lo (s # q) hi" and "hi < e + 0x40000000" and "e < lo + 0x40000000"
  obtains h where "lo \<le> h" "seg_at i S h s" "oos_run i S (h + seg_tl s) q hi"
    "TCP_SEQ_GEQ (sq i e) (sg_seqno s + ucast (sg_len s)) \<longleftrightarrow> h + unat (sg_len s) \<le> e"
    "has (sg_hflags s) TCP_FIN \<longrightarrow> q = [] \<and> h + unat (sg_len s) = length S \<and> length S < hi"
proof -
  from assms(1) obtain h where h: "lo \<le> h" "seg_at i S h s" "0 < seg_tl s"
    "oos_run i S (h + seg_tl s) q hi" "h + seg_tl s \<le> hi" by (rule oos_run_ConsE)
  have sq: "sg_seqno s = sq i h" using h(2) by (simp add: stream_part_def)
  have "TCP_SEQ_GEQ (sq i e) (sg_seqno s + ucast (sg_len s)) \<longleftrightarrow> h + unat (sg_len s) \<le> e"
    unfolding sq sq_add16 using assms(2,3) h(1,5) by (intro sq_cmp(4)) (simp_all add: seg_tl_def)
  moreover have "q = [] \<and> h + unat (sg_len s) = length S \<and> length S < hi"
    if "has (sg_hflags s) TCP_FIN"
  proof -
    have "h + unat (sg_len s) = length S" "seg_tl s = unat (sg_len s) + 1"
      using h(2) that by (simp_all add: stream_part_def seg_tl_def fin_len_def)
    then show ?thesis using run_behind_fin [OF h(4)] h(5) by simp
  qed
  ultimately show ?thesis using h that by blast
qed

text \<open>What is left of the queue is not covered: its head ends behind \<open>e\<close>.\<close>

definition uncovered :: "u32 \<Rightarrow> u8 list \<Rightarrow> nat \<Rightarrow> nat \<Rightarrow> tcp_seg list \<Rightarrow> bool" where
  "uncovered i S lo e q \<longleftrightarrow>
     (q \<noteq> [] \<longrightarrow> (\<exists>h\<ge>lo. seg_at i S h (hd q) \<and> e < h + unat (sg_len (hd q))))"

lemma uncoveredI: "seg_at i S h s \<Longrightarrow> lo \<le> h \<Longrightarrow> \<not> h + unat (sg_len s) \<le> e \<Longrightarrow> uncovered i S lo e (s # q)"
  by (auto simp: uncovered_def)

lemma uncovered_weaken: "uncovered i S lo' e q \<Longrightarrow> lo \<le> lo' \<Longrightarrow> uncovered i S lo e q"
  unfolding uncovered_def using le_trans by blast

text \<open>Segments covered by the new one go away; if one of them had the FIN, the new one ends
  where the stream ends and takes it over.\<close>

lemma oos_drop_covered_run:
  assumes "oos_run i S lo q hi" and "seg_at i S p cseg" and "\<not> has (sg_hflags cseg) TCP_FIN"
    and "p < lo" and "hi < p + 0x40000000" and "p + unat (sg_len cseg) \<le> hi"
    and "oos_drop_covered (sg_seqno cseg) cseg q = (c, q')"
  shows "(c = cseg \<and> oos_run i S lo q' hi \<and>
      uncovered i S lo (p + unat (sg_len cseg)) q')
    \<or> (c = cseg\<lparr>sg_hflags := sg_hflags cseg OR TCP_FIN\<rparr> \<and> q' = [] \<and>
       p + unat (sg_len cseg) = length S \<and> length S < hi)"
  using assms
proof (induction q arbitrary: lo)
  case Nil
  then show ?case by (simp add: uncovered_def)
next
  case (Cons s q)
  define e where "e = p + unat (sg_len cseg)"
  have sq: "sg_seqno cseg + ucast (sg_len cseg) = sq i e" and eS: "e \<le> length S"
    using Cons.prems(2) by (simp_all add: stream_part_def e_def sq_add16)
  have "hi < e + 0x40000000" "e < lo + 0x40000000" using Cons.prems by (simp_all add: e_def)
  then obtain h where h: "lo \<le> h" "seg_at i S h s" "oos_run i S (h + seg_tl s) q hi"
    "TCP_SEQ_GEQ (sq i e) (sg_seqno s + ucast (sg_len s)) \<longleftrightarrow> h + unat (sg_len s) \<le> e"
    "has (sg_hflags s) TCP_FIN \<longrightarrow> q = [] \<and> h + unat (sg_len s) = length S \<and> length S < hi"
    by (rule run_head [OF Cons.prems(1)])
  show ?case
  proof (cases "h + unat (sg_len s) \<le> e")
    case False
    then have "c = cseg" "q' = s # q" using Cons.prems(7) h(4) sq by simp_all
    with Cons.prems(1) uncoveredI [OF h(2,1) False] show ?thesis
      by (intro disjI1) (simp add: e_def)
  next
    case cov: True
    show ?thesis
    proof (cases "has (sg_hflags s) TCP_FIN")
      case True
      then show ?thesis using Cons.prems(7) cov h(4) h(5) sq eS by (auto simp flip: e_def)
    next
      case False
      then have "oos_drop_covered (sg_seqno cseg) cseg q = (c, q')"
        using Cons.prems(7) cov h(4) sq by simp
      from Cons.IH [OF h(3) Cons.prems(2,3) _ Cons.prems(5,6) this] Cons.prems(4) h(1)
      show ?thesis by (auto intro: oos_run_weaken uncovered_weaken)
    qed
  qed
qed

lemma tcp_oos_insert_segment_run:
  assumes "oos_run i S lo q hi" and "seg_at i S p cseg" and "0 < seg_tl cseg" and "p < lo"
    and "hi < p + 0x40000000" and "p + seg_tl cseg \<le> hi"
  shows "oos_run i S p (tcp_oos_insert_segment (sg_seqno cseg) cseg q) hi"
proof (cases "has (sg_hflags cseg) TCP_FIN")
  case True
  then show ?thesis using assms by (auto simp: tcp_oos_insert_segment_def)
next
  case False
  then have tl: "seg_tl cseg = unat (sg_len cseg)" by (simp add: seg_tl_def fin_len_def)
  obtain c q' where cq: "oos_drop_covered (sg_seqno cseg) cseg q = (c, q')" by fastforce
  from oos_drop_covered_run [OF assms(1,2) False assms(4,5) _ cq] assms(6) tl
  consider (keep) "c = cseg" "oos_run i S lo q' hi"
      "uncovered i S lo (p + unat (sg_len cseg)) q'"
    | (fin) "c = cseg\<lparr>sg_hflags := sg_hflags cseg OR TCP_FIN\<rparr>" "q' = []"
      "p + unat (sg_len cseg) = length S" "length S < hi" by auto
  then show ?thesis
  proof cases
    case fin
    with cq False assms(2) tl show ?thesis
      by (auto simp: tcp_oos_insert_segment_def stream_part_def seg_tl_def fin_len_def)
  next
    case keep
    show ?thesis
    proof (cases q')
      case Nil
      with cq keep False assms show ?thesis by (auto simp: tcp_oos_insert_segment_def)
    next
      case (Cons s q'')
      with keep(2) obtain h where h: "lo \<le> h" "seg_at i S h s" "0 < seg_tl s"
        "oos_run i S (h + seg_tl s) q'' hi" "h + seg_tl s \<le> hi"
        using oos_run_ConsE by metis
      have sq: "sg_seqno cseg = sq i p" "sg_seqno s = sq i h"
        using assms(2) h(2) by (simp_all add: stream_part_def)
      have gt: "TCP_SEQ_GT (sg_seqno cseg + ucast (sg_len cseg)) (sg_seqno s)
          \<longleftrightarrow> h < p + unat (sg_len cseg)"
        unfolding sq sq_add16 using assms(4,5,6) h(1,5) tl by (intro sq_cmp(3)) simp_all
      show ?thesis
      proof (cases "h < p + unat (sg_len cseg)")
        case True
        have d: "unat (ucast (sg_seqno s - sg_seqno cseg) :: u16) = h - p"
          unfolding sq using assms(4) h(1) True unat_u16_less [of "sg_len cseg"]
          by (intro sq_diff16) linarith+
        with True assms(2,4) False h(1) have c: "seg_at i S p (seg_cut cseg (ucast (sg_seqno s - sg_seqno cseg)))"
          by (intro seg_at_cut) simp_all
        have "seg_tl (seg_cut cseg (ucast (sg_seqno s - sg_seqno cseg))) = h - p"
          using d False by (simp add: seg_tl_def fin_len_def)
        then have "oos_run i S p (seg_cut cseg (ucast (sg_seqno s - sg_seqno cseg)) # s # q'') hi"
          using c h assms(4) by (intro oos_run_ConsI [of p p] oos_run_ConsI [of _ h]) simp_all
        then show ?thesis
          using True gt cq keep(1) Cons False by (simp add: tcp_oos_insert_segment_def)
      next
        case g: False
        then have "oos_run i S (p + seg_tl cseg) (s # q'') hi"
          using h tl by (intro oos_run_ConsI [of _ h]) simp_all
        with g gt cq keep(1) Cons False assms show ?thesis
          by (auto simp: tcp_oos_insert_segment_def)
      qed
    qed
  qed
qed

text \<open>A segment that replaces a shorter one with the same number.\<close>

lemma tcp_oos_insert_segment_run_eq:
  assumes "oos_run i S lo (s # q) hi" and "seg_at i S p cseg" and "sg_seqno s = sg_seqno cseg"
    and "sg_len s < sg_len cseg" and "lo \<le> p" and "hi < lo + 0x40000000" and "p + seg_tl cseg \<le> hi"
  shows "oos_run i S p (tcp_oos_insert_segment (sg_seqno cseg) cseg (s # q)) hi"
proof -
  have len: "unat (sg_len s) < unat (sg_len cseg)" using assms(4) by (simp add: word_less_nat_alt)
  then have tl: "0 < seg_tl cseg" by (simp add: seg_tl_def)
  from assms(1) obtain h where h: "lo \<le> h" "seg_at i S h s" "0 < seg_tl s"
    "oos_run i S (h + seg_tl s) q hi" "h + seg_tl s \<le> hi" by (rule oos_run_ConsE)
  have sq: "sg_seqno cseg = sq i p" "sg_seqno s = sq i h"
    using assms(2) h(2) by (simp_all add: stream_part_def)
  have "h = p" using assms(3,5,6,7) h(1,5) unfolding sq by (subst (asm) sq_cmp(5)) simp_all
  show ?thesis
  proof (cases "has (sg_hflags cseg) TCP_FIN")
    case True
    then show ?thesis using assms(2,7) tl by (auto simp: tcp_oos_insert_segment_def)
  next
    case False
    have nf: "\<not> has (sg_hflags s) TCP_FIN"
      using assms(2) h(2) len \<open>h = p\<close> by (auto simp: stream_part_def)
    have "TCP_SEQ_GEQ (sg_seqno cseg + ucast (sg_len cseg)) (sg_seqno s + ucast (sg_len s))"
      unfolding sq sq_add16 \<open>h = p\<close>
      using len assms(5,6,7) h(5) by (subst sq_cmp(4)) (simp_all add: seg_tl_def)
    then have "tcp_oos_insert_segment (sg_seqno cseg) cseg (s # q) =
        tcp_oos_insert_segment (sg_seqno cseg) cseg q"
      using False nf by (simp add: tcp_oos_insert_segment_def)
    with tcp_oos_insert_segment_run [OF h(4) assms(2) tl _ _ assms(7)] h(3) \<open>h = p\<close> assms(5,6)
    show ?thesis by simp
  qed
qed

section \<open>The walk through the queue\<close>

lemma seg_cut_end_run:
  assumes "oos_run i S lo xs k" and "k \<le> h" and "seg_at i S h l" and "0 < seg_tl l"
    and "seg_at i S p cseg" and "h < p" and "p < h + 0x40000000" and "\<not> has (sg_hflags l) TCP_FIN"
  shows "oos_run i S lo (xs @ [seg_cut_end (sg_seqno cseg) l]) p"
proof -
  have sq: "sg_seqno cseg = sq i p" "sg_seqno l = sq i h"
    using assms(3,5) by (simp_all add: stream_part_def)
  have tl: "seg_tl l = unat (sg_len l)" using assms(8) by (simp add: seg_tl_def fin_len_def)
  have gt: "TCP_SEQ_GT (sg_seqno l + ucast (sg_len l)) (sg_seqno cseg) \<longleftrightarrow> p < h + unat (sg_len l)"
    unfolding sq sq_add16 using assms(6,7) unat_u16_less [of "sg_len l"]
    by (intro sq_cmp(3)) linarith+
  have "oos_run i S k [seg_cut_end (sg_seqno cseg) l] p"
  proof (cases "p < h + unat (sg_len l)")
    case True
    have d: "unat (ucast (sg_seqno cseg - sg_seqno l) :: u16) = p - h"
      unfolding sq using assms(6) True unat_u16_less [of "sg_len l"] by (intro sq_diff16) linarith+
    have "seg_at i S h (seg_cut l (ucast (sg_seqno cseg - sg_seqno l)))"
      using assms(3,8) d True by (intro seg_at_cut) simp_all
    moreover have "seg_tl (seg_cut l (ucast (sg_seqno cseg - sg_seqno l))) = p - h"
      using d assms(8) by (simp add: seg_tl_def fin_len_def)
    ultimately show ?thesis
      using assms(2,6) gt True by (simp add: seg_cut_end_def, intro exI [of _ h]) simp
  next
    case False
    then show ?thesis using assms(2,3,4) tl gt by (simp add: seg_cut_end_def, intro exI [of _ h]) simp
  qed
  with assms(1) show ?thesis by (auto simp: oos_run_append)
qed

text \<open>What the walk needs of the incoming segment and its copy, and of the segments it has
  passed: they lie before the incoming one.\<close>

definition copy_ok :: "u32 \<Rightarrow> u8 list \<Rightarrow> nat \<Rightarrow> tcp_in \<Rightarrow> tcp_seg option \<Rightarrow> bool" where
  "copy_ok i S p tin copy \<longleftrightarrow>
     g_seqno tin = sq i p \<and>
     (\<forall>cseg. copy = Some cseg \<longrightarrow> seg_at i S p cseg \<and> sg_len cseg = in_len tin \<and>
        0 < seg_tl cseg \<and> seg_tl cseg = unat (g_tcplen tin))"

definition walk_front :: "u32 \<Rightarrow> u8 list \<Rightarrow> nat \<Rightarrow> tcp_seg list \<Rightarrow> nat \<Rightarrow> nat \<Rightarrow> bool" where
  "walk_front i S lo front m p \<longleftrightarrow>
     (front = [] \<and> m = lo) \<or>
     (\<exists>xs l k h. front = xs @ [l] \<and> oos_run i S lo xs k \<and> k \<le> h \<and> seg_at i S h l \<and> 0 < seg_tl l \<and>
        m = h + seg_tl l \<and> h < p)"

lemma walk_front_cases [consumes 1, case_names empty snoc]:
  assumes "walk_front i S lo front m p"
  obtains "front = []" "m = lo"
  | xs l k h where "front = xs @ [l]" "oos_run i S lo xs k" "k \<le> h" "seg_at i S h l" "0 < seg_tl l"
      "m = h + seg_tl l" "h < p"
  using assms unfolding walk_front_def by blast

lemma walk_front_run:
  assumes "walk_front i S lo front m p"
  shows "oos_run i S lo front m"
  using assms
proof (cases rule: walk_front_cases)
  case (snoc xs l k h)
  then have "oos_run i S k [l] m" by (intro oos_run_ConsI [of _ h]) simp_all
  with snoc show ?thesis by (auto simp: oos_run_append)
qed auto

lemma walk_front_snoc:
  "walk_front i S lo front m p \<Longrightarrow> m \<le> h \<Longrightarrow> seg_at i S h s \<Longrightarrow> 0 < seg_tl s \<Longrightarrow> h < p \<Longrightarrow>
   walk_front i S lo (front @ [s]) (h + seg_tl s) p"
  unfolding walk_front_def [of _ _ _ "front @ [s]"] using walk_front_run by fastforce

lemma oos_walk_run:
  assumes "walk_front i S lo front m p" and "oos_run i S m q hi" and "copy_ok i S p tin copy"
    and "lo \<le> p" and "p + unat (g_tcplen tin) \<le> hi" and "hi < lo + 0x20000000"
    and "rcv_nxt pcb + rcv_wnd pcb = sq i hi" and "q \<noteq> []"
  shows "\<exists>front' rest' sb. oos_walk pcb tin copy front q sackbeg =
      Some (front', rest', sb, g_tcplen tin) \<and> oos_run i S lo (front' @ rest') hi"
  using assms
proof (induction q arbitrary: front m sackbeg)
  case Nil
  then show ?case by simp
next
  case (Cons s q)
  from Cons.prems(2) obtain h where h: "m \<le> h" "seg_at i S h s" "0 < seg_tl s"
    "oos_run i S (h + seg_tl s) q hi" "h + seg_tl s \<le> hi" by (rule oos_run_ConsE)
  note front = walk_front_run [OF Cons.prems(1)]
  note lom = oos_run_le [OF front]
  have whole: "oos_run i S lo (front @ s # q) hi"
    using front Cons.prems(2) by (auto simp: oos_run_append)
  have sq: "g_seqno tin = sq i p" "sg_seqno s = sq i h"
    using Cons.prems(3) h(2) by (simp_all add: stream_part_def copy_ok_def)
  have near: "p < h + 0x80000000" "h < p + 0x80000000"
    using Cons.prems(4,5,6) lom h(1,5) by linarith+
  note cmp = sq_cmp [OF near, of i]
  have copy: "seg_at i S p c" "sg_len c = in_len tin" "0 < seg_tl c" "p + seg_tl c \<le> hi"
    "sg_seqno c = sq i p" if "copy = Some c" for c
    using Cons.prems(3,5) that by (auto simp: copy_ok_def stream_part_def)
  consider (same) "h = p" | (before) "p < h" | (after) "h < p" by linarith
  then show ?case
  proof cases
    case same
    show ?thesis
    proof (cases "\<exists>c. copy = Some c \<and> in_len tin > sg_len s")
      case True
      then obtain c where c: "copy = Some c" "sg_len s < sg_len c" using copy(2) by auto
      have "oos_run i S p (tcp_oos_insert_segment (sg_seqno c) c (s # q)) hi"
        using oos_run_weaken [OF Cons.prems(2), of m] copy [OF c(1)] c(2) same h(1) sq lom
          Cons.prems(4,6)
        by (intro tcp_oos_insert_segment_run_eq [of i S m]) simp_all
      then show ?thesis
        using c copy [OF c(1)] same sq front h(1)
        by (auto simp: oos_run_append intro: oos_run_weaken)
    next
      case False
      then show ?thesis using same sq whole by (auto split: option.splits)
    qed
  next
    case before
    have run_h: "oos_run i S h (s # q) hi" using h by (intro oos_run_ConsI [of _ h]) simp_all
    from Cons.prems(1) show ?thesis
    proof (cases rule: walk_front_cases)
      case empty
      have "oos_run i S p (tcp_oos_insert_segment (sg_seqno c) c (s # q)) hi"
        if "copy = Some c" for c
        using run_h copy [OF that] before Cons.prems(4,6)
        by (intro tcp_oos_insert_segment_run [of i S h]) simp_all
      then show ?thesis
        using empty before sq whole cmp copy Cons.prems(4)
        by (auto split: option.splits intro: oos_run_weaken)
    next
      case (snoc xs l k hl)
      have hl: "hl < h" "hl < p" using snoc h(1) by simp_all
      have l: "sg_seqno l = sq i hl" using snoc by (simp add: stream_part_def)
      have "\<not> has (sg_hflags l) TCP_FIN"
        using snoc h(1,2) by (auto simp: stream_part_def seg_tl_def fin_len_def)
      moreover have hl40: "p < hl + 0x40000000"
        using snoc(3) oos_run_le [OF snoc(2)] Cons.prems(5,6) by linarith
      ultimately have cut: "oos_run i S lo (xs @ [seg_cut_end (sg_seqno c) l]) p"
        if "copy = Some c" for c
        using snoc copy [OF that] hl by (intro seg_cut_end_run) simp_all
      have ins: "oos_run i S p (tcp_oos_insert_segment (sg_seqno c) c (s # q)) hi"
        if "copy = Some c" for c
        using run_h copy [OF that] before Cons.prems(4,6)
        by (intro tcp_oos_insert_segment_run [of i S h]) simp_all
      have "TCP_SEQ_BETWEEN (g_seqno tin) (sg_seqno l + 1) (sg_seqno s - 1)"
        unfolding sq l TCP_SEQ_BETWEEN_def
        using hl before near hl40 by (simp add: sq_Suc sq_pred)
      then have walk: "oos_walk pcb tin copy front (s # q) sackbeg =
          (case copy of
             Some c \<Rightarrow> Some (xs @ [seg_cut_end (g_seqno tin) l],
               tcp_oos_insert_segment (g_seqno tin) c (s # q), sackbeg, g_tcplen tin)
           | None \<Rightarrow> Some (front, s # q, sackbeg, g_tcplen tin))"
        using snoc(1) before sq cmp by (simp add: Let_def split: option.split)
      show ?thesis
      proof (cases copy)
        case None
        with walk whole show ?thesis by simp
      next
        case (Some c)
        have "oos_run i S lo ((xs @ [seg_cut_end (sg_seqno c) l]) @
            tcp_oos_insert_segment (sg_seqno c) c (s # q)) hi"
          using cut [OF Some] ins [OF Some] by (auto simp only: oos_run_append)
        with walk Some copy(5) [OF Some] sq show ?thesis by simp
      qed
    qed
  next
    case after
    have near40: "p < h + 0x40000000" using Cons.prems(5,6) lom h(1) by linarith
    have nb: "\<not> (front \<noteq> [] \<and> TCP_SEQ_BETWEEN (g_seqno tin) (sg_seqno (List.last front) + 1) (sg_seqno s - 1))"
    proof
      assume *: "front \<noteq> [] \<and> TCP_SEQ_BETWEEN (g_seqno tin) (sg_seqno (List.last front) + 1) (sg_seqno s - 1)"
      with Cons.prems(1) have "0 < m" by (auto simp: walk_front_def)
      with h(1) have "sg_seqno s - 1 = sq i (h - 1)" using sq by (simp add: sq_pred)
      with * sq have "TCP_SEQ_LEQ (sq i p) (sq i (h - 1))" by (simp add: TCP_SEQ_BETWEEN_def)
      moreover have "p < (h - 1) + 0x80000000" "h - 1 < p + 0x80000000"
        using near40 after \<open>0 < m\<close> h(1) by linarith+
      ultimately show False using after by simp
    qed
    show ?thesis
    proof (cases "q = []")
      case True
      have end': "\<not> TCP_SEQ_GT (ucast (g_tcplen tin) + g_seqno tin) (rcv_nxt pcb + rcv_wnd pcb)"
      proof -
        have "ucast (g_tcplen tin) + g_seqno tin = sq i (p + unat (g_tcplen tin))"
          by (simp add: sq(1) sq_add16 [symmetric] add.commute)
        then show ?thesis
          using Cons.prems(4,5,6,7) unat_u16_less [of "g_tcplen tin"] by simp
      qed
      have fin: "oos_run i S lo ((front @ [seg_cut_end (sg_seqno c) s]) @ [c]) hi"
        if "copy = Some c" "\<not> has (sg_hflags s) TCP_FIN" for c
      proof -
        have "oos_run i S lo (front @ [seg_cut_end (sg_seqno c) s]) p"
          using front h copy [OF that(1)] after that(2) near40
          by (intro seg_cut_end_run) simp_all
        moreover have "oos_run i S p [c] hi"
          using copy [OF that(1)] by (intro oos_run_ConsI [of _ p]) simp_all
        ultimately show ?thesis by (auto simp only: oos_run_append)
      qed
      show ?thesis
      proof (cases "has (sg_hflags s) TCP_FIN")
        case f: True
        then show ?thesis using True after sq nb whole cmp by (auto simp: Let_def)
      next
        case f: False
        show ?thesis
        proof (cases copy)
          case None
          then show ?thesis using True f after sq nb whole cmp by (auto simp: Let_def)
        next
          case (Some c)
          have "oos_append pcb tin c = Some (c, g_tcplen tin)"
            using end' by (simp add: oos_append_def)
          then show ?thesis
            using True Some f after sq nb cmp fin [OF Some f] copy(5) [OF Some]
            by (auto simp: Let_def)
        qed
      qed
    next
      case False
      have wf: "walk_front i S lo (front @ [s]) (h + seg_tl s) p"
        using walk_front_snoc [OF Cons.prems(1) h(1,2,3) after] .
      show ?thesis
        using Cons.IH [OF wf h(4) Cons.prems(3-7) False] False after sq nb cmp
        by (auto simp: Let_def)
    qed
  qed
qed

section \<open>Delivery\<close>

lemma tcp_update_rcv_ann_wnd_simps [simp]:
  "rcv_nxt (fst (tcp_update_rcv_ann_wnd pcb)) = rcv_nxt pcb"
  "rcv_wnd (fst (tcp_update_rcv_ann_wnd pcb)) = rcv_wnd pcb"
  "ooseq (fst (tcp_update_rcv_ann_wnd pcb)) = ooseq pcb"
  "state (fst (tcp_update_rcv_ann_wnd pcb)) = state pcb"
  "rcv_sacks (fst (tcp_update_rcv_ann_wnd pcb)) = rcv_sacks pcb"
  "flags (fst (tcp_update_rcv_ann_wnd pcb)) = flags pcb"
  by (simp_all add: tcp_update_rcv_ann_wnd_def Let_def)

definition passed :: "u8 list \<Rightarrow> nat \<Rightarrow> nat \<Rightarrow> u8 list option" where
  "passed S n n' = (if n' = n then None else Some (take (n' - n) (drop n S)))"

lemma append_data_passed:
  assumes "n \<le> p" and "p + len \<le> length S"
  shows "append_data (passed S n p) (take len (drop p S)) = passed S n (p + len)"
proof (cases "len = 0 \<or> p = n")
  case True
  then show ?thesis using assms by (auto simp: append_data_def passed_def)
next
  case False
  have e: "p + len - n = (p - n) + len" "p - n + n = p" using assms(1) by simp_all
  then have "take (p + len - n) (drop n S) = take (p - n) (drop n S) @ take len (drop p S)"
    by (simp only: take_add drop_drop)
  then show ?thesis using False assms by (auto simp: append_data_def passed_def)
qed

lemma has_GOT_FIN [simp]: "has TF_GOT_FIN TF_GOT_FIN"
  by (simp add: has_def TF_GOT_FIN_def)

text \<open>After a step: where the stream stands, and the queue behind it.\<close>

definition rx_after :: "u32 \<Rightarrow> u8 list \<Rightarrow> nat \<Rightarrow> nat \<Rightarrow> tcp_pcb \<Rightarrow> bool \<Rightarrow> bool" where
  "rx_after i S n hi pcb fin \<longleftrightarrow> n \<le> length S \<and>
     (if fin then n = length S \<and> rcv_nxt pcb = sq i (n + 1) \<and> ooseq pcb = [] \<and>
        hi = n + 1 + unat (rcv_wnd pcb)
      else rcv_nxt pcb = sq i n \<and> hi = n + unat (rcv_wnd pcb) \<and>
        (ooseq pcb = [] \<or> oos_run i S (Suc n) (ooseq pcb) hi))"

lemma rcv_dequeue_run:
  assumes "oos_run i S n q hi" and "rcv_nxt pcb = sq i n" and "hi = n + unat (rcv_wnd pcb)"
    and "n \<le> length S" and "recv_data tin = passed S n0 n" and "n0 \<le> n"
    and "\<not> has (recv_flags tin) TF_GOT_FIN" and "unat (rcv_wnd pcb) < 0x40000000"
  shows "\<exists>pcb' tin' n'. rcv_dequeue pcb tin q = Some (pcb', tin') \<and> n \<le> n' \<and>
    recv_data tin' = passed S n0 n' \<and>
    rx_after i S n' hi pcb' (has (recv_flags tin') TF_GOT_FIN) \<and>
    rcv_sacks pcb' = rcv_sacks pcb \<and> flags pcb' = flags pcb \<and>
    (state pcb' = state pcb \<or> state pcb = ESTABLISHED \<and> state pcb' = CLOSE_WAIT)"
  using assms
proof (induction q arbitrary: n pcb tin)
  case Nil
  then show ?case by (fastforce simp: rx_after_def)
next
  case (Cons s q)
  from Cons.prems(1) obtain h where h: "n \<le> h" "seg_at i S h s" "0 < seg_tl s"
    "oos_run i S (h + seg_tl s) q hi" "h + seg_tl s \<le> hi" by (rule oos_run_ConsE)
  have sq: "sg_seqno s = sq i h" using h(2) by (simp add: stream_part_def)
  have eq: "sg_seqno s = rcv_nxt pcb \<longleftrightarrow> h = n"
    unfolding sq Cons.prems(2) using h(1,5) Cons.prems(3,8) by (intro sq_cmp(5)) linarith+
  show ?case
  proof (cases "h = n")
    case False
    then have "oos_run i S (Suc n) (s # q) hi" using h by (intro oos_run_ConsI [of _ h]) simp_all
    then show ?thesis using False eq Cons.prems by (fastforce simp: rx_after_def)
  next
    case True
    have tl: "unat (TCP_TCPLEN (sg_len s) (sg_hflags s)) = seg_tl s"
      using h(2) by (simp add: TCP_TCPLEN_nat seg_tl_def stream_part_def)
    have wnd: "seg_tl s \<le> unat (rcv_wnd pcb)" using h(5) True Cons.prems(3) by simp
    define pcb1 where "pcb1 = fst (tcp_update_rcv_ann_wnd (pcb\<lparr>
      rcv_nxt := rcv_nxt pcb + TCP_TCPLEN (sg_len s) (sg_hflags s),
      rcv_wnd := rcv_wnd pcb - TCP_TCPLEN (sg_len s) (sg_hflags s)\<rparr>))"
    have adv: "rcv_advance (rcv_nxt pcb + TCP_TCPLEN (sg_len s) (sg_hflags s))
        (TCP_TCPLEN (sg_len s) (sg_hflags s)) pcb = Some pcb1"
      using wnd tl by (simp add: rcv_advance_def pcb1_def word_le_nat_alt)
    have p1: "rcv_nxt pcb1 = sq i (n + seg_tl s)" "unat (rcv_wnd pcb1) = unat (rcv_wnd pcb) - seg_tl s"
      "state pcb1 = state pcb" "rcv_sacks pcb1 = rcv_sacks pcb" "flags pcb1 = flags pcb"
      using Cons.prems(2) tl wnd by (simp_all add: pcb1_def sq_add unat_sub_le)
    have data: "append_data (recv_data tin) (sg_data s) = passed S n0 (n + unat (sg_len s))"
      using h(2) True Cons.prems(5,6) by (simp add: stream_part_def append_data_passed)
    show ?thesis
    proof (cases "has (sg_hflags s) TCP_FIN")
      case fin: True
      have e: "n + unat (sg_len s) = length S" "seg_tl s = unat (sg_len s) + 1"
        using h(2) True fin by (simp_all add: stream_part_def seg_tl_def fin_len_def)
      have "q = []" using run_behind_fin [OF h(4)] True e by simp
      then show ?thesis
        using True eq adv p1 data fin e wnd Cons.prems(3)
        by (auto simp: rx_after_def intro!: exI [of _ "length S"])
    next
      case nofin: False
      then have e: "seg_tl s = unat (sg_len s)" by (simp add: seg_tl_def fin_len_def)
      have "n + seg_tl s \<le> length S" using h(2) True e by (simp add: stream_part_def)
      define tin1 where "tin1 = tin\<lparr>g_seqno := sg_seqno s,
        recv_data := append_data (recv_data tin) (sg_data s)\<rparr>"
      have "\<exists>pcb' tin' n'. rcv_dequeue pcb1 tin1 q = Some (pcb', tin') \<and> n + seg_tl s \<le> n' \<and>
          recv_data tin' = passed S n0 n' \<and>
          rx_after i S n' hi pcb' (has (recv_flags tin') TF_GOT_FIN) \<and>
          rcv_sacks pcb' = rcv_sacks pcb1 \<and> flags pcb' = flags pcb1 \<and>
          (state pcb' = state pcb1 \<or> state pcb1 = ESTABLISHED \<and> state pcb' = CLOSE_WAIT)"
        (is "\<exists>pcb' tin' n'. ?P pcb' tin' n'")
        using h(4) True p1 wnd data e Cons.prems(3-8) \<open>n + seg_tl s \<le> length S\<close>
        by (intro Cons.IH) (simp_all add: tin1_def)
      then obtain pcb' tin' n' where r: "?P pcb' tin' n'" by blast
      moreover have "rcv_dequeue pcb tin (s # q) = rcv_dequeue pcb1 tin1 q"
        using True eq adv nofin by (simp add: tin1_def)
      ultimately show ?thesis
        using p1 by (intro exI [of _ pcb'] exI [of _ tin'] exI [of _ n']) simp
    qed
  qed
qed

section \<open>In order\<close>

lemma rcv_drop_covered_run:
  assumes "oos_run i S lo q hi" and "n < lo" and "hi < n + 0x40000000" and "n + unat len \<le> hi"
    and "n + unat len \<le> length S" and "unat l = unat len" and "\<not> has hf TCP_SYN"
    and "rcv_drop_covered (sq i n) len hf l q = (hf', tl', q')"
  shows "(hf' = hf \<and> tl' = l \<and> oos_run i S lo q' hi \<and>
      uncovered i S lo (n + unat len) q')
    \<or> (hf' = hf OR TCP_FIN \<and> tl' = ucast (TCP_TCPLEN len (hf OR TCP_FIN)) \<and> q' = [] \<and>
       n + unat len = length S \<and> length S < hi)"
  using assms
proof (induction q arbitrary: lo)
  case Nil
  then show ?case by (simp add: uncovered_def)
next
  case (Cons s q)
  define e where "e = n + unat len"
  have sq: "sq i n + ucast l = sq i e" using Cons.prems(6) by (simp add: e_def sq_add16)
  have "hi < e + 0x40000000" "e < lo + 0x40000000" using Cons.prems by (simp_all add: e_def)
  then obtain h where h: "lo \<le> h" "seg_at i S h s" "oos_run i S (h + seg_tl s) q hi"
    "TCP_SEQ_GEQ (sq i e) (sg_seqno s + ucast (sg_len s)) \<longleftrightarrow> h + unat (sg_len s) \<le> e"
    "has (sg_hflags s) TCP_FIN \<longrightarrow> q = [] \<and> h + unat (sg_len s) = length S \<and> length S < hi"
    by (rule run_head [OF Cons.prems(1)])
  show ?case
  proof (cases "h + unat (sg_len s) \<le> e")
    case False
    then have "hf' = hf" "tl' = l" "q' = s # q" using Cons.prems(8) h(4) sq by simp_all
    with Cons.prems(1) uncoveredI [OF h(2,1) False] show ?thesis
      by (intro disjI1) (simp add: e_def)
  next
    case cov: True
    show ?thesis
    proof (cases "has (sg_hflags s) TCP_FIN")
      case True
      then show ?thesis
        using Cons.prems(5,7,8) cov h(4) h(5) sq by (auto simp: e_def)
    next
      case False
      then have "rcv_drop_covered (sq i n) len hf l q = (hf', tl', q')"
        using Cons.prems(8) cov h(4) sq by simp
      from Cons.IH [OF h(3) _ Cons.prems(3-7) this] Cons.prems(2) h(1)
      show ?thesis by (auto intro: oos_run_weaken uncovered_weaken)
    qed
  qed
qed

text \<open>The incoming segment carries the stream from position \<open>n\<close> on.\<close>

definition in_part :: "u32 \<Rightarrow> u8 list \<Rightarrow> nat \<Rightarrow> tcp_in \<Rightarrow> u8 list \<Rightarrow> bool" where
  "in_part i S n tin data \<longleftrightarrow>
     stream_part i S n (g_seqno tin) (in_len tin) (in_hflags tin) data \<and> in_data tin = Some data \<and>
     in_seqno tin = g_seqno tin \<and> unat (in_len tin) < 0xffff"

definition in_tl :: "tcp_in \<Rightarrow> nat" where
  "in_tl tin = unat (in_len tin) + fin_len (in_hflags tin)"

lemma tcplen16:
  assumes "\<not> has hf TCP_SYN" and "unat len < 0xffff"
  shows "unat (ucast (TCP_TCPLEN len hf) :: u16) = unat len + fin_len hf"
proof -
  have "unat (TCP_TCPLEN len hf) = unat len + fin_len hf" using assms(1) by (rule TCP_TCPLEN_nat)
  then show ?thesis using assms(2) fin_len_le [of hf] by (simp only: unat_ucast_mod) simp
qed

lemma in_partD:
  assumes "in_part i S n tin data"
  shows "g_seqno tin = sq i n" "n + unat (in_len tin) \<le> length S" "in_data tin = Some data"
    "data = take (unat (in_len tin)) (drop n S)" "\<not> has (in_hflags tin) TCP_SYN"
    "has (in_hflags tin) TCP_FIN \<Longrightarrow> n + unat (in_len tin) = length S"
    "unat (in_len tin) < 0xffff" "length data = unat (in_len tin)"
  using assms by (auto simp: in_part_def stream_part_def)

lemma rcv_trim_wnd_ok:
  assumes p: "in_part i S n tin data" and r: "rcv_nxt pcb = sq i n" and w: "rcv_wnd pcb \<le> 0xffff" "0 < rcv_wnd pcb"
  shows "\<exists>tin' data'. rcv_trim_wnd pcb tin = Some tin' \<and> in_part i S n tin' data' \<and>
    unat (g_tcplen tin') = in_tl tin' \<and> in_tl tin' \<le> unat (rcv_wnd pcb) \<and>
    (0 < in_tl tin \<longrightarrow> 0 < in_tl tin') \<and>
    recv_flags tin' = recv_flags tin \<and> recv_data tin' = recv_data tin"
proof -
  note D = in_partD [OF p]
  have tl: "unat (ucast (TCP_TCPLEN (in_len tin) (in_hflags tin)) :: u16) = in_tl tin"
    using D(5,7) by (simp add: tcplen16 in_tl_def)
  have gt: "(ucast (ucast (TCP_TCPLEN (in_len tin) (in_hflags tin)) :: u16) > rcv_wnd pcb)
      \<longleftrightarrow> unat (rcv_wnd pcb) < in_tl tin"
    using tl by (simp add: word_less_nat_alt unat_ucast_up)
  show ?thesis
  proof (cases "unat (rcv_wnd pcb) < in_tl tin")
    case False
    then show ?thesis
      using gt p tl by (intro exI [of _ "tin\<lparr>g_tcplen := ucast (TCP_TCPLEN (in_len tin) (in_hflags tin))\<rparr>"] exI [of _ data])
        (simp add: rcv_trim_wnd_def in_part_def in_tl_def)
  next
    case True
    define hf where "hf = (if has (in_hflags tin) TCP_FIN then in_hflags tin AND NOT TCP_FIN else in_hflags tin)"
    define len where "len = (ucast (rcv_wnd pcb) :: u16)"
    have len: "unat len = unat (rcv_wnd pcb)" "ucast len = rcv_wnd pcb"
      using w(1) by (simp_all add: len_def unat_ucast_mod word_le_nat_alt word_unat_eq_iff)
    have hf: "\<not> has hf TCP_SYN" "\<not> has hf TCP_FIN" using D(5) by (simp_all add: hf_def)
    have tl': "TCP_TCPLEN len hf = rcv_wnd pcb"
      using hf len(2) by (simp add: TCP_TCPLEN_def)
    define tin' where "tin' = tin\<lparr>g_tcplen := ucast (rcv_wnd pcb), in_hflags := hf, in_len := len,
      in_data := Some (take (unat len) data)\<rparr>"
    have le: "unat len \<le> unat (in_len tin)"
      using True len(1) fin_len_le [of "in_hflags tin"] by (simp add: in_tl_def)
    have "rcv_trim_wnd pcb tin = Some tin'"
      using True gt D(1,3,5) w(1) tl' len(2) r
      by (cases "has (in_hflags tin) TCP_FIN")
        (simp_all add: rcv_trim_wnd_def Let_def tin'_def len_def hf_def)
    moreover have "in_part i S n tin' (take (unat len) data)"
      using p hf le D(7) stream_part_cut [of i S n "g_seqno tin" "in_len tin" "in_hflags tin" data len hf]
      by (simp add: in_part_def tin'_def)
    moreover have "unat (g_tcplen tin') = in_tl tin'" "in_tl tin' = unat (rcv_wnd pcb)"
      using hf len(1) by (simp_all add: tin'_def in_tl_def fin_len_def flip: len_def)
    ultimately show ?thesis using w(2) by (auto simp: tin'_def word_less_nat_alt)
  qed
qed

lemma rcv_fit_ooseq_ok:
  assumes p: "in_part i S n tin data" and "unat (g_tcplen tin) = in_tl tin" and "n + in_tl tin \<le> hi"
    and q: "ooseq pcb = [] \<or> oos_run i S (Suc n) (ooseq pcb) hi" and "hi < n + 0x40000000"
  shows "\<exists>tin' data' q'. rcv_fit_ooseq pcb tin = Some (pcb\<lparr>ooseq := q'\<rparr>, tin') \<and>
    in_part i S n tin' data' \<and> unat (g_tcplen tin') = in_tl tin' \<and> n + in_tl tin' \<le> hi \<and>
    (0 < in_tl tin \<longrightarrow> 0 < in_tl tin') \<and> oos_run i S (n + in_tl tin') q' hi \<and>
    recv_flags tin' = recv_flags tin \<and> recv_data tin' = recv_data tin"
proof -
  note D = in_partD [OF p]
  consider (empty) "ooseq pcb = []" | (fin) "ooseq pcb \<noteq> []" "has (in_hflags tin) TCP_FIN"
    | (fit) "ooseq pcb \<noteq> []" "\<not> has (in_hflags tin) TCP_FIN" by auto
  then show ?thesis
  proof cases
    case empty
    then have "pcb = pcb\<lparr>ooseq := []\<rparr>" by simp
    then show ?thesis
      using empty assms(2,3) p by (intro exI [of _ tin] exI [of _ data] exI [of _ "[]"]) (simp add: rcv_fit_ooseq_def)
  next
    case fin
    then show ?thesis
      using assms(2,3) p by (intro exI [of _ tin] exI [of _ data] exI [of _ "[]"]) (simp add: rcv_fit_ooseq_def)
  next
    case fit
    with q have run: "oos_run i S (Suc n) (ooseq pcb) hi" by simp
    have tl: "in_tl tin = unat (in_len tin)" using fit(2) by (simp add: in_tl_def fin_len_def)
    obtain hf l q' where c: "rcv_drop_covered (g_seqno tin) (in_len tin) (in_hflags tin)
        (g_tcplen tin) (ooseq pcb) = (hf, l, q')" by (metis prod_cases3)
    from rcv_drop_covered_run [OF run _ assms(5) _ D(2) _ D(5) c [unfolded D(1)]] assms(2,3) tl
    consider (keep) "hf = in_hflags tin" "l = g_tcplen tin" "oos_run i S (Suc n) q' hi"
        "uncovered i S (Suc n) (n + unat (in_len tin)) q'"
      | (take) "hf = in_hflags tin OR TCP_FIN" "l = ucast (TCP_TCPLEN (in_len tin) hf)" "q' = []"
        "n + unat (in_len tin) = length S" "length S < hi" by auto
    then show ?thesis
    proof cases
      case take
      define tin' where "tin' = tin\<lparr>g_tcplen := l, in_hflags := hf\<rparr>"
      have hf: "\<not> has hf TCP_SYN" "fin_len hf = 1" using take(1) D(5) by (simp_all add: fin_len_def)
      have "unat l = unat (in_len tin) + 1"
        using tcplen16 [OF hf(1) D(7)] take(2) hf(2) by simp
      then show ?thesis
        using fit c take p hf D
        by (intro exI [of _ tin'] exI [of _ data] exI [of _ "[]"])
          (simp add: rcv_fit_ooseq_def tin'_def in_tl_def in_part_def stream_part_def)
    next
      case keep
      then have tin: "tin\<lparr>g_tcplen := l, in_hflags := hf\<rparr> = tin" by simp
      show ?thesis
      proof (cases q')
        case Nil
        then show ?thesis
          using fit c keep tin assms(2,3) p
          by (intro exI [of _ tin] exI [of _ data] exI [of _ "[]"]) (simp add: rcv_fit_ooseq_def)
      next
        case (Cons s q'')
        from keep(3) [unfolded Cons] obtain h where h: "Suc n \<le> h" "seg_at i S h s" "0 < seg_tl s"
          "oos_run i S (h + seg_tl s) q'' hi" "h + seg_tl s \<le> hi" by (rule oos_run_ConsE)
        have s: "sg_seqno s = sq i h" using h(2) by (simp add: stream_part_def)
        have e: "g_seqno tin + ucast (g_tcplen tin) = sq i (n + in_tl tin)"
          using D(1) assms(2) by (simp add: sq_add16)
        have gt: "TCP_SEQ_GT (g_seqno tin + ucast (g_tcplen tin)) (sg_seqno s) \<longleftrightarrow> h < n + in_tl tin"
          unfolding e s using h(1,5) assms(3,5) by (intro sq_cmp(3)) simp_all
        have fit_eq: "rcv_fit_ooseq pcb tin =
          (if h < n + in_tl tin then do {
             let len = ucast (sg_seqno s - g_seqno tin) - (if has (in_hflags tin) TCP_SYN then 1 else 0);
             let l = ucast (TCP_TCPLEN len (in_hflags tin));
             LWIP_ASSERT (g_seqno tin + ucast l = sg_seqno s);
             Some (pcb\<lparr>ooseq := q'\<rparr>, tin\<lparr>g_tcplen := l, in_len := len,
                            in_data := Some (take (unat len) data)\<rparr>)
           } else Some (pcb\<lparr>ooseq := q'\<rparr>, tin))"
          using fit c keep(1,2) tin Cons gt D(3) by (simp add: rcv_fit_ooseq_def Let_def)
        show ?thesis
        proof (cases "h < n + in_tl tin")
          case False
          then have "oos_run i S (n + in_tl tin) q' hi"
            unfolding Cons using h by (intro oos_run_ConsI [of _ h]) simp_all
          then show ?thesis
            using False fit_eq p assms(2,3) by (intro exI [of _ tin] exI [of _ data] exI [of _ q']) simp
        next
          case True
          define len where "len = (ucast (sg_seqno s - g_seqno tin) :: u16)"
          have len: "unat len = h - n"
            unfolding len_def s D(1) using h(1) True tl D(7) by (intro sq_diff16) linarith+
          have l: "unat (ucast (TCP_TCPLEN len (in_hflags tin)) :: u16) = h - n"
            using tcplen16 [OF D(5), of len] len fit(2) True tl D(7) by (simp add: fin_len_def)
          define tin' where "tin' = tin\<lparr>g_tcplen := ucast (TCP_TCPLEN len (in_hflags tin)),
            in_len := len, in_data := Some (take (unat len) data)\<rparr>"
          have "g_seqno tin + ucast (ucast (TCP_TCPLEN len (in_hflags tin)) :: u16) = sg_seqno s"
            unfolding D(1) s sq_add16 l using h(1) by simp
          then have "rcv_fit_ooseq pcb tin = Some (pcb\<lparr>ooseq := q'\<rparr>, tin')"
            using fit_eq True D(5) by (simp add: Let_def tin'_def flip: len_def)
          moreover have "in_part i S n tin' (take (unat len) data)"
            using p len True tl fit(2) D(5,7)
              stream_part_cut [of i S n "g_seqno tin" "in_len tin" "in_hflags tin" data len "in_hflags tin"]
            by (simp add: in_part_def tin'_def)
          moreover have "in_tl tin' = h - n"
            using len fit(2) by (simp add: tin'_def in_tl_def fin_len_def)
          moreover have "oos_run i S h q' hi"
            unfolding Cons using h by (intro oos_run_ConsI [of _ h]) simp_all
          ultimately show ?thesis
            using l h(1,5) by (intro exI [of _ tin'] exI [of _ "take (unat len) data"] exI [of _ q'])
              (simp add: tin'_def)
        qed
      qed
    qed
  qed
qed

text \<open>Delivery in order from position \<open>n\<close>, where the connection stands.\<close>

lemma tcp_ack_simps [simp]:
  "rcv_nxt (tcp_ack pcb) = rcv_nxt pcb" "rcv_wnd (tcp_ack pcb) = rcv_wnd pcb"
  "ooseq (tcp_ack pcb) = ooseq pcb" "state (tcp_ack pcb) = state pcb"
  "rcv_sacks (tcp_ack pcb) = rcv_sacks pcb"
  by (simp_all add: tcp_ack_def tcp_ack_now_def tcp_set_flags_def tcp_clear_flags_def)

lemma sack_array_length [simp]: "length (sack_array xs) = 4"
  by (simp add: sack_array_def)

lemma rcv_tidy_sacks_simps:
  assumes "length (rcv_sacks pcb) = 4"
  shows "rcv_nxt (rcv_tidy_sacks pcb) = rcv_nxt pcb" "rcv_wnd (rcv_tidy_sacks pcb) = rcv_wnd pcb"
    "ooseq (rcv_tidy_sacks pcb) = ooseq pcb" "state (rcv_tidy_sacks pcb) = state pcb"
    "length (rcv_sacks (rcv_tidy_sacks pcb)) = 4"
  using assms
  by (simp_all add: rcv_tidy_sacks_def tcp_remove_sacks_lt_list LWIP_TCP_MAX_SACK_NUM_def
      split: list.split)

lemma rx_after_cong:
  "rcv_nxt pcb' = rcv_nxt pcb \<Longrightarrow> rcv_wnd pcb' = rcv_wnd pcb \<Longrightarrow> ooseq pcb' = ooseq pcb \<Longrightarrow>
   rx_after i S n hi pcb' fin \<longleftrightarrow> rx_after i S n hi pcb fin"
  by (simp add: rx_after_def)

lemma rcv_pass_up_ok:
  assumes p: "in_part i S n tin data" and l: "unat (g_tcplen tin) = in_tl tin"
    and w: "in_tl tin \<le> unat (rcv_wnd pcb)" and d: "recv_data tin = None"
    and g: "\<not> has (recv_flags tin) TF_GOT_FIN"
  shows "\<exists>pcb' tin'. rcv_pass_up pcb tin = Some (pcb', tin') \<and>
    rcv_nxt pcb' = sq i (n + in_tl tin) \<and> unat (rcv_wnd pcb') = unat (rcv_wnd pcb) - in_tl tin \<and>
    ooseq pcb' = ooseq pcb \<and> state pcb' = state pcb \<and> rcv_sacks pcb' = rcv_sacks pcb \<and>
    flags pcb' = flags pcb \<and> recv_data tin' = passed S n (n + unat (in_len tin)) \<and>
    (has (recv_flags tin') TF_GOT_FIN \<longleftrightarrow> has (in_hflags tin) TCP_FIN)"
proof -
  note D = in_partD [OF p]
  have u: "unat (ucast (g_tcplen tin) :: u32) = in_tl tin" using l by (simp add: unat_ucast_up)
  have nxt: "g_seqno tin + ucast (g_tcplen tin) = sq i (n + in_tl tin)"
    using D(1) l by (simp add: sq_add16)
  have "data \<noteq> [] \<longleftrightarrow> unat (in_len tin) \<noteq> 0" unfolding D(8) [symmetric] by simp
  then have "passed S n (n + unat (in_len tin)) = (if data = [] then None else Some data)"
    by (cases "data = []") (simp_all only: passed_def D(4) [symmetric] add_diff_cancel_left', simp_all)
  then show ?thesis
    using u nxt w D(3) d g
    by (cases "data = []"; cases "has (in_hflags tin) TCP_FIN")
      (simp_all add: rcv_pass_up_def rcv_advance_def word_le_nat_alt unat_sub_le)
qed

lemma rcv_in_order_ok:
  assumes p: "in_part i S n tin data" and r: "rcv_nxt pcb = sq i n"
    and w: "rcv_wnd pcb \<le> 0xffff" "0 < rcv_wnd pcb"
    and q: "ooseq pcb = [] \<or> oos_run i S (Suc n) (ooseq pcb) (n + unat (rcv_wnd pcb))"
    and d: "recv_data tin = None" and g: "\<not> has (recv_flags tin) TF_GOT_FIN"
    and s: "length (rcv_sacks pcb) = 4"
  shows "\<exists>pcb' tin' acts n'. rcv_in_order v6 pcb tin = Some (pcb', tin', acts) \<and> n \<le> n' \<and>
    recv_data tin' = passed S n n' \<and>
    rx_after i S n' (n + unat (rcv_wnd pcb)) pcb' (has (recv_flags tin') TF_GOT_FIN) \<and>
    length (rcv_sacks pcb') = 4 \<and>
    (0 < in_tl tin \<longrightarrow> n < n' \<or> has (recv_flags tin') TF_GOT_FIN) \<and>
    (state pcb' = state pcb \<or> state pcb = ESTABLISHED \<and> state pcb' = CLOSE_WAIT)"
proof -
  define hi where "hi = n + unat (rcv_wnd pcb)"
  have hi: "hi < n + 0x40000000"
    using w(1) by (simp add: hi_def word_le_nat_alt)
  from rcv_trim_wnd_ok [OF p r w] obtain tin1 data1 where t1:
    "rcv_trim_wnd pcb tin = Some tin1" "in_part i S n tin1 data1" "unat (g_tcplen tin1) = in_tl tin1"
    "in_tl tin1 \<le> unat (rcv_wnd pcb)" "0 < in_tl tin \<longrightarrow> 0 < in_tl tin1"
    "recv_flags tin1 = recv_flags tin" "recv_data tin1 = recv_data tin"
    by (elim exE conjE) (rule that)
  have "n + in_tl tin1 \<le> hi" using t1(4) by (simp add: hi_def)
  from rcv_fit_ooseq_ok [OF t1(2,3) this q [folded hi_def] hi] obtain tin2 data2 q2 where t2:
    "rcv_fit_ooseq pcb tin1 = Some (pcb\<lparr>ooseq := q2\<rparr>, tin2)" "in_part i S n tin2 data2"
    "unat (g_tcplen tin2) = in_tl tin2" "n + in_tl tin2 \<le> hi" "0 < in_tl tin1 \<longrightarrow> 0 < in_tl tin2"
    "oos_run i S (n + in_tl tin2) q2 hi" "recv_flags tin2 = recv_flags tin1"
    "recv_data tin2 = recv_data tin1" by (elim exE conjE) (rule that)
  from rcv_pass_up_ok [OF t2(2,3), of "pcb\<lparr>ooseq := q2\<rparr>"] t2(4,7,8) t1(6,7) d g
  obtain pcb3 tin3 where t3: "rcv_pass_up (pcb\<lparr>ooseq := q2\<rparr>) tin2 = Some (pcb3, tin3)"
    "rcv_nxt pcb3 = sq i (n + in_tl tin2)" "unat (rcv_wnd pcb3) = unat (rcv_wnd pcb) - in_tl tin2"
    "ooseq pcb3 = q2" "state pcb3 = state pcb" "rcv_sacks pcb3 = rcv_sacks pcb"
    "recv_data tin3 = passed S n (n + unat (in_len tin2))"
    "has (recv_flags tin3) TF_GOT_FIN \<longleftrightarrow> has (in_hflags tin2) TCP_FIN"
    by (auto simp: hi_def)
  note D = in_partD [OF t2(2)]
  have "\<exists>pcb4 tin4 n'. rcv_dequeue pcb3 tin3 (ooseq pcb3) = Some (pcb4, tin4) \<and>
    n + unat (in_len tin2) \<le> n' \<and> recv_data tin4 = passed S n n' \<and>
    rx_after i S n' hi pcb4 (has (recv_flags tin4) TF_GOT_FIN) \<and> rcv_sacks pcb4 = rcv_sacks pcb3 \<and>
    (in_tl tin2 = unat (in_len tin2) \<or> has (recv_flags tin4) TF_GOT_FIN) \<and>
    (state pcb4 = state pcb3 \<or> state pcb3 = ESTABLISHED \<and> state pcb4 = CLOSE_WAIT)"
  proof (cases "has (in_hflags tin2) TCP_FIN")
    case True
    then have tl: "in_tl tin2 = unat (in_len tin2) + 1" and e: "n + unat (in_len tin2) = length S"
      using D(6) by (simp_all add: in_tl_def fin_len_def)
    then have "q2 = []" using run_behind_fin [OF t2(6)] by simp
    then show ?thesis
      using True tl e t3 t2(4)
      by (intro exI [of _ "pcb3\<lparr>ooseq := []\<rparr>"] exI [of _ tin3] exI [of _ "length S"])
        (simp add: rx_after_def hi_def)
  next
    case False
    then have tl: "in_tl tin2 = unat (in_len tin2)" by (simp add: in_tl_def fin_len_def)
    from rcv_dequeue_run [OF t2(6) t3(2) _ _ t3(7) [folded tl], folded t3(4)] t3(3,8) False D(2) tl
      t2(4) w(1)
    show ?thesis by (fastforce simp: hi_def word_le_nat_alt)
  qed
  then obtain pcb4 tin4 n' where t4: "rcv_dequeue pcb3 tin3 (ooseq pcb3) = Some (pcb4, tin4)"
    "n + unat (in_len tin2) \<le> n'" "recv_data tin4 = passed S n n'"
    "rx_after i S n' hi pcb4 (has (recv_flags tin4) TF_GOT_FIN)" "rcv_sacks pcb4 = rcv_sacks pcb3"
    "in_tl tin2 = unat (in_len tin2) \<or> has (recv_flags tin4) TF_GOT_FIN"
    "state pcb4 = state pcb3 \<or> state pcb3 = ESTABLISHED \<and> state pcb4 = CLOSE_WAIT"
    by (elim exE conjE) (rule that)
  have l4: "length (rcv_sacks pcb4) = 4" using t4(5) t3(6) s by simp
  note tidy = rcv_tidy_sacks_simps [OF l4]
  have "rx_after i S n' hi (tcp_ack (rcv_tidy_sacks pcb4)) (has (recv_flags tin4) TF_GOT_FIN)"
    using t4(4) tidy rx_after_cong [of "tcp_ack (rcv_tidy_sacks pcb4)" pcb4] by simp
  moreover have "0 < in_tl tin \<longrightarrow> n < n' \<or> has (recv_flags tin4) TF_GOT_FIN"
    using t4(2,6) t1(5) t2(5) by auto
  moreover have "n \<le> n'" using t4(2) by simp
  ultimately show ?thesis
    using t1(1) t2(1) t3(1,5) t4(1,3,7) tidy
    by (simp add: rcv_in_order_def hi_def Let_def, intro exI [of _ n']) simp
qed

section \<open>The whole\<close>

text \<open>The receive side of a connection at position \<open>n\<close> of the stream: everything before
  \<open>n\<close> was handed over, and what waits behind is queued in order and within the window.\<close>

definition rx_ok :: "u32 \<Rightarrow> u8 list \<Rightarrow> nat \<Rightarrow> tcp_pcb \<Rightarrow> bool" where
  "rx_ok i S n pcb \<longleftrightarrow> rx_after i S n (n + unat (rcv_wnd pcb)) pcb False \<and> rcv_wnd pcb \<le> 0xffff \<and>
     length (rcv_sacks pcb) = 4"

text \<open>An honest segment at position \<open>p\<close>, not too far from the window, that does not exceed
  the window if it is out of order.\<close>

definition honest :: "u32 \<Rightarrow> u8 list \<Rightarrow> nat \<Rightarrow> nat \<Rightarrow> nat \<Rightarrow> tcp_in \<Rightarrow> bool" where
  "honest i S n wnd p tin \<longleftrightarrow> (\<exists>data. in_part i S p tin data) \<and>
     unat (g_tcplen tin) = in_tl tin \<and> recv_data tin = None \<and> \<not> has (recv_flags tin) TF_GOT_FIN \<and>
     n < p + 0x40000000 \<and> p < n + 0x40000000 \<and> (p \<le> n \<or> p + in_tl tin \<le> n + wnd)"

lemma tcp_add_sack_simps:
  assumes "length (rcv_sacks pcb) = 4"
  shows "rcv_nxt (tcp_add_sack pcb l r) = rcv_nxt pcb" "rcv_wnd (tcp_add_sack pcb l r) = rcv_wnd pcb"
    "state (tcp_add_sack pcb l r) = state pcb" "ooseq (tcp_add_sack pcb l r) = ooseq pcb"
    "length (rcv_sacks (tcp_add_sack pcb l r)) = 4"
proof -
  have "\<exists>x. tcp_add_sack pcb l r = pcb\<lparr>rcv_sacks := x\<rparr> \<and> length x = 4"
  proof (cases "\<not> has (flags pcb) TF_SACK \<or> \<not> TCP_SEQ_LT l r")
    case True
    then have "tcp_add_sack pcb l r = pcb\<lparr>rcv_sacks := rcv_sacks pcb\<rparr>"
      unfolding tcp_add_sack_def by (simp only: if_True) simp
    with assms show ?thesis by blast
  next
    case False
    then show ?thesis
      using tcp_add_sack_list [OF assms, of l r] sack_array_length by blast
  qed
  then obtain x where x: "tcp_add_sack pcb l r = pcb\<lparr>rcv_sacks := x\<rparr>" "length x = 4" by blast
  show "rcv_nxt (tcp_add_sack pcb l r) = rcv_nxt pcb" "rcv_wnd (tcp_add_sack pcb l r) = rcv_wnd pcb"
    "state (tcp_add_sack pcb l r) = state pcb" "ooseq (tcp_add_sack pcb l r) = ooseq pcb"
    "length (rcv_sacks (tcp_add_sack pcb l r)) = 4"
    using x(2) by (simp_all add: x(1))
qed

lemma oos_add_sack_simps:
  assumes "length (rcv_sacks pcb) = 4"
  shows "rcv_nxt (oos_add_sack pcb front rest l) = rcv_nxt pcb"
    "rcv_wnd (oos_add_sack pcb front rest l) = rcv_wnd pcb"
    "state (oos_add_sack pcb front rest l) = state pcb"
    "ooseq (oos_add_sack pcb front rest l) = ooseq pcb"
    "length (rcv_sacks (oos_add_sack pcb front rest l)) = 4"
  using tcp_add_sack_simps [OF assms] assms
  by (simp_all add: oos_add_sack_def Let_def split: list.split)

lemma rcv_out_of_order_ok:
  assumes "in_part i S p tin data" and "unat (g_tcplen tin) = in_tl tin" and "0 < in_tl tin"
    and "n < p" and "p + in_tl tin \<le> n + unat (rcv_wnd pcb)" and "rcv_wnd pcb \<le> 0xffff"
    and "rcv_nxt pcb = sq i n" and "length (rcv_sacks pcb) = 4"
    and "ooseq pcb = [] \<or> oos_run i S (Suc n) (ooseq pcb) (n + unat (rcv_wnd pcb))"
  shows "\<exists>pcb' tin'. rcv_out_of_order mem pcb tin = Some (pcb', tin', [Send_empty_ack]) \<and>
    rcv_nxt pcb' = rcv_nxt pcb \<and> rcv_wnd pcb' = rcv_wnd pcb \<and> state pcb' = state pcb \<and>
    length (rcv_sacks pcb') = 4 \<and>
    (ooseq pcb' = [] \<or> oos_run i S (Suc n) (ooseq pcb') (n + unat (rcv_wnd pcb))) \<and>
    recv_data tin' = recv_data tin \<and> recv_flags tin' = recv_flags tin"
proof -
  note D = in_partD [OF assms(1)]
  have copy: "copy_ok i S p tin (tcp_seg_copy mem tin data)"
    using assms(1-3) by (auto simp: copy_ok_def tcp_seg_copy_def in_part_def seg_tl_def in_tl_def stream_part_def)
  have w: "n + unat (rcv_wnd pcb) < Suc n + 0x20000000" using assms(6) by (simp add: word_le_nat_alt)
  show ?thesis
  proof (cases "ooseq pcb")
    case Nil
    have "oos_run i S (Suc n) [c] (n + unat (rcv_wnd pcb))" if "tcp_seg_copy mem tin data = Some c" for c
      using copy that assms(2-5) by (intro oos_run_ConsI [of _ p]) (auto simp: copy_ok_def)
    then show ?thesis
      using Nil D(3) assms(8) by (auto simp: rcv_out_of_order_def Let_def split: option.split)
  next
    case (Cons s q)
    with assms(9) have run: "oos_run i S (Suc n) (s # q) (n + unat (rcv_wnd pcb))" by simp
    define sb where "sb = (if TCP_SEQ_LT (g_seqno tin) (sg_seqno s) then g_seqno tin else sg_seqno s)"
    have "walk_front i S (Suc n) [] (Suc n) p" by (simp add: walk_front_def)
    from oos_walk_run [OF this run copy _ _ w, of pcb sb] assms(2,4,5,7)
    obtain front rest sb' where walk:
      "oos_walk pcb tin (tcp_seg_copy mem tin data) [] (s # q) sb = Some (front, rest, sb', g_tcplen tin)"
      "oos_run i S (Suc n) (front @ rest) (n + unat (rcv_wnd pcb))"
      by (auto simp: sq_add)
    define pcb1 where "pcb1 = pcb\<lparr>ooseq := front @ rest\<rparr>"
    have "rcv_out_of_order mem pcb tin =
        Some (oos_add_sack pcb1 front rest sb', tin\<lparr>g_tcplen := g_tcplen tin\<rparr>, [Send_empty_ack])"
      using Cons D(3) walk(1) by (simp add: rcv_out_of_order_def Let_def sb_def pcb1_def)
    then show ?thesis
      using walk(2) oos_add_sack_simps [of pcb1 front rest sb'] assms(8) by (simp add: pcb1_def)
  qed
qed

lemma sq_shift: "sq i p = sq (i - 1) (Suc p)" "sq i p - 1 = sq (i - 1) p"
  by (simp_all add: sq_def)

lemma in_window:
  assumes "p < n + 0x40000000" and "n < p + 0x40000000" and "unat w < 0x40000000"
  shows "TCP_SEQ_BETWEEN (sq i p) (sq i n) (sq i n + w - 1) \<longleftrightarrow> n \<le> p \<and> p < n + unat w"
proof -
  have "TCP_SEQ_LEQ (sq i p) (sq i n + w - 1) \<longleftrightarrow> Suc p \<le> n + unat w"
    unfolding sq_add sq_shift(2) unfolding sq_shift(1) [of i p] using assms by (intro sq_cmp(2)) simp_all
  then show ?thesis using assms by (auto simp: TCP_SEQ_BETWEEN_def)
qed

lemma rcv_trim_front_ok:
  assumes p: "in_part i S p tin data" and l: "unat (g_tcplen tin) = in_tl tin" "0 < in_tl tin"
    and r: "rcv_nxt pcb = sq i n" and near: "p < n + 0x40000000" "n < p + 0x40000000"
  shows "(p < n \<and> n < p + in_tl tin \<and>
      (\<exists>tin' data'. rcv_trim_front pcb tin = Some (pcb, tin') \<and> in_part i S n tin' data' \<and>
        in_tl tin' = in_tl tin - (n - p) \<and> recv_data tin' = recv_data tin \<and> recv_flags tin' = recv_flags tin))
    \<or> (p < n \<and> p + in_tl tin \<le> n \<and> rcv_trim_front pcb tin = Some (tcp_ack_now pcb, tin))
    \<or> (n \<le> p \<and> rcv_trim_front pcb tin = Some (pcb, tin))"
proof -
  note D = in_partD [OF p]
  have tl: "in_tl tin \<le> 65535" using unat_u16_le [of "g_tcplen tin"] l(1) by simp
  have e: "g_seqno tin + ucast (g_tcplen tin) - 1 = sq i (p + in_tl tin - 1)"
    using D(1) l by (simp add: sq_add16 sq_pred)
  have lt: "TCP_SEQ_LT (g_seqno tin) (rcv_nxt pcb) \<longleftrightarrow> p < n" using D(1) r near by simp
  have "TCP_SEQ_GEQ (sq i n) (sq i (Suc p)) \<longleftrightarrow> Suc p \<le> n"
    using near by (intro sq_cmp(4)) linarith+
  moreover have "TCP_SEQ_LEQ (sq i n) (sq i (p + in_tl tin - 1)) \<longleftrightarrow> n \<le> p + in_tl tin - 1"
    using near tl l(2) by (intro sq_cmp(2)) linarith+
  ultimately have b: "TCP_SEQ_BETWEEN (rcv_nxt pcb) (g_seqno tin + 1) (g_seqno tin + ucast (g_tcplen tin) - 1)
      \<longleftrightarrow> p < n \<and> n < p + in_tl tin"
    unfolding TCP_SEQ_BETWEEN_def e r unfolding D(1) sq_Suc using l(2) by auto
  show ?thesis
  proof (cases "p < n \<and> n < p + in_tl tin")
    case False
    then show ?thesis using b lt by (auto simp: rcv_trim_front_def)
  next
    case True
    have d: "unat (rcv_nxt pcb - g_seqno tin) = n - p"
      unfolding r D(1) using True near by (intro sq_diff(2)) simp_all
    have k: "unat (ucast (rcv_nxt pcb - g_seqno tin) :: u16) = n - p"
      unfolding r D(1) using True tl by (intro sq_diff16) linarith+
    have le: "n - p \<le> unat (in_len tin)"
      using True fin_len_le [of "in_hflags tin"] unfolding in_tl_def by linarith
    have lt16: "n - p < 65535" using True tl by linarith
    define tin' where "tin' = tin\<lparr>g_seqno := rcv_nxt pcb, in_seqno := rcv_nxt pcb,
      in_len := in_len tin - ucast (rcv_nxt pcb - g_seqno tin), in_data := Some (drop (n - p) data)\<rparr>"
    have len: "unat (in_len tin') = unat (in_len tin) - (n - p)"
      unfolding tin'_def using k le by (simp add: unat_sub_le)
    have "rcv_trim_front pcb tin = Some (pcb, tin')"
      using b True D(3,8) d k le lt16
      by (simp add: rcv_trim_front_def tin'_def Let_def word_less_nat_alt)
    moreover have "in_part i S n tin' (drop (n - p) data)"
      using p True le len r D(2,4-7)
      by (auto simp: in_part_def stream_part_def tin'_def drop_take)
    moreover have "in_tl tin' = in_tl tin - (n - p)"
      using len le by (simp add: in_tl_def tin'_def)
    ultimately show ?thesis using True by (auto simp: tin'_def)
  qed
qed

lemma tcp_ack_now_simps [simp]:
  "rcv_nxt (tcp_ack_now pcb) = rcv_nxt pcb" "rcv_wnd (tcp_ack_now pcb) = rcv_wnd pcb"
  "ooseq (tcp_ack_now pcb) = ooseq pcb" "state (tcp_ack_now pcb) = state pcb"
  "rcv_sacks (tcp_ack_now pcb) = rcv_sacks pcb"
  by (simp_all add: tcp_ack_now_def tcp_set_flags_def)

text \<open>One honest segment: the step never aborts, what it hands over is the next part of the
  stream, and the connection is well-formed behind it. If the segment reaches the next
  position and the window is open, the connection moves on.\<close>

lemma tcp_receive_text_step:
  assumes rx: "rx_ok i S n pcb" and h: "honest i S n (unat (rcv_wnd pcb)) p tin"
    and st: "state pcb < CLOSE_WAIT"
  shows "\<exists>pcb' tin' acts n'. tcp_receive_text v6 mem pcb tin = Some (pcb', tin', acts) \<and>
    n \<le> n' \<and> recv_data tin' = passed S n n' \<and>
    rx_after i S n' (n + unat (rcv_wnd pcb)) pcb' (has (recv_flags tin') TF_GOT_FIN) \<and>
    length (rcv_sacks pcb') = 4 \<and>
    (p \<le> n \<and> n < p + in_tl tin \<and> 0 < rcv_wnd pcb \<longrightarrow>
       n < n' \<or> has (recv_flags tin') TF_GOT_FIN) \<and>
    (state pcb' = state pcb \<or> state pcb = ESTABLISHED \<and> state pcb' = CLOSE_WAIT)"
proof -
  from rx have R: "rx_after i S n (n + unat (rcv_wnd pcb)) pcb False" "rcv_wnd pcb \<le> 0xffff"
    "length (rcv_sacks pcb) = 4" by (simp_all add: rx_ok_def)
  then have r: "rcv_nxt pcb = sq i n"
    and q: "ooseq pcb = [] \<or> oos_run i S (Suc n) (ooseq pcb) (n + unat (rcv_wnd pcb))"
    by (simp_all add: rx_after_def)
  from h obtain data where H: "in_part i S p tin data" "unat (g_tcplen tin) = in_tl tin"
    "recv_data tin = None" "\<not> has (recv_flags tin) TF_GOT_FIN" "p < n + 0x40000000"
    "n < p + 0x40000000" "p \<le> n \<or> p + in_tl tin \<le> n + unat (rcv_wnd pcb)"
    by (auto simp: honest_def)
  have w: "unat (rcv_wnd pcb) < 0x40000000" using R(2) by (simp add: word_le_nat_alt)
  have keep: "\<exists>n'. n \<le> n' \<and> recv_data tin = passed S n n' \<and>
      rx_after i S n' (n + unat (rcv_wnd pcb)) pcb1 (has (recv_flags tin) TF_GOT_FIN) \<and>
      (\<not> b \<longrightarrow> n < n' \<or> has (recv_flags tin) TF_GOT_FIN)"
    if "rcv_nxt pcb1 = rcv_nxt pcb" "rcv_wnd pcb1 = rcv_wnd pcb" "ooseq pcb1 = ooseq pcb" "b" for pcb1 b
    using R(1) H(3,4) that rx_after_cong [of pcb1 pcb] by (intro exI [of _ n]) (simp add: passed_def)
  have pos: "g_tcplen tin > 0 \<longleftrightarrow> 0 < in_tl tin" using H(2) by (simp add: word_less_nat_alt)
  show ?thesis
  proof (cases "0 < in_tl tin")
    case False
    then show ?thesis
      using pos R(3) keep [of pcb "p \<le> n \<longrightarrow> \<not> n < p + in_tl tin"]
        keep [of "tcp_ack_now pcb" "p \<le> n \<longrightarrow> \<not> n < p + in_tl tin"]
      by (auto simp: tcp_receive_text_def)
  next
    case True
    note front = rcv_trim_front_ok [OF H(1,2) True r H(5,6)]
    have eq: "tcp_receive_text v6 mem pcb tin = do {
        (pcb, tin) \<leftarrow> rcv_trim_front pcb tin;
        if TCP_SEQ_BETWEEN (g_seqno tin) (rcv_nxt pcb) (rcv_nxt pcb + rcv_wnd pcb - 1) then
          (if rcv_nxt pcb = g_seqno tin then rcv_in_order v6 pcb tin
           else rcv_out_of_order mem pcb tin)
        else Some (pcb, tin, [Send_empty_ack])
      }"
      using True pos st by (simp add: tcp_receive_text_def)
    from front consider
      (cut) tin1 data1 where "p < n" "n < p + in_tl tin" "rcv_trim_front pcb tin = Some (pcb, tin1)"
        "in_part i S n tin1 data1" "in_tl tin1 = in_tl tin - (n - p)" "recv_data tin1 = recv_data tin"
        "recv_flags tin1 = recv_flags tin"
      | (old) "p < n" "p + in_tl tin \<le> n" "rcv_trim_front pcb tin = Some (tcp_ack_now pcb, tin)"
      | (new) "n \<le> p" "rcv_trim_front pcb tin = Some (pcb, tin)" by blast
    then show ?thesis
    proof cases
      case cut
      note D1 = in_partD [OF cut(4)]
      have win: "TCP_SEQ_BETWEEN (g_seqno tin1) (rcv_nxt pcb) (rcv_nxt pcb + rcv_wnd pcb - 1)
          \<longleftrightarrow> 0 < rcv_wnd pcb"
        using in_window [of n n "rcv_wnd pcb" i] w D1(1) r by (simp add: word_less_nat_alt)
      show ?thesis
      proof (cases "0 < rcv_wnd pcb")
        case False
        then show ?thesis
          using eq cut win R(3) keep [of pcb "\<not> 0 < rcv_wnd pcb"] by auto
      next
        case wnd: True
        then have "tcp_receive_text v6 mem pcb tin = rcv_in_order v6 pcb tin1"
          using eq cut(3) win D1(1) r by simp
        then show ?thesis
          using rcv_in_order_ok [OF cut(4) r R(2) wnd q _ _ R(3), of v6] H(3,4) cut by auto
      qed
    next
      case old
      have "\<not> TCP_SEQ_BETWEEN (g_seqno tin) (rcv_nxt pcb) (rcv_nxt pcb + rcv_wnd pcb - 1)"
        using in_window [of p n "rcv_wnd pcb" i] w in_partD(1) [OF H(1)] r old(1) H(5,6) by simp
      then show ?thesis
        using eq old R(3) keep [of "tcp_ack_now pcb" "\<not> n < p + in_tl tin"] by auto
    next
      case new
      have win: "TCP_SEQ_BETWEEN (g_seqno tin) (rcv_nxt pcb) (rcv_nxt pcb + rcv_wnd pcb - 1)
          \<longleftrightarrow> p < n + unat (rcv_wnd pcb)"
        using in_window [of p n "rcv_wnd pcb" i] w in_partD(1) [OF H(1)] r new(1) H(5,6) by simp
      have same: "rcv_nxt pcb = g_seqno tin \<longleftrightarrow> p = n"
        using in_partD(1) [OF H(1)] r H(5,6) by auto
      consider "\<not> p < n + unat (rcv_wnd pcb)" | "p < n + unat (rcv_wnd pcb)" "p = n"
        | "p < n + unat (rcv_wnd pcb)" "n < p" using new(1) by linarith
      then show ?thesis
      proof cases
        case 1
        then show ?thesis
          using eq new win R(3) keep [of pcb "p = n \<longrightarrow> \<not> 0 < rcv_wnd pcb"]
          by (auto simp: word_less_nat_alt)
      next
        case 2
        then have wnd: "0 < rcv_wnd pcb" by (simp add: word_less_nat_alt)
        have "tcp_receive_text v6 mem pcb tin = rcv_in_order v6 pcb tin"
          using eq new(2) win same 2 by simp
        then show ?thesis
          using rcv_in_order_ok [OF H(1) [unfolded 2(2)] r R(2) wnd q H(3,4) R(3), of v6] by auto
      next
        case 3
        with H(7) have "p + in_tl tin \<le> n + unat (rcv_wnd pcb)" by simp
        from rcv_out_of_order_ok [OF H(1,2) True 3(2) this R(2) r R(3) q, of mem]
        obtain pcb' tin' where o: "rcv_out_of_order mem pcb tin = Some (pcb', tin', [Send_empty_ack])"
          "rcv_nxt pcb' = rcv_nxt pcb" "rcv_wnd pcb' = rcv_wnd pcb" "state pcb' = state pcb"
          "length (rcv_sacks pcb') = 4"
          "ooseq pcb' = [] \<or> oos_run i S (Suc n) (ooseq pcb') (n + unat (rcv_wnd pcb))"
          "recv_data tin' = recv_data tin" "recv_flags tin' = recv_flags tin" by blast
        then show ?thesis
          using eq new(2) win same 3 R(1) r H(3,4)
          by (auto simp: rx_after_def passed_def)
      qed
    qed
  qed
qed

end
