(* ===== verification/Tcp_tx.thy ===== *)
theory Tcp_tx imports Tcp_ack Tcp_stream begin

text \<open>
  The send side of a connection as a queue of the written stream: the segments that are not
  yet acknowledged, in the order of their sequence numbers, tile the stream \<open>S\<close> of bytes
  the application wrote. Here are the lemmas on the single operations.
\<close>

section \<open>Segments that tile the stream\<close>

lemma opt_length_0 [simp]: "LWIP_TCP_OPT_LENGTH 0 = 0"
  by (simp add: LWIP_TCP_OPT_LENGTH_def has_def)

definition tx_seg :: "u32 \<Rightarrow> u8 list \<Rightarrow> nat \<Rightarrow> tcp_seg \<Rightarrow> bool" where
  "tx_seg i S p s \<longleftrightarrow> seg_at i S p s \<and> 0 < seg_tl s \<and> sg_flags s = 0 \<and> sg_hlen s = 5 \<and> sg_bufs s \<noteq> [] \<and>
     sum_list (map fst (sg_bufs s)) = length (sg_data s) \<and> (\<forall>b\<in>set (tl (sg_bufs s)). 0 < fst b) \<and>
     \<not> has (sg_hflags s) TCP_RST"

fun tiles :: "u32 \<Rightarrow> u8 list \<Rightarrow> nat \<Rightarrow> tcp_seg list \<Rightarrow> nat \<Rightarrow> bool" where
  "tiles i S p [] hi \<longleftrightarrow> p = hi"
| "tiles i S p (s # q) hi \<longleftrightarrow> tx_seg i S p s \<and> tiles i S (p + seg_tl s) q hi"

definition clens :: "tcp_seg list \<Rightarrow> nat" where
  "clens q = sum_list (map (\<lambda>s. length (sg_bufs s)) q)"

definition dlens :: "tcp_seg list \<Rightarrow> nat" where
  "dlens q = sum_list (map (\<lambda>s. unat (sg_len s)) q)"

lemma clens_simps [simp]:
  "clens [] = 0" "clens (s # q) = length (sg_bufs s) + clens q" "clens (a @ b) = clens a + clens b"
  by (simp_all add: clens_def)

lemma dlens_simps [simp]:
  "dlens [] = 0" "dlens (s # q) = unat (sg_len s) + dlens q" "dlens (a @ b) = dlens a + dlens b"
  by (simp_all add: dlens_def)

lemma tiles_append: "tiles i S p (a @ b) hi \<longleftrightarrow> (\<exists>m. tiles i S p a m \<and> tiles i S m b hi)"
  by (induction a arbitrary: p) auto

lemma tiles_le: "tiles i S p q hi \<Longrightarrow> p \<le> hi"
  by (induction q arbitrary: p) fastforce+

lemma seg_at_mono: "seg_at i S p s \<Longrightarrow> \<not> has (sg_hflags s) TCP_FIN \<Longrightarrow> seg_at i (S @ T) p s"
  by (auto simp: stream_part_def)

lemma tx_seg_mono: "tx_seg i S p s \<Longrightarrow> \<not> has (sg_hflags s) TCP_FIN \<Longrightarrow> tx_seg i (S @ T) p s"
  by (auto simp: tx_seg_def seg_at_mono)

text \<open>A FIN lies behind the stream.\<close>

lemma tiles_no_fin:
  "tiles i S p q hi \<Longrightarrow> hi \<le> length S \<Longrightarrow> s \<in> set q \<Longrightarrow> \<not> has (sg_hflags s) TCP_FIN"
proof (induction q arbitrary: p)
  case (Cons x q)
  have "p + seg_tl x \<le> hi" using Cons.prems(1) tiles_le by fastforce
  moreover have "has (sg_hflags x) TCP_FIN \<Longrightarrow> p + seg_tl x = Suc (length S)"
    using Cons.prems(1) by (simp add: tx_seg_def stream_part_def seg_tl_def fin_len_def)
  ultimately show ?case using Cons by auto
qed simp

lemma tiles_mono:
  "tiles i S p q hi \<Longrightarrow> (\<And>s. s \<in> set q \<Longrightarrow> \<not> has (sg_hflags s) TCP_FIN) \<Longrightarrow> tiles i (S @ T) p q hi"
  by (induction q arbitrary: p) (auto simp: tx_seg_mono)

section \<open>\<^verbatim>\<open>tcp_write\<close>\<close>

lemma prealloc_spare:
  assumes "tcp_pbuf_prealloc e layer len max_len pcb apiflags first w = (w', Some os)" and "len \<le> max_len"
  shows "unat os + unat len \<le> unat max_len"
proof -
  define k where "k = min (unat max_len) (LWIP_MEM_ALIGN_SIZE (unat len + TCP_OVERSIZE))"
  have k: "k \<le> unat max_len" "len < max_len \<Longrightarrow> unat len \<le> k"
    by (auto simp: k_def LWIP_MEM_ALIGN_SIZE_def TCP_OVERSIZE_def word_less_nat_alt)
  then have "k < 65536" using unat_u16_less [of max_len] by linarith
  note k = this k
  obtain alloc where a: "os = alloc - len" "alloc = len \<or> len < max_len \<and> alloc = of_nat k"
    using assms(1) unfolding tcp_pbuf_prealloc_def k_def Let_def
    by (auto split: prod.splits option.splits if_splits)
  then have "len \<le> alloc" "unat alloc \<le> unat max_len"
    using k assms(2) by (auto simp: word_le_nat_alt unat_of_nat_u16)
  then show ?thesis using a(1) by (simp add: unat_sub word_le_nat_alt)
qed

lemma write_enqueue_seg:
  assumes "write_enqueue e pcb part bufs pos ql w = (w', Some (seg, ql'))"
    and "unat ql \<le> 32" and "length bufs \<le> 2"
  shows "unat ql' = unat ql + length bufs \<and> unat ql' \<le> 32 \<and>
    seg = \<lparr>sg_src = local_port pcb, sg_dest = remote_port pcb, sg_seqno = snd_lbb pcb + ucast pos,
      sg_hlen = 5, sg_hflags = 0, sg_len = of_nat (length part), sg_data = part, sg_bufs = bufs, sg_flags = 0\<rparr>"
proof -
  have "unat (ql + of_nat (length bufs)) = unat ql + length bufs"
    using assms(2,3) by (simp add: unat_add_small unat_of_nat_u16)
  then show ?thesis using assms(1)
    by (auto simp: write_enqueue_def tcp_create_segment_def Let_def TCP_SND_QUEUELEN_def
        TCP_SNDQUEUELEN_OVERFLOW_def LWIP_TCP_OPT_LENGTH_def split: if_splits prod.splits bool.splits option.splits)
qed

text \<open>Spare room lies behind a buffer of the stack, never behind a reference.\<close>

definition spare_ok :: "tcp_pcb \<Rightarrow> u16 \<Rightarrow> tcp_seg \<Rightarrow> bool" where
  "spare_ok pcb os s \<longleftrightarrow> unat os + unat (sg_len s) \<le> unat (write_mss pcb) \<and>
     (os \<noteq> 0 \<longrightarrow> snd (List.last (sg_bufs s)) = None)"

text \<open>What the loop of phase 3 adds.\<close>

definition new_segs :: "u32 \<Rightarrow> u8 list \<Rightarrow> u8 list \<Rightarrow> tcp_pcb \<Rightarrow> u8 \<Rightarrow> nat \<Rightarrow> u16 \<Rightarrow> u16 \<Rightarrow> tcp_seg list \<Rightarrow> u16 \<Rightarrow> u16 \<Rightarrow> bool" where
  "new_segs i S data pcb apiflags pos ql os new ql' os' \<longleftrightarrow>
     (pos < length data \<longrightarrow> write_mss pcb \<noteq> 0) \<and>
     tiles i (S @ data) (length S + pos) new (length S + length data) \<and>
     unat ql' = unat ql + clens new \<and>
     (\<forall>s\<in>set new. sg_hflags s = 0 \<and> sg_len s \<le> write_mss pcb) \<and>
     (if new = [] then os' = os
      else (\<not> has apiflags TCP_WRITE_FLAG_COPY \<longrightarrow> os' = 0) \<and> spare_ok pcb os' (List.last new))"

lemma new_segs_Nil: "pos = length data \<Longrightarrow> new_segs i S data pcb apiflags pos ql os [] ql os"
  by (simp add: new_segs_def)

lemma new_segs_Cons:
  assumes rest: "new_segs i S data pcb apiflags (pos + unat n) ql1 os1 new ql' os'"
    and n: "n = min (of_nat (length data) - of_nat pos) (write_mss pcb)" and pos: "pos < length data" "length data < 65536"
    and lbb: "snd_lbb pcb = sq i (length S)"
    and seg: "seg = \<lparr>sg_src = local_port pcb, sg_dest = remote_port pcb, sg_seqno = snd_lbb pcb + ucast (of_nat pos :: u16),
      sg_hlen = 5, sg_hflags = 0, sg_len = of_nat (length part), sg_data = part, sg_bufs = bufs, sg_flags = 0\<rparr>"
    and part: "part = take (unat n) (drop pos data)"
    and bufs: "bufs \<noteq> []" "sum_list (map fst bufs) = unat n" "tl bufs = [] \<or> (\<exists>a. bufs = [(0, None), (unat n, a)])" and ql: "unat ql1 = unat ql + length bufs"
    and os: "has apiflags TCP_WRITE_FLAG_COPY \<Longrightarrow>
        unat os1 + unat n \<le> unat (write_mss pcb) \<and> snd (List.last bufs) = None"
      "\<not> has apiflags TCP_WRITE_FLAG_COPY \<Longrightarrow> os1 = 0" and mss: "write_mss pcb \<noteq> 0"
  shows "new_segs i S data pcb apiflags pos ql os (seg # new) ql' os'"
proof -
  have d: "unat (of_nat (length data) - of_nat pos :: u16) = length data - pos"
    using pos by (simp add: unat_sub word_le_nat_alt unat_of_nat_u16)
  have "0 < unat (write_mss pcb)" using mss by (simp add: unat_gt_0)
  then have un: "unat n \<le> length data - pos" "n \<le> write_mss pcb" "0 < unat n"
    using d pos(1) by (auto simp: n min_def word_le_nat_alt)
  have lp: "length part = unat n" using un by (simp add: part)
  have sl: "sg_len seg = n" using lp by (simp add: seg)
  have p16: "unat (of_nat pos :: u16) = pos" using pos by (simp add: unat_of_nat_u16)
  have "seg_at i (S @ data) (length S + pos) seg"
    using un pos(1) unfolding stream_part_def sl by (simp add: seg lbb sq_add16 p16 part)
  then have t: "tx_seg i (S @ data) (length S + pos) seg" "seg_tl seg = unat n"
    using bufs lp un sl by (auto simp: tx_seg_def seg_tl_def fin_len_def seg)
  have "sg_bufs seg = bufs" by (simp add: seg)
  then have "spare_ok pcb os' (List.last (seg # new))" "\<not> has apiflags TCP_WRITE_FLAG_COPY \<longrightarrow> os' = 0"
    using rest os sl un(2) by (cases "new = []"; cases "has apiflags TCP_WRITE_FLAG_COPY";
        force simp: new_segs_def spare_ok_def word_le_nat_alt)+
  then show ?thesis using rest t sl un(2) mss ql bufs(1)
    by (auto simp: new_segs_def add.assoc seg)
qed


lemma write_phase3_ok:
  assumes "unat pos \<le> length data" and len: "length data < 65536" and "unat ql \<le> 32"
    and copy: "\<not> has apiflags TCP_WRITE_FLAG_COPY \<Longrightarrow> os = 0" and lbb: "snd_lbb pcb = sq i (length S)"
  shows "\<exists>w' r. write_phase3 e pcb arg data apiflags pos ql os queue w = Some (w', r) \<and>
    (\<forall>q ql' os'. r = Some (q, ql', os') \<longrightarrow>
      (\<exists>new. q = queue @ new \<and> new_segs i S data pcb apiflags (unat pos) ql os new ql' os'))"
  using assms(1,3) copy
proof (induction "40 - unat ql" arbitrary: pos ql os queue w rule: less_induct)
  case less
  define left where "left = of_nat (length data) - pos"
  define n where "n = min left (write_mss pcb)"
  define part where "part = take (unat n) (drop (unat pos) data)"
  have un: "unat (of_nat (length data) :: u16) = length data" using len by (simp add: unat_of_nat_u16)
  have o0: "LWIP_TCP_OPT_LENGTH 0 = 0" by (simp add: LWIP_TCP_OPT_LENGTH_def)
  note unfold = write_phase3.simps [of e pcb arg data apiflags pos ql os queue w] o0 Let_def
  show ?case
  proof (cases "pos < of_nat (length data)")
    case False
    then have "unat pos = length data" using less.prems(1) un by (simp add: word_less_nat_alt)
    then show ?thesis using False by (simp add: unfold new_segs_Nil)
  next
    case True
    then have pos: "unat pos < length data" using un by (simp add: word_less_nat_alt)
    have "unat left = length data - unat pos" using less.prems(1) un by (simp add: left_def unat_sub_le)
    then have n: "unat n \<le> length data - unat pos" "n \<le> write_mss pcb"
      by (auto simp: n_def min_def word_le_nat_alt)
    have pn: "unat (pos + n) = unat pos + unat n" using n(1) pos len by (intro unat_add_small) simp
    have lp: "length part = unat n" using n by (simp add: part_def)
    have step: "\<exists>w' r. write_phase3 e pcb arg data apiflags (pos + n) ql1 os1 (queue @ [seg]) w1 = Some (w', r) \<and>
        (\<forall>q ql' os'. r = Some (q, ql', os') \<longrightarrow>
          (\<exists>new. q = queue @ new \<and> new_segs i S data pcb apiflags (unat pos) ql os new ql' os'))"
      if enq: "write_enqueue e pcb part bufs pos ql w0 = (w1, Some (seg, ql1))"
        and bufs: "bufs \<noteq> []" "length bufs \<le> 2" "sum_list (map fst bufs) = unat n"
          "tl bufs = [] \<or> (\<exists>a. bufs = [(0, None), (unat n, a)])"
        and os: "has apiflags TCP_WRITE_FLAG_COPY \<Longrightarrow>
            unat os1 + unat n \<le> unat (write_mss pcb) \<and> snd (List.last bufs) = None"
          "\<not> has apiflags TCP_WRITE_FLAG_COPY \<Longrightarrow> os1 = 0" for bufs seg ql1 os1 w0 w1
    proof -
      note s = write_enqueue_seg [OF enq less.prems(2) bufs(2)]
      have lt: "40 - unat ql1 < 40 - unat ql"
        using s bufs(1) less.prems(2) by (cases bufs) auto
      have le: "unat (pos + n) \<le> length data" using pn n(1) pos by simp
      have q1: "unat ql1 \<le> 32" using s by simp
      obtain w' r where r: "write_phase3 e pcb arg data apiflags (pos + n) ql1 os1 (queue @ [seg]) w1 = Some (w', r)"
        "\<forall>q ql' os'. r = Some (q, ql', os') \<longrightarrow>
          (\<exists>new. q = (queue @ [seg]) @ new \<and> new_segs i S data pcb apiflags (unat (pos + n)) ql1 os1 new ql' os')"
        using less.hyps [OF lt le q1 os(2)] by blast
      have "\<exists>new. q = queue @ new \<and> new_segs i S data pcb apiflags (unat pos) ql os new ql' os'"
        if res: "r = Some (q, ql', os')" for q ql' os'
      proof -
        from r(2) res obtain new where new: "q = (queue @ [seg]) @ new"
          "new_segs i S data pcb apiflags (unat pos + unat n) ql1 os1 new ql' os'" unfolding pn by blast
        have mss: "write_mss pcb \<noteq> 0"
        proof
          assume "write_mss pcb = 0"
          then have "n = 0" by (simp add: n_def)
          then show False using new(2) \<open>write_mss pcb = 0\<close> pos by (simp add: new_segs_def)
        qed
        have "new_segs i S data pcb apiflags (unat pos) ql os (seg # new) ql' os'"
          by (rule new_segs_Cons [OF new(2) _ pos len lbb _ part_def bufs(1,3,4) _ os mss])
             (use s in \<open>auto simp: n_def left_def\<close>)
        then show ?thesis using new(1) by simp
      qed
      then show ?thesis using r(1) by blast
    qed
    show ?thesis
    proof (cases "has apiflags TCP_WRITE_FLAG_COPY")
      case copy: True
      obtain w1 r1 where p1: "tcp_pbuf_prealloc e PBUF_TRANSPORT n (write_mss pcb) pcb apiflags (queue = []) w = (w1, r1)"
        by fastforce
      show ?thesis
      proof (cases r1)
        case None
        then show ?thesis using True copy p1 by (simp add: unfold n_def left_def)
      next
        case (Some os1)
        have sp: "unat os1 + unat n \<le> unat (write_mss pcb)"
          using prealloc_spare [OF p1 [unfolded Some] n(2)] .
        obtain w2 r2 where p2: "write_enqueue e pcb part [(unat n, None)] pos ql w1 = (w2, r2)" by fastforce
        show ?thesis
        proof (cases r2)
          case None
          then show ?thesis using True copy p1 p2 Some by (simp add: unfold n_def left_def part_def)
        next
          case (Some sq2)
          obtain seg ql1 where sq2: "sq2 = (seg, ql1)" by fastforce
          show ?thesis using step [OF p2 [unfolded Some sq2], of os1] sp copy True p1 p2 \<open>r1 = Some os1\<close> Some sq2
            by (simp add: unfold n_def left_def part_def)
        qed
      qed
    next
      case nocopy: False
      then have os0: "os = 0" using less.prems(3) by simp
      obtain w1 r1 where p1: "te_pbuf_alloc e PBUF_TRANSPORT n PBUF_ROM w = (w1, r1)" by fastforce
      obtain w2 r2 where p2: "te_pbuf_alloc e PBUF_TRANSPORT 0 PBUF_RAM w1 = (w2, r2)" by fastforce
      obtain w3 r3 where p3: "write_enqueue e pcb part [(0, None), (unat n, Some (arg + unat pos))] pos ql w2 = (w3, r3)"
        by fastforce
      show ?thesis
      proof (cases "r1 = None \<or> r2 = None \<or> r3 = None")
        case True
        with \<open>pos < of_nat (length data)\<close> nocopy os0 p1 p2 p3 show ?thesis
          unfolding unfold by (auto simp: n_def left_def part_def split: option.splits)
      next
        case False
        then obtain x1 x2 seg ql1 where x: "r1 = Some x1" "r2 = Some x2" "r3 = Some (seg, ql1)" by auto
        from step [OF p3 [unfolded x(3)], of 0] nocopy True os0 p1 p2 p3 x show ?thesis
          unfolding unfold by (simp add: n_def left_def part_def)
      qed
    qed
  qed
qed


text \<open>Phases 1 and 2: what they plan for the last unsent segment.\<close>

definition grown :: "u8 list \<Rightarrow> nat \<Rightarrow> nat \<Rightarrow> tcp_seg \<Rightarrow> tcp_seg \<Rightarrow> bool" where
  "grown data n k s s' \<longleftrightarrow> n \<le> length data \<and> sg_seqno s' = sg_seqno s \<and> sg_hflags s' = sg_hflags s \<and> sg_flags s' = sg_flags s \<and> sg_hlen s' = sg_hlen s \<and>
     unat (sg_len s') = unat (sg_len s) + n \<and> sg_data s' = sg_data s @ take n data \<and>
     sum_list (map fst (sg_bufs s')) = sum_list (map fst (sg_bufs s)) + n \<and>
     length (sg_bufs s') = length (sg_bufs s) + k \<and>
     ((\<forall>b\<in>set (tl (sg_bufs s)). 0 < fst b) \<longrightarrow> (\<forall>b\<in>set (tl (sg_bufs s')). 0 < fst b))"

lemma grow_last_buf_props [simp]:
  "bs \<noteq> [] \<Longrightarrow> sum_list (map fst (grow_last_buf k bs)) = sum_list (map fst bs) + k"
  "bs \<noteq> [] \<Longrightarrow> length (grow_last_buf k bs) = length bs" "grow_last_buf k bs \<noteq> []"
proof -
  assume b: "bs \<noteq> []"
  then obtain xs n a where "bs = xs @ [(n, a)]" by (cases bs rule: rev_cases) auto
  then show "sum_list (map fst (grow_last_buf k bs)) = sum_list (map fst bs) + k"
    "length (grow_last_buf k bs) = length bs" by (simp_all add: grow_last_buf_def)
qed (simp add: grow_last_buf_def)

lemma grow_last_buf_tl:
  assumes "bs \<noteq> []" and "\<forall>b\<in>set (tl bs). 0 < fst b"
  shows "\<forall>b\<in>set (tl (grow_last_buf k bs)). 0 < fst b"
proof -
  obtain xs n a where b: "bs = xs @ [(n, a)]" using assms(1) by (cases bs rule: rev_cases) auto
  show ?thesis using assms(2) by (cases xs) (auto simp: b grow_last_buf_def)
qed

lemma grown_refl [simp]: "grown data 0 0 s s"
  by (simp add: grown_def)

lemma grown_extend:
  assumes "unat (sg_len s) + n < 65536" and "n \<le> length data" and "sg_bufs s \<noteq> []" and "x = of_nat n"
  shows "grown data n 0 s (s\<lparr>sg_data := sg_data s @ take n data, sg_bufs := grow_last_buf n (sg_bufs s),
    sg_len := sg_len s + x\<rparr>)"
  using assms grow_last_buf_tl [of "sg_bufs s" n] by (simp add: grown_def unat_add_small unat_of_nat_u16)

lemma grown_concat:
  assumes g: "grown data n 0 s s'" and "sg_bufs s \<noteq> []" and "0 < fst b" and "unat (sg_len s) + n + fst b < 65536" and "n + fst b \<le> length data"
  shows "grown data (n + fst b) 1 s (s'\<lparr>sg_data := sg_data s' @ take (fst b) (drop n data),
    sg_bufs := sg_bufs s' @ [b], sg_len := sg_len s' + of_nat (fst b)\<rparr>)"
proof -
  have "sg_bufs s' \<noteq> []" using g assms(2) by (auto simp: grown_def)
  with assms show ?thesis by (simp add: grown_def unat_add_small unat_of_nat_u16 take_add)
qed

lemma tx_seg_grown:
  assumes "tx_seg i S p s" and "grown data n k s s'" and "p + unat (sg_len s) = length S" and "\<not> has (sg_hflags s) TCP_FIN"
  shows "tx_seg i (S @ data) p s' \<and> seg_tl s' = seg_tl s + n \<and> sg_bufs s' \<noteq> []"
proof -
  from assms(1,3) have "sg_data s = drop p S" "length (sg_data s) = unat (sg_len s)" "p \<le> length S"
    by (auto simp: tx_seg_def stream_part_def)
  with assms show ?thesis
    by (auto simp: tx_seg_def grown_def stream_part_def seg_tl_def fin_len_def take_append)
qed

lemma write_plan_ok:
  assumes p1: "write_phase1 pcb l len = Some (wp0, space)"
    and p2: "write_phase2 e pcb l arg len apiflags wp0 space w = Some (w', Some wp)"
    and len: "len = of_nat (length data)" "length data < 65536" and l: "sg_bufs l \<noteq> []" "sg_flags l = 0"
    and ql: "len \<noteq> 0 \<longrightarrow> unat (snd_queuelen pcb) < 32"
  shows "\<exists>k. grown data (unat (wp_pos wp)) k l (write_commit_last wp data l) \<and>
    unat (wp_queuelen wp) = unat (snd_queuelen pcb) + k \<and> (len \<noteq> 0 \<longrightarrow> unat (wp_queuelen wp) \<le> 32) \<and>
    (wp_pos wp < len \<and> \<not> has apiflags TCP_WRITE_FLAG_COPY \<longrightarrow> wp_oversize wp = 0) \<and>
    ((unsent_oversize pcb \<noteq> 0 \<longrightarrow> snd (List.last (sg_bufs l)) = None) \<longrightarrow>
       spare_ok pcb (wp_oversize wp) (write_commit_last wp data l))"
proof -
  have o0: "LWIP_TCP_OPT_LENGTH 0 = 0" by (simp add: LWIP_TCP_OPT_LENGTH_def)
  define os where "os = unsent_oversize pcb"
  define sp where "sp = write_mss pcb - sg_len l"
  define used where "used = (if os > 0 then min sp (min os len) else 0)"
  have a: "unat (sg_len l) \<le> unat (write_mss pcb)" "os > 0 \<longrightarrow> os \<le> sp" "os - used = 0 \<or> used = len"
    and wp0: "wp0 = \<lparr>wp_used = used, wp_oversize = os - used, wp_pos = used, wp_queuelen = snd_queuelen pcb,
            wp_concat = None, wp_extend = 0, wp_last = (os > 0)\<rparr>" and space: "space = sp - used"
    using p1 unfolding write_phase1_def Let_def l(2) o0 os_def [symmetric]
    by (auto simp: sp_def used_def bind_eq_Some_conv split: if_splits)
  have unlen: "unat len = length data" using len by (simp add: unat_of_nat_u16)
  have usp: "unat sp = unat (write_mss pcb) - unat (sg_len l)" using a(1) by (simp add: sp_def unat_sub_le)
  have u: "unat used \<le> unat sp" "unat used \<le> length data" "unat used \<le> unat os"
    using unlen by (auto simp: used_def min_def word_le_nat_alt)
  have usp2: "unat space = unat sp - unat used" using u(1) by (simp add: space unat_sub_le)
  have uos: "unat (os - used) = unat os - unat used" using u(3) by (simp add: unat_sub_le)
  have os_sp: "unat os \<le> unat sp" using a(2) by (cases "os = 0") (auto simp: word_le_nat_alt word_gt_0)
  have mss: "unat (write_mss pcb) < 65536" by simp
  define l1 where "l1 = (if used > 0 then l\<lparr>sg_data := sg_data l @ take (unat used) data,
    sg_bufs := grow_last_buf (unat used) (sg_bufs l), sg_len := sg_len l + used\<rparr> else l)"
  have "unat (sg_len l) + unat used < 65536" using usp u(1) mss a(1) by linarith
  then have g1: "grown data (unat used) 0 l l1"
    using grown_extend [of l "unat used" data used] u(2) l(1) by (auto simp: l1_def word_gt_0)
  show ?thesis
  proof (cases "used < len \<and> space > 0 \<and> sg_len l > 0")
    case False
    then have "wp = wp0" using p2 by (auto simp: write_phase2_def wp0)
    moreover have "write_commit_last wp0 data l = l1"
      by (simp add: write_commit_last_def wp0 l1_def)
    moreover have "unat (sg_len l1) = unat (sg_len l) + unat used" using g1 by (simp add: grown_def)
    moreover have "snd (List.last (sg_bufs l1)) = snd (List.last (sg_bufs l))" by (simp add: l1_def grow_last_buf_def)
    moreover have "os - used \<noteq> 0 \<Longrightarrow> os \<noteq> 0" by (auto simp: used_def)
    ultimately show ?thesis
      using g1 ql a(1,3) usp u uos os_sp by (intro exI [of _ 0]) (auto simp: wp0 spare_ok_def os_def)
  next
    case True
    define n where "n = min space (len - used)"
    have ul: "unat (len - used) = length data - unat used" using u(2) unlen by (simp add: unat_sub_le)
    have n: "unat n \<le> unat space" "unat n \<le> length data - unat used" "0 < unat n"
      using True ul u(2) unlen by (auto simp: n_def min_def word_le_nat_alt word_less_nat_alt)
    have pn: "unat (used + n) = unat used + unat n" using n(2) len(2) u(2) by (intro unat_add_small) simp
    have os0: "os - used = 0" using a(3) True by auto
    have q: "unat (snd_queuelen pcb) < 32" using ql True by (cases "len = 0") simp_all
    have q1: "unat (snd_queuelen pcb + 1) = unat (snd_queuelen pcb) + 1" using q by (simp add: unat_add_small)
    have bound: "unat (sg_len l) + unat used + unat n \<le> unat (write_mss pcb)" using n(1) usp usp2 u(1) a(1) by simp
    have g2: "grown data (unat used + unat n) 1 l (write_commit_last wp data l)"
      if "wp = wp0\<lparr>wp_pos := used + n, wp_last := True, wp_oversize := os', wp_concat := Some (unat n, r),
            wp_queuelen := ql'\<rparr>" for os' r ql'
    proof -
      have cl: "write_commit_last wp data l = l1\<lparr>sg_data := sg_data l1 @ take (unat n) (drop (unat used) data),
          sg_bufs := sg_bufs l1 @ [(unat n, r)], sg_len := sg_len l1 + of_nat (unat n)\<rparr>"
        using that by (simp add: write_commit_last_def wp0 l1_def)
      have "unat (sg_len l) + unat used + unat n < 65536" "unat used + unat n \<le> length data"
        using bound mss n(2) u(2) by linarith+
      then show ?thesis unfolding cl using grown_concat [OF g1 l(1), of "(unat n, r)"] n(3) by simp
    qed
    have sl2: "unat (sg_len (write_commit_last wp data l)) = unat (sg_len l) + unat used + unat n"
      if "grown data (unat used + unat n) k l (write_commit_last wp data l)" for k
      using that by (simp add: grown_def)
    note p2' = p2 [unfolded write_phase2_def Let_def] True
    show ?thesis
    proof (cases "has apiflags TCP_WRITE_FLAG_COPY")
      case copy: True
      with p2' obtain os' where os': "tcp_pbuf_prealloc e PBUF_RAW n space pcb apiflags True w = (w', Some os')"
        and wp: "wp = wp0\<lparr>wp_pos := used + n, wp_last := True, wp_oversize := os', wp_concat := Some (unat n, None),
            wp_queuelen := snd_queuelen pcb + 1\<rparr>"
        by (auto simp: wp0 n_def split: prod.splits option.splits)
      have "unat os' + unat n \<le> unat space" using prealloc_spare [OF os'] n(1) by (simp add: word_le_nat_alt)
      then have "unat os' + unat (sg_len (write_commit_last wp data l)) \<le> unat (write_mss pcb)"
        unfolding sl2 [OF g2 [OF wp]] using usp usp2 u(1) a(1) by simp
      moreover have "snd (List.last (sg_bufs (write_commit_last wp data l))) = None"
        by (simp add: wp write_commit_last_def Let_def)
      ultimately show ?thesis using g2 [OF wp] q q1 copy pn by (intro exI [of _ 1]) (simp add: wp spare_ok_def)
    next
      case nocopy: False
      obtain m a where la: "List.last (sg_bufs l) = (m, a)" by fastforce
      show ?thesis
      proof (cases "map_option (\<lambda>a. a + m) a = Some arg")
        case ext: True
        with p2' nocopy la have wp: "used = 0" "wp = wp0\<lparr>wp_pos := used + n, wp_last := True, wp_extend := n\<rparr>"
          by (auto simp: wp0 n_def bind_eq_Some_conv split: option.splits)
        have "0 < n" using n(3) by (simp add: word_less_nat_alt)
        then have cl: "write_commit_last wp data l = l\<lparr>sg_data := sg_data l @ take (unat n) data,
          sg_bufs := grow_last_buf (unat n) (sg_bufs l), sg_len := sg_len l + n\<rparr>"
          using wp by (simp add: write_commit_last_def wp0)
        have "grown data (unat n) 0 l (write_commit_last wp data l)"
          unfolding cl using bound mss n(2) l(1) wp(1) by (intro grown_extend) (linarith | simp)+
        moreover from this have "unat (sg_len (write_commit_last wp data l)) = unat (sg_len l) + unat n"
          by (simp add: grown_def)
        ultimately show ?thesis using wp q os0 bound pn by (intro exI [of _ 0]) (simp add: wp0 spare_ok_def)
      next
        case False
        with p2' nocopy la have wp: "wp = wp0\<lparr>wp_pos := used + n, wp_last := True, wp_oversize := wp_oversize wp0,
            wp_concat := Some (unat n, Some (arg + unat used)), wp_queuelen := snd_queuelen pcb + 1\<rparr>"
          by (auto simp: wp0 n_def split: prod.splits option.splits if_splits)
        show ?thesis using g2 [OF wp] sl2 [OF g2 [OF wp]] q q1 os0 bound pn
          by (intro exI [of _ 1]) (simp add: wp wp0 spare_ok_def)
      qed
    qed
  qed
qed

end
