(* ===== verification/Tcp_txq.thy ===== *)
theory Tcp_txq imports Tcp_tx "HOL-Library.Multiset" begin

text \<open>
  The two send queues of a connection as one: \<open>unacked\<close> and \<open>unsent\<close> together are the
  segments that tile the stream from the first unacknowledged byte on, each queue in
  the order of sequence numbers. Every operation of the send side keeps this.
\<close>

section \<open>The order of sequence numbers\<close>

definition opos :: "u32 \<Rightarrow> nat \<Rightarrow> tcp_seg \<Rightarrow> nat" where
  "opos i lo s = off (sq i lo) (sg_seqno s)"

definition in_order :: "u32 \<Rightarrow> nat \<Rightarrow> tcp_seg list \<Rightarrow> bool" where
  "in_order i lo q \<longleftrightarrow> sorted (map (opos i lo) q)"

lemma opos_at:
  assumes "seg_at i S p s" and "lo \<le> p" and "p < lo + 0x100000000"
  shows "opos i lo s = p - lo"
  using assms sq_diff(2) [of lo p i] by (simp add: opos_def off_def stream_part_def)

lemma tiles_mem_ex:
  "tiles i S p q hi \<Longrightarrow> s \<in> set q \<Longrightarrow> \<exists>p'\<ge>p. tx_seg i S p' s \<and> p' + seg_tl s \<le> hi"
proof (induction q arbitrary: p)
  case (Cons x q)
  from Cons.prems(1) have x: "tx_seg i S p x" "tiles i S (p + seg_tl x) q hi" by simp_all
  show ?case
  proof (cases "s = x")
    case True
    then show ?thesis using x tiles_le [OF x(2)] by blast
  next
    case False
    with Cons.prems(2) have "s \<in> set q" by simp
    from Cons.IH [OF x(2) this] show ?thesis by (auto intro: add_leD1)
  qed
qed simp

lemma tiles_mem:
  assumes "tiles i S p q hi" and "s \<in> set q"
  obtains p' where "p \<le> p'" "tx_seg i S p' s" "p' + seg_tl s \<le> hi"
  using tiles_mem_ex [OF assms] by blast

lemma tiles_in_order:
  assumes "tiles i S p q hi" and "lo \<le> p" and "hi < lo + 0x80000000"
  shows "in_order i lo q \<and> distinct (map (opos i lo) q) \<and> (\<forall>s\<in>set q. p - lo \<le> opos i lo s \<and> opos i lo s < hi - lo)"
  using assms
proof (induction q arbitrary: p)
  case Nil
  then show ?case by (simp add: in_order_def)
next
  case (Cons x q)
  have x: "tx_seg i S p x" "tiles i S (p + seg_tl x) q hi" "0 < seg_tl x" "p + seg_tl x \<le> hi"
    using Cons.prems(1) tiles_le [of i S "p + seg_tl x" q hi] by (auto simp: tx_seg_def)
  have ox: "opos i lo x = p - lo"
    using x Cons.prems(2,3) by (intro opos_at [of i S]) (simp_all add: tx_seg_def)
  have IH: "in_order i lo q" "distinct (map (opos i lo) q)"
    "\<And>s. s \<in> set q \<Longrightarrow> p + seg_tl x - lo \<le> opos i lo s \<and> opos i lo s < hi - lo"
    using Cons.IH [OF x(2)] Cons.prems(2,3) by auto
  have gt: "p - lo < opos i lo s" "opos i lo s < hi - lo" if "s \<in> set q" for s
    using IH(3) [OF that] x(3) Cons.prems(2) by auto
  have "\<forall>s\<in>set q. opos i lo x \<le> opos i lo s" using gt(1) ox by force
  moreover have "opos i lo x \<notin> opos i lo ` set q" using gt(1) ox by force
  moreover have "opos i lo x < hi - lo" using ox x(3,4) Cons.prems(2) by linarith
  moreover have "\<forall>s\<in>set q. p - lo \<le> opos i lo s \<and> opos i lo s < hi - lo" using gt by force
  ultimately show ?case using IH(1,2) ox by (simp add: in_order_def)
qed

definition tx_queue :: "u32 \<Rightarrow> u8 list \<Rightarrow> nat \<Rightarrow> nat \<Rightarrow> tcp_seg list \<Rightarrow> tcp_seg list \<Rightarrow> tcp_seg list \<Rightarrow> bool" where
  "tx_queue i S lo hi qs ua us \<longleftrightarrow>
     tiles i S lo qs hi \<and> hi < lo + 0x80000000 \<and> mset qs = mset (ua @ us) \<and>
     in_order i lo ua \<and> in_order i lo us"

lemma tx_queue_facts:
  assumes "tx_queue i S lo hi qs ua us"
  shows "in_order i lo qs" "distinct qs" "inj_on (opos i lo) (set qs)" "set qs = set ua \<union> set us"
    "\<And>s. s \<in> set qs \<Longrightarrow> opos i lo s < 0x80000000" "set ua \<inter> set us = {}"
proof -
  have t: "tiles i S lo qs hi" "hi < lo + 0x80000000" "mset qs = mset (ua @ us)"
    using assms by (simp_all add: tx_queue_def)
  note f = tiles_in_order [OF t(1) order_refl t(2)]
  show "in_order i lo qs" using f by simp
  show d: "distinct qs" "inj_on (opos i lo) (set qs)" using f by (simp_all add: distinct_map)
  show "set qs = set ua \<union> set us" using mset_eq_setD [OF t(3)] by simp
  show "\<And>s. s \<in> set qs \<Longrightarrow> opos i lo s < 0x80000000" using f t(2) by (auto dest!: bspec)
  have "distinct (ua @ us)" using d(1) mset_eq_imp_distinct_iff [OF t(3)] by simp
  then show "set ua \<inter> set us = {}" by simp
qed

lemma tx_queue_lt:
  assumes "tx_queue i S lo hi qs ua us" and "a \<in> set qs" and "b \<in> set qs"
  shows "TCP_SEQ_LT (sg_seqno a) (sg_seqno b) \<longleftrightarrow> opos i lo a < opos i lo b"
  using tx_queue_facts(5) [OF assms(1,2)] tx_queue_facts(5) [OF assms(1,3)] unfolding opos_def
  by (rule seq_iffs(1))

text \<open>Queues that are in order and together are \<open>qs\<close> are determined when one is empty.\<close>

lemma in_order_unique:
  assumes "in_order i lo xs" and "in_order i lo ys" and "mset xs = mset ys" and "inj_on (opos i lo) (set ys)"
  shows "xs = ys"
proof -
  have "mset (map (opos i lo) xs) = mset (map (opos i lo) ys)" using assms(3) by simp
  then have "sort (map (opos i lo) ys) = map (opos i lo) xs"
    using assms(1) unfolding in_order_def by (rule properties_for_sort)
  moreover have "sort (map (opos i lo) ys) = map (opos i lo) ys"
    using assms(2) by (simp add: in_order_def sorted_sort_id)
  moreover have "set xs = set ys" using assms(3) by (rule mset_eq_setD)
  ultimately show ?thesis using assms(4) by (intro map_inj_on [of "opos i lo"]) simp_all
qed

lemma tx_queue_no_unsent:
  assumes "tx_queue i S lo hi qs ua []"
  shows "ua = qs"
  using assms tx_queue_facts(1,3) [OF assms] by (intro in_order_unique) (simp_all add: tx_queue_def)

lemma tx_queue_no_unacked:
  assumes "tx_queue i S lo hi qs [] us"
  shows "us = qs"
  using assms tx_queue_facts(1,3) [OF assms] by (intro in_order_unique) (simp_all add: tx_queue_def)

text \<open>The last of a queue in order is behind all others.\<close>

lemma in_order_last:
  assumes "in_order i lo q" and "s \<in> set q"
  shows "opos i lo s \<le> opos i lo (List.last q)"
proof -
  obtain q' x where q: "q = q' @ [x]" using assms(2) by (cases q rule: rev_cases) auto
  have "\<forall>y\<in>set q'. opos i lo y \<le> opos i lo x"
    using assms(1) unfolding q in_order_def map_append sorted_append by auto
  then show ?thesis using assms(2) q by auto
qed

definition tail_last :: "tcp_seg list \<Rightarrow> tcp_seg list \<Rightarrow> bool" where
  "tail_last ua us \<longleftrightarrow> ua = [] \<or> us = [] \<or> TCP_SEQ_LT (sg_seqno (List.last ua)) (sg_seqno (List.last us))"

lemma tail_is_last:
  assumes q: "tx_queue i S lo hi qs ua us" and "tail_last ua us" and "us \<noteq> []"
  shows "qs \<noteq> [] \<and> List.last us = List.last qs"
proof -
  note f = tx_queue_facts [OF q]
  have ne: "qs \<noteq> []" using f(4) last_in_set [OF assms(3)] by (cases qs) simp_all
  have l: "List.last us \<in> set qs" "List.last qs \<in> set qs"
    using f(4) last_in_set [OF assms(3)] last_in_set [OF ne] by simp_all
  have "opos i lo (List.last qs) \<le> opos i lo (List.last us)"
  proof (cases "List.last qs \<in> set us")
    case True
    then show ?thesis using in_order_last q by (auto simp: tx_queue_def)
  next
    case False
    then have ua: "List.last qs \<in> set ua" using l(2) f(4) by auto
    then have "opos i lo (List.last qs) \<le> opos i lo (List.last ua)"
      using in_order_last q by (auto simp: tx_queue_def)
    moreover have "List.last ua \<in> set qs" using ua f(4) by (cases ua) auto
    then have "opos i lo (List.last ua) < opos i lo (List.last us)"
      using assms(2,3) ua tx_queue_lt [OF q _ l(1)] by (auto simp: tail_last_def)
    ultimately show ?thesis by simp
  qed
  moreover have "opos i lo (List.last us) \<le> opos i lo (List.last qs)"
    using in_order_last [OF f(1) l(1)] .
  ultimately show ?thesis using inj_onD [OF f(3) _ l] ne by simp
qed


section \<open>The invariant of the send side\<close>

definition tx_end :: "u8 list \<Rightarrow> bool \<Rightarrow> nat" where
  "tx_end S fin = length S + of_bool fin"

lemma tx_end_simps [simp]: "tx_end S False = length S" "tx_end S True = Suc (length S)"
  by (simp_all add: tx_end_def)

definition tx_ok :: "u32 \<Rightarrow> u8 list \<Rightarrow> bool \<Rightarrow> nat \<Rightarrow> tcp_seg list \<Rightarrow> tcp_pcb \<Rightarrow> bool" where
  "tx_ok i S fin lo qs pcb \<longleftrightarrow>
     tx_queue i S lo (tx_end S fin) qs (unacked pcb) (unsent pcb) \<and>
     (\<not> fin \<longrightarrow> snd_lbb pcb = sq i (length S)) \<and>
     snd_queuelen pcb = of_nat (clens qs) \<and> unat (snd_buf pcb) + dlens qs = 8 * 1460"

lemma tiles_span: "tiles i S lo q hi \<Longrightarrow> hi \<le> lo + dlens q + 1 \<and> (hi \<le> length S \<longrightarrow> hi = lo + dlens q)"
proof (induction q arbitrary: lo)
  case (Cons s q)
  then have s: "tx_seg i S lo s" "tiles i S (lo + seg_tl s) q hi" by simp_all
  show ?case
  proof (cases "has (sg_hflags s) TCP_FIN")
    case True
    then have f: "lo + seg_tl s = length S + 1" using s(1) by (simp add: tx_seg_def stream_part_def seg_tl_def fin_len_def)
    then have "q = []" using s(2) by (cases q) (auto simp: tx_seg_def stream_part_def)
    then show ?thesis using s f True by (simp add: seg_tl_def fin_len_def)
  next
    case False
    then show ?thesis using Cons.IH [OF s(2)] by (auto simp: seg_tl_def fin_len_def)
  qed
qed simp

lemma clens_bound: "tiles i S lo q hi \<Longrightarrow> clens q \<le> (hi - lo) + dlens q"
proof (induction q arbitrary: lo)
  case (Cons s q)
  then have s: "tx_seg i S lo s" "tiles i S (lo + seg_tl s) q hi" by simp_all
  have le: "length bs \<le> sum_list (map fst bs)" if "\<forall>b\<in>set bs. 0 < fst b" for bs :: "seg_buf list"
    using that by (induction bs) auto
  have "length (sg_bufs s) \<le> 1 + unat (sg_len s)"
    using s(1) le [of "tl (sg_bufs s)"] stream_part_len [of i S lo _ _ _ "sg_data s"]
    by (cases "sg_bufs s") (auto simp: tx_seg_def)
  moreover have "0 < seg_tl s" using s(1) by (simp add: tx_seg_def)
  moreover have "lo + seg_tl s \<le> hi" using tiles_le [OF s(2)] .
  ultimately show ?case using Cons.IH [OF s(2)] by simp
qed simp

lemma tx_ok_facts:
  assumes "tx_ok i S fin lo qs pcb"
  shows "clens qs \<le> 30000" "unat (snd_queuelen pcb) = clens qs" "tx_end S fin \<le> lo + 11681" "dlens qs \<le> 11680"
    "qs = [] \<longleftrightarrow> unacked pcb = [] \<and> unsent pcb = []" "clens qs = 0 \<longleftrightarrow> qs = []"
proof -
  have t: "tiles i S lo qs (tx_end S fin)" using assms by (simp add: tx_ok_def tx_queue_def)
  have d: "dlens qs \<le> 11680" using assms by (simp add: tx_ok_def)
  show span: "tx_end S fin \<le> lo + 11681" using tiles_span [OF t] d by simp
  show c: "clens qs \<le> 30000" using clens_bound [OF t] span d by simp
  then show "unat (snd_queuelen pcb) = clens qs" using assms by (simp add: tx_ok_def unat_of_nat_u16)
  show "dlens qs \<le> 11680" by (fact d)
  have m: "mset qs = mset (unacked pcb @ unsent pcb)" using assms by (simp add: tx_ok_def tx_queue_def)
  show "qs = [] \<longleftrightarrow> unacked pcb = [] \<and> unsent pcb = []"
    using mset_eq_length [OF m] by (cases "unacked pcb"; cases "unsent pcb"; cases qs) auto
  show "clens qs = 0 \<longleftrightarrow> qs = []"
    using t by (cases qs) (auto simp: tx_seg_def)
qed

definition tx_room :: "tcp_pcb \<Rightarrow> bool" where
  "tx_room pcb \<longleftrightarrow>
     (if unsent pcb = [] then unsent_oversize pcb = 0
      else spare_ok pcb (unsent_oversize pcb) (List.last (unsent pcb)))"

section \<open>Writing\<close>

lemma write_checks_cases:
  assumes "tcp_write_checks pcb len = Some (pcb', err)"
  obtains "err \<noteq> ERR_OK" "pcb' = pcb \<or> pcb' = tcp_set_flags pcb TF_NAGLEMEMERR"
  | "err = ERR_OK" "pcb' = pcb" "len \<noteq> 0 \<Longrightarrow> unat (snd_queuelen pcb) < 32 \<and> ucast len \<le> snd_buf pcb"
  using assms
  by (auto simp: tcp_write_checks_def TCP_SND_QUEUELEN_def TCP_SNDQUEUELEN_OVERFLOW_def bind_eq_Some_conv
      not_le not_less split: if_splits)

lemma write_checks_total:
  assumes "tx_ok i S fin lo qs pcb"
  shows "\<exists>pcb' err. tcp_write_checks pcb len = Some (pcb', err)"
  using tx_ok_facts(2,5,6) [OF assms] by (auto simp: tcp_write_checks_def unat_eq_0 simp flip: unat_0_iff)

lemma write_phase1_total:
  assumes "tx_room pcb" and "unsent pcb \<noteq> []" and "sg_flags (List.last (unsent pcb)) = 0"
  shows "\<exists>wp space. write_phase1 pcb (List.last (unsent pcb)) len = Some (wp, space)"
proof -
  define os where "os = unsent_oversize pcb"
  define l where "l = sg_len (List.last (unsent pcb))"
  have r: "unat l + unat os \<le> unat (write_mss pcb)" using assms by (simp add: tx_room_def spare_ok_def os_def l_def)
  then have "unat (write_mss pcb - l) = unat (write_mss pcb) - unat l" by (simp add: unat_sub_le)
  then have os: "os \<le> write_mss pcb - l" using r by (simp add: word_le_nat_alt)
  have "os - min (write_mss pcb - l) (min os len) = 0 \<or> min (write_mss pcb - l) (min os len) = len"
    using os by (auto simp: min_def)
  then show ?thesis using r os assms(3)
    by (cases "os = 0") (simp_all add: word_gt_0 write_phase1_def Let_def LWIP_TCP_OPT_LENGTH_def flip: os_def l_def)
qed

lemma set_flags_simps [simp]:
  "unsent (tcp_set_flags pcb f) = unsent pcb" "unacked (tcp_set_flags pcb f) = unacked pcb"
  "snd_lbb (tcp_set_flags pcb f) = snd_lbb pcb" "snd_buf (tcp_set_flags pcb f) = snd_buf pcb"
  "snd_queuelen (tcp_set_flags pcb f) = snd_queuelen pcb" "state (tcp_set_flags pcb f) = state pcb"
  "unsent_oversize (tcp_set_flags pcb f) = unsent_oversize pcb"
  by (simp_all add: tcp_set_flags_def)

lemma clear_flags_simps [simp]:
  "unsent (tcp_clear_flags pcb f) = unsent pcb" "unacked (tcp_clear_flags pcb f) = unacked pcb"
  "snd_lbb (tcp_clear_flags pcb f) = snd_lbb pcb" "snd_buf (tcp_clear_flags pcb f) = snd_buf pcb"
  "snd_queuelen (tcp_clear_flags pcb f) = snd_queuelen pcb" "state (tcp_clear_flags pcb f) = state pcb"
  "unsent_oversize (tcp_clear_flags pcb f) = unsent_oversize pcb"
  by (simp_all add: tcp_clear_flags_def)

lemma tx_ok_cong:
  assumes "tx_ok i S fin lo qs pcb" and "unsent pcb' = unsent pcb" and "unacked pcb' = unacked pcb"
    and "snd_lbb pcb' = snd_lbb pcb" and "snd_buf pcb' = snd_buf pcb" and "snd_queuelen pcb' = snd_queuelen pcb"
  shows "tx_ok i S fin lo qs pcb'"
  using assms by (simp add: tx_ok_def)


text \<open>What phases 1 and 2 leave for the commitment.\<close>

lemma upd_last_snoc [simp]: "upd_last f (xs @ [x]) = xs @ [f x]"
  by (simp add: upd_last_def)

lemma tiles_upd_last_flags:
  assumes "tiles i S lo q hi"
  shows "tiles i S lo (upd_last (seg_set_flags TCP_PSH) q) hi \<and> clens (upd_last (seg_set_flags TCP_PSH) q) = clens q \<and>
    dlens (upd_last (seg_set_flags TCP_PSH) q) = dlens q"
proof (cases q rule: rev_cases)
  case (snoc xs x)
  have h: "has (fl OR TCP_PSH) TCP_FIN = has fl TCP_FIN" "has (fl OR TCP_PSH) TCP_SYN = has fl TCP_SYN"
    "has (fl OR TCP_PSH) TCP_RST = has fl TCP_RST" for fl
    by (simp_all) (simp_all add: has_def TCP_PSH_def TCP_FIN_def TCP_SYN_def TCP_RST_def)
  have "tx_seg i S p (seg_set_flags TCP_PSH x) = tx_seg i S p x" "seg_tl (seg_set_flags TCP_PSH x) = seg_tl x" for p
    using h by (auto simp: tx_seg_def seg_set_flags_def stream_part_def seg_tl_def fin_len_def)
  then show ?thesis using assms by (simp add: snoc tiles_append) (simp add: seg_set_flags_def)
qed (use assms in \<open>simp add: upd_last_def\<close>)

lemma upd_last_append [simp]: "ys \<noteq> [] \<Longrightarrow> upd_last f (xs @ ys) = xs @ upd_last f ys"
  by (simp add: upd_last_def butlast_append)

lemma upd_last_simps [simp]: "upd_last f [] = []" "upd_last f [x] = [f x]" "upd_last f xs = [] \<longleftrightarrow> xs = []"
  by (simp_all add: upd_last_def)

text \<open>The end of the queue is exchanged.\<close>

lemma tx_queue_exchange:
  assumes q: "tx_queue i S lo hi (qs0 @ old) ua (us0 @ old)"
    and t: "tiles i S' lo (qs0 @ new) hi'" "hi' < lo + 0x80000000"
  shows "tx_queue i S' lo hi' (qs0 @ new) ua (us0 @ new)"
proof -
  have m: "mset qs0 = mset (ua @ us0)" using q by (auto simp: tx_queue_def)
  have o: "in_order i lo (qs0 @ new)" using tiles_in_order [OF t(1) order_refl t(2)] by simp
  have "set us0 \<subseteq> set qs0" using mset_eq_setD [OF m] by auto
  then have "in_order i lo (us0 @ new)"
    using q o by (auto simp: tx_queue_def in_order_def sorted_append)
  then show ?thesis using q t m by (simp add: tx_queue_def)
qed

lemma write_commit_ok:
  assumes ok: "tx_ok i S False lo qs pcb"
    and qs: "qs = qs0 @ old" "unsent pcb = us0 @ old"
    and new: "upd_last (write_commit_last wp data) (unsent pcb) @ queue = us0 @ new"
    and ne: "new = [] \<Longrightarrow> us0 = []"
    and t: "tiles i (S @ data) lo (qs0 @ new) (length S + length data)"
    and ql: "unat queuelen = clens (qs0 @ new)" and len: "length data \<le> unat (snd_buf pcb)" "length data < 65536"
    and room: "if new = [] then os = 0 else spare_ok pcb os (List.last new)"
  shows "\<exists>pcb' qs'. write_commit pcb data apiflags wp queue queuelen os = Some pcb' \<and>
    tx_ok i (S @ data) False lo qs' pcb' \<and> tx_room pcb'"
proof -
  define new' where "new' = (if (queue \<noteq> [] \<or> wp_last wp) \<and> \<not> has apiflags TCP_WRITE_FLAG_MORE
      then upd_last (seg_set_flags TCP_PSH) new else new)"
  define pcb' where "pcb' = pcb\<lparr>unsent := us0 @ new', unsent_oversize := os, snd_lbb := snd_lbb pcb + of_nat (length data),
     snd_buf := snd_buf pcb - of_nat (length data), snd_queuelen := queuelen\<rparr>"
  obtain m where m: "tiles i (S @ data) lo qs0 m" "tiles i (S @ data) m new (length S + length data)"
    using t by (auto simp: tiles_append)
  have n': "tiles i (S @ data) m new' (length S + length data)" "clens new' = clens new" "dlens new' = dlens new"
    using m(2) tiles_upd_last_flags [OF m(2)] by (simp_all add: new'_def)
  have t': "tiles i (S @ data) lo (qs0 @ new') (length S + length data)"
    using m(1) n'(1) by (auto simp: tiles_append)
  have us: "(if (queue \<noteq> [] \<or> wp_last wp) \<and> \<not> has apiflags TCP_WRITE_FLAG_MORE
      then upd_last (seg_set_flags TCP_PSH) (us0 @ new) else us0 @ new) = us0 @ new'"
    using ne by (cases "new = []") (simp_all add: new'_def)
  have q: "tx_queue i S lo (length S) (qs0 @ old) (unacked pcb) (us0 @ old)"
    and lbb: "snd_lbb pcb = sq i (length S)" and buf: "unat (snd_buf pcb) + dlens qs = 8 * 1460"
    using ok qs by (simp_all add: tx_ok_def)
  have len16: "unat (of_nat (length data) :: u32) = length data" using len(2) by (simp add: unat_of_nat_u32)
  have "length S = lo + dlens qs" using q qs(1) tiles_span [of i S lo qs "length S"] by (simp add: tx_queue_def)
  moreover have "length S + length data = lo + dlens (qs0 @ new')"
    using tiles_span [OF t'] by simp
  ultimately have dl: "dlens (qs0 @ new') = dlens qs + length data" by simp
  have b': "unat (snd_buf pcb - of_nat (length data)) = unat (snd_buf pcb) - length data"
    using len(1) len16 by (simp add: unat_sub_le)
  have hi: "length S + length data < lo + 0x80000000"
    using \<open>length S + length data = lo + dlens (qs0 @ new')\<close> dl buf len(1) by simp
  have "tx_queue i (S @ data) lo (length S + length data) (qs0 @ new') (unacked pcb) (us0 @ new')"
    by (rule tx_queue_exchange [OF q t' hi])
  moreover have "of_nat (unat queuelen) = (of_nat (clens (qs0 @ new)) :: u16)" by (simp only: ql)
  ultimately have ok': "tx_ok i (S @ data) False lo (qs0 @ new') pcb'"
    using lbb buf dl b' len(1) n'(2) by (simp add: tx_ok_def pcb'_def sq_def)
  have "unacked pcb \<noteq> [] \<or> us0 @ new' \<noteq> []" if "queuelen \<noteq> 0"
  proof (rule ccontr)
    assume "\<not> (unacked pcb \<noteq> [] \<or> us0 @ new' \<noteq> [])"
    then have "qs0 @ new' = []" using tx_ok_facts(5) [OF ok'] by (simp add: pcb'_def)
    then show False using ql n'(2) that by (simp add: unat_eq_0)
  qed
  then have wc: "write_commit pcb data apiflags wp queue queuelen os = Some pcb'"
    unfolding write_commit_def Let_def new us by (simp add: pcb'_def)
  have n1: "new' = [] \<longleftrightarrow> new = []" "new \<noteq> [] \<Longrightarrow> sg_len (List.last new') = sg_len (List.last new)"
    "new \<noteq> [] \<Longrightarrow> sg_bufs (List.last new') = sg_bufs (List.last new)"
    by (auto simp: new'_def upd_last_def seg_set_flags_def)
  have "spare_ok pcb' = spare_ok pcb" by (simp add: fun_eq_iff spare_ok_def write_mss_def Let_def pcb'_def)
  with n1 have "tx_room pcb'" using room ne by (auto simp: tx_room_def spare_ok_def pcb'_def)
  then show ?thesis using ok' wc by blast
qed


text \<open>\<^verbatim>\<open>tcp_write\<close> appends the data to the stream or, when it reports an error, leaves
  the queue alone. \<open>tx_room\<close> is what the assertions of phase 1 need.\<close>

definition wrote :: "u32 \<Rightarrow> u8 list \<Rightarrow> u8 list \<Rightarrow> nat \<Rightarrow> tcp_pcb \<Rightarrow> tcp_pcb \<Rightarrow> err_t \<Rightarrow> bool" where
  "wrote i S data lo pcb pcb' err \<longleftrightarrow>
     (if err = ERR_OK
      then (\<exists>qs'. tx_ok i (S @ data) False lo qs' pcb') \<and> tx_room pcb'
      else pcb' = pcb \<or> pcb' = tcp_set_flags pcb TF_NAGLEMEMERR)"

lemma tx_ok_last:
  assumes ok: "tx_ok i S False lo qs pcb" and "tail_last (unacked pcb) (unsent pcb)" and "unsent pcb \<noteq> []"
  obtains qs0 us0 l p where "qs = qs0 @ [l]" "unsent pcb = us0 @ [l]" "tiles i S lo qs0 p" "tx_seg i S p l"
    "p + seg_tl l = length S" "\<And>s. s \<in> set qs \<Longrightarrow> \<not> has (sg_hflags s) TCP_FIN" "List.last (unsent pcb) = l"
proof -
  have q: "tx_queue i S lo (length S) qs (unacked pcb) (unsent pcb)" using ok by (simp add: tx_ok_def)
  define l where "l = List.last (unsent pcb)"
  have e: "qs = butlast qs @ [l]" "unsent pcb = butlast (unsent pcb) @ [l]"
    using tail_is_last [OF q assms(2,3)] append_butlast_last_id [of qs]
      append_butlast_last_id [OF assms(3)] by (simp_all add: l_def)
  have t: "tiles i S lo qs (length S)" using q by (simp add: tx_queue_def)
  then have "tiles i S lo (butlast qs @ [l]) (length S)" by (simp only: e(1) [symmetric])
  then obtain p where "tiles i S lo (butlast qs) p" "tiles i S p [l] (length S)"
    by (auto simp: tiles_append)
  then have p: "tiles i S lo (butlast qs) p" "tx_seg i S p l" "p + seg_tl l = length S" by simp_all
  show ?thesis by (rule that [OF e p tiles_no_fin [OF t order_refl] l_def [symmetric]])
qed

lemma write_phase2_total:
  assumes "write_phase1 pcb l len = Some (wp0, space)"
    and "unsent_oversize pcb \<noteq> 0 \<longrightarrow> snd (List.last (sg_bufs l)) = None"
  shows "\<exists>w' r. write_phase2 e pcb l arg len apiflags wp0 space w = Some (w', r)"
proof -
  have "wp_pos wp0 = 0" if "unsent_oversize pcb = 0"
    using assms(1) that by (auto simp: write_phase1_def Let_def bind_eq_Some_conv)
  then show ?thesis using assms(2)
    by (auto simp: write_phase2_def Let_def split: prod.splits option.splits)
qed

lemma tcp_write_step:
  assumes ok: "tx_ok i S False lo qs pcb" and tail: "tail_last (unacked pcb) (unsent pcb)"
    and len: "length data < 65536"
    and room: "tx_room pcb"
  shows "\<exists>w' pcb' err. tcp_write e pcb arg data apiflags w = Some (w', pcb', err) \<and> wrote i S data lo pcb pcb' err"
proof -
  define n where "n = (of_nat (length data) :: u16)"
  have un: "unat n = length data" using len by (simp add: n_def unat_of_nat_u16)
  obtain pcb0 err0 where ch: "tcp_write_checks pcb n = Some (pcb0, err0)" using write_checks_total [OF ok] by blast
  note unfold = tcp_write_def Let_def n_def [symmetric] ch
  have lbb: "snd_lbb pcb = sq i (length S)" using ok by (simp add: tx_ok_def)
  have rom: "unsent pcb \<noteq> [] \<Longrightarrow> unsent_oversize pcb \<noteq> 0 \<longrightarrow> snd (List.last (sg_bufs (List.last (unsent pcb)))) = None"
    using room by (simp add: tx_room_def spare_ok_def)
  have merr: "write_memerr pcb = Some (tcp_set_flags pcb TF_NAGLEMEMERR, ERR_MEM)"
    using tx_ok_facts(2,5,6) [OF ok] by (cases "qs = []") (auto simp: write_memerr_def unat_eq_0)
  show ?thesis
    using ch
  proof (cases rule: write_checks_cases)
    case 1
    then show ?thesis by (auto simp: unfold wrote_def)
  next
    case 2
    have qlen: "n \<noteq> 0 \<longrightarrow> unat (snd_queuelen pcb) < 32" using 2(3) by simp
    have buf: "length data \<le> unat (snd_buf pcb)"
      using 2(3) un by (cases "n = 0") (auto simp: word_le_nat_alt)
    have final: "\<exists>w' pcb' err. Option.bind (write_phase3 e pcb arg data apiflags (wp_pos wp) (wp_queuelen wp) (wp_oversize wp) [] w0)
          (\<lambda>(w, r). case r of
                None \<Rightarrow> do { (pcb, err) \<leftarrow> write_memerr pcb; Some (w, pcb, err) }
              | Some (queue, queuelen, oversize) \<Rightarrow> do {
                  pcb \<leftarrow> write_commit pcb data apiflags wp queue queuelen oversize;
                  Some (w, pcb, ERR_OK) }) = Some (w', pcb', err) \<and> wrote i S data lo pcb pcb' err"
      if pos: "unat (wp_pos wp) \<le> length data" and q32: "n \<noteq> 0 \<Longrightarrow> unat (wp_queuelen wp) \<le> 32"
        and os: "wp_pos wp < n \<and> \<not> has apiflags TCP_WRITE_FLAG_COPY \<longrightarrow> wp_oversize wp = 0"
        and commit: "\<And>queue queuelen oversize. new_segs i S data pcb apiflags (unat (wp_pos wp)) (wp_queuelen wp)
            (wp_oversize wp) queue queuelen oversize \<Longrightarrow>
          \<exists>pcb'. write_commit pcb data apiflags wp queue queuelen oversize = Some pcb' \<and>
            (\<exists>qs'. tx_ok i (S @ data) False lo qs' pcb') \<and> tx_room pcb'" for wp w0
    proof -
      obtain w1 r where p3: "write_phase3 e pcb arg data apiflags (wp_pos wp) (wp_queuelen wp) (wp_oversize wp) [] w0 = Some (w1, r)"
        "\<And>q ql' os'. r = Some (q, ql', os') \<Longrightarrow>
          new_segs i S data pcb apiflags (unat (wp_pos wp)) (wp_queuelen wp) (wp_oversize wp) q ql' os'"
      proof (cases "wp_pos wp < n")
        case True
        then have "n \<noteq> 0" by (cases "n = 0") simp_all
        with write_phase3_ok [OF pos len q32 _ lbb, of apiflags "wp_oversize wp" e arg "[]" w0] os True
        show ?thesis using that by auto
      next
        case False
        then have "unat (wp_pos wp) = length data" using pos un by (simp add: word_less_nat_alt)
        then show ?thesis
          using that [of w0 "Some ([], wp_queuelen wp, wp_oversize wp)"] False
          by (simp add: write_phase3.simps [of _ _ _ _ _ "wp_pos wp"] n_def new_segs_Nil)
      qed
      show ?thesis
      proof (cases r)
        case None
        then show ?thesis using p3(1) merr by (simp add: wrote_def)
      next
        case (Some x)
        obtain q ql' os' where x: "x = (q, ql', os')" by (cases x) auto
        from commit [OF p3(2) [OF Some [unfolded x]]] p3(1) show ?thesis
          by (auto simp: Some x wrote_def)
      qed
    qed
    have t: "tiles i S lo qs (length S)" using ok by (simp add: tx_ok_def tx_queue_def)
    have nofin: "\<not> has (sg_hflags s) TCP_FIN" if "s \<in> set qs" for s using tiles_no_fin [OF t order_refl that] .
    note c0 = tx_ok_facts(2) [OF ok]
    show ?thesis
    proof (cases "unsent pcb = []")
      case True
      define wp where "wp = \<lparr>wp_used = 0, wp_oversize = 0, wp_pos = 0, wp_queuelen = snd_queuelen pcb,
                             wp_concat = None, wp_extend = 0, wp_last = False\<rparr>"
      have commit: "\<exists>pcb'. write_commit pcb data apiflags wp queue queuelen oversize = Some pcb' \<and>
            (\<exists>qs'. tx_ok i (S @ data) False lo qs' pcb') \<and> tx_room pcb'"
        if new: "new_segs i S data pcb apiflags (unat (wp_pos wp)) (wp_queuelen wp) (wp_oversize wp) queue queuelen oversize"
        for queue queuelen oversize
      proof -
        have tq: "tiles i (S @ data) lo (qs @ queue) (length S + length data)"
          using tiles_mono [OF t nofin] new by (auto simp: tiles_append new_segs_def wp_def)
        have ql': "unat queuelen = clens (qs @ queue)" using new c0 by (simp add: new_segs_def wp_def)
        have room: "if queue = [] then oversize = 0 else spare_ok pcb oversize (List.last queue)"
          using new by (simp add: new_segs_def wp_def split: if_splits)
        have "\<exists>pcb' qs'. write_commit pcb data apiflags wp queue queuelen oversize = Some pcb' \<and>
            tx_ok i (S @ data) False lo qs' pcb' \<and> tx_room pcb'"
          by (rule write_commit_ok [OF ok _ _ _ _ tq ql' buf len room, of "[]" "[]"]) (simp_all add: True)
        then show ?thesis by blast
      qed
      have q32: "n \<noteq> 0 \<Longrightarrow> unat (wp_queuelen wp) \<le> 32" using qlen by (simp add: wp_def less_imp_le)
      have "unat (wp_pos wp) \<le> length data" "wp_oversize wp = 0" by (simp_all add: wp_def)
      from final [OF this(1) q32 _ commit, of w] this(2) show ?thesis
        using True room 2(1,2) by (simp add: unfold wp_def tx_room_def)
    next
      case False
      from tx_ok_last [OF ok tail False] obtain qs0 us0 l p where l: "qs = qs0 @ [l]" "unsent pcb = us0 @ [l]"
        "tiles i S lo qs0 p" "tx_seg i S p l" "p + seg_tl l = length S" "List.last (unsent pcb) = l" by metis
      have nf: "\<not> has (sg_hflags l) TCP_FIN" using nofin l(1) by simp
      then have pl: "p + unat (sg_len l) = length S" using l(5) by (simp add: seg_tl_def fin_len_def)
      have lb: "sg_bufs l \<noteq> []" "sg_flags l = 0" using l(4) by (simp_all add: tx_seg_def)
      obtain wp0 space where p1: "write_phase1 pcb l n = Some (wp0, space)"
        using write_phase1_total [OF room False, of n] lb(2) unfolding l(6) by blast
      obtain w1 r where p2: "write_phase2 e pcb l arg n apiflags wp0 space w = Some (w1, r)"
        using write_phase2_total [OF p1, of e arg apiflags w] rom [OF False] unfolding l(6) by blast
      show ?thesis
      proof (cases r)
        case None
        then have "tcp_write e pcb arg data apiflags w = Some (w1, tcp_set_flags pcb TF_NAGLEMEMERR, ERR_MEM)"
          using False 2(1,2) l(6) p1 p2 merr by (auto simp: unfold split: list.splits)
        moreover have "wrote i S data lo pcb (tcp_set_flags pcb TF_NAGLEMEMERR) ERR_MEM" by (simp add: wrote_def)
        ultimately show ?thesis by blast
      next
        case (Some wp)
        define l' where "l' = write_commit_last wp data l"
        obtain k where k: "grown data (unat (wp_pos wp)) k l l'"
          "unat (wp_queuelen wp) = unat (snd_queuelen pcb) + k" "n \<noteq> 0 \<longrightarrow> unat (wp_queuelen wp) \<le> 32"
          "wp_pos wp < n \<and> \<not> has apiflags TCP_WRITE_FLAG_COPY \<longrightarrow> wp_oversize wp = 0"
          "(unsent_oversize pcb \<noteq> 0 \<longrightarrow> snd (List.last (sg_bufs l)) = None) \<longrightarrow> spare_ok pcb (wp_oversize wp) l'"
          using write_plan_ok [OF p1 p2 [unfolded Some] n_def len lb qlen, folded l'_def]
          by (elim exE conjE) (rule that)
        have spare: "spare_ok pcb (wp_oversize wp) l'" using k(5) rom [OF False, unfolded l(6)] by (rule mp)
        have l': "tx_seg i (S @ data) p l'" "seg_tl l' = seg_tl l + unat (wp_pos wp)"
          using tx_seg_grown [OF l(4) k(1) pl nf] by simp_all
        have "\<exists>pcb'. write_commit pcb data apiflags wp queue queuelen oversize = Some pcb' \<and>
            (\<exists>qs'. tx_ok i (S @ data) False lo qs' pcb') \<and> tx_room pcb'"
          if new: "new_segs i S data pcb apiflags (unat (wp_pos wp)) (wp_queuelen wp) (wp_oversize wp) queue queuelen oversize"
          for queue queuelen oversize
        proof -
          have "tiles i (S @ data) lo qs0 p" using tiles_mono [OF l(3)] nofin l(1) by simp
          then have tq: "tiles i (S @ data) lo (qs0 @ l' # queue) (length S + length data)"
            using new l' l(5) by (auto simp: tiles_append new_segs_def add.assoc [symmetric])
          have ql': "unat queuelen = clens (qs0 @ l' # queue)"
            using new c0 k(1,2) l(1) by (simp add: new_segs_def grown_def)
          have room: "if l' # queue = [] then oversize = 0 else spare_ok pcb oversize (List.last (l' # queue))"
            using new spare by (simp add: new_segs_def split: if_splits)
          have u: "upd_last (write_commit_last wp data) (unsent pcb) @ queue = us0 @ l' # queue"
            by (simp add: l(2) l'_def)
          have "\<exists>pcb' qs'. write_commit pcb data apiflags wp queue queuelen oversize = Some pcb' \<and>
            tx_ok i (S @ data) False lo qs' pcb' \<and> tx_room pcb'"
            by (rule write_commit_ok [OF ok l(1,2) u _ tq ql' buf len room]) simp
          then show ?thesis by blast
        qed
        from final [OF _ _ k(4) this, of w1] k(1,3) show ?thesis
          using False l(6) p1 p2 Some 2(1,2) by (auto simp: unfold grown_def split: list.splits)
      qed
    qed
  qed
qed

end
