(* ===== verification/Tcp_txo.thy ===== *)
theory Tcp_txo imports Tcp_txq begin

text \<open>
  Transmission, retransmission and acknowledgement keep the send queues a tiling of the
  written stream.
\<close>

section \<open>Changes that keep what a segment carries\<close>

definition same_seg :: "tcp_seg \<Rightarrow> tcp_seg \<Rightarrow> bool" where
  "same_seg a b \<longleftrightarrow> sg_seqno a = sg_seqno b \<and> sg_len a = sg_len b \<and> sg_data a = sg_data b \<and>
     sg_bufs a = sg_bufs b \<and> sg_flags a = sg_flags b \<and> sg_hlen a = sg_hlen b \<and>
     (\<forall>f\<in>{TCP_FIN, TCP_SYN, TCP_RST}. has (sg_hflags a) f = has (sg_hflags b) f)"

lemma same_seg_refl [simp]: "same_seg s s"
  by (simp add: same_seg_def)

lemma same_seg_ack [simp]: "same_seg (seg_set_flags TCP_ACK s) s"
  by (simp add: same_seg_def seg_set_flags_def) (simp add: has_def TCP_ACK_def TCP_FIN_def TCP_SYN_def TCP_RST_def)

lemma same_seg_facts:
  assumes "same_seg a b"
  shows "tx_seg i S p a = tx_seg i S p b" "seg_tl a = seg_tl b" "opos i lo a = opos i lo b"
    "length (sg_bufs a) = length (sg_bufs b)" "sg_len a = sg_len b"
  using assms by (auto simp: same_seg_def tx_seg_def stream_part_def seg_tl_def fin_len_def opos_def)

lemma tiles_map:
  "(\<And>s. s \<in> set q \<Longrightarrow> same_seg (f s) s) \<Longrightarrow>
   tiles i S p (map f q) hi = tiles i S p q hi \<and> clens (map f q) = clens q \<and> dlens (map f q) = dlens q"
proof (induction q arbitrary: p)
  case (Cons s q)
  have "same_seg (f s) s" using Cons.prems by simp
  then show ?case using Cons by (simp add: same_seg_facts [of "f s" s])
qed simp

lemma in_order_map:
  assumes "\<And>s. s \<in> set q \<Longrightarrow> same_seg (f s) s"
  shows "in_order i lo (map f q) = in_order i lo q"
proof -
  have "map (opos i lo) (map f q) = map (opos i lo) q"
    using assms by (induction q) (simp_all add: same_seg_facts(3))
  then show ?thesis by (simp only: in_order_def)
qed

lemma tx_queue_map:
  assumes q: "tx_queue i S lo hi qs ua us" and f: "\<And>s. s \<in> set qs \<Longrightarrow> same_seg (f s) s"
  shows "tx_queue i S lo hi (map f qs) (map f ua) (map f us)"
proof -
  have "set qs = set ua \<union> set us" by (rule tx_queue_facts(4) [OF q])
  then have "\<And>s. s \<in> set ua \<Longrightarrow> same_seg (f s) s" "\<And>s. s \<in> set us \<Longrightarrow> same_seg (f s) s" using f by auto
  moreover have "mset (map f qs) = mset (map f ua @ map f us)"
    using q by (simp add: tx_queue_def)
  ultimately show ?thesis using q f by (simp add: tx_queue_def tiles_map in_order_map)
qed

text \<open>One segment of the queue is exchanged for an equivalent one.\<close>

lemma tx_queue_head:
  assumes q: "tx_queue i S lo hi qs ua (s # us)" and s: "same_seg s' s"
  shows "\<exists>qs'. tx_queue i S lo hi qs' ua (s' # us) \<and> clens qs' = clens qs \<and> dlens qs' = dlens qs"
proof -
  define f where "f = (\<lambda>x. if x = s then s' else x)"
  have d: "s \<notin> set ua" "s \<notin> set us"
  proof -
    have m: "mset qs = mset (ua @ s # us)" using q by (simp add: tx_queue_def)
    have "distinct (ua @ s # us)"
      using tx_queue_facts(2) [OF q] mset_eq_imp_distinct_iff [OF m] by simp
    then show "s \<notin> set ua" "s \<notin> set us" by auto
  qed
  have f: "\<And>x. same_seg (f x) x" using s by (simp add: f_def)
  have "map f ua = ua" "map f us = us" "f s = s'" using d by (auto simp: f_def intro!: map_idI)
  then have "tx_queue i S lo hi (map f qs) ua (s' # us)"
    using tx_queue_map [OF q f] by simp
  then show ?thesis using f by (intro exI [of _ "map f qs"]) (simp add: tiles_map)
qed

section \<open>Segments change queues\<close>

lemma insert_seg_insort:
  assumes "\<And>y. y \<in> set ua \<Longrightarrow> TCP_SEQ_LT (sg_seqno y) (sg_seqno s) \<longleftrightarrow> opos i lo y < opos i lo s"
  shows "insert_seg s ua = insort_key (opos i lo) s ua"
  using assms by (induction ua) auto

lemma insort_at_end: "(\<And>y. y \<in> set xs \<Longrightarrow> f y < f x) \<Longrightarrow> insort_key f x xs = xs @ [x]"
  by (induction xs) force+

definition put_unacked :: "tcp_seg \<Rightarrow> tcp_seg list \<Rightarrow> tcp_seg list" where
  "put_unacked seg ua =
     (if ua = [] then [seg]
      else if TCP_SEQ_LT (sg_seqno seg) (sg_seqno (List.last ua)) then insert_seg seg ua else ua @ [seg])"

lemma tx_queue_put_unacked:
  assumes q: "tx_queue i S lo hi qs ua (s # us)"
  shows "tx_queue i S lo hi qs (put_unacked s ua) us"
proof -
  note f = tx_queue_facts [OF q]
  have mem: "s \<in> set qs" "\<And>y. y \<in> set ua \<Longrightarrow> y \<in> set qs" using f(4) by auto
  have ua: "in_order i lo ua" using q by (simp add: tx_queue_def)
  have ne: "opos i lo y \<noteq> opos i lo s" if "y \<in> set ua" for y
    using that f(6) inj_onD [OF f(3) _ mem(2) [OF that] mem(1)] by auto
  have "put_unacked s ua = insort_key (opos i lo) s ua"
  proof (cases "ua = []")
    case False
    have l: "List.last ua \<in> set ua" using False by simp
    show ?thesis
    proof (cases "TCP_SEQ_LT (sg_seqno s) (sg_seqno (List.last ua))")
      case True
      then show ?thesis using False tx_queue_lt [OF q mem(2) mem(1)] by (simp add: put_unacked_def insert_seg_insort)
    next
      case nlt: False
      then have "opos i lo (List.last ua) \<le> opos i lo s"
        using tx_queue_lt [OF q mem(1) mem(2) [OF l]] by simp
      then have "opos i lo y < opos i lo s" if "y \<in> set ua" for y
        using in_order_last [OF ua that] ne [OF that] by simp
      then show ?thesis using False nlt by (simp add: put_unacked_def insort_at_end)
    qed
  qed (simp add: put_unacked_def)
  moreover have "in_order i lo us" using q by (simp add: tx_queue_def in_order_def)
  ultimately show ?thesis using q ua by (simp add: tx_queue_def in_order_def sorted_insort_key)
qed

lemma tx_queue_insert_unsent:
  assumes q: "tx_queue i S lo hi qs (s # ua) us"
  shows "tx_queue i S lo hi qs ua (insert_seg s us)"
proof -
  note f = tx_queue_facts [OF q]
  have "insert_seg s us = insort_key (opos i lo) s us"
    using f(4) by (intro insert_seg_insort tx_queue_lt [OF q]) auto
  moreover have "in_order i lo ua" using q by (simp add: tx_queue_def in_order_def)
  ultimately show ?thesis using q by (simp add: tx_queue_def in_order_def sorted_insort_key)
qed

text \<open>When all unacknowledged segments precede the unsent ones, they are the queue.\<close>

definition queues_split :: "tcp_pcb \<Rightarrow> bool" where
  "queues_split pcb \<longleftrightarrow>
     unacked pcb = [] \<or> unsent pcb = [] \<or> TCP_SEQ_LT (sg_seqno (List.last (unacked pcb))) (sg_seqno (hd (unsent pcb)))"

lemma tx_queue_split:
  assumes q: "tx_queue i S lo hi qs ua us" and s: "ua = [] \<or> us = [] \<or> TCP_SEQ_LT (sg_seqno (List.last ua)) (sg_seqno (hd us))"
  shows "qs = ua @ us" "tail_last ua us"
proof -
  note f = tx_queue_facts [OF q]
  have o: "in_order i lo ua" "in_order i lo us" "mset qs = mset (ua @ us)" using q by (simp_all add: tx_queue_def)
  have le: "opos i lo a < opos i lo b" if "a \<in> set ua" "b \<in> set us" for a b
  proof -
    have ne: "ua \<noteq> []" "us \<noteq> []" using that by auto
    then have l: "List.last ua \<in> set qs" "hd us \<in> set qs" using f(4) by auto
    have "opos i lo a \<le> opos i lo (List.last ua)" using in_order_last [OF o(1) that(1)] .
    also have "\<dots> < opos i lo (hd us)" using s ne tx_queue_lt [OF q l] by auto
    also have "\<dots> \<le> opos i lo b" using o(2) that(2) by (cases us) (auto simp: in_order_def)
    finally show ?thesis .
  qed
  then have "in_order i lo (ua @ us)" using o by (auto simp: in_order_def sorted_append intro: less_imp_le)
  from in_order_unique [OF f(1) this o(3)] f(3,4) show "qs = ua @ us" by simp
  show "tail_last ua us"
  proof (cases "ua = [] \<or> us = []")
    case False
    then have "List.last ua \<in> set qs" "List.last us \<in> set qs" using f(4) by auto
    then show ?thesis using False tx_queue_lt [OF q] le by (auto simp: tail_last_def)
  qed (auto simp: tail_last_def)
qed


section \<open>Sequence number variables\<close>

text \<open>The highest acknowledged number lies in or behind the first unfreed segment, the next
  number to send not behind the queue.\<close>

definition tx_pos :: "u32 \<Rightarrow> nat \<Rightarrow> nat \<Rightarrow> tcp_pcb \<Rightarrow> bool" where
  "tx_pos i lo hi pcb \<longleftrightarrow>
     (\<exists>la nx. lastack pcb = sq i la \<and> snd_nxt pcb = sq i nx \<and> lo \<le> la \<and> la \<le> nx \<and> nx \<le> hi)"

definition tx_inv :: "u32 \<Rightarrow> u8 list \<Rightarrow> bool \<Rightarrow> tcp_pcb \<Rightarrow> bool" where
  "tx_inv i S fin pcb \<longleftrightarrow>
     (\<exists>lo qs. tx_ok i S fin lo qs pcb \<and> tx_pos i lo (tx_end S fin) pcb)"

lemma tx_invI: "tx_ok i S fin lo qs pcb \<Longrightarrow> tx_pos i lo (tx_end S fin) pcb \<Longrightarrow> tx_inv i S fin pcb"
  by (auto simp: tx_inv_def)

lemma tx_invE:
  assumes "tx_inv i S fin pcb"
  obtains lo qs where "tx_ok i S fin lo qs pcb" "tx_pos i lo (tx_end S fin) pcb"
  using assms by (auto simp: tx_inv_def)

text \<open>The fields of the send side.\<close>

definition same_tx :: "tcp_pcb \<Rightarrow> tcp_pcb \<Rightarrow> bool" where
  "same_tx a b \<longleftrightarrow> unsent a = unsent b \<and> unacked a = unacked b \<and> snd_lbb a = snd_lbb b \<and>
     snd_buf a = snd_buf b \<and> snd_queuelen a = snd_queuelen b \<and> lastack a = lastack b \<and> snd_nxt a = snd_nxt b"

lemma same_tx_refl [simp]: "same_tx a a"
  by (simp add: same_tx_def)

lemma same_tx_trans: "same_tx a b \<Longrightarrow> same_tx b c \<Longrightarrow> same_tx a c"
  by (simp add: same_tx_def)

lemma same_tx_flags [simp]:
  "same_tx (tcp_set_flags a f) b = same_tx a b" "same_tx (tcp_clear_flags a f) b = same_tx a b"
  by (simp_all add: same_tx_def tcp_set_flags_def tcp_clear_flags_def)

lemma tx_inv_same: "same_tx a b \<Longrightarrow> tx_inv i S fin a = tx_inv i S fin b"
  by (simp add: tx_inv_def tx_ok_def tx_pos_def same_tx_def)

lemma tcplen_tl: "\<not> has (sg_hflags s) TCP_SYN \<Longrightarrow> unat (TCP_TCPLEN (sg_len s) (sg_hflags s)) = seg_tl s"
  by (simp add: TCP_TCPLEN_nat seg_tl_def)

section \<open>\<^verbatim>\<open>tcp_output\<close>\<close>

lemma tcp_output_segment_same:
  "tcp_output_segment e t seg pcb n w = Some (w', pcb', err) \<Longrightarrow> same_tx pcb' pcb"
  by (auto simp: tcp_output_segment_def same_tx_def bind_eq_Some_conv Let_def split: if_splits prod.splits)

lemma tcp_send_empty_ack_same: "tcp_send_empty_ack e pcb w = (w', pcb', err) \<Longrightarrow> same_tx pcb' pcb"
  by (auto simp: tcp_send_empty_ack_def tcp_output_alloc_header_def Let_def
      split: prod.splits option.splits if_splits) (simp_all add: same_tx_def tcp_set_flags_def tcp_clear_flags_def)

lemma tx_inv_sent:
  assumes "tx_inv i S fin pcb" and us: "unsent pcb = s # us"
  shows "tx_inv i S fin (seg_sent s pcb)"
proof -
  obtain lo qs where ok: "tx_ok i S fin lo qs pcb" and pos: "tx_pos i lo (tx_end S fin) pcb"
    using assms(1) by (rule tx_invE)
  define hi where "hi = tx_end S fin"
  have q: "tx_queue i S lo hi qs (unacked pcb) (s # us)" using ok us by (simp add: tx_ok_def hi_def)
  have "s \<in> set qs" "tiles i S lo qs hi" using tx_queue_facts(4) [OF q] q by (auto simp: tx_queue_def)
  then obtain p where p: "lo \<le> p" "tx_seg i S p s" "p + seg_tl s \<le> hi" by (auto elim: tiles_mem)
  have syn: "\<not> has (sg_hflags s) TCP_SYN" and tlp: "0 < seg_tl s" using p(2) by (auto simp: tx_seg_def stream_part_def)
  have tlen: "TCP_TCPLEN (sg_len s) (sg_hflags s) > 0"
    using tlp tcplen_tl [OF syn] by (simp add: word_less_nat_alt)
  have nxt: "sg_seqno s + TCP_TCPLEN (sg_len s) (sg_hflags s) = sq i (p + seg_tl s)"
    using p(2) tcplen_tl [OF syn] by (simp add: tx_seg_def stream_part_def sq_add)
  obtain la nx where ln: "lastack pcb = sq i la" "snd_nxt pcb = sq i nx" "lo \<le> la" "la \<le> nx" "nx \<le> hi"
    using pos by (auto simp: tx_pos_def hi_def)
  have span: "hi \<le> lo + 11681" using tx_ok_facts(3) [OF ok] by (simp add: hi_def)
  have lt: "TCP_SEQ_LT (sq i nx) (sq i (p + seg_tl s)) \<longleftrightarrow> nx < p + seg_tl s"
    using span ln p by (intro sq_cmp(1)) linarith+
  define nx' where "nx' = (if nx < p + seg_tl s then p + seg_tl s else nx)"
  have sent: "unsent (seg_sent s pcb) = us" "unacked (seg_sent s pcb) = put_unacked s (unacked pcb)"
    "lastack (seg_sent s pcb) = lastack pcb" "snd_nxt (seg_sent s pcb) = sq i nx'" "snd_lbb (seg_sent s pcb) = snd_lbb pcb"
    "snd_buf (seg_sent s pcb) = snd_buf pcb" "snd_queuelen (seg_sent s pcb) = snd_queuelen pcb"
    using tlen nxt lt ln(2) us
    by (simp_all add: seg_sent_def Let_def put_unacked_def tcp_clear_flags_def nx'_def)
  have "tx_ok i S fin lo qs (seg_sent s pcb)"
    using ok tx_queue_put_unacked [OF q] by (simp add: tx_ok_def sent hi_def)
  moreover have "tx_pos i lo hi (seg_sent s pcb)"
    using ln p unfolding tx_pos_def sent by (intro exI [of _ la] exI [of _ nx']) (auto simp: nx'_def)
  ultimately show ?thesis unfolding hi_def by (rule tx_invI)
qed

lemma tx_inv_head:
  assumes "tx_inv i S fin pcb" and us: "unsent pcb = s # us" and s: "same_seg s' s"
  shows "tx_inv i S fin (pcb\<lparr>unsent := s' # us\<rparr>)"
proof -
  obtain lo qs where ok: "tx_ok i S fin lo qs pcb" and pos: "tx_pos i lo (tx_end S fin) pcb"
    using assms(1) by (rule tx_invE)
  have "tx_queue i S lo (tx_end S fin) qs (unacked pcb) (s # us)" using ok us by (simp add: tx_ok_def)
  from tx_queue_head [OF this s] obtain qs' where "tx_queue i S lo (tx_end S fin) qs' (unacked pcb) (s' # us)"
    "clens qs' = clens qs" "dlens qs' = dlens qs" by blast
  then have "tx_ok i S fin lo qs' (pcb\<lparr>unsent := s' # us\<rparr>)" using ok by (simp add: tx_ok_def)
  moreover have "tx_pos i lo (tx_end S fin) (pcb\<lparr>unsent := s' # us\<rparr>)" using pos by (simp add: tx_pos_def)
  ultimately show ?thesis by (rule tx_invI)
qed

lemma output_loop_inv:
  "output_loop e t n wnd segs pcb w = Some (w', pcb', err) \<Longrightarrow> tx_inv i S fin pcb \<Longrightarrow> unsent pcb = segs \<Longrightarrow>
   tx_inv i S fin pcb'"
proof (induction e t n wnd segs pcb w rule: output_loop.induct)
  case (2 e t n wnd seg us pcb w)
  define seg' where "seg' = (if state pcb \<noteq> SYN_SENT then seg_set_flags TCP_ACK seg else seg)"
  have inv: "tx_inv i S fin (pcb\<lparr>unsent := seg' # us\<rparr>)"
    using tx_inv_head [OF "2.prems"(2,3), of seg'] by (simp add: seg'_def)
  consider (stop) "pcb' = pcb"
    | (sent) w1 pcb1 err1 where "tcp_output_segment e t seg' (pcb\<lparr>unsent := seg' # us\<rparr>) n w = Some (w1, pcb1, err1)"
      "if err1 \<noteq> ERR_OK then pcb' = tcp_set_flags pcb1 TF_NAGLEMEMERR
       else output_loop e t n wnd us (seg_sent seg' pcb1) w1 = Some (w', pcb', err)"
      "seg_fits pcb wnd seg" "\<not> has (sg_hflags seg) TCP_RST" "\<not> (\<not> tcp_do_output_nagle pcb \<and> \<not> has (flags pcb) (TF_NAGLEMEMERR OR TF_FIN))"
    using "2.prems"(1)
    by (auto simp: bind_eq_Some_conv seg'_def [symmetric] Let_def split: if_splits)
  then show ?case
  proof cases
    case stop
    then show ?thesis using "2.prems"(2) by simp
  next
    case (sent w1 pcb1 err1)
    have same: "same_tx pcb1 (pcb\<lparr>unsent := seg' # us\<rparr>)" using tcp_output_segment_same [OF sent(1)] .
    then have inv1: "tx_inv i S fin pcb1" using inv tx_inv_same by blast
    show ?thesis
    proof (cases "err1 = ERR_OK")
      case True
      have u1: "unsent pcb1 = seg' # us" using same by (simp add: same_tx_def)
      have "unsent (seg_sent seg' pcb1) = us" using u1 by (simp add: seg_sent_def Let_def tcp_clear_flags_def)
      moreover have "tx_inv i S fin (seg_sent seg' pcb1)" using tx_inv_sent [OF inv1 u1] .
      ultimately show ?thesis using "2.IH" [OF _ _ _ seg'_def] sent True by simp
    next
      case False
      then show ?thesis using sent(2) inv1 tx_inv_same [of "tcp_set_flags pcb1 TF_NAGLEMEMERR" pcb1] by simp
    qed
  qed
qed simp


lemma bind_eq_SomeE:
  assumes "Option.bind x f = Some y"
  obtains z where "x = Some z" "f z = Some y"
  using assms by (auto simp: bind_eq_Some_conv)

text \<open>A call sends nothing, or an empty acknowledgement, or runs the loop.\<close>

lemma tcp_output_cases:
  assumes "tcp_output e t inp pcb w = Some (w', pcb', err)"
  obtains (quiet) "w' = w" "same_tx pcb' pcb"
  | (ack) b where "same_tx b pcb" "tcp_send_empty_ack e b w = (w', pcb', err)"
  | (sent) n b b1 err1 where "unsent pcb \<noteq> []" "same_tx b pcb"
      "output_loop e t n (min (snd_wnd pcb) (cwnd pcb)) (unsent pcb) b w = Some (w', b1, err1)"
      "pcb' = b1 \<or> pcb' = output_done (if unsent b1 = [] then b1\<lparr>unsent_oversize := 0\<rparr> else b1)"
proof (cases "inp \<or> unsent pcb = []")
  case True
  then have "w' = w \<and> same_tx pcb' pcb \<or> tcp_send_empty_ack e pcb w = (w', pcb', err)"
    using assms(1) by (auto simp: tcp_output_def bind_eq_Some_conv output_done_def split: if_splits)
  then show ?thesis using quiet ack [of pcb] by auto
next
  case False
  then obtain seg us where us: "unsent pcb = seg # us" by (cases "unsent pcb") auto
  define pcb1 where "pcb1 n = (if ip_addr_isany (local_ip pcb)
      then map_option (\<lambda>a. pcb\<lparr>local_ip := ip_addr_copy a\<rparr>) (ip_netif_get_local_ip e w n (remote_ip pcb)) else Some pcb)" for n
  define stay where "stay b = (if min (snd_wnd b) (cwnd b) = snd_wnd b \<and> unacked b = [] \<and> persist_backoff b = 0
      then b\<lparr>persist_cnt := 0, persist_backoff := 1, persist_probe := 0\<rparr> else b)" for b :: tcp_pcb
  have listen: "state pcb \<noteq> LISTEN" using assms(1) by (simp add: tcp_output_def bind_eq_Some_conv)
  note r = assms(1) [unfolded tcp_output_def Let_def us, folded pcb1_def] False
  consider (route) "w' = w" "pcb' = pcb"
    | (go) n b where "tcp_route e (Some pcb) (local_ip pcb) (remote_ip pcb) w = Some n" "pcb1 n = Some b"
    using r by (auto simp: bind_eq_Some_conv split: option.splits)
  then show ?thesis
  proof cases
    case route
    then show ?thesis by (intro quiet) simp_all
  next
    case (go n b)
    have sb: "same_tx b pcb" and eq: "snd_wnd b = snd_wnd pcb" "cwnd b = cwnd pcb"
      using go(2) by (auto simp: pcb1_def same_tx_def split: if_splits)
    show ?thesis
    proof (cases "seg_fits b (min (snd_wnd pcb) (cwnd pcb)) seg")
      case False
      have sst: "same_tx (stay b) pcb" using sb by (simp add: stay_def same_tx_def)
      have "(if has (flags (stay b)) TF_ACK_NOW then tcp_send_empty_ack e (stay b) w
             else (w, output_done (stay b), ERR_OK)) = (w', pcb', err)"
        using r go False by (auto simp: bind_eq_Some_conv stay_def eq)
      then show ?thesis using ack [OF sst] quiet sst by (auto simp: output_done_def split: if_splits)
    next
      case True
      have "Option.bind (output_loop e t n (min (snd_wnd pcb) (cwnd pcb)) (seg # us) (b\<lparr>persist_backoff := 0\<rparr>) w)
          (\<lambda>(w, pcb, err). if err \<noteq> ERR_OK then Some (w, pcb, err)
             else Some (w, output_done (if unsent pcb = [] then pcb\<lparr>unsent_oversize := 0\<rparr> else pcb), ERR_OK)) =
          Some (w', pcb', err)"
        using r go True listen by simp
      then obtain b1 err1 where "output_loop e t n (min (snd_wnd pcb) (cwnd pcb)) (seg # us) (b\<lparr>persist_backoff := 0\<rparr>) w =
          Some (w', b1, err1)" "pcb' = b1 \<or> pcb' = output_done (if unsent b1 = [] then b1\<lparr>unsent_oversize := 0\<rparr> else b1)"
        by (elim bind_eq_SomeE) (auto simp del: output_loop.simps split: if_splits)
      moreover have "same_tx (b\<lparr>persist_backoff := 0\<rparr>) pcb" using sb by (simp add: same_tx_def)
      ultimately show ?thesis using sent us by simp
    qed
  qed
qed

lemma tcp_output_inv:
  assumes "tcp_output e t inp pcb w = Some (w', pcb', err)" and inv: "tx_inv i S fin pcb"
  shows "tx_inv i S fin pcb'"
  using assms(1)
proof (cases rule: tcp_output_cases)
  case quiet
  then show ?thesis using inv by (simp only: tx_inv_same)
next
  case (ack b)
  then show ?thesis using inv tx_inv_same tcp_send_empty_ack_same same_tx_trans by metis
next
  case (sent n b b1 err1)
  have "tx_inv i S fin b" "unsent b = unsent pcb"
    using sent(2) inv by (simp only: tx_inv_same, simp add: same_tx_def)
  then have i1: "tx_inv i S fin b1" using output_loop_inv [OF sent(3)] by simp
  have "same_tx (output_done (if unsent b1 = [] then b1\<lparr>unsent_oversize := 0\<rparr> else b1)) b1"
    by (simp add: output_done_def) (simp add: same_tx_def)
  with sent(4) i1 show ?thesis using tx_inv_same by blast
qed

text \<open>No assertion fails.\<close>

lemma tcp_output_segment_total: "sg_flags seg = 0 \<Longrightarrow> \<exists>r. tcp_output_segment e t seg pcb n w = Some r"
  by (auto simp: tcp_output_segment_def seg_options_def has_def LWIP_TCP_OPT_LENGTH_def Let_def split: prod.splits)

lemma tx_inv_unsent:
  assumes "tx_inv i S fin pcb" and "s \<in> set (unsent pcb)"
  obtains p where "tx_seg i S p s"
proof -
  obtain lo qs where ok: "tx_ok i S fin lo qs pcb" using assms(1) by (rule tx_invE)
  then have "tiles i S lo qs (tx_end S fin)" "s \<in> set qs"
    using tx_queue_facts(4) [of i S lo "tx_end S fin" qs "unacked pcb" "unsent pcb"] assms(2)
    by (auto simp: tx_ok_def tx_queue_def)
  then show ?thesis using that by (rule tiles_mem)
qed

lemma output_loop_total:
  "tx_inv i S fin pcb \<Longrightarrow> unsent pcb = segs \<Longrightarrow> \<exists>r. output_loop e t n wnd segs pcb w = Some r"
proof (induction segs arbitrary: pcb w)
  case (Cons seg us)
  define seg' where "seg' = (if state pcb \<noteq> SYN_SENT then seg_set_flags TCP_ACK seg else seg)"
  have inv: "tx_inv i S fin (pcb\<lparr>unsent := seg' # us\<rparr>)"
    using tx_inv_head [OF Cons.prems, of seg'] by (simp add: seg'_def)
  obtain p where p: "tx_seg i S p seg" using tx_inv_unsent [OF Cons.prems(1), of seg] Cons.prems(2) by auto
  then have rst: "\<not> has (sg_hflags seg) TCP_RST" "sg_flags seg' = 0"
    by (simp_all add: tx_seg_def seg'_def seg_set_flags_def)
  obtain w1 b err where o: "tcp_output_segment e t seg' (pcb\<lparr>unsent := seg' # us\<rparr>) n w = Some (w1, b, err)"
    using tcp_output_segment_total [OF rst(2)] by (metis prod.exhaust)
  have "same_tx b (pcb\<lparr>unsent := seg' # us\<rparr>)" using tcp_output_segment_same [OF o] .
  then have b: "tx_inv i S fin b" "unsent b = seg' # us"
    using inv by (simp only: tx_inv_same, simp add: same_tx_def)
  have "unsent (seg_sent seg' b) = us" using b(2) by (simp add: seg_sent_def Let_def)
  then have "\<exists>r. output_loop e t n wnd us (seg_sent seg' b) w1 = Some r"
    using Cons.IH tx_inv_sent [OF b] by blast
  then show ?case using o rst(1) by (auto simp: seg'_def Let_def bind_eq_Some_conv)
qed simp

lemma triple_ex [simp]: "\<exists>a b c. x = (a, b, c)"
  by (metis prod.exhaust)

lemma tcp_output_total:
  assumes inv: "tx_inv i S fin pcb" and listen: "state pcb \<noteq> LISTEN"
  shows "\<exists>r. tcp_output e t inp pcb w = Some r"
proof (cases "inp \<or> unsent pcb = []")
  case True
  then show ?thesis using listen by (auto simp: tcp_output_def)
next
  case False
  then obtain seg us where us: "unsent pcb = seg # us" by (cases "unsent pcb") auto
  define pcb1 where "pcb1 n = (if ip_addr_isany (local_ip pcb)
      then map_option (\<lambda>a. pcb\<lparr>local_ip := ip_addr_copy a\<rparr>) (ip_netif_get_local_ip e w n (remote_ip pcb)) else Some pcb)" for n
  have loop: "\<exists>w' b' err. output_loop e t n wnd (seg # us) b w = Some (w', b', err)" if "same_tx b pcb" for n wnd b
  proof -
    have "tx_inv i S fin b" "unsent b = seg # us"
      using that inv us by (simp only: tx_inv_same, simp add: same_tx_def)
    then show ?thesis using output_loop_total by (metis prod.exhaust)
  qed
  show ?thesis
  proof (cases "tcp_route e (Some pcb) (local_ip pcb) (remote_ip pcb) w")
    case None
    then show ?thesis using listen by (simp add: tcp_output_def us)
  next
    case (Some n)
    show ?thesis
    proof (cases "pcb1 n")
      case None
      then show ?thesis using listen Some by (simp add: tcp_output_def us Let_def pcb1_def)
    next
      case b: (Some b)
      then have "same_tx (b\<lparr>persist_backoff := 0\<rparr>) pcb" by (auto simp: pcb1_def same_tx_def split: if_splits)
      from loop [OF this, of n "min (snd_wnd pcb) (cwnd pcb)"] obtain w' b' err where
        l: "output_loop e t n (min (snd_wnd pcb) (cwnd pcb)) (seg # us) (b\<lparr>persist_backoff := 0\<rparr>) w = Some (w', b', err)"
        by blast
      show ?thesis
        using listen Some b l False
        by (simp add: tcp_output_def us Let_def pcb1_def [of n, symmetric] del: output_loop.simps)
    qed
  qed
qed

section \<open>Retransmission\<close>

lemma tx_inv_queues:
  assumes inv: "tx_inv i S fin pcb"
    and q: "\<And>lo hi qs. tx_queue i S lo hi qs (unacked pcb) (unsent pcb) \<Longrightarrow> tx_queue i S lo hi qs ua us"
    and "unacked pcb' = ua" "unsent pcb' = us" "snd_lbb pcb' = snd_lbb pcb" "snd_buf pcb' = snd_buf pcb"
      "snd_queuelen pcb' = snd_queuelen pcb" "lastack pcb' = lastack pcb" "snd_nxt pcb' = snd_nxt pcb"
  shows "tx_inv i S fin pcb'"
proof -
  obtain lo qs where ok: "tx_ok i S fin lo qs pcb" and pos: "tx_pos i lo (tx_end S fin) pcb"
    using inv by (rule tx_invE)
  then have "tx_queue i S lo (tx_end S fin) qs ua us" using q by (simp add: tx_ok_def)
  then have "tx_ok i S fin lo qs pcb'" using ok assms(3-) by (simp add: tx_ok_def)
  moreover have "tx_pos i lo (tx_end S fin) pcb'" using pos assms(3-) by (simp add: tx_pos_def)
  ultimately show ?thesis by (rule tx_invI)
qed

lemma tx_queue_all_unsent:
  assumes "tx_queue i S lo hi qs ua us" and "ua = [] \<or> us = [] \<or> TCP_SEQ_LT (sg_seqno (List.last ua)) (sg_seqno (hd us))"
  shows "tx_queue i S lo hi qs [] (ua @ us)"
  using assms tx_queue_split(1) [OF assms] tx_queue_facts(1) [OF assms(1)] by (auto simp: tx_queue_def in_order_def)

lemma tcp_rexmit_rto_prepare_inv:
  assumes "tcp_rexmit_rto_prepare e pcb w = (pcb', err)" and "queues_split pcb" and "tx_inv i S fin pcb"
  shows "tx_inv i S fin pcb'"
proof (cases "pcb' = pcb")
  case False
  then have p: "pcb' = (tcp_set_flags (pcb\<lparr>unsent := unacked pcb @ unsent pcb, unacked := []\<rparr>) TF_RTO)
     \<lparr>rto_end := rto_end pcb', rttest := 0\<rparr>"
    using assms(1) by (auto simp: tcp_rexmit_rto_prepare_def Let_def split: if_splits)
  show ?thesis
    by (rule tx_inv_queues [OF assms(3), where ua = "[]" and us = "unacked pcb @ unsent pcb"])
       (use tx_queue_all_unsent assms(2) in \<open>simp_all add: queues_split_def\<close>, (subst p, simp add: tcp_set_flags_def)+)
qed (use assms in simp)

lemma tcp_rexmit_inv:
  assumes "tcp_rexmit e pcb w = (pcb', err)" and "tx_inv i S fin pcb"
  shows "tx_inv i S fin pcb'"
proof (cases "err = ERR_OK")
  case True
  with assms(1) obtain seg ua where ua: "unacked pcb = seg # ua" by (auto simp: tcp_rexmit_def split: list.splits)
  show ?thesis
    by (rule tx_inv_queues [OF assms(2), where ua = ua and us = "insert_seg seg (unsent pcb)"])
       (use assms(1) ua True tx_queue_insert_unsent in \<open>auto simp: tcp_rexmit_def Let_def count_rtx_def split: if_splits\<close>)
next
  case False
  then have "pcb' = pcb" using assms(1) by (auto simp: tcp_rexmit_def Let_def split: list.splits if_splits)
  then show ?thesis using assms(2) by simp
qed

lemma tcp_rexmit_fast_same:
  assumes "tcp_rexmit e pcb w = (b, err)"
  shows "same_tx (tcp_rexmit_fast e pcb w) pcb \<or> same_tx (tcp_rexmit_fast e pcb w) b"
  by (auto simp: tcp_rexmit_fast_def assms Let_def same_tx_def tcp_set_flags_def)

lemma tcp_rexmit_fast_inv:
  assumes "tx_inv i S fin pcb"
  shows "tx_inv i S fin (tcp_rexmit_fast e pcb w)"
proof -
  obtain b err where b: "tcp_rexmit e pcb w = (b, err)" by fastforce
  show ?thesis using tcp_rexmit_fast_same [OF b] assms tcp_rexmit_inv [OF b assms] tx_inv_same by blast
qed

section \<open>Acknowledgements\<close>

definition seg_covered :: "u32 \<Rightarrow> tcp_seg \<Rightarrow> bool" where
  "seg_covered ackno s \<longleftrightarrow> TCP_SEQ_LEQ (sg_seqno s + TCP_TCPLEN (sg_len s) (sg_hflags s)) ackno"

lemma free_acked_split:
  "tcp_free_acked_segments ackno other q ql ra = Some (q', ql', ra') \<Longrightarrow>
   \<exists>freed. q = freed @ q' \<and> (\<forall>s\<in>set freed. seg_covered ackno s) \<and> (q' \<noteq> [] \<longrightarrow> \<not> seg_covered ackno (hd q')) \<and>
     ql' = ql - of_nat (clens freed) \<and> ra' = ra + of_nat (dlens freed)"
proof (induction q arbitrary: ql ra)
  case Nil
  then show ?case by simp
next
  case (Cons s q)
  show ?case
  proof (cases "seg_covered ackno s")
    case True
    with Cons.prems have "tcp_free_acked_segments ackno other q (ql - sg_clen s) (ra + ucast (sg_len s)) = Some (q', ql', ra')"
      by (auto simp: seg_covered_def bind_eq_Some_conv Let_def)
    from Cons.IH [OF this] obtain freed where "q = freed @ q'" "\<forall>s\<in>set freed. seg_covered ackno s"
      "q' \<noteq> [] \<longrightarrow> \<not> seg_covered ackno (hd q')" "ql' = ql - sg_clen s - of_nat (clens freed)"
      "ra' = ra + ucast (sg_len s) + of_nat (dlens freed)" by blast
    then show ?thesis using True by (intro exI [of _ "s # freed"]) (simp add: sg_clen_def algebra_simps)
  next
    case False
    then show ?thesis using Cons.prems by (auto simp: seg_covered_def)
  qed
qed

lemma covered_at:
  assumes s: "tx_seg i S p s" and "lo \<le> p" "p + seg_tl s \<le> hi" "lo \<le> a" "a \<le> hi" "hi \<le> lo + 11681"
  shows "seg_covered (sq i a) s \<longleftrightarrow> p + seg_tl s \<le> a"
proof -
  have "\<not> has (sg_hflags s) TCP_SYN" and sq: "sg_seqno s = sq i p" using s by (simp_all add: tx_seg_def stream_part_def)
  then have "sg_seqno s + TCP_TCPLEN (sg_len s) (sg_hflags s) = sq i (p + seg_tl s)"
    using tcplen_tl [of s] by (simp add: sq_add)
  then show ?thesis unfolding seg_covered_def using assms(2-) by simp
qed

text \<open>Covered segments come first, so what stays is what is not covered.\<close>

abbreviation uncovered_of :: "u32 \<Rightarrow> tcp_seg list \<Rightarrow> tcp_seg list" where
  "uncovered_of ackno q \<equiv> filter (\<lambda>s. \<not> seg_covered ackno s) q"

lemma tiles_cut:
  assumes "tiles i S p q hi" and "lo \<le> p" "p \<le> a" "a \<le> hi" "hi \<le> lo + 11681"
  shows "\<exists>p'\<ge>p. p' \<le> a \<and> tiles i S p' (uncovered_of (sq i a) q) hi \<and>
    q = filter (seg_covered (sq i a)) q @ uncovered_of (sq i a) q"
  using assms(1-3)
proof (induction q arbitrary: p)
  case (Cons s q)
  then have s: "tx_seg i S p s" "tiles i S (p + seg_tl s) q hi" by simp_all
  have cov: "seg_covered (sq i a) s \<longleftrightarrow> p + seg_tl s \<le> a"
    using covered_at [OF s(1) Cons.prems(2) tiles_le [OF s(2)]] Cons.prems assms(4,5) by simp
  show ?case
  proof (cases "seg_covered (sq i a) s")
    case True
    then have "p + seg_tl s \<le> a" "lo \<le> p + seg_tl s" using cov Cons.prems(2) by simp_all
    from Cons.IH [OF s(2) this(2,1)] obtain p' where "p + seg_tl s \<le> p'" "p' \<le> a"
      "tiles i S p' (uncovered_of (sq i a) q) hi" "q = filter (seg_covered (sq i a)) q @ uncovered_of (sq i a) q" by blast
    then show ?thesis using True by (intro exI [of _ p']) simp
  next
    case False
    have "\<not> seg_covered (sq i a) x" if "x \<in> set q" for x
    proof -
      from s(2) that obtain p' where p': "p + seg_tl s \<le> p'" "tx_seg i S p' x" "p' + seg_tl x \<le> hi" by (rule tiles_mem)
      then show ?thesis
        using covered_at [OF p'(2) _ p'(3), of lo a] cov False Cons.prems assms(4,5) by simp
    qed
    then have "filter (seg_covered (sq i a)) (s # q) = []" "uncovered_of (sq i a) (s # q) = s # q"
      using False by (auto simp: filter_empty_conv filter_id_conv)
    then show ?thesis using Cons.prems by (intro exI [of _ p]) simp
  qed
qed (simp add: assms(4))

lemma covered_before:
  assumes q: "tx_queue i S lo hi qs ua us" and a: "lo \<le> a" "a \<le> hi" "hi \<le> lo + 11681"
    and s: "s \<in> set qs" "seg_covered (sq i a) s" and x: "x \<in> set qs" "\<not> seg_covered (sq i a) x"
  shows "\<not> opos i lo x \<le> opos i lo s"
proof
  assume le: "opos i lo x \<le> opos i lo s"
  have t: "tiles i S lo qs hi" using q by (simp add: tx_queue_def)
  have "qs = filter (seg_covered (sq i a)) qs @ uncovered_of (sq i a) qs"
    using tiles_cut [OF t order_refl a] by blast
  then have "in_order i lo (filter (seg_covered (sq i a)) qs @ uncovered_of (sq i a) qs)"
    using tx_queue_facts(1) [OF q] by simp
  then have "opos i lo s \<le> opos i lo x" using s x by (auto simp: in_order_def sorted_append)
  then have "s = x" using le inj_onD [OF tx_queue_facts(3) [OF q] _ s(1) x(1)] by simp
  then show False using s(2) x(2) by simp
qed

lemma covered_filter:
  assumes q: "tx_queue i S lo hi qs ua us" and a: "lo \<le> a" "a \<le> hi" "hi \<le> lo + 11681"
    and w: "r = ua \<or> r = us" and f: "r = freed @ r'" "\<forall>s\<in>set freed. seg_covered (sq i a) s"
      "r' \<noteq> [] \<longrightarrow> \<not> seg_covered (sq i a) (hd r')"
  shows "r' = uncovered_of (sq i a) r"
proof -
  have o: "in_order i lo r" using q w by (auto simp: tx_queue_def)
  have sub: "set r \<subseteq> set qs" using tx_queue_facts(4) [OF q] w by auto
  have "\<not> seg_covered (sq i a) s" if s: "s \<in> set r'" for s
  proof
    assume cov: "seg_covered (sq i a) s"
    have h: "hd r' \<in> set r'" "\<not> seg_covered (sq i a) (hd r')" using s f(3) by (cases r'; simp)+
    then have "\<not> opos i lo (hd r') \<le> opos i lo s"
      using s f(1) sub cov by (intro covered_before [OF q a]) auto
    then show False using o s f(1) by (cases r') (auto simp: in_order_def sorted_append)
  qed
  then show ?thesis using f(1,2) by (auto simp: filter_id_conv filter_empty_conv)
qed

lemma lens_mset:
  assumes "mset a = mset b"
  shows "dlens a = dlens b" "clens a = clens b"
proof -
  have "dlens q = sum_mset (image_mset (\<lambda>s. unat (sg_len s)) (mset q))"
    "clens q = sum_mset (image_mset (\<lambda>s. length (sg_bufs s)) (mset q))" for q
    by (induction q) simp_all
  then show "dlens a = dlens b" "clens a = clens b" using assms by simp_all
qed

lemma in_order_later:
  assumes "in_order i lo q" and "\<And>s. s \<in> set q \<Longrightarrow> \<exists>p\<ge>lo'. seg_at i S p s \<and> p < lo + 0x80000000" and "lo \<le> lo'"
  shows "in_order i lo' q"
proof -
  have "opos i lo s = opos i lo' s + (lo' - lo)" if s: "s \<in> set q" for s
  proof -
    obtain p where p: "lo' \<le> p" "seg_at i S p s" "p < lo + 0x80000000" using assms(2) [OF s] by blast
    then show ?thesis using opos_at [OF p(2), of lo'] opos_at [OF p(2), of lo] assms(3) by simp
  qed
  moreover have "sorted_wrt (\<lambda>a b. opos i lo a \<le> opos i lo b) q"
    using assms(1) by (simp add: in_order_def sorted_wrt_map)
  ultimately have "sorted_wrt (\<lambda>a b. opos i lo' a \<le> opos i lo' b) q"
    by (elim sorted_wrt_mono_rel [rotated]) simp
  then show ?thesis by (simp add: in_order_def sorted_wrt_map)
qed

lemma tx_queue_uncovered:
  assumes q: "tx_queue i S lo hi qs ua us" and a: "lo \<le> a" "a \<le> hi" "hi \<le> lo + 11681"
  shows "\<exists>lo'\<ge>lo. lo' \<le> a \<and>
    tx_queue i S lo' hi (uncovered_of (sq i a) qs) (uncovered_of (sq i a) ua) (uncovered_of (sq i a) us)"
proof -
  have t: "tiles i S lo qs hi" using q by (simp add: tx_queue_def)
  from tiles_cut [OF t order_refl a] obtain lo' where
    lo': "lo \<le> lo'" "lo' \<le> a" "tiles i S lo' (uncovered_of (sq i a) qs) hi" by blast
  have m: "mset (uncovered_of (sq i a) qs) = mset (uncovered_of (sq i a) ua @ uncovered_of (sq i a) us)"
    using q by (simp add: tx_queue_def mset_filter)
  have pos: "\<exists>p\<ge>lo'. seg_at i S p s \<and> p < lo + 0x80000000" if "s \<in> set (uncovered_of (sq i a) qs)" for s
  proof -
    from lo'(3) that obtain p where "lo' \<le> p" "tx_seg i S p s" "p + seg_tl s \<le> hi" by (rule tiles_mem)
    then show ?thesis using a(3) by (intro exI [of _ p]) (auto simp: tx_seg_def)
  qed
  have sub: "set ua \<subseteq> set qs" "set us \<subseteq> set qs" using tx_queue_facts(4) [OF q] by auto
  have "in_order i lo (uncovered_of (sq i a) ua)" "in_order i lo (uncovered_of (sq i a) us)"
    using q by (auto simp: tx_queue_def in_order_def sorted_wrt_map sorted_wrt_filter)
  then have "in_order i lo' (uncovered_of (sq i a) ua)" "in_order i lo' (uncovered_of (sq i a) us)"
    by (auto intro!: in_order_later [OF _ _ lo'(1), where S = S] pos dest: subsetD [OF sub(1)] subsetD [OF sub(2)])
  then show ?thesis using lo' m a(3) by (intro exI [of _ lo']) (simp add: tx_queue_def)
qed

lemma sint_of_high:
  fixes d :: u32
  assumes "2 ^ 31 \<le> uint d"
  shows "sint d < 0"
proof -
  have "d = word_of_int (uint d - 2 ^ 32)" by (simp add: word_of_int_minus)
  moreover have "sint (word_of_int k :: u32) = signed_take_bit 31 k" for k
    by (simp add: sint_sbintrunc')
  ultimately have "sint d = signed_take_bit 31 (uint d - 2 ^ 32)" by metis
  also have "\<dots> = uint d - 2 ^ 32"
    using assms uint_lt2p [of d] by (intro signed_take_bit_int_eq_self) simp_all
  finally show ?thesis using uint_lt2p [of d] by simp
qed

lemma ack_position:
  assumes "lastack pcb = sq i la" and "snd_nxt pcb = sq i nx" and "la \<le> nx" and "nx < la + 0x80000000"
    and "\<not> TCP_SEQ_LEQ ackno (lastack pcb)" and "TCP_SEQ_LEQ ackno (snd_nxt pcb)"
  obtains a where "ackno = sq i a" "la < a" "a \<le> nx"
proof -
  define d where "d = ackno - sq i la"
  have "0 < sint d" using assms(1,5) by (simp add: TCP_SEQ_LEQ_def d_def)
  then have d: "uint d < 2 ^ 31" using sint_of_high [of d] by (cases "uint d < 2 ^ 31") simp_all
  have d0: "0 < unat d" using \<open>0 < sint d\<close> by (cases "d = 0") (simp_all add: unat_gt_0)
  have off: "off (sq i la) ackno < 0x80000000"
    using d by (simp add: off_def flip: d_def) (simp add: nat_less_iff flip: nat_uint_eq)
  have nx: "off (sq i la) (sq i nx) = nx - la" using sq_diff(2) [of la nx i] assms(3,4) by (simp add: off_def)
  have "off (sq i la) ackno \<le> nx - la"
    using seq_iffs(2) [OF off, of "sq i nx"] nx assms(2,4,6) by simp
  then show ?thesis
    using d0 assms(3) by (intro that [of "la + unat d"]) (simp_all add: off_def d_def sq_def add.assoc)
qed

lemma free_acked_total:
  assumes "unat ql = clens q + clens other" and "\<forall>s\<in>set q. sg_bufs s \<noteq> []"
  shows "\<exists>r. tcp_free_acked_segments ackno other q ql ra = Some r"
  using assms
proof (induction q arbitrary: ql ra)
  case (Cons s q)
  have "unat (sg_clen s) = length (sg_bufs s)"
    using Cons.prems(1) unat_u16_less [of ql] by (simp add: sg_clen_def unat_of_nat_u16)
  then have ql: "sg_clen s \<le> ql" "unat (ql - sg_clen s) = clens q + clens other"
    using Cons.prems(1) by (simp_all add: word_le_nat_alt unat_sub)
  then have "ql - sg_clen s \<noteq> 0 \<longrightarrow> q \<noteq> [] \<or> other \<noteq> []" by (auto simp: unat_eq_0 simp flip: unat_0_iff)
  then show ?case using Cons.IH [OF ql(2)] Cons.prems(2) ql(1) by (simp add: Let_def LWIP_ASSERT_def)
qed simp


text \<open>What a positive acknowledgement leaves: the segments that it does not cover.\<close>

lemma ack_free_queues:
  assumes ok: "tx_ok i S fin lo qs pcb" and a: "lo \<le> a" "a \<le> tx_end S fin"
  shows "\<exists>ua us ql racked lo' qs'. lo' \<le> a \<and>
    tcp_free_acked_segments (sq i a) (unsent pcb) (unacked pcb) (snd_queuelen pcb) 0 = Some (ua, ql, racked) \<and>
    (\<exists>ql2 racked2. tcp_free_acked_segments (sq i a) ua (unsent pcb) ql racked = Some (us, ql2, racked2) \<and>
      tx_ok i S fin lo' qs' (pcb\<lparr>unacked := ua, unsent := us, snd_queuelen := ql2, snd_buf := snd_buf pcb + racked2\<rparr>) \<and>
      unat racked2 = dlens qs - dlens qs' \<and> dlens qs' \<le> dlens qs)"
proof -
  note f = tx_ok_facts [OF ok]
  define ackno where "ackno = sq i a"
  have q: "tx_queue i S lo (tx_end S fin) qs (unacked pcb) (unsent pcb)" using ok by (simp add: tx_ok_def)
  have m: "mset qs = mset (unacked pcb @ unsent pcb)" using q by (simp add: tx_queue_def)
  have lens: "clens qs = clens (unacked pcb) + clens (unsent pcb)" "dlens qs = dlens (unacked pcb) + dlens (unsent pcb)"
    using lens_mset [OF m] by simp_all
  have bufs: "\<forall>s\<in>set qs. sg_bufs s \<noteq> []"
  proof
    fix s assume "s \<in> set qs"
    then obtain p where "tx_seg i S p s" using q by (auto simp: tx_queue_def elim: tiles_mem)
    then show "sg_bufs s \<noteq> []" by (simp add: tx_seg_def)
  qed
  have sub: "set (unacked pcb) \<subseteq> set qs" "set (unsent pcb) \<subseteq> set qs" using tx_queue_facts(4) [OF q] by auto
  have "unat (snd_queuelen pcb) = clens (unacked pcb) + clens (unsent pcb)" using f(2) lens(1) by simp
  then obtain ua ql racked where r1:
    "tcp_free_acked_segments ackno (unsent pcb) (unacked pcb) (snd_queuelen pcb) 0 = Some (ua, ql, racked)"
    using free_acked_total [of "snd_queuelen pcb" "unacked pcb" "unsent pcb" ackno 0] bufs sub by fastforce
  from free_acked_split [OF r1] obtain fu where fu: "unacked pcb = fu @ ua" "\<forall>s\<in>set fu. seg_covered ackno s"
    "ua \<noteq> [] \<longrightarrow> \<not> seg_covered ackno (hd ua)" "ql = snd_queuelen pcb - of_nat (clens fu)" "racked = 0 + of_nat (dlens fu)"
    by blast
  have ql: "unat ql = clens ua + clens (unsent pcb)"
    using f(1,2) fu(1,4) lens(1) by (simp add: unat_sub word_le_nat_alt unat_of_nat_u16)
  then obtain us ql2 racked2 where r2:
    "tcp_free_acked_segments ackno ua (unsent pcb) ql racked = Some (us, ql2, racked2)"
    using free_acked_total [of ql "unsent pcb" ua ackno racked] bufs sub by fastforce
  from free_acked_split [OF r2] obtain fs where fs: "unsent pcb = fs @ us" "\<forall>s\<in>set fs. seg_covered ackno s"
    "us \<noteq> [] \<longrightarrow> \<not> seg_covered ackno (hd us)" "ql2 = ql - of_nat (clens fs)" "racked2 = racked + of_nat (dlens fs)"
    by blast
  have ua: "ua = uncovered_of ackno (unacked pcb)"
    using covered_filter [OF q a f(3) _ fu(1)] fu(2,3) by (simp add: ackno_def)
  have us: "us = uncovered_of ackno (unsent pcb)"
    using covered_filter [OF q a f(3) _ fs(1)] fs(2,3) by (simp add: ackno_def)
  define qs' where "qs' = uncovered_of ackno qs"
  from tx_queue_uncovered [OF q a f(3)] obtain lo' where lo': "lo' \<le> a" "tx_queue i S lo' (tx_end S fin) qs' ua us"
    unfolding qs'_def ua us ackno_def by blast
  have m': "mset qs' = mset (ua @ us)" using lo'(2) by (simp add: tx_queue_def)
  have lens': "clens qs' = clens ua + clens us" "dlens qs' = dlens ua + dlens us" using lens_mset [OF m'] by simp_all
  have "unat ql2 = clens qs'"
    using ql fs(1,4) f(1) lens lens' fu(1) by (simp add: unat_sub word_le_nat_alt unat_of_nat_u16)
  then have qok: "ql2 = of_nat (clens qs')" by (metis of_nat_unat ucast_id)
  have racked: "racked2 = of_nat (dlens fu + dlens fs)" using fs(5) fu(5) by simp
  have dl: "dlens qs = dlens fu + dlens fs + dlens qs'" using lens lens' fu(1) fs(1) by simp
  have sb: "unat (snd_buf pcb) + dlens qs = 8 * 1460" using ok by (simp add: tx_ok_def)
  have "dlens fu + dlens fs < 2 ^ LENGTH(32)" using dl sb by simp
  then have rn: "unat racked2 = dlens fu + dlens fs" by (simp only: racked unat_of_nat mod_less)
  then have "unat (snd_buf pcb + racked2) = unat (snd_buf pcb) + (dlens fu + dlens fs)"
    using sb dl by (subst unat_add_small) simp_all
  then have "tx_ok i S fin lo' qs' (pcb\<lparr>unacked := ua, unsent := us, snd_queuelen := ql2, snd_buf := snd_buf pcb + racked2\<rparr>)"
    using ok lo'(2) qok dl sb by (simp add: tx_ok_def)
  then show ?thesis using lo'(1) r1 r2 rn dl unfolding ackno_def by (intro exI conjI) (assumption | simp)+
qed


lemma ack_congestion_same: "same_tx (ack_congestion pcb n) pcb"
  by (simp add: ack_congestion_def same_tx_def Let_def)

lemma ack_end_rto_same: "same_tx (ack_end_rto pcb) pcb"
  by (simp add: ack_end_rto_def split: list.splits)

lemma ack_rtt_same: "same_tx (ack_rtt t pcb tin) pcb"
  by (simp add: ack_rtt_def same_tx_def Let_def)

lemma ack_update_window_same: "same_tx (ack_update_window pcb tin) pcb"
  by (simp add: ack_update_window_def same_tx_def Let_def)

lemma ack_new_data_step:
  assumes inv: "tx_inv i S fin pcb" and ra: "recv_acked tin = 0"
    and pos: "\<not> TCP_SEQ_LEQ (g_ackno tin) (lastack pcb)" "TCP_SEQ_LEQ (g_ackno tin) (snd_nxt pcb)"
  shows "\<exists>w' pcb' tin'. ack_new_data e v6 pcb tin w = Some (w', pcb', tin') \<and> tx_inv i S fin pcb' \<and>
    unat (recv_acked tin') + unat (snd_buf pcb) = unat (snd_buf pcb')"
proof -
  obtain lo qs la nx where ok: "tx_ok i S fin lo qs pcb" and ln: "lastack pcb = sq i la" "snd_nxt pcb = sq i nx"
    "lo \<le> la" "la \<le> nx" "nx \<le> tx_end S fin"
    using inv by (auto simp: tx_inv_def tx_pos_def)
  have span: "tx_end S fin \<le> lo + 11681" using tx_ok_facts(3) [OF ok] .
  have "nx < la + 0x80000000" using span ln(3,5) by simp
  from ack_position [OF ln(1,2,4) this pos] obtain a where a: "g_ackno tin = sq i a" "la < a" "a \<le> nx" .
  from ack_free_queues [OF ok, of a] ln a obtain ua us ql racked ql2 racked2 lo' qs' where r:
    "lo' \<le> a" "tcp_free_acked_segments (sq i a) (unsent pcb) (unacked pcb) (snd_queuelen pcb) 0 = Some (ua, ql, racked)"
    "tcp_free_acked_segments (sq i a) ua (unsent pcb) ql racked = Some (us, ql2, racked2)"
    "tx_ok i S fin lo' qs' (pcb\<lparr>unacked := ua, unsent := us, snd_queuelen := ql2, snd_buf := snd_buf pcb + racked2\<rparr>)"
    "unat racked2 = dlens qs - dlens qs'" "dlens qs' \<le> dlens qs" by auto
  define pcb1 where "pcb1 = (if has (flags pcb) TF_INFR
                then (tcp_clear_flags pcb TF_INFR)\<lparr>cwnd := ssthresh pcb, bytes_acked := 0\<rparr> else pcb)"
  define pcb2 where "pcb2 = ack_congestion (pcb1\<lparr>nrtx := 0, rto := to_s16 (sa pcb1 div 8 + sv pcb1), dupacks := 0,
    lastack := g_ackno tin\<rparr>) (g_ackno tin - lastack pcb1)"
  define pcb3 where "pcb3 = pcb2\<lparr>unacked := ua, unsent := us, snd_queuelen := ql2,
                   rtime := (if ua = [] then -1 else 0), polltmr := 0,
                   unsent_oversize := (if us = [] then 0 else unsent_oversize pcb2),
                   snd_buf := snd_buf pcb2 + racked2\<rparr>"
  have "same_tx pcb2 (pcb1\<lparr>nrtx := 0, rto := to_s16 (sa pcb1 div 8 + sv pcb1), dupacks := 0, lastack := g_ackno tin\<rparr>)"
    unfolding pcb2_def by (rule ack_congestion_same)
  then have p2: "unsent pcb2 = unsent pcb" "unacked pcb2 = unacked pcb" "snd_lbb pcb2 = snd_lbb pcb" "snd_buf pcb2 = snd_buf pcb"
    "snd_queuelen pcb2 = snd_queuelen pcb" "lastack pcb2 = sq i a" "snd_nxt pcb2 = sq i nx"
    using a(1) ln(2) by (auto simp: same_tx_def pcb1_def tcp_clear_flags_def)
  have res: "ack_new_data e v6 pcb tin w =
      Some (if v6 then te_nd6_reachability_hint e w else w, ack_end_rto pcb3, tin\<lparr>recv_acked := racked2\<rparr>)"
    using r(2,3) p2 ra a(1) unfolding ack_new_data_def Let_def pcb1_def [symmetric] pcb2_def [symmetric]
    by (simp add: pcb3_def)
  have "tx_ok i S fin lo' qs' pcb3" by (rule tx_ok_cong [OF r(4)]) (simp_all add: pcb3_def p2)
  moreover have "tx_pos i lo' (tx_end S fin) pcb3"
    using r(1) a ln p2 unfolding tx_pos_def by (intro exI [of _ a] exI [of _ nx]) (simp add: pcb3_def)
  ultimately have "tx_inv i S fin pcb3" by (rule tx_invI)
  then have "tx_inv i S fin (ack_end_rto pcb3)" using tx_inv_same [OF ack_end_rto_same] by blast
  moreover have "snd_buf (ack_end_rto pcb3) = snd_buf pcb + racked2"
    using ack_end_rto_same [of pcb3] by (simp add: same_tx_def pcb3_def p2)
  moreover have "unat (snd_buf pcb + racked2) = unat (snd_buf pcb) + unat racked2"
    using ok r(5,6) by (intro unat_add_small) (simp add: tx_ok_def)
  ultimately show ?thesis using res by simp
qed

text \<open>A duplicate acknowledgement counts, and may start a fast retransmission.\<close>

lemma ack_duplicate_cases:
  obtains p where "same_tx p pcb" "ack_duplicate e pcb tin r w = p \<or> ack_duplicate e pcb tin r w = tcp_rexmit_fast e p w"
proof (cases "g_tcplen tin = 0 \<and> snd_wl2 pcb + snd_wnd pcb = r \<and> rtime pcb \<ge> 0 \<and> lastack pcb = g_ackno tin")
  case True
  define p1 where "p1 = (if dupacks pcb + 1 > dupacks pcb then pcb\<lparr>dupacks := dupacks pcb + 1\<rparr> else pcb)"
  define p2 where "p2 = (if dupacks p1 > 3 then p1\<lparr>cwnd := TCP_WND_INC (cwnd p1) (ucast (mss p1))\<rparr> else p1)"
  have "same_tx p2 pcb" by (simp add: p1_def p2_def same_tx_def)
  then show ?thesis
    using True by (intro that [of p2]) (simp_all add: ack_duplicate_def Let_def flip: p1_def p2_def)
next
  case False
  then have "ack_duplicate e pcb tin r w = pcb\<lparr>dupacks := 0\<rparr>" unfolding ack_duplicate_def by (rule if_not_P)
  then show ?thesis by (intro that [of "pcb\<lparr>dupacks := 0\<rparr>"]) (simp_all add: same_tx_def)
qed

lemma ack_duplicate_inv: "tx_inv i S fin pcb \<Longrightarrow> tx_inv i S fin (ack_duplicate e pcb tin r w)"
  by (rule ack_duplicate_cases [of pcb e tin r w]) (metis tcp_rexmit_fast_inv tx_inv_same)

lemma snd_buf_rexmit: "tcp_rexmit e pcb w = (b, err) \<Longrightarrow> snd_buf b = snd_buf pcb"
  by (auto simp: tcp_rexmit_def count_rtx_def Let_def split: list.splits if_splits)

lemma snd_buf_rexmit_fast: "snd_buf (tcp_rexmit_fast e pcb w) = snd_buf pcb"
proof -
  obtain b err where b: "tcp_rexmit e pcb w = (b, err)" by (cases "tcp_rexmit e pcb w")
  show ?thesis using tcp_rexmit_fast_same [OF b] snd_buf_rexmit [OF b] by (auto simp: same_tx_def)
qed

lemma snd_buf_dup: "snd_buf (ack_duplicate e pcb tin r w) = snd_buf pcb"
  by (rule ack_duplicate_cases [of pcb e tin r w]) (metis snd_buf_rexmit_fast same_tx_def)

lemma tcp_receive_ack_step:
  assumes inv: "tx_inv i S fin pcb" and ra: "recv_acked tin = 0"
  shows "\<exists>w' pcb' tin'. tcp_receive_ack e t v6 pcb tin w = Some (w', pcb', tin') \<and> tx_inv i S fin pcb' \<and>
    unat (recv_acked tin') + unat (snd_buf pcb) = unat (snd_buf pcb')"
proof (cases "has (g_flags tin) TCP_ACK")
  case True
  define r where "r = snd_wnd pcb + snd_wl2 pcb"
  define p where "p = ack_update_window pcb tin"
  have same: "same_tx p pcb" by (simp add: p_def ack_update_window_same)
  have pinv: "tx_inv i S fin p" using inv tx_inv_same [OF same] by simp
  have sb: "snd_buf p = snd_buf pcb" using same by (simp add: same_tx_def)
  have fin: ?thesis
    if "tcp_receive_ack e t v6 pcb tin w = Some (w1, ack_rtt t p1 tin1, tin1)" "tx_inv i S fin p1"
      "unat (recv_acked tin1) + unat (snd_buf pcb) = unat (snd_buf p1)" for w1 p1 tin1
    using that tx_inv_same [OF ack_rtt_same [of t p1 tin1]] ack_rtt_same [of t p1 tin1] by (simp add: same_tx_def)
  consider (dup) "TCP_SEQ_LEQ (g_ackno tin) (lastack p)"
    | (new) "\<not> TCP_SEQ_LEQ (g_ackno tin) (lastack p)" "TCP_SEQ_BETWEEN (g_ackno tin) (lastack p + 1) (snd_nxt p)"
    | (out) "\<not> TCP_SEQ_LEQ (g_ackno tin) (lastack p)" "\<not> TCP_SEQ_BETWEEN (g_ackno tin) (lastack p + 1) (snd_nxt p)"
    by blast
  then show ?thesis
  proof cases
    case dup
    then show ?thesis
      using True ra sb ack_duplicate_inv [OF pinv]
      by (intro fin [of w "ack_duplicate e p tin r w" tin])
        (simp_all add: tcp_receive_ack_def Let_def p_def r_def snd_buf_dup)
  next
    case new
    from new(2) have "TCP_SEQ_LEQ (g_ackno tin) (snd_nxt p)" by (simp add: TCP_SEQ_BETWEEN_def)
    from ack_new_data_step [OF pinv ra new(1) this, of e v6 w] obtain w' p' tin' where
      "ack_new_data e v6 p tin w = Some (w', p', tin')" "tx_inv i S fin p'"
      "unat (recv_acked tin') + unat (snd_buf p) = unat (snd_buf p')" by blast
    then show ?thesis using True sb new
      by (intro fin [of w' p' tin']) (simp_all add: tcp_receive_ack_def Let_def flip: p_def)
  next
    case out
    obtain w' p' err where s: "tcp_send_empty_ack e p w = (w', p', err)" by (cases "tcp_send_empty_ack e p w")
    note same' = tcp_send_empty_ack_same [OF s]
    have "tx_inv i S fin p'" "snd_buf p' = snd_buf pcb"
      using pinv sb tx_inv_same [OF same'] same' by (simp_all add: same_tx_def)
    then show ?thesis using True out s ra
      by (intro fin [of w' p' tin]) (simp_all add: tcp_receive_ack_def Let_def flip: p_def)
  qed
qed (use assms in \<open>simp add: tcp_receive_ack_def\<close>)

end
