(* ===== verification/Tcp_txf.thy ===== *)
theory Tcp_txf imports Tcp_txo begin

text \<open>
  The remaining operations on the send queues: the FIN, the split of the first unsent segment,
  window probes, and \<^verbatim>\<open>tcp_receive\<close> as a whole.
\<close>

section \<open>FIN\<close>

lemma fin_flags [simp]:
  "has (fl OR TCP_FIN) TCP_SYN = has fl TCP_SYN" "has (fl OR TCP_FIN) TCP_RST = has fl TCP_RST"
  by (simp_all, simp add: has_def TCP_FIN_def TCP_RST_def)

lemma fin_not_rst [simp]: "\<not> has TCP_FIN TCP_RST"
  by (simp add: has_def TCP_FIN_def TCP_RST_def)

lemma has_three:
  "\<not> has fl TCP_FIN \<Longrightarrow> \<not> has fl TCP_SYN \<Longrightarrow> \<not> has fl TCP_RST \<Longrightarrow> \<not> has fl (TCP_SYN OR TCP_FIN OR TCP_RST)"
  by (simp add: has_def bit.conj_disj_distrib)

lemma tx_seg_fin:
  assumes "tx_seg i S p s" and "p + seg_tl s = length S" and "\<not> has (sg_hflags s) TCP_FIN"
  shows "tx_seg i S p (seg_set_flags TCP_FIN s)" "p + seg_tl (seg_set_flags TCP_FIN s) = Suc (length S)"
  using assms by (auto simp: tx_seg_def stream_part_def seg_set_flags_def seg_tl_def fin_len_def)

lemma tx_seg_new_fin:
  assumes "tcp_create_segment e pcb [] [(0, None)] TCP_FIN (sq i (length S)) 0 w = (w', Some seg)"
  shows "tx_seg i S (length S) seg" "seg_tl seg = 1" "sg_len seg = 0" "length (sg_bufs seg) = 1" "sg_clen seg = 1"
  using assms
  by (auto simp: tcp_create_segment_def Let_def tx_seg_def stream_part_def seg_tl_def fin_len_def sg_clen_def
      split: prod.splits bool.splits)

lemma tx_pos_Suc:
  "tx_pos i lo hi pcb \<Longrightarrow> lastack p = lastack pcb \<Longrightarrow> snd_nxt p = snd_nxt pcb \<Longrightarrow> tx_pos i lo (Suc hi) p"
  by (fastforce simp: tx_pos_def)

text \<open>The last unsent segment takes the FIN.\<close>

lemma fin_on_last:
  assumes ok: "tx_ok i S False lo qs pcb" and tail: "tail_last (unacked pcb) (unsent pcb)" and ne: "unsent pcb \<noteq> []"
  shows "\<exists>pcb'. tcp_send_fin e pcb w = Some (w, pcb', ERR_OK) \<and> (\<exists>qs'. tx_ok i S True lo qs' pcb') \<and>
    lastack pcb' = lastack pcb \<and> snd_nxt pcb' = snd_nxt pcb"
proof -
  have q: "tx_queue i S lo (length S) qs (unacked pcb) (unsent pcb)" using ok by (simp add: tx_ok_def)
  from ok tail ne obtain qs0 us0 l p where l: "qs = qs0 @ [l]" "unsent pcb = us0 @ [l]" "tiles i S lo qs0 p"
    "tx_seg i S p l" "p + seg_tl l = length S" "\<And>s. s \<in> set qs \<Longrightarrow> \<not> has (sg_hflags s) TCP_FIN"
    "List.last (unsent pcb) = l" by (rule tx_ok_last) (rule that; assumption)
  define l' where "l' = seg_set_flags TCP_FIN l"
  define pcb' where "pcb' = tcp_set_flags (pcb\<lparr>unsent := upd_last (seg_set_flags TCP_FIN) (unsent pcb)\<rparr>) TF_FIN"
  have fl: "\<not> has (sg_hflags l) TCP_FIN" "\<not> has (sg_hflags l) TCP_SYN" "\<not> has (sg_hflags l) TCP_RST"
    using l(1,4,6) by (auto simp: tx_seg_def stream_part_def)
  then have "\<not> has (sg_hflags l) (TCP_SYN OR TCP_FIN OR TCP_RST)" by (rule has_three)
  then have r: "tcp_send_fin e pcb w = Some (w, pcb', ERR_OK)"
    using ne l(7) by (simp add: tcp_send_fin_def pcb'_def)
  have us': "unsent pcb' = us0 @ [l']" by (simp add: pcb'_def l(2) l'_def)
  have t: "tiles i S lo (qs0 @ [l']) (Suc (length S))"
    using l(3) tx_seg_fin [OF l(4,5) fl(1)] by (auto simp: tiles_append l'_def)
  have len: "clens (qs0 @ [l']) = clens qs" "dlens (qs0 @ [l']) = dlens qs"
    by (simp_all add: l(1) l'_def seg_set_flags_def)
  have "Suc (length S) < lo + 0x80000000" using tx_ok_facts(3) [OF ok] by simp
  from tx_queue_exchange [OF q [unfolded l(1,2)] t this] have "tx_ok i S True lo (qs0 @ [l']) pcb'"
    using ok len by (simp add: tx_ok_def us') (simp add: pcb'_def)
  then show ?thesis using r by (auto simp: pcb'_def tcp_set_flags_def)
qed

text \<open>Without unsent data the FIN gets a segment of its own.\<close>

lemma tcp_enqueue_fin_cases:
  assumes "tcp_enqueue_flags e pcb TCP_FIN w = Some (w', pcb', err)"
  obtains "err = ERR_MEM" "pcb' = tcp_set_flags pcb TF_NAGLEMEMERR"
  | seg w1 where "err = ERR_OK" "tcp_create_segment e pcb [] [(0, None)] TCP_FIN (snd_lbb pcb) 0 w1 = (w', Some seg)"
    "pcb' = (tcp_set_flags (pcb\<lparr>unsent := unsent pcb @ [seg], unsent_oversize := 0,
            snd_lbb := snd_lbb pcb + 1\<rparr>) TF_FIN)\<lparr>snd_queuelen := snd_queuelen pcb + sg_clen seg\<rparr>"
proof -
  have fin: "\<not> has TCP_FIN TCP_SYN" "has TCP_FIN TCP_FIN" by (simp_all add: has_def TCP_FIN_def TCP_SYN_def)
  show ?thesis using assms that
    by (auto simp: tcp_enqueue_flags_def fin Let_def tcp_set_flags_def bind_eq_Some_conv split: prod.splits option.splits)
qed

lemma tcp_enqueue_fin_total: "\<exists>w' pcb' err. tcp_enqueue_flags e pcb TCP_FIN w = Some (w', pcb', err)"
proof -
  have "has TCP_FIN (TCP_SYN OR TCP_FIN)" by (simp add: has_def TCP_FIN_def TCP_SYN_def)
  then show ?thesis by (simp add: tcp_enqueue_flags_def Let_def split: prod.splits option.splits)
qed

lemma fin_enqueued:
  assumes ok: "tx_ok i S False lo qs pcb" and us: "unsent pcb = []"
    and r: "tcp_enqueue_flags e pcb TCP_FIN w = Some (w', pcb', ERR_OK)"
  shows "(\<exists>qs'. tx_ok i S True lo qs' pcb') \<and> lastack pcb' = lastack pcb \<and> snd_nxt pcb' = snd_nxt pcb"
  using r
proof (cases rule: tcp_enqueue_fin_cases)
  case (2 seg w1)
  have lbb: "snd_lbb pcb = sq i (length S)" and q: "tx_queue i S lo (length S) (qs @ []) (unacked pcb) ([] @ [])"
    using ok us by (simp_all add: tx_ok_def)
  note s = tx_seg_new_fin [OF 2(2) [unfolded lbb]]
  have t: "tiles i S lo (qs @ [seg]) (Suc (length S))"
    using q s(1,2) by (auto simp: tiles_append tx_queue_def)
  have "Suc (length S) < lo + 0x80000000" using tx_ok_facts(3) [OF ok] by simp
  from tx_queue_exchange [OF q t this]
  have "tx_queue i S lo (Suc (length S)) (qs @ [seg]) (unacked pcb') (unsent pcb')"
    using us by (simp add: 2(3))
  moreover have "snd_queuelen pcb + 1 = of_nat (clens (qs @ [seg]))" using ok s(4) by (simp add: tx_ok_def)
  ultimately have "tx_ok i S True lo (qs @ [seg]) pcb'"
    using ok s(3,5) by (simp add: tx_ok_def) (simp add: 2(3) tcp_set_flags_def)
  then show ?thesis by (auto simp: 2(3) tcp_set_flags_def)
qed simp

lemma tcp_send_fin_step:
  assumes inv: "tx_inv i S False pcb" and tail: "tail_last (unacked pcb) (unsent pcb)"
  shows "\<exists>w' pcb' err. tcp_send_fin e pcb w = Some (w', pcb', err) \<and>
    (if err = ERR_OK then tx_inv i S True pcb' else pcb' = tcp_set_flags pcb TF_NAGLEMEMERR)"
proof -
  obtain lo qs where ok: "tx_ok i S False lo qs pcb" and pos: "tx_pos i lo (length S) pcb"
    using inv by (auto simp: tx_inv_def)
  have inv': "tx_inv i S True pcb'"
    if "tx_ok i S True lo qs' pcb'" "lastack pcb' = lastack pcb" "snd_nxt pcb' = snd_nxt pcb" for pcb' qs'
    using that tx_pos_Suc [OF pos that(2,3)] by (intro tx_invI) simp_all
  show ?thesis
  proof (cases "unsent pcb = []")
    case True
    obtain w' pcb' err where r: "tcp_enqueue_flags e pcb TCP_FIN w = Some (w', pcb', err)"
      using tcp_enqueue_fin_total [of e pcb w] by blast
    then have s: "tcp_send_fin e pcb w = Some (w', pcb', err)" using True by (simp add: tcp_send_fin_def)
    show ?thesis
    proof (cases "err = ERR_OK")
      case True
      then show ?thesis using fin_enqueued [OF ok \<open>unsent pcb = []\<close> r [unfolded True]] inv' s by auto
    next
      case False
      with r show ?thesis by (cases rule: tcp_enqueue_fin_cases) (use s in auto)
    qed
  next
    case False
    with fin_on_last [OF ok tail] inv' show ?thesis by fastforce
  qed
qed

section \<open>The split of the first unsent segment\<close>

lemma tiles_at:
  assumes "tiles i S lo qs hi" and "s \<in> set qs"
  obtains a b p where "qs = a @ s # b" "tiles i S lo a p" "tx_seg i S p s" "tiles i S (p + seg_tl s) b hi"
proof -
  obtain a b where "qs = a @ s # b" using split_list [OF assms(2)] by blast
  then show ?thesis using assms(1) that by (auto simp: tiles_append)
qed

lemma tx_queue_split_head:
  assumes q: "tx_queue i S lo hi qs ua (s # us)"
    and s: "\<And>p. tx_seg i S p s \<Longrightarrow> tx_seg i S p s1 \<and> tx_seg i S (p + seg_tl s1) s2" "seg_tl s1 + seg_tl s2 = seg_tl s"
  shows "\<exists>qs'. tx_queue i S lo hi qs' ua (s1 # s2 # us) \<and>
    clens qs' + length (sg_bufs s) = clens qs + length (sg_bufs s1) + length (sg_bufs s2) \<and>
    dlens qs' + unat (sg_len s) = dlens qs + unat (sg_len s1) + unat (sg_len s2)"
proof -
  note f = tx_queue_facts [OF q]
  have t: "tiles i S lo qs hi" "hi < lo + 0x80000000" "in_order i lo (s # us)" using q by (simp_all add: tx_queue_def)
  have "s \<in> set qs" using f(4) by simp
  with t(1) obtain a b p where p: "qs = a @ s # b" "tiles i S lo a p" "tx_seg i S p s" "tiles i S (p + seg_tl s) b hi"
    by (rule tiles_at)
  have "tiles i S lo (a @ s1 # s2 # b) hi"
    using p(2,4) s(1) [OF p(3)] s(2) by (auto simp: tiles_append add.assoc)
  note t' = this tiles_in_order [OF this order_refl t(2)]
  have m: "mset (a @ s1 # s2 # b) = mset (ua @ s1 # s2 # us)" using q p(1) by (simp add: tx_queue_def)
  have b: "y \<in> set b" if y: "y \<in> set us" for y
  proof -
    have yq: "y \<in> set qs" "opos i lo s \<le> opos i lo y" using y f(4) t(3) by (auto simp: in_order_def)
    have "distinct (ua @ s # us)" using f(2) mset_eq_imp_distinct_iff [of qs "ua @ s # us"] q by (simp add: tx_queue_def)
    then have "y \<noteq> s" using y by auto
    then have "opos i lo s < opos i lo y" using yq inj_onD [OF f(3) _ yq(1) \<open>s \<in> set qs\<close>] by fastforce
    moreover have "opos i lo z \<le> opos i lo s" if "z \<in> set a" for z
      using f(1) that p(1) by (simp add: in_order_def sorted_append)
    ultimately have "y \<notin> set a" by (metis not_le)
    then show ?thesis using yq(1) \<open>y \<noteq> s\<close> p(1) by simp
  qed
  have o: "opos i lo s1 \<le> opos i lo s2" "\<And>y. y \<in> set b \<Longrightarrow> opos i lo s1 \<le> opos i lo y \<and> opos i lo s2 \<le> opos i lo y"
    using t' by (auto simp: in_order_def sorted_append)
  have "in_order i lo (s1 # s2 # us)" using o b t(3) by (auto simp: in_order_def)
  then have "tx_queue i S lo hi (a @ s1 # s2 # b) ua (s1 # s2 # us)"
    using t' t(2) m q by (simp add: tx_queue_def)
  then show ?thesis using p(1) by (intro exI [of _ "a @ s1 # s2 # b"]) simp
qed

lemma trim_bufs_sum:
  "0 < n \<Longrightarrow> n \<le> sum_list (map fst bs) \<Longrightarrow>
   sum_list (map fst (trim_bufs n bs)) = n \<and> length (trim_bufs n bs) \<le> length bs \<and> trim_bufs n bs \<noteq> []"
proof (induction n bs rule: trim_bufs.induct)
  case (2 n l a bs)
  show ?case
  proof (cases "n > l")
    case True
    then have "0 < n - l" "n - l \<le> sum_list (map fst bs)" using 2(3) by simp_all
    from "2.IH" [OF True this] show ?thesis using True by simp
  qed simp
qed simp

lemma trim_bufs_pos: "0 < n \<Longrightarrow> \<forall>b\<in>set bs. 0 < fst b \<Longrightarrow> \<forall>b\<in>set (trim_bufs n bs). 0 < fst b"
  by (induction n bs rule: trim_bufs.induct) auto

lemma trim_bufs_tl_pos: "\<forall>b\<in>set (tl bs). 0 < fst b \<Longrightarrow> \<forall>b\<in>set (tl (trim_bufs n bs)). 0 < fst b"
proof (cases bs)
  case (Cons x xs)
  assume "\<forall>b\<in>set (tl bs). 0 < fst b"
  then show ?thesis using trim_bufs_pos [of "n - fst x" xs] by (cases x) (simp add: Cons)
qed simp

definition split_head :: "u16 \<Rightarrow> tcp_seg \<Rightarrow> tcp_seg" where
  "split_head n s = seg_set_flags (fst (split_flags (sg_hflags s)))
     (s\<lparr>sg_len := sg_len s - (sg_len s - n), sg_data := take (unat n) (sg_data s),
        sg_bufs := trim_bufs (unat n) (sg_bufs s)\<rparr>)"

definition split_rest :: "tcp_pcb \<Rightarrow> u16 \<Rightarrow> tcp_seg \<Rightarrow> tcp_seg" where
  "split_rest pcb n s =
     (let rest = take (unat (sg_len s - n)) (drop (unat n) (sg_data s)) in
      \<lparr>sg_src = local_port pcb, sg_dest = remote_port pcb, sg_seqno = sg_seqno s + ucast n,
        sg_hlen = 5 + LWIP_TCP_OPT_LENGTH (sg_flags s) div 4, sg_hflags = snd (split_flags (sg_hflags s)),
        sg_len = of_nat (length rest), sg_data = rest, sg_bufs = [(unat (sg_len s - n), None)], sg_flags = sg_flags s\<rparr>)"

lemma tcp_split_cases:
  assumes "tcp_split_unsent_seg e pcb n w = Some (w', pcb', err)"
  obtains "pcb' = pcb" "err = ERR_OK \<longrightarrow> unsent pcb \<noteq> [] \<and> sg_len (hd (unsent pcb)) \<le> n"
  | s us where "unsent pcb = s # us" "0 < n" "n < sg_len s" "err = ERR_OK"
    "pcb' = pcb\<lparr>unsent := split_head n s # split_rest pcb n s # us,
       snd_queuelen := snd_queuelen pcb - sg_clen s + sg_clen (split_head n s) + sg_clen (split_rest pcb n s),
       unsent_oversize := (if us = [] then 0 else unsent_oversize pcb)\<rparr>"
proof (cases "unsent pcb")
  case Nil
  then show ?thesis using assms that(1) by (simp add: tcp_split_unsent_seg_def)
next
  case (Cons s us)
  show ?thesis
  proof (cases "sg_len s \<le> n")
    case True
    then show ?thesis using assms that(1) Cons by (simp add: tcp_split_unsent_seg_def split: if_splits)
  next
    case False
    define p2 where "p2 = pcb\<lparr>unsent := split_head n s # split_rest pcb n s # us,
       snd_queuelen := snd_queuelen pcb - sg_clen s + sg_clen (split_head n s) + sg_clen (split_rest pcb n s),
       unsent_oversize := (if us = [] then 0 else unsent_oversize pcb)\<rparr>"
    obtain w1 b where b: "te_pbuf_alloc e PBUF_TRANSPORT (sg_len s - n + LWIP_TCP_OPT_LENGTH (sg_flags s)) PBUF_RAM w = (w1, b)"
      by fastforce
    obtain w2 m where m: "te_seg_alloc e w1 = (w2, m)" by fastforce
    have "0 < n \<and> (pcb' = pcb \<and> err \<noteq> ERR_OK \<or> err = ERR_OK \<and> pcb' = p2)"
      using assms False unfolding tcp_split_unsent_seg_def Cons list.case Let_def split_beta p2_def split_head_def split_rest_def
        tcp_create_segment_def
      by (cases b; cases m) (simp_all add: b m bind_eq_Some_conv word_gt_0 split: if_splits)
    then consider "pcb' = pcb" "err \<noteq> ERR_OK" | "0 < n" "err = ERR_OK" "pcb' = p2" by blast
    then show ?thesis
    proof cases
      case 1
      then show ?thesis using that(1) by simp
    next
      case 2
      then show ?thesis using False that(2) [OF Cons 2(1) _ 2(2) 2(3) [unfolded p2_def]] by (simp only: not_le)
    qed
  qed
qed

lemma split_flags_no_fin:
  assumes "\<not> has fl TCP_FIN" and "f = TCP_FIN \<or> f = TCP_SYN \<or> f = TCP_RST"
  shows "has (fl OR fst (split_flags fl)) f = has fl f" "\<not> has (snd (split_flags fl)) f"
proof -
  have and0: "a AND b = 0 \<Longrightarrow> (a AND c) AND b = 0" for a b c :: u8
    by (metis and.assoc and.commute and_zero_eq)
  have psh: "\<not> has (fl AND NOT TCP_PSH) TCP_FIN" using assms(1) and0 by (simp add: has_def)
  have "has (fl AND NOT TCP_PSH) f \<Longrightarrow> has fl f" using and0 by (auto simp: has_def)
  moreover have "\<not> has TCP_PSH f" using assms(2) by (auto simp: has_def TCP_PSH_def TCP_FIN_def TCP_SYN_def TCP_RST_def)
  ultimately show "has (fl OR fst (split_flags fl)) f = has fl f" "\<not> has (snd (split_flags fl)) f"
    using assms(1) psh by (auto simp: split_flags_def Let_def)
qed

lemma tx_seg_split:
  assumes s: "tx_seg i S p s" and n: "0 < n" "n < sg_len s" and fin: "\<not> has (sg_hflags s) TCP_FIN"
  shows "tx_seg i S p (split_head n s)" "tx_seg i S (p + seg_tl (split_head n s)) (split_rest pcb n s)"
    "seg_tl (split_head n s) + seg_tl (split_rest pcb n s) = seg_tl s"
    "unat (sg_len (split_head n s)) + unat (sg_len (split_rest pcb n s)) = unat (sg_len s)"
    "length (sg_bufs (split_head n s)) \<le> length (sg_bufs s)" "length (sg_bufs (split_rest pcb n s)) = 1"
proof -
  have len: "unat (sg_len s - n) = unat (sg_len s) - unat n" "0 < unat n" "unat n < unat (sg_len s)"
    using n by (simp_all add: unat_sub_le word_le_nat_alt less_imp_le word_less_nat_alt unat_gt_0)
  have sp: "seg_at i S p s" "sum_list (map fst (sg_bufs s)) = length (sg_data s)" using s by (simp_all add: tx_seg_def)
  have d: "length (sg_data s) = unat (sg_len s)" "sg_data s = take (unat (sg_len s)) (drop p S)" "p + unat (sg_len s) \<le> length S"
    "sum_list (map fst (sg_bufs s)) = unat (sg_len s)"
    using sp(1) stream_part_len [OF sp(1)] sp(2) unfolding stream_part_def by simp_all
  have h: "sg_len (split_head n s) = n" "sg_data (split_head n s) = take (unat n) (drop p S)"
    using d(2) len(3) by (simp_all add: split_head_def seg_set_flags_def min_def)
  have r: "sg_data (split_rest pcb n s) = take (unat (sg_len s) - unat n) (drop (p + unat n) S)"
    "unat (sg_len (split_rest pcb n s)) = unat (sg_len s) - unat n"
    using d len unat_u16_less [of "sg_len s"]
    by (simp_all add: split_rest_def Let_def drop_take add.commute unat_of_nat_u16)
  have fl: "has (sg_hflags s OR fst (split_flags (sg_hflags s))) f = has (sg_hflags s) f"
    "\<not> has (snd (split_flags (sg_hflags s))) f" if "f \<in> {TCP_FIN, TCP_SYN, TCP_RST}" for f
    using split_flags_no_fin [OF fin, of f] that by simp_all
  note fl = fl [of TCP_FIN, simplified] fl [of TCP_SYN, simplified] fl [of TCP_RST, simplified]
  have tl: "seg_tl (split_head n s) = unat n" "seg_tl (split_rest pcb n s) = unat (sg_len s) - unat n" "seg_tl s = unat (sg_len s)"
    using fl h(1) r(2) fin by (simp_all add: seg_tl_def fin_len_def) (simp_all add: split_head_def split_rest_def seg_set_flags_def)
  have b: "trim_bufs (unat n) (sg_bufs s) \<noteq> []" "sum_list (map fst (trim_bufs (unat n) (sg_bufs s))) = unat n"
    "length (trim_bufs (unat n) (sg_bufs s)) \<le> length (sg_bufs s)"
    using trim_bufs_sum [of "unat n" "sg_bufs s"] len d(4) by simp_all
  show "tx_seg i S p (split_head n s)"
    using s fl h tl(1) len b d(3) trim_bufs_tl_pos [of "sg_bufs s" "unat n"] fin
    by (simp add: tx_seg_def stream_part_def) (simp add: split_head_def seg_set_flags_def min_def)
  have "sg_seqno s = sq i p" "sg_flags s = 0" using s by (simp_all add: tx_seg_def stream_part_def)
  then show "tx_seg i S (p + seg_tl (split_head n s)) (split_rest pcb n s)"
    using fl r tl len d(3) by (simp add: tx_seg_def stream_part_def) (simp add: split_rest_def Let_def sq_add16)
  show "seg_tl (split_head n s) + seg_tl (split_rest pcb n s) = seg_tl s" using tl len by simp
  show "unat (sg_len (split_head n s)) + unat (sg_len (split_rest pcb n s)) = unat (sg_len s)" using h r len by simp
  show "length (sg_bufs (split_head n s)) \<le> length (sg_bufs s)" "length (sg_bufs (split_rest pcb n s)) = 1"
    using b(3) by (simp_all add: split_head_def split_rest_def seg_set_flags_def Let_def)
qed

lemma tcp_split_unsent_seg_inv:
  assumes r: "tcp_split_unsent_seg e pcb n w = Some (w', pcb', err)" and inv: "tx_inv i S fin pcb"
    and nofin: "unsent pcb \<noteq> [] \<Longrightarrow> \<not> has (sg_hflags (hd (unsent pcb))) TCP_FIN"
  shows "tx_inv i S fin pcb'"
  using r
proof (cases rule: tcp_split_cases)
  case (2 s us)
  obtain lo qs where ok: "tx_ok i S fin lo qs pcb" and pos: "tx_pos i lo (tx_end S fin) pcb" using inv by (rule tx_invE)
  have q: "tx_queue i S lo (tx_end S fin) qs (unacked pcb) (s # us)" using ok 2(1) by (simp add: tx_ok_def)
  have fin': "\<not> has (sg_hflags s) TCP_FIN" using nofin 2(1) by simp
  have "s \<in> set qs" "tiles i S lo qs (tx_end S fin)" using tx_queue_facts(4) [OF q] q by (auto simp: tx_queue_def)
  then obtain p where p: "tx_seg i S p s" by (auto elim: tiles_mem)
  have sp: "tx_seg i S p (split_head n s) \<and> tx_seg i S (p + seg_tl (split_head n s)) (split_rest pcb n s)"
    if "tx_seg i S p s" for p
    using tx_seg_split(1,2) [OF that 2(2,3) fin'] by simp
  note len = tx_seg_split(3,4) [OF p 2(2,3) fin', of pcb]
  from tx_queue_split_head [OF q, of "split_head n s" "split_rest pcb n s"] sp len(1)
  obtain qs' where q': "tx_queue i S lo (tx_end S fin) qs' (unacked pcb) (split_head n s # split_rest pcb n s # us)"
    "clens qs' + length (sg_bufs s) = clens qs + length (sg_bufs (split_head n s)) + length (sg_bufs (split_rest pcb n s))"
    "dlens qs' + unat (sg_len s) = dlens qs + unat (sg_len (split_head n s)) + unat (sg_len (split_rest pcb n s))"
    by blast
  have "of_nat (clens qs' + length (sg_bufs s)) = (of_nat (clens qs + length (sg_bufs (split_head n s)) + length (sg_bufs (split_rest pcb n s))) :: u16)"
    by (simp only: q'(2))
  then have ql: "snd_queuelen pcb' = of_nat (clens qs')"
    using ok by (simp add: tx_ok_def 2(5) sg_clen_def algebra_simps)
  have "dlens qs' = dlens qs" using q'(3) len(2) by simp
  then have "tx_ok i S fin lo qs' pcb'" using ok q'(1) ql by (simp add: tx_ok_def) (simp add: 2(5))
  moreover have "tx_pos i lo (tx_end S fin) pcb'" using pos by (simp add: tx_pos_def 2(5))
  ultimately show ?thesis by (rule tx_invI)
qed (use inv in simp)

section \<open>Window probes\<close>

lemma tcp_output_alloc_header_same:
  "tcp_output_alloc_header e pcb optlen n sn w = (w', pcb', p) \<Longrightarrow> same_tx pcb' pcb"
  by (auto simp: tcp_output_alloc_header_def same_tx_def split: prod.splits option.splits)

lemma zero_window_probe_same:
  assumes us: "unsent pcb = s # us" and r: "tcp_zero_window_probe e pcb w = (w', pcb', err)"
  shows "same_tx pcb' pcb \<or>
    same_tx pcb' (if TCP_SEQ_LT (snd_nxt pcb) (sg_seqno s + 1) then pcb\<lparr>snd_nxt := sg_seqno s + 1\<rparr> else pcb)"
proof -
  define p0 where "p0 = (if persist_probe pcb < 0xFF then pcb\<lparr>persist_probe := persist_probe pcb + 1\<rparr> else pcb)"
  define n where "n = (if has (sg_hflags s) TCP_FIN \<and> sg_len s = 0 then 0 else 1 :: u16)"
  have p0: "same_tx p0 pcb" by (simp add: p0_def same_tx_def)
  obtain w1 p1 b where a: "tcp_output_alloc_header e p0 (LWIP_TCP_OPT_LENGTH 0) n (lwip_htonl (sg_seqno s)) w = (w1, p1, b)"
    by (metis prod_cases3)
  have p1: "same_tx p1 pcb" using tcp_output_alloc_header_same [OF a] p0 same_tx_trans by blast
  have "pcb' = p1 \<or> pcb' = (if TCP_SEQ_LT (snd_nxt p1) (sg_seqno s + 1) then p1\<lparr>snd_nxt := sg_seqno s + 1\<rparr> else p1)"
    using r unfolding tcp_zero_window_probe_def us list.case p0_def [symmetric] Let_def n_def [symmetric] a
    by (cases b) (auto split: prod.splits)
  then show ?thesis using p1 by (auto simp: same_tx_def)
qed

lemma tcp_zero_window_probe_inv:
  assumes r: "tcp_zero_window_probe e pcb w = (w', pcb', err)" and inv: "tx_inv i S fin pcb"
  shows "tx_inv i S fin pcb'"
proof (cases "unsent pcb")
  case Nil
  then show ?thesis using assms by (simp add: tcp_zero_window_probe_def)
next
  case (Cons s us)
  define n where "n = sg_seqno s + 1"
  have same: "same_tx pcb' pcb \<or> same_tx pcb' (if TCP_SEQ_LT (snd_nxt pcb) n then pcb\<lparr>snd_nxt := n\<rparr> else pcb)"
    using r unfolding n_def by (rule zero_window_probe_same [OF Cons])
  obtain lo qs where ok: "tx_ok i S fin lo qs pcb" and pos: "tx_pos i lo (tx_end S fin) pcb" using inv by (rule tx_invE)
  have q: "tx_queue i S lo (tx_end S fin) qs (unacked pcb) (s # us)" using ok Cons by (simp add: tx_ok_def)
  then have "s \<in> set qs" "tiles i S lo qs (tx_end S fin)" using tx_queue_facts(4) [OF q] by (auto simp: tx_queue_def)
  then obtain p where p: "lo \<le> p" "tx_seg i S p s" "p + seg_tl s \<le> tx_end S fin" by (auto elim: tiles_mem)
  then have p1: "n = sq i (Suc p)" "Suc p \<le> tx_end S fin" by (simp_all add: n_def tx_seg_def stream_part_def sq_Suc)
  obtain la nx where ln: "lastack pcb = sq i la" "snd_nxt pcb = sq i nx" "lo \<le> la" "la \<le> nx" "nx \<le> tx_end S fin"
    using pos by (auto simp: tx_pos_def)
  have "TCP_SEQ_LT (snd_nxt pcb) n \<longleftrightarrow> nx < Suc p"
    unfolding ln(2) p1(1) using ln p p1 tx_ok_facts(3) [OF ok] by (intro sq_cmp(1)) linarith+
  then have "tx_pos i lo (tx_end S fin) (pcb\<lparr>snd_nxt := n\<rparr>)" if "TCP_SEQ_LT (snd_nxt pcb) n"
    using that ln p1 unfolding tx_pos_def by (intro exI [of _ la] exI [of _ "Suc p"]) auto
  moreover have "tx_ok i S fin lo qs (pcb\<lparr>snd_nxt := n\<rparr>)" using ok by (simp add: tx_ok_def)
  ultimately have "tx_inv i S fin (if TCP_SEQ_LT (snd_nxt pcb) n then pcb\<lparr>snd_nxt := n\<rparr> else pcb)"
    using inv tx_invI by auto
  then show ?thesis using same inv tx_inv_same by blast
qed

section \<open>\<^verbatim>\<open>tcp_receive\<close>\<close>

text \<open>Text does not touch the send side.\<close>

lemma rcv_advance_same: "rcv_advance n l pcb = Some pcb' \<Longrightarrow> same_tx pcb' pcb"
  by (auto simp: rcv_advance_def bind_eq_Some_conv tcp_update_rcv_ann_wnd_def Let_def same_tx_def)

lemma rcv_fit_ooseq_same: "rcv_fit_ooseq pcb tin = Some (pcb', tin') \<Longrightarrow> same_tx pcb' pcb"
  by (auto simp: rcv_fit_ooseq_def Let_def same_tx_def bind_eq_Some_conv split: if_splits prod.splits list.splits)

lemma rcv_pass_up_same: "rcv_pass_up pcb tin = Some (pcb', tin') \<Longrightarrow> same_tx pcb' pcb"
  by (auto simp: rcv_pass_up_def bind_eq_Some_conv Let_def dest: rcv_advance_same)

lemma rcv_dequeue_same: "rcv_dequeue pcb tin q = Some (pcb', tin') \<Longrightarrow> same_tx pcb' pcb"
proof (induction pcb tin q rule: rcv_dequeue.induct)
  case (2 pcb tin s q)
  show ?case
  proof (cases "sg_seqno s = rcv_nxt pcb")
    case True
    define tl where "tl = TCP_TCPLEN (sg_len s) (sg_hflags s)"
    define tin1 where "tin1 = tin\<lparr>g_seqno := sg_seqno s, recv_data := append_data (recv_data tin) (sg_data s)\<rparr>"
    obtain p1 where p1: "rcv_advance (rcv_nxt pcb + tl) tl pcb = Some p1"
      using "2.prems" True by (auto simp: bind_eq_Some_conv tl_def Let_def)
    define r where "r = (if has (sg_hflags s) TCP_FIN
           then ((if state p1 = ESTABLISHED then p1\<lparr>state := CLOSE_WAIT\<rparr> else p1),
                 tin1\<lparr>recv_flags := recv_flags tin1 OR TF_GOT_FIN\<rparr>) else (p1, tin1))"
    have "rcv_dequeue (fst r) (snd r) q = Some (pcb', tin')"
      using "2.prems" True p1 by (simp add: tl_def [symmetric] tin1_def Let_def r_def split: if_splits)
    then have "same_tx pcb' (fst r)"
      using "2.IH" [OF True tl_def p1 tin1_def, of r "fst r" "snd r"] by (simp add: r_def)
    moreover have "same_tx (fst r) p1" by (simp add: r_def same_tx_def)
    ultimately show ?thesis using rcv_advance_same [OF p1] same_tx_trans by blast
  qed (use "2.prems" in \<open>auto simp: same_tx_def\<close>)
qed (auto simp: same_tx_def)

lemma rcv_tidy_sacks_same: "same_tx (rcv_tidy_sacks pcb) pcb"
  by (simp add: rcv_tidy_sacks_def tcp_remove_sacks_lt_def same_tx_def split: list.split prod.split)

lemma tcp_ack_same: "same_tx (tcp_ack pcb) pcb" "same_tx (tcp_ack_now pcb) pcb"
  by (simp_all add: tcp_ack_def tcp_ack_now_def)

lemma rcv_in_order_same:
  assumes "rcv_in_order v6 pcb tin = Some (pcb', tin', acts)"
  shows "same_tx pcb' pcb"
proof -
  from assms obtain t1 p1 t2 p2 t3 p3 t4 where r: "rcv_fit_ooseq pcb t1 = Some (p1, t2)" "rcv_pass_up p1 t2 = Some (p2, t3)"
    "rcv_dequeue p2 t3 (ooseq p2) = Some (p3, t4)" "pcb' = tcp_ack (rcv_tidy_sacks p3)"
    by (auto simp: rcv_in_order_def bind_eq_Some_conv Let_def)
  then have "same_tx pcb' p3" using tcp_ack_same(1) rcv_tidy_sacks_same same_tx_trans by blast
  with r show ?thesis using rcv_fit_ooseq_same rcv_pass_up_same rcv_dequeue_same same_tx_trans by metis
qed

lemma tcp_add_sack_same: "same_tx (tcp_add_sack pcb l r) pcb"
  by (simp add: tcp_add_sack_def same_tx_def split: prod.split)

lemma oos_add_sack_same: "same_tx (oos_add_sack pcb front rest l) pcb"
  by (simp add: oos_add_sack_def tcp_add_sack_same Let_def split: list.split)

lemma same_tx_ooseq: "same_tx a (pcb\<lparr>ooseq := q\<rparr>) = same_tx a pcb" "same_tx a (pcb\<lparr>rcv_sacks := s\<rparr>) = same_tx a pcb"
  by (simp_all add: same_tx_def)

lemma rcv_out_of_order_same:
  assumes "rcv_out_of_order mem pcb tin = Some (pcb', tin', acts)"
  shows "same_tx pcb' pcb"
proof (cases "ooseq pcb")
  case Nil
  have "\<exists>o1 s1. pcb' = pcb\<lparr>ooseq := o1, rcv_sacks := s1\<rparr> \<or> pcb' = pcb\<lparr>ooseq := o1\<rparr>"
    using assms unfolding rcv_out_of_order_def Nil list.case Let_def
    by (elim bind_eq_SomeE) (auto split: if_splits)
  then show ?thesis by (auto simp: same_tx_def)
next
  case (Cons s q)
  then obtain front rest l q' where "pcb' = oos_add_sack (pcb\<lparr>ooseq := q'\<rparr>) front rest l"
    using assms by (auto simp: rcv_out_of_order_def bind_eq_Some_conv Let_def)
  then show ?thesis using oos_add_sack_same [of "pcb\<lparr>ooseq := q'\<rparr>"] by (simp add: same_tx_ooseq)
qed

lemma tcp_receive_text_same:
  assumes "tcp_receive_text v6 mem pcb tin = Some (pcb', tin', acts)"
  shows "same_tx pcb' pcb"
proof -
  have front: "same_tx p1 pcb" if "rcv_trim_front pcb tin = Some (p1, t1)" for p1 t1
    using that tcp_ack_same(2) by (auto simp: rcv_trim_front_def bind_eq_Some_conv Let_def split: if_splits)
  show ?thesis
  proof (cases "g_tcplen tin > 0 \<and> state pcb < CLOSE_WAIT")
    case True
    with assms obtain p1 t1 where f: "rcv_trim_front pcb tin = Some (p1, t1)"
      and r: "(if TCP_SEQ_BETWEEN (g_seqno t1) (rcv_nxt p1) (rcv_nxt p1 + rcv_wnd p1 - 1)
         then (if rcv_nxt p1 = g_seqno t1 then rcv_in_order v6 p1 t1 else rcv_out_of_order mem p1 t1)
         else Some (p1, t1, [Send_empty_ack])) = Some (pcb', tin', acts)"
      unfolding tcp_receive_text_def if_P [OF True] by (elim bind_eq_SomeE) (simp split: prod.splits)
    have "same_tx pcb' p1" using r rcv_in_order_same rcv_out_of_order_same by (auto split: if_splits)
    then show ?thesis using front [OF f] same_tx_trans by blast
  next
    case False
    then show ?thesis using assms tcp_ack_same(2)
      unfolding tcp_receive_text_def if_not_P [OF False] by (simp split: if_splits) auto
  qed
qed

text \<open>Nor does it count acknowledged bytes.\<close>

lemma rcv_trim_front_acked: "rcv_trim_front pcb tin = Some (pcb', tin') \<Longrightarrow> recv_acked tin' = recv_acked tin"
  by (auto simp: rcv_trim_front_def Let_def elim!: bind_eq_SomeE split: if_splits)

lemma rcv_trim_wnd_acked: "rcv_trim_wnd pcb tin = Some tin' \<Longrightarrow> recv_acked tin' = recv_acked tin"
  by (auto simp: rcv_trim_wnd_def Let_def elim!: bind_eq_SomeE split: if_splits)

lemma rcv_fit_ooseq_acked: "rcv_fit_ooseq pcb tin = Some (pcb', tin') \<Longrightarrow> recv_acked tin' = recv_acked tin"
  by (auto simp: rcv_fit_ooseq_def Let_def elim!: bind_eq_SomeE split: if_splits prod.splits list.splits)

lemma rcv_pass_up_acked: "rcv_pass_up pcb tin = Some (pcb', tin') \<Longrightarrow> recv_acked tin' = recv_acked tin"
  unfolding rcv_pass_up_def Let_def by (elim bind_eq_SomeE) (auto split: if_splits)

lemmas recv_acked_simps = rcv_trim_front_acked rcv_trim_wnd_acked rcv_fit_ooseq_acked rcv_pass_up_acked

lemma rcv_dequeue_recv_acked: "rcv_dequeue pcb tin q = Some (pcb', tin') \<Longrightarrow> recv_acked tin' = recv_acked tin"
proof (induction pcb tin q rule: rcv_dequeue.induct)
  case (2 pcb tin s q)
  define l where "l = TCP_TCPLEN (sg_len s) (sg_hflags s)"
  define tin1 where "tin1 = tin\<lparr>g_seqno := sg_seqno s, recv_data := append_data (recv_data tin) (sg_data s)\<rparr>"
  show ?case
  proof (cases "sg_seqno s = rcv_nxt pcb")
    case True
    then obtain p1 where p1: "rcv_advance (rcv_nxt pcb + l) l pcb = Some p1"
      using "2.prems" by (auto simp: bind_eq_Some_conv l_def Let_def)
    define r where "r = (if has (sg_hflags s) TCP_FIN
           then ((if state p1 = ESTABLISHED then p1\<lparr>state := CLOSE_WAIT\<rparr> else p1),
                 tin1\<lparr>recv_flags := recv_flags tin1 OR TF_GOT_FIN\<rparr>) else (p1, tin1))"
    have "rcv_dequeue (fst r) (snd r) q = Some (pcb', tin')"
      using "2.prems" True p1 by (simp add: l_def [symmetric] tin1_def Let_def r_def split: if_splits)
    then have "recv_acked tin' = recv_acked (snd r)"
      using "2.IH" [OF True l_def p1 tin1_def, of r "fst r" "snd r"] by (simp add: r_def)
    then show ?thesis by (simp add: r_def tin1_def split: if_splits)
  qed (use "2.prems" in auto)
qed auto

lemma recv_acked_text:
  assumes "tcp_receive_text v6 mem pcb tin = Some (pcb', tin', acts)"
  shows "recv_acked tin' = recv_acked tin"
proof (cases "g_tcplen tin > 0 \<and> state pcb < CLOSE_WAIT")
  case True
  with assms obtain p1 t1 where f: "rcv_trim_front pcb tin = Some (p1, t1)"
    and r: "(if TCP_SEQ_BETWEEN (g_seqno t1) (rcv_nxt p1) (rcv_nxt p1 + rcv_wnd p1 - 1)
       then (if rcv_nxt p1 = g_seqno t1 then rcv_in_order v6 p1 t1 else rcv_out_of_order mem p1 t1)
       else Some (p1, t1, [Send_empty_ack])) = Some (pcb', tin', acts)"
    unfolding tcp_receive_text_def if_P [OF True] by (elim bind_eq_SomeE) (simp split: prod.splits)
  have i: "recv_acked tin' = recv_acked t1" if "rcv_in_order v6 p1 t1 = Some (pcb', tin', acts)"
  proof -
    from that obtain a1 b2 a2 b3 a3 b4 where r: "rcv_trim_wnd p1 t1 = Some a1" "rcv_fit_ooseq p1 a1 = Some (b2, a2)"
      "rcv_pass_up b2 a2 = Some (b3, a3)" "rcv_dequeue b3 a3 (ooseq b3) = Some (b4, tin')"
      by (auto simp: rcv_in_order_def bind_eq_Some_conv Let_def)
    show ?thesis using recv_acked_simps(2) [OF r(1)] recv_acked_simps(3) [OF r(2)] recv_acked_simps(4) [OF r(3)]
        rcv_dequeue_recv_acked [OF r(4)] by simp
  qed
  have o: "recv_acked tin' = recv_acked t1" if "rcv_out_of_order mem p1 t1 = Some (pcb', tin', acts)"
  proof (cases "ooseq p1")
    case Nil
    then show ?thesis using that unfolding rcv_out_of_order_def Nil list.case Let_def
      by (elim bind_eq_SomeE) auto
  qed (use that in \<open>auto simp: rcv_out_of_order_def bind_eq_Some_conv Let_def\<close>)
  show ?thesis using r i o recv_acked_simps(1) [OF f] by (auto split: if_splits)
next
  case False
  then show ?thesis using assms unfolding tcp_receive_text_def if_not_P [OF False] by simp
qed

lemma run_rx_actions_same: "run_rx_actions e as (w, pcb) = (w', pcb') \<Longrightarrow> same_tx pcb' pcb"
proof (induction e as "(w, pcb)" arbitrary: w pcb rule: run_rx_actions.induct)
  case (2 e as w pcb)
  obtain w1 p1 err where s: "tcp_send_empty_ack e pcb w = (w1, p1, err)" by (cases "tcp_send_empty_ack e pcb w")
  then have "same_tx pcb' p1" using 2 by simp
  then show ?case using tcp_send_empty_ack_same [OF s] same_tx_trans by blast
qed simp_all

text \<open>An acknowledgement does not touch the receive side.\<close>

definition same_rx :: "tcp_pcb \<Rightarrow> tcp_pcb \<Rightarrow> bool" where
  "same_rx a b \<longleftrightarrow> rcv_nxt a = rcv_nxt b \<and> rcv_wnd a = rcv_wnd b \<and> ooseq a = ooseq b \<and>
     rcv_sacks a = rcv_sacks b \<and> state a = state b"

lemma same_rx_refl [simp]: "same_rx a a"
  by (simp add: same_rx_def)

lemma same_rx_trans: "same_rx a b \<Longrightarrow> same_rx b c \<Longrightarrow> same_rx a c"
  by (simp add: same_rx_def)

lemma rx_ok_same: "same_rx a b \<Longrightarrow> rx_ok i S n a = rx_ok i S n b"
  by (simp add: rx_ok_def rx_after_def same_rx_def)

lemma same_rx_flags [simp]:
  "same_rx (tcp_set_flags a f) b = same_rx a b" "same_rx (tcp_clear_flags a f) b = same_rx a b"
  by (simp_all add: same_rx_def tcp_set_flags_def tcp_clear_flags_def)

lemma tcp_send_empty_ack_same_rx: "tcp_send_empty_ack e pcb w = (w', pcb', err) \<Longrightarrow> same_rx pcb' pcb"
  by (auto simp: tcp_send_empty_ack_def tcp_output_alloc_header_def Let_def
      split: prod.splits option.splits if_splits) (simp_all add: same_rx_def tcp_set_flags_def tcp_clear_flags_def)

lemma tcp_rexmit_same_rx: "tcp_rexmit e pcb w = (pcb', err) \<Longrightarrow> same_rx pcb' pcb"
  by (auto simp: tcp_rexmit_def count_rtx_def same_rx_def Let_def split: list.splits if_splits)

lemma tcp_rexmit_fast_same_rx: "same_rx (tcp_rexmit_fast e pcb w) pcb"
proof -
  obtain b err where b: "tcp_rexmit e pcb w = (b, err)" by (cases "tcp_rexmit e pcb w")
  have "same_rx (tcp_rexmit_fast e pcb w) pcb \<or> same_rx (tcp_rexmit_fast e pcb w) b"
    by (auto simp: tcp_rexmit_fast_def b Let_def same_rx_def tcp_set_flags_def)
  then show ?thesis using tcp_rexmit_same_rx [OF b] same_rx_trans by blast
qed

lemma ack_duplicate_same_rx: "same_rx (ack_duplicate e pcb tin r w) pcb"
  unfolding ack_duplicate_def Let_def
  by (auto intro!: same_rx_trans [OF tcp_rexmit_fast_same_rx]) (simp_all add: same_rx_def)

lemma ack_new_data_same_rx:
  assumes "ack_new_data e v6 pcb tin w = Some (w', pcb', tin')"
  shows "same_rx pcb' pcb \<and> (\<exists>r. tin' = tin\<lparr>recv_acked := r\<rparr>)"
proof -
  define p0 where "p0 = (if has (flags pcb) TF_INFR
                then (tcp_clear_flags pcb TF_INFR)\<lparr>cwnd := ssthresh pcb, bytes_acked := 0\<rparr> else pcb)"
  define p1 where "p1 = ack_congestion (p0\<lparr>nrtx := 0, rto := to_s16 (sa p0 div 8 + sv p0), dupacks := 0,
    lastack := g_ackno tin\<rparr>) (g_ackno tin - lastack p0)"
  have "same_rx p0 pcb" by (simp add: p0_def same_rx_def tcp_clear_flags_def)
  then have p1: "same_rx p1 pcb" by (simp add: p1_def ack_congestion_def same_rx_def Let_def)
  have "same_rx (ack_end_rto p) p" for p by (simp add: ack_end_rto_def split: list.splits)
  moreover obtain ua us ql rt ov sb r where "tin' = tin\<lparr>recv_acked := r\<rparr>"
    "pcb' = ack_end_rto (p1\<lparr>unacked := ua, unsent := us, snd_queuelen := ql, rtime := rt, polltmr := 0,
       unsent_oversize := ov, snd_buf := sb\<rparr>)"
    using assms unfolding ack_new_data_def Let_def p0_def [symmetric] p1_def [symmetric]
    by (auto simp: bind_eq_Some_conv)
  ultimately show ?thesis using p1 by (auto simp: same_rx_def)
qed

lemma tcp_receive_ack_same_rx:
  assumes "tcp_receive_ack e t v6 pcb tin w = Some (w', pcb', tin')"
  shows "same_rx pcb' pcb \<and> (\<exists>r. tin' = tin\<lparr>recv_acked := r\<rparr>)"
proof (cases "has (g_flags tin) TCP_ACK")
  case True
  define r where "r = snd_wnd pcb + snd_wl2 pcb"
  define p where "p = ack_update_window pcb tin"
  have up: "same_rx p pcb" by (simp add: p_def ack_update_window_def same_rx_def Let_def)
  have rtt: "same_rx (ack_rtt t p1 tin1) p1" for p1 tin1 by (simp add: ack_rtt_def same_rx_def Let_def)
  obtain p1 where p1: "pcb' = ack_rtt t p1 tin'"
    "(w', p1, tin') = (w, ack_duplicate e p tin r w, tin) \<or> ack_new_data e v6 p tin w = Some (w', p1, tin') \<or>
     (\<exists>err. tcp_send_empty_ack e p w = (w', p1, err)) \<and> tin' = tin"
    using assms True unfolding tcp_receive_ack_def if_P [OF True] Let_def r_def [symmetric] p_def [symmetric]
    by (elim bind_eq_SomeE) (auto split: if_splits prod.splits)
  have "same_rx p1 p \<and> (\<exists>r. tin' = tin\<lparr>recv_acked := r\<rparr>)"
    using p1(2)
  proof (elim disjE)
    assume "(w', p1, tin') = (w, ack_duplicate e p tin r w, tin)"
    then show ?thesis using ack_duplicate_same_rx by (auto intro: exI [of _ "recv_acked tin"])
  next
    assume "(\<exists>err. tcp_send_empty_ack e p w = (w', p1, err)) \<and> tin' = tin"
    then show ?thesis using tcp_send_empty_ack_same_rx by (auto intro: exI [of _ "recv_acked tin"])
  qed (rule ack_new_data_same_rx)
  then show ?thesis using p1(1) rtt up same_rx_trans by blast
qed (use assms in \<open>auto simp: tcp_receive_ack_def intro: exI [of _ "recv_acked tin"]\<close>)

lemma run_rx_actions_same_rx: "run_rx_actions e as (w, pcb) = (w', pcb') \<Longrightarrow> same_rx pcb' pcb"
proof (induction e as "(w, pcb)" arbitrary: w pcb rule: run_rx_actions.induct)
  case (2 e as w pcb)
  obtain w1 p1 err where s: "tcp_send_empty_ack e pcb w = (w1, p1, err)" by (cases "tcp_send_empty_ack e pcb w")
  then have "same_rx pcb' p1" using 2 by simp
  then show ?case using tcp_send_empty_ack_same_rx [OF s] same_rx_trans by blast
qed simp_all

text \<open>A connection with both sides in order processes an honest segment with any
  acknowledgement: it does not fail an assertion, moves the receive side on and frees exactly what is
  acknowledged.\<close>

lemma receive_copy_cases:
  assumes "\<And>mem. \<exists>r. tcp_receive_text v6 mem pcb tin = Some r"
  obtains mem w' r where "receive_copy e v6 pcb tin w = (w', Some r)" "tcp_receive_text v6 mem pcb tin = Some r"
proof (cases "tcp_receive_text v6 True pcb tin = tcp_receive_text v6 False pcb tin")
  case True
  then show ?thesis using assms [of True] that [of w _ True] by (auto simp: receive_copy_def)
next
  case False
  obtain w1 m where m: "te_seg_alloc e w = (w1, m)" by fastforce
  then show ?thesis using False assms [of m] that [of w1 _ m] by (auto simp: receive_copy_def)
qed

lemma tcp_receive_step:
  assumes tx: "tx_inv i S fin pcb" and rx: "rx_ok j R n pcb"
    and h: "honest j R n (unat (rcv_wnd pcb)) p tin" and ra: "recv_acked tin = 0"
    and st: "ESTABLISHED \<le> state pcb" "state pcb < CLOSE_WAIT"
  shows "\<exists>w' pcb' tin' n'. tcp_receive e t v6 pcb tin w = Some (w', pcb', tin') \<and>
    tx_inv i S fin pcb' \<and> unat (recv_acked tin') + unat (snd_buf pcb) = unat (snd_buf pcb') \<and>
    n \<le> n' \<and> recv_data tin' = passed R n n' \<and>
    rx_after j R n' (n + unat (rcv_wnd pcb)) pcb' (has (recv_flags tin') TF_GOT_FIN)"
proof -
  from tcp_receive_ack_step [OF tx ra, of e t v6 w] obtain w1 p1 t1 where
    a: "tcp_receive_ack e t v6 pcb tin w = Some (w1, p1, t1)" "tx_inv i S fin p1"
      "unat (recv_acked t1) + unat (snd_buf pcb) = unat (snd_buf p1)" by blast
  from tcp_receive_ack_same_rx [OF a(1)] obtain r where s: "same_rx p1 pcb" "t1 = tin\<lparr>recv_acked := r\<rparr>" by blast
  have rx1: "rx_ok j R n p1" using rx rx_ok_same [OF s(1)] by simp
  have h1: "honest j R n (unat (rcv_wnd p1)) p t1" using h s(1) by (simp add: honest_def in_part_def in_tl_def s(2) same_rx_def)
  have st1: "state p1 < CLOSE_WAIT" using st(2) s(1) by (simp add: same_rx_def)
  note step = tcp_receive_text_step [OF rx1 h1 st1]
  have "\<exists>r. tcp_receive_text v6 mem p1 t1 = Some r" for mem using step [of v6 mem] by blast
  then obtain mem w2 p2 t2 acts where c: "receive_copy e v6 p1 t1 w1 = (w2, Some (p2, t2, acts))"
    "tcp_receive_text v6 mem p1 t1 = Some (p2, t2, acts)" using receive_copy_cases [of v6 p1 t1 e w1] by (metis prod_cases3)
  obtain w3 p3 where act: "run_rx_actions e acts (w2, p2) = (w3, p3)" by fastforce
  from step [of v6 mem] c(2) obtain n' where n': "n \<le> n'" "recv_data t2 = passed R n n'"
    "rx_after j R n' (n + unat (rcv_wnd p1)) p2 (has (recv_flags t2) TF_GOT_FIN)" by auto
  have tx3: "same_tx p3 p1"
    using tcp_receive_text_same [OF c(2)] run_rx_actions_same [OF act] same_tx_trans by blast
  have rx3: "rx_after j R n' (n + unat (rcv_wnd pcb)) p3 (has (recv_flags t2) TF_GOT_FIN)"
    using n'(3) s(1) run_rx_actions_same_rx [OF act] rx_after_cong [of p3 p2] by (simp add: same_rx_def)
  have "tcp_receive e t v6 pcb tin w = Some (w3, p3, t2)"
    using st(1) a(1) c(1) act by (simp add: tcp_receive_def)
  moreover have "tx_inv i S fin p3" using a(2) tx_inv_same [OF tx3] by simp
  moreover have "recv_acked t2 = recv_acked t1" by (rule recv_acked_text [OF c(2)])
  moreover have "snd_buf p3 = snd_buf p1" using tx3 by (simp add: same_tx_def)
  ultimately show ?thesis using a(3) n' rx3 by (intro exI conjI) simp_all
qed

end
