(* ===== verification/Tcp_kept.thy ===== *)
theory Tcp_kept imports Tcp_input Tcp_txf begin

text \<open>
  What the routines below the connection level leave alone: the state of the connection, up to the
  step from ESTABLISHED to CLOSE-WAIT when a queued FIN is delivered, its local port, and the listening
  block it came from.
\<close>

definition conn_keeps :: "tcp_pcb \<Rightarrow> tcp_pcb \<Rightarrow> bool" where
  "conn_keeps b a \<longleftrightarrow> listener b = listener a \<and> local_port b = local_port a \<and>
     (state b = state a \<or> state a = ESTABLISHED \<and> state b = CLOSE_WAIT)"

lemma keeps_refl [simp]: "conn_keeps a a"
  by (simp add: conn_keeps_def)

lemma keeps_trans: "conn_keeps c b \<Longrightarrow> conn_keeps b a \<Longrightarrow> conn_keeps c a"
  by (auto simp: conn_keeps_def)

lemma keepsI: "state b = state a \<Longrightarrow> listener b = listener a \<Longrightarrow> local_port b = local_port a \<Longrightarrow> conn_keeps b a"
  by (simp add: conn_keeps_def)

lemma keeps_by_fields: "state b = state a \<Longrightarrow> listener b = listener a \<Longrightarrow> local_port b = local_port a \<Longrightarrow> conn_keeps b c = conn_keeps a c"
  "state b = state a \<Longrightarrow> listener b = listener a \<Longrightarrow> local_port b = local_port a \<Longrightarrow> conn_keeps c b = conn_keeps c a"
  by (simp_all add: conn_keeps_def)

lemma keeps_fields [simp]:
  "conn_keeps (tcp_set_flags b f) a = conn_keeps b a" "conn_keeps (tcp_clear_flags b f) a = conn_keeps b a" "conn_keeps (tcp_ack_now b) a = conn_keeps b a"
  "conn_keeps b (tcp_set_flags a f) = conn_keeps b a" "conn_keeps b (tcp_clear_flags a f) = conn_keeps b a" "conn_keeps b (tcp_ack_now a) = conn_keeps b a"
  "conn_keeps (tcp_ack b) a = conn_keeps b a"
  by (simp_all add: conn_keeps_def tcp_set_flags_def tcp_clear_flags_def tcp_ack_now_def tcp_ack_def)

lemma keeps_update [simp]:
  "conn_keeps (b\<lparr>local_ip := x0\<rparr>) a = conn_keeps b a" "conn_keeps b (a\<lparr>local_ip := x0\<rparr>) = conn_keeps b a"
  "conn_keeps (b\<lparr>remote_ip := x1\<rparr>) a = conn_keeps b a" "conn_keeps b (a\<lparr>remote_ip := x1\<rparr>) = conn_keeps b a"
  "conn_keeps (b\<lparr>netif_idx := x2\<rparr>) a = conn_keeps b a" "conn_keeps b (a\<lparr>netif_idx := x2\<rparr>) = conn_keeps b a"
  "conn_keeps (b\<lparr>so_options := x3\<rparr>) a = conn_keeps b a" "conn_keeps b (a\<lparr>so_options := x3\<rparr>) = conn_keeps b a"
  "conn_keeps (b\<lparr>tos := x4\<rparr>) a = conn_keeps b a" "conn_keeps b (a\<lparr>tos := x4\<rparr>) = conn_keeps b a"
  "conn_keeps (b\<lparr>ttl := x5\<rparr>) a = conn_keeps b a" "conn_keeps b (a\<lparr>ttl := x5\<rparr>) = conn_keeps b a"
  "conn_keeps (b\<lparr>callback_arg := x6\<rparr>) a = conn_keeps b a" "conn_keeps b (a\<lparr>callback_arg := x6\<rparr>) = conn_keeps b a"
  "conn_keeps (b\<lparr>prio := x7\<rparr>) a = conn_keeps b a" "conn_keeps b (a\<lparr>prio := x7\<rparr>) = conn_keeps b a"
  "conn_keeps (b\<lparr>remote_port := x9\<rparr>) a = conn_keeps b a" "conn_keeps b (a\<lparr>remote_port := x9\<rparr>) = conn_keeps b a"
  "conn_keeps (b\<lparr>flags := x10\<rparr>) a = conn_keeps b a" "conn_keeps b (a\<lparr>flags := x10\<rparr>) = conn_keeps b a"
  "conn_keeps (b\<lparr>polltmr := x11\<rparr>) a = conn_keeps b a" "conn_keeps b (a\<lparr>polltmr := x11\<rparr>) = conn_keeps b a"
  "conn_keeps (b\<lparr>pollinterval := x12\<rparr>) a = conn_keeps b a" "conn_keeps b (a\<lparr>pollinterval := x12\<rparr>) = conn_keeps b a"
  "conn_keeps (b\<lparr>last_timer := x13\<rparr>) a = conn_keeps b a" "conn_keeps b (a\<lparr>last_timer := x13\<rparr>) = conn_keeps b a"
  "conn_keeps (b\<lparr>tmr := x14\<rparr>) a = conn_keeps b a" "conn_keeps b (a\<lparr>tmr := x14\<rparr>) = conn_keeps b a"
  "conn_keeps (b\<lparr>rcv_nxt := x15\<rparr>) a = conn_keeps b a" "conn_keeps b (a\<lparr>rcv_nxt := x15\<rparr>) = conn_keeps b a"
  "conn_keeps (b\<lparr>rcv_wnd := x16\<rparr>) a = conn_keeps b a" "conn_keeps b (a\<lparr>rcv_wnd := x16\<rparr>) = conn_keeps b a"
  "conn_keeps (b\<lparr>rcv_ann_wnd := x17\<rparr>) a = conn_keeps b a" "conn_keeps b (a\<lparr>rcv_ann_wnd := x17\<rparr>) = conn_keeps b a"
  "conn_keeps (b\<lparr>rcv_ann_right_edge := x18\<rparr>) a = conn_keeps b a" "conn_keeps b (a\<lparr>rcv_ann_right_edge := x18\<rparr>) = conn_keeps b a"
  "conn_keeps (b\<lparr>rcv_sacks := x19\<rparr>) a = conn_keeps b a" "conn_keeps b (a\<lparr>rcv_sacks := x19\<rparr>) = conn_keeps b a"
  "conn_keeps (b\<lparr>rtime := x20\<rparr>) a = conn_keeps b a" "conn_keeps b (a\<lparr>rtime := x20\<rparr>) = conn_keeps b a"
  "conn_keeps (b\<lparr>mss := x21\<rparr>) a = conn_keeps b a" "conn_keeps b (a\<lparr>mss := x21\<rparr>) = conn_keeps b a"
  "conn_keeps (b\<lparr>rttest := x22\<rparr>) a = conn_keeps b a" "conn_keeps b (a\<lparr>rttest := x22\<rparr>) = conn_keeps b a"
  "conn_keeps (b\<lparr>rtseq := x23\<rparr>) a = conn_keeps b a" "conn_keeps b (a\<lparr>rtseq := x23\<rparr>) = conn_keeps b a"
  "conn_keeps (b\<lparr>sa := x24\<rparr>) a = conn_keeps b a" "conn_keeps b (a\<lparr>sa := x24\<rparr>) = conn_keeps b a"
  "conn_keeps (b\<lparr>sv := x25\<rparr>) a = conn_keeps b a" "conn_keeps b (a\<lparr>sv := x25\<rparr>) = conn_keeps b a"
  "conn_keeps (b\<lparr>rto := x26\<rparr>) a = conn_keeps b a" "conn_keeps b (a\<lparr>rto := x26\<rparr>) = conn_keeps b a"
  "conn_keeps (b\<lparr>nrtx := x27\<rparr>) a = conn_keeps b a" "conn_keeps b (a\<lparr>nrtx := x27\<rparr>) = conn_keeps b a"
  "conn_keeps (b\<lparr>dupacks := x28\<rparr>) a = conn_keeps b a" "conn_keeps b (a\<lparr>dupacks := x28\<rparr>) = conn_keeps b a"
  "conn_keeps (b\<lparr>lastack := x29\<rparr>) a = conn_keeps b a" "conn_keeps b (a\<lparr>lastack := x29\<rparr>) = conn_keeps b a"
  "conn_keeps (b\<lparr>cwnd := x30\<rparr>) a = conn_keeps b a" "conn_keeps b (a\<lparr>cwnd := x30\<rparr>) = conn_keeps b a"
  "conn_keeps (b\<lparr>ssthresh := x31\<rparr>) a = conn_keeps b a" "conn_keeps b (a\<lparr>ssthresh := x31\<rparr>) = conn_keeps b a"
  "conn_keeps (b\<lparr>rto_end := x32\<rparr>) a = conn_keeps b a" "conn_keeps b (a\<lparr>rto_end := x32\<rparr>) = conn_keeps b a"
  "conn_keeps (b\<lparr>snd_nxt := x33\<rparr>) a = conn_keeps b a" "conn_keeps b (a\<lparr>snd_nxt := x33\<rparr>) = conn_keeps b a"
  "conn_keeps (b\<lparr>snd_wl1 := x34\<rparr>) a = conn_keeps b a" "conn_keeps b (a\<lparr>snd_wl1 := x34\<rparr>) = conn_keeps b a"
  "conn_keeps (b\<lparr>snd_wl2 := x35\<rparr>) a = conn_keeps b a" "conn_keeps b (a\<lparr>snd_wl2 := x35\<rparr>) = conn_keeps b a"
  "conn_keeps (b\<lparr>snd_lbb := x36\<rparr>) a = conn_keeps b a" "conn_keeps b (a\<lparr>snd_lbb := x36\<rparr>) = conn_keeps b a"
  "conn_keeps (b\<lparr>snd_wnd := x37\<rparr>) a = conn_keeps b a" "conn_keeps b (a\<lparr>snd_wnd := x37\<rparr>) = conn_keeps b a"
  "conn_keeps (b\<lparr>snd_wnd_max := x38\<rparr>) a = conn_keeps b a" "conn_keeps b (a\<lparr>snd_wnd_max := x38\<rparr>) = conn_keeps b a"
  "conn_keeps (b\<lparr>snd_buf := x39\<rparr>) a = conn_keeps b a" "conn_keeps b (a\<lparr>snd_buf := x39\<rparr>) = conn_keeps b a"
  "conn_keeps (b\<lparr>snd_queuelen := x40\<rparr>) a = conn_keeps b a" "conn_keeps b (a\<lparr>snd_queuelen := x40\<rparr>) = conn_keeps b a"
  "conn_keeps (b\<lparr>unsent_oversize := x41\<rparr>) a = conn_keeps b a" "conn_keeps b (a\<lparr>unsent_oversize := x41\<rparr>) = conn_keeps b a"
  "conn_keeps (b\<lparr>bytes_acked := x42\<rparr>) a = conn_keeps b a" "conn_keeps b (a\<lparr>bytes_acked := x42\<rparr>) = conn_keeps b a"
  "conn_keeps (b\<lparr>unsent := x43\<rparr>) a = conn_keeps b a" "conn_keeps b (a\<lparr>unsent := x43\<rparr>) = conn_keeps b a"
  "conn_keeps (b\<lparr>unacked := x44\<rparr>) a = conn_keeps b a" "conn_keeps b (a\<lparr>unacked := x44\<rparr>) = conn_keeps b a"
  "conn_keeps (b\<lparr>ooseq := x45\<rparr>) a = conn_keeps b a" "conn_keeps b (a\<lparr>ooseq := x45\<rparr>) = conn_keeps b a"
  "conn_keeps (b\<lparr>refused_data := x46\<rparr>) a = conn_keeps b a" "conn_keeps b (a\<lparr>refused_data := x46\<rparr>) = conn_keeps b a"
  "conn_keeps (b\<lparr>cb_sent := x47\<rparr>) a = conn_keeps b a" "conn_keeps b (a\<lparr>cb_sent := x47\<rparr>) = conn_keeps b a"
  "conn_keeps (b\<lparr>cb_recv := x48\<rparr>) a = conn_keeps b a" "conn_keeps b (a\<lparr>cb_recv := x48\<rparr>) = conn_keeps b a"
  "conn_keeps (b\<lparr>cb_connected := x49\<rparr>) a = conn_keeps b a" "conn_keeps b (a\<lparr>cb_connected := x49\<rparr>) = conn_keeps b a"
  "conn_keeps (b\<lparr>cb_poll := x50\<rparr>) a = conn_keeps b a" "conn_keeps b (a\<lparr>cb_poll := x50\<rparr>) = conn_keeps b a"
  "conn_keeps (b\<lparr>cb_errf := x51\<rparr>) a = conn_keeps b a" "conn_keeps b (a\<lparr>cb_errf := x51\<rparr>) = conn_keeps b a"
  "conn_keeps (b\<lparr>keep_idle := x52\<rparr>) a = conn_keeps b a" "conn_keeps b (a\<lparr>keep_idle := x52\<rparr>) = conn_keeps b a"
  "conn_keeps (b\<lparr>persist_cnt := x53\<rparr>) a = conn_keeps b a" "conn_keeps b (a\<lparr>persist_cnt := x53\<rparr>) = conn_keeps b a"
  "conn_keeps (b\<lparr>persist_backoff := x54\<rparr>) a = conn_keeps b a" "conn_keeps b (a\<lparr>persist_backoff := x54\<rparr>) = conn_keeps b a"
  "conn_keeps (b\<lparr>persist_probe := x55\<rparr>) a = conn_keeps b a" "conn_keeps b (a\<lparr>persist_probe := x55\<rparr>) = conn_keeps b a"
  "conn_keeps (b\<lparr>keep_cnt_sent := x56\<rparr>) a = conn_keeps b a" "conn_keeps b (a\<lparr>keep_cnt_sent := x56\<rparr>) = conn_keeps b a"
  "conn_keeps (b\<lparr>snd_scale := x57\<rparr>) a = conn_keeps b a" "conn_keeps b (a\<lparr>snd_scale := x57\<rparr>) = conn_keeps b a"
  "conn_keeps (b\<lparr>rcv_scale := x58\<rparr>) a = conn_keeps b a" "conn_keeps b (a\<lparr>rcv_scale := x58\<rparr>) = conn_keeps b a"
  by (simp_all add: conn_keeps_def)

section \<open>Sending\<close>

lemma keeps_tcp_output_alloc_header:
  "tcp_output_alloc_header e b n m q w = (w', b', r) \<Longrightarrow> conn_keeps b' b"
  by (auto simp: tcp_output_alloc_header_def conn_keeps_def split: prod.splits option.splits)

lemma keeps_tcp_send_empty_ack: "tcp_send_empty_ack e b w = (w', b', err) \<Longrightarrow> conn_keeps b' b"
  by (auto simp: tcp_send_empty_ack_def Let_def dest!: keeps_tcp_output_alloc_header
      split: prod.splits option.splits if_splits)

lemma keeps_tcp_keepalive: "tcp_keepalive e b w = (w', b', err) \<Longrightarrow> conn_keeps b' b"
  by (auto simp: tcp_keepalive_def Let_def dest!: keeps_tcp_output_alloc_header
      split: prod.splits option.splits if_splits)

lemma keeps_tcp_zero_window_probe: "tcp_zero_window_probe e b w = (w', b', err) \<Longrightarrow> conn_keeps b' b"
  by (auto simp: tcp_zero_window_probe_def Let_def conn_keeps_def dest!: keeps_tcp_output_alloc_header
      split: prod.splits option.splits if_splits list.splits)

lemma keeps_tcp_output_segment:
  "tcp_output_segment e t seg b n w = Some (w', b', err) \<Longrightarrow> conn_keeps b' b"
  by (auto simp: tcp_output_segment_def Let_def conn_keeps_def split: prod.splits if_splits elim!: bind_eq_SomeE)

lemma keeps_seg_sent [simp]: "conn_keeps (seg_sent s b) a = conn_keeps b a" "conn_keeps a (seg_sent s b) = conn_keeps a b"
  by (simp_all add: conn_keeps_def seg_sent_def Let_def tcp_clear_flags_def)

lemma keeps_output_loop:
  "output_loop e t n wnd us b w = Some (w', b', err) \<Longrightarrow> conn_keeps b' b"
proof (induction us arbitrary: b w)
  case (Cons s us)
  from Cons.prems show ?case
    by (auto simp: Let_def split: if_splits elim!: bind_eq_SomeE
        dest!: keeps_tcp_output_segment Cons.IH) (blast intro: keeps_trans)+
qed simp

lemma keeps_output_done [simp]: "conn_keeps (output_done b) a = conn_keeps b a"
  by (simp add: output_done_def)

lemma keeps_tcp_output: "tcp_output e t i b w = Some (w', b', err) \<Longrightarrow> conn_keeps b' b"
  by (auto simp: tcp_output_def Let_def split: if_splits list.splits option.splits elim!: bind_eq_SomeE
      simp del: output_loop.simps dest!: keeps_tcp_send_empty_ack keeps_output_loop)

lemma keeps_tcp_enqueue_flags: "tcp_enqueue_flags e b fl w = Some (w', b', err) \<Longrightarrow> conn_keeps b' b"
  by (auto simp: tcp_enqueue_flags_def Let_def split: if_splits prod.splits option.splits elim!: bind_eq_SomeE)

lemma keeps_tcp_send_fin: "tcp_send_fin e b w = Some (w', b', err) \<Longrightarrow> conn_keeps b' b"
  by (auto simp: tcp_send_fin_def split: if_splits dest: keeps_tcp_enqueue_flags)

lemma keeps_tcp_split_unsent_seg: "tcp_split_unsent_seg e b n w = Some (w', b', err) \<Longrightarrow> conn_keeps b' b"
  by (auto simp: tcp_split_unsent_seg_def Let_def split: if_splits list.splits option.splits prod.splits
      elim!: bind_eq_SomeE)

section \<open>Retransmission and the timers\<close>

lemma keeps_count_rtx [simp]: "conn_keeps (count_rtx b) a = conn_keeps b a" "conn_keeps a (count_rtx b) = conn_keeps a b"
  by (simp_all add: count_rtx_def)

lemma keeps_rto_prepare: "tcp_rexmit_rto_prepare e b w = (b', err) \<Longrightarrow> conn_keeps b' b"
  by (auto simp: tcp_rexmit_rto_prepare_def Let_def split: if_splits)

lemma keeps_rto_commit: "tcp_rexmit_rto_commit e t i b w = Some (w', b') \<Longrightarrow> conn_keeps b' b"
  by (auto simp: tcp_rexmit_rto_commit_def elim!: bind_eq_SomeE dest!: keeps_tcp_output)

lemma keeps_tcp_rexmit_rto: "tcp_rexmit_rto e t i b w = Some (w', b') \<Longrightarrow> conn_keeps b' b"
  by (auto simp: tcp_rexmit_rto_def split: prod.splits if_splits
      dest!: keeps_rto_prepare keeps_rto_commit intro: keeps_trans)

lemma keeps_tcp_rexmit: "tcp_rexmit e b w = (b', err) \<Longrightarrow> conn_keeps b' b"
  by (auto simp: tcp_rexmit_def Let_def split: list.splits if_splits)

lemma keeps_tcp_rexmit_fast [simp]: "conn_keeps (tcp_rexmit_fast e b w) b"
  by (auto simp: tcp_rexmit_fast_def Let_def split: prod.splits if_splits dest!: keeps_tcp_rexmit)

lemma keeps_persist_send: "persist_send e t i b w = Some (w', b', r) \<Longrightarrow> conn_keeps b' b"
  by (auto simp: persist_send_def split: if_splits prod.splits elim!: bind_eq_SomeE
      dest!: keeps_tcp_zero_window_probe keeps_tcp_split_unsent_seg keeps_tcp_output intro: keeps_trans)

lemma keeps_slow_persist: "slow_persist e t i b w = Some (w', b', r) \<Longrightarrow> conn_keeps b' b"
  by (auto simp: slow_persist_def persist_next_slot_def Let_def split: if_splits prod.splits elim!: bind_eq_SomeE
      dest!: keeps_persist_send)

lemma keeps_slow_rexmit: "slow_rexmit e t i b w = Some (w', b') \<Longrightarrow> conn_keeps b' b"
  by (auto simp: slow_rexmit_def rto_congestion_def rto_backoff_def Let_def split: if_splits prod.splits
      dest!: keeps_rto_prepare keeps_rto_commit intro: keeps_trans)

lemma keeps_slow_send: "slow_send e t i b w = Some (w', b', r) \<Longrightarrow> conn_keeps b' b"
  by (auto simp: slow_send_def split: if_splits elim!: bind_eq_SomeE dest!: keeps_slow_persist keeps_slow_rexmit)

lemma keeps_slow_keepalive: "slow_keepalive e t b w = (w', b', r) \<Longrightarrow> conn_keeps b' b"
  by (auto simp: slow_keepalive_def split: if_splits prod.splits dest!: keeps_tcp_keepalive)

lemma keeps_free_ooseq [simp]: "conn_keeps (tcp_free_ooseq b) a = conn_keeps b a"
  by (simp add: tcp_free_ooseq_def)

lemma keeps_tcp_pcb_purge [simp]: "conn_keeps (tcp_pcb_purge b) a = conn_keeps b a"
  by (simp add: tcp_pcb_purge_def)

lemma keeps_slow_ooseq [simp]: "conn_keeps (slow_ooseq t b) a = conn_keeps b a"
  by (simp add: slow_ooseq_def)

lemma keeps_slow_pcb: "slow_pcb e t i b w = Some (w', b', rm, rst) \<Longrightarrow> conn_keeps b' b"
  by (auto simp: slow_pcb_def Let_def split: prod.splits elim!: bind_eq_SomeE
      dest!: keeps_slow_send keeps_slow_keepalive) (blast intro: keeps_trans)+

section \<open>Receiving\<close>

lemma keeps_tcp_update_rcv_ann_wnd: "tcp_update_rcv_ann_wnd b = (b', n) \<Longrightarrow> conn_keeps b' b"
  by (auto simp: tcp_update_rcv_ann_wnd_def Let_def split: if_splits)

lemma keeps_tcp_recved_window: "tcp_recved_window b n = (b', k) \<Longrightarrow> conn_keeps b' b"
  by (auto simp: tcp_recved_window_def Let_def split: if_splits dest!: keeps_tcp_update_rcv_ann_wnd)

lemma keeps_parse [simp]:
  "conn_keeps a (parse_mss b m) = conn_keeps a b" "conn_keeps a (parse_sack_perm fl b) = conn_keeps a b"
  by (simp_all add: parse_mss_def parse_sack_perm_def)

lemma keeps_parse_ws: "parse_ws fl b d = Some b' \<Longrightarrow> conn_keeps a b' = conn_keeps a b"
  by (auto simp: parse_ws_def Let_def split: if_splits elim!: bind_eq_SomeE)

lemma keeps_parseopt_loop: "parseopt_loop os fl b idx = Some b' \<Longrightarrow> conn_keeps b' b"
  apply (erule parseopt_loop.raw_induct [of "\<lambda>os fl b idx b'. conn_keeps b' b", rotated])
  subgoal premises prems using prems(2)
    by (auto split: if_splits elim!: bind_eq_SomeE dest!: prems(1) simp: keeps_parse_ws)
  done

lemma keeps_tcp_parseopt: "tcp_parseopt os fl b = Some b' \<Longrightarrow> conn_keeps b' b"
  by (auto simp: tcp_parseopt_def split: if_splits dest: keeps_parseopt_loop)

lemma keeps_rcv_trim_front: "rcv_trim_front b tin = Some (b', tin') \<Longrightarrow> conn_keeps b' b"
  by (auto simp: rcv_trim_front_def Let_def split: if_splits elim!: bind_eq_SomeE)

lemma keeps_rcv_fit_ooseq: "rcv_fit_ooseq b tin = Some (b', tin') \<Longrightarrow> conn_keeps b' b"
  by (auto simp: rcv_fit_ooseq_def Let_def split: if_splits prod.splits list.splits elim!: bind_eq_SomeE)

lemma keeps_rcv_advance: "rcv_advance n l b = Some b' \<Longrightarrow> conn_keeps b' b"
  by (auto simp: rcv_advance_def tcp_update_rcv_ann_wnd_def Let_def split: if_splits elim!: bind_eq_SomeE)

lemma keeps_rcv_pass_up: "rcv_pass_up b tin = Some (b', tin') \<Longrightarrow> conn_keeps b' b"
  by (auto simp: rcv_pass_up_def Let_def split: if_splits elim!: bind_eq_SomeE dest!: keeps_rcv_advance)

lemma keeps_delivered_fin:
  "conn_keeps b (c\<lparr>state := CLOSE_WAIT\<rparr>) \<Longrightarrow> conn_keeps c a \<Longrightarrow> state c = ESTABLISHED \<Longrightarrow> conn_keeps b a"
  by (auto simp: conn_keeps_def)

lemma keeps_rcv_dequeue: "rcv_dequeue b tin q = Some (b', tin') \<Longrightarrow> conn_keeps b' b"
proof (induction q arbitrary: b tin)
  case (Cons s q)
  from Cons.prems show ?case
    by (auto simp: Let_def split: if_splits prod.splits elim!: bind_eq_SomeE dest!: keeps_rcv_advance Cons.IH
        intro: keeps_trans keeps_delivered_fin)
qed auto

lemma keeps_tidy_sacks [simp]: "conn_keeps (rcv_tidy_sacks b) a = conn_keeps b a"
  by (rule keeps_by_fields) (simp_all add: rcv_tidy_sacks_def tcp_remove_sacks_lt_def split: list.split prod.split)

lemma add_sack_fields [simp]: "state (tcp_add_sack b l r) = state b" "listener (tcp_add_sack b l r) = listener b"
  "local_port (tcp_add_sack b l r) = local_port b"
  by (simp_all add: tcp_add_sack_def Let_def split: prod.split)

lemma keeps_oos_add_sack [simp]: "conn_keeps (oos_add_sack b f q l) a = conn_keeps b a"
  by (rule keeps_by_fields) (simp_all add: oos_add_sack_def Let_def split: list.split)

lemma keeps_rcv_in_order:
  assumes "rcv_in_order v6 b tin = Some (b', tin', as)" shows "conn_keeps b' b"
proof -
  obtain t1 b2 t2 b3 t3 b4 t4 where
      "rcv_fit_ooseq b t1 = Some (b2, t2)" "rcv_pass_up b2 t2 = Some (b3, t3)"
      "rcv_dequeue b3 t3 (ooseq b3) = Some (b4, t4)" "b' = tcp_ack (rcv_tidy_sacks b4)"
    using assms by (auto simp: rcv_in_order_def Let_def elim!: bind_eq_SomeE)
  then show ?thesis
    by (auto dest!: keeps_rcv_fit_ooseq keeps_rcv_pass_up keeps_rcv_dequeue intro: keeps_trans [OF keeps_trans])
qed

lemma keeps_rcv_out_of_order: "rcv_out_of_order m b tin = Some (b', tin', as) \<Longrightarrow> conn_keeps b' b"
  by (auto simp: rcv_out_of_order_def Let_def split: list.splits if_splits elim!: bind_eq_SomeE)

lemma keeps_tcp_receive_text: "tcp_receive_text v6 m b tin = Some (b', tin', as) \<Longrightarrow> conn_keeps b' b"
  by (auto simp: tcp_receive_text_def split: if_splits elim!: bind_eq_SomeE
      dest!: keeps_rcv_trim_front keeps_rcv_in_order keeps_rcv_out_of_order intro: keeps_trans)

lemma keeps_receive_copy: "receive_copy e v6 b tin w = (w', Some (b', tin', as)) \<Longrightarrow> conn_keeps b' b"
  by (auto simp: receive_copy_def split: if_splits prod.splits dest: keeps_tcp_receive_text)

lemma keeps_run_rx_actions: "run_rx_actions e as (w, b) = (w', b') \<Longrightarrow> conn_keeps b' b"
proof (induction as arbitrary: w b)
  case (Cons a as)
  then show ?case
    by (cases a) (auto split: prod.splits dest!: keeps_tcp_send_empty_ack intro: keeps_trans)
qed auto

section \<open>Acknowledgements\<close>

lemma keeps_window [simp]: "conn_keeps a (ack_update_window b tin) = conn_keeps a b"
  by (rule keeps_by_fields) (simp_all add: ack_update_window_def Let_def)

lemma keeps_congestion [simp]: "conn_keeps (ack_congestion b n) a = conn_keeps b a"
  by (rule keeps_by_fields) (simp_all add: ack_congestion_def Let_def)

lemma keeps_ack_end_rto [simp]: "conn_keeps (ack_end_rto b) a = conn_keeps b a"
  by (rule keeps_by_fields) (simp_all add: ack_end_rto_def tcp_clear_flags_def split: list.split)

lemma keeps_ack_rtt [simp]: "conn_keeps (ack_rtt t b tin) a = conn_keeps b a"
  by (simp add: ack_rtt_def Let_def)

lemma rexmit_fast_fields [simp]:
  "state (tcp_rexmit_fast e b w) = state b" "listener (tcp_rexmit_fast e b w) = listener b"
  "local_port (tcp_rexmit_fast e b w) = local_port b"
  by (simp_all add: tcp_rexmit_fast_def tcp_rexmit_def count_rtx_def tcp_set_flags_def Let_def split: list.split)

lemma keeps_ack_duplicate [simp]: "conn_keeps (ack_duplicate e b tin r w) a = conn_keeps b a"
  by (rule keeps_by_fields) (simp_all add: ack_duplicate_def Let_def)

lemma keeps_self_window [simp]: "conn_keeps (ack_update_window b tin) b"
  by (simp add: ack_update_window_def Let_def)

lemma keeps_ack_new_data: "ack_new_data e v6 b tin w = Some (w', b', tin') \<Longrightarrow> conn_keeps b' b"
  by (auto simp: ack_new_data_def Let_def elim!: bind_eq_SomeE)

lemma keeps_tcp_receive_ack: "tcp_receive_ack e t v6 b tin w = Some (w', b', tin') \<Longrightarrow> conn_keeps b' b"
  by (auto simp: tcp_receive_ack_def Let_def split: if_splits prod.splits elim!: bind_eq_SomeE
      dest!: keeps_ack_new_data keeps_tcp_send_empty_ack)

lemma keeps_tcp_receive:
  assumes "tcp_receive e t v6 b tin w = Some (w', b', tin')" shows "conn_keeps b' b"
proof -
  obtain w1 b1 t1 w2 b2 t2 as w3 where
      "tcp_receive_ack e t v6 b tin w = Some (w1, b1, t1)" "receive_copy e v6 b1 t1 w1 = (w2, Some (b2, t2, as))"
      "run_rx_actions e as (w2, b2) = (w3, b')"
    using assms by (auto simp: tcp_receive_def split: prod.splits elim!: bind_eq_SomeE)
  then show ?thesis
    by (blast dest: keeps_tcp_receive_ack keeps_receive_copy keeps_run_rx_actions intro: keeps_trans)
qed

end
