(* ===== verification/Tcp_inv.thy ===== *)
theory Tcp_inv imports Tcp_kept begin

text \<open>
  The invariant of the control blocks: every address on one of the four lists is an allocated block
  of the right kind and state and is there once, every listening block is on its list, a
  half-open connection's listener is still there, and the TCP timer runs whenever a connection is
  active or in TIME-WAIT. Every operation keeps it, for every application whose callbacks keep it.
\<close>

section \<open>The invariant\<close>

definition conn_state :: "tcp_state \<Rightarrow> bool" where
  "conn_state st \<longleftrightarrow> st \<notin> {CLOSED, LISTEN, TIME_WAIT}"

fun list_ok :: "pcb_list \<Rightarrow> cblock \<Rightarrow> bool" where
  "list_ok Bound (Conn b) \<longleftrightarrow> state b = CLOSED \<and> local_port b \<noteq> 0"
| "list_ok Active (Conn b) \<longleftrightarrow> conn_state (state b)"
| "list_ok Tw (Conn b) \<longleftrightarrow> state b = TIME_WAIT"
| "list_ok Listening (Lst l) \<longleftrightarrow> l_state l = LISTEN"
| "list_ok _ _ \<longleftrightarrow> False"

lemma list_ok_iff:
  "list_ok l (Conn b) \<longleftrightarrow> l = Bound \<and> state b = CLOSED \<and> local_port b \<noteq> 0 \<or> l = Active \<and> conn_state (state b) \<or>
     l = Tw \<and> state b = TIME_WAIT"
  "list_ok l (Lst x) \<longleftrightarrow> l = Listening \<and> l_state x = LISTEN"
  by (cases l; simp)+

lemma list_ok_one: "list_ok l c \<Longrightarrow> list_ok l' c \<Longrightarrow> l' = l"
  by (cases c) (auto simp: list_ok_iff conn_state_def)

definition lists_ok :: "'w tcp_st \<Rightarrow> bool" where
  "lists_ok s \<longleftrightarrow> (\<forall>l. distinct (the_list l s) \<and> (\<forall>p\<in>set (the_list l s). \<exists>c. cbs s p = Some c \<and> list_ok l c))"

definition listeners_ok :: "'w tcp_st \<Rightarrow> bool" where
  "listeners_ok s \<longleftrightarrow>
     (\<forall>p l. cbs s p = Some (Lst l) \<longrightarrow> p \<in> set (tcp_listen_pcbs s)) \<and>
     (\<forall>p\<in>set (tcp_active_pcbs s). \<forall>b lp. cbs s p = Some (Conn b) \<and> state b = SYN_RCVD \<and> listener b = Some lp \<longrightarrow>
        lp \<in> set (tcp_listen_pcbs s))"

definition timer_ok :: "'w tcp_st \<Rightarrow> bool" where
  "timer_ok s \<longleftrightarrow> (tcp_active_pcbs s \<noteq> [] \<or> tcp_tw_pcbs s \<noteq> [] \<longrightarrow> tcpip_tcp_timer_active s)"

definition pcbs_ok :: "'w tcp_st \<Rightarrow> bool" where
  "pcbs_ok s \<longleftrightarrow> lists_ok s \<and> listeners_ok s \<and> timer_ok s"

lemmas pcbs_ok_defs = pcbs_ok_def lists_ok_def listeners_ok_def timer_ok_def

lemma all_lists: "(\<forall>l. P l) \<longleftrightarrow> P Bound \<and> P Listening \<and> P Active \<and> P Tw"
  by (metis pcb_list.exhaust)

text \<open>The other variables do not matter.\<close>

lemma the_list_fields [simp]:
  "the_list l (s\<lparr>cbs := c\<rparr>) = the_list l s" "the_list l (s\<lparr>st_w := w\<rparr>) = the_list l s"
  "the_list l (s\<lparr>st_in := i\<rparr>) = the_list l s" "the_list l (s\<lparr>tcp_ticks := t\<rparr>) = the_list l s"
  "the_list l (s\<lparr>tcp_timer := y\<rparr>) = the_list l s" "the_list l (s\<lparr>tcp_timer_ctr := y\<rparr>) = the_list l s"
  "the_list l (s\<lparr>tcp_active_pcbs_changed := z\<rparr>) = the_list l s" "the_list l (s\<lparr>tcp_port := pt\<rparr>) = the_list l s"
  "the_list l (s\<lparr>tcp_iss := t\<rparr>) = the_list l s" "the_list l (s\<lparr>tcp_input_pcb := q\<rparr>) = the_list l s"
  "the_list l (s\<lparr>tcpip_tcp_timer_active := z\<rparr>) = the_list l s"
  by (cases l; simp)+

lemma pcbs_ok_fields [simp]:
  "pcbs_ok (s\<lparr>st_w := w\<rparr>) = pcbs_ok s" "pcbs_ok (s\<lparr>st_in := i\<rparr>) = pcbs_ok s"
  "pcbs_ok (s\<lparr>tcp_ticks := t\<rparr>) = pcbs_ok s" "pcbs_ok (s\<lparr>tcp_timer := y\<rparr>) = pcbs_ok s"
  "pcbs_ok (s\<lparr>tcp_timer_ctr := y\<rparr>) = pcbs_ok s" "pcbs_ok (s\<lparr>tcp_active_pcbs_changed := z\<rparr>) = pcbs_ok s"
  "pcbs_ok (s\<lparr>tcp_port := pt\<rparr>) = pcbs_ok s" "pcbs_ok (s\<lparr>tcp_iss := t\<rparr>) = pcbs_ok s"
  "pcbs_ok (s\<lparr>tcp_input_pcb := q\<rparr>) = pcbs_ok s"
  by (simp_all add: pcbs_ok_defs)

section \<open>One block changes\<close>

text \<open>A change of a block that lets it stay where it is.\<close>

definition slot_ok :: "tcp_pcb \<Rightarrow> tcp_pcb \<Rightarrow> bool" where
  "slot_ok b a \<longleftrightarrow> (\<forall>l. list_ok l (Conn a) \<longrightarrow> list_ok l (Conn b)) \<and>
     (state b = SYN_RCVD \<longrightarrow> state a = SYN_RCVD \<and> (listener b = listener a \<or> listener b = None))"

lemma slot_keeps: "conn_keeps b a \<Longrightarrow> slot_ok b a"
  by (auto simp: conn_keeps_def slot_ok_def list_ok_iff conn_state_def)

lemma slot_state: "conn_state (state a) \<Longrightarrow> conn_state st \<Longrightarrow> st \<noteq> SYN_RCVD \<Longrightarrow> slot_ok (a\<lparr>state := st\<rparr>) a"
  by (auto simp: slot_ok_def list_ok_iff conn_state_def)

lemma pcbs_okI:
  assumes "\<And>l. distinct (the_list l s)"
    and "\<And>l p. p \<in> set (the_list l s) \<Longrightarrow> \<exists>c. cbs s p = Some c \<and> list_ok l c"
    and "\<And>p l. cbs s p = Some (Lst l) \<Longrightarrow> p \<in> set (tcp_listen_pcbs s)"
    and "\<And>p b lp. p \<in> set (tcp_active_pcbs s) \<Longrightarrow> cbs s p = Some (Conn b) \<Longrightarrow> state b = SYN_RCVD \<Longrightarrow>
      listener b = Some lp \<Longrightarrow> lp \<in> set (tcp_listen_pcbs s)"
    and "tcp_active_pcbs s \<noteq> [] \<or> tcp_tw_pcbs s \<noteq> [] \<Longrightarrow> tcpip_tcp_timer_active s"
  shows "pcbs_ok s"
  using assms by (auto simp: pcbs_ok_defs)

lemma pcbs_okD:
  assumes "pcbs_ok s"
  shows "distinct (the_list l s)"
    and "p \<in> set (the_list l s) \<Longrightarrow> \<exists>c. cbs s p = Some c \<and> list_ok l c"
    and "cbs s p = Some (Lst x) \<Longrightarrow> p \<in> set (tcp_listen_pcbs s)"
    and "p \<in> set (tcp_active_pcbs s) \<Longrightarrow> cbs s p = Some (Conn b) \<Longrightarrow> state b = SYN_RCVD \<Longrightarrow>
      listener b = Some lp \<Longrightarrow> lp \<in> set (tcp_listen_pcbs s)"
    and "tcp_active_pcbs s \<noteq> [] \<or> tcp_tw_pcbs s \<noteq> [] \<Longrightarrow> tcpip_tcp_timer_active s"
  using assms by (auto simp: pcbs_ok_defs)

lemma put_ok:
  assumes "pcbs_ok s" "cbs s p = Some (Conn a)" "slot_ok b a"
  shows "pcbs_ok (put_pcb p b s)"
proof (rule pcbs_okI)
  note d = pcbs_okD [OF assms(1)]
  show "distinct (the_list l (put_pcb p b s))" for l using d(1) by (simp add: put_pcb_def)
  show "\<exists>c. cbs (put_pcb p b s) q = Some c \<and> list_ok l c" if "q \<in> set (the_list l (put_pcb p b s))" for l q
    using d(2) [of q l] that assms(2,3) by (auto simp: put_pcb_def slot_ok_def)
  show "q \<in> set (tcp_listen_pcbs (put_pcb p b s))" if "cbs (put_pcb p b s) q = Some (Lst x)" for q x
    using d(3) [of q x] that by (simp add: put_pcb_def split: if_splits)
  show "lp \<in> set (tcp_listen_pcbs (put_pcb p b s))" if "q \<in> set (tcp_active_pcbs (put_pcb p b s))"
    "cbs (put_pcb p b s) q = Some (Conn c)" "state c = SYN_RCVD" "listener c = Some lp" for q c lp
    using d(4) [of q _ lp] that assms(2,3) by (auto simp: put_pcb_def slot_ok_def split: if_splits)
  show "tcpip_tcp_timer_active (put_pcb p b s)"
    if "tcp_active_pcbs (put_pcb p b s) \<noteq> [] \<or> tcp_tw_pcbs (put_pcb p b s) \<noteq> []"
    using d(5) that by (simp add: put_pcb_def)
qed

definition listed :: "'w tcp_st \<Rightarrow> nat \<Rightarrow> bool" where
  "listed s p \<longleftrightarrow> (\<exists>l. p \<in> set (the_list l s))"

text \<open>An address that is on no list may hold any connection block or none.\<close>

lemma unlisted_ok:
  assumes "pcbs_ok s" "\<not> listed s p" "\<And>l. c \<noteq> Some (Lst l)"
  shows "pcbs_ok (s\<lparr>cbs := (cbs s)(p := c)\<rparr>)"
proof (rule pcbs_okI)
  note d = pcbs_okD [OF assms(1)]
  have no: "p \<notin> set (the_list l s)" for l using assms(2) by (auto simp: listed_def)
  show "distinct (the_list l (s\<lparr>cbs := (cbs s)(p := c)\<rparr>))" for l using d(1) by simp
  show "\<exists>x. cbs (s\<lparr>cbs := (cbs s)(p := c)\<rparr>) q = Some x \<and> list_ok l x"
    if "q \<in> set (the_list l (s\<lparr>cbs := (cbs s)(p := c)\<rparr>))" for l q
    using d(2) [of q l] that no [of l] by auto
  show "q \<in> set (tcp_listen_pcbs (s\<lparr>cbs := (cbs s)(p := c)\<rparr>))"
    if "cbs (s\<lparr>cbs := (cbs s)(p := c)\<rparr>) q = Some (Lst x)" for q x
    using d(3) [of q x] that assms(3) by (auto split: if_splits)
  show "lp \<in> set (tcp_listen_pcbs (s\<lparr>cbs := (cbs s)(p := c)\<rparr>))"
    if "q \<in> set (tcp_active_pcbs (s\<lparr>cbs := (cbs s)(p := c)\<rparr>))"
    "cbs (s\<lparr>cbs := (cbs s)(p := c)\<rparr>) q = Some (Conn b)" "state b = SYN_RCVD" "listener b = Some lp" for q b lp
    using d(4) [of q b lp] that no [of Active] by (auto split: if_splits)
  show "tcpip_tcp_timer_active (s\<lparr>cbs := (cbs s)(p := c)\<rparr>)"
    if "tcp_active_pcbs (s\<lparr>cbs := (cbs s)(p := c)\<rparr>) \<noteq> [] \<or> tcp_tw_pcbs (s\<lparr>cbs := (cbs s)(p := c)\<rparr>) \<noteq> []"
    using d(5) that by simp
qed

lemma put_unlisted: "pcbs_ok s \<Longrightarrow> \<not> listed s p \<Longrightarrow> pcbs_ok (put_pcb p b s)"
  using unlisted_ok [of s p "Some (Conn b)"] by (simp add: put_pcb_def)

section \<open>A block leaves a list or joins one\<close>

lemma upd_list_fields [simp]:
  "cbs (upd_list l f s) = cbs s" "tcpip_tcp_timer_active (upd_list l f s) = tcpip_tcp_timer_active s"
  "tcp_input_pcb (upd_list l f s) = tcp_input_pcb s" "st_in (upd_list l f s) = st_in s" "st_w (upd_list l f s) = st_w s"
  by (cases l; simp)+

lemma the_list_upd: "the_list l' (upd_list l f s) = (if l' = l then f (the_list l s) else the_list l' s)"
  by (cases l; cases l') simp_all

lemma listen_of: "tcp_listen_pcbs s = the_list Listening s" and active_of: "tcp_active_pcbs s = the_list Active s"
  and tw_of: "tcp_tw_pcbs s = the_list Tw s" and bound_of: "tcp_bound_pcbs s = the_list Bound s"
  by simp_all

text \<open>Any list may be shortened; a listening block only together with its memory.\<close>

lemma remove_ok:
  assumes "pcbs_ok s" "l \<noteq> Listening" shows "pcbs_ok (upd_list l (remove1 p) s)"
proof (rule pcbs_okI)
  let ?s = "upd_list l (remove1 p) s"
  note d = pcbs_okD [OF assms(1)]
  have sub: "q \<in> set (the_list l' ?s) \<Longrightarrow> q \<in> set (the_list l' s)" for q l'
    by (auto simp: the_list_upd split: if_splits dest: set_remove1_subset [THEN subsetD])
  have listen: "tcp_listen_pcbs ?s = tcp_listen_pcbs s" using assms(2) by (cases l) simp_all
  show "distinct (the_list l' ?s)" for l' using d(1) by (simp add: the_list_upd distinct_remove1)
  show "\<exists>x. cbs ?s q = Some x \<and> list_ok l' x" if "q \<in> set (the_list l' ?s)" for l' q
    using d(2) [OF sub [OF that]] by simp
  show "q \<in> set (tcp_listen_pcbs ?s)" if "cbs ?s q = Some (Lst x)" for q x
    using d(3) [of q x] that by (simp add: listen)
  show "lp \<in> set (tcp_listen_pcbs ?s)" if "q \<in> set (tcp_active_pcbs ?s)"
    "cbs ?s q = Some (Conn b)" "state b = SYN_RCVD" "listener b = Some lp" for q b lp
    using d(4) [of q b lp] sub [of q Active] that by (simp add: listen)
  show "tcpip_tcp_timer_active ?s" if "tcp_active_pcbs ?s \<noteq> [] \<or> tcp_tw_pcbs ?s \<noteq> []"
  proof -
    have "tcp_active_pcbs s \<noteq> [] \<or> tcp_tw_pcbs s \<noteq> []" using that by (cases l) auto
    then show ?thesis using d(5) by simp
  qed
qed

lemma unlisted_remove:
  assumes "pcbs_ok s" "cbs s p = Some c" "\<And>l'. list_ok l' c \<Longrightarrow> l' = l"
  shows "\<not> listed (upd_list l (remove1 p) s) p"
proof
  assume "listed (upd_list l (remove1 p) s) p"
  then obtain l' where m: "p \<in> set (the_list l' (upd_list l (remove1 p) s))" by (auto simp: listed_def)
  note d = pcbs_okD [OF assms(1)]
  show False
  proof (cases "l' = l")
    case True
    then show False using m d(1) [of l] by (simp add: the_list_upd)
  next
    case False
    then show False using m d(2) [of p l'] assms(2,3) by (auto simp: the_list_upd)
  qed
qed

lemma unlisted_state: "pcbs_ok s \<Longrightarrow> cbs s p = Some c \<Longrightarrow> (\<And>l. \<not> list_ok l c) \<Longrightarrow> \<not> listed s p"
  using pcbs_okD(2) by (force simp: listed_def)

lemma unlisted_fresh: "pcbs_ok s \<Longrightarrow> cbs s p = None \<Longrightarrow> \<not> listed s p"
  using pcbs_okD(2) by (force simp: listed_def)

lemma reg_ok:
  assumes "pcbs_ok s" "cbs s p = Some (Conn b)" "list_ok l (Conn b)" "TCP_REG app l p s = Some s'"
    and half: "\<And>lp. l = Active \<Longrightarrow> state b = SYN_RCVD \<Longrightarrow> listener b = Some lp \<Longrightarrow> lp \<in> set (tcp_listen_pcbs s)"
  shows "pcbs_ok s'"
proof (rule pcbs_okI)
  note d = pcbs_okD [OF assms(1)]
  have nl: "l \<noteq> Listening" using assms(3) by (auto simp: list_ok_iff)
  have new: "p \<notin> set (the_list l s)" and s': "s' = tcp_timer_needed app (upd_list l ((#) p) s)"
    using assms(4) by (auto simp: TCP_REG_def split: if_splits)
  have c: "cbs s' = cbs s" by (simp add: s' tcp_timer_needed_def)
  have t: "the_list l' s' = (if l' = l then p # the_list l s else the_list l' s)" for l'
    by (simp add: s' tcp_timer_needed_def the_list_upd del: the_list.simps)
  have listen: "tcp_listen_pcbs s' = tcp_listen_pcbs s" using t [of Listening] nl by simp
  show "distinct (the_list l' s')" for l' using d(1) new by (simp add: t)
  show "\<exists>x. cbs s' q = Some x \<and> list_ok l' x" if "q \<in> set (the_list l' s')" for l' q
    using d(2) [of q l'] that assms(2,3) by (auto simp: t c split: if_splits)
  show "q \<in> set (tcp_listen_pcbs s')" if "cbs s' q = Some (Lst x)" for q x
    using d(3) [of q x] that by (simp add: listen c)
  show "lp \<in> set (tcp_listen_pcbs s')" if "q \<in> set (tcp_active_pcbs s')"
    "cbs s' q = Some (Conn a)" "state a = SYN_RCVD" "listener a = Some lp" for q a lp
    using d(4) [of q a lp] half [of lp] that t [of Active] assms(2) by (auto simp: listen c split: if_splits)
  show "tcpip_tcp_timer_active s'" if "tcp_active_pcbs s' \<noteq> [] \<or> tcp_tw_pcbs s' \<noteq> []"
    using that by (simp add: s' tcp_timer_needed_def split: if_splits)
qed

section \<open>Operations\<close>

text \<open>What an operation does as seen from the input processing that may be running: it keeps the
  invariant, and it changes the variables of input processing only while that is running.\<close>

definition app_step :: "'w tcp_st \<Rightarrow> 'w tcp_st \<Rightarrow> bool" where
  "app_step s s' \<longleftrightarrow> (pcbs_ok s \<longrightarrow> pcbs_ok s') \<and> tcp_input_pcb s' = tcp_input_pcb s \<and>
     (tcp_input_pcb s = None \<longrightarrow> st_in s' = st_in s)"

lemma app_step_refl [simp]: "app_step s s"
  by (simp add: app_step_def)

lemma app_step_trans [trans]: "app_step s s1 \<Longrightarrow> app_step s1 s2 \<Longrightarrow> app_step s s2"
  by (simp add: app_step_def)

lemma app_step_w [simp]: "app_step s (s'\<lparr>st_w := w\<rparr>) = app_step s s'" "app_step (s\<lparr>st_w := w\<rparr>) s' = app_step s s'"
  "app_step s (s'\<lparr>tcp_active_pcbs_changed := z\<rparr>) = app_step s s'"
  "app_step (s\<lparr>tcp_active_pcbs_changed := z\<rparr>) s' = app_step s s'"
  "app_step s (s'\<lparr>tcp_port := pt\<rparr>) = app_step s s'" "app_step (s\<lparr>tcp_port := pt\<rparr>) s' = app_step s s'"
  "app_step s (s'\<lparr>tcp_iss := t\<rparr>) = app_step s s'" "app_step (s\<lparr>tcp_iss := t\<rparr>) s' = app_step s s'"
  by (simp_all add: app_step_def)

lemma put_fields [simp]:
  "tcp_input_pcb (put_pcb p b s) = tcp_input_pcb s" "st_in (put_pcb p b s) = st_in s" "st_w (put_pcb p b s) = st_w s"
  "the_list l (put_pcb p b s) = the_list l s" "cbs (put_pcb p b s) = (cbs s)(p \<mapsto> Conn b)"
  "tcp_ticks (put_pcb p b s) = tcp_ticks s" "tcp_timer_ctr (put_pcb p b s) = tcp_timer_ctr s"
  by (simp_all add: put_pcb_def)

lemma get_put [simp]: "get_pcb (put_pcb p b s) q = (if q = p then Some b else get_pcb s q)"
  by (simp add: get_pcb_def put_pcb_def)

lemma put_put [simp]: "put_pcb p b (put_pcb p a s) = put_pcb p b s"
  by (simp add: put_pcb_def)

lemma get_pcb_iff: "get_pcb s p = Some b \<longleftrightarrow> cbs s p = Some (Conn b)"
  by (auto simp: get_pcb_def split: option.splits cblock.splits)

lemma get_fields [simp]: "get_pcb (s\<lparr>st_w := w\<rparr>) p = get_pcb s p" "get_pcb (upd_list l f s) p = get_pcb s p"
  "get_pcb (s\<lparr>tcp_active_pcbs_changed := z\<rparr>) p = get_pcb s p" "get_pcb (s\<lparr>st_in := i\<rparr>) p = get_pcb s p"
  "get_pcb (s\<lparr>tcp_input_pcb := q\<rparr>) p = get_pcb s p"
  by (simp_all add: get_pcb_def)

lemma step_put: "get_pcb s p = Some a \<Longrightarrow> slot_ok b a \<Longrightarrow> app_step s (put_pcb p b s)"
  by (auto simp: app_step_def get_pcb_iff intro: put_ok)

lemma step_put_keeps: "get_pcb s p = Some a \<Longrightarrow> conn_keeps b a \<Longrightarrow> app_step s (put_pcb p b s)"
  by (rule step_put [OF _ slot_keeps])

lemma step_upd:
  assumes "upd_pcb f p s = Some s'" "\<And>a. slot_ok (f a) a" shows "app_step s s'"
  using assms by (auto simp: upd_pcb_def elim!: bind_eq_SomeE intro: step_put)

lemma step_upd_keeps: "upd_pcb f p s = Some s' \<Longrightarrow> (\<And>a. conn_keeps (f a) a) \<Longrightarrow> app_step s s'"
  by (rule step_upd [OF _ slot_keeps])

lemma step_output:
  assumes "st_output app p s = Some (s', err)" shows "app_step s s'"
proof -
  obtain a w b where "get_pcb s p = Some a" "conn_keeps b a" "s' = put_pcb p b (s\<lparr>st_w := w\<rparr>)"
    using assms by (auto simp: st_output_def elim!: bind_eq_SomeE dest!: keeps_tcp_output)
  then show ?thesis using step_put_keeps [of "s\<lparr>st_w := w\<rparr>" p a b] by simp
qed

lemma step_rst [simp]: "app_step s (st_rst app b lport s)"
  by (simp add: st_rst_def)

lemma step_remove: "l \<noteq> Listening \<Longrightarrow> app_step s (TCP_RMV l p s)"
  by (simp add: TCP_RMV_def app_step_def remove_ok)

lemma step_remove_active: "app_step s (TCP_RMV_ACTIVE p s)"
  by (simp add: TCP_RMV_ACTIVE_def step_remove)

lemma step_free_unlisted: "\<not> listed s p \<Longrightarrow> tcp_free p s = Some s' \<Longrightarrow> app_step s s'"
  using unlisted_ok [of s p None] by (auto simp: tcp_free_def app_step_def elim!: bind_eq_SomeE)

lemma listed_fields [simp]: "listed (s\<lparr>st_w := w\<rparr>) p = listed s p" "listed (put_pcb q b s) p = listed s p"
  "listed (s\<lparr>tcp_active_pcbs_changed := z\<rparr>) p = listed s p" "listed (s\<lparr>cbs := c\<rparr>) p = listed s p"
  "listed (s\<lparr>st_in := i\<rparr>) p = listed s p" "listed (s\<lparr>tcp_input_pcb := q'\<rparr>) p = listed s p"
  by (simp_all add: listed_def)

lemma listed_upd_pcb: "upd_pcb f q s = Some s' \<Longrightarrow> listed s' p = listed s p"
  by (auto simp: upd_pcb_def elim!: bind_eq_SomeE)

lemma listed_output: "st_output app q s = Some (s', err) \<Longrightarrow> listed s' p = listed s p"
  by (auto simp: st_output_def elim!: bind_eq_SomeE)

text \<open>A block that is removed from its list and freed.\<close>

definition home :: "pcb_list \<Rightarrow> nat \<Rightarrow> 'w tcp_st \<Rightarrow> bool" where
  "home l p s \<longleftrightarrow> l \<noteq> Listening \<and> (\<forall>c l'. cbs s p = Some c \<longrightarrow> list_ok l' c \<longrightarrow> l' = l)"

lemma step_pcb_remove:
  assumes "tcp_pcb_remove app l p s = Some s'" "home l p s"
  shows "app_step s s' \<and> (pcbs_ok s \<longrightarrow> \<not> listed s' p)"
proof -
  let ?s = "TCP_RMV l p s"
  have l: "l \<noteq> Listening" using assms(2) by (simp add: home_def)
  obtain c where c: "cbs s p = Some c"
    using assms(1) by (auto simp: tcp_pcb_remove_def Let_def TCP_RMV_def elim!: bind_eq_SomeE)
  have un: "\<not> listed ?s p" if "pcbs_ok s"
    using that c assms(2) unfolding TCP_RMV_def by (intro unlisted_remove) (auto simp: home_def)
  show ?thesis
  proof (cases c)
    case (Lst x)
    then have "l_state x = LISTEN" using assms(1) c by (auto simp: tcp_pcb_remove_def TCP_RMV_def split: if_splits)
    then have "list_ok Listening c" using Lst by simp
    then show ?thesis using assms(2) c l by (auto simp: home_def)
  next
    case (Conn b)
    obtain s1 b1 where s1: "app_step (put_pcb p (tcp_pcb_purge b) ?s) s1"
        "listed s1 p = listed ?s p" "s' = put_pcb p (b1\<lparr>state := CLOSED, local_port := 0\<rparr>) s1"
    proof -
      from assms(1) c Conn obtain s1 b1 where
        a: "(if state (tcp_pcb_purge b) \<noteq> TIME_WAIT \<and> state (tcp_pcb_purge b) \<noteq> LISTEN \<and> has (flags (tcp_pcb_purge b)) TF_ACK_DELAY
             then do { (s, err) \<leftarrow> st_output app p (put_pcb p (tcp_ack_now (tcp_pcb_purge b)) ?s); Some s }
             else Some (put_pcb p (tcp_pcb_purge b) ?s)) = Some s1"
        "s' = put_pcb p (b1\<lparr>state := CLOSED, local_port := 0\<rparr>) s1"
        by (auto simp: tcp_pcb_remove_def Let_def TCP_RMV_def elim!: bind_eq_SomeE split: if_splits)
      have ack: "app_step (put_pcb p (tcp_pcb_purge b) ?s) (put_pcb p (tcp_ack_now (tcp_pcb_purge b)) ?s)"
        using step_put_keeps [of "put_pcb p (tcp_pcb_purge b) ?s" p "tcp_pcb_purge b" "tcp_ack_now (tcp_pcb_purge b)"]
        by simp
      from a(1) consider err where "st_output app p (put_pcb p (tcp_ack_now (tcp_pcb_purge b)) ?s) = Some (s1, err)"
        | "s1 = put_pcb p (tcp_pcb_purge b) ?s"
        by (simp split: if_splits) (auto elim!: bind_eq_SomeE)
      then have "app_step (put_pcb p (tcp_pcb_purge b) ?s) s1 \<and> listed s1 p = listed ?s p"
        by cases (auto simp: listed_output intro: app_step_trans [OF ack step_output])
      then show ?thesis using a(2) that by blast
    qed
    have k: "app_step ?s (put_pcb p (tcp_pcb_purge b) ?s)"
      by (rule step_put_keeps [of _ _ b]) (use c Conn in \<open>simp_all add: get_pcb_iff TCP_RMV_def\<close>)
    have "app_step s s1" by (rule app_step_trans [OF step_remove [OF l] app_step_trans [OF k s1(1)]])
    then show ?thesis using s1 un by (auto simp: app_step_def intro: put_unlisted)
  qed
qed

lemma step_remove_free:
  assumes "tcp_pcb_remove app l p s = Some s1" "home l p s" "tcp_free p s1 = Some s2"
  shows "app_step s s2"
proof (cases "pcbs_ok s")
  case True
  then show ?thesis using step_pcb_remove [OF assms(1,2)] step_free_unlisted [OF _ assms(3)] by (auto intro: app_step_trans)
next
  case False
  moreover have "tcp_input_pcb s2 = tcp_input_pcb s1" "st_in s2 = st_in s1"
    using assms(3) by (auto simp: tcp_free_def elim!: bind_eq_SomeE)
  ultimately show ?thesis using step_pcb_remove [OF assms(1,2)] by (simp add: app_step_def)
qed

lemma home_conn: "get_pcb s p = Some b \<Longrightarrow> conn_state (state b) \<Longrightarrow> home Active p s"
  "get_pcb s p = Some b \<Longrightarrow> state b = TIME_WAIT \<Longrightarrow> home Tw p s"
  by (auto simp: home_def get_pcb_iff list_ok_iff conn_state_def)

lemma PCB_REMOVE_ACTIVE_iff:
  "TCP_PCB_REMOVE_ACTIVE app p s = Some s' \<longleftrightarrow>
     (\<exists>s1. tcp_pcb_remove app Active p s = Some s1 \<and> s' = s1\<lparr>tcp_active_pcbs_changed := True\<rparr>)"
  by (auto simp: TCP_PCB_REMOVE_ACTIVE_def bind_eq_Some_conv)

section \<open>A listening block is closed\<close>

lemma remove_listener_post:
  assumes "tcp_remove_listener ps lp s = Some s'"
  shows "app_step s s'" "the_list l s' = the_list l s" "(cbs s' q = Some (Lst x)) = (cbs s q = Some (Lst x))"
    "cbs s' q = Some (Conn b') \<Longrightarrow> listener b' = Some lp \<Longrightarrow> q \<notin> set ps \<and> cbs s q = Some (Conn b')"
  using assms
proof (induction ps arbitrary: s)
  case (Cons p ps)
  case 1
  then obtain b where b: "cbs s p = Some (Conn b)" and
      r: "tcp_remove_listener ps lp (put_pcb p (if listener b = Some lp then b\<lparr>listener := None\<rparr> else b) s) = Some s'"
    by (auto simp: upd_pcb_def get_pcb_iff elim!: bind_eq_SomeE)
  have "slot_ok (if listener b = Some lp then b\<lparr>listener := None\<rparr> else b) b"
    by (auto simp: slot_ok_def list_ok_iff)
  then show ?case using Cons.IH(1) [OF r] step_put b by (blast intro: app_step_trans [rotated] dest: get_pcb_iff [THEN iffD2])
next
  case (Cons p ps)
  case 2
  then show ?case using Cons.IH(2) by (auto simp: upd_pcb_def elim!: bind_eq_SomeE)
next
  case (Cons p ps)
  case 3
  then obtain b where b: "cbs s p = Some (Conn b)" and
      r: "tcp_remove_listener ps lp (put_pcb p (if listener b = Some lp then b\<lparr>listener := None\<rparr> else b) s) = Some s'"
    by (auto simp: upd_pcb_def get_pcb_iff elim!: bind_eq_SomeE)
  show ?case using Cons.IH(3) [OF r] b by simp
next
  case (Cons p ps)
  case 4
  then obtain b where b: "cbs s p = Some (Conn b)" and
      r: "tcp_remove_listener ps lp (put_pcb p (if listener b = Some lp then b\<lparr>listener := None\<rparr> else b) s) = Some s'"
    by (auto simp: upd_pcb_def get_pcb_iff elim!: bind_eq_SomeE)
  then show ?case using Cons.IH(4) [OF 4(1,2) r] 4(2) by (auto split: if_splits)
qed auto

lemma listen_closed_post:
  assumes "tcp_listen_closed lp s = Some s'"
  shows "app_step s s'" "the_list l s' = the_list l s" "(cbs s' q = Some (Lst x)) = (cbs s q = Some (Lst x))"
    "q \<in> set (tcp_active_pcbs s') \<Longrightarrow> cbs s' q = Some (Conn b) \<Longrightarrow> listener b \<noteq> Some lp"
proof -
  obtain s1 s2 where r: "tcp_remove_listener (tcp_bound_pcbs s) lp s = Some s1"
      "tcp_remove_listener (tcp_active_pcbs s1) lp s1 = Some s2" "tcp_remove_listener (tcp_tw_pcbs s2) lp s2 = Some s'"
    using assms by (auto simp: tcp_listen_closed_def elim!: bind_eq_SomeE)
  note p = remove_listener_post [OF r(1)] remove_listener_post [OF r(2)] remove_listener_post [OF r(3)]
  show "app_step s s'" using p(1,5,9) by (blast intro: app_step_trans)
  show "the_list l s' = the_list l s" using p(2,6,10) by metis
  show "(cbs s' q = Some (Lst x)) = (cbs s q = Some (Lst x))" using p(3,7,11) by metis
  show "listener b \<noteq> Some lp" if "q \<in> set (tcp_active_pcbs s')" "cbs s' q = Some (Conn b)"
    using that p(8) [of q b] p(10) [of Active] p(6) [of Active] p(12) [of q b] by auto
qed

lemma step_close_listener:
  assumes "tcp_listen_closed p s = Some s1" "tcp_pcb_remove app Listening p s1 = Some s2" "tcp_free_listen p s2 = Some s3"
    and lst: "cbs s p = Some (Lst x)"
  shows "app_step s s3"
proof -
  note c = listen_closed_post [OF assms(1)]
  have x: "cbs s1 p = Some (Lst x)" using c(3) lst by blast
  have s3: "s3 = (upd_list Listening (remove1 p) s1)\<lparr>cbs := (cbs s1)(p := None)\<rparr>"
    using assms(2,3) x
    by (auto simp: tcp_pcb_remove_def tcp_free_listen_def TCP_RMV_def put_lpcb_def get_lpcb_def elim!: bind_eq_SomeE split: if_splits)
  have "pcbs_ok s3" if "pcbs_ok s1"
  proof (rule pcbs_okI)
    note d = pcbs_okD [OF that]
    have t: "the_list l s3 = (if l = Listening then remove1 p (the_list l s1) else the_list l s1)" for l
      by (simp add: s3 the_list_upd del: the_list.simps upd_list.simps)
    have nin: "p \<notin> set (the_list l s3)" for l
      using d(1) [of Listening] d(2) [of p l] x by (cases l) (auto simp: t simp del: the_list.simps)
    have sub: "q \<in> set (the_list l s3) \<Longrightarrow> q \<in> set (the_list l s1)" for q l
      by (auto simp: t simp del: the_list.simps split: if_splits dest: set_remove1_subset [THEN subsetD])
    show "distinct (the_list l s3)" for l using d(1) [of l] d(1) [of Listening] by (simp add: t del: the_list.simps)
    show "\<exists>c. cbs s3 q = Some c \<and> list_ok l c" if "q \<in> set (the_list l s3)" for l q
      using d(2) [OF sub [OF that]] nin [of l] that by (auto simp: s3)
    show "q \<in> set (tcp_listen_pcbs s3)" if "cbs s3 q = Some (Lst y)" for q y
      using d(3) [of q y] that by (auto simp: s3 split: if_splits)
    show "lp \<in> set (tcp_listen_pcbs s3)" if "q \<in> set (tcp_active_pcbs s3)"
      "cbs s3 q = Some (Conn b)" "state b = SYN_RCVD" "listener b = Some lp" for q b lp
      using d(4) [of q b lp] c(4) [of q b] that by (auto simp: s3 split: if_splits)
    show "tcpip_tcp_timer_active s3" if "tcp_active_pcbs s3 \<noteq> [] \<or> tcp_tw_pcbs s3 \<noteq> []"
      using d(5) that by (simp add: s3)
  qed
  moreover have "tcp_input_pcb s3 = tcp_input_pcb s1" "st_in s3 = st_in s1" by (simp_all add: s3)
  ultimately show ?thesis using c(1) by (simp add: app_step_def)
qed

end
