(* ===== verification/Tcp_app.thy ===== *)
theory Tcp_app imports Tcp_inv begin

text \<open>
  The operations of the application keep the invariant of the control blocks. The application
  is an interface: a locale states what its callbacks and the allocators promise, and the operations
  are shown to keep the invariant under these laws.
\<close>

section \<open>The interface\<close>

text \<open>The block of a connection whose handshake has begun on the other side's account.\<close>

definition live :: "'w tcp_st \<Rightarrow> nat \<Rightarrow> bool" where
  "live s p \<longleftrightarrow> (\<exists>b. get_pcb s p = Some b \<and> conn_state (state b) \<and> state b \<noteq> SYN_SENT)"

definition live_or_opening :: "'w tcp_st \<Rightarrow> nat \<Rightarrow> bool" where
  "live_or_opening s p \<longleftrightarrow> (\<exists>b. get_pcb s p = Some b \<and> conn_state (state b))"

text \<open>A block in TIME-WAIT that has not been marked for deletion.\<close>

definition resting :: "'w tcp_st \<Rightarrow> nat \<Rightarrow> bool" where
  "resting s p \<longleftrightarrow> (\<exists>b. get_pcb s p = Some b \<and> state b = TIME_WAIT \<and> \<not> has (recv_flags (st_in s)) TF_CLOSED)"

text \<open>No callback brings a block into TIME-WAIT or makes a connection's block a listening one.\<close>

definition kind_kept :: "'w tcp_st \<Rightarrow> nat \<Rightarrow> 'w tcp_st \<Rightarrow> bool" where
  "kind_kept s p s' \<longleftrightarrow> (\<forall>b'. get_pcb s' p = Some b' \<and> state b' \<in> {TIME_WAIT, LISTEN} \<longrightarrow>
     (\<exists>b. get_pcb s p = Some b \<and> state b = state b'))"

text \<open>A callback for a connection that is being served by the input processing leaves it alone or
  closes it; only when it returns \<^verbatim>\<open>ERR_ABRT\<close> may it have freed it.\<close>

definition cb_ok :: "'w tcp_st \<Rightarrow> nat \<Rightarrow> 'w tcp_st \<Rightarrow> err_t \<Rightarrow> bool" where
  "cb_ok s p s' r \<longleftrightarrow> app_step s s' \<and>
     (r \<noteq> ERR_ABRT \<longrightarrow> kind_kept s p s' \<and>
       (tcp_input_pcb s = Some p \<longrightarrow> (live s p \<longrightarrow> live s' p) \<and> (resting s p \<longrightarrow> resting s' p)))"

definition errf_of :: "'w tcp_st \<Rightarrow> nat \<Rightarrow> nat \<Rightarrow> nat \<Rightarrow> bool" where
  "errf_of s p f arg \<longleftrightarrow> (\<exists>b. get_pcb s p = Some b \<and> cb_errf b = Some f \<and> callback_arg b = arg)"

locale tcp_application =
  fixes app :: "'w tcp_app"
  assumes pcb_fresh: "pcbs_ok s \<Longrightarrow> ap_pcb_alloc app s = (w, Some p) \<Longrightarrow> cbs s p = None"
    and lpcb_fresh: "pcbs_ok s \<Longrightarrow> ap_lpcb_alloc app s = (w, Some p) \<Longrightarrow> cbs s p = None"
    and recv_ok: "ap_recv app f arg p d err s = Some (s', r) \<Longrightarrow> cb_ok s p s' r"
    and sent_ok: "ap_sent app f arg p n s = Some (s', r) \<Longrightarrow> cb_ok s p s' r"
    and accept_ok: "ap_accept app f arg (Some p) err s = Some (s', r) \<Longrightarrow> cb_ok s p s' r"
    and accept_none_ok: "ap_accept app f arg None err s = Some (s', r) \<Longrightarrow> app_step s s'"
    and connected_ok: "ap_connected app f arg p err s = Some (s', r) \<Longrightarrow> cb_ok s p s' r"
    and poll_ok: "ap_poll app f arg p s = Some (s', r) \<Longrightarrow> cb_ok s p s' r"
    and err_ok: "ap_err app f arg err s = Some s' \<Longrightarrow> app_step s s'"
    and err_live: "ap_err app f arg err s = Some s' \<Longrightarrow> err \<noteq> ERR_ABRT \<Longrightarrow> errf_of s p f arg \<Longrightarrow>
      live_or_opening s p \<Longrightarrow> live_or_opening s' p"

declare upd_list.simps [simp del]

section \<open>Closing\<close>

lemma step_free: "(pcbs_ok s \<Longrightarrow> \<not> listed s p) \<Longrightarrow> tcp_free p s = Some s' \<Longrightarrow> app_step s s'"
  using step_free_unlisted [of s p s'] by (auto simp: tcp_free_def app_step_def elim!: bind_eq_SomeE)

lemma unlisted_rmv:
  "pcbs_ok s \<Longrightarrow> get_pcb s p = Some b \<Longrightarrow> (\<And>l'. list_ok l' (Conn b) \<Longrightarrow> l' = l) \<Longrightarrow> \<not> listed (TCP_RMV l p s) p"
  unfolding TCP_RMV_def get_pcb_iff by (rule unlisted_remove)

lemma get_rmv [simp]: "get_pcb (TCP_RMV l p s) q = get_pcb s q" "get_pcb (TCP_RMV_ACTIVE p s) q = get_pcb s q"
  "tcp_input_pcb (TCP_RMV l p s) = tcp_input_pcb s" "tcp_input_pcb (TCP_RMV_ACTIVE p s) = tcp_input_pcb s"
  by (simp_all add: TCP_RMV_def TCP_RMV_ACTIVE_def)

lemma live_put: "live (put_pcb p b s) q = (if q = p then conn_state (state b) \<and> state b \<noteq> SYN_SENT else live s q)"
  by (simp add: live_def)

lemma keeps_conn: "conn_keeps b a \<Longrightarrow> conn_state (state a) \<Longrightarrow> conn_state (state b)"
  and keeps_syn_sent: "conn_keeps b a \<Longrightarrow> state b = SYN_SENT \<longleftrightarrow> state a = SYN_SENT"
  by (auto simp: conn_keeps_def conn_state_def)

lemma st_output_keeps:
  assumes "st_output app p s = Some (s', err)"
  obtains a b w where "get_pcb s p = Some a" "conn_keeps b a" "s' = put_pcb p b (s\<lparr>st_w := w\<rparr>)"
  using assms by (auto simp: st_output_def elim!: bind_eq_SomeE dest!: keeps_tcp_output)

lemma live_output: "st_output app q s = Some (s', err) \<Longrightarrow> live s p \<Longrightarrow> live s' p"
  by (erule st_output_keeps) (use keeps_conn keeps_syn_sent in \<open>fastforce simp: live_def split: if_splits\<close>)

lemma live_fields [simp]: "live (s\<lparr>st_w := w\<rparr>) p = live s p" "live (s\<lparr>st_in := i\<rparr>) p = live s p"
  "live (TCP_RMV l q s) p = live s p" "live (TCP_RMV_ACTIVE q s) p = live s p" "live (st_rst app b n s) p = live s p"
  by (simp_all add: live_def st_rst_def)

lemma fin_state_live: "fin_state st = Some st' \<Longrightarrow> conn_state st \<and> st \<noteq> SYN_SENT \<and> conn_state st' \<and> st' \<noteq> SYN_SENT \<and> st' \<noteq> SYN_RCVD"
  by (cases st) (auto simp: conn_state_def)

lemma close_shutdown_fin_ok:
  assumes "tcp_close_shutdown_fin app p s = Some (s', r)"
  shows "app_step s s'" "live s q \<Longrightarrow> live s' q"
proof -
  have "app_step s s' \<and> (live s q \<longrightarrow> live s' q)"
  proof (cases "map_option state (get_pcb s p)")
    case None
    then show ?thesis using assms by (simp add: tcp_close_shutdown_fin_def)
  next
    case (Some st)
    then obtain b where b: "get_pcb s p = Some b" "state b = st" by auto
    show ?thesis
    proof (cases "fin_state st")
      case None
      then show ?thesis using assms b by (simp add: tcp_close_shutdown_fin_def)
    next
      case (Some st')
      note f = fin_state_live [OF Some]
      obtain w b1 err where k: "conn_keeps b1 b" and
        r: "(if err = ERR_OK then do {
               s \<leftarrow> upd_pcb (\<lambda>b. b\<lparr>state := st'\<rparr>) p (put_pcb p b1 (s\<lparr>st_w := w\<rparr>));
               (s, e) \<leftarrow> st_output app p s; Some (s, ERR_OK) }
             else if err = ERR_MEM then do {
               s \<leftarrow> upd_pcb (\<lambda>b. tcp_set_flags b TF_CLOSEPEND) p (put_pcb p b1 (s\<lparr>st_w := w\<rparr>));
               Some (s, ERR_OK) }
             else Some (put_pcb p b1 (s\<lparr>st_w := w\<rparr>), err)) = Some (s', r)"
        using assms b Some by (auto simp: tcp_close_shutdown_fin_def st_send_fin_def elim!: bind_eq_SomeE dest!: keeps_tcp_send_fin)
      have s1: "app_step s (put_pcb p c (s\<lparr>st_w := w\<rparr>))" if "slot_ok c b" for c
        using step_put [of "s\<lparr>st_w := w\<rparr>" p b c] b that by simp
      have st: "slot_ok (b1\<lparr>state := st'\<rparr>) b" using k f b by (auto simp: slot_ok_def conn_keeps_def list_ok_iff conn_state_def)
      have "slot_ok (tcp_set_flags b1 TF_CLOSEPEND) b" using k by (simp add: slot_keeps)
      then show ?thesis using r s1 st slot_keeps [OF k] f b(2) keeps_conn [OF k] keeps_syn_sent [OF k]
        by (auto simp: upd_pcb_def live_put tcp_set_flags_def intro: app_step_trans [OF _ step_output] split: if_splits
            elim!: bind_eq_SomeE elim: live_output)
    qed
  qed
  then show "app_step s s'" "live s q \<Longrightarrow> live s' q" by simp_all
qed

lemma step_rmv_free:
  assumes "get_pcb s p = Some b" "\<And>l'. list_ok l' (Conn b) \<Longrightarrow> l' = l" "l \<noteq> Listening"
    "tcp_free p (TCP_RMV l p s) = Some s'"
  shows "app_step s s'"
proof (cases "pcbs_ok s")
  case True
  then show ?thesis
    using unlisted_rmv [OF True assms(1,2)] assms(4) by (auto intro: app_step_trans [OF step_remove [OF assms(3)] step_free])
next
  case False
  then show ?thesis using assms(4) by (auto simp: app_step_def tcp_free_def TCP_RMV_def elim!: bind_eq_SomeE)
qed

lemma step_rmv_active_free:
  assumes "get_pcb s p = Some b" "conn_state (state b)" "tcp_free p (TCP_RMV_ACTIVE p s) = Some s'"
  shows "app_step s s'"
proof -
  have "tcp_free p (TCP_RMV Active p s) = Some (s'\<lparr>tcp_active_pcbs_changed := tcp_active_pcbs_changed s\<rparr>)"
    using assms(3) by (auto simp: tcp_free_def TCP_RMV_ACTIVE_def TCP_RMV_def get_pcb_def upd_list.simps bind_eq_Some_conv)
  from step_rmv_free [OF assms(1) _ _ this] show ?thesis
    using assms(2) by (auto simp: list_ok_iff conn_state_def)
qed

text \<open>\<^verbatim>\<open>tcp_close_shutdown\<close>, case by case.\<close>

lemma close_with_rst_ok:
  assumes b: "get_pcb s p = Some b" "conn_state (state b)"
    and "upd_pcb tcp_pcb_purge p (st_rst app b lport s) = Some s1"
    and r: "(if tcp_input_pcb (TCP_RMV_ACTIVE p s1) = Some p then Some (tcp_trigger_input_pcb_close (TCP_RMV_ACTIVE p s1), ERR_OK)
        else do { s \<leftarrow> tcp_free p (TCP_RMV_ACTIVE p s1); Some (s, ERR_OK) }) = Some (s', r)"
  shows "app_step s s'" "tcp_input_pcb s = Some p \<Longrightarrow> live s q \<Longrightarrow> live s' q"
proof -
  have s1: "s1 = put_pcb p (tcp_pcb_purge b) (st_rst app b lport s)"
    using assms(3) b(1) by (auto simp: upd_pcb_def st_rst_def elim!: bind_eq_SomeE)
  have st: "app_step s s1" by (rule app_step_trans [OF step_rst step_upd_keeps [OF assms(3)]]) simp
  have k: "conn_keeps (tcp_pcb_purge b) b" by simp
  have i: "tcp_input_pcb s1 = tcp_input_pcb s" by (simp add: s1 st_rst_def)
  note t = app_step_trans [OF st step_remove_active [of s1 p]]
  show "app_step s s'"
  proof (cases "tcp_input_pcb s = Some p")
    case True
    then show ?thesis using r t i by (auto simp: tcp_trigger_input_pcb_close_def app_step_def)
  next
    case False
    have "get_pcb s1 p = Some (tcp_pcb_purge b)" using s1 by simp
    moreover have "conn_state (state (tcp_pcb_purge b))" using keeps_conn [OF k] b by simp
    ultimately show ?thesis using r i False
      by (auto elim!: bind_eq_SomeE intro!: app_step_trans [OF st step_rmv_active_free])
  qed
  show "live s' q" if "tcp_input_pcb s = Some p" "live s q"
    using that r i b s1 keeps_conn [OF k] keeps_syn_sent [OF k]
    by (auto simp: tcp_trigger_input_pcb_close_def live_put) (auto simp: live_def st_rst_def)
qed

lemma close_bound_ok:
  assumes b: "get_pcb s p = Some b" "state b = CLOSED"
    and f: "tcp_free p (if local_port b \<noteq> 0 then TCP_RMV Bound p s else s) = Some s'"
  shows "app_step s s'"
proof (cases "local_port b = 0")
  case True
  then have "\<not> listed s p" if "pcbs_ok s"
    using that b by (intro unlisted_state [of s p "Conn b"]) (auto simp: get_pcb_iff list_ok_iff conn_state_def)
  then show ?thesis using f True by (auto intro: step_free)
next
  case False
  then show ?thesis
    using f b by (intro step_rmv_free [of s p b Bound]) (auto simp: list_ok_iff conn_state_def)
qed

lemma close_shutdown_ok:
  assumes "tcp_close_shutdown app p rst s = Some (s', r)"
  shows "app_step s s'" "tcp_input_pcb s = Some p \<Longrightarrow> live s p \<Longrightarrow> live s' p"
proof -
  have "app_step s s' \<and> (tcp_input_pcb s = Some p \<and> live s p \<longrightarrow> live s' p)"
  proof (cases "cbs s p")
    case None
    then show ?thesis using assms by (simp add: tcp_close_shutdown_def)
  next
    case (Some c)
    show ?thesis
    proof (cases c)
      case (Lst x)
      then have "app_step s s'"
        using assms Some by (auto simp: tcp_close_shutdown_def elim!: bind_eq_SomeE intro: step_close_listener)
      then show ?thesis using Some Lst by (simp add: live_def get_pcb_iff)
    next
      case (Conn b)
      have b: "get_pcb s p = Some b" using Some Conn by (simp add: get_pcb_iff)
      consider (rst) s1 where "conn_state (state b)" "upd_pcb tcp_pcb_purge p (st_rst app b (local_port b) s) = Some s1"
          "(if tcp_input_pcb (TCP_RMV_ACTIVE p s1) = Some p then Some (tcp_trigger_input_pcb_close (TCP_RMV_ACTIVE p s1), ERR_OK)
            else do { s \<leftarrow> tcp_free p (TCP_RMV_ACTIVE p s1); Some (s, ERR_OK) }) = Some (s', r)"
        | (bound) "state b = CLOSED" "tcp_free p (if local_port b \<noteq> 0 then TCP_RMV Bound p s else s) = Some s'"
        | (syn) s1 where "state b = SYN_SENT" "tcp_pcb_remove app Active p s = Some s1" "tcp_free p (s1\<lparr>tcp_active_pcbs_changed := True\<rparr>) = Some s'"
        | (fin) "tcp_close_shutdown_fin app p s = Some (s', r)"
        using assms Some Conn
        by (auto simp: tcp_close_shutdown_def PCB_REMOVE_ACTIVE_iff conn_state_def Let_def split: if_splits elim!: bind_eq_SomeE)
      then show ?thesis
      proof cases
        case rst
        then show ?thesis using close_with_rst_ok [OF b] by blast
      next
        case bound
        then show ?thesis using close_bound_ok [OF b] b by (auto simp: live_def conn_state_def)
      next
        case syn
        have c: "conn_state (state b)" using syn by (simp add: conn_state_def)
        have h: "home Active p s" using home_conn(1) b c by blast
        have "app_step s (s1\<lparr>tcp_active_pcbs_changed := True\<rparr>)" "pcbs_ok s \<Longrightarrow> \<not> listed s1 p"
          using step_pcb_remove [OF syn(2) h] by auto
        then have "app_step s s'"
          using syn(3) step_free [of "s1\<lparr>tcp_active_pcbs_changed := True\<rparr>" p s']
          by (cases "pcbs_ok s") (auto intro: app_step_trans simp: app_step_def tcp_free_def elim!: bind_eq_SomeE)
        then show ?thesis using syn b by (simp add: live_def)
      next
        case fin
        then show ?thesis using close_shutdown_fin_ok by blast
      qed
    qed
  qed
  then show "app_step s s'" "tcp_input_pcb s = Some p \<Longrightarrow> live s p \<Longrightarrow> live s' p" by simp_all
qed

lemma live_upd_keeps: "upd_pcb f q s = Some s' \<Longrightarrow> (\<And>a. conn_keeps (f a) a) \<Longrightarrow> live s p \<Longrightarrow> live s' p"
  using keeps_conn keeps_syn_sent by (fastforce simp: upd_pcb_def live_def split: if_splits elim!: bind_eq_SomeE)

lemma step_upd_simple:
  "upd_pcb (\<lambda>b. tcp_set_flags b f) p s = Some s' \<Longrightarrow> app_step s s'"
  "upd_pcb (refused_data_update g) p s = Some s' \<Longrightarrow> app_step s s'"
  "upd_pcb tcp_pcb_purge p s = Some s' \<Longrightarrow> app_step s s'"
  "upd_pcb tcp_ack_now p s = Some s' \<Longrightarrow> app_step s s'"
  "upd_pcb (\<lambda>b. tcp_clear_flags b f) p s = Some s' \<Longrightarrow> app_step s s'"
  by (erule step_upd_keeps, simp add: conn_keeps_def tcp_set_flags_def tcp_clear_flags_def tcp_ack_now_def
      tcp_pcb_purge_def tcp_free_ooseq_def)+

lemma tcp_close_ok:
  assumes "tcp_close app p s = Some (s', r)"
  shows "app_step s s'" "tcp_input_pcb s = Some p \<Longrightarrow> live s p \<Longrightarrow> live s' p"
proof -
  obtain c s1 where s1: "(if cb_state c \<noteq> LISTEN then upd_pcb (\<lambda>b. tcp_set_flags b TF_RXCLOSED) p s else Some s) = Some s1"
      and r: "tcp_close_shutdown app p True s1 = Some (s', r)"
    using assms unfolding tcp_close_def by (elim bind_eq_SomeE) (rule that; assumption)
  have a: "app_step s s1" using s1 by (auto split: if_splits intro: step_upd_simple)
  show "app_step s s'" using a close_shutdown_ok(1) [OF r] by (rule app_step_trans)
  have "live s p \<Longrightarrow> live s1 p" using s1 by (auto split: if_splits intro: live_upd_keeps)
  then show "live s' p" if "tcp_input_pcb s = Some p" "live s p"
    using close_shutdown_ok(2) [OF r] a that by (simp add: app_step_def)
qed

lemma resting_output: "st_output app q s = Some (s', err) \<Longrightarrow> resting s p \<Longrightarrow> resting s' p"
  by (erule st_output_keeps) (auto simp: resting_def conn_keeps_def)

lemma tcp_close_resting:
  assumes "tcp_close app p s = Some (s', r)" "resting s p" shows "resting s' p"
proof -
  obtain b where b: "get_pcb s p = Some b" "state b = TIME_WAIT" "\<not> has (recv_flags (st_in s)) TF_CLOSED"
    using assms(2) by (auto simp: resting_def)
  define b1 where "b1 = tcp_set_flags b TF_RXCLOSED"
  have b1: "state b1 = TIME_WAIT" using b(2) by (simp add: b1_def tcp_set_flags_def)
  have "tcp_close_shutdown app p True (put_pcb p b1 s) = Some (s', r)"
    using assms(1) b get_pcb_iff [THEN iffD1, OF b(1)] by (simp add: tcp_close_def upd_pcb_def b1_def)
  then have "s' = put_pcb p b1 s"
    using b1 by (simp add: tcp_close_shutdown_def tcp_close_shutdown_fin_def)
  then show ?thesis using b1 b(3) by (simp add: resting_def)
qed

lemma tcp_shutdown_ok:
  assumes "tcp_shutdown app p rx tx s = Some (s', r)" shows "app_step s s'"
  using assms
  by (auto simp: tcp_shutdown_def split: if_splits elim!: bind_eq_SomeE dest!: step_upd_simple close_shutdown_ok(1))
    (blast intro: app_step_trans)+

section \<open>Aborting and allocation\<close>

lemma abandon_gone:
  assumes b: "get_pcb s p = Some b" and "conn_state (state b)" and r: "TCP_PCB_REMOVE_ACTIVE app p s = Some s1"
  shows "app_step s s1 \<and> (pcbs_ok s \<longrightarrow> \<not> listed s1 p)"
proof -
  obtain s0 where "tcp_pcb_remove app Active p s = Some s0" "s1 = s0\<lparr>tcp_active_pcbs_changed := True\<rparr>"
    using r by (auto simp: PCB_REMOVE_ACTIVE_iff)
  then show ?thesis using step_pcb_remove [OF _ home_conn(1) [OF b assms(2)]] by auto
qed

lemma abandon_closed:
  assumes "get_pcb s p = Some b" "state b = CLOSED"
  shows "app_step s (if local_port b \<noteq> 0 then TCP_RMV Bound p s else s)"
    "pcbs_ok s \<Longrightarrow> \<not> listed (if local_port b \<noteq> 0 then TCP_RMV Bound p s else s) p"
proof -
  show "app_step s (if local_port b \<noteq> 0 then TCP_RMV Bound p s else s)" by (simp add: step_remove)
  show "\<not> listed (if local_port b \<noteq> 0 then TCP_RMV Bound p s else s) p" if ok: "pcbs_ok s"
    using unlisted_rmv [OF ok assms(1), of Bound] unlisted_state [OF ok, of p "Conn b"] assms
    by (auto simp: list_ok_iff conn_state_def get_pcb_iff)
qed

section \<open>Opening\<close>

text \<open>A block that leaves no trace in the lists may become any connection block.\<close>

lemma step_put_unlisted: "(pcbs_ok s \<Longrightarrow> \<not> listed s p) \<Longrightarrow> app_step s (put_pcb p b s)"
  by (auto simp: app_step_def intro: put_unlisted)

lemma step_reg:
  assumes "get_pcb s p = Some b" "list_ok l (Conn b)" "TCP_REG app l p s = Some s'"
    and "l = Active \<Longrightarrow> state b = SYN_RCVD \<Longrightarrow> listener b = None"
  shows "app_step s s'"
proof -
  have "tcp_input_pcb s' = tcp_input_pcb s" "st_in s' = st_in s"
    using assms(3) by (auto simp: TCP_REG_def tcp_timer_needed_def split: if_splits)
  then show ?thesis using reg_ok [OF _ _ assms(2,3)] assms(1,4) by (auto simp: app_step_def get_pcb_iff)
qed

lemma tcp_new_port_ok: "tcp_new_port s = Some (s', n) \<Longrightarrow> app_step s s' \<and> cbs s' = cbs s \<and> (\<forall>l. the_list l s' = the_list l s)"
  by (auto simp: tcp_new_port_def Let_def elim!: bind_eq_SomeE split: prod.splits)

lemma bind_port_ok:
  "bind_port b a n s = Some (s', r) \<Longrightarrow> app_step s s' \<and> cbs s' = cbs s \<and> (\<forall>l. the_list l s' = the_list l s) \<and> r \<noteq> Inr 0"
  by (auto simp: bind_port_def Let_def split: if_splits elim!: bind_eq_SomeE dest!: tcp_new_port_ok)

lemma tcp_bind_ok:
  assumes "tcp_bind app p a n s = Some (s', r)" shows "app_step s s'"
proof -
  obtain b ip s1 c where b: "get_pcb s p = Some b" "state b = CLOSED" and q: "bind_port b ip n s = Some (s1, c)"
    and r: "(case c of Inl err \<Rightarrow> Some (s1, err)
      | Inr port \<Rightarrow> do { s \<leftarrow> TCP_REG app Bound p (put_pcb p (bind_pcb ip port b) s1); Some (s, ERR_OK) }) = Some (s', r)"
    using assms unfolding tcp_bind_def Let_def by (auto elim!: bind_eq_SomeE)
  note q = bind_port_ok [OF q]
  show ?thesis
  proof (cases c)
    case (Inl err)
    then show ?thesis using r q by simp
  next
    case (Inr port)
    then obtain reg: "TCP_REG app Bound p (put_pcb p (bind_pcb ip port b) s1) = Some s'"
      using r by (auto elim!: bind_eq_SomeE)
    have b': "state (bind_pcb ip port b) = CLOSED" "local_port (bind_pcb ip port b) \<noteq> 0"
      using b q Inr by (auto simp: bind_pcb_def)
    have "app_step s1 (put_pcb p (bind_pcb ip port b) s1)"
      using b b' q by (intro step_put [of _ _ b]) (auto simp: slot_ok_def list_ok_iff conn_state_def get_pcb_def)
    then show ?thesis using q step_reg [OF _ _ reg, of "bind_pcb ip port b"] b' by (auto intro: app_step_trans)
  qed
qed

lemma connect_port_ok:
  assumes "connect_port p b a n s = Some (s', r)" "get_pcb s p = Some b" "state b = CLOSED"
  shows "app_step s s'" "\<exists>b'. get_pcb s' p = Some b' \<and> state b' = CLOSED" "local_port b = 0 \<Longrightarrow> pcbs_ok s \<Longrightarrow> \<not> listed s' p"
proof -
  have un: "\<not> listed s p" if "pcbs_ok s" "local_port b = 0"
    using unlisted_state [OF that(1), of p "Conn b"] assms(2,3) that(2) by (auto simp: get_pcb_iff list_ok_iff conn_state_def)
  have "app_step s s' \<and> (\<exists>b'. get_pcb s' p = Some b' \<and> state b' = CLOSED) \<and> (local_port b = 0 \<longrightarrow> pcbs_ok s \<longrightarrow> \<not> listed s' p)"
  proof (cases "local_port b = 0")
    case True
    then obtain s1 lp where n: "tcp_new_port s = Some (s1, lp)" and s': "s' = put_pcb p (b\<lparr>local_port := lp\<rparr>) s1"
      using assms(1) by (auto simp: connect_port_def elim!: bind_eq_SomeE)
    have l: "listed s1 p = listed s p" using tcp_new_port_ok [OF n] by (simp add: listed_def)
    have "pcbs_ok s'" if "pcbs_ok s"
      using that un True tcp_new_port_ok [OF n] l unfolding s' by (intro put_unlisted) (auto simp: app_step_def)
    then have "app_step s s'" using tcp_new_port_ok [OF n] s' by (auto simp: app_step_def)
    then show ?thesis using s' un l assms(3) True by simp
  next
    case False
    then show ?thesis using assms by (auto simp: connect_port_def split: if_splits elim!: bind_eq_SomeE)
  qed
  then show "app_step s s'" "\<exists>b'. get_pcb s' p = Some b' \<and> state b' = CLOSED" "local_port b = 0 \<Longrightarrow> pcbs_ok s \<Longrightarrow> \<not> listed s' p"
    by simp_all
qed

lemma connect_syn_ok:
  assumes "connect_syn app p n old m s = Some (s', r)" "get_pcb s p = Some b" "state b = CLOSED"
    and un: "old = 0 \<Longrightarrow> pcbs_ok s \<Longrightarrow> \<not> listed s p"
  shows "app_step s s'"
proof -
  obtain w b1 ret iss mss where k: "conn_keeps b1 (connect_init iss mss m b)" and
    r: "(if ret = ERR_OK then do {
        s \<leftarrow> TCP_REG_ACTIVE app p
          (if old \<noteq> 0 then TCP_RMV Bound p (put_pcb p (b1\<lparr>state := SYN_SENT\<rparr>) (s\<lparr>tcp_iss := iss, st_w := w\<rparr>))
           else put_pcb p (b1\<lparr>state := SYN_SENT\<rparr>) (s\<lparr>tcp_iss := iss, st_w := w\<rparr>));
        (s, err) \<leftarrow> st_output app p s;
        Some (s, ERR_OK) }
      else Some (put_pcb p b1 (s\<lparr>tcp_iss := iss, st_w := w\<rparr>), ret)) = Some (s', r)"
    using assms(1,2) unfolding connect_syn_def tcp_next_iss_def Let_def
    by (auto simp: get_pcb_def elim!: bind_eq_SomeE dest!: keeps_tcp_enqueue_flags)
  define t where "t = s\<lparr>tcp_iss := iss, st_w := w\<rparr>"
  have t: "app_step s t" "get_pcb t p = Some b" "listed t p = listed s p" "pcbs_ok t = pcbs_ok s"
    using assms(2) by (simp_all add: t_def get_pcb_def listed_def)
  show ?thesis
  proof (cases "ret = ERR_OK")
    case True
    define u where "u = (if old \<noteq> 0 then TCP_RMV Bound p t else t)"
    have c: "put_pcb p x u = (if old \<noteq> 0 then TCP_RMV Bound p (put_pcb p x t) else put_pcb p x t)" for x
      by (simp add: u_def TCP_RMV_def put_pcb_def upd_list.simps)
    have "app_step t u" by (simp add: u_def step_remove)
    moreover have "\<not> listed u p" if "pcbs_ok s"
      using that un t unlisted_rmv [of t p b Bound] assms(3) by (auto simp: u_def list_ok_iff conn_state_def)
    ultimately have "app_step s (put_pcb p (b1\<lparr>state := SYN_SENT\<rparr>) u)"
      using t(1) put_unlisted by (auto simp: app_step_def)
    moreover have "do { s \<leftarrow> TCP_REG_ACTIVE app p (put_pcb p (b1\<lparr>state := SYN_SENT\<rparr>) u); (s, err) \<leftarrow> st_output app p s; Some (s, ERR_OK) } =
        Some (s', r)"
      using r unfolding c if_P [OF True] by (simp only: t_def)
    then obtain s2 err where g: "TCP_REG app Active p (put_pcb p (b1\<lparr>state := SYN_SENT\<rparr>) u) = Some s2"
      and o: "st_output app p (s2\<lparr>tcp_active_pcbs_changed := True\<rparr>) = Some (s', err)"
      unfolding TCP_REG_ACTIVE_def by (elim bind_eq_SomeE) (auto elim!: bind_eq_SomeE)
    moreover have "app_step (put_pcb p (b1\<lparr>state := SYN_SENT\<rparr>) u) s2"
      using g by (intro step_reg [OF _ _ g, of "b1\<lparr>state := SYN_SENT\<rparr>"]) (simp_all add: conn_state_def)
    ultimately show ?thesis using step_output [OF o] by (simp add: app_step_def)
  next
    case False
    then have "s' = put_pcb p b1 t" using r by (simp add: t_def)
    moreover have "slot_ok b1 b"
    proof -
      have "state b1 = CLOSED" "local_port b1 = local_port b" using k assms(3) by (auto simp: conn_keeps_def connect_init_def)
      then show ?thesis using assms(3) by (auto simp: slot_ok_def list_ok_iff conn_state_def)
    qed
    ultimately show ?thesis using t by (auto intro: app_step_trans step_put)
  qed
qed

lemma connect_syn_frame:
  "connect_syn app p n old m s = Some (s', r) \<Longrightarrow> tcp_input_pcb s' = tcp_input_pcb s \<and> st_in s' = st_in s"
  unfolding connect_syn_def tcp_next_iss_def Let_def TCP_REG_ACTIVE_def TCP_REG_def tcp_timer_needed_def TCP_RMV_def st_output_def
  by (auto elim!: bind_eq_SomeE split: if_splits)

lemma tcp_connect_ok:
  assumes "tcp_connect app p a n m s = Some (s', r)" shows "app_step s s'"
proof -
  obtain b where b: "get_pcb s p = Some b" "state b = CLOSED"
    using assms unfolding tcp_connect_def by (auto elim!: bind_eq_SomeE simp: Let_def)
  define b1 where "b1 = b\<lparr>remote_ip := ip_addr_copy a, remote_port := n\<rparr>"
  have k: "conn_keeps b1 b" by (simp add: b1_def)
  have p1: "app_step s (put_pcb p b1 s)" using b(1) k by (rule step_put_keeps)
  consider (quiet) "s' = put_pcb p b1 s" | (go) x b2 s1 err where "conn_keeps b2 b" "connect_port p b2 a n (put_pcb p b2 s) = Some (s1, err)"
      "(if err = ERR_OK then connect_syn app p x (local_port b2) m s1 else Some (s1, err)) = Some (s', r)"
  proof -
    from assms b have "(case tcp_route (ap_env app) (Some b1) (local_ip b1) (remote_ip b1) (st_w s) of
        None \<Rightarrow> Some (put_pcb p b1 s, ERR_RTE)
      | Some n' \<Rightarrow>
          (case (if ip_addr_isany (local_ip b1) then ip_netif_get_local_ip (ap_env app) (st_w s) n' a else Some (local_ip b1)) of
             None \<Rightarrow> Some (put_pcb p b1 s, ERR_RTE)
           | Some i \<Rightarrow> do {
               let b = (if ip_addr_isany (local_ip b1) then b1\<lparr>local_ip := ip_addr_copy i\<rparr> else b1);
               (s, err) \<leftarrow> connect_port p b a n (put_pcb p b s);
               (if err = ERR_OK then connect_syn app p n' (local_port b) m s else Some (s, err)) })) = Some (s', r)"
      unfolding tcp_connect_def Let_def b1_def by simp
    then show ?thesis
      using quiet go [of "if ip_addr_isany (local_ip b1) then b1\<lparr>local_ip := ip_addr_copy i\<rparr> else b1" for i] k
      by (auto simp: Let_def split: option.splits if_splits elim!: bind_eq_SomeE)
  qed
  then show ?thesis
  proof cases
    case quiet
    then show ?thesis using p1 by simp
  next
    case go
    have c: "state b2 = CLOSED" using go(1) b(2) by (auto simp: conn_keeps_def)
    note q = connect_port_ok [OF go(2) _ c, simplified]
    have p2: "app_step s (put_pcb p b2 s)" using b(1) go(1) by (rule step_put_keeps)
    obtain b3 where b3: "get_pcb s1 p = Some b3" "state b3 = CLOSED" using q(2) by blast
    show ?thesis
    proof (cases "pcbs_ok s")
      case True
      then have "pcbs_ok (put_pcb p b2 s)" using p2 by (simp add: app_step_def)
      then have "app_step s1 s'"
        using go(3) connect_syn_ok [OF _ b3, of app _ "local_port b2" m s' r] q(3) by (auto split: if_splits)
      then show ?thesis using p2 q(1) by (blast intro: app_step_trans)
    next
      case False
      have "tcp_input_pcb s' = tcp_input_pcb s1 \<and> st_in s' = st_in s1"
        using go(3) by (auto split: if_splits dest: connect_syn_frame)
      then show ?thesis using False app_step_trans [OF p2 q(1)] by (auto simp: app_step_def)
    qed
  qed
qed

section \<open>Listening\<close>

lemma step_register_listener:
  assumes "pcbs_ok s \<Longrightarrow> cbs s lp = None" "l_state x = LISTEN" "TCP_REG app Listening lp (put_lpcb lp x s) = Some s'"
  shows "app_step s s'"
proof -
  have s': "s' = tcp_timer_needed app (upd_list Listening ((#) lp) (s\<lparr>cbs := (cbs s)(lp \<mapsto> Lst x)\<rparr>))"
    using assms(3) by (auto simp: TCP_REG_def put_lpcb_def upd_list.simps split: if_splits)
  have "pcbs_ok s'" if ok: "pcbs_ok s"
  proof (rule pcbs_okI)
    note d = pcbs_okD [OF ok]
    have nl: "lp \<notin> set (the_list l s)" for l using unlisted_fresh [OF ok assms(1) [OF ok]] by (auto simp: listed_def)
    have t: "the_list l s' = (if l = Listening then lp # the_list l s else the_list l s)" for l
      by (simp add: s' tcp_timer_needed_def the_list_upd del: the_list.simps)
    have c: "cbs s' = (cbs s)(lp \<mapsto> Lst x)" by (simp add: s' tcp_timer_needed_def)
    have a: "tcp_active_pcbs s' = tcp_active_pcbs s" "tcp_tw_pcbs s' = tcp_tw_pcbs s" "tcp_listen_pcbs s' = lp # tcp_listen_pcbs s"
      using t [of Active] t [of Tw] t [of Listening] by simp_all
    show "distinct (the_list l s')" for l using d(1) [of l] nl [of l] by (cases "l = Listening") (simp_all add: t del: the_list.simps)
    show "\<exists>c. cbs s' q = Some c \<and> list_ok l c" if "q \<in> set (the_list l s')" for l q
      using that d(2) [of q l] nl [of l] assms(2) by (auto simp: t c simp del: the_list.simps split: if_splits)
    show "q \<in> set (tcp_listen_pcbs s')" if "cbs s' q = Some (Lst y)" for q y
      using that d(3) [of q y] by (auto simp: c a split: if_splits)
    show "k \<in> set (tcp_listen_pcbs s')" if "q \<in> set (tcp_active_pcbs s')"
      "cbs s' q = Some (Conn b)" "state b = SYN_RCVD" "listener b = Some k" for q b k
      using that d(4) [of q b k] by (auto simp: c a split: if_splits)
    show "tcpip_tcp_timer_active s'" if "tcp_active_pcbs s' \<noteq> [] \<or> tcp_tw_pcbs s' \<noteq> []"
      using that by (auto simp: s' tcp_timer_needed_def upd_list.simps split: if_splits)
  qed
  moreover have "tcp_input_pcb s' = tcp_input_pcb s" "st_in s' = st_in s" by (simp_all add: s' tcp_timer_needed_def)
  ultimately show ?thesis by (simp add: app_step_def)
qed

section \<open>Data taken by the application, settings\<close>

lemma tcp_recved_ok:
  assumes "tcp_recved app p n s = Some s'" shows "app_step s s'" "live s q \<Longrightarrow> live s' q"
proof -
  obtain b b1 inf where b: "get_pcb s p = Some b" and w: "tcp_recved_window b n = (b1, inf)"
    and r: "(if inf \<ge> TCP_WND_UPDATE_THRESHOLD
      then do { (s, err) \<leftarrow> st_output app p (put_pcb p (tcp_ack_now b1) s); Some s }
      else Some (put_pcb p b1 s)) = Some s'"
    using assms unfolding tcp_recved_def by (auto elim!: bind_eq_SomeE simp: Let_def split: prod.splits)
  have k: "conn_keeps b1 b" "conn_keeps (tcp_ack_now b1) b" using keeps_tcp_recved_window [OF w] by simp_all
  note p = step_put_keeps [OF b k(1)] step_put_keeps [OF b k(2)]
  have l: "live (put_pcb p b1 s) q" "live (put_pcb p (tcp_ack_now b1) s) q" if "live s q"
    using that b k keeps_conn keeps_syn_sent by (auto simp: live_put live_def)
  show "app_step s s'" using r p by (auto split: if_splits elim!: bind_eq_SomeE intro: app_step_trans step_output)
  show "live s' q" if "live s q" using r l [OF that] by (auto split: if_splits elim!: bind_eq_SomeE intro: live_output)
qed

lemma tcp_recved_resting:
  assumes "tcp_recved app p n s = Some s'" "resting s p" shows "resting s' p"
proof -
  obtain b b1 inf where b: "get_pcb s p = Some b" and w: "tcp_recved_window b n = (b1, inf)"
    and r: "(if inf \<ge> TCP_WND_UPDATE_THRESHOLD
      then do { (s, err) \<leftarrow> st_output app p (put_pcb p (tcp_ack_now b1) s); Some s }
      else Some (put_pcb p b1 s)) = Some s'"
    using assms unfolding tcp_recved_def by (auto elim!: bind_eq_SomeE simp: Let_def split: prod.splits)
  have "conn_keeps b1 b" using keeps_tcp_recved_window [OF w] .
  then have "state b1 = TIME_WAIT" "state (tcp_ack_now b1) = TIME_WAIT" "\<not> has (recv_flags (st_in s)) TF_CLOSED"
    using assms(2) b by (auto simp: conn_keeps_def resting_def tcp_ack_now_def tcp_set_flags_def)
  then show ?thesis
    using r resting_output [of app p "put_pcb p (tcp_ack_now b1) s" s' _ p]
    by (auto simp: resting_def split: if_splits elim!: bind_eq_SomeE)
qed

lemma kind_trans: "kind_kept s p s1 \<Longrightarrow> kind_kept s1 p s' \<Longrightarrow> kind_kept s p s'"
  by (fastforce simp: kind_kept_def)

lemma kind_refl [simp]: "kind_kept s p s"
  by (simp add: kind_kept_def)

lemma kind_put: "get_pcb s p = Some a \<Longrightarrow> state b \<notin> {TIME_WAIT, LISTEN} \<or> conn_keeps b a \<Longrightarrow>
    kind_kept s p (put_pcb p b (s\<lparr>st_w := w\<rparr>))"
  by (auto simp: kind_kept_def conn_keeps_def)

lemma kind_put' [intro]: "get_pcb s p = Some a \<Longrightarrow> conn_keeps b a \<Longrightarrow> kind_kept s p (put_pcb p b s)"
  by (auto simp: kind_kept_def conn_keeps_def)

lemma kind_output: "st_output app q s = Some (s', e) \<Longrightarrow> kind_kept s p s'"
  by (erule st_output_keeps) (auto simp: kind_kept_def conn_keeps_def split: if_splits)

lemma kind_upd: "upd_pcb f p s = Some s' \<Longrightarrow> (\<And>a. conn_keeps (f a) a) \<Longrightarrow> kind_kept s p s'"
  by (auto simp: upd_pcb_def elim!: bind_eq_SomeE)

lemma kind_gone: "get_pcb s' p = None \<Longrightarrow> kind_kept s p s'"
  by (simp add: kind_kept_def)

lemma get_freed: "tcp_free p s = Some s' \<Longrightarrow> get_pcb s' p = None"
  by (auto simp: tcp_free_def get_pcb_def elim!: bind_eq_SomeE)

lemma close_fin_kind:
  assumes "tcp_close_shutdown_fin app p s = Some (s', r)" shows "kind_kept s p s'"
proof -
  obtain b where b: "get_pcb s p = Some b"
    using assms by (auto simp: tcp_close_shutdown_fin_def elim!: bind_eq_SomeE)
  show ?thesis
  proof (cases "fin_state (state b)")
    case None
    then show ?thesis using assms b by (simp add: tcp_close_shutdown_fin_def)
  next
    case (Some st')
    have st: "st' \<notin> {TIME_WAIT, LISTEN}" using fin_state_live [OF Some] by (auto simp: conn_state_def)
    have out: "kind_kept s p s'" if "st_output app p (put_pcb p (b1\<lparr>state := st'\<rparr>) (s\<lparr>st_w := w\<rparr>)) = Some (s', e)" for w b1 e
      using kind_trans [OF kind_put [OF b] kind_output [OF that]] st by simp
    show ?thesis using assms b Some
      by (auto simp: tcp_close_shutdown_fin_def st_send_fin_def upd_pcb_def split: if_splits
          elim!: bind_eq_SomeE dest!: keeps_tcp_send_fin) (erule out | rule kind_put [OF b], simp)+
  qed
qed

lemma close_shutdown_kind:
  assumes "tcp_close_shutdown app p rst s = Some (s', r)" "get_pcb s p = Some b" shows "kind_kept s p s'"
proof -
  have k: "conn_keeps (tcp_pcb_purge b) b" by simp
  consider "tcp_close_shutdown_fin app p s = Some (s', r)" | "get_pcb s' p = None" | "get_pcb s' p = Some (tcp_pcb_purge b)"
    using assms get_pcb_iff [THEN iffD1, OF assms(2)]
    by (auto simp: tcp_close_shutdown_def tcp_trigger_input_pcb_close_def Let_def upd_pcb_def st_rst_def
        split: if_splits elim!: bind_eq_SomeE dest: get_freed)
  then show ?thesis
    by cases (use assms(2) k in \<open>auto simp: kind_kept_def conn_keeps_def dest: close_fin_kind [unfolded kind_kept_def]\<close>)
qed

lemma tcp_close_kind:
  assumes "tcp_close app p s = Some (s', r)" shows "kind_kept s p s'"
proof (cases "get_pcb s p")
  case None
  then have "get_pcb s' p = None" using assms
    by (auto simp: tcp_close_def tcp_close_shutdown_def get_pcb_def tcp_free_listen_def upd_pcb_def
        elim!: bind_eq_SomeE split: cblock.splits if_splits option.splits)
  then show ?thesis by (rule kind_gone)
next
  case (Some b)
  define b1 where "b1 = tcp_set_flags b TF_RXCLOSED"
  have r: "tcp_close_shutdown app p True (if state b \<noteq> LISTEN then put_pcb p b1 s else s) = Some (s', r)"
    using assms Some get_pcb_iff [THEN iffD1, OF Some] by (auto simp: tcp_close_def upd_pcb_def b1_def)
  have k: "kind_kept s p (if state b \<noteq> LISTEN then put_pcb p b1 s else s)" using Some by (auto simp: b1_def)
  have "\<exists>a. get_pcb (if state b \<noteq> LISTEN then put_pcb p b1 s else s) p = Some a" using Some by auto
  then show ?thesis using close_shutdown_kind [OF r] k by (blast intro: kind_trans)
qed

lemma tcp_recved_kind:
  assumes "tcp_recved app p n s = Some s'" shows "kind_kept s p s'"
proof -
  obtain b b1 inf where b: "get_pcb s p = Some b" and w: "tcp_recved_window b n = (b1, inf)"
    and r: "(if inf \<ge> TCP_WND_UPDATE_THRESHOLD
      then do { (s, err) \<leftarrow> st_output app p (put_pcb p (tcp_ack_now b1) s); Some s }
      else Some (put_pcb p b1 s)) = Some s'"
    using assms unfolding tcp_recved_def by (auto elim!: bind_eq_SomeE simp: Let_def split: prod.splits)
  have "conn_keeps b1 b" "conn_keeps (tcp_ack_now b1) b" using keeps_tcp_recved_window [OF w] by simp_all
  then have "kind_kept s p (put_pcb p b1 s)" "kind_kept s p (put_pcb p (tcp_ack_now b1) s)" using b by blast+
  then show ?thesis using r by (auto split: if_splits elim!: bind_eq_SomeE dest!: kind_output intro: kind_trans)
qed

lemma tcp_recv_null_ok: "tcp_recv_null app p d err s = Some (s', r) \<Longrightarrow> cb_ok s p s' r"
  using tcp_recved_ok tcp_recved_resting tcp_recved_kind tcp_close_ok tcp_close_resting tcp_close_kind
  by (fastforce simp: tcp_recv_null_def cb_ok_def split: option.splits if_splits elim!: bind_eq_SomeE)

text \<open>The setters change no state, port or listener.\<close>

lemma step_put_lpcb:
  assumes "cbs s p = Some (Lst x)" "l_state y = l_state x" shows "app_step s (put_lpcb p y s)"
proof -
  have "pcbs_ok (put_lpcb p y s)" if ok: "pcbs_ok s"
  proof (rule pcbs_okI)
    note d = pcbs_okD [OF ok]
    have t: "the_list l (put_lpcb p y s) = the_list l s" for l by (simp add: put_lpcb_def)
    show "distinct (the_list l (put_lpcb p y s))" for l using d(1) by (simp add: t)
    show "\<exists>c. cbs (put_lpcb p y s) q = Some c \<and> list_ok l c" if "q \<in> set (the_list l (put_lpcb p y s))" for l q
      using that d(2) [of q l] assms by (auto simp: t put_lpcb_def list_ok_iff)
    show "q \<in> set (tcp_listen_pcbs (put_lpcb p y s))" if "cbs (put_lpcb p y s) q = Some (Lst z)" for q z
      using that d(3) [of q] assms(1) by (auto simp: put_lpcb_def split: if_splits)
    show "k \<in> set (tcp_listen_pcbs (put_lpcb p y s))" if "q \<in> set (tcp_active_pcbs (put_lpcb p y s))"
      "cbs (put_lpcb p y s) q = Some (Conn b)" "state b = SYN_RCVD" "listener b = Some k" for q b k
      using that d(4) [of q b k] by (auto simp: put_lpcb_def split: if_splits)
    show "tcpip_tcp_timer_active (put_lpcb p y s)"
      if "tcp_active_pcbs (put_lpcb p y s) \<noteq> [] \<or> tcp_tw_pcbs (put_lpcb p y s) \<noteq> []"
      using that d(5) by (simp add: put_lpcb_def)
  qed
  then show ?thesis by (simp add: app_step_def put_lpcb_def)
qed

lemma setters_ok:
  "tcp_arg q n s = Some s' \<Longrightarrow> app_step s s'" "tcp_recv q f s = Some s' \<Longrightarrow> app_step s s'"
  "tcp_sent q f s = Some s' \<Longrightarrow> app_step s s'" "tcp_err q f s = Some s' \<Longrightarrow> app_step s s'"
  "tcp_poll p f iv s = Some s' \<Longrightarrow> app_step s s'" "tcp_accept q f s = Some s' \<Longrightarrow> app_step s s'"
  "tcp_setprio p pr s = Some s' \<Longrightarrow> app_step s s'" "tcp_bind_netif p nif s = Some s' \<Longrightarrow> app_step s s'"
  by (auto simp: tcp_arg_def tcp_recv_def tcp_sent_def tcp_err_def tcp_poll_def tcp_accept_def tcp_setprio_def
      tcp_bind_netif_def upd_nonlisten_def Let_def get_pcb_iff split: option.splits cblock.splits elim!: bind_eq_SomeE
      intro!: step_put_keeps step_put_lpcb intro: step_upd_keeps)

lemma listen_addr_loop_ok: "listen_addr_loop old new ps s = Some s' \<Longrightarrow> app_step s s'"
proof (induction ps arbitrary: s)
  case (Cons p ps)
  then obtain l where l: "cbs s p = Some (Lst l)" and r: "listen_addr_loop old new ps
       (if ip_addr_cmp (l_local_ip l) old then put_lpcb p (l\<lparr>l_local_ip := ip_addr_copy new\<rparr>) s else s) = Some s'"
    by (auto simp: get_lpcb_def elim!: bind_eq_SomeE split: option.splits cblock.splits)
  have "app_step s (if ip_addr_cmp (l_local_ip l) old then put_lpcb p (l\<lparr>l_local_ip := ip_addr_copy new\<rparr>) s else s)"
    using l by (auto intro: step_put_lpcb)
  then show ?case using Cons.IH [OF r] by (rule app_step_trans)
qed simp

context tcp_application begin

lemma event_err_step: "TCP_EVENT_ERR app errf arg err s = Some s' \<Longrightarrow> app_step s s'"
  by (auto simp: TCP_EVENT_ERR_def split: option.splits dest: err_ok)

lemma tcp_abandon_ok:
  assumes r: "tcp_abandon app p rst s = Some s'" shows "app_step s s'"
proof -
  obtain b where b: "get_pcb s p = Some b" and nl: "state b \<noteq> LISTEN" and
    "(if state b = TIME_WAIT then do { s \<leftarrow> tcp_pcb_remove app Tw p s; tcp_free p s }
      else do {
        s \<leftarrow> (if state b = CLOSED then Some (if local_port b \<noteq> 0 then TCP_RMV Bound p s else s)
              else TCP_PCB_REMOVE_ACTIVE app p s);
        s \<leftarrow> upd_pcb (\<lambda>b. b\<lparr>unacked := [], unsent := [], ooseq := []\<rparr>) p s;
        b' \<leftarrow> get_pcb s p;
        let s = (if rst \<and> state b \<noteq> CLOSED
                 then s\<lparr>st_w := tcp_rst (ap_env app) (Some b') (snd_nxt b) (rcv_nxt b) (local_ip b') (remote_ip b')
                          (local_port b) (remote_port b') (st_w s)\<rparr>
                 else s);
        s \<leftarrow> tcp_free p s;
        TCP_EVENT_ERR app (cb_errf b) (callback_arg b) ERR_ABRT s }) = Some s'" (is ?body)
    using r by (auto simp: tcp_abandon_def elim!: bind_eq_SomeE)
  show ?thesis
  proof (cases "state b = TIME_WAIT")
    case True
    then show ?thesis using \<open>?body\<close> home_conn(2) [OF b] by (auto elim!: bind_eq_SomeE intro: step_remove_free)
  next
    case False
    then obtain s1 s2 s3 w where s1: "(if state b = CLOSED then Some (if local_port b \<noteq> 0 then TCP_RMV Bound p s else s)
              else TCP_PCB_REMOVE_ACTIVE app p s) = Some s1"
        and s2: "upd_pcb (\<lambda>b. b\<lparr>unacked := [], unsent := [], ooseq := []\<rparr>) p s1 = Some s2"
        and s3: "tcp_free p (if rst \<and> state b \<noteq> CLOSED then s2\<lparr>st_w := w\<rparr> else s2) = Some s3"
        and e: "TCP_EVENT_ERR app (cb_errf b) (callback_arg b) ERR_ABRT s3 = Some s'"
      using \<open>?body\<close> unfolding if_not_P [OF False] Let_def by (elim bind_eq_SomeE) (rule that; assumption)
    have "app_step s s1 \<and> (pcbs_ok s \<longrightarrow> \<not> listed s1 p)"
      using s1 abandon_gone [OF b, of app s1] abandon_closed [OF b] False nl by (auto simp: conn_state_def split: if_splits)
    moreover have "app_step s1 s2" "listed s2 p = listed s1 p"
      using s2 by (auto intro: step_upd_keeps simp: listed_upd_pcb)
    ultimately have "app_step s s2" "pcbs_ok s \<Longrightarrow> \<not> listed s2 p" by (auto intro: app_step_trans)
    then have "app_step s s3"
      using step_free [OF _ s3] s3
      by (cases "pcbs_ok s")
        (auto simp: app_step_def tcp_free_def elim!: bind_eq_SomeE split: if_splits)
    then show ?thesis using event_err_step [OF e] by (rule app_step_trans)
  qed
qed

lemma tcp_abort_ok: "tcp_abort app p s = Some s' \<Longrightarrow> app_step s s'"
  by (simp add: tcp_abort_def tcp_abandon_ok)

lemma kills_ok:
  "tcp_kill_prio app pr s = Some s' \<Longrightarrow> app_step s s'" "tcp_kill_state app st s = Some s' \<Longrightarrow> app_step s s'"
  "tcp_kill_timewait app s = Some s' \<Longrightarrow> app_step s s'"
  by (auto simp: tcp_kill_prio_def tcp_kill_state_def tcp_kill_timewait_def Let_def split: if_splits option.splits
      elim!: bind_eq_SomeE intro: tcp_abort_ok tcp_abandon_ok)

lemma closepend_loop_ok: "closepend_loop app ps s = Some s' \<Longrightarrow> app_step s s'"
proof (induction ps arbitrary: s)
  case (Cons p ps)
  then obtain b s1 where b: "get_pcb s p = Some b" and r: "closepend_loop app ps s1 = Some s'"
    and s1: "(if has (flags b) TF_CLOSEPEND
           then do { (s, err) \<leftarrow> tcp_close_shutdown_fin app p (put_pcb p (tcp_clear_flags b TF_CLOSEPEND) s); Some s }
           else Some s) = Some s1"
    unfolding closepend_loop.simps by (elim bind_eq_SomeE) (rule that; assumption)
  have p: "app_step s (put_pcb p (tcp_clear_flags b TF_CLOSEPEND) s)" using b by (rule step_put_keeps) simp
  have "app_step s s1"
    using s1 by (auto split: if_splits elim!: bind_eq_SomeE intro: app_step_trans [OF p close_shutdown_fin_ok(1)])
  then show ?case using Cons.IH [OF r] by (rule app_step_trans)
qed simp

lemma alloc_tries_ok:
  assumes "alloc_tries app fs s = Some (s', r)" "\<forall>f\<in>set fs. \<forall>t t'. f t = Some t' \<longrightarrow> app_step t t'"
  shows "app_step s s'" "pcbs_ok s \<Longrightarrow> r = Some p \<Longrightarrow> cbs s' p = None"
proof -
  have "app_step s s' \<and> (pcbs_ok s \<longrightarrow> r = Some p \<longrightarrow> cbs s' p = None)"
    using assms
  proof (induction fs arbitrary: s)
    case Nil
    then show ?case using pcb_fresh by (auto simp: pcb_malloc_def split: prod.splits)
  next
    case (Cons f fs)
    obtain w q where m: "ap_pcb_alloc app s = (w, q)" by (cases "ap_pcb_alloc app s")
    show ?case
    proof (cases q)
      case None
      then obtain s1 where f: "f (s\<lparr>st_w := w\<rparr>) = Some s1" and r: "alloc_tries app fs s1 = Some (s', r)"
        using Cons.prems(1) m by (auto simp: pcb_malloc_def elim!: bind_eq_SomeE)
      have a: "app_step s s1" using Cons.prems(2) f by fastforce
      have "app_step s1 s' \<and> (pcbs_ok s1 \<longrightarrow> r = Some p \<longrightarrow> cbs s' p = None)"
        using Cons.IH [OF r] Cons.prems(2) by auto
      then show ?thesis using a by (auto simp: app_step_def)
    next
      case (Some a)
      then show ?thesis using Cons.prems(1) m pcb_fresh by (auto simp: pcb_malloc_def)
    qed
  qed
  then show "app_step s s'" "pcbs_ok s \<Longrightarrow> r = Some p \<Longrightarrow> cbs s' p = None" by simp_all
qed

lemma tcp_alloc_ok:
  assumes "tcp_alloc app pr s = Some (s', r)"
  shows "app_step s s'"
    "r = Some p \<Longrightarrow> get_pcb s' p = Some (new_pcb pr (tcp_ticks s') (tcp_timer_ctr s'))"
    "pcbs_ok s \<Longrightarrow> r = Some p \<Longrightarrow> \<not> listed s' p"
proof -
  obtain s1 where t: "alloc_tries app
        [\<lambda>s. do { s \<leftarrow> tcp_handle_closepend app s; tcp_kill_timewait app s },
         tcp_kill_state app LAST_ACK, tcp_kill_state app CLOSING, tcp_kill_prio app pr] s = Some (s1, r)"
      and s': "s' = (case r of Some p \<Rightarrow> put_pcb p (new_pcb pr (tcp_ticks s1) (tcp_timer_ctr s1)) s1 | None \<Rightarrow> s1)"
    using assms by (auto simp: tcp_alloc_def elim!: bind_eq_SomeE)
  have all: "\<forall>f\<in>set [\<lambda>s. do { s \<leftarrow> tcp_handle_closepend app s; tcp_kill_timewait app s },
         tcp_kill_state app LAST_ACK, tcp_kill_state app CLOSING, tcp_kill_prio app pr].
         \<forall>t t'. f t = Some t' \<longrightarrow> app_step t t'"
    by (auto simp: tcp_handle_closepend_def elim!: bind_eq_SomeE intro: app_step_trans [OF closepend_loop_ok] kills_ok)
  have a: "app_step s s1" "pcbs_ok s \<Longrightarrow> r = Some p \<Longrightarrow> cbs s1 p = None" for p
    using alloc_tries_ok [OF t all] by blast+
  have u: "\<not> listed s1 p" if "pcbs_ok s" "r = Some p" for p
    using that a unlisted_fresh by (auto simp: app_step_def)
  show "app_step s s'" using a(1) u s' put_unlisted by (auto simp: app_step_def split: option.splits)
  show "r = Some p \<Longrightarrow> get_pcb s' p = Some (new_pcb pr (tcp_ticks s') (tcp_timer_ctr s'))" using s' by simp
  show "pcbs_ok s \<Longrightarrow> r = Some p \<Longrightarrow> \<not> listed s' p" using u s' by simp
qed

lemma tcp_new_ok: "tcp_new app s = Some (s', r) \<Longrightarrow> app_step s s'"
  by (simp add: tcp_new_def tcp_alloc_ok(1))

lemma tcp_new_ip_type_ok:
  assumes "tcp_new_ip_type app ty s = Some (s', r)" shows "app_step s s'"
proof -
  obtain s1 where a: "tcp_alloc app TCP_PRIO_NORMAL s = Some (s1, r)"
    and u: "(case r of Some p \<Rightarrow> do {
          s \<leftarrow> upd_pcb (\<lambda>b. b\<lparr>local_ip := (local_ip b)\<lparr>ip_type := ty\<rparr>, remote_ip := (remote_ip b)\<lparr>ip_type := ty\<rparr>\<rparr>) p s1;
          Some (s, r) }
      | None \<Rightarrow> Some (s1, r)) = Some (s', r)"
    using assms by (auto simp: tcp_new_ip_type_def elim!: bind_eq_SomeE split: option.splits)
  from u have "app_step s1 s'" by (auto split: option.splits elim!: bind_eq_SomeE intro: step_upd_keeps)
  with tcp_alloc_ok(1) [OF a] show ?thesis by (rule app_step_trans)
qed

lemma tcp_listen_ok:
  assumes "tcp_listen_with_backlog_and_err app p s = Some (s', lp, r)" shows "app_step s s'"
proof -
  obtain b used where b: "get_pcb s p = Some b" "state b = CLOSED" and
    r: "(if used then Some (s, None, ERR_USE)
      else case ap_lpcb_alloc app s of
        (w, None) \<Rightarrow> Some (s\<lparr>st_w := w\<rparr>, None, ERR_MEM)
      | (w, Some lp) \<Rightarrow> do {
          let s = s\<lparr>st_w := w\<rparr>;
          s \<leftarrow> tcp_free p (if local_port b \<noteq> 0 then TCP_RMV Bound p s else s);
          s \<leftarrow> TCP_REG app Listening lp (put_lpcb lp (listen_pcb b) s);
          Some (s, Some lp, ERR_OK) }) = Some (s', lp, r)"
    using assms unfolding tcp_listen_with_backlog_and_err_def
    by (auto elim!: bind_eq_SomeE simp: get_pcb_iff)
  obtain w m where m: "ap_lpcb_alloc app s = (w, m)" by (cases "ap_lpcb_alloc app s")
  show ?thesis
  proof (cases "used \<or> m = None")
    case True
    then show ?thesis using r m by (auto split: if_splits)
  next
    case False
    then obtain q s1 where q: "m = Some q"
      and f: "tcp_free p (if local_port b \<noteq> 0 then TCP_RMV Bound p (s\<lparr>st_w := w\<rparr>) else s\<lparr>st_w := w\<rparr>) = Some s1"
      and g: "TCP_REG app Listening q (put_lpcb q (listen_pcb b) s1) = Some s'"
      using r m by (auto simp: Let_def elim!: bind_eq_SomeE)
    have "app_step (s\<lparr>st_w := w\<rparr>) s1" using close_bound_ok [OF _ b(2) f] b(1) by simp
    moreover have "cbs s1 q = None" if "pcbs_ok s"
      using lpcb_fresh [OF that] m q f by (auto simp: tcp_free_def TCP_RMV_def elim!: bind_eq_SomeE split: if_splits)
    moreover have "l_state (listen_pcb b) = LISTEN" by (simp add: listen_pcb_def)
    ultimately show ?thesis
      using step_register_listener [OF _ _ g] g
      by (cases "pcbs_ok s") (auto simp: app_step_def TCP_REG_def tcp_timer_needed_def put_lpcb_def split: if_splits)
  qed
qed

lemma addr_changed_loop_ok: "addr_changed_loop app old pos s = Some s' \<Longrightarrow> app_step s s'"
  apply (erule addr_changed_loop.raw_induct [of "\<lambda>a old pos s s'. a = app \<longrightarrow> app_step s s'", rotated, THEN mp])
   prefer 2
   apply (rule refl)
  subgoal premises prems for loop a old pos s s'
    using prems(2) by (auto simp: Let_def split: option.splits if_splits elim!: bind_eq_SomeE
        dest!: prems(1) [THEN mp] intro: app_step_trans [OF tcp_abort_ok])
  done

lemma tcp_netif_ip_addr_changed_ok: "tcp_netif_ip_addr_changed app old new s = Some s' \<Longrightarrow> app_step s s'"
  by (auto simp: tcp_netif_ip_addr_changed_def tcp_netif_ip_addr_changed_pcblist_def split: if_splits option.splits
      elim!: bind_eq_SomeE dest!: addr_changed_loop_ok listen_addr_loop_ok intro: app_step_trans)

section \<open>Events\<close>

lemma event_recv_ok: "TCP_EVENT_RECV app p d err s = Some (s', r) \<Longrightarrow> cb_ok s p s' r"
  by (auto simp: TCP_EVENT_RECV_def call_recv_def split: option.splits if_splits elim!: bind_eq_SomeE
      intro: recv_ok tcp_recv_null_ok)

lemma cb_ok_refl [simp]: "cb_ok s p s r"
  by (simp add: cb_ok_def)

lemma event_closed_ok: "TCP_EVENT_CLOSED app p s = Some (s', r) \<Longrightarrow> cb_ok s p s' r"
  by (auto simp: TCP_EVENT_CLOSED_def call_recv_def split: option.splits if_splits elim!: bind_eq_SomeE
      intro: recv_ok tcp_recv_null_ok)

lemma event_sent_ok: "TCP_EVENT_SENT app p n s = Some (s', r) \<Longrightarrow> cb_ok s p s' r"
  by (auto simp: TCP_EVENT_SENT_def split: option.splits elim!: bind_eq_SomeE intro: sent_ok)

lemma event_connected_ok: "TCP_EVENT_CONNECTED app p err s = Some (s', r) \<Longrightarrow> cb_ok s p s' r"
  by (auto simp: TCP_EVENT_CONNECTED_def split: option.splits elim!: bind_eq_SomeE intro: connected_ok)

lemma event_poll_ok: "TCP_EVENT_POLL app p s = Some (s', r) \<Longrightarrow> cb_ok s p s' r"
  by (auto simp: TCP_EVENT_POLL_def split: option.splits elim!: bind_eq_SomeE intro: poll_ok)

lemma event_accept_ok: "TCP_EVENT_ACCEPT app lp (Some p) arg err s = Some (s', r) \<Longrightarrow> cb_ok s p s' r"
  by (auto simp: TCP_EVENT_ACCEPT_def tcp_accept_null_def cb_ok_def split: option.splits if_splits elim!: bind_eq_SomeE
      dest: accept_ok [unfolded cb_ok_def] tcp_abort_ok)

lemma event_accept_none_ok: "TCP_EVENT_ACCEPT app lp None arg err s = Some (s', r) \<Longrightarrow> app_step s s'"
  by (auto simp: TCP_EVENT_ACCEPT_def tcp_accept_null_def split: option.splits if_splits elim!: bind_eq_SomeE
      dest: accept_none_ok)

end

end
