(* ===== verification/Tcp_event.thy ===== *)
theory Tcp_event imports Tcp_app begin

text \<open>
  The timers keep the invariant of the control blocks, callbacks and restarts included.
\<close>

section \<open>Timers\<close>

lemma step_ticks [simp]:
  "app_step s (s'\<lparr>tcp_ticks := t\<rparr>) = app_step s s'" "app_step (s\<lparr>tcp_ticks := t\<rparr>) s' = app_step s s'"
  "app_step s (s'\<lparr>tcp_timer_ctr := y\<rparr>) = app_step s s'" "app_step (s\<lparr>tcp_timer_ctr := y\<rparr>) s' = app_step s s'"
  "app_step s (s'\<lparr>tcp_timer := y\<rparr>) = app_step s s'" "app_step (s\<lparr>tcp_timer := y\<rparr>) s' = app_step s s'"
  by (simp_all add: app_step_def)

lemma unlink_after_eq: "unlink_after l prev p s = Some s' \<Longrightarrow> s' = TCP_RMV l p s"
  by (auto simp: unlink_after_def TCP_RMV_def elim!: bind_eq_SomeE)

context tcp_application begin

lemma slow_remove_ok:
  assumes "slow_remove app prev p rst s = Some s'" "get_pcb s p = Some b" "conn_state (state b)"
  shows "app_step s s'"
proof -
  define b1 where "b1 = tcp_pcb_purge b"
  have k: "conn_keeps b1 b" by (simp add: b1_def)
  define s1 where "s1 = TCP_RMV Active p (put_pcb p b1 s)"
  have g: "get_pcb s1 p = Some b1" by (simp add: s1_def)
  have "upd_pcb tcp_pcb_purge p s = Some (put_pcb p b1 s)" using assms(2) by (simp add: upd_pcb_def b1_def)
  then obtain s2 where u: "unlink_after Active prev p (put_pcb p b1 s) = Some s2"
    and r: "Option.bind (get_pcb s2 p) (\<lambda>b. Option.bind (tcp_free p (if rst then st_rst app b (local_port b) s2 else s2))
      (\<lambda>s. TCP_EVENT_ERR app (cb_errf b) (callback_arg b) ERR_ABRT (s\<lparr>tcp_active_pcbs_changed := False\<rparr>))) = Some s'"
    using assms(1) unfolding slow_remove_def Let_def by (auto elim!: bind_eq_SomeE)
  have s2: "s2 = s1" using unlink_after_eq [OF u] by (simp add: s1_def)
  obtain s3 where
      "tcp_free p (if rst then st_rst app b1 (local_port b1) s1 else s1) = Some s3"
      and e: "TCP_EVENT_ERR app (cb_errf b1) (callback_arg b1) ERR_ABRT (s3\<lparr>tcp_active_pcbs_changed := False\<rparr>) = Some s'"
    using r unfolding s2 g by (auto elim!: bind_eq_SomeE)
  then have f: "tcp_free p s1 = Some (s3\<lparr>st_w := st_w s1\<rparr>)"
    by (auto simp: tcp_free_def st_rst_def split: if_splits elim!: bind_eq_SomeE)
  have "app_step (put_pcb p b1 s) (s3\<lparr>st_w := st_w s1\<rparr>)"
    by (rule step_rmv_free [of _ p b1 Active])
      (use f [unfolded s1_def] assms(3) keeps_conn [OF k] in \<open>auto simp: list_ok_iff conn_state_def s1_def\<close>)
  moreover have "app_step s (put_pcb p b1 s)" using assms(2) k by (rule step_put_keeps)
  ultimately show ?thesis using event_err_step [OF e] by (simp add: app_step_def)
qed

lemma slow_poll_ok:
  assumes "slow_poll app p s = Some (s', r)" shows "app_step s s'"
proof -
  obtain b where b: "get_pcb s p = Some b" using assms by (auto simp: slow_poll_def elim!: bind_eq_SomeE)
  have k: "app_step s (put_pcb p (b\<lparr>polltmr := n\<rparr>) s)" for n
    using b by (rule step_put_keeps) (simp add: conn_keeps_def)
  have e: "app_step s t'" if "TCP_EVENT_POLL app p ((put_pcb p (b\<lparr>polltmr := 0\<rparr>) s)\<lparr>tcp_active_pcbs_changed := False\<rparr>) = Some (t', e)"
    for t' e
    using event_poll_ok [OF that] k [of 0] by (auto simp: cb_ok_def intro: app_step_trans)
  show ?thesis using assms b e k
    by (auto simp: slow_poll_def Let_def split: if_splits elim!: bind_eq_SomeE)
qed

lemma slow_step_ok:
  assumes "slow_step app prev p s = Some (s', prev', nxt, again)" shows "app_step s s'"
proof -
  obtain b where b: "get_pcb s p = Some b" "conn_state (state b)"
    using assms by (auto simp: slow_step_def conn_state_def elim!: bind_eq_SomeE)
  show ?thesis
  proof (cases "last_timer b = tcp_timer_ctr s")
    case True
    then show ?thesis using assms b by (auto simp: slow_step_def elim!: bind_eq_SomeE)
  next
    case False
    obtain w b1 rm rst where sp: "slow_pcb (ap_env app) (tcp_ticks s) (tcp_input_pcb s = Some p)
        (b\<lparr>last_timer := tcp_timer_ctr s\<rparr>) (st_w s) = Some (w, b1, rm, rst)"
      using assms b False by (auto simp: slow_step_def elim!: bind_eq_SomeE)
    then have k: "conn_keeps b1 b" by (auto dest!: keeps_slow_pcb)
    define s1 where "s1 = put_pcb p b1 (s\<lparr>st_w := w\<rparr>)"
    have p: "app_step s s1" "get_pcb s1 p = Some b1" "conn_state (state b1)"
      using step_put_keeps [of "s\<lparr>st_w := w\<rparr>" p b b1] b k keeps_conn [OF k] by (simp_all add: s1_def)
    consider (rm) "slow_remove app prev p rst s1 = Some s'"
      | (poll) r where "slow_poll app p s1 = Some (s', r)"
      | (out) t r e where "slow_poll app p s1 = Some (t, r)" "st_output app p t = Some (s', e)"
      using assms b False sp
      by (auto simp: slow_step_def Let_def conn_state_def s1_def split: if_splits option.splits elim!: bind_eq_SomeE)
    then have "app_step s1 s'"
      by cases (use p in \<open>auto intro: slow_remove_ok slow_poll_ok app_step_trans [OF slow_poll_ok step_output]\<close>)
    with p(1) show ?thesis by (rule app_step_trans)
  qed
qed

lemma slow_active_loop_ok: "slow_active_loop app prev pos s = Some s' \<Longrightarrow> app_step s s'"
  apply (erule slow_active_loop.raw_induct [of "\<lambda>a prev pos s s'. a = app \<longrightarrow> app_step s s'", rotated, THEN mp])
   prefer 2
   apply (rule refl)
  subgoal premises prems for loop a prev pos s s'
    using prems(2) by (auto split: option.splits if_splits elim!: bind_eq_SomeE
        dest!: prems(1) [THEN mp] slow_step_ok intro: app_step_trans)
  done

end

lemma slow_tw_loop_ok: "slow_tw_loop prev ps s = Some s' \<Longrightarrow> app_step s s'"
proof (induction ps arbitrary: prev s)
  case (Cons p ps)
  obtain b where b: "get_pcb s p = Some b" "state b = TIME_WAIT"
    using Cons.prems by (auto elim!: bind_eq_SomeE)
  show ?case
  proof (cases "idle (tcp_ticks s) b > 2 * TCP_MSL div TCP_SLOW_INTERVAL")
    case True
    then obtain s1 s2 s3 where s1: "upd_pcb tcp_pcb_purge p s = Some s1" and "unlink_after Tw prev p s1 = Some s2"
        and f: "tcp_free p s2 = Some s3" and r: "slow_tw_loop prev ps s3 = Some s'"
      using Cons.prems b by (auto elim!: bind_eq_SomeE)
    then have f: "tcp_free p (TCP_RMV Tw p s1) = Some s3" by (auto dest: unlink_after_eq)
    have g: "get_pcb s1 p = Some (tcp_pcb_purge b)" "state (tcp_pcb_purge b) = TIME_WAIT"
      using s1 b by (auto simp: upd_pcb_def tcp_pcb_purge_def)
    have "app_step s1 s3" by (rule step_rmv_free [OF g(1) _ _ f]) (use g in \<open>auto simp: list_ok_iff conn_state_def\<close>)
    then show ?thesis using Cons.IH [OF r] step_upd_simple(3) [OF s1] by (blast intro: app_step_trans)
  next
    case False
    then show ?thesis using Cons b by (auto elim!: bind_eq_SomeE)
  qed
qed simp

context tcp_application begin

lemma tcp_slowtmr_ok: "tcp_slowtmr app s = Some s' \<Longrightarrow> app_step s s'"
  unfolding tcp_slowtmr_def Let_def
  by (elim bind_eq_SomeE) (auto dest!: slow_active_loop_ok slow_tw_loop_ok intro: app_step_trans)

text \<open>A round of callbacks for one block.\<close>

definition cb_step :: "'w tcp_st \<Rightarrow> nat \<Rightarrow> 'w tcp_st \<Rightarrow> err_t \<Rightarrow> bool" where
  "cb_step s p s' r \<longleftrightarrow> app_step s s' \<and> (r \<noteq> ERR_ABRT \<longrightarrow> kind_kept s p s')"

lemma cb_step_trans: "cb_step s p s1 r1 \<Longrightarrow> r1 \<noteq> ERR_ABRT \<Longrightarrow> cb_step s1 p s' r \<Longrightarrow> cb_step s p s' r"
  by (auto simp: cb_step_def intro: app_step_trans kind_trans)

lemma refused_data_step:
  "tcp_process_refused_data app p s = Some sr \<Longrightarrow> cb_step s p (fst sr) (snd sr)"
  apply (erule tcp_process_refused_data.raw_induct [of "\<lambda>a p s sr. a = app \<longrightarrow> cb_step s p (fst sr) (snd sr)", rotated, THEN mp])
   prefer 2
   apply (rule refl)
  subgoal premises prems for loop a p s sr
  proof
    assume a: "a = app"
    have ih: "loop app p s1 = Some sr2 \<Longrightarrow> cb_step s1 p (fst sr2) (snd sr2)" for s1 sr2
      using prems(1) by blast
    have k: "app_step s1 s2 \<and> kind_kept s1 p s2" if u: "upd_pcb (\<lambda>b. if rcv_wnd b \<noteq> TCP_WND_MAX b then b\<lparr>rcv_wnd := rcv_wnd b + 1\<rparr> else b) p s1 = Some s2" for s1 s2
      by (intro conjI step_upd_keeps [OF u] kind_upd [OF u]) (simp_all add: conn_keeps_def)
    obtain b where b: "get_pcb s p = Some b" using prems(2) by (auto elim!: bind_eq_SomeE)
    show "cb_step s p (fst sr) (snd sr)"
    proof (cases "refused_data b")
      case None
      then show ?thesis using prems(2) b by (auto simp: a cb_step_def)
    next
      case (Some df)
      then obtain d fin where d: "refused_data b = Some (d, fin)" by (cases df) auto
      have off: "app_step s (put_pcb p (b\<lparr>refused_data := x\<rparr>) s)" "kind_kept s p (put_pcb p (b\<lparr>refused_data := x\<rparr>) s)" for x
        using b by (auto intro!: step_put_keeps simp: conn_keeps_def)
      consider (again) x s1 e where "TCP_EVENT_RECV app p x ERR_OK (put_pcb p (b\<lparr>refused_data := e\<rparr>) s) = Some (s1, ERR_OK)"
          "loop app p s1 = Some sr"
        | (fin) x s1 e s2 s3 r where "TCP_EVENT_RECV app p x ERR_OK (put_pcb p (b\<lparr>refused_data := e\<rparr>) s) = Some (s1, ERR_OK)"
          "upd_pcb (\<lambda>b. if rcv_wnd b \<noteq> TCP_WND_MAX b then b\<lparr>rcv_wnd := rcv_wnd b + 1\<rparr> else b) p s1 = Some s2"
          "TCP_EVENT_CLOSED app p s2 = Some (s3, r)" "r = ERR_ABRT \<and> sr = (s3, ERR_ABRT) \<or> r \<noteq> ERR_ABRT \<and> loop app p s3 = Some sr"
        | (stop) x s1 e r where "TCP_EVENT_RECV app p x ERR_OK (put_pcb p (b\<lparr>refused_data := e\<rparr>) s) = Some (s1, r)"
          "sr = (s1, ERR_ABRT) \<or> r \<noteq> ERR_ABRT \<and> upd_pcb (\<lambda>b. b\<lparr>refused_data := Some (d, fin)\<rparr>) p s1 = Some (fst sr)"
        using prems(2) unfolding a
        by (simp add: b d Let_def del: drop_eq_Nil split del: if_split) (auto split: if_splits elim!: bind_eq_SomeE)
      then show ?thesis
      proof cases
        case again
        then show ?thesis using off event_recv_ok ih unfolding cb_step_def cb_ok_def by (blast intro: app_step_trans kind_trans)
      next
        case fin
        have "app_step s s2 \<and> kind_kept s p s2"
          using off event_recv_ok [OF fin(1)] k [OF fin(2)] unfolding cb_ok_def by (blast intro: app_step_trans kind_trans)
        moreover have "cb_ok s2 p s3 r" by (rule event_closed_ok [OF fin(3)])
        ultimately have "cb_step s p s3 r" by (auto simp: cb_step_def cb_ok_def intro: app_step_trans kind_trans)
        then show ?thesis using fin(4) ih by (auto intro: cb_step_trans)
      next
        case stop
        have "app_step s s1 \<and> (r \<noteq> ERR_ABRT \<longrightarrow> kind_kept s p s1)"
          using off event_recv_ok [OF stop(1)] unfolding cb_ok_def by (blast intro: app_step_trans kind_trans)
        moreover have "app_step s1 (fst sr) \<and> kind_kept s1 p (fst sr)"
          if u: "upd_pcb (\<lambda>b. b\<lparr>refused_data := Some (d, fin)\<rparr>) p s1 = Some (fst sr)"
          by (intro conjI step_upd_simple(2) [OF u] kind_upd [OF u]) (simp add: conn_keeps_def)
        ultimately show ?thesis using stop(2) by (auto simp: cb_step_def intro: app_step_trans kind_trans)
      qed
    qed
  qed
  done

lemma tcp_process_refused_data_ok: "tcp_process_refused_data app p s = Some (s', r) \<Longrightarrow> app_step s s'"
  using refused_data_step by (fastforce simp: cb_step_def)

lemma tcp_process_refused_data_kind:
  "tcp_process_refused_data app p s = Some (s', r) \<Longrightarrow> r \<noteq> ERR_ABRT \<Longrightarrow> kind_kept s p s'"
  using refused_data_step by (fastforce simp: cb_step_def)

lemma fast_ack_ok:
  assumes "fast_ack app p s = Some s'" shows "app_step s s'"
proof -
  obtain b where b: "get_pcb s p = Some b" using assms by (auto simp: fast_ack_def elim!: bind_eq_SomeE)
  have k: "app_step s (put_pcb p (tcp_ack_now b) s)" using b by (rule step_put_keeps) simp
  show ?thesis using assms b
    by (auto simp: fast_ack_def split: if_splits elim!: bind_eq_SomeE
        intro: app_step_trans [OF app_step_trans [OF k step_output] step_upd_simple(5)])
qed

lemma fast_fin_ok:
  assumes "fast_fin app p s = Some s'" shows "app_step s s'"
proof -
  obtain b where b: "get_pcb s p = Some b" using assms by (auto simp: fast_fin_def elim!: bind_eq_SomeE)
  have k: "app_step s (put_pcb p (tcp_clear_flags b TF_CLOSEPEND) s)" using b by (rule step_put_keeps) simp
  show ?thesis using assms b
    by (auto simp: fast_fin_def split: if_splits elim!: bind_eq_SomeE
        intro: app_step_trans [OF k close_shutdown_fin_ok(1)])
qed

lemma fast_step_ok:
  assumes "fast_step app p s = Some (s', nxt, again)" shows "app_step s s'"
proof -
  consider (same) "s' = s"
    | (go) s1 s2 s3 where "upd_pcb (\<lambda>b. b\<lparr>last_timer := tcp_timer_ctr s\<rparr>) p s = Some s1" "fast_ack app p s1 = Some s2"
      "fast_fin app p s2 = Some s3"
      "s' = s3 \<or> (\<exists>r. tcp_process_refused_data app p (s3\<lparr>tcp_active_pcbs_changed := False\<rparr>) = Some (s', r))"
    using assms unfolding fast_step_def Let_def by (auto split: if_splits elim!: bind_eq_SomeE)
  then show ?thesis
  proof cases
    case go
    have "app_step s s1" using go(1) by (rule step_upd_keeps) (simp add: conn_keeps_def)
    then have "app_step s s3" using fast_ack_ok [OF go(2)] fast_fin_ok [OF go(3)] by (blast intro: app_step_trans)
    then show ?thesis using go(4) by (auto dest!: tcp_process_refused_data_ok intro: app_step_trans)
  qed simp
qed

lemma fast_loop_ok: "fast_loop app pos s = Some s' \<Longrightarrow> app_step s s'"
  apply (erule fast_loop.raw_induct [of "\<lambda>a pos s s'. a = app \<longrightarrow> app_step s s'", rotated, THEN mp])
   prefer 2
   apply (rule refl)
  subgoal premises prems for loop a pos s s'
    using prems(2) by (auto split: option.splits if_splits elim!: bind_eq_SomeE
        dest!: prems(1) [THEN mp] fast_step_ok intro: app_step_trans)
  done

lemma timers_ok:
  "tcp_fasttmr app s = Some s' \<Longrightarrow> app_step s s'" "tcp_tmr app s = Some s' \<Longrightarrow> app_step s s'"
  "tcpip_tcp_timer app s = Some s' \<Longrightarrow> pcbs_ok s \<Longrightarrow> pcbs_ok s'"
proof -
  show f: "app_step s s'" if "tcp_fasttmr app s = Some s'" for s s'
    using fast_loop_ok [OF that [unfolded tcp_fasttmr_def Let_def]] by simp
  show t: "app_step s s'" if "tcp_tmr app s = Some s'" for s s'
  proof -
    from that obtain s1 where s1: "tcp_fasttmr app s = Some s1"
      and r: "(if (tcp_timer s1 + 1) AND 1 \<noteq> 0 then tcp_slowtmr app (s1\<lparr>tcp_timer := tcp_timer s1 + 1\<rparr>)
               else Some (s1\<lparr>tcp_timer := tcp_timer s1 + 1\<rparr>)) = Some s'"
      by (auto simp: tcp_tmr_def Let_def elim!: bind_eq_SomeE)
    have "app_step s1 s'"
      using r tcp_slowtmr_ok [of "s1\<lparr>tcp_timer := tcp_timer s1 + 1\<rparr>" s'] by (auto split: if_splits)
    with f [OF s1] show ?thesis by (rule app_step_trans)
  qed
  show "pcbs_ok s'" if run: "tcpip_tcp_timer app s = Some s'" "pcbs_ok s"
  proof -
    obtain s1 where s1: "tcp_tmr app s = Some s1"
      and r: "s' = (if tcp_active_pcbs s1 \<noteq> [] \<or> tcp_tw_pcbs s1 \<noteq> [] then s1\<lparr>st_w := ap_sys_timeout app (st_w s1)\<rparr>
           else s1\<lparr>tcpip_tcp_timer_active := False\<rparr>)"
      using run(1) by (auto simp: tcpip_tcp_timer_def elim!: bind_eq_SomeE)
    have "pcbs_ok s1" using t [OF s1] run(2) by (simp add: app_step_def)
    then show ?thesis by (auto simp: r pcbs_ok_defs)
  qed
qed

lemma txnow_loop_ok: "tcp_txnow_loop app ps s = Some s' \<Longrightarrow> app_step s s'"
proof (induction ps arbitrary: s)
  case (Cons p ps)
  then show ?case using step_output by (auto split: if_splits elim!: bind_eq_SomeE) (blast intro: app_step_trans)
qed simp

lemma tcp_txnow_ok: "tcp_txnow app s = Some s' \<Longrightarrow> app_step s s'"
  by (simp add: tcp_txnow_def txnow_loop_ok)

end

end
