(* ===== verification/Tcp_arrive.thy ===== *)
theory Tcp_arrive imports Tcp_event begin

text \<open>
  The arrival of a packet keeps the invariant of the control blocks: \<^verbatim>\<open>tcp_input\<close>, whatever the
  packet, the state of its connection and what the callbacks do.
\<close>

section \<open>The flags of the received segment\<close>

text \<open>Of the flags only \<^verbatim>\<open>TF_GOT_FIN\<close> is set while the segment's text is taken.\<close>

definition other_flags :: "tcp_in \<Rightarrow> u8" where
  "other_flags tin = recv_flags tin AND NOT TF_GOT_FIN"

lemma got_fin_other [simp]: "(f OR TF_GOT_FIN) AND NOT TF_GOT_FIN = f AND NOT TF_GOT_FIN" for f :: u8
  by (rule bit_word_eqI) (auto simp: bit_simps)

lemma has_other_flags:
  "has (recv_flags tin) TF_CLOSED = has (other_flags tin) TF_CLOSED"
  "has (recv_flags tin) TF_RESET = has (other_flags tin) TF_RESET"
  by (simp_all add: has_def other_flags_def TF_CLOSED_def TF_RESET_def TF_GOT_FIN_def word_bw_assocs)

lemma other_rcv_dequeue: "rcv_dequeue b tin q = Some (b', tin') \<Longrightarrow> other_flags tin' = other_flags tin"
proof (induction q arbitrary: b tin)
  case (Cons s q)
  from Cons.prems show ?case
    by (auto simp: Let_def other_flags_def split: if_splits elim!: bind_eq_SomeE dest!: Cons.IH)
qed auto

lemma other_rcv_steps:
  "rcv_trim_front b tin = Some (b', tin') \<Longrightarrow> other_flags tin' = other_flags tin"
  "rcv_trim_wnd b tin = Some tin' \<Longrightarrow> other_flags tin' = other_flags tin"
  "rcv_pass_up b tin = Some (b', tin') \<Longrightarrow> other_flags tin' = other_flags tin"
  by (auto simp: rcv_trim_front_def rcv_trim_wnd_def rcv_pass_up_def other_flags_def Let_def
      split: if_splits elim!: bind_eq_SomeE)

lemma other_rcv_fit_ooseq: "rcv_fit_ooseq b tin = Some (b', tin') \<Longrightarrow> other_flags tin' = other_flags tin"
  by (auto simp: rcv_fit_ooseq_def other_flags_def Let_def split: if_splits list.splits prod.splits elim!: bind_eq_SomeE)

lemma other_rcv_out_of_order: "rcv_out_of_order m b tin = Some (b', tin', as) \<Longrightarrow> other_flags tin' = other_flags tin"
  by (auto simp: rcv_out_of_order_def other_flags_def Let_def split: if_splits list.splits elim!: bind_eq_SomeE)

lemma other_rcv_in_order:
  assumes "rcv_in_order v6 b tin = Some (b', tin', as)" shows "other_flags tin' = other_flags tin"
proof -
  obtain t1 b2 t2 b3 t3 b4 where "rcv_trim_wnd b tin = Some t1"
      "rcv_fit_ooseq b t1 = Some (b2, t2)" "rcv_pass_up b2 t2 = Some (b3, t3)"
      "rcv_dequeue b3 t3 (ooseq b3) = Some (b4, tin')"
    using assms by (auto simp: rcv_in_order_def Let_def elim!: bind_eq_SomeE)
  then show ?thesis by (simp add: other_rcv_dequeue other_rcv_fit_ooseq other_rcv_steps)
qed

lemma other_receive_text: "tcp_receive_text v6 m b tin = Some (b', tin', as) \<Longrightarrow> other_flags tin' = other_flags tin"
  by (auto simp: tcp_receive_text_def split: if_splits elim!: bind_eq_SomeE
      dest!: other_rcv_steps(1) other_rcv_in_order other_rcv_out_of_order)

lemma other_receive_ack: "tcp_receive_ack e t v6 b tin w = Some (w', b', tin') \<Longrightarrow> other_flags tin' = other_flags tin"
  by (auto simp: tcp_receive_ack_def ack_new_data_def other_flags_def Let_def split: if_splits prod.splits
      elim!: bind_eq_SomeE)

lemma other_tcp_receive: "tcp_receive e t v6 b tin w = Some (w', b', tin') \<Longrightarrow> other_flags tin' = other_flags tin"
  by (auto simp: tcp_receive_def receive_copy_def Let_def split: if_splits prod.splits elim!: bind_eq_SomeE
      dest!: other_receive_text other_receive_ack)

section \<open>Into TIME-WAIT\<close>

lemma pcbs_ok_rmv: "pcbs_ok s \<Longrightarrow> l \<noteq> Listening \<Longrightarrow> pcbs_ok (TCP_RMV l p s)"
  using step_remove [of l s p] by (simp add: app_step_def)

lemma TCP_REG_fields:
  assumes "TCP_REG app l p s = Some s'"
  shows "cbs s' = cbs s" "tcp_input_pcb s' = tcp_input_pcb s" "st_in s' = st_in s"
  using assms by (auto simp: TCP_REG_def tcp_timer_needed_def split: if_splits)

lemma enter_time_wait_ok:
  assumes "enter_time_wait app p s = Some s'" "get_pcb s p = Some b" "conn_state (state b)" and ok: "pcbs_ok s"
  shows "pcbs_ok s'" "tcp_input_pcb s' = tcp_input_pcb s" "st_in s' = st_in s"
    "\<exists>b'. get_pcb s' p = Some b' \<and> state b' = TIME_WAIT"
proof -
  define b1 where "b1 = tcp_pcb_purge b"
  define s1 where "s1 = put_pcb p b1 s"
  define s2 where "s2 = put_pcb p (b1\<lparr>state := TIME_WAIT\<rparr>) (TCP_RMV_ACTIVE p s1)"
  have k: "conn_keeps b1 b" by (simp add: b1_def)
  have r: "TCP_REG app Tw p s2 = Some s'"
    using assms(1,2) by (auto simp: enter_time_wait_def upd_pcb_def s1_def s2_def b1_def)
  have s1: "pcbs_ok s1" "get_pcb s1 p = Some b1"
    using step_put_keeps [OF assms(2) k] ok by (simp_all add: s1_def app_step_def)
  have "\<not> listed (TCP_RMV Active p s1) p"
    using unlisted_rmv [OF s1] keeps_conn [OF k assms(3)] by (auto simp: list_ok_iff conn_state_def)
  then have u: "\<not> listed (TCP_RMV_ACTIVE p s1) p" by (simp add: TCP_RMV_ACTIVE_def)
  have "pcbs_ok (TCP_RMV_ACTIVE p s1)" using s1(1) by (simp add: TCP_RMV_ACTIVE_def pcbs_ok_rmv)
  then have s2: "pcbs_ok s2" using u unfolding s2_def by (rule put_unlisted)
  have g: "cbs s2 p = Some (Conn (b1\<lparr>state := TIME_WAIT\<rparr>))" by (simp add: s2_def)
  show "pcbs_ok s'" by (rule reg_ok [OF s2 g _ r]) simp_all
  note f = TCP_REG_fields [OF r]
  show "tcp_input_pcb s' = tcp_input_pcb s" using f by (simp add: s2_def s1_def)
  show "st_in s' = st_in s" using f by (simp add: s2_def s1_def TCP_RMV_ACTIVE_def TCP_RMV_def)
  show "\<exists>b'. get_pcb s' p = Some b' \<and> state b' = TIME_WAIT"
    using f g by (auto simp: get_pcb_iff)
qed

section \<open>The state machine\<close>

text \<open>What \<^verbatim>\<open>tcp_process\<close> leaves behind: a block that is served, one that has been reset, or
  nothing for the application.\<close>

definition quiet :: "'w tcp_st \<Rightarrow> bool" where
  "quiet s \<longleftrightarrow> recv_flags (st_in s) = 0 \<and> recv_acked (st_in s) = 0 \<and> recv_data (st_in s) = None"

definition served :: "nat \<Rightarrow> 'w tcp_st \<Rightarrow> bool" where
  "served p s \<longleftrightarrow> pcbs_ok s \<and> tcp_input_pcb s = Some p \<and>
     (live s p \<or> resting s p \<and> \<not> has (recv_flags (st_in s)) TF_RESET)"

definition processed :: "nat \<Rightarrow> 'w tcp_st \<Rightarrow> bool" where
  "processed p s \<longleftrightarrow> pcbs_ok s \<and> tcp_input_pcb s = Some p \<and>
     (served p s \<or> has (recv_flags (st_in s)) TF_RESET \<and> live_or_opening s p \<or> quiet s)"

lemma served_processed: "served p s \<Longrightarrow> processed p s"
  by (simp add: processed_def served_def)

lemma st_receive_ok:
  assumes "st_receive app g p s = Some s'" and ok: "pcbs_ok s"
  shows "pcbs_ok s'" "tcp_input_pcb s' = tcp_input_pcb s" "other_flags (st_in s') = other_flags (st_in s)"
    "get_pcb s p = Some b \<Longrightarrow> \<exists>b'. get_pcb s' p = Some b' \<and> conn_keeps b' b"
proof -
  obtain a w b' tin where a: "get_pcb s p = Some a"
    and r: "tcp_receive (ap_env app) (tcp_ticks s) (ip_current_is_v6 g) a (st_in s) (st_w s) = Some (w, b', tin)"
    and s': "s' = put_pcb p b' (s\<lparr>st_w := w, st_in := tin\<rparr>)"
    using assms(1) by (auto simp: st_receive_def elim!: bind_eq_SomeE)
  have k: "conn_keeps b' a" using r by (rule keeps_tcp_receive)
  show "pcbs_ok s'" unfolding s'
    by (rule put_ok [of _ p a]) (use ok a slot_keeps [OF k] in \<open>simp_all add: get_pcb_iff\<close>)
  show "tcp_input_pcb s' = tcp_input_pcb s" by (simp add: s')
  show "other_flags (st_in s') = other_flags (st_in s)" using other_tcp_receive [OF r] by (simp add: s')
  show "get_pcb s p = Some b \<Longrightarrow> \<exists>b'. get_pcb s' p = Some b' \<and> conn_keeps b' b"
    using a k by (simp add: s')
qed

lemma served_state:
  "pcbs_ok s \<Longrightarrow> tcp_input_pcb s = Some p \<Longrightarrow> get_pcb s p = Some b \<Longrightarrow> conn_state (state b) \<Longrightarrow> conn_state st \<Longrightarrow>
    st \<noteq> SYN_RCVD \<Longrightarrow> st \<noteq> SYN_SENT \<Longrightarrow> conn_keeps c b \<Longrightarrow> served p (put_pcb p (c\<lparr>state := st\<rparr>) s)"
  using put_ok [of s p b "c\<lparr>state := st\<rparr>"]
  by (auto simp: served_def live_put get_pcb_iff slot_ok_def list_ok_iff conn_state_def)

lemma served_time_wait:
  assumes "enter_time_wait app p s = Some s'" "get_pcb s p = Some b" "conn_state (state b)" "pcbs_ok s"
    "tcp_input_pcb s = Some p" "\<not> has (recv_flags (st_in s)) TF_RESET" "\<not> has (recv_flags (st_in s)) TF_CLOSED"
  shows "served p s'"
  using enter_time_wait_ok [OF assms(1-4)] assms(5-7) by (auto simp: served_def resting_def)

lemma after_receive_ok:
  assumes r: "after_receive app st p s = Some s'" and ok: "pcbs_ok s" "tcp_input_pcb s = Some p"
    and b: "get_pcb s p = Some b" "conn_keeps b a" "state a = st" "conn_state st" "st \<noteq> SYN_SENT" "st \<noteq> SYN_RCVD"
    and f: "\<not> has (recv_flags (st_in s)) TF_RESET" "\<not> has (recv_flags (st_in s)) TF_CLOSED"
  shows "served p s'"
proof -
  have c: "conn_state (state b)" "state b \<noteq> SYN_SENT"
    using keeps_conn [OF b(2)] keeps_syn_sent [OF b(2)] b by auto
  have same: "served p s" using ok b c by (auto simp: served_def live_def)
  have st: "served p (put_pcb p ((tcp_ack_now b)\<lparr>state := st'\<rparr>) s)" "served p (put_pcb p (b\<lparr>state := st'\<rparr>) s)"
    if "conn_state st'" "st' \<noteq> SYN_SENT" "st' \<noteq> SYN_RCVD" for st'
    using served_state [OF ok b(1) c(1)] that by simp_all
  have closed: "served p (set_recv_flags TF_CLOSED s)"
    using same ok b c by (auto simp: served_def set_recv_flags_def live_def)
  have ack: "pcbs_ok (put_pcb p (tcp_ack_now b) s)"
    using step_put_keeps [of s p b "tcp_ack_now b"] b ok by (simp add: app_step_def)
  have tw: "served p s'" if "enter_time_wait app p (put_pcb p (tcp_ack_now b) s) = Some s'"
    by (rule served_time_wait [OF that, of "tcp_ack_now b"])
      (use c ok f ack in \<open>simp_all add: tcp_ack_now_def tcp_set_flags_def\<close>)
  have tw': "served p s'" if "enter_time_wait app p s = Some s'"
    by (rule served_time_wait [OF that b(1) c(1) ok f])
  show ?thesis using r b(1,4) same st closed tw tw'
    by (cases st) (auto simp: after_receive_def Let_def conn_state_def split: if_splits)
qed

lemma process_rst_ok:
  assumes r: "process_rst p s = Some (s', e)" and ok: "pcbs_ok s" "tcp_input_pcb s = Some p"
    and b: "get_pcb s p = Some b" "state b \<notin> {TIME_WAIT, LISTEN}" and q: "quiet s"
  shows "processed p s'" "e \<noteq> ERR_ABRT"
proof -
  have k: "pcbs_ok (put_pcb p (tcp_ack_now b) s)" "pcbs_ok (put_pcb p (tcp_clear_flags b TF_ACK_DELAY) (set_recv_flags TF_RESET s))"
    using put_ok [of s p b "tcp_ack_now b"] put_ok [of "set_recv_flags TF_RESET s" p b "tcp_clear_flags b TF_ACK_DELAY"]
      ok b by (simp_all add: get_pcb_iff set_recv_flags_def slot_keeps)
  have reset: "has TF_RESET TF_RESET" by (simp add: has_def TF_RESET_def)
  show "processed p s'" "e \<noteq> ERR_ABRT"
    using r ok b q k reset
    by (auto simp: process_rst_def Let_def processed_def set_recv_flags_def live_or_opening_def conn_state_def
        tcp_clear_flags_def quiet_def split: if_splits elim!: bind_eq_SomeE)
qed

lemma served_live: "pcbs_ok s \<Longrightarrow> tcp_input_pcb s = Some p \<Longrightarrow> live s p \<Longrightarrow> served p s"
  by (simp add: served_def)

lemma reply_rst_simps [simp]:
  "pcbs_ok (reply_rst app g b s) = pcbs_ok s" "tcp_input_pcb (reply_rst app g b s) = tcp_input_pcb s"
  "st_in (reply_rst app g b s) = st_in s" "get_pcb (reply_rst app g b s) p = get_pcb s p"
  "app_step t (reply_rst app g b s) = app_step t s" "tcp_ticks (reply_rst app g b s) = tcp_ticks s"
  by (simp_all add: reply_rst_def Let_def)

lemma syn_acked_state: "syn_acked b = Some b' \<Longrightarrow> state b' = state b"
  by (auto simp: syn_acked_def Let_def elim!: bind_eq_SomeE)

text \<open>While the input processing runs, an operation may change its variables.\<close>

lemma app_step_ok: "app_step s s' \<Longrightarrow> pcbs_ok s \<Longrightarrow> pcbs_ok s' \<and> tcp_input_pcb s' = tcp_input_pcb s"
  by (simp add: app_step_def)

lemma live_keeps: "get_pcb s p = Some b \<Longrightarrow> get_pcb s' p = Some b' \<Longrightarrow> conn_keeps b' b \<Longrightarrow> live s p \<Longrightarrow> live s' p"
  using keeps_conn keeps_syn_sent by (fastforce simp: live_def)

lemma put_state_ok:
  assumes "pcbs_ok s" "get_pcb s p = Some b" "conn_state (state b)" "conn_state (state c)" "state c \<noteq> SYN_RCVD"
  shows "pcbs_ok (put_pcb p c s)"
  using put_ok [of s p b c] assms by (auto simp: get_pcb_iff slot_ok_def list_ok_iff conn_state_def)

text \<open>After the last part only the invariant is left.\<close>

definition final_ok :: "('w tcp_st \<times> bool) option \<Rightarrow> bool" where
  "final_ok r \<longleftrightarrow> (\<forall>s ab. r = Some (s, ab) \<longrightarrow> pcbs_ok s)"

text \<open>Between packets no connection is being served.\<close>

definition idle_ok :: "'w tcp_st \<Rightarrow> bool" where
  "idle_ok s \<longleftrightarrow> pcbs_ok s \<and> tcp_input_pcb s = None"

context tcp_application begin

lemma process_syn_sent_ok:
  assumes r: "process_syn_sent app g p b s = Some (s', e)" and ok: "pcbs_ok s" "tcp_input_pcb s = Some p"
    and b: "get_pcb s p = Some b" "state b = SYN_SENT" and q: "quiet s"
  shows "pcbs_ok s' \<and> tcp_input_pcb s' = Some p \<and> (e \<noteq> ERR_ABRT \<longrightarrow> processed p s')"
proof -
  have same: "processed p s" using ok q by (simp add: processed_def)
  consider (opened) b1 s1 e1 where "state b1 = ESTABLISHED"
      "TCP_EVENT_CONNECTED app p ERR_OK (put_pcb p b1 s) = Some (s1, e1)"
      "e1 = ERR_ABRT \<and> s' = s1 \<and> e = ERR_ABRT \<or> e1 \<noteq> ERR_ABRT \<and> upd_pcb tcp_ack_now p s1 = Some s'"
    | (rexmit) c w where "s' = put_pcb p c (reply_rst app g (Some b) s\<lparr>st_w := w\<rparr>)" "conn_keeps c b"
    | (rst) "s' = reply_rst app g (Some b) s" | (none) "s' = s"
    using r unfolding process_syn_sent_def Let_def
    by (auto split: if_splits elim!: bind_eq_SomeE dest!: keeps_tcp_rexmit_rto syn_acked_state)
  then show ?thesis
  proof cases
    case opened
    note b1 = opened(1)
    let ?s = "put_pcb p b1 s"
    have s: "pcbs_ok ?s" "tcp_input_pcb ?s = Some p" "live ?s p"
      using put_state_ok [OF ok(1) b(1), of b1] ok(2) b b1 by (simp_all add: live_put conn_state_def)
    have c: "cb_ok ?s p s1 e1" by (rule event_connected_ok [OF opened(2)])
    then have s1: "pcbs_ok s1" "tcp_input_pcb s1 = Some p" "e1 \<noteq> ERR_ABRT \<Longrightarrow> live s1 p"
      using app_step_ok [of ?s s1] s by (simp_all add: cb_ok_def)
    show ?thesis
    proof (cases "e1 = ERR_ABRT")
      case False
      then have u: "upd_pcb tcp_ack_now p s1 = Some s'" using opened by simp
      have "live s' p" using s1(3) False by (intro live_upd_keeps [OF u]) simp_all
      then show ?thesis
        using app_step_ok [OF step_upd_simple(4) [OF u] s1(1)] s1(2) by (auto intro: served_processed served_live)
    qed (use opened(3) s1 in simp)
  next
    case rexmit
    then have "pcbs_ok s'" using put_ok [of "reply_rst app g (Some b) s\<lparr>st_w := w\<rparr>" p b c] ok(1) b(1)
      by (simp add: get_pcb_iff [symmetric] slot_keeps)
    then show ?thesis using rexmit q ok by (simp add: processed_def quiet_def)
  qed (use same ok q in \<open>auto simp: processed_def quiet_def\<close>)
qed

text \<open>The connection has been accepted; the segment's text is taken.\<close>

lemma syn_rcvd_receive_ok:
  assumes r: "st_receive app g p s = Some s1"
    and u: "upd_pcb (\<lambda>b. b\<lparr>cwnd := f b\<rparr>) p (s1\<lparr>st_in := (st_in s1)\<lparr>recv_acked := n\<rparr>\<rparr>) = Some s2"
    and l: "has (recv_flags (st_in s2)) TF_GOT_FIN \<and> upd_pcb (\<lambda>b. (tcp_ack_now b)\<lparr>state := CLOSE_WAIT\<rparr>) p s2 = Some s' \<or>
            \<not> has (recv_flags (st_in s2)) TF_GOT_FIN \<and> s' = s2"
    and ok: "pcbs_ok s" "tcp_input_pcb s = Some p" "live s p"
  shows "served p s'"
proof -
  obtain b where b: "get_pcb s p = Some b" "conn_state (state b)" "state b \<noteq> SYN_SENT"
    using ok(3) by (auto simp: live_def)
  obtain b1 where b1: "get_pcb s1 p = Some b1" "conn_keeps b1 b" using st_receive_ok(4) [OF r ok(1) b(1)] by blast
  let ?s = "s1\<lparr>st_in := (st_in s1)\<lparr>recv_acked := n\<rparr>\<rparr>" and ?b = "b1\<lparr>cwnd := f b1\<rparr>"
  have s2: "s2 = put_pcb p ?b ?s" using u b1(1) by (simp add: upd_pcb_def)
  have kb: "conn_keeps ?b b1" by (simp add: conn_keeps_def)
  have s2_ok: "pcbs_ok s2" unfolding s2
    by (rule put_ok [of _ p b1]) (use st_receive_ok(1) [OF r ok(1)] b1(1) slot_keeps [OF kb] in \<open>simp_all add: get_pcb_iff\<close>)
  have i: "tcp_input_pcb s2 = Some p" using st_receive_ok(2) [OF r ok(1)] ok(2) by (simp add: s2)
  have st: "conn_state (state ?b)" "state ?b \<noteq> SYN_SENT"
    using keeps_conn [OF b1(2)] keeps_syn_sent [OF b1(2)] b by simp_all
  show ?thesis
  proof (cases "has (recv_flags (st_in s2)) TF_GOT_FIN")
    case True
    have g: "get_pcb s2 p = Some ?b" by (simp add: s2)
    have "s' = put_pcb p ((tcp_ack_now ?b)\<lparr>state := CLOSE_WAIT\<rparr>) s2"
      using l True g by (simp add: upd_pcb_def)
    then show ?thesis using served_state [OF s2_ok i g st(1), of CLOSE_WAIT "tcp_ack_now ?b"] by (simp add: conn_state_def)
  next
    case False
    then show ?thesis using l s2_ok i st by (intro served_live) (auto simp: s2 live_put)
  qed
qed

lemma process_syn_rcvd_ok:
  assumes r: "process_syn_rcvd app g p b s = Some (s', e)" and ok: "pcbs_ok s" "tcp_input_pcb s = Some p"
    and b: "get_pcb s p = Some b" "state b = SYN_RCVD" and q: "quiet s"
  shows "pcbs_ok s' \<and> tcp_input_pcb s' = Some p \<and> (e \<noteq> ERR_ABRT \<longrightarrow> processed p s')"
proof -
  let ?s = "put_pcb p (b\<lparr>state := ESTABLISHED\<rparr>) s"
  have s: "pcbs_ok ?s" "tcp_input_pcb ?s = Some p" "live ?s p"
    using put_state_ok [OF ok(1) b(1), of "b\<lparr>state := ESTABLISHED\<rparr>"] ok(2) b by (simp_all add: live_put conn_state_def)
  have same: "served p s" using ok b by (intro served_live) (simp_all add: live_def conn_state_def)
  consider (aborted) s1 e1 where "cb_ok ?s p s1 e1" "e = ERR_ABRT" "s' = s1 \<or> tcp_abort app p s1 = Some s'"
    | (accept) s1 s2 s3 f n where "cb_ok ?s p s1 ERR_OK" "st_receive app g p s1 = Some s2"
      "upd_pcb (\<lambda>b. b\<lparr>cwnd := f b\<rparr>) p (s2\<lparr>st_in := (st_in s2)\<lparr>recv_acked := n\<rparr>\<rparr>) = Some s3"
      "has (recv_flags (st_in s3)) TF_GOT_FIN \<and> upd_pcb (\<lambda>b. (tcp_ack_now b)\<lparr>state := CLOSE_WAIT\<rparr>) p s3 = Some s' \<or>
       \<not> has (recv_flags (st_in s3)) TF_GOT_FIN \<and> s' = s3"
    | (rexmit) c where "s' = put_pcb p c s" "conn_keeps c b"
    | (rst) "s' = reply_rst app g (Some b) s" | (none) "s' = s"
    using r unfolding process_syn_rcvd_def Let_def
    by (auto split: if_splits option.splits prod.splits elim!: bind_eq_SomeE dest!: keeps_tcp_rexmit event_accept_ok)
      (blast intro: cb_ok_refl)
  then show ?thesis
  proof cases
    case aborted
    have c: "app_step ?s s1" using aborted(1) by (simp add: cb_ok_def)
    note s1 = app_step_ok [OF c s(1)]
    then show ?thesis using aborted(2,3) s(2) by (auto dest!: tcp_abort_ok app_step_ok)
  next
    case accept
    have c: "app_step ?s s1" "live s1 p" using accept(1) s by (simp_all add: cb_ok_def)
    have "served p s'"
      by (rule syn_rcvd_receive_ok [OF accept(2-4)]) (use app_step_ok [OF c(1) s(1)] s(2) c(2) in auto)
    then show ?thesis by (simp add: served_processed) (simp add: served_def)
  next
    case rexmit
    then have "served p s'" using served_live [of s' p] put_ok [of s p b c] ok b keeps_conn [of c b] keeps_syn_sent [of c b]
      by (simp add: get_pcb_iff slot_keeps live_put conn_state_def)
    then show ?thesis by (simp add: served_processed) (simp add: served_def)
  next
    case rst
    then have "served p s'" using same by (simp add: served_def live_def resting_def)
    then show ?thesis by (simp add: served_processed) (simp add: served_def)
  next
    case none
    then show ?thesis using same ok by (simp add: served_processed)
  qed
qed

lemma tcp_process_ok:
  assumes r: "tcp_process app g p s = Some (s', e)" and ok: "pcbs_ok s" "tcp_input_pcb s = Some p"
    and b: "get_pcb s p = Some a" "state a \<notin> {TIME_WAIT, LISTEN}" and q: "quiet s"
  shows "pcbs_ok s' \<and> tcp_input_pcb s' = Some p \<and> (e \<noteq> ERR_ABRT \<longrightarrow> processed p s')"
proof -
  have put: "pcbs_ok (put_pcb p c s)" if "conn_keeps c a" for c
    using app_step_ok [OF step_put_keeps [OF b(1) that] ok(1)] by simp
  consider (rst) "process_rst p s = Some (s', e)" | (ack) "s' = put_pcb p (tcp_ack_now a) s"
    | (machine) c where "conn_keeps c a" "state c \<notin> {TIME_WAIT, LISTEN}"
      "(if state c = SYN_SENT then process_syn_sent app g p c (put_pcb p c s)
        else if state c = SYN_RCVD then process_syn_rcvd app g p c (put_pcb p c s)
        else if state c \<in> {ESTABLISHED, CLOSE_WAIT, FIN_WAIT_1, FIN_WAIT_2, CLOSING, LAST_ACK} then do {
          s \<leftarrow> st_receive app g p (put_pcb p c s);
          s \<leftarrow> after_receive app (state c) p s;
          Some (s, ERR_OK) }
        else Some (put_pcb p c s, ERR_OK)) = Some (s', e)"
  proof -
    define a1 where "a1 = (if \<not> has (flags a) TF_RXCLOSED then a\<lparr>tmr := tcp_ticks s\<rparr> else a)\<lparr>keep_cnt_sent := 0, persist_probe := 0\<rparr>"
    have k1: "conn_keeps a1 a" by (simp add: a1_def conn_keeps_def)
    have k: "conn_keeps c a \<and> state c \<notin> {TIME_WAIT, LISTEN}" if "tcp_parseopt (g_opts (st_in s)) (g_flags (st_in s)) a1 = Some c" for c
      using keeps_tcp_parseopt [OF that] k1 b(2) by (auto simp: conn_keeps_def)
    show ?thesis using r b(1) k unfolding tcp_process_def Let_def
      by (auto simp: a1_def [symmetric] split del: if_split elim!: bind_eq_SomeE split: if_splits intro: that)
  qed
  then show ?thesis
  proof cases
    case rst
    show ?thesis using process_rst_ok [OF rst ok b q] by (auto simp: processed_def)
  next
    case ack
    then show ?thesis using put [of "tcp_ack_now a"] ok q by (simp add: processed_def quiet_def)
  next
    case machine
    let ?s = "put_pcb p c s"
    have s: "pcbs_ok ?s" "tcp_input_pcb ?s = Some p" "get_pcb ?s p = Some c" "quiet ?s"
      using put [OF machine(1)] ok q by (simp_all add: quiet_def)
    consider "state c = SYN_SENT" | "state c = SYN_RCVD"
      | (taken) "state c \<in> {ESTABLISHED, CLOSE_WAIT, FIN_WAIT_1, FIN_WAIT_2, CLOSING, LAST_ACK}" | "state c = CLOSED"
      using machine(2) by (cases "state c") auto
    then show ?thesis
    proof cases
      case taken
      then obtain s1 where s1: "st_receive app g p ?s = Some s1" "after_receive app (state c) p s1 = Some s'" "e = ERR_OK"
        using machine(3) by (auto elim!: bind_eq_SomeE)
      note v = st_receive_ok [OF s1(1) s(1)]
      obtain c1 where c1: "get_pcb s1 p = Some c1" "conn_keeps c1 c" using v(4) [OF s(3)] by blast
      have "other_flags (st_in s1) = 0" using v(3) q by (simp add: quiet_def other_flags_def)
      then have o: "\<not> has (recv_flags (st_in s1)) TF_RESET" "\<not> has (recv_flags (st_in s1)) TF_CLOSED"
        unfolding has_other_flags by (simp_all add: has_def)
      have "served p s'"
        by (rule after_receive_ok [OF s1(2) v(1) _ c1 refl])
          (use taken v(2) s(2) o in \<open>auto simp: conn_state_def\<close>)
      then show ?thesis by (simp add: served_processed) (simp add: served_def)
    qed (use machine(3) process_syn_sent_ok [OF _ s(1,2,3) _ s(4)] process_syn_rcvd_ok [OF _ s(1,2,3) _ s(4)] s
         in \<open>auto simp: processed_def\<close>)
  qed
qed

section \<open>Telling the application\<close>

text \<open>What each part of the delivery keeps: the invariant, and unless it has jumped to
  \<^verbatim>\<open>aborted\<close>, the block.\<close>

definition serving :: "nat \<Rightarrow> 'w tcp_st \<Rightarrow> bool" where
  "serving p s \<longleftrightarrow> pcbs_ok s \<and> tcp_input_pcb s = Some p \<and> (live s p \<or> resting s p)"

definition stage_ok :: "nat \<Rightarrow> ('w tcp_st \<times> bool) option \<Rightarrow> bool" where
  "stage_ok p r \<longleftrightarrow> (\<forall>s aborted. r = Some (s, aborted) \<longrightarrow> pcbs_ok s \<and> (\<not> aborted \<longrightarrow> serving p s))"

lemma stage_okD: "stage_ok p r \<Longrightarrow> r = Some (s, ab) \<Longrightarrow> pcbs_ok s \<and> (\<not> ab \<longrightarrow> serving p s)"
  by (simp add: stage_ok_def)

lemma cb_serving:
  "cb_ok s p s' r \<Longrightarrow> serving p s \<Longrightarrow> pcbs_ok s' \<and> (r \<noteq> ERR_ABRT \<longrightarrow> serving p s')"
  by (auto simp: serving_def cb_ok_def app_step_def)

lemma serving_in [simp]:
  "serving p (s\<lparr>st_in := (st_in s)\<lparr>recv_acked := n\<rparr>\<rparr>) = serving p s"
  "serving p (s\<lparr>st_in := (st_in s)\<lparr>recv_data := d\<rparr>\<rparr>) = serving p s"
  by (simp_all add: serving_def live_def resting_def)

lemma serving_upd:
  assumes "upd_pcb f p s = Some s'" "serving p s" "\<And>b. conn_keeps (f b) b" shows "serving p s'"
proof -
  have "live s p \<Longrightarrow> live s' p" by (rule live_upd_keeps [OF assms(1,3)])
  moreover have "resting s' p" if rest: "resting s p"
  proof -
    obtain b where b: "get_pcb s p = Some b" "state b = TIME_WAIT" "\<not> has (recv_flags (st_in s)) TF_CLOSED"
      using rest by (auto simp: resting_def)
    then show ?thesis using assms(1) assms(3) [of b] by (auto simp: upd_pcb_def resting_def conn_keeps_def)
  qed
  ultimately show ?thesis using assms(2) app_step_ok [OF step_upd_keeps [OF assms(1,3)]] by (auto simp: serving_def)
qed

lemma sent_loop_ok: "serving p s \<Longrightarrow> stage_ok p (input_sent_loop app p n s)"
proof (induction "unat n" arbitrary: n s rule: less_induct)
  case less
  show ?case
  proof (cases "n > 0")
    case True
    have "unat (n - min n 0xffff) = unat n - unat (min n 0xffff)" by (rule unat_sub) simp
    also have "\<dots> < unat n" using True by (simp add: min_def word_less_nat_alt unat_gt_0)
    finally have m: "unat (n - min n 0xffff) < unat n" .
    show ?thesis unfolding stage_ok_def
    proof (intro allI impI)
      fix s' ab assume "input_sent_loop app p n s = Some (s', ab)"
      then obtain s1 r where e: "TCP_EVENT_SENT app p (ucast (min n 0xffff)) s = Some (s1, r)"
        and l: "r = ERR_ABRT \<and> s' = s1 \<and> ab \<or> r \<noteq> ERR_ABRT \<and> input_sent_loop app p (n - min n 0xffff) s1 = Some (s', ab)"
        using True by (subst (asm) input_sent_loop.simps) (auto simp: Let_def split: if_splits elim!: bind_eq_SomeE)
      note c = cb_serving [OF event_sent_ok [OF e] less.prems]
      show "pcbs_ok s' \<and> (\<not> ab \<longrightarrow> serving p s')"
        using l c less.hyps [OF m, of s1] stage_okD by blast
    qed
  next
    case False
    then show ?thesis using less.prems by (simp add: stage_ok_def input_sent_loop.simps serving_def)
  qed
qed

lemma recv_loop_step: "input_recv_loop app p s = Some r \<Longrightarrow> serving p s \<Longrightarrow> stage_ok p (Some r)"
  apply (erule input_recv_loop.raw_induct [of "\<lambda>a p s r. a = app \<longrightarrow> serving p s \<longrightarrow> stage_ok p (Some r)", rotated, THEN mp, THEN mp])
    prefer 3
    apply assumption
   prefer 2
   apply (rule refl)
  subgoal premises step for loop a p s r
  proof (intro impI)
    assume a: "a = app" and v: "serving p s"
    have ok: "pcbs_ok s" using v by (simp add: serving_def)
    obtain s' ab where r: "r = (s', ab)" by (cases r)
    have ih: "loop app p s1 = Some r1 \<Longrightarrow> serving p s1 \<Longrightarrow> stage_ok p (Some r1)" for s1 r1 using step(2) by blast
    consider (same) "s' = s" | (abort) "tcp_abort app p s = Some s'" "ab"
      | (cut) d where "TCP_EVENT_RECV app p d ERR_OK s = Some (s', ERR_ABRT)" "ab"
      | (refused) d s1 e x where "TCP_EVENT_RECV app p d ERR_OK s = Some (s1, e)" "e \<noteq> ERR_ABRT"
        "upd_pcb (\<lambda>b. b\<lparr>refused_data := x\<rparr>) p s1 = Some s'"
      | (again) d s1 x where "TCP_EVENT_RECV app p d ERR_OK s = Some (s1, ERR_OK)"
        "loop app p (s1\<lparr>st_in := (st_in s1)\<lparr>recv_data := x\<rparr>\<rparr>) = Some (s', ab)"
      using step(3) unfolding a r
      by (auto simp: Let_def split: option.splits if_splits elim!: bind_eq_SomeE)
    then show "stage_ok p (Some r)"
    proof cases
      case same
      then show ?thesis using v ok r by (simp add: stage_ok_def)
    next
      case abort
      then show ?thesis using app_step_ok [OF tcp_abort_ok ok] r by (simp add: stage_ok_def)
    next
      case cut
      then show ?thesis using cb_serving [OF event_recv_ok v] r by (auto simp: stage_ok_def)
    next
      case refused
      have "serving p s1" using cb_serving [OF event_recv_ok [OF refused(1)] v] refused(2) by simp
      then have "serving p s'" by (rule serving_upd [OF refused(3)]) (simp add: conn_keeps_def)
      then show ?thesis using r by (simp add: stage_ok_def serving_def)
    next
      case again
      have "serving p s1" using cb_serving [OF event_recv_ok [OF again(1)] v] by simp
      then show ?thesis using ih [OF again(2)] r by simp
    qed
  qed
  done

lemma recv_loop_stage: "serving p s \<Longrightarrow> stage_ok p (input_recv_loop app p s)"
  using recv_loop_step by (fastforce simp: stage_ok_def)

lemma input_fin_ok: "serving p s \<Longrightarrow> stage_ok p (input_fin app p s)"
  unfolding stage_ok_def
proof (intro allI impI)
  fix s' ab assume v: "serving p s" and r: "input_fin app p s = Some (s', ab)"
  have put: "serving p (put_pcb p c s)" if "get_pcb s p = Some b" "conn_keeps c b" for b c
  proof (rule serving_upd [OF _ v])
    show "upd_pcb (\<lambda>a. if a = b then c else a) p s = Some (put_pcb p c s)" using that by (simp add: upd_pcb_def)
    show "conn_keeps (if a = b then c else a) a" for a using that by simp
  qed
  show "pcbs_ok s' \<and> (\<not> ab \<longrightarrow> serving p s')"
  proof (cases "has (recv_flags (st_in s)) TF_GOT_FIN")
    case False
    then show ?thesis using r v by (simp add: input_fin_def serving_def)
  next
    case True
    then obtain b where b: "get_pcb s p = Some b" using r by (auto simp: input_fin_def elim!: bind_eq_SomeE)
    define c where "c = (if rcv_wnd b \<noteq> TCP_WND_MAX b then b\<lparr>rcv_wnd := rcv_wnd b + 1\<rparr> else b)"
    have k: "conn_keeps c b" by (simp add: c_def conn_keeps_def)
    show ?thesis
    proof (cases "refused_data b")
      case None
      obtain e where "TCP_EVENT_CLOSED app p (put_pcb p c s) = Some (s', e)" "ab = (e = ERR_ABRT)"
        using r True b None unfolding input_fin_def by (auto simp: Let_def c_def [symmetric] elim!: bind_eq_SomeE)
      then show ?thesis using cb_serving [OF event_closed_ok put [OF b k]] by blast
    next
      case (Some df)
      obtain x where "s' = put_pcb p (b\<lparr>refused_data := x\<rparr>) s"
        using r True b Some by (auto simp: input_fin_def split: prod.splits)
      then have "serving p s'" using put [OF b, of "b\<lparr>refused_data := x\<rparr>"] by (simp add: conn_keeps_def)
      then show ?thesis by (simp add: serving_def)
    qed
  qed
qed

lemma event_err_ok:
  assumes "event_err app p err s = Some s'" "err \<noteq> ERR_ABRT"
  shows "app_step s s'" "live_or_opening s p \<Longrightarrow> live_or_opening s' p"
proof -
  obtain b where b: "get_pcb s p = Some b" and e: "TCP_EVENT_ERR app (cb_errf b) (callback_arg b) err s = Some s'"
    using assms(1) by (auto simp: event_err_def elim!: bind_eq_SomeE)
  show "app_step s s'" by (rule event_err_step [OF e])
  show "live_or_opening s' p" if "live_or_opening s p"
    using e that err_live [OF _ assms(2), of _ _ s s' p] b
    by (auto simp: TCP_EVENT_ERR_def errf_of_def split: option.splits)
qed

lemma remove_live_ok:
  assumes "tcp_pcb_remove app Active p s = Some s1" "tcp_free p s1 = Some s2" "live_or_opening s p" "pcbs_ok s"
  shows "pcbs_ok s2"
proof -
  have "home Active p s" using assms(3) home_conn(1) by (auto simp: live_or_opening_def)
  then show ?thesis using step_remove_free [OF assms(1) _ assms(2)] assms(4) by (simp add: app_step_def)
qed

lemma delayed_close_ok:
  assumes r: "tcp_input_delayed_close app p s = Some (s', ab)" and ok: "pcbs_ok s"
    and l: "has (recv_flags (st_in s)) TF_CLOSED \<Longrightarrow> live_or_opening s p"
  shows "pcbs_ok s'" "\<not> ab \<Longrightarrow> s' = s"
proof -
  have "pcbs_ok s' \<and> (\<not> ab \<longrightarrow> s' = s)"
  proof (cases "has (recv_flags (st_in s)) TF_CLOSED")
    case True
    then obtain b :: tcp_pcb and s1 s2 where "(if \<not> has (flags b) TF_RXCLOSED then event_err app p ERR_CLSD s else Some s) = Some s1"
      and s2: "tcp_pcb_remove app Active p s1 = Some s2" "tcp_free p s2 = Some s'" and ab
      using r by (auto simp: tcp_input_delayed_close_def split del: if_split elim!: bind_eq_SomeE)
    then have s1: "s1 = s \<or> event_err app p ERR_CLSD s = Some s1" by (auto split: if_splits)
    have "pcbs_ok s1 \<and> live_or_opening s1 p"
      using s1 ok l [OF True] event_err_ok [of p ERR_CLSD s s1] app_step_ok [of s s1] by auto
    then show ?thesis using remove_live_ok [OF s2] \<open>ab\<close> by simp
  next
    case False
    then show ?thesis using r ok by (simp add: tcp_input_delayed_close_def)
  qed
  then show "pcbs_ok s'" "\<not> ab \<Longrightarrow> s' = s" by simp_all
qed

lemma live_opening: "live s p \<Longrightarrow> live_or_opening s p"
  by (auto simp: live_def live_or_opening_def)

lemma unless_final:
  "stage_ok p r \<Longrightarrow> (\<And>s. serving p s \<Longrightarrow> final_ok (f s)) \<Longrightarrow> final_ok (unless_aborted r f)"
  by (auto simp: unless_aborted_def stage_ok_def final_ok_def split: if_splits elim!: bind_eq_SomeE)

lemma serving_closed: "serving p s \<Longrightarrow> has (recv_flags (st_in s)) TF_CLOSED \<Longrightarrow> live_or_opening s p"
  by (auto simp: serving_def resting_def live_opening)

lemma delayed_close_stage: "serving p s \<Longrightarrow> stage_ok p (tcp_input_delayed_close app p s)"
  using delayed_close_ok serving_closed unfolding stage_ok_def serving_def by metis

lemma sent_stage:
  "serving p s \<Longrightarrow> stage_ok p (do { (s, aborted) \<leftarrow> input_sent_loop app p n s;
      Some (if aborted then s else s\<lparr>st_in := (st_in s)\<lparr>recv_acked := 0\<rparr>\<rparr>, aborted) })"
  using sent_loop_ok [of p s n] by (auto simp: stage_ok_def elim!: bind_eq_SomeE)

lemma output_final:
  assumes "pcbs_ok s"
  shows "final_ok (do { (s, err) \<leftarrow> st_output app p s; Some (s, ab) })"
  using assms app_step_ok by (auto simp: final_ok_def elim!: bind_eq_SomeE dest!: step_output)

lemma tail_final:
  assumes v: "serving p s"
  shows "final_ok (unless_aborted (tcp_input_delayed_close app p (s\<lparr>tcp_input_pcb := None\<rparr>))
     (\<lambda>s. do { (s, err) \<leftarrow> st_output app p s; Some (s, False) }))"
proof -
  let ?s = "s\<lparr>tcp_input_pcb := None\<rparr>"
  have ok: "pcbs_ok ?s" "has (recv_flags (st_in ?s)) TF_CLOSED \<Longrightarrow> live_or_opening ?s p"
    using v serving_closed [OF v] by (simp_all add: serving_def live_or_opening_def)
  show ?thesis
    unfolding final_ok_def unless_aborted_def
    using delayed_close_ok [OF _ ok] output_final [OF ok(1), of p False]
    by (auto simp: final_ok_def split: if_splits elim!: bind_eq_SomeE) 
qed

lemma input_deliver_ok: "serving p s \<Longrightarrow> final_ok (input_deliver app p s)"
  unfolding input_deliver_def
  by (intro unless_final [where p = p] sent_stage delayed_close_stage recv_loop_stage input_fin_ok tail_final)

lemma input_deliver_quiet:
  assumes "quiet s" "pcbs_ok s" shows "final_ok (input_deliver app p s)"
proof -
  have a: "\<not> has (0 :: u8) f" for f by (simp add: has_def)
  have e: "(st_in s)\<lparr>recv_acked := 0\<rparr> = st_in s" using assms(1) by (simp add: quiet_def)
  have "input_deliver app p s =
      (do { (s, err) \<leftarrow> st_output app p (s\<lparr>tcp_input_pcb := None\<rparr>); Some (s, False) })"
    using assms(1)
    by (simp add: input_deliver_def unless_aborted_def quiet_def input_sent_loop.simps tcp_input_delayed_close_def
        input_recv_loop.simps input_fin_def a e)
  then show ?thesis using output_final [of "s\<lparr>tcp_input_pcb := None\<rparr>" p False] assms(2) by simp
qed

section \<open>\<^verbatim>\<open>tcp_input\<close>\<close>

lemma idle_step: "app_step s s' \<Longrightarrow> idle_ok s \<Longrightarrow> idle_ok s' \<and> st_in s' = st_in s"
  by (simp add: idle_ok_def app_step_def)

lemma input_refused_ok:
  assumes r: "input_refused app p s = Some (s', ab)" and ok: "idle_ok s"
  shows "idle_ok s' \<and> (\<not> ab \<longrightarrow> st_in s' = st_in s \<and> kind_kept s p s')"
proof -
  consider (none) "s' = s" | (stop) s1 e where "tcp_process_refused_data app p s = Some (s1, e)"
      "ab" "s' = s1 \<or> (\<exists>b c w. get_pcb s1 p = Some b \<and> conn_keeps c b \<and> s' = put_pcb p c (s1\<lparr>st_w := w\<rparr>))"
    | (go) e where "tcp_process_refused_data app p s = Some (s', e)" "e \<noteq> ERR_ABRT"
    using r unfolding input_refused_def
    by (auto split: if_splits prod.splits elim!: bind_eq_SomeE dest!: keeps_tcp_send_empty_ack) blast+
  then show ?thesis
  proof cases
    case none
    then show ?thesis using ok by simp
  next
    case stop
    have "idle_ok s1" using idle_step [OF tcp_process_refused_data_ok [OF stop(1)] ok] by simp
    moreover have "app_step s1 s'" using stop(3) step_put_keeps [of "s1\<lparr>st_w := w\<rparr>" p for w] by auto
    ultimately show ?thesis using idle_step stop(2) by blast
  next
    case go
    show ?thesis using idle_step [OF tcp_process_refused_data_ok [OF go(1)] ok] tcp_process_refused_data_kind [OF go] by simp
  qed
qed

lemma input_conn_ok:
  assumes r: "input_conn app g p s = Some s'" and ok: "idle_ok s" and b: "get_pcb s p = Some b" "conn_state (state b)"
  shows "idle_ok s'"
proof -
  let ?s = "s\<lparr>st_in := (st_in s)\<lparr>recv_data := None, recv_flags := 0, recv_acked := 0\<rparr>\<rparr>"
  have s: "idle_ok ?s" "quiet ?s" "get_pcb ?s p = Some b" using ok b by (simp_all add: idle_ok_def quiet_def)
  obtain s1 ab where "unless_aborted (input_refused app p ?s) (\<lambda>s. do {
        (s, err) \<leftarrow> tcp_process app g p (s\<lparr>tcp_input_pcb := Some p\<rparr>);
        (if err = ERR_ABRT then Some (s, True)
         else if has (recv_flags (st_in s)) TF_RESET then do {
           s \<leftarrow> event_err app p ERR_RST s;
           s \<leftarrow> tcp_pcb_remove app Active p s;
           s \<leftarrow> tcp_free p s;
           Some (s, True) }
         else input_deliver app p s) }) = Some (s1, ab)"
    and s': "s' = s1\<lparr>tcp_input_pcb := None, st_in := (st_in s1)\<lparr>recv_data := None, in_data := None\<rparr>\<rparr>"
    using r by (auto simp: input_conn_def Let_def elim!: bind_eq_SomeE)
  then consider (dropped) "input_refused app p ?s = Some (s1, True)"
    | (go) s0 s2 e where "input_refused app p ?s = Some (s0, False)"
      "tcp_process app g p (s0\<lparr>tcp_input_pcb := Some p\<rparr>) = Some (s2, e)"
      "(if e = ERR_ABRT then Some (s2, True)
         else if has (recv_flags (st_in s2)) TF_RESET then do {
           s \<leftarrow> event_err app p ERR_RST s2;
           s \<leftarrow> tcp_pcb_remove app Active p s;
           s \<leftarrow> tcp_free p s;
           Some (s, True) }
         else input_deliver app p s2) = Some (s1, ab)"
    unfolding unless_aborted_def by (auto split del: if_split split: if_split_asm elim!: bind_eq_SomeE)
  then have "pcbs_ok s1"
  proof cases
    case dropped
    then show ?thesis using input_refused_ok [OF dropped s(1)] by (simp add: idle_ok_def)
  next
    case go
    note f = input_refused_ok [OF go(1) s(1)]
    obtain a where a: "get_pcb s0 p = Some a" using go(2) by (auto simp: tcp_process_def elim!: bind_eq_SomeE)
    have "state a \<notin> {TIME_WAIT, LISTEN}" using f a b by (auto simp: kind_kept_def conn_state_def)
    then have p: "pcbs_ok s2" "e \<noteq> ERR_ABRT \<Longrightarrow> processed p s2"
      using tcp_process_ok [OF go(2), of a] f a s(2) by (auto simp: idle_ok_def quiet_def)
    consider "e = ERR_ABRT" | (rst) "e \<noteq> ERR_ABRT" "has (recv_flags (st_in s2)) TF_RESET"
      | (deliver) "e \<noteq> ERR_ABRT" "\<not> has (recv_flags (st_in s2)) TF_RESET" by blast
    then show ?thesis
    proof cases
      case rst
      have l: "live_or_opening s2 p"
        using p(2) rst by (auto simp: processed_def served_def quiet_def has_def live_opening)
      obtain s3 s4 where e: "event_err app p ERR_RST s2 = Some s3" and d: "tcp_pcb_remove app Active p s3 = Some s4"
          "tcp_free p s4 = Some s1"
        using go(3) rst by (auto elim!: bind_eq_SomeE)
      show ?thesis
        by (rule remove_live_ok [OF d event_err_ok(2) [OF e _ l]]) (use app_step_ok [OF event_err_ok(1) [OF e] p(1)] in auto)
    next
      case deliver
      then have "serving p s2 \<or> quiet s2" using p(2) by (auto simp: processed_def served_def serving_def)
      then have "final_ok (input_deliver app p s2)" using input_deliver_ok input_deliver_quiet p(1) by blast
      then show ?thesis using go(3) deliver by (auto simp: final_ok_def)
    qed (use go(3) p in auto)
  qed
  then show ?thesis by (simp add: s' idle_ok_def)
qed

text \<open>A new half-open connection.\<close>

lemma passive_syn_ok:
  assumes "passive_syn app p s = Some s'" shows "app_step s s'"
proof -
  obtain b c w rc where b: "get_pcb s p = Some b" and k: "conn_keeps c b"
    and r: "(if rc \<noteq> ERR_OK then tcp_abandon app p False (put_pcb p c (s\<lparr>st_w := w\<rparr>))
      else do { (s, err) \<leftarrow> st_output app p (put_pcb p c (s\<lparr>st_w := w\<rparr>)); Some s }) = Some s'"
  proof -
    from assms obtain b b1 b2 w c rc where b: "get_pcb s p = Some b"
      and 1: "tcp_parseopt (g_opts (st_in s)) (g_flags (st_in s)) b = Some b1"
      and 2: "tcp_enqueue_flags (ap_env app) b2 (TCP_SYN OR TCP_ACK) (st_w s) = Some (w, c, rc)"
      and 3: "conn_keeps b2 b1"
      and r: "(if rc \<noteq> ERR_OK then tcp_abandon app p False (put_pcb p c (s\<lparr>st_w := w\<rparr>))
        else do { (s, err) \<leftarrow> st_output app p (put_pcb p c (s\<lparr>st_w := w\<rparr>)); Some s }) = Some s'"
      unfolding passive_syn_def Let_def by (elim bind_eq_SomeE) (auto split: prod.splits elim!: bind_eq_SomeE)
    show ?thesis by (rule that [OF b _ r]) (use 1 2 3 in \<open>auto dest!: keeps_tcp_parseopt keeps_tcp_enqueue_flags intro: keeps_trans\<close>)
  qed
  have "app_step s (put_pcb p c (s\<lparr>st_w := w\<rparr>))" using step_put_keeps [of "s\<lparr>st_w := w\<rparr>" p b c] b k by simp
  moreover have "app_step (put_pcb p c (s\<lparr>st_w := w\<rparr>)) s'"
    using r by (auto split: if_splits elim!: bind_eq_SomeE intro: tcp_abandon_ok step_output)
  ultimately show ?thesis by (rule app_step_trans)
qed

lemma tcp_listen_input_ok:
  assumes r: "tcp_listen_input app g lp s = Some s'" and ok: "idle_ok s"
  shows "idle_ok s'"
proof -
  consider (same) "s' = s" | (rst) b where "s' = reply_rst app g b s"
    | (nomem) pr s1 arg e where "tcp_alloc app pr s = Some (s1, None)" "TCP_EVENT_ACCEPT app lp None arg ERR_MEM s1 = Some (s', e)"
    | (new) pr s1 p l iss s2 s3 s4 where "tcp_alloc app pr s = Some (s1, Some p)" "get_lpcb s1 lp = Some l"
      "tcp_next_iss s1 = (s2, iss)" "upd_pcb (passive_open g (st_in s2) lp l iss) p s2 = Some s3"
      "TCP_REG_ACTIVE app p s3 = Some s4" "passive_syn app p s4 = Some s'"
    using r unfolding tcp_listen_input_def Let_def
    by (auto split: if_splits option.splits prod.splits elim!: bind_eq_SomeE)
  then show ?thesis
  proof cases
    case nomem
    show ?thesis using idle_step [OF app_step_trans [OF tcp_alloc_ok(1) [OF nomem(1)] event_accept_none_ok [OF nomem(2)]] ok] by simp
  next
    case new
    note a = tcp_alloc_ok [OF new(1)]
    have s1: "idle_ok s1" "\<not> listed s1 p" using idle_step [OF a(1) ok] a(3) ok by (simp_all add: idle_ok_def)
    obtain b where b: "get_pcb s1 p = Some b" using a(2) by blast
    have s2: "s2 = s1\<lparr>tcp_iss := iss\<rparr>" using new(3) by (auto simp: tcp_next_iss_def)
    let ?b = "passive_open g (st_in s2) lp l iss b"
    have s3: "s3 = put_pcb p ?b s2" using new(4) b by (auto simp: upd_pcb_def s2 get_pcb_def)
    have s3_ok: "pcbs_ok s3" "cbs s3 p = Some (Conn ?b)" "tcp_input_pcb s3 = None"
      using s1 unfolding s3 by (auto simp: s2 idle_ok_def listed_def intro!: put_unlisted)
    have l: "lp \<in> set (tcp_listen_pcbs s1)"
      using new(2) s1(1) pcbs_okD(3) [of s1 lp l] by (auto simp: get_lpcb_def idle_ok_def split: option.splits cblock.splits)
    obtain s5 where s5: "TCP_REG app Active p s3 = Some s5" "s4 = s5\<lparr>tcp_active_pcbs_changed := True\<rparr>"
      using new(5) by (auto simp: TCP_REG_ACTIVE_def elim!: bind_eq_SomeE)
    have "pcbs_ok s5"
      by (rule reg_ok [OF s3_ok(1,2) _ s5(1)])
        (use l in \<open>auto simp: passive_open_def list_ok_iff conn_state_def s3 s2 put_pcb_def\<close>)
    then have "idle_ok s4" using s5(2) TCP_REG_fields [OF s5(1)] s3_ok(3) by (simp add: idle_ok_def)
    then show ?thesis using idle_step [OF passive_syn_ok [OF new(6)]] by simp
  qed (use ok in \<open>auto simp: idle_ok_def\<close>)
qed

end

lemma tcp_timewait_input_ok: "tcp_timewait_input app g p s = Some s' \<Longrightarrow> app_step s s'"
proof -
  assume r: "tcp_timewait_input app g p s = Some s'"
  then obtain b where b: "get_pcb s p = Some b" by (auto simp: tcp_timewait_input_def elim!: bind_eq_SomeE)
  have k: "app_step s (put_pcb p c s)" if "conn_keeps c b" for c using b that by (rule step_put_keeps)
  have kt: "conn_keeps (b\<lparr>tmr := t\<rparr>) b" for t by (simp add: conn_keeps_def)
  have out: "app_step s s'" if "st_output app p (put_pcb p c s) = Some (s', e)" "conn_keeps c b" for c e
    using app_step_trans [OF k step_output] that by blast
  show ?thesis using r b unfolding tcp_timewait_input_def Let_def
    by (auto simp: kt split: if_splits elim!: bind_eq_SomeE intro: k out)
qed

lemma front_ok:
  assumes "idle_ok s" "p \<in> set (the_list l s)" shows "idle_ok (upd_list l (to_front p) s)"
proof -
  have d: "distinct (the_list l s)" using pcbs_okD(1) assms(1) by (auto simp: idle_ok_def)
  have "set (to_front p (the_list l s)) = set (the_list l s)" "distinct (to_front p (the_list l s))"
    using d assms(2) by (auto simp: to_front_def)
  then have s: "set (the_list l' (upd_list l (to_front p) s)) = set (the_list l' s)"
    "distinct (the_list l' (upd_list l (to_front p) s)) = distinct (the_list l' s)" for l'
    using d by (auto simp: the_list_upd)
  have e: "the_list l' (upd_list l (to_front p) s) = [] \<longleftrightarrow> the_list l' s = []" for l'
    using s(1) [of l'] by (metis set_empty)
  show ?thesis
    using assms(1) s [of Listening] s [of Active] e [of Active] e [of Tw] s
    unfolding idle_ok_def pcbs_ok_defs by auto
qed

lemma demux_conn_in: "demux_conn f g ps s = Some (Some p) \<Longrightarrow> p \<in> set ps"
  by (induction ps) (auto split: if_splits elim!: bind_eq_SomeE)

lemma demux_listen_in: "demux_listen g ps any s = Some (Some p) \<Longrightarrow> p \<in> set ps \<or> any = Some p"
proof (induction ps arbitrary: any)
  case (Cons a ps)
  obtain l where "get_lpcb s a = Some l" using Cons.prems by (auto elim!: bind_eq_SomeE)
  then have "demux_listen g (a # ps) any s = Some (Some a) \<or> demux_listen g (a # ps) any s = demux_listen g ps any s \<or>
      demux_listen g (a # ps) any s = demux_listen g ps (Some a) s"
    by simp
  then show ?case using Cons.prems Cons.IH [of any] Cons.IH [of "Some a"] by (elim disjE) (auto simp del: demux_listen.simps)
qed simp

context tcp_application begin

lemma input_no_conn_ok:
  assumes r: "input_no_conn app g s = Some s'" and ok: "idle_ok s" shows "idle_ok s'"
proof -
  consider (tw) p where "tcp_timewait_input app g p s = Some s'"
    | (listen) lp where "lp \<in> set (the_list Listening s)" "tcp_listen_input app g lp (upd_list Listening (to_front lp) s) = Some s'"
    | "s' = s" | "s' = reply_rst app g None s"
  proof -
    obtain tw where tw: "(case tw of Some p \<Rightarrow> tcp_timewait_input app g p s
      | None \<Rightarrow> do {
          lp \<leftarrow> demux_listen g (tcp_listen_pcbs s) None s;
          (case lp of
             Some lp \<Rightarrow> tcp_listen_input app g lp (upd_list Listening (to_front lp) s)
           | None \<Rightarrow> Some (if has (g_flags (st_in s)) TCP_RST then s else reply_rst app g None s)) }) = Some s'"
      using r unfolding input_no_conn_def by (elim bind_eq_SomeE)
    show ?thesis
    proof (cases tw)
      case None
      then obtain lp where lp: "demux_listen g (tcp_listen_pcbs s) None s = Some lp"
        and c: "(case lp of Some lp \<Rightarrow> tcp_listen_input app g lp (upd_list Listening (to_front lp) s)
           | None \<Rightarrow> Some (if has (g_flags (st_in s)) TCP_RST then s else reply_rst app g None s)) = Some s'"
        using tw by (auto elim!: bind_eq_SomeE)
      show ?thesis
      proof (cases lp)
        case None
        then show ?thesis using c that(3,4) by (simp split: if_splits)
      next
        case (Some q)
        then show ?thesis using c that(2) [of q] demux_listen_in lp by fastforce
      qed
    next
      case (Some p)
      then show ?thesis using that(1) tw by simp
    qed
  qed
  then show ?thesis
  proof cases
    case tw
    then show ?thesis using idle_step [OF tcp_timewait_input_ok ok] by blast
  next
    case listen
    then show ?thesis using tcp_listen_input_ok front_ok [OF ok] by blast
  qed (use ok in \<open>simp_all add: idle_ok_def\<close>)
qed

lemma tcp_input_ok:
  assumes r: "tcp_input app g bufs s = Some s'" and ok: "idle_ok s" shows "idle_ok s'"
proof (cases "tcp_input_parse g bufs (st_in s)")
  case None
  then show ?thesis using r ok by (simp add: tcp_input_def)
next
  case (Some tin)
  let ?s = "s\<lparr>st_in := tin\<rparr>"
  have s: "idle_ok ?s" using ok by (simp add: idle_ok_def)
  consider (conn) p where "p \<in> set (the_list Active ?s)" "input_conn app g p (upd_list Active (to_front p) ?s) = Some s'"
    | (none) "input_no_conn app g ?s = Some s'"
  proof -
    obtain c where "demux_conn (\<lambda>st. st \<notin> {CLOSED, TIME_WAIT, LISTEN}) g (tcp_active_pcbs ?s) ?s = Some c"
        "(case c of Some p \<Rightarrow> input_conn app g p (upd_list Active (to_front p) ?s) | None \<Rightarrow> input_no_conn app g ?s) = Some s'"
      using r Some by (auto simp: tcp_input_def Let_def elim!: bind_eq_SomeE)
    then show ?thesis using that demux_conn_in [of _ g "tcp_active_pcbs ?s" ?s] by (cases c) auto
  qed
  then show ?thesis
  proof cases
    case conn
    obtain b where "get_pcb ?s p = Some b" "conn_state (state b)"
      using pcbs_okD(2) [OF _ conn(1)] s by (auto simp: idle_ok_def get_pcb_iff elim: list_ok.elims)
    then show ?thesis using input_conn_ok [OF conn(2) front_ok [OF s conn(1)]] by simp
  next
    case none
    then show ?thesis using input_no_conn_ok s by blast
  qed
qed

end

end
