(* ===== verification/N2t_ok.thy ===== *)
theory N2t_ok imports N2t Tcp_arrive begin

text \<open>
  The library around the stack is an application in the sense of the interface: its
  callbacks keep what \<^verbatim>\<open>tcp_application\<close> asks for, whatever the state of the sessions. So all that
  holds of the stack for such an application holds for the library.
\<close>

section \<open>Steps that leave the connections as they are\<close>

definition calm :: "'w tcp_st \<Rightarrow> 'w tcp_st \<Rightarrow> bool" where
  "calm s s' \<longleftrightarrow> app_step s s' \<and>
     (\<forall>p. (live s p \<longrightarrow> live s' p) \<and> (resting s p \<longrightarrow> resting s' p) \<and>
        (live_or_opening s p \<longrightarrow> live_or_opening s' p) \<and> kind_kept s p s')"

lemma calm_refl [simp]: "calm s s"
  by (simp add: calm_def)

lemma calm_trans: "calm s s1 \<Longrightarrow> calm s1 s' \<Longrightarrow> calm s s'"
  unfolding calm_def by (meson app_step_trans kind_trans)

lemma calm_step: "calm s s' \<Longrightarrow> app_step s s'"
  by (simp add: calm_def)

lemma calm_cb: "calm s s' \<Longrightarrow> cb_ok s p s' r"
  by (auto simp: calm_def cb_ok_def)

lemma calm_cb_trans: "calm s s1 \<Longrightarrow> cb_ok s1 p s' r \<Longrightarrow> cb_ok s p s' r"
  by (auto simp: calm_def cb_ok_def app_step_def intro: kind_trans)

lemma cb_calm_trans: "cb_ok s p s1 ERR_OK \<Longrightarrow> calm s1 s' \<Longrightarrow> cb_ok s p s' r"
  by (auto simp: calm_def cb_ok_def app_step_def intro: kind_trans)

lemma calm_put:
  assumes "get_pcb s p = Some a" "conn_keeps b a" shows "calm s (put_pcb p b (s\<lparr>st_w := w\<rparr>))"
proof -
  have "app_step s (put_pcb p b (s\<lparr>st_w := w\<rparr>))" using step_put_keeps [of "s\<lparr>st_w := w\<rparr>" p a b] assms by simp
  then show ?thesis
    using assms keeps_conn [OF assms(2)] keeps_syn_sent [OF assms(2)]
    by (auto simp: calm_def live_def live_or_opening_def resting_def kind_kept_def conn_keeps_def)
qed

lemma calm_put' : "get_pcb s p = Some a \<Longrightarrow> conn_keeps b a \<Longrightarrow> calm s (put_pcb p b s)"
  using calm_put [of s p a b "st_w s"] by simp

lemma calm_upd: "upd_pcb f p s = Some s' \<Longrightarrow> (\<And>a. conn_keeps (f a) a) \<Longrightarrow> calm s s'"
  by (auto simp: upd_pcb_def elim!: bind_eq_SomeE intro: calm_put')

lemma calm_w [simp]: "calm s (upd_w f s')= calm s s'" "calm (upd_w f s) s' = calm s s'"
  by (simp_all add: calm_def upd_w_def live_def live_or_opening_def resting_def kind_kept_def)

lemma calm_post [simp]: "calm s (asio_post i op s') = calm s s'"
  by (simp add: asio_post_def)

lemma calm_upd_sess: "upd_sess i f s = Some s' \<Longrightarrow> calm s s'"
  by (auto simp: upd_sess_def elim!: bind_eq_SomeE)

lemma calm_upd_sock: "upd_sock i f s = Some s' \<Longrightarrow> calm s s'"
  by (simp add: upd_sock_def calm_upd_sess)

lemma calm_upd_nonlisten: "upd_nonlisten f p s = Some s' \<Longrightarrow> (\<And>a. conn_keeps (f a) a) \<Longrightarrow> calm s s'"
  by (auto simp: upd_nonlisten_def split: option.splits elim!: bind_eq_SomeE intro: calm_upd)

lemma calm_setters:
  "tcp_recv q f s = Some s' \<Longrightarrow> calm s s'" "tcp_sent q f s = Some s' \<Longrightarrow> calm s s'" "tcp_err q f s = Some s' \<Longrightarrow> calm s s'"
  by (auto simp: tcp_recv_def tcp_sent_def tcp_err_def conn_keeps_def elim!: calm_upd_nonlisten)

lemma calm_arg: assumes "tcp_arg q n s = Some s'" shows "calm s s'"
proof -
  have "calm s (put_lpcb p (l\<lparr>l_callback_arg := n\<rparr>) s)" if "cbs s p = Some (Lst l)" for p l
    using step_put_lpcb [OF that, of "l\<lparr>l_callback_arg := n\<rparr>"] that
    by (auto simp: calm_def live_def live_or_opening_def resting_def kind_kept_def get_pcb_def put_lpcb_def)
  moreover have "calm s (put_pcb p (b\<lparr>callback_arg := n\<rparr>) s)" if "cbs s p = Some (Conn b)" for p b
    using that by (intro calm_put' [of _ _ b]) (simp_all add: get_pcb_iff conn_keeps_def)
  ultimately show ?thesis
    using assms by (auto simp: tcp_arg_def split: option.splits cblock.splits elim!: bind_eq_SomeE)
qed

lemma calm_output: "st_output app q s = Some (s', r) \<Longrightarrow> calm s s'"
  by (erule st_output_keeps) (auto intro: calm_put)

lemma calm_recved:
  assumes "tcp_recved app p n s = Some s'" shows "calm s s'"
proof -
  obtain b b1 inf where b: "get_pcb s p = Some b" and w: "tcp_recved_window b n = (b1, inf)"
    and r: "(if inf \<ge> TCP_WND_UPDATE_THRESHOLD
      then do { (s, err) \<leftarrow> st_output app p (put_pcb p (tcp_ack_now b1) s); Some s }
      else Some (put_pcb p b1 s)) = Some s'"
    using assms unfolding tcp_recved_def by (auto elim!: bind_eq_SomeE simp: Let_def split: prod.splits)
  have k: "conn_keeps b1 b" "conn_keeps (tcp_ack_now b1) b" using keeps_tcp_recved_window [OF w] by simp_all
  show ?thesis using r calm_put' [OF b k(1)] calm_put' [OF b k(2)]
    by (auto split: if_splits elim!: bind_eq_SomeE intro: calm_trans calm_output)
qed

section \<open>The callbacks\<close>

lemmas calm_basic = calm_upd_sess calm_upd_sock calm_setters calm_arg

lemma calm_cancel: "socket_cancel i s = Some s' \<Longrightarrow> calm s s'"
  by (auto simp: socket_cancel_def split: option.splits elim!: bind_eq_SomeE dest!: calm_basic)
    (meson calm_trans)+

lemma calm_destroy: "session_destroy i s = Some s' \<Longrightarrow> calm s s'"
  by (auto simp: session_destroy_def split: if_splits elim!: bind_eq_SomeE dest!: calm_basic calm_cancel)
    (meson calm_trans)+

lemma calm_handlers:
  "recv_handler i fr d s = Some s' \<Longrightarrow> calm s s'" "sent_handler i fr s = Some s' \<Longrightarrow> calm s s'"
  "err_handler i s = Some s' \<Longrightarrow> calm s s'"
  by (auto simp: recv_handler_def sent_handler_def err_handler_def split: if_splits elim!: bind_eq_SomeE
      dest!: calm_destroy)

lemma calm_err: "socket_err i err s = Some s' \<Longrightarrow> calm s s'"
  by (auto simp: socket_err_def split: if_splits elim!: bind_eq_SomeE dest!: calm_basic calm_handlers)
    (meson calm_trans)+

lemma calm_deliver: "socket_deliver i d s = Some s' \<Longrightarrow> calm s s'"
  by (auto simp: socket_deliver_def split: if_splits elim!: bind_eq_SomeE dest!: calm_basic calm_handlers
      intro: calm_trans)

lemma calm_sent: "socket_sent i n s = Some (s', r) \<Longrightarrow> calm s s'"
  by (auto simp: socket_sent_def split: if_splits elim!: bind_eq_SomeE dest!: calm_basic calm_handlers)
    (meson calm_trans)+

lemma calm_set_pcb:
  assumes "socket_set_pcb i p s = Some s'" shows "calm s s'"
proof -
  obtain s1 s2 where 1: "upd_sock i (\<lambda>k. k\<lparr>sk_pcb := Some p\<rparr>) s = Some s1"
    and 2: "upd_pcb (\<lambda>b. tcp_set_flags b TF_NODELAY) p s1 = Some s2"
    and r: "do { s \<leftarrow> tcp_arg (Some p) i s2; s \<leftarrow> tcp_recv (Some p) (Some 1) s; s \<leftarrow> tcp_sent (Some p) (Some 1) s;
                 tcp_err (Some p) (Some 1) s } = Some s'"
    using assms unfolding socket_set_pcb_def by (elim bind_eq_SomeE) auto
  have "calm s s2" by (rule calm_trans [OF calm_upd_sock [OF 1] calm_upd [OF 2]]) simp
  moreover have "calm s2 s'" using r by (auto elim!: bind_eq_SomeE dest!: calm_basic intro: calm_trans)
  ultimately show ?thesis by (rule calm_trans)
qed

lemma calm_async_err: "socket_async_err i s = Some s' \<Longrightarrow> calm s s'"
  by (auto simp: socket_async_err_def split: list.splits elim!: bind_eq_SomeE dest!: calm_basic calm_handlers
      intro: calm_trans)

lemma calm_start: "session_start i s = Some s' \<Longrightarrow> calm s s'"
  by (auto simp: session_start_def elim!: bind_eq_SomeE dest!: calm_basic calm_async_err intro: calm_trans)

declare async_accept.simps [simp del]

lemma calm_async_accept: "async_accept que s = Some s' \<Longrightarrow> calm s s'"
proof (induction que arbitrary: s)
  case Nil
  then show ?case by (subst (asm) async_accept.simps) (auto simp: make_session_def split: if_splits)
next
  case (Cons p que)
  from Cons.prems show ?case
    by (subst (asm) async_accept.simps)
      (auto simp: make_session_def split: if_splits elim!: bind_eq_SomeE dest!: calm_set_pcb calm_start Cons.IH
        intro: calm_trans)
qed

lemma calm_accept: "n2t_accept arg p err s = Some (s', r) \<Longrightarrow> calm s s'"
  by (auto simp: n2t_accept_def Let_def split: if_splits elim!: bind_eq_SomeE
      dest!: calm_set_pcb calm_start calm_async_accept)
    (meson calm_trans)+

section \<open>The library is an application\<close>

locale n2t_environment =
  fixes e :: "'u n2t_env"
  assumes conn_fresh: "pcbs_ok s \<Longrightarrow> ne_pcb_alloc e s = (w, Some p) \<Longrightarrow> cbs s p = None"
    and listen_fresh: "pcbs_ok s \<Longrightarrow> ne_lpcb_alloc e s = (w, Some p) \<Longrightarrow> cbs s p = None"

sublocale n2t_environment \<subseteq> base: tcp_application "n2t_base e"
  by unfold_locales
    (auto simp: n2t_base_def conn_fresh listen_fresh split: if_splits dest!: calm_err simp: calm_def)

context n2t_environment begin

lemma socket_recv_ok:
  assumes "socket_recv e i p d err s = Some (s', r)" shows "cb_ok s p s' r"
proof -
  obtain s1 where 1: "(if err \<noteq> ERR_OK \<or> d = None
        then do {
          s \<leftarrow> upd_sock i (\<lambda>k. k\<lparr>pcb_freed := True\<rparr>) s;
          (s, r) \<leftarrow> tcp_close (n2t_base e) p s;
          (if r \<noteq> ERR_OK then do { s \<leftarrow> tcp_abort (n2t_base e) p s; Some (s, ERR_ABRT) }
           else Some (s, ERR_OK)) }
        else Some (s, ERR_OK)) = Some (s1, r)"
    and 2: "calm s1 s'"
    using assms unfolding socket_recv_def
    by (elim bind_eq_SomeE) (auto split: option.splits prod.splits if_splits elim!: bind_eq_SomeE
      dest!: calm_recved calm_deliver intro: calm_trans)
  have "cb_ok s p s1 r \<and> (r = ERR_OK \<or> r = ERR_ABRT)"
  proof (cases "err \<noteq> ERR_OK \<or> d = None")
    case False
    then show ?thesis using 1 by (auto simp: cb_ok_def)
  next
    case True
    then obtain s2 s3 c where a: "calm s s2" and c: "tcp_close (n2t_base e) p s2 = Some (s3, c)"
      and r: "if c \<noteq> ERR_OK then tcp_abort (n2t_base e) p s3 = Some s1 \<and> r = ERR_ABRT else s1 = s3 \<and> r = ERR_OK"
      using 1 by (auto split: if_splits elim!: bind_eq_SomeE dest!: calm_upd_sock)
    have "cb_ok s2 p s3 ERR_OK"
      using tcp_close_ok [OF c] tcp_close_resting [OF c] tcp_close_kind [OF c] by (auto simp: cb_ok_def)
    then have cb: "cb_ok s p s3 ERR_OK" using calm_cb_trans [OF a] by simp
    show ?thesis
    proof (cases "c = ERR_OK")
      case True
      then show ?thesis using r cb by simp
    next
      case False
      then have "app_step s3 s1" "r = ERR_ABRT" using r base.tcp_abort_ok by auto
      then show ?thesis using cb by (auto simp: cb_ok_def intro: app_step_trans)
    qed
  qed
  then show ?thesis using 2 by (auto simp: cb_ok_def calm_def app_step_def intro: kind_trans)
qed

end

sublocale n2t_environment \<subseteq> stack: tcp_application "n2t_app e"
proof
  show "cb_ok s p s' r" if "ap_recv (n2t_app e) f arg p d err s = Some (s', r)" for f arg p d err s s' r
    using that socket_recv_ok by (auto simp: n2t_app_def split: if_splits)
  show "cb_ok s p s' r" if "ap_sent (n2t_app e) f arg p n s = Some (s', r)" for f arg p n s s' r
    using that by (auto simp: n2t_app_def split: if_splits dest!: calm_sent calm_cb)
  show "cb_ok s p s' r" if "ap_accept (n2t_app e) f arg (Some p) err s = Some (s', r)" for f arg p err s s' r
    using that by (auto simp: n2t_app_def split: if_splits dest!: calm_accept calm_cb)
  show "app_step s s'" if "ap_accept (n2t_app e) f arg None err s = Some (s', r)" for f arg err s s' r
    using that by (auto simp: n2t_app_def split: if_splits dest!: calm_accept calm_step)
qed (auto simp: n2t_app_def n2t_base_def conn_fresh listen_fresh calm_def split: if_splits dest!: calm_err)

section \<open>The other operations of the library\<close>

lemma keeps_write_parts:
  "tcp_write_checks b n = Some (b', r) \<Longrightarrow> conn_keeps b' b" "write_memerr b = Some (b', r) \<Longrightarrow> conn_keeps b' b"
  "write_commit b d f wp q n ov = Some b' \<Longrightarrow> conn_keeps b' b"
  by (auto simp: tcp_write_checks_def write_memerr_def write_commit_def tcp_set_flags_def conn_keeps_def Let_def
      split: if_splits elim!: bind_eq_SomeE)

lemma keeps_tcp_write:
  assumes "tcp_write e b a d f w = Some (w', b', err)" shows "conn_keeps b' b"
proof -
  obtain b1 r where 1: "tcp_write_checks b (of_nat (length d)) = Some (b1, r)"
    using assms by (auto simp: tcp_write_def Let_def elim!: bind_eq_SomeE)
  consider "b' = b1" | x where "write_memerr b1 = Some (b', x)" | wp q n ov where "write_commit b1 d f wp q n ov = Some b'"
    using assms 1 unfolding tcp_write_def Let_def
    by (auto split: option.splits if_split_asm split del: if_split elim!: bind_eq_SomeE simp del: not_None_eq)
  then show ?thesis
    by cases (use 1 in \<open>auto dest!: keeps_write_parts intro: keeps_trans\<close>)
qed

lemma calm_write:
  assumes "st_write app p d f s = Some (s', r)" shows "calm s s'"
proof -
  obtain a b w where "get_pcb s p = Some a" "conn_keeps b a" "s' = put_pcb p b (s\<lparr>st_w := w\<rparr>)"
    using assms by (auto simp: st_write_def elim!: bind_eq_SomeE dest!: keeps_tcp_write)
  then show ?thesis by (simp add: calm_put)
qed

lemma calm_async_recv: "socket_async_recv i s = Some s' \<Longrightarrow> calm s s'"
  by (auto simp: socket_async_recv_def split: if_splits elim!: bind_eq_SomeE dest!: calm_basic calm_handlers
      intro: calm_trans)

lemma calm_async_send: "socket_async_send e i d s = Some s' \<Longrightarrow> calm s s'"
  by (auto simp: socket_async_send_def split: if_splits elim!: bind_eq_SomeE
      dest!: calm_basic calm_handlers calm_write calm_output)
    (meson calm_trans)+

lemma calm_out_recv: "out_recv e i d s = Some s' \<Longrightarrow> calm s s'"
  by (auto simp: out_recv_def in_async_write_def split: session_status.splits if_splits elim!: bind_eq_SomeE
      dest!: calm_basic calm_async_recv calm_async_send calm_destroy intro: calm_trans)
    (meson calm_trans)+

lemma calm_out_sent: "out_sent i failed s = Some s' \<Longrightarrow> calm s s'"
  by (auto simp: out_sent_def split: session_status.splits if_splits elim!: bind_eq_SomeE
      dest!: calm_async_recv calm_destroy)

lemma calm_asio_done: "asio_done e i op failed d s = Some s' \<Longrightarrow> calm s s'"
  by (auto simp: asio_done_def out_connected_def out_read_done_def Let_def split: asio_op.splits if_splits
      dest!: calm_destroy calm_out_recv calm_out_sent)

section \<open>An environment\<close>

text \<open>One interface, memory for sixteen blocks, packets are appended to a list.\<close>

definition proxy_netif :: netif where
  "proxy_netif = \<lparr>netif_ip_addr = ip_addr_copy_from_ip4 0x0100000a, netif_netmask = ip_addr_copy_from_ip4 0x00ffffff,
     netif_gw = ip_addr_copy_from_ip4 0, netif_ip6_addr = [], netif_ip6_addr_state = [],
     netif_mtu = 1500, netif_mtu6 = 1500, netif_flags = 5, netif_num = 0\<rparr>"

type_synonym packets = "u8 list list"

definition proxy_tcp_env :: "packets n2t tcp_env" where
  "proxy_tcp_env =
     \<lparr>te_pbuf_alloc = (\<lambda>l n t w. (w, Some [])), te_seg_alloc = (\<lambda>w. (w, True)),
      te_netif_get_by_index = (\<lambda>w i. Some proxy_netif), te_ip_route = (\<lambda>w s d. Some proxy_netif),
      te_ip6_select_source_address = (\<lambda>w n a. None), te_nd6_get_destination_mtu = (\<lambda>w a n. 1280),
      te_nd6_reachability_hint = (\<lambda>w. w), te_segment_busy = (\<lambda>w s. False),
      te_ip_output_if = (\<lambda>p src dst tt ts proto n w. (w\<lparr>n2_user := n2_user w @ [p]\<rparr>, ERR_OK))\<rparr>"

definition first_free :: "'w tcp_st \<Rightarrow> nat option" where
  "first_free s = find (\<lambda>p. cbs s p = None) [1..<17]"

definition proxy_env :: "packets n2t_env" where
  "proxy_env =
     \<lparr>ne_tcp = proxy_tcp_env, ne_pcb_alloc = (\<lambda>s. (st_w s, first_free s)), ne_lpcb_alloc = (\<lambda>s. (st_w s, first_free s)),
      ne_sys_timeout = (\<lambda>w. w), ne_split_64k = (\<lambda>d. min 65535 (length d)), ne_v4 = (\<lambda>a. \<not> IP_IS_V6_VAL a),
      ne_bytes = (\<lambda>a. concat (map (\<lambda>x. map (\<lambda>i. ucast (drop_bit (8 * i) x)) [0..<4])
         [addr0 (u_addr a), addr1 (u_addr a), addr2 (u_addr a), addr3 (u_addr a)]))\<rparr>"

interpretation proxy: n2t_environment proxy_env
  by unfold_locales (auto simp: proxy_env_def first_free_def find_Some_iff)

end
