(* ===== verification/Tcp_state.thy ===== *)
theory Tcp_state imports Tcp_arrive begin

text \<open>
  The state machine of \<^verbatim>\<open>tcp_process\<close> against the diagram of RFC 793: which state a segment takes a
  synchronized connection to is a function of the state, of whether a FIN has been delivered and of
  whether all that was sent is acknowledged.
\<close>

section \<open>Where the state changes\<close>

text \<open>Below \<^verbatim>\<open>tcp_process\<close> only the delivery of a queued FIN changes the state.\<close>

definition fin_moves :: "tcp_pcb \<Rightarrow> tcp_in \<Rightarrow> tcp_pcb \<Rightarrow> bool" where
  "fin_moves b' tin' b \<longleftrightarrow> state b' = state b \<or>
     state b = ESTABLISHED \<and> state b' = CLOSE_WAIT \<and> has (recv_flags tin') TF_GOT_FIN"

lemma state_flags [simp]: "state (tcp_set_flags b f) = state b" "state (tcp_clear_flags b f) = state b"
  "state (tcp_ack_now b) = state b" "state (tcp_ack b) = state b"
  by (simp_all add: tcp_set_flags_def tcp_clear_flags_def tcp_ack_now_def tcp_ack_def)

lemma state_parse [simp]: "state (parse_mss b m) = state b" "state (parse_sack_perm fl b) = state b"
  by (simp_all add: parse_mss_def parse_sack_perm_def)

lemma state_parse_ws: "parse_ws fl b d = Some b' \<Longrightarrow> state b' = state b"
  by (auto simp: parse_ws_def Let_def split: if_splits elim!: bind_eq_SomeE)

lemma state_parseopt_loop: "parseopt_loop os fl b idx = Some b' \<Longrightarrow> state b' = state b"
  apply (erule parseopt_loop.raw_induct [of "\<lambda>os fl b idx b'. state b' = state b", rotated])
  subgoal premises prems using prems(2)
    by (auto split: if_splits elim!: bind_eq_SomeE dest!: prems(1) simp: state_parse_ws)
  done

lemma state_tcp_parseopt: "tcp_parseopt os fl b = Some b' \<Longrightarrow> state b' = state b"
  by (auto simp: tcp_parseopt_def split: if_splits dest: state_parseopt_loop)

lemma state_rcv_parts:
  "rcv_trim_front b tin = Some (b', tin') \<Longrightarrow> state b' = state b"
  "rcv_fit_ooseq b tin = Some (b', tin') \<Longrightarrow> state b' = state b"
  "rcv_advance n l b = Some b' \<Longrightarrow> state b' = state b"
  "rcv_out_of_order m b tin = Some (b', tin', as) \<Longrightarrow> state b' = state b"
  by (auto simp: rcv_trim_front_def rcv_fit_ooseq_def rcv_advance_def tcp_update_rcv_ann_wnd_def rcv_out_of_order_def
      oos_add_sack_def Let_def split: if_splits prod.splits list.splits elim!: bind_eq_SomeE)

lemma state_rcv_pass_up: "rcv_pass_up b tin = Some (b', tin') \<Longrightarrow> state b' = state b"
  by (auto simp: rcv_pass_up_def Let_def split: if_splits elim!: bind_eq_SomeE dest!: state_rcv_parts(3))

lemma got_fin_set [simp]: "has (f OR TF_GOT_FIN) TF_GOT_FIN" for f :: u8
proof -
  have "(f OR TF_GOT_FIN) AND TF_GOT_FIN = TF_GOT_FIN" by (rule bit_word_eqI) (auto simp: bit_simps)
  then show ?thesis by (simp add: has_def TF_GOT_FIN_def)
qed

lemma rcv_dequeue_moves:
  "rcv_dequeue b tin q = Some (b', tin') \<Longrightarrow> fin_moves b' tin' b \<and>
    (has (recv_flags tin) TF_GOT_FIN \<longrightarrow> has (recv_flags tin') TF_GOT_FIN)"
proof (induction q arbitrary: b tin)
  case (Cons s q)
  from Cons.prems show ?case
    by (auto simp: Let_def fin_moves_def split: if_splits elim!: bind_eq_SomeE dest!: Cons.IH state_rcv_parts(3))
qed (auto simp: fin_moves_def)

lemma state_tidy_sacks [simp]: "state (rcv_tidy_sacks b) = state b"
  by (simp add: rcv_tidy_sacks_def tcp_remove_sacks_lt_def split: list.split prod.split)

lemma rcv_in_order_moves:
  assumes "rcv_in_order v6 b tin = Some (b', tin', as)" shows "fin_moves b' tin' b"
proof -
  obtain t1 b2 t2 b3 t3 b4 where
      "rcv_fit_ooseq b t1 = Some (b2, t2)" "rcv_pass_up b2 t2 = Some (b3, t3)"
      "rcv_dequeue b3 t3 (ooseq b3) = Some (b4, tin')" "b' = tcp_ack (rcv_tidy_sacks b4)"
    using assms by (auto simp: rcv_in_order_def Let_def elim!: bind_eq_SomeE)
  then show ?thesis
    by (auto simp: fin_moves_def dest!: state_rcv_parts(2) state_rcv_pass_up rcv_dequeue_moves)
qed

lemma receive_text_moves: "tcp_receive_text v6 m b tin = Some (b', tin', as) \<Longrightarrow> fin_moves b' tin' b"
  by (auto simp: tcp_receive_text_def fin_moves_def split: if_splits elim!: bind_eq_SomeE
      dest!: state_rcv_parts(1,4) rcv_in_order_moves)

lemma state_send_empty_ack: "tcp_send_empty_ack e b w = (w', b', err) \<Longrightarrow> state b' = state b"
  by (auto simp: tcp_send_empty_ack_def tcp_output_alloc_header_def Let_def split: prod.splits option.splits if_splits)

lemma state_run_rx_actions: "run_rx_actions e as (w, b) = (w', b') \<Longrightarrow> state b' = state b"
proof (induction as arbitrary: w b)
  case (Cons a as)
  then show ?case by (cases a) (auto split: prod.splits dest!: state_send_empty_ack)
qed auto

lemma state_ack [simp]: "state (ack_update_window b tin) = state b" "state (ack_congestion b n) = state b"
  "state (ack_end_rto b) = state b" "state (ack_rtt t b tin) = state b" "state (ack_duplicate e b tin r w) = state b"
  by (simp_all add: ack_update_window_def ack_congestion_def ack_end_rto_def ack_rtt_def ack_duplicate_def Let_def
      split: list.split)

lemma state_receive_ack: "tcp_receive_ack e t v6 b tin w = Some (w', b', tin') \<Longrightarrow> state b' = state b"
  by (auto simp: tcp_receive_ack_def ack_new_data_def Let_def split: if_splits prod.splits elim!: bind_eq_SomeE
      dest!: state_send_empty_ack)

lemma tcp_receive_moves:
  assumes "tcp_receive e t v6 b tin w = Some (w', b', tin')" shows "fin_moves b' tin' b"
proof -
  obtain w1 b1 t1 w2 b2 as w3 where a:
      "tcp_receive_ack e t v6 b tin w = Some (w1, b1, t1)" "receive_copy e v6 b1 t1 w1 = (w2, Some (b2, tin', as))"
      "run_rx_actions e as (w2, b2) = (w3, b')"
    using assms by (auto simp: tcp_receive_def split: prod.splits elim!: bind_eq_SomeE)
  have "fin_moves b2 tin' b1"
    using a(2) by (auto simp: receive_copy_def split: if_splits prod.splits dest: receive_text_moves)
  then show ?thesis using state_receive_ack [OF a(1)] state_run_rx_actions [OF a(3)] by (simp add: fin_moves_def)
qed

section \<open>The acknowledgement of the segment\<close>

definition ack_of :: "tcp_in \<Rightarrow> u8 \<times> u32" where
  "ack_of tin = (g_flags tin, g_ackno tin)"

lemma ack_of_dequeue: "rcv_dequeue b tin q = Some (b', tin') \<Longrightarrow> ack_of tin' = ack_of tin"
proof (induction q arbitrary: b tin)
  case (Cons s q)
  from Cons.prems show ?case
    by (auto simp: Let_def ack_of_def split: if_splits elim!: bind_eq_SomeE dest!: Cons.IH)
qed auto

lemma ack_of_parts:
  "rcv_trim_front b tin = Some (b', tin') \<Longrightarrow> ack_of tin' = ack_of tin"
  "rcv_trim_wnd b tin = Some tin' \<Longrightarrow> ack_of tin' = ack_of tin"
  "rcv_fit_ooseq b tin = Some (b', tin') \<Longrightarrow> ack_of tin' = ack_of tin"
  "rcv_pass_up b tin = Some (b', tin') \<Longrightarrow> ack_of tin' = ack_of tin"
  "rcv_out_of_order m b tin = Some (b', tin', as) \<Longrightarrow> ack_of tin' = ack_of tin"
  by (auto simp: rcv_trim_front_def rcv_trim_wnd_def rcv_fit_ooseq_def rcv_pass_up_def rcv_out_of_order_def ack_of_def
      Let_def split: if_splits prod.splits list.splits elim!: bind_eq_SomeE)

lemma ack_of_in_order:
  assumes "rcv_in_order v6 b tin = Some (b', tin', as)" shows "ack_of tin' = ack_of tin"
proof -
  obtain t1 b2 t2 b3 t3 b4 where "rcv_trim_wnd b tin = Some t1"
      "rcv_fit_ooseq b t1 = Some (b2, t2)" "rcv_pass_up b2 t2 = Some (b3, t3)"
      "rcv_dequeue b3 t3 (ooseq b3) = Some (b4, tin')"
    using assms by (auto simp: rcv_in_order_def Let_def elim!: bind_eq_SomeE)
  then show ?thesis by (simp add: ack_of_dequeue ack_of_parts)
qed

lemma ack_of_receive_text: "tcp_receive_text v6 m b tin = Some (b', tin', as) \<Longrightarrow> ack_of tin' = ack_of tin"
  by (auto simp: tcp_receive_text_def split: if_splits elim!: bind_eq_SomeE
      dest!: ack_of_parts(1,5) ack_of_in_order)

lemma ack_of_receive_ack: "tcp_receive_ack e t v6 b tin w = Some (w', b', tin') \<Longrightarrow> ack_of tin' = ack_of tin"
  by (auto simp: tcp_receive_ack_def ack_new_data_def ack_of_def Let_def split: if_splits prod.splits
      elim!: bind_eq_SomeE)

lemma ack_of_tcp_receive: "tcp_receive e t v6 b tin w = Some (w', b', tin') \<Longrightarrow> ack_of tin' = ack_of tin"
  by (auto simp: tcp_receive_def receive_copy_def Let_def split: if_splits prod.splits elim!: bind_eq_SomeE
      dest!: ack_of_receive_text ack_of_receive_ack)

section \<open>The diagram\<close>

definition rfc793_arrival :: "bool \<Rightarrow> bool \<Rightarrow> tcp_state \<Rightarrow> tcp_state" where
  "rfc793_arrival fin acked st =
     (case st of
        ESTABLISHED \<Rightarrow> (if fin then CLOSE_WAIT else ESTABLISHED)
      | FIN_WAIT_1 \<Rightarrow> (if fin then if acked then TIME_WAIT else CLOSING
                        else if acked then FIN_WAIT_2 else FIN_WAIT_1)
      | FIN_WAIT_2 \<Rightarrow> (if fin then TIME_WAIT else FIN_WAIT_2)
      | CLOSING \<Rightarrow> (if acked then TIME_WAIT else CLOSING)
      | _ \<Rightarrow> st)"

definition all_acked :: "tcp_in \<Rightarrow> tcp_pcb \<Rightarrow> bool" where
  "all_acked tin b \<longleftrightarrow> has (g_flags tin) TCP_ACK \<and> g_ackno tin = snd_nxt b \<and> unsent b = []"

lemma enter_time_wait_block:
  assumes "enter_time_wait app p s = Some s'" "get_pcb s p = Some b"
  shows "get_pcb s' p = Some ((tcp_pcb_purge b)\<lparr>state := TIME_WAIT\<rparr>)" "st_in s' = st_in s" "p \<in> set (tcp_tw_pcbs s')"
  using assms
  by (auto simp: enter_time_wait_def upd_pcb_def TCP_RMV_ACTIVE_def TCP_RMV_def TCP_REG_def tcp_timer_needed_def
      get_pcb_def upd_list.simps split: if_splits)

lemma purge_fields: "snd_nxt (tcp_pcb_purge b) = snd_nxt b"
  "state b \<notin> {CLOSED, TIME_WAIT, LISTEN} \<Longrightarrow> unsent (tcp_pcb_purge b) = []"
  by (auto simp: tcp_pcb_purge_def tcp_free_ooseq_def)

lemma all_acked_fields [simp]:
  "all_acked tin (tcp_ack_now b) = all_acked tin b" "all_acked tin (b\<lparr>state := st\<rparr>) = all_acked tin b"
  by (simp_all add: all_acked_def tcp_ack_now_def tcp_set_flags_def)

lemma fin_acked_all: "fin_acked tin b = all_acked tin b"
  by (simp add: fin_acked_def all_acked_def)

lemma all_acked_purge: "all_acked tin b \<Longrightarrow> all_acked tin (tcp_pcb_purge b)"
  by (auto simp: all_acked_def tcp_pcb_purge_def tcp_free_ooseq_def)

lemma get_set_recv_flags [simp]: "get_pcb (set_recv_flags f s) p = get_pcb s p"
  by (simp add: set_recv_flags_def)

lemma set_recv_closed: "has (recv_flags (st_in (set_recv_flags TF_CLOSED s))) TF_CLOSED"
  by (simp add: set_recv_flags_def) (simp add: has_def TF_CLOSED_def)

lemma enter_time_wait_in: "enter_time_wait app p s = Some s' \<Longrightarrow> st_in s' = st_in s"
  by (cases "get_pcb s p") (simp add: enter_time_wait_def upd_pcb_def, erule enter_time_wait_block(2))

lemma closed_got_fin [simp]: "\<not> has TF_CLOSED TF_GOT_FIN"
  by (simp add: has_def TF_CLOSED_def TF_GOT_FIN_def)

lemma after_receive_got_fin:
  assumes "after_receive app st p s = Some s'"
  shows "has (recv_flags (st_in s')) TF_GOT_FIN = has (recv_flags (st_in s)) TF_GOT_FIN"
proof -
  obtain c where c: "get_pcb s p = Some c" using assms by (auto simp: after_receive_def elim!: bind_eq_SomeE)
  show ?thesis
    using assms
    by (cases st) (simp_all add: after_receive_def c Let_def set_recv_flags_def split: if_splits, (auto dest!: enter_time_wait_in)?)
qed

text \<open>The state after a segment, in terms of the block that \<^verbatim>\<open>tcp_receive\<close> left.\<close>

definition arrived :: "nat \<Rightarrow> tcp_in \<Rightarrow> tcp_state \<Rightarrow> 'w tcp_st \<Rightarrow> bool" where
  "arrived p tin st s' \<longleftrightarrow> (\<exists>b'. get_pcb s' p = Some b' \<and>
    state b' = rfc793_arrival (has (recv_flags tin) TF_GOT_FIN) (all_acked tin b') st \<and>
    (st = LAST_ACK \<and> all_acked tin b' \<longrightarrow> has (recv_flags (st_in s')) TF_CLOSED) \<and>
    (state b' = TIME_WAIT \<longrightarrow> p \<in> set (tcp_tw_pcbs s')))"

lemma arrivedI:
  assumes "get_pcb s' p = Some b'" "state b' = rfc793_arrival (has (recv_flags tin) TF_GOT_FIN) (all_acked tin b') st"
    "st = LAST_ACK \<Longrightarrow> all_acked tin b' \<Longrightarrow> has (recv_flags (st_in s')) TF_CLOSED"
    "state b' = TIME_WAIT \<Longrightarrow> p \<in> set (tcp_tw_pcbs s')"
  shows "arrived p tin st s'"
  using assms by (auto simp: arrived_def)

lemma arrived_put:
  assumes "state d = rfc793_arrival (has (recv_flags tin) TF_GOT_FIN) (all_acked tin d) st" "state d \<noteq> TIME_WAIT" "st \<noteq> LAST_ACK"
  shows "arrived p tin st (put_pcb p d s)"
  by (rule arrivedI [of _ _ d]) (use assms in auto)

lemma arrived_time_wait:
  assumes e: "enter_time_wait app p s = Some s'" "get_pcb s p = Some d"
    and t: "all_acked tin d \<or> st = FIN_WAIT_2" "rfc793_arrival (has (recv_flags tin) TF_GOT_FIN) True st = TIME_WAIT" "st \<noteq> LAST_ACK"
  shows "arrived p tin st s'"
proof (rule arrivedI)
  show "get_pcb s' p = Some ((tcp_pcb_purge d)\<lparr>state := TIME_WAIT\<rparr>)" by (rule enter_time_wait_block [OF e])
  show "state ((tcp_pcb_purge d)\<lparr>state := TIME_WAIT\<rparr>) = rfc793_arrival (has (recv_flags tin) TF_GOT_FIN)
      (all_acked tin ((tcp_pcb_purge d)\<lparr>state := TIME_WAIT\<rparr>)) st"
  proof (cases "all_acked tin d")
    case True
    then show ?thesis using t(2) by (simp add: all_acked_purge)
  next
    case False
    then show ?thesis using t by (simp add: rfc793_arrival_def)
  qed
qed (use t enter_time_wait_block(3) [OF e] in auto)

lemma after_receive_rfc793:
  assumes r: "after_receive app st p s = Some s'" and c: "get_pcb s p = Some c" "fin_moves c (st_in s) a" "state a = st"
    and st: "st \<in> {ESTABLISHED, CLOSE_WAIT, FIN_WAIT_1, FIN_WAIT_2, CLOSING, LAST_ACK}"
  shows "arrived p (st_in s) st s'"
proof -
  have same: "state c = st" if "st \<noteq> ESTABLISHED \<or> \<not> has (recv_flags (st_in s)) TF_GOT_FIN"
    using c(2,3) that by (auto simp: fin_moves_def)
  have put: "put_pcb p c s = s" using c(1) by (simp add: put_pcb_def get_pcb_iff fun_upd_idem)
  have stay: "arrived p (st_in s) st s"
    if "state c = rfc793_arrival (has (recv_flags (st_in s)) TF_GOT_FIN) (all_acked (st_in s) c) st"
      "state c \<noteq> TIME_WAIT" "st = LAST_ACK \<Longrightarrow> \<not> all_acked (st_in s) c"
    by (rule arrivedI [OF c(1)]) (use that in auto)
  from st consider "st = ESTABLISHED \<or> st = CLOSE_WAIT" | "st = FIN_WAIT_1" | "st = FIN_WAIT_2" | "st = CLOSING" | "st = LAST_ACK"
    by auto
  then show ?thesis
  proof cases
    case 1
    then show ?thesis using r stay same
      by (auto simp: after_receive_def c(1) Let_def rfc793_arrival_def split: if_splits intro!: arrived_put)
  next
    case 2
    then show ?thesis using r stay same
      by (auto simp: after_receive_def c(1) Let_def rfc793_arrival_def fin_acked_all split: if_splits intro!: arrived_put
          intro: arrived_time_wait)
  next
    case 3
    then show ?thesis using r stay same
      by (auto simp: after_receive_def c(1) Let_def rfc793_arrival_def split: if_splits intro: arrived_time_wait)
  next
    case 4
    then show ?thesis using r stay same
      by (auto simp: after_receive_def c(1) Let_def rfc793_arrival_def fin_acked_all split: if_splits intro: arrived_time_wait)
  next
    case 5
    then show ?thesis using r stay same
      by (auto simp: after_receive_def c(1) Let_def rfc793_arrival_def fin_acked_all set_recv_closed
          split: if_splits intro: arrivedI [of _ _ c])
  qed
qed

end
