(* ===== verification/Tcp_wire.thy ===== *)
theory Tcp_wire imports Tcp_txf begin

text \<open>
  What the send path hands to IP, read as a receiver reads it: sequence and
  acknowledgement number, header length, flags and data of a packet. The locale \<open>tcp_wire\<close> is the
  interface TCP uses of the layer below (buffers of the size asked for, and
  \<^verbatim>\<open>ip_output_if\<close> as the only call that sends something); under it every packet that
  \<^verbatim>\<open>tcp_output\<close> and the senders of control segments emit carries the bytes of the stream at its
  sequence number, within the window, and a checksum that verifies.
\<close>

section \<open>Reading a packet\<close>

definition wire_seq :: "u8 list \<Rightarrow> u32" where
  "wire_seq p = lwip_ntohl (ld32 (p ! 4) (p ! 5) (p ! 6) (p ! 7))"

definition wire_ack :: "u8 list \<Rightarrow> u32" where
  "wire_ack p = lwip_ntohl (ld32 (p ! 8) (p ! 9) (p ! 10) (p ! 11))"

definition wire_hdrlen :: "u8 list \<Rightarrow> nat" where
  "wire_hdrlen p = 4 * (unat (p ! 12) div 16)"

definition wire_data :: "u8 list \<Rightarrow> u8 list" where
  "wire_data p = drop (wire_hdrlen p) p"

definition wire_chksum_good :: "ip_addr_t \<Rightarrow> ip_addr_t \<Rightarrow> u8 list \<Rightarrow> bool" where
  "wire_chksum_good src dst p \<longleftrightarrow>
     chksum_spec (ip_pseudo_header src dst IP_PROTO_TCP (of_nat (length p)) @ p) = -1"

text \<open>A packet with stream bytes from position \<open>k\<close> on, none behind position \<open>lim\<close>.\<close>

definition wire_part :: "u32 \<Rightarrow> u8 list \<Rightarrow> nat \<Rightarrow> tcp_pcb \<Rightarrow> u8 list \<Rightarrow> bool" where
  "wire_part i S lim pcb p \<longleftrightarrow>
     wire_chksum_good (local_ip pcb) (remote_ip pcb) p \<and> wire_ack p = rcv_nxt pcb \<and>
     (\<exists>k. wire_seq p = sq i k \<and> wire_data p = take (length (wire_data p)) (drop k S) \<and>
          (wire_data p \<noteq> [] \<longrightarrow> k + length (wire_data p) \<le> lim))"

lemma bit_ld32: "n < 32 \<Longrightarrow> bit (ld32 a b c d) n \<longleftrightarrow>
    (if n < 8 then bit a n else if n < 16 then bit b (n - 8) else if n < 24 then bit c (n - 16) else bit d (n - 24))"
  by (auto simp: ld32_def bit_simps dest: bit_u8)

lemma u32_byte_cases:
  assumes "n < (32 :: nat)"
  obtains k where "k < 8" "n = k" | k where "k < 8" "n = 8 + k" | k where "k < 8" "n = 16 + k"
  | k where "k < 8" "n = 24 + k"
proof -
  consider "n < 8" | "8 \<le> n" "n < 16" | "16 \<le> n" "n < 24" | "24 \<le> n" by linarith
  then show ?thesis
  proof cases
    case 1
    then show ?thesis using that(1) by blast
  next
    case 2
    then show ?thesis using that(2) [of "n - 8"] by simp
  next
    case 3
    then show ?thesis using that(3) [of "n - 16"] by simp
  next
    case 4
    then show ?thesis using that(4) [of "n - 24"] assms by simp
  qed
qed

lemma ld32_bytes: "ld32 (ucast x) (ucast (drop_bit 8 x)) (ucast (drop_bit 16 x)) (ucast (drop_bit 24 x)) = x"
proof (rule bit_word_eqI)
  fix n assume "n < LENGTH(32)"
  then have "n < 32" by simp
  then show "bit (ld32 (ucast x) (ucast (drop_bit 8 x)) (ucast (drop_bit 16 x)) (ucast (drop_bit 24 x))) n = bit x n"
    by (rule u32_byte_cases) (simp_all add: bit_ld32 bit_simps)
qed

lemma bit_htonl:
  assumes "k < 8"
  shows "bit (lwip_htonl x) k = bit x (24 + k)" "bit (lwip_htonl x) (8 + k) = bit x (16 + k)"
    "bit (lwip_htonl x) (16 + k) = bit x (8 + k)" "bit (lwip_htonl x) (24 + k) = bit x k"
proof -
  have m: "(0x000000ff :: u32) = mask 8" "(0x0000ff00 :: u32) = push_bit 8 (mask 8)"
    "(0x00ff0000 :: u32) = push_bit 16 (mask 8)" "(0xff000000 :: u32) = push_bit 24 (mask 8)"
    by (simp_all add: mask_eq_exp_minus_1)
  show "bit (lwip_htonl x) k = bit x (24 + k)" "bit (lwip_htonl x) (8 + k) = bit x (16 + k)"
    "bit (lwip_htonl x) (16 + k) = bit x (8 + k)" "bit (lwip_htonl x) (24 + k) = bit x k"
    unfolding lwip_htonl_def m using assms by (simp_all add: bit_simps add.commute)
qed

declare htonl_htonl [simp]

lemma tcp_hdr_fields:
  fixes src dst hlen wnd :: u16 and sn ackno :: u32 and fl :: u8 and rest :: "u8 list"
  defines "p \<equiv> tcp_hdr_bytes src dst (lwip_htonl sn) ackno hlen fl wnd @ rest"
  assumes hlen: "hlen < 16"
  shows "wire_seq p = sn" "wire_ack p = ackno" "wire_hdrlen p = 4 * unat hlen" "length p = 20 + length rest"
proof -
  have h: "p ! 12 = ucast (drop_bit 8 (push_bit 12 hlen OR ucast fl :: u16))"
    by (simp only: p_def tcp_hdr_bytes_def u16_bytes_htons) (simp add: be16_bytes_def u32_bytes_def nth_append)
  have hb: "bit hlen k \<Longrightarrow> k < 4" for k
  proof (rule ccontr)
    assume b: "bit hlen k" "\<not> k < 4"
    have "uint hlen < 2 ^ 4" using hlen by (simp add: word_less_def)
    also have "(2 :: int) ^ 4 \<le> 2 ^ k" using b(2) by (intro power_increasing) simp_all
    finally have "uint hlen div 2 ^ k = 0" by (simp add: div_pos_pos_trivial)
    then have "\<not> bit (uint hlen) k" by (simp add: bit_iff_odd)
    then show False using b(1) by (auto simp: bit_uint_iff dest: bit_u16)
  qed
  have "drop_bit 8 (push_bit 12 hlen OR ucast fl :: u16) = push_bit 4 hlen"
    by (intro bit_word_eqI) (auto simp: bit_simps dest: bit_u8 hb)
  moreover have "unat (push_bit 4 hlen) = 16 * unat hlen"
    using hlen by (simp add: push_bit_eq_mult unat_word_ariths word_less_nat_alt)
  ultimately have "unat (p ! 12) = 16 * unat hlen"
    using hlen by (simp add: h unat_low_byte word_less_nat_alt)
  then show "wire_hdrlen p = 4 * unat hlen" by (simp add: wire_hdrlen_def)
  show "wire_seq p = sn" "wire_ack p = ackno" "length p = 20 + length rest"
    by (simp_all add: p_def wire_seq_def wire_ack_def tcp_hdr_bytes_def u16_bytes_def u32_bytes_def nth_append
        lwip_ntohl_def ld32_bytes)
qed

text \<open>\<^verbatim>\<open>tcp_set_chksum\<close> changes the checksum field only, and the checksum verifies then.\<close>

lemma set_chksum_split:
  assumes "18 \<le> length p" and "p ! 16 = 0" and "p ! 17 = 0"
  obtains c where "p = take 16 p @ [0, 0] @ drop 18 p"
    "tcp_set_chksum src dst p = take 16 p @ [ucast c, ucast (drop_bit 8 c)] @ drop 18 p"
    "c = NOT (chksum_spec (ip_pseudo_header src dst IP_PROTO_TCP (of_nat (length p)) @ p))"
proof -
  have "drop 16 p = p ! 16 # p ! 17 # drop 18 p"
    using assms(1) Cons_nth_drop_Suc [of 16 p] Cons_nth_drop_Suc [of 17 p] by (simp add: numeral_eq_Suc)
  then have "p = take 16 p @ [0, 0] @ drop 18 p"
    using append_take_drop_id [of 16 p] assms(2,3) by simp
  then show ?thesis by (rule that) (simp_all add: tcp_set_chksum_def u16_bytes_def)
qed

lemma set_chksum_fields:
  assumes "18 \<le> length p" and "p ! 16 = 0" and "p ! 17 = 0"
  shows "length (tcp_set_chksum src dst p) = length p" "k < 16 \<Longrightarrow> tcp_set_chksum src dst p ! k = p ! k"
    "18 \<le> k \<Longrightarrow> drop k (tcp_set_chksum src dst p) = drop k p"
    "wire_chksum_good src dst (tcp_set_chksum src dst p)"
proof -
  obtain c where c: "p = take 16 p @ [0, 0] @ drop 18 p"
    "tcp_set_chksum src dst p = take 16 p @ [ucast c, ucast (drop_bit 8 c)] @ drop 18 p"
    "c = NOT (chksum_spec (ip_pseudo_header src dst IP_PROTO_TCP (of_nat (length p)) @ p))"
    using set_chksum_split [OF assms] .
  have l: "length (take 16 p) = 16" using assms(1) by simp
  show len: "length (tcp_set_chksum src dst p) = length p" using assms(1) by (simp add: c(2))
  show "tcp_set_chksum src dst p ! k = p ! k" if "k < 16" using that l by (simp add: c(2) nth_append)
  show "drop k (tcp_set_chksum src dst p) = drop k p" if "18 \<le> k"
  proof -
    have "drop 18 (tcp_set_chksum src dst p) = drop 18 p" using l by (simp add: c(2))
    then have "drop (k - 18) (drop 18 (tcp_set_chksum src dst p)) = drop (k - 18) (drop 18 p)" by (rule arg_cong)
    then show ?thesis using that by (simp add: drop_drop)
  qed
  let ?h = "ip_pseudo_header src dst IP_PROTO_TCP (of_nat (length p))"
  have "even (length (?h @ take 16 p))" using even_pseudo_header l by simp
  moreover have "c = NOT (chksum_spec ((?h @ take 16 p) @ [0, 0] @ drop 18 p))"
    using c(1,3) by simp
  ultimately have "chksum_spec ((?h @ take 16 p) @ [ucast c, ucast (drop_bit 8 c)] @ drop 18 p) = -1"
    by (rule chksum_spec_zero_field(1))
  then show "wire_chksum_good src dst (tcp_set_chksum src dst p)"
    by (simp add: wire_chksum_good_def len) (simp add: c(2))
qed

text \<open>The packets of the two kinds: a header with options of the given length, then data.\<close>

lemma wire_packet:
  fixes hlen sp dp wnd :: u16 and sn ackno :: u32 and fl :: u8 and opts data :: "u8 list" and src dst :: ip_addr_t
  assumes hlen: "hlen < 16" and opts: "20 + length opts = 4 * unat hlen"
  defines "p \<equiv> tcp_set_chksum src dst (tcp_hdr_bytes sp dp (lwip_htonl sn) ackno hlen fl wnd @ opts @ data)"
  shows "wire_seq p = sn" "wire_ack p = ackno" "wire_data p = data" "wire_chksum_good src dst p"
proof -
  define q where "q = tcp_hdr_bytes sp dp (lwip_htonl sn) ackno hlen fl wnd @ opts @ data"
  note f = tcp_hdr_fields [OF hlen, of sp dp sn ackno fl wnd "opts @ data", folded q_def]
  have q: "18 \<le> length q" "q ! 16 = 0" "q ! 17 = 0"
    by (simp_all add: q_def tcp_hdr_bytes_def u16_bytes_def u32_bytes_def nth_append)
  note s = set_chksum_fields [OF q, where src = src and dst = dst]
  have p: "p = tcp_set_chksum src dst q" by (simp add: p_def q_def)
  show "wire_seq p = sn" "wire_ack p = ackno"
    using f(1,2) by (simp_all add: p wire_seq_def wire_ack_def s(2))
  have h: "wire_hdrlen p = 4 * unat hlen" using f(3) by (simp add: p wire_hdrlen_def s(2))
  have "wire_data p = drop (4 * unat hlen) q" using opts by (simp add: wire_data_def h, simp add: p s(3))
  also have "\<dots> = data"
    using opts by (simp add: q_def tcp_hdr_bytes_def opts [symmetric])
  finally show "wire_data p = data" .
  show "wire_chksum_good src dst p" by (simp add: p s(4))
qed

section \<open>The window\<close>

lemma fits_limit:
  assumes s: "sg_seqno s = sq i p" and la: "lastack pcb = sq i la" and fits: "seg_fits pcb wnd s"
    and "p \<le> hi" "hi \<le> p + 11681" "la \<le> hi" "hi \<le> la + 11681"
  shows "p + unat (sg_len s) \<le> la + unat wnd"
proof (cases "la \<le> p + unat (sg_len s)")
  case True
  have l: "unat (sg_len s) < 65536" by (rule unat_u16_less)
  have "sg_seqno s - lastack pcb + ucast (sg_len s) = sq i (p + unat (sg_len s)) - sq i la"
    unfolding s la by (simp only: sq_add16 [symmetric]) simp
  also have "\<dots> = of_nat (p + unat (sg_len s) - la)" using True assms(4-7) l by (intro sq_diff(1)) linarith+
  finally have "of_nat (p + unat (sg_len s) - la) \<le> wnd" using fits by (simp add: seg_fits_def)
  moreover have "p + unat (sg_len s) - la < 0x100000000" using l assms(4-7) by linarith
  ultimately have "p + unat (sg_len s) - la \<le> unat wnd" by (simp add: word_le_nat_alt unat_of_nat)
  with True show ?thesis by linarith
next
  case False
  then show ?thesis by linarith
qed

lemma tx_inv_ackpos:
  assumes "tx_inv i S fin pcb"
  obtains la where "lastack pcb = sq i la" "la \<le> tx_end S fin" "tx_end S fin \<le> la + 11681"
proof -
  obtain lo qs where "tx_ok i S fin lo qs pcb" "tx_pos i lo (tx_end S fin) pcb" using assms by (rule tx_invE)
  then show ?thesis using tx_ok_facts(3) [of i S fin lo qs pcb] that by (fastforce simp: tx_pos_def)
qed

section \<open>Packets of the layer below\<close>

definition same_hdr :: "tcp_pcb \<Rightarrow> tcp_pcb \<Rightarrow> bool" where
  "same_hdr a b \<longleftrightarrow> local_ip a = local_ip b \<and> remote_ip a = remote_ip b \<and> rcv_nxt a = rcv_nxt b \<and> lastack a = lastack b"

lemma same_hdr_refl [simp]: "same_hdr a a"
  by (simp add: same_hdr_def)

lemma same_hdr_trans: "same_hdr a b \<Longrightarrow> same_hdr b c \<Longrightarrow> same_hdr a c"
  by (simp add: same_hdr_def)

lemma same_hdr_flags [simp]:
  "same_hdr (tcp_set_flags a f) b = same_hdr a b" "same_hdr (tcp_clear_flags a f) b = same_hdr a b"
  by (simp_all add: same_hdr_def tcp_set_flags_def tcp_clear_flags_def)

lemma wire_part_same: "same_hdr a b \<Longrightarrow> wire_part i S lim a p = wire_part i S lim b p"
  by (simp add: wire_part_def same_hdr_def)

lemma wire_part_empty:
  assumes "wire_chksum_good (local_ip pcb) (remote_ip pcb) p" and "wire_ack p = rcv_nxt pcb" and "wire_data p = []"
  shows "wire_part i S lim pcb p"
proof -
  have "wire_seq p = sq i (unat (wire_seq p - i))" by (simp add: sq_def)
  with assms show ?thesis unfolding wire_part_def by (simp only: assms) (auto intro!: exI)
qed

lemma hdr_set_flags:
  "TCPH_FLAGS_SET (tcp_hdr_bytes s d sn a hlen fl wnd @ r) x =
   tcp_hdr_bytes s d sn a hlen (fl AND 0xC0 OR x) wnd @ r"
proof -
  have hi: "drop_bit 8 (push_bit 12 hlen OR ucast (f :: u8) :: u16) = drop_bit 8 (push_bit 12 hlen)" for f
    by (rule bit_word_eqI) (auto simp: bit_simps dest: bit_u8)
  have lo: "ucast (push_bit 12 hlen OR ucast (f :: u8) :: u16) = f" for f
    by (rule bit_word_eqI) (auto simp: bit_simps dest: bit_u8)
  show ?thesis
    unfolding TCPH_FLAGS_SET_def tcp_hdr_bytes_def
    by (simp only: u16_bytes_htons be16_bytes_def hi lo) (simp add: u32_bytes_def u16_bytes_def)
qed

lemma tcp_get_num_sacks_le: "tcp_get_num_sacks pcb n \<le> 4"
proof -
  have "num_sacks_loop xs i k m \<le> 4 - i" for xs i k m
    by (induction xs i k m rule: num_sacks_loop.induct) (auto simp: LWIP_TCP_MAX_SACK_NUM_def)
  from this [of _ 0] show ?thesis by (simp add: tcp_get_num_sacks_def del: num_sacks_loop.simps)
qed

lemma length_words_bytes [simp]: "length (words_bytes ws) = 4 * length ws"
  by (induction ws) (simp_all add: words_bytes_def)

lemma length_sack_option: "length (tcp_build_sack_option pcb n) = 1 + 2 * n"
  by (simp add: tcp_build_sack_option_def length_concat comp_def sum_list_triv)

definition emits :: "('w \<Rightarrow> u8 list list) \<Rightarrow> u32 \<Rightarrow> u8 list \<Rightarrow> nat \<Rightarrow> tcp_pcb \<Rightarrow> 'w \<Rightarrow> 'w \<Rightarrow> bool" where
  "emits sent i S lim pcb w w' \<longleftrightarrow> (\<exists>ps. sent w' = sent w @ ps \<and> (\<forall>p\<in>set ps. wire_part i S lim pcb p))"

lemma emits_refl: "sent w' = sent w \<Longrightarrow> emits sent i S lim pcb w w'"
  by (simp add: emits_def)

lemma emits_trans: "emits sent i S lim pcb w w1 \<Longrightarrow> emits sent i S lim pcb w1 w2 \<Longrightarrow> emits sent i S lim pcb w w2"
  unfolding emits_def by (elim exE conjE, rename_tac a b, rule_tac x = "a @ b" in exI) auto

lemma emits_same: "same_hdr a b \<Longrightarrow> emits sent i S lim a w w' = emits sent i S lim b w w'"
  by (simp add: emits_def wire_part_same)

locale tcp_wire =
  fixes e :: "'w tcp_env" and sent :: "'w \<Rightarrow> u8 list list"
  assumes alloc_length: "te_pbuf_alloc e l n t w = (w', Some junk) \<Longrightarrow> length junk = unat n"
    and alloc_sent: "te_pbuf_alloc e l n t w = (w', r) \<Longrightarrow> sent w' = sent w"
    and output_sent: "te_ip_output_if e p src dst tt ts proto nif w = (w', err) \<Longrightarrow> sent w' = sent w @ [p]"
begin

lemma control_segment_emits:
  assumes "tcp_output_control_segment e (Some b) p (local_ip b) (remote_ip b) w = (w', err)"
    and "wire_part i S lim b (tcp_set_chksum (local_ip b) (remote_ip b) p)"
  shows "emits sent i S lim b w w'"
  using assms by (fastforce simp: tcp_output_control_segment_def emits_def dest: output_sent split: option.splits)

lemma alloc_header:
  assumes "tcp_output_alloc_header e pcb optlen datalen (lwip_htonl sn) w = (w', pcb', r)"
    and small: "unat optlen + unat datalen < 60000"
  shows "sent w' = sent w" "same_hdr pcb' pcb"
    "r = Some p \<Longrightarrow> \<exists>junk wnd. length junk = unat optlen + unat datalen \<and>
       p = tcp_hdr_bytes (local_port pcb) (remote_port pcb) (lwip_htonl sn) (rcv_nxt pcb) (5 + optlen div 4) TCP_ACK wnd @ junk"
proof -
  have n: "unat (of_nat TCP_HLEN + optlen + datalen :: u16) = 20 + unat optlen + unat datalen"
    using small by (simp add: TCP_HLEN_def unat_word_ariths)
  show "sent w' = sent w" "same_hdr pcb' pcb"
    using assms(1) by (auto simp: tcp_output_alloc_header_def tcp_output_alloc_header_common_def same_hdr_def
        dest: alloc_sent split: prod.splits option.splits)
  show "\<exists>junk wnd. length junk = unat optlen + unat datalen \<and>
       p = tcp_hdr_bytes (local_port pcb) (remote_port pcb) (lwip_htonl sn) (rcv_nxt pcb) (5 + optlen div 4) TCP_ACK wnd @ junk"
    if r: "r = Some p"
  proof -
    obtain w2 junk where j: "te_pbuf_alloc e PBUF_IP (of_nat TCP_HLEN + optlen + datalen) PBUF_RAM w = (w2, Some junk)"
      using assms(1) r
      by (auto simp: tcp_output_alloc_header_def tcp_output_alloc_header_common_def split: prod.splits option.splits)
    have "length (drop TCP_HLEN junk) = unat optlen + unat datalen"
      using alloc_length [OF j] n by (simp add: TCP_HLEN_def)
    moreover have "p = tcp_hdr_bytes (local_port pcb) (remote_port pcb) (lwip_htonl sn) (rcv_nxt pcb) (5 + optlen div 4)
        TCP_ACK (TCPWND_MIN16 (RCV_WND_SCALE pcb (rcv_ann_wnd pcb))) @ drop TCP_HLEN junk"
      using assms(1) r j by (auto simp: tcp_output_alloc_header_def tcp_output_alloc_header_common_def)
    ultimately show ?thesis by blast
  qed
qed

lemma empty_ack_emits:
  assumes "tcp_send_empty_ack e pcb w = (w', pcb', err)"
  shows "emits sent i S lim pcb w w' \<and> same_hdr pcb' pcb"
proof -
  define n where "n = tcp_get_num_sacks pcb 0"
  define ol where "ol = (if n > 0 then 4 + of_nat n * 8 else 0 :: u16)"
  have n5: "n \<le> 4" unfolding n_def by (rule tcp_get_num_sacks_le)
  have ol: "unat ol = (if n > 0 then 4 + 8 * n else 0)"
    using n5 by (simp add: ol_def unat_word_ariths unat_of_nat)
  have hl: "unat (5 + ol div 4) = 5 + unat ol div 4" "5 + ol div 4 < 16"
    using ol n5 by (simp_all add: unat_word_ariths unat_div word_less_nat_alt)
  obtain w1 b r where a: "tcp_output_alloc_header e pcb ol 0 (lwip_htonl (snd_nxt pcb)) w = (w1, b, r)"
    by (metis prod.exhaust)
  note eq = tcp_send_empty_ack_def [of e pcb w, unfolded Let_def opt_length_0 unat_0 add_0_left,
      folded n_def, folded ol_def, unfolded a prod.case]
  note h = alloc_header [OF a]
  have s: "sent w1 = sent w" "same_hdr b pcb" using h(1,2) ol n5 by (simp_all split: if_splits)
  show ?thesis
  proof (cases r)
    case None
    then have "w' = w1 \<and> pcb' = tcp_set_flags b (TF_ACK_DELAY OR TF_ACK_NOW)"
      using assms eq by simp
    then show ?thesis using s by (simp add: emits_refl)
  next
    case (Some p)
    from h(3) [OF _ this] obtain junk wnd where junk: "length junk = unat ol" and p: "p = tcp_hdr_bytes (local_port pcb)
        (remote_port pcb) (lwip_htonl (snd_nxt pcb)) (rcv_nxt pcb) (5 + ol div 4) TCP_ACK wnd @ junk"
      using ol n5 by (auto split: if_splits)
    define os where "os = (if n > 0 then words_bytes (tcp_build_sack_option b n) else [])"
    have lo: "length os = unat ol" by (simp add: os_def ol length_sack_option)
    have f: "tcp_output_fill_options (Some b) p n = tcp_hdr_bytes (local_port pcb) (remote_port pcb)
        (lwip_htonl (snd_nxt pcb)) (rcv_nxt pcb) (5 + ol div 4) TCP_ACK wnd @ os @ []"
      using junk lo by (auto simp: tcp_output_fill_options_def p os_def Let_def TCP_HLEN_def ol tcp_hdr_bytes_def)
    obtain err' where c: "tcp_output_control_segment e (Some b) (tcp_output_fill_options (Some b) p n) (local_ip b) (remote_ip b) w1 = (w', err')"
      "same_hdr pcb' b"
      using assms eq Some by (auto split: prod.splits)
    have "20 + length os = 4 * unat (5 + ol div 4)" using hl(1) lo ol by simp
    note w = wire_packet [OF hl(2) this, where data = "[]"]
    have "wire_part i S lim b (tcp_set_chksum (local_ip b) (remote_ip b) (tcp_output_fill_options (Some b) p n))"
      by (rule wire_part_empty) (use w s in \<open>simp_all add: same_hdr_def f\<close>)
    from control_segment_emits [OF c(1) this] have "emits sent i S lim pcb w1 w'"
      by (simp only: emits_same [OF s(2)])
    then show ?thesis using s c(2) by (simp add: emits_def) (blast intro: same_hdr_trans)
  qed
qed

text \<open>A segment from the queue; \<open>hi\<close> is the end of the queue.\<close>

lemma output_segment_emits:
  assumes r: "tcp_output_segment e t seg pcb n w = Some (w', pcb', err)"
    and s: "tx_seg i S p seg" and la: "lastack pcb = sq i la" and fits: "seg_fits pcb wnd seg"
    and hi: "p \<le> hi" "hi \<le> p + 11681" "la \<le> hi" "hi \<le> la + 11681"
  shows "emits sent i S (la + unat wnd) pcb w w' \<and> same_hdr pcb' pcb"
proof -
  have seg: "seg_at i S p seg" "sg_flags seg = 0" "sg_hlen seg = 5" using s by (simp_all add: tx_seg_def)
  have o: "seg_options m 0 = []" for m by (simp add: seg_options_def has_def)
  have lim: "p + unat (sg_len seg) \<le> la + unat wnd"
    using fits_limit [OF _ la fits hi] seg(1) by (simp add: stream_part_def)
  have hlen: "(5 :: u16) < 16" "20 + length ([] :: u8 list) = 4 * unat (5 :: u16)" by simp_all
  have part: "wire_part i S (la + unat wnd) b (tcp_set_chksum (local_ip b) (remote_ip b) (seg_bytes m b seg))" for b m
  proof -
    have len: "length (sg_data seg) = unat (sg_len seg)" "sg_data seg = take (unat (sg_len seg)) (drop p S)"
      using seg(1) by (auto simp: stream_part_def min_def)
    note w = wire_packet [OF hlen, where data = "sg_data seg", simplified append_Nil]
    have b: "seg_bytes m b seg = tcp_hdr_bytes (sg_src seg) (sg_dest seg) (lwip_htonl (sg_seqno seg)) (rcv_nxt b) 5
        (sg_hflags seg) (seg_wnd b seg) @ sg_data seg"
      by (simp add: seg_bytes_def seg o words_bytes_def)
    show ?thesis
      unfolding wire_part_def b using w len lim seg(1) by (intro conjI exI [of _ p]) (simp_all add: stream_part_def)
  qed
  show ?thesis
  proof (cases "te_segment_busy e w seg")
    case True
    then show ?thesis using r by (auto simp: tcp_output_segment_def intro: emits_refl)
  next
    case False
    define b1 where "b1 = pcb\<lparr>rcv_ann_right_edge := rcv_nxt pcb + rcv_ann_wnd pcb\<rparr>"
    define b2 where "b2 = (if rtime b1 < 0 then b1\<lparr>rtime := 0\<rparr> else b1)"
    define b where "b = (if rttest b2 = 0 then b2\<lparr>rttest := t, rtseq := sg_seqno seg\<rparr> else b2)"
    define m where "m = tcp_eff_send_mss_netif e w TCP_MSS (Some n) (remote_ip b1)"
    have sb: "same_hdr b pcb" by (simp add: b_def b2_def b1_def same_hdr_def)
    have b: "te_ip_output_if e (tcp_set_chksum (local_ip b) (remote_ip b) (seg_bytes m b seg))
        (local_ip b) (remote_ip b) (ttl b) (tos b) IP_PROTO_TCP n w = (w', err)" "pcb' = b"
      using r [unfolded tcp_output_segment_def Let_def, folded b1_def, folded b2_def, folded b_def, folded m_def] False
      by (auto elim!: bind_eq_SomeE split: prod.splits)
    have "emits sent i S (la + unat wnd) b w w'"
      using output_sent [OF b(1)] part [of b m] by (simp add: emits_def)
    then show ?thesis using b(2) sb by (simp only: emits_same [OF sb])
  qed
qed

lemma output_loop_emits:
  assumes hi: "hi = tx_end S fin" "la \<le> hi" "hi \<le> la + 11681"
  shows "output_loop e t n wnd segs pcb w = Some (w', pcb', err) \<Longrightarrow> tx_inv i S fin pcb \<Longrightarrow> unsent pcb = segs \<Longrightarrow>
    lastack pcb = sq i la \<Longrightarrow> emits sent i S (la + unat wnd) pcb w w' \<and> same_hdr pcb' pcb"
proof (induction segs arbitrary: pcb w)
  case Nil
  then show ?case by (simp add: emits_refl)
next
  case (Cons seg us)
  define seg' where "seg' = (if state pcb \<noteq> SYN_SENT then seg_set_flags TCP_ACK seg else seg)"
  have same: "same_seg seg' seg" by (simp add: seg'_def)
  let ?b = "pcb\<lparr>unsent := seg' # us\<rparr>"
  have inv: "tx_inv i S fin ?b" using tx_inv_head [OF Cons.prems(2,3) same] .
  consider (stop) "w' = w" "pcb' = pcb"
    | (sent) w1 pcb1 err1 where "seg_fits pcb wnd seg" "tcp_output_segment e t seg' ?b n w = Some (w1, pcb1, err1)"
      "if err1 \<noteq> ERR_OK then w' = w1 \<and> pcb' = tcp_set_flags pcb1 TF_NAGLEMEMERR
       else output_loop e t n wnd us (seg_sent seg' pcb1) w1 = Some (w', pcb', err)"
    using Cons.prems(1) by (auto simp: bind_eq_Some_conv seg'_def [symmetric] Let_def split: if_splits)
  then show ?case
  proof cases
    case stop
    then show ?thesis by (simp add: emits_refl)
  next
    case (sent w1 pcb1 err1)
    obtain lo qs where ok: "tx_ok i S fin lo qs ?b" using inv by (rule tx_invE)
    have "tiles i S lo qs hi" "seg' \<in> set qs"
      using ok tx_queue_facts(4) [of i S lo hi qs "unacked pcb" "seg' # us"] by (auto simp: tx_ok_def hi(1) tx_queue_def)
    then obtain p where p: "lo \<le> p" "tx_seg i S p seg'" "p + seg_tl seg' \<le> hi" by (rule tiles_mem)
    have "hi \<le> p + 11681" using tx_ok_facts(3) [OF ok] p(1) by (simp add: hi(1))
    moreover have "seg_fits ?b wnd seg'" using sent(1) same by (simp add: seg_fits_def same_seg_def)
    ultimately have e1: "emits sent i S (la + unat wnd) ?b w w1 \<and> same_hdr pcb1 ?b"
      using output_segment_emits [OF sent(2) p(2), of la wnd hi] p(3) Cons.prems(4) hi by simp
    then have e2: "emits sent i S (la + unat wnd) pcb w w1" "same_hdr pcb1 pcb"
      using emits_same [of ?b pcb sent i S "la + unat wnd" w w1] by (simp_all add: same_hdr_def)
    show ?thesis
    proof (cases "err1 = ERR_OK")
      case False
      then show ?thesis using sent(3) e2 by simp
    next
      case True
      have u1: "same_tx pcb1 ?b" using tcp_output_segment_same [OF sent(2)] .
      then have inv1: "tx_inv i S fin pcb1" "unsent pcb1 = seg' # us"
        using inv tx_inv_same by (blast, simp add: same_tx_def)
      let ?c = "seg_sent seg' pcb1"
      have c: "same_hdr ?c pcb" "unsent ?c = us" "lastack ?c = sq i la"
        using e2(2) inv1(2) Cons.prems(4) by (simp_all add: seg_sent_def Let_def same_hdr_def tcp_clear_flags_def)
      have "emits sent i S (la + unat wnd) ?c w1 w' \<and> same_hdr pcb' ?c"
        using Cons.IH [OF _ tx_inv_sent [OF inv1] c(2,3)] sent(3) True by simp
      then have "emits sent i S (la + unat wnd) pcb w1 w'" "same_hdr pcb' pcb"
        using emits_same [OF c(1), of sent i S "la + unat wnd" w1 w'] same_hdr_trans [OF _ c(1)] by blast+
      with emits_trans [OF e2(1)] show ?thesis by blast
    qed
  qed
qed

text \<open>All of \<^verbatim>\<open>tcp_output\<close>.\<close>

lemma tcp_output_emits:
  assumes r: "tcp_output e t inp pcb w = Some (w', pcb', err)" and inv: "tx_inv i S fin pcb"
    and la: "lastack pcb = sq i la" "la \<le> tx_end S fin" "tx_end S fin \<le> la + 11681"
  shows "emits sent i S (la + unat (min (snd_wnd pcb) (cwnd pcb))) pcb' w w'"
  using r
proof (cases rule: tcp_output_cases)
  case quiet
  then show ?thesis by (simp add: emits_refl)
next
  case (ack b)
  have "emits sent i S (la + unat (min (snd_wnd pcb) (cwnd pcb))) b w w'" "same_hdr pcb' b"
    using empty_ack_emits [OF ack(2)] by blast+
  then show ?thesis by (simp only: emits_same)
next
  case (sent n b b1 err1)
  have b: "tx_inv i S fin b" "unsent b = unsent pcb" "lastack b = sq i la"
    using sent(2) inv la(1) by (simp only: tx_inv_same, simp_all add: same_tx_def)
  from output_loop_emits [OF refl la(2,3) sent(3) b]
  have "emits sent i S (la + unat (min (snd_wnd pcb) (cwnd pcb))) b w w'" "same_hdr b1 b" by blast+
  moreover have "same_hdr pcb' b1" using sent(4) by (auto simp: output_done_def) (simp_all add: same_hdr_def)
  ultimately show ?thesis using emits_same [OF same_hdr_trans] by metis
qed

text \<open>Window and keepalive probes.\<close>

lemma zero_window_probe_emits:
  assumes r: "tcp_zero_window_probe e pcb w = (w', pcb', err)" and inv: "tx_inv i S fin pcb"
  shows "emits sent i S (length S) pcb' w w'"
proof (cases "unsent pcb")
  case Nil
  then show ?thesis using r by (simp add: tcp_zero_window_probe_def emits_refl)
next
  case (Cons seg us)
  obtain p where p: "tx_seg i S p seg" using tx_inv_unsent [OF inv, of seg] Cons by auto
  then have seg: "seg_at i S p seg" "0 < seg_tl seg" by (simp_all add: tx_seg_def)
  define b0 where "b0 = (if persist_probe pcb < 0xFF then pcb\<lparr>persist_probe := persist_probe pcb + 1\<rparr> else pcb)"
  define is_fin where "is_fin \<longleftrightarrow> has (sg_hflags seg) TCP_FIN \<and> sg_len seg = 0"
  define n :: u16 where "n = (if is_fin then 0 else 1)"
  obtain w1 b r1 where a: "tcp_output_alloc_header e b0 0 n (lwip_htonl (sg_seqno seg)) w = (w1, b, r1)"
    by (metis prod.exhaust)
  have sb0: "same_hdr b0 pcb" by (simp add: b0_def same_hdr_def)
  have n1: "unat (0 :: u16) + unat n < 60000" by (simp add: n_def)
  note h = alloc_header [OF a n1]
  note eq = r [unfolded tcp_zero_window_probe_def Cons list.case Let_def opt_length_0, folded b0_def is_fin_def,
      folded n_def, unfolded a prod.case unat_0]
  show ?thesis
  proof (cases r1)
    case None
    then show ?thesis using eq h(1,2) by (simp add: emits_refl)
  next
    case (Some q)
    from h(3) [OF this] obtain junk wnd where j: "length junk = unat n"
      "q = tcp_hdr_bytes (local_port b0) (remote_port b0) (lwip_htonl (sg_seqno seg)) (rcv_nxt b0) 5 TCP_ACK wnd @ junk"
      by auto
    define d where "d = (if is_fin then [] else [hd (sg_data seg)])"
    define q' where "q' = (if is_fin then TCPH_FLAGS_SET q (TCP_ACK OR TCP_FIN)
        else if sg_data seg = [] then q else q[TCP_HLEN := hd (sg_data seg)])"
    have ne: "sg_data seg \<noteq> []" if "\<not> is_fin"
    proof -
      have "sg_len seg \<noteq> 0" using that seg(2) by (auto simp: is_fin_def seg_tl_def fin_len_def split: if_splits)
      then have "0 < unat (sg_len seg)" by (simp add: unat_gt_0)
      moreover have "length (sg_data seg) = unat (sg_len seg)" using seg(1) by (auto simp: stream_part_def min_def)
      ultimately show ?thesis by auto
    qed
    have len: "sg_data seg = take (unat (sg_len seg)) (drop p S)" using seg(1) by (simp add: stream_part_def)
    obtain fl where q': "q' = tcp_hdr_bytes (local_port b0) (remote_port b0) (lwip_htonl (sg_seqno seg)) (rcv_nxt b0) 5 fl wnd @ [] @ d"
    proof (cases is_fin)
      case True
      then have "junk = []" using j(1) by (simp add: n_def)
      then show ?thesis using that True by (simp add: q'_def d_def j(2) hdr_set_flags del: append_Nil2)
    next
      case False
      then obtain x where "junk = [x]" using j(1) by (auto simp: n_def length_Suc_conv)
      then show ?thesis using that False ne
        by (simp add: q'_def d_def j(2) TCP_HLEN_def list_update_append tcp_hdr_bytes_def)
    qed
    have d: "d = take (length d) (drop p S)" "d \<noteq> [] \<longrightarrow> p + length d \<le> length S"
      using len ne by (auto simp: d_def hd_conv_nth take_Suc_conv_app_nth stream_part_def)
    obtain b1 err1 where c: "tcp_output_control_segment e (Some b1) q' (local_ip b1) (remote_ip b1) w1 = (w', err1)"
      "same_hdr b1 b" "same_hdr pcb' b1"
      using eq Some h(2) by (auto simp: q'_def [symmetric] tcp_output_fill_options_def same_hdr_def split: prod.splits if_splits)
    have s: "same_hdr b1 b0" using c(2) h(2) by (rule same_hdr_trans)
    have "20 + length ([] :: u8 list) = 4 * unat (5 :: u16)" by simp
    note w = wire_packet [OF _ this, where data = d, folded q']
    have "wire_part i S (length S) b1 (tcp_set_chksum (local_ip b1) (remote_ip b1) q')"
      unfolding wire_part_def using w d seg(1) s by (intro conjI exI [of _ p]) (simp_all add: q' stream_part_def same_hdr_def)
    from control_segment_emits [OF c(1) this] have "emits sent i S (length S) pcb' w1 w'"
      by (simp only: emits_same [OF c(3)])
    then show ?thesis using h(1) by (simp add: emits_def)
  qed
qed

end

end
