(* ===== verification/Tcp_rx_spec.thy ===== *)
theory Tcp_rx_spec imports Tcp_stream begin

text \<open>
  What the receive side of TCP promises: the properties of option parsing, of the SACK ranges
  and of delivery, with runs of the code on concrete segments that show their hypotheses
  can hold.
\<close>

section \<open>Runs of the receive side\<close>

text \<open>The states a connection's receive side reaches from a well-formed start by honest
  segments and by the application taking data, with everything handed over so far; \<open>fin\<close> says
  that the end of the stream was seen, after which the state machine offers no more text.\<close>

inductive rx_reach :: "u32 \<Rightarrow> u8 list \<Rightarrow> tcp_pcb \<Rightarrow> u8 list \<Rightarrow> bool \<Rightarrow> bool" for i S where
  start: "rx_ok i S 0 pcb \<Longrightarrow> rcv_wnd pcb \<le> TCP_WND_MAX pcb \<Longrightarrow> rx_reach i S pcb [] False"
| segment: "rx_reach i S pcb out False \<Longrightarrow> state pcb < CLOSE_WAIT \<Longrightarrow>
    honest i S (length out) (unat (rcv_wnd pcb)) p tin \<Longrightarrow>
    tcp_receive_text v6 mem pcb tin = Some (pcb', tin', acts) \<Longrightarrow>
    rx_reach i S pcb' (out @ (case recv_data tin' of None \<Rightarrow> [] | Some d \<Rightarrow> d))
      (has (recv_flags tin') TF_GOT_FIN)"
| taken: "rx_reach i S pcb out fin \<Longrightarrow> rx_reach i S (fst (tcp_recved_window pcb len)) out fin"

inductive_cases rx_reach_finE: "rx_reach i S pcb out True"

lemma TCP_WND_MAX_le: "TCP_WND_MAX pcb \<le> 0xffff"
  by (simp add: TCP_WND_MAX_def TCP_WND_def)

lemma TCP_WND_MAX_eq: "TCP_WND_MAX pcb = 5840"
  by (simp add: TCP_WND_MAX_def TCP_WND_def)

lemma oos_run_mono: "oos_run i S lo q hi \<Longrightarrow> hi \<le> hi' \<Longrightarrow> oos_run i S lo q hi'"
  by (induction q arbitrary: lo) auto

lemma rx_after_window:
  assumes "rx_after i S n (n + unat (rcv_wnd pcb)) pcb False" and "rcv_wnd pcb \<le> w"
  shows "rx_after i S n (n + unat w) (fst (tcp_update_rcv_ann_wnd (pcb\<lparr>rcv_wnd := w\<rparr>))) False"
proof -
  have "n + unat (rcv_wnd pcb) \<le> n + unat w" using assms(2) by (simp add: word_le_nat_alt)
  with assms(1) show ?thesis by (auto simp: rx_after_def intro: oos_run_mono)
qed

text \<open>The invariant of the run.\<close>

definition rx_inv :: "u32 \<Rightarrow> u8 list \<Rightarrow> tcp_pcb \<Rightarrow> u8 list \<Rightarrow> bool \<Rightarrow> bool" where
  "rx_inv i S pcb out fin \<longleftrightarrow> out = take (length out) S \<and> (fin \<longrightarrow> out = S) \<and>
     rcv_wnd pcb \<le> TCP_WND_MAX pcb \<and> (\<not> fin \<longrightarrow> rx_ok i S (length out) pcb)"

lemma passed_append:
  assumes "out = take n S" and "n \<le> length S" and "n \<le> n'" and "n' \<le> length S"
  shows "out @ (case passed S n n' of None \<Rightarrow> [] | Some d \<Rightarrow> d) = take n' S"
proof -
  have "take (n + (n' - n)) S = take n S @ take (n' - n) (drop n S)" by (rule take_add)
  then show ?thesis using assms(1,3) by (simp add: passed_def)
qed

lemma rx_inv_segment:
  assumes "rx_inv i S pcb out False" and "state pcb < CLOSE_WAIT"
    and "honest i S (length out) (unat (rcv_wnd pcb)) p tin"
    and "tcp_receive_text v6 mem pcb tin = Some (pcb', tin', acts)"
  shows "rx_inv i S pcb' (out @ (case recv_data tin' of None \<Rightarrow> [] | Some d \<Rightarrow> d))
    (has (recv_flags tin') TF_GOT_FIN)"
proof -
  define n where "n = length out"
  have inv: "out = take n S" "rcv_wnd pcb \<le> TCP_WND_MAX pcb" "rx_ok i S n pcb"
    using assms(1) by (simp_all add: rx_inv_def n_def)
  have nS: "n \<le> length S" using inv(3) by (simp add: rx_ok_def rx_after_def)
  from tcp_receive_text_step [OF inv(3) assms(3) [folded n_def] assms(2), of v6 mem] assms(4)
  obtain n' where s: "n \<le> n'" "recv_data tin' = passed S n n'"
    "rx_after i S n' (n + unat (rcv_wnd pcb)) pcb' (has (recv_flags tin') TF_GOT_FIN)"
    "length (rcv_sacks pcb') = 4" by auto
  have nS': "n' \<le> length S" using s(3) by (simp add: rx_after_def)
  have out: "out @ (case recv_data tin' of None \<Rightarrow> [] | Some d \<Rightarrow> d) = take n' S"
    unfolding s(2) using inv(1) nS s(1) nS' by (rule passed_append)
  have "unat (rcv_wnd pcb') \<le> unat (rcv_wnd pcb)"
    using s(1,3) by (cases "has (recv_flags tin') TF_GOT_FIN") (simp_all add: rx_after_def)
  then have w: "rcv_wnd pcb' \<le> TCP_WND_MAX pcb'"
    using inv(2) by (simp add: TCP_WND_MAX_eq word_le_nat_alt)
  then have w16: "rcv_wnd pcb' \<le> 0xffff" using TCP_WND_MAX_le by (rule order_trans)
  have "rx_ok i S n' pcb'" if "\<not> has (recv_flags tin') TF_GOT_FIN"
    using s(3,4) that w16 by (auto simp: rx_ok_def rx_after_def)
  moreover have "n' = length S" if "has (recv_flags tin') TF_GOT_FIN"
    using s(3) that by (simp add: rx_after_def)
  ultimately show ?thesis using out nS' w by (auto simp: rx_inv_def min_absorb2)
qed

lemma rx_inv_taken:
  assumes "rx_inv i S pcb out fin"
  shows "rx_inv i S (fst (tcp_recved_window pcb len)) out fin"
proof -
  define w where "w = (if rcv_wnd pcb + ucast len > TCP_WND_MAX pcb \<or> rcv_wnd pcb + ucast len < rcv_wnd pcb
    then TCP_WND_MAX pcb else rcv_wnd pcb + ucast len)"
  have eq: "tcp_recved_window pcb len = tcp_update_rcv_ann_wnd (pcb\<lparr>rcv_wnd := w\<rparr>)"
    by (simp add: tcp_recved_window_def w_def Let_def)
  have inv: "rcv_wnd pcb \<le> TCP_WND_MAX pcb" using assms by (simp add: rx_inv_def)
  have w: "rcv_wnd pcb \<le> w" "w \<le> TCP_WND_MAX pcb"
    using inv by (auto simp: w_def not_less)
  have "rx_ok i S (length out) (fst (tcp_update_rcv_ann_wnd (pcb\<lparr>rcv_wnd := w\<rparr>)))" if "\<not> fin"
    using assms that rx_after_window [OF _ w(1)] order_trans [OF w(2) TCP_WND_MAX_le]
    by (simp add: rx_inv_def rx_ok_def)
  then show ?thesis using assms w(2) by (simp add: eq rx_inv_def TCP_WND_MAX_eq)
qed

lemma rx_reach_inv: "rx_reach i S pcb out fin \<Longrightarrow> rx_inv i S pcb out fin"
proof (induction rule: rx_reach.induct)
  case (start pcb)
  then show ?case by (simp add: rx_inv_def)
next
  case segment
  then show ?case by (blast intro: rx_inv_segment)
next
  case taken
  then show ?case by (blast intro: rx_inv_taken)
qed

section \<open>A run\<close>

text \<open>A connection that expects number 1001, a stream of six bytes, and its two segments.\<close>

definition rx_pcb :: "u32 \<Rightarrow> tcp_pcb" where
  "rx_pcb wnd = \<lparr>local_ip = ip_addr_copy_from_ip4 0x0100000a, remote_ip = ip_addr_copy_from_ip4 0x0200000a, netif_idx = 0, so_options = 0,
     tos = 0, ttl = 255, callback_arg = 0, state = ESTABLISHED, prio = 64, local_port = 80,
     remote_port = 5000, flags = TF_SACK, polltmr = 0, pollinterval = 0, last_timer = 0, tmr = 0,
     rcv_nxt = 1001, rcv_wnd = wnd, rcv_ann_wnd = wnd, rcv_ann_right_edge = 1001 + wnd,
     rcv_sacks = replicate 4 (0, 0), rtime = -1, mss = 536, rttest = 0, rtseq = 0, sa = 0, sv = 6,
     rto = 6, nrtx = 0, dupacks = 0, lastack = 500, cwnd = 2144, ssthresh = 11680, rto_end = 0,
     snd_nxt = 500, snd_wl1 = 1000, snd_wl2 = 500, snd_lbb = 500, snd_wnd = 5840,
     snd_wnd_max = 5840, snd_buf = 11680, snd_queuelen = 0, unsent_oversize = 0, bytes_acked = 0,
     unsent = [], unacked = [], ooseq = [], refused_data = None, listener = None, cb_sent = None,
     cb_recv = None, cb_connected = None, cb_poll = None, cb_errf = None, keep_idle = 7200000,
     persist_cnt = 0, persist_backoff = 0, persist_probe = 0, keep_cnt_sent = 0, snd_scale = 0,
     rcv_scale = 0\<rparr>"

definition rx_stream :: "u8 list" where "rx_stream = [1, 2, 3, 4, 5, 6]"

definition no_opts :: tcp_opts where
  "no_opts = \<lparr>op_len = 0, op_len1 = 0, op_mem1 = [], op_mem2 = None\<rparr>"

definition rx_seg :: "u32 \<Rightarrow> u8 \<Rightarrow> u8 list \<Rightarrow> tcp_in" where
  "rx_seg sq0 fl data = \<lparr>g_src = 5000, g_dest = 80, g_seqno = sq0, g_ackno = 500, g_wnd = 5840,
     g_flags = fl, g_tcplen = ucast (TCP_TCPLEN (of_nat (length data)) fl), g_opts = no_opts,
     in_seqno = sq0, in_hflags = fl, in_len = of_nat (length data), in_data = Some data,
     recv_acked = 0, recv_flags = 0, recv_data = None\<rparr>"

definition rx_seg_a :: tcp_in where "rx_seg_a = rx_seg 1001 TCP_ACK [1, 2, 3]"
definition rx_seg_b :: tcp_in where "rx_seg_b = rx_seg 1004 (TCP_ACK OR TCP_FIN) [4, 5, 6]"

definition rx_pcb1 :: tcp_pcb where
  "rx_pcb1 = fst (the (tcp_receive_text False True (rx_pcb 5840) rx_seg_b))"

lemma rx_pcb1_simps:
  "rcv_wnd rx_pcb1 = 5840" "state rx_pcb1 = ESTABLISHED"
  unfolding rx_pcb1_def by code_simp+

lemma rx_run_b:
  "tcp_receive_text False True (rx_pcb 5840) rx_seg_b = Some (rx_pcb1, rx_seg_b, [Send_empty_ack])"
  unfolding rx_pcb1_def by code_simp

lemma rx_run_a:
  "map_option (\<lambda>(pcb, tin, acts). (recv_data tin, recv_flags tin)) (tcp_receive_text False True rx_pcb1 rx_seg_a) =
   Some (Some rx_stream, TF_GOT_FIN)"
  unfolding rx_pcb1_def by code_simp

lemma rx_pcb_ok: "rx_ok 1001 rx_stream 0 (rx_pcb 5840)" "rcv_wnd (rx_pcb 5840) \<le> TCP_WND_MAX (rx_pcb 5840)"
  by (simp_all add: rx_ok_def rx_after_def rx_pcb_def sq_def TCP_WND_MAX_eq)

lemma rx_seg_b_honest: "honest 1001 rx_stream 0 5840 3 rx_seg_b"
  by (simp add: honest_def in_part_def stream_part_def rx_seg_b_def rx_seg_def rx_stream_def sq_def in_tl_def
      fin_len_def TCP_TCPLEN_def has_def TCP_FIN_def TCP_SYN_def TCP_ACK_def TF_GOT_FIN_def)

lemma rx_seg_a_honest: "honest 1001 rx_stream 0 5840 0 rx_seg_a"
  by (simp add: honest_def in_part_def stream_part_def rx_seg_a_def rx_seg_def rx_stream_def sq_def in_tl_def
      fin_len_def TCP_TCPLEN_def has_def TCP_FIN_def TCP_SYN_def TCP_ACK_def TF_GOT_FIN_def)

lemma rx_reach_pcb1: "rx_reach 1001 rx_stream rx_pcb1 [] False"
  using rx_reach.segment [OF rx_reach.start [OF rx_pcb_ok] _ _ rx_run_b, of 3] rx_seg_b_honest
  by (simp add: rx_pcb_def rx_seg_b_def rx_seg_def tcp_state_order)

lemma rx_reach_end: "\<exists>pcb. rx_reach 1001 rx_stream pcb rx_stream True"
proof -
  obtain pcb tin acts where r: "tcp_receive_text False True rx_pcb1 rx_seg_a = Some (pcb, tin, acts)"
    "recv_data tin = Some rx_stream" "recv_flags tin = TF_GOT_FIN"
    using rx_run_a by auto
  with rx_reach.segment [OF rx_reach_pcb1 _ _ r(1), of 0] rx_seg_a_honest show ?thesis
    by (auto simp: rx_pcb1_simps tcp_state_order)
qed

section \<open>Delivery\<close>

text \<open>C2: whatever honest segments arrive, in whatever order, with repetitions, overlaps and
  lost memory for copies, and whenever the application takes its data: what was handed over is
  the beginning of the peer's stream, and all of it when the end was reported.\<close>

theorem tcp_delivers_stream:
  assumes "rx_reach i S pcb out fin"
  shows "out = take (length out) S \<and> (fin \<longrightarrow> out = S)"
  using rx_reach_inv [OF assms] by (simp add: rx_inv_def)

text \<open>C18: in every such state a further honest segment is processed without failing an
  assertion or leaving memory; if it reaches the next byte and the window is open, the
  application gets at least that byte, or the end of the stream.\<close>

theorem tcp_receive_text_total:
  assumes "rx_reach i S pcb out False" and "state pcb < CLOSE_WAIT"
    and "honest i S (length out) (unat (rcv_wnd pcb)) p tin"
  shows "\<exists>pcb' tin' acts. tcp_receive_text v6 mem pcb tin = Some (pcb', tin', acts) \<and>
    (p \<le> length out \<and> length out < p + in_tl tin \<and> 0 < rcv_wnd pcb \<longrightarrow>
       recv_data tin' \<noteq> None \<or> has (recv_flags tin') TF_GOT_FIN)"
proof -
  have "rx_ok i S (length out) pcb" using rx_reach_inv [OF assms(1)] by (simp add: rx_inv_def)
  from tcp_receive_text_step [OF this assms(3,2), of v6 mem]
  show ?thesis by (auto simp: passed_def)
qed

theorem tcp_delivers_stream_witness:
  "\<exists>pcb. rx_reach 1001 rx_stream pcb rx_stream True \<and> rx_stream = take (length rx_stream) rx_stream"
  using rx_reach_end tcp_delivers_stream by blast

theorem tcp_receive_text_total_witness:
  "\<exists>pcb' tin' acts. tcp_receive_text False True rx_pcb1 rx_seg_a = Some (pcb', tin', acts) \<and>
     (recv_data tin' \<noteq> None \<or> has (recv_flags tin') TF_GOT_FIN)"
proof -
  have "state rx_pcb1 < CLOSE_WAIT" by (simp add: rx_pcb1_simps tcp_state_order)
  moreover have "honest 1001 rx_stream (length []) (unat (rcv_wnd rx_pcb1)) 0 rx_seg_a"
    using rx_seg_a_honest by (simp add: rx_pcb1_simps)
  moreover have "0 < in_tl rx_seg_a"
    by (simp add: in_tl_def rx_seg_a_def rx_seg_def)
  ultimately show ?thesis
    using tcp_receive_text_total [OF rx_reach_pcb1, of 0 rx_seg_a False True]
    by (auto simp: rx_pcb1_simps)
qed

text \<open>A segment out of order that exceeds the window is queued uncut when the queue is
  empty; when the gap before it is filled the assertion on the window fails and the program
  aborts. The peer alone decides on both segments.\<close>

theorem tcp_ooseq_overrun_aborts:
  "\<exists>pcb1 tin1 acts. tcp_receive_text False True (rx_pcb 4) rx_seg_b = Some (pcb1, tin1, acts) \<and>
      tcp_receive_text False True pcb1 rx_seg_a = None"
proof -
  have "map_option (\<lambda>(pcb1, tin1, acts). tcp_receive_text False True pcb1 rx_seg_a)
      (tcp_receive_text False True (rx_pcb 4) rx_seg_b) = Some None" by code_simp
  then show ?thesis by auto
qed

section \<open>Options\<close>

lemma has_TF_WND_SCALE [simp]: "has TF_WND_SCALE TF_WND_SCALE"
  by (simp add: has_def TF_WND_SCALE_def)

text \<open>A window-scale option in a SYN is taken over once, and asserts that the receive window has
  its initial value; nothing else in an option can fail.\<close>

definition scale_asserts :: "u8 \<Rightarrow> tcp_option list \<Rightarrow> tcp_pcb \<Rightarrow> bool" where
  "scale_asserts fl xs pcb \<longleftrightarrow> has fl TCP_SYN \<and> \<not> has (flags pcb) TF_WND_SCALE \<and> (\<exists>d. WS d \<in> set xs) \<and>
     (rcv_wnd pcb \<noteq> TCP_WND \<or> rcv_ann_wnd pcb \<noteq> TCP_WND)"

lemma scale_asserts_Cons:
  "scale_asserts fl (WS d # xs) pcb \<longleftrightarrow> parse_ws fl pcb d = None \<or> scale_asserts fl xs pcb"
  "scale_asserts fl (MSS m # xs) pcb \<longleftrightarrow> scale_asserts fl xs pcb"
  "scale_asserts fl (SACK_PERM # xs) pcb \<longleftrightarrow> scale_asserts fl xs pcb"
  by (auto simp: scale_asserts_def parse_ws_def LWIP_ASSERT_def TCP_WND_def bind_eq_None_conv split: if_splits)

lemma parse_ws_Some:
  assumes "parse_ws fl pcb d = Some pcb1"
  shows "pcb1 = pcb \<and> (has fl TCP_SYN \<longrightarrow> has (flags pcb) TF_WND_SCALE) \<or>
    has fl TCP_SYN \<and> \<not> has (flags pcb) TF_WND_SCALE \<and> rcv_wnd pcb = TCP_WND \<and> rcv_ann_wnd pcb = TCP_WND \<and>
    pcb1 = (tcp_set_flags pcb TF_WND_SCALE)\<lparr>rcv_wnd := TCP_WND, rcv_ann_wnd := TCP_WND,
      snd_scale := (if d > 14 then 14 else d), rcv_scale := TCP_RCV_SCALE\<rparr>"
  using assms by (auto simp: parse_ws_def LWIP_ASSERT_def TCP_WND_def split: if_splits)

lemma has_sack_scale [simp]: "\<not> has TF_SACK TF_WND_SCALE"
  by (simp add: has_def TF_SACK_def TF_WND_SCALE_def)

lemma scale_asserts_step:
  assumes "apply_option fl x pcb = Some pcb1"
  shows "scale_asserts fl xs pcb1 \<longleftrightarrow> scale_asserts fl (x # xs) pcb"
  using assms
  by (cases x) (auto simp: scale_asserts_def parse_mss_def parse_sack_perm_def tcp_set_flags_def dest: parse_ws_Some)

lemma apply_options_bounds:
  "case apply_options fl xs pcb of
     None \<Rightarrow> scale_asserts fl xs pcb
   | Some pcb' \<Rightarrow> \<not> scale_asserts fl xs pcb \<and>
       (mss pcb' = mss pcb \<or> 0 < mss pcb' \<and> mss pcb' \<le> TCP_MSS) \<and>
       (snd_scale pcb' = snd_scale pcb \<or> snd_scale pcb' \<le> 14)"
proof (induction xs arbitrary: pcb)
  case Nil
  then show ?case by (simp add: scale_asserts_def)
next
  case (Cons x xs)
  show ?case
  proof (cases "apply_option fl x pcb")
    case None
    then show ?thesis by (cases x) (simp_all add: scale_asserts_Cons)
  next
    case (Some pcb1)
    then have "(mss pcb1 = mss pcb \<or> 0 < mss pcb1 \<and> mss pcb1 \<le> TCP_MSS) \<and>
        (snd_scale pcb1 = snd_scale pcb \<or> snd_scale pcb1 \<le> 14)"
      by (cases x) (auto simp: parse_mss_def parse_sack_perm_def tcp_set_flags_def
          TCP_MSS_def word_neq_0_conv not_less dest!: parse_ws_Some split: if_splits)
    then show ?thesis
      using Some Cons.IH [of pcb1] scale_asserts_step [OF Some, of xs] by (auto split: option.splits)
  qed
qed

lemma tcp_parseopt_eq:
  assumes "opts_ok os"
  shows "tcp_parseopt os fl pcb = apply_options fl (opts_of (take (unat (op_len os)) (opt_mem os))) pcb"
  using parseopt_loop_eq [OF assms, of 0 fl pcb] by (simp add: tcp_parseopt_def)

text \<open>C20: the options parser, which steps through one or two buffers byte by byte, does what
  the reference parser of the option bytes says; bytes behind the options have no effect.\<close>

theorem tcp_parseopt_correct:
  assumes "opts_ok os"
  shows "tcp_parseopt os fl pcb = apply_options fl (opts_of (take (unat (op_len os)) (opt_mem os))) pcb"
  using assms by (rule tcp_parseopt_eq)

text \<open>MSS 512, no-operation and window scale 3, cut between the buffers inside the MSS option.\<close>

definition sample_opts :: tcp_opts where
  "sample_opts = \<lparr>op_len = 8, op_len1 = 3, op_mem1 = [2, 4, 2], op_mem2 = Some [0, 1, 3, 3, 9, 77, 77]\<rparr>"

lemma sample_opts_ok: "opts_ok sample_opts"
  by (simp add: opts_ok_def sample_opts_def opt_mem_def)

theorem tcp_parseopt_correct_witness:
  "map_option (\<lambda>p. (mss p, snd_scale p, rcv_scale p)) (tcp_parseopt sample_opts TCP_SYN (rx_pcb 5840)) =
   Some (512, 9, 2)"
  unfolding tcp_parseopt_correct [OF sample_opts_ok] by code_simp

text \<open>The options of a segment with exactly the memory they fill.\<close>

lemma tcp_parseopt_exact:
  assumes "opts_fit os"
  shows "tcp_parseopt os fl pcb =
    parse_or_fault fl (unat (op_len os) = length (opt_mem os)) (take (unat (op_len os)) (opt_mem os)) pcb"
proof (cases "op_len os = 0")
  case True
  then show ?thesis by (simp add: tcp_parseopt_def parse_or_fault_def)
next
  case False
  then show ?thesis using parseopt_loop_exact [OF assms, of 0 fl pcb] by (simp add: tcp_parseopt_def)
qed

lemma tcp_parseopt_fit:
  assumes "opts_fit os" and "\<not> cut_short (take (unat (op_len os)) (opt_mem os))"
  shows "tcp_parseopt os fl pcb = apply_options fl (opts_of (take (unat (op_len os)) (opt_mem os))) pcb"
  using tcp_parseopt_exact [OF assms(1)] assms(2) by (simp add: parse_or_fault_def)

text \<open>C21: for all options of a segment, with or without a byte behind them, it is exact when
  parsing them fails: when the options end the memory and are cut short behind the kind of an option,
  so that its length is read from behind the buffer, or when a SYN brings a
  window scale while the receive window does not have its initial value, so that an assertion fails. In all
  other cases parsing returns, the MSS stays as it was or is between 1 and \<open>TCP_MSS\<close>, and the window scale
  stays as it was or is at most 14.\<close>

theorem tcp_parseopt_bounds:
  assumes "opts_fit os"
  shows "case tcp_parseopt os fl pcb of
      None \<Rightarrow> unat (op_len os) = length (opt_mem os) \<and> cut_short (opt_mem os) \<or>
        scale_asserts fl (opts_of (take (unat (op_len os)) (opt_mem os))) pcb
    | Some pcb' \<Rightarrow> \<not> (unat (op_len os) = length (opt_mem os) \<and> cut_short (opt_mem os)) \<and>
        \<not> scale_asserts fl (opts_of (take (unat (op_len os)) (opt_mem os))) pcb \<and>
        (mss pcb' = mss pcb \<or> 0 < mss pcb' \<and> mss pcb' \<le> TCP_MSS) \<and>
        (snd_scale pcb' = snd_scale pcb \<or> snd_scale pcb' \<le> 14)"
  using apply_options_bounds [of fl "opts_of (take (unat (op_len os)) (opt_mem os))" pcb]
  unfolding tcp_parseopt_exact [OF assms] parse_or_fault_def
  by (auto split: option.splits)

text \<open>An option kind as the last byte of the memory; the MSS option, with the memory ending behind it.\<close>

definition ends_opts :: "u8 list \<Rightarrow> tcp_opts" where
  "ends_opts bs = \<lparr>op_len = of_nat (length bs), op_len1 = of_nat (length bs), op_mem1 = bs, op_mem2 = None\<rparr>"

theorem tcp_parseopt_bounds_witness:
  "(\<exists>pcb'. tcp_parseopt (ends_opts [2, 4, 2, 0]) TCP_SYN (rx_pcb 5840) = Some pcb' \<and>
     (mss pcb' = 536 \<or> 0 < mss pcb' \<and> mss pcb' \<le> TCP_MSS)) \<and>
   tcp_parseopt (ends_opts [2]) TCP_SYN (rx_pcb 5840) = None"
proof -
  have f: "opts_fit (ends_opts [2, 4, 2, 0])" "opts_fit (ends_opts [2])"
    by (simp_all add: opts_fit_def ends_opts_def opt_mem_def)
  show ?thesis
    using tcp_parseopt_bounds [OF f(1), of TCP_SYN "rx_pcb 5840"] tcp_parseopt_bounds [OF f(2), of TCP_SYN "rx_pcb 5840"]
    by (auto simp: ends_opts_def opt_mem_def scale_asserts_def rx_pcb_def split: option.splits)
qed

section \<open>Selective acknowledgements\<close>

definition sacks_apart :: "tcp_sack_range list \<Rightarrow> bool" where
  "sacks_apart xs \<longleftrightarrow> sorted_wrt (\<lambda>a b. sack_apart (fst a) (snd a) b) xs"

lemma sack_list_array:
  assumes "\<forall>s\<in>set xs. fst s \<noteq> snd s"
  shows "sack_list (sack_array xs) = take 4 xs"
proof -
  have v: "\<forall>s\<in>set (take 4 xs). fst s \<noteq> snd s" using assms by (auto dest: in_set_takeD)
  have "takeWhile (\<lambda>s. fst s \<noteq> snd s) (replicate k (0 :: u32, 0 :: u32)) = []" for k
    by (cases k) simp_all
  with v show ?thesis
    by (simp add: sack_list_def sack_array_def takeWhile_append2 take_replicate)
qed

text \<open>C22: a new SACK range becomes the first of the list, ranges that overlap it go, the others
  keep their order and the fifth falls out; ranges that were apart stay apart.\<close>

theorem tcp_add_sack_correct:
  assumes "length (rcv_sacks pcb) = 4" and "has (flags pcb) TF_SACK" and "TCP_SEQ_LT left right"
  shows "sack_list (rcv_sacks (tcp_add_sack pcb left right)) =
      take 4 ((left, right) # filter (sack_apart left right) (sack_list (rcv_sacks pcb))) \<and>
    (sacks_apart (sack_list (rcv_sacks pcb)) \<longrightarrow>
       sacks_apart (sack_list (rcv_sacks (tcp_add_sack pcb left right))))"
proof -
  define xs where "xs = (left, right) # filter (sack_apart left right) (sack_list (rcv_sacks pcb))"
  have "\<forall>s\<in>set xs. fst s \<noteq> snd s"
    using seq_lt_neq [OF assms(3)] by (auto simp: xs_def sack_list_def dest: set_takeWhileD)
  then have "sack_list (rcv_sacks (tcp_add_sack pcb left right)) = take 4 xs"
    using tcp_add_sack_list [OF assms] by (simp add: xs_def sack_list_array)
  moreover have "sacks_apart (take 4 xs)" if "sacks_apart (sack_list (rcv_sacks pcb))"
    unfolding sacks_apart_def
    by (rule sorted_wrt_take) (use that in \<open>simp add: xs_def sacks_apart_def sorted_wrt_filter\<close>)
  ultimately show ?thesis by (simp add: xs_def [symmetric])
qed

theorem tcp_add_sack_correct_witness:
  "sack_list (rcv_sacks (tcp_add_sack (rx_pcb 100\<lparr>rcv_sacks := [(1050, 1060), (1020, 1030), (0, 0), (0, 0)]\<rparr>)
     1025 1040)) = [(1025, 1040), (1050, 1060)]"
  using tcp_add_sack_correct [of "rx_pcb 100\<lparr>rcv_sacks := [(1050, 1060), (1020, 1030), (0, 0), (0, 0)]\<rparr>"
      1025 1040]
  by (simp add: rx_pcb_def has_def TF_SACK_def TCP_SEQ_LT_def TCP_SEQ_LEQ_def sack_apart_def sack_list_def)

end
