(* ===== verification/Tcp_tx_spec.thy ===== *)
theory Tcp_tx_spec imports Tcp_wire Tcp_rx_spec Tcp_input "HOL-Library.Code_Target_Nat" begin

text \<open>
  The properties of the send side of a connection: \<open>tx_reach\<close> are the states of a
  connection under sequences of writes, transmissions, acknowledgements, retransmissions and
  probes, for any behaviour of the allocators and of IP. In each of them the queued segments are
  the bytes of the application that are not acknowledged, and every packet that leaves carries
  bytes of the stream at their sequence number, within the window.

  Four of the steps have a guard that the code does not check. They are the limits of these
  properties:
  the application writes or closes only while the youngest segment is the last of \<open>unsent\<close>, or
  \<open>unsent\<close> or \<open>unacked\<close> is empty (\<open>tail_last\<close>), which fails while a retransmitted segment waits
  in \<open>unsent\<close> behind a younger one in flight: then \<open>tcp_write\<close> does corrupt the stream
  (\<open>tcp_write_corrupts\<close>); it writes only while the room that is recorded for the last unsent segment is
  there and that segment is not longer than the segment size (\<open>tx_room\<close>, which \<open>tcp_write\<close> keeps), as
  otherwise \<open>tcp_write\<close> fails an assertion (\<open>tcp_write_small_window\<close>);
  the retransmission timeout strikes only while all of \<open>unacked\<close> is older than \<open>unsent\<close>
  (\<open>queues_split\<close>), as it puts the one before the other; and a segment that carries the FIN is not
  split, as both halves would carry it (\<open>tcp_split_keeps_fin\<close>).
\<close>

section \<open>Sending states\<close>

text \<open>From a connection with empty queues and initial sequence number \<open>i\<close>: the application
  has written \<open>S\<close> and, with \<open>True\<close>, closed. The rules \<open>written\<close>, \<open>fin\<close>, \<open>timeout\<close> and \<open>split\<close> have the
  guards named above.\<close>

inductive tx_reach :: "'w tcp_env \<Rightarrow> u32 \<Rightarrow> u8 list \<Rightarrow> bool \<Rightarrow> tcp_pcb \<Rightarrow> bool" for e i where
  start: "unsent pcb = [] \<Longrightarrow> unacked pcb = [] \<Longrightarrow> snd_queuelen pcb = 0 \<Longrightarrow> snd_buf pcb = TCP_SND_BUF \<Longrightarrow>
    snd_lbb pcb = i \<Longrightarrow> snd_nxt pcb = i \<Longrightarrow> lastack pcb = i \<Longrightarrow> tx_reach e i [] False pcb"
| written: "tx_reach e i S False pcb \<Longrightarrow> tail_last (unacked pcb) (unsent pcb) \<Longrightarrow> tx_room pcb \<Longrightarrow> length data < 65536 \<Longrightarrow>
    tcp_write e pcb arg data apiflags w = Some (w', pcb', err) \<Longrightarrow>
    tx_reach e i (if err = ERR_OK then S @ data else S) False pcb'"
| fin: "tx_reach e i S False pcb \<Longrightarrow> tail_last (unacked pcb) (unsent pcb) \<Longrightarrow>
    tcp_send_fin e pcb w = Some (w', pcb', err) \<Longrightarrow> tx_reach e i S (err = ERR_OK) pcb'"
| send: "tx_reach e i S f pcb \<Longrightarrow> tcp_output e t inp pcb w = Some (w', pcb', err) \<Longrightarrow> tx_reach e i S f pcb'"
| ack: "tx_reach e i S f pcb \<Longrightarrow> recv_acked tin = 0 \<Longrightarrow> tcp_receive e t v6 pcb tin w = Some (w', pcb', tin') \<Longrightarrow>
    tx_reach e i S f pcb'"
| timeout: "tx_reach e i S f pcb \<Longrightarrow> queues_split pcb \<Longrightarrow> tcp_rexmit_rto_prepare e pcb w = (pcb', err) \<Longrightarrow>
    tx_reach e i S f pcb'"
| commit: "tx_reach e i S f pcb \<Longrightarrow> tcp_rexmit_rto_commit e t inp pcb w = Some (w', pcb') \<Longrightarrow> tx_reach e i S f pcb'"
| fast: "tx_reach e i S f pcb \<Longrightarrow> tx_reach e i S f (tcp_rexmit_fast e pcb w)"
| split: "tx_reach e i S f pcb \<Longrightarrow> (unsent pcb \<noteq> [] \<longrightarrow> \<not> has (sg_hflags (hd (unsent pcb))) TCP_FIN) \<Longrightarrow>
    tcp_split_unsent_seg e pcb n w = Some (w', pcb', err) \<Longrightarrow> tx_reach e i S f pcb'"
| probe: "tx_reach e i S f pcb \<Longrightarrow> tcp_zero_window_probe e pcb w = (w', pcb', err) \<Longrightarrow> tx_reach e i S f pcb'"
| other: "tx_reach e i S f pcb \<Longrightarrow> same_tx pcb' pcb \<Longrightarrow> tx_reach e i S f pcb'"

lemma tx_inv_start:
  assumes "unsent pcb = []" "unacked pcb = []" "snd_queuelen pcb = 0" "snd_buf pcb = TCP_SND_BUF"
    "snd_lbb pcb = i" "snd_nxt pcb = i" "lastack pcb = i"
  shows "tx_inv i [] False pcb"
proof (rule tx_invI)
  show "tx_ok i [] False 0 [] pcb"
    using assms by (simp add: tx_ok_def tx_queue_def in_order_def sq_def TCP_SND_BUF_def)
  show "tx_pos i 0 (tx_end [] False) pcb" using assms by (simp add: tx_pos_def sq_def)
qed

lemma tcp_write_pos:
  assumes "tcp_write e pcb arg data apiflags w = Some (w', pcb', err)"
  shows "lastack pcb' = lastack pcb \<and> snd_nxt pcb' = snd_nxt pcb"
proof -
  have f: "lastack (tcp_set_flags p x) = lastack p" "snd_nxt (tcp_set_flags p x) = snd_nxt p" for p x
    by (simp_all add: tcp_set_flags_def)
  have c: "lastack p = lastack pcb \<and> snd_nxt p = snd_nxt pcb"
    if "write_commit pcb data apiflags wp q ql os = Some p" for wp q ql os p
    using that by (auto simp: write_commit_def Let_def elim!: bind_eq_SomeE)
  have m: "lastack p = lastack pcb \<and> snd_nxt p = snd_nxt pcb" if "write_memerr pcb = Some (p, er)" for p er
    using that by (auto simp: write_memerr_def f elim!: bind_eq_SomeE)
  obtain p er where ch: "tcp_write_checks pcb (of_nat (length data)) = Some (p, er)"
    using assms by (auto simp: tcp_write_def Let_def elim!: bind_eq_SomeE)
  then have k: "lastack p = lastack pcb \<and> snd_nxt p = snd_nxt pcb" "er = ERR_OK \<Longrightarrow> p = pcb"
    by (auto simp: f elim!: write_checks_cases)
  show ?thesis
  proof (cases "er = ERR_OK")
    case False
    then show ?thesis using assms ch k by (simp add: tcp_write_def)
  next
    case True
    then have "p = pcb" using k by simp
    then show ?thesis using assms ch True
      by (auto simp: tcp_write_def Let_def c m elim!: bind_eq_SomeE split: option.splits prod.splits dest: c m)
  qed
qed

lemma tcp_write_inv:
  assumes inv: "tx_inv i S False pcb" and "tail_last (unacked pcb) (unsent pcb)" and "tx_room pcb"
    and "length data < 65536"
  shows "\<exists>w' pcb' err. tcp_write e pcb arg data apiflags w = Some (w', pcb', err) \<and>
    (if err = ERR_OK then tx_inv i (S @ data) False pcb' \<and> tx_room pcb'
     else pcb' = pcb \<or> pcb' = tcp_set_flags pcb TF_NAGLEMEMERR)"
proof -
  obtain lo qs where ok: "tx_ok i S False lo qs pcb" "tx_pos i lo (length S) pcb"
    using inv by (auto elim: tx_invE)
  obtain w' pcb' err where r: "tcp_write e pcb arg data apiflags w = Some (w', pcb', err)" "wrote i S data lo pcb pcb' err"
    using tcp_write_step [OF ok(1) assms(2,4,3), where e = e and arg = arg and apiflags = apiflags and w = w] by blast
  have "tx_pos i lo (length (S @ data)) pcb'"
    using ok(2) tcp_write_pos [OF r(1)] by (fastforce simp: tx_pos_def)
  then have "tx_inv i (S @ data) False pcb'" if "tx_ok i (S @ data) False lo qs' pcb'" for qs'
    using that by (intro tx_invI) simp_all
  then show ?thesis using r by (auto simp: wrote_def split: if_splits)
qed

lemma tcp_receive_tx:
  assumes "tcp_receive e t v6 pcb tin w = Some (w', pcb', tin')" and "tx_inv i S f pcb" and "recv_acked tin = 0"
  shows "tx_inv i S f pcb'"
proof -
  obtain w1 p1 t1 where a: "tcp_receive_ack e t v6 pcb tin w = Some (w1, p1, t1)" "tx_inv i S f p1"
    using tcp_receive_ack_step [OF assms(2,3), where e = e and t = t and ?v6.0 = v6 and w = w] by blast
  obtain mem w2 p2 t2 acts where b: "tcp_receive_text v6 mem p1 t1 = Some (p2, t2, acts)"
    "run_rx_actions e acts (w2, p2) = (w', pcb')"
    using assms(1) a(1)
    by (auto simp: tcp_receive_def receive_copy_def bind_eq_Some_conv split: prod.splits if_splits)
  have "same_tx pcb' p1" using run_rx_actions_same [OF b(2)] tcp_receive_text_same [OF b(1)] by (rule same_tx_trans)
  then show ?thesis using a(2) by (simp only: tx_inv_same)
qed

lemma tx_reach_inv: "tx_reach e i S f pcb \<Longrightarrow> tx_inv i S f pcb"
proof (induction rule: tx_reach.induct)
  case (start pcb)
  then show ?case by (rule tx_inv_start)
next
  case (written S pcb data arg apiflags w w' pcb' err)
  obtain w1 p1 e1 where r: "tcp_write e pcb arg data apiflags w = Some (w1, p1, e1)"
    "if e1 = ERR_OK then tx_inv i (S @ data) False p1 \<and> tx_room p1 else p1 = pcb \<or> p1 = tcp_set_flags pcb TF_NAGLEMEMERR"
    using tcp_write_inv [OF written.IH written.hyps(2-4), where e = e and arg = arg and apiflags = apiflags and w = w] by blast
  then show ?case using written.hyps(5) written.IH tx_inv_same [of "tcp_set_flags pcb TF_NAGLEMEMERR" pcb]
    by (auto split: if_splits)
next
  case (fin S pcb w w' pcb' err)
  then show ?case using tcp_send_fin_step [OF fin.IH fin.hyps(2), of e w] tx_inv_same [of "tcp_set_flags pcb TF_NAGLEMEMERR" pcb]
    by (auto split: if_splits)
next
  case (send S f pcb t inp w w' pcb' err)
  then show ?case by (blast intro: tcp_output_inv)
next
  case (ack S f pcb tin t v6 w w' pcb' tin')
  then show ?case by (blast intro: tcp_receive_tx)
next
  case (timeout S f pcb w pcb' err)
  then show ?case by (blast intro: tcp_rexmit_rto_prepare_inv)
next
  case (commit S f pcb t inp w w' pcb')
  have "same_tx (count_rtx pcb) pcb" by (simp add: count_rtx_def same_tx_def)
  then have "tx_inv i S f (count_rtx pcb)" using commit.IH by (simp only: tx_inv_same)
  then show ?case using commit.hyps(2) by (auto simp: tcp_rexmit_rto_commit_def elim!: bind_eq_SomeE intro: tcp_output_inv)
next
  case (fast S f pcb w)
  then show ?case by (intro tcp_rexmit_fast_inv)
next
  case (split S f pcb n w w' pcb' err)
  show ?case by (rule tcp_split_unsent_seg_inv [OF split.hyps(3) split.IH]) (use split.hyps(2) in simp)
next
  case (probe S f pcb w w' pcb' err)
  then show ?case by (blast intro: tcp_zero_window_probe_inv)
next
  case (other S f pcb pcb')
  then show ?case by (simp only: tx_inv_same)
qed

section \<open>Environments with a log\<close>

text \<open>An environment whose packets are recorded in the order IP gets them; the contents of an
  allocated buffer are those of the given environment, of the size asked for.\<close>

definition fit :: "nat \<Rightarrow> u8 list \<Rightarrow> u8 list" where
  "fit n xs = take n (xs @ replicate n 0)"

lemma length_fit [simp]: "length (fit n xs) = n"
  by (simp add: fit_def)

definition logging :: "'w tcp_env \<Rightarrow> ('w \<times> u8 list list) tcp_env" where
  "logging e =
     \<lparr>te_pbuf_alloc = (\<lambda>l n t (w, ps). case te_pbuf_alloc e l n t w of (w, r) \<Rightarrow> ((w, ps), map_option (fit (unat n)) r)),
      te_seg_alloc = (\<lambda>(w, ps). case te_seg_alloc e w of (w, r) \<Rightarrow> ((w, ps), r)),
      te_netif_get_by_index = (\<lambda>(w, ps). te_netif_get_by_index e w),
      te_ip_route = (\<lambda>(w, ps). te_ip_route e w),
      te_ip6_select_source_address = (\<lambda>(w, ps). te_ip6_select_source_address e w),
      te_nd6_get_destination_mtu = (\<lambda>(w, ps). te_nd6_get_destination_mtu e w),
      te_nd6_reachability_hint = (\<lambda>(w, ps). (te_nd6_reachability_hint e w, ps)),
      te_segment_busy = (\<lambda>(w, ps). te_segment_busy e w),
      te_ip_output_if = (\<lambda>p src dst tt ts proto n (w, ps).
        case te_ip_output_if e p src dst tt ts proto n w of (w, err) \<Rightarrow> ((w, ps @ [p]), err))\<rparr>"

interpretation lw: tcp_wire "logging e" snd for e
  by unfold_locales (auto simp: logging_def split: prod.splits)

section \<open>The send queue\<close>

lemma tiles_concat:
  "tiles i S p q hi \<Longrightarrow> hi \<le> Suc (length S) \<Longrightarrow> concat (map sg_data q) = take (hi - p) (drop p S)"
proof (induction q arbitrary: p)
  case (Cons s q)
  have s: "sg_data s = take (unat (sg_len s)) (drop p S)" "p + unat (sg_len s) \<le> length S"
    "has (sg_hflags s) TCP_FIN \<longrightarrow> p + unat (sg_len s) = length S"
    using Cons.prems(1) by (simp_all add: tx_seg_def stream_part_def)
  have le: "p + seg_tl s \<le> hi" using Cons.prems(1) by (auto dest: tiles_le)
  have IH: "concat (map sg_data q) = take (hi - (p + seg_tl s)) (drop (p + seg_tl s) S)"
    using Cons by simp
  show ?case
  proof (cases "has (sg_hflags s) TCP_FIN")
    case True
    then have "seg_tl s = Suc (unat (sg_len s))" "p + unat (sg_len s) = length S"
      using s(3) by (simp_all add: seg_tl_def fin_len_def)
    then show ?thesis using IH s(1) le by simp
  next
    case False
    then have l: "seg_tl s = unat (sg_len s)" by (simp add: seg_tl_def fin_len_def)
    have "take (hi - p) (drop p S) = take (unat (sg_len s)) (drop p S) @ take (hi - p - unat (sg_len s)) (drop (unat (sg_len s)) (drop p S))"
      using le l take_add [of "unat (sg_len s)" "hi - p - unat (sg_len s)" "drop p S"] by simp
    then show ?thesis using IH s(1) l by (simp add: add.commute)
  qed
qed simp

lemma tx_inv_queue:
  assumes "tx_inv i S f pcb"
  shows "\<exists>lo la qs. mset qs = mset (unacked pcb @ unsent pcb) \<and> concat (map sg_data qs) = drop lo S \<and>
    lastack pcb = sq i la \<and> lo \<le> la \<and> la \<le> length S + of_bool f \<and>
    unat (snd_buf pcb) + (length S - lo) = 11680 \<and> unat (snd_queuelen pcb) = (\<Sum>s\<leftarrow>qs. length (sg_bufs s))"
proof -
  obtain lo qs where ok: "tx_ok i S f lo qs pcb" and pos: "tx_pos i lo (tx_end S f) pcb" using assms by (rule tx_invE)
  have q: "tiles i S lo qs (tx_end S f)" "mset qs = mset (unacked pcb @ unsent pcb)"
    "unat (snd_buf pcb) + dlens qs = 11680"
    using ok by (simp_all add: tx_ok_def tx_queue_def)
  have c: "concat (map sg_data qs) = drop lo S"
    using tiles_concat [OF q(1)] by (simp add: tx_end_def)
  have "dlens qs = length (concat (map sg_data qs))"
  proof -
    have "unat (sg_len s) = length (sg_data s)" if "s \<in> set qs" for s
      using tiles_mem_ex [OF q(1) that] by (auto simp: tx_seg_def stream_part_def min_def)
    then show ?thesis by (simp add: dlens_def length_concat comp_def cong: map_cong)
  qed
  then have "unat (snd_buf pcb) + (length S - lo) = 11680" using q(3) c by simp
  moreover obtain la where "lastack pcb = sq i la" "lo \<le> la" "la \<le> length S + of_bool f"
    using pos by (auto simp: tx_pos_def tx_end_def)
  ultimately show ?thesis using q(2) c tx_ok_facts(2) [OF ok]
    by (intro exI [of _ lo] exI [of _ la] exI [of _ qs]) (simp add: clens_def)
qed

section \<open>A run\<close>

declare write_phase3.simps [code]

definition tx_netif :: netif where
  "tx_netif = \<lparr>netif_ip_addr = ip_addr_copy_from_ip4 0x0100000a, netif_netmask = ip_addr_copy_from_ip4 0x00ffffff,
     netif_gw = ip_addr_copy_from_ip4 0x0100000a, netif_ip6_addr = [], netif_ip6_addr_state = [],
     netif_mtu = 1500, netif_mtu6 = 1500, netif_flags = 5, netif_num = 0\<rparr>"

definition sample_tcp_env :: "unit tcp_env" where
  "sample_tcp_env =
     \<lparr>te_pbuf_alloc = (\<lambda>l n t w. (w, Some [])), te_seg_alloc = (\<lambda>w. (w, True)),
      te_netif_get_by_index = (\<lambda>w i. Some tx_netif), te_ip_route = (\<lambda>w s d. Some tx_netif),
      te_ip6_select_source_address = (\<lambda>w n a. None), te_nd6_get_destination_mtu = (\<lambda>w a n. 1280),
      te_nd6_reachability_hint = (\<lambda>w. w), te_segment_busy = (\<lambda>w s. False),
      te_ip_output_if = (\<lambda>p src dst tt ts proto n w. (w, ERR_OK))\<rparr>"

definition tx_env :: "(unit \<times> u8 list list) tcp_env" where
  "tx_env = logging sample_tcp_env"

definition tx_pcb0 :: tcp_pcb where
  "tx_pcb0 = rx_pcb 5840\<lparr>flags := TF_NODELAY\<rparr>"

definition tx_pcb1 :: tcp_pcb where
  "tx_pcb1 = fst (snd (the (tcp_write tx_env tx_pcb0 16 [1, 2, 3] TCP_WRITE_FLAG_COPY ((), []))))"

lemma tx_run_write:
  "tcp_write tx_env tx_pcb0 16 [1, 2, 3] TCP_WRITE_FLAG_COPY ((), []) = Some (((), []), tx_pcb1, ERR_OK)"
  unfolding tx_pcb1_def by code_simp

lemma tx_pcb1_simps:
  "unacked tx_pcb1 = []" "length (unsent tx_pcb1) = 1" "state tx_pcb1 = ESTABLISHED" "tx_room tx_pcb1" "lastack tx_pcb1 = 500"
  "min (snd_wnd tx_pcb1) (cwnd tx_pcb1) = 2144"
  unfolding tx_pcb1_def by code_simp+

lemma tx_reach_start: "tx_reach tx_env 500 [] False tx_pcb0"
  by (rule tx_reach.start) (simp_all add: tx_pcb0_def rx_pcb_def TCP_SND_BUF_def)

lemma tx_reach_pcb1: "tx_reach tx_env 500 [1, 2, 3] False tx_pcb1"
  using tx_reach.written [OF tx_reach_start _ _ _ tx_run_write] by (simp add: tail_last_def tx_room_def tx_pcb0_def rx_pcb_def)

lemma tx_run_output:
  "map_option (\<lambda>((w, ps), pcb, err). (map wire_seq ps, map wire_data ps, err)) (tcp_output tx_env 7 False tx_pcb1 ((), [])) =
   Some ([500], [[1, 2, 3]], ERR_OK)"
  unfolding tx_pcb1_def by code_simp

section \<open>Sending\<close>

text \<open>C5: in every state of a sending connection that \<open>tx_reach\<close> describes (writes and closes only while no
  older segment waits in \<open>unsent\<close> behind a younger one in flight and the recorded room fits the last unsent
  segment, timeouts only while \<open>unacked\<close> is older than \<open>unsent\<close>, no split of the FIN; anything
  else in any order) the queued segments, in the order of their
  sequence numbers, carry exactly the application's bytes from some position at or before the last
  acknowledged one to the end; the free room and the buffer count of the connection are
  what these segments leave and use.\<close>

theorem tcp_send_queue_stream:
  assumes "tx_reach e i S f pcb"
  shows "\<exists>lo la qs. mset qs = mset (unacked pcb @ unsent pcb) \<and> concat (map sg_data qs) = drop lo S \<and>
    lastack pcb = sq i la \<and> lo \<le> la \<and> la \<le> length S + of_bool f \<and>
    unat (snd_buf pcb) + (length S - lo) = 11680 \<and> unat (snd_queuelen pcb) = (\<Sum>s\<leftarrow>qs. length (sg_bufs s))"
  using tx_reach_inv [OF assms] by (rule tx_inv_queue)

theorem tcp_send_queue_stream_witness:
  "\<exists>lo la qs. mset qs = mset (unsent tx_pcb1) \<and> concat (map sg_data qs) = drop lo [1, 2, 3] \<and>
    500 = sq 500 la \<and> lo \<le> la \<and> la \<le> 3"
  using tcp_send_queue_stream [OF tx_reach_pcb1] by (simp add: tx_pcb1_simps numeral_3_eq_3) metis

text \<open>C6: as long as the youngest segment is the last of \<open>unsent\<close>, or \<open>unsent\<close> or \<open>unacked\<close> is empty, and
  the room recorded for the last unsent segment is there, \<^verbatim>\<open>tcp_write\<close> returns for all data, flags and patterns of failing
  allocations, without failing an assertion; with \<^verbatim>\<open>ERR_OK\<close> the data is behind the stream and the room is
  again as recorded, and with any other result nothing but a flag has changed. Neither condition is checked by the code;
  what happens without the first is the property about \<open>tcp_write_corrupts\<close>.\<close>

theorem tcp_write_correct:
  assumes "tx_reach e i S False pcb" and "tail_last (unacked pcb) (unsent pcb)" and "tx_room pcb"
    and "length data < 65536"
  shows "\<exists>w' pcb' err. tcp_write e pcb arg data apiflags w = Some (w', pcb', err) \<and>
    (if err = ERR_OK then tx_reach e i (S @ data) False pcb' \<and> tx_room pcb'
     else pcb' = pcb \<or> pcb' = tcp_set_flags pcb TF_NAGLEMEMERR)"
proof -
  obtain w' pcb' err where r: "tcp_write e pcb arg data apiflags w = Some (w', pcb', err)"
    "if err = ERR_OK then tx_inv i (S @ data) False pcb' \<and> tx_room pcb'
     else pcb' = pcb \<or> pcb' = tcp_set_flags pcb TF_NAGLEMEMERR"
    using tcp_write_inv [OF tx_reach_inv [OF assms(1)] assms(2-4), where e = e and arg = arg and apiflags = apiflags and w = w]
    by blast
  have "tx_reach e i (if err = ERR_OK then S @ data else S) False pcb'"
    by (rule tx_reach.written [OF assms(1-4) r(1)])
  then show ?thesis using r by (auto split: if_splits)
qed

theorem tcp_write_correct_witness:
  "\<exists>w' pcb' err. tcp_write tx_env tx_pcb1 32 [4, 5] TCP_WRITE_FLAG_COPY ((), []) = Some (w', pcb', err) \<and>
    (if err = ERR_OK then tx_reach tx_env 500 [1, 2, 3, 4, 5] False pcb' \<and> tx_room pcb'
     else pcb' = tx_pcb1 \<or> pcb' = tcp_set_flags tx_pcb1 TF_NAGLEMEMERR)"
  using tcp_write_correct [OF tx_reach_pcb1, where data = "[4, 5]" and arg = "32" and apiflags = TCP_WRITE_FLAG_COPY and w = "((), [])"]
  by (simp only: tail_last_def tx_pcb1_simps simp_thms list.size append.simps)

section \<open>Writing behind a retransmitted segment\<close>

lemma tiles_apart:
  assumes "tiles i S p q hi" and "a \<in> set q" and "b \<in> set q" and "lo \<le> p" and "hi < lo + 0x80000000"
    and "opos i lo a < opos i lo b"
  shows "opos i lo a + seg_tl a \<le> opos i lo b"
  using assms
proof (induction q arbitrary: p)
  case (Cons x q)
  have x: "tx_seg i S p x" "tiles i S (p + seg_tl x) q hi" "0 < seg_tl x"
    using Cons.prems(1) by (auto simp: tx_seg_def)
  have le: "p + seg_tl x \<le> hi" using tiles_le [OF x(2)] .
  have ox: "opos i lo x = p - lo"
    using x Cons.prems(4,5) le by (intro opos_at [of i S]) (simp_all add: tx_seg_def)
  have later: "p + seg_tl x - lo \<le> opos i lo s" if "s \<in> set q" for s
    using tiles_in_order [OF x(2), of lo] Cons.prems(4,5) that by auto
  show ?case
  proof (cases "a \<in> set q \<and> b \<in> set q")
    case True
    then show ?thesis using Cons.IH [OF x(2)] Cons.prems(4-6) by simp
  next
    case False
    then have "a = x" "b \<in> set q" using Cons.prems(2,3,6) later [of a] ox x(3) Cons.prems(4) by force+
    then show ?thesis using later [of b] ox Cons.prems(4) by simp
  qed
qed simp

lemma last_upd_last: "xs \<noteq> [] \<Longrightarrow> f (List.last xs) \<in> set (upd_last f xs)"
  by (simp add: upd_last_def)

lemma write_phase2_cases:
  assumes "write_phase2 e pcb l arg len apiflags wp0 space w = Some (w', Some wp)"
  obtains (none) "wp = wp0" "\<not> (wp_pos wp0 < len \<and> 0 < space \<and> 0 < sg_len l)"
  | (concat) a where "wp_pos wp0 < len" "0 < space" "wp_used wp = wp_used wp0"
      "wp_concat wp = Some (unat (min space (len - wp_pos wp0)), a)"
  | (extend) "wp_pos wp0 < len" "0 < space" "wp_pos wp0 = 0" "wp_used wp = wp_used wp0" "wp_concat wp = wp_concat wp0"
      "wp_extend wp = min space (len - wp_pos wp0)"
proof (cases "wp_pos wp0 < len \<and> 0 < space \<and> 0 < sg_len l")
  case False
  then show ?thesis using assms none by (auto simp: write_phase2_def)
next
  case True
  define n where "n = min space (len - wp_pos wp0)"
  from True assms concat extend show ?thesis
    unfolding write_phase2_def Let_def n_def [symmetric]
    by (auto simp: bind_eq_Some_conv split: if_splits option.splits prod.splits)
qed

text \<open>When \<open>tcp_write\<close> succeeds and the last unsent segment has room, the first bytes go there.\<close>

lemma write_plan_grows:
  assumes "write_phase1 pcb l len = Some (wp0, space)" and "write_phase2 e pcb l arg len apiflags wp0 space w = Some (w', Some wp)"
    and "0 < len" and "0 < sg_len l" and "sg_len l < write_mss pcb" and "sg_flags l = 0"
  shows "\<exists>m. 0 < m \<and> sg_seqno (write_commit_last wp data l) = sg_seqno l \<and>
    sg_data (write_commit_last wp data l) = sg_data l @ take m data"
proof -
  have sp: "0 < write_mss pcb - sg_len l" using assms(5) by (simp add: word_less_nat_alt unat_sub_le)
  have p1: "wp_pos wp0 = wp_used wp0" "wp_extend wp0 = 0" "wp_concat wp0 = None"
    "wp_used wp0 = 0 \<Longrightarrow> unsent_oversize pcb = 0 \<and> space = write_mss pcb - sg_len l"
    using assms(1,3,6) sp
    by (auto simp: write_phase1_def Let_def LWIP_TCP_OPT_LENGTH_def bind_eq_Some_conv word_gt_0 min_def split: if_splits)
  from assms(2) show ?thesis
  proof (cases rule: write_phase2_cases)
    case none
    then have "0 < wp_used wp0" using p1 assms(3,4) sp by (cases "wp_used wp0 = 0") (auto simp: word_gt_0)
    then show ?thesis using none(1) p1
      by (intro exI [of _ "unat (wp_used wp0)"]) (simp add: write_commit_last_def word_less_nat_alt)
  next
    case (concat a)
    define n where "n = min space (len - wp_pos wp0)"
    have "n \<noteq> 0" using concat(1,2) by (auto simp: n_def min_def)
    then have "0 < unat (wp_used wp0) + unat n" by (simp add: unat_gt_0)
    then show ?thesis using concat(3,4) unfolding n_def [symmetric]
      by (intro exI [of _ "unat (wp_used wp0) + unat n"]) (auto simp: write_commit_last_def Let_def take_add word_gt_0 unat_eq_0)
  next
    case extend
    define n where "n = min space (len - wp_pos wp0)"
    have "n \<noteq> 0" using extend(1,2) by (auto simp: n_def min_def)
    moreover have "wp_used wp = 0" "wp_concat wp = None" "wp_extend wp = n"
      using extend(3-6) p1 by (simp_all add: n_def)
    ultimately show ?thesis
      by (intro exI [of _ "unat n"]) (simp add: write_commit_last_def unat_gt_0 word_gt_0)
  qed
qed

lemma tcp_write_grows_last:
  assumes "tcp_write e pcb arg data apiflags w = Some (w', pcb', ERR_OK)" and "unsent pcb \<noteq> []"
    and "0 < length data" and "length data < 65536"
    and "0 < sg_len (List.last (unsent pcb))" and "sg_len (List.last (unsent pcb)) < write_mss pcb"
    and "sg_flags (List.last (unsent pcb)) = 0"
  shows "\<exists>s\<in>set (unsent pcb'). \<exists>m>0. sg_seqno s = sg_seqno (List.last (unsent pcb)) \<and>
    sg_data s = sg_data (List.last (unsent pcb)) @ take m data"
proof -
  define l where "l = List.last (unsent pcb)"
  define n where "n = (of_nat (length data) :: u16)"
  have n: "0 < n" using assms(3,4) by (simp add: n_def word_less_nat_alt unat_of_nat_u16)
  obtain x xs where us: "unsent pcb = x # xs" using assms(2) by (cases "unsent pcb") auto
  have m [simp]: "write_memerr p \<noteq> Some (q, ERR_OK)" for p q
    by (auto simp: write_memerr_def bind_eq_Some_conv)
  obtain p0 where "tcp_write_checks pcb n = Some (p0, ERR_OK)"
    using assms(1) by (auto simp: tcp_write_def n_def Let_def bind_eq_Some_conv split: if_splits)
  then have ch: "tcp_write_checks pcb n = Some (pcb, ERR_OK)" by (auto elim!: write_checks_cases)
  obtain wp0 space w1 wp q ql os where r: "write_phase1 pcb l n = Some (wp0, space)"
    "write_phase2 e pcb l arg n apiflags wp0 space w = Some (w1, Some wp)"
    "write_commit pcb data apiflags wp q ql os = Some pcb'"
    using assms(1) ch us
    by (auto simp: tcp_write_def Let_def bind_eq_Some_conv l_def simp flip: n_def split: option.splits prod.splits)
  obtain k where k: "0 < k" "sg_seqno (write_commit_last wp data l) = sg_seqno l"
    "sg_data (write_commit_last wp data l) = sg_data l @ take k data"
    using write_plan_grows [OF r(1,2) n] assms(5-7) unfolding l_def by blast
  define g where "g = write_commit_last wp data l"
  define vs where "vs = upd_last (write_commit_last wp data) (unsent pcb) @ q"
  have g: "g \<in> set vs" using last_upd_last [OF assms(2), of "write_commit_last wp data"] by (simp add: vs_def g_def l_def)
  have psh: "\<exists>s\<in>set (upd_last (seg_set_flags TCP_PSH) vs). sg_seqno s = sg_seqno g \<and> sg_data s = sg_data g"
  proof (cases "g = List.last vs")
    case True
    have "seg_set_flags TCP_PSH g \<in> set (upd_last (seg_set_flags TCP_PSH) vs)"
      using g last_upd_last [of vs "seg_set_flags TCP_PSH"] unfolding True by (cases vs) simp_all
    then show ?thesis by (rule bexI [rotated]) (simp add: seg_set_flags_def)
  next
    case False
    then have "g \<in> set (butlast vs)" using g by (cases vs rule: rev_cases) auto
    then show ?thesis using g by (intro bexI [of _ g]) (auto simp: upd_last_def)
  qed
  have "unsent pcb' = vs \<or> unsent pcb' = upd_last (seg_set_flags TCP_PSH) vs"
    using r(3) by (cases "(q \<noteq> [] \<or> wp_last wp) \<and> \<not> has apiflags TCP_WRITE_FLAG_MORE")
      (auto simp: write_commit_def Let_def bind_eq_Some_conv simp flip: vs_def)
  then have "\<exists>s\<in>set (unsent pcb'). sg_seqno s = sg_seqno g \<and> sg_data s = sg_data g" using psh g by auto
  then show ?thesis using k unfolding g_def [symmetric] l_def [symmetric] by auto
qed

text \<open>C19: without the guard on writing the stream is corrupted. When a retransmitted segment waits in
  \<open>unsent\<close> behind a younger one in flight and has room, \<^verbatim>\<open>tcp_write\<close> reports success but appends
  the new bytes to that old segment: the first new byte gets the sequence number of a byte of the stream
  that was written long before.\<close>

theorem tcp_write_corrupts:
  assumes "tx_reach e i S False pcb" and "\<not> tail_last (unacked pcb) (unsent pcb)"
    and "sg_len (List.last (unsent pcb)) < write_mss pcb" and "0 < length data" and "length data < 65536"
    and "tcp_write e pcb arg data apiflags w = Some (w', pcb', ERR_OK)"
  shows "\<exists>s\<in>set (unsent pcb'). \<exists>p n m. sg_seqno s = sq i p \<and> p + n < length S \<and> 0 < m \<and>
    sg_data s = take n (drop p S) @ take m data"
proof -
  obtain lo qs where ok: "tx_ok i S False lo qs pcb" using tx_reach_inv [OF assms(1)] by (auto elim: tx_invE)
  then have q: "tx_queue i S lo (length S) qs (unacked pcb) (unsent pcb)" by (simp add: tx_ok_def)
  then have t: "tiles i S lo qs (length S)" "length S < lo + 0x80000000" by (simp_all add: tx_queue_def)
  define l where "l = List.last (unsent pcb)"
  define a where "a = List.last (unacked pcb)"
  have ne: "unsent pcb \<noteq> []" "unacked pcb \<noteq> []" "\<not> TCP_SEQ_LT (sg_seqno a) (sg_seqno l)"
    using assms(2) by (auto simp: tail_last_def l_def a_def)
  have mem: "l \<in> set (unsent pcb)" "a \<in> set (unacked pcb)" using ne by (simp_all add: l_def a_def)
  note f = tx_queue_facts [OF q]
  have qs: "l \<in> set qs" "a \<in> set qs" "a \<noteq> l" using mem f(4,6) by auto
  have "\<not> opos i lo a < opos i lo l" using ne(3) tx_queue_lt [OF q qs(2,1)] by simp
  moreover have "opos i lo a \<noteq> opos i lo l" using inj_onD [OF f(3) _ qs(2,1)] qs(3) by blast
  ultimately have "opos i lo l < opos i lo a" by simp
  from tiles_apart [OF t(1) qs(1,2) order_refl t(2) this]
  have ap: "opos i lo l + seg_tl l \<le> opos i lo a" .
  obtain p where p: "lo \<le> p" "tx_seg i S p l" "p + seg_tl l \<le> length S" using tiles_mem [OF t(1) qs(1)] .
  have op: "opos i lo l = p - lo" using p t(2) by (intro opos_at [of i S]) (simp_all add: tx_seg_def)
  have "opos i lo a < length S - lo" using tiles_in_order [OF t(1) order_refl t(2)] qs(2) by blast
  then have "p + seg_tl l < length S" using ap op p(1) by simp
  moreover have "seg_tl l = unat (sg_len l)"
    using tiles_no_fin [OF t(1) order_refl qs(1)] by (simp add: seg_tl_def fin_len_def)
  ultimately have l: "p + unat (sg_len l) < length S" "sg_seqno l = sq i p" "sg_data l = take (unat (sg_len l)) (drop p S)"
    "0 < sg_len l" "sg_flags l = 0"
    using p(2) by (simp_all add: tx_seg_def stream_part_def word_less_nat_alt)
  obtain s m where s: "s \<in> set (unsent pcb')" "0 < m" "sg_seqno s = sg_seqno l" "sg_data s = sg_data l @ take m data"
    using tcp_write_grows_last [OF assms(6) ne(1) assms(4,5)] assms(3) l(4,5) unfolding l_def by blast
  then show ?thesis using l(1-3) by (intro bexI [OF _ s(1)] exI conjI) (assumption | simp)+
qed

text \<open>Three bytes, sent; three more, sent; the first segment is put back into \<open>unsent\<close> by three duplicate
  acknowledgements, and the application writes two bytes.\<close>

definition run_seg :: "u32 \<Rightarrow> u8 \<Rightarrow> u8 list \<Rightarrow> tcp_seg" where
  "run_seg q fl d = \<lparr>sg_src = 80, sg_dest = 5000, sg_seqno = q, sg_hlen = 5, sg_hflags = fl, sg_len = of_nat (length d),
     sg_data = d, sg_bufs = [(length d, None)], sg_flags = 0\<rparr>"

definition tx_pcb2 :: tcp_pcb where
  "tx_pcb2 = tx_pcb0\<lparr>rtime := 0, rttest := 7, rtseq := 500, snd_nxt := 503, snd_lbb := 503, snd_buf := 11677,
     snd_queuelen := 1, unacked := [run_seg 500 24 [1, 2, 3]]\<rparr>"

definition tx_pcb3 :: tcp_pcb where
  "tx_pcb3 = tx_pcb2\<lparr>snd_lbb := 506, snd_buf := 11674, snd_queuelen := 2, unsent := [run_seg 503 8 [4, 5, 6]]\<rparr>"

definition tx_pcb4 :: tcp_pcb where
  "tx_pcb4 = tx_pcb3\<lparr>snd_nxt := 506, unsent := [], unacked := [run_seg 500 24 [1, 2, 3], run_seg 503 24 [4, 5, 6]]\<rparr>"

definition tx_pcb5 :: tcp_pcb where
  "tx_pcb5 = tx_pcb4\<lparr>flags := 68, rttest := 0, nrtx := 1, cwnd := 2680, ssthresh := 1072,
     unsent := [run_seg 500 24 [1, 2, 3]], unacked := [run_seg 503 24 [4, 5, 6]]\<rparr>"

lemma tx_run_2: "map_option snd (tcp_output tx_env 7 False tx_pcb1 ((), [])) = Some (tx_pcb2, ERR_OK)"
  unfolding tx_pcb1_def by code_simp

lemma tx_run_3: "map_option snd (tcp_write tx_env tx_pcb2 19 [4, 5, 6] TCP_WRITE_FLAG_COPY ((), [])) = Some (tx_pcb3, ERR_OK)"
  by code_simp

lemma tx_run_4: "map_option snd (tcp_output tx_env 7 False tx_pcb3 ((), [])) = Some (tx_pcb4, ERR_OK)"
  by code_simp

lemma tx_run_5: "tcp_rexmit_fast tx_env tx_pcb4 ((), []) = tx_pcb5"
  by code_simp

lemma tx_run_6:
  "\<not> tail_last (unacked tx_pcb5) (unsent tx_pcb5)" "sg_len (List.last (unsent tx_pcb5)) < write_mss tx_pcb5"
  "map_option (\<lambda>r. (snd (snd r), map sg_data (unsent (fst (snd r))))) (tcp_write tx_env tx_pcb5 22 [7, 8] TCP_WRITE_FLAG_COPY ((), [])) =
   Some (ERR_OK, [[1, 2, 3, 7, 8]])"
  by code_simp+

lemma tx_reach_pcb5: "tx_reach tx_env 500 [1, 2, 3, 4, 5, 6] False tx_pcb5"
proof -
  have 2: "tx_reach tx_env 500 [1, 2, 3] False tx_pcb2"
    using tx_run_2 tx_reach.send [OF tx_reach_pcb1] by auto
  obtain w3 where w3: "tcp_write tx_env tx_pcb2 19 [4, 5, 6] TCP_WRITE_FLAG_COPY ((), []) = Some (w3, tx_pcb3, ERR_OK)"
    using tx_run_3 by auto
  have "unsent tx_pcb2 = []" "unsent_oversize tx_pcb2 = 0" by (simp_all add: tx_pcb2_def tx_pcb0_def rx_pcb_def)
  then have 3: "tx_reach tx_env 500 [1, 2, 3, 4, 5, 6] False tx_pcb3"
    using tx_reach.written [OF 2 _ _ _ w3] by (simp add: tail_last_def tx_room_def)
  have "tx_reach tx_env 500 [1, 2, 3, 4, 5, 6] False tx_pcb4"
    using tx_run_4 tx_reach.send [OF 3] by auto
  then show ?thesis using tx_reach.fast [of tx_env 500 _ False tx_pcb4 "((), [])"] by (simp only: tx_run_5)
qed

theorem tcp_write_corrupts_witness:
  "\<exists>w' pcb'. tcp_write tx_env tx_pcb5 22 [7, 8] TCP_WRITE_FLAG_COPY ((), []) = Some (w', pcb', ERR_OK) \<and>
    (\<exists>s\<in>set (unsent pcb'). \<exists>p n m. sg_seqno s = sq 500 p \<and> p + n < length [1, 2, 3, 4, 5, 6 :: u8] \<and> 0 < m \<and>
      sg_data s = take n (drop p [1, 2, 3, 4, 5, 6]) @ take m [7, 8])"
proof -
  obtain w' pcb' where r: "tcp_write tx_env tx_pcb5 22 [7, 8] TCP_WRITE_FLAG_COPY ((), []) = Some (w', pcb', ERR_OK)"
    using tx_run_6(3) by (cases "tcp_write tx_env tx_pcb5 22 [7, 8] TCP_WRITE_FLAG_COPY ((), [])") auto
  have l: "0 < length [7, 8 :: u8]" "length [7, 8 :: u8] < 65536" by simp_all
  show ?thesis using tcp_write_corrupts [OF tx_reach_pcb5 tx_run_6(1,2) l r] r by blast
qed

text \<open>Without the second guard an assertion fails. The segment size of \<open>tcp_write\<close> is at most half the
  largest window the peer has announced, unless that is 0 or 1; so it shrinks when a peer that
  announced no window first announces a small one, and a segment that waits is then longer.\<close>

lemma tcp_write_small_window:
  assumes "tcp_write_checks pcb (of_nat (length data)) = Some (pcb, ERR_OK)" and "unsent pcb \<noteq> []"
    and "write_mss pcb < sg_len (List.last (unsent pcb))"
  shows "tcp_write e pcb arg data apiflags w = None"
proof -
  obtain x xs where us: "unsent pcb = x # xs" using assms(2) by (cases "unsent pcb") auto
  have "write_phase1 pcb (List.last (unsent pcb)) len = None" for len
    using assms(3) by (simp add: write_phase1_def LWIP_ASSERT_def word_less_nat_alt)
  then show ?thesis using assms(1) us by (simp add: tcp_write_def Let_def)
qed

definition shut_pcb :: tcp_pcb where
  "shut_pcb = tx_pcb0\<lparr>snd_wnd := 0, snd_wnd_max := 0\<rparr>"

definition shut_pcb1 :: tcp_pcb where
  "shut_pcb1 = shut_pcb\<lparr>snd_lbb := 509, snd_buf := 11671, snd_queuelen := 1, unsent := [run_seg 500 8 (replicate 9 1)]\<rparr>"

definition shut_ack :: tcp_in where
  "shut_ack = (rx_seg 1001 TCP_ACK [])\<lparr>g_wnd := 10\<rparr>"

text \<open>Nine bytes are written while the window is 0; the peer opens the window to 10; the next write aborts.\<close>

lemma tcp_write_small_window_run:
  "map_option snd (tcp_write tx_env shut_pcb 16 (replicate 9 1) TCP_WRITE_FLAG_COPY ((), [])) = Some (shut_pcb1, ERR_OK)"
  "map_option (\<lambda>(w, pcb, tin). (write_mss pcb, map sg_len (unsent pcb), tcp_write tx_env pcb 25 [2] TCP_WRITE_FLAG_COPY w = None))
     (tcp_receive tx_env 7 False shut_pcb1 shut_ack ((), [])) = Some (5, [9], True)"
  by code_simp+

text \<open>C1: \<^verbatim>\<open>tcp_output\<close> returns without failing an assertion, whatever IP answers and whichever allocations
  fail, keeps the send queue, and every packet it gives to IP has a checksum that verifies, the
  acknowledgement number of the connection, and the bytes of the stream at its sequence number,
  none of them behind the window of the peer or the congestion window.\<close>

theorem tcp_output_correct:
  assumes "tx_reach (logging e) i S f pcb" and "state pcb \<noteq> LISTEN"
  shows "\<exists>w' ps pcb' err la. tcp_output (logging e) t inp pcb (w, log) = Some ((w', log @ ps), pcb', err) \<and>
    tx_reach (logging e) i S f pcb' \<and> lastack pcb = sq i la \<and> la \<le> length S + 1 \<and>
    (\<forall>p\<in>set ps. wire_part i S (la + unat (min (snd_wnd pcb) (cwnd pcb))) pcb' p)"
proof -
  have inv: "tx_inv i S f pcb" using tx_reach_inv [OF assms(1)] .
  obtain w' log' pcb' err where r: "tcp_output (logging e) t inp pcb (w, log) = Some ((w', log'), pcb', err)"
    using tcp_output_total [OF inv assms(2), of "logging e" t inp "(w, log)"] by (metis prod.exhaust)
  obtain la where la: "lastack pcb = sq i la" "la \<le> tx_end S f" "tx_end S f \<le> la + 11681"
    using tx_inv_ackpos [OF inv] .
  have "emits snd i S (la + unat (min (snd_wnd pcb) (cwnd pcb))) pcb' (w, log) (w', log')"
    using lw.tcp_output_emits [OF r inv la] .
  then obtain ps where "log' = log @ ps" "\<forall>p\<in>set ps. wire_part i S (la + unat (min (snd_wnd pcb) (cwnd pcb))) pcb' p"
    by (auto simp: emits_def)
  moreover have "tx_reach (logging e) i S f pcb'" by (rule tx_reach.send [OF assms(1) r])
  moreover have "la \<le> length S + 1" using la(2) by (cases f) simp_all
  ultimately show ?thesis using r la(1) by blast
qed

theorem tcp_output_correct_witness:
  "\<exists>w' p pcb' err. tcp_output tx_env 7 False tx_pcb1 ((), []) = Some ((w', [p]), pcb', err) \<and>
    wire_seq p = 500 \<and> wire_data p = [1, 2, 3] \<and> wire_chksum_good (local_ip pcb') (remote_ip pcb') p"
proof -
  have "state tx_pcb1 \<noteq> LISTEN" by (simp add: tx_pcb1_simps)
  from tcp_output_correct [OF tx_reach_pcb1 [unfolded tx_env_def] this, of 7 False "()" "[]"]
  obtain ps pcb' err where r: "tcp_output tx_env 7 False tx_pcb1 ((), []) = Some (((), ps), pcb', err)"
    "\<forall>p\<in>set ps. wire_chksum_good (local_ip pcb') (remote_ip pcb') p"
    by (auto simp: tx_env_def wire_part_def)
  moreover have "map wire_seq ps = [500]" "map wire_data ps = [[1, 2, 3]]" using tx_run_output r(1) by simp_all
  ultimately show ?thesis by (cases ps) auto
qed

section \<open>Both directions\<close>

text \<open>C7: a segment that carries the peer's bytes and any acknowledgement is processed by
  \<^verbatim>\<open>tcp_receive\<close> without failing an assertion: the send queue keeps its stream, the
  bytes reported as acknowledged are the room gained in the send buffer, and the bytes handed to the
  application are the next ones of the peer's stream.\<close>

theorem tcp_receive_correct:
  assumes "tx_reach e i S f pcb" and "rx_ok j R n pcb" and "honest j R n (unat (rcv_wnd pcb)) p tin"
    and "recv_acked tin = 0" and "ESTABLISHED \<le> state pcb" "state pcb < CLOSE_WAIT"
  shows "\<exists>w' pcb' tin' n'. tcp_receive e t v6 pcb tin w = Some (w', pcb', tin') \<and>
    tx_reach e i S f pcb' \<and> unat (recv_acked tin') + unat (snd_buf pcb) = unat (snd_buf pcb') \<and>
    n \<le> n' \<and> recv_data tin' = passed R n n' \<and>
    rx_after j R n' (n + unat (rcv_wnd pcb)) pcb' (has (recv_flags tin') TF_GOT_FIN)"
proof -
  obtain w' pcb' tin' n' where r: "tcp_receive e t v6 pcb tin w = Some (w', pcb', tin')"
    "unat (recv_acked tin') + unat (snd_buf pcb) = unat (snd_buf pcb')" "n \<le> n'" "recv_data tin' = passed R n n'"
    "rx_after j R n' (n + unat (rcv_wnd pcb)) pcb' (has (recv_flags tin') TF_GOT_FIN)"
    using tcp_receive_step [OF tx_reach_inv [OF assms(1)] assms(2-6), where e = e and t = t and ?v6.0 = v6 and w = w]
    by blast
  moreover have "tx_reach e i S f pcb'" by (rule tx_reach.ack [OF assms(1,4) r(1)])
  ultimately show ?thesis by blast
qed

theorem tcp_receive_correct_witness:
  "\<exists>w' pcb' tin' n'. tcp_receive tx_env 9 False tx_pcb0 rx_seg_a ((), []) = Some (w', pcb', tin') \<and>
    unat (recv_acked tin') + 11680 = unat (snd_buf pcb') \<and> recv_data tin' = passed rx_stream 0 n'"
proof -
  have "rx_ok 1001 rx_stream 0 tx_pcb0" using rx_pcb_ok(1) by (simp add: rx_ok_def rx_after_def tx_pcb0_def rx_pcb_def)
  moreover have "honest 1001 rx_stream 0 (unat (rcv_wnd tx_pcb0)) 0 rx_seg_a"
    using rx_seg_a_honest by (simp add: tx_pcb0_def rx_pcb_def)
  ultimately show ?thesis
    using tcp_receive_correct [OF tx_reach_start, of 1001 rx_stream 0 0 rx_seg_a 9 False "((), [])"]
    by (auto simp: tx_pcb0_def rx_pcb_def tcp_state_order rx_seg_a_def rx_seg_def)
qed

section \<open>Options of a SYN\<close>

lemma u32_bytes_htonl:
  "u32_bytes (lwip_htonl x) = [ucast (drop_bit 24 x), ucast (drop_bit 16 x), ucast (drop_bit 8 x), ucast x]"
proof -
  have "ucast (lwip_htonl x) = (ucast (drop_bit 24 x) :: u8)" "ucast (drop_bit 8 (lwip_htonl x)) = (ucast (drop_bit 16 x) :: u8)"
    "ucast (drop_bit 16 (lwip_htonl x)) = (ucast (drop_bit 8 x) :: u8)" "ucast (drop_bit 24 (lwip_htonl x)) = (ucast x :: u8)"
    by (rule bit_word_eqI, simp add: bit_simps bit_htonl bit_htonl [unfolded add.commute [of 8] add.commute [of 16] add.commute [of 24]])+
  then show ?thesis by (simp add: u32_bytes_def)
qed

lemma mss_option_bytes:
  "u32_bytes (TCP_BUILD_MSS_OPTION m) = [2, 4, ucast (drop_bit 8 m), ucast m]"
proof -
  have m: "(ucast m AND 0xFFFF :: u32) = ucast m"
  proof -
    have "(ucast m AND 0xFFFF :: u32) = take_bit 16 (ucast m)" by (simp add: take_bit_eq_mask mask_eq_exp_minus_1)
    also have "\<dots> = ucast m" by (rule bit_word_eqI) (auto simp: bit_simps dest: bit_u16)
    finally show ?thesis .
  qed
  have "drop_bit 16 (ucast m :: u32) = 0" "drop_bit 24 (ucast m :: u32) = 0"
    by (rule bit_word_eqI, auto simp: bit_simps dest: bit_u16)+
  moreover have "ucast (drop_bit 8 (ucast m :: u32)) = (ucast (drop_bit 8 m) :: u8)" "ucast (ucast m :: u32) = (ucast m :: u8)"
    by (rule bit_word_eqI, simp add: bit_simps)+
  moreover have z: "(132096 :: u8) = 0" "(33816576 :: u8) = 0" by (simp_all add: word_unat_eq_iff)
  ultimately show ?thesis by (simp add: TCP_BUILD_MSS_OPTION_def u32_bytes_htonl m unsigned_or_eq z)
qed

lemma syn_option_bytes:
  "words_bytes (seg_options m fs) =
     (if has fs TF_SEG_OPTS_MSS then [2, 4, ucast (drop_bit 8 m), ucast m] else []) @
     (if has fs TF_SEG_OPTS_WND_SCALE then [1, 3, 3, 2] else []) @
     (if has fs TF_SEG_OPTS_SACK_PERM then [1, 1, 4, 2] else [])"
proof -
  have "u32_bytes (lwip_htonl (0x01030300 OR ucast TCP_RCV_SCALE)) = [1, 3, 3, 2]"
    "u32_bytes (lwip_htonl 0x01010402) = [1, 1, 4, 2]"
    by (simp_all add: u32_bytes_htonl TCP_RCV_SCALE_def)
  then show ?thesis
    by (simp add: seg_options_def words_bytes_def mss_option_bytes tcp_build_wnd_scale_option_def
        tcp_build_sack_perm_option_def)
qed

lemma be_bytes: "push_bit 8 (ucast (ucast (drop_bit 8 m) :: u8)) OR ucast (ucast m :: u8) = (m :: u16)"
  by (rule bit_word_eqI) (auto simp: bit_simps)

lemma syn_options_complete: "\<not> cut_short (words_bytes (seg_options m fs))"
  by (simp add: syn_option_bytes)

text \<open>C17: the options a SYN or SYN-ACK carries are read back by the option parser of the peer:
  the MSS, the window scale and the permission for selective acknowledgements. A byte behind
  the options is not needed, which a SYN without data does not have.\<close>

theorem syn_options_round_trip:
  assumes "opts_fit os" and "take (unat (op_len os)) (opt_mem os) = words_bytes (seg_options m fs)"
  shows "tcp_parseopt os fl pcb = apply_options fl
    ((if has fs TF_SEG_OPTS_MSS then [MSS m] else []) @ (if has fs TF_SEG_OPTS_WND_SCALE then [WS TCP_RCV_SCALE] else []) @
     (if has fs TF_SEG_OPTS_SACK_PERM then [SACK_PERM] else [])) pcb"
proof -
  have "\<not> cut_short (take (unat (op_len os)) (opt_mem os))" unfolding assms(2) by (rule syn_options_complete)
  then show ?thesis
    unfolding tcp_parseopt_fit [OF assms(1)] assms(2) syn_option_bytes
    by (simp add: tcp_parseopt_fit [OF assms(1)] assms(2) syn_option_bytes be_bytes TCP_RCV_SCALE_def)
qed

text \<open>The options of a SYN without data as \<open>tcp_input\<close> finds them: nothing is behind them.\<close>

definition syn_header :: "u8 list" where
  "syn_header = replicate 12 0 @ [128, 2] @ replicate 6 0 @ words_bytes (seg_options 1460 0x19)"

lemma syn_header_options:
  "input_options syn_header [] (TCPH_HDRLEN_BYTES syn_header) = Some (ends_opts (words_bytes (seg_options 1460 0x19)), [])"
proof -
  have b: "words_bytes (seg_options 1460 0x19) = [2, 4, 5, 180, 1, 3, 3, 2, 1, 1, 4, 2]"
    by (simp add: syn_option_bytes has_def TF_SEG_OPTS_MSS_def TF_SEG_OPTS_WND_SCALE_def TF_SEG_OPTS_SACK_PERM_def)
  show ?thesis unfolding syn_header_def b ends_opts_def by code_simp
qed

theorem syn_options_round_trip_witness:
  "\<exists>os. input_options syn_header [] (TCPH_HDRLEN_BYTES syn_header) = Some (os, []) \<and>
   map_option (\<lambda>p. (mss p, snd_scale p, has (flags p) TF_SACK)) (tcp_parseopt os TCP_SYN (rx_pcb 5840)) =
   Some (1460, 2, True)"
proof -
  let ?os = "ends_opts (words_bytes (seg_options 1460 0x19))"
  have "opts_fit ?os" "take (unat (op_len ?os)) (opt_mem ?os) = words_bytes (seg_options 1460 0x19)"
    by (simp_all add: opts_fit_def ends_opts_def opt_mem_def syn_option_bytes has_def TF_SEG_OPTS_MSS_def
        TF_SEG_OPTS_WND_SCALE_def TF_SEG_OPTS_SACK_PERM_def)
  from syn_options_round_trip [OF this, of TCP_SYN "rx_pcb 5840"] show ?thesis
    by (simp add: syn_header_options rx_pcb_def parse_mss_def parse_ws_def parse_sack_perm_def tcp_set_flags_def has_def TF_SEG_OPTS_MSS_def
        TF_SEG_OPTS_WND_SCALE_def TF_SEG_OPTS_SACK_PERM_def TF_SACK_def TF_WND_SCALE_def TCP_SYN_def TCP_MSS_def
        TCP_WND_def TCP_RCV_SCALE_def)
qed

section \<open>Defects\<close>

definition wire_wnd :: "u8 list \<Rightarrow> u16" where
  "wire_wnd p = be16 (p ! 14) (p ! 15)"

text \<open>A reset carries the given numbers and a checksum that verifies, but its window field
  is \<^verbatim>\<open>0xB405\<close>, the window \<^verbatim>\<open>0x05B4\<close> of \<^verbatim>\<open>TCP_WND\<close> with its bytes swapped: \<^verbatim>\<open>tcp_rst\<close>
  converts it to network order and the header routine converts it again.\<close>

theorem tcp_rst_window_swapped:
  "\<exists>w' ps. tcp_rst (logging e) None seqno ackno src dst sp dp (w, log) = (w', log @ ps) \<and>
    (\<forall>p\<in>set ps. wire_seq p = seqno \<and> wire_ack p = ackno \<and> wire_data p = [] \<and> wire_chksum_good src dst p \<and>
       wire_wnd p = 0xB405)"
proof -
  define wnd where "wnd = lwip_htons (ucast (drop_bit (unat TCP_RCV_SCALE) TCP_WND AND 0xFFFF))"
  have wnd: "wnd = 0xB405" by (simp add: wnd_def TCP_RCV_SCALE_def TCP_WND_def lwip_htons_def)
  obtain w1 log1 r where a: "tcp_output_alloc_header_common (logging e) ackno 0 0 (lwip_htonl seqno) sp dp (TCP_RST OR TCP_ACK) wnd (w, log) =
      ((w1, log1), r)" by (metis prod.exhaust)
  have l1: "log1 = log" using a
    by (auto simp: tcp_output_alloc_header_common_def logging_def split: prod.splits option.splits)
  note eq = tcp_rst_def [of "logging e" None seqno ackno src dst sp dp "(w, log)", unfolded Let_def opt_length_0,
      folded wnd_def, unfolded a prod.case unat_0]
  show ?thesis
  proof (cases r)
    case None
    then show ?thesis using eq l1 by simp
  next
    case (Some p)
    have p: "p = tcp_hdr_bytes sp dp (lwip_htonl seqno) ackno 5 (TCP_RST OR TCP_ACK) wnd @ [] @ []"
      using a Some by (auto simp: tcp_output_alloc_header_common_def logging_def TCP_HLEN_def split: prod.splits option.splits)
    have h: "(5 :: u16) < 16" "20 + length ([] :: u8 list) = 4 * unat (5 :: u16)" by simp_all
    note f = wire_packet [OF h, where data = "[]", folded p]
    have z: "18 \<le> length p" "p ! 16 = 0" "p ! 17 = 0" "p ! 14 = 0xB4" "p ! 15 = 5"
      by (simp_all add: p tcp_hdr_bytes_def u16_bytes_def u32_bytes_def nth_append wnd lwip_htons_def)
    have "wire_wnd (tcp_set_chksum src dst p) = 0xB405"
      using set_chksum_fields(2) [OF z(1-3)] z(4,5) by (simp add: wire_wnd_def be16_def)
    then show ?thesis
      using eq Some l1 f p
      by (auto simp: tcp_output_fill_options_def tcp_output_control_segment_def logging_def split: option.splits prod.splits)
  qed
qed

text \<open>When a segment with FIN is split, both halves keep the FIN; the flag is taken out of
  the copied value but the head's header is only or-ed with it.\<close>

theorem tcp_split_keeps_fin:
  assumes "unsent pcb = s # us" and "has (sg_hflags s) TCP_FIN" and "0 < n" "n < sg_len s"
    and "tcp_split_unsent_seg e pcb n w = Some (w', pcb', ERR_OK)"
  shows "\<exists>a b. unsent pcb' = a # b # us \<and> has (sg_hflags a) TCP_FIN \<and> has (sg_hflags b) TCP_FIN"
proof -
  have "has (snd (split_flags (sg_hflags s))) TCP_FIN"
    using assms(2) by (simp add: split_flags_def Let_def) (simp add: has_def TCP_FIN_def TCP_PSH_def bit.conj_disj_distrib and.assoc)
  moreover have "unsent pcb' = split_head n s # split_rest pcb n s # us"
    using assms(5) by (cases rule: tcp_split_cases) (use assms(1,4) in auto)
  ultimately show ?thesis
    using assms(2) by (simp add: split_head_def split_rest_def seg_set_flags_def Let_def)
qed

definition fin_seg :: tcp_seg where
  "fin_seg = \<lparr>sg_src = 80, sg_dest = 5000, sg_seqno = 500, sg_hlen = 5, sg_hflags = TCP_FIN OR TCP_PSH, sg_len = 2,
     sg_data = [1, 2], sg_bufs = [(2, None)], sg_flags = 0\<rparr>"

definition fin_split :: "((unit \<times> u8 list list) \<times> tcp_pcb \<times> err_t) option" where
  "fin_split = tcp_split_unsent_seg tx_env (tx_pcb0\<lparr>unsent := [fin_seg]\<rparr>) 1 ((), [])"

lemma fin_split_run: "map_option (snd \<circ> snd) fin_split = Some ERR_OK"
  unfolding fin_split_def by code_simp

theorem tcp_split_keeps_fin_witness:
  "\<exists>w' pcb' a b. fin_split = Some (w', pcb', ERR_OK) \<and> unsent pcb' = [a, b] \<and> has (sg_hflags a) TCP_FIN"
proof -
  obtain w' pcb' where r: "fin_split = Some (w', pcb', ERR_OK)" using fin_split_run by auto
  have s: "unsent (tx_pcb0\<lparr>unsent := [fin_seg]\<rparr>) = fin_seg # []" "has (sg_hflags fin_seg) TCP_FIN" "1 < sg_len fin_seg"
    by (simp_all add: fin_seg_def)
  have "0 < (1 :: u16)" by simp
  from tcp_split_keeps_fin [OF s(1,2) this s(3) r [unfolded fin_split_def]] r show ?thesis
    by blast
qed

end
