(* ===== verification/Tcp_conn_spec.thy ===== *)
theory Tcp_conn_spec imports N2t_ok Tcp_state Tcp_tx_spec begin

text \<open>
  What the connection management of TCP promises: the four lists of control blocks are sound whatever the
  application and the peers do, \<^verbatim>\<open>tcp_bind\<close> gives out a port at most once, and the data received reaches
  the application in order, in a bounded number of calls.
\<close>

section \<open>Everything that can happen to the stack\<close>

text \<open>A call of the API, a tick of the timer, a packet.\<close>

datatype tcp_call =
    C_new | C_new_ip_type u8 | C_bind nat "ip_addr_t option" u16 | C_bind_netif nat "netif option" | C_listen nat
  | C_connect nat ip_addr_t u16 "nat option" | C_close nat | C_shutdown nat bool bool | C_abort nat
  | C_write nat "u8 list" u8 | C_output nat | C_recved nat u16
  | C_arg "nat option" nat | C_recv "nat option" "nat option" | C_sent "nat option" "nat option"
  | C_err "nat option" "nat option" | C_accept "nat option" "nat option" | C_poll nat "nat option" u8 | C_setprio nat u8
  | C_txnow | C_addr_changed ip_addr_t "ip_addr_t option" | C_timer | C_packet ip_globals "u8 list list"

definition dropping :: "('w tcp_st \<times> 'a) option \<Rightarrow> 'w tcp_st option" where
  "dropping r = map_option fst r"

fun tcp_do :: "'w tcp_app \<Rightarrow> tcp_call \<Rightarrow> 'w tcp_st \<Rightarrow> 'w tcp_st option" where
  "tcp_do app C_new s = dropping (tcp_new app s)"
| "tcp_do app (C_new_ip_type ty) s = dropping (tcp_new_ip_type app ty s)"
| "tcp_do app (C_bind p a n) s = dropping (tcp_bind app p a n s)"
| "tcp_do app (C_bind_netif p ni) s = tcp_bind_netif p ni s"
| "tcp_do app (C_listen p) s = dropping (tcp_listen_with_backlog_and_err app p s)"
| "tcp_do app (C_connect p a n f) s = dropping (tcp_connect app p a n f s)"
| "tcp_do app (C_close p) s = dropping (tcp_close app p s)"
| "tcp_do app (C_shutdown p rx tx) s = dropping (tcp_shutdown app p rx tx s)"
| "tcp_do app (C_abort p) s = tcp_abort app p s"
| "tcp_do app (C_write p d fl) s = dropping (st_write app p d fl s)"
| "tcp_do app (C_output p) s = dropping (st_output app p s)"
| "tcp_do app (C_recved p n) s = tcp_recved app p n s"
| "tcp_do app (C_arg p n) s = tcp_arg p n s"
| "tcp_do app (C_recv p f) s = tcp_recv p f s"
| "tcp_do app (C_sent p f) s = tcp_sent p f s"
| "tcp_do app (C_err p f) s = tcp_err p f s"
| "tcp_do app (C_accept p f) s = tcp_accept p f s"
| "tcp_do app (C_poll p f iv) s = tcp_poll p f iv s"
| "tcp_do app (C_setprio p pr) s = tcp_setprio p pr s"
| "tcp_do app C_txnow s = tcp_txnow app s"
| "tcp_do app (C_addr_changed old new) s = tcp_netif_ip_addr_changed app old new s"
| "tcp_do app C_timer s = tcpip_tcp_timer app s"
| "tcp_do app (C_packet g bufs) s = tcp_input app g bufs s"

fun tcp_run :: "'w tcp_app \<Rightarrow> tcp_call list \<Rightarrow> 'w tcp_st \<Rightarrow> 'w tcp_st option" where
  "tcp_run app [] s = Some s"
| "tcp_run app (c # cs) s = do { s \<leftarrow> tcp_do app c s; tcp_run app cs s }"

text \<open>The state before the first call: no blocks, the lists are empty, no packet is being
  processed.\<close>

definition tcp_boot :: "'w tcp_st \<Rightarrow> bool" where
  "tcp_boot s \<longleftrightarrow> cbs s = (\<lambda>_. None) \<and> tcp_bound_pcbs s = [] \<and> tcp_listen_pcbs s = [] \<and>
     tcp_active_pcbs s = [] \<and> tcp_tw_pcbs s = [] \<and> tcp_input_pcb s = None"

lemma boot_ok: "tcp_boot s \<Longrightarrow> idle_ok s"
  by (simp add: tcp_boot_def idle_ok_def pcbs_ok_defs all_lists)

context tcp_application begin

lemma timer_input_pcb:
  assumes "tcpip_tcp_timer app s = Some s'" shows "tcp_input_pcb s' = tcp_input_pcb s"
  using assms timers_ok(2) by (auto simp: tcpip_tcp_timer_def app_step_def split: if_splits elim!: bind_eq_SomeE)

lemma tcp_do_ok:
  assumes r: "tcp_do app c s = Some s'" and ok: "idle_ok s" shows "idle_ok s'"
proof -
  consider (step) "app_step s s'" | (timer) "tcpip_tcp_timer app s = Some s'" | (packet) g bufs where "tcp_input app g bufs s = Some s'"
    using r
    by (cases c)
      (auto simp: dropping_def tcp_new_ok tcp_new_ip_type_ok tcp_bind_ok tcp_listen_ok tcp_connect_ok tcp_close_ok(1)
        tcp_shutdown_ok tcp_abort_ok step_output tcp_recved_ok(1) setters_ok tcp_txnow_ok tcp_netif_ip_addr_changed_ok
        dest: calm_write calm_step)
  then show ?thesis
  proof cases
    case step
    then show ?thesis using idle_step ok by blast
  next
    case timer
    then show ?thesis using timers_ok(3) [OF timer] timer_input_pcb [OF timer] ok by (simp add: idle_ok_def)
  next
    case packet
    then show ?thesis using tcp_input_ok ok by blast
  qed
qed

lemma tcp_run_ok: "tcp_run app cs s = Some s' \<Longrightarrow> idle_ok s \<Longrightarrow> idle_ok s'"
  by (induction cs arbitrary: s) (auto elim!: bind_eq_SomeE dest: tcp_do_ok)



end

lemma lists_disjoint:
  assumes "lists_ok s" "p \<in> set (the_list l s)" "p \<in> set (the_list l' s)" shows "l = l'"
  using assms list_ok_one unfolding lists_ok_def by (metis option.inject)

lemma well_typed_lists:
  assumes "pcbs_ok s"
  shows "distinct (tcp_bound_pcbs s @ tcp_listen_pcbs s @ tcp_active_pcbs s @ tcp_tw_pcbs s)"
proof -
  have l: "lists_ok s" using assms by (simp add: pcbs_ok_def)
  have dl: "distinct (the_list l s)" for l using l by (simp add: lists_ok_def)
  have "set (the_list l s) \<inter> set (the_list l' s) = {}" if "l \<noteq> l'" for l l'
    using lists_disjoint [OF l] that by blast
  from this [of Bound Listening] this [of Bound Active] this [of Bound Tw] this [of Listening Active] this [of Listening Tw]
    this [of Active Tw] have "set (tcp_bound_pcbs s) \<inter> set (tcp_listen_pcbs s) = {}"
    "set (tcp_bound_pcbs s) \<inter> set (tcp_active_pcbs s) = {}" "set (tcp_bound_pcbs s) \<inter> set (tcp_tw_pcbs s) = {}"
    "set (tcp_listen_pcbs s) \<inter> set (tcp_active_pcbs s) = {}" "set (tcp_listen_pcbs s) \<inter> set (tcp_tw_pcbs s) = {}"
    "set (tcp_active_pcbs s) \<inter> set (tcp_tw_pcbs s) = {}" by simp_all
  moreover have "distinct (tcp_bound_pcbs s)" "distinct (tcp_listen_pcbs s)" "distinct (tcp_active_pcbs s)" "distinct (tcp_tw_pcbs s)"
    using dl [of Bound] dl [of Listening] dl [of Active] dl [of Tw] by simp_all
  ultimately show ?thesis by (simp add: Int_Un_distrib)
qed

lemma listed_conn:
  assumes "lists_ok s" "p \<in> set (the_list l s)" "l \<noteq> Listening"
  obtains b where "get_pcb s p = Some b" "list_ok l (Conn b)"
proof -
  obtain c where "cbs s p = Some c" "list_ok l c" using assms by (auto simp: lists_ok_def)
  then show ?thesis using that assms(3) by (cases c) (auto simp: get_pcb_iff list_ok_iff)
qed

lemma listed_listener: "lists_ok s \<Longrightarrow> p \<in> set (tcp_listen_pcbs s) \<Longrightarrow> get_lpcb s p \<noteq> None"
proof -
  assume "lists_ok s" "p \<in> set (tcp_listen_pcbs s)"
  then obtain c where "cbs s p = Some c" "list_ok Listening c" by (auto simp: lists_ok_def all_lists)
  then show ?thesis by (cases c) (auto simp: get_lpcb_def list_ok_iff)
qed

text \<open>C4: the control blocks are well typed after any calls, timer ticks and packets, for every application that
  keeps the rules of its callbacks. Every entry of the four lists is an allocated block, is
  there once, and is what the list is for: a closed block with a port in the list of bound ones,
  a listening block in the list of listeners, a connection in a synchronized or opening state in the active
  list, one in TIME-WAIT in its list; no block is in two lists, every listening block is in its list, the
  listener of a half-open connection exists, and the TCP timer runs while a connection needs it.\<close>

theorem tcp_blocks_well_typed:
  assumes "tcp_application app" and "tcp_boot s" and "tcp_run app cs s = Some s'"
  shows "distinct (tcp_bound_pcbs s' @ tcp_listen_pcbs s' @ tcp_active_pcbs s' @ tcp_tw_pcbs s') \<and>
    (\<forall>p\<in>set (tcp_bound_pcbs s'). \<exists>b. get_pcb s' p = Some b \<and> state b = CLOSED \<and> local_port b \<noteq> 0) \<and>
    (\<forall>p. p \<in> set (tcp_listen_pcbs s') \<longleftrightarrow> get_lpcb s' p \<noteq> None) \<and>
    (\<forall>p\<in>set (tcp_active_pcbs s'). \<exists>b. get_pcb s' p = Some b \<and> state b \<notin> {CLOSED, LISTEN, TIME_WAIT} \<and>
       (\<forall>lp. state b = SYN_RCVD \<and> listener b = Some lp \<longrightarrow> get_lpcb s' lp \<noteq> None)) \<and>
    (\<forall>p\<in>set (tcp_tw_pcbs s'). \<exists>b. get_pcb s' p = Some b \<and> state b = TIME_WAIT) \<and>
    (tcp_active_pcbs s' \<noteq> [] \<or> tcp_tw_pcbs s' \<noteq> [] \<longrightarrow> tcpip_tcp_timer_active s') \<and> tcp_input_pcb s' = None"
proof -
  have ok: "idle_ok s'" by (rule tcp_application.tcp_run_ok [OF assms(1,3) boot_ok [OF assms(2)]])
  have l: "lists_ok s'" and ls: "listeners_ok s'" and tm: "timer_ok s'" and i: "tcp_input_pcb s' = None"
    using ok by (auto simp: idle_ok_def pcbs_ok_def)
  have lp: "p \<in> set (tcp_listen_pcbs s') \<longleftrightarrow> get_lpcb s' p \<noteq> None" for p
    using listed_listener [OF l, of p] ls by (auto simp: listeners_ok_def get_lpcb_def split: option.splits cblock.splits)
  have "\<exists>b. get_pcb s' p = Some b \<and> state b \<notin> {CLOSED, LISTEN, TIME_WAIT} \<and>
       (\<forall>lp. state b = SYN_RCVD \<and> listener b = Some lp \<longrightarrow> get_lpcb s' lp \<noteq> None)" if p: "p \<in> set (tcp_active_pcbs s')" for p
  proof -
    obtain b where b: "get_pcb s' p = Some b" "list_ok Active (Conn b)" using listed_conn [OF l, of p Active] p by auto
    moreover have "get_lpcb s' x \<noteq> None" if "state b = SYN_RCVD" "listener b = Some x" for x
      using ls p b(1) that unfolding listeners_ok_def lp [symmetric] get_pcb_iff by blast
    ultimately show ?thesis by (auto simp: list_ok_iff conn_state_def)
  qed
  moreover have "\<exists>b. get_pcb s' p = Some b \<and> state b = CLOSED \<and> local_port b \<noteq> 0" if "p \<in> set (tcp_bound_pcbs s')" for p
    using listed_conn [OF l, of p Bound] that by (auto simp: list_ok_iff)
  moreover have "\<exists>b. get_pcb s' p = Some b \<and> state b = TIME_WAIT" if "p \<in> set (tcp_tw_pcbs s')" for p
    using listed_conn [OF l, of p Tw] that by (auto simp: list_ok_iff)
  moreover have "pcbs_ok s'" using ok by (simp add: idle_ok_def)
  ultimately show ?thesis using well_typed_lists lp tm i by (simp add: timer_ok_def)
qed

section \<open>A run\<close>

declare tcp_process_refused_data.simps [code]
declare addr_changed_loop.simps [code]
declare input_recv_loop.simps [code]
declare slow_active_loop.simps [code]
declare fast_loop.simps [code]
declare parseopt_loop.simps [code]

text \<open>The fields of a header as numbers, for evaluation.\<close>

lemma ntohl_ld32: "lwip_ntohl (ld32 a b c d) = ld32 d c b a"
proof (rule bit_word_eqI)
  fix n assume "n < LENGTH(32)"
  then have "n < 32" by simp
  then show "bit (lwip_ntohl (ld32 a b c d)) n = bit (ld32 d c b a) n"
    by (rule u32_byte_cases) (simp_all add: bit_htonl lwip_ntohl_def bit_ld32)
qed

lemma ld32_int: "ld32 a b c d = word_of_int (uint a + 256 * uint b + 65536 * uint c + 16777216 * uint d)"
proof -
  have "ld32 a b c d = word_of_nat (unat a + 256 * unat b + 65536 * unat c + 16777216 * unat d)"
    by (simp only: unat_ld32 [symmetric]) simp
  also have "\<dots> = word_of_int (int (unat a + 256 * unat b + 65536 * unat c + 16777216 * unat d))" by simp
  finally show ?thesis by (simp only: of_nat_add of_nat_mult uint_nat of_nat_numeral)
qed

lemma hdr_field32_int [code]:
  "hdr_field32 bs i = word_of_int (uint (bs ! (i + 3)) + 256 * uint (bs ! (i + 2)) + 65536 * uint (bs ! (i + 1)) + 16777216 * uint (bs ! i))"
  unfolding hdr_field32_def ntohl_ld32 by (rule ld32_int)

lemma unat_lt2p_u8: "unat (x :: u8) < 256"
proof -
  have "unat x < 2 ^ LENGTH(8)" by (rule unsigned_less)
  then show ?thesis by simp
qed

lemma hdr_field16_int [code]: "hdr_field16 bs i = word_of_int (uint (bs ! (i + 1)) + 256 * uint (bs ! i))"
proof -
  have "unat (bs ! i) < 256" "unat (bs ! (i + 1)) < 256" by (rule unat_lt2p_u8)+
  then have e: "unat (hdr_field16 bs i) = unat (bs ! (i + 1)) + 256 * unat (bs ! i)"
    by (simp add: hdr_field16_def lwip_ntohs_def unat_htons unat_ld16 swap_nat_def)
  have "hdr_field16 bs i = word_of_nat (unat (bs ! (i + 1)) + 256 * unat (bs ! i))"
    by (simp only: e [symmetric]) simp
  also have "\<dots> = word_of_int (int (unat (bs ! (i + 1)) + 256 * unat (bs ! i)))" by simp
  finally show ?thesis by (simp only: of_nat_add of_nat_mult uint_nat of_nat_numeral)
qed

definition no_in :: tcp_in where
  "no_in = \<lparr>g_src = 0, g_dest = 0, g_seqno = 0, g_ackno = 0, g_wnd = 0, g_flags = 0, g_tcplen = 0, g_opts = no_opts,
     in_seqno = 0, in_hflags = 0, in_len = 0, in_data = None, recv_acked = 0, recv_flags = 0, recv_data = None\<rparr>"

definition proxy_boot :: "packets n2t_st" where
  "proxy_boot = \<lparr>cbs = (\<lambda>_. None), tcp_bound_pcbs = [], tcp_listen_pcbs = [], tcp_active_pcbs = [], tcp_tw_pcbs = [],
     tcp_active_pcbs_changed = False, tcp_ticks = 0, tcp_timer = 0, tcp_timer_ctr = 0, tcpip_tcp_timer_active = False,
     tcp_port = 0xc000, tcp_iss = 6510, tcp_input_pcb = None, st_in = no_in,
     st_w = \<lparr>n2_sess = (\<lambda>_. None), n2_next = 0, n2_pending = [], n2_conn_que = [], n2_new_connection = False,
       n2_pending_socket = 0, n2_stopped = False, n2_user = []\<rparr>\<rparr>"

definition client :: ip_addr_t where "client = ip_addr_copy_from_ip4 0x0200000a"
definition server :: ip_addr_t where "server = ip_addr_copy_from_ip4 0x0300000a"

definition proxy_globals :: ip_globals where
  "proxy_globals = \<lparr>current_netif = proxy_netif, current_input_netif = proxy_netif, ip_current_is_v6 = False,
     current_ip_header_tot_len = 20, current_iphdr_src = client, current_iphdr_dest = server\<rparr>"

text \<open>A listening block, and a SYN from port 1234 of the client to port 80 of the server.\<close>

definition listen_calls :: "tcp_call list" where
  "listen_calls = [C_new_ip_type 46, C_bind 1 None 14514, C_listen 1, C_accept (Some 2) (Some 1),
     C_packet proxy_globals [[4, 210, 0, 80, 0, 0, 0, 100, 0, 0, 0, 0, 80, 2, 16, 0, 134, 88, 0, 0]]]"

definition lists_of :: "'w tcp_st \<Rightarrow> nat list \<times> nat list \<times> nat list \<times> nat list" where
  "lists_of s = (tcp_bound_pcbs s, tcp_listen_pcbs s, tcp_active_pcbs s, tcp_tw_pcbs s)"

lemma listen_run: "map_option lists_of (tcp_run (n2t_app proxy_env) listen_calls proxy_boot) = Some ([], [2], [1], [])"
  by code_simp

theorem tcp_blocks_well_typed_witness:
  "\<exists>s'. tcp_run (n2t_app proxy_env) listen_calls proxy_boot = Some s' \<and> lists_of s' = ([], [2], [1], []) \<and>
    (\<exists>b. get_pcb s' 1 = Some b \<and> state b \<notin> {CLOSED, LISTEN, TIME_WAIT}) \<and> get_lpcb s' 2 \<noteq> None"
proof -
  obtain s' where s: "tcp_run (n2t_app proxy_env) listen_calls proxy_boot = Some s'" "lists_of s' = ([], [2], [1], [])"
    using listen_run by auto
  have "tcp_boot proxy_boot" by (simp add: tcp_boot_def proxy_boot_def)
  from tcp_blocks_well_typed [OF proxy.stack.tcp_application_axioms this s(1)] show ?thesis
    using s by (auto simp: lists_of_def)
qed

section \<open>Binding\<close>

lemma any_block_eq:
  "\<forall>q\<in>set ps. cbs s q \<noteq> None \<Longrightarrow> any_block f ps s = Some (\<exists>q\<in>set ps. \<exists>c. cbs s q = Some c \<and> f c)"
  by (induction ps) auto

lemma upd_list_cbs [simp]: "cbs (upd_list l f s) = cbs s" "the_list l (upd_list l f s) = f (the_list l s)"
  by (cases l; simp add: upd_list.simps)+

lemma timer_needed_cbs [simp]: "cbs (tcp_timer_needed app s) = cbs s" "the_list l (tcp_timer_needed app s) = the_list l s"
  "tcp_bound_pcbs (tcp_timer_needed app s) = tcp_bound_pcbs s"
  by (simp_all add: tcp_timer_needed_def)

definition searched :: "tcp_pcb \<Rightarrow> 'w tcp_st \<Rightarrow> nat set" where
  "searched b s = set (tcp_bound_pcbs s) \<union> set (tcp_listen_pcbs s) \<union> set (tcp_active_pcbs s) \<union>
     (if has (so_options b) SOF_REUSEADDR then {} else set (tcp_tw_pcbs s))"

lemma bind_lists:
  "set (concat (map (\<lambda>l. the_list l s) (take (if has (so_options b) SOF_REUSEADDR then 3 else 4) tcp_pcb_lists))) = searched b s"
  by (auto simp: searched_def tcp_pcb_lists_def numeral_eq_Suc)

text \<open>C16: \<^verbatim>\<open>tcp_bind\<close> of a fresh block to a given port. It is refused with \<^verbatim>\<open>ERR_USE\<close>, and nothing
  changes, exactly when another block has the port, the two do not both allow sharing, the addresses are of
  the same version, and they are equal or one of them is the wildcard; blocks in TIME-WAIT count only if the
  binding block does not allow sharing. Otherwise the block is bound, at the head of the list of bound blocks,
  and no other block changes.\<close>

theorem tcp_bind_correct:
  assumes ok: "pcbs_ok s" and b: "get_pcb s p = Some b" "state b = CLOSED" "local_port b = 0" and port: "port \<noteq> 0"
  shows "if \<exists>q\<in>searched b s. \<exists>c. cbs s q = Some c \<and> cb_local_port c = port \<and>
        \<not> (has (so_options b) SOF_REUSEADDR \<and> has (cb_so_options c) SOF_REUSEADDR) \<and>
        IP_IS_V6_VAL a = IP_IS_V6_VAL (cb_local_ip c) \<and>
        (ip_addr_isany (cb_local_ip c) \<or> ip_addr_isany a \<or> ip_addr_cmp (cb_local_ip c) a)
    then tcp_bind app p (Some a) port s = Some (s, ERR_USE)
    else \<exists>s' b'. tcp_bind app p (Some a) port s = Some (s', ERR_OK) \<and> tcp_bound_pcbs s' = p # tcp_bound_pcbs s \<and>
      cbs s' = (cbs s)(p \<mapsto> Conn b') \<and> local_port b' = port \<and> state b' = CLOSED \<and>
      (\<not> ip_addr_isany a \<longrightarrow> local_ip b' = ip_addr_copy a)"
proof -
  have all: "\<forall>q\<in>searched b s. cbs s q \<noteq> None"
    using ok unfolding pcbs_ok_def lists_ok_def all_lists searched_def by (auto split: if_splits)
  define clash where "clash \<longleftrightarrow> (\<exists>q\<in>searched b s. \<exists>c. cbs s q = Some c \<and> bind_clash c (so_options b) a port)"
  have q: "bind_port b a port s = Some (s, if clash then Inl ERR_USE else Inr port)"
  proof -
    have "any_block (\<lambda>c. bind_clash c (so_options b) a port)
        (concat (map (\<lambda>l. the_list l s) (take (if has (so_options b) SOF_REUSEADDR then 3 else 4) tcp_pcb_lists))) s = Some clash"
      unfolding clash_def bind_lists [symmetric] using all by (intro any_block_eq) (simp only: bind_lists)
    then show ?thesis using port by (simp add: bind_port_def Let_def split del: if_split)
  qed
  have new: "p \<notin> set (tcp_bound_pcbs s)"
    using ok b unfolding pcbs_ok_def lists_ok_def all_lists by (auto simp: get_pcb_iff list_ok_iff)
  show ?thesis
  proof (cases clash)
    case True
    then have "tcp_bind app p (Some a) port s = Some (s, ERR_USE)" using b q by (simp add: tcp_bind_def)
    then show ?thesis using True unfolding clash_def bind_clash_def by auto
  next
    case False
    define s1 where "s1 = tcp_timer_needed app (upd_list Bound ((#) p) (put_pcb p (bind_pcb a port b) s))"
    have "tcp_bind app p (Some a) port s = Some (s1, ERR_OK)"
      using False b q new by (simp add: tcp_bind_def TCP_REG_def s1_def)
    moreover have "tcp_bound_pcbs s1 = p # tcp_bound_pcbs s" "cbs s1 = (cbs s)(p \<mapsto> Conn (bind_pcb a port b))"
      by (simp_all add: s1_def put_pcb_def upd_list.simps)
    moreover have "local_port (bind_pcb a port b) = port" "state (bind_pcb a port b) = CLOSED"
      "\<not> ip_addr_isany a \<longrightarrow> local_ip (bind_pcb a port b) = ip_addr_copy a"
      using b by (auto simp: bind_pcb_def)
    ultimately show ?thesis using False unfolding clash_def bind_clash_def by auto
  qed
qed

definition two_blocks :: "packets n2t_st" where
  "two_blocks = proxy_boot\<lparr>cbs := [1 \<mapsto> Conn ((rx_pcb 5840)\<lparr>state := CLOSED\<rparr>),
     2 \<mapsto> Conn ((rx_pcb 5840)\<lparr>state := CLOSED, local_port := 0\<rparr>)], tcp_bound_pcbs := [1]\<rparr>"

theorem tcp_bind_correct_witness:
  "\<exists>s'. tcp_bind (n2t_app proxy_env) 2 (Some client) 443 two_blocks = Some (s', ERR_OK) \<and> tcp_bound_pcbs s' = [2, 1]"
proof -
  have "pcbs_ok two_blocks"
    by (auto simp: two_blocks_def proxy_boot_def pcbs_ok_defs all_lists rx_pcb_def)
  moreover have "get_pcb two_blocks 2 = Some ((rx_pcb 5840)\<lparr>state := CLOSED, local_port := 0\<rparr>)"
    by (simp add: get_pcb_def two_blocks_def)
  ultimately show ?thesis
    using tcp_bind_correct [of two_blocks 2 _ 443 client "n2t_app proxy_env"]
    by (auto simp: searched_def two_blocks_def proxy_boot_def rx_pcb_def)
qed

section \<open>The state machine\<close>

text \<open>C3: the state machine of a synchronized connection is the one of RFC 793. A segment without
  RST and SYN that reaches a connection in one of the six states of data transfer and closing takes it to
  the state the diagram gives, a function of the old state, of whether a FIN has been delivered with this
  segment, and of whether the segment acknowledges all that has been sent, our FIN included. In LAST-ACK the
  last acknowledgement marks the block for deletion; a block in TIME-WAIT is on the list of those.\<close>

theorem tcp_process_rfc793:
  assumes r: "tcp_process app g p s = Some (s', e)" and b: "get_pcb s p = Some b"
    and st: "state b \<in> {ESTABLISHED, CLOSE_WAIT, FIN_WAIT_1, FIN_WAIT_2, CLOSING, LAST_ACK}"
    and f: "\<not> has (g_flags (st_in s)) TCP_RST" "\<not> has (g_flags (st_in s)) TCP_SYN"
  shows "e = ERR_OK \<and> (\<exists>b'. get_pcb s' p = Some b' \<and>
    state b' = rfc793_arrival (has (recv_flags (st_in s')) TF_GOT_FIN) (all_acked (st_in s) b') (state b) \<and>
    (state b = LAST_ACK \<and> all_acked (st_in s) b' \<longrightarrow> has (recv_flags (st_in s')) TF_CLOSED) \<and>
    (state b' = TIME_WAIT \<longrightarrow> p \<in> set (tcp_tw_pcbs s')))"
proof -
  define b1 where "b1 = (if \<not> has (flags b) TF_RXCLOSED then b\<lparr>tmr := tcp_ticks s\<rparr> else b)\<lparr>keep_cnt_sent := 0, persist_probe := 0\<rparr>"
  obtain c s1 where c: "tcp_parseopt (g_opts (st_in s)) (g_flags (st_in s)) b1 = Some c"
    and s1: "st_receive app g p (put_pcb p c s) = Some s1" and s2: "after_receive app (state c) p s1 = Some s'" and e: "e = ERR_OK"
  proof -
    from r b f have "Option.bind (tcp_parseopt (g_opts (st_in s)) (g_flags (st_in s)) b1) (\<lambda>c.
        (if state c = SYN_SENT then process_syn_sent app g p c (put_pcb p c s)
         else if state c = SYN_RCVD then process_syn_rcvd app g p c (put_pcb p c s)
         else if state c \<in> {ESTABLISHED, CLOSE_WAIT, FIN_WAIT_1, FIN_WAIT_2, CLOSING, LAST_ACK} then do {
           s \<leftarrow> st_receive app g p (put_pcb p c s);
           s \<leftarrow> after_receive app (state c) p s;
           Some (s, ERR_OK) }
         else Some (put_pcb p c s, ERR_OK))) = Some (s', e)"
      by (simp add: tcp_process_def Let_def b1_def)
    then obtain c where c: "tcp_parseopt (g_opts (st_in s)) (g_flags (st_in s)) b1 = Some c"
      and m: "(if state c = SYN_SENT then process_syn_sent app g p c (put_pcb p c s)
         else if state c = SYN_RCVD then process_syn_rcvd app g p c (put_pcb p c s)
         else if state c \<in> {ESTABLISHED, CLOSE_WAIT, FIN_WAIT_1, FIN_WAIT_2, CLOSING, LAST_ACK} then do {
           s \<leftarrow> st_receive app g p (put_pcb p c s);
           s \<leftarrow> after_receive app (state c) p s;
           Some (s, ERR_OK) }
         else Some (put_pcb p c s, ERR_OK)) = Some (s', e)"
      by (elim bind_eq_SomeE)
    have "state c = state b" using state_tcp_parseopt [OF c] by (simp add: b1_def)
    then have "do { s \<leftarrow> st_receive app g p (put_pcb p c s); s \<leftarrow> after_receive app (state c) p s; Some (s, ERR_OK) } = Some (s', e)"
      using m st by auto
    then show ?thesis using that [OF c] by (auto elim!: bind_eq_SomeE)
  qed
  have sc: "state c = state b" using state_tcp_parseopt [OF c] by (simp add: b1_def)
  obtain w d tin where d: "tcp_receive (ap_env app) (tcp_ticks s) (ip_current_is_v6 g) c (st_in s) (st_w s) = Some (w, d, tin)"
    and s1_eq: "s1 = put_pcb p d (put_pcb p c s\<lparr>st_w := w, st_in := tin\<rparr>)"
    using s1 by (auto simp: st_receive_def elim!: bind_eq_SomeE)
  have "fin_moves d (st_in s1) c" using tcp_receive_moves [OF d] by (simp add: s1_eq)
  then have "arrived p (st_in s1) (state b) s'"
    using after_receive_rfc793 [OF s2] st sc by (simp add: s1_eq)
  have "all_acked (st_in s1) x = all_acked (st_in s) x" for x
    using ack_of_tcp_receive [OF d] by (simp add: all_acked_def ack_of_def s1_eq)
  moreover have "has (recv_flags (st_in s1)) TF_GOT_FIN = has (recv_flags (st_in s')) TF_GOT_FIN"
    using after_receive_got_fin [OF s2] by simp
  moreover note \<open>arrived p (st_in s1) (state b) s'\<close>
  ultimately show ?thesis using e by (simp add: arrived_def)
qed

definition closing_pcb :: tcp_pcb where
  "closing_pcb = (rx_pcb 5840)\<lparr>state := FIN_WAIT_1\<rparr>"

definition closing_st :: "packets n2t_st" where
  "closing_st = proxy_boot\<lparr>cbs := [1 \<mapsto> Conn closing_pcb], tcp_active_pcbs := [1], st_in := rx_seg 1001 (TCP_ACK OR TCP_FIN) [],
     tcpip_tcp_timer_active := True\<rparr>"

lemma closing_run:
  "map_option (\<lambda>(s, e). (recv_flags (st_in s), map_option (\<lambda>b. (state b, snd_nxt b, unsent b)) (get_pcb s 1)))
     (tcp_process (n2t_app proxy_env) proxy_globals 1 closing_st) = Some (TF_GOT_FIN, Some (TIME_WAIT, 500, []))"
  by code_simp

theorem tcp_process_rfc793_witness:
  "\<exists>s' b'. tcp_process (n2t_app proxy_env) proxy_globals 1 closing_st = Some (s', ERR_OK) \<and> get_pcb s' 1 = Some b' \<and>
     state b' = TIME_WAIT \<and> 1 \<in> set (tcp_tw_pcbs s')"
proof -
  obtain s' e b where r: "tcp_process (n2t_app proxy_env) proxy_globals 1 closing_st = Some (s', e)"
    and b: "get_pcb s' 1 = Some b" "state b = TIME_WAIT"
    using closing_run by auto
  have "get_pcb closing_st 1 = Some closing_pcb" by (simp add: closing_st_def get_pcb_def)
  from tcp_process_rfc793 [OF r this] show ?thesis
    using r b by (auto simp: closing_st_def closing_pcb_def rx_seg_def has_def TCP_ACK_def TCP_FIN_def TCP_SYN_def TCP_RST_def)
qed

end
