(* ===== verification/N2t_spec.thy ===== *)
theory N2t_spec imports N2t_ok Tcp_tx_spec begin

text \<open>
  What reaches the application and what the library makes of it: the stack hands over all that
  arrived, in order and in pieces, in finitely many calls; a session passes the client's bytes to the
  proxy in order; a session whose connection is gone touches freed memory when it ends.
\<close>

section \<open>Handing over what has arrived\<close>

text \<open>The contract of a receive callback that takes all data: it returns, keeps what it needs (\<open>ok\<close>),
  leaves the segment alone, and \<open>seen\<close>, what it has been given, grows by the data.\<close>

definition takes_all ::
    "'w tcp_app \<Rightarrow> nat \<Rightarrow> ('w tcp_st \<Rightarrow> bool) \<Rightarrow> ('w tcp_st \<Rightarrow> u8 list) \<Rightarrow> bool" where
  "takes_all app p ok seen \<longleftrightarrow>
     (\<forall>s d. ok s \<and> 0 < length d \<and> length d < 65536 \<longrightarrow>
        (\<exists>s'. TCP_EVENT_RECV app p (Some d) ERR_OK s = Some (s', ERR_OK) \<and> ok s' \<and> st_in s' = st_in s \<and>
           seen s' = seen s @ d)) \<and>
     (\<forall>s. ok s \<longrightarrow> (\<exists>b. get_pcb s p = Some b \<and> refused_data b = None \<and> \<not> has (flags b) TF_RXCLOSED)) \<and>
     (\<forall>s tin. ok s \<longrightarrow> ok (s\<lparr>st_in := tin\<rparr>) \<and> seen (s\<lparr>st_in := tin\<rparr>) = seen s)"

lemma recv_loop_all:
  assumes cb: "takes_all app p ok seen"
    and sp: "\<And>d. d \<noteq> [] \<Longrightarrow> 0 < ap_split_64k app d \<and> ap_split_64k app d < 65536"
  shows "recv_data (st_in s) = Some d \<Longrightarrow> d \<noteq> [] \<Longrightarrow> ok s \<Longrightarrow>
    \<exists>s'. input_recv_loop app p s = Some (s', False) \<and> ok s' \<and> recv_data (st_in s') = None \<and> seen s' = seen s @ d"
proof (induction "length d" arbitrary: d s rule: less_induct)
  case less
  define n where "n = ap_split_64k app d"
  have n: "0 < n" "n < 65536" using sp [OF less.prems(2)] by (simp_all add: n_def)
  obtain b where b: "get_pcb s p = Some b" "refused_data b = None" "\<not> has (flags b) TF_RXCLOSED"
    using cb less.prems(3) unfolding takes_all_def by blast
  have "0 < length (take n d) \<and> length (take n d) < 65536" using n less.prems(2) by auto
  then obtain s1 where s1: "TCP_EVENT_RECV app p (Some (take n d)) ERR_OK s = Some (s1, ERR_OK)" "ok s1" "st_in s1 = st_in s"
    "seen s1 = seen s @ take n d"
    using cb less.prems(3) unfolding takes_all_def by blast
  define rest where "rest = (if drop n d = [] then None else Some (drop n d))"
  define s2 where "s2 = s1\<lparr>st_in := (st_in s1)\<lparr>recv_data := rest\<rparr>\<rparr>"
  have s2: "ok s2" "seen s2 = seen s @ take n d" "recv_data (st_in s2) = rest"
    using cb s1 unfolding takes_all_def s2_def by auto
  have step: "input_recv_loop app p s = input_recv_loop app p s2"
    using b less.prems(1) s1(1) by (subst input_recv_loop.simps) (simp add: n_def [symmetric] rest_def s2_def Let_def)
  show ?case
  proof (cases "drop n d = []")
    case True
    then have "input_recv_loop app p s2 = Some (s2, False)" "recv_data (st_in s2) = None"
      using s2(3) by (simp_all add: rest_def input_recv_loop.simps)
    then show ?thesis using step s2 True by simp
  next
    case False
    then have "length (drop n d) < length d" "recv_data (st_in s2) = Some (drop n d)"
      using n(1) less.prems(2) s2(3) by (simp_all add: rest_def)
    from less.hyps [OF this False s2(1)] show ?thesis using step s2(2) by auto
  qed
qed

text \<open>C8: the loop of \<^verbatim>\<open>tcp_input\<close> that hands over received data ends, and the application has then been given
  exactly the bytes that arrived, in order. The application's callback takes the data it is given
  (at most 64 KB), and \<^verbatim>\<open>pbuf_split_64k\<close> leaves a nonempty part of at most 65535 bytes.\<close>

theorem input_recv_loop_ends:
  assumes "takes_all app p ok seen" and "\<And>d. d \<noteq> [] \<Longrightarrow> 0 < ap_split_64k app d \<and> ap_split_64k app d < 65536"
    and "ok s" and "recv_data (st_in s) \<noteq> Some []"
  shows "\<exists>s'. input_recv_loop app p s = Some (s', False) \<and> ok s' \<and> recv_data (st_in s') = None \<and>
    seen s' = seen s @ (case recv_data (st_in s) of None \<Rightarrow> [] | Some d \<Rightarrow> d)"
proof (cases "recv_data (st_in s)")
  case None
  then show ?thesis using assms(3) by (simp add: input_recv_loop.simps)
next
  case (Some d)
  then show ?thesis using recv_loop_all [OF assms(1,2) Some] assms(3,4) by auto
qed

definition log_app :: "(unit \<times> u8 list list) tcp_app" where
  "log_app =
     \<lparr>ap_env = tx_env, ap_pcb_alloc = (\<lambda>s. (st_w s, None)), ap_lpcb_alloc = (\<lambda>s. (st_w s, None)), ap_sys_timeout = (\<lambda>w. w),
      ap_split_64k = (\<lambda>d. min 65535 (length d)),
      ap_recv = (\<lambda>f arg p d err s. Some (s\<lparr>st_w := ((), snd (st_w s) @ [the d])\<rparr>, ERR_OK)),
      ap_sent = (\<lambda>f arg p n s. Some (s, ERR_OK)), ap_accept = (\<lambda>f arg p err s. Some (s, ERR_OK)),
      ap_connected = (\<lambda>f arg p err s. Some (s, ERR_OK)), ap_poll = (\<lambda>f arg p s. Some (s, ERR_OK)),
      ap_err = (\<lambda>f arg err s. Some s)\<rparr>"

definition log_pcb :: tcp_pcb where "log_pcb = (rx_pcb 5840)\<lparr>cb_recv := Some 1\<rparr>"

definition log_st :: "u8 list \<Rightarrow> (unit \<times> u8 list list) tcp_st" where
  "log_st d = \<lparr>cbs = [1 \<mapsto> Conn log_pcb], tcp_bound_pcbs = [], tcp_listen_pcbs = [], tcp_active_pcbs = [1], tcp_tw_pcbs = [],
     tcp_active_pcbs_changed = False, tcp_ticks = 0, tcp_timer = 0, tcp_timer_ctr = 0, tcpip_tcp_timer_active = True,
     tcp_port = 0xc000, tcp_iss = 6510, tcp_input_pcb = Some 1, st_in = (rx_seg 1001 TCP_ACK d)\<lparr>recv_data := Some d\<rparr>, st_w = ((), [])\<rparr>"

lemma log_takes_all: "takes_all log_app 1 (\<lambda>s. get_pcb s 1 = Some log_pcb) (\<lambda>s. concat (snd (st_w s)))"
  by (simp add: takes_all_def TCP_EVENT_RECV_def call_recv_def log_app_def log_pcb_def rx_pcb_def has_def TF_RXCLOSED_def TF_SACK_def)

theorem input_recv_loop_ends_witness:
  "\<exists>s'. input_recv_loop log_app 1 (log_st (replicate 70000 7)) = Some (s', False) \<and>
     concat (snd (st_w s')) = replicate 70000 7"
proof -
  have "0 < ap_split_64k log_app d \<and> ap_split_64k log_app d < 65536" if "d \<noteq> []" for d
    using that by (simp add: log_app_def)
  moreover have "replicate 70000 (7 :: u8) \<noteq> []" by simp
  ultimately show ?thesis
    using input_recv_loop_ends [OF log_takes_all, of "log_st (replicate 70000 7)"]
    by (auto simp: log_st_def get_pcb_def)
qed

section \<open>What a session passes on\<close>

definition written :: "nat \<Rightarrow> nat \<times> asio_op \<Rightarrow> u8 list" where
  "written i x = (case x of (j, Out_write d) \<Rightarrow> if j = i then d else [] | _ \<Rightarrow> [])"

text \<open>The bytes on their way to the proxy; with them those that wait in the socket.\<close>

definition sent_on :: "nat \<Rightarrow> 'u n2t_st \<Rightarrow> u8 list" where
  "sent_on i s = concat (map (written i) (n2_pending (st_w s)))"

definition relayed :: "nat \<Rightarrow> 'u n2t_st \<Rightarrow> u8 list" where
  "relayed i s = sent_on i s @ (case get_sess s i of None \<Rightarrow> [] | Some x \<Rightarrow> recv_buf (in_sock x))"

text \<open>A forwarding session. Data waits in the socket only while no handler is registered; whether the
  stack has told the socket that its control block goes (\<open>pcb_freed\<close>, set by the client's FIN and by
  an error) is a matter of the property below.\<close>

definition relaying :: "nat \<Rightarrow> 'u n2t_st \<Rightarrow> bool" where
  "relaying i s \<longleftrightarrow> (\<exists>x. get_sess s i = Some x \<and> status x = FORWARD \<and>
     (sk_recv (in_sock x) \<longrightarrow> recv_buf (in_sock x) = []))"

text \<open>C9: while its client's connection is open, a session that forwards passes the client's bytes on in
  order and loses none: data from the stack goes behind what is on its way to the proxy or waits in the
  socket, and asking for more data moves what waits on the way. Once the client has closed,
  asking for more data ends the session instead: what still waits in the socket, which is all the client
  sent while a write to the proxy was under way, is not passed on, then or later.\<close>

theorem session_relays:
  assumes "relaying i s" and "get_sess s i = Some x"
  shows "if \<not> pcb_freed (in_sock x) then
      (\<exists>s'. socket_deliver i d s = Some s' \<and> relaying i s' \<and> relayed i s' = relayed i s @ d) \<and>
      (\<exists>s' x'. socket_async_recv i s = Some s' \<and> relaying i s' \<and> relayed i s' = relayed i s \<and>
        get_sess s' i = Some x' \<and> recv_buf (in_sock x') = [])
    else \<forall>p b. sk_pcb (in_sock x) = Some p \<and> cbs s p = Some (Conn b) \<and> state b \<noteq> LISTEN \<longrightarrow>
      (\<exists>s' x'. socket_async_recv i s = Some s' \<and> get_sess s' i = Some x' \<and> status x' = DESTROY \<and> sent_on i s' = sent_on i s \<and>
        (\<forall>freed d. recv_handler i freed d s' = Some s'))"
proof -
  note x = assms(2) and r = assms(1) [unfolded relaying_def assms(2)]
  note defs = upd_sock_def upd_sess_def upd_w_def get_sess_def recv_handler_def asio_post_def relaying_def relayed_def
    sent_on_def written_def
  show ?thesis
  proof (cases "pcb_freed (in_sock x)")
    case False
    have "\<exists>s'. socket_deliver i d s = Some s' \<and> relaying i s' \<and> relayed i s' = relayed i s @ d"
      using x r False by (cases "sk_recv (in_sock x)") (simp_all add: socket_deliver_def defs)
    moreover have "\<exists>s' x'. socket_async_recv i s = Some s' \<and> relaying i s' \<and> relayed i s' = relayed i s \<and>
        get_sess s' i = Some x' \<and> recv_buf (in_sock x') = []"
      using x r False by (cases "recv_buf (in_sock x) = []") (simp_all add: socket_async_recv_def defs)
    ultimately show ?thesis using False by simp
  next
    case True
    have "\<exists>s' x'. socket_async_recv i s = Some s' \<and> get_sess s' i = Some x' \<and> status x' = DESTROY \<and> sent_on i s' = sent_on i s \<and>
        (\<forall>freed d. recv_handler i freed d s' = Some s')"
      if "sk_pcb (in_sock x) = Some p" "cbs s p = Some (Conn b)" "state b \<noteq> LISTEN" for p b
      using that x r True
      by (simp add: socket_async_recv_def defs session_destroy_def socket_cancel_def
          tcp_recv_def tcp_sent_def tcp_err_def upd_nonlisten_def upd_pcb_def get_pcb_def put_pcb_def)
    then show ?thesis using True by auto
  qed
qed

text \<open>A forwarding session with number 7 on the block at address 1.\<close>

definition session_7 :: n2_session where
  "session_7 = new_session\<lparr>status := FORWARD, out_open := True,
     in_sock := (in_sock new_session)\<lparr>sk_pcb := Some 1, sk_recv := True, sk_err := True\<rparr>\<rparr>"

definition session_st :: "(nat \<Rightarrow> cblock option) \<Rightarrow> packets n2t_st" where
  "session_st bls = \<lparr>cbs = bls, tcp_bound_pcbs = [], tcp_listen_pcbs = [], tcp_active_pcbs = [], tcp_tw_pcbs = [],
     tcp_active_pcbs_changed = False, tcp_ticks = 0, tcp_timer = 0, tcp_timer_ctr = 0, tcpip_tcp_timer_active = True,
     tcp_port = 0xc000, tcp_iss = 6510, tcp_input_pcb = None, st_in = rx_seg 1001 TCP_ACK [],
     st_w = \<lparr>n2_sess = [7 \<mapsto> session_7], n2_next = 8, n2_pending = [(7, Out_write [1, 2])], n2_conn_que = [],
       n2_new_connection = False, n2_pending_socket = 0, n2_stopped = False, n2_user = []\<rparr>\<rparr>"

lemma session_7_there: "get_sess (session_st bls) 7 = Some session_7"
  by (simp add: session_st_def get_sess_def)

text \<open>The same session after the client has closed, with two bytes waiting.\<close>

definition closed_st :: "packets n2t_st" where
  "closed_st = the (upd_sock 7 (\<lambda>k. k\<lparr>pcb_freed := True, sk_recv := False, recv_buf := [8, 9]\<rparr>) (session_st [1 \<mapsto> Conn log_pcb]))"

theorem session_relays_witness:
  "(\<exists>s'. socket_deliver 7 [3, 4] (session_st Map.empty) = Some s' \<and> relayed 7 s' = [1, 2, 3, 4]) \<and>
   relayed 7 closed_st = [1, 2, 8, 9] \<and> (\<exists>s'. socket_async_recv 7 closed_st = Some s' \<and> sent_on 7 s' = [1, 2])"
proof -
  have "relaying 7 (session_st Map.empty)"
    by (simp add: relaying_def session_7_there) (simp add: session_7_def new_session_def)
  moreover have "relayed 7 (session_st Map.empty) = [1, 2]"
    by (simp add: relayed_def sent_on_def session_7_there written_def) (simp add: session_st_def session_7_def new_session_def written_def)
  moreover have "\<not> pcb_freed (in_sock session_7)" by (simp add: session_7_def new_session_def)
  ultimately have 1: "\<exists>s'. socket_deliver 7 [3, 4] (session_st Map.empty) = Some s' \<and> relayed 7 s' = [1, 2, 3, 4]"
    using session_relays [OF _ session_7_there, of Map.empty "[3, 4]"] by auto
  let ?x = "session_7\<lparr>in_sock := (in_sock session_7)\<lparr>pcb_freed := True, sk_recv := False, recv_buf := [8, 9]\<rparr>\<rparr>"
  have x: "get_sess closed_st 7 = Some ?x"
    by (simp add: closed_st_def upd_sock_def upd_sess_def session_7_there upd_w_def) (simp add: get_sess_def)
  have c: "cbs closed_st 1 = Some (Conn log_pcb)" "n2_pending (st_w closed_st) = [(7, Out_write [1, 2])]"
    by (simp_all add: closed_st_def upd_sock_def upd_sess_def session_7_there upd_w_def) (simp_all add: session_st_def)
  have "relaying 7 closed_st" by (simp add: relaying_def x) (simp add: session_7_def new_session_def)
  moreover have "state log_pcb \<noteq> LISTEN" "sk_pcb (in_sock ?x) = Some 1"
    by (simp_all add: log_pcb_def rx_pcb_def session_7_def new_session_def)
  moreover have "sent_on 7 closed_st = [1, 2]" by (simp add: sent_on_def c written_def)
  ultimately show ?thesis using 1 c(1) session_relays [OF _ x, of "[]"] by (auto simp: relayed_def x)
qed

section \<open>The end of a session\<close>

text \<open>C10: ending a session unregisters its callbacks at the stack, so it needs the control block of its socket. While
  the block is there the session ends as meant: its callbacks and handlers are gone and its state is
  \<^verbatim>\<open>DESTROY\<close>. Once the stack has freed the block, as it has before it calls the error callback of
  an aborted connection, the session touches freed memory: neither \<^verbatim>\<open>destroy\<close> nor the error
  callback with its handler registered returns.\<close>

theorem session_end:
  assumes x: "get_sess s i = Some x" "status x \<noteq> DESTROY" "sk_pcb (in_sock x) = Some p"
  shows "case cbs s p of
      None \<Rightarrow> session_destroy i s = None \<and> (sk_err (in_sock x) \<longrightarrow> socket_err i err s = None)
    | Some (Lst l) \<Rightarrow> True
    | Some (Conn b) \<Rightarrow> state b \<noteq> LISTEN \<longrightarrow> (\<exists>s' x'. session_destroy i s = Some s' \<and> get_sess s' i = Some x' \<and>
        status x' = DESTROY \<and> \<not> out_open x' \<and>
        \<not> sk_recv (in_sock x') \<and> \<not> sk_sent (in_sock x') \<and> \<not> sk_err (in_sock x') \<and>
        get_pcb s' p = Some (b\<lparr>cb_recv := None, cb_sent := None, cb_errf := None\<rparr>))"
proof -
  note defs = session_destroy_def socket_cancel_def upd_sock_def upd_sess_def upd_w_def get_sess_def socket_err_def err_handler_def
    tcp_recv_def tcp_sent_def tcp_err_def upd_nonlisten_def upd_pcb_def get_pcb_def put_pcb_def
  show ?thesis
  proof (cases "cbs s p")
    case None
    then show ?thesis using x by (simp add: defs)
  next
    case (Some c)
    then show ?thesis using x by (cases c) (simp_all add: defs)
  qed
qed

theorem session_end_witness:
  "socket_err 7 ERR_ABRT (session_st Map.empty) = None \<and>
   (\<exists>s' x'. session_destroy 7 (session_st [1 \<mapsto> Conn log_pcb]) = Some s' \<and> get_sess s' 7 = Some x' \<and> status x' = DESTROY)"
proof -
  have x: "status session_7 \<noteq> DESTROY" "sk_pcb (in_sock session_7) = Some 1" "sk_err (in_sock session_7)"
    by (simp_all add: session_7_def new_session_def)
  have "cbs (session_st b) = b" for b by (simp add: session_st_def)
  moreover have "state log_pcb \<noteq> LISTEN" by (simp add: log_pcb_def rx_pcb_def)
  ultimately show ?thesis
    using session_end [OF session_7_there x(1,2), of Map.empty ERR_ABRT]
      session_end [OF session_7_there x(1,2), of "[1 \<mapsto> Conn log_pcb]" ERR_ABRT] x(3)
    by auto
qed

end
