(* ===== verification/N2t_udp.thy ===== *)
theory N2t_udp imports N2t begin

text \<open>
  Forwarding of UDP by the library, \<^verbatim>\<open>src/src/n2t/udpsession.cpp\<close> with the address encoding of
  \<^verbatim>\<open>utils.cpp\<close> and the dispatch of \<^verbatim>\<open>N2S::async_read_udp\<close>. A session keeps its state and answers
  every event with the calls it makes to \<^verbatim>\<open>boost::asio\<close> and to the stack, in order. \<open>None\<close> is an
  exception of \<^verbatim>\<open>boost\<close> that nothing catches.
\<close>

section \<open>Addresses\<close>

text \<open>\<^verbatim>\<open>std::to_string\<close> and \<^verbatim>\<open>%02x\<close>.\<close>

fun to_dec :: "nat \<Rightarrow> string" where
  "to_dec n = (if n < 10 then [char_of (48 + n)] else to_dec (n div 10) @ [char_of (48 + n mod 10)])"

declare to_dec.simps [simp del]

definition hex_digit :: "nat \<Rightarrow> char" where
  "hex_digit n = char_of (if n < 10 then 48 + n else 87 + n)"

definition to_hex2 :: "u8 \<Rightarrow> string" where
  "to_hex2 b = [hex_digit (unat b div 16), hex_digit (unat b mod 16)]"

definition dotted :: "u8 list \<Rightarrow> string" where
  "dotted bs = to_dec (unat (bs ! 0)) @ ''.'' @ to_dec (unat (bs ! 1)) @ ''.'' @ to_dec (unat (bs ! 2)) @ ''.'' @ to_dec (unat (bs ! 3))"

definition hex_groups :: "u8 list \<Rightarrow> string" where
  "hex_groups bs = concat (map (\<lambda>i. (if i = 0 then [] else '':'') @ to_hex2 (bs ! (2 * i)) @ to_hex2 (bs ! (2 * i + 1))) [0..<8])"

definition be_port :: "u8 \<Rightarrow> u8 \<Rightarrow> u16" where
  "be_port a b = push_bit 8 (ucast a) OR ucast b"

text \<open>The address as text, the port and the number of bytes read.\<close>

definition socks5_to_addrport :: "u8 list \<Rightarrow> (string \<times> u16 \<times> nat) option" where
  "socks5_to_addrport d =
     (if d = [] then None
      else if d ! 0 = 1
      then (if length d < 7 then None else Some (dotted (take 4 (drop 1 d)), be_port (d ! 5) (d ! 6), 7))
      else if d ! 0 = 4
      then (if length d < 19 then None else Some (hex_groups (take 16 (drop 1 d)), be_port (d ! 17) (d ! 18), 19))
      else None)"

text \<open>What \<^verbatim>\<open>boost::asio\<close> answers: an address from its text (whether it is of version 4, and
  its bytes), whether connecting the datagram socket works, and whether sending a datagram works.\<close>

record boost_env =
  bo_from_string :: "string \<Rightarrow> (bool \<times> u8 list) option"
  bo_connect :: "string \<Rightarrow> u16 \<Rightarrow> bool"
  bo_send :: "u8 list \<Rightarrow> bool"

definition addrport_to_socks5_text :: "boost_env \<Rightarrow> string \<Rightarrow> u16 \<Rightarrow> u8 list option" where
  "addrport_to_socks5_text e addr port = do {
     (v4, bs) \<leftarrow> bo_from_string e addr;
     Some ((if v4 then 1 # take 4 bs else 4 # take 16 bs) @ [ucast (drop_bit 8 port), ucast (port AND 0xff)]) }"

section \<open>Sessions\<close>

record udp_packet =
  src_addr :: string
  src_port :: u16
  dst_addr :: string
  dst_port :: u16
  pk_data :: "u8 list"

datatype udp_act = Tcp_connect | Tcp_read | Tcp_write "u8 list" | Tcp_close | Udp_connect string u16 | Udp_read
  | Udp_send "u8 list" | Udp_close | In_write udp_packet | Gc_wait | Gc_cancel

record udp_session =
  us_status :: session_status
  us_initial :: udp_packet
  us_send_que :: "udp_packet list"
  us_tcp_open :: bool
  us_out_open :: bool

type_synonym udp_result = "(udp_session \<times> udp_act list) option"

definition us_destroy :: "udp_session \<Rightarrow> udp_result" where
  "us_destroy s =
     Some (if us_status s = DESTROY then (s, [])
           else (s\<lparr>us_status := DESTROY, us_tcp_open := False, us_out_open := False\<rparr>,
                 (if us_tcp_open s then [Tcp_close] else []) @ (if us_out_open s then [Udp_close] else []) @ [Gc_cancel]))"

definition us_async_wait_timer :: "udp_act list" where
  "us_async_wait_timer = [Gc_cancel, Gc_wait]"

text \<open>The actions of two steps one after the other.\<close>

definition us_seq :: "udp_result \<Rightarrow> (udp_session \<Rightarrow> udp_result) \<Rightarrow> udp_result" where
  "us_seq r f = do { (s, as) \<leftarrow> r; (s, bs) \<leftarrow> f s; Some (s, as @ bs) }"

definition us_in_recv :: "boost_env \<Rightarrow> udp_packet \<Rightarrow> udp_session \<Rightarrow> udp_result" where
  "us_in_recv e pk s =
     us_seq (Some (s, us_async_wait_timer)) (\<lambda>s.
       if us_status s = FORWARD
       then do {
         h \<leftarrow> addrport_to_socks5_text e (dst_addr pk) (dst_port pk);
         LWIP_ASSERT (bo_send e ([0, 0, 0] @ h @ pk_data pk));
         Some (s, [Udp_send ([0, 0, 0] @ h @ pk_data pk)]) }
       else Some (s\<lparr>us_send_que := us_send_que s @ [pk]\<rparr>, []))"

fun us_flush :: "boost_env \<Rightarrow> udp_packet list \<Rightarrow> udp_session \<Rightarrow> udp_result" where
  "us_flush e [] s = Some (s, [])"
| "us_flush e (pk # pks) s = us_seq (us_in_recv e pk s) (us_flush e pks)"

definition us_tcp_recv :: "boost_env \<Rightarrow> u8 list \<Rightarrow> udp_session \<Rightarrow> udp_result" where
  "us_tcp_recv e d s =
     (case us_status s of
        HANDSHAKE \<Rightarrow>
          (if d \<noteq> [5, 0] then us_destroy s
           else Some (s\<lparr>us_status := REQUEST\<rparr>, [Tcp_write [5, 3, 0, 1, 0, 0, 0, 0, 0, 0]]))
      | REQUEST \<Rightarrow>
          (if length d \<le> 3 \<or> take 3 d \<noteq> [5, 0, 0] then us_destroy s
           else case socks5_to_addrport (drop 3 d) of
             None \<Rightarrow> us_destroy s
           | Some (addr, port, n) \<Rightarrow> do {
               a \<leftarrow> bo_from_string e addr;
               us_seq (Some (s\<lparr>us_out_open := True\<rparr>, [Udp_connect addr port])) (\<lambda>s.
                 if \<not> bo_connect e addr port then us_destroy s
                 else us_seq (Some (s\<lparr>us_status := FORWARD\<rparr>, [Tcp_read, Udp_read]))
                        (\<lambda>s. us_flush e (us_initial s # us_send_que s) s)) })
      | FORWARD \<Rightarrow> us_destroy s
      | DESTROY \<Rightarrow> Some (s, []))"

definition us_tcp_sent :: "udp_session \<Rightarrow> udp_result" where
  "us_tcp_sent s = Some (s, if us_status s = HANDSHAKE \<or> us_status s = REQUEST then [Tcp_read] else [])"

definition us_out_recv :: "u8 list \<Rightarrow> udp_session \<Rightarrow> udp_result" where
  "us_out_recv d s =
     us_seq (Some (s, us_async_wait_timer)) (\<lambda>s.
       if us_status s \<noteq> FORWARD then Some (s, [])
       else if length d \<le> 3 \<and> take 3 d \<noteq> [0, 0, 0] then us_destroy s
       else case socks5_to_addrport (drop 3 d) of
         None \<Rightarrow> us_destroy s
       | Some (addr, port, n) \<Rightarrow>
           Some (s, [In_write \<lparr>src_addr = addr, src_port = port, dst_addr = src_addr (us_initial s),
                               dst_port = src_port (us_initial s), pk_data = drop (n + 3) d\<rparr>, Udp_read]))"

text \<open>Completions of the operations on the proxy's connection and of the timer.\<close>

definition us_tcp_read_done :: "boost_env \<Rightarrow> u8 list option \<Rightarrow> udp_session \<Rightarrow> udp_result" where
  "us_tcp_read_done e d s = (case d of None \<Rightarrow> us_destroy s | Some d \<Rightarrow> us_tcp_recv e d s)"

definition us_tcp_write_done :: "bool \<Rightarrow> udp_session \<Rightarrow> udp_result" where
  "us_tcp_write_done failed s = (if failed then us_destroy s else us_tcp_sent s)"

definition us_out_read_done :: "u8 list option \<Rightarrow> udp_session \<Rightarrow> udp_result" where
  "us_out_read_done d s = (case d of None \<Rightarrow> us_destroy s | Some d \<Rightarrow> us_out_recv d s)"

definition us_timer_done :: "bool \<Rightarrow> udp_session \<Rightarrow> udp_result" where
  "us_timer_done failed s = (if failed then Some (s, []) else us_destroy s)"

definition us_connected :: "bool \<Rightarrow> udp_session \<Rightarrow> udp_result" where
  "us_connected failed s = (if failed then us_destroy s else Some (s, [Tcp_write [5, 1, 0]]))"

definition us_new :: "udp_packet \<Rightarrow> udp_session" where
  "us_new pk = \<lparr>us_status = HANDSHAKE, us_initial = pk, us_send_que = [], us_tcp_open = False, us_out_open = False\<rparr>"

definition us_start :: "udp_session \<Rightarrow> udp_result" where
  "us_start s = Some (s\<lparr>us_tcp_open := True\<rparr>, [Gc_wait, Tcp_connect])"

text \<open>\<open>None\<close> when the packet is not of this session.\<close>

definition us_process :: "boost_env \<Rightarrow> udp_packet \<Rightarrow> udp_session \<Rightarrow> (udp_session \<times> udp_act list) option option" where
  "us_process e pk s =
     (if src_addr pk \<noteq> src_addr (us_initial s) \<or> src_port pk \<noteq> src_port (us_initial s) then None
      else Some (us_in_recv e pk s))"

text \<open>The sessions of \<^verbatim>\<open>N2S\<close>; an expired weak pointer is \<open>None\<close>.\<close>

fun udp_dispatch :: "boost_env \<Rightarrow> udp_packet \<Rightarrow> udp_session option list \<Rightarrow> (udp_session option list \<times> udp_act list) option" where
  "udp_dispatch e pk [] = do { (s, as) \<leftarrow> us_start (us_new pk); Some ([Some s], as) }"
| "udp_dispatch e pk (None # ss) = udp_dispatch e pk ss"
| "udp_dispatch e pk (Some s # ss) =
     (case us_process e pk s of
        Some r \<Rightarrow> do { (s, as) \<leftarrow> r; Some (Some s # ss, as) }
      | None \<Rightarrow> do { (ss, as) \<leftarrow> udp_dispatch e pk ss; Some (Some s # ss, as) })"

section \<open>The encoding\<close>

lemma be_port_bytes: "be_port (ucast (drop_bit 8 port)) (ucast (port AND 0xff)) = port"
proof -
  have "(0xff :: u16) = mask 8" by (simp add: mask_eq_exp_minus_1)
  then show ?thesis
    unfolding be_port_def by (intro bit_word_eqI) (auto simp only: bit_simps, auto simp: bit_simps)
qed

text \<open>Reading back what was written, whatever follows.\<close>

lemma socks5_read_back:
  assumes "length bs = 4"
  shows "socks5_to_addrport (1 # bs @ ucast (drop_bit 8 port) # ucast (port AND 0xff) # rest) = Some (dotted bs, port, 7)"
proof -
  obtain a b c d where "bs = [a, b, c, d]" using assms by (auto simp: numeral_eq_Suc length_Suc_conv)
  then show ?thesis by (simp add: socks5_to_addrport_def be_port_bytes)
qed

lemma socks5_hex_length: "length (hex_groups bs) = 39"
proof -
  have "[0..<8] = [0, 1, 2, 3, 4, 5, 6, 7 :: nat]" by (simp add: upt_rec)
  then show ?thesis by (simp add: hex_groups_def to_hex2_def)
qed

definition udp_header :: "u8 list \<Rightarrow> u16 \<Rightarrow> u8 list" where
  "udp_header bs port = [0, 0, 0, 1] @ bs @ [ucast (drop_bit 8 port), ucast (port AND 0xff)]"

text \<open>C14: a datagram and the answer to it. A forwarding session sends a client's datagram to the proxy with the
  SOCKS5 header of its destination, and an answer that the proxy gives with the same header is
  written back as a datagram from that destination to the client, with the data unchanged and the
  same address and port in both directions. The text of the destination is its four numbers in decimal.\<close>

theorem udp_relay_round_trip:
  assumes "us_status s = FORWARD" and "bo_from_string e (dst_addr pk) = Some (True, bs)" and "length bs = 4"
    and "dst_addr pk = dotted bs" and "bo_send e (udp_header bs (dst_port pk) @ pk_data pk)"
  shows "us_in_recv e pk s = Some (s, [Gc_cancel, Gc_wait, Udp_send (udp_header bs (dst_port pk) @ pk_data pk)]) \<and>
    us_out_recv (udp_header bs (dst_port pk) @ answer) s = Some (s, [Gc_cancel, Gc_wait,
      In_write \<lparr>src_addr = dst_addr pk, src_port = dst_port pk, dst_addr = src_addr (us_initial s),
                dst_port = src_port (us_initial s), pk_data = answer\<rparr>, Udp_read])"
proof -
  obtain a b c d where bs: "bs = [a, b, c, d]" using assms(3) by (auto simp: numeral_eq_Suc length_Suc_conv)
  have "us_in_recv e pk s = Some (s, [Gc_cancel, Gc_wait, Udp_send (udp_header bs (dst_port pk) @ pk_data pk)])"
    using assms by (simp add: us_in_recv_def us_seq_def us_async_wait_timer_def addrport_to_socks5_text_def udp_header_def)
  moreover have "us_out_recv (udp_header bs (dst_port pk) @ answer) s = Some (s, [Gc_cancel, Gc_wait,
      In_write \<lparr>src_addr = dst_addr pk, src_port = dst_port pk, dst_addr = src_addr (us_initial s),
                dst_port = src_port (us_initial s), pk_data = answer\<rparr>, Udp_read])"
    using assms(1,4) socks5_read_back [OF assms(3), of "dst_port pk" answer]
    by (simp add: us_out_recv_def us_seq_def us_async_wait_timer_def udp_header_def bs)
  ultimately show ?thesis by blast
qed

definition dns_query :: udp_packet where
  "dns_query = \<lparr>src_addr = ''10.0.0.2'', src_port = 4000, dst_addr = ''8.8.4.4'', dst_port = 53, pk_data = [1, 2]\<rparr>"

definition dns_boost :: boost_env where
  "dns_boost = \<lparr>bo_from_string = (\<lambda>t. if t = ''8.8.4.4'' then Some (True, [8, 8, 4, 4]) else None), bo_connect = (\<lambda>a p. True), bo_send = (\<lambda>d. length d < 1000)\<rparr>"

theorem udp_relay_round_trip_witness:
  "us_out_recv [0, 0, 0, 1, 8, 8, 4, 4, 0, 53, 7, 9] ((us_new dns_query)\<lparr>us_status := FORWARD\<rparr>) =
     Some ((us_new dns_query)\<lparr>us_status := FORWARD\<rparr>, [Gc_cancel, Gc_wait,
       In_write \<lparr>src_addr = ''8.8.4.4'', src_port = 53, dst_addr = ''10.0.0.2'', dst_port = 4000, pk_data = [7, 9]\<rparr>, Udp_read])"
proof -
  have d: "dst_addr dns_query = dotted [8, 8, 4, 4]"
    by code_simp
  have f: "bo_from_string dns_boost (dst_addr dns_query) = Some (True, [8, 8, 4, 4])"
    by (simp add: dns_boost_def dns_query_def)
  have h: "udp_header [8, 8, 4, 4] (dst_port dns_query) = [0, 0, 0, 1, 8, 8, 4, 4, 0, 53]"
    by (simp add: udp_header_def dns_query_def)
  have s: "bo_send dns_boost ([0, 0, 0, 1, 8, 8, 4, 4, 0, 53] @ pk_data dns_query)"
    by (simp add: dns_boost_def dns_query_def)
  show ?thesis
    using udp_relay_round_trip [of "(us_new dns_query)\<lparr>us_status := FORWARD\<rparr>", OF _ f _ d, of "[7, 9]", unfolded h] s
    by (simp add: us_new_def) (simp add: dns_query_def)
qed

section \<open>Dead sessions\<close>

definition proxied :: "udp_act \<Rightarrow> bool" where
  "proxied a \<longleftrightarrow> (case a of Gc_wait \<Rightarrow> False | Gc_cancel \<Rightarrow> False | _ \<Rightarrow> True)"

fun udp_dispatch_all ::
    "boost_env \<Rightarrow> udp_packet list \<Rightarrow> udp_session option list \<Rightarrow> (udp_session option list \<times> udp_act list) option" where
  "udp_dispatch_all e [] ss = Some (ss, [])"
| "udp_dispatch_all e (pk # pks) ss = do {
     (ss, as) \<leftarrow> udp_dispatch e pk ss;
     (ss, bs) \<leftarrow> udp_dispatch_all e pks ss;
     Some (ss, as @ bs) }"

text \<open>C15: a session that has ended swallows the client's datagrams. As long as its object lives it is found
  first, takes every datagram from its client, keeps it in its queue and starts its timer again,
  which keeps the object alive: nothing is sent to a proxy, and no new session is made.\<close>

theorem dead_session_swallows:
  assumes "us_status s = DESTROY"
    and "\<forall>pk\<in>set pks. src_addr pk = src_addr (us_initial s) \<and> src_port pk = src_port (us_initial s)"
  shows "\<exists>as. udp_dispatch_all e pks (Some s # ss) = Some (Some (s\<lparr>us_send_que := us_send_que s @ pks\<rparr>) # ss, as) \<and>
    (\<forall>a\<in>set as. \<not> proxied a) \<and> (pks \<noteq> [] \<longrightarrow> last as = Gc_wait)"
  using assms
proof (induction pks arbitrary: s)
  case (Cons pk pks)
  let ?s = "s\<lparr>us_send_que := us_send_que s @ [pk]\<rparr>"
  have "udp_dispatch e pk (Some s # ss) = Some (Some ?s # ss, [Gc_cancel, Gc_wait])"
    using Cons.prems by (simp add: us_process_def us_in_recv_def us_seq_def us_async_wait_timer_def)
  moreover have "\<exists>as. udp_dispatch_all e pks (Some ?s # ss) = Some (Some (?s\<lparr>us_send_que := us_send_que ?s @ pks\<rparr>) # ss, as) \<and>
    (\<forall>a\<in>set as. \<not> proxied a) \<and> (pks \<noteq> [] \<longrightarrow> last as = Gc_wait)"
    by (rule Cons.IH) (use Cons.prems in auto)
  ultimately show ?case by (cases "pks = []") (auto simp: proxied_def)
qed simp

theorem dead_session_swallows_witness:
  "\<exists>as s'. udp_dispatch_all dns_boost [dns_query, dns_query] [Some ((us_new dns_query)\<lparr>us_status := DESTROY\<rparr>)] = Some ([Some s'], as) \<and>
     us_send_que s' = [dns_query, dns_query] \<and> last as = Gc_wait"
  using dead_session_swallows [of "(us_new dns_query)\<lparr>us_status := DESTROY\<rparr>" "[dns_query, dns_query]" dns_boost "[]"]
  by (auto simp: us_new_def)

end
