(* ===== verification/Ip4.thy ===== *)
theory Ip4 imports Udp "HOL-Library.Signed_Division" begin

text \<open>
  IPv4 output: \<^verbatim>\<open>core/ipv4/ip4.c\<close> (routing, building the header) and \<^verbatim>\<open>ip4_frag\<close> of
  \<^verbatim>\<open>core/ipv4/ip4_frag.c\<close>. A header is read from memory as the list of its bytes. The
  interface is the library's: \<^verbatim>\<open>netif->output\<close> is \<^verbatim>\<open>N2T::N2TInternal::output_cb\<close>, which takes a
  copy of the packet's bytes; \<open>i_sent\<close> holds the packets it was given, in order.
\<close>

section \<open>State\<close>

text \<open>A datagram that is being reassembled. The helper structs which link the fragments stand in
  the place of their IP headers; here they are the list \<open>rd_frags\<close>, of the fragment's buffer and
  its first and last byte's offset. The bytes of an overwritten header are never read again.\<close>

record reass_frag =
  fr_pbuf :: nat
  fr_start :: u16
  fr_end :: u16

record reassdata =
  rd_frags :: "reass_frag list"
  rd_iphdr :: "u8 list"
  rd_datagram_len :: u16
  rd_flags :: u8
  rd_timer :: u8

record 'w ip_st =
  i_hp :: hp
  ip_id :: u16
  reassdatagrams :: "reassdata list"
  ip_reass_pbufcount :: u16
  i_sent :: "u8 list list"
  i_world :: 'w

text \<open>The allocator, the checksum routine, the default interface, whether there is memory for
  another \<^verbatim>\<open>ip_reassdata\<close>, and the transport layers.\<close>

record 'w ip_env =
  ie_alloc :: allocator
  ie_chksum :: chksum_fn
  ie_netif_default :: "netif option"
  ie_reassdata :: "'w ip_st \<Rightarrow> bool"
  ie_udp_input :: "ip_globals \<Rightarrow> nat \<Rightarrow> netif \<Rightarrow> 'w ip_st \<Rightarrow> 'w ip_st option"
  ie_tcp_input :: "ip_globals \<Rightarrow> nat \<Rightarrow> netif \<Rightarrow> 'w ip_st \<Rightarrow> 'w ip_st option"

section \<open>Header fields\<close>

definition IP_HLEN :: nat where "IP_HLEN = 20"
definition IP_MF :: u16 where "IP_MF = 0x2000"
definition IP_OFFMASK :: u16 where "IP_OFFMASK = 0x1fff"

definition IPH_V :: "u8 list \<Rightarrow> u8" where "IPH_V hdr = drop_bit 4 (hdr ! 0)"
definition IPH_HL :: "u8 list \<Rightarrow> u8" where "IPH_HL hdr = hdr ! 0 AND 0x0f"
definition IPH_HL_BYTES :: "u8 list \<Rightarrow> u8" where "IPH_HL_BYTES hdr = IPH_HL hdr * 4"
definition IPH_LEN :: "u8 list \<Rightarrow> u16" where "IPH_LEN hdr = ld16 (hdr ! 2) (hdr ! 3)"
definition IPH_ID :: "u8 list \<Rightarrow> u16" where "IPH_ID hdr = ld16 (hdr ! 4) (hdr ! 5)"
definition IPH_OFFSET :: "u8 list \<Rightarrow> u16" where "IPH_OFFSET hdr = ld16 (hdr ! 6) (hdr ! 7)"
definition IPH_OFFSET_BYTES :: "u8 list \<Rightarrow> u16" where
  "IPH_OFFSET_BYTES hdr = (lwip_ntohs (IPH_OFFSET hdr) AND IP_OFFMASK) * 8"
definition IPH_PROTO :: "u8 list \<Rightarrow> u8" where "IPH_PROTO hdr = hdr ! 9"
definition iph_src :: "u8 list \<Rightarrow> ip4_addr_t" where
  "iph_src hdr = ld32 (hdr ! 12) (hdr ! 13) (hdr ! 14) (hdr ! 15)"
definition iph_dest :: "u8 list \<Rightarrow> ip4_addr_t" where
  "iph_dest hdr = ld32 (hdr ! 16) (hdr ! 17) (hdr ! 18) (hdr ! 19)"

definition ip_free :: "nat \<Rightarrow> 'w ip_st \<Rightarrow> 'w ip_st option" where
  "ip_free p s = do { (h, n) \<leftarrow> pbuf_free (i_hp s) (Some p); Some (s\<lparr>i_hp := h\<rparr>) }"

section \<open>The interface\<close>

partial_function (option) pbuf_to_str :: "hp \<Rightarrow> nat option \<Rightarrow> u8 list option" where
  "pbuf_to_str h p =
     (case p of
        None \<Rightarrow> Some []
      | Some a \<Rightarrow> do {
          q \<leftarrow> pbufs h a;
          bs \<leftarrow> load (bytes h) (pb_payload q) (unat (pb_len q));
          str \<leftarrow> pbuf_to_str h (pb_next q);
          Some (bs @ str) })"

definition output_cb :: "nat \<Rightarrow> 'w ip_st \<Rightarrow> ('w ip_st \<times> err_t) option" where
  "output_cb p s = do { bs \<leftarrow> pbuf_to_str (i_hp s) (Some p); Some (s\<lparr>i_sent := i_sent s @ [bs]\<rparr>, ERR_OK) }"

definition ip4_route :: "'w ip_env \<Rightarrow> ip4_addr_t \<Rightarrow> netif option" where
  "ip4_route e dest =
     (case ie_netif_default e of
        None \<Rightarrow> None
      | Some n \<Rightarrow>
          if \<not> netif_is_up n \<or> \<not> netif_is_link_up n \<or> netif_ip4_addr n = 0 \<or> ip4_addr_isloopback dest then None
          else Some n)"

section \<open>Fragmenting\<close>

text \<open>The inner loop: one fragment's data as buffers that refer to the packet's. The result is
  the heap and, if there was memory, the place in the packet; \<open>newpbuflen\<close> keeps its value when
  the loop has no round.\<close>

partial_function (option) frag_copy ::
    "allocator \<Rightarrow> hp \<Rightarrow> nat \<Rightarrow> nat \<Rightarrow> u16 \<Rightarrow> u16 \<Rightarrow> u16 \<Rightarrow> (hp \<times> (nat \<times> u16 \<times> u16) option) option" where
  "frag_copy al h rambuf p poff newpbuflen left_to_copy =
     (if left_to_copy = 0 then Some (h, Some (p, poff, newpbuflen))
      else do {
        b \<leftarrow> pbufs h p;
        LWIP_ASSERT (pb_len b \<ge> poff);
        let newpbuflen = min left_to_copy (pb_len b - poff);
        (if newpbuflen = 0 then do {
           n \<leftarrow> pb_next b;
           frag_copy al h rambuf n 0 newpbuflen left_to_copy }
         else do {
           (h, pcr) \<leftarrow> memp_malloc al h MEMP_FRAG_PBUF;
           (case pcr of
              None \<Rightarrow> do { (h, c) \<leftarrow> pbuf_free h (Some rambuf); Some (h, None) }
            | Some pcr \<Rightarrow> do {
                let (h, newpbuf) = pbuf_alloced_custom h PBUF_RAW newpbuflen PBUF_REF pcr (pb_payload b + unat poff) newpbuflen;
                (case newpbuf of
                   None \<Rightarrow> do {
                     h \<leftarrow> memp_free h MEMP_FRAG_PBUF (Some pcr);
                     (h, c) \<leftarrow> pbuf_free h (Some rambuf);
                     Some (h, None) }
                 | Some q \<Rightarrow> do {
                     h \<leftarrow> pbuf_ref h (Some p);
                     let h = upd_pbuf h q (\<lambda>b. b\<lparr>pb_custom_free_function := Some (ipfrag_free_pbuf_custom (Some p))\<rparr>);
                     h \<leftarrow> pbuf_cat h (Some rambuf) (Some q);
                     let left_to_copy = left_to_copy - newpbuflen;
                     (if left_to_copy = 0 then Some (h, Some (p, poff, newpbuflen))
                      else do {
                        b \<leftarrow> pbufs h p;
                        n \<leftarrow> pb_next b;
                        frag_copy al h rambuf n 0 newpbuflen left_to_copy }) }) }) }) })"

text \<open>The header of a fragment, in front of its data.\<close>

definition frag_header :: "'w ip_env \<Rightarrow> hp \<Rightarrow> nat \<Rightarrow> u16 \<Rightarrow> u16 \<Rightarrow> hp option" where
  "frag_header e h iphdr tmp fragsize = do {
     h \<leftarrow> st_u16 h (iphdr + 6) (lwip_htons tmp);
     h \<leftarrow> st_u16 h (iphdr + 2) (lwip_htons (fragsize + of_nat IP_HLEN));
     h \<leftarrow> st_u16 h (iphdr + 10) 0;
     hdr \<leftarrow> load (bytes h) iphdr IP_HLEN;
     st_u16 h (iphdr + 10) (inet_chksum (ie_chksum e) iphdr hdr) }"

partial_function (option) frag_loop ::
    "'w ip_env \<Rightarrow> netif \<Rightarrow> nat \<Rightarrow> u16 \<Rightarrow> u16 \<Rightarrow> nat \<Rightarrow> u16 \<Rightarrow> u16 \<Rightarrow> u16 \<Rightarrow> u16 \<Rightarrow> 'w ip_st \<Rightarrow> ('w ip_st \<times> err_t) option" where
  "frag_loop e n original_iphdr mf_set nfb p poff newpbuflen ofo left s =
     (if left = 0 then Some (s, ERR_OK)
      else do {
        let fragsize = min left (nfb * 8);
        (h, rambuf) \<leftarrow> pbuf_alloc (ie_alloc e) (i_hp s) PBUF_LINK (of_nat IP_HLEN) PBUF_RAM;
        (case rambuf of
           None \<Rightarrow> Some (s\<lparr>i_hp := h\<rparr>, ERR_MEM)
         | Some rambuf \<Rightarrow> do {
             rb \<leftarrow> pbufs h rambuf;
             LWIP_ASSERT (unat (pb_len rb) \<ge> IP_HLEN);
             hdr \<leftarrow> load (bytes h) original_iphdr IP_HLEN;
             h \<leftarrow> st_bytes h (pb_payload rb) hdr;
             (h, c) \<leftarrow> frag_copy (ie_alloc e) h rambuf p poff newpbuflen fragsize;
             (case c of
                None \<Rightarrow> Some (s\<lparr>i_hp := h\<rparr>, ERR_MEM)
              | Some (p, poff, newpbuflen) \<Rightarrow> do {
                  let poff = poff + newpbuflen;
                  let final = (int (unat left) \<le> int (unat (netif_mtu n)) - int IP_HLEN);
                  let tmp = IP_OFFMASK AND ofo;
                  let tmp = (if \<not> final \<or> mf_set \<noteq> 0 then tmp OR IP_MF else tmp);
                  h \<leftarrow> frag_header e h (pb_payload rb) tmp fragsize;
                  (s, err) \<leftarrow> output_cb rambuf (s\<lparr>i_hp := h\<rparr>);
                  s \<leftarrow> ip_free rambuf s;
                  frag_loop e n original_iphdr mf_set nfb p poff newpbuflen (ofo + nfb) (left - fragsize) s }) }) })"

definition ip4_frag :: "'w ip_env \<Rightarrow> nat \<Rightarrow> netif \<Rightarrow> 'w ip_st \<Rightarrow> ('w ip_st \<times> err_t) option" where
  "ip4_frag e p n s = do {
     b \<leftarrow> pbufs (i_hp s) p;
     let nfb = of_int ((int (unat (netif_mtu n)) - int IP_HLEN) sdiv 8);
     hdr \<leftarrow> load (bytes (i_hp s)) (pb_payload b) IP_HLEN;
     (if unat (IPH_HL_BYTES hdr) \<noteq> IP_HLEN then Some (s, ERR_VAL)
      else do {
        LWIP_ASSERT (unat (pb_len b) \<ge> IP_HLEN);
        let tmp = lwip_ntohs (IPH_OFFSET hdr);
        frag_loop e n (pb_payload b) (tmp AND IP_MF) nfb p (of_nat IP_HLEN) 0 (tmp AND IP_OFFMASK)
          (pb_tot_len b - of_nat IP_HLEN) s }) }"

section \<open>Output\<close>

text \<open>The checksum of the header, summed up as its fields are written.\<close>

definition out_chksum :: "u8 \<Rightarrow> u8 \<Rightarrow> u8 \<Rightarrow> u8 \<Rightarrow> u16 \<Rightarrow> u16 \<Rightarrow> ip4_addr_t \<Rightarrow> ip4_addr_t \<Rightarrow> u16" where
  "out_chksum vhl tos ttl proto len ident src dest =
     (let chk_sum = (ucast (lwip_htons (ucast proto OR push_bit 8 (ucast ttl))) :: u32);
          chk_sum = chk_sum + (dest AND 0xFFFF) + drop_bit 16 dest;
          chk_sum = chk_sum + ucast (lwip_htons (ucast tos OR push_bit 8 (ucast vhl)));
          chk_sum = chk_sum + ucast len + ucast ident;
          chk_sum = chk_sum + (src AND 0xFFFF) + drop_bit 16 src;
          chk_sum = drop_bit 16 chk_sum + (chk_sum AND 0xFFFF);
          chk_sum = drop_bit 16 chk_sum + chk_sum
      in ucast (NOT chk_sum))"

definition out_header :: "u8 \<Rightarrow> u8 \<Rightarrow> u8 \<Rightarrow> u16 \<Rightarrow> u16 \<Rightarrow> ip4_addr_t \<Rightarrow> ip4_addr_t \<Rightarrow> u8 list" where
  "out_header tos ttl proto len ident src dest =
     [0x45, tos] @ u16_bytes len @ u16_bytes ident @ u16_bytes 0 @ [ttl, proto] @
     u16_bytes (out_chksum 0x45 tos ttl proto len ident src dest) @ u32_bytes src @ u32_bytes dest"

text \<open>The end of the function: fragments, or the whole packet.\<close>

definition ip4_transmit :: "'w ip_env \<Rightarrow> nat \<Rightarrow> netif \<Rightarrow> 'w ip_st \<Rightarrow> ('w ip_st \<times> err_t) option" where
  "ip4_transmit e p n s = do {
     b \<leftarrow> pbufs (i_hp s) p;
     (if netif_mtu n \<noteq> 0 \<and> pb_tot_len b > netif_mtu n then ip4_frag e p n s else output_cb p s) }"

text \<open>A \<open>dest\<close> of \<open>None\<close> is \<^verbatim>\<open>LWIP_IP_HDRINCL\<close>, a \<open>src\<close> of \<open>None\<close> is \<^verbatim>\<open>NULL\<close>.\<close>

definition ip4_output_if_src ::
    "'w ip_env \<Rightarrow> nat \<Rightarrow> ip4_addr_t option \<Rightarrow> ip4_addr_t option \<Rightarrow> u8 \<Rightarrow> u8 \<Rightarrow> u8 \<Rightarrow> netif \<Rightarrow> 'w ip_st \<Rightarrow>
     ('w ip_st \<times> err_t) option" where
  "ip4_output_if_src e p src dest ttl tos proto n s = do {
     b \<leftarrow> pbufs (i_hp s) p;
     LWIP_ASSERT (pb_ref b = 1);
     (case dest of
        Some dest \<Rightarrow> do {
          (h, r) \<leftarrow> pbuf_add_header (i_hp s) (Some p) IP_HLEN;
          (if r \<noteq> 0 then Some (s\<lparr>i_hp := h\<rparr>, ERR_BUF)
           else do {
             b \<leftarrow> pbufs h p;
             LWIP_ASSERT (unat (pb_len b) \<ge> IP_HLEN);
             let src = (case src of None \<Rightarrow> 0 | Some a \<Rightarrow> a);
             h \<leftarrow> st_bytes h (pb_payload b)
                   (out_header tos ttl proto (lwip_htons (pb_tot_len b)) (lwip_htons (ip_id s)) src dest);
             ip4_transmit e p n (s\<lparr>i_hp := h, ip_id := ip_id s + 1\<rparr>) }) }
      | None \<Rightarrow>
          if unat (pb_len b) < IP_HLEN then Some (s, ERR_BUF) else ip4_transmit e p n s) }"

definition ip4_output_if ::
    "'w ip_env \<Rightarrow> nat \<Rightarrow> ip4_addr_t option \<Rightarrow> ip4_addr_t option \<Rightarrow> u8 \<Rightarrow> u8 \<Rightarrow> u8 \<Rightarrow> netif \<Rightarrow> 'w ip_st \<Rightarrow>
     ('w ip_st \<times> err_t) option" where
  "ip4_output_if e p src dest ttl tos proto n s =
     (let src_used = (if dest \<noteq> None \<and> (src = None \<or> src = Some 0) then Some (netif_ip4_addr n) else src)
      in ip4_output_if_src e p src_used dest ttl tos proto n s)"

definition ip4_output ::
    "'w ip_env \<Rightarrow> nat \<Rightarrow> ip4_addr_t option \<Rightarrow> ip4_addr_t \<Rightarrow> u8 \<Rightarrow> u8 \<Rightarrow> u8 \<Rightarrow> 'w ip_st \<Rightarrow> ('w ip_st \<times> err_t) option" where
  "ip4_output e p src dest ttl tos proto s = do {
     b \<leftarrow> pbufs (i_hp s) p;
     LWIP_ASSERT (pb_ref b = 1);
     (case ip4_route e dest of
        None \<Rightarrow> Some (s, ERR_RTE)
      | Some n \<Rightarrow> ip4_output_if e p src (Some dest) ttl tos proto n s) }"

end
