(* ===== verification/Icmp.thy ===== *)
theory Icmp imports Ip4 begin

text \<open>
  ICMP, \<^verbatim>\<open>core/ipv4/icmp.c\<close>: answering echo requests, and the error messages that quote the
  packet they are about.
\<close>

definition ICMP_ER :: u8 where "ICMP_ER = 0"
definition ICMP_DUR :: u8 where "ICMP_DUR = 3"
definition ICMP_ECHO :: u8 where "ICMP_ECHO = 8"
definition ICMP_TE :: u8 where "ICMP_TE = 11"
definition ICMP_DUR_PROTO :: u8 where "ICMP_DUR_PROTO = 2"
definition ICMP_TE_FRAG :: u8 where "ICMP_TE_FRAG = 1"
definition ICMP_TTL :: u8 where "ICMP_TTL = 255"
definition IP_PROTO_ICMP :: u8 where "IP_PROTO_ICMP = 1"
definition SIZEOF_ICMP_ECHO_HDR :: nat where "SIZEOF_ICMP_ECHO_HDR = 8"
definition ICMP_DEST_UNREACH_DATASIZE :: nat where "ICMP_DEST_UNREACH_DATASIZE = 8"
definition PBUF_LINK_HLEN :: nat where "PBUF_LINK_HLEN = 14"

section \<open>Messages about a packet\<close>

definition icmp_send_response :: "'w ip_env \<Rightarrow> nat \<Rightarrow> u8 \<Rightarrow> u8 \<Rightarrow> 'w ip_st \<Rightarrow> 'w ip_st option" where
  "icmp_send_response e p type code s = do {
     let n = SIZEOF_ICMP_ECHO_HDR + IP_HLEN + ICMP_DEST_UNREACH_DATASIZE;
     (h, q) \<leftarrow> pbuf_alloc (ie_alloc e) (i_hp s) PBUF_IP (of_nat n) PBUF_RAM;
     (case q of
        None \<Rightarrow> Some (s\<lparr>i_hp := h\<rparr>)
      | Some q \<Rightarrow> do {
          qb \<leftarrow> pbufs h q;
          LWIP_ASSERT (unat (pb_len qb) \<ge> n);
          b \<leftarrow> pbufs h p;
          h \<leftarrow> st_bytes h (pb_payload qb) [type, code];
          h \<leftarrow> st_bytes h (pb_payload qb + 4) [0, 0, 0, 0];
          orig \<leftarrow> load (bytes h) (pb_payload b) (IP_HLEN + ICMP_DEST_UNREACH_DATASIZE);
          h \<leftarrow> st_bytes h (pb_payload qb + SIZEOF_ICMP_ECHO_HDR) orig;
          let iphdr_src = iph_src orig;
          s \<leftarrow> (case ip4_route e iphdr_src of
                  None \<Rightarrow> Some (s\<lparr>i_hp := h\<rparr>)
                | Some n \<Rightarrow> do {
                    h \<leftarrow> st_u16 h (pb_payload qb + 2) 0;
                    msg \<leftarrow> load (bytes h) (pb_payload qb) (unat (pb_len qb));
                    h \<leftarrow> st_u16 h (pb_payload qb + 2) (inet_chksum (ie_chksum e) (pb_payload qb) msg);
                    (s, err) \<leftarrow> ip4_output_if e q None (Some iphdr_src) ICMP_TTL 0 IP_PROTO_ICMP n (s\<lparr>i_hp := h\<rparr>);
                    Some s });
          ip_free q s }) }"

definition icmp_dest_unreach :: "'w ip_env \<Rightarrow> nat \<Rightarrow> u8 \<Rightarrow> 'w ip_st \<Rightarrow> 'w ip_st option" where
  "icmp_dest_unreach e p t s = icmp_send_response e p ICMP_DUR t s"

definition icmp_time_exceeded :: "'w ip_env \<Rightarrow> nat \<Rightarrow> u8 \<Rightarrow> 'w ip_st \<Rightarrow> 'w ip_st option" where
  "icmp_time_exceeded e p t s = icmp_send_response e p ICMP_TE t s"

section \<open>Echo\<close>

text \<open>A buffer with room for the headers: the request's, or a copy. The heap with \<open>None\<close> is the
  label \<^verbatim>\<open>icmperr\<close>; \<open>iphdr_in\<close> is the address of the IP header.\<close>

definition icmp_echo_buf :: "'w ip_env \<Rightarrow> nat \<Rightarrow> nat \<Rightarrow> nat \<Rightarrow> hp \<Rightarrow> (hp \<times> nat option) option" where
  "icmp_echo_buf e iphdr_in hlen p h = do {
     (h, res) \<leftarrow> pbuf_add_header h (Some p) (hlen + PBUF_LINK_HLEN);
     (if res \<noteq> 0 then do {
        b \<leftarrow> pbufs h p;
        let alloc_len = pb_tot_len b + of_nat hlen;
        (if alloc_len < pb_tot_len b then Some (h, None)
         else do {
           (h, r) \<leftarrow> pbuf_alloc (ie_alloc e) h PBUF_LINK alloc_len PBUF_RAM;
           (case r of
              None \<Rightarrow> Some (h, None)
            | Some r \<Rightarrow> do {
                rb \<leftarrow> pbufs h r;
                (if unat (pb_len rb) < hlen + SIZEOF_ICMP_ECHO_HDR
                 then do { (h, n) \<leftarrow> pbuf_free h (Some r); Some (h, None) }
                 else do {
                   hdr \<leftarrow> load (bytes h) iphdr_in hlen;
                   h \<leftarrow> st_bytes h (pb_payload rb) hdr;
                   (h, res) \<leftarrow> pbuf_remove_header h (Some r) hlen;
                   LWIP_ASSERT (res = 0);
                   (h, err) \<leftarrow> pbuf_copy h (Some r) (Some p);
                   (if err \<noteq> ERR_OK
                    then do { (h, n) \<leftarrow> pbuf_free h (Some r); Some (h, None) }
                    else do { (h, n) \<leftarrow> pbuf_free h (Some p); Some (h, Some r) }) }) }) }) }
      else do {
        (h, res) \<leftarrow> pbuf_remove_header h (Some p) (hlen + PBUF_LINK_HLEN);
        LWIP_ASSERT (res = 0);
        Some (h, Some p) }) }"

definition icmp_echo_chksum :: "u16 \<Rightarrow> u16" where
  "icmp_echo_chksum chksum =
     (if chksum > lwip_htons (0xffff - push_bit 8 (ucast ICMP_ECHO))
      then chksum + lwip_htons (push_bit 8 (ucast ICMP_ECHO)) + 1
      else chksum + lwip_htons (push_bit 8 (ucast ICMP_ECHO)))"

text \<open>The answer is made of the request in place and sent.\<close>

definition icmp_echo_answer :: "'w ip_env \<Rightarrow> ip_globals \<Rightarrow> nat \<Rightarrow> nat \<Rightarrow> netif \<Rightarrow> 'w ip_st \<Rightarrow> 'w ip_st option" where
  "icmp_echo_answer e g hlen p inp s = do {
     b \<leftarrow> pbufs (i_hp s) p;
     let iecho = pb_payload b;
     (h, res) \<leftarrow> pbuf_add_header (i_hp s) (Some p) hlen;
     (if res \<noteq> 0 then Some (s\<lparr>i_hp := h\<rparr>)
      else do {
        b \<leftarrow> pbufs h p;
        let iphdr = pb_payload b;
        let src = ip_2_ip4 (current_iphdr_dest g);
        h \<leftarrow> st_u32 h (iphdr + 12) src;
        h \<leftarrow> st_u32 h (iphdr + 16) (ip_2_ip4 (current_iphdr_src g));
        h \<leftarrow> st_bytes h iecho [ICMP_ER];
        chksum \<leftarrow> ld_u16 h (iecho + 2);
        h \<leftarrow> st_u16 h (iecho + 2) (icmp_echo_chksum chksum);
        h \<leftarrow> st_bytes h (iphdr + 8) [ICMP_TTL];
        h \<leftarrow> st_u16 h (iphdr + 10) 0;
        hdr \<leftarrow> load (bytes h) iphdr hlen;
        h \<leftarrow> st_u16 h (iphdr + 10) (inet_chksum (ie_chksum e) iphdr hdr);
        (s, ret) \<leftarrow> ip4_output_if e p (Some src) None ICMP_TTL 0 IP_PROTO_ICMP inp (s\<lparr>i_hp := h\<rparr>);
        Some s }) }"

definition icmp_input :: "'w ip_env \<Rightarrow> ip_globals \<Rightarrow> nat \<Rightarrow> nat \<Rightarrow> netif \<Rightarrow> 'w ip_st \<Rightarrow> 'w ip_st option" where
  "icmp_input e g iphdr_in p inp s = do {
     vhl \<leftarrow> ld_u8 (i_hp s) iphdr_in;
     let hlen = unat (IPH_HL_BYTES [vhl]);
     b \<leftarrow> pbufs (i_hp s) p;
     (if hlen < IP_HLEN \<or> unat (pb_len b) < 4 then ip_free p s
      else do {
        type \<leftarrow> ld_u8 (i_hp s) (pb_payload b);
        (if type \<noteq> ICMP_ECHO then ip_free p s
         else if ip4_addr_ismulticast (ip_2_ip4 (current_iphdr_dest g)) then ip_free p s
         else if ip4_addr_isbroadcast_u32 (ip_2_ip4 (current_iphdr_dest g)) (current_netif g) then ip_free p s
         else if unat (pb_tot_len b) < SIZEOF_ICMP_ECHO_HDR then ip_free p s
         else do {
           c \<leftarrow> inet_chksum_pbuf (ie_chksum e) (i_hp s) (Some p);
           (if c \<noteq> 0 then ip_free p s
            else do {
              (h, r) \<leftarrow> icmp_echo_buf e iphdr_in hlen p (i_hp s);
              (case r of
                 None \<Rightarrow> ip_free p (s\<lparr>i_hp := h\<rparr>)
               | Some p \<Rightarrow> do { s \<leftarrow> icmp_echo_answer e g hlen p inp (s\<lparr>i_hp := h\<rparr>); ip_free p s }) }) }) }) }"

end
