(* ===== verification/Ip_reass.thy ===== *)
theory Ip_reass imports Icmp begin

text \<open>
  Reassembly of IPv4 fragments, \<^verbatim>\<open>core/ipv4/ip4_frag.c\<close>. A pointer to an \<^verbatim>\<open>ip_reassdata\<close> is
  its position in the list; the list does not change between finding it and its use.
\<close>

definition IP_REASS_MAX_PBUFS :: nat where "IP_REASS_MAX_PBUFS = 10"
definition IP_REASS_MAXAGE :: u8 where "IP_REASS_MAXAGE = 15"
definition IP_REASS_FLAG_LASTFRAG :: u8 where "IP_REASS_FLAG_LASTFRAG = 0x01"

definition IP_ADDRESSES_AND_ID_MATCH :: "u8 list \<Rightarrow> u8 list \<Rightarrow> bool" where
  "IP_ADDRESSES_AND_ID_MATCH a b \<longleftrightarrow> iph_src a = iph_src b \<and> iph_dest a = iph_dest b \<and> IPH_ID a = IPH_ID b"

section \<open>Freeing datagrams\<close>

definition ip_reass_dequeue_datagram :: "nat \<Rightarrow> 'w ip_st \<Rightarrow> 'w ip_st" where
  "ip_reass_dequeue_datagram i s =
     s\<lparr>reassdatagrams := take i (reassdatagrams s) @ drop (Suc i) (reassdatagrams s)\<rparr>"

text \<open>The loop over the queued buffers.\<close>

fun free_frags :: "reass_frag list \<Rightarrow> u16 \<Rightarrow> 'w ip_st \<Rightarrow> ('w ip_st \<times> u16) option" where
  "free_frags [] pbufs_freed s = Some (s, pbufs_freed)"
| "free_frags (f # fs) pbufs_freed s = do {
     clen \<leftarrow> pbuf_clen (i_hp s) (Some (fr_pbuf f));
     LWIP_ASSERT (unat pbufs_freed + unat clen \<le> 0xffff);
     s \<leftarrow> ip_free (fr_pbuf f) s;
     free_frags fs (pbufs_freed + clen) s }"

definition ip_reass_free_complete_datagram :: "'w ip_env \<Rightarrow> nat \<Rightarrow> 'w ip_st \<Rightarrow> ('w ip_st \<times> u16) option" where
  "ip_reass_free_complete_datagram e i s = do {
     let ipr = reassdatagrams s ! i;
     (case rd_frags ipr of
        [] \<Rightarrow> None
      | f # fs \<Rightarrow> do {
          (s, frags, freed) \<leftarrow>
            (if fr_start f = 0 then do {
               let p = fr_pbuf f;
               let s = s\<lparr>reassdatagrams := (reassdatagrams s)[i := ipr\<lparr>rd_frags := fs\<rparr>]\<rparr>;
               b \<leftarrow> pbufs (i_hp s) p;
               h \<leftarrow> st_bytes (i_hp s) (pb_payload b) (rd_iphdr ipr);
               s \<leftarrow> icmp_time_exceeded e p ICMP_TE_FRAG (s\<lparr>i_hp := h\<rparr>);
               clen \<leftarrow> pbuf_clen (i_hp s) (Some p);
               s \<leftarrow> ip_free p s;
               Some (s, fs, clen) }
             else Some (s, f # fs, 0));
          (s, freed) \<leftarrow> free_frags frags freed s;
          let s = ip_reass_dequeue_datagram i s;
          LWIP_ASSERT (ip_reass_pbufcount s \<ge> freed);
          Some (s\<lparr>ip_reass_pbufcount := ip_reass_pbufcount s - freed\<rparr>, freed) }) }"

text \<open>The timer: \<open>i\<close> counts the datagrams that stay.\<close>

partial_function (option) ip_reass_tmr_from :: "'w ip_env \<Rightarrow> nat \<Rightarrow> 'w ip_st \<Rightarrow> 'w ip_st option" where
  "ip_reass_tmr_from e i s =
     (if i < length (reassdatagrams s)
      then (let r = reassdatagrams s ! i in
            if rd_timer r > 0
            then ip_reass_tmr_from e (Suc i)
                   (s\<lparr>reassdatagrams := (reassdatagrams s)[i := r\<lparr>rd_timer := rd_timer r - 1\<rparr>]\<rparr>)
            else do { (s, n) \<leftarrow> ip_reass_free_complete_datagram e i s; ip_reass_tmr_from e i s })
      else Some s)"

definition ip_reass_tmr :: "'w ip_env \<Rightarrow> 'w ip_st \<Rightarrow> 'w ip_st option" where
  "ip_reass_tmr e s = ip_reass_tmr_from e 0 s"

text \<open>The oldest datagram which the header is not of, with its timer, and the number of those.\<close>

fun find_oldest :: "u8 list \<Rightarrow> nat \<Rightarrow> reassdata list \<Rightarrow> (nat \<times> u8) option \<Rightarrow> nat \<Rightarrow> (nat \<times> u8) option \<times> nat" where
  "find_oldest fraghdr i [] oldest other_datagrams = (oldest, other_datagrams)"
| "find_oldest fraghdr i (r # rs) oldest other_datagrams =
     (if \<not> IP_ADDRESSES_AND_ID_MATCH (rd_iphdr r) fraghdr
      then find_oldest fraghdr (Suc i) rs
             (case oldest of
                None \<Rightarrow> Some (i, rd_timer r)
              | Some (j, t) \<Rightarrow> if rd_timer r \<le> t then Some (i, rd_timer r) else oldest)
             (Suc other_datagrams)
      else find_oldest fraghdr (Suc i) rs oldest other_datagrams)"

partial_function (option) remove_oldest_loop ::
    "'w ip_env \<Rightarrow> u8 list \<Rightarrow> int \<Rightarrow> int \<Rightarrow> 'w ip_st \<Rightarrow> ('w ip_st \<times> int) option" where
  "remove_oldest_loop e fraghdr pbufs_needed pbufs_freed s =
     (case find_oldest fraghdr 0 (reassdatagrams s) None 0 of (oldest, other_datagrams) \<Rightarrow> do {
        (s, pbufs_freed) \<leftarrow>
          (case oldest of
             None \<Rightarrow> Some (s, pbufs_freed)
           | Some (i, t) \<Rightarrow> do {
               (s, n) \<leftarrow> ip_reass_free_complete_datagram e i s;
               Some (s, pbufs_freed + int (unat n)) });
        (if pbufs_freed < pbufs_needed \<and> other_datagrams > 1
         then remove_oldest_loop e fraghdr pbufs_needed pbufs_freed s
         else Some (s, pbufs_freed)) })"

definition ip_reass_remove_oldest_datagram ::
    "'w ip_env \<Rightarrow> u8 list \<Rightarrow> int \<Rightarrow> 'w ip_st \<Rightarrow> ('w ip_st \<times> int) option" where
  "ip_reass_remove_oldest_datagram e fraghdr pbufs_needed s = remove_oldest_loop e fraghdr pbufs_needed 0 s"

text \<open>The new datagram is the first of the list; \<open>False\<close> is \<^verbatim>\<open>NULL\<close>.\<close>

definition ip_reass_enqueue_new_datagram ::
    "'w ip_env \<Rightarrow> u8 list \<Rightarrow> int \<Rightarrow> 'w ip_st \<Rightarrow> ('w ip_st \<times> bool) option" where
  "ip_reass_enqueue_new_datagram e fraghdr clen s = do {
     (s, ok) \<leftarrow>
       (if ie_reassdata e s then Some (s, True)
        else do {
          (s, n) \<leftarrow> ip_reass_remove_oldest_datagram e fraghdr clen s;
          Some (s, n \<ge> clen \<and> ie_reassdata e s) });
     Some (if ok
           then (s\<lparr>reassdatagrams := \<lparr>rd_frags = [], rd_iphdr = take IP_HLEN fraghdr, rd_datagram_len = 0,
                     rd_flags = 0, rd_timer = IP_REASS_MAXAGE\<rparr> # reassdatagrams s\<rparr>, True)
           else (s, False)) }"

section \<open>Queueing a fragment\<close>

datatype reass_validate = TELEGRAM_FINISHED | PBUF_QUEUED | PBUF_DROPPED

text \<open>The place of the new fragment. The result is the new chain, whether there was no hole up to
  the new fragment, and what follows it; the inner \<open>None\<close> is a dropped fragment.\<close>

fun chain_insert ::
    "reass_frag option \<Rightarrow> bool \<Rightarrow> reass_frag \<Rightarrow> reass_frag list \<Rightarrow> (reass_frag list \<times> bool \<times> reass_frag list) option option" where
  "chain_insert prev valid iprh [] =
     (case prev of
        Some p \<Rightarrow> do {
          LWIP_ASSERT (fr_end p \<le> fr_start iprh);
          Some (Some ([iprh], valid \<and> fr_end p = fr_start iprh, [])) }
      | None \<Rightarrow> Some (Some ([iprh], valid, [])))"
| "chain_insert prev valid iprh (q # qs) =
     (if fr_start iprh < fr_start q
      then (case prev of
              Some p \<Rightarrow>
                if fr_start iprh < fr_end p \<or> fr_end iprh > fr_start q then Some None
                else Some (Some (iprh # q # qs, valid \<and> fr_end p = fr_start iprh, q # qs))
            | None \<Rightarrow>
                if fr_end iprh > fr_start q then Some None else Some (Some (iprh # q # qs, valid, q # qs)))
      else if fr_start iprh = fr_start q then Some None
      else if fr_start iprh < fr_end q then Some None
      else do {
        r \<leftarrow> chain_insert (Some q) (case prev of Some p \<Rightarrow> valid \<and> fr_end p = fr_start q | None \<Rightarrow> valid) iprh qs;
        Some (map_option (\<lambda>(l, v, rest). (q # l, v, rest)) r) })"

text \<open>The walk to the end behind the new fragment, with the fragment it ended at.\<close>

fun no_holes :: "reass_frag \<Rightarrow> reass_frag list \<Rightarrow> bool \<times> reass_frag" where
  "no_holes prev [] = (True, prev)"
| "no_holes prev (q # qs) = (if fr_end prev \<noteq> fr_start q then (False, q) else no_holes q qs)"

definition ip_reass_chain_frag_into_datagram_and_validate ::
    "reassdata \<Rightarrow> nat \<Rightarrow> u8 list \<Rightarrow> bool \<Rightarrow> (reassdata \<times> reass_validate) option" where
  "ip_reass_chain_frag_into_datagram_and_validate ipr new_p fraghdr is_last =
     (let len = lwip_ntohs (IPH_LEN fraghdr);
          hlen = ucast (IPH_HL_BYTES fraghdr);
          len' = len - hlen;
          offset = IPH_OFFSET_BYTES fraghdr;
          iprh = \<lparr>fr_pbuf = new_p, fr_start = offset, fr_end = offset + len'\<rparr>
      in if hlen > len then Some (ipr, PBUF_DROPPED)
         else if fr_end iprh < offset then Some (ipr, PBUF_DROPPED)
         else do {
           r \<leftarrow> chain_insert None True iprh (rd_frags ipr);
           (case r of
              None \<Rightarrow> Some (ipr, PBUF_DROPPED)
            | Some (frags, valid, rest) \<Rightarrow> do {
                let ipr = ipr\<lparr>rd_frags := frags\<rparr>;
                (if is_last \<or> rd_flags ipr AND IP_REASS_FLAG_LASTFRAG \<noteq> 0
                 then if valid \<and> fr_start (hd frags) = 0
                      then (case no_holes iprh rest of (v, final) \<Rightarrow> do {
                              LWIP_ASSERT (v \<longrightarrow> fr_pbuf (hd frags) \<noteq> fr_pbuf final);
                              Some (ipr, if v then TELEGRAM_FINISHED else PBUF_QUEUED) })
                      else Some (ipr, PBUF_QUEUED)
                 else Some (ipr, PBUF_QUEUED)) }) })"

section \<open>Reassembly\<close>

fun find_datagram :: "u8 list \<Rightarrow> reassdata list \<Rightarrow> nat option" where
  "find_datagram fraghdr [] = None"
| "find_datagram fraghdr (r # rs) =
     (if IP_ADDRESSES_AND_ID_MATCH (rd_iphdr r) fraghdr then Some 0 else map_option Suc (find_datagram fraghdr rs))"

text \<open>The second and later buffers lose their IP header and are chained to the first.\<close>

fun join_frags :: "nat \<Rightarrow> reass_frag list \<Rightarrow> hp \<Rightarrow> hp option" where
  "join_frags p [] h = Some h"
| "join_frags p (r # rs) h = do {
     (h, res) \<leftarrow> pbuf_remove_header h (Some (fr_pbuf r)) IP_HLEN;
     h \<leftarrow> pbuf_cat h (Some p) (Some (fr_pbuf r));
     join_frags p rs h }"

text \<open>The header of the whole datagram, in the first buffer.\<close>

definition reass_header :: "'w ip_env \<Rightarrow> hp \<Rightarrow> nat \<Rightarrow> u8 list \<Rightarrow> u16 \<Rightarrow> hp option" where
  "reass_header e h fraghdr iphdr datagram_len = do {
     h \<leftarrow> st_bytes h fraghdr iphdr;
     h \<leftarrow> st_u16 h (fraghdr + 2) (lwip_htons datagram_len);
     h \<leftarrow> st_u16 h (fraghdr + 6) 0;
     h \<leftarrow> st_u16 h (fraghdr + 10) 0;
     hdr \<leftarrow> load (bytes h) fraghdr IP_HLEN;
     st_u16 h (fraghdr + 10) (inet_chksum (ie_chksum e) fraghdr hdr) }"

definition ip4_reass_finish :: "'w ip_env \<Rightarrow> nat \<Rightarrow> 'w ip_st \<Rightarrow> ('w ip_st \<times> nat option) option" where
  "ip4_reass_finish e i s = do {
     let ipr = reassdatagrams s ! i;
     (case rd_frags ipr of
        [] \<Rightarrow> None
      | f # fs \<Rightarrow> do {
          let p = fr_pbuf f;
          b \<leftarrow> pbufs (i_hp s) p;
          h \<leftarrow> reass_header e (i_hp s) (pb_payload b) (rd_iphdr ipr) (rd_datagram_len ipr + of_nat IP_HLEN);
          h \<leftarrow> join_frags p fs h;
          let s = ip_reass_dequeue_datagram i (s\<lparr>i_hp := h\<rparr>);
          clen \<leftarrow> pbuf_clen (i_hp s) (Some p);
          LWIP_ASSERT (ip_reass_pbufcount s \<ge> clen);
          Some (s\<lparr>ip_reass_pbufcount := ip_reass_pbufcount s - clen\<rparr>, Some p) }) }"

text \<open>The label \<^verbatim>\<open>nullreturn_ipr\<close>.\<close>

definition ip4_reass_drop :: "nat \<Rightarrow> nat \<Rightarrow> 'w ip_st \<Rightarrow> ('w ip_st \<times> nat option) option" where
  "ip4_reass_drop p i s = do {
     s \<leftarrow> (if rd_frags (reassdatagrams s ! i) = []
           then do { LWIP_ASSERT (i = 0); Some (ip_reass_dequeue_datagram i s) }
           else Some s);
     s \<leftarrow> ip_free p s;
     Some (s, None) }"

text \<open>The fragment belongs to the datagram at \<open>i\<close>.\<close>

definition ip4_reass_into ::
    "'w ip_env \<Rightarrow> nat \<Rightarrow> u8 list \<Rightarrow> u16 \<Rightarrow> nat \<Rightarrow> 'w ip_st \<Rightarrow> ('w ip_st \<times> nat option) option" where
  "ip4_reass_into e p fraghdr clen i s = do {
     let offset = IPH_OFFSET_BYTES fraghdr;
     let len = lwip_ntohs (IPH_LEN fraghdr) - ucast (IPH_HL_BYTES fraghdr);
     let is_last = (IPH_OFFSET fraghdr AND lwip_ntohs IP_MF = 0);
     let datagram_len = offset + len;
     (if is_last \<and> (datagram_len < offset \<or> unat datagram_len > 0xFFFF - IP_HLEN)
      then ip4_reass_drop p i s
      else do {
        (ipr, valid) \<leftarrow> ip_reass_chain_frag_into_datagram_and_validate (reassdatagrams s ! i) p fraghdr is_last;
        (if valid = PBUF_DROPPED then ip4_reass_drop p i s
         else do {
           let ipr = (if is_last
                      then ipr\<lparr>rd_datagram_len := datagram_len, rd_flags := rd_flags ipr OR IP_REASS_FLAG_LASTFRAG\<rparr>
                      else ipr);
           let s = s\<lparr>reassdatagrams := (reassdatagrams s)[i := ipr], ip_reass_pbufcount := ip_reass_pbufcount s + clen\<rparr>;
           (if valid = TELEGRAM_FINISHED then ip4_reass_finish e i s else Some (s, None)) }) }) }"

definition ip4_reass :: "'w ip_env \<Rightarrow> nat \<Rightarrow> 'w ip_st \<Rightarrow> ('w ip_st \<times> nat option) option" where
  "ip4_reass e p s = do {
     b \<leftarrow> pbufs (i_hp s) p;
     fraghdr \<leftarrow> load (bytes (i_hp s)) (pb_payload b) IP_HLEN;
     (if unat (IPH_HL_BYTES fraghdr) \<noteq> IP_HLEN \<or> ucast (IPH_HL_BYTES fraghdr) > lwip_ntohs (IPH_LEN fraghdr)
      then do { s \<leftarrow> ip_free p s; Some (s, None) }
      else do {
        clen \<leftarrow> pbuf_clen (i_hp s) (Some p);
        (s, room) \<leftarrow>
          (if unat (ip_reass_pbufcount s) + unat clen > IP_REASS_MAX_PBUFS
           then do {
             (s, n) \<leftarrow> ip_reass_remove_oldest_datagram e fraghdr (int (unat clen)) s;
             Some (s, n \<noteq> 0 \<and> unat (ip_reass_pbufcount s) + unat clen \<le> IP_REASS_MAX_PBUFS) }
           else Some (s, True));
        (if \<not> room then do { s \<leftarrow> ip_free p s; Some (s, None) }
         else (case find_datagram fraghdr (reassdatagrams s) of
                 Some i \<Rightarrow>
                   (let ipr = reassdatagrams s ! i;
                        s = (if lwip_ntohs (IPH_OFFSET fraghdr) AND IP_OFFMASK = 0 \<and>
                                lwip_ntohs (IPH_OFFSET (rd_iphdr ipr)) AND IP_OFFMASK \<noteq> 0
                             then s\<lparr>reassdatagrams := (reassdatagrams s)[i := ipr\<lparr>rd_iphdr := take IP_HLEN fraghdr\<rparr>]\<rparr>
                             else s)
                    in ip4_reass_into e p fraghdr clen i s)
               | None \<Rightarrow> do {
                   (s, ok) \<leftarrow> ip_reass_enqueue_new_datagram e fraghdr (int (unat clen)) s;
                   (if ok then ip4_reass_into e p fraghdr clen 0 s
                    else do { s \<leftarrow> ip_free p s; Some (s, None) }) })) }) }"

end
