(* ===== verification/Ip4_in.thy ===== *)
theory Ip4_in imports Ip_reass begin

text \<open>
  IPv4 input, \<^verbatim>\<open>ip4_input\<close> of \<^verbatim>\<open>core/ipv4/ip4.c\<close>. What the layers above see of the packet in
  \<^verbatim>\<open>ip_data\<close> is their argument.
\<close>

definition ip4_input_accept :: "ip4_addr_t \<Rightarrow> netif \<Rightarrow> bool" where
  "ip4_input_accept dest n \<longleftrightarrow>
     netif_is_up n \<and> netif_ip4_addr n \<noteq> 0 \<and> (dest = netif_ip4_addr n \<or> ip4_addr_isbroadcast_u32 dest n)"

text \<open>The interface the packet is for, as the search finds it.\<close>

definition ip4_input_netif :: "ip4_addr_t \<Rightarrow> netif \<Rightarrow> netif option" where
  "ip4_input_netif dest inp =
     (if ip4_addr_ismulticast dest
      then (if netif_is_up inp \<and> netif_ip4_addr inp \<noteq> 0 then Some inp else None)
      else if ip4_input_accept dest inp then Some inp else None)"

definition ip4_deliver ::
    "'w ip_env \<Rightarrow> ip_globals \<Rightarrow> nat \<Rightarrow> u8 \<Rightarrow> u16 \<Rightarrow> nat \<Rightarrow> netif \<Rightarrow> 'w ip_st \<Rightarrow> 'w ip_st option" where
  "ip4_deliver e g iphdr proto iphdr_hlen p inp s = do {
     (h, res) \<leftarrow> pbuf_remove_header (i_hp s) (Some p) (unat iphdr_hlen);
     let s = s\<lparr>i_hp := h\<rparr>;
     (if proto = IP_PROTO_UDP then ie_udp_input e g p inp s
      else if proto = 6 then ie_tcp_input e g p inp s
      else if proto = IP_PROTO_ICMP then icmp_input e g iphdr p inp s
      else do {
        s \<leftarrow> (if \<not> ip_addr_isbroadcast (current_iphdr_dest g) (current_netif g) \<and>
                 \<not> ip_addr_ismulticast (current_iphdr_dest g)
              then do {
                (h, res) \<leftarrow> pbuf_header_force (i_hp s) (Some p) (sint iphdr_hlen);
                icmp_dest_unreach e p ICMP_DUR_PROTO (s\<lparr>i_hp := h\<rparr>) }
              else Some s);
        ip_free p s }) }"

definition ip4_input :: "'w ip_env \<Rightarrow> nat \<Rightarrow> netif \<Rightarrow> 'w ip_st \<Rightarrow> ('w ip_st \<times> err_t) option" where
  "ip4_input e p inp s = do {
     b \<leftarrow> pbufs (i_hp s) p;
     vhl \<leftarrow> ld_u8 (i_hp s) (pb_payload b);
     (if IPH_V [vhl] \<noteq> 4 then do { s \<leftarrow> ip_free p s; Some (s, ERR_OK) }
      else do {
        len \<leftarrow> ld_u16 (i_hp s) (pb_payload b + 2);
        let iphdr_hlen = ucast (IPH_HL_BYTES [vhl]);
        let iphdr_len = lwip_ntohs len;
        h \<leftarrow> (if iphdr_len < pb_tot_len b then pbuf_realloc (i_hp s) (Some p) iphdr_len else Some (i_hp s));
        let s = s\<lparr>i_hp := h\<rparr>;
        b \<leftarrow> pbufs h p;
        (if iphdr_hlen > pb_len b \<or> iphdr_len > pb_tot_len b \<or> unat iphdr_hlen < IP_HLEN
         then do { s \<leftarrow> ip_free p s; Some (s, ERR_OK) }
         else do {
           iphdr \<leftarrow> load (bytes h) (pb_payload b) (unat iphdr_hlen);
           (if inet_chksum (ie_chksum e) (pb_payload b) iphdr \<noteq> 0 then do { s \<leftarrow> ip_free p s; Some (s, ERR_OK) }
            else do {
              let dest = iph_dest iphdr;
              let src = iph_src iphdr;
              let netif = ip4_input_netif dest inp;
              (if ip4_addr_isbroadcast_u32 src inp \<or> ip4_addr_ismulticast src
               then do { s \<leftarrow> ip_free p s; Some (s, ERR_OK) }
               else do {
                 let netif = inp;
                 (s, r) \<leftarrow> (if IPH_OFFSET iphdr AND lwip_htons (IP_OFFMASK OR IP_MF) \<noteq> 0
                           then ip4_reass e p s else Some (s, Some p));
                 (case r of
                    None \<Rightarrow> Some (s, ERR_OK)
                  | Some p \<Rightarrow> do {
                      b \<leftarrow> pbufs (i_hp s) p;
                      iphdr \<leftarrow> load (bytes (i_hp s)) (pb_payload b) IP_HLEN;
                      let g = \<lparr>current_netif = netif, current_input_netif = inp, ip_current_is_v6 = False,
                               current_ip_header_tot_len = ucast (IPH_HL_BYTES iphdr),
                               current_iphdr_src = ip_addr_copy_from_ip4 src, current_iphdr_dest = ip_addr_copy_from_ip4 dest\<rparr>;
                      s \<leftarrow> ip4_deliver e g (pb_payload b) (IPH_PROTO iphdr) iphdr_hlen p inp s;
                      Some (s, ERR_OK) }) }) }) }) }) }"

end
