(* ===== verification/Pbuf_frame.thy ===== *)
theory Pbuf_frame imports Pbuf_alloc Wire begin

text \<open>
  Which buffers a routine leaves alone. \<open>owned h p as bs\<close>: \<open>p\<close> starts a packet of the buffers \<open>as\<close>
  that hold their own data, have one reference each and contain the bytes \<open>bs\<close>. \<open>keeps h as h'\<close>:
  no buffer but those of \<open>as\<close> has changed. A packet that a routine does not work on stays owned.
\<close>

definition owned :: "hp \<Rightarrow> nat \<Rightarrow> nat list \<Rightarrow> u8 list \<Rightarrow> bool" where
  "owned h p as bs \<longleftrightarrow> packet h (Some p) as \<and> own_chain h as \<and> sole_owner h as \<and> content h as = bs"

lemma ownedD:
  assumes "owned h p as bs"
  obtains as' q where "as = p # as'" "packet h (Some p) (p # as')" "own_chain h (p # as')" "sole_owner h (p # as')"
    "content h (p # as') = bs" "pbufs h p = Some q" "resident q" "plain q" "pb_ref q = 1"
    "length (pb_bytes h p) = unat (pb_len q)" "unat (pb_tot_len q) = length bs"
proof -
  from assms obtain as' where as: "as = p # as'" unfolding owned_def using packet_SomeD by blast
  have pk: "packet h (Some p) (p # as')" using assms as by (simp add: owned_def)
  obtain q where q: "pbufs h p = Some q" using packet_dom [OF pk] by auto
  show thesis
    by (rule that [OF as pk _ _ _ q])
       (use assms as q packet_pbuf [OF pk q] packet_tot_len [OF pk q] in \<open>auto simp: owned_def own_chain_def sole_owner_def\<close>)
qed

section \<open>Keeping buffers\<close>

lemma keeps_step:
  assumes "keeps h as h1" and "keeps h1 bs h2" and "\<And>b. b \<in> set bs \<Longrightarrow> b \<in> set as \<or> pbufs h b = None"
  shows "keeps h as h2"
  unfolding keeps_def
proof (intro allI impI)
  fix b q assume b: "b \<notin> set as" "pbufs h b = Some q"
  then have "b \<notin> set bs" using assms(3) by force
  then show "pbufs h2 b = Some q \<and> (resident q \<longrightarrow>
      load (bytes h2) (pb_payload q) (unat (pb_len q)) = load (bytes h) (pb_payload q) (unat (pb_len q)))"
    using assms(1,2) b unfolding keeps_def by simp
qed

lemma keeps_more: "keeps h as h' \<Longrightarrow> set as \<subseteq> set bs \<Longrightarrow> keeps h bs h'"
  by (auto simp: keeps_def)

lemma owned_keeps:
  assumes o: "owned h p as bs" and k: "keeps h zs h'" and d: "set as \<inter> set zs = {}"
  shows "owned h' p as bs"
proof -
  have s: "pbufs h' a = pbufs h a" if "a \<in> set as" for a
    using that d k o packet_dom [of h "Some p" as a] by (auto simp: keeps_def owned_def)
  have l: "load (bytes h') (pb_payload q) (unat (pb_len q)) = load (bytes h) (pb_payload q) (unat (pb_len q))"
    if "a \<in> set as" "pbufs h a = Some q" for a q
    using that d k o by (auto simp: keeps_def owned_def own_chain_def)
  have "packet h' (Some p) as \<and> content h' as = content h as"
    by (rule packet_frame) (use o s l in \<open>auto simp: owned_def\<close>)
  then show ?thesis using o s by (auto simp: owned_def own_chain_def sole_owner_def)
qed

lemma keeps_upd: "keeps h [a] (upd_pbuf h a f)"
  by (simp add: keeps_def)

lemma keeps_put:
  assumes ok: "hp_ok h" and a: "pbufs h a = Some q" "resident q"
    and x: "pb_payload q \<le> x" "x + length cs \<le> pb_payload q + unat (pb_len q)"
  shows "keeps h [a] (set_bytes h x cs)"
  unfolding keeps_def
proof (intro allI impI conjI)
  fix b r assume b: "b \<notin> set [a]" "pbufs h b = Some r"
  show "pbufs (set_bytes h x cs) b = Some r" using b by simp
  assume r: "resident r"
  show "load (bytes (set_bytes h x cs)) (pb_payload r) (unat (pb_len r)) = load (bytes h) (pb_payload r) (unat (pb_len r))"
  proof (rule load_cong)
    fix y assume y: "pb_payload r \<le> y" "y < pb_payload r + unat (pb_len r)"
    have "\<not> (pb_payload q \<le> y \<and> y < pb_payload q + unat (pb_len q))"
      using resident_apart [OF ok b(2) r a _ y] b(1) by auto
    then show "bytes (set_bytes h x cs) y = bytes h y" using x by (auto simp: put_bytes_def)
  qed
qed

text \<open>Writing at \<open>k\<close> in the first buffer of an owned packet.\<close>

lemma owned_st_bytes:
  assumes ok: "hp_ok h" and o: "owned h p as bs" and q: "pbufs h p = Some q"
    and k: "k + length cs \<le> unat (pb_len q)"
  obtains h' where "st_bytes h (pb_payload q + k) cs = Some h'" "hp_ok h'" "keeps h [p] h'" "pbufs h' = pbufs h"
    "blocks h' = blocks h" "owned h' p as (take k bs @ cs @ drop (k + length cs) bs)"
proof -
  obtain as' q' where as: "as = p # as'" and pk: "packet h (Some p) (p # as')" and own: "own_chain h (p # as')"
    and so: "sole_owner h (p # as')" and c: "content h (p # as') = bs" and q': "pbufs h p = Some q'" and r: "resident q'"
    and len: "length (pb_bytes h p) = unat (pb_len q')" using o by (rule ownedD)
  let ?h = "set_bytes h (pb_payload q + k) cs"
  have k': "k + length cs \<le> length (pb_bytes h p)" using k len q q' by simp
  note w = write_one [of h "Some p" "[]" p as' q k cs, simplified append_Nil, OF ok pk own q k']
  have "content ?h (p # as') = take k bs @ cs @ drop (k + length cs) bs" using w k' c [symmetric] by simp
  moreover have "st_bytes h (pb_payload q + k) cs = Some ?h" using w by (simp add: st_bytes_def set_bytes_def)
  moreover have "keeps h [p] ?h" by (rule keeps_put [OF ok q]) (use r q q' k in auto)
  ultimately show thesis using w own so as hp_ok_set_bytes [OF ok]
    by (intro that [of ?h]) (auto simp: owned_def sole_owner_def)
qed

lemma owned_load:
  assumes o: "owned h p as bs" and q: "pbufs h p = Some q" and k: "k + n \<le> unat (pb_len q)"
  shows "load (bytes h) (pb_payload q + k) n = Some (take n (drop k bs))"
proof -
  obtain as' q' where as: "as = p # as'" and pk: "packet h (Some p) (p # as')"
    and c: "content h (p # as') = bs" and q': "pbufs h p = Some q'"
    and len: "length (pb_bytes h p) = unat (pb_len q')" using o by (rule ownedD)
  have ld: "load (bytes h) (pb_payload q) (unat (pb_len q)) = Some (pb_bytes h p)"
    using pk q q' by (auto elim: packet_Cons_D)
  have "take n (drop k (pb_bytes h p)) = take n (drop k bs)" using c [symmetric] len q q' k by simp
  then show ?thesis using load_slice [OF ld k] by simp
qed

lemma owned_length: "owned h p as bs \<Longrightarrow> pbufs h p = Some q \<Longrightarrow> unat (pb_tot_len q) = length bs"
  by (elim ownedD) simp

lemma owned_small: "owned h p as bs \<Longrightarrow> length bs < 65536"
  unfolding owned_def using content_small by blast

lemma owned_distinct: "owned h p as bs \<Longrightarrow> distinct as"
  unfolding owned_def using packet_distinct by blast

lemma owned_len_le: "owned h p as bs \<Longrightarrow> pbufs h p = Some q \<Longrightarrow> unat (pb_len q) \<le> length bs"
  by (elim ownedD) (metis append_eq_conv_conj content.simps(2) length_append le_add1 option.inject)

lemma owned_clen:
  assumes "owned h p as bs"
  shows "pbuf_clen h (Some p) = Some (of_nat (length as))"
  using assms pbuf_clen_loop_packet [of h "Some p" as 0] by (simp add: owned_def pbuf_clen_def)

section \<open>Freeing\<close>

lemma sole_all:
  "packet h p as \<Longrightarrow> sole_owner h as \<Longrightarrow> sole h as = as \<and> kept h as = []"
  by (rule sole_sole) (auto dest: packet_dom)

lemma owned_free:
  assumes ok: "hp_ok h" and o: "owned h p as bs"
  obtains h' n where "pbuf_free h (Some p) = Some (h', n)" "hp_ok h'" "keeps h as h'" "h' = free_set h (set as)"
proof -
  have s: "sole h as = as" "kept h as = []" using sole_all [of h "Some p" as] o by (auto simp: owned_def)
  have "pbuf_free h (Some p) = Some (free_set h (set as), of_nat (length as))"
    using pbuf_free_chain [OF ok packet_chain, of p as] o s by (simp add: owned_def unref_def)
  moreover have "keeps h as (free_set h (set as))"
    unfolding keeps_def using free_frame [OF ok] by auto
  ultimately show thesis using hp_ok_free_set [OF ok] by (intro that) auto
qed

section \<open>Header space\<close>

text \<open>Moving the payload inside the block.\<close>

lemma pbuf_ok_move:
  assumes "pbuf_ok h a q" and "resident q" and "pb_type_internal q' = pb_type_internal q" and "pb_ref q' = pb_ref q"
    and "a + SIZEOF_STRUCT_PBUF \<le> pb_payload q'" and "pb_payload q' + unat (pb_len q') = pb_payload q + unat (pb_len q)"
  shows "pbuf_ok h a q'"
  using assms unfolding pbuf_ok_def resident_def by auto

lemma owned_remove_header:
  assumes ok: "hp_ok h" and o: "owned h p as bs" and q: "pbufs h p = Some q" and n: "n \<le> unat (pb_len q)"
  obtains h' where "pbuf_remove_header h (Some p) n = Some (h', 0)" "hp_ok h'" "keeps h [p] h'" "blocks h' = blocks h"
    "owned h' p as (drop n bs)" "bytes h' = bytes h" "\<And>b. pbufs h' b = None \<longleftrightarrow> pbufs h b = None"
    "pbufs h' p = Some (q\<lparr>pb_payload := pb_payload q + n, pb_len := pb_len q - of_nat n, pb_tot_len := pb_tot_len q - of_nat n\<rparr>)"
proof -
  obtain as' where as: "as = p # as'" and pk: "packet h (Some p) (p # as')" and own: "own_chain h (p # as')"
    and so: "sole_owner h (p # as')" and c: "content h (p # as') = bs" and r: "resident q" and len: "length (pb_bytes h p) = unat (pb_len q)"
    using o q by (elim ownedD) auto
  obtain h' where h': "pbuf_remove_header h (Some p) n = Some (h', 0)" "packet h' (Some p) (p # as')"
      "content h' (p # as') = drop n (content h (p # as'))" "bytes h' = bytes h" "blocks h' = blocks h"
    using pbuf_remove_header_packet [OF pk] n len by auto
  have n16: "n \<le> 65535" using n unat_u16_le [of "pb_len q"] by linarith
  define g :: "pbuf \<Rightarrow> pbuf" where
    "g = (\<lambda>q. q\<lparr>pb_payload := pb_payload q + n, pb_len := pb_len q - of_nat n, pb_tot_len := pb_tot_len q - of_nat n\<rparr>)"
  have un: "unat (of_nat n :: u16) = n" using n16 by (simp add: unat_of_nat_u16)
  have e: "h' = upd_pbuf h p g"
  proof (cases "n = 0")
    case True
    then have "h' = h" using h'(1) q by (simp add: pbuf_remove_header_def)
    moreover have "upd_pbuf h p g = h" using True q by (simp add: g_def upd_pbuf_def fun_upd_idem)
    ultimately show ?thesis by simp
  next
    case False
    then show ?thesis using h'(1) q n16 n un
      by (simp add: pbuf_remove_header_def g_def [abs_def] word_le_nat_alt Let_def)
  qed
  have l: "unat (pb_len q - of_nat n) = unat (pb_len q) - n" using n un by (simp add: unat_sub_le)
  have "hp_ok h'" unfolding e
  proof (rule hp_ok_upd [OF ok])
    fix r assume r': "pbufs h p = Some r"
    then have pb: "pbuf_ok h p r" using ok by (simp add: hp_ok_def)
    show "pbuf_ok h p (g r)"
      by (rule pbuf_ok_move [OF pb]) (use pb r r' q l n in \<open>auto simp: g_def pbuf_ok_def\<close>)
  qed
  moreover have "keeps h [p] h'" unfolding e by (rule keeps_upd)
  moreover have "owned h' p as (drop n bs)"
    using h' own so as c by (auto simp: owned_def own_chain_def sole_owner_def e g_def resident_def plain_def pbuf_get_allocsrc_def split: if_splits)
  ultimately show thesis using h' q by (intro that [of h']) (auto simp: e g_def)
qed

lemma owned_add_header:
  assumes ok: "hp_ok h" and o: "owned h p as bs" and q: "pbufs h p = Some q" and n: "0 < n" "n \<le> 0xFFFF"
  obtains (full) "pbuf_add_header h (Some p) n = Some (h, 1)"
  | (room) h' junk where "pbuf_add_header h (Some p) n = Some (h', 0)" "hp_ok h'" "keeps h [p] h'" "blocks h' = blocks h"
    "length junk = n" "owned h' p as (junk @ bs)" "bytes h' = bytes h" "\<And>b. pbufs h' b = None \<longleftrightarrow> pbufs h b = None"
    "n \<le> pb_payload q" "p + SIZEOF_STRUCT_PBUF + n \<le> pb_payload q" "unat (pb_len q) + n \<le> 0xFFFF"
    "pbufs h' p = Some (q\<lparr>pb_payload := pb_payload q - n, pb_len := pb_len q + of_nat n, pb_tot_len := pb_tot_len q + of_nat n\<rparr>)"
proof -
  obtain as' where as: "as = p # as'" and pk: "packet h (Some p) (p # as')" and own: "own_chain h (p # as')"
    and so: "sole_owner h (p # as')" and c: "content h (p # as') = bs" and r: "resident q" and len: "length (pb_bytes h p) = unat (pb_len q)"
    and tot: "unat (pb_tot_len q) = length bs"
    using o q by (elim ownedD) auto
  define g :: "pbuf \<Rightarrow> pbuf" where
    "g = (\<lambda>q. q\<lparr>pb_payload := pb_payload q - n, pb_len := pb_len q + of_nat n, pb_tot_len := pb_tot_len q + of_nat n\<rparr>)"
  let ?h = "upd_pbuf h p g"
  have r': "pb_type_internal q AND PBUF_TYPE_FLAG_STRUCT_DATA_CONTIGUOUS \<noteq> 0" using r by (simp add: resident_def)
  show thesis
  proof (cases "of_nat n + pb_tot_len q < of_nat n \<or> pb_payload q < p + SIZEOF_STRUCT_PBUF + n")
    case True
    then have "pbuf_add_header h (Some p) n = Some (h, 1)"
      using q n r' by (auto simp: pbuf_add_header_def pbuf_add_header_impl_def Let_def)
    then show thesis by (rule full)
  next
    case False
    have un: "unat (of_nat n :: u16) = n" using n by (simp add: unat_of_nat_u16)
    have small: "n + unat (pb_tot_len q) < 65536" using False un by (intro not_wrapped [of "of_nat n"]) auto
    have pay: "p + SIZEOF_STRUCT_PBUF + n \<le> pb_payload q" using False by simp
    have add: "pbuf_add_header h (Some p) n = Some (?h, 0)"
      using False q n r' by (auto simp: pbuf_add_header_def pbuf_add_header_impl_def Let_def g_def)
    have le: "unat (pb_len q) \<le> unat (pb_tot_len q)" using owned_len_le [OF o q] tot by simp
    have l: "unat (pb_len q + of_nat n) = unat (pb_len q) + n" "unat (pb_tot_len q + of_nat n) = unat (pb_tot_len q) + n"
      using small le un by (simp_all add: unat_add_small)
    have pb: "pbuf_ok h p q" using ok q by (simp add: hp_ok_def)
    then have pb': "pbuf_ok h p (g q)"
      by (rule pbuf_ok_move) (use r q l False in \<open>auto simp: g_def\<close>)
    then have ok': "hp_ok ?h" using q by (intro hp_ok_upd [OF ok]) auto
    obtain bl where bl: "blocks h p = Some bl" "p + SIZEOF_STRUCT_PBUF \<le> pb_payload (g q)" "pb_payload (g q) + unat (pb_len (g q)) \<le> p + bl"
      "\<forall>x. p + SIZEOF_STRUCT_PBUF \<le> x \<and> x < p + bl \<longrightarrow> bytes h x \<noteq> None"
      using pb' r by (auto simp: pbuf_ok_def g_def resident_def)
    have "\<exists>junk. load (bytes h) (pb_payload q - n) n = Some junk"
    proof -
      have "\<exists>y. bytes h (pb_payload q - n + i) = Some y" if "i < n" for i
      proof -
        have "p + SIZEOF_STRUCT_PBUF \<le> pb_payload q - n + i \<and> pb_payload q - n + i < p + bl"
          using bl(3) that pay l by (simp add: g_def) linarith
        with bl(4) show ?thesis by blast
      qed
      then have "\<forall>i<n. bytes h (pb_payload q - n + i) = Some (the (bytes h (pb_payload q - n + i)))"
        by (metis option.sel)
      then show ?thesis
        by (intro exI [of _ "map (\<lambda>i. the (bytes h (pb_payload q - n + i))) [0..<n]"]) (simp add: load_eq_Some)
    qed
    then obtain junk where junk: "load (bytes h) (pb_payload q - n) n = Some junk" by blast
    have ld: "load (bytes h) (pb_payload q) (unat (pb_len q)) = Some (pb_bytes h p)"
      using pk q by (auto elim: packet_Cons_D)
    have ld': "load (bytes ?h) (pb_payload q - n) (unat (pb_len q + of_nat n)) = Some (junk @ pb_bytes h p)"
    proof -
      have e: "pb_payload q - n + n = pb_payload q" using pay by linarith
      have "load (bytes h) (pb_payload q - n) (n + unat (pb_len q)) = Some (junk @ pb_bytes h p)"
        by (rule load_append [OF junk]) (simp only: e ld)
      then show ?thesis using l by (simp add: add.commute)
    qed
    have nx: "packet h (pb_next q) as'" "unat (pb_tot_len q) = unat (pb_len q) + length (content h as')"
      using pk q by (auto elim: packet_Cons_D)
    have fr: "packet ?h (pb_next q) as' \<and> content ?h as' = content h as'"
      by (rule packet_same [OF nx(1)]) (use packet_distinct [OF pk] in auto)
    have gq: "pbufs ?h p = Some (g q)" using q by simp
    have gf: "pb_payload (g q) = pb_payload q - n" "pb_len (g q) = pb_len q + of_nat n"
      "pb_tot_len (g q) = pb_tot_len q + of_nat n" "pb_next (g q) = pb_next q" by (simp_all add: g_def)
    have pb_p: "pb_bytes ?h p = junk @ pb_bytes h p" 
      by (subst pb_bytes_def) (use q ld' in \<open>simp add: gf\<close>)
    have "packet ?h (Some p) (p # as')"
      by (rule packet_ConsI [OF gq, of "junk @ pb_bytes h p"]) (use ld' fr l nx in \<open>simp_all add: gf\<close>)
    moreover have "content ?h (p # as') = junk @ bs" using pb_p fr c [symmetric] by simp
    moreover have "own_chain ?h (p # as')" "sole_owner ?h (p # as')"
      using own so q by (auto simp: own_chain_def sole_owner_def g_def resident_def plain_def pbuf_get_allocsrc_def split: if_splits)
    ultimately have "owned ?h p as (junk @ bs)" by (simp add: owned_def as)
    then show thesis
      using add ok' keeps_upd [of h p g] junk False small le q
      by (intro room [of ?h junk]) (auto simp: g_def load_length)
  qed
qed

section \<open>Concatenation\<close>

text \<open>The link and the total length are all that changes in a buffer.\<close>

lemma cat_fields:
  assumes p: "packet h (Some p) as" and c: "pbuf_cat h (Some p) t = Some h'"
  shows "bytes h' = bytes h \<and> blocks h' = blocks h \<and> (\<forall>b. b \<notin> set as \<longrightarrow> pbufs h' b = pbufs h b) \<and>
    (\<forall>b q. pbufs h b = Some q \<longrightarrow> (\<exists>n l. pbufs h' b = Some (q\<lparr>pb_next := n, pb_tot_len := l\<rparr>)))"
proof -
  obtain as' where as: "as = p # as'" using packet_SomeD [OF p] by auto
  obtain t' tb where t: "t = Some t'" "pbufs h t' = Some tb"
    using c by (cases t) (auto simp: pbuf_cat_def bind_eq_Some_conv)
  have lp: "pbuf_cat_loop h p (pb_tot_len tb) = Some (bump h (set (butlast as)) (pb_tot_len tb), last as)"
    using pbuf_cat_loop_packet [of h p as'] p as by simp
  have "\<exists>T. h' = upd_pbuf (bump h (set (butlast as)) (pb_tot_len tb)) (last as)
      (\<lambda>b. b\<lparr>pb_tot_len := pb_tot_len b + T, pb_next := Some t'\<rparr>)"
    using c t lp by (auto simp: pbuf_cat_def bind_eq_Some_conv)
  then obtain T where h': "h' = upd_pbuf (bump h (set (butlast as)) (pb_tot_len tb)) (last as)
      (\<lambda>b. b\<lparr>pb_tot_len := pb_tot_len b + T, pb_next := Some t'\<rparr>)" ..
  have "\<exists>n l. pbufs h' b = Some (q\<lparr>pb_next := n, pb_tot_len := l\<rparr>)" if "pbufs h b = Some q" for b q
    using that by (cases q) (auto simp: h')
  moreover have "last as \<in> set as" using as by simp
  ultimately show ?thesis using in_set_butlastD [of _ as] by (auto simp: h')
qed

lemma owned_cat:
  assumes ok: "hp_ok h" and o: "owned h p as bs" and t: "owned h t cs ds" and d: "set as \<inter> set cs = {}"
    and small: "length bs + length ds < 65536"
  obtains h' where "pbuf_cat h (Some p) (Some t) = Some h'" "hp_ok h'" "keeps h as h'" "bytes h' = bytes h" "blocks h' = blocks h"
    "owned h' p (as @ cs) (bs @ ds)" "\<And>b. pbufs h' b = None \<longleftrightarrow> pbufs h b = None"
    "\<And>b q. pbufs h b = Some q \<Longrightarrow> \<exists>n l. pbufs h' b = Some (q\<lparr>pb_next := n, pb_tot_len := l\<rparr>)"
proof -
  obtain h' where h': "pbuf_cat h (Some p) (Some t) = Some h'" "packet h' (Some p) (as @ cs)"
      "content h' (as @ cs) = content h as @ content h cs" "bytes h' = bytes h" "blocks h' = blocks h"
    using pbuf_cat_packet [of h p as t cs] o t d small by (auto simp: owned_def)
  have f: "\<forall>b. b \<notin> set as \<longrightarrow> pbufs h' b = pbufs h b"
      "\<And>b q. pbufs h b = Some q \<Longrightarrow> \<exists>n l. pbufs h' b = Some (q\<lparr>pb_next := n, pb_tot_len := l\<rparr>)"
    using cat_fields [OF _ h'(1), of as] o by (auto simp: owned_def)
  have dom: "pbufs h' b = None \<longleftrightarrow> pbufs h b = None" for b
  proof (cases "pbufs h b")
    case None
    then have "b \<notin> set as" using o packet_dom [of h "Some p" as b] by (auto simp: owned_def)
    then show ?thesis using f(1) by auto
  next
    case (Some q)
    then show ?thesis using f(2) [OF Some] by auto
  qed
  have older: "\<exists>q. pbufs h b = Some q \<and> (\<exists>n l. q' = q\<lparr>pb_next := n, pb_tot_len := l\<rparr>)" if "pbufs h' b = Some q'" for b q'
    using f(2) [of b] dom [of b] that by (cases "pbufs h b") auto
  have "hp_ok h'"
    unfolding hp_ok_def
  proof (intro conjI allI impI)
    show "blocks_ok h'" using ok h'(5) by (simp add: hp_ok_def blocks_ok_def)
    fix b q' assume "pbufs h' b = Some q'"
    then obtain q n l where q: "pbufs h b = Some q" "q' = q\<lparr>pb_next := n, pb_tot_len := l\<rparr>" using older by blast
    then have "pbuf_ok h b q" using ok by (simp add: hp_ok_def)
    then show "pbuf_ok h' b q'" unfolding q(2) pbuf_ok_def resident_def h'(4,5) by simp
  qed
  moreover have "keeps h as h'" using f(1) h'(4) by (simp add: keeps_def)
  moreover have "owned h' p (as @ cs) (bs @ ds)"
  proof -
    have *: "(resident q' \<and> plain q') \<and> pb_ref q' = 1" if b: "b \<in> set (as @ cs)" "pbufs h' b = Some q'" for b q'
    proof -
      obtain q n l where q: "pbufs h b = Some q" "q' = q\<lparr>pb_next := n, pb_tot_len := l\<rparr>" using older [OF b(2)] by blast
      have "resident q \<and> plain q \<and> pb_ref q = 1"
        using o t b(1) q(1) unfolding owned_def own_chain_def sole_owner_def by auto
      then show ?thesis unfolding q(2) by (simp add: resident_def plain_def pbuf_get_allocsrc_def)
    qed
    have "own_chain h' (as @ cs)" "sole_owner h' (as @ cs)"
      unfolding own_chain_def sole_owner_def using * by blast+
    then show ?thesis using h' o t by (simp add: owned_def)
  qed
  ultimately show thesis using h'(1,4,5) f(2) dom by (intro that [of h']) blast+
qed

section \<open>Allocation\<close>

lemma owned_alloc:
  assumes "malloc_ok al" and "hp_ok h" and "type = PBUF_RAM \<or> type = PBUF_POOL"
  obtains (none) h' where "pbuf_alloc al h layer len type = Some (h', None)" "hp_ok h'" "keeps h [] h'"
  | (some) h' p as bs where "pbuf_alloc al h layer len type = Some (h', Some p)" "hp_ok h'" "keeps h [] h'"
    "owned h' p as bs" "length bs = unat len" "\<And>a. a \<in> set as \<Longrightarrow> pbufs h a = None"
proof -
  obtain h' r where a: "pbuf_alloc al h layer len type = Some (h', r)" "hp_ok h'" "keeps h [] h'"
      "case r of None \<Rightarrow> \<forall>b. pbufs h b = None \<longrightarrow> pbufs h' b = None | Some p \<Rightarrow> new_packet h h' p (unat len)"
    using pbuf_alloc_spec [OF assms] by blast
  show thesis
  proof (cases r)
    case None
    then show thesis using a by (intro none) auto
  next
    case (Some p)
    then obtain as where "packet h' (Some p) as" "length (content h' as) = unat len" "own_chain h' as" "sole_owner h' as"
        "\<forall>a\<in>set as. pbufs h a = None" using a(4) by (auto simp: new_packet_def)
    then show thesis using a Some by (intro some [of h' p as "content h' as"]) (auto simp: owned_def)
  qed
qed

end
