(* ===== verification/Ip4_ok.thy ===== *)
theory Ip4_ok imports Icmp Pbuf_frame begin

text \<open>
  What the output routines of IPv4 and the ICMP messages do to the buffers: a packet with room is
  given to the interface with its header, and nothing else in the heap changes.
\<close>

lemma pbuf_to_str_packet: "packet h p as \<Longrightarrow> pbuf_to_str h p = Some (content h as)"
proof (induction as arbitrary: p)
  case Nil
  then show ?case by (subst pbuf_to_str.simps) simp
next
  case (Cons a as)
  then show ?case by (subst pbuf_to_str.simps) (auto elim!: packet_Cons_D)
qed

lemma output_cb_owned: "owned (i_hp s) p as bs \<Longrightarrow> output_cb p s = Some (s\<lparr>i_sent := i_sent s @ [bs]\<rparr>, ERR_OK)"
  by (auto simp: output_cb_def owned_def dest: pbuf_to_str_packet)

lemma ip_free_owned:
  assumes "hp_ok (i_hp s)" and "owned (i_hp s) p as bs"
  obtains h' where "ip_free p s = Some (s\<lparr>i_hp := h'\<rparr>)" "hp_ok h'" "keeps (i_hp s) as h'" "h' = free_set (i_hp s) (set as)"
proof -
  obtain h' n where "pbuf_free (i_hp s) (Some p) = Some (h', n)" "hp_ok h'" "keeps (i_hp s) as h'" "h' = free_set (i_hp s) (set as)"
    using owned_free [OF assms] by metis
  then show thesis by (intro that) (auto simp: ip_free_def)
qed

lemma alloc_ram_single:
  "pbuf_alloc al h layer len PBUF_RAM = Some (h', Some p) \<Longrightarrow> \<exists>q. pbufs h' p = Some q \<and> pb_len q = len"
  by (auto simp: pbuf_alloc_def pbuf_alloc_ram_def Let_def bind_eq_Some_conv pbuf_init_alloced_pbuf_def split: if_splits option.splits)

lemma length_out_header [simp]: "length (out_header tos ttl proto len ident src dest) = 20"
  by (simp add: out_header_def)

text \<open>A packet that fits the interface goes out whole.\<close>

definition fits_mtu :: "netif \<Rightarrow> nat \<Rightarrow> bool" where
  "fits_mtu n len \<longleftrightarrow> netif_mtu n = 0 \<or> len \<le> unat (netif_mtu n)"

lemma ip4_transmit_owned:
  assumes o: "owned (i_hp s) p as bs" and f: "fits_mtu n (length bs)"
  shows "ip4_transmit e p n s = Some (s\<lparr>i_sent := i_sent s @ [bs]\<rparr>, ERR_OK)"
proof -
  obtain q where q: "pbufs (i_hp s) p = Some q" "unat (pb_tot_len q) = length bs" using o by (elim ownedD) auto
  then show ?thesis using f output_cb_owned [OF o]
    by (auto simp: ip4_transmit_def fits_mtu_def word_less_nat_alt)
qed

lemma ip4_output_if_src_owned:
  assumes ok: "hp_ok (i_hp s)" and o: "owned (i_hp s) p as bs" and f: "fits_mtu n (20 + length bs)"
  obtains (full) "ip4_output_if_src e p src (Some dest) ttl tos proto n s = Some (s, ERR_BUF)"
  | (sent) h' where "ip4_output_if_src e p src (Some dest) ttl tos proto n s =
      Some (s\<lparr>i_hp := h', ip_id := ip_id s + 1,
              i_sent := i_sent s @ [out_header tos ttl proto (lwip_htons (of_nat (20 + length bs))) (lwip_htons (ip_id s))
                                      (case src of None \<Rightarrow> 0 | Some a \<Rightarrow> a) dest @ bs]\<rparr>, ERR_OK)"
      "hp_ok h'" "keeps (i_hp s) [p] h'"
      "owned h' p as (out_header tos ttl proto (lwip_htons (of_nat (20 + length bs))) (lwip_htons (ip_id s))
                                      (case src of None \<Rightarrow> 0 | Some a \<Rightarrow> a) dest @ bs)"
proof -
  obtain q where q: "pbufs (i_hp s) p = Some q" "pb_ref q = 1" using o by (elim ownedD) auto
  have n: "0 < IP_HLEN" "IP_HLEN \<le> 0xFFFF" by (simp_all add: IP_HLEN_def)
  from ok o q(1) n show thesis
  proof (cases rule: owned_add_header)
    case full
    then show thesis using q by (intro that(1)) (simp add: ip4_output_if_src_def)
  next
    case (room h' junk)
    define b where "b = q\<lparr>pb_payload := pb_payload q - IP_HLEN, pb_len := pb_len q + of_nat IP_HLEN, pb_tot_len := pb_tot_len q + of_nat IP_HLEN\<rparr>"
    have b: "pbufs h' p = Some b" using room by (simp add: b_def)
    have len: "unat (pb_len b) = unat (pb_len q) + IP_HLEN"
      using room by (simp add: b_def unat_add_small unat_of_nat_u16 IP_HLEN_def)
    have tot: "pb_tot_len b = of_nat (20 + length bs)"
    proof -
      have "unat (pb_tot_len b) = 20 + length bs"
        using owned_length [OF room(6) b] room(5) by (simp add: IP_HLEN_def)
      then show ?thesis by (metis of_nat_unat ucast_id)
    qed
    let ?hdr = "out_header tos ttl proto (lwip_htons (of_nat (20 + length bs))) (lwip_htons (ip_id s)) (case src of None \<Rightarrow> 0 | Some a \<Rightarrow> a) dest"
    obtain h2 where h2: "st_bytes h' (pb_payload b + 0) ?hdr = Some h2" "hp_ok h2" "keeps h' [p] h2"
        "owned h2 p as (take 0 (junk @ bs) @ ?hdr @ drop (0 + length ?hdr) (junk @ bs))"
      using owned_st_bytes [OF room(2) room(6) b, of 0 ?hdr] len by (auto simp: IP_HLEN_def)
    have o2: "owned h2 p as (?hdr @ bs)" using h2(4) room(5) by (simp add: IP_HLEN_def)
    have "ip4_transmit e p n (s\<lparr>i_hp := h2, ip_id := ip_id s + 1\<rparr>) =
        Some (s\<lparr>i_hp := h2, ip_id := ip_id s + 1, i_sent := i_sent s @ [?hdr @ bs]\<rparr>, ERR_OK)"
      using ip4_transmit_owned [of "s\<lparr>i_hp := h2, ip_id := ip_id s + 1\<rparr>" p as "?hdr @ bs" n e] o2 f by simp
    then have "ip4_output_if_src e p src (Some dest) ttl tos proto n s =
        Some (s\<lparr>i_hp := h2, ip_id := ip_id s + 1, i_sent := i_sent s @ [?hdr @ bs]\<rparr>, ERR_OK)"
      using q room(1) b len h2(1) by (simp add: ip4_output_if_src_def IP_HLEN_def tot [simplified])
    moreover have "keeps (i_hp s) [p] h2" by (rule keeps_step [OF room(3) h2(3)]) auto
    ultimately show thesis using h2(2) o2 by (intro that(2)) auto
  qed
qed

section \<open>Messages about a packet\<close>

lemma icmp_send_response_owned:
  assumes al: "malloc_ok (ie_alloc e)" and ok: "hp_ok (i_hp s)" and q: "pbufs (i_hp s) p = Some b"
    and o: "owned (i_hp s) p as bs" and len: "28 \<le> unat (pb_len b)"
    and mtu: "\<And>n. ie_netif_default e = Some n \<Longrightarrow> fits_mtu n 56"
  shows "\<exists>h' i out. icmp_send_response e p type code s = Some (s\<lparr>i_hp := h', ip_id := i, i_sent := i_sent s @ out\<rparr>) \<and>
    hp_ok h' \<and> keeps (i_hp s) [] h'"
proof -
  define n where "n = SIZEOF_ICMP_ECHO_HDR + IP_HLEN + ICMP_DEST_UNREACH_DATASIZE"
  have n36: "n = 36" by (simp add: n_def SIZEOF_ICMP_ECHO_HDR_def IP_HLEN_def ICMP_DEST_UNREACH_DATASIZE_def)
  have ram: "PBUF_RAM = PBUF_RAM \<or> PBUF_RAM = PBUF_POOL" by simp
  from al ok ram show ?thesis
  proof (cases rule: owned_alloc [where layer = PBUF_IP and len = "of_nat n"])
    case (none h')
    then show ?thesis
      by (intro exI [of _ h'] exI [of _ "ip_id s"] exI [of _ "[]"]) (simp add: icmp_send_response_def flip: n_def)
  next
    case (some h1 q qs cs)
    obtain qb where qb: "pbufs h1 q = Some qb" "unat (pb_len qb) = 36"
      using alloc_ram_single [OF some(1)] by (auto simp: n36 unat_of_nat_u16)
    have cs: "length cs = 36" using some(5) by (simp add: n36 unat_of_nat_u16)
    have d: "set as \<inter> set qs = {}" using some(6) o packet_dom by (fastforce simp: owned_def)
    have pn: "p \<noteq> q" using d some(4) o by (auto elim!: ownedD)
    obtain h2 where h2: "st_bytes h1 (pb_payload qb + 0) [type, code] = Some h2" "hp_ok h2" "keeps h1 [q] h2" "pbufs h2 = pbufs h1"
        "owned h2 q qs (take 0 cs @ [type, code] @ drop (0 + length [type, code]) cs)"
      using owned_st_bytes [OF some(2,4) qb(1), of 0 "[type, code]"] qb(2) by auto
    obtain cs2 where cs2: "owned h2 q qs cs2" "length cs2 = 36" using h2(5) cs by simp
    have qb2: "pbufs h2 q = Some qb" using h2(4) qb by simp
    obtain h3 where h3: "st_bytes h2 (pb_payload qb + 4) [0, 0, 0, 0] = Some h3" "hp_ok h3" "keeps h2 [q] h3" "pbufs h3 = pbufs h2"
        "owned h3 q qs (take 4 cs2 @ [0, 0, 0, 0] @ drop (4 + length [0, 0, 0, 0 :: u8]) cs2)"
      using owned_st_bytes [OF h2(2) cs2(1) qb2, of 4 "[0, 0, 0, 0]"] qb(2) by auto
    obtain cs3 where cs3: "owned h3 q qs cs3" "length cs3 = 36" using h3(5) cs2(2) by simp
    have qb3: "pbufs h3 q = Some qb" using h3(4) qb2 by simp
    have k3: "keeps (i_hp s) [] h3"
    proof -
      have "keeps (i_hp s) [] h2" by (rule keeps_step [OF some(3) h2(3)]) (use some(4,6) in \<open>auto elim!: ownedD\<close>)
      then show ?thesis by (rule keeps_step [OF _ h3(3)]) (use some(4,6) in \<open>auto elim!: ownedD\<close>)
    qed
    have fresh: "pbufs (i_hp s) q = None" using some(4,6) by (auto elim!: ownedD)
    have o3: "owned h3 p as bs" by (rule owned_keeps [OF o k3]) simp
    have p3: "pbufs h3 p = Some b" using k3 q by (simp add: keeps_def)
    have ld: "load (bytes h3) (pb_payload b) 28 = Some (take 28 bs)"
      using owned_load [OF o3 p3, of 0 28] len by simp
    have l28: "length (take 28 bs) = 28" using owned_len_le [OF o q] len by simp
    obtain h4 where h4: "st_bytes h3 (pb_payload qb + 8) (take 28 bs) = Some h4" "hp_ok h4" "keeps h3 [q] h4" "pbufs h4 = pbufs h3"
        "owned h4 q qs (take 8 cs3 @ take 28 bs @ drop (8 + length (take 28 bs)) cs3)"
      using owned_st_bytes [OF h3(2) cs3(1) qb3, of 8 "take 28 bs"] qb(2) l28 by auto
    obtain cs4 where cs4: "owned h4 q qs cs4" "length cs4 = 36" using h4(5) cs3(2) l28 by simp
    have qb4: "pbufs h4 q = Some qb" using h4(4) qb3 by simp
    have k4: "keeps (i_hp s) [] h4" by (rule keeps_step [OF k3 h4(3)]) (use fresh in auto)
    have run: "icmp_send_response e p type code s =
        Option.bind (case ip4_route e (iph_src (take 28 bs)) of
                  None \<Rightarrow> Some (s\<lparr>i_hp := h4\<rparr>)
                | Some n \<Rightarrow> do {
                    h \<leftarrow> st_u16 h4 (pb_payload qb + 2) 0;
                    msg \<leftarrow> load (bytes h) (pb_payload qb) (unat (pb_len qb));
                    h \<leftarrow> st_u16 h (pb_payload qb + 2) (inet_chksum (ie_chksum e) (pb_payload qb) msg);
                    (s, err) \<leftarrow> ip4_output_if e q None (Some (iph_src (take 28 bs))) ICMP_TTL 0 IP_PROTO_ICMP n (s\<lparr>i_hp := h\<rparr>);
                    Some s }) (ip_free q)"
      using some(1) qb h2(1) h3(1) ld h4(1) k3 q some(3) p3
      by (simp add: icmp_send_response_def Let_def n36 flip: n_def)
        (simp add: keeps_def IP_HLEN_def ICMP_DEST_UNREACH_DATASIZE_def SIZEOF_ICMP_ECHO_HDR_def)
    have fin: "\<exists>h'. ip_free q (s'\<lparr>i_hp := h''\<rparr>) = Some (s'\<lparr>i_hp := h'\<rparr>) \<and> hp_ok h' \<and> keeps (i_hp s) [] h'"
      if "hp_ok h''" "owned h'' q qs ds" "keeps (i_hp s) [] h''" for s' :: "'a ip_st" and h'' ds
    proof -
      have "hp_ok (i_hp (s'\<lparr>i_hp := h''\<rparr>))" "owned (i_hp (s'\<lparr>i_hp := h''\<rparr>)) q qs ds" using that by simp_all
      then obtain h' where h': "ip_free q (s'\<lparr>i_hp := h''\<rparr>) = Some (s'\<lparr>i_hp := h'\<rparr>)" "hp_ok h'" "keeps h'' qs h'"
        by (rule ip_free_owned) simp
      have "keeps (i_hp s) [] h'" by (rule keeps_step [OF that(3) h'(3)]) (use some(6) in auto)
      then show ?thesis using h' by blast
    qed
    show ?thesis
    proof (cases "ip4_route e (iph_src (take 28 bs))")
      case None
      obtain h' where "ip_free q (s\<lparr>i_hp := h4\<rparr>) = Some (s\<lparr>i_hp := h'\<rparr>)" "hp_ok h'" "keeps (i_hp s) [] h'"
        using fin [OF h4(2) cs4(1) k4, of s] by blast
      then show ?thesis using run None
        by (intro exI [of _ h'] exI [of _ "ip_id s"] exI [of _ "[]"]) simp
    next
      case (Some nif)
      have nif: "fits_mtu nif 56" using Some mtu by (auto simp: ip4_route_def split: option.splits if_splits)
      obtain h5 where h5: "st_bytes h4 (pb_payload qb + 2) (u16_bytes 0) = Some h5" "hp_ok h5" "keeps h4 [q] h5" "pbufs h5 = pbufs h4"
          "owned h5 q qs (take 2 cs4 @ u16_bytes 0 @ drop (2 + length (u16_bytes 0)) cs4)"
        using owned_st_bytes [OF h4(2) cs4(1) qb4, of 2 "u16_bytes 0"] qb(2) by auto
      obtain cs5 where cs5: "owned h5 q qs cs5" "length cs5 = 36" using h5(5) cs4(2) by simp
      have qb5: "pbufs h5 q = Some qb" using h5(4) qb4 by simp
      have ld5: "load (bytes h5) (pb_payload qb) 36 = Some cs5"
        using owned_load [OF cs5(1) qb5, of 0 36] qb(2) cs5(2) by simp
      define ck where "ck = inet_chksum (ie_chksum e) (pb_payload qb) cs5"
      obtain h6 where h6: "st_bytes h5 (pb_payload qb + 2) (u16_bytes ck) = Some h6" "hp_ok h6" "keeps h5 [q] h6" "pbufs h6 = pbufs h5"
          "owned h6 q qs (take 2 cs5 @ u16_bytes ck @ drop (2 + length (u16_bytes ck)) cs5)"
        using owned_st_bytes [OF h5(2) cs5(1) qb5, of 2 "u16_bytes ck"] qb(2) by auto
      obtain cs6 where cs6: "owned h6 q qs cs6" "length cs6 = 36" using h6(5) cs5(2) by simp
      have k6: "keeps (i_hp s) [] h6"
      proof -
        have "keeps (i_hp s) [] h5" by (rule keeps_step [OF k4 h5(3)]) (use fresh in auto)
        then show ?thesis by (rule keeps_step [OF _ h6(3)]) (use fresh in auto)
      qed
      let ?s = "s\<lparr>i_hp := h6\<rparr>"
      define src where "src = Some (netif_ip4_addr nif)"
      have run2: "icmp_send_response e p type code s =
          Option.bind (ip4_output_if_src e q src (Some (iph_src (take 28 bs))) ICMP_TTL 0 IP_PROTO_ICMP nif ?s) (\<lambda>(s, err). ip_free q s)"
        unfolding run using Some h5(1) ld5 h6(1) qb(2)
        by (simp add: st_u16_def ip4_output_if_def src_def split_def flip: ck_def)
      have ok6: "hp_ok (i_hp ?s)" "owned (i_hp ?s) q qs cs6" "fits_mtu nif (20 + length cs6)" using h6 cs6 nif by simp_all
      from ok6 show ?thesis
      proof (cases rule: ip4_output_if_src_owned [where e = e and src = src and dest = "iph_src (take 28 bs)" and ttl = ICMP_TTL and tos = 0 and proto = IP_PROTO_ICMP])
        case full
        obtain h' where "ip_free q ?s = Some (s\<lparr>i_hp := h'\<rparr>)" "hp_ok h'" "keeps (i_hp s) [] h'"
          using fin [OF h6(2) cs6(1) k6, of s] by blast
        then show ?thesis using run2 full
          by (intro exI [of _ h'] exI [of _ "ip_id s"] exI [of _ "[]"]) simp
      next
        case (sent h7)
        have k7: "keeps (i_hp s) [] h7" by (rule keeps_step [OF k6]) (use sent(3) fresh in auto)
        obtain out i where out: "ip4_output_if_src e q src (Some (iph_src (take 28 bs))) ICMP_TTL 0 IP_PROTO_ICMP nif ?s =
            Some (s\<lparr>ip_id := i, i_sent := i_sent s @ out\<rparr>\<lparr>i_hp := h7\<rparr>, ERR_OK)"
          by (rule that [of "[out_header 0 ICMP_TTL IP_PROTO_ICMP (lwip_htons (of_nat (20 + length cs6))) (lwip_htons (ip_id s))
                (case src of None \<Rightarrow> 0 | Some a \<Rightarrow> a) (iph_src (take 28 bs)) @ cs6]" "ip_id s + 1"]) (use sent(1) in simp)
        obtain h' where "ip_free q (s\<lparr>ip_id := i, i_sent := i_sent s @ out\<rparr>\<lparr>i_hp := h7\<rparr>) =
            Some (s\<lparr>ip_id := i, i_sent := i_sent s @ out\<rparr>\<lparr>i_hp := h'\<rparr>)" "hp_ok h'" "keeps (i_hp s) [] h'"
          using fin [OF sent(2,4) k7, of "s\<lparr>ip_id := i, i_sent := i_sent s @ out\<rparr>"] by blast
        then show ?thesis using run2 out
          by (intro exI [of _ h'] exI [of _ i] exI [of _ out]) simp
      qed
    qed
  qed
qed

end
