(* ===== verification/Reass_ok.thy ===== *)
theory Reass_ok imports Ip_reass Ip4_ok begin

text \<open>
  Reassembly keeps its queue in order, and what it hands on is the datagram the fragments were cut
  from.
\<close>

section \<open>The chain of a datagram\<close>

text \<open>\<open>frag_chain n fs\<close>: the fragments start at \<open>n\<close> or later, in order and without overlap;
  \<open>contig n fs\<close>: the first starts at \<open>n\<close> and each at the end of the one before.\<close>

fun frag_chain :: "nat \<Rightarrow> reass_frag list \<Rightarrow> bool" where
  "frag_chain n [] \<longleftrightarrow> True"
| "frag_chain n (f # fs) \<longleftrightarrow> n \<le> unat (fr_start f) \<and> fr_start f \<le> fr_end f \<and> frag_chain (unat (fr_end f)) fs"

fun contig :: "nat \<Rightarrow> reass_frag list \<Rightarrow> bool" where
  "contig n [] \<longleftrightarrow> True"
| "contig n (f # fs) \<longleftrightarrow> unat (fr_start f) = n \<and> contig (unat (fr_end f)) fs"

definition prev_end :: "reass_frag option \<Rightarrow> nat" where
  "prev_end p = (case p of None \<Rightarrow> 0 | Some f \<Rightarrow> unat (fr_end f))"

definition up_to :: "reass_frag option \<Rightarrow> reass_frag list \<Rightarrow> bool" where
  "up_to prev fs \<longleftrightarrow> contig (case prev of Some p \<Rightarrow> unat (fr_end p) | None \<Rightarrow> (case fs of [] \<Rightarrow> 0 | f # _ \<Rightarrow> unat (fr_start f))) fs"

text \<open>The place is found, the order kept, and the flag tells whether there is a hole before it.\<close>

lemma chain_insert_ok:
  "frag_chain (prev_end prev) fs \<Longrightarrow> prev_end prev \<le> unat (fr_start f) \<Longrightarrow> fr_start f \<le> fr_end f \<Longrightarrow>
   \<exists>r. chain_insert prev valid f fs = Some r \<and>
     (case r of None \<Rightarrow> True
      | Some (l, v, rest) \<Rightarrow> \<exists>pre. fs = pre @ rest \<and> l = pre @ f # rest \<and> frag_chain (prev_end prev) l \<and>
          (v \<longleftrightarrow> valid \<and> up_to prev (pre @ [f])))"
proof (induction prev valid f fs rule: chain_insert.induct)
  case (1 prev valid f)
  define v where "v = (case prev of Some p \<Rightarrow> valid \<and> fr_end p = fr_start f | None \<Rightarrow> valid)"
  have "chain_insert prev valid f [] = Some (Some ([f], v, []))"
    using 1 by (cases prev) (auto simp: v_def prev_end_def word_le_nat_alt)
  moreover have "v \<longleftrightarrow> valid \<and> up_to prev [f]"
    by (cases prev) (auto simp: v_def up_to_def word_unat_eq_iff)
  ultimately show ?case using 1 by (intro exI [of _ "Some ([f], v, [])"]) auto
next
  case (2 prev valid f q qs)
  show ?case
  proof (cases "fr_start f < fr_start q \<or> fr_start f = fr_start q \<or> fr_start f < fr_end q")
    case True
    then show ?thesis using "2.prems"
      by (auto simp: prev_end_def up_to_def word_le_nat_alt word_less_nat_alt word_unat_eq_iff split: option.splits)
  next
    case False
    define v where "v = (case prev of Some p \<Rightarrow> valid \<and> fr_end p = fr_start q | None \<Rightarrow> valid)"
    have c: "frag_chain (prev_end (Some q)) qs" "prev_end (Some q) \<le> unat (fr_start f)"
      using "2.prems" False by (auto simp: prev_end_def word_le_nat_alt word_less_nat_alt)
    have IH: "\<exists>r. chain_insert (Some q) v f qs = Some r \<and>
       (case r of None \<Rightarrow> True
        | Some (l, v', rest) \<Rightarrow> \<exists>pre. qs = pre @ rest \<and> l = pre @ f # rest \<and> frag_chain (prev_end (Some q)) l \<and>
          (v' \<longleftrightarrow> v \<and> up_to (Some q) (pre @ [f])))"
      unfolding v_def using "2.IH" False c "2.prems"(3) by blast
    then obtain r where r: "chain_insert (Some q) v f qs = Some r"
       "case r of None \<Rightarrow> True
        | Some (l, v', rest) \<Rightarrow> \<exists>pre. qs = pre @ rest \<and> l = pre @ f # rest \<and> frag_chain (prev_end (Some q)) l \<and>
          (v' \<longleftrightarrow> v \<and> up_to (Some q) (pre @ [f]))" by blast
    have e: "chain_insert prev valid f (q # qs) = Some (map_option (\<lambda>(l, v, rest). (q # l, v, rest)) r)"
      using False r(1) by (simp add: v_def)
    show ?thesis
    proof (cases r)
      case None
      then show ?thesis using e by simp
    next
      case (Some x)
      obtain l v' rest where x: "x = (l, v', rest)" by (cases x) auto
      with r(2) Some obtain pre where pre: "qs = pre @ rest" "l = pre @ f # rest" "frag_chain (unat (fr_end q)) l"
          "v' \<longleftrightarrow> v \<and> up_to (Some q) (pre @ [f])" by (auto simp: prev_end_def)
      have "v' \<longleftrightarrow> valid \<and> up_to prev (q # pre @ [f])"
        using pre(4) by (auto simp: v_def up_to_def word_unat_eq_iff split: option.splits)
      then show ?thesis using e Some x pre "2.prems"(1)
        by (intro exI [of _ "map_option (\<lambda>(l, v, rest). (q # l, v, rest)) r"]) (auto intro!: exI [of _ "q # pre"])
    qed
  qed
qed

lemma no_holes_contig: "fst (no_holes f fs) = contig (unat (fr_end f)) fs"
  by (induction f fs rule: no_holes.induct) (auto simp: word_unat_eq_iff)

lemma no_holes_last: "fst (no_holes f fs) \<Longrightarrow> snd (no_holes f fs) = last (f # fs)"
  by (induction f fs rule: no_holes.induct) (auto split: if_splits)

lemma contig_append: "contig n (xs @ f # ys) \<longleftrightarrow> contig n (xs @ [f]) \<and> contig (unat (fr_end f)) ys"
  by (induction xs arbitrary: n) auto

lemma contig_start: "contig n (f # fs) \<Longrightarrow> n = unat (fr_start f)"
  by simp

text \<open>Without a hole the pieces are a stretch of the data.\<close>

lemma contig_data:
  "contig n fs \<Longrightarrow> frag_chain n fs \<Longrightarrow> (\<forall>f\<in>set fs. unat (fr_end f) \<le> length d) \<Longrightarrow> n \<le> length d \<Longrightarrow>
   concat (map (\<lambda>f. take (unat (fr_end f) - unat (fr_start f)) (drop (unat (fr_start f)) d)) fs) =
     take ((if fs = [] then n else unat (fr_end (last fs))) - n) (drop n d) \<and>
   (\<forall>f\<in>set fs. unat (fr_end f) \<le> unat (fr_end (last fs)) \<and> n \<le> unat (fr_end f))"
proof (induction fs arbitrary: n)
  case (Cons f fs)
  define m where "m = unat (fr_end f)"
  have f: "unat (fr_start f) = n" "n \<le> m" "m \<le> length d"
    using Cons.prems by (auto simp: m_def word_le_nat_alt)
  have IH: "concat (map (\<lambda>f. take (unat (fr_end f) - unat (fr_start f)) (drop (unat (fr_start f)) d)) fs) =
     take ((if fs = [] then m else unat (fr_end (last fs))) - m) (drop m d)"
   "\<forall>f\<in>set fs. unat (fr_end f) \<le> unat (fr_end (last fs)) \<and> m \<le> unat (fr_end f)"
    using Cons.IH [of m] Cons.prems f by (auto simp: m_def)
  show ?case
  proof (cases "fs = []")
    case True
    then show ?thesis using f by (simp add: m_def)
  next
    case False
    define z where "z = unat (fr_end (last fs))"
    have z: "m \<le> z" using IH(2) False by (simp add: z_def)
    have "take (m - n) (drop n d) @ take (z - m) (drop m d) = take (z - n) (drop n d)"
      using f z take_add [of "m - n" "z - m" "drop n d"] by simp
    then show ?thesis using IH f False z by (auto simp: m_def z_def)
  qed
qed simp

section \<open>The invariant\<close>

text \<open>Datagrams by source, destination and identification: the protocol and the data.\<close>

type_synonym datagrams = "ip4_addr_t \<times> ip4_addr_t \<times> u16 \<Rightarrow> u8 \<times> u8 list"

definition frag_key :: "u8 list \<Rightarrow> ip4_addr_t \<times> ip4_addr_t \<times> u16" where
  "frag_key hdr = (iph_src hdr, iph_dest hdr, IPH_ID hdr)"

lemma match_key: "IP_ADDRESSES_AND_ID_MATCH a b \<longleftrightarrow> frag_key a = frag_key b"
  by (auto simp: IP_ADDRESSES_AND_ID_MATCH_def frag_key_def)

definition piece :: "u16 \<Rightarrow> u16 \<Rightarrow> u8 list \<Rightarrow> u8 list" where
  "piece a b d = take (unat b - unat a) (drop (unat a) d)"

text \<open>A queued fragment: its buffers \<open>L p\<close> hold the bytes \<open>B p\<close>, a header and its piece of the data.\<close>

definition frag_ok :: "hp \<Rightarrow> (nat \<Rightarrow> nat list) \<Rightarrow> (nat \<Rightarrow> u8 list) \<Rightarrow> u8 list \<Rightarrow> reass_frag \<Rightarrow> bool" where
  "frag_ok h L B d f \<longleftrightarrow> owned h (fr_pbuf f) (L (fr_pbuf f)) (B (fr_pbuf f)) \<and>
     (\<exists>q. pbufs h (fr_pbuf f) = Some q \<and> (if fr_start f = 0 then 28 else 20) \<le> unat (pb_len q)) \<and>
     unat (fr_end f) \<le> length d \<and> drop 20 (B (fr_pbuf f)) = piece (fr_start f) (fr_end f) d"

definition datagram_ok ::
    "hp \<Rightarrow> (nat \<Rightarrow> nat list) \<Rightarrow> (nat \<Rightarrow> u8 list) \<Rightarrow> datagrams \<Rightarrow> reassdata \<Rightarrow> bool" where
  "datagram_ok h L B D r \<longleftrightarrow> (let d = snd (D (frag_key (rd_iphdr r))) in
     frag_chain 0 (rd_frags r) \<and> (\<forall>f\<in>set (rd_frags r). frag_ok h L B d f) \<and> length d \<le> 0xFFFF - 20 \<and>
     length (rd_iphdr r) = 20 \<and> rd_iphdr r ! 0 = 0x45 \<and> IPH_PROTO (rd_iphdr r) = fst (D (frag_key (rd_iphdr r))) \<and>
     (rd_flags r AND IP_REASS_FLAG_LASTFRAG \<noteq> 0 \<longrightarrow> rd_datagram_len r = of_nat (length d) \<and>
        (\<exists>f\<in>set (rd_frags r). fr_start f \<noteq> 0 \<and> unat (fr_end f) = length d)))"

definition queued_bufs :: "reassdata list \<Rightarrow> nat list" where
  "queued_bufs rs = concat (map (\<lambda>r. map fr_pbuf (rd_frags r)) rs)"

lemma queued_bufs_simps [simp]:
  "queued_bufs [] = []" "queued_bufs (r # rs) = map fr_pbuf (rd_frags r) @ queued_bufs rs"
  "queued_bufs (rs @ rs') = queued_bufs rs @ queued_bufs rs'"
  by (simp_all add: queued_bufs_def)

definition reass_inv ::
    "(nat \<Rightarrow> nat list) \<Rightarrow> (nat \<Rightarrow> u8 list) \<Rightarrow> datagrams \<Rightarrow> 'w ip_st \<Rightarrow> bool" where
  "reass_inv L B D s \<longleftrightarrow> hp_ok (i_hp s) \<and>
     (\<forall>r\<in>set (reassdatagrams s). rd_frags r \<noteq> [] \<and> datagram_ok (i_hp s) L B D r) \<and>
     distinct (concat (map L (queued_bufs (reassdatagrams s)))) \<and>
     unat (ip_reass_pbufcount s) = length (concat (map L (queued_bufs (reassdatagrams s)))) \<and>
     unat (ip_reass_pbufcount s) \<le> IP_REASS_MAX_PBUFS"

lemma frag_ok_keeps:
  assumes "frag_ok h L B d f" and k: "keeps h zs h'" and "set (L (fr_pbuf f)) \<inter> set zs = {}"
  shows "frag_ok h' L B d f"
proof -
  have o: "owned h (fr_pbuf f) (L (fr_pbuf f)) (B (fr_pbuf f))" using assms(1) by (simp add: frag_ok_def)
  then have "fr_pbuf f \<in> set (L (fr_pbuf f))" by (elim ownedD) simp
  then have "fr_pbuf f \<notin> set zs" using assms(3) by blast
  then show ?thesis using assms(1) owned_keeps [OF o k assms(3)] k
    by (auto simp: frag_ok_def keeps_def)
qed

lemma datagram_ok_keeps:
  assumes d: "datagram_ok h L B D r" and k: "keeps h zs h'"
    and z: "set (concat (map L (map fr_pbuf (rd_frags r)))) \<inter> set zs = {}"
  shows "datagram_ok h' L B D r"
proof -
  have "frag_ok h' L B d f" if "f \<in> set (rd_frags r)" "frag_ok h L B d f" for d f
    by (rule frag_ok_keeps [OF that(2) k]) (use z that(1) in auto)
  then show ?thesis using d unfolding datagram_ok_def Let_def by blast
qed

text \<open>Only the fields the invariant speaks of count.\<close>

lemma reass_inv_fields:
  assumes i: "reass_inv L B D s" and k: "keeps (i_hp s) zs h'" and ok: "hp_ok h'"
    and z: "set (concat (map L (queued_bufs (reassdatagrams s)))) \<inter> set zs = {}"
    and s': "i_hp s' = h'" "reassdatagrams s' = reassdatagrams s" "ip_reass_pbufcount s' = ip_reass_pbufcount s"
  shows "reass_inv L B D s'"
proof -
  have "datagram_ok h' L B D r" if r: "r \<in> set (reassdatagrams s)" for r
  proof (rule datagram_ok_keeps [OF _ k])
    show "datagram_ok (i_hp s) L B D r" using i r by (simp add: reass_inv_def)
    obtain xs ys where "reassdatagrams s = xs @ r # ys" using r by (meson split_list)
    then show "set (concat (map L (map fr_pbuf (rd_frags r)))) \<inter> set zs = {}" using z by auto
  qed
  then show ?thesis using i ok s' by (simp add: reass_inv_def)
qed

section \<open>Freeing datagrams\<close>

lemma free_frags_ok:
  assumes "hp_ok (i_hp s)" and "\<forall>f\<in>set fs. owned (i_hp s) (fr_pbuf f) (L (fr_pbuf f)) (B (fr_pbuf f))"
    and "distinct (concat (map L (map fr_pbuf fs)))"
    and "unat n + length (concat (map L (map fr_pbuf fs))) \<le> 0xffff"
  shows "\<exists>h'. free_frags fs n s = Some (s\<lparr>i_hp := h'\<rparr>, n + of_nat (length (concat (map L (map fr_pbuf fs))))) \<and> hp_ok h' \<and>
    keeps (i_hp s) (concat (map L (map fr_pbuf fs))) h'"
  using assms
proof (induction fs arbitrary: n s)
  case Nil
  then show ?case by (intro exI [of _ "i_hp s"]) simp
next
  case (Cons f fs)
  let ?p = "fr_pbuf f"
  let ?l = "length (L ?p)"
  have o: "owned (i_hp s) ?p (L ?p) (B ?p)" using Cons.prems by simp
  have l: "?l \<le> 0xffff" using Cons.prems(4) by simp
  have cl: "unat (of_nat ?l :: u16) = ?l" using l by (simp add: unat_of_nat_u16)
  obtain h1 where h1: "ip_free ?p s = Some (s\<lparr>i_hp := h1\<rparr>)" "hp_ok h1" "keeps (i_hp s) (L ?p) h1"
    using ip_free_owned [OF Cons.prems(1) o] by metis
  have n: "unat (n + of_nat ?l) = unat n + ?l" using Cons.prems(4) cl by (simp add: unat_add_small)
  have "owned h1 (fr_pbuf g) (L (fr_pbuf g)) (B (fr_pbuf g))" if "g \<in> set fs" for g
    by (rule owned_keeps [OF _ h1(3)]) (use Cons.prems(2,3) that in auto)
  then have "\<exists>h'. free_frags fs (n + of_nat ?l) (s\<lparr>i_hp := h1\<rparr>) =
      Some (s\<lparr>i_hp := h1\<rparr>\<lparr>i_hp := h'\<rparr>, (n + of_nat ?l) + of_nat (length (concat (map L (map fr_pbuf fs))))) \<and> hp_ok h' \<and>
      keeps (i_hp (s\<lparr>i_hp := h1\<rparr>)) (concat (map L (map fr_pbuf fs))) h'"
    by (intro Cons.IH) (use Cons.prems n h1 in auto)
  then obtain h' where h': "free_frags fs (n + of_nat ?l) (s\<lparr>i_hp := h1\<rparr>) =
      Some (s\<lparr>i_hp := h'\<rparr>, (n + of_nat ?l) + of_nat (length (concat (map L (map fr_pbuf fs)))))" "hp_ok h'"
      "keeps h1 (concat (map L (map fr_pbuf fs))) h'" by auto
  have "keeps (i_hp s) (concat (map L (map fr_pbuf (f # fs)))) h'"
    by (rule keeps_step [OF keeps_more [OF h1(3)] h'(3)]) auto
  moreover have "free_frags (f # fs) n s = Some (s\<lparr>i_hp := h'\<rparr>, n + of_nat (length (concat (map L (map fr_pbuf (f # fs))))))"
    using h1(1) h'(1) owned_clen [OF o] Cons.prems(4) cl by (simp add: add.assoc)
  ultimately show ?case using h'(2) by blast
qed

text \<open>What the environment has to keep: the allocator's promise, an interface that takes an ICMP message.\<close>

definition env_ok :: "'w ip_env \<Rightarrow> bool" where
  "env_ok e \<longleftrightarrow> malloc_ok (ie_alloc e) \<and> (\<forall>n. ie_netif_default e = Some n \<longrightarrow> fits_mtu n 56)"

lemma free_datagram_ok:
  assumes e: "env_ok e" and i: "reass_inv L B D s" and rs: "reassdatagrams s = pre @ r # post"
  shows "\<exists>s' n. ip_reass_free_complete_datagram e (length pre) s = Some (s', n) \<and> reass_inv L B D s' \<and>
    reassdatagrams s' = pre @ post \<and> keeps (i_hp s) (concat (map L (map fr_pbuf (rd_frags r)))) (i_hp s') \<and>
    unat n = length (concat (map L (map fr_pbuf (rd_frags r)))) \<and> i_world s' = i_world s"
proof -
  let ?all = "concat (map L (map fr_pbuf (rd_frags r)))"
  have ok: "hp_ok (i_hp s)" and dr: "datagram_ok (i_hp s) L B D r" and ne: "rd_frags r \<noteq> []"
    and dist: "distinct (concat (map L (queued_bufs (reassdatagrams s))))"
    and cnt: "unat (ip_reass_pbufcount s) = length (concat (map L (queued_bufs (reassdatagrams s))))"
    and ten: "unat (ip_reass_pbufcount s) \<le> 10"
    using i rs by (auto simp: reass_inv_def IP_REASS_MAX_PBUFS_def)
  obtain f fs where fs: "rd_frags r = f # fs" using ne by (cases "rd_frags r") auto
  let ?p = "fr_pbuf f"
  have fo: "\<forall>g\<in>set (f # fs). owned (i_hp s) (fr_pbuf g) (L (fr_pbuf g)) (B (fr_pbuf g))"
    using dr fs by (auto simp: datagram_ok_def Let_def frag_ok_def)
  then have o: "owned (i_hp s) ?p (L ?p) (B ?p)" by simp
  have d': "distinct (concat (map L (map fr_pbuf (f # fs))))" using dist rs fs by auto
  have small: "length ?all \<le> unat (ip_reass_pbufcount s)" using cnt rs by simp
  have nth: "reassdatagrams s ! length pre = r" using rs by simp
  obtain s1 h1 frags freed where one: "(if fr_start f = 0 then do {
               let p = fr_pbuf f;
               let s = s\<lparr>reassdatagrams := (reassdatagrams s)[length pre := r\<lparr>rd_frags := fs\<rparr>]\<rparr>;
               b \<leftarrow> pbufs (i_hp s) p;
               h \<leftarrow> st_bytes (i_hp s) (pb_payload b) (rd_iphdr r);
               s \<leftarrow> icmp_time_exceeded e p ICMP_TE_FRAG (s\<lparr>i_hp := h\<rparr>);
               clen \<leftarrow> pbuf_clen (i_hp s) (Some p);
               s \<leftarrow> ip_free p s;
               Some (s, fs, clen) }
             else Some (s, f # fs, 0)) = Some (s1, frags, freed)"
      "i_hp s1 = h1" "hp_ok h1" "keeps (i_hp s) (if fr_start f = 0 then L ?p else []) h1"
      "\<exists>r'. reassdatagrams s1 = pre @ r' # post" "ip_reass_pbufcount s1 = ip_reass_pbufcount s" "i_world s1 = i_world s"
      "frags = (if fr_start f = 0 then fs else f # fs)" "freed = (if fr_start f = 0 then of_nat (length (L ?p)) else 0)"
  proof (cases "fr_start f = 0")
    case False
    show thesis by (rule that [of s "f # fs" 0 "i_hp s"]) (use False ok rs in simp_all)
  next
    case True
    have fk: "frag_ok (i_hp s) L B (snd (D (frag_key (rd_iphdr r)))) f"
      using dr fs unfolding datagram_ok_def Let_def by simp
    then obtain q where q: "pbufs (i_hp s) ?p = Some q" "28 \<le> unat (pb_len q)"
      using True unfolding frag_ok_def by auto
    have hl: "length (rd_iphdr r) = 20" using dr by (simp add: datagram_ok_def Let_def)
    obtain h2 where h2: "st_bytes (i_hp s) (pb_payload q) (rd_iphdr r) = Some h2" "hp_ok h2" "keeps (i_hp s) [?p] h2"
        "pbufs h2 = pbufs (i_hp s)" "owned h2 ?p (L ?p) (rd_iphdr r @ drop 20 (B ?p))"
      using owned_st_bytes [OF ok o q(1), of 0 "rd_iphdr r"] q(2) hl by auto
    define bs2 where "bs2 = rd_iphdr r @ drop 20 (B ?p)"
    note h2 = h2 [folded bs2_def]
    define s2 where "s2 = s\<lparr>reassdatagrams := (reassdatagrams s)[length pre := r\<lparr>rd_frags := fs\<rparr>], i_hp := h2\<rparr>"
    obtain h3 j out where h3: "icmp_send_response e ?p ICMP_TE ICMP_TE_FRAG s2 = Some (s2\<lparr>i_hp := h3, ip_id := j, i_sent := i_sent s2 @ out\<rparr>)"
        "hp_ok h3" "keeps h2 [] h3"
      using icmp_send_response_owned [of e s2 ?p q "L ?p" bs2 ICMP_TE ICMP_TE_FRAG] e h2 q by (auto simp: s2_def env_ok_def)
    have o3: "owned h3 ?p (L ?p) bs2" by (rule owned_keeps [OF h2(5) h3(3)]) simp
    define s3 where "s3 = s2\<lparr>i_hp := h3, ip_id := j, i_sent := i_sent s2 @ out\<rparr>"
    have "hp_ok (i_hp s3)" "owned (i_hp s3) ?p (L ?p) bs2" using h3 o3 by (simp_all add: s3_def)
    then obtain h4 where h4: "ip_free ?p s3 = Some (s3\<lparr>i_hp := h4\<rparr>)" "hp_ok h4" "keeps h3 (L ?p) h4"
      by (rule ip_free_owned) (simp add: s3_def)
    have pL: "?p \<in> set (L ?p)" using o by (elim ownedD) simp
    have k: "keeps (i_hp s) (L ?p) h4"
    proof -
      have "keeps (i_hp s) (L ?p) h2" by (rule keeps_more [OF h2(3)]) (use pL in simp)
      then have "keeps (i_hp s) (L ?p) h3" by (rule keeps_step [OF _ h3(3)]) simp
      then show ?thesis by (rule keeps_step [OF _ h4(3)]) simp
    qed
    show thesis
    proof (rule that [of "s3\<lparr>i_hp := h4\<rparr>" fs "of_nat (length (L ?p))" h4])
      show "\<exists>r'. reassdatagrams (s3\<lparr>i_hp := h4\<rparr>) = pre @ r' # post" using rs by (simp add: s3_def s2_def)
      show "(if fr_start f = 0 then do {
               let p = fr_pbuf f;
               let s = s\<lparr>reassdatagrams := (reassdatagrams s)[length pre := r\<lparr>rd_frags := fs\<rparr>]\<rparr>;
               b \<leftarrow> pbufs (i_hp s) p;
               h \<leftarrow> st_bytes (i_hp s) (pb_payload b) (rd_iphdr r);
               s \<leftarrow> icmp_time_exceeded e p ICMP_TE_FRAG (s\<lparr>i_hp := h\<rparr>);
               clen \<leftarrow> pbuf_clen (i_hp s) (Some p);
               s \<leftarrow> ip_free p s;
               Some (s, fs, clen) }
             else Some (s, f # fs, 0)) = Some (s3\<lparr>i_hp := h4\<rparr>, fs, of_nat (length (L ?p)))"
        using True q h2(1) h3(1) owned_clen [OF o3] h4(1) by (simp add: icmp_time_exceeded_def s2_def s3_def)
    qed (use True k h4 in \<open>simp_all add: s3_def s2_def\<close>)
  qed
  define rest where "rest = concat (map L (map fr_pbuf frags))"
  have part: "?all = (if fr_start f = 0 then L ?p else []) @ rest" using one(8) fs by (simp add: rest_def)
  have un: "unat freed = length (if fr_start f = 0 then L ?p else [])"
    using one(9) small ten fs by (simp add: unat_of_nat_u16)
  have "owned h1 (fr_pbuf g) (L (fr_pbuf g)) (B (fr_pbuf g))" if g: "g \<in> set frags" for g
    by (rule owned_keeps [OF _ one(4)]) (use fo d' g one(8) in \<open>auto split: if_splits\<close>)
  then have "\<exists>h'. free_frags frags freed s1 = Some (s1\<lparr>i_hp := h'\<rparr>, freed + of_nat (length rest)) \<and> hp_ok h' \<and>
      keeps (i_hp s1) rest h'"
    unfolding rest_def by (intro free_frags_ok [where B = B]) (use one d' un part small ten in \<open>auto simp: rest_def split: if_splits\<close>)
  then obtain h' where h': "free_frags frags freed s1 = Some (s1\<lparr>i_hp := h'\<rparr>, freed + of_nat (length rest))" "hp_ok h'"
      "keeps h1 rest h'" using one(2) by auto
  have tot: "unat (freed + of_nat (length rest)) = length ?all"
    using un part small ten by (simp add: unat_add_small unat_of_nat_u16)
  define s' where "s' = s1\<lparr>i_hp := h', reassdatagrams := pre @ post, ip_reass_pbufcount := ip_reass_pbufcount s - (freed + of_nat (length rest))\<rparr>"
  have ge: "ip_reass_pbufcount s \<ge> freed + of_nat (length rest)" using tot small by (simp add: word_le_nat_alt)
  have run: "ip_reass_free_complete_datagram e (length pre) s = Some (s', freed + of_nat (length rest))"
    using one(1,5,6) nth fs h'(1) ge
    by (auto simp: ip_reass_free_complete_datagram_def ip_reass_dequeue_datagram_def s'_def Let_def)
  have k: "keeps (i_hp s) ?all h'"
    unfolding part by (rule keeps_step [OF keeps_more [OF one(4)] h'(3)]) auto
  have "datagram_ok h' L B D x" if x: "x \<in> set (pre @ post)" for x
  proof (rule datagram_ok_keeps [OF _ k])
    show "datagram_ok (i_hp s) L B D x" using i rs x by (auto simp: reass_inv_def)
    show "set (concat (map L (map fr_pbuf (rd_frags x)))) \<inter> set ?all = {}"
      using dist x unfolding rs by (auto simp: queued_bufs_def) blast+
  qed
  then have "reass_inv L B D s'"
    using i h'(2) dist cnt ten tot ge rs
    by (auto simp: reass_inv_def s'_def unat_sub_le IP_REASS_MAX_PBUFS_def)
  then show ?thesis using run k tot one(7) by (intro exI [of _ s'] exI [of _ "freed + of_nat (length rest)"]) (simp add: s'_def)
qed

text \<open>What the queue may lose: datagrams; no other buffer changes.\<close>

definition shrinks :: "(nat \<Rightarrow> nat list) \<Rightarrow> 'w ip_st \<Rightarrow> 'w ip_st \<Rightarrow> bool" where
  "shrinks L s s' \<longleftrightarrow> set (queued_bufs (reassdatagrams s')) \<subseteq> set (queued_bufs (reassdatagrams s)) \<and>
     keeps (i_hp s) (concat (map L (queued_bufs (reassdatagrams s)))) (i_hp s') \<and> i_world s' = i_world s"

lemma shrinks_refl [simp]: "shrinks L s s"
  by (simp add: shrinks_def)

lemma shrinks_trans:
  assumes a: "shrinks L s s1" and b: "shrinks L s1 s2"
  shows "shrinks L s s2"
proof -
  define A1 where "A1 = concat (map L (queued_bufs (reassdatagrams s1)))"
  define A where "A = concat (map L (queued_bufs (reassdatagrams s)))"
  have "set A1 \<subseteq> set A" using a unfolding A1_def A_def shrinks_def by auto
  moreover have "keeps (i_hp s) A (i_hp s1)" "keeps (i_hp s1) A1 (i_hp s2)"
    using a b unfolding A1_def A_def shrinks_def by blast+
  ultimately have "keeps (i_hp s) A (i_hp s2)" using keeps_step by blast
  then show ?thesis using a b unfolding A_def shrinks_def by auto
qed

lemma free_datagram_shrinks:
  assumes "env_ok e" and "reass_inv L B D s" and i: "i < length (reassdatagrams s)"
  shows "\<exists>s' n. ip_reass_free_complete_datagram e i s = Some (s', n) \<and> reass_inv L B D s' \<and> shrinks L s s' \<and>
    reassdatagrams s' = take i (reassdatagrams s) @ drop (Suc i) (reassdatagrams s)"
proof -
  let ?rs = "reassdatagrams s"
  have rs: "?rs = take i ?rs @ (?rs ! i) # drop (Suc i) ?rs" using i by (rule id_take_nth_drop)
  obtain s' n where f: "ip_reass_free_complete_datagram e (length (take i ?rs)) s = Some (s', n)" "reass_inv L B D s'"
      "reassdatagrams s' = take i ?rs @ drop (Suc i) ?rs"
      "keeps (i_hp s) (concat (map L (map fr_pbuf (rd_frags (?rs ! i))))) (i_hp s')" "i_world s' = i_world s"
    using free_datagram_ok [OF assms(1,2) rs] by blast
  have q: "queued_bufs ?rs = queued_bufs (take i ?rs) @ map fr_pbuf (rd_frags (?rs ! i)) @ queued_bufs (drop (Suc i) ?rs)"
    by (subst rs) simp
  have "shrinks L s s'"
    unfolding shrinks_def q by (intro conjI keeps_more [OF f(4)]) (use f in auto)
  then show ?thesis using f i by (intro exI [of _ s'] exI [of _ n]) simp
qed

section \<open>The timer\<close>

lemma reass_inv_replace:
  assumes "reass_inv L B D s" and "reassdatagrams s = pre @ r # post" and "rd_frags r' = rd_frags r"
    and "datagram_ok (i_hp s) L B D r'"
  shows "reass_inv L B D (s\<lparr>reassdatagrams := pre @ r' # post\<rparr>)"
  using assms by (auto simp: reass_inv_def)

lemma datagram_ok_timer [simp]: "datagram_ok h L B D (r\<lparr>rd_timer := t\<rparr>) = datagram_ok h L B D r"
  by (simp add: datagram_ok_def)

lemma tmr_from_ok:
  "env_ok e \<Longrightarrow> reass_inv L B D s \<Longrightarrow> \<exists>s'. ip_reass_tmr_from e i s = Some s' \<and> reass_inv L B D s' \<and> shrinks L s s'"
proof (induction "length (reassdatagrams s) - i" arbitrary: i s)
  case 0
  then show ?case by (subst ip_reass_tmr_from.simps) (auto intro!: exI [of _ s])
next
  case (Suc k)
  let ?rs = "reassdatagrams s"
  have i: "i < length ?rs" using Suc.hyps(2) by linarith
  have rs: "?rs = take i ?rs @ (?rs ! i) # drop (Suc i) ?rs" using i by (rule id_take_nth_drop)
  show ?case
  proof (cases "rd_timer (?rs ! i) > 0")
    case True
    let ?r = "(?rs ! i)\<lparr>rd_timer := rd_timer (?rs ! i) - 1\<rparr>"
    define s1 where "s1 = s\<lparr>reassdatagrams := take i ?rs @ ?r # drop (Suc i) ?rs\<rparr>"
    have u: "?rs[i := ?r] = take i ?rs @ ?r # drop (Suc i) ?rs" using i by (rule upd_conv_take_nth_drop)
    have "?rs ! i \<in> set ?rs" using i by simp
    then have ok: "datagram_ok (i_hp s) L B D ?r" using Suc.prems(2) by (simp add: reass_inv_def)
    have i1: "reass_inv L B D s1" unfolding s1_def
      by (rule reass_inv_replace [OF Suc.prems(2) rs _ ok]) simp
    have "k = length (reassdatagrams s1) - Suc i" using Suc.hyps(2) i by (simp add: s1_def)
    then obtain s' where s': "ip_reass_tmr_from e (Suc i) s1 = Some s'" "reass_inv L B D s'" "shrinks L s1 s'"
      using Suc.hyps(1) [of s1 "Suc i"] Suc.prems(1) i1 by blast
    have q: "queued_bufs (reassdatagrams s1) = queued_bufs ?rs"
      by (subst rs) (simp add: s1_def)
    have "shrinks L s s'" using s'(3) by (simp add: shrinks_def q) (simp add: s1_def)
    moreover have "ip_reass_tmr_from e i s = Some s'"
      using s'(1) True i by (subst ip_reass_tmr_from.simps) (simp add: s1_def u)
    ultimately show ?thesis using s'(2) by blast
  next
    case False
    obtain s1 n where s1: "ip_reass_free_complete_datagram e i s = Some (s1, n)" "reass_inv L B D s1" "shrinks L s s1"
        "reassdatagrams s1 = take i ?rs @ drop (Suc i) ?rs"
      using free_datagram_shrinks [OF Suc.prems i] by blast
    have "k = length (reassdatagrams s1) - i" using Suc.hyps(2) i s1(4) by simp
    then obtain s' where s': "ip_reass_tmr_from e i s1 = Some s'" "reass_inv L B D s'" "shrinks L s1 s'"
      using Suc.hyps(1) [of s1 i] Suc.prems(1) s1(2) by blast
    have "ip_reass_tmr_from e i s = Some s'"
      using s'(1) s1(1) False i by (subst ip_reass_tmr_from.simps) simp
    then show ?thesis using s'(2) shrinks_trans [OF s1(3) s'(3)] by blast
  qed
qed

section \<open>Making room\<close>

lemma find_oldest_index:
  "find_oldest hdr i rs old n = (found, m) \<Longrightarrow>
   (case found of
      None \<Rightarrow> old = None \<and> m = n
    | Some (j, t) \<Rightarrow> old = Some (j, t) \<or> j < i + length rs)"
proof (induction hdr i rs old n rule: find_oldest.induct)
  case (2 hdr i r rs old n)
  then show ?case by (fastforce split: if_splits option.splits)
qed (simp split: option.splits)

lemma remove_oldest_ok:
  "env_ok e \<Longrightarrow> reass_inv L B D s \<Longrightarrow>
   \<exists>s' n. remove_oldest_loop e hdr need freed s = Some (s', n) \<and> reass_inv L B D s' \<and> shrinks L s s'"
proof (induction "length (reassdatagrams s)" arbitrary: s freed rule: less_induct)
  case less
  obtain found m where f: "find_oldest hdr 0 (reassdatagrams s) None 0 = (found, m)" by (cases "find_oldest hdr 0 (reassdatagrams s) None 0") auto
  show ?case
  proof (cases found)
    case None
    then have "m = 0" using find_oldest_index [OF f] by simp
    then show ?thesis using f None less.prems(2)
      by (subst remove_oldest_loop.simps) (auto intro!: exI [of _ s])
  next
    case (Some x)
    then obtain i t where x: "found = Some (i, t)" by (cases x) auto
    have i: "i < length (reassdatagrams s)" using find_oldest_index [OF f] x by simp
    obtain s1 k where s1: "ip_reass_free_complete_datagram e i s = Some (s1, k)" "reass_inv L B D s1" "shrinks L s s1"
        "reassdatagrams s1 = take i (reassdatagrams s) @ drop (Suc i) (reassdatagrams s)"
      using free_datagram_shrinks [OF less.prems i] by blast
    let ?freed = "freed + int (unat k)"
    show ?thesis
    proof (cases "?freed < need \<and> m > 1")
      case True
      have "length (reassdatagrams s1) < length (reassdatagrams s)" using s1(4) i by simp
      then obtain s' n where s': "remove_oldest_loop e hdr need ?freed s1 = Some (s', n)" "reass_inv L B D s'" "shrinks L s1 s'"
        using less.hyps less.prems(1) s1(2) by blast
      have "remove_oldest_loop e hdr need freed s = Some (s', n)"
        using f x s1(1) True s'(1) by (subst remove_oldest_loop.simps) simp
      then show ?thesis using s'(2) shrinks_trans [OF s1(3) s'(3)] by blast
    next
      case False
      then have "remove_oldest_loop e hdr need freed s = Some (s1, ?freed)"
        using f x s1(1) by (subst remove_oldest_loop.simps) auto
      then show ?thesis using s1(2,3) by blast
    qed
  qed
qed

section \<open>Joining\<close>

lemma join_frags_ok:
  assumes "hp_ok h" and "owned h p as bs" and "\<forall>f\<in>set fs. frag_ok h L B d f"
    and "distinct (as @ concat (map L (map fr_pbuf fs)))"
    and "length bs + length (concat (map (\<lambda>f. piece (fr_start f) (fr_end f) d) fs)) < 65536"
  shows "\<exists>h'. join_frags p fs h = Some h' \<and> hp_ok h' \<and>
    owned h' p (as @ concat (map L (map fr_pbuf fs))) (bs @ concat (map (\<lambda>f. piece (fr_start f) (fr_end f) d) fs)) \<and>
    keeps h (as @ concat (map L (map fr_pbuf fs))) h'"
  using assms
proof (induction fs arbitrary: h as bs)
  case Nil
  then show ?case by simp
next
  case (Cons f fs)
  let ?r = "fr_pbuf f" and ?pc = "piece (fr_start f) (fr_end f) d"
  have fo: "frag_ok h L B d f" using Cons.prems(3) by simp
  then obtain q where q: "pbufs h ?r = Some q" "20 \<le> unat (pb_len q)" "owned h ?r (L ?r) (B ?r)" "drop 20 (B ?r) = ?pc"
    unfolding frag_ok_def by (auto split: if_splits)
  have rL: "?r \<in> set (L ?r)" using q(3) by (elim ownedD) simp
  obtain h1 where h1: "pbuf_remove_header h (Some ?r) 20 = Some (h1, 0)" "hp_ok h1" "keeps h [?r] h1" "owned h1 ?r (L ?r) ?pc"
    using owned_remove_header [OF Cons.prems(1) q(3,1), of 20] q(2,4) by metis
  have o1: "owned h1 p as bs" by (rule owned_keeps [OF Cons.prems(2) h1(3)]) (use Cons.prems(4) rL in auto)
  have dj: "set as \<inter> set (L ?r) = {}" using Cons.prems(4) by auto
  have sm: "length bs + length ?pc < 65536" using Cons.prems(5) by simp
  obtain h2 where h2: "pbuf_cat h1 (Some p) (Some ?r) = Some h2" "hp_ok h2" "keeps h1 as h2" "owned h2 p (as @ L ?r) (bs @ ?pc)"
    using owned_cat [OF h1(2) o1 h1(4) dj sm] by metis
  have k2: "keeps h (as @ L ?r) h2"
    by (rule keeps_step [OF keeps_more [OF h1(3)] h2(3)]) (use rL in auto)
  have "frag_ok h2 L B d g" if g: "g \<in> set fs" for g
  proof (rule frag_ok_keeps [OF _ k2])
    show "frag_ok h L B d g" using Cons.prems(3) g by simp
    have "set (L (fr_pbuf g)) \<subseteq> set (concat (map L (map fr_pbuf fs)))" using g by auto
    then show "set (L (fr_pbuf g)) \<inter> set (as @ L ?r) = {}" using Cons.prems(4) by (simp only: list.map concat.simps distinct_append set_append) blast
  qed
  then obtain h' where h': "join_frags p fs h2 = Some h'" "hp_ok h'"
    "owned h' p ((as @ L ?r) @ concat (map L (map fr_pbuf fs))) ((bs @ ?pc) @ concat (map (\<lambda>f. piece (fr_start f) (fr_end f) d) fs))"
    "keeps h2 ((as @ L ?r) @ concat (map L (map fr_pbuf fs))) h'"
    using Cons.IH [OF h2(2,4)] Cons.prems(4,5) by auto
  have "keeps h (as @ concat (map L (map fr_pbuf (f # fs)))) h'"
    by (rule keeps_step [OF keeps_more [OF k2] h'(4)]) auto
  then show ?case using h' h1(1) h2(1) by (simp add: IP_HLEN_def)
qed

text \<open>The header of the whole datagram.\<close>

definition whole_header :: "u8 list \<Rightarrow> u16 \<Rightarrow> u16 \<Rightarrow> u8 list" where
  "whole_header iphdr len c =
     take 2 iphdr @ u16_bytes (lwip_htons len) @ take 2 (drop 4 iphdr) @ u16_bytes 0 @ take 2 (drop 8 iphdr) @
     u16_bytes c @ drop 12 iphdr"

lemma length_20: "length (l :: u8 list) = 20 \<Longrightarrow>
  \<exists>a b c d e f g h i j k l' m n p q r s t u. l = [a, b, c, d, e, f, g, h, i, j, k, l', m, n, p, q, r, s, t, u]"
  by (auto simp: numeral_eq_Suc length_Suc_conv)

lemma length_whole_header: "length iphdr = 20 \<Longrightarrow> length (whole_header iphdr len c) = 20"
  by (simp add: whole_header_def)

lemma whole_header_fields:
  assumes "length iphdr = 20"
  shows "whole_header iphdr len c ! 0 = iphdr ! 0" "IPH_LEN (whole_header iphdr len c) = lwip_htons len"
    "IPH_OFFSET (whole_header iphdr len c) = 0" "IPH_PROTO (whole_header iphdr len c) = IPH_PROTO iphdr"
    "frag_key (whole_header iphdr len c) = frag_key iphdr"
proof -
  obtain x0 x1 x2 x3 x4 x5 x6 x7 x8 x9 x10 x11 x12 x13 x14 x15 x16 x17 x18 x19 where x:
    "iphdr = [x0, x1, x2, x3, x4, x5, x6, x7, x8, x9, x10, x11, x12, x13, x14, x15, x16, x17, x18, x19]"
    using length_20 [OF assms] by blast
  have w: "whole_header iphdr len c = [x0, x1, ucast (lwip_htons len), ucast (drop_bit 8 (lwip_htons len)), x4, x5, 0, 0, x8, x9,
      ucast c, ucast (drop_bit 8 c), x12, x13, x14, x15, x16, x17, x18, x19]"
    by (simp add: x whole_header_def u16_bytes_def)
  show "whole_header iphdr len c ! 0 = iphdr ! 0" "IPH_LEN (whole_header iphdr len c) = lwip_htons len"
    "IPH_OFFSET (whole_header iphdr len c) = 0" "IPH_PROTO (whole_header iphdr len c) = IPH_PROTO iphdr"
    "frag_key (whole_header iphdr len c) = frag_key iphdr"
    unfolding w unfolding x
    by (simp_all add: IPH_LEN_def IPH_OFFSET_def IPH_PROTO_def frag_key_def iph_src_def iph_dest_def IPH_ID_def ld16_u16_bytes)
      (simp add: ld16_def)
qed

lemma whole_header_chksum:
  assumes l: "length iphdr = 20" and c: "c = inet_chksum lwip_standard_chksum_2 a (whole_header iphdr len 0)"
  shows "inet_chksum lwip_standard_chksum_2 a (whole_header iphdr len c) = 0"
proof -
  define pre where "pre = take 2 iphdr @ u16_bytes (lwip_htons len) @ take 2 (drop 4 iphdr) @ u16_bytes 0 @ take 2 (drop 8 iphdr)"
  have p: "length pre = 10" using l by (simp add: pre_def)
  have w: "whole_header iphdr len c = pre @ [ucast c, ucast (drop_bit 8 c)] @ drop 12 iphdr"
    "whole_header iphdr len 0 = pre @ [0, 0] @ drop 12 iphdr"
    by (simp_all add: whole_header_def pre_def u16_bytes_def)
  show ?thesis unfolding w
    by (rule v2.inet_chksum_zero_field) (use p l c in \<open>simp_all add: w\<close>)
qed

text \<open>Writing it over the first fragment's.\<close>

lemma reass_header_ok:
  assumes ok: "hp_ok h" and o: "owned h p as bs" and q: "pbufs h p = Some q" "20 \<le> unat (pb_len q)" and l: "length iphdr = 20"
  shows "\<exists>h'. reass_header e h (pb_payload q) iphdr len = Some h' \<and> hp_ok h' \<and> keeps h [p] h' \<and> pbufs h' = pbufs h \<and>
    owned h' p as (whole_header iphdr len (inet_chksum (ie_chksum e) (pb_payload q) (whole_header iphdr len 0)) @ drop 20 bs)"
proof -
  obtain x0 x1 x2 x3 x4 x5 x6 x7 x8 x9 x10 x11 x12 x13 x14 x15 x16 x17 x18 x19 where x:
    "iphdr = [x0, x1, x2, x3, x4, x5, x6, x7, x8, x9, x10, x11, x12, x13, x14, x15, x16, x17, x18, x19]"
    using length_20 [OF l] by blast
  define rest where "rest = drop 20 bs"
  obtain h1 where h1: "st_bytes h (pb_payload q) iphdr = Some h1" "hp_ok h1" "keeps h [p] h1" "pbufs h1 = pbufs h"
      "owned h1 p as (iphdr @ rest)"
    using owned_st_bytes [OF ok o q(1), of 0 iphdr] q(2) l by (auto simp: rest_def)
  note q1 = q(1) [folded h1(4)]
  obtain h2 where h2: "st_u16 h1 (pb_payload q + 2) (lwip_htons len) = Some h2" "hp_ok h2" "keeps h1 [p] h2" "pbufs h2 = pbufs h1"
      "owned h2 p as (take 2 (iphdr @ rest) @ u16_bytes (lwip_htons len) @ drop (2 + 2) (iphdr @ rest))"
    using owned_st_bytes [OF h1(2,5) q1, of 2 "u16_bytes (lwip_htons len)"] q(2) by (auto simp: st_u16_def)
  note q2 = q1 [folded h2(4)]
  obtain h3 where h3: "st_u16 h2 (pb_payload q + 6) 0 = Some h3" "hp_ok h3" "keeps h2 [p] h3" "pbufs h3 = pbufs h2"
      "owned h3 p as (take 6 (take 2 (iphdr @ rest) @ u16_bytes (lwip_htons len) @ drop (2 + 2) (iphdr @ rest)) @ u16_bytes 0 @
         drop (6 + 2) (take 2 (iphdr @ rest) @ u16_bytes (lwip_htons len) @ drop (2 + 2) (iphdr @ rest)))"
    using owned_st_bytes [OF h2(2,5) q2, of 6 "u16_bytes 0"] q(2) by (auto simp: st_u16_def)
  note q3 = q2 [folded h3(4)]
  have o3: "owned h3 p as ([x0, x1] @ u16_bytes (lwip_htons len) @ [x4, x5] @ u16_bytes 0 @ drop 8 iphdr @ rest)"
    using h3(5) by (simp add: x u16_bytes_def)
  obtain h4 where h4: "st_u16 h3 (pb_payload q + 10) 0 = Some h4" "hp_ok h4" "keeps h3 [p] h4" "pbufs h4 = pbufs h3"
      "owned h4 p as (take 10 ([x0, x1] @ u16_bytes (lwip_htons len) @ [x4, x5] @ u16_bytes 0 @ drop 8 iphdr @ rest) @ u16_bytes 0 @
         drop (10 + 2) ([x0, x1] @ u16_bytes (lwip_htons len) @ [x4, x5] @ u16_bytes 0 @ drop 8 iphdr @ rest))"
    using owned_st_bytes [OF h3(2) o3 q3, of 10 "u16_bytes 0"] q(2) by (auto simp: st_u16_def)
  note q4 = q3 [folded h4(4)]
  have o4: "owned h4 p as (whole_header iphdr len 0 @ rest)"
    using h4(5) by (simp add: x u16_bytes_def whole_header_def)
  have ld: "load (bytes h4) (pb_payload q) 20 = Some (whole_header iphdr len 0)"
    using owned_load [OF o4 q4, of 0 20] q(2) length_whole_header [OF l] by simp
  define c where "c = inet_chksum (ie_chksum e) (pb_payload q) (whole_header iphdr len 0)"
  obtain h5 where h5: "st_u16 h4 (pb_payload q + 10) c = Some h5" "hp_ok h5" "keeps h4 [p] h5" "pbufs h5 = pbufs h4"
      "owned h5 p as (take 10 (whole_header iphdr len 0 @ rest) @ u16_bytes c @ drop (10 + 2) (whole_header iphdr len 0 @ rest))"
    using owned_st_bytes [OF h4(2) o4 q4, of 10 "u16_bytes c"] q(2) by (auto simp: st_u16_def)
  have o5: "owned h5 p as (whole_header iphdr len c @ rest)"
    using h5(5) by (simp add: x u16_bytes_def whole_header_def)
  have "keeps h [p] h2" by (rule keeps_step [OF h1(3) h2(3)]) simp
  then have "keeps h [p] h3" by (rule keeps_step [OF _ h3(3)]) simp
  then have "keeps h [p] h4" by (rule keeps_step [OF _ h4(3)]) simp
  then have "keeps h [p] h5" by (rule keeps_step [OF _ h5(3)]) simp
  then show ?thesis using h1 h2 h3 h4 h5 o5 ld by (simp add: reass_header_def IP_HLEN_def rest_def flip: c_def)
qed

end
