(* ===== verification/Reass_spec.thy ===== *)
theory Reass_spec imports Reass_ok begin

text \<open>
  Reassembly as a whole: a fragment that comes in, whatever is in the queue, is taken, dropped or
  completes its datagram; then what is handed on is the datagram, with a header that verifies.
\<close>

section \<open>Fragments of a datagram\<close>

text \<open>A packet with a header of 20 bytes which carries a piece of the datagram of its key.\<close>

definition fragment_of :: "datagrams \<Rightarrow> u8 list \<Rightarrow> bool" where
  "fragment_of D bs \<longleftrightarrow> (let d = snd (D (frag_key bs)); a = IPH_OFFSET_BYTES bs; n = length bs - 20 in
     20 \<le> length bs \<and> bs ! 0 = 0x45 \<and> unat (lwip_ntohs (IPH_LEN bs)) = length bs \<and>
     IPH_PROTO bs = fst (D (frag_key bs)) \<and> length d \<le> 0xFFFF - 20 \<and> unat a + n \<le> length d \<and>
     drop 20 bs = take n (drop (unat a) d) \<and>
     (IPH_OFFSET bs AND lwip_ntohs IP_MF = 0 \<longleftrightarrow> unat a + n = length d) \<and>
     (a = 0 \<longrightarrow> IPH_OFFSET bs AND lwip_ntohs IP_MF \<noteq> 0))"

lemma take_20_fields:
  assumes "20 \<le> length bs"
  shows "IPH_LEN (take 20 bs) = IPH_LEN bs" "IPH_OFFSET (take 20 bs) = IPH_OFFSET bs" "IPH_PROTO (take 20 bs) = IPH_PROTO bs"
    "frag_key (take 20 bs) = frag_key bs" "IPH_OFFSET_BYTES (take 20 bs) = IPH_OFFSET_BYTES bs" "take 20 bs ! 0 = bs ! 0"
    "IPH_HL_BYTES (take 20 bs) = IPH_HL_BYTES bs"
  by (simp_all add: IPH_LEN_def IPH_OFFSET_def IPH_PROTO_def frag_key_def iph_src_def iph_dest_def IPH_ID_def IPH_OFFSET_BYTES_def
      IPH_HL_BYTES_def IPH_HL_def)

lemma header_45: "bs ! 0 = 0x45 \<Longrightarrow> IPH_HL_BYTES bs = 20"
  by (simp add: IPH_HL_BYTES_def IPH_HL_def)

text \<open>The span of the fragment.\<close>

definition span_end :: "u8 list \<Rightarrow> u16" where
  "span_end bs = IPH_OFFSET_BYTES bs + (lwip_ntohs (IPH_LEN bs) - 20)"

lemma fragment_span:
  assumes "fragment_of D bs"
  shows "unat (lwip_ntohs (IPH_LEN bs) - 20) = length bs - 20" "unat (span_end bs) = unat (IPH_OFFSET_BYTES bs) + (length bs - 20)"
    "IPH_OFFSET_BYTES bs \<le> span_end bs" "unat (span_end bs) \<le> length (snd (D (frag_key bs)))"
    "drop 20 bs = piece (IPH_OFFSET_BYTES bs) (span_end bs) (snd (D (frag_key bs)))"
    "IPH_OFFSET bs AND lwip_ntohs IP_MF = 0 \<longleftrightarrow> unat (span_end bs) = length (snd (D (frag_key bs)))"
proof -
  note f = assms [unfolded fragment_of_def Let_def]
  have l: "unat (lwip_ntohs (IPH_LEN bs)) = length bs" "20 \<le> length bs" using f by auto
  then show n: "unat (lwip_ntohs (IPH_LEN bs) - 20) = length bs - 20" by (simp add: unat_sub_le)
  have "unat (IPH_OFFSET_BYTES bs) + (length bs - 20) < 65536" using f by auto
  then show e: "unat (span_end bs) = unat (IPH_OFFSET_BYTES bs) + (length bs - 20)"
    unfolding span_end_def by (simp add: unat_add_small n)
  then show "IPH_OFFSET_BYTES bs \<le> span_end bs" by (simp add: word_le_nat_alt)
  show "unat (span_end bs) \<le> length (snd (D (frag_key bs)))" using e f by auto
  show "drop 20 bs = piece (IPH_OFFSET_BYTES bs) (span_end bs) (snd (D (frag_key bs)))" using e f by (auto simp: piece_def)
  show "IPH_OFFSET bs AND lwip_ntohs IP_MF = 0 \<longleftrightarrow> unat (span_end bs) = length (snd (D (frag_key bs)))" using e f by auto
qed

section \<open>Taking a fragment\<close>

text \<open>The invariant while a new datagram has no fragment yet.\<close>

definition reass_base ::
    "(nat \<Rightarrow> nat list) \<Rightarrow> (nat \<Rightarrow> u8 list) \<Rightarrow> datagrams \<Rightarrow> 'w ip_st \<Rightarrow> bool" where
  "reass_base L B D s \<longleftrightarrow> hp_ok (i_hp s) \<and> (\<forall>r\<in>set (reassdatagrams s). datagram_ok (i_hp s) L B D r) \<and>
     distinct (concat (map L (queued_bufs (reassdatagrams s)))) \<and>
     unat (ip_reass_pbufcount s) = length (concat (map L (queued_bufs (reassdatagrams s)))) \<and>
     unat (ip_reass_pbufcount s) \<le> IP_REASS_MAX_PBUFS"

lemma reass_inv_base: "reass_inv L B D s \<longleftrightarrow> reass_base L B D s \<and> (\<forall>r\<in>set (reassdatagrams s). rd_frags r \<noteq> [])"
  by (auto simp: reass_inv_def reass_base_def)

text \<open>The packet that comes in: its buffers are not in the queue, and the first one holds the header.\<close>

definition incoming :: "(nat \<Rightarrow> nat list) \<Rightarrow> datagrams \<Rightarrow> nat \<Rightarrow> nat list \<Rightarrow> u8 list \<Rightarrow> 'w ip_st \<Rightarrow> bool" where
  "incoming L D p as bs s \<longleftrightarrow> owned (i_hp s) p as bs \<and>
     (\<exists>q. pbufs (i_hp s) p = Some q \<and> (if IPH_OFFSET_BYTES bs = 0 then 28 else 20) \<le> unat (pb_len q)) \<and>
     set as \<inter> set (concat (map L (queued_bufs (reassdatagrams s)))) = {} \<and> fragment_of D bs \<and> length as < 65536"

definition result_ok :: "datagrams \<Rightarrow> u8 list \<Rightarrow> (nat \<Rightarrow> nat list) \<Rightarrow> 'w ip_st \<Rightarrow> nat option \<Rightarrow> bool" where
  "result_ok D bs L s r \<longleftrightarrow>
     (case r of
        None \<Rightarrow> True
      | Some q \<Rightarrow> \<exists>as hdr a. owned (i_hp s) q as (hdr @ snd (D (frag_key bs))) \<and> length hdr = 20 \<and> hdr ! 0 = 0x45 \<and>
          lwip_ntohs (IPH_LEN hdr) = of_nat (20 + length (snd (D (frag_key bs)))) \<and> IPH_OFFSET hdr = 0 \<and>
          IPH_PROTO hdr = fst (D (frag_key bs)) \<and> frag_key hdr = frag_key bs \<and>
          inet_chksum lwip_standard_chksum_2 a hdr = 0 \<and>
          set as \<inter> set (concat (map L (queued_bufs (reassdatagrams s)))) = {})"

text \<open>A dropped fragment is freed; the rest stays.\<close>

lemma reass_drop_ok:
  assumes b: "reass_base L B D s" and rs: "reassdatagrams s = pre @ r # post" and ne: "\<forall>x\<in>set (pre @ r # post). rd_frags x \<noteq> []"
    and o: "owned (i_hp s) p as bs" and d: "set as \<inter> set (concat (map L (queued_bufs (reassdatagrams s)))) = {}"
  shows "\<exists>h'. ip4_reass_drop p (length pre) s = Some (s\<lparr>i_hp := h'\<rparr>, None) \<and> reass_inv L B D (s\<lparr>i_hp := h'\<rparr>) \<and> keeps (i_hp s) as h'"
proof -
  have i: "reass_inv L B D s" using b ne rs by (simp add: reass_inv_base)
  then have ok: "hp_ok (i_hp s)" by (simp add: reass_inv_def)
  obtain h' where h': "ip_free p s = Some (s\<lparr>i_hp := h'\<rparr>)" "hp_ok h'" "keeps (i_hp s) as h'"
    using ip_free_owned [OF ok o] by metis
  have "reass_inv L B D (s\<lparr>i_hp := h'\<rparr>)"
    by (rule reass_inv_fields [OF i h'(3,2)]) (use d in auto)
  then show ?thesis using h' ne rs by (auto simp: ip4_reass_drop_def)
qed

text \<open>The queue with the new fragment in its place.\<close>

lemma datagram_ok_insert:
  assumes r: "datagram_ok h L B D r" and key: "frag_key (rd_iphdr r) = frag_key bs"
    and fr: "rd_frags r = xs @ ys" and fc: "frag_chain 0 (xs @ f # ys)"
    and f: "f = \<lparr>fr_pbuf = p, fr_start = IPH_OFFSET_BYTES bs, fr_end = span_end bs\<rparr>"
    and fo: "fragment_of D bs" and o: "owned h p as bs"
    and q: "pbufs h p = Some q" "(if IPH_OFFSET_BYTES bs = 0 then 28 else 20) \<le> unat (pb_len q)"
    and new: "\<forall>g\<in>set (rd_frags r). fr_pbuf g \<noteq> p"
    and r': "r' = (if IPH_OFFSET bs AND lwip_ntohs IP_MF = 0
       then r\<lparr>rd_frags := xs @ f # ys, rd_datagram_len := span_end bs, rd_flags := rd_flags r OR IP_REASS_FLAG_LASTFRAG\<rparr>
       else r\<lparr>rd_frags := xs @ f # ys\<rparr>)"
  shows "datagram_ok h (L(p := as)) (B(p := bs)) D r'"
proof -
  define d where "d = snd (D (frag_key bs))"
  note sp = fragment_span [OF fo, folded d_def]
  have old: "frag_ok h (L(p := as)) (B(p := bs)) d g" if g: "g \<in> set (rd_frags r)" for g
    using r g new key by (auto simp: datagram_ok_def Let_def frag_ok_def d_def)
  have this_one: "frag_ok h (L(p := as)) (B(p := bs)) d f"
    using o q sp by (simp add: frag_ok_def f)
  have all: "\<forall>g\<in>set (xs @ f # ys). frag_ok h (L(p := as)) (B(p := bs)) d g" using old this_one fr by auto
  have r0: "length d \<le> 0xFFFF - 20 \<and> length (rd_iphdr r) = 20 \<and> rd_iphdr r ! 0 = 0x45 \<and> IPH_PROTO (rd_iphdr r) = fst (D (frag_key bs)) \<and>
     (rd_flags r AND IP_REASS_FLAG_LASTFRAG \<noteq> 0 \<longrightarrow> rd_datagram_len r = of_nat (length d) \<and>
        (\<exists>g\<in>set (rd_frags r). fr_start g \<noteq> 0 \<and> unat (fr_end g) = length d))"
    using r key by (simp add: datagram_ok_def Let_def d_def)
  show ?thesis
  proof (cases "IPH_OFFSET bs AND lwip_ntohs IP_MF = 0")
    case True
    then have e: "unat (span_end bs) = length d" using sp(6) by simp
    then have "span_end bs = of_nat (length d)" by (metis of_nat_unat ucast_id)
    moreover have "IPH_OFFSET_BYTES bs \<noteq> 0" using fo True by (auto simp: fragment_of_def Let_def)
    ultimately show ?thesis using True r' all fc r0 key e f
      by (simp add: datagram_ok_def Let_def flip: d_def)
  next
    case False
    then show ?thesis using r' all fc r0 key fr
      by (auto simp: datagram_ok_def Let_def simp flip: d_def)
  qed
qed

section \<open>The whole datagram\<close>

lemma pieces_whole:
  assumes "contig 0 fs" and "frag_chain 0 fs" and "\<forall>f\<in>set fs. unat (fr_end f) \<le> length d"
    and "\<exists>f\<in>set fs. unat (fr_end f) = length d"
  shows "concat (map (\<lambda>f. piece (fr_start f) (fr_end f) d) fs) = d"
proof -
  have ne: "fs \<noteq> []" using assms(4) by auto
  have c: "concat (map (\<lambda>f. piece (fr_start f) (fr_end f) d) fs) = take (unat (fr_end (last fs))) d"
      "\<forall>f\<in>set fs. unat (fr_end f) \<le> unat (fr_end (last fs))"
    using contig_data [OF assms(1-3)] ne by (auto simp: piece_def)
  have "unat (fr_end (last fs)) = length d"
    using c(2) assms(3,4) ne by (metis last_in_set le_antisym)
  then show ?thesis using c(1) by simp
qed

lemma frags_apart:
  assumes "distinct (concat (map L (queued_bufs (pre @ r # post))))"
  shows "distinct (concat (map L (map fr_pbuf (rd_frags r))))"
    "set (concat (map L (queued_bufs (pre @ post)))) \<inter> set (concat (map L (map fr_pbuf (rd_frags r)))) = {}"
    "distinct (concat (map L (queued_bufs (pre @ post))))"
    "length (concat (map L (queued_bufs (pre @ r # post)))) =
       length (concat (map L (queued_bufs (pre @ post)))) + length (concat (map L (map fr_pbuf (rd_frags r))))"
proof -
  define a b c where "a = concat (map L (queued_bufs pre))" and "b = concat (map L (map fr_pbuf (rd_frags r)))"
    and "c = concat (map L (queued_bufs post))"
  have "distinct (a @ b @ c)" using assms by (simp add: a_def b_def c_def del: map_map)
  then show "distinct (concat (map L (map fr_pbuf (rd_frags r))))"
    "set (concat (map L (queued_bufs (pre @ post)))) \<inter> set (concat (map L (map fr_pbuf (rd_frags r)))) = {}"
    "distinct (concat (map L (queued_bufs (pre @ post))))"
    "length (concat (map L (queued_bufs (pre @ r # post)))) =
       length (concat (map L (queued_bufs (pre @ post)))) + length (concat (map L (map fr_pbuf (rd_frags r))))"
    by (auto simp: a_def b_def c_def simp del: map_map)
qed

text \<open>Taking a datagram out of the queue leaves the invariant.\<close>

lemma reass_base_without:
  assumes b: "reass_base L B D s" and rs: "reassdatagrams s = pre @ r # post" and ne: "\<forall>x\<in>set (pre @ post). rd_frags x \<noteq> []"
    and k: "keeps (i_hp s) (concat (map L (map fr_pbuf (rd_frags r)))) h'" and ok: "hp_ok h'"
    and s': "i_hp s' = h'" "reassdatagrams s' = pre @ post"
      "ip_reass_pbufcount s' = ip_reass_pbufcount s - of_nat (length (concat (map L (map fr_pbuf (rd_frags r)))))"
  shows "reass_inv L B D s'"
proof -
  note b' = b [unfolded reass_base_def rs]
  note ap = frags_apart [of L pre r post]
  let ?n = "length (concat (map L (map fr_pbuf (rd_frags r))))"
  have n: "?n \<le> unat (ip_reass_pbufcount s)" "?n \<le> 10" using b' ap(4) by (auto simp: IP_REASS_MAX_PBUFS_def simp del: map_map)
  have c: "unat (ip_reass_pbufcount s') = unat (ip_reass_pbufcount s) - ?n"
    using n unfolding s'(3) by (simp add: unat_sub_le unat_of_nat_u16)
  have "datagram_ok h' L B D x" if x: "x \<in> set (pre @ post)" for x
  proof (rule datagram_ok_keeps [OF _ k])
    show "datagram_ok (i_hp s) L B D x" using b' x by auto
    have "set (concat (map L (map fr_pbuf (rd_frags x)))) \<subseteq> set (concat (map L (queued_bufs (pre @ post))))"
      using x by (auto simp: queued_bufs_def)
    then show "set (concat (map L (map fr_pbuf (rd_frags x)))) \<inter> set (concat (map L (map fr_pbuf (rd_frags r)))) = {}"
      using ap(2) b' by blast
  qed
  moreover have "unat (ip_reass_pbufcount s') = length (concat (map L (queued_bufs (pre @ post))))"
    "unat (ip_reass_pbufcount s') \<le> IP_REASS_MAX_PBUFS" "distinct (concat (map L (queued_bufs (pre @ post))))"
    using c b' ap(3,4) by (auto simp del: map_map)
  ultimately show ?thesis unfolding reass_inv_def s'(1,2) using ok ne by blast
qed

lemma reass_finish_ok:
  assumes b: "reass_base L B D s" and rs: "reassdatagrams s = pre @ r # post" and ne: "\<forall>x\<in>set (pre @ r # post). rd_frags x \<noteq> []"
    and c: "contig 0 (rd_frags r)" and last: "\<exists>f\<in>set (rd_frags r). unat (fr_end f) = length (snd (D (frag_key (rd_iphdr r))))"
    and dl: "rd_datagram_len r = of_nat (length (snd (D (frag_key (rd_iphdr r)))))"
    and chk: "ie_chksum e = lwip_standard_chksum_2" and key: "frag_key (rd_iphdr r) = frag_key bs"
  shows "\<exists>s' q. ip4_reass_finish e (length pre) s = Some (s', Some q) \<and> reass_inv L B D s' \<and> result_ok D bs L s' (Some q) \<and>
    reassdatagrams s' = pre @ post \<and>
    keeps (i_hp s) (concat (map L (map fr_pbuf (rd_frags r)))) (i_hp s') \<and> i_world s' = i_world s"
proof -
  define d where "d = snd (D (frag_key bs))"
  obtain f fs where fs: "rd_frags r = f # fs" using ne by (cases "rd_frags r") auto
  let ?p = "fr_pbuf f" and ?all = "concat (map L (map fr_pbuf (rd_frags r)))"
  note b' = b [unfolded reass_base_def rs]
  have ok: "hp_ok (i_hp s)" and dr: "datagram_ok (i_hp s) L B D r" and dist: "distinct (concat (map L (queued_bufs (pre @ r # post))))"
    using b' by auto
  note ap = frags_apart [OF dist]
  have di: "\<forall>g\<in>set (f # fs). frag_ok (i_hp s) L B d g" "frag_chain 0 (f # fs)" "length d \<le> 65515" "length (rd_iphdr r) = 20"
      "rd_iphdr r ! 0 = 0x45" "IPH_PROTO (rd_iphdr r) = fst (D (frag_key bs))"
    using dr fs key by (auto simp: datagram_ok_def Let_def d_def)
  have fo: "frag_ok (i_hp s) L B d f" using di by simp
  then obtain q where q: "pbufs (i_hp s) ?p = Some q" "20 \<le> unat (pb_len q)" "owned (i_hp s) ?p (L ?p) (B ?p)"
      "drop 20 (B ?p) = piece (fr_start f) (fr_end f) d"
    unfolding frag_ok_def by (auto split: if_splits)
  define len where "len = (of_nat (20 + length d) :: u16)"
  define hdr where "hdr = whole_header (rd_iphdr r) len (inet_chksum (ie_chksum e) (pb_payload q) (whole_header (rd_iphdr r) len 0))"
  have dl': "rd_datagram_len r + of_nat IP_HLEN = len" using dl key by (simp add: len_def d_def IP_HLEN_def add.commute)
  obtain h1 where h1: "reass_header e (i_hp s) (pb_payload q) (rd_iphdr r) len = Some h1" "hp_ok h1" "keeps (i_hp s) [?p] h1"
      "owned h1 ?p (L ?p) (hdr @ drop 20 (B ?p))"
    using reass_header_ok [OF ok q(3,1,2) di(4)] unfolding hdr_def by blast
  have pL: "?p \<in> set (L ?p)" using q(3) by (elim ownedD) simp
  have frest: "frag_ok h1 L B d g" if g: "g \<in> set fs" for g
    by (rule frag_ok_keeps [OF _ h1(3)]) (use di(1) g ap(1) fs pL in auto)
  define pcs where "pcs = concat (map (\<lambda>f. piece (fr_start f) (fr_end f) d) fs)"
  have whole: "piece (fr_start f) (fr_end f) d @ pcs = d"
    using pieces_whole [OF c] di(1,2) last key fs by (auto simp: frag_ok_def pcs_def d_def)
  have lh: "length hdr = 20" unfolding hdr_def by (rule length_whole_header [OF di(4)])
  have sm: "length (hdr @ drop 20 (B ?p)) + length pcs < 65536"
  proof -
    have "length (drop 20 (B ?p) @ pcs) = length d" using whole q(4) by simp
    then show ?thesis using di(3) lh by simp
  qed
  obtain h2 where h2: "join_frags ?p fs h1 = Some h2" "hp_ok h2" "owned h2 ?p (L ?p @ concat (map L (map fr_pbuf fs))) ((hdr @ drop 20 (B ?p)) @ pcs)"
      "keeps h1 (L ?p @ concat (map L (map fr_pbuf fs))) h2"
    using join_frags_ok [OF h1(2,4), of fs L B d] frest ap(1) fs sm unfolding pcs_def by auto
  have o2: "owned h2 ?p ?all (hdr @ d)" using h2(3) whole q(4) fs by simp
  have k2: "keeps (i_hp s) ?all h2"
    by (rule keeps_step [OF keeps_more [OF h1(3)] h2(4)]) (use pL fs in auto)
  let ?n = "length ?all"
  have n: "?n \<le> unat (ip_reass_pbufcount s)" "?n \<le> 10" using b' ap(4) by (auto simp: IP_REASS_MAX_PBUFS_def simp del: map_map)
  have ge: "ip_reass_pbufcount s \<ge> of_nat ?n" using n by (simp add: word_le_nat_alt unat_of_nat_u16)
  define s' where "s' = s\<lparr>i_hp := h2, reassdatagrams := pre @ post, ip_reass_pbufcount := ip_reass_pbufcount s - of_nat ?n\<rparr>"
  have run: "ip4_reass_finish e (length pre) s = Some (s', Some ?p)"
    using rs fs q(1) h1(1) h2(1) owned_clen [OF o2] ge dl'
    by (simp add: ip4_reass_finish_def ip_reass_dequeue_datagram_def s'_def Let_def del: map_map)
  have inv: "reass_inv L B D s'"
    by (rule reass_base_without [OF b rs _ k2 h2(2)]) (use ne in \<open>auto simp: s'_def\<close>)
  have "result_ok D bs L s' (Some ?p)"
    unfolding result_ok_def
  proof (simp only: option.case, intro exI conjI)
    show "owned (i_hp s') ?p ?all (hdr @ snd (D (frag_key bs)))" using o2 by (simp add: s'_def d_def)
    show "lwip_ntohs (IPH_LEN hdr) = of_nat (20 + length (snd (D (frag_key bs))))"
      by (simp add: hdr_def whole_header_fields [OF di(4)] lwip_ntohs_def len_def d_def)
    show "inet_chksum lwip_standard_chksum_2 (pb_payload q) hdr = 0"
      unfolding hdr_def chk by (rule whole_header_chksum [OF di(4)]) simp
    show "set ?all \<inter> set (concat (map L (queued_bufs (reassdatagrams s')))) = {}" using ap(2) by (auto simp: s'_def simp del: map_map)
  qed (use lh di(5,6) key in \<open>simp_all add: hdr_def whole_header_fields [OF di(4)]\<close>)
  then show ?thesis using run inv k2 by (intro exI [of _ s'] exI [of _ ?p]) (simp add: s'_def)
qed

end
