(* ===== verification/Reass_take.thy ===== *)
theory Reass_take imports Reass_spec begin

text \<open>
  \<^verbatim>\<open>ip4_reass\<close> on any fragment in any state of the queue, and the timer.
\<close>

section \<open>Into the datagram\<close>

lemma datagram_ok_upd:
  assumes "p \<notin> set (map fr_pbuf (rd_frags r))"
  shows "datagram_ok h (L(p := as)) (B(p := bs)) D r \<longleftrightarrow> datagram_ok h L B D r"
proof -
  have "frag_ok h (L(p := as)) (B(p := bs)) d f \<longleftrightarrow> frag_ok h L B d f" if "f \<in> set (rd_frags r)" for d f
  proof -
    have "fr_pbuf f \<noteq> p" using that assms by auto
    then show ?thesis by (simp add: frag_ok_def)
  qed
  then show ?thesis by (simp add: datagram_ok_def Let_def)
qed

text \<open>A queued buffer is one of its own list.\<close>

lemma queued_own:
  assumes "reass_base L B D s" and "p \<in> set (queued_bufs (reassdatagrams s))"
  shows "p \<in> set (L p)"
proof -
  obtain r f where r: "r \<in> set (reassdatagrams s)" "f \<in> set (rd_frags r)" "fr_pbuf f = p"
    using assms(2) by (auto simp: queued_bufs_def)
  then have "owned (i_hp s) p (L p) (B p)" using assms(1) by (auto simp: reass_base_def datagram_ok_def Let_def frag_ok_def)
  then show ?thesis by (elim ownedD) simp
qed

lemma incoming_new:
  assumes "reass_base L B D s" and "incoming L D p as bs s"
  shows "p \<notin> set (queued_bufs (reassdatagrams s))"
proof
  assume p: "p \<in> set (queued_bufs (reassdatagrams s))"
  then have "p \<in> set (concat (map L (queued_bufs (reassdatagrams s))))" using queued_own [OF assms(1)] by auto
  moreover have "p \<in> set as" using assms(2) by (auto simp: incoming_def elim: ownedD)
  ultimately show False using assms(2) by (auto simp: incoming_def)
qed

lemma distinct_own:
  assumes "distinct (concat (map L ps))" and "\<forall>p\<in>set ps. p \<in> set (L p)"
  shows "distinct ps"
  using assms by (induction ps) auto

lemma hd_not_last:
  assumes "distinct (map fr_pbuf l)" and "g \<in> set l" and "fr_start g \<noteq> 0" and "fr_start (hd l) = 0"
  shows "fr_pbuf (hd l) \<noteq> fr_pbuf (last l)"
proof (cases l)
  case (Cons x xs)
  then have "xs \<noteq> []" using assms(2-4) by auto
  then show ?thesis using assms(1) Cons by (auto simp: image_iff)
qed (use assms in simp)

text \<open>The queue with the fragment in it.\<close>

lemma reass_base_insert:
  assumes b: "reass_base L B D s" and inc: "incoming L D p as bs s"
    and rs: "reassdatagrams s = pre @ r # post" and key: "frag_key (rd_iphdr r) = frag_key bs"
    and fr: "rd_frags r = xs @ ys" and fc: "frag_chain 0 (xs @ f # ys)"
    and f: "f = \<lparr>fr_pbuf = p, fr_start = IPH_OFFSET_BYTES bs, fr_end = span_end bs\<rparr>"
    and r': "r' = (if IPH_OFFSET bs AND lwip_ntohs IP_MF = 0
       then r\<lparr>rd_frags := xs @ f # ys, rd_datagram_len := span_end bs, rd_flags := rd_flags r OR IP_REASS_FLAG_LASTFRAG\<rparr>
       else r\<lparr>rd_frags := xs @ f # ys\<rparr>)"
    and room: "unat (ip_reass_pbufcount s) + length as \<le> IP_REASS_MAX_PBUFS"
  shows "reass_base (L(p := as)) (B(p := bs)) D
    (s\<lparr>reassdatagrams := pre @ r' # post, ip_reass_pbufcount := ip_reass_pbufcount s + of_nat (length as)\<rparr>)"
proof -
  note b' = b [unfolded reass_base_def rs]
  note in' = inc [unfolded incoming_def]
  have new: "p \<notin> set (queued_bufs (pre @ r # post))" using incoming_new [OF b inc] rs by simp
  have fr': "rd_frags r' = xs @ f # ys" using r' by simp
  have dr: "datagram_ok (i_hp s) (L(p := as)) (B(p := bs)) D r'"
  proof -
    obtain q where q: "pbufs (i_hp s) p = Some q" "(if IPH_OFFSET_BYTES bs = 0 then 28 else 20) \<le> unat (pb_len q)"
      using in' by blast
    show ?thesis by (rule datagram_ok_insert [OF _ key fr fc f _ _ q _ r']) (use b' in' new in auto)
  qed
  have dx: "datagram_ok (i_hp s) (L(p := as)) (B(p := bs)) D x" if x: "x \<in> set (pre @ post)" for x
  proof -
    have "set (map fr_pbuf (rd_frags x)) \<subseteq> set (queued_bufs (pre @ r # post))" using x by (auto simp: queued_bufs_def)
    then show ?thesis using b' x new by (subst datagram_ok_upd) auto
  qed
  define X Y where "X = queued_bufs pre @ map fr_pbuf xs" and "Y = map fr_pbuf ys @ queued_bufs post"
  have old_q: "queued_bufs (pre @ r # post) = X @ Y" by (simp add: X_def Y_def fr)
  have new_q: "queued_bufs (pre @ r' # post) = X @ p # Y" by (simp add: X_def Y_def fr' f)
  have "p \<notin> set X" "p \<notin> set Y" using new unfolding old_q by auto
  then have m: "map (L(p := as)) X = map L X" "map (L(p := as)) Y = map L Y" by (auto simp: map_fun_upd)
  have da: "distinct as" using in' by (auto elim: ownedD dest: owned_distinct)
  have dis: "distinct (concat (map L X) @ concat (map L Y))" "set as \<inter> (set (concat (map L X)) \<union> set (concat (map L Y))) = {}"
    "unat (ip_reass_pbufcount s) = length (concat (map L X)) + length (concat (map L Y))"
    using b' in' unfolding rs old_q by auto
  have c: "unat (ip_reass_pbufcount s + of_nat (length as)) = unat (ip_reass_pbufcount s) + length as"
    using room by (simp add: IP_REASS_MAX_PBUFS_def unat_add_small unat_of_nat_u16)
  have e: "concat (map (L(p := as)) (X @ p # Y)) = concat (map L X) @ as @ concat (map L Y)"
    by (simp only: map_append list.map m concat_append concat.simps fun_upd_same)
  have "distinct (concat (map L X) @ as @ concat (map L Y))" using dis da by (simp only: distinct_append set_append) blast
  moreover have "unat (ip_reass_pbufcount s + of_nat (length as)) = length (concat (map L X) @ as @ concat (map L Y))"
    using c dis(3) by simp
  moreover have "\<forall>x\<in>set (pre @ r' # post). datagram_ok (i_hp s) (L(p := as)) (B(p := bs)) D x" using dr dx by auto
  moreover have "unat (ip_reass_pbufcount s + of_nat (length as)) \<le> IP_REASS_MAX_PBUFS" using c room by simp
  moreover have "hp_ok (i_hp s)" using b' by simp
  moreover define s' where "s' = s\<lparr>reassdatagrams := pre @ r' # post, ip_reass_pbufcount := ip_reass_pbufcount s + of_nat (length as)\<rparr>"
  have sel: "reassdatagrams s' = pre @ r' # post" "ip_reass_pbufcount s' = ip_reass_pbufcount s + of_nat (length as)" "i_hp s' = i_hp s"
    by (simp_all add: s'_def)
  ultimately have "reass_base (L(p := as)) (B(p := bs)) D s'" unfolding reass_base_def sel new_q e by blast
  then show ?thesis by (simp only: s'_def)
qed

text \<open>What the code does with the fragment, when it is not dropped.\<close>

lemma validate_fragment:
  assumes fo: "fragment_of D bs" and f: "f = \<lparr>fr_pbuf = p, fr_start = IPH_OFFSET_BYTES bs, fr_end = span_end bs\<rparr>"
  shows "ip_reass_chain_frag_into_datagram_and_validate r p (take 20 bs) is_last = do {
      res \<leftarrow> chain_insert None True f (rd_frags r);
      (case res of
         None \<Rightarrow> Some (r, PBUF_DROPPED)
       | Some (l, v, rest) \<Rightarrow>
           (if (is_last \<or> rd_flags r AND IP_REASS_FLAG_LASTFRAG \<noteq> 0) \<and> v \<and> fr_start (hd l) = 0
            then (case no_holes f rest of (v, final) \<Rightarrow> do {
                    LWIP_ASSERT (v \<longrightarrow> fr_pbuf (hd l) \<noteq> fr_pbuf final);
                    Some (r\<lparr>rd_frags := l\<rparr>, if v then TELEGRAM_FINISHED else PBUF_QUEUED) })
            else Some (r\<lparr>rd_frags := l\<rparr>, PBUF_QUEUED))) }"
proof -
  have l: "20 \<le> length bs" "bs ! 0 = 0x45" "unat (lwip_ntohs (IPH_LEN bs)) = length bs" using fo by (auto simp: fragment_of_def Let_def)
  note t = take_20_fields [OF l(1)] header_45 [OF l(2)]
  have "\<not> ucast (20 :: u8) > lwip_ntohs (IPH_LEN bs)" using l(1,3) by (simp add: word_less_nat_alt)
  moreover have "\<not> IPH_OFFSET_BYTES bs + (lwip_ntohs (IPH_LEN bs) - 20) < IPH_OFFSET_BYTES bs"
    using fragment_span(3) [OF fo] by (simp add: span_end_def)
  moreover have "\<lparr>fr_pbuf = p, fr_start = IPH_OFFSET_BYTES bs, fr_end = IPH_OFFSET_BYTES bs + (lwip_ntohs (IPH_LEN bs) - 20)\<rparr> = f"
    by (simp add: f span_end_def)
  ultimately show ?thesis
    by (simp add: ip_reass_chain_frag_into_datagram_and_validate_def Let_def t)
      (auto intro!: arg_cong2 [where f = Option.bind] ext split: option.splits prod.splits)
qed

text \<open>The chain is complete when nothing is missing before, at and behind the new fragment.\<close>

lemma complete_chain:
  "contig 0 (xs @ f # ys) \<longleftrightarrow> up_to None (xs @ [f]) \<and> fr_start (hd (xs @ f # ys)) = 0 \<and> contig (unat (fr_end f)) ys"
proof -
  have "contig 0 (xs @ [f]) \<longleftrightarrow> up_to None (xs @ [f]) \<and> fr_start (hd (xs @ f # ys)) = 0"
    by (cases xs) (auto simp: up_to_def unat_eq_0)
  then show ?thesis using contig_append [of 0 xs f ys] by blast
qed

text \<open>What holds when a fragment has been dealt with.\<close>

definition reass_post :: "datagrams \<Rightarrow> u8 list \<Rightarrow> nat list \<Rightarrow> 'w ip_st \<Rightarrow> 'w ip_st \<Rightarrow> nat option \<Rightarrow> bool" where
  "reass_post D bs zs s s' res \<longleftrightarrow>
     (\<exists>L B. reass_inv L B D s' \<and> result_ok D bs L s' res) \<and> keeps (i_hp s) zs (i_hp s') \<and> i_world s' = i_world s"

text \<open>The code's own check: the chain of a complete datagram has more than one fragment.\<close>

lemma reass_sane:
  assumes b: "reass_base L B D s" and rs: "reassdatagrams s = pre @ r # post"
    and flag: "rd_flags r AND IP_REASS_FLAG_LASTFRAG \<noteq> 0" and z: "fr_start (hd (rd_frags r)) = 0"
  shows "fr_pbuf (hd (rd_frags r)) \<noteq> fr_pbuf (last (rd_frags r))"
proof -
  have dr: "datagram_ok (i_hp s) L B D r" using b rs by (auto simp: reass_base_def)
  then obtain g where g: "g \<in> set (rd_frags r)" "fr_start g \<noteq> 0" using flag by (auto simp: datagram_ok_def Let_def)
  have "distinct (concat (map L (map fr_pbuf (rd_frags r))))"
    using frags_apart(1) [of L pre r post] b rs by (simp add: reass_base_def)
  moreover have "\<forall>p\<in>set (map fr_pbuf (rd_frags r)). p \<in> set (L p)"
    using queued_own [OF b] rs by auto
  ultimately have "distinct (map fr_pbuf (rd_frags r))" by (rule distinct_own)
  then show ?thesis using hd_not_last g z by blast
qed

text \<open>The fragment, the datagram and the state with it.\<close>

definition frag_of :: "nat \<Rightarrow> u8 list \<Rightarrow> reass_frag" where
  "frag_of p bs = \<lparr>fr_pbuf = p, fr_start = IPH_OFFSET_BYTES bs, fr_end = span_end bs\<rparr>"

definition with_frag :: "u8 list \<Rightarrow> reass_frag list \<Rightarrow> reassdata \<Rightarrow> reassdata" where
  "with_frag bs l r = (if IPH_OFFSET bs AND lwip_ntohs IP_MF = 0
      then r\<lparr>rd_frags := l, rd_datagram_len := span_end bs, rd_flags := rd_flags r OR IP_REASS_FLAG_LASTFRAG\<rparr>
      else r\<lparr>rd_frags := l\<rparr>)"

lemma with_frag_fields [simp]:
  "rd_frags (with_frag bs l r) = l" "rd_iphdr (with_frag bs l r) = rd_iphdr r"
  "rd_flags (with_frag bs l r) AND IP_REASS_FLAG_LASTFRAG = 0 \<longleftrightarrow>
     \<not> (IPH_OFFSET bs AND lwip_ntohs IP_MF = 0) \<and> rd_flags r AND IP_REASS_FLAG_LASTFRAG = 0"
  by (auto simp: with_frag_def IP_REASS_FLAG_LASTFRAG_def bit.conj_disj_distrib2)

definition reass_queued :: "nat list \<Rightarrow> u8 list \<Rightarrow> reass_frag list \<Rightarrow> reassdata list \<Rightarrow> reassdata \<Rightarrow> reassdata list \<Rightarrow> 'w ip_st \<Rightarrow> 'w ip_st" where
  "reass_queued as bs l pre r post s =
     s\<lparr>reassdatagrams := pre @ with_frag bs l r # post, ip_reass_pbufcount := ip_reass_pbufcount s + of_nat (length as)\<rparr>"

text \<open>What the code computes: dropped, queued or complete.\<close>

lemma reass_into_run:
  assumes fo: "fragment_of D bs" and rs: "reassdatagrams s = pre @ r # post"
    and x: "chain_insert None True (frag_of p bs) (rd_frags r) = Some x"
  shows "ip4_reass_into e p (take 20 bs) n (length pre) s =
    (case x of
       None \<Rightarrow> ip4_reass_drop p (length pre) s
     | Some (l, v, rest) \<Rightarrow>
         (let s1 = s\<lparr>reassdatagrams := pre @ with_frag bs l r # post, ip_reass_pbufcount := ip_reass_pbufcount s + n\<rparr>
          in if rd_flags (with_frag bs l r) AND IP_REASS_FLAG_LASTFRAG \<noteq> 0 \<and> v \<and> fr_start (hd l) = 0 \<and> fst (no_holes (frag_of p bs) rest)
             then do { LWIP_ASSERT (fr_pbuf (hd l) \<noteq> fr_pbuf (snd (no_holes (frag_of p bs) rest))); ip4_reass_finish e (length pre) s1 }
             else Some (s1, None)))"
proof -
  have l: "20 \<le> length bs" "bs ! 0 = 0x45" using fo by (auto simp: fragment_of_def Let_def)
  note t = take_20_fields [OF l(1)] header_45 [OF l(2)]
  define is_last where "is_last \<longleftrightarrow> IPH_OFFSET bs AND lwip_ntohs IP_MF = 0"
  have "length (snd (D (frag_key bs))) \<le> 65515" using fo by (simp add: fragment_of_def Let_def)
  then have fits: "\<not> (is_last \<and> (span_end bs < IPH_OFFSET_BYTES bs \<or> unat (span_end bs) > 65515))"
    using fragment_span(3,4) [OF fo] by auto
  note v = validate_fragment [OF fo frag_of_def, where p = p and r = r and is_last = is_last, unfolded x(1), simplified]
  have nth: "reassdatagrams s ! length pre = r" "\<And>z. (reassdatagrams s)[length pre := z] = pre @ z # post" using rs by simp_all
  note run = ip4_reass_into_def Let_def t nth v fits span_end_def [of bs, symmetric] is_last_def [symmetric] IP_HLEN_def
  have u: "(ucast (20 :: u8) :: u16) = 20" by simp
  have bit: "(x OR IP_REASS_FLAG_LASTFRAG) AND IP_REASS_FLAG_LASTFRAG \<noteq> 0" for x
    by (simp add: IP_REASS_FLAG_LASTFRAG_def bit.conj_disj_distrib2)
  show ?thesis
  proof (cases x)
    case None
    then show ?thesis by (simp add: run)
  next
    case (Some y)
    obtain l v rest where y: "y = (l, v, rest)" by (cases y) auto
    obtain ok final where nh: "no_holes (frag_of p bs) rest = (ok, final)" by fastforce
    show ?thesis
      unfolding run u with_frag_def unfolding Some y
      by (cases is_last; cases "v \<and> fr_start (hd l) = 0 \<and> ok") (use nh bit fits in auto)
  qed
qed

text \<open>The queue is in order after it; and the datagram is complete when it is.\<close>

lemma reass_into_taken:
  assumes b: "reass_base L B D s" and inc: "incoming L D p as bs s"
    and rs: "reassdatagrams s = pre @ r # post" and ne: "\<forall>x\<in>set (pre @ post). rd_frags x \<noteq> []"
    and key: "frag_key (rd_iphdr r) = frag_key bs" and room: "unat (ip_reass_pbufcount s) + length as \<le> IP_REASS_MAX_PBUFS"
    and chk: "ie_chksum e = lwip_standard_chksum_2"
    and x: "chain_insert None True (frag_of p bs) (rd_frags r) = Some (Some (l, v, rest))"
    and s1: "s1 = reass_queued as bs l pre r post s" and L': "L' = L(p := as)" "B' = B(p := bs)"
  shows "reass_inv L' B' D s1"
    "if rd_flags (with_frag bs l r) AND IP_REASS_FLAG_LASTFRAG \<noteq> 0 \<and> contig 0 l
     then \<exists>s' q. ip4_reass_into e p (take 20 bs) (of_nat (length as)) (length pre) s = Some (s', Some q) \<and> reass_inv L' B' D s' \<and>
       result_ok D bs L' s' (Some q) \<and> reassdatagrams s' = pre @ post \<and>
       keeps (i_hp s) (as @ concat (map L (queued_bufs (reassdatagrams s)))) (i_hp s') \<and> i_world s' = i_world s
     else ip4_reass_into e p (take 20 bs) (of_nat (length as)) (length pre) s = Some (s1, None)"
proof -
  let ?f = "frag_of p bs"
  have fo: "fragment_of D bs" using inc by (simp add: incoming_def)
  have dr: "datagram_ok (i_hp s) L B D r" using b rs by (auto simp: reass_base_def)
  have pe: "prev_end None = 0" by (simp add: prev_end_def)
  have "frag_chain (prev_end None) (rd_frags r)" "prev_end None \<le> unat (fr_start ?f)" "fr_start ?f \<le> fr_end ?f"
    using dr fragment_span(3) [OF fo] by (simp_all add: pe datagram_ok_def Let_def frag_of_def)
  from chain_insert_ok [OF this, of True] x obtain xs where
    xs: "rd_frags r = xs @ rest" "l = xs @ ?f # rest" "frag_chain 0 l" "v \<longleftrightarrow> up_to None (xs @ [?f])"
    by (auto simp: pe)
  have b1: "reass_base L' B' D s1"
    unfolding s1 L' reass_queued_def
    by (rule reass_base_insert [OF b inc rs key xs(1) _ frag_of_def _ room]) (use xs in \<open>auto simp: with_frag_def\<close>)
  have rs1: "reassdatagrams s1 = pre @ with_frag bs l r # post" and hp1: "i_hp s1 = i_hp s" "i_world s1 = i_world s"
    by (simp_all add: s1 reass_queued_def)
  have ne1: "\<forall>x\<in>set (pre @ with_frag bs l r # post). rd_frags x \<noteq> []" using ne xs(2) by auto
  show i1: "reass_inv L' B' D s1" using b1 ne1 rs1 by (simp add: reass_inv_base)
  have c: "v \<and> fr_start (hd l) = 0 \<and> fst (no_holes ?f rest) \<longleftrightarrow> contig 0 l"
    unfolding xs(2,4) complete_chain no_holes_contig by blast
  show "if rd_flags (with_frag bs l r) AND IP_REASS_FLAG_LASTFRAG \<noteq> 0 \<and> contig 0 l
     then \<exists>s' q. ip4_reass_into e p (take 20 bs) (of_nat (length as)) (length pre) s = Some (s', Some q) \<and> reass_inv L' B' D s' \<and>
       result_ok D bs L' s' (Some q) \<and> reassdatagrams s' = pre @ post \<and>
       keeps (i_hp s) (as @ concat (map L (queued_bufs (reassdatagrams s)))) (i_hp s') \<and> i_world s' = i_world s
     else ip4_reass_into e p (take 20 bs) (of_nat (length as)) (length pre) s = Some (s1, None)"
  proof (cases "rd_flags (with_frag bs l r) AND IP_REASS_FLAG_LASTFRAG \<noteq> 0 \<and> contig 0 l")
    case False
    then show ?thesis unfolding reass_into_run [OF fo rs x] using c
      by (auto simp: s1 reass_queued_def Let_def simp del: with_frag_fields(3))
  next
    case True
    have "fr_pbuf (hd l) \<noteq> fr_pbuf (snd (no_holes ?f rest))"
      using reass_sane [OF b1 rs1] True c no_holes_last [of ?f rest] by (simp add: xs(2) del: with_frag_fields(3))
    then have run: "ip4_reass_into e p (take 20 bs) (of_nat (length as)) (length pre) s = ip4_reass_finish e (length pre) s1"
      unfolding reass_into_run [OF fo rs x] using c True
      by (auto simp: s1 reass_queued_def Let_def simp del: with_frag_fields(3))
    have d1: "datagram_ok (i_hp s1) L' B' D (with_frag bs l r)" using b1 rs1 by (auto simp: reass_base_def)
    then have last: "\<exists>f\<in>set (rd_frags (with_frag bs l r)). unat (fr_end f) = length (snd (D (frag_key (rd_iphdr (with_frag bs l r)))))"
      "rd_datagram_len (with_frag bs l r) = of_nat (length (snd (D (frag_key (rd_iphdr (with_frag bs l r))))))"
      using True by (auto simp: datagram_ok_def Let_def simp del: with_frag_fields(3))
    obtain s' q where s': "ip4_reass_finish e (length pre) s1 = Some (s', Some q)" "reass_inv L' B' D s'"
        "result_ok D bs L' s' (Some q)" "reassdatagrams s' = pre @ post"
        "keeps (i_hp s1) (concat (map L' (map fr_pbuf l))) (i_hp s')" "i_world s' = i_world s1"
      using reass_finish_ok [OF b1 rs1 ne1 _ last chk, of bs] True key unfolding with_frag_fields by blast
    have "keeps (i_hp s) (as @ concat (map L (queued_bufs (reassdatagrams s)))) (i_hp s')"
      unfolding hp1 [symmetric]
      by (rule keeps_more [OF s'(5)]) (use xs(1) in \<open>auto simp: rs xs(2) L' frag_of_def split: if_splits\<close>)
    then show ?thesis using True run s' hp1 by auto
  qed
qed

lemma reass_into_ok:
  assumes b: "reass_base L B D s" and inc: "incoming L D p as bs s"
    and rs: "reassdatagrams s = pre @ r # post" and ne: "\<forall>x\<in>set (pre @ post). rd_frags x \<noteq> []"
    and key: "frag_key (rd_iphdr r) = frag_key bs" and room: "unat (ip_reass_pbufcount s) + length as \<le> IP_REASS_MAX_PBUFS"
    and chk: "ie_chksum e = lwip_standard_chksum_2"
  shows "\<exists>s' res. ip4_reass_into e p (take 20 bs) (of_nat (length as)) (length pre) s = Some (s', res) \<and>
    reass_post D bs (as @ concat (map L (queued_bufs (reassdatagrams s)))) s s' res"
proof -
  note in' = inc [unfolded incoming_def]
  have fo: "fragment_of D bs" using in' by simp
  have "datagram_ok (i_hp s) L B D r" using b rs by (auto simp: reass_base_def)
  then obtain x where x: "chain_insert None True (frag_of p bs) (rd_frags r) = Some x"
    using chain_insert_ok [of None "rd_frags r" "frag_of p bs" True] fragment_span(3) [OF fo]
    by (auto simp: prev_end_def datagram_ok_def Let_def frag_of_def)
  show ?thesis
  proof (cases x)
    case None
    then have "rd_frags r \<noteq> []" using x by (cases "rd_frags r") auto
    then have ne': "\<forall>x\<in>set (pre @ r # post). rd_frags x \<noteq> []" using ne by auto
    obtain h' where h': "ip4_reass_drop p (length pre) s = Some (s\<lparr>i_hp := h'\<rparr>, None)" "reass_inv L B D (s\<lparr>i_hp := h'\<rparr>)"
        "keeps (i_hp s) as h'"
      using reass_drop_ok [OF b rs ne'] in' by metis
    have "keeps (i_hp s) (as @ concat (map L (queued_bufs (reassdatagrams s)))) h'" by (rule keeps_more [OF h'(3)]) simp
    then show ?thesis using None h' reass_into_run [OF fo rs x] by (auto simp: reass_post_def result_ok_def)
  next
    case (Some y)
    obtain l v rest where y: "y = (l, v, rest)" by (cases y) auto
    have x': "chain_insert None True (frag_of p bs) (rd_frags r) = Some (Some (l, v, rest))" using x Some y by simp
    note taken = reass_into_taken [OF b inc rs ne key room chk x' refl refl refl]
    show ?thesis
    proof (cases "rd_flags (with_frag bs l r) AND IP_REASS_FLAG_LASTFRAG \<noteq> 0 \<and> contig 0 l")
      case True
      then show ?thesis using taken(2) unfolding reass_post_def by auto
    next
      case False
      have "reass_post D bs (as @ concat (map L (queued_bufs (reassdatagrams s)))) s (reass_queued as bs l pre r post s) None"
        using taken(1) by (auto simp: reass_post_def result_ok_def reass_queued_def)
      then show ?thesis using taken(2) False by auto
    qed
  qed
qed

section \<open>Room for the fragment\<close>

abbreviation queue_bufs :: "(nat \<Rightarrow> nat list) \<Rightarrow> 'w ip_st \<Rightarrow> nat list" where
  "queue_bufs L s \<equiv> concat (map L (queued_bufs (reassdatagrams s)))"

lemma incoming_shrinks:
  assumes "incoming L D p as bs s" and "shrinks L s s'"
  shows "incoming L D p as bs s'"
proof -
  note in' = assms(1) [unfolded incoming_def] and sh = assms(2) [unfolded shrinks_def]
  have "owned (i_hp s') p as bs" using owned_keeps in' sh by metis
  moreover have "p \<in> set as" using in' by (auto elim: ownedD)
  then have "p \<notin> set (queue_bufs L s)" using in' by blast
  then have "pbufs (i_hp s') p = pbufs (i_hp s) p" using in' sh by (auto simp: keeps_def)
  moreover have "set (queue_bufs L s') \<subseteq> set (queue_bufs L s)" using sh by auto
  ultimately show ?thesis using in' unfolding incoming_def by auto
qed

lemma shrinks_count:
  assumes "reass_inv L B D s" and "reass_inv L B D s'" and "shrinks L s s'"
  shows "unat (ip_reass_pbufcount s') \<le> unat (ip_reass_pbufcount s)"
proof -
  have "set (queue_bufs L s') \<subseteq> set (queue_bufs L s)" using assms(3) by (auto simp: shrinks_def)
  then have "card (set (queue_bufs L s')) \<le> card (set (queue_bufs L s))" by (intro card_mono) auto
  then show ?thesis using assms(1,2) distinct_card by (metis reass_inv_def)
qed

lemma reass_post_shrinks:
  assumes "shrinks L s s1" and "reass_post D bs (as @ queue_bufs L s1) s1 s' res"
  shows "reass_post D bs (as @ queue_bufs L s) s s' res"
proof -
  have sub: "set (queue_bufs L s1) \<subseteq> set (queue_bufs L s)" and k: "keeps (i_hp s) (queue_bufs L s) (i_hp s1)"
    using assms(1) by (auto simp: shrinks_def)
  have k1: "keeps (i_hp s1) (as @ queue_bufs L s1) (i_hp s')" using assms(2) by (simp add: reass_post_def)
  have "keeps (i_hp s) (as @ queue_bufs L s) (i_hp s1)" by (rule keeps_more [OF k]) simp
  then have "keeps (i_hp s) (as @ queue_bufs L s) (i_hp s')" by (rule keeps_step [OF _ k1]) (use sub in auto)
  then show ?thesis using assms by (simp add: reass_post_def shrinks_def)
qed

text \<open>A fragment that is not taken is freed.\<close>

lemma reass_refuse:
  assumes i: "reass_inv L B D s" and inc: "incoming L D p as bs s"
  shows "\<exists>s'. ip_free p s = Some s' \<and> reass_post D bs (as @ queue_bufs L s) s s' None"
proof -
  have ok: "hp_ok (i_hp s)" and o: "owned (i_hp s) p as bs" and d: "set as \<inter> set (queue_bufs L s) = {}"
    using i inc by (auto simp: reass_inv_def incoming_def)
  obtain h' where h': "ip_free p s = Some (s\<lparr>i_hp := h'\<rparr>)" "hp_ok h'" "keeps (i_hp s) as h'"
    using ip_free_owned [OF ok o] by metis
  have "reass_inv L B D (s\<lparr>i_hp := h'\<rparr>)" by (rule reass_inv_fields [OF i h'(3,2)]) (use d in auto)
  moreover have "keeps (i_hp s) (as @ queue_bufs L s) h'" by (rule keeps_more [OF h'(3)]) simp
  ultimately show ?thesis using h'(1) by (auto simp: reass_post_def result_ok_def)
qed

section \<open>The entry point\<close>

lemma find_datagram_Some:
  "find_datagram hdr rs = Some i \<Longrightarrow> i < length rs \<and> frag_key (rd_iphdr (rs ! i)) = frag_key hdr"
  by (induction rs arbitrary: i) (auto simp: match_key split: if_splits)

lemma reass_old_datagram:
  assumes i: "reass_inv L B D s" and inc: "incoming L D p as bs s" and f: "find_datagram (take 20 bs) (reassdatagrams s) = Some i"
    and room: "unat (ip_reass_pbufcount s) + length as \<le> IP_REASS_MAX_PBUFS" and chk: "ie_chksum e = lwip_standard_chksum_2"
    and s1: "s1 = (if c then s\<lparr>reassdatagrams := (reassdatagrams s)[i := (reassdatagrams s ! i)\<lparr>rd_iphdr := take 20 bs\<rparr>]\<rparr> else s)"
  shows "\<exists>s' res. ip4_reass_into e p (take 20 bs) (of_nat (length as)) i s1 = Some (s', res) \<and>
    reass_post D bs (as @ queue_bufs L s) s s' res"
proof -
  let ?rs = "reassdatagrams s"
  have fo: "fragment_of D bs" using inc by (simp add: incoming_def)
  have l: "20 \<le> length bs" "bs ! 0 = 0x45" "IPH_PROTO bs = fst (D (frag_key bs))"
    using fo by (auto simp: fragment_of_def Let_def)
  note t = take_20_fields [OF l(1)]
  have i': "i < length ?rs" and key: "frag_key (rd_iphdr (?rs ! i)) = frag_key bs" using find_datagram_Some [OF f] t by auto
  define r where "r = (if c then (?rs ! i)\<lparr>rd_iphdr := take 20 bs\<rparr> else ?rs ! i)"
  have r: "rd_frags r = rd_frags (?rs ! i)" "frag_key (rd_iphdr r) = frag_key bs" using key t by (auto simp: r_def)
  have rs: "?rs = take i ?rs @ ?rs ! i # drop (Suc i) ?rs" using i' by (rule id_take_nth_drop)
  have s1': "s1 = s\<lparr>reassdatagrams := take i ?rs @ r # drop (Suc i) ?rs\<rparr>"
    using s1 rs i' by (auto simp: r_def upd_conv_take_nth_drop)
  have "?rs ! i \<in> set ?rs" using i' by simp
  then have dr: "datagram_ok (i_hp s) L B D (?rs ! i)" using i by (simp add: reass_inv_def)
  have dr': "datagram_ok (i_hp s) L B D r"
    using dr key t l by (auto simp: r_def datagram_ok_def Let_def)
  have i1: "reass_inv L B D s1" unfolding s1' by (rule reass_inv_replace [OF i rs r(1) dr'])
  have rs1: "reassdatagrams s1 = take i ?rs @ r # drop (Suc i) ?rs" by (simp add: s1')
  have q: "queued_bufs (reassdatagrams s1) = queued_bufs ?rs" by (subst rs) (simp add: rs1 r(1))
  have inc1: "incoming L D p as bs s1" using inc unfolding incoming_def q by (simp add: s1')
  have "\<forall>x\<in>set (take i ?rs @ drop (Suc i) ?rs). rd_frags x \<noteq> []"
    using i by (auto simp: reass_inv_def dest: in_set_takeD in_set_dropD)
  moreover have "reass_base L B D s1" using i1 by (simp add: reass_inv_base)
  moreover have "unat (ip_reass_pbufcount s1) + length as \<le> IP_REASS_MAX_PBUFS" using room by (simp add: s1')
  moreover have "length (take i ?rs) = i" using i' by simp
  ultimately obtain s' res where "ip4_reass_into e p (take 20 bs) (of_nat (length as)) i s1 = Some (s', res)"
      "reass_post D bs (as @ queue_bufs L s1) s1 s' res"
    using reass_into_ok [OF _ inc1 rs1 _ r(2) _ chk] by metis
  then show ?thesis unfolding q by (auto simp: reass_post_def s1')
qed

lemma reass_new_datagram:
  assumes e: "env_ok e" and chk: "ie_chksum e = lwip_standard_chksum_2" and i: "reass_inv L B D s" and inc: "incoming L D p as bs s"
    and room: "unat (ip_reass_pbufcount s) + length as \<le> IP_REASS_MAX_PBUFS"
  shows "\<exists>s1 ok s' res. ip_reass_enqueue_new_datagram e (take 20 bs) n s = Some (s1, ok) \<and>
    (if ok then ip4_reass_into e p (take 20 bs) (of_nat (length as)) 0 s1
     else do { s2 \<leftarrow> ip_free p s1; Some (s2, None) }) = Some (s', res) \<and>
    reass_post D bs (as @ queue_bufs L s) s s' res"
proof -
  have fo: "fragment_of D bs" using inc by (simp add: incoming_def)
  have l: "20 \<le> length bs" "bs ! 0 = 0x45" "IPH_PROTO bs = fst (D (frag_key bs))" "length (snd (D (frag_key bs))) \<le> 65515"
    using fo by (auto simp: fragment_of_def Let_def)
  note t = take_20_fields [OF l(1)]
  obtain s0 ok where s0: "(if ie_reassdata e s then Some (s, True)
        else do { (s, k) \<leftarrow> ip_reass_remove_oldest_datagram e (take 20 bs) n s; Some (s, k \<ge> n \<and> ie_reassdata e s) }) = Some (s0, ok)"
      "reass_inv L B D s0" "shrinks L s s0"
  proof (cases "ie_reassdata e s")
    case False
    obtain s0 k where "ip_reass_remove_oldest_datagram e (take 20 bs) n s = Some (s0, k)" "reass_inv L B D s0" "shrinks L s s0"
      using remove_oldest_ok [OF e i] unfolding ip_reass_remove_oldest_datagram_def by metis
    then show thesis using False by (intro that [of s0 "k \<ge> n \<and> ie_reassdata e s0"]) simp_all
  qed (use i that in simp)
  define r where "r = \<lparr>rd_frags = [], rd_iphdr = take 20 bs, rd_datagram_len = 0, rd_flags = 0, rd_timer = IP_REASS_MAXAGE\<rparr>"
  define s1 where "s1 = (if ok then s0\<lparr>reassdatagrams := r # reassdatagrams s0\<rparr> else s0)"
  have enq: "ip_reass_enqueue_new_datagram e (take 20 bs) n s = Some (s1, ok)"
    using s0(1) by (simp add: ip_reass_enqueue_new_datagram_def s1_def r_def IP_HLEN_def)
  have inc0: "incoming L D p as bs s0" by (rule incoming_shrinks [OF inc s0(3)])
  show ?thesis
  proof (cases ok)
    case False
    then obtain s' where "ip_free p s1 = Some s'" "reass_post D bs (as @ queue_bufs L s0) s0 s' None"
      using reass_refuse [OF s0(2) inc0] by (auto simp: s1_def)
    then show ?thesis using enq False reass_post_shrinks [OF s0(3)] by auto
  next
    case True
    have rs1: "reassdatagrams s1 = [] @ r # reassdatagrams s0" using True by (simp add: s1_def)
    have q: "queued_bufs (reassdatagrams s1) = queued_bufs (reassdatagrams s0)" by (simp add: rs1 r_def)
    have dr: "datagram_ok (i_hp s0) L B D r" using l t by (simp add: datagram_ok_def r_def Let_def)
    have b1: "reass_base L B D s1"
      using s0(2) dr True unfolding reass_inv_base reass_base_def q by (simp add: s1_def)
    have inc1: "incoming L D p as bs s1" using inc0 unfolding incoming_def q by (simp add: s1_def)
    have room1: "unat (ip_reass_pbufcount s1) + length as \<le> IP_REASS_MAX_PBUFS"
      using shrinks_count [OF i s0(2,3)] room by (simp add: s1_def)
    have ne: "\<forall>x\<in>set ([] @ reassdatagrams s0). rd_frags x \<noteq> []" using s0(2) by (simp add: reass_inv_def)
    have key: "frag_key (rd_iphdr r) = frag_key bs" using t by (simp add: r_def)
    obtain s' res where s': "ip4_reass_into e p (take 20 bs) (of_nat (length as)) (length ([] :: reassdata list)) s1 = Some (s', res)"
        "reass_post D bs (as @ queue_bufs L s1) s1 s' res"
      using reass_into_ok [OF b1 inc1 rs1 ne key room1 chk] by blast
    have "reass_post D bs (as @ queue_bufs L s0) s0 s' res"
      using s'(2) True unfolding q by (simp add: reass_post_def s1_def)
    then show ?thesis using enq True s'(1) reass_post_shrinks [OF s0(3)] by auto
  qed
qed

text \<open>What \<^verbatim>\<open>ip4_reass\<close> does with a fragment for which there is room.\<close>

definition reass_place :: "'w ip_env \<Rightarrow> nat \<Rightarrow> u8 list \<Rightarrow> u16 \<Rightarrow> 'w ip_st \<Rightarrow> ('w ip_st \<times> nat option) option" where
  "reass_place e p hdr clen s = (case find_datagram hdr (reassdatagrams s) of
       Some i \<Rightarrow>
         (let ipr = reassdatagrams s ! i;
              s = (if lwip_ntohs (IPH_OFFSET hdr) AND IP_OFFMASK = 0 \<and> lwip_ntohs (IPH_OFFSET (rd_iphdr ipr)) AND IP_OFFMASK \<noteq> 0
                   then s\<lparr>reassdatagrams := (reassdatagrams s)[i := ipr\<lparr>rd_iphdr := take IP_HLEN hdr\<rparr>]\<rparr> else s)
          in ip4_reass_into e p hdr clen i s)
     | None \<Rightarrow> do {
         (s, ok) \<leftarrow> ip_reass_enqueue_new_datagram e hdr (int (unat clen)) s;
         (if ok then ip4_reass_into e p hdr clen 0 s
          else do { s \<leftarrow> ip_free p s; Some (s, None) }) })"

lemma ip4_reass_run:
  assumes inc: "incoming L D p as bs s" and c: "clen = of_nat (length as)" and h: "hdr = take 20 bs"
  shows "ip4_reass e p s = do {
     (s, room) \<leftarrow>
       (if unat (ip_reass_pbufcount s) + unat clen > IP_REASS_MAX_PBUFS
        then do {
          (s, n) \<leftarrow> ip_reass_remove_oldest_datagram e hdr (int (unat clen)) s;
          Some (s, n \<noteq> 0 \<and> unat (ip_reass_pbufcount s) + unat clen \<le> IP_REASS_MAX_PBUFS) }
        else Some (s, True));
     (if \<not> room then do { s \<leftarrow> ip_free p s; Some (s, None) } else reass_place e p hdr clen s) }"
proof -
  note in' = inc [unfolded incoming_def]
  have fo: "fragment_of D bs" and o: "owned (i_hp s) p as bs" using in' by auto
  obtain q where q: "pbufs (i_hp s) p = Some q" "20 \<le> unat (pb_len q)" using in' by (auto split: if_splits)
  have l: "20 \<le> length bs" "bs ! 0 = 0x45" "unat (lwip_ntohs (IPH_LEN bs)) = length bs" using fo by (auto simp: fragment_of_def Let_def)
  have ld: "load (bytes (i_hp s)) (pb_payload q) IP_HLEN = Some hdr"
    using owned_load [OF o q(1), of 0 20] q(2) by (simp add: h IP_HLEN_def)
  have hl: "\<not> (unat (IPH_HL_BYTES hdr) \<noteq> IP_HLEN \<or> ucast (IPH_HL_BYTES hdr) > lwip_ntohs (IPH_LEN hdr))"
    using l(1,3) by (simp add: word_less_nat_alt h take_20_fields [OF l(1)] header_45 [OF l(2)] IP_HLEN_def)
  show ?thesis
    using q(1) ld hl owned_clen [OF o, folded c] unfolding reass_place_def by (simp add: ip4_reass_def)
qed

lemma reass_place_ok:
  assumes e: "env_ok e" and chk: "ie_chksum e = lwip_standard_chksum_2" and i: "reass_inv L B D s" and inc: "incoming L D p as bs s"
    and r: "unat (ip_reass_pbufcount s) + length as \<le> IP_REASS_MAX_PBUFS"
  shows "\<exists>s' res. reass_place e p (take 20 bs) (of_nat (length as)) s = Some (s', res) \<and> reass_post D bs (as @ queue_bufs L s) s s' res"
proof (cases "find_datagram (take 20 bs) (reassdatagrams s)")
  case None
  then show ?thesis using reass_new_datagram [OF e chk i inc r, of "int (unat (of_nat (length as) :: u16))"]
    by (auto simp: reass_place_def)
next
  case (Some j)
  let ?c = "lwip_ntohs (IPH_OFFSET (take 20 bs)) AND IP_OFFMASK = 0 \<and> lwip_ntohs (IPH_OFFSET (rd_iphdr (reassdatagrams s ! j))) AND IP_OFFMASK \<noteq> 0"
  have h: "take IP_HLEN (take 20 bs) = take 20 bs" by (simp add: IP_HLEN_def)
  from reass_old_datagram [OF i inc Some r chk refl, of ?c] show ?thesis
    unfolding reass_place_def Some option.case Let_def h by (simp split del: if_split)
qed

lemma ip4_reass_ok:
  assumes e: "env_ok e" and chk: "ie_chksum e = lwip_standard_chksum_2" and i: "reass_inv L B D s" and inc: "incoming L D p as bs s"
  shows "\<exists>s' res. ip4_reass e p s = Some (s', res) \<and> reass_post D bs (as @ queue_bufs L s) s s' res"
proof -
  define clen where "clen = (of_nat (length as) :: u16)"
  have cl: "unat clen = length as" using inc by (simp add: incoming_def unat_of_nat_u16 clen_def)
  obtain s1 room where s1: "(if unat (ip_reass_pbufcount s) + unat clen > IP_REASS_MAX_PBUFS
           then do {
             (s, n) \<leftarrow> ip_reass_remove_oldest_datagram e (take 20 bs) (int (unat clen)) s;
             Some (s, n \<noteq> 0 \<and> unat (ip_reass_pbufcount s) + unat clen \<le> IP_REASS_MAX_PBUFS) }
           else Some (s, True)) = Some (s1, room)"
      "reass_inv L B D s1" "shrinks L s s1" "room \<longrightarrow> unat (ip_reass_pbufcount s1) + length as \<le> IP_REASS_MAX_PBUFS"
  proof (cases "unat (ip_reass_pbufcount s) + length as > IP_REASS_MAX_PBUFS")
    case True
    obtain s1 k where "ip_reass_remove_oldest_datagram e (take 20 bs) (int (unat clen)) s = Some (s1, k)" "reass_inv L B D s1" "shrinks L s s1"
      using remove_oldest_ok [OF e i] unfolding ip_reass_remove_oldest_datagram_def by metis
    then show thesis using True
      by (intro that [of s1 "k \<noteq> 0 \<and> unat (ip_reass_pbufcount s1) + length as \<le> IP_REASS_MAX_PBUFS"]) (simp_all add: cl)
  qed (use i that in \<open>simp add: cl\<close>)
  have inc1: "incoming L D p as bs s1" by (rule incoming_shrinks [OF inc s1(3)])
  have run: "ip4_reass e p s = (if \<not> room then do { s \<leftarrow> ip_free p s1; Some (s, None) } else reass_place e p (take 20 bs) clen s1)"
    unfolding ip4_reass_run [OF inc clen_def refl] s1(1) by simp
  have "\<exists>s' res. ip4_reass e p s = Some (s', res) \<and> reass_post D bs (as @ queue_bufs L s1) s1 s' res"
  proof (cases room)
    case False
    then show ?thesis using reass_refuse [OF s1(2) inc1] by (auto simp: run)
  next
    case True
    then show ?thesis using reass_place_ok [OF e chk s1(2) inc1] s1(4) by (simp add: run clen_def)
  qed
  then show ?thesis using reass_post_shrinks [OF s1(3)] by blast
qed

end
