(* ===== verification/Reass_props.thy ===== *)
theory Reass_props imports Reass_take begin

text \<open>
  The properties of reassembly: fragments of any datagrams in any order and any number, the timer
  and the rest of the stack in between; and the fragments of one datagram in any order.
\<close>

section \<open>Histories of the queue\<close>

text \<open>The datagram of the key \<open>k\<close> as a packet: a header that verifies, then the data.\<close>

definition whole_datagram :: "datagrams \<Rightarrow> ip4_addr_t \<times> ip4_addr_t \<times> u16 \<Rightarrow> hp \<Rightarrow> nat \<Rightarrow> bool" where
  "whole_datagram D k h q \<longleftrightarrow> (\<exists>as hdr a. owned h q as (hdr @ snd (D k)) \<and> length hdr = 20 \<and> hdr ! 0 = 0x45 \<and>
     lwip_ntohs (IPH_LEN hdr) = of_nat (20 + length (snd (D k))) \<and> IPH_OFFSET hdr = 0 \<and>
     IPH_PROTO hdr = fst (D k) \<and> frag_key hdr = k \<and> inet_chksum lwip_standard_chksum_2 a hdr = 0)"

lemma result_whole: "result_ok D bs L s (Some q) \<Longrightarrow> whole_datagram D (frag_key bs) (i_hp s) q"
  unfolding result_ok_def whole_datagram_def option.case by blast

text \<open>Buffers that are not in the queue.\<close>

definition not_queued :: "nat list \<Rightarrow> 'w ip_st \<Rightarrow> bool" where
  "not_queued as s \<longleftrightarrow> (\<forall>b\<in>set (queued_bufs (reassdatagrams s)). \<forall>bs. packet (i_hp s) (Some b) bs \<longrightarrow> set as \<inter> set bs = {})"

text \<open>A fragment that comes in: its first buffer holds the header and, of the first fragment, the
  eight bytes a time exceeded message quotes.\<close>

definition arriving :: "datagrams \<Rightarrow> nat \<Rightarrow> u8 list \<Rightarrow> 'w ip_st \<Rightarrow> bool" where
  "arriving D p bs s \<longleftrightarrow> (\<exists>as. owned (i_hp s) p as bs \<and>
     (\<exists>q. pbufs (i_hp s) p = Some q \<and> (if IPH_OFFSET_BYTES bs = 0 then 28 else 20) \<le> unat (pb_len q)) \<and>
     not_queued as s \<and> fragment_of D bs \<and> length as < 65536)"

text \<open>The queue's histories: fragments, the timer, and whatever else the stack does to other buffers.\<close>

inductive reass_run :: "'w ip_env \<Rightarrow> datagrams \<Rightarrow> 'w ip_st \<Rightarrow> bool" for e D where
  run_start: "hp_ok (i_hp s) \<Longrightarrow> reassdatagrams s = [] \<Longrightarrow> ip_reass_pbufcount s = 0 \<Longrightarrow> reass_run e D s"
| run_fragment: "reass_run e D s \<Longrightarrow> arriving D p bs s \<Longrightarrow> ip4_reass e p s = Some (s', res) \<Longrightarrow> reass_run e D s'"
| run_timer: "reass_run e D s \<Longrightarrow> ip_reass_tmr e s = Some s' \<Longrightarrow> reass_run e D s'"
| run_others: "reass_run e D s \<Longrightarrow> not_queued zs s \<Longrightarrow> keeps (i_hp s) zs h' \<Longrightarrow> hp_ok h' \<Longrightarrow>
    reass_run e D (s\<lparr>i_hp := h', ip_id := j, i_sent := out, i_world := w\<rparr>)"

lemma queued_packet:
  assumes i: "reass_inv L B D s" and b: "b \<in> set (queued_bufs (reassdatagrams s))"
  shows "packet (i_hp s) (Some b) (L b)"
proof -
  obtain r f where "r \<in> set (reassdatagrams s)" "f \<in> set (rd_frags r)" "fr_pbuf f = b"
    using b by (auto simp: queued_bufs_def)
  then have "owned (i_hp s) b (L b) (B b)" using i by (auto simp: reass_inv_def datagram_ok_def Let_def frag_ok_def)
  then show ?thesis by (simp add: owned_def)
qed

lemma not_queued_inv:
  assumes i: "reass_inv L B D s" and n: "not_queued as s"
  shows "set as \<inter> set (queue_bufs L s) = {}"
  using n queued_packet [OF i] by (auto simp: not_queued_def)

lemma arriving_incoming:
  assumes i: "reass_inv L B D s" and a: "arriving D p bs s"
  shows "\<exists>as. incoming L D p as bs s"
proof -
  obtain as where as: "owned (i_hp s) p as bs" "not_queued as s" "fragment_of D bs" "length as < 65536"
      "\<exists>q. pbufs (i_hp s) p = Some q \<and> (if IPH_OFFSET_BYTES bs = 0 then 28 else 20) \<le> unat (pb_len q)"
    using a unfolding arriving_def by blast
  then show ?thesis using not_queued_inv [OF i as(2)] unfolding incoming_def by blast
qed

lemma reass_run_inv:
  assumes e: "env_ok e" and chk: "ie_chksum e = lwip_standard_chksum_2"
  shows "reass_run e D s \<Longrightarrow> \<exists>L B. reass_inv L B D s"
proof (induction rule: reass_run.induct)
  case (run_start s)
  then show ?case by (simp add: reass_inv_def)
next
  case (run_fragment s p bs s' res)
  then obtain L B as where i: "reass_inv L B D s" and "incoming L D p as bs s" using arriving_incoming by blast
  from ip4_reass_ok [OF e chk this] run_fragment.hyps(3) show ?case by (auto simp: reass_post_def)
next
  case (run_timer s s')
  then obtain L B where "reass_inv L B D s" by blast
  from tmr_from_ok [OF e this, of 0] run_timer.hyps(2) show ?case by (auto simp: ip_reass_tmr_def)
next
  case (run_others s zs h' w out j)
  then obtain L B where i: "reass_inv L B D s" by blast
  have "set (queue_bufs L s) \<inter> set zs = {}" using not_queued_inv [OF i run_others.hyps(2)] by blast
  then have "reass_inv L B D (s\<lparr>i_hp := h', ip_id := j, i_sent := out, i_world := w\<rparr>)"
    by (intro reass_inv_fields [OF i run_others.hyps(3,4)]) simp_all
  then show ?case by blast
qed

section \<open>The timer\<close>

text \<open>What the timer does to the queue: it frees what has had its time and ages the rest.\<close>

definition tick :: "reassdata list \<Rightarrow> reassdata list" where
  "tick rs = map (\<lambda>r. r\<lparr>rd_timer := rd_timer r - 1\<rparr>) (filter (\<lambda>r. rd_timer r > 0) rs)"

lemma tmr_from_tick:
  "env_ok e \<Longrightarrow> reass_inv L B D s \<Longrightarrow> ip_reass_tmr_from e i s = Some s' \<Longrightarrow> i \<le> length (reassdatagrams s) \<Longrightarrow>
   reassdatagrams s' = take i (reassdatagrams s) @ tick (drop i (reassdatagrams s))"
proof (induction "length (reassdatagrams s) - i" arbitrary: i s)
  case 0
  then show ?case by (subst (asm) ip_reass_tmr_from.simps) (simp add: tick_def)
next
  case (Suc k)
  let ?rs = "reassdatagrams s"
  have i: "i < length ?rs" using Suc.hyps(2) by linarith
  have rs: "?rs = take i ?rs @ (?rs ! i) # drop (Suc i) ?rs" using i by (rule id_take_nth_drop)
  have d: "drop i ?rs = ?rs ! i # drop (Suc i) ?rs" using i by (simp add: Cons_nth_drop_Suc)
  show ?case
  proof (cases "rd_timer (?rs ! i) > 0")
    case True
    let ?r = "(?rs ! i)\<lparr>rd_timer := rd_timer (?rs ! i) - 1\<rparr>"
    define s1 where "s1 = s\<lparr>reassdatagrams := ?rs[i := ?r]\<rparr>"
    have u: "?rs[i := ?r] = take i ?rs @ ?r # drop (Suc i) ?rs" using i by (rule upd_conv_take_nth_drop)
    have "?rs ! i \<in> set ?rs" using i by simp
    then have "datagram_ok (i_hp s) L B D ?r" using Suc.prems(2) by (simp add: reass_inv_def)
    then have i1: "reass_inv L B D s1" unfolding s1_def u
      by (intro reass_inv_replace [OF Suc.prems(2) rs]) simp_all
    have "ip_reass_tmr_from e (Suc i) s1 = Some s'"
      using Suc.prems(3) True i by (subst (asm) ip_reass_tmr_from.simps) (simp add: s1_def Let_def)
    then have "reassdatagrams s' = take (Suc i) (reassdatagrams s1) @ tick (drop (Suc i) (reassdatagrams s1))"
      using Suc.hyps(2) i by (intro Suc.hyps(1) [OF _ Suc.prems(1) i1]) (simp_all add: s1_def)
    then show ?thesis using True i d by (simp add: s1_def u tick_def take_Suc_conv_app_nth nth_append)
  next
    case False
    obtain s1 n where s1: "ip_reass_free_complete_datagram e i s = Some (s1, n)" "reass_inv L B D s1"
        "reassdatagrams s1 = take i ?rs @ drop (Suc i) ?rs"
      using free_datagram_shrinks [OF Suc.prems(1,2) i] by blast
    have "ip_reass_tmr_from e i s1 = Some s'"
      using Suc.prems(3) False i s1(1) by (subst (asm) ip_reass_tmr_from.simps) simp
    then have "reassdatagrams s' = take i (reassdatagrams s1) @ tick (drop i (reassdatagrams s1))"
      using Suc.hyps(2) i s1(3) by (intro Suc.hyps(1) [OF _ Suc.prems(1) s1(2)]) simp_all
    then show ?thesis using False i d s1(3) by (simp add: tick_def)
  qed
qed

end
