(* ===== verification/Reass_any.thy ===== *)
theory Reass_any imports Reass_props begin

text \<open>
  The fragments of one datagram, in any order: none is dropped, and with the one that fills the
  last hole the datagram is handed on.
\<close>

section \<open>Chains without holes\<close>

text \<open>A fragment that overlaps no other is taken.\<close>

lemma chain_insert_taken:
  "frag_chain (prev_end prev) fs \<Longrightarrow> prev_end prev \<le> unat (fr_start f) \<Longrightarrow> fr_start f < fr_end f \<Longrightarrow>
   \<forall>q\<in>set fs. fr_start q < fr_end q \<and> (fr_end q \<le> fr_start f \<or> fr_end f \<le> fr_start q) \<Longrightarrow>
   \<exists>x. chain_insert prev valid f fs = Some (Some x)"
proof (induction prev valid f fs rule: chain_insert.induct)
  case (1 prev valid f)
  then show ?case by (auto simp: prev_end_def word_le_nat_alt split: option.splits)
next
  case (2 prev valid f q qs)
  have q: "fr_start q < fr_end q" "fr_end q \<le> fr_start f \<or> fr_end f \<le> fr_start q" using "2.prems" by auto
  show ?case
  proof (cases "fr_start f < fr_start q")
    case True
    then have "fr_end f \<le> fr_start q" using q by auto
    then show ?thesis using True "2.prems"(2) by (auto simp: prev_end_def word_le_nat_alt word_less_nat_alt split: option.splits)
  next
    case False
    have n: "fr_start f \<noteq> fr_start q" "\<not> fr_start f < fr_end q" using q "2.prems"(3) False by auto
    have c: "frag_chain (prev_end (Some q)) qs" "prev_end (Some q) \<le> unat (fr_start f)"
      using "2.prems"(1) n(2) by (auto simp: prev_end_def word_le_nat_alt word_less_nat_alt)
    have "\<exists>x. chain_insert (Some q) (case prev of Some p \<Rightarrow> valid \<and> fr_end p = fr_start q | None \<Rightarrow> valid) f qs = Some (Some x)"
      by (rule "2.IH") (use False n c "2.prems"(3,4) in auto)
    then show ?thesis using False n by auto
  qed
qed

definition covers :: "reass_frag set \<Rightarrow> nat \<Rightarrow> nat \<Rightarrow> bool" where
  "covers F m n \<longleftrightarrow> (\<forall>x. m \<le> x \<and> x < n \<longrightarrow> (\<exists>f\<in>F. unat (fr_start f) \<le> x \<and> x < unat (fr_end f)))"

lemma frag_chain_from: "frag_chain n fs \<Longrightarrow> f \<in> set fs \<Longrightarrow> n \<le> unat (fr_start f)"
proof (induction fs arbitrary: n)
  case (Cons g fs)
  then show ?case by (auto simp: word_le_nat_alt dest: Cons.IH)
qed simp

lemma covers_contig:
  "frag_chain n l \<Longrightarrow> \<forall>f\<in>set l. fr_start f < fr_end f \<and> unat (fr_end f) \<le> N \<Longrightarrow> covers (set l) n N \<Longrightarrow> contig n l"
proof (induction l arbitrary: n)
  case (Cons f l)
  have f: "n \<le> unat (fr_start f)" "unat (fr_start f) < unat (fr_end f)" "unat (fr_end f) \<le> N" "frag_chain (unat (fr_end f)) l"
    using Cons.prems(1,2) by (auto simp: word_less_nat_alt)
  have later: "unat (fr_end f) \<le> unat (fr_start g)" if "g \<in> set l" for g using frag_chain_from [OF f(4) that] .
  have "unat (fr_start f) \<le> n"
    using Cons.prems(3) f later unfolding covers_def by (metis le_trans less_le_trans linorder_not_less order_refl set_ConsD)
  moreover have "covers (set l) (unat (fr_end f)) N"
    unfolding covers_def
  proof (intro allI impI)
    fix x assume x: "unat (fr_end f) \<le> x \<and> x < N"
    then have "n \<le> x \<and> x < N" using f by linarith
    then obtain g where "g \<in> set (f # l)" "unat (fr_start g) \<le> x" "x < unat (fr_end g)"
      using Cons.prems(3) unfolding covers_def by blast
    then show "\<exists>g\<in>set l. unat (fr_start g) \<le> x \<and> x < unat (fr_end g)" using x by auto
  qed
  ultimately show ?case using Cons.IH [OF f(4)] Cons.prems(2) f(1) by simp
qed simp

lemma contig_covers: "contig n l \<Longrightarrow> g \<in> set l \<Longrightarrow> covers (set l) n (unat (fr_end g))"
proof (induction l arbitrary: n)
  case (Cons f l)
  show ?case
    unfolding covers_def
  proof (intro allI impI)
    fix x assume x: "n \<le> x \<and> x < unat (fr_end g)"
    show "\<exists>h\<in>set (f # l). unat (fr_start h) \<le> x \<and> x < unat (fr_end h)"
    proof (cases "x < unat (fr_end f)")
      case True
      then show ?thesis using x Cons.prems(1) by auto
    next
      case False
      then have g: "g \<in> set l" using x Cons.prems(2) by auto
      have "covers (set l) (unat (fr_end f)) (unat (fr_end g))" using Cons.IH [OF _ g] Cons.prems(1) by simp
      then show ?thesis using False x unfolding covers_def by auto
    qed
  qed
qed simp

section \<open>What has arrived\<close>

abbreviation frag_at :: "(nat \<Rightarrow> u8 list) \<Rightarrow> nat \<Rightarrow> reass_frag" where
  "frag_at B p \<equiv> frag_of p (B p)"

text \<open>A fragment of the datagram of \<open>k\<close>, with data.\<close>

definition piece_of :: "(nat \<Rightarrow> u8 list) \<Rightarrow> datagrams \<Rightarrow> ip4_addr_t \<times> ip4_addr_t \<times> u16 \<Rightarrow> nat \<Rightarrow> bool" where
  "piece_of B D k p \<longleftrightarrow> fragment_of D (B p) \<and> frag_key (B p) = k \<and> 20 < length (B p)"

definition disjoint_frags :: "(nat \<Rightarrow> u8 list) \<Rightarrow> nat \<Rightarrow> nat \<Rightarrow> bool" where
  "disjoint_frags B p q \<longleftrightarrow> fr_end (frag_at B p) \<le> fr_start (frag_at B q) \<or> fr_end (frag_at B q) \<le> fr_start (frag_at B p)"

definition so_far :: "(nat \<Rightarrow> u8 list) \<Rightarrow> ip4_addr_t \<times> ip4_addr_t \<times> u16 \<Rightarrow> nat set \<Rightarrow> reassdata \<Rightarrow> bool" where
  "so_far B k ds r \<longleftrightarrow> frag_key (rd_iphdr r) = k \<and> set (rd_frags r) = frag_at B ` ds \<and>
     ((\<exists>p\<in>ds. IPH_OFFSET (B p) AND lwip_ntohs IP_MF = 0) \<longrightarrow> rd_flags r AND IP_REASS_FLAG_LASTFRAG \<noteq> 0)"

lemma piece_span:
  assumes "piece_of B D k p"
  shows "fr_start (frag_at B p) < fr_end (frag_at B p)" "unat (fr_end (frag_at B p)) \<le> length (snd (D k))"
    "IPH_OFFSET (B p) AND lwip_ntohs IP_MF = 0 \<longleftrightarrow> unat (fr_end (frag_at B p)) = length (snd (D k))"
    "fr_pbuf (frag_at B p) = p"
  using fragment_span [of D "B p"] assms by (auto simp: piece_of_def frag_of_def word_less_nat_alt)

text \<open>The next fragment of the datagram.\<close>

lemma next_piece:
  assumes b: "reass_base L B D s" and inc: "incoming L D p (L p) (B p) s" and rs: "reassdatagrams s = [r]"
    and sf: "so_far B k ds r" and pc: "piece_of B D k p" "\<forall>q\<in>ds. piece_of B D k q" and ap: "\<forall>q\<in>ds. disjoint_frags B q p"
    and room: "unat (ip_reass_pbufcount s) + length (L p) \<le> IP_REASS_MAX_PBUFS" and chk: "ie_chksum e = lwip_standard_chksum_2"
  shows "\<exists>s1 r1. reass_inv L B D s1 \<and> reassdatagrams s1 = [r1] \<and> so_far B k (insert p ds) r1 \<and> i_hp s1 = i_hp s \<and>
    unat (ip_reass_pbufcount s1) = unat (ip_reass_pbufcount s) + length (L p) \<and>
    (if covers (frag_at B ` insert p ds) 0 (length (snd (D k)))
     then \<exists>s' q. ip4_reass_into e p (take 20 (B p)) (of_nat (length (L p))) 0 s = Some (s', Some q) \<and>
       whole_datagram D k (i_hp s') q \<and> reassdatagrams s' = []
     else ip4_reass_into e p (take 20 (B p)) (of_nat (length (L p))) 0 s = Some (s1, None))"
proof -
  let ?f = "frag_at B p"
  have key: "frag_key (rd_iphdr r) = frag_key (B p)" using sf pc(1) by (simp add: so_far_def piece_of_def)
  have fr: "set (rd_frags r) = frag_at B ` ds" using sf by (simp add: so_far_def)
  have dr: "datagram_ok (i_hp s) L B D r" using b rs by (simp add: reass_base_def)
  have pe: "prev_end None = 0" by (simp add: prev_end_def)
  have fc: "frag_chain (prev_end None) (rd_frags r)" "prev_end None \<le> unat (fr_start ?f)" "fr_start ?f \<le> fr_end ?f"
    using dr piece_span(1) [OF pc(1)] by (simp_all add: pe datagram_ok_def Let_def)
  have "\<forall>q\<in>set (rd_frags r). fr_start q < fr_end q \<and> (fr_end q \<le> fr_start ?f \<or> fr_end ?f \<le> fr_start q)"
    using ap pc(2) piece_span(1) [where k = k] by (auto simp: fr disjoint_frags_def)
  from chain_insert_taken [OF fc(1,2) piece_span(1) [OF pc(1)] this, of True] obtain l v rest
    where x: "chain_insert None True ?f (rd_frags r) = Some (Some (l, v, rest))" by auto
  from chain_insert_ok [OF fc, of True] x have l: "set l = insert ?f (set (rd_frags r))" "frag_chain 0 l" by (auto simp: pe)
  define s1 where "s1 = reass_queued (L p) (B p) l [] r [] s"
  define r1 where "r1 = with_frag (B p) l r"
  have L: "L = L(p := L p)" "B = B(p := B p)" by simp_all
  have rs0: "reassdatagrams s = [] @ r # []" using rs by simp
  note taken = reass_into_taken [OF b inc rs0 _ key room chk x s1_def L, folded r1_def, simplified]
  have rs1: "reassdatagrams s1 = [r1]" "i_hp s1 = i_hp s" by (simp_all add: s1_def reass_queued_def r1_def)
  have sl: "set l = frag_at B ` insert p ds" using l(1) fr by auto
  have sf1: "so_far B k (insert p ds) r1" using sf sl by (auto simp: so_far_def r1_def)
  have cnt: "unat (ip_reass_pbufcount s1) = unat (ip_reass_pbufcount s) + length (L p)"
    using room by (simp add: s1_def reass_queued_def IP_REASS_MAX_PBUFS_def unat_add_small unat_of_nat_u16)
  have iff: "rd_flags r1 AND IP_REASS_FLAG_LASTFRAG \<noteq> 0 \<and> contig 0 l \<longleftrightarrow> covers (frag_at B ` insert p ds) 0 (length (snd (D k)))"
  proof
    assume a: "rd_flags r1 AND IP_REASS_FLAG_LASTFRAG \<noteq> 0 \<and> contig 0 l"
    have "datagram_ok (i_hp s) L B D r1" using taken(1) rs1 by (simp add: reass_inv_def)
    then obtain g where "g \<in> set l" "unat (fr_end g) = length (snd (D k))"
      using a sf1 by (auto simp: datagram_ok_def Let_def so_far_def r1_def)
    then show "covers (frag_at B ` insert p ds) 0 (length (snd (D k)))" using contig_covers [of 0 l g] a sl by simp
  next
    assume c: "covers (frag_at B ` insert p ds) 0 (length (snd (D k)))"
    have sp: "\<forall>q\<in>insert p ds. piece_of B D k q" using pc by simp
    have "contig 0 l"
      by (rule covers_contig [OF l(2), of "length (snd (D k))"]) (use sp c sl piece_span(1,2) [where k = k] in auto)
    moreover have "0 < length (snd (D k))" using piece_span(1,2) [OF pc(1)] by (auto simp: word_less_nat_alt)
    then have "length (snd (D k)) - 1 < length (snd (D k))" by simp
    then obtain q where q: "q \<in> insert p ds" "length (snd (D k)) - 1 < unat (fr_end (frag_at B q))"
      using c unfolding covers_def by blast
    then have "IPH_OFFSET (B q) AND lwip_ntohs IP_MF = 0" using piece_span(2,3) [of B D k q] sp by fastforce
    then have "rd_flags r1 AND IP_REASS_FLAG_LASTFRAG \<noteq> 0" using sf1 q(1) by (auto simp: so_far_def)
    ultimately show "rd_flags r1 AND IP_REASS_FLAG_LASTFRAG \<noteq> 0 \<and> contig 0 l" by blast
  qed
  have "frag_key (B p) = k" using pc(1) by (simp add: piece_of_def)
  then show ?thesis using taken rs1 sf1 cnt iff result_whole by (intro exI [of _ s1] exI [of _ r1]) (auto split: if_splits)
qed

section \<open>All of them\<close>

definition queued_so_far ::
    "(nat \<Rightarrow> nat list) \<Rightarrow> (nat \<Rightarrow> u8 list) \<Rightarrow> datagrams \<Rightarrow> ip4_addr_t \<times> ip4_addr_t \<times> u16 \<Rightarrow> nat list \<Rightarrow> 'w ip_st \<Rightarrow> bool" where
  "queued_so_far L B D k ds s \<longleftrightarrow> reass_inv L B D s \<and> unat (ip_reass_pbufcount s) = length (concat (map L ds)) \<and>
     (if ds = [] then reassdatagrams s = [] else \<exists>r. reassdatagrams s = [r] \<and> so_far B k (set ds) r)"

lemma datagram_ok_header:
  assumes "datagram_ok h L B D r" and "fragment_of D bs" and "frag_key (rd_iphdr r) = frag_key bs"
  shows "datagram_ok h L B D (r\<lparr>rd_iphdr := take 20 bs\<rparr>)"
proof -
  have l: "20 \<le> length bs" "bs ! 0 = 0x45" "IPH_PROTO bs = fst (D (frag_key bs))" using assms(2) by (auto simp: fragment_of_def Let_def)
  show ?thesis using assms take_20_fields [OF l(1)] l by (auto simp: datagram_ok_def Let_def)
qed

text \<open>Where the next fragment goes: into a new datagram or the one that is there.\<close>

lemma next_place:
  assumes a: "queued_so_far L B D k ds s" and inc: "incoming L D p (L p) (B p) s" and pc: "piece_of B D k p" and mem: "ie_reassdata e s"
  shows "\<exists>s0 r. reass_place e p (take 20 (B p)) (of_nat (length (L p))) s =
      ip4_reass_into e p (take 20 (B p)) (of_nat (length (L p))) 0 s0 \<and> reass_base L B D s0 \<and> reassdatagrams s0 = [r] \<and>
      so_far B k (set ds) r \<and> i_hp s0 = i_hp s \<and> ip_reass_pbufcount s0 = ip_reass_pbufcount s \<and> incoming L D p (L p) (B p) s0"
proof -
  let ?bs = "B p"
  have fo: "fragment_of D ?bs" and key: "frag_key ?bs = k" using pc by (auto simp: piece_of_def)
  have l: "20 \<le> length ?bs" "?bs ! 0 = 0x45" "IPH_PROTO ?bs = fst (D (frag_key ?bs))" "length (snd (D (frag_key ?bs))) \<le> 65515"
    using fo by (auto simp: fragment_of_def Let_def)
  note t = take_20_fields [OF l(1)]
  have b: "reass_base L B D s" using a by (simp add: queued_so_far_def reass_inv_base)
  show ?thesis
  proof (cases "ds = []")
    case True
    define r where "r = \<lparr>rd_frags = [], rd_iphdr = take 20 ?bs, rd_datagram_len = 0, rd_flags = 0, rd_timer = IP_REASS_MAXAGE\<rparr>"
    define s0 where "s0 = s\<lparr>reassdatagrams := [r]\<rparr>"
    have rs: "reassdatagrams s = []" using a True by (simp add: queued_so_far_def)
    have dr: "datagram_ok (i_hp s) L B D r" using l t by (simp add: datagram_ok_def r_def Let_def)
    have "reass_base L B D s0" "incoming L D p (L p) ?bs s0"
      using b inc dr rs by (simp_all add: reass_base_def incoming_def s0_def r_def)
    moreover have "so_far B k (set ds) r" using key t True by (simp add: so_far_def r_def)
    moreover have "reass_place e p (take 20 ?bs) (of_nat (length (L p))) s = ip4_reass_into e p (take 20 ?bs) (of_nat (length (L p))) 0 s0"
      using mem by (simp add: reass_place_def rs ip_reass_enqueue_new_datagram_def IP_HLEN_def s0_def r_def)
    ultimately show ?thesis by (intro exI [of _ s0] exI [of _ r]) (simp add: s0_def)
  next
    case False
    then obtain r where rs: "reassdatagrams s = [r]" and sf: "so_far B k (set ds) r" using a by (auto simp: queued_so_far_def)
    let ?c = "lwip_ntohs (IPH_OFFSET (take 20 ?bs)) AND IP_OFFMASK = 0 \<and> lwip_ntohs (IPH_OFFSET (rd_iphdr r)) AND IP_OFFMASK \<noteq> 0"
    have same: "s\<lparr>reassdatagrams := [r]\<rparr> = s" using rs by (cases s) simp
    define r0 where "r0 = (if ?c then r\<lparr>rd_iphdr := take 20 ?bs\<rparr> else r)"
    define s0 where "s0 = s\<lparr>reassdatagrams := [r0]\<rparr>"
    have kr: "frag_key (rd_iphdr r) = frag_key ?bs" using sf key by (simp add: so_far_def)
    have dr: "datagram_ok (i_hp s) L B D r" using b rs by (simp add: reass_base_def)
    have dr0: "datagram_ok (i_hp s) L B D r0" using dr datagram_ok_header [OF dr fo kr] by (simp add: r0_def)
    have f0: "rd_frags r0 = rd_frags r" "frag_key (rd_iphdr r0) = k" "rd_flags r0 = rd_flags r" using kr key t by (auto simp: r0_def)
    have "reass_base L B D s0" "incoming L D p (L p) ?bs s0"
      using b inc dr0 rs f0 by (simp_all add: reass_base_def incoming_def s0_def)
    moreover have "so_far B k (set ds) r0" using sf f0 by (simp add: so_far_def)
    moreover have "find_datagram (take 20 ?bs) (reassdatagrams s) = Some 0" using kr t by (simp add: rs match_key)
    then have "reass_place e p (take 20 ?bs) (of_nat (length (L p))) s = ip4_reass_into e p (take 20 ?bs) (of_nat (length (L p))) 0 s0"
      by (cases ?c) (auto simp: reass_place_def rs IP_HLEN_def s0_def r0_def Let_def same)
    ultimately show ?thesis by (intro exI [of _ s0] exI [of _ r0]) (simp add: s0_def)
  qed
qed

lemma reass_next:
  assumes a: "queued_so_far L B D k ds s" and inc: "incoming L D p (L p) (B p) s" and pc: "piece_of B D k p" "\<forall>q\<in>set ds. piece_of B D k q"
    and ap: "\<forall>q\<in>set ds. disjoint_frags B q p" and mem: "ie_reassdata e s" and chk: "ie_chksum e = lwip_standard_chksum_2"
    and room: "length (concat (map L (ds @ [p]))) \<le> IP_REASS_MAX_PBUFS"
  shows "if covers (frag_at B ` insert p (set ds)) 0 (length (snd (D k)))
     then \<exists>s' q. ip4_reass e p s = Some (s', Some q) \<and> whole_datagram D k (i_hp s') q \<and> reassdatagrams s' = []
     else \<exists>s1. ip4_reass e p s = Some (s1, None) \<and> queued_so_far L B D k (ds @ [p]) s1 \<and> i_hp s1 = i_hp s"
proof -
  obtain s0 r where s0: "reass_place e p (take 20 (B p)) (of_nat (length (L p))) s =
      ip4_reass_into e p (take 20 (B p)) (of_nat (length (L p))) 0 s0" "reass_base L B D s0" "reassdatagrams s0 = [r]"
      "so_far B k (set ds) r" "i_hp s0 = i_hp s" "ip_reass_pbufcount s0 = ip_reass_pbufcount s" "incoming L D p (L p) (B p) s0"
    using next_place [OF a inc pc(1) mem] by blast
  have cnt: "unat (ip_reass_pbufcount s) = length (concat (map L ds))" using a by (simp add: queued_so_far_def)
  have rm: "unat (ip_reass_pbufcount s) + length (L p) \<le> IP_REASS_MAX_PBUFS" using room cnt by simp
  have cl: "unat (of_nat (length (L p)) :: u16) = length (L p)" using inc by (simp add: incoming_def unat_of_nat_u16)
  have run: "ip4_reass e p s = ip4_reass_into e p (take 20 (B p)) (of_nat (length (L p))) 0 s0"
    unfolding ip4_reass_run [OF inc refl refl] using rm s0(1) by (simp add: cl)
  obtain s1 r1 where s1: "reass_inv L B D s1" "reassdatagrams s1 = [r1]" "so_far B k (insert p (set ds)) r1" "i_hp s1 = i_hp s"
      "unat (ip_reass_pbufcount s1) = unat (ip_reass_pbufcount s) + length (L p)"
      "if covers (frag_at B ` insert p (set ds)) 0 (length (snd (D k)))
       then \<exists>s' q. ip4_reass_into e p (take 20 (B p)) (of_nat (length (L p))) 0 s0 = Some (s', Some q) \<and>
         whole_datagram D k (i_hp s') q \<and> reassdatagrams s' = []
       else ip4_reass_into e p (take 20 (B p)) (of_nat (length (L p))) 0 s0 = Some (s1, None)"
    using next_piece [OF s0(2,7,3,4) pc ap _ chk, unfolded s0(5,6), OF rm] by blast
  have "queued_so_far L B D k (ds @ [p]) s1" using s1(1-3,5) cnt by (simp add: queued_so_far_def)
  then show ?thesis using s1(4,6) run by auto
qed

text \<open>One fragment after the other.\<close>

fun reass_all :: "'w ip_env \<Rightarrow> nat list \<Rightarrow> 'w ip_st \<Rightarrow> ('w ip_st \<times> nat option list) option" where
  "reass_all e [] s = Some (s, [])"
| "reass_all e (p # ps) s = do { (s, r) \<leftarrow> ip4_reass e p s; (s, rs) \<leftarrow> reass_all e ps s; Some (s, r # rs) }"

definition in_piece :: "(nat \<Rightarrow> u8 list) \<Rightarrow> nat \<Rightarrow> nat \<Rightarrow> bool" where
  "in_piece B p x \<longleftrightarrow> unat (fr_start (frag_at B p)) \<le> x \<and> x < unat (fr_end (frag_at B p))"

definition covers_once :: "(nat \<Rightarrow> u8 list) \<Rightarrow> nat set \<Rightarrow> nat \<Rightarrow> bool" where
  "covers_once B ps n \<longleftrightarrow> (\<forall>x<n. \<exists>!p. p \<in> ps \<and> in_piece B p x)"

lemma covers_once_disjoint:
  assumes "covers_once B ps (length (snd (D k)))" and "p \<in> ps" "q \<in> ps" "p \<noteq> q" and pc: "piece_of B D k p" "piece_of B D k q"
  shows "disjoint_frags B p q"
proof (rule ccontr)
  assume n: "\<not> disjoint_frags B p q"
  define x where "x = max (unat (fr_start (frag_at B p))) (unat (fr_start (frag_at B q)))"
  have "in_piece B p x" "in_piece B q x"
    using n piece_span(1) [OF pc(1)] piece_span(1) [OF pc(2)]
    by (auto simp: in_piece_def x_def disjoint_frags_def word_le_nat_alt word_less_nat_alt)
  moreover from this have "x < length (snd (D k))" using piece_span(2) [OF pc(1)] by (simp add: in_piece_def)
  ultimately show False using assms(1-4) unfolding covers_once_def by blast
qed

lemma covers_once_covers:
  assumes t: "covers_once B (ds \<union> ps) (length (snd (D k)))" and dj: "ds \<inter> ps = {}" and pc: "\<forall>p\<in>ps. piece_of B D k p"
  shows "covers (frag_at B ` ds) 0 (length (snd (D k))) \<longleftrightarrow> ps = {}"
proof
  assume c: "covers (frag_at B ` ds) 0 (length (snd (D k)))"
  show "ps = {}"
  proof (rule ccontr)
    assume "ps \<noteq> {}"
    then obtain p where p: "p \<in> ps" "piece_of B D k p" using pc by blast
    let ?x = "unat (fr_start (frag_at B p))"
    have x: "in_piece B p ?x" "?x < length (snd (D k))"
      using piece_span(1,2) [OF p(2)] by (auto simp: in_piece_def word_less_nat_alt)
    then obtain q where "q \<in> ds" "in_piece B q ?x" using c by (auto simp: covers_def in_piece_def)
    then show False using t x p(1) dj unfolding covers_once_def by blast
  qed
next
  assume "ps = {}"
  then show "covers (frag_at B ` ds) 0 (length (snd (D k)))" using t by (fastforce simp: covers_def covers_once_def in_piece_def)
qed

text \<open>The fragments that are still to come.\<close>

definition coming :: "(nat \<Rightarrow> nat list) \<Rightarrow> (nat \<Rightarrow> u8 list) \<Rightarrow> hp \<Rightarrow> nat \<Rightarrow> bool" where
  "coming L B h p \<longleftrightarrow> owned h p (L p) (B p) \<and>
     (\<exists>q. pbufs h p = Some q \<and> (if IPH_OFFSET_BYTES (B p) = 0 then 28 else 20) \<le> unat (pb_len q))"

lemma reass_rest:
  assumes chk: "ie_chksum e = lwip_standard_chksum_2" and mem: "\<And>s. ie_reassdata e s"
  shows "queued_so_far L B D k ds s \<Longrightarrow> \<forall>p\<in>set (ds @ ps). piece_of B D k p \<Longrightarrow> \<forall>p\<in>set ps. coming L B (i_hp s) p \<Longrightarrow>
    covers_once B (set (ds @ ps)) (length (snd (D k))) \<Longrightarrow> distinct (concat (map L (ds @ ps))) \<Longrightarrow> distinct (ds @ ps) \<Longrightarrow>
    length (concat (map L (ds @ ps))) \<le> IP_REASS_MAX_PBUFS \<Longrightarrow> ps \<noteq> [] \<Longrightarrow>
    \<exists>s' q. reass_all e ps s = Some (s', replicate (length ps - 1) None @ [Some q]) \<and> whole_datagram D k (i_hp s') q \<and> reassdatagrams s' = []"
proof (induction ps arbitrary: ds s)
  case (Cons p ps)
  have inv: "reass_inv L B D s" using Cons.prems(1) by (simp add: queued_so_far_def)
  have pc: "piece_of B D k p" "\<forall>q\<in>set ds. piece_of B D k q" using Cons.prems(2) by auto
  have qs: "set (queued_bufs (reassdatagrams s)) = set ds"
    using Cons.prems(1) by (auto simp: queued_so_far_def so_far_def image_image frag_of_def split: if_splits)
  have "length (L p) < 65536" using Cons.prems(7) by (simp add: IP_REASS_MAX_PBUFS_def)
  moreover have "set (L p) \<inter> set (queue_bufs L s) = {}" using Cons.prems(5) qs by auto
  ultimately have inc: "incoming L D p (L p) (B p) s"
    using Cons.prems(3) pc(1) by (simp add: incoming_def coming_def piece_of_def)
  have ap: "\<forall>q\<in>set ds. disjoint_frags B q p"
    using covers_once_disjoint [where D = D and k = k, OF Cons.prems(4)] pc Cons.prems(6) by auto
  have room: "length (concat (map L (ds @ [p]))) \<le> IP_REASS_MAX_PBUFS" using Cons.prems(7) by simp
  have cov: "covers (frag_at B ` insert p (set ds)) 0 (length (snd (D k))) \<longleftrightarrow> ps = []"
    using covers_once_covers [of B "insert p (set ds)" "set ps" D k] Cons.prems(2,4,6) by simp
  note nx = reass_next [OF Cons.prems(1) inc pc ap mem chk room, unfolded cov]
  show ?case
  proof (cases "ps = []")
    case True
    then show ?thesis using nx by auto
  next
    case False
    then obtain s1 where s1: "ip4_reass e p s = Some (s1, None)" "queued_so_far L B D k (ds @ [p]) s1" "i_hp s1 = i_hp s" using nx by auto
    obtain s' q where "reass_all e ps s1 = Some (s', replicate (length ps - 1) None @ [Some q])" "whole_datagram D k (i_hp s') q"
        "reassdatagrams s' = []"
      using Cons.IH [OF s1(2) _ _ _ _ _ _ False] Cons.prems(2-7) s1(3) by auto
    moreover have "replicate (length ps) (None :: nat option) = None # replicate (length ps - 1) None" using False by (cases ps) auto
    ultimately show ?thesis using s1(1) by auto
  qed
qed simp

end
