(* ===== verification/Reass_claims.thy ===== *)
theory Reass_claims imports Reass_any Pbuf_spec begin

text \<open>
  What the reassembly of IPv4 datagrams promises, each property with a witness on a heap that holds
  the two fragments of a datagram of nine bytes.
\<close>

section \<open>Two fragments\<close>

definition frag_a :: "u8 list" where
  "frag_a = [0x45, 0, 0, 28, 0, 1, 0x20, 0, 64, 17, 0, 0, 10, 0, 0, 1, 10, 0, 0, 2, 1, 2, 3, 4, 5, 6, 7, 8]"

definition frag_b :: "u8 list" where
  "frag_b = [0x45, 0, 0, 21, 0, 1, 0, 1, 64, 17, 0, 0, 10, 0, 0, 1, 10, 0, 0, 2, 9]"

definition frag_hp :: hp where
  "frag_hp =
     \<lparr>bytes = (\<lambda>x. if 88 \<le> x \<and> x < 116 then Some (frag_a ! (x - 88)) else if 152 \<le> x \<and> x < 173 then Some (frag_b ! (x - 152)) else None),
      blocks = [64 \<mapsto> 52, 128 \<mapsto> 45],
      pbufs = [64 \<mapsto> small_pbuf None 88 28 28, 128 \<mapsto> small_pbuf None 152 21 21],
      pbuf_free_ooseq_pending = False\<rparr>"

definition frag_env :: "unit ip_env" where
  "frag_env = \<lparr>ie_alloc = arena_alloc, ie_chksum = lwip_standard_chksum_2, ie_netif_default = None, ie_reassdata = (\<lambda>s. True),
     ie_udp_input = (\<lambda>g p n s. Some s), ie_tcp_input = (\<lambda>g p n s. Some s)\<rparr>"

definition frag_st :: "unit ip_st" where
  "frag_st = \<lparr>i_hp = frag_hp, ip_id = 0, reassdatagrams = [], ip_reass_pbufcount = 0, i_sent = [], i_world = ()\<rparr>"

definition frag_L :: "nat \<Rightarrow> nat list" where "frag_L p = [p]"
definition frag_B :: "nat \<Rightarrow> u8 list" where "frag_B p = (if p = 64 then frag_a else frag_b)"
definition frag_D :: datagrams where "frag_D k = (17, [1, 2, 3, 4, 5, 6, 7, 8, 9])"
definition frag_k :: "ip4_addr_t \<times> ip4_addr_t \<times> u16" where "frag_k = frag_key frag_a"

lemma frag_hp_ok: "hp_ok frag_hp"
  by (auto simp: hp_ok_def blocks_ok_def pbuf_ok_def frag_hp_def SIZEOF_STRUCT_PBUF_def split: if_splits)

lemma frag_loads: "load (bytes frag_hp) 88 28 = Some frag_a" "load (bytes frag_hp) 152 21 = Some frag_b"
  by (simp_all add: frag_hp_def load_def upt_rec frag_a_def frag_b_def)

lemma frag_pbufs: "pbufs frag_hp 64 = Some (small_pbuf None 88 28 28)" "pbufs frag_hp 128 = Some (small_pbuf None 152 21 21)"
  by (simp_all add: frag_hp_def)

lemma frag_pb_bytes: "pb_bytes frag_hp 64 = frag_a" "pb_bytes frag_hp 128 = frag_b"
  by (simp_all add: pb_bytes_def frag_pbufs frag_loads)

lemma frag_lengths: "length frag_a = 28" "length frag_b = 21"
  by (simp_all add: frag_a_def frag_b_def)

lemma frag_owned: "owned frag_hp 64 [64] frag_a" "owned frag_hp 128 [128] frag_b"
  by (simp_all add: owned_def packet.simps(2) sole_owner_def frag_pbufs frag_pb_bytes frag_loads frag_lengths)

lemma frag_of_frags: "fragment_of frag_D frag_a" "fragment_of frag_D frag_b"
  by (simp_all add: fragment_of_def frag_D_def Let_def frag_a_def frag_b_def IPH_LEN_def IPH_OFFSET_BYTES_def IPH_OFFSET_def IPH_PROTO_def
      ld16_def lwip_ntohs_def lwip_htons_def IP_OFFMASK_def IP_MF_def)

lemma frag_spans: "IPH_OFFSET_BYTES frag_a = 0" "span_end frag_a = 8" "IPH_OFFSET_BYTES frag_b = 8" "span_end frag_b = 9"
  by (simp_all add: span_end_def frag_a_def frag_b_def IPH_LEN_def IPH_OFFSET_BYTES_def IPH_OFFSET_def ld16_def lwip_ntohs_def lwip_htons_def
      IP_OFFMASK_def)

lemma frag_keys: "frag_key frag_b = frag_k"
  by (simp add: frag_k_def frag_key_def frag_a_def frag_b_def iph_src_def iph_dest_def IPH_ID_def)

lemma frag_env_ok: "env_ok frag_env" "ie_chksum frag_env = lwip_standard_chksum_2" "ie_reassdata frag_env s"
  by (simp_all add: env_ok_def frag_env_def arena_alloc_ok)

lemma frag_run: "reass_run frag_env frag_D frag_st"
  by (rule run_start) (simp_all add: frag_st_def frag_hp_ok)

lemma frag_coming: "coming frag_L frag_B frag_hp 64" "coming frag_L frag_B frag_hp 128"
  by (simp_all add: coming_def frag_L_def frag_B_def frag_owned frag_pbufs frag_spans)

lemma frag_pieces: "piece_of frag_B frag_D frag_k 64" "piece_of frag_B frag_D frag_k 128"
  by (simp_all add: piece_of_def frag_B_def frag_of_frags frag_keys frag_lengths) (simp add: frag_k_def)

lemma frag_arriving: "arriving frag_D 64 frag_a frag_st" "arriving frag_D 128 frag_b frag_st"
  using frag_owned frag_pbufs frag_of_frags frag_spans
  by (auto simp: arriving_def not_queued_def frag_st_def)

lemma frag_covers: "covers_once frag_B {64, 128} 9"
proof -
  have "in_piece frag_B 64 x \<longleftrightarrow> x < 8" "in_piece frag_B 128 x \<longleftrightarrow> x = 8" for x
    by (auto simp: in_piece_def frag_of_def frag_B_def frag_spans)
  then show ?thesis unfolding covers_once_def by (metis eval_nat_numeral(3) insert_iff less_SucE nat_less_le singletonD)
qed

section \<open>The properties\<close>

text \<open>C11: Whatever fragments of whatever datagrams have come before, in any order and overlapping
  or doubled as they may be, with the timer and the rest of the stack running in between: a further
  fragment is dealt with without failing one of the code's assertions or reading a freed buffer; the
  queue never holds more buffers than \<^verbatim>\<open>IP_REASS_MAX_PBUFS\<close>; and when \<^verbatim>\<open>ip4_reass\<close> hands a packet
  on, it is the datagram the fragment was cut from, whole, under a header with its length, no
  fragment bits and a checksum that verifies.\<close>

theorem ip4_reass_correct:
  assumes "env_ok e" and "ie_chksum e = lwip_standard_chksum_2" and "reass_run e D s" and "arriving D p bs s"
  shows "\<exists>s' res. ip4_reass e p s = Some (s', res) \<and> reass_run e D s' \<and> unat (ip_reass_pbufcount s') \<le> IP_REASS_MAX_PBUFS \<and>
    (\<forall>q. res = Some q \<longrightarrow> whole_datagram D (frag_key bs) (i_hp s') q)"
proof -
  obtain L B as where i: "reass_inv L B D s" and "incoming L D p as bs s"
    using reass_run_inv [OF assms(1-3)] arriving_incoming [OF _ assms(4)] by blast
  from ip4_reass_ok [OF assms(1,2) this] obtain s' res where s': "ip4_reass e p s = Some (s', res)"
      "\<exists>L B. reass_inv L B D s' \<and> result_ok D bs L s' res" unfolding reass_post_def by blast
  have "reass_run e D s'" by (rule run_fragment [OF assms(3,4) s'(1)])
  then show ?thesis using s' result_whole by (auto simp: reass_inv_def)
qed

theorem ip4_reass_correct_witness:
  "\<exists>s' res. ip4_reass frag_env 128 frag_st = Some (s', res) \<and> unat (ip_reass_pbufcount s') \<le> 10 \<and>
    (\<forall>q. res = Some q \<longrightarrow> whole_datagram frag_D (frag_key frag_b) (i_hp s') q)"
  using ip4_reass_correct [OF frag_env_ok(1,2) frag_run frag_arriving(2)] by (auto simp: IP_REASS_MAX_PBUFS_def)

text \<open>C12: The fragments of one datagram, not more than \<^verbatim>\<open>IP_REASS_MAX_PBUFS\<close> buffers of them, which
  cover its data once, may come in any order: none is dropped, all but the last one wait, and with
  the last one \<^verbatim>\<open>ip4_reass\<close> hands on the whole datagram and the queue is empty again.\<close>

theorem ip4_reass_any_order:
  assumes "ie_chksum e = lwip_standard_chksum_2" and "\<And>s. ie_reassdata e s"
    and "hp_ok (i_hp s)" and "reassdatagrams s = []" and "ip_reass_pbufcount s = 0"
    and "\<forall>p\<in>set ps. coming L B (i_hp s) p \<and> piece_of B D k p" and "covers_once B (set ps) (length (snd (D k)))"
    and "distinct (concat (map L ps))" and "length (concat (map L ps)) \<le> IP_REASS_MAX_PBUFS" and "ps \<noteq> []"
  shows "\<exists>s' q. reass_all e ps s = Some (s', replicate (length ps - 1) None @ [Some q]) \<and>
    whole_datagram D k (i_hp s') q \<and> reassdatagrams s' = []"
proof -
  have "p \<in> set (L p)" if "p \<in> set ps" for p
  proof -
    have "owned (i_hp s) p (L p) (B p)" using assms(6) that by (simp add: coming_def)
    then show ?thesis by (elim ownedD) simp
  qed
  then have "\<forall>p\<in>set ps. p \<in> set (L p)" by blast
  with assms(8) have "distinct ps" by (rule distinct_own)
  moreover have "queued_so_far L B D k [] s" using assms(3-5) by (simp add: queued_so_far_def reass_inv_def)
  ultimately show ?thesis using reass_rest [OF assms(1,2), of L B D k "[]" s ps] assms(6-10) by simp
qed

theorem ip4_reass_any_order_witness:
  "\<exists>s' q. reass_all frag_env [128, 64] frag_st = Some (s', [None, Some q]) \<and>
    whole_datagram frag_D frag_k (i_hp s') q \<and> reassdatagrams s' = []"
proof -
  have s: "i_hp frag_st = frag_hp" "reassdatagrams frag_st = []" "ip_reass_pbufcount frag_st = 0" by (simp_all add: frag_st_def)
  have d: "length (snd (frag_D frag_k)) = 9" by (simp add: frag_D_def)
  have t: "covers_once frag_B (set [128, 64]) (length (snd (frag_D frag_k)))" using frag_covers by (simp add: d insert_commute)
  show ?thesis
    using ip4_reass_any_order [OF frag_env_ok(2,3), of frag_st "[128, 64]" frag_L frag_B frag_D frag_k, OF _ s(2,3) _ t]
      frag_coming frag_pieces frag_hp_ok by (simp add: s frag_L_def IP_REASS_MAX_PBUFS_def)
qed

text \<open>C13: \<^verbatim>\<open>ip_reass_tmr\<close> ends in every state the queue can be in: the datagrams that have had their
  time are freed with all their buffers, the others are kept in order, one tick older, and
  the count of the buffers is that of the buffers left.\<close>

theorem ip_reass_tmr_correct:
  assumes "env_ok e" and "ie_chksum e = lwip_standard_chksum_2" and "reass_run e D s"
  shows "\<exists>s' L. ip_reass_tmr e s = Some s' \<and> reass_run e D s' \<and> reassdatagrams s' = tick (reassdatagrams s) \<and>
    (\<forall>p\<in>set (queued_bufs (reassdatagrams s')). packet (i_hp s') (Some p) (L p)) \<and>
    unat (ip_reass_pbufcount s') = length (concat (map L (queued_bufs (reassdatagrams s'))))"
proof -
  obtain L B where i: "reass_inv L B D s" using reass_run_inv [OF assms] by blast
  obtain s' where s': "ip_reass_tmr_from e 0 s = Some s'" "reass_inv L B D s'" using tmr_from_ok [OF assms(1) i] by blast
  have t: "ip_reass_tmr e s = Some s'" using s'(1) by (simp add: ip_reass_tmr_def)
  have "reassdatagrams s' = tick (reassdatagrams s)" using tmr_from_tick [OF assms(1) i s'(1)] by simp
  moreover have "packet (i_hp s') (Some p) (L p)" if p: "p \<in> set (queued_bufs (reassdatagrams s'))" for p
    using queued_packet [OF s'(2) p] .
  ultimately show ?thesis using t s'(2) run_timer [OF assms(3) t] unfolding reass_inv_def by blast
qed

theorem ip_reass_tmr_correct_witness:
  "\<exists>s1 s2. ip4_reass frag_env 128 frag_st = Some (s1, None) \<and> length (reassdatagrams s1) = 1 \<and>
    ip_reass_tmr frag_env s1 = Some s2 \<and> reassdatagrams s2 = tick (reassdatagrams s1)"
proof -
  have a: "queued_so_far frag_L frag_B frag_D frag_k [] frag_st" by (simp add: queued_so_far_def reass_inv_def frag_st_def frag_hp_ok)
  have inc: "incoming frag_L frag_D 128 (frag_L 128) (frag_B 128) frag_st"
    using frag_coming(2) frag_pieces(2) by (simp add: incoming_def coming_def piece_of_def frag_L_def frag_st_def)
  have d: "length (snd (frag_D frag_k)) = 9" by (simp add: frag_D_def)
  have t: "covers_once frag_B ({128} \<union> {64}) (length (snd (frag_D frag_k)))" using frag_covers by (simp add: d insert_commute)
  have "\<not> covers (frag_at frag_B ` insert 128 (set [])) 0 (length (snd (frag_D frag_k)))"
    using covers_once_covers [where D = frag_D and k = frag_k, OF t] frag_pieces(1) by simp
  with reass_next [OF a inc frag_pieces(2) _ _ frag_env_ok(3,2)] obtain s1 where
    s1: "ip4_reass frag_env 128 frag_st = Some (s1, None)" "queued_so_far frag_L frag_B frag_D frag_k [128] s1"
    by (auto simp: frag_L_def IP_REASS_MAX_PBUFS_def)
  have "reass_run frag_env frag_D s1" by (rule run_fragment [OF frag_run frag_arriving(2) s1(1)])
  from ip_reass_tmr_correct [OF frag_env_ok(1,2) this] show ?thesis using s1 by (auto simp: queued_so_far_def)
qed

end
