(* ===== verification/Spec2Isabelle.thy ===== *)
theory Spec2Isabelle imports Udp_spec Timeouts Tcp_conn_spec N2t_spec N2t_udp Ip4_in Reass_claims begin

text \<open>
  A verification development for libn2t. The library turns the packets of a tun device into
  connections: \<^verbatim>\<open>N2T\<close> (\<^verbatim>\<open>src/src/n2t\<close>, C++) feeds them to a TCP/IP stack, the core of lwIP
  (\<^verbatim>\<open>src/src/lwip/src/core\<close>, C, with changes: it accepts connections to every address and port), and
  forwards each TCP connection and each UDP client to a SOCKS5 proxy. The theories model the stack and
  the library as this repository builds them: \<^verbatim>\<open>NO_SYS\<close>, malloc for heap and pools, IPv4, IPv6
  addresses, ICMP, UDP and TCP with window scaling, SACK and the queue of segments out of order, all
  checksums in software, one interface, no ARP. \<^verbatim>\<open>LWIP_ASSERT\<close> and \<^verbatim>\<open>LWIP_ERROR\<close> abort.

  \<^bold>\<open>Conventions.\<close> C integers are words of their width, so wrap-around is the words' own; the host is
  little-endian. An option is a run that may stop: \<open>None\<close> stands for a failed assertion, a pointer that
  leads to no live object, or a loop that does not end; error codes are values of \<open>err_t\<close>.
  A theorem that a routine has a result \<open>Some\<close> therefore says that it fails no assertion, touches no
  freed object and ends. A loop is a recursive function where a list bounds it, else a \<open>partial_function\<close>
  without fuel; the only bounds are those of the code (ten buffers in reassembly, the port range, four
  SACK ranges). What is not in the sources, or lies behind a function pointer, is a field of an
  environment record: the allocator, the clock, the layers below and above, the application. State is
  passed explicitly, in records with the C structs' fields.

  \<^bold>\<open>Memory and packet buffers\<close> (\<^verbatim>\<open>mem.c\<close>, \<^verbatim>\<open>memp.c\<close>, \<^verbatim>\<open>pbuf.c\<close>). \<open>Mem\<close>: byte memory,
  the blocks malloc has handed out, the pbuf structs by address. \<open>Pbuf\<close>: the routines. \<open>Pbuf_props\<close>,
  \<open>Pbuf_update\<close>, \<open>Pbuf_alloc\<close>: their effect on the bytes of a chain under the heap invariant \<open>hp_ok\<close>;
  \<open>Pbuf_frame\<close>: the same as a frame calculus (\<open>owned\<close>, \<open>keeps\<close>) for the layers that hold several packets at a
  time. \<open>Pbuf_spec\<close>: the properties: allocation, freeing by reference count, shrinking, header room,
  reading and writing are what they are on the byte list of the chain.

  \<^bold>\<open>Checksums, addresses, header fields\<close> (\<^verbatim>\<open>inet_chksum.c\<close>, \<^verbatim>\<open>def.c\<close>, \<^verbatim>\<open>ip4_addr.c\<close>,
  \<^verbatim>\<open>ip_addr.h\<close>). \<open>Chksum_alg\<close>: the three versions of the summing routine and their equality with the
  ones-complement sum; \<open>Inet_chksum\<close>: the functions over chains and pseudo headers, in the locale
  \<open>chksum_routine\<close> that each version interprets; \<open>Ip_addr\<close>: addresses with parser and printer; \<open>Wire\<close>: fields
  of headers in memory.

  \<^bold>\<open>IPv4 and ICMP\<close> (\<^verbatim>\<open>ip4.c\<close>, \<^verbatim>\<open>ip4_frag.c\<close>, \<^verbatim>\<open>icmp.c\<close>). \<open>Ip4\<close>: routing, the header,
  fragmentation, and the interface's output routine, which is the library's; \<open>Icmp\<close>: echo and error
  messages; \<open>Ip_reass\<close>: the queue of fragments; \<open>Ip4_in\<close>: \<^verbatim>\<open>ip4_input\<close>. The state is \<open>ip_st\<close>: the heap, the
  module's static variables, the packets given to the interface. \<open>Ip4_ok\<close>: output and messages leave
  other packets alone. \<open>Reass_ok\<close>, \<open>Reass_spec\<close>, \<open>Reass_take\<close>: the invariant of the queue (the fragments of an
  entry are in order, apart, and hold the pieces of their datagram; the count is right; no buffer is in
  two chains) and that each routine keeps it; \<open>Reass_props\<close>, \<open>Reass_any\<close>: histories of the queue, and the
  fragments of one datagram in any order; \<open>Reass_claims\<close>: the properties. A pointer to an entry of the
  queue is its position, and the helper structs that the code lays over the fragments' headers are a list in the entry.

  \<^bold>\<open>Timers\<close> (\<^verbatim>\<open>timeouts.c\<close>). \<open>Timeouts\<close>: the list ordered by due time under 32-bit wrap-around, cyclic
  timers, the main loop's check. Times compare correctly while they lie within half the range of each other;
  the properties say so. \<open>timer_reach\<close> are the states under any calls, with handlers that call the timers
  themselves; in all of them at most one TCP timeout is pending.

  \<^bold>\<open>UDP\<close> (\<^verbatim>\<open>udp.c\<close>). \<open>Ports\<close>: the port search, a locale which UDP's and TCP's versions interpret; \<open>Udp\<close>: the
  module; \<open>Udp_spec\<close>: exclusive binding, the transparent input of this repository, checksums.

  \<^bold>\<open>TCP\<close> (\<^verbatim>\<open>tcp.c\<close>, \<^verbatim>\<open>tcp_in.c\<close>, \<^verbatim>\<open>tcp_out.c\<close>). Bottom up: \<open>Tcp_base\<close> (blocks, segments, sequence
  numbers), \<open>Tcp_opt\<close> (options, SACK ranges), \<open>Tcp_recv\<close> (text in and out of order), \<open>Tcp_send\<close> (queueing),
  \<open>Tcp_out\<close> (headers, output, retransmission), \<open>Tcp_ack\<close> (acknowledgements, congestion window, round-trip
  time), \<open>Tcp_conn\<close> (the four lists, the operations of the application), \<open>Tcp_tmr\<close> (slow and fast timer),
  \<open>Tcp_input\<close> (\<^verbatim>\<open>tcp_input\<close>, \<^verbatim>\<open>tcp_process\<close>). A single connection's routines work on its record; the
  connection level on the store \<open>tcp_st\<close> of blocks by address, with the lists as lists of addresses, since
  callbacks may free any block. The abstract views: the peer's byte stream (\<open>Tcp_stream\<close>: what is handed over is a
  prefix of it), the written stream (\<open>Tcp_tx\<close>, \<open>Tcp_txq\<close>, \<open>Tcp_txo\<close>, \<open>Tcp_txf\<close>, \<open>Tcp_wire\<close>: the two send
  queues tile it and packets carry pieces of it within the window), the typing of the four lists
  (\<open>Tcp_kept\<close>, \<open>Tcp_inv\<close>, \<open>Tcp_app\<close>, \<open>Tcp_event\<close>, \<open>Tcp_arrive\<close>, for every application that satisfies the locale
  \<open>tcp_application\<close>), and the diagram of RFC 793 (\<open>Tcp_state\<close>). The properties are in \<open>Tcp_rx_spec\<close>,
  \<open>Tcp_tx_spec\<close> and \<open>Tcp_conn_spec\<close>.

  \<^bold>\<open>The library\<close>. \<open>N2t\<close>: sockets, TCP sessions, accepting, with boost::asio as a list of pending operations
  completed by the environment; \<open>N2t_ok\<close>: these callbacks satisfy \<open>tcp_application\<close>, so what is proved of
  the stack holds under them; \<open>N2t_spec\<close>: bytes are relayed in order, and what happens when a session
  ends, or its client has closed while data waits; \<open>N2t_udp\<close>: UDP sessions, the SOCKS5 encoding and the dispatch of datagrams.

  \<open>Prelude\<close> has the types, loads and stores, and the lemmas on words, lists and maps that all share.

  \<^bold>\<open>Assumptions that stand in statements.\<close> \<open>malloc_ok\<close>: malloc returns aligned memory that is not in use.
  Honest segments and fragments carry the bytes of one stream or datagram at their place; what
  others do to these statements is in the findings. Callbacks return and keep what their contract says.
  The sending states \<open>tx_reach\<close> have four guards that the code does not check: the application writes
  or closes only while no older, retransmitted segment waits in \<open>unsent\<close> behind a younger one in flight
  (\<open>tail_last\<close>), it writes only while the recorded spare room fits the last unsent segment (\<open>tx_room\<close>), the
  retransmission timeout strikes only while \<open>unacked\<close> is older than \<open>unsent\<close> (\<open>queues_split\<close>), and a segment with the
  FIN is not split. All properties of sending are about these states. That \<open>tcp_write\<close> corrupts the stream without the first,
  fails an assertion without the second, and that splitting keeps the FIN in both halves is proved
  in \<open>Tcp_tx_spec\<close>; writing and closing behind such a segment in any other way, and a timeout in that
  situation, are not covered. Options that a segment has are all in its buffers (\<open>opts_fit\<close>, which
  \<open>input_options\<close> ensures); \<open>opts_ok\<close> asks for one byte behind them in addition, and \<open>tcp_parseopt_bounds\<close> says
  what happens without it. A session that relays (\<open>relaying\<close>) may have lost its client; the property says what is
  lost then. That a session is deleted when the last reference to it goes is not modelled.

  \<^bold>\<open>Not modelled.\<close> IPv6 beyond addresses and pseudo headers (\<^verbatim>\<open>ip6.c\<close>, \<^verbatim>\<open>ip6_frag.c\<close>, \<^verbatim>\<open>nd6.c\<close>,
  \<^verbatim>\<open>mld6.c\<close>, \<^verbatim>\<open>icmp6.c\<close>, the text of addresses): future work. Compiled out of this build:
  \<^verbatim>\<open>dns.c\<close>, \<^verbatim>\<open>dhcp.c\<close>, \<^verbatim>\<open>dhcp6.c\<close>, \<^verbatim>\<open>autoip.c\<close>, \<^verbatim>\<open>igmp.c\<close>, \<^verbatim>\<open>etharp.c\<close>, \<^verbatim>\<open>ethip6.c\<close>, \<^verbatim>\<open>raw.c\<close>,
  \<^verbatim>\<open>altcp*.c\<close>, \<^verbatim>\<open>stats.c\<close>, \<^verbatim>\<open>sys.c\<close>, the heap and the pools of \<^verbatim>\<open>mem.c\<close> and \<^verbatim>\<open>memp.c\<close>, statistics,
  debug output and hooks. Pure input and output: the tun device and the examples' main programs. \<^verbatim>\<open>netif.c\<close> sets up the one interface, which here is a record; \<^verbatim>\<open>init.c\<close> checks the configuration.
\<close>

end
